(* ===== verification/Prelude.thy ===== *)
theory Prelude
  imports Main "HOL-Library.AList" "HOL-Library.Sublist" "HOL-Library.Char_ord"
    "HOL-Library.List_Lexorder"
begin

text \<open>
  What every component of the model shares.

  \<^item> JavaScript strings are \<^typ>\<open>string\<close>, a list of code units below 256 (Latin-1);
    trimming, lower-casing, splitting and joining follow ECMAScript on that range.
  \<^item> A JavaScript \<open>Map\<close> is an association list in insertion order: \<open>get\<close> is
    \<^const>\<open>map_of\<close>, \<open>set\<close> is \<^const>\<open>AList.update\<close> (in place, or appended), \<open>delete\<close>
    is \<^const>\<open>AList.delete\<close>; \<open>jm_evict\<close> removes the oldest entry.
  \<^item> A field that may be \<open>undefined\<close> or \<open>null\<close> is an \<open>option\<close>. The code treats a
    missing number and a non-finite one alike wherever it checks, so a number is finite.
  \<^item> The locale \<open>memo_cache\<close> is the interface of the program's bounded caches; a call
    through a coherent cache returns what the cached function returns.
\<close>

section \<open>Collections of facts\<close>

named_theorems js_str \<open>equations of the string helpers\<close>
named_theorems js_map \<open>facts on insertion-ordered maps\<close>

section \<open>Strings\<close>

definition js_ws :: "char \<Rightarrow> bool" where
  "js_ws c \<longleftrightarrow> c \<in> {CHR 0x09, CHR 0x0A, CHR 0x0B, CHR 0x0C, CHR 0x0D, CHR 0x20, CHR 0xA0}"

definition js_trim :: "string \<Rightarrow> string" where
  "js_trim s = rev (dropWhile js_ws (rev (dropWhile js_ws s)))"

definition js_trim_end :: "string \<Rightarrow> string" where
  "js_trim_end s = rev (dropWhile js_ws (rev s))"

definition js_lower_char :: "char \<Rightarrow> char" where
  "js_lower_char c = (let n = (of_char c :: nat) in
     if (65 \<le> n \<and> n \<le> 90) \<or> (192 \<le> n \<and> n \<le> 222 \<and> n \<noteq> 215) then char_of (n + 32) else c)"

definition js_lower :: "string \<Rightarrow> string" where
  "js_lower s = map js_lower_char s"

fun js_split :: "char \<Rightarrow> string \<Rightarrow> string list" where
  "js_split d [] = [[]]"
| "js_split d (c # cs) =
     (if c = d then [] # js_split d cs
      else (case js_split d cs of [] \<Rightarrow> [[c]] | p # ps \<Rightarrow> (c # p) # ps))"

fun js_join :: "string \<Rightarrow> string list \<Rightarrow> string" where
  "js_join sep [] = []"
| "js_join sep [p] = p"
| "js_join sep (p # q # ps) = p @ sep @ js_join sep (q # ps)"

text \<open>\<open>s.split(d).filter(Boolean)\<close>\<close>

definition js_parts :: "char \<Rightarrow> string \<Rightarrow> string list" where
  "js_parts d s = filter (\<lambda>p. p \<noteq> []) (js_split d s)"

text \<open>\<open>(value ?? "")\<close> and \<open>a || b\<close> on strings.\<close>

definition js_or_empty :: "string option \<Rightarrow> string" where
  "js_or_empty v = (case v of None \<Rightarrow> [] | Some s \<Rightarrow> s)"

definition js_or :: "string \<Rightarrow> string \<Rightarrow> string" where
  "js_or a b = (if a = [] then b else a)"

text \<open>A string read as an optional one: \<open>value ? value : undefined\<close>.\<close>

definition js_some :: "string \<Rightarrow> string option" where
  "js_some s = (if s = [] then None else Some s)"

text \<open>\<open>Array.from(new Set(xs))\<close>: the first occurrence of each element, in order.\<close>

definition js_uniq :: "'a list \<Rightarrow> 'a list" where
  "js_uniq xs = rev (remdups (rev xs))"

lemma set_js_uniq [simp]: "set (js_uniq xs) = set xs"
  by (simp add: js_uniq_def)

lemma distinct_js_uniq [simp]: "distinct (js_uniq xs)"
  by (simp add: js_uniq_def)

text \<open>\<open>a ?? b\<close>\<close>

definition js_coalesce :: "'a option \<Rightarrow> 'a option \<Rightarrow> 'a option" where
  "js_coalesce a b = (case a of None \<Rightarrow> b | Some x \<Rightarrow> Some x)"

text \<open>\<open>a ?? b\<close> for a \<open>b\<close> that is there.\<close>

definition js_default :: "'a option \<Rightarrow> 'a \<Rightarrow> 'a" where
  "js_default v d = (case v of None \<Rightarrow> d | Some x \<Rightarrow> x)"

text \<open>Decimal rendering of a non-negative number, for the messages that embed one.\<close>

fun show_nat :: "nat \<Rightarrow> string" where
  "show_nat n = (if n < 10 then [char_of (48 + n)] else show_nat (n div 10) @ [char_of (48 + n mod 10)])"

declare show_nat.simps [simp del]

section \<open>Lemmas on strings\<close>

lemma dropWhile_id: "(xs \<noteq> [] \<Longrightarrow> \<not> P (hd xs)) \<Longrightarrow> dropWhile P xs = xs"
  by (cases xs) auto

lemma js_trim_Nil [simp]: "js_trim [] = []"
  by (simp add: js_trim_def)

lemma js_trim_hd: "js_trim s \<noteq> [] \<Longrightarrow> \<not> js_ws (hd (js_trim s))"
proof -
  assume ne: "js_trim s \<noteq> []"
  let ?d = "dropWhile js_ws s"
  have pre: "prefix (js_trim s) ?d"
    unfolding js_trim_def
    by (metis rev_rev_ident suffix_dropWhile suffix_to_prefix)
  then have d: "?d \<noteq> []" and h: "hd (js_trim s) = hd ?d"
    using ne by (auto simp: prefix_def simp del: dropWhile_eq_Nil_conv)
  from d have "\<not> js_ws (hd ?d)" by (rule hd_dropWhile)
  with h show ?thesis by simp
qed

lemma js_trim_last: "js_trim s \<noteq> [] \<Longrightarrow> \<not> js_ws (last (js_trim s))"
  unfolding js_trim_def by (metis Nil_is_rev_conv hd_dropWhile last_rev)

lemma js_trim_fix:
  "(s \<noteq> [] \<Longrightarrow> \<not> js_ws (hd s)) \<Longrightarrow> (s \<noteq> [] \<Longrightarrow> \<not> js_ws (last s)) \<Longrightarrow> js_trim s = s"
proof -
  assume h: "s \<noteq> [] \<Longrightarrow> \<not> js_ws (hd s)" and l: "s \<noteq> [] \<Longrightarrow> \<not> js_ws (last s)"
  have "dropWhile js_ws s = s" by (rule dropWhile_id) (rule h)
  moreover have "dropWhile js_ws (rev s) = rev s"
    by (rule dropWhile_id) (use l in \<open>simp add: hd_rev\<close>)
  ultimately show ?thesis by (simp add: js_trim_def)
qed

lemma js_trim_idem [simp]: "js_trim (js_trim s) = js_trim s"
  by (rule js_trim_fix) (use js_trim_hd js_trim_last in blast)+

lemma js_trim_no_ws: "(\<And>c. c \<in> set s \<Longrightarrow> \<not> js_ws c) \<Longrightarrow> js_trim s = s"
  by (rule js_trim_fix) auto

lemma set_js_trim: "set (js_trim s) \<subseteq> set s"
  unfolding js_trim_def by (auto dest!: set_dropWhileD)

lemma js_lower_char_idem [simp]: "js_lower_char (js_lower_char c) = js_lower_char c"
  by (auto simp: js_lower_char_def Let_def)

lemma js_lower_idem [simp]: "js_lower (js_lower s) = js_lower s"
  by (simp add: js_lower_def)

lemma js_lower_Nil [simp]: "js_lower [] = []"
  by (simp add: js_lower_def)

lemma js_lower_eq_Nil [simp]: "js_lower s = [] \<longleftrightarrow> s = []"
  by (simp add: js_lower_def)

lemma length_js_lower [simp]: "length (js_lower s) = length s"
  by (simp add: js_lower_def)

lemma js_lower_append [simp]: "js_lower (s @ t) = js_lower s @ js_lower t"
  by (simp add: js_lower_def)

lemma js_lower_fix: "(\<And>c. c \<in> set s \<Longrightarrow> js_lower_char c = c) \<Longrightarrow> js_lower s = s"
  by (simp add: js_lower_def map_idI)

lemma js_split_not_Nil [simp]: "js_split d s \<noteq> []"
  by (induction s) (auto split: list.splits)

lemma js_split_no_sep: "p \<in> set (js_split d s) \<Longrightarrow> d \<notin> set p"
proof (induction s arbitrary: p)
  case Nil
  then show ?case by simp
next
  case (Cons c cs)
  obtain q qs where q: "js_split d cs = q # qs" by (cases "js_split d cs") auto
  from Cons q show ?case by (auto split: if_splits)
qed

lemma js_split_chars: "p \<in> set (js_split d s) \<Longrightarrow> set p \<subseteq> set s"
proof (induction s arbitrary: p)
  case Nil
  then show ?case by simp
next
  case (Cons c cs)
  obtain q qs where q: "js_split d cs = q # qs" by (cases "js_split d cs") auto
  from Cons q show ?case by (fastforce split: if_splits)
qed

lemma js_split_single: "d \<notin> set s \<Longrightarrow> js_split d s = [s]"
  by (induction s) auto

lemma js_split_append: "d \<notin> set p \<Longrightarrow> js_split d (p @ d # s) = p # js_split d s"
  by (induction p) auto

text \<open>Splitting undoes joining, and joining undoes splitting.\<close>

lemma js_split_join:
  "ps \<noteq> [] \<Longrightarrow> (\<And>p. p \<in> set ps \<Longrightarrow> d \<notin> set p) \<Longrightarrow> js_split d (js_join [d] ps) = ps"
proof (induction "[d]" ps rule: js_join.induct)
  case 1
  then show ?case by simp
next
  case (2 p)
  then show ?case by (simp add: js_split_single)
next
  case (3 p q ps)
  then show ?case using js_split_append [of d p "js_join [d] (q # ps)"] by simp
qed

lemma js_join_Cons: "ps \<noteq> [] \<Longrightarrow> js_join sep (p # ps) = p @ sep @ js_join sep ps"
  by (cases ps) auto

lemma js_join_split: "js_join [d] (js_split d s) = s"
proof (induction s)
  case Nil
  then show ?case by simp
next
  case (Cons c cs)
  obtain q qs where q: "js_split d cs = q # qs" by (cases "js_split d cs") auto
  with Cons have j: "js_join [d] (q # qs) = cs" by simp
  show ?case
  proof (cases "c = d")
    case True
    with q j show ?thesis by (simp add: js_join_Cons)
  next
    case False
    with q j show ?thesis by (cases qs) auto
  qed
qed

lemma js_join_eq_Nil: "(\<And>p. p \<in> set ps \<Longrightarrow> p \<noteq> []) \<Longrightarrow> js_join sep ps = [] \<longleftrightarrow> ps = []"
  by (induction sep ps rule: js_join.induct) auto

lemma js_parts_join:
  "(\<And>p. p \<in> set ps \<Longrightarrow> d \<notin> set p \<and> p \<noteq> []) \<Longrightarrow> js_parts d (js_join [d] ps) = ps"
proof (cases "ps = []")
  case True
  then show ?thesis by (simp add: js_parts_def)
next
  case False
  assume a: "\<And>p. p \<in> set ps \<Longrightarrow> d \<notin> set p \<and> p \<noteq> []"
  then have "js_split d (js_join [d] ps) = ps" using False by (intro js_split_join) auto
  with a show ?thesis by (simp add: js_parts_def)
qed

lemma js_parts_memb: "p \<in> set (js_parts d s) \<Longrightarrow> p \<noteq> [] \<and> d \<notin> set p \<and> set p \<subseteq> set s"
  by (auto simp: js_parts_def dest: js_split_no_sep js_split_chars)

lemma js_join_chars: "set (js_join sep ps) \<subseteq> set sep \<union> \<Union> (set ` set ps)"
  by (induction sep ps rule: js_join.induct) auto

lemma js_lower_char_colon [simp]: "js_lower_char c = CHR '':'' \<longleftrightarrow> c = CHR '':''"
proof
  assume a: "js_lower_char c = CHR '':''"
  show "c = CHR '':''"
  proof (rule ccontr)
    assume "c \<noteq> CHR '':''"
    with a have "(of_char c :: nat) + 32 = 58"
      by (auto simp: js_lower_char_def Let_def split: if_splits dest: arg_cong [where f = "of_char :: char \<Rightarrow> nat"])
    then have "(of_char c :: nat) = 26" by simp
    with a show False by (auto simp: js_lower_char_def Let_def)
  qed
next
  assume "c = CHR '':''"
  then show "js_lower_char c = CHR '':''" by (simp add: js_lower_char_def)
qed

section \<open>Insertion-ordered maps\<close>

text \<open>Deletes the first key in iteration order: \<open>map.delete(map.keys().next().value)\<close>.\<close>

definition jm_evict :: "('k \<times> 'v) list \<Rightarrow> ('k \<times> 'v) list" where
  "jm_evict m = (case m of [] \<Rightarrow> [] | (k, _) # _ \<Rightarrow> AList.delete k m)"

definition jm_wf :: "('k \<times> 'v) list \<Rightarrow> bool" where
  "jm_wf m \<longleftrightarrow> distinct (map fst m)"

lemma jm_wf_Nil [simp]: "jm_wf []"
  by (simp add: jm_wf_def)

lemma jm_wf_update [simp]: "jm_wf m \<Longrightarrow> jm_wf (AList.update k v m)"
  by (simp add: jm_wf_def distinct_update)

lemma jm_wf_delete [simp]: "jm_wf m \<Longrightarrow> jm_wf (AList.delete k m)"
  by (simp add: jm_wf_def distinct_delete)

lemma jm_evict_tl: "jm_wf m \<Longrightarrow> jm_evict m = tl m"
proof (cases m)
  case Nil
  then show ?thesis by (simp add: jm_evict_def)
next
  case (Cons p ps)
  assume "jm_wf m"
  with Cons have "fst p \<notin> fst ` set ps" by (simp add: jm_wf_def)
  then have "AList.delete (fst p) ps = ps" by (rule delete_id)
  with Cons show ?thesis by (cases p) (simp add: jm_evict_def)
qed

lemma jm_evict_eq: "jm_evict m = (if m = [] then [] else AList.delete (fst (hd m)) m)"
  by (simp add: jm_evict_def split: list.split)

lemma jm_wf_evict [simp]: "jm_wf m \<Longrightarrow> jm_wf (jm_evict m)"
  by (simp add: jm_evict_eq)

lemma map_of_delete_Some: "map_of (AList.delete k m) k' = Some v \<Longrightarrow> map_of m k' = Some v"
  by (auto simp: delete_conv' split: if_splits)

lemma map_of_evict_Some: "map_of (jm_evict m) k' = Some v \<Longrightarrow> map_of m k' = Some v"
  by (auto simp: jm_evict_eq dest: map_of_delete_Some split: if_splits)

lemma length_jm_evict: "length (jm_evict m) \<le> length m - 1"
proof (cases m)
  case Nil
  then show ?thesis by (simp add: jm_evict_def)
next
  case (Cons p ps)
  then show ?thesis using length_delete_le [of "fst p" ps] by (cases p) (simp add: jm_evict_def)
qed

lemma length_jm_update: "length (AList.update k v m) \<le> Suc (length m)"
  by (induction m) auto

lemma set_update_subset: "set (AList.update k v m) \<subseteq> insert (k, v) (set m)"
  by (induction m) auto

lemma map_of_update_iff: "map_of (AList.update k v m) k' = (if k' = k then Some v else map_of m k')"
  by (simp add: update_conv')

section \<open>Bounded caches\<close>

text \<open>
  A lookup through a cache: the stored value if there is one, otherwise the value computed and
  stored. A cache is coherent for \<open>f\<close> when it only holds values of \<open>f\<close>.
\<close>

definition memo_call ::
    "('c \<Rightarrow> 'k \<Rightarrow> 'v option) \<Rightarrow> ('k \<Rightarrow> 'v \<Rightarrow> 'c \<Rightarrow> 'c) \<Rightarrow> ('k \<Rightarrow> 'v) \<Rightarrow> 'k \<Rightarrow> 'c \<Rightarrow> 'v \<times> 'c" where
  "memo_call get put f k c =
     (case get c k of Some v \<Rightarrow> (v, c) | None \<Rightarrow> (f k, put k (f k) c))"

definition coherent :: "('c \<Rightarrow> 'k \<Rightarrow> 'v option) \<Rightarrow> ('k \<Rightarrow> 'v) \<Rightarrow> 'c \<Rightarrow> bool" where
  "coherent get f c \<longleftrightarrow> (\<forall>k v. get c k = Some v \<longrightarrow> v = f k)"

locale memo_cache =
  fixes get :: "'c \<Rightarrow> 'k \<Rightarrow> 'v option"
    and put :: "'k \<Rightarrow> 'v \<Rightarrow> 'c \<Rightarrow> 'c"
    and none :: "'c"
    and sz :: "'c \<Rightarrow> nat"
    and cap :: "nat"
  assumes get_none: "get none k = None"
    and get_put: "get (put k v c) k' = Some w \<Longrightarrow> (k' = k \<and> w = v) \<or> get c k' = Some w"
    and sz_none: "sz none \<le> cap"
    and sz_put: "sz c \<le> cap \<Longrightarrow> sz (put k v c) \<le> cap"
begin

lemma coherent_none: "coherent get f none"
  by (simp add: coherent_def get_none)

lemma coherent_put: "coherent get f c \<Longrightarrow> coherent get f (put k (f k) c)"
  unfolding coherent_def by (metis get_put)

lemma memo_value: "coherent get f c \<Longrightarrow> fst (memo_call get put f k c) = f k"
  by (auto simp: memo_call_def coherent_def split: option.splits)

lemma memo_coherent: "coherent get f c \<Longrightarrow> coherent get f (snd (memo_call get put f k c))"
  by (auto simp: memo_call_def coherent_put split: option.splits)

lemma memo_bounded: "sz c \<le> cap \<Longrightarrow> sz (snd (memo_call get put f k c)) \<le> cap"
  by (auto simp: memo_call_def sz_put split: option.splits)

text \<open>Any sequence of calls returns what the function returns, within the bound.\<close>

lemma memo_run:
  "coherent get f c \<Longrightarrow> sz c \<le> cap \<Longrightarrow>
   coherent get f (fold (\<lambda>k c. snd (memo_call get put f k c)) ks c) \<and>
   sz (fold (\<lambda>k c. snd (memo_call get put f k c)) ks c) \<le> cap"
  by (induction ks arbitrary: c) (auto simp: memo_coherent memo_bounded)

end

text \<open>The two eviction policies of the code's caches, both oldest first.\<close>

definition fifo_put_after :: "nat \<Rightarrow> 'k \<Rightarrow> 'v \<Rightarrow> ('k \<times> 'v) list \<Rightarrow> ('k \<times> 'v) list" where
  "fifo_put_after limit k v m =
     (let m' = AList.update k v m in if length m' \<le> limit then m' else jm_evict m')"

definition fifo_put_before :: "nat \<Rightarrow> 'k \<Rightarrow> 'v \<Rightarrow> ('k \<times> 'v) list \<Rightarrow> ('k \<times> 'v) list" where
  "fifo_put_before limit k v m =
     AList.update k v (if limit \<le> length m then jm_evict m else m)"

lemma map_of_fifo_put_after:
  "map_of (fifo_put_after n k v m) k' = Some w \<Longrightarrow> (k' = k \<and> w = v) \<or> map_of m k' = Some w"
  by (auto simp: fifo_put_after_def Let_def map_of_update_iff split: if_splits dest!: map_of_evict_Some)

lemma map_of_fifo_put_before:
  "map_of (fifo_put_before n k v m) k' = Some w \<Longrightarrow> (k' = k \<and> w = v) \<or> map_of m k' = Some w"
  by (auto simp: fifo_put_before_def map_of_update_iff split: if_splits dest!: map_of_evict_Some)

lemma length_fifo_put_after: "length m \<le> n \<Longrightarrow> length (fifo_put_after n k v m) \<le> n"
  using length_jm_evict [of "AList.update k v m"] length_jm_update [of k v m]
  by (auto simp: fifo_put_after_def Let_def)

lemma length_fifo_put_before: "0 < n \<Longrightarrow> length m \<le> n \<Longrightarrow> length (fifo_put_before n k v m) \<le> n"
proof -
  assume n: "0 < n" and m: "length m \<le> n"
  have "length (if n \<le> length m then jm_evict m else m) < n"
  proof (cases "n \<le> length m")
    case True
    with n m length_jm_evict [of m] show ?thesis by simp
  next
    case False
    then show ?thesis by simp
  qed
  then show ?thesis
    unfolding fifo_put_before_def using length_jm_update by (meson Suc_leI le_trans)
qed

end
