(* ===== verification/Account_Id.thy ===== *)
theory Account_Id
  imports Prelude
begin

text \<open>
  \<open>src/routing/account-id.ts\<close> and the id grammar it shares with
  \<open>src/routing/session-key.ts\<close>: canonical account and agent ids, the fallback that turns
  any string into one, and the two bounded caches in front of the account functions.
\<close>

section \<open>The id grammar\<close>

definition isAsciiLower :: "char \<Rightarrow> bool" where
  "isAsciiLower c \<longleftrightarrow> (97::nat) \<le> of_char c \<and> of_char c \<le> (122::nat)"

definition isAsciiUpper :: "char \<Rightarrow> bool" where
  "isAsciiUpper c \<longleftrightarrow> (65::nat) \<le> of_char c \<and> of_char c \<le> (90::nat)"

definition isAsciiDigit :: "char \<Rightarrow> bool" where
  "isAsciiDigit c \<longleftrightarrow> (48::nat) \<le> of_char c \<and> of_char c \<le> (57::nat)"

text \<open>\<open>[a-z0-9]\<close> and \<open>[a-z0-9_-]\<close>; \<open>VALID_ID_RE\<close> has the flag \<open>i\<close>,
  \<open>INVALID_CHARS_RE\<close> has not.\<close>

definition idHead :: "char \<Rightarrow> bool" where
  "idHead c \<longleftrightarrow> isAsciiLower c \<or> isAsciiDigit c"

definition idChar :: "char \<Rightarrow> bool" where
  "idChar c \<longleftrightarrow> idHead c \<or> c = CHR ''_'' \<or> c = CHR ''-''"

text \<open>\<open>VALID_ID_RE = /^[a-z0-9][a-z0-9_-]{0,63}$/i\<close>\<close>

definition validIdRe :: "string \<Rightarrow> bool" where
  "validIdRe s = (case s of [] \<Rightarrow> False | c # cs \<Rightarrow>
     (idHead c \<or> isAsciiUpper c) \<and> length cs \<le> 63 \<and>
     list_all (\<lambda>d. idChar d \<or> isAsciiUpper d) cs)"

text \<open>\<open>replace(/[^a-z0-9_-]+/g, "-")\<close>: each maximal run of other characters becomes one
  dash; the flag says whether the previous character was in such a run.\<close>

fun replaceInvalidRuns :: "bool \<Rightarrow> string \<Rightarrow> string" where
  "replaceInvalidRuns b [] = []"
| "replaceInvalidRuns b (c # cs) =
     (if idChar c then c # replaceInvalidRuns False cs
      else if b then replaceInvalidRuns True cs
      else CHR ''-'' # replaceInvalidRuns True cs)"

definition stripLeadingDashes :: "string \<Rightarrow> string" where
  "stripLeadingDashes s = dropWhile (\<lambda>c. c = CHR ''-'') s"

definition stripTrailingDashes :: "string \<Rightarrow> string" where
  "stripTrailingDashes s = rev (dropWhile (\<lambda>c. c = CHR ''-'') (rev s))"

section \<open>Account ids\<close>

definition DEFAULT_ACCOUNT_ID :: string where
  "DEFAULT_ACCOUNT_ID = ''default''"

definition ACCOUNT_ID_CACHE_MAX :: nat where
  "ACCOUNT_ID_CACHE_MAX = 512"

definition isBlockedObjectKey :: "string \<Rightarrow> bool" where
  "isBlockedObjectKey k \<longleftrightarrow> k \<in> {''__proto__'', ''prototype'', ''constructor''}"

definition canonicalizeAccountId :: "string \<Rightarrow> string" where
  "canonicalizeAccountId value =
     (if validIdRe value then js_lower value
      else take 64 (stripTrailingDashes (stripLeadingDashes
             (replaceInvalidRuns False (js_lower value)))))"

definition normalizeCanonicalAccountId :: "string \<Rightarrow> string option" where
  "normalizeCanonicalAccountId value =
     (let canonical = canonicalizeAccountId value in
      if canonical = [] \<or> isBlockedObjectKey canonical then None else Some canonical)"

text \<open>The value the two exported functions compute, before any caching.\<close>

definition accountIdOfTrimmed :: "string \<Rightarrow> string" where
  "accountIdOfTrimmed trimmed =
     (case normalizeCanonicalAccountId trimmed of None \<Rightarrow> DEFAULT_ACCOUNT_ID | Some c \<Rightarrow> c)"

definition normalizeAccountId :: "string option \<Rightarrow> string" where
  "normalizeAccountId value =
     (let trimmed = js_trim (js_or_empty value) in
      if trimmed = [] then DEFAULT_ACCOUNT_ID else accountIdOfTrimmed trimmed)"

definition normalizeOptionalAccountId :: "string option \<Rightarrow> string option" where
  "normalizeOptionalAccountId value =
     (let trimmed = js_trim (js_or_empty value) in
      if trimmed = [] then None else normalizeCanonicalAccountId trimmed)"

section \<open>The caches\<close>

type_synonym accountCache = "(string \<times> string) list"
type_synonym optionalAccountCache = "(string \<times> string option) list"

definition setNormalizeCache :: "string \<Rightarrow> 'v \<Rightarrow> (string \<times> 'v) list \<Rightarrow> (string \<times> 'v) list" where
  "setNormalizeCache key value cache =
     (let cache' = AList.update key value cache in
      if length cache' \<le> ACCOUNT_ID_CACHE_MAX then cache' else jm_evict cache')"

definition normalizeAccountIdCached :: "string option \<Rightarrow> accountCache \<Rightarrow> string \<times> accountCache" where
  "normalizeAccountIdCached value cache =
     (let trimmed = js_trim (js_or_empty value) in
      if trimmed = [] then (DEFAULT_ACCOUNT_ID, cache)
      else case map_of cache trimmed of
        Some (c # cs) \<Rightarrow> (c # cs, cache)
      | _ \<Rightarrow> (let normalized = accountIdOfTrimmed trimmed in
              (normalized, setNormalizeCache trimmed normalized cache)))"

definition normalizeOptionalAccountIdCached ::
    "string option \<Rightarrow> optionalAccountCache \<Rightarrow> string option \<times> optionalAccountCache" where
  "normalizeOptionalAccountIdCached value cache =
     (let trimmed = js_trim (js_or_empty value) in
      if trimmed = [] then (None, cache)
      else case map_of cache trimmed of
        Some hit \<Rightarrow> (hit, cache)
      | None \<Rightarrow> (let normalized = normalizeCanonicalAccountId trimmed in
              (normalized, setNormalizeCache trimmed normalized cache)))"

lemma setNormalizeCache_fifo: "setNormalizeCache k v c = fifo_put_after ACCOUNT_ID_CACHE_MAX k v c"
  by (simp add: setNormalizeCache_def fifo_put_after_def)

interpretation account_cache:
  memo_cache "map_of :: accountCache \<Rightarrow> string \<Rightarrow> string option" setNormalizeCache "[]" length
    ACCOUNT_ID_CACHE_MAX
  by unfold_locales
    (auto simp: setNormalizeCache_fifo length_fifo_put_after dest: map_of_fifo_put_after)

interpretation optional_account_cache:
  memo_cache "map_of :: optionalAccountCache \<Rightarrow> string \<Rightarrow> string option option" setNormalizeCache
    "[]" length ACCOUNT_ID_CACHE_MAX
  by unfold_locales
    (auto simp: setNormalizeCache_fifo length_fifo_put_after dest: map_of_fifo_put_after)

section \<open>Lemmas on the grammar\<close>

lemma isAsciiUpper_lower: "isAsciiUpper c \<Longrightarrow> isAsciiLower (js_lower_char c)"
  by (auto simp: isAsciiUpper_def isAsciiLower_def js_lower_char_def Let_def)

lemma js_lower_char_idHead: "idHead c \<Longrightarrow> js_lower_char c = c"
  by (auto simp: idHead_def isAsciiLower_def isAsciiDigit_def js_lower_char_def Let_def)

lemma js_lower_char_idChar: "idChar c \<Longrightarrow> js_lower_char c = c"
  by (auto simp: idChar_def js_lower_char_idHead) (simp_all add: js_lower_char_def)

lemma idHead_lower: "idHead c \<or> isAsciiUpper c \<Longrightarrow> idHead (js_lower_char c)"
  using isAsciiUpper_lower js_lower_char_idHead by (auto simp: idHead_def)

lemma idChar_lower: "idChar c \<or> isAsciiUpper c \<Longrightarrow> idChar (js_lower_char c)"
  using isAsciiUpper_lower [of c] js_lower_char_idChar [of c] by (auto simp: idChar_def idHead_def)

lemma idChar_not_ws: "idChar c \<Longrightarrow> \<not> js_ws c"
  by (auto simp: idChar_def idHead_def isAsciiLower_def isAsciiDigit_def js_ws_def)

lemma idChar_not_colon: "idChar c \<Longrightarrow> c \<noteq> CHR '':''"
  by (auto simp: idChar_def idHead_def isAsciiLower_def isAsciiDigit_def)

lemma not_idHead_dash: "\<not> idHead CHR ''-''"
  by (simp add: idHead_def isAsciiLower_def isAsciiDigit_def)

lemma idChar_dash: "idChar CHR ''-''"
  by (simp add: idChar_def)

lemma replaceInvalidRuns_chars: "c \<in> set (replaceInvalidRuns b s) \<Longrightarrow> idChar c"
  by (induction b s rule: replaceInvalidRuns.induct) (auto simp: idChar_dash split: if_splits)

lemma replaceInvalidRuns_id: "list_all idChar s \<Longrightarrow> replaceInvalidRuns b s = s"
  by (induction s arbitrary: b) auto

text \<open>The common tail of both sanitisers: what is left has id characters only, at most 64 of
  them, and does not start with a dash.\<close>

definition sanitizeFallback :: "string \<Rightarrow> string" where
  "sanitizeFallback s =
     take 64 (stripTrailingDashes (stripLeadingDashes (replaceInvalidRuns False (js_lower s))))"

definition cleanId :: "string \<Rightarrow> bool" where
  "cleanId s \<longleftrightarrow> list_all idChar s \<and> length s \<le> 64 \<and> (s \<noteq> [] \<longrightarrow> hd s \<noteq> CHR ''-'')"

lemma set_stripTrailing: "set (stripTrailingDashes s) \<subseteq> set s"
  by (auto simp: stripTrailingDashes_def dest!: set_dropWhileD)

lemma set_stripLeading: "set (stripLeadingDashes s) \<subseteq> set s"
  by (auto simp: stripLeadingDashes_def dest!: set_dropWhileD)

lemma hd_stripLeading: "stripLeadingDashes s \<noteq> [] \<Longrightarrow> hd (stripLeadingDashes s) \<noteq> CHR ''-''"
  unfolding stripLeadingDashes_def by (rule hd_dropWhile)

lemma prefix_stripTrailing: "prefix (stripTrailingDashes s) s"
  unfolding stripTrailingDashes_def by (metis rev_rev_ident suffix_dropWhile suffix_to_prefix)

lemma prefix_hd: "prefix p s \<Longrightarrow> p \<noteq> [] \<Longrightarrow> hd p = hd s"
  by (auto simp: prefix_def)

lemma sanitizeFallback_clean: "cleanId (sanitizeFallback s)"
proof -
  let ?l = "stripLeadingDashes (replaceInvalidRuns False (js_lower s))"
  let ?r = "take 64 (stripTrailingDashes ?l)"
  have chars: "idChar c" if "c \<in> set ?r" for c
    using that set_stripTrailing set_stripLeading replaceInvalidRuns_chars
    by (meson in_set_takeD subsetD)
  have "prefix ?r ?l" using prefix_stripTrailing take_is_prefix prefix_order.trans by blast
  then have "hd ?r \<noteq> CHR ''-''" if "?r \<noteq> []"
  proof -
    from \<open>prefix ?r ?l\<close> that have "?l \<noteq> []" by (auto simp: prefix_def)
    with that prefix_hd [OF \<open>prefix ?r ?l\<close>] hd_stripLeading show ?thesis by metis
  qed
  with chars show ?thesis
    by (auto simp: cleanId_def sanitizeFallback_def list_all_iff)
qed

lemma validIdRe_lower_clean: "validIdRe s \<Longrightarrow> cleanId (js_lower s)"
  using not_idHead_dash
  by (auto simp: validIdRe_def cleanId_def js_lower_def list_all_iff idChar_lower
      split: list.splits dest!: idHead_lower) (auto simp: idChar_def)

lemma validIdRe_lower: "validIdRe s \<Longrightarrow> validIdRe (js_lower s)"
  by (auto simp: validIdRe_def js_lower_def list_all_iff idChar_lower idHead_lower split: list.splits)

lemma cleanId_lower: "cleanId s \<Longrightarrow> js_lower s = s"
  by (rule js_lower_fix) (auto simp: cleanId_def list_all_iff js_lower_char_idChar)

lemma cleanId_trim: "cleanId s \<Longrightarrow> js_trim s = s"
  by (rule js_trim_no_ws) (auto simp: cleanId_def list_all_iff idChar_not_ws)

lemma cleanId_no_colon: "cleanId s \<Longrightarrow> CHR '':'' \<notin> set s"
  using idChar_not_colon by (fastforce simp: cleanId_def list_all_iff)

text \<open>A clean id is a fixed point of the fallback as long as it does not end in a dash.\<close>

lemma sanitizeFallback_fix:
  assumes "cleanId s" and "s \<noteq> [] \<Longrightarrow> last s \<noteq> CHR ''-''"
  shows "sanitizeFallback s = s"
proof -
  have "replaceInvalidRuns False (js_lower s) = s"
    using assms(1) by (simp add: cleanId_lower replaceInvalidRuns_id cleanId_def)
  moreover have "stripLeadingDashes s = s"
    unfolding stripLeadingDashes_def by (rule dropWhile_id) (use assms(1) in \<open>simp add: cleanId_def\<close>)
  moreover have "stripTrailingDashes s = s"
    using dropWhile_id [of "rev s" "\<lambda>c. c = CHR ''-''"] assms(2)
    by (simp add: stripTrailingDashes_def hd_rev)
  ultimately show ?thesis using assms(1) by (simp add: sanitizeFallback_def cleanId_def)
qed

lemma canonicalizeAccountId_eq:
  "canonicalizeAccountId s = (if validIdRe s then js_lower s else sanitizeFallback s)"
  by (simp add: canonicalizeAccountId_def sanitizeFallback_def)

lemma canonicalizeAccountId_clean: "cleanId (canonicalizeAccountId s)"
  by (simp add: canonicalizeAccountId_eq sanitizeFallback_clean validIdRe_lower_clean)

lemma normalizeAccountId_clean: "cleanId (normalizeAccountId v) \<and> normalizeAccountId v \<noteq> []"
proof -
  have "cleanId DEFAULT_ACCOUNT_ID \<and> DEFAULT_ACCOUNT_ID \<noteq> []"
    by (simp add: cleanId_def DEFAULT_ACCOUNT_ID_def idChar_def idHead_def isAsciiLower_def)
  then show ?thesis
    using canonicalizeAccountId_clean
    by (auto simp: normalizeAccountId_def accountIdOfTrimmed_def normalizeCanonicalAccountId_def
        Let_def)
qed

section \<open>Properties\<close>

lemma accountIdOfTrimmed_not_Nil: "accountIdOfTrimmed s \<noteq> []"
  by (auto simp: accountIdOfTrimmed_def normalizeCanonicalAccountId_def DEFAULT_ACCOUNT_ID_def Let_def)

text \<open>A cached call is a call through the interface of bounded caches.\<close>

lemma normalizeAccountIdCached_memo:
  assumes "coherent map_of accountIdOfTrimmed c" and "js_trim (js_or_empty v) \<noteq> []"
  shows "normalizeAccountIdCached v c =
         memo_call map_of setNormalizeCache accountIdOfTrimmed (js_trim (js_or_empty v)) c"
proof (cases "map_of c (js_trim (js_or_empty v))")
  case None
  with assms(2) show ?thesis by (simp add: normalizeAccountIdCached_def memo_call_def Let_def)
next
  case (Some w)
  with assms(1) have "w = accountIdOfTrimmed (js_trim (js_or_empty v))"
    by (simp add: coherent_def)
  then have "w \<noteq> []" by (simp add: accountIdOfTrimmed_not_Nil)
  with Some assms(2) show ?thesis
    by (auto simp: normalizeAccountIdCached_def memo_call_def Let_def neq_Nil_conv)
qed

lemma normalizeAccountIdCached_step:
  assumes "coherent map_of accountIdOfTrimmed c" and "length c \<le> ACCOUNT_ID_CACHE_MAX"
  shows "fst (normalizeAccountIdCached v c) = normalizeAccountId v"
    and "coherent map_of accountIdOfTrimmed (snd (normalizeAccountIdCached v c))"
    and "length (snd (normalizeAccountIdCached v c)) \<le> ACCOUNT_ID_CACHE_MAX"
  using normalizeAccountIdCached_memo [OF assms(1), of v] account_cache.memo_value [OF assms(1)]
    account_cache.memo_coherent [OF assms(1)] account_cache.memo_bounded [OF assms(2)] assms
  by (cases "js_trim (js_or_empty v) = []";
      simp add: normalizeAccountIdCached_def normalizeAccountId_def)+

text \<open>A sequence of calls threading the module's cache.\<close>

fun normalizeAccountIds :: "string option list \<Rightarrow> accountCache \<Rightarrow> string list \<times> accountCache" where
  "normalizeAccountIds [] c = ([], c)"
| "normalizeAccountIds (v # vs) c =
     (let (r, c') = normalizeAccountIdCached v c; (rs, c'') = normalizeAccountIds vs c'
      in (r # rs, c''))"

lemma normalizeAccountIds_inv:
  "coherent map_of accountIdOfTrimmed c \<Longrightarrow> length c \<le> ACCOUNT_ID_CACHE_MAX \<Longrightarrow>
   fst (normalizeAccountIds vs c) = map normalizeAccountId vs \<and>
   length (snd (normalizeAccountIds vs c)) \<le> ACCOUNT_ID_CACHE_MAX"
proof (induction vs arbitrary: c)
  case Nil
  then show ?case by simp
next
  case (Cons v vs)
  note step = normalizeAccountIdCached_step [OF Cons.prems, of v]
  show ?case using Cons.IH [OF step(2,3)] step(1)
    by (simp add: Let_def split_beta)
qed

text \<open>Whatever calls came before, the cached \<open>normalizeAccountId\<close> returns the canonical id
  of its argument, and the cache never holds more than 512 entries.\<close>

theorem normalizeAccountId_cache_transparent:
  "fst (normalizeAccountIds vs []) = map normalizeAccountId vs \<and>
   length (snd (normalizeAccountIds vs [])) \<le> 512"
  using normalizeAccountIds_inv [of "[]" vs] account_cache.coherent_none
  by (simp add: ACCOUNT_ID_CACHE_MAX_def)

end
