(* ===== verification/Session_Keys.thy ===== *)
theory Session_Keys
  imports Account_Id
begin

text \<open>
  \<open>src/sessions/session-key-utils.ts\<close>, \<open>src/routing/session-key.ts\<close> and
  \<open>src/channels/chat-type.ts\<close>: the grammar of session keys
  (\<open>agent:<agentId>:<rest>\<close>), how they are built for peers and threads, and what is read
  back from them.
\<close>

section \<open>Chat types\<close>

datatype chatType = DirectChat | GroupChat | ChannelChat

definition normalizeChatType :: "string option \<Rightarrow> chatType option" where
  "normalizeChatType raw =
     (let value = js_lower (js_trim (js_or_empty raw)) in
      if value = [] then None
      else if value = ''direct'' \<or> value = ''dm'' then Some DirectChat
      else if value = ''group'' then Some GroupChat
      else if value = ''channel'' then Some ChannelChat
      else None)"

fun chatTypeText :: "chatType \<Rightarrow> string" where
  "chatTypeText DirectChat = ''direct''"
| "chatTypeText GroupChat = ''group''"
| "chatTypeText ChannelChat = ''channel''"

section \<open>Parsing session keys\<close>

record parsedSessionKey =
  psk_agentId :: string
  psk_rest :: string

definition parseAgentSessionKey :: "string option \<Rightarrow> parsedSessionKey option" where
  "parseAgentSessionKey sessionKey =
     (let raw = js_lower (js_trim (js_or_empty sessionKey)) in
      if raw = [] then None
      else (case js_parts CHR '':'' raw of
          p0 # p1 # p2 # ps \<Rightarrow>
            if p0 \<noteq> ''agent'' then None
            else (let agentId = js_trim p1; rest = js_join '':'' (p2 # ps) in
              if agentId = [] \<or> rest = [] then None
              else Some \<lparr>psk_agentId = agentId, psk_rest = rest\<rparr>)
        | _ \<Rightarrow> None))"

text \<open>\<open>parseAgentSessionKey(key)?.rest ?? dflt\<close>\<close>

definition parsedRestOr :: "string \<Rightarrow> string \<Rightarrow> string" where
  "parsedRestOr key dflt =
     (case parseAgentSessionKey (Some key) of None \<Rightarrow> dflt | Some p \<Rightarrow> psk_rest p)"

datatype sessionChatType = SDirect | SGroup | SChannel | SUnknown

text \<open>\<open>/^discord:(?:[^:]+:)?guild-[^:]+:channel-[^:]+$/\<close>, read on the colon-separated
  segments.\<close>

definition segmentAfter :: "string \<Rightarrow> string \<Rightarrow> bool" where
  "segmentAfter p s \<longleftrightarrow> prefix p s \<and> length p < length s"

definition legacyDiscordKey :: "string \<Rightarrow> bool" where
  "legacyDiscordKey s = (case js_split CHR '':'' s of
      [d, g, c] \<Rightarrow> d = ''discord'' \<and> segmentAfter ''guild-'' g \<and> segmentAfter ''channel-'' c
    | [d, a, g, c] \<Rightarrow> d = ''discord'' \<and> a \<noteq> [] \<and> segmentAfter ''guild-'' g \<and> segmentAfter ''channel-'' c
    | _ \<Rightarrow> False)"

definition deriveSessionChatType :: "string option \<Rightarrow> sessionChatType" where
  "deriveSessionChatType sessionKey =
     (let raw = js_lower (js_trim (js_or_empty sessionKey)) in
      if raw = [] then SUnknown
      else (let scoped = parsedRestOr raw raw; tokens = js_parts CHR '':'' scoped in
        if ''group'' \<in> set tokens then SGroup
        else if ''channel'' \<in> set tokens then SChannel
        else if ''direct'' \<in> set tokens \<or> ''dm'' \<in> set tokens then SDirect
        else if legacyDiscordKey scoped then SChannel
        else SUnknown))"

text \<open>\<open>/^cron:[^:]+:run:[^:]+$/\<close>\<close>

definition isCronRunSessionKey :: "string option \<Rightarrow> bool" where
  "isCronRunSessionKey sessionKey = (case parseAgentSessionKey sessionKey of
      None \<Rightarrow> False
    | Some p \<Rightarrow> (case js_split CHR '':'' (psk_rest p) of
          [c, j, r, i] \<Rightarrow> c = ''cron'' \<and> j \<noteq> [] \<and> r = ''run'' \<and> i \<noteq> []
        | _ \<Rightarrow> False))"

definition isCronSessionKey :: "string option \<Rightarrow> bool" where
  "isCronSessionKey sessionKey = (case parseAgentSessionKey sessionKey of
      None \<Rightarrow> False
    | Some p \<Rightarrow> prefix ''cron:'' (js_lower (psk_rest p)))"

definition isSubagentSessionKey :: "string option \<Rightarrow> bool" where
  "isSubagentSessionKey sessionKey =
     (let raw = js_trim (js_or_empty sessionKey) in
      if raw = [] then False
      else if prefix ''subagent:'' (js_lower raw) then True
      else prefix ''subagent:'' (js_lower (parsedRestOr raw [])))"

text \<open>The number of non-overlapping occurrences from the left: \<open>split(sep).length - 1\<close>.\<close>

fun occurrences :: "string \<Rightarrow> string \<Rightarrow> nat" where
  "occurrences sep [] = 0"
| "occurrences sep (c # cs) =
     (if prefix sep (c # cs) then Suc (occurrences sep (drop (length sep - 1) cs))
      else occurrences sep cs)"

definition getSubagentDepth :: "string option \<Rightarrow> nat" where
  "getSubagentDepth sessionKey =
     (let raw = js_lower (js_trim (js_or_empty sessionKey)) in
      if raw = [] then 0 else occurrences '':subagent:'' raw)"

definition isAcpSessionKey :: "string option \<Rightarrow> bool" where
  "isAcpSessionKey sessionKey =
     (let raw = js_trim (js_or_empty sessionKey) in
      if raw = [] then False
      else if prefix ''acp:'' (js_lower raw) then True
      else prefix ''acp:'' (js_lower (parsedRestOr raw [])))"

definition THREAD_SESSION_MARKERS :: "string list" where
  "THREAD_SESSION_MARKERS = ['':thread:'', '':topic:'']"

text \<open>\<open>lastIndexOf\<close>, with \<open>None\<close> for \<open>-1\<close>.\<close>

fun lastIndexOf :: "string \<Rightarrow> string \<Rightarrow> nat option" where
  "lastIndexOf m [] = (if m = [] then Some 0 else None)"
| "lastIndexOf m (c # cs) =
     (case lastIndexOf m cs of
        Some i \<Rightarrow> Some (Suc i)
      | None \<Rightarrow> if prefix m (c # cs) then Some 0 else None)"

definition indexOrMinus :: "nat option \<Rightarrow> int" where
  "indexOrMinus i = (case i of None \<Rightarrow> - 1 | Some n \<Rightarrow> int n)"

definition resolveThreadParentSessionKey :: "string option \<Rightarrow> string option" where
  "resolveThreadParentSessionKey sessionKey =
     (let raw = js_trim (js_or_empty sessionKey) in
      if raw = [] then None
      else (let normalized = js_lower raw;
                idx = fold (\<lambda>m best. let cand = indexOrMinus (lastIndexOf m normalized)
                             in if best < cand then cand else best) THREAD_SESSION_MARKERS (- 1)
            in if idx \<le> 0 then None
               else js_some (js_trim (take (nat idx) raw))))"

section \<open>Building session keys\<close>

definition DEFAULT_AGENT_ID :: string where
  "DEFAULT_AGENT_ID = ''main''"

definition DEFAULT_MAIN_KEY :: string where
  "DEFAULT_MAIN_KEY = ''main''"

definition normalizeToken :: "string option \<Rightarrow> string" where
  "normalizeToken value = js_lower (js_trim (js_or_empty value))"

definition normalizeMainKey :: "string option \<Rightarrow> string" where
  "normalizeMainKey value =
     (let trimmed = js_trim (js_or_empty value) in
      if trimmed \<noteq> [] then js_lower trimmed else DEFAULT_MAIN_KEY)"

definition normalizeAgentId :: "string option \<Rightarrow> string" where
  "normalizeAgentId value =
     (let trimmed = js_trim (js_or_empty value) in
      if trimmed = [] then DEFAULT_AGENT_ID
      else if validIdRe trimmed then js_lower trimmed
      else js_or (take 64 (stripTrailingDashes (stripLeadingDashes
                   (replaceInvalidRuns False (js_lower trimmed))))) DEFAULT_AGENT_ID)"

definition sanitizeAgentId :: "string option \<Rightarrow> string" where
  "sanitizeAgentId value = normalizeAgentId value"

definition isValidAgentId :: "string option \<Rightarrow> bool" where
  "isValidAgentId value =
     (let trimmed = js_trim (js_or_empty value) in trimmed \<noteq> [] \<and> validIdRe trimmed)"

definition toAgentRequestSessionKey :: "string option \<Rightarrow> string option" where
  "toAgentRequestSessionKey storeKey =
     (let raw = js_trim (js_or_empty storeKey) in
      if raw = [] then None else Some (parsedRestOr raw raw))"

definition agentKey :: "string \<Rightarrow> string \<Rightarrow> string" where
  "agentKey agentId rest = ''agent:'' @ agentId @ '':'' @ rest"

definition buildAgentMainSessionKey :: "string \<Rightarrow> string option \<Rightarrow> string" where
  "buildAgentMainSessionKey agentId mainKey =
     agentKey (normalizeAgentId (Some agentId)) (normalizeMainKey mainKey)"

definition toAgentStoreSessionKey :: "string \<Rightarrow> string option \<Rightarrow> string option \<Rightarrow> string" where
  "toAgentStoreSessionKey agentId requestKey mainKey =
     (let raw = js_trim (js_or_empty requestKey) in
      if raw = [] \<or> js_lower raw = DEFAULT_MAIN_KEY then buildAgentMainSessionKey agentId mainKey
      else (case parseAgentSessionKey (Some raw) of
          Some parsed \<Rightarrow> agentKey (psk_agentId parsed) (psk_rest parsed)
        | None \<Rightarrow> (let lowered = js_lower raw in
            if prefix ''agent:'' lowered then lowered
            else agentKey (normalizeAgentId (Some agentId)) lowered)))"

definition resolveAgentIdFromSessionKey :: "string option \<Rightarrow> string" where
  "resolveAgentIdFromSessionKey sessionKey =
     normalizeAgentId (Some (case parseAgentSessionKey sessionKey of
        None \<Rightarrow> DEFAULT_AGENT_ID | Some p \<Rightarrow> psk_agentId p))"

datatype sessionKeyShape = ShapeMissing | ShapeAgent | ShapeLegacyOrAlias | ShapeMalformedAgent

definition classifySessionKeyShape :: "string option \<Rightarrow> sessionKeyShape" where
  "classifySessionKeyShape sessionKey =
     (let raw = js_trim (js_or_empty sessionKey) in
      if raw = [] then ShapeMissing
      else if parseAgentSessionKey (Some raw) \<noteq> None then ShapeAgent
      else if prefix ''agent:'' (js_lower raw) then ShapeMalformedAgent
      else ShapeLegacyOrAlias)"

datatype dmScope = DmMain | DmPerPeer | DmPerChannelPeer | DmPerAccountChannelPeer

text \<open>\<open>identityLinks\<close> in the order of \<open>Object.entries\<close>.\<close>

type_synonym identityLinks = "(string \<times> string list) list"

fun findLinkedCanonical :: "string set \<Rightarrow> identityLinks \<Rightarrow> string option" where
  "findLinkedCanonical candidates [] = None"
| "findLinkedCanonical candidates ((canonical, ids) # rest) =
     (let canonicalName = js_trim canonical in
      if canonicalName = [] then findLinkedCanonical candidates rest
      else if list_ex (\<lambda>i. normalizeToken (Some i) \<noteq> [] \<and> normalizeToken (Some i) \<in> candidates) ids
      then Some canonicalName
      else findLinkedCanonical candidates rest)"

definition linkCandidates :: "string \<Rightarrow> string \<Rightarrow> string set" where
  "linkCandidates channelRaw peerId =
     (let rawCandidate = normalizeToken (Some peerId);
          channel = normalizeToken (Some channelRaw);
          scoped = normalizeToken (Some (channel @ '':'' @ peerId))
      in (if rawCandidate \<noteq> [] then {rawCandidate} else {}) \<union>
         (if channel \<noteq> [] \<and> scoped \<noteq> [] then {scoped} else {}))"

definition resolveLinkedPeerId :: "identityLinks option \<Rightarrow> string \<Rightarrow> string \<Rightarrow> string option" where
  "resolveLinkedPeerId links channel peerIdRaw =
     (case links of
        None \<Rightarrow> None
      | Some ls \<Rightarrow> (let peerId = js_trim peerIdRaw in
          if peerId = [] then None
          else (let candidates = linkCandidates channel peerId in
            if candidates = {} then None else findLinkedCanonical candidates ls)))"

record peerKeyParams =
  pkp_agentId :: string
  pkp_mainKey :: "string option"
  pkp_channel :: string
  pkp_accountId :: "string option"
  pkp_peerKind :: "chatType option"
  pkp_peerId :: "string option"
  pkp_identityLinks :: "identityLinks option"
  pkp_dmScope :: "dmScope option"

definition channelOrUnknown :: "string \<Rightarrow> string" where
  "channelOrUnknown channel = js_or (js_lower (js_trim channel)) ''unknown''"

definition directPeerId :: "peerKeyParams \<Rightarrow> dmScope \<Rightarrow> string" where
  "directPeerId p scope =
     (let peerId = js_trim (js_or_empty (pkp_peerId p));
          linked = (if scope = DmMain then None
                    else resolveLinkedPeerId (pkp_identityLinks p) (pkp_channel p) peerId)
      in js_lower (case linked of None \<Rightarrow> peerId | Some l \<Rightarrow> (if l = [] then peerId else l)))"

definition buildAgentPeerSessionKey :: "peerKeyParams \<Rightarrow> string" where
  "buildAgentPeerSessionKey p =
     (let peerKind = (case pkp_peerKind p of None \<Rightarrow> DirectChat | Some k \<Rightarrow> k);
          agentId = normalizeAgentId (Some (pkp_agentId p)) in
      if peerKind = DirectChat then
        (let scope = (case pkp_dmScope p of None \<Rightarrow> DmMain | Some d \<Rightarrow> d);
             peerId = directPeerId p scope;
             channel = channelOrUnknown (pkp_channel p) in
         if scope = DmPerAccountChannelPeer \<and> peerId \<noteq> [] then
           agentKey agentId (channel @ '':'' @ normalizeAccountId (pkp_accountId p) @ '':direct:'' @ peerId)
         else if scope = DmPerChannelPeer \<and> peerId \<noteq> [] then
           agentKey agentId (channel @ '':direct:'' @ peerId)
         else if scope = DmPerPeer \<and> peerId \<noteq> [] then agentKey agentId (''direct:'' @ peerId)
         else buildAgentMainSessionKey (pkp_agentId p) (pkp_mainKey p))
      else
        (let channel = channelOrUnknown (pkp_channel p);
             peerId = js_lower (js_or (js_trim (js_or_empty (pkp_peerId p))) ''unknown'')
         in agentKey agentId (channel @ '':'' @ chatTypeText peerKind @ '':'' @ peerId)))"

definition buildGroupHistoryKey :: "string \<Rightarrow> string option \<Rightarrow> chatType \<Rightarrow> string \<Rightarrow> string" where
  "buildGroupHistoryKey channelRaw accountIdRaw peerKind peerIdRaw =
     (let channel = js_or (normalizeToken (Some channelRaw)) ''unknown'';
          accountId = normalizeAccountId accountIdRaw;
          peerId = js_or (js_lower (js_trim peerIdRaw)) ''unknown''
      in channel @ '':'' @ accountId @ '':'' @ chatTypeText peerKind @ '':'' @ peerId)"

definition resolveThreadSessionKeys ::
    "string \<Rightarrow> string option \<Rightarrow> string option \<Rightarrow> bool option \<Rightarrow> (string \<Rightarrow> string) option \<Rightarrow>
     string \<times> string option" where
  "resolveThreadSessionKeys baseSessionKey threadIdRaw parentSessionKey useSuffixOpt normalizeThreadId =
     (let threadId = js_trim (js_or_empty threadIdRaw) in
      if threadId = [] then (baseSessionKey, None)
      else (let normalized = (case normalizeThreadId of None \<Rightarrow> js_lower | Some f \<Rightarrow> f) threadId;
                useSuffix = (case useSuffixOpt of None \<Rightarrow> True | Some b \<Rightarrow> b)
            in (if useSuffix then baseSessionKey @ '':thread:'' @ normalized else baseSessionKey,
                parentSessionKey)))"

section \<open>Lemmas\<close>

lemma normalizeAgentId_eq:
  "normalizeAgentId v =
     (let t = js_trim (js_or_empty v) in
      if t = [] then DEFAULT_AGENT_ID
      else if validIdRe t then js_lower t
      else js_or (sanitizeFallback t) DEFAULT_AGENT_ID)"
  by (simp add: normalizeAgentId_def sanitizeFallback_def Let_def)

lemma DEFAULT_AGENT_ID_clean: "cleanId DEFAULT_AGENT_ID" "DEFAULT_AGENT_ID \<noteq> []"
  by (simp_all add: cleanId_def DEFAULT_AGENT_ID_def idChar_def idHead_def isAsciiLower_def)

lemma normalizeAgentId_clean: "cleanId (normalizeAgentId v)" "normalizeAgentId v \<noteq> []"
  using DEFAULT_AGENT_ID_clean validIdRe_lower_clean sanitizeFallback_clean
  by (auto simp: normalizeAgentId_eq js_or_def Let_def)

lemma cleanId_validIdRe: "cleanId s \<Longrightarrow> s \<noteq> [] \<Longrightarrow> hd s \<noteq> CHR ''_'' \<Longrightarrow> validIdRe s"
  by (cases s) (auto simp: cleanId_def validIdRe_def idChar_def list_all_iff)

text \<open>A clean id is a fixed point unless it starts with an underscore and ends in a dash.\<close>

lemma normalizeAgentId_fix:
  assumes c: "cleanId s" "s \<noteq> []" and e: "hd s \<noteq> CHR ''_'' \<or> last s \<noteq> CHR ''-''"
  shows "normalizeAgentId (Some s) = s"
proof (cases "validIdRe s")
  case True
  with c show ?thesis
    by (simp add: normalizeAgentId_eq js_or_empty_def cleanId_trim cleanId_lower Let_def)
next
  case False
  with c e have "last s \<noteq> CHR ''-''" using cleanId_validIdRe by blast
  with c have "sanitizeFallback s = s" by (intro sanitizeFallback_fix) auto
  with c False show ?thesis
    by (simp add: normalizeAgentId_eq js_or_empty_def js_or_def cleanId_trim Let_def)
qed

lemma agentKey_inject:
  assumes "CHR '':'' \<notin> set a" "CHR '':'' \<notin> set b" "agentKey a r = agentKey b q"
  shows "a = b \<and> r = q"
proof -
  have "js_split CHR '':'' (a @ CHR '':'' # r) = js_split CHR '':'' (b @ CHR '':'' # q)"
    using assms(3) by (simp add: agentKey_def)
  then have "a # js_split CHR '':'' r = b # js_split CHR '':'' q"
    by (simp only: js_split_append [OF assms(1)] js_split_append [OF assms(2)])
  then have "a = b" by simp
  with assms(3) show ?thesis by (simp add: agentKey_def)
qed

text \<open>A rest that survives normalisation: lower case, trimmed at its end, no empty segment.\<close>

definition canonicalRest :: "string \<Rightarrow> bool" where
  "canonicalRest r \<longleftrightarrow> js_lower r = r \<and> \<not> js_ws (last r) \<and> [] \<notin> set (js_split CHR '':'' r)"

lemma canonicalRest_not_Nil: "canonicalRest r \<Longrightarrow> r \<noteq> []"
  by (auto simp: canonicalRest_def)

lemma js_parts_agentKey:
  assumes "CHR '':'' \<notin> set a" "a \<noteq> []" "[] \<notin> set (js_split CHR '':'' r)"
  shows "js_parts CHR '':'' (agentKey a r) = ''agent'' # a # js_split CHR '':'' r"
proof -
  have "js_split CHR '':'' (''agent'' @ CHR '':'' # (a @ CHR '':'' # r)) =
        ''agent'' # a # js_split CHR '':'' r"
    by (subst js_split_append) (simp_all add: js_split_append assms)
  moreover have "filter (\<lambda>p. p \<noteq> []) (js_split CHR '':'' r) = js_split CHR '':'' r"
    using assms(3) by (auto simp: filter_id_conv)
  ultimately show ?thesis
    using assms(2) by (simp add: js_parts_def agentKey_def)
qed

lemma agentKey_trim: "r \<noteq> [] \<Longrightarrow> \<not> js_ws (last r) \<Longrightarrow> js_trim (agentKey a r) = agentKey a r"
  by (rule js_trim_fix) (auto simp: agentKey_def js_ws_def)

lemma agentKey_lower: "js_lower (agentKey a r) = agentKey (js_lower a) (js_lower r)"
  by (simp add: agentKey_def) (simp add: js_lower_def js_lower_char_def)

lemma parse_agentKey:
  assumes a: "CHR '':'' \<notin> set a" "a \<noteq> []" "js_lower a = a" "js_trim a = a" and r: "canonicalRest r"
  shows "parseAgentSessionKey (Some (agentKey a r)) = Some \<lparr>psk_agentId = a, psk_rest = r\<rparr>"
proof -
  note nr = canonicalRest_not_Nil [OF r]
  have raw: "js_lower (js_trim (agentKey a r)) = agentKey a r"
    using r a nr by (simp add: canonicalRest_def agentKey_trim agentKey_lower)
  have parts: "js_parts CHR '':'' (agentKey a r) = ''agent'' # a # js_split CHR '':'' r"
    using a r by (intro js_parts_agentKey) (auto simp: canonicalRest_def)
  have join: "js_join '':'' (js_split CHR '':'' r) = r" by (rule js_join_split)
  obtain p ps where ps: "js_split CHR '':'' r = p # ps" by (cases "js_split CHR '':'' r") auto
  show ?thesis
    using parts join nr a(2,4) raw
    by (simp add: parseAgentSessionKey_def js_or_empty_def ps Let_def) (simp add: agentKey_def)
qed

lemma buildAgentPeerSessionKey_agent:
  "\<exists>rest. buildAgentPeerSessionKey p = agentKey (normalizeAgentId (Some (pkp_agentId p))) rest"
  by (auto simp: buildAgentPeerSessionKey_def buildAgentMainSessionKey_def Let_def)

section \<open>Properties\<close>

text \<open>A normalised agent id is never empty, has at most 64 characters, all of them in
  \<open>[a-z0-9_-]\<close>, does not start with a dash, and so can hold no path separator and no colon.\<close>

theorem normalizeAgentId_path_safe:
  "normalizeAgentId v \<noteq> [] \<and> length (normalizeAgentId v) \<le> 64 \<and>
   list_all idChar (normalizeAgentId v) \<and> hd (normalizeAgentId v) \<noteq> CHR ''-'' \<and>
   CHR '':'' \<notin> set (normalizeAgentId v) \<and> CHR ''/'' \<notin> set (normalizeAgentId v)"
proof -
  have "\<not> idChar CHR ''/''" by (simp add: idChar_def idHead_def isAsciiLower_def isAsciiDigit_def)
  then show ?thesis
    using normalizeAgentId_clean [of v] cleanId_no_colon
    by (auto simp: cleanId_def list_all_iff)
qed

text \<open>Normalising twice is normalising once, unless the first result starts with an
  underscore and was cut so that it ends in a dash.\<close>

theorem normalizeAgentId_idempotent:
  assumes "hd (normalizeAgentId v) \<noteq> CHR ''_'' \<or> last (normalizeAgentId v) \<noteq> CHR ''-''"
  shows "normalizeAgentId (Some (normalizeAgentId v)) = normalizeAgentId v"
  using normalizeAgentId_fix [OF normalizeAgentId_clean] assms by blast

theorem normalizeAgentId_idempotent_witness:
  "normalizeAgentId (Some (normalizeAgentId (Some ''My Agent!''))) = ''my-agent''"
proof -
  have n: "normalizeAgentId (Some ''My Agent!'') = ''my-agent''" by code_simp
  show ?thesis using normalizeAgentId_idempotent [of "Some ''My Agent!''"] by (simp add: n)
qed

text \<open>The exception is real: an id of 65 characters that starts with an underscore and has
  a dash in place 64 normalises to a string that normalises to a shorter one.\<close>

theorem normalizeAgentId_not_idempotent:
  "\<exists>v. normalizeAgentId (Some (normalizeAgentId (Some v))) \<noteq> normalizeAgentId (Some v)"
proof -
  let ?v = "''_'' @ replicate 62 CHR ''a'' @ ''-b''"
  have "normalizeAgentId (Some (normalizeAgentId (Some ?v))) \<noteq> normalizeAgentId (Some ?v)"
    by code_simp
  then show ?thesis by blast
qed

text \<open>C39: a session key built for an agent and a canonical rest is parsed back into exactly
  that agent and that rest.\<close>

theorem session_key_roundtrip:
  assumes "canonicalRest r"
  shows "parseAgentSessionKey (Some (agentKey (normalizeAgentId a) r)) =
         Some \<lparr>psk_agentId = normalizeAgentId a, psk_rest = r\<rparr>"
  using assms normalizeAgentId_clean [of a]
  by (intro parse_agentKey) (simp_all add: cleanId_no_colon cleanId_lower cleanId_trim)

theorem session_key_roundtrip_witness:
  "parseAgentSessionKey (Some ''agent:my-bot:slack:channel:c01'') =
   Some \<lparr>psk_agentId = ''my-bot'', psk_rest = ''slack:channel:c01''\<rparr>"
proof -
  have c: "canonicalRest ''slack:channel:c01''" by code_simp
  have n: "normalizeAgentId (Some ''My Bot'') = ''my-bot''" by code_simp
  show ?thesis using session_key_roundtrip [OF c, of "Some ''My Bot''"] by (simp add: n agentKey_def)
qed

text \<open>C38: agents are isolated: whatever the channel, account, peer, scope and identity links,
  two peers of agents with different normalised ids never get the same session key.\<close>

theorem peer_session_keys_isolate_agents:
  assumes "buildAgentPeerSessionKey p = buildAgentPeerSessionKey q"
  shows "normalizeAgentId (Some (pkp_agentId p)) = normalizeAgentId (Some (pkp_agentId q))"
proof -
  obtain r r' where "buildAgentPeerSessionKey p = agentKey (normalizeAgentId (Some (pkp_agentId p))) r"
    and "buildAgentPeerSessionKey q = agentKey (normalizeAgentId (Some (pkp_agentId q))) r'"
    using buildAgentPeerSessionKey_agent by blast
  with assms show ?thesis
    using agentKey_inject normalizeAgentId_clean cleanId_no_colon by metis
qed

definition samplePeer :: "string \<Rightarrow> peerKeyParams" where
  "samplePeer agent = \<lparr>pkp_agentId = agent, pkp_mainKey = None, pkp_channel = ''slack'',
     pkp_accountId = None, pkp_peerKind = None, pkp_peerId = Some ''U1'',
     pkp_identityLinks = None, pkp_dmScope = Some DmPerChannelPeer\<rparr>"

theorem peer_session_keys_isolate_agents_witness:
  "buildAgentPeerSessionKey (samplePeer ''Ops'') = ''agent:ops:slack:direct:u1'' \<and>
   normalizeAgentId (Some ''Ops'') = normalizeAgentId (Some ''ops'')"
proof -
  have k: "buildAgentPeerSessionKey (samplePeer ''Ops'') = ''agent:ops:slack:direct:u1''" by code_simp
  have e: "buildAgentPeerSessionKey (samplePeer ''Ops'') = buildAgentPeerSessionKey (samplePeer ''ops'')"
    by code_simp
  show ?thesis using k peer_session_keys_isolate_agents [OF e] by (simp add: samplePeer_def)
qed

lemma lastIndexOf_no_head:
  "m = c # m' \<Longrightarrow> c \<notin> set s \<Longrightarrow> lastIndexOf m s = None"
  by (induction s) auto

lemma lastIndexOf_append: "lastIndexOf m s = Some i \<Longrightarrow> lastIndexOf m (p @ s) = Some (length p + i)"
  by (induction p) auto

lemma lastIndexOf_le: "lastIndexOf m s = Some i \<Longrightarrow> i + length m \<le> length s"
  by (induction s arbitrary: i) (auto split: option.splits if_splits dest: prefix_length_le)

lemma lastIndexOf_append_None: "lastIndexOf m s = None \<Longrightarrow> lastIndexOf m (p @ s) = Some i \<Longrightarrow> i < length p"
  by (induction p arbitrary: i) (auto split: option.splits if_splits)

lemma js_ws_lower [simp]: "js_ws (js_lower_char c) = js_ws c"
proof (cases "js_lower_char c = c")
  case True
  then show ?thesis by simp
next
  case False
  let ?n = "of_char c :: nat"
  from False have n: "(65 \<le> ?n \<and> ?n \<le> 90) \<or> (192 \<le> ?n \<and> ?n \<le> 222 \<and> ?n \<noteq> 215)"
    and l: "js_lower_char c = char_of (?n + 32)"
    by (auto simp: js_lower_char_def Let_def split: if_splits)
  have "(of_char (js_lower_char c) :: nat) = ?n + 32" using n by (auto simp: l)
  then have "\<not> js_ws (js_lower_char c)" using n by (auto simp: js_ws_def)
  moreover have "\<not> js_ws c" using n by (auto simp: js_ws_def)
  ultimately show ?thesis by simp
qed

lemma colon_js_lower: "CHR '':'' \<notin> set s \<Longrightarrow> CHR '':'' \<notin> set (js_lower s)"
  by (auto simp: js_lower_def) (metis js_lower_char_colon)

lemma thread_marker_indices:
  assumes "CHR '':'' \<notin> set t"
  shows "lastIndexOf '':thread:'' (p @ '':thread:'' @ t) = Some (length p)"
    and "lastIndexOf '':topic:'' (p @ '':thread:'' @ t) = Some i \<Longrightarrow> i < length p"
proof -
  have t: "\<not> prefix ''thread:'' t" using assms by (auto simp: prefix_def)
  have n: "lastIndexOf '':thread:'' t = None" "lastIndexOf '':topic:'' t = None"
    using assms by (simp_all add: lastIndexOf_no_head)
  have "lastIndexOf '':thread:'' ('':thread:'' @ t) = Some 0" using n t by simp
  then show "lastIndexOf '':thread:'' (p @ '':thread:'' @ t) = Some (length p)"
    using lastIndexOf_append by fastforce
  have "\<not> prefix ''topic:'' t" using assms by (auto simp: prefix_def)
  then have "lastIndexOf '':topic:'' ('':thread:'' @ t) = None" using n by simp
  then show "lastIndexOf '':topic:'' (p @ '':thread:'' @ t) = Some i \<Longrightarrow> i < length p"
    by (rule lastIndexOf_append_None)
qed

lemma thread_key_trim:
  assumes "js_trim b = b" "b \<noteq> []" "js_trim t \<noteq> []"
  shows "js_trim (b @ '':thread:'' @ js_lower (js_trim t)) = b @ '':thread:'' @ js_lower (js_trim t)"
proof (rule js_trim_fix)
  show "\<not> js_ws (hd (b @ '':thread:'' @ js_lower (js_trim t)))"
    using assms(1,2) js_trim_hd by (metis hd_append2)
  have "last (b @ '':thread:'' @ js_lower (js_trim t)) = js_lower_char (last (js_trim t))"
    using assms(3) by (simp add: js_lower_def last_map)
  then show "\<not> js_ws (last (b @ '':thread:'' @ js_lower (js_trim t)))"
    using js_trim_last [OF assms(3)] by simp
qed

text \<open>The parent of a thread session key is the session key it was derived from.\<close>

theorem thread_key_parent_roundtrip:
  assumes "js_trim base = base" "base \<noteq> []" "js_trim t \<noteq> []" "CHR '':'' \<notin> set t"
  shows "resolveThreadParentSessionKey (Some (fst (resolveThreadSessionKeys base (Some t) parent None None)))
         = Some base"
proof -
  let ?t = "js_lower (js_trim t)"
  let ?k = "base @ '':thread:'' @ ?t"
  have key: "fst (resolveThreadSessionKeys base (Some t) parent None None) = ?k"
    using assms(3) by (simp add: resolveThreadSessionKeys_def js_or_empty_def Let_def)
  have col: "CHR '':'' \<notin> set ?t" using assms(4) set_js_trim colon_js_lower by blast
  have low: "js_lower ?k = js_lower base @ '':thread:'' @ ?t"
  proof -
    have "js_lower '':thread:'' = '':thread:''" by code_simp
    then show ?thesis by (simp only: js_lower_append js_lower_idem)
  qed
  note ix = thread_marker_indices [OF col, of "js_lower base"]
  have b: "indexOrMinus (lastIndexOf '':topic:'' (js_lower ?k)) < int (length base)"
    unfolding low using ix(2)
    by (cases "lastIndexOf '':topic:'' (js_lower base @ '':thread:'' @ ?t)") (auto simp: indexOrMinus_def)
  have a: "indexOrMinus (lastIndexOf '':thread:'' (js_lower ?k)) = int (length base)"
    unfolding low ix(1) by (simp add: indexOrMinus_def)
  have tr: "js_trim ?k = ?k" by (rule thread_key_trim [OF assms(1-3)])
  have idx: "fold (\<lambda>m best. let cand = indexOrMinus (lastIndexOf m (js_lower ?k))
      in if best < cand then cand else best) THREAD_SESSION_MARKERS (- 1) = int (length base)"
    using b unfolding THREAD_SESSION_MARKERS_def fold_simps o_def Let_def a by simp
  show ?thesis
    unfolding key resolveThreadParentSessionKey_def js_or_empty_def option.case Let_def tr
      idx [unfolded Let_def]
    using assms(1,2) by (simp add: js_some_def)
qed

theorem thread_key_parent_roundtrip_witness:
  "resolveThreadParentSessionKey (Some ''agent:main:slack:channel:c1:thread:171.5'') =
   Some ''agent:main:slack:channel:c1''"
proof -
  have t: "js_trim ''agent:main:slack:channel:c1'' = ''agent:main:slack:channel:c1''" by code_simp
  have u: "js_trim ''171.5'' \<noteq> []" by code_simp
  have k: "fst (resolveThreadSessionKeys ''agent:main:slack:channel:c1'' (Some ''171.5'') None None None)
    = ''agent:main:slack:channel:c1:thread:171.5''" by code_simp
  show ?thesis using thread_key_parent_roundtrip [OF t _ u, of None] by (simp add: k)
qed

end
