(* ===== verification/Send_Policy.thy ===== *)
theory Send_Policy
  imports Session_Keys
begin

text \<open>
  \<open>src/sessions/send-policy.ts\<close>: whether the gateway may send on behalf of a session, from
  the session's own override, the configured rules and the default.
\<close>

section \<open>Model\<close>

datatype sendDecision = Allow | Deny

definition normalizeSendPolicy :: "string option \<Rightarrow> sendDecision option" where
  "normalizeSendPolicy raw =
     (let value = js_lower (js_trim (js_or_empty raw)) in
      if value = ''allow'' then Some Allow else if value = ''deny'' then Some Deny else None)"

definition normalizeMatchValue :: "string option \<Rightarrow> string option" where
  "normalizeMatchValue raw = js_some (js_lower (js_trim (js_or_empty raw)))"

definition stripAgentSessionKeyPrefix :: "string option \<Rightarrow> string option" where
  "stripAgentSessionKeyPrefix key =
     (case key of
        None \<Rightarrow> None
      | Some k \<Rightarrow>
          if k = [] then None
          else (case js_parts CHR '':'' k of
              p0 # p1 # p2 # ps \<Rightarrow> if p0 = ''agent'' then Some (js_join '':'' (p2 # ps)) else Some k
            | _ \<Rightarrow> Some k))"

definition deriveChannelFromKey :: "string option \<Rightarrow> string option" where
  "deriveChannelFromKey key =
     (case stripAgentSessionKeyPrefix key of
        None \<Rightarrow> None
      | Some k \<Rightarrow>
          if k = [] then None
          else (case js_parts CHR '':'' k of
              p0 # p1 # p2 # ps \<Rightarrow>
                if p1 = ''group'' \<or> p1 = ''channel'' then normalizeMatchValue (Some p0) else None
            | _ \<Rightarrow> None))"

definition deriveChatTypeFromKey :: "string option \<Rightarrow> chatType option" where
  "deriveChatTypeFromKey key =
     (case deriveSessionChatType key of
        SDirect \<Rightarrow> Some DirectChat | SGroup \<Rightarrow> Some GroupChat | SChannel \<Rightarrow> Some ChannelChat
      | SUnknown \<Rightarrow> None)"

record sendRule =
  sr_action :: "string option"
  sr_channel :: "string option"
  sr_chatType :: "string option"
  sr_keyPrefix :: "string option"
  sr_rawKeyPrefix :: "string option"

record sendPolicyConfig =
  spc_default :: "string option"
  spc_rules :: "sendRule option list"

record sendEntry =
  se_sendPolicy :: "string option"
  se_channel :: "string option"
  se_lastChannel :: "string option"
  se_chatType :: "string option"

record sendContext =
  sc_channel :: "string option"
  sc_chatType :: "chatType option"
  sc_rawKey :: string
  sc_strippedKey :: string

text \<open>\<open>normalizeChatType\<close> of an already derived chat type returns it.\<close>

definition sendContextOf ::
    "sendEntry option \<Rightarrow> string option \<Rightarrow> string option \<Rightarrow> string option \<Rightarrow> sendContext" where
  "sendContextOf entry sessionKey channel chatType =
     \<lparr>sc_channel =
        js_coalesce (normalizeMatchValue channel)
        (js_coalesce (normalizeMatchValue (Option.bind entry se_channel))
        (js_coalesce (normalizeMatchValue (Option.bind entry se_lastChannel))
           (deriveChannelFromKey sessionKey))),
      sc_chatType =
        js_coalesce (normalizeChatType (js_coalesce chatType (Option.bind entry se_chatType)))
          (deriveChatTypeFromKey sessionKey),
      sc_rawKey = js_lower (js_or_empty sessionKey),
      sc_strippedKey =
        js_lower (js_or_empty (stripAgentSessionKeyPrefix (Some (js_or_empty sessionKey))))\<rparr>"

definition ruleAction :: "sendRule \<Rightarrow> sendDecision" where
  "ruleAction r = (case normalizeSendPolicy (sr_action r) of None \<Rightarrow> Allow | Some a \<Rightarrow> a)"

text \<open>The four \<open>continue\<close> guards of the loop: the rule applies when none of them fires.\<close>

definition ruleApplies :: "sendContext \<Rightarrow> sendRule \<Rightarrow> bool" where
  "ruleApplies c r =
     (let matchChannel = normalizeMatchValue (sr_channel r);
          matchChatType = normalizeChatType (sr_chatType r);
          matchPrefix = normalizeMatchValue (sr_keyPrefix r);
          matchRawPrefix = normalizeMatchValue (sr_rawKeyPrefix r) in
      if matchChannel \<noteq> None \<and> matchChannel \<noteq> sc_channel c then False
      else if matchChatType \<noteq> None \<and> matchChatType \<noteq> sc_chatType c then False
      else if (case matchRawPrefix of None \<Rightarrow> False | Some p \<Rightarrow> \<not> prefix p (sc_rawKey c)) then False
      else if (case matchPrefix of None \<Rightarrow> False
               | Some p \<Rightarrow> \<not> prefix p (sc_rawKey c) \<and> \<not> prefix p (sc_strippedKey c)) then False
      else True)"

text \<open>The rule loop: \<open>Inl\<close> is an early \<open>return "deny"\<close>, \<open>Inr\<close> the final
  \<open>allowedMatch\<close>.\<close>

fun scanRules :: "sendContext \<Rightarrow> bool \<Rightarrow> sendRule option list \<Rightarrow> sendDecision + bool" where
  "scanRules c allowedMatch [] = Inr allowedMatch"
| "scanRules c allowedMatch (None # rs) = scanRules c allowedMatch rs"
| "scanRules c allowedMatch (Some r # rs) =
     (if \<not> ruleApplies c r then scanRules c allowedMatch rs
      else if ruleAction r = Deny then Inl Deny
      else scanRules c True rs)"

definition resolveSendPolicy ::
    "sendPolicyConfig option \<Rightarrow> sendEntry option \<Rightarrow> string option \<Rightarrow> string option \<Rightarrow>
     string option \<Rightarrow> sendDecision" where
  "resolveSendPolicy policy entry sessionKey channel chatType =
     (case normalizeSendPolicy (Option.bind entry se_sendPolicy) of
        Some override \<Rightarrow> override
      | None \<Rightarrow>
          (case policy of
             None \<Rightarrow> Allow
           | Some p \<Rightarrow>
               (case scanRules (sendContextOf entry sessionKey channel chatType) False (spc_rules p) of
                  Inl d \<Rightarrow> d
                | Inr True \<Rightarrow> Allow
                | Inr False \<Rightarrow>
                    (case normalizeSendPolicy (spc_default p) of None \<Rightarrow> Allow | Some d \<Rightarrow> d))))"

section \<open>Properties\<close>

definition matchingRule :: "sendContext \<Rightarrow> sendDecision \<Rightarrow> sendRule option list \<Rightarrow> bool" where
  "matchingRule c d rs \<longleftrightarrow> (\<exists>r. Some r \<in> set rs \<and> ruleApplies c r \<and> ruleAction r = d)"

lemma scanRules_spec:
  "scanRules c b rs = (if matchingRule c Deny rs then Inl Deny else Inr (b \<or> matchingRule c Allow rs))"
proof (induction c b rs rule: scanRules.induct)
  case (1 c b)
  then show ?case by (simp add: matchingRule_def)
next
  case (2 c b rs)
  then show ?case by (auto simp: matchingRule_def)
next
  case (3 c b r rs)
  have dec: "ruleAction r = Allow \<longleftrightarrow> ruleAction r \<noteq> Deny" by (cases "ruleAction r") auto
  show ?case using 3 dec by (auto simp: matchingRule_def)
qed

text \<open>a session's own override decides; otherwise any matching deny rule denies, wherever it
  stands in the list, then any matching allow rule allows, and only then does the default count.\<close>

theorem send_policy_deny_overrides:
  "resolveSendPolicy policy entry key channel ct =
     (case normalizeSendPolicy (Option.bind entry se_sendPolicy) of
        Some d \<Rightarrow> d
      | None \<Rightarrow> (case policy of
          None \<Rightarrow> Allow
        | Some p \<Rightarrow>
            (let c = sendContextOf entry key channel ct in
             if matchingRule c Deny (spc_rules p) then Deny
             else if matchingRule c Allow (spc_rules p) then Allow
             else case normalizeSendPolicy (spc_default p) of None \<Rightarrow> Allow | Some d \<Rightarrow> d)))"
  by (simp add: resolveSendPolicy_def scanRules_spec Let_def split: option.split)

end
