(* ===== verification/Agent_Routing.thy ===== *)
theory Agent_Routing
  imports Session_Keys
begin

text \<open>
  \<open>src/routing/resolve-route.ts\<close>, \<open>src/routing/bindings.ts\<close>, \<open>src/config/bindings.ts\<close> and
  \<open>resolveDefaultAgentId\<close> of \<open>src/agents/agent-scope.ts\<close>: which agent and which session an
  inbound message goes to. Bindings are evaluated per channel and account, indexed, and searched
  tier by tier; the results go through three caches that hang off the configuration object. The
  parts of the configuration those caches compare by reference are compared here by value.
  Ids are strings and the elements of the configured lists are objects.
\<close>

section \<open>Configuration\<close>

record rawPeer =
  rp_kind :: "string option"
  rp_id :: "string option"

record bindingMatch =
  bm_channel :: "string option"
  bm_accountId :: "string option"
  bm_peer :: "rawPeer option"
  bm_guildId :: "string option"
  bm_teamId :: "string option"
  bm_roles :: "string list option"

record agentBinding =
  ab_type :: "string option"
  ab_agentId :: "string option"
  ab_match :: "bindingMatch option"

record agentEntry =
  ae_id :: "string option"
  ae_default :: bool

record routeConfig =
  cfg_bindings :: "agentBinding list option"
  cfg_agents :: "agentEntry list option"
  cfg_dmScope :: "dmScope option"
  cfg_identityLinks :: "identityLinks option"

definition isRouteBinding :: "agentBinding \<Rightarrow> bool" where
  "isRouteBinding b \<longleftrightarrow> ab_type b \<noteq> Some ''acp''"

definition listConfiguredBindings :: "routeConfig \<Rightarrow> agentBinding list" where
  "listConfiguredBindings cfg = (case cfg_bindings cfg of None \<Rightarrow> [] | Some bs \<Rightarrow> bs)"

definition listRouteBindings :: "routeConfig \<Rightarrow> agentBinding list" where
  "listRouteBindings cfg = filter isRouteBinding (listConfiguredBindings cfg)"

definition listAcpBindings :: "routeConfig \<Rightarrow> agentBinding list" where
  "listAcpBindings cfg = filter (\<lambda>b. \<not> isRouteBinding b) (listConfiguredBindings cfg)"

definition listAgents :: "routeConfig \<Rightarrow> agentEntry list" where
  "listAgents cfg = (case cfg_agents cfg of None \<Rightarrow> [] | Some as \<Rightarrow> as)"

fun listAgentIdsLoop :: "agentEntry list \<Rightarrow> string list \<Rightarrow> string list" where
  "listAgentIdsLoop [] ids = ids"
| "listAgentIdsLoop (a # as) ids =
     (let i = normalizeAgentId (ae_id a) in
      listAgentIdsLoop as (if i \<in> set ids then ids else ids @ [i]))"

definition listAgentIds :: "routeConfig \<Rightarrow> string list" where
  "listAgentIds cfg =
     (if listAgents cfg = [] then [DEFAULT_AGENT_ID]
      else (let ids = listAgentIdsLoop (listAgents cfg) [] in
        if ids \<noteq> [] then ids else [DEFAULT_AGENT_ID]))"

definition resolveDefaultAgentId :: "routeConfig \<Rightarrow> string" where
  "resolveDefaultAgentId cfg =
     (case listAgents cfg of
        [] \<Rightarrow> DEFAULT_AGENT_ID
      | a # as \<Rightarrow>
          (let chosen = (case filter ae_default (a # as) of [] \<Rightarrow> a | d # ds \<Rightarrow> d)
           in normalizeAgentId (Some (js_or (js_trim (js_or_empty (ae_id chosen))) DEFAULT_AGENT_ID))))"

section \<open>Agents\<close>

record agentLookup =
  al_agentsRef :: "agentEntry list option"
  al_byNormalizedId :: "(string \<times> string) list"
  al_fallbackDefaultAgentId :: string

fun agentIndex :: "agentEntry list \<Rightarrow> (string \<times> string) list \<Rightarrow> (string \<times> string) list" where
  "agentIndex [] m = m"
| "agentIndex (a # as) m =
     (let rawId = js_trim (js_or_empty (ae_id a)) in
      if rawId = [] then agentIndex as m
      else agentIndex as (AList.update (normalizeAgentId (Some rawId)) (sanitizeAgentId (Some rawId)) m))"

definition buildAgentLookup :: "routeConfig \<Rightarrow> agentLookup" where
  "buildAgentLookup cfg =
     \<lparr>al_agentsRef = cfg_agents cfg,
      al_byNormalizedId = agentIndex (listAgents cfg) [],
      al_fallbackDefaultAgentId = sanitizeAgentId (Some (resolveDefaultAgentId cfg))\<rparr>"

definition resolveAgentLookupCache :: "routeConfig \<Rightarrow> agentLookup option \<Rightarrow> agentLookup" where
  "resolveAgentLookupCache cfg existing =
     (case existing of
        Some l \<Rightarrow> if al_agentsRef l = cfg_agents cfg then l else buildAgentLookup cfg
      | None \<Rightarrow> buildAgentLookup cfg)"

definition pickFrom :: "agentLookup \<Rightarrow> string option \<Rightarrow> string" where
  "pickFrom lookup agentId =
     (let trimmed = js_trim (js_or_empty agentId) in
      if trimmed = [] then al_fallbackDefaultAgentId lookup
      else if al_byNormalizedId lookup = [] then sanitizeAgentId (Some trimmed)
      else (case map_of (al_byNormalizedId lookup) (normalizeAgentId (Some trimmed)) of
          Some resolved \<Rightarrow> if resolved = [] then al_fallbackDefaultAgentId lookup else resolved
        | None \<Rightarrow> al_fallbackDefaultAgentId lookup))"

definition pickFirstExistingAgentId ::
    "routeConfig \<Rightarrow> string option \<Rightarrow> agentLookup option \<Rightarrow> string \<times> agentLookup option" where
  "pickFirstExistingAgentId cfg agentId cache =
     (let lookup = resolveAgentLookupCache cfg cache in (pickFrom lookup agentId, Some lookup))"

section \<open>Evaluated bindings\<close>

datatype peerConstraint = PeerNone | PeerInvalid | PeerValid chatType string

record normMatch =
  nm_accountPattern :: string
  nm_peer :: peerConstraint
  nm_guildId :: "string option"
  nm_teamId :: "string option"
  nm_roles :: "string list option"

record evalBinding =
  eb_binding :: agentBinding
  eb_match :: normMatch
  eb_order :: nat

record channelBucket =
  cb_byAccount :: "(string \<times> evalBinding list) list"
  cb_byAnyAccount :: "evalBinding list"

record bindingsIndex =
  ix_byPeer :: "(string \<times> evalBinding list) list"
  ix_byGuildWithRoles :: "(string \<times> evalBinding list) list"
  ix_byGuild :: "(string \<times> evalBinding list) list"
  ix_byTeam :: "(string \<times> evalBinding list) list"
  ix_byAccount :: "evalBinding list"
  ix_byChannel :: "evalBinding list"

definition normalizeId :: "string option \<Rightarrow> string" where
  "normalizeId v = js_trim (js_or_empty v)"

definition normalizePeerConstraint :: "rawPeer option \<Rightarrow> peerConstraint" where
  "normalizePeerConstraint peer =
     (case peer of
        None \<Rightarrow> PeerNone
      | Some p \<Rightarrow>
          (case normalizeChatType (rp_kind p) of
             None \<Rightarrow> PeerInvalid
           | Some kind \<Rightarrow>
               (let i = normalizeId (rp_id p) in if i = [] then PeerInvalid else PeerValid kind i)))"

definition normalizeBindingMatch :: "bindingMatch option \<Rightarrow> normMatch" where
  "normalizeBindingMatch m =
     \<lparr>nm_accountPattern = js_trim (js_or_empty (Option.bind m bm_accountId)),
      nm_peer = normalizePeerConstraint (Option.bind m bm_peer),
      nm_guildId = js_some (normalizeId (Option.bind m bm_guildId)),
      nm_teamId = js_some (normalizeId (Option.bind m bm_teamId)),
      nm_roles = (case Option.bind m bm_roles of None \<Rightarrow> None | Some rs \<Rightarrow> if rs = [] then None else Some rs)\<rparr>"

definition resolveAccountPatternKey :: "string \<Rightarrow> string" where
  "resolveAccountPatternKey accountPattern =
     (if js_trim accountPattern = [] then DEFAULT_ACCOUNT_ID
      else normalizeAccountId (Some accountPattern))"

definition bucketAdd :: "evalBinding \<Rightarrow> channelBucket \<Rightarrow> channelBucket" where
  "bucketAdd e bucket =
     (if nm_accountPattern (eb_match e) = ''*''
      then bucket\<lparr>cb_byAnyAccount := cb_byAnyAccount bucket @ [e]\<rparr>
      else (let accountKey = resolveAccountPatternKey (nm_accountPattern (eb_match e)) in
        bucket\<lparr>cb_byAccount :=
          (case map_of (cb_byAccount bucket) accountKey of
             Some existing \<Rightarrow> AList.update accountKey (existing @ [e]) (cb_byAccount bucket)
           | None \<Rightarrow> AList.update accountKey [e] (cb_byAccount bucket))\<rparr>))"

definition emptyBucket :: channelBucket where
  "emptyBucket = \<lparr>cb_byAccount = [], cb_byAnyAccount = []\<rparr>"

fun evaluateBindings ::
    "agentBinding list \<Rightarrow> nat \<Rightarrow> (string \<times> channelBucket) list \<Rightarrow> (string \<times> channelBucket) list" where
  "evaluateBindings [] order byChannel = byChannel"
| "evaluateBindings (b # bs) order byChannel =
     (let channel = normalizeToken (Option.bind (ab_match b) bm_channel) in
      if channel = [] then evaluateBindings bs order byChannel
      else (let e = \<lparr>eb_binding = b, eb_match = normalizeBindingMatch (ab_match b), eb_order = order\<rparr>;
                bucket = (case map_of byChannel channel of None \<Rightarrow> emptyBucket | Some c \<Rightarrow> c)
            in evaluateBindings bs (Suc order) (AList.update channel (bucketAdd e bucket) byChannel)))"

definition buildEvaluatedBindingsByChannel :: "routeConfig \<Rightarrow> (string \<times> channelBucket) list" where
  "buildEvaluatedBindingsByChannel cfg = evaluateBindings (listRouteBindings cfg) 0 []"

fun mergeLoop :: "evalBinding list \<Rightarrow> evalBinding list \<Rightarrow> evalBinding list" where
  "mergeLoop (a # as) (b # bs) =
     (if eb_order a \<le> eb_order b then a # mergeLoop as (b # bs) else b # mergeLoop (a # as) bs)"
| "mergeLoop as [] = as"
| "mergeLoop [] bs = bs"

definition mergeEvaluatedBindingsInSourceOrder ::
    "evalBinding list \<Rightarrow> evalBinding list \<Rightarrow> evalBinding list" where
  "mergeEvaluatedBindingsInSourceOrder accountScoped anyAccount =
     (if accountScoped = [] then anyAccount
      else if anyAccount = [] then accountScoped
      else mergeLoop accountScoped anyAccount)"

definition pushToIndexMap ::
    "string option \<Rightarrow> evalBinding \<Rightarrow> (string \<times> evalBinding list) list \<Rightarrow>
     (string \<times> evalBinding list) list" where
  "pushToIndexMap key b m =
     (case key of
        None \<Rightarrow> m
      | Some k \<Rightarrow>
          if k = [] then m
          else (case map_of m k of
              Some existing \<Rightarrow> AList.update k (existing @ [b]) m
            | None \<Rightarrow> AList.update k [b] m))"

definition peerLookupKeys :: "chatType \<Rightarrow> string \<Rightarrow> string list" where
  "peerLookupKeys kind i =
     (case kind of
        GroupChat \<Rightarrow> [''group:'' @ i, ''channel:'' @ i]
      | ChannelChat \<Rightarrow> [''channel:'' @ i, ''group:'' @ i]
      | DirectChat \<Rightarrow> [''direct:'' @ i])"

definition emptyIndex :: bindingsIndex where
  "emptyIndex = \<lparr>ix_byPeer = [], ix_byGuildWithRoles = [], ix_byGuild = [], ix_byTeam = [],
     ix_byAccount = [], ix_byChannel = []\<rparr>"

definition indexAdd :: "evalBinding \<Rightarrow> bindingsIndex \<Rightarrow> bindingsIndex" where
  "indexAdd e ix =
     (let m = eb_match e in
      case nm_peer m of
        PeerValid kind i \<Rightarrow>
          ix\<lparr>ix_byPeer := fold (\<lambda>key. pushToIndexMap (Some key) e) (peerLookupKeys kind i) (ix_byPeer ix)\<rparr>
      | _ \<Rightarrow>
          if nm_guildId m \<noteq> None \<and> nm_roles m \<noteq> None
          then ix\<lparr>ix_byGuildWithRoles := pushToIndexMap (nm_guildId m) e (ix_byGuildWithRoles ix)\<rparr>
          else if nm_guildId m \<noteq> None \<and> nm_roles m = None
          then ix\<lparr>ix_byGuild := pushToIndexMap (nm_guildId m) e (ix_byGuild ix)\<rparr>
          else if nm_teamId m \<noteq> None
          then ix\<lparr>ix_byTeam := pushToIndexMap (nm_teamId m) e (ix_byTeam ix)\<rparr>
          else if nm_accountPattern m \<noteq> ''*''
          then ix\<lparr>ix_byAccount := ix_byAccount ix @ [e]\<rparr>
          else ix\<lparr>ix_byChannel := ix_byChannel ix @ [e]\<rparr>)"

definition buildEvaluatedBindingsIndex :: "evalBinding list \<Rightarrow> bindingsIndex" where
  "buildEvaluatedBindingsIndex bindings = fold indexAdd bindings emptyIndex"


section \<open>Caches of one configuration object\<close>

record evaluatedCache =
  ec_bindingsRef :: "agentBinding list option"
  ec_byChannel :: "(string \<times> channelBucket) list"
  ec_byChannelAccount :: "(string \<times> evalBinding list) list"
  ec_byChannelAccountIndex :: "(string \<times> bindingsIndex) list"

definition MAX_EVALUATED_BINDINGS_CACHE_KEYS :: nat where
  "MAX_EVALUATED_BINDINGS_CACHE_KEYS = 2000"

definition MAX_RESOLVED_ROUTE_CACHE_KEYS :: nat where
  "MAX_RESOLVED_ROUTE_CACHE_KEYS = 4000"

definition bindingsCacheKey :: "string \<Rightarrow> string \<Rightarrow> string" where
  "bindingsCacheKey channel accountId = channel @ [CHR 0x09] @ accountId"

definition openEvaluatedCache :: "routeConfig \<Rightarrow> evaluatedCache option \<Rightarrow> evaluatedCache" where
  "openEvaluatedCache cfg existing =
     (let fresh = \<lparr>ec_bindingsRef = cfg_bindings cfg,
                   ec_byChannel = buildEvaluatedBindingsByChannel cfg,
                   ec_byChannelAccount = [], ec_byChannelAccountIndex = []\<rparr>
      in case existing of
           None \<Rightarrow> fresh
         | Some c \<Rightarrow> if ec_bindingsRef c = cfg_bindings cfg then c else fresh)"

definition evaluateForAccount :: "(string \<times> channelBucket) list \<Rightarrow> string \<Rightarrow> string \<Rightarrow> evalBinding list" where
  "evaluateForAccount byChannel channel accountId =
     (let channelBindings = map_of byChannel channel;
          accountScoped = (case channelBindings of
              None \<Rightarrow> []
            | Some b \<Rightarrow> (case map_of (cb_byAccount b) accountId of None \<Rightarrow> [] | Some es \<Rightarrow> es));
          anyAccount = (case channelBindings of None \<Rightarrow> [] | Some b \<Rightarrow> cb_byAnyAccount b)
      in mergeEvaluatedBindingsInSourceOrder accountScoped anyAccount)"

definition getEvaluatedBindingsForChannelAccount ::
    "routeConfig \<Rightarrow> string \<Rightarrow> string \<Rightarrow> evaluatedCache option \<Rightarrow> evalBinding list \<times> evaluatedCache" where
  "getEvaluatedBindingsForChannelAccount cfg channel accountId existing =
     (let cache = openEvaluatedCache cfg existing; key = bindingsCacheKey channel accountId in
      case map_of (ec_byChannelAccount cache) key of
        Some hit \<Rightarrow> (hit, cache)
      | None \<Rightarrow>
          (let evaluated = evaluateForAccount (ec_byChannel cache) channel accountId;
               byAccount = AList.update key evaluated (ec_byChannelAccount cache);
               byIndex = AList.update key (buildEvaluatedBindingsIndex evaluated)
                           (ec_byChannelAccountIndex cache)
           in (evaluated,
               if MAX_EVALUATED_BINDINGS_CACHE_KEYS < length byAccount
               then cache\<lparr>ec_byChannelAccount := [(key, evaluated)],
                          ec_byChannelAccountIndex := [(key, buildEvaluatedBindingsIndex evaluated)]\<rparr>
               else cache\<lparr>ec_byChannelAccount := byAccount, ec_byChannelAccountIndex := byIndex\<rparr>)))"

definition getEvaluatedBindingIndexForChannelAccount ::
    "routeConfig \<Rightarrow> string \<Rightarrow> string \<Rightarrow> evaluatedCache option \<Rightarrow> bindingsIndex \<times> evaluatedCache" where
  "getEvaluatedBindingIndexForChannelAccount cfg channel accountId existing =
     (case getEvaluatedBindingsForChannelAccount cfg channel accountId existing of
        (bindings, cache) \<Rightarrow>
          (let key = bindingsCacheKey channel accountId in
           case map_of (ec_byChannelAccountIndex cache) key of
             Some indexed \<Rightarrow> (indexed, cache)
           | None \<Rightarrow>
               (let built = buildEvaluatedBindingsIndex bindings
                in (built, cache\<lparr>ec_byChannelAccountIndex :=
                      AList.update key built (ec_byChannelAccountIndex cache)\<rparr>))))"

section \<open>Resolving a route\<close>

record routePeer =
  peer_kind :: chatType
  peer_id :: string

record routeInput =
  ri_channel :: string
  ri_accountId :: "string option"
  ri_peer :: "routePeer option"
  ri_parentPeer :: "routePeer option"
  ri_guildId :: "string option"
  ri_teamId :: "string option"
  ri_memberRoleIds :: "string list option"

datatype matchedBy =
    ByPeer | ByParentPeer | ByGuildRoles | ByGuild | ByTeam | ByAccount | ByChannel | ByDefault

datatype lastRoutePolicy = LastMain | LastSession

record resolvedRoute =
  rr_agentId :: string
  rr_channel :: string
  rr_accountId :: string
  rr_sessionKey :: string
  rr_mainSessionKey :: string
  rr_lastRoutePolicy :: lastRoutePolicy
  rr_matchedBy :: matchedBy

record bindingScope =
  bs_peer :: "routePeer option"
  bs_guildId :: string
  bs_teamId :: string
  bs_memberRoleIds :: "string set"

definition deriveLastRoutePolicy :: "string \<Rightarrow> string \<Rightarrow> lastRoutePolicy" where
  "deriveLastRoutePolicy sessionKey mainSessionKey =
     (if sessionKey = mainSessionKey then LastMain else LastSession)"

definition resolveInboundLastRouteSessionKey :: "lastRoutePolicy \<Rightarrow> string \<Rightarrow> string \<Rightarrow> string" where
  "resolveInboundLastRouteSessionKey policy mainSessionKey sessionKey =
     (if policy = LastMain then mainSessionKey else sessionKey)"

definition buildAgentSessionKey ::
    "string \<Rightarrow> string \<Rightarrow> string option \<Rightarrow> routePeer option \<Rightarrow> dmScope option \<Rightarrow> identityLinks option \<Rightarrow>
     string" where
  "buildAgentSessionKey agentId channel accountId peer scope links =
     buildAgentPeerSessionKey
       \<lparr>pkp_agentId = agentId, pkp_mainKey = Some DEFAULT_MAIN_KEY,
        pkp_channel = js_or (normalizeToken (Some channel)) ''unknown'',
        pkp_accountId = accountId,
        pkp_peerKind = Some (case peer of None \<Rightarrow> DirectChat | Some p \<Rightarrow> peer_kind p),
        pkp_peerId = map_option (\<lambda>p. js_or (normalizeId (Some (peer_id p))) ''unknown'') peer,
        pkp_identityLinks = links, pkp_dmScope = scope\<rparr>"

definition formatRouteCachePeer :: "routePeer option \<Rightarrow> string" where
  "formatRouteCachePeer peer =
     (case peer of
        None \<Rightarrow> ''-''
      | Some p \<Rightarrow> if peer_id p = [] then ''-'' else chatTypeText (peer_kind p) @ '':'' @ peer_id p)"

definition formatRoleIdsCacheKey :: "string list \<Rightarrow> string" where
  "formatRoleIdsCacheKey roleIds =
     (case roleIds of
        [] \<Rightarrow> ''-''
      | [r] \<Rightarrow> r
      | [first, second] \<Rightarrow> if first \<le> second then first @ '','' @ second else second @ '','' @ first
      | _ \<Rightarrow> js_join '','' (sort roleIds))"

fun dmScopeText :: "dmScope \<Rightarrow> string" where
  "dmScopeText DmMain = ''main''"
| "dmScopeText DmPerPeer = ''per-peer''"
| "dmScopeText DmPerChannelPeer = ''per-channel-peer''"
| "dmScopeText DmPerAccountChannelPeer = ''per-account-channel-peer''"

text \<open>The normalised input: the constants at the head of \<open>resolveAgentRoute\<close>. The kind of a
  peer is already one of the three chat types, which \<open>normalizeChatType\<close> keeps.\<close>

record routeQuery =
  rq_channel :: string
  rq_accountId :: string
  rq_peer :: "routePeer option"
  rq_parentPeer :: "routePeer option"
  rq_guildId :: string
  rq_teamId :: string
  rq_memberRoleIds :: "string list"
  rq_dmScope :: dmScope

definition normalizePeer :: "routePeer option \<Rightarrow> routePeer option" where
  "normalizePeer = map_option (\<lambda>p. p\<lparr>peer_id := normalizeId (Some (peer_id p))\<rparr>)"

definition routeQueryOf :: "routeConfig \<Rightarrow> routeInput \<Rightarrow> routeQuery" where
  "routeQueryOf cfg i =
     \<lparr>rq_channel = normalizeToken (Some (ri_channel i)),
      rq_accountId = normalizeAccountId (ri_accountId i),
      rq_peer = normalizePeer (ri_peer i),
      rq_parentPeer = normalizePeer (ri_parentPeer i),
      rq_guildId = normalizeId (ri_guildId i),
      rq_teamId = normalizeId (ri_teamId i),
      rq_memberRoleIds = (case ri_memberRoleIds i of None \<Rightarrow> [] | Some rs \<Rightarrow> rs),
      rq_dmScope = (case cfg_dmScope cfg of None \<Rightarrow> DmMain | Some d \<Rightarrow> d)\<rparr>"

definition buildResolvedRouteCacheKey :: "routeQuery \<Rightarrow> string" where
  "buildResolvedRouteCacheKey q =
     js_join [CHR 0x09]
       [rq_channel q, rq_accountId q, formatRouteCachePeer (rq_peer q),
        formatRouteCachePeer (rq_parentPeer q), js_or (rq_guildId q) ''-'', js_or (rq_teamId q) ''-'',
        formatRoleIdsCacheKey (rq_memberRoleIds q), dmScopeText (rq_dmScope q)]"

definition peerKindMatches :: "chatType \<Rightarrow> chatType \<Rightarrow> bool" where
  "peerKindMatches bindingKind scopeKind =
     (if bindingKind = scopeKind then True
      else GroupChat \<in> {bindingKind, scopeKind} \<and> ChannelChat \<in> {bindingKind, scopeKind})"

definition matchesBindingScope :: "normMatch \<Rightarrow> bindingScope \<Rightarrow> bool" where
  "matchesBindingScope m scope =
     (if nm_peer m = PeerInvalid then False
      else if (case nm_peer m of
          PeerValid kind i \<Rightarrow> (case bs_peer scope of
              None \<Rightarrow> True
            | Some p \<Rightarrow> \<not> peerKindMatches kind (peer_kind p) \<or> peer_id p \<noteq> i)
        | _ \<Rightarrow> False) then False
      else if (case nm_guildId m of None \<Rightarrow> False | Some g \<Rightarrow> g \<noteq> bs_guildId scope) then False
      else if (case nm_teamId m of None \<Rightarrow> False | Some t \<Rightarrow> t \<noteq> bs_teamId scope) then False
      else (case nm_roles m of
          None \<Rightarrow> True
        | Some rs \<Rightarrow> list_ex (\<lambda>r. r \<in> bs_memberRoleIds scope) rs))"

fun dedupKeepFirst :: "'a list \<Rightarrow> 'a list \<Rightarrow> 'a list" where
  "dedupKeepFirst out [] = out"
| "dedupKeepFirst out (x # xs) = dedupKeepFirst (if x \<in> set out then out else out @ [x]) xs"

definition collectPeerIndexedBindings :: "bindingsIndex \<Rightarrow> routePeer option \<Rightarrow> evalBinding list" where
  "collectPeerIndexedBindings ix peer =
     (case peer of
        None \<Rightarrow> []
      | Some p \<Rightarrow> fold (\<lambda>key out. case map_of (ix_byPeer ix) key of
                         None \<Rightarrow> out | Some es \<Rightarrow> dedupKeepFirst out es)
                    (peerLookupKeys (peer_kind p) (peer_id p)) [])"

record routeTier =
  t_matchedBy :: matchedBy
  t_enabled :: bool
  t_scopePeer :: "routePeer option"
  t_candidates :: "evalBinding list"
  t_predicate :: "normMatch \<Rightarrow> bool"

definition isValidPeer :: "peerConstraint \<Rightarrow> bool" where
  "isValidPeer c = (case c of PeerValid _ _ \<Rightarrow> True | _ \<Rightarrow> False)"

definition getOrEmpty :: "('k \<times> 'v list) list \<Rightarrow> 'k \<Rightarrow> 'v list" where
  "getOrEmpty m k = (case map_of m k of None \<Rightarrow> [] | Some xs \<Rightarrow> xs)"

definition routeTiers :: "routeQuery \<Rightarrow> bindingsIndex \<Rightarrow> routeTier list" where
  "routeTiers q ix =
     (let peer = rq_peer q; guildId = rq_guildId q; teamId = rq_teamId q;
          parentPeer = (case rq_parentPeer q of None \<Rightarrow> None | Some p \<Rightarrow> if peer_id p = [] then None else Some p)
      in
      [\<lparr>t_matchedBy = ByPeer, t_enabled = (peer \<noteq> None), t_scopePeer = peer,
        t_candidates = collectPeerIndexedBindings ix peer,
        t_predicate = (\<lambda>m. isValidPeer (nm_peer m))\<rparr>,
       \<lparr>t_matchedBy = ByParentPeer, t_enabled = (parentPeer \<noteq> None), t_scopePeer = parentPeer,
        t_candidates = collectPeerIndexedBindings ix (rq_parentPeer q),
        t_predicate = (\<lambda>m. isValidPeer (nm_peer m))\<rparr>,
       \<lparr>t_matchedBy = ByGuildRoles, t_enabled = (guildId \<noteq> [] \<and> rq_memberRoleIds q \<noteq> []),
        t_scopePeer = peer,
        t_candidates = (if guildId = [] then [] else getOrEmpty (ix_byGuildWithRoles ix) guildId),
        t_predicate = (\<lambda>m. nm_guildId m \<noteq> None \<and> nm_roles m \<noteq> None)\<rparr>,
       \<lparr>t_matchedBy = ByGuild, t_enabled = (guildId \<noteq> []), t_scopePeer = peer,
        t_candidates = (if guildId = [] then [] else getOrEmpty (ix_byGuild ix) guildId),
        t_predicate = (\<lambda>m. nm_guildId m \<noteq> None \<and> nm_roles m = None)\<rparr>,
       \<lparr>t_matchedBy = ByTeam, t_enabled = (teamId \<noteq> []), t_scopePeer = peer,
        t_candidates = (if teamId = [] then [] else getOrEmpty (ix_byTeam ix) teamId),
        t_predicate = (\<lambda>m. nm_teamId m \<noteq> None)\<rparr>,
       \<lparr>t_matchedBy = ByAccount, t_enabled = True, t_scopePeer = peer,
        t_candidates = ix_byAccount ix,
        t_predicate = (\<lambda>m. nm_accountPattern m \<noteq> ''*'')\<rparr>,
       \<lparr>t_matchedBy = ByChannel, t_enabled = True, t_scopePeer = peer,
        t_candidates = ix_byChannel ix,
        t_predicate = (\<lambda>m. nm_accountPattern m = ''*'')\<rparr>])"

definition tierScope :: "routeQuery \<Rightarrow> routePeer option \<Rightarrow> bindingScope" where
  "tierScope q peer = \<lparr>bs_peer = peer, bs_guildId = rq_guildId q, bs_teamId = rq_teamId q,
     bs_memberRoleIds = set (rq_memberRoleIds q)\<rparr>"

fun searchTiers :: "routeQuery \<Rightarrow> routeTier list \<Rightarrow> (evalBinding \<times> matchedBy) option" where
  "searchTiers q [] = None"
| "searchTiers q (t # ts) =
     (if \<not> t_enabled t then searchTiers q ts
      else (case find (\<lambda>c. t_predicate t (eb_match c) \<and>
                          matchesBindingScope (eb_match c) (tierScope q (t_scopePeer t))) (t_candidates t) of
          Some matched \<Rightarrow> Some (matched, t_matchedBy t)
        | None \<Rightarrow> searchTiers q ts))"

definition chosenBy :: "routeConfig \<Rightarrow> (evalBinding \<times> matchedBy) option \<Rightarrow> string option \<times> matchedBy" where
  "chosenBy cfg found =
     (case found of
        Some (c, by) \<Rightarrow> (ab_agentId (eb_binding c), by)
      | None \<Rightarrow> (Some (resolveDefaultAgentId cfg), ByDefault))"

definition routeFor :: "routeConfig \<Rightarrow> routeQuery \<Rightarrow> string \<Rightarrow> matchedBy \<Rightarrow> resolvedRoute" where
  "routeFor cfg q agentId by =
     (let sessionKey = js_lower (buildAgentSessionKey agentId (rq_channel q) (Some (rq_accountId q))
                         (rq_peer q) (Some (rq_dmScope q)) (cfg_identityLinks cfg));
          mainSessionKey = js_lower (buildAgentMainSessionKey agentId (Some DEFAULT_MAIN_KEY))
      in \<lparr>rr_agentId = agentId, rr_channel = rq_channel q, rr_accountId = rq_accountId q,
          rr_sessionKey = sessionKey, rr_mainSessionKey = mainSessionKey,
          rr_lastRoutePolicy = deriveLastRoutePolicy sessionKey mainSessionKey,
          rr_matchedBy = by\<rparr>)"


record resolvedCache =
  rc_bindingsRef :: "agentBinding list option"
  rc_agentsRef :: "agentEntry list option"
  rc_sessionRef :: "dmScope option \<times> identityLinks option"
  rc_byKey :: "(string \<times> resolvedRoute) list"

definition resolveRouteCacheForConfig :: "routeConfig \<Rightarrow> resolvedCache option \<Rightarrow> resolvedCache" where
  "resolveRouteCacheForConfig cfg existing =
     (let session = (cfg_dmScope cfg, cfg_identityLinks cfg);
          fresh = \<lparr>rc_bindingsRef = cfg_bindings cfg, rc_agentsRef = cfg_agents cfg,
                   rc_sessionRef = session, rc_byKey = []\<rparr>
      in case existing of
           None \<Rightarrow> fresh
         | Some c \<Rightarrow>
             if rc_bindingsRef c = cfg_bindings cfg \<and> rc_agentsRef c = cfg_agents cfg \<and>
                rc_sessionRef c = session then c else fresh)"

definition clearingPut :: "nat \<Rightarrow> 'k \<Rightarrow> 'v \<Rightarrow> ('k \<times> 'v) list \<Rightarrow> ('k \<times> 'v) list" where
  "clearingPut limit k v m =
     (let m' = AList.update k v m in if limit < length m' then AList.update k v [] else m')"

record routeCaches =
  rs_lookup :: "agentLookup option"
  rs_evaluated :: "evaluatedCache option"
  rs_resolved :: "resolvedCache option"

text \<open>The part of \<open>resolveAgentRoute\<close> after a miss: both getters, the tiers and \<open>choose\<close>.\<close>

definition routeMiss ::
    "routeConfig \<Rightarrow> routeQuery \<Rightarrow> agentLookup option \<Rightarrow> evaluatedCache option \<Rightarrow>
     resolvedRoute \<times> agentLookup option \<times> evaluatedCache option" where
  "routeMiss cfg q lookup evaluated =
     (case getEvaluatedBindingsForChannelAccount cfg (rq_channel q) (rq_accountId q) evaluated of
        (bindings, ev1) \<Rightarrow>
          (case getEvaluatedBindingIndexForChannelAccount cfg (rq_channel q) (rq_accountId q) (Some ev1) of
             (ix, ev2) \<Rightarrow>
               (case chosenBy cfg (searchTiers q (routeTiers q ix)) of
                  (agentId, by) \<Rightarrow>
                    (case pickFirstExistingAgentId cfg agentId lookup of
                       (resolvedAgentId, lookup') \<Rightarrow>
                         (routeFor cfg q resolvedAgentId by, lookup', Some ev2)))))"

definition resolveAgentRoute ::
    "bool \<Rightarrow> routeConfig \<Rightarrow> routeCaches \<Rightarrow> routeInput \<Rightarrow> resolvedRoute \<times> routeCaches" where
  "resolveAgentRoute shouldLogDebug cfg st input =
     (let q = routeQueryOf cfg input in
      if \<not> shouldLogDebug \<and> cfg_identityLinks cfg = None
      then (let routeCache = resolveRouteCacheForConfig cfg (rs_resolved st);
                key = buildResolvedRouteCacheKey q
            in case map_of (rc_byKey routeCache) key of
                 Some cached \<Rightarrow> (cached, st\<lparr>rs_resolved := Some routeCache\<rparr>)
               | None \<Rightarrow>
                   (case routeMiss cfg q (rs_lookup st) (rs_evaluated st) of
                      (route, lookup, evaluated) \<Rightarrow>
                        (route,
                         \<lparr>rs_lookup = lookup, rs_evaluated = evaluated,
                          rs_resolved = Some (routeCache\<lparr>rc_byKey :=
                            clearingPut MAX_RESOLVED_ROUTE_CACHE_KEYS key route (rc_byKey routeCache)\<rparr>)\<rparr>)))
      else (case routeMiss cfg q (rs_lookup st) (rs_evaluated st) of
              (route, lookup, evaluated) \<Rightarrow>
                (route, st\<lparr>rs_lookup := lookup, rs_evaluated := evaluated\<rparr>)))"

section \<open>Other readers of the bindings\<close>

text \<open>\<open>normalizeChatChannelId\<close> is a table of the channel registry: a parameter.\<close>

record boundAccount =
  ba_agentId :: string
  ba_accountId :: string
  ba_channelId :: string

definition normalizeBindingChannelId :: "(string option \<Rightarrow> string option) \<Rightarrow> string option \<Rightarrow> string option" where
  "normalizeBindingChannelId normalizeChatChannelId raw =
     (case normalizeChatChannelId raw of
        Some n \<Rightarrow> if n \<noteq> [] then Some n else js_some (js_lower (js_trim (js_or_empty raw)))
      | None \<Rightarrow> js_some (js_lower (js_trim (js_or_empty raw))))"

definition resolveNormalizedBindingMatch ::
    "(string option \<Rightarrow> string option) \<Rightarrow> agentBinding \<Rightarrow> boundAccount option" where
  "resolveNormalizedBindingMatch reg b =
     (case ab_match b of
        None \<Rightarrow> None
      | Some m \<Rightarrow>
          (case normalizeBindingChannelId reg (bm_channel m) of
             None \<Rightarrow> None
           | Some channelId \<Rightarrow>
               (let accountId = js_trim (js_or_empty (bm_accountId m)) in
                if accountId = [] \<or> accountId = ''*'' then None
                else Some \<lparr>ba_agentId = normalizeAgentId (ab_agentId b),
                           ba_accountId = normalizeAccountId (Some accountId),
                           ba_channelId = channelId\<rparr>)))"

text \<open>\<open>toSorted\<close> with \<open>localeCompare\<close>: the collation is a parameter.\<close>

definition listBoundAccountIds ::
    "(string option \<Rightarrow> string option) \<Rightarrow> (string list \<Rightarrow> string list) \<Rightarrow> routeConfig \<Rightarrow> string \<Rightarrow>
     string list" where
  "listBoundAccountIds reg toSorted cfg channelId =
     (case normalizeBindingChannelId reg (Some channelId) of
        None \<Rightarrow> []
      | Some ch \<Rightarrow>
          toSorted (dedupKeepFirst []
            (map ba_accountId (filter (\<lambda>r. ba_channelId r = ch)
              (List.map_filter (resolveNormalizedBindingMatch reg) (listRouteBindings cfg))))))"

definition resolveDefaultAgentBoundAccountId ::
    "(string option \<Rightarrow> string option) \<Rightarrow> routeConfig \<Rightarrow> string \<Rightarrow> string option" where
  "resolveDefaultAgentBoundAccountId reg cfg channelId =
     (case normalizeBindingChannelId reg (Some channelId) of
        None \<Rightarrow> None
      | Some ch \<Rightarrow>
          (let defaultAgentId = normalizeAgentId (Some (resolveDefaultAgentId cfg)) in
           map_option ba_accountId
             (find (\<lambda>r. ba_channelId r = ch \<and> ba_agentId r = defaultAgentId)
               (List.map_filter (resolveNormalizedBindingMatch reg) (listRouteBindings cfg)))))"

type_synonym accountsByAgent = "(string \<times> string list) list"

definition addBoundAccount ::
    "boundAccount \<Rightarrow> (string \<times> accountsByAgent) list \<Rightarrow> (string \<times> accountsByAgent) list" where
  "addBoundAccount r m =
     (let byAgent = getOrEmpty m (ba_channelId r);
          accounts = getOrEmpty byAgent (ba_agentId r);
          accounts' = (if ba_accountId r \<in> set accounts then accounts else accounts @ [ba_accountId r])
      in AList.update (ba_channelId r) (AList.update (ba_agentId r) accounts' byAgent) m)"

definition buildChannelAccountBindings ::
    "(string option \<Rightarrow> string option) \<Rightarrow> routeConfig \<Rightarrow> (string \<times> accountsByAgent) list" where
  "buildChannelAccountBindings reg cfg =
     fold addBoundAccount (List.map_filter (resolveNormalizedBindingMatch reg) (listRouteBindings cfg)) []"

definition resolvePreferredAccountId :: "string list \<Rightarrow> string \<Rightarrow> string list \<Rightarrow> string" where
  "resolvePreferredAccountId accountIds defaultAccountId boundAccounts =
     (if boundAccounts \<noteq> [] then hd boundAccounts else defaultAccountId)"

section \<open>The reference: one scan per tier over the bindings in source order\<close>

text \<open>Every route binding with a channel, numbered in the order of the configuration.\<close>

fun numbered :: "agentBinding list \<Rightarrow> nat \<Rightarrow> (string \<times> evalBinding) list" where
  "numbered [] n = []"
| "numbered (b # bs) n =
     (let channel = normalizeToken (Option.bind (ab_match b) bm_channel) in
      if channel = [] then numbered bs n
      else (channel, \<lparr>eb_binding = b, eb_match = normalizeBindingMatch (ab_match b), eb_order = n\<rparr>)
           # numbered bs (Suc n))"

definition appliesTo :: "string \<Rightarrow> string \<Rightarrow> string \<times> evalBinding \<Rightarrow> bool" where
  "appliesTo channel accountId ce \<longleftrightarrow> fst ce = channel \<and>
     (nm_accountPattern (eb_match (snd ce)) = ''*'' \<or>
      resolveAccountPatternKey (nm_accountPattern (eb_match (snd ce))) = accountId)"

definition bindingsInOrder :: "routeConfig \<Rightarrow> string \<Rightarrow> string \<Rightarrow> evalBinding list" where
  "bindingsInOrder cfg channel accountId =
     map snd (filter (appliesTo channel accountId) (numbered (listRouteBindings cfg) 0))"

definition scanTiers :: "routeQuery \<Rightarrow> evalBinding list \<Rightarrow> (evalBinding \<times> matchedBy) option" where
  "scanTiers q es = searchTiers q (map (\<lambda>t. t\<lparr>t_candidates := es\<rparr>) (routeTiers q emptyIndex))"

definition routeReference :: "routeConfig \<Rightarrow> routeInput \<Rightarrow> resolvedRoute" where
  "routeReference cfg i =
     (let q = routeQueryOf cfg i in
      case chosenBy cfg (scanTiers q (bindingsInOrder cfg (rq_channel q) (rq_accountId q))) of
        (agentId, by) \<Rightarrow> routeFor cfg q (pickFrom (buildAgentLookup cfg) agentId) by)"

section \<open>Lemmas: bindings are found in source order\<close>

lemma getOrEmpty_update: "getOrEmpty (AList.update k xs m) k' = (if k' = k then xs else getOrEmpty m k')"
  by (simp add: getOrEmpty_def map_of_update_iff)

lemma getOrEmpty_Nil [simp]: "getOrEmpty [] k = []"
  by (simp add: getOrEmpty_def)

definition bucketOf :: "(string \<times> channelBucket) list \<Rightarrow> string \<Rightarrow> channelBucket" where
  "bucketOf m ch = (case map_of m ch of None \<Rightarrow> emptyBucket | Some c \<Rightarrow> c)"

lemma bucketOf_update: "bucketOf (AList.update k b m) ch = (if ch = k then b else bucketOf m ch)"
  by (simp add: bucketOf_def map_of_update_iff)

lemma bucketOf_Nil [simp]:
  "getOrEmpty (cb_byAccount (bucketOf [] ch)) a = []" "cb_byAnyAccount (bucketOf [] ch) = []"
  by (simp_all add: bucketOf_def emptyBucket_def)

lemma bucketAdd_account:
  "getOrEmpty (cb_byAccount (bucketAdd e b)) a = getOrEmpty (cb_byAccount b) a @
     (if nm_accountPattern (eb_match e) \<noteq> ''*'' \<and>
         resolveAccountPatternKey (nm_accountPattern (eb_match e)) = a then [e] else [])"
  by (auto simp: bucketAdd_def Let_def getOrEmpty_def map_of_update_iff split: option.split)

lemma bucketAdd_any:
  "cb_byAnyAccount (bucketAdd e b) = cb_byAnyAccount b @
     (if nm_accountPattern (eb_match e) = ''*'' then [e] else [])"
  by (simp add: bucketAdd_def Let_def)

definition inBucket :: "string \<Rightarrow> string \<Rightarrow> string \<times> evalBinding \<Rightarrow> bool" where
  "inBucket ch a ce \<longleftrightarrow> fst ce = ch \<and> nm_accountPattern (eb_match (snd ce)) \<noteq> ''*'' \<and>
     resolveAccountPatternKey (nm_accountPattern (eb_match (snd ce))) = a"

definition inAny :: "string \<Rightarrow> string \<times> evalBinding \<Rightarrow> bool" where
  "inAny ch ce \<longleftrightarrow> fst ce = ch \<and> nm_accountPattern (eb_match (snd ce)) = ''*''"

lemma inBucket_inAny: "\<not> (inBucket ch a z \<and> inAny ch z)"
  by (simp add: inBucket_def inAny_def)

lemma evaluateBindings_buckets:
  "getOrEmpty (cb_byAccount (bucketOf (evaluateBindings bs n m) ch)) a =
     getOrEmpty (cb_byAccount (bucketOf m ch)) a @ map snd (filter (inBucket ch a) (numbered bs n)) \<and>
   cb_byAnyAccount (bucketOf (evaluateBindings bs n m) ch) =
     cb_byAnyAccount (bucketOf m ch) @ map snd (filter (inAny ch) (numbered bs n))"
proof (induction bs n m rule: evaluateBindings.induct)
  case (1 n m)
  then show ?case by simp
next
  case (2 b bs n m)
  let ?c = "normalizeToken (Option.bind (ab_match b) bm_channel)"
  let ?e = "\<lparr>eb_binding = b, eb_match = normalizeBindingMatch (ab_match b), eb_order = n\<rparr>"
  show ?case
  proof (cases "?c = []")
    case True
    with 2(1) [OF refl] show ?thesis by simp
  next
    case False
    with 2(2) [OF refl False refl refl] show ?thesis
      by (simp add: Let_def bucketOf_update bucketOf_def [symmetric]
          bucketAdd_account bucketAdd_any inBucket_def inAny_def)
  qed
qed


lemma numbered_orders: "ce \<in> set (numbered bs n) \<Longrightarrow> n \<le> eb_order (snd ce)"
  by (induction bs n rule: numbered.induct) (fastforce simp: Let_def split: if_splits)+

lemma numbered_sorted: "sorted_wrt (\<lambda>a b. eb_order (snd a) < eb_order (snd b)) (numbered bs n)"
proof (induction bs n rule: numbered.induct)
  case (2 b bs n)
  then show ?case by (auto simp: Let_def dest: numbered_orders)
qed simp

lemma mergeLoop_first:
  "(\<And>b. b \<in> set bs \<Longrightarrow> eb_order a < eb_order b) \<Longrightarrow> mergeLoop (a # as) bs = a # mergeLoop as bs"
  by (cases bs; cases as) (auto simp: less_imp_le)

lemma mergeLoop_second:
  "(\<And>a. a \<in> set as \<Longrightarrow> eb_order b < eb_order a) \<Longrightarrow> mergeLoop as (b # bs) = b # mergeLoop as bs"
proof -
  assume a: "\<And>a. a \<in> set as \<Longrightarrow> eb_order b < eb_order a"
  show ?thesis
  proof (cases as)
    case Nil
    then show ?thesis by (cases bs) simp_all
  next
    case (Cons x xs)
    with a [of x] show ?thesis by simp
  qed
qed

lemma mergeLoop_filter:
  assumes "sorted_wrt (\<lambda>a b. eb_order (snd a) < eb_order (snd b)) zs" "\<And>z. \<not> (P z \<and> Q z)"
  shows "mergeLoop (map snd (filter P zs)) (map snd (filter Q zs)) = map snd (filter (\<lambda>z. P z \<or> Q z) zs)"
  using assms(1)
proof (induction zs)
  case Nil
  then show ?case by simp
next
  case (Cons z zs)
  then have "mergeLoop (snd z # as) (map snd (filter Q zs)) = snd z # mergeLoop as (map snd (filter Q zs))"
    and "mergeLoop (map snd (filter P zs)) (snd z # bs) = snd z # mergeLoop (map snd (filter P zs)) bs"
    for as bs by (auto intro!: mergeLoop_first mergeLoop_second)
  with Cons assms(2) [of z] show ?case by auto
qed

lemma mergeEvaluated_eq: "mergeEvaluatedBindingsInSourceOrder as bs = mergeLoop as bs"
  by (cases as; cases bs) (simp_all add: mergeEvaluatedBindingsInSourceOrder_def)

lemma evaluateForAccount_buckets:
  "evaluateForAccount m ch a =
     mergeLoop (getOrEmpty (cb_byAccount (bucketOf m ch)) a) (cb_byAnyAccount (bucketOf m ch))"
  by (simp add: evaluateForAccount_def mergeEvaluated_eq bucketOf_def getOrEmpty_def emptyBucket_def
      split: option.split)

lemma evaluateForAccount_order:
  "evaluateForAccount (buildEvaluatedBindingsByChannel cfg) ch a = bindingsInOrder cfg ch a"
proof -
  have "appliesTo ch a = (\<lambda>z. inBucket ch a z \<or> inAny ch z)"
    by (auto simp: appliesTo_def inBucket_def inAny_def fun_eq_iff)
  then show ?thesis
    by (simp add: evaluateForAccount_buckets buildEvaluatedBindingsByChannel_def
        evaluateBindings_buckets mergeLoop_filter [OF numbered_sorted inBucket_inAny]
        bindingsInOrder_def)
qed


section \<open>Lemmas: the index holds, per key, the bindings of that key in order\<close>

definition peerKeyed :: "string \<Rightarrow> evalBinding \<Rightarrow> bool" where
  "peerKeyed k e \<longleftrightarrow> (case nm_peer (eb_match e) of PeerValid kind i \<Rightarrow> k \<in> set (peerLookupKeys kind i) | _ \<Rightarrow> False)"

definition unpeered :: "evalBinding \<Rightarrow> bool" where
  "unpeered e \<longleftrightarrow> \<not> isValidPeer (nm_peer (eb_match e))"

lemma getOrEmpty_push:
  "getOrEmpty (pushToIndexMap key e m) k = getOrEmpty m k @ (if key = Some k \<and> k \<noteq> [] then [e] else [])"
  by (cases key) (auto simp: pushToIndexMap_def getOrEmpty_def map_of_update_iff split: option.split)

lemma indexAdd_byPeer:
  "getOrEmpty (ix_byPeer (indexAdd e ix)) k = getOrEmpty (ix_byPeer ix) k @ (if peerKeyed k e then [e] else [])"
  by (auto simp: indexAdd_def peerKeyed_def peerLookupKeys_def getOrEmpty_push Let_def
      split: peerConstraint.split chatType.split)

lemma indexAdd_byGuildWithRoles:
  "k \<noteq> [] \<Longrightarrow> getOrEmpty (ix_byGuildWithRoles (indexAdd e ix)) k = getOrEmpty (ix_byGuildWithRoles ix) k @
    (if unpeered e \<and> nm_guildId (eb_match e) = Some k \<and> nm_roles (eb_match e) \<noteq> None then [e] else [])"
  by (auto simp: indexAdd_def unpeered_def isValidPeer_def getOrEmpty_push Let_def split: peerConstraint.split)

lemma indexAdd_byGuild:
  "k \<noteq> [] \<Longrightarrow> getOrEmpty (ix_byGuild (indexAdd e ix)) k = getOrEmpty (ix_byGuild ix) k @
    (if unpeered e \<and> nm_guildId (eb_match e) = Some k \<and> nm_roles (eb_match e) = None then [e] else [])"
  by (auto simp: indexAdd_def unpeered_def isValidPeer_def getOrEmpty_push Let_def split: peerConstraint.split)

lemma indexAdd_byTeam:
  "k \<noteq> [] \<Longrightarrow> getOrEmpty (ix_byTeam (indexAdd e ix)) k = getOrEmpty (ix_byTeam ix) k @
    (if unpeered e \<and> nm_guildId (eb_match e) = None \<and> nm_teamId (eb_match e) = Some k then [e] else [])"
  by (auto simp: indexAdd_def unpeered_def isValidPeer_def getOrEmpty_push Let_def split: peerConstraint.split)

definition unscoped :: "evalBinding \<Rightarrow> bool" where
  "unscoped e \<longleftrightarrow> unpeered e \<and> nm_guildId (eb_match e) = None \<and> nm_teamId (eb_match e) = None"

lemma indexAdd_rest:
  "ix_byAccount (indexAdd e ix) = ix_byAccount ix @
     (if unscoped e \<and> nm_accountPattern (eb_match e) \<noteq> ''*'' then [e] else [])"
  "ix_byChannel (indexAdd e ix) = ix_byChannel ix @
     (if unscoped e \<and> nm_accountPattern (eb_match e) = ''*'' then [e] else [])"
  by (auto simp: indexAdd_def unscoped_def unpeered_def isValidPeer_def Let_def split: peerConstraint.split)

lemma index_fold:
  "getOrEmpty (ix_byPeer (fold indexAdd es ix)) k = getOrEmpty (ix_byPeer ix) k @ filter (peerKeyed k) es"
  "k \<noteq> [] \<Longrightarrow> getOrEmpty (ix_byGuildWithRoles (fold indexAdd es ix)) k = getOrEmpty (ix_byGuildWithRoles ix) k @
     filter (\<lambda>e. unpeered e \<and> nm_guildId (eb_match e) = Some k \<and> nm_roles (eb_match e) \<noteq> None) es"
  "k \<noteq> [] \<Longrightarrow> getOrEmpty (ix_byGuild (fold indexAdd es ix)) k = getOrEmpty (ix_byGuild ix) k @
     filter (\<lambda>e. unpeered e \<and> nm_guildId (eb_match e) = Some k \<and> nm_roles (eb_match e) = None) es"
  "k \<noteq> [] \<Longrightarrow> getOrEmpty (ix_byTeam (fold indexAdd es ix)) k = getOrEmpty (ix_byTeam ix) k @
     filter (\<lambda>e. unpeered e \<and> nm_guildId (eb_match e) = None \<and> nm_teamId (eb_match e) = Some k) es"
  "ix_byAccount (fold indexAdd es ix) = ix_byAccount ix @
     filter (\<lambda>e. unscoped e \<and> nm_accountPattern (eb_match e) \<noteq> ''*'') es"
  "ix_byChannel (fold indexAdd es ix) = ix_byChannel ix @
     filter (\<lambda>e. unscoped e \<and> nm_accountPattern (eb_match e) = ''*'') es"
  by (induction es arbitrary: ix)
    (simp_all add: indexAdd_byPeer indexAdd_byGuildWithRoles indexAdd_byGuild indexAdd_byTeam indexAdd_rest)

lemmas index_lookup = index_fold [where ix = emptyIndex, folded buildEvaluatedBindingsIndex_def,
    unfolded emptyIndex_def bindingsIndex.select_convs getOrEmpty_Nil append_Nil]

lemma dedupKeepFirst_fresh: "distinct (out @ xs) \<Longrightarrow> dedupKeepFirst out xs = out @ xs"
  by (induction out xs rule: dedupKeepFirst.induct) auto

lemma dedupKeepFirst_seen: "set xs \<subseteq> set out \<Longrightarrow> dedupKeepFirst out xs = out"
  by (induction out xs rule: dedupKeepFirst.induct) auto

lemma peerKeyed_group_channel: "peerKeyed (''group:'' @ i) = peerKeyed (''channel:'' @ i)"
  by (auto simp: fun_eq_iff peerKeyed_def peerLookupKeys_def split: peerConstraint.split chatType.split)

definition peerMatches :: "routePeer \<Rightarrow> evalBinding \<Rightarrow> bool" where
  "peerMatches p e \<longleftrightarrow> (case nm_peer (eb_match e) of
     PeerValid kind i \<Rightarrow> peerKindMatches kind (peer_kind p) \<and> peer_id p = i | _ \<Rightarrow> False)"

lemma peerKeyed_matches:
  "k \<in> set (peerLookupKeys (peer_kind p) (peer_id p)) \<Longrightarrow> peerKeyed k = peerMatches p"
  by (auto simp: fun_eq_iff peerKeyed_def peerMatches_def peerLookupKeys_def peerKindMatches_def
      split: peerConstraint.splits chatType.splits)

lemma collectPeer_some:
  assumes "distinct es"
  shows "collectPeerIndexedBindings (buildEvaluatedBindingsIndex es) (Some p) = filter (peerMatches p) es"
proof -
  have step: "(case map_of (ix_byPeer (buildEvaluatedBindingsIndex es)) k of None \<Rightarrow> out
      | Some xs \<Rightarrow> dedupKeepFirst out xs) = dedupKeepFirst out (filter (peerMatches p) es)"
    if "k \<in> set (peerLookupKeys (peer_kind p) (peer_id p))" for k out
    using index_lookup(1) [of es k] peerKeyed_matches [OF that]
    by (auto simp: getOrEmpty_def split: option.splits)
  have "dedupKeepFirst [] (filter (peerMatches p) es) = filter (peerMatches p) es"
    using assms by (simp add: dedupKeepFirst_fresh)
  then show ?thesis
    by (cases "peer_kind p")
      (simp_all add: collectPeerIndexedBindings_def peerLookupKeys_def
        step [unfolded peerLookupKeys_def] dedupKeepFirst_seen)
qed


section \<open>Lemmas: the indexed search finds what the scan finds\<close>

definition matches :: "routeQuery \<Rightarrow> routePeer option \<Rightarrow> evalBinding \<Rightarrow> bool" where
  "matches q peer e \<longleftrightarrow> matchesBindingScope (eb_match e) (tierScope q peer)"

definition cleanMatch :: "evalBinding \<Rightarrow> bool" where
  "cleanMatch e \<longleftrightarrow> nm_guildId (eb_match e) \<noteq> Some [] \<and> nm_teamId (eb_match e) \<noteq> Some []"

lemma find_filter: "find P (filter C xs) = find (\<lambda>x. C x \<and> P x) xs"
  by (induction xs) auto

lemma find_cong_set: "(\<And>x. x \<in> set xs \<Longrightarrow> P x = Q x) \<Longrightarrow> find P xs = find Q xs"
  by (induction xs) auto

lemma find_SomeD: "find P xs = Some x \<Longrightarrow> x \<in> set xs \<and> P x"
  by (induction xs) (auto split: if_splits)

lemma searchTiers_step:
  assumes "en \<Longrightarrow> find (\<lambda>c. pr (eb_match c) \<and> matches q sp c) cs =
      find (\<lambda>c. pr (eb_match c) \<and> matches q sp c) es"
    and "\<forall>c\<in>set es. en \<longrightarrow> pr (eb_match c) \<longrightarrow> \<not> matches q sp c \<Longrightarrow> searchTiers q ts = searchTiers q ts'"
  shows "searchTiers q
      (\<lparr>t_matchedBy = by, t_enabled = en, t_scopePeer = sp, t_candidates = cs, t_predicate = pr\<rparr> # ts) =
    searchTiers q
      (\<lparr>t_matchedBy = by, t_enabled = en, t_scopePeer = sp, t_candidates = es, t_predicate = pr\<rparr> # ts')"
  using assms unfolding matches_def
  by (auto simp: find_None_iff split: option.split dest: find_SomeD)

lemma tier_candidates:
  assumes "cs = filter C es" "\<And>c. c \<in> set es \<Longrightarrow> P c \<Longrightarrow> C c"
  shows "find P cs = find P es"
  unfolding assms(1) find_filter by (rule find_cong_set) (use assms(2) in blast)

lemma matches_peer: "matches q peer e \<Longrightarrow> isValidPeer (nm_peer (eb_match e)) \<Longrightarrow> \<exists>p. peer = Some p \<and> peerMatches p e"
  by (auto simp: matches_def matchesBindingScope_def peerMatches_def isValidPeer_def tierScope_def
      split: peerConstraint.splits if_splits option.splits)

lemma matches_guild: "matches q peer e \<Longrightarrow> nm_guildId (eb_match e) = Some g \<Longrightarrow> g = rq_guildId q"
  by (auto simp: matches_def matchesBindingScope_def tierScope_def split: if_splits option.splits)

lemma matches_team: "matches q peer e \<Longrightarrow> nm_teamId (eb_match e) = Some g \<Longrightarrow> g = rq_teamId q"
  by (auto simp: matches_def matchesBindingScope_def tierScope_def split: if_splits option.splits)

lemma matches_roles: "matches q peer e \<Longrightarrow> nm_roles (eb_match e) \<noteq> None \<Longrightarrow> rq_memberRoleIds q \<noteq> []"
  by (auto simp: matches_def matchesBindingScope_def tierScope_def list_ex_iff split: if_splits option.splits)

text \<open>A binding that matches but has no earlier tier to be found in is in its own index entry.\<close>

lemma later_tiers:
  assumes c: "list_all cleanMatch es" and e: "e \<in> set es" and m: "matches q (rq_peer q) e"
    and m1: "\<forall>c\<in>set es. rq_peer q \<noteq> None \<longrightarrow> isValidPeer (nm_peer (eb_match c)) \<longrightarrow> \<not> matches q (rq_peer q) c"
  shows "unpeered e"
    and "nm_guildId (eb_match e) \<noteq> None \<Longrightarrow> rq_guildId q \<noteq> [] \<and> nm_guildId (eb_match e) = Some (rq_guildId q)"
    and "nm_teamId (eb_match e) \<noteq> None \<Longrightarrow> rq_teamId q \<noteq> [] \<and> nm_teamId (eb_match e) = Some (rq_teamId q)"
proof -
  have cl: "cleanMatch e" using c e by (simp add: list_all_iff)
  show "unpeered e" using m1 e m matches_peer [OF m] by (auto simp: unpeered_def)
  show "nm_guildId (eb_match e) \<noteq> None \<Longrightarrow> rq_guildId q \<noteq> [] \<and> nm_guildId (eb_match e) = Some (rq_guildId q)"
    using cl matches_guild [OF m] by (auto simp: cleanMatch_def)
  show "nm_teamId (eb_match e) \<noteq> None \<Longrightarrow> rq_teamId q \<noteq> [] \<and> nm_teamId (eb_match e) = Some (rq_teamId q)"
    using cl matches_team [OF m] by (auto simp: cleanMatch_def)
qed

lemma unguilded:
  assumes "list_all cleanMatch es" "e \<in> set es" "matches q (rq_peer q) e"
    and "\<forall>c\<in>set es. rq_peer q \<noteq> None \<longrightarrow> isValidPeer (nm_peer (eb_match c)) \<longrightarrow> \<not> matches q (rq_peer q) c"
    and "\<forall>c\<in>set es. rq_guildId q \<noteq> [] \<and> rq_memberRoleIds q \<noteq> [] \<longrightarrow>
        nm_guildId (eb_match c) \<noteq> None \<and> nm_roles (eb_match c) \<noteq> None \<longrightarrow> \<not> matches q (rq_peer q) c"
    and "\<forall>c\<in>set es. rq_guildId q \<noteq> [] \<longrightarrow>
        nm_guildId (eb_match c) \<noteq> None \<and> nm_roles (eb_match c) = None \<longrightarrow> \<not> matches q (rq_peer q) c"
  shows "nm_guildId (eb_match e) = None"
proof (rule ccontr)
  assume g: "nm_guildId (eb_match e) \<noteq> None"
  note gid = later_tiers(2) [OF assms(1-4) g]
  show False
  proof (cases "nm_roles (eb_match e) = None")
    case True
    with g gid assms(2,3) bspec [OF assms(6) assms(2)] show False by simp
  next
    case False
    with g gid assms(2,3) bspec [OF assms(5) assms(2)] matches_roles [OF assms(3)] show False by simp
  qed
qed

lemma searchTiers_index:
  assumes d: "distinct es" and c: "list_all cleanMatch es"
  shows "searchTiers q (routeTiers q (buildEvaluatedBindingsIndex es)) = scanTiers q es"
proof -
  have f1: "find (\<lambda>c. isValidPeer (nm_peer (eb_match c)) \<and> matches q (Some p) c)
        (collectPeerIndexedBindings (buildEvaluatedBindingsIndex es) (Some p)) =
      find (\<lambda>c. isValidPeer (nm_peer (eb_match c)) \<and> matches q (Some p) c) es" for p
    by (rule tier_candidates [OF collectPeer_some [OF d]]) (use matches_peer in fastforce)
  show ?thesis
    unfolding scanTiers_def routeTiers_def Let_def list.map routeTier.update_convs
  proof (intro searchTiers_step, goal_cases)
    case 1
    then show ?case using f1 by auto
  next
    case 2
    then show ?case using f1 by (auto split: option.splits if_splits)
  next
    case prem: 3
    then show ?case
      unfolding if_not_P [OF conjunct1 [OF prem(3)]]
      by (intro tier_candidates [OF index_lookup(2)]) (use later_tiers(1,2) [OF c _ _ prem(1)] in blast)+
  next
    case prem: 4
    then show ?case
      unfolding if_not_P [OF prem(4)]
      by (intro tier_candidates [OF index_lookup(3)]) (use later_tiers(1,2) [OF c _ _ prem(1)] in blast)+
  next
    case prem: 5
    then show ?case
      unfolding if_not_P [OF prem(5)]
      by (intro tier_candidates [OF index_lookup(4)])
        (use later_tiers(1,3) [OF c _ _ prem(1)] unguilded [OF c _ _ prem(1,3,4)] in blast)+
  next
    case prem: 6
    show ?case
    proof (rule tier_candidates [OF index_lookup(5)])
      fix e assume e: "e \<in> set es" "nm_accountPattern (eb_match e) \<noteq> ''*'' \<and> matches q (rq_peer q) e"
      note m = conjunct2 [OF e(2)]
      have "nm_teamId (eb_match e) = None"
        using later_tiers(3) [OF c e(1) m prem(1)] bspec [OF prem(5) e(1)] m by blast
      with later_tiers(1) [OF c e(1) m prem(1)] unguilded [OF c e(1) m prem(1,3,4)] e
      show "unscoped e \<and> nm_accountPattern (eb_match e) \<noteq> ''*''" by (simp add: unscoped_def)
    qed
  next
    case prem: 7
    show ?case
    proof (rule tier_candidates [OF index_lookup(6)])
      fix e assume e: "e \<in> set es" "nm_accountPattern (eb_match e) = ''*'' \<and> matches q (rq_peer q) e"
      note m = conjunct2 [OF e(2)]
      have "nm_teamId (eb_match e) = None"
        using later_tiers(3) [OF c e(1) m prem(1)] bspec [OF prem(5) e(1)] m by blast
      with later_tiers(1) [OF c e(1) m prem(1)] unguilded [OF c e(1) m prem(1,3,4)] e
      show "unscoped e \<and> nm_accountPattern (eb_match e) = ''*''" by (simp add: unscoped_def)
    qed
  next
    case 8
    show ?case by (rule refl)
  qed
qed


section \<open>Lemmas: the caches\<close>

lemma distinct_bindingsInOrder: "distinct (bindingsInOrder cfg ch a)"
proof -
  have "sorted_wrt (\<lambda>a b. eb_order (snd a) < eb_order (snd b))
      (filter (appliesTo ch a) (numbered (listRouteBindings cfg) 0))"
    by (rule sorted_wrt_filter) (rule numbered_sorted)
  then have "sorted_wrt (\<lambda>a b. eb_order a < eb_order b) (bindingsInOrder cfg ch a)"
    by (simp add: bindingsInOrder_def sorted_wrt_map)
  then have "sorted_wrt (<) (map eb_order (bindingsInOrder cfg ch a))" by (simp add: sorted_wrt_map)
  then show ?thesis by (metis distinct_map strict_sorted_iff)
qed

lemma numbered_clean: "ce \<in> set (numbered bs n) \<Longrightarrow> cleanMatch (snd ce)"
  by (induction bs n rule: numbered.induct)
    (auto simp: Let_def cleanMatch_def normalizeBindingMatch_def js_some_def split: if_splits)

lemma clean_bindingsInOrder: "list_all cleanMatch (bindingsInOrder cfg ch a)"
  using numbered_clean by (fastforce simp: list_all_iff bindingsInOrder_def)

definition lookupOk :: "agentLookup option \<Rightarrow> bool" where
  "lookupOk l \<longleftrightarrow> (\<forall>x. l = Some x \<longrightarrow> (\<exists>cfg. x = buildAgentLookup cfg))"

definition entriesOk ::
    "routeConfig \<Rightarrow> (string \<times> evalBinding list) list \<Rightarrow> (string \<times> bindingsIndex) list \<Rightarrow> bool" where
  "entriesOk cfg m n \<longleftrightarrow> (\<forall>ch a. CHR 0x09 \<notin> set a \<longrightarrow>
     map_of m (bindingsCacheKey ch a) \<in> {None, Some (bindingsInOrder cfg ch a)} \<and>
     map_of n (bindingsCacheKey ch a) \<in> {None, Some (buildEvaluatedBindingsIndex (bindingsInOrder cfg ch a))})"

definition evaluatedOk :: "evaluatedCache \<Rightarrow> bool" where
  "evaluatedOk c \<longleftrightarrow> (\<forall>cfg. cfg_bindings cfg = ec_bindingsRef c \<longrightarrow>
     ec_byChannel c = buildEvaluatedBindingsByChannel cfg \<and>
     entriesOk cfg (ec_byChannelAccount c) (ec_byChannelAccountIndex c))"

lemma buildAgentLookup_agents:
  "cfg_agents cfg = cfg_agents cfg' \<Longrightarrow> buildAgentLookup cfg = buildAgentLookup cfg'"
  by (simp add: buildAgentLookup_def listAgents_def resolveDefaultAgentId_def)

lemma listRouteBindings_eq:
  "cfg_bindings cfg = cfg_bindings cfg' \<Longrightarrow> listRouteBindings cfg = listRouteBindings cfg'"
  by (simp add: listRouteBindings_def listConfiguredBindings_def)

lemma bindings_only:
  assumes "cfg_bindings cfg = cfg_bindings cfg'"
  shows "bindingsInOrder cfg = bindingsInOrder cfg'"
    and "buildEvaluatedBindingsByChannel cfg = buildEvaluatedBindingsByChannel cfg'"
  by (simp_all add: fun_eq_iff bindingsInOrder_def buildEvaluatedBindingsByChannel_def
      listRouteBindings_eq [OF assms])

lemma pickFirstExistingAgentId_ok:
  assumes "lookupOk l"
  shows "fst (pickFirstExistingAgentId cfg a l) = pickFrom (buildAgentLookup cfg) a"
    and "lookupOk (snd (pickFirstExistingAgentId cfg a l))"
proof -
  have ref: "al_agentsRef (buildAgentLookup c) = cfg_agents c" for c by (simp add: buildAgentLookup_def)
  have e: "resolveAgentLookupCache cfg l = buildAgentLookup cfg"
  proof (cases l)
    case (Some x)
    then obtain c where "x = buildAgentLookup c" using assms by (auto simp: lookupOk_def)
    then show ?thesis
      using Some ref [of c] buildAgentLookup_agents [of c cfg]
      by (simp add: resolveAgentLookupCache_def)
  qed (simp add: resolveAgentLookupCache_def)
  then show "fst (pickFirstExistingAgentId cfg a l) = pickFrom (buildAgentLookup cfg) a"
    and "lookupOk (snd (pickFirstExistingAgentId cfg a l))"
    by (auto simp: pickFirstExistingAgentId_def lookupOk_def Let_def)
qed

lemma bindingsCacheKey_inject:
  assumes "CHR 0x09 \<notin> set a" "CHR 0x09 \<notin> set a'" "bindingsCacheKey ch a = bindingsCacheKey ch' a'"
  shows "ch = ch' \<and> a = a'"
proof -
  have tw: "takeWhile (\<lambda>c. c \<noteq> CHR 0x09) (rev (bindingsCacheKey x y)) = rev y" if "CHR 0x09 \<notin> set y" for x y
    using that takeWhile_append2 [of "rev y" "\<lambda>c. c \<noteq> CHR 0x09" "CHR 0x09 # rev x"]
    by (auto simp: bindingsCacheKey_def)
  have "rev a = rev a'" using tw [OF assms(1), of ch] tw [OF assms(2), of ch'] assms(3) by simp
  with assms(3) show ?thesis by (simp add: bindingsCacheKey_def)
qed

lemma entriesOk_Nil: "entriesOk cfg [] []"
  by (simp add: entriesOk_def)

lemma entriesOk_update:
  assumes "entriesOk cfg m n" "CHR 0x09 \<notin> set a"
  shows "entriesOk cfg (AList.update (bindingsCacheKey ch a) (bindingsInOrder cfg ch a) m) n"
    and "entriesOk cfg m (AList.update (bindingsCacheKey ch a)
      (buildEvaluatedBindingsIndex (bindingsInOrder cfg ch a)) n)"
  using assms bindingsCacheKey_inject [of _ a _ ch]
  unfolding entriesOk_def map_of_update_iff by (metis insertI1 insertI2)+

lemma evaluatedOk_iff:
  assumes "ec_bindingsRef c = cfg_bindings cfg"
  shows "evaluatedOk c \<longleftrightarrow> ec_byChannel c = buildEvaluatedBindingsByChannel cfg \<and>
    entriesOk cfg (ec_byChannelAccount c) (ec_byChannelAccountIndex c)"
  using assms bindings_only unfolding evaluatedOk_def entriesOk_def by metis

lemma openEvaluatedCache_ok:
  assumes "pred_option evaluatedOk ev"
  shows "ec_bindingsRef (openEvaluatedCache cfg ev) = cfg_bindings cfg"
    and "ec_byChannel (openEvaluatedCache cfg ev) = buildEvaluatedBindingsByChannel cfg"
    and "entriesOk cfg (ec_byChannelAccount (openEvaluatedCache cfg ev))
      (ec_byChannelAccountIndex (openEvaluatedCache cfg ev))"
  using assms evaluatedOk_iff [of _ cfg] entriesOk_Nil
  by (auto simp: openEvaluatedCache_def Let_def split: option.splits)

lemma getEvaluatedBindings_ok:
  assumes ok: "pred_option evaluatedOk ev" and t: "CHR 0x09 \<notin> set a"
  shows "fst (getEvaluatedBindingsForChannelAccount cfg ch a ev) = bindingsInOrder cfg ch a"
    and "ec_bindingsRef (snd (getEvaluatedBindingsForChannelAccount cfg ch a ev)) = cfg_bindings cfg"
    and "evaluatedOk (snd (getEvaluatedBindingsForChannelAccount cfg ch a ev))"
proof -
  let ?c = "openEvaluatedCache cfg ev" and ?k = "bindingsCacheKey ch a"
  have ref: "ec_bindingsRef ?c = cfg_bindings cfg"
    and bc: "ec_byChannel ?c = buildEvaluatedBindingsByChannel cfg"
    and en: "entriesOk cfg (ec_byChannelAccount ?c) (ec_byChannelAccountIndex ?c)"
    using openEvaluatedCache_ok [OF ok] by blast+
  from en t have hit: "map_of (ec_byChannelAccount ?c) ?k \<in> {None, Some (bindingsInOrder cfg ch a)}"
    by (simp add: entriesOk_def)
  let ?g = "getEvaluatedBindingsForChannelAccount cfg ch a ev"
  show "fst ?g = bindingsInOrder cfg ch a"
    using bc hit
    by (auto simp: getEvaluatedBindingsForChannelAccount_def Let_def evaluateForAccount_order split: option.split)
  show gref: "ec_bindingsRef (snd ?g) = cfg_bindings cfg"
    using ref by (auto simp: getEvaluatedBindingsForChannelAccount_def Let_def split: option.split)
  have "ec_byChannel (snd ?g) = buildEvaluatedBindingsByChannel cfg"
    using bc by (auto simp: getEvaluatedBindingsForChannelAccount_def Let_def split: option.split)
  moreover have "entriesOk cfg (ec_byChannelAccount (snd ?g)) (ec_byChannelAccountIndex (snd ?g))"
    using en entriesOk_update(2) [OF entriesOk_update(1) [OF en t] t]
      entriesOk_update(2) [OF entriesOk_update(1) [OF entriesOk_Nil t] t, of cfg ch ch]
    by (auto simp: getEvaluatedBindingsForChannelAccount_def Let_def bc evaluateForAccount_order
        split: option.split)
  ultimately show "evaluatedOk (snd ?g)" using evaluatedOk_iff [OF gref] by blast
qed

lemma getEvaluatedBindingIndex_ok:
  assumes ok: "pred_option evaluatedOk ev" and t: "CHR 0x09 \<notin> set a"
  shows "fst (getEvaluatedBindingIndexForChannelAccount cfg ch a ev) =
      buildEvaluatedBindingsIndex (bindingsInOrder cfg ch a)"
    and "evaluatedOk (snd (getEvaluatedBindingIndexForChannelAccount cfg ch a ev))"
proof -
  obtain es c where g: "getEvaluatedBindingsForChannelAccount cfg ch a ev = (es, c)" by fastforce
  with getEvaluatedBindings_ok [OF ok t, where cfg = cfg and ch = ch]
  have es: "es = bindingsInOrder cfg ch a" and c: "evaluatedOk c" "ec_bindingsRef c = cfg_bindings cfg"
    by auto
  have en: "entriesOk cfg (ec_byChannelAccount c) (ec_byChannelAccountIndex c)"
    and bc: "ec_byChannel c = buildEvaluatedBindingsByChannel cfg"
    using evaluatedOk_iff [OF c(2)] c(1) by blast+
  have hit: "map_of (ec_byChannelAccountIndex c) (bindingsCacheKey ch a) \<in>
      {None, Some (buildEvaluatedBindingsIndex es)}"
    using en t by (simp add: entriesOk_def es)
  then show "fst (getEvaluatedBindingIndexForChannelAccount cfg ch a ev) =
      buildEvaluatedBindingsIndex (bindingsInOrder cfg ch a)"
    using es by (auto simp: getEvaluatedBindingIndexForChannelAccount_def g Let_def split: option.split)
  have "evaluatedOk (c\<lparr>ec_byChannelAccountIndex :=
      AList.update (bindingsCacheKey ch a) (buildEvaluatedBindingsIndex es) (ec_byChannelAccountIndex c)\<rparr>)"
    using c bc entriesOk_update(2) [OF en t] es by (subst evaluatedOk_iff [of _ cfg]) auto
  with c show "evaluatedOk (snd (getEvaluatedBindingIndexForChannelAccount cfg ch a ev))"
    by (auto simp: getEvaluatedBindingIndexForChannelAccount_def g Let_def split: option.split)
qed


lemma accountId_no_tab: "CHR 0x09 \<notin> set (normalizeAccountId v)"
  using normalizeAccountId_clean [of v] idChar_not_ws [of "CHR 0x09"]
  by (auto simp: cleanId_def list_all_iff js_ws_def)

lemma routeMiss_ok:
  assumes l: "lookupOk l" and ev: "pred_option evaluatedOk ev" and q: "q = routeQueryOf cfg i"
  shows "fst (routeMiss cfg q l ev) = routeReference cfg i"
    and "lookupOk (fst (snd (routeMiss cfg q l ev)))"
    and "pred_option evaluatedOk (snd (snd (routeMiss cfg q l ev)))"
proof -
  let ?ch = "rq_channel q" and ?a = "rq_accountId q"
  have t: "CHR 0x09 \<notin> set ?a" by (simp add: q routeQueryOf_def accountId_no_tab)
  obtain es ev1 where g: "getEvaluatedBindingsForChannelAccount cfg ?ch ?a ev = (es, ev1)" by fastforce
  have "evaluatedOk ev1" using getEvaluatedBindings_ok(3) [OF ev t, of cfg ?ch] by (simp add: g)
  then have ev1: "pred_option evaluatedOk (Some ev1)" by simp
  obtain ix ev2 where gi: "getEvaluatedBindingIndexForChannelAccount cfg ?ch ?a (Some ev1) = (ix, ev2)"
    by fastforce
  have ix: "ix = buildEvaluatedBindingsIndex (bindingsInOrder cfg ?ch ?a)" and ev2: "evaluatedOk ev2"
    using getEvaluatedBindingIndex_ok [OF ev1 t, of cfg ?ch] by (simp_all add: gi)
  have search: "searchTiers q (routeTiers q ix) = scanTiers q (bindingsInOrder cfg ?ch ?a)"
    unfolding ix by (rule searchTiers_index [OF distinct_bindingsInOrder clean_bindingsInOrder])
  obtain a by' where ch: "chosenBy cfg (scanTiers q (bindingsInOrder cfg ?ch ?a)) = (a, by')" by fastforce
  obtain r l' where pk: "pickFirstExistingAgentId cfg a l = (r, l')" by fastforce
  show "fst (routeMiss cfg q l ev) = routeReference cfg i"
    and "lookupOk (fst (snd (routeMiss cfg q l ev)))"
    and "pred_option evaluatedOk (snd (snd (routeMiss cfg q l ev)))"
    using pickFirstExistingAgentId_ok [OF l, of cfg a] ev2
    by (simp_all add: routeMiss_def g gi search routeReference_def Let_def q [symmetric] ch pk)
qed

text \<open>A run of \<open>resolveAgentRoute\<close> over a sequence of inputs, from given caches.\<close>

fun routeRun :: "bool \<Rightarrow> routeConfig \<Rightarrow> routeCaches \<Rightarrow> routeInput list \<Rightarrow> resolvedRoute list \<times> routeCaches" where
  "routeRun dbg cfg st [] = ([], st)"
| "routeRun dbg cfg st (i # is) =
     (case resolveAgentRoute dbg cfg st i of
        (r, st') \<Rightarrow> (case routeRun dbg cfg st' is of (rs, st'') \<Rightarrow> (r # rs, st'')))"

definition noCaches :: routeCaches where
  "noCaches = \<lparr>rs_lookup = None, rs_evaluated = None, rs_resolved = None\<rparr>"

lemma routeRun_uncached:
  assumes "dbg \<or> cfg_identityLinks cfg \<noteq> None" "lookupOk (rs_lookup st)"
    "pred_option evaluatedOk (rs_evaluated st)"
  shows "fst (routeRun dbg cfg st is) = map (routeReference cfg) is"
  using assms(2,3)
proof (induction "is" arbitrary: st)
  case Nil
  then show ?case by simp
next
  case (Cons i "is")
  obtain r l ev where m: "routeMiss cfg (routeQueryOf cfg i) (rs_lookup st) (rs_evaluated st) = (r, l, ev)"
    using prod_cases3 by blast
  from routeMiss_ok [OF Cons.prems refl, of cfg i] m
  have r: "r = routeReference cfg i" "lookupOk l" "pred_option evaluatedOk ev" by auto
  have "resolveAgentRoute dbg cfg st i = (r, st\<lparr>rs_lookup := l, rs_evaluated := ev\<rparr>)"
    using assms(1) m by (auto simp: resolveAgentRoute_def Let_def)
  with Cons.IH [of "st\<lparr>rs_lookup := l, rs_evaluated := ev\<rparr>"] r show ?case
    by (simp add: case_prod_beta)
qed

interpretation route_cache:
  memo_cache "map_of :: (string \<times> resolvedRoute) list \<Rightarrow> string \<Rightarrow> resolvedRoute option"
    "clearingPut MAX_RESOLVED_ROUTE_CACHE_KEYS" "[]" length MAX_RESOLVED_ROUTE_CACHE_KEYS
  by unfold_locales
    (auto simp: clearingPut_def map_of_update_iff Let_def MAX_RESOLVED_ROUTE_CACHE_KEYS_def split: if_splits)

definition cachesFor :: "routeConfig \<Rightarrow> (string \<Rightarrow> resolvedRoute) \<Rightarrow> routeCaches \<Rightarrow> bool" where
  "cachesFor cfg f st \<longleftrightarrow> lookupOk (rs_lookup st) \<and> pred_option evaluatedOk (rs_evaluated st) \<and>
     (\<forall>c. rs_resolved st = Some c \<longrightarrow> resolveRouteCacheForConfig cfg (Some c) = c) \<and>
     coherent map_of f (rc_byKey (resolveRouteCacheForConfig cfg (rs_resolved st))) \<and>
     length (rc_byKey (resolveRouteCacheForConfig cfg (rs_resolved st))) \<le> MAX_RESOLVED_ROUTE_CACHE_KEYS"

lemma resolveRouteCacheForConfig_again:
  "resolveRouteCacheForConfig cfg (Some ((resolveRouteCacheForConfig cfg r)\<lparr>rc_byKey := m\<rparr>)) =
   (resolveRouteCacheForConfig cfg r)\<lparr>rc_byKey := m\<rparr>"
  "resolveRouteCacheForConfig cfg (Some (resolveRouteCacheForConfig cfg r)) = resolveRouteCacheForConfig cfg r"
  by (simp_all add: resolveRouteCacheForConfig_def Let_def split: option.split)

lemma resolveAgentRoute_cached:
  assumes c: "cachesFor cfg f st" and n: "cfg_identityLinks cfg = None"
    and f: "f (buildResolvedRouteCacheKey (routeQueryOf cfg i)) = routeReference cfg i"
  shows "fst (resolveAgentRoute False cfg st i) = routeReference cfg i"
    and "cachesFor cfg f (snd (resolveAgentRoute False cfg st i))"
proof -
  let ?m = "rc_byKey (resolveRouteCacheForConfig cfg (rs_resolved st))"
  let ?k = "buildResolvedRouteCacheKey (routeQueryOf cfg i)"
  let ?put = "clearingPut MAX_RESOLVED_ROUTE_CACHE_KEYS"
  obtain r l ev where mi: "routeMiss cfg (routeQueryOf cfg i) (rs_lookup st) (rs_evaluated st) = (r, l, ev)"
    using prod_cases3 by blast
  from c have ok: "lookupOk (rs_lookup st)" "pred_option evaluatedOk (rs_evaluated st)"
    and m: "coherent map_of f ?m" "length ?m \<le> MAX_RESOLVED_ROUTE_CACHE_KEYS"
    by (simp_all add: cachesFor_def)
  from routeMiss_ok [OF ok refl, of cfg i] mi
  have r: "r = f ?k" "lookupOk l" "pred_option evaluatedOk ev" by (auto simp: f)
  note v = route_cache.memo_value [OF m(1), of ?k] route_cache.memo_coherent [OF m(1), of ?k]
    route_cache.memo_bounded [OF m(2), of f ?k]
  show "fst (resolveAgentRoute False cfg st i) = routeReference cfg i"
    using v(1) f r n mi by (auto simp: resolveAgentRoute_def Let_def memo_call_def split: option.splits)
  show "cachesFor cfg f (snd (resolveAgentRoute False cfg st i))"
    using v(2,3) r n mi ok m
    by (auto simp: resolveAgentRoute_def Let_def memo_call_def cachesFor_def
        resolveRouteCacheForConfig_again split: option.splits)
qed

lemma routeRun_cached:
  assumes "cachesFor cfg f st" "cfg_identityLinks cfg = None"
    and "\<And>i. i \<in> set is \<Longrightarrow> f (buildResolvedRouteCacheKey (routeQueryOf cfg i)) = routeReference cfg i"
  shows "fst (routeRun False cfg st is) = map (routeReference cfg) is \<and> cachesFor cfg f (snd (routeRun False cfg st is))"
  using assms(1,3)
proof (induction "is" arbitrary: st)
  case Nil
  then show ?case by simp
next
  case (Cons i "is")
  from resolveAgentRoute_cached [OF Cons.prems(1) assms(2) Cons.prems(2)]
  have r: "fst (resolveAgentRoute False cfg st i) = routeReference cfg i"
    "cachesFor cfg f (snd (resolveAgentRoute False cfg st i))" by simp_all
  from Cons.IH [OF r(2)] Cons.prems(2) r(1) show ?case by (simp add: case_prod_beta)
qed


lemma agentIndex_values:
  "map_of (agentIndex as m) k = Some v \<Longrightarrow>
   map_of m k = Some v \<or> (\<exists>a\<in>set as. v = normalizeAgentId (ae_id a))"
proof (induction as m rule: agentIndex.induct)
  case (2 a as m)
  have t: "normalizeAgentId (Some (js_trim (js_or_empty (ae_id a)))) = normalizeAgentId (ae_id a)"
    by (simp add: normalizeAgentId_def js_or_empty_def)
  show ?case
  proof (cases "js_trim (js_or_empty (ae_id a)) = []")
    case True
    with 2 show ?thesis by auto
  next
    case False
    with 2 t show ?thesis
      by (fastforce simp: Let_def map_of_update_iff sanitizeAgentId_def split: if_splits)
  qed
qed simp

lemma set_listAgentIdsLoop:
  "set (listAgentIdsLoop as ids) = set ids \<union> (\<lambda>a. normalizeAgentId (ae_id a)) ` set as"
  by (induction as ids rule: listAgentIdsLoop.induct) (auto simp: Let_def)

lemma set_listAgentIds:
  "listAgents cfg \<noteq> [] \<Longrightarrow> set (listAgentIds cfg) = (\<lambda>a. normalizeAgentId (ae_id a)) ` set (listAgents cfg)"
  using set_listAgentIdsLoop [of "listAgents cfg" "[]"]
  by (cases "listAgents cfg") (auto simp: listAgentIds_def Let_def)

lemma agentIndex_not_Nil: "m \<noteq> [] \<Longrightarrow> agentIndex as m \<noteq> []"
proof (induction as m rule: agentIndex.induct)
  case (2 a as m)
  have "AList.update k v m \<noteq> []" for k :: string and v :: string by (cases m) auto
  with 2 show ?case by (auto simp: Let_def)
qed simp

lemma agentIndex_Nil:
  "agentIndex as m = [] \<Longrightarrow> a \<in> set as \<Longrightarrow> js_trim (js_or_empty (ae_id a)) = []"
proof (induction as m rule: agentIndex.induct)
  case (2 b as m)
  have "AList.update k v m \<noteq> []" for k :: string and v :: string by (cases m) auto
  with 2 show ?case by (auto simp: Let_def agentIndex_not_Nil split: if_splits)
qed simp

lemma pickFrom_configured:
  assumes "a \<in> set (listAgents cfg)" "js_trim (js_or_empty (ae_id a)) \<noteq> []"
  shows "pickFrom (buildAgentLookup cfg) v \<in>
    insert (normalizeAgentId (Some (resolveDefaultAgentId cfg))) (set (listAgentIds cfg))"
proof -
  have ne: "agentIndex (listAgents cfg) [] \<noteq> []" using agentIndex_Nil assms by blast
  have ids: "set (listAgentIds cfg) = (\<lambda>a. normalizeAgentId (ae_id a)) ` set (listAgents cfg)"
    using assms(1) by (intro set_listAgentIds) auto
  show ?thesis
    using ne ids agentIndex_values [of "listAgents cfg" "[]"]
    by (auto simp: pickFrom_def buildAgentLookup_def sanitizeAgentId_def Let_def split: option.split) blast
qed

lemma routeFor_sessionKey:
  "\<exists>rest. rr_sessionKey (routeFor cfg q agent by) = agentKey (normalizeAgentId (Some agent)) rest"
proof -
  have "\<exists>rest. buildAgentSessionKey agent ch acc peer scope links = agentKey (normalizeAgentId (Some agent)) rest"
    for ch acc peer scope links
    unfolding buildAgentSessionKey_def
    by (metis buildAgentPeerSessionKey_agent peerKeyParams.select_convs(1))
  then obtain rest where "buildAgentSessionKey agent (rq_channel q) (Some (rq_accountId q)) (rq_peer q)
      (Some (rq_dmScope q)) (cfg_identityLinks cfg) = agentKey (normalizeAgentId (Some agent)) rest" by blast
  then show ?thesis
    using normalizeAgentId_clean [of "Some agent"]
    by (auto simp: routeFor_def Let_def agentKey_lower cleanId_lower)
qed

section \<open>Properties\<close>

text \<open>C13: the indexed search is the plain one: with the route cache off, any sequence of calls
  of \<open>resolveAgentRoute\<close> from empty caches returns the routes of the reference, which keeps no
  index and, tier by tier, takes the first binding in configuration order that fits.\<close>

theorem indexed_routing_equals_scan:
  "fst (routeRun True cfg noCaches is) = map (routeReference cfg) is"
  by (rule routeRun_uncached) (simp_all add: noCaches_def lookupOk_def)

text \<open>The route cache changes no result as long as inputs with the same cache key have the
  same route, and it never holds more than 4000 routes.\<close>

theorem route_cache_transparent:
  assumes "cfg_identityLinks cfg = None"
    and "\<And>i j. i \<in> set is \<Longrightarrow> j \<in> set is \<Longrightarrow>
      buildResolvedRouteCacheKey (routeQueryOf cfg i) = buildResolvedRouteCacheKey (routeQueryOf cfg j) \<Longrightarrow>
      routeReference cfg i = routeReference cfg j"
  shows "fst (routeRun False cfg noCaches is) = map (routeReference cfg) is \<and>
    (\<forall>c. rs_resolved (snd (routeRun False cfg noCaches is)) = Some c \<longrightarrow> length (rc_byKey c) \<le> 4000)"
proof -
  define f where "f k = routeReference cfg
    (SOME i. i \<in> set is \<and> buildResolvedRouteCacheKey (routeQueryOf cfg i) = k)" for k
  have f: "f (buildResolvedRouteCacheKey (routeQueryOf cfg i)) = routeReference cfg i" if "i \<in> set is" for i
    unfolding f_def using that by (intro assms(2)) (auto intro: someI2)
  have "cachesFor cfg f noCaches"
    by (simp add: cachesFor_def noCaches_def lookupOk_def resolveRouteCacheForConfig_def coherent_def Let_def)
  from routeRun_cached [OF this assms(1) f]
  have run: "fst (routeRun False cfg noCaches is) = map (routeReference cfg) is"
    and c: "cachesFor cfg f (snd (routeRun False cfg noCaches is))" by simp_all
  show ?thesis
    using run c by (auto simp: cachesFor_def MAX_RESOLVED_ROUTE_CACHE_KEYS_def)
qed

definition sampleConfig :: routeConfig where
  "sampleConfig =
     \<lparr>cfg_bindings = Some [\<lparr>ab_type = None, ab_agentId = Some ''ops'',
        ab_match = Some \<lparr>bm_channel = Some ''slack'', bm_accountId = Some ''*'', bm_peer = None,
          bm_guildId = None, bm_teamId = Some ''T1'', bm_roles = None\<rparr>\<rparr>],
      cfg_agents = Some [\<lparr>ae_id = Some ''main'', ae_default = True\<rparr>, \<lparr>ae_id = Some ''Ops'', ae_default = False\<rparr>],
      cfg_dmScope = Some DmPerPeer, cfg_identityLinks = None\<rparr>"

definition sampleInput :: "routePeer option \<Rightarrow> string option \<Rightarrow> routeInput" where
  "sampleInput peer team =
     \<lparr>ri_channel = ''slack'', ri_accountId = None, ri_peer = peer, ri_parentPeer = None,
      ri_guildId = None, ri_teamId = team, ri_memberRoleIds = None\<rparr>"

theorem route_cache_transparent_witness:
  "map rr_matchedBy (fst (routeRun False sampleConfig noCaches [sampleInput None None, sampleInput None (Some ''T1'')])) =
   [ByDefault, ByTeam]"
proof -
  let ?is = "[sampleInput None None, sampleInput None (Some ''T1'')]"
  have k: "buildResolvedRouteCacheKey (routeQueryOf sampleConfig (sampleInput None None)) \<noteq>
      buildResolvedRouteCacheKey (routeQueryOf sampleConfig (sampleInput None (Some ''T1'')))"
    by code_simp
  have links: "cfg_identityLinks sampleConfig = None" by (simp add: sampleConfig_def)
  have r: "map rr_matchedBy (map (routeReference sampleConfig) ?is) = [ByDefault, ByTeam]" by code_simp
  have "fst (routeRun False sampleConfig noCaches ?is) = map (routeReference sampleConfig) ?is"
    by (rule conjunct1 [OF route_cache_transparent]) (use k in \<open>auto simp: links\<close>)
  with r show ?thesis by simp
qed

text \<open>The proviso of the previous property fails for real inputs: no peer and a group peer
  with an empty id share a cache key, so after the first the second is answered with the main
  session instead of its group session.\<close>

theorem route_cache_key_collision:
  "\<exists>cfg i j. cfg_identityLinks cfg = None \<and>
     map rr_sessionKey (fst (routeRun False cfg noCaches [i, j])) = [''agent:main:main'', ''agent:main:main''] \<and>
     rr_sessionKey (routeReference cfg j) = ''agent:main:slack:group:unknown''"
proof (intro exI conjI)
  let ?j = "sampleInput (Some \<lparr>peer_kind = GroupChat, peer_id = []\<rparr>) None"
  show "cfg_identityLinks sampleConfig = None" by (simp add: sampleConfig_def)
  show "map rr_sessionKey (fst (routeRun False sampleConfig noCaches [sampleInput None None, ?j])) =
    [''agent:main:main'', ''agent:main:main'']" by code_simp
  show "rr_sessionKey (routeReference sampleConfig ?j) = ''agent:main:slack:group:unknown''" by code_simp
qed

text \<open>once some agent with an id is configured, every message goes to a configured agent or
  to the default one, under a session key of that agent.\<close>

theorem routed_agent_configured:
  assumes "a \<in> set (listAgents cfg)" "js_trim (js_or_empty (ae_id a)) \<noteq> []"
    and "r \<in> set (fst (routeRun True cfg noCaches is))"
  shows "rr_agentId r \<in> insert (normalizeAgentId (Some (resolveDefaultAgentId cfg))) (set (listAgentIds cfg)) \<and>
    (\<exists>rest. rr_sessionKey r = agentKey (normalizeAgentId (Some (rr_agentId r))) rest)"
proof -
  have "fst (routeRun True cfg noCaches is) = map (routeReference cfg) is"
    by (rule routeRun_uncached) (simp_all add: noCaches_def lookupOk_def)
  with assms(3) obtain i where r: "r = routeReference cfg i" by auto
  obtain v by' where ch: "chosenBy cfg (scanTiers (routeQueryOf cfg i) (bindingsInOrder cfg
      (rq_channel (routeQueryOf cfg i)) (rq_accountId (routeQueryOf cfg i)))) = (v, by')" by fastforce
  have "r = routeFor cfg (routeQueryOf cfg i) (pickFrom (buildAgentLookup cfg) v) by'"
    by (simp add: r routeReference_def Let_def ch)
  then show ?thesis
    using pickFrom_configured [OF assms(1,2), of v] routeFor_sessionKey
    by (auto simp: routeFor_def Let_def)
qed

theorem routed_agent_configured_witness:
  "map rr_agentId (fst (routeRun True sampleConfig noCaches [sampleInput None (Some ''T1'')])) = [''ops''] \<and>
   ''ops'' \<in> insert (normalizeAgentId (Some (resolveDefaultAgentId sampleConfig))) (set (listAgentIds sampleConfig))"
proof -
  let ?is = "[sampleInput None (Some ''T1'')]"
  have m: "\<lparr>ae_id = Some ''main'', ae_default = True\<rparr> \<in> set (listAgents sampleConfig)"
    by (simp add: sampleConfig_def listAgents_def)
  have n: "js_trim (js_or_empty (ae_id \<lparr>ae_id = Some ''main'', ae_default = True\<rparr>)) \<noteq> []" by code_simp
  have e: "map rr_agentId (fst (routeRun True sampleConfig noCaches ?is)) = [''ops'']" by code_simp
  define rs where "rs = fst (routeRun True sampleConfig noCaches ?is)"
  from e have "map rr_agentId rs = [''ops'']" by (simp only: rs_def)
  then obtain r where r: "rs = [r]" "rr_agentId r = ''ops''" by auto
  have "r \<in> set (fst (routeRun True sampleConfig noCaches ?is))" unfolding rs_def [symmetric] by (simp add: r)
  from routed_agent_configured [OF m n this] show ?thesis unfolding e r(2) by simp
qed

end
