(* ===== verification/Dedupe_Cache.thy ===== *)
theory Dedupe_Cache
  imports Prelude
begin

text \<open>
  \<open>src/infra/dedupe.ts\<close> and \<open>src/infra/map-size.ts\<close>: a cache of recently seen keys with a
  time to live and a size bound. Times are milliseconds.
\<close>

section \<open>Model\<close>

type_synonym dedupeMap = "(string \<times> int) list"

record dedupeCache =
  dc_ttlMs :: int
  dc_maxSize :: nat
  dc_cache :: dedupeMap

definition createDedupeCache :: "int \<Rightarrow> int \<Rightarrow> dedupeCache" where
  "createDedupeCache ttlMs maxSize =
     \<lparr>dc_ttlMs = max 0 ttlMs, dc_maxSize = nat (max 0 maxSize), dc_cache = []\<rparr>"

text \<open>The loop deletes the first key while the map is over the limit.\<close>

function pruneMapLoop :: "nat \<Rightarrow> ('k \<times> 'v) list \<Rightarrow> ('k \<times> 'v) list" where
  "pruneMapLoop limit m = (if limit < length m then pruneMapLoop limit (jm_evict m) else m)"
  by pat_completeness auto
termination
proof (relation "measure (\<lambda>(limit, m). length m)", goal_cases)
  case 1
  show ?case by simp
next
  case (2 limit m)
  then have "0 < length m" by linarith
  with length_jm_evict [of m] have "length (jm_evict m) < length m" by linarith
  then show ?case by simp
qed

declare pruneMapLoop.simps [simp del]

definition pruneMapToMaxSize :: "nat \<Rightarrow> ('k \<times> 'v) list \<Rightarrow> ('k \<times> 'v) list" where
  "pruneMapToMaxSize limit m = (if limit = 0 then [] else pruneMapLoop limit m)"

definition dedupeTouch :: "string \<Rightarrow> int \<Rightarrow> dedupeMap \<Rightarrow> dedupeMap" where
  "dedupeTouch key now m = AList.update key now (AList.delete key m)"

definition dedupePrune :: "dedupeCache \<Rightarrow> int \<Rightarrow> dedupeMap \<Rightarrow> dedupeMap" where
  "dedupePrune d now m =
     (let m1 = (if 0 < dc_ttlMs d then filter (\<lambda>(k, ts). \<not> ts < now - dc_ttlMs d) m else m)
      in if dc_maxSize d = 0 then [] else pruneMapToMaxSize (dc_maxSize d) m1)"

definition hasUnexpired :: "dedupeCache \<Rightarrow> string \<Rightarrow> int \<Rightarrow> bool \<Rightarrow> bool \<times> dedupeMap" where
  "hasUnexpired d key now touchOnRead =
     (case map_of (dc_cache d) key of
        None \<Rightarrow> (False, dc_cache d)
      | Some existing \<Rightarrow>
          if 0 < dc_ttlMs d \<and> dc_ttlMs d \<le> now - existing
          then (False, AList.delete key (dc_cache d))
          else (True, if touchOnRead then dedupeTouch key now (dc_cache d) else dc_cache d))"

definition dedupeCheck :: "string option \<Rightarrow> int \<Rightarrow> dedupeCache \<Rightarrow> bool \<times> dedupeCache" where
  "dedupeCheck keyOpt now d =
     (let key = js_or_empty keyOpt in
      if key = [] then (False, d)
      else (case hasUnexpired d key now True of
          (True, m) \<Rightarrow> (True, d\<lparr>dc_cache := m\<rparr>)
        | (False, m) \<Rightarrow> (False, d\<lparr>dc_cache := dedupePrune d now (dedupeTouch key now m)\<rparr>)))"

definition dedupePeek :: "string option \<Rightarrow> int \<Rightarrow> dedupeCache \<Rightarrow> bool \<times> dedupeCache" where
  "dedupePeek keyOpt now d =
     (let key = js_or_empty keyOpt in
      if key = [] then (False, d)
      else (case hasUnexpired d key now False of (b, m) \<Rightarrow> (b, d\<lparr>dc_cache := m\<rparr>)))"

definition dedupeDelete :: "string option \<Rightarrow> dedupeCache \<Rightarrow> dedupeCache" where
  "dedupeDelete keyOpt d =
     (let key = js_or_empty keyOpt in
      if key = [] then d else d\<lparr>dc_cache := AList.delete key (dc_cache d)\<rparr>)"

definition dedupeClear :: "dedupeCache \<Rightarrow> dedupeCache" where
  "dedupeClear d = d\<lparr>dc_cache := []\<rparr>"

definition dedupeSize :: "dedupeCache \<Rightarrow> nat" where
  "dedupeSize d = length (dc_cache d)"

section \<open>Lemmas\<close>

lemma jm_wf_tl: "jm_wf m \<Longrightarrow> jm_wf (tl m)"
  by (simp add: jm_wf_def map_tl distinct_tl)

lemma pruneMapLoop_drop: "jm_wf m \<Longrightarrow> pruneMapLoop n m = drop (length m - n) m"
proof (induction n m rule: pruneMapLoop.induct)
  case (1 n m)
  show ?case
  proof (cases "n < length m")
    case True
    with 1 have "pruneMapLoop n m = drop (length (tl m) - n) (tl m)"
      by (simp add: pruneMapLoop.simps [of n m] jm_evict_tl jm_wf_tl)
    also have "\<dots> = drop (length m - n) m"
      using True by (simp add: drop_Suc [symmetric] Suc_diff_Suc)
    finally show ?thesis .
  next
    case False
    then show ?thesis by (simp add: pruneMapLoop.simps [of n m])
  qed
qed

lemma pruneMapLoop_length: "length (pruneMapLoop n m) \<le> n"
proof (induction n m rule: pruneMapLoop.induct)
  case (1 n m)
  then show ?case by (auto simp: pruneMapLoop.simps [of n m])
qed

lemma jm_wf_drop: "jm_wf m \<Longrightarrow> jm_wf (drop n m)"
  by (simp add: jm_wf_def drop_map [symmetric])

lemma jm_wf_filter: "jm_wf m \<Longrightarrow> jm_wf (filter P m)"
  by (simp add: jm_wf_def distinct_map_filter)

definition dedupe_wf :: "dedupeCache \<Rightarrow> bool" where
  "dedupe_wf d \<longleftrightarrow> jm_wf (dc_cache d) \<and> length (dc_cache d) \<le> dc_maxSize d"

lemma dedupeTouch_wf: "jm_wf m \<Longrightarrow> jm_wf (dedupeTouch k t m)"
  by (simp add: dedupeTouch_def)

lemma update_notin: "k \<notin> fst ` set m \<Longrightarrow> AList.update k v m = m @ [(k, v)]"
  by (induction m) auto

lemma delete_fresh: "k \<notin> fst ` set (AList.delete k m)"
  by (induction m) auto

lemma dedupeTouch_eq: "dedupeTouch k t m = AList.delete k m @ [(k, t)]"
  unfolding dedupeTouch_def by (rule update_notin) (rule delete_fresh)

lemma dedupePrune_wf:
  "jm_wf m \<Longrightarrow> jm_wf (dedupePrune d now m) \<and> length (dedupePrune d now m) \<le> dc_maxSize d"
  using pruneMapLoop_length [of "dc_maxSize d"]
  by (auto simp: dedupePrune_def pruneMapToMaxSize_def Let_def intro!: jm_wf_filter)
    (simp_all add: pruneMapLoop_drop jm_wf_drop jm_wf_filter)

lemma length_delete_touch: "k \<in> fst ` set m \<Longrightarrow> jm_wf m \<Longrightarrow> length (dedupeTouch k t m) = length m"
proof -
  assume k: "k \<in> fst ` set m" and w: "jm_wf m"
  have "Suc (length (AList.delete k m)) = length m"
    using k w by (induction m) (auto simp: jm_wf_def delete_id)
  then show ?thesis by (simp add: dedupeTouch_eq)
qed

section \<open>The interface the message queue relies on\<close>

text \<open>
  \<open>look k u d\<close> asks whether \<open>k\<close> was marked recently, \<open>mark k u d\<close> marks it.
  \<open>held k t n d\<close> says that \<open>k\<close> was last marked at \<open>t\<close> or later and at most \<open>n\<close>
  other keys after it.
\<close>

locale recent_filter =
  fixes look :: "string \<Rightarrow> int \<Rightarrow> 'd \<Rightarrow> bool \<times> 'd"
    and mark :: "string \<Rightarrow> int \<Rightarrow> 'd \<Rightarrow> 'd"
    and ok :: "'d \<Rightarrow> bool"
    and held :: "string \<Rightarrow> int \<Rightarrow> nat \<Rightarrow> 'd \<Rightarrow> bool"
    and ttl :: int
    and cap :: nat
  assumes ok_look: "ok d \<Longrightarrow> ok (snd (look k u d))"
    and ok_mark: "ok d \<Longrightarrow> ok (mark k u d)"
    and held_mark: "ok d \<Longrightarrow> k \<noteq> [] \<Longrightarrow> 0 < cap \<Longrightarrow> 0 < ttl \<Longrightarrow> held k t 0 (mark k t d)"
    and held_other: "ok d \<Longrightarrow> held k t n d \<Longrightarrow> Suc n < cap \<Longrightarrow> t \<le> u \<Longrightarrow> u < t + ttl \<Longrightarrow>
      held k t (Suc n) (mark k' u d)"
    and held_look: "ok d \<Longrightarrow> held k t n d \<Longrightarrow> t \<le> u \<Longrightarrow> u < t + ttl \<Longrightarrow> held k t n (snd (look k' u d))"
    and held_seen: "ok d \<Longrightarrow> held k t n d \<Longrightarrow> k \<noteq> [] \<Longrightarrow> t \<le> u \<Longrightarrow> u < t + ttl \<Longrightarrow> fst (look k u d)"
begin

lemma held_marks:
  "ok d \<Longrightarrow> held k t n d \<Longrightarrow> n + length kus < cap \<Longrightarrow> (\<And>k' u. (k', u) \<in> set kus \<Longrightarrow> t \<le> u \<and> u < t + ttl) \<Longrightarrow>
   ok (fold (\<lambda>(k', u). mark k' u) kus d) \<and>
   held k t (n + length kus) (fold (\<lambda>(k', u). mark k' u) kus d)"
proof (induction kus arbitrary: d n)
  case Nil
  then show ?case by simp
next
  case (Cons p kus)
  obtain k' u where p: "p = (k', u)" by (cases p)
  from Cons.prems(4) p have u: "t \<le> u" "u < t + ttl" by auto
  have "held k t (Suc n) (mark k' u d)"
    using Cons.prems u by (intro held_other) auto
  then have "ok (fold (\<lambda>(k', u). mark k' u) kus (mark k' u d)) \<and>
      held k t (Suc n + length kus) (fold (\<lambda>(k', u). mark k' u) kus (mark k' u d))"
    using Cons.prems by (intro Cons.IH) (auto intro: ok_mark)
  then show ?case by (simp add: p)
qed

text \<open>A marked key is seen again until its time runs out or \<open>cap\<close> other marks push it out.\<close>

lemma seen_again:
  assumes "ok d" "k \<noteq> []" "length kus < cap" "t \<le> v" "v < t + ttl"
    and "\<And>k' u. (k', u) \<in> set kus \<Longrightarrow> t \<le> u \<and> u < t + ttl"
  shows "fst (look k v (fold (\<lambda>(k', u). mark k' u) kus (mark k t d)))"
proof -
  have "ok (fold (\<lambda>(k', u). mark k' u) kus (mark k t d)) \<and>
      held k t (0 + length kus) (fold (\<lambda>(k', u). mark k' u) kus (mark k t d))"
    using assms by (intro held_marks) (auto intro: ok_mark held_mark)
  with assms show ?thesis by (auto intro: held_seen)
qed

end

definition dedupeHeld :: "string \<Rightarrow> int \<Rightarrow> nat \<Rightarrow> dedupeCache \<Rightarrow> bool" where
  "dedupeHeld k t n d \<longleftrightarrow> (\<exists>xs s ys. dc_cache d = xs @ (k, s) # ys \<and> length ys \<le> n \<and> t \<le> s)"

definition dedupeOk :: "int \<Rightarrow> nat \<Rightarrow> dedupeCache \<Rightarrow> bool" where
  "dedupeOk ttl cap d \<longleftrightarrow> dedupe_wf d \<and> dc_ttlMs d = ttl \<and> dc_maxSize d = cap"

lemma dedupeCheck_simp:
  "k \<noteq> [] \<Longrightarrow> dedupeCheck (Some k) now d =
    (if fst (hasUnexpired d k now True)
     then (True, d\<lparr>dc_cache := dedupeTouch k now (dc_cache d)\<rparr>)
     else (False, d\<lparr>dc_cache := dedupePrune d now (dedupeTouch k now (dc_cache d))\<rparr>))"
proof -
  have "dedupeTouch k now (AList.delete k (dc_cache d)) = dedupeTouch k now (dc_cache d)"
    by (simp add: dedupeTouch_def delete_idem)
  then show "k \<noteq> [] \<Longrightarrow> ?thesis"
    by (simp add: dedupeCheck_def hasUnexpired_def js_or_empty_def Let_def split: option.split)
qed

lemma dedupeCheck_fields:
  "dc_ttlMs (snd (dedupeCheck k now d)) = dc_ttlMs d"
  "dc_maxSize (snd (dedupeCheck k now d)) = dc_maxSize d"
  by (simp_all add: dedupeCheck_def Let_def split: prod.split bool.split)

lemma hasUnexpired_mem: "fst (hasUnexpired d k now b) \<Longrightarrow> k \<in> fst ` set (dc_cache d)"
  by (auto simp: hasUnexpired_def split: option.splits dest!: map_of_SomeD intro: rev_image_eqI)

lemma dedupeCheck_wf: "dedupe_wf d \<Longrightarrow> dedupe_wf (snd (dedupeCheck k now d))"
proof (cases "js_or_empty k = []")
  case True
  assume "dedupe_wf d"
  with True show ?thesis by (simp add: dedupeCheck_def)
next
  case False
  assume w: "dedupe_wf d"
  let ?k = "js_or_empty k"
  have e: "dedupeCheck k now d = dedupeCheck (Some ?k) now d"
    by (simp add: dedupeCheck_def js_or_empty_def)
  show ?thesis
    unfolding e dedupeCheck_simp [OF False]
    using w dedupePrune_wf [of "dedupeTouch ?k now (dc_cache d)" d now]
      length_delete_touch [of ?k "dc_cache d" now] hasUnexpired_mem
    by (auto simp: dedupe_wf_def dedupeTouch_wf)
qed

lemma dedupePeek_wf: "dedupe_wf d \<Longrightarrow> dedupe_wf (snd (dedupePeek k now d))"
  by (auto simp: dedupePeek_def hasUnexpired_def dedupe_wf_def Let_def split: option.splits
      intro: order_trans [OF length_delete_le])

lemma dedupePeek_fields:
  "dc_ttlMs (snd (dedupePeek k now d)) = dc_ttlMs d"
  "dc_maxSize (snd (dedupePeek k now d)) = dc_maxSize d"
  by (simp_all add: dedupePeek_def Let_def split: prod.split)

lemma held_lookup:
  "jm_wf (dc_cache d) \<Longrightarrow> dedupeHeld k t n d \<Longrightarrow> \<exists>s. map_of (dc_cache d) k = Some s \<and> t \<le> s"
proof -
  assume w: "jm_wf (dc_cache d)" and "dedupeHeld k t n d"
  then obtain xs s ys where c: "dc_cache d = xs @ (k, s) # ys" "t \<le> s"
    by (auto simp: dedupeHeld_def)
  with w have "map_of (dc_cache d) k = Some s"
    by (intro map_of_is_SomeI) (auto simp: jm_wf_def)
  with c show ?thesis by blast
qed

lemma delete_append: "AList.delete k (xs @ ys) = AList.delete k xs @ AList.delete k ys"
  by (induction xs) auto

lemma held_delete_other:
  "k' \<noteq> k \<Longrightarrow> m = xs @ (k, s) # ys \<Longrightarrow>
   AList.delete k' m = AList.delete k' xs @ (k, s) # AList.delete k' ys"
  by (simp add: delete_append)

lemma held_drop:
  "length ys < c \<Longrightarrow> m = xs @ (k, s) # ys \<Longrightarrow> \<exists>xs'. drop (length m - c) m = xs' @ (k, s) # ys"
  by (intro exI [of _ "drop (length m - c) xs"]) simp

lemma held_prune:
  assumes w: "jm_wf m" and m: "m = xs @ (k, s) # ys" and l: "length ys < dc_maxSize d"
    and s: "t \<le> s" and u: "u < t + dc_ttlMs d"
  shows "dedupeHeld k t (length ys) (d\<lparr>dc_cache := dedupePrune d u m\<rparr>)"
proof -
  let ?P = "\<lambda>(k, ts). \<not> ts < u - dc_ttlMs d"
  let ?m1 = "if 0 < dc_ttlMs d then filter ?P m else m"
  have "\<exists>xs' ys'. ?m1 = xs' @ (k, s) # ys' \<and> length ys' \<le> length ys"
  proof (cases "0 < dc_ttlMs d")
    case True
    with m s u have "?m1 = filter ?P xs @ (k, s) # filter ?P ys" by simp
    then show ?thesis using length_filter_le by blast
  next
    case False
    with m show ?thesis by auto
  qed
  then obtain xs' ys' where m1: "?m1 = xs' @ (k, s) # ys'" and l': "length ys' \<le> length ys" by blast
  obtain xs'' where d': "drop (length ?m1 - dc_maxSize d) ?m1 = xs'' @ (k, s) # ys'"
    using held_drop [of ys' "dc_maxSize d", OF _ m1] l l' by auto
  have "jm_wf ?m1" using w by (simp add: jm_wf_filter)
  then have "dedupePrune d u m = xs'' @ (k, s) # ys'"
    using l d' by (simp only: dedupePrune_def pruneMapToMaxSize_def Let_def pruneMapLoop_drop) auto
  with l' s show ?thesis by (auto simp: dedupeHeld_def)
qed

lemma held_end: "t \<le> u \<Longrightarrow> dedupeHeld k t n (d\<lparr>dc_cache := dedupeTouch k u m\<rparr>)"
  by (auto simp: dedupeHeld_def dedupeTouch_eq intro!: exI [of _ "AList.delete k m"])

lemma held_touch_other:
  assumes "k' \<noteq> k" "dc_cache d = xs @ (k, s) # ys"
  shows "dedupeTouch k' u (dc_cache d) = AList.delete k' xs @ (k, s) # (AList.delete k' ys @ [(k', u)])"
  using assms by (simp add: dedupeTouch_eq delete_append)

lemma held_weaken: "dedupeHeld k t n d \<Longrightarrow> n \<le> n' \<Longrightarrow> dedupeHeld k t n' d"
  unfolding dedupeHeld_def by (meson le_trans)

lemma held_check_other:
  assumes ok: "dedupe_wf d" and h: "dedupeHeld k t n d" and n: "Suc n < dc_maxSize d"
    and u: "t \<le> u" "u < t + dc_ttlMs d" and ne: "k' \<noteq> k" "k' \<noteq> []"
  shows "dedupeHeld k t (Suc n) (snd (dedupeCheck (Some k') u d))"
proof -
  from h obtain xs s ys where c: "dc_cache d = xs @ (k, s) # ys" "length ys \<le> n" "t \<le> s"
    by (auto simp: dedupeHeld_def)
  let ?ys = "AList.delete k' ys @ [(k', u)]"
  have l: "length ?ys \<le> Suc n"
    using c(2) length_delete_le [of k' ys] by simp
  note t = held_touch_other [OF ne(1) c(1), of u]
  have "jm_wf (dedupeTouch k' u (dc_cache d))"
    using ok by (simp add: dedupe_wf_def dedupeTouch_wf)
  from held_prune [OF this t _ c(3) u(2)] l n
  have "dedupeHeld k t (Suc n) (d\<lparr>dc_cache := dedupePrune d u (dedupeTouch k' u (dc_cache d))\<rparr>)"
    by (meson held_weaken le_less_trans)
  moreover have "dedupeHeld k t (Suc n) (d\<lparr>dc_cache := dedupeTouch k' u (dc_cache d)\<rparr>)"
    using l c(3) t unfolding dedupeHeld_def
    by (intro exI [of _ "AList.delete k' xs"] exI [of _ s] exI [of _ ?ys]) simp
  ultimately show ?thesis by (simp add: dedupeCheck_simp [OF ne(2)])
qed

lemma held_check:
  assumes ok: "dedupe_wf d" and h: "dedupeHeld k t n d" and n: "Suc n < dc_maxSize d"
    and u: "t \<le> u" "u < t + dc_ttlMs d"
  shows "dedupeHeld k t (Suc n) (snd (dedupeCheck (Some k') u d))"
proof (cases "k' = []")
  case True
  with held_weaken [OF h] show ?thesis by (simp add: dedupeCheck_def js_or_empty_def)
next
  case ne: False
  show ?thesis
  proof (cases "k' = k")
    case True
    obtain s where s: "map_of (dc_cache d) k = Some s" "t \<le> s"
      using held_lookup ok h unfolding dedupe_wf_def by blast
    with u have "fst (hasUnexpired d k u True)" by (simp add: hasUnexpired_def)
    with True ne u show ?thesis by (simp add: dedupeCheck_simp held_end)
  next
    case False
    with held_check_other assms ne show ?thesis by blast
  qed
qed

lemma held_check_self:
  assumes ok: "dedupe_wf d" and c: "0 < dc_maxSize d" "0 < dc_ttlMs d" and k: "k \<noteq> []"
  shows "dedupeHeld k t 0 (snd (dedupeCheck (Some k) t d))"
proof -
  have "jm_wf (dedupeTouch k t (dc_cache d))"
    using ok by (simp add: dedupe_wf_def dedupeTouch_wf)
  from held_prune [OF this dedupeTouch_eq] c
  have "dedupeHeld k t 0 (d\<lparr>dc_cache := dedupePrune d t (dedupeTouch k t (dc_cache d))\<rparr>)"
    by simp
  then show ?thesis using k by (simp add: dedupeCheck_simp held_end)
qed

lemma held_peek:
  assumes ok: "dedupe_wf d" and h: "dedupeHeld k t n d" and u: "t \<le> u" "u < t + dc_ttlMs d"
  shows "dedupeHeld k t n (snd (dedupePeek k'o u d))"
    and "k \<noteq> [] \<Longrightarrow> fst (dedupePeek (Some k) u d)"
proof -
  obtain s where s: "map_of (dc_cache d) k = Some s" "t \<le> s"
    using held_lookup ok h unfolding dedupe_wf_def by blast
  with u have e: "hasUnexpired d k u False = (True, dc_cache d)" by (simp add: hasUnexpired_def)
  then show "k \<noteq> [] \<Longrightarrow> fst (dedupePeek (Some k) u d)" by (simp add: dedupePeek_def js_or_empty_def)
  from h obtain xs s' ys where c: "dc_cache d = xs @ (k, s') # ys" "length ys \<le> n" "t \<le> s'"
    by (auto simp: dedupeHeld_def)
  have del: "dedupeHeld k t n (d\<lparr>dc_cache := AList.delete k' (dc_cache d)\<rparr>)" if "k' \<noteq> k" for k'
    using held_delete_other [OF that c(1)] c(2,3) length_delete_le [of k' ys]
    unfolding dedupeHeld_def by (auto intro: le_trans)
  show "dedupeHeld k t n (snd (dedupePeek k'o u d))"
  proof (cases "js_or_empty k'o = k")
    case True
    with e h show ?thesis by (auto simp: dedupePeek_def)
  next
    case False
    with h del [OF False] show ?thesis
      by (auto simp: dedupePeek_def hasUnexpired_def Let_def split: option.splits)
  qed
qed

text \<open>The cache provides the interface, for every time to live and every capacity.\<close>

interpretation recent_ids: recent_filter
  "\<lambda>k u d. dedupePeek (Some k) u d" "\<lambda>k u d. snd (dedupeCheck (Some k) u d)"
  "dedupeOk ttl cap" dedupeHeld ttl cap for ttl cap
proof (unfold_locales, goal_cases)
  case 1
  then show ?case by (simp add: dedupeOk_def dedupePeek_wf dedupePeek_fields)
next
  case 2
  then show ?case by (simp add: dedupeOk_def dedupeCheck_wf dedupeCheck_fields)
next
  case 3
  then show ?case by (intro held_check_self) (auto simp: dedupeOk_def)
next
  case 4
  then show ?case by (intro held_check) (auto simp: dedupeOk_def)
next
  case 5
  then show ?case by (intro held_peek) (auto simp: dedupeOk_def)
next
  case 6
  then show ?case by (intro held_peek(2)) (auto simp: dedupeOk_def)
qed

section \<open>Properties\<close>

datatype dedupeOp =
    Check "string option" int
  | Peek "string option" int
  | Delete "string option"
  | Clear

fun dedupeStep :: "dedupeOp \<Rightarrow> dedupeCache \<Rightarrow> dedupeCache" where
  "dedupeStep (Check k now) d = snd (dedupeCheck k now d)"
| "dedupeStep (Peek k now) d = snd (dedupePeek k now d)"
| "dedupeStep (Delete k) d = dedupeDelete k d"
| "dedupeStep Clear d = dedupeClear d"

lemma dedupeStep_wf:
  "dedupe_wf d \<Longrightarrow> dedupe_wf (dedupeStep p d) \<and> dc_maxSize (dedupeStep p d) = dc_maxSize d"
proof (cases p)
  case (Delete k)
  assume "dedupe_wf d"
  with Delete show ?thesis
    by (auto simp: dedupeDelete_def dedupe_wf_def Let_def intro: order_trans [OF length_delete_le])
next
  case Clear
  then show ?thesis by (simp add: dedupeClear_def dedupe_wf_def)
qed (simp_all add: dedupeCheck_wf dedupeCheck_fields dedupePeek_wf dedupePeek_fields)

lemma dedupeRun_wf:
  "dedupe_wf d \<Longrightarrow> dedupe_wf (fold dedupeStep ps d) \<and> dc_maxSize (fold dedupeStep ps d) = dc_maxSize d"
  by (induction ps arbitrary: d) (simp_all add: dedupeStep_wf)

text \<open>Whatever operations are performed on a new cache, it never holds more entries than its
  \<open>maxSize\<close>, and holds each key at most once.\<close>

theorem dedupe_size_bounded:
  "int (dedupeSize (fold dedupeStep ps (createDedupeCache ttl maxSize))) \<le> max 0 maxSize \<and>
   distinct (map fst (dc_cache (fold dedupeStep ps (createDedupeCache ttl maxSize))))"
proof -
  let ?d = "createDedupeCache ttl maxSize"
  have "dedupe_wf ?d" "dc_maxSize ?d = nat (max 0 maxSize)"
    by (simp_all add: dedupe_wf_def createDedupeCache_def)
  with dedupeRun_wf [of ?d ps] have "dedupe_wf (fold dedupeStep ps ?d)"
    "dc_maxSize (fold dedupeStep ps ?d) = nat (max 0 maxSize)" by simp_all
  then show ?thesis by (simp add: dedupe_wf_def dedupeSize_def jm_wf_def le_nat_iff)
qed

text \<open>A key that has been checked is reported as seen by a later \<open>peek\<close> within its time to
  live, as long as fewer than \<open>maxSize\<close> other checks came in between.\<close>

theorem dedupe_recent_key_seen:
  assumes "dedupe_wf d" "k \<noteq> []" "length kus < dc_maxSize d" "t \<le> v" "v < t + dc_ttlMs d"
    and "\<And>k' u. (k', u) \<in> set kus \<Longrightarrow> t \<le> u \<and> u < t + dc_ttlMs d"
  shows "fst (dedupePeek (Some k) v
    (fold (\<lambda>(k', u) d. snd (dedupeCheck (Some k') u d)) kus (snd (dedupeCheck (Some k) t d))))"
  by (rule recent_ids.seen_again) (use assms in \<open>auto simp: dedupeOk_def\<close>)

theorem dedupe_recent_key_seen_witness:
  "fst (dedupePeek (Some ''m1'') 90
    (fold (\<lambda>(k', u) d. snd (dedupeCheck (Some k') u d)) [(''m2'', 20), (''m3'', 30)]
      (snd (dedupeCheck (Some ''m1'') 10 (createDedupeCache 100 3)))))"
  by (rule dedupe_recent_key_seen) (auto simp: dedupe_wf_def createDedupeCache_def)

end
