(* ===== verification/Command_Queue.thy ===== *)
theory Command_Queue
  imports Complex_Main Prelude
begin

text \<open>
  \<open>src/process/command-queue.ts\<close> and \<open>src/process/lanes.ts\<close>: the in-process queue that runs
  commands lane by lane. A task is an asynchronous function whose body runs synchronously up to
  its first \<open>await\<close>; that synchronous part may itself enqueue, clear or reset lanes while a
  pump loop is on the stack. The model keeps that stack: a frame is a suspended piece of the code,
  \<open>exec1\<close> runs the frame on top until it calls something or ends, and \<open>exec\<close> runs the stack
  until it is empty. What happens later (a task's promise settles, a timer fires) is another
  event. Diagnostics are not modelled, except that waiting too long is logged.
\<close>

section \<open>State\<close>

datatype task = Task (task_name: string) (task_sync: "command list") (task_throws: bool)
  and command =
    Enqueue string task int
  | SetConcurrency string rat
  | ClearLane string
  | ResetLanes
  | MarkDraining

record queueEntry =
  qe_task :: task
  qe_enqueuedAt :: int
  qe_warnAfterMs :: int

record laneState =
  ln_queue :: "queueEntry list"
  ln_activeTaskIds :: "nat list"
  ln_maxConcurrent :: nat
  ln_draining :: bool
  ln_generation :: nat

datatype outcome = Resolved | Failed

datatype queueEvent =
    Accepted string queueEntry
  | Refused string task
  | Started string nat queueEntry
  | Waited string int nat
  | Cleared string queueEntry
  | Settled nat outcome

text \<open>\<open>qs_running\<close> holds the closures of the tasks that have started and not settled: their lane
  and the generation of the lane when they started.\<close>

record queueState =
  qs_gatewayDraining :: bool
  qs_lanes :: "(string \<times> laneState) list"
  qs_nextTaskId :: nat
  qs_running :: "(nat \<times> string \<times> nat) list"
  qs_log :: "queueEvent list"

definition initQueue :: queueState where
  "initQueue = \<lparr>qs_gatewayDraining = False, qs_lanes = [], qs_nextTaskId = 1, qs_running = [], qs_log = []\<rparr>"

definition newLane :: laneState where
  "newLane = \<lparr>ln_queue = [], ln_activeTaskIds = [], ln_maxConcurrent = 1, ln_draining = False,
     ln_generation = 0\<rparr>"

definition laneMain :: string where
  "laneMain = ''main''"

definition cleanLane :: "string \<Rightarrow> string" where
  "cleanLane lane = js_or (js_trim lane) laneMain"

definition getLaneState :: "queueState \<Rightarrow> string \<Rightarrow> laneState" where
  "getLaneState s lane = (case map_of (qs_lanes s) lane of Some st \<Rightarrow> st | None \<Rightarrow> newLane)"

definition setLane :: "string \<Rightarrow> laneState \<Rightarrow> queueState \<Rightarrow> queueState" where
  "setLane lane st s = s\<lparr>qs_lanes := AList.update lane st (qs_lanes s)\<rparr>"

definition logEvents :: "queueEvent list \<Rightarrow> queueState \<Rightarrow> queueState" where
  "logEvents es s = s\<lparr>qs_log := qs_log s @ es\<rparr>"

section \<open>Operations\<close>

datatype frame =
    FPump string
  | FRun "command list"
  | FDrain "string list"
  | FComplete nat outcome
  | FSettle nat outcome

definition drainLane :: "string \<Rightarrow> queueState \<Rightarrow> frame list \<times> queueState" where
  "drainLane lane s =
     (let st = getLaneState s lane in
      if ln_draining st then ([], s) else ([FPump lane], setLane lane (st\<lparr>ln_draining := True\<rparr>) s))"

definition enqueueCommandInLane ::
    "int \<Rightarrow> string \<Rightarrow> task \<Rightarrow> int \<Rightarrow> queueState \<Rightarrow> frame list \<times> queueState" where
  "enqueueCommandInLane now lane t warnAfterMs s =
     (if qs_gatewayDraining s then ([], logEvents [Refused lane t] s)
      else (let cleaned = cleanLane lane; st = getLaneState s cleaned;
                e = \<lparr>qe_task = t, qe_enqueuedAt = now, qe_warnAfterMs = warnAfterMs\<rparr>
            in drainLane cleaned (logEvents [Accepted cleaned e]
                 (setLane cleaned (st\<lparr>ln_queue := ln_queue st @ [e]\<rparr>) s))))"

definition setCommandLaneConcurrency :: "string \<Rightarrow> rat \<Rightarrow> queueState \<Rightarrow> frame list \<times> queueState" where
  "setCommandLaneConcurrency lane maxConcurrent s =
     (let cleaned = cleanLane lane; st = getLaneState s cleaned in
      drainLane cleaned (setLane cleaned (st\<lparr>ln_maxConcurrent := nat (max 1 \<lfloor>maxConcurrent\<rfloor>)\<rparr>) s))"

definition clearCommandLane :: "string \<Rightarrow> queueState \<Rightarrow> nat \<times> queueState" where
  "clearCommandLane lane s =
     (let cleaned = cleanLane lane in
      case map_of (qs_lanes s) cleaned of
        None \<Rightarrow> (0, s)
      | Some st \<Rightarrow>
          (length (ln_queue st),
           logEvents (map (Cleared cleaned) (ln_queue st)) (setLane cleaned (st\<lparr>ln_queue := []\<rparr>) s)))"

definition markGatewayDraining :: "queueState \<Rightarrow> queueState" where
  "markGatewayDraining s = s\<lparr>qs_gatewayDraining := True\<rparr>"

definition resetLane :: "laneState \<Rightarrow> laneState" where
  "resetLane st = st\<lparr>ln_generation := ln_generation st + 1, ln_activeTaskIds := [], ln_draining := False\<rparr>"

definition resetAllLanes :: "queueState \<Rightarrow> frame list \<times> queueState" where
  "resetAllLanes s =
     ([FDrain (map fst (filter (\<lambda>(l, st). ln_queue st \<noteq> []) (qs_lanes s)))],
      s\<lparr>qs_gatewayDraining := False, qs_lanes := map (\<lambda>(l, st). (l, resetLane st)) (qs_lanes s)\<rparr>)"

definition completeTask :: "string \<Rightarrow> nat \<Rightarrow> nat \<Rightarrow> queueState \<Rightarrow> bool \<times> queueState" where
  "completeTask lane taskId taskGeneration s =
     (let st = getLaneState s lane in
      if taskGeneration \<noteq> ln_generation st then (False, s)
      else (True, setLane lane (st\<lparr>ln_activeTaskIds := removeAll taskId (ln_activeTaskIds st)\<rparr>) s))"

fun runCommand :: "int \<Rightarrow> command \<Rightarrow> queueState \<Rightarrow> frame list \<times> queueState" where
  "runCommand now (Enqueue lane t w) s = enqueueCommandInLane now lane t w s"
| "runCommand now (SetConcurrency lane n) s = setCommandLaneConcurrency lane n s"
| "runCommand now (ClearLane lane) s = ([], snd (clearCommandLane lane s))"
| "runCommand now ResetLanes s = resetAllLanes s"
| "runCommand now MarkDraining s = ([], markGatewayDraining s)"

text \<open>The body of the loop of \<open>pump\<close> up to the call of the task, and the task's start.\<close>

definition startHead :: "int \<Rightarrow> string \<Rightarrow> laneState \<Rightarrow> queueEntry \<Rightarrow> queueState \<Rightarrow> queueState" where
  "startHead now lane st e s =
     (let rest = tl (ln_queue st); waitedMs = now - qe_enqueuedAt e; taskId = qs_nextTaskId s in
      logEvents
        ((if qe_warnAfterMs e \<le> waitedMs then [Waited lane waitedMs (length rest)] else []) @ [Started lane taskId e])
        ((setLane lane (st\<lparr>ln_queue := rest, ln_activeTaskIds := ln_activeTaskIds st @ [taskId]\<rparr>) s)
           \<lparr>qs_nextTaskId := taskId + 1,
            qs_running := qs_running s @ [(taskId, lane, ln_generation st)]\<rparr>))"

fun exec1 :: "int \<Rightarrow> frame \<Rightarrow> queueState \<Rightarrow> frame list \<times> queueState" where
  "exec1 now (FPump lane) s =
     (let st = getLaneState s lane in
      case ln_queue st of
        e # rest \<Rightarrow>
          if length (ln_activeTaskIds st) < ln_maxConcurrent st
          then ([FRun (task_sync (qe_task e))] @
                (if task_throws (qe_task e) then [FComplete (qs_nextTaskId s) Failed] else []) @ [FPump lane],
                startHead now lane st e s)
          else ([], setLane lane (st\<lparr>ln_draining := False\<rparr>) s)
      | [] \<Rightarrow> ([], setLane lane (st\<lparr>ln_draining := False\<rparr>) s))"
| "exec1 now (FRun []) s = ([], s)"
| "exec1 now (FRun (c # cs)) s = (case runCommand now c s of (fs, s') \<Rightarrow> (fs @ [FRun cs], s'))"
| "exec1 now (FDrain []) s = ([], s)"
| "exec1 now (FDrain (l # ls)) s = (case drainLane l s of (fs, s') \<Rightarrow> (fs @ [FDrain ls], s'))"
| "exec1 now (FComplete i r) s =
     (case map_of (qs_running s) i of
        None \<Rightarrow> ([], s)
      | Some (lane, gen) \<Rightarrow>
          (case completeTask lane i gen (s\<lparr>qs_running := AList.delete i (qs_running s)\<rparr>) of
             (current, s') \<Rightarrow> ((if current then [FPump lane] else []) @ [FSettle i r], s')))"
| "exec1 now (FSettle i r) s = ([], logEvents [Settled i r] s)"

section \<open>Termination\<close>

fun taskWeight :: "task \<Rightarrow> nat" and cmdWeight :: "command \<Rightarrow> nat" and cmdsWeight :: "command list \<Rightarrow> nat" where
  "taskWeight (Task n cs b) = Suc (cmdsWeight cs)"
| "cmdWeight (Enqueue l t w) = Suc (taskWeight t)"
| "cmdWeight (SetConcurrency l n) = 1"
| "cmdWeight (ClearLane l) = 1"
| "cmdWeight ResetLanes = 1"
| "cmdWeight MarkDraining = 1"
| "cmdsWeight [] = 0"
| "cmdsWeight (c # cs) = cmdWeight c + cmdsWeight cs"

definition laneWeight :: "laneState \<Rightarrow> nat" where
  "laneWeight st = sum_list (map (\<lambda>e. taskWeight (qe_task e)) (ln_queue st))"

definition lanesWeight :: "queueState \<Rightarrow> nat" where
  "lanesWeight s = sum_list (map (\<lambda>(l, st). laneWeight st) (qs_lanes s))"

fun frameWeight :: "frame \<Rightarrow> nat" where
  "frameWeight (FRun cs) = cmdsWeight cs"
| "frameWeight f = 0"

fun frameUnits :: "frame \<Rightarrow> nat" where
  "frameUnits (FDrain ls) = 1 + 2 * length ls"
| "frameUnits (FComplete i r) = 3"
| "frameUnits f = 1"

definition work :: "frame list \<Rightarrow> queueState \<Rightarrow> nat" where
  "work fs s = sum_list (map frameWeight fs) + lanesWeight s"

definition units :: "frame list \<Rightarrow> nat" where
  "units fs = sum_list (map frameUnits fs)"

lemma work_simps [simp]:
  "work (f # fs) s = frameWeight f + work fs s" "work (fs @ gs) s = sum_list (map frameWeight fs) + work gs s"
  "work [] s = lanesWeight s"
  by (simp_all add: work_def)

lemma units_simps [simp]:
  "units (f # fs) = frameUnits f + units fs" "units (fs @ gs) = units fs + units gs" "units [] = 0"
  by (simp_all add: units_def)

lemma lanesWeight_logEvents [simp]: "lanesWeight (logEvents es s) = lanesWeight s"
  by (simp add: lanesWeight_def logEvents_def)

lemma sum_update:
  "sum_list (map (\<lambda>(l, st). f st) (AList.update k v m)) + (case map_of m k of None \<Rightarrow> 0 | Some x \<Rightarrow> f x) =
   (f v :: nat) + sum_list (map (\<lambda>(l, st). f st) m)"
  by (induction m) auto

lemma lanesWeight_setLane:
  "lanesWeight (setLane l st s) + laneWeight (getLaneState s l) = laneWeight st + lanesWeight s"
  using sum_update [of laneWeight l st "qs_lanes s"]
  by (auto simp: lanesWeight_def setLane_def getLaneState_def newLane_def laneWeight_def split: option.splits)

lemma lanesWeight_queue: "ln_queue st = ln_queue (getLaneState s l) \<Longrightarrow> lanesWeight (setLane l st s) = lanesWeight s"
  using lanesWeight_setLane [of l st s] by (simp add: laneWeight_def)

lemma drainLane_weight:
  "drainLane l s = (fs, s') \<Longrightarrow> sum_list (map frameWeight fs) = 0 \<and> units fs \<le> 1 \<and> lanesWeight s' = lanesWeight s"
  by (auto simp: drainLane_def Let_def lanesWeight_queue split: if_splits)

lemma reset_weight: "lanesWeight (s\<lparr>qs_gatewayDraining := b, qs_lanes := map (\<lambda>(l, st). (l, resetLane st)) (qs_lanes s)\<rparr>) = lanesWeight s"
proof -
  have "sum_list (map ((\<lambda>(l, st). laneWeight st) \<circ> (\<lambda>(l, st). (l, resetLane st))) m) =
      sum_list (map (\<lambda>(l, st). laneWeight st) m)" for m
    by (rule arg_cong [where f = sum_list]) (auto simp: laneWeight_def resetLane_def)
  then show ?thesis by (simp add: lanesWeight_def)
qed

lemma runCommand_weight:
  "runCommand now c s = (fs, s') \<Longrightarrow> sum_list (map frameWeight fs) + lanesWeight s' < cmdWeight c + lanesWeight s"
proof (cases c)
  case (Enqueue l t w)
  let ?st = "getLaneState s (cleanLane l)"
  let ?e = "\<lparr>qe_task = t, qe_enqueuedAt = now, qe_warnAfterMs = w\<rparr>"
  have "lanesWeight (setLane (cleanLane l) (?st\<lparr>ln_queue := ln_queue ?st @ [?e]\<rparr>) s) = taskWeight t + lanesWeight s"
    using lanesWeight_setLane [of "cleanLane l" "?st\<lparr>ln_queue := ln_queue ?st @ [?e]\<rparr>" s]
    by (simp add: laneWeight_def)
  moreover assume "runCommand now c s = (fs, s')"
  ultimately show ?thesis
    using Enqueue by (auto simp: enqueueCommandInLane_def Let_def split: if_splits dest!: drainLane_weight)
next
  case (ClearLane l)
  assume "runCommand now c s = (fs, s')"
  then show ?thesis
    using ClearLane lanesWeight_setLane [of "cleanLane l" "getLaneState s (cleanLane l)\<lparr>ln_queue := []\<rparr>" s]
    by (auto simp: clearCommandLane_def getLaneState_def laneWeight_def Let_def split: option.splits)
next
  case MarkDraining
  assume "runCommand now c s = (fs, s')"
  then show ?thesis using MarkDraining by (auto simp: markGatewayDraining_def lanesWeight_def)
qed (auto simp: setCommandLaneConcurrency_def Let_def lanesWeight_queue resetAllLanes_def reset_weight
    dest!: drainLane_weight)

lemma startHead_weight:
  "ln_queue (getLaneState s l) = e # rest \<Longrightarrow>
   lanesWeight (startHead now l (getLaneState s l) e s) + taskWeight (qe_task e) = lanesWeight s"
proof -
  let ?st = "getLaneState s l"
  let ?n = "?st\<lparr>ln_queue := tl (ln_queue ?st), ln_activeTaskIds := ln_activeTaskIds ?st @ [qs_nextTaskId s]\<rparr>"
  assume q: "ln_queue ?st = e # rest"
  have "lanesWeight (startHead now l ?st e s) = lanesWeight (setLane l ?n s)"
    by (simp add: startHead_def Let_def) (simp add: lanesWeight_def)
  with lanesWeight_setLane [of l ?n s] q show ?thesis by (simp add: laneWeight_def)
qed

lemma exec1_decreases:
  assumes "exec1 now f s = (fs, s')"
  shows "sum_list (map frameWeight fs) + lanesWeight s' < frameWeight f + lanesWeight s \<or>
    sum_list (map frameWeight fs) + lanesWeight s' = frameWeight f + lanesWeight s \<and> units fs < frameUnits f"
  using assms
proof (cases "(now, f, s)" rule: exec1.cases)
  case (1 now' lane s0)
  obtain n cs b where t: "qe_task (hd (ln_queue (getLaneState s lane))) = Task n cs b" by (rule task.exhaust)
  from 1 assms t startHead_weight [of s lane _ _ now]
  show ?thesis
    by (fastforce simp: Let_def lanesWeight_queue split: list.splits if_splits)
next
  case (3 now' c cs s0)
  with assms show ?thesis by (auto split: prod.splits dest!: runCommand_weight)
next
  case (5 now' l ls s0)
  with assms show ?thesis by (auto split: prod.splits dest!: drainLane_weight)
next
  case (6 now' i r s0)
  have "lanesWeight (s\<lparr>qs_running := m\<rparr>) = lanesWeight s" for m by (simp add: lanesWeight_def)
  with 6 assms show ?thesis
    by (auto simp: completeTask_def Let_def lanesWeight_queue split: option.splits if_splits)
qed auto

function exec :: "int \<Rightarrow> frame list \<Rightarrow> queueState \<Rightarrow> queueState" where
  "exec now [] s = s"
| "exec now (f # fs) s = (case exec1 now f s of (gs, s') \<Rightarrow> exec now (gs @ fs) s')"
  by pat_completeness auto
termination
proof (relation "measures [\<lambda>(now, fs, s). work fs s, \<lambda>(now, fs, s). units fs]", goal_cases)
  case 1
  show ?case by simp
next
  case (2 now f fs s gs s')
  then have "exec1 now f s = (gs, s')" by simp
  from exec1_decreases [OF this] show ?case by (auto simp: work_def)
qed

declare exec.simps(2) [simp del]

section \<open>Events\<close>

datatype queueInput =
    Command command
  | Settle nat outcome

definition queueStep :: "int \<times> queueInput \<Rightarrow> queueState \<Rightarrow> queueState" where
  "queueStep ev s = (case ev of
     (now, Command c) \<Rightarrow> exec now [FRun [c]] s
   | (now, Settle i r) \<Rightarrow> exec now [FComplete i r] s)"

definition queueRun :: "(int \<times> queueInput) list \<Rightarrow> queueState" where
  "queueRun evs = fold queueStep evs initQueue"

section \<open>Observers\<close>

definition getQueueSize :: "string \<Rightarrow> queueState \<Rightarrow> nat" where
  "getQueueSize lane s =
     (case map_of (qs_lanes s) (cleanLane lane) of
        None \<Rightarrow> 0 | Some st \<Rightarrow> length (ln_queue st) + length (ln_activeTaskIds st))"

definition getTotalQueueSize :: "queueState \<Rightarrow> nat" where
  "getTotalQueueSize s = sum_list (map (\<lambda>(l, st). length (ln_queue st) + length (ln_activeTaskIds st)) (qs_lanes s))"

definition getActiveTaskCount :: "queueState \<Rightarrow> nat" where
  "getActiveTaskCount s = sum_list (map (\<lambda>(l, st). length (ln_activeTaskIds st)) (qs_lanes s))"

definition activeIds :: "queueState \<Rightarrow> nat list" where
  "activeIds s = concat (map (\<lambda>(l, st). ln_activeTaskIds st) (qs_lanes s))"

text \<open>One \<open>check\<close> of \<open>waitForActiveTasks\<close>: \<open>Some drained\<close>, or \<open>None\<close> to poll again.\<close>

definition waitCheck :: "nat list \<Rightarrow> int \<Rightarrow> int \<Rightarrow> queueState \<Rightarrow> bool option" where
  "waitCheck activeAtStart deadline now s =
     (if activeAtStart = [] then Some True
      else if \<not> list_ex (\<lambda>i. i \<in> set activeAtStart) (activeIds s) then Some True
      else if deadline \<le> now then Some False
      else None)"


section \<open>Lemmas on lanes\<close>

lemma getLane_setLane [simp]: "getLaneState (setLane l st s) l' = (if l' = l then st else getLaneState s l')"
  by (simp add: getLaneState_def setLane_def map_of_update_iff)

lemma getLane_log [simp]: "getLaneState (logEvents es s) l = getLaneState s l"
  by (simp add: getLaneState_def logEvents_def)

lemma getLane_fields [simp]:
  "getLaneState (s\<lparr>qs_running := r\<rparr>) l = getLaneState s l"
  "getLaneState (s\<lparr>qs_nextTaskId := n\<rparr>) l = getLaneState s l"
  "getLaneState (s\<lparr>qs_gatewayDraining := b\<rparr>) l = getLaneState s l"
  by (simp_all add: getLaneState_def)

lemma setLane_fields [simp]:
  "qs_log (setLane l st s) = qs_log s" "qs_running (setLane l st s) = qs_running s"
  "qs_nextTaskId (setLane l st s) = qs_nextTaskId s" "qs_gatewayDraining (setLane l st s) = qs_gatewayDraining s"
  by (simp_all add: setLane_def)

lemma logEvents_fields [simp]:
  "qs_log (logEvents es s) = qs_log s @ es" "qs_running (logEvents es s) = qs_running s"
  "qs_nextTaskId (logEvents es s) = qs_nextTaskId s" "qs_gatewayDraining (logEvents es s) = qs_gatewayDraining s"
  by (simp_all add: logEvents_def)

lemma resetLane_newLane [simp]:
  "ln_queue (resetLane st) = ln_queue st" "ln_activeTaskIds (resetLane st) = []"
  "ln_draining (resetLane st) = False" "ln_maxConcurrent (resetLane st) = ln_maxConcurrent st"
  "ln_generation (resetLane st) = Suc (ln_generation st)"
  by (simp_all add: resetLane_def)

lemma map_of_map_lanes: "map_of (map (\<lambda>(l, st). (l, f st)) m) l = map_option f (map_of m l)"
  by (induction m) auto

lemma getLane_reset:
  "getLaneState (snd (resetAllLanes s)) l =
     (if l \<in> fst ` set (qs_lanes s) then resetLane (getLaneState s l) else newLane)"
proof (cases "map_of (qs_lanes s) l")
  case None
  then have "l \<notin> fst ` set (qs_lanes s)" by (simp add: map_of_eq_None_iff)
  with None show ?thesis by (simp add: resetAllLanes_def getLaneState_def map_of_map_lanes)
next
  case (Some st)
  then have "l \<in> fst ` set (qs_lanes s)" by (force dest: map_of_SomeD)
  with Some show ?thesis by (simp add: resetAllLanes_def getLaneState_def map_of_map_lanes)
qed

lemma getLane_absent: "l \<notin> fst ` set (qs_lanes s) \<Longrightarrow> getLaneState s l = newLane"
  by (simp add: getLaneState_def map_of_eq_None_iff [THEN iffD2] split: option.split)

text \<open>Clearing a lane, existing or not, as one update of the state.\<close>

lemma clear_lanes:
  "getLaneState (snd (clearCommandLane lane s)) l =
     (if l = cleanLane lane then (getLaneState s l)\<lparr>ln_queue := []\<rparr> else getLaneState s l)"
  "qs_log (snd (clearCommandLane lane s)) =
     qs_log s @ map (Cleared (cleanLane lane)) (ln_queue (getLaneState s (cleanLane lane)))"
  "qs_running (snd (clearCommandLane lane s)) = qs_running s"
  "qs_nextTaskId (snd (clearCommandLane lane s)) = qs_nextTaskId s"
  by (auto simp: clearCommandLane_def Let_def getLaneState_def newLane_def map_of_update_iff setLane_def
      logEvents_def split: option.split)

lemma exec_induct_inv:
  assumes step: "\<And>now f fs s gs s'. P (f # fs) s \<Longrightarrow> exec1 now f s = (gs, s') \<Longrightarrow> P (gs @ fs) s'"
  shows "P fs s \<Longrightarrow> P [] (exec now fs s)"
proof (induction now fs s rule: exec.induct)
  case (1 now s)
  then show ?case by simp
next
  case (2 now f fs s)
  obtain gs s' where e: "exec1 now f s = (gs, s')" by fastforce
  from step [OF 2(2) e] have "P (gs @ fs) s'" .
  from 2(1) [OF e [symmetric] this] show ?case by (simp add: exec.simps(2) e)
qed


section \<open>No command is lost, duplicated or overtaken\<close>

fun acceptedBy :: "string \<Rightarrow> queueEvent \<Rightarrow> queueEntry list" where
  "acceptedBy l (Accepted l' e) = (if l' = l then [e] else [])"
| "acceptedBy l _ = []"

fun takenBy :: "string \<Rightarrow> queueEvent \<Rightarrow> queueEntry list" where
  "takenBy l (Started l' i e) = (if l' = l then [e] else [])"
| "takenBy l (Cleared l' e) = (if l' = l then [e] else [])"
| "takenBy l _ = []"

definition accepted :: "string \<Rightarrow> queueState \<Rightarrow> queueEntry list" where
  "accepted l s = concat (map (acceptedBy l) (qs_log s))"

definition taken :: "string \<Rightarrow> queueState \<Rightarrow> queueEntry list" where
  "taken l s = concat (map (takenBy l) (qs_log s))"

definition fifoInv :: "queueState \<Rightarrow> bool" where
  "fifoInv s \<longleftrightarrow> (\<forall>l. accepted l s = taken l s @ ln_queue (getLaneState s l))"

lemma taken_cleared:
  "concat (map (takenBy l) (map (Cleared l') es)) = (if l' = l then es else [])"
  "concat (map (acceptedBy l) (map (Cleared l') es)) = []"
  by (induction es) auto

lemma drainLane_fields:
  "drainLane lane s = (fs, s') \<Longrightarrow> qs_log s' = qs_log s \<and> qs_running s' = qs_running s \<and>
    qs_nextTaskId s' = qs_nextTaskId s \<and> qs_gatewayDraining s' = qs_gatewayDraining s \<and>
    fs = (if ln_draining (getLaneState s lane) then [] else [FPump lane]) \<and>
    (\<forall>l. getLaneState s' l = (if l = lane then (getLaneState s l)\<lparr>ln_draining := True\<rparr> else getLaneState s l))"
  by (auto simp: drainLane_def Let_def split: if_splits)

lemma fifo_frame:
  assumes "fifoInv s" "qs_log s' = qs_log s" "\<And>l. ln_queue (getLaneState s' l) = ln_queue (getLaneState s l)"
  shows "fifoInv s'"
  using assms by (simp add: fifoInv_def accepted_def taken_def)

lemma fifo_drain: "fifoInv s \<Longrightarrow> drainLane lane s = (fs, s') \<Longrightarrow> fifoInv s'"
  by (erule fifo_frame) (use drainLane_fields in fastforce)+

lemma fifo_command:
  assumes "fifoInv s" "runCommand now c s = (fs, s')"
  shows "fifoInv s'"
proof (cases c)
  case (Enqueue l t w)
  let ?c = "cleanLane l" and ?e = "\<lparr>qe_task = t, qe_enqueuedAt = now, qe_warnAfterMs = w\<rparr>"
  let ?st = "getLaneState s ?c"
  have "fifoInv (logEvents [Accepted ?c ?e] (setLane ?c (?st\<lparr>ln_queue := ln_queue ?st @ [?e]\<rparr>) s))"
    and "fifoInv (logEvents [Refused l t] s)"
    using assms(1) by (auto simp: fifoInv_def accepted_def taken_def)
  with assms(2) Enqueue show ?thesis
    by (auto simp: enqueueCommandInLane_def Let_def split: if_splits dest: fifo_drain)
next
  case (SetConcurrency l n)
  have "fifoInv (setLane (cleanLane l) (getLaneState s (cleanLane l)\<lparr>ln_maxConcurrent := m\<rparr>) s)" for m
    by (rule fifo_frame [OF assms(1)]) auto
  with assms(2) SetConcurrency show ?thesis
    by (auto simp: setCommandLaneConcurrency_def Let_def dest: fifo_drain)
next
  case (ClearLane l)
  have "fifoInv (snd (clearCommandLane l s))"
    using assms(1) by (auto simp: fifoInv_def accepted_def taken_def clear_lanes taken_cleared simp del: map_map)
  with assms(2) ClearLane show ?thesis by auto
next
  case ResetLanes
  have "qs_log (snd (resetAllLanes s)) = qs_log s" by (simp add: resetAllLanes_def)
  moreover have "ln_queue (getLaneState (snd (resetAllLanes s)) l) = ln_queue (getLaneState s l)" for l
    using getLane_absent [of l s] by (simp add: getLane_reset newLane_def)
  ultimately have "fifoInv (snd (resetAllLanes s))" by (rule fifo_frame [OF assms(1)])
  with assms(2) ResetLanes show ?thesis by (simp add: prod_eq_iff)
next
  case MarkDraining
  with assms show ?thesis by (auto simp: markGatewayDraining_def elim: fifo_frame)
qed

lemma fifo_start:
  assumes "fifoInv s" "ln_queue (getLaneState s lane) = e # rest"
  shows "fifoInv (startHead now lane (getLaneState s lane) e s)"
  using assms by (auto simp: fifoInv_def accepted_def taken_def startHead_def Let_def)

lemma fifo_exec1:
  assumes "fifoInv s" "exec1 now f s = (gs, s')"
  shows "fifoInv s'"
  using assms
proof (cases "(now, f, s)" rule: exec1.cases)
  case (1 now' lane s0)
  have "fifoInv (setLane lane (getLaneState s lane\<lparr>ln_draining := b\<rparr>) s)" for b
    by (rule fifo_frame [OF assms(1)]) auto
  with 1 assms show ?thesis
    by (auto simp: Let_def split: list.splits if_splits intro: fifo_start)
next
  case (3 now' c cs s0)
  with assms show ?thesis by (auto split: prod.splits dest: fifo_command)
next
  case (5 now' l ls s0)
  with assms show ?thesis by (auto split: prod.splits dest: fifo_drain)
next
  case (6 now' i r s0)
  with assms show ?thesis
    by (auto simp: completeTask_def Let_def split: option.splits if_splits elim!: fifo_frame)
next
  case (7 now' i r s0)
  with assms show ?thesis by (auto simp: fifoInv_def accepted_def taken_def)
qed auto

lemma fifo_exec: "fifoInv s \<Longrightarrow> fifoInv (exec now fs s)"
  by (rule exec_induct_inv [of "\<lambda>fs. fifoInv"]) (rule fifo_exec1)

lemma queueRun_invariant:
  assumes "P initQueue" "\<And>now fs s. P s \<Longrightarrow> P (exec now fs s)"
  shows "P (queueRun evs)"
proof -
  have "P s \<Longrightarrow> P (fold queueStep evs s)" for s
    by (induction evs arbitrary: s) (auto simp: queueStep_def assms(2) split: queueInput.split)
  with assms(1) show ?thesis by (simp add: queueRun_def)
qed

lemma fifo_run: "fifoInv (queueRun evs)"
proof (rule queueRun_invariant)
  show "fifoInv initQueue"
    by (simp add: fifoInv_def initQueue_def accepted_def taken_def getLaneState_def newLane_def)
qed (rule fifo_exec)


section \<open>No lane is left with work and a free slot\<close>

definition laneIdle :: "laneState \<Rightarrow> bool" where
  "laneIdle st \<longleftrightarrow> ln_queue st = [] \<or> ln_maxConcurrent st \<le> length (ln_activeTaskIds st)"

definition covered :: "string \<Rightarrow> frame list \<Rightarrow> bool" where
  "covered l fs \<longleftrightarrow> FPump l \<in> set fs \<or> (\<exists>ls. FDrain ls \<in> set fs \<and> l \<in> set ls)"

definition workInv :: "frame list \<Rightarrow> queueState \<Rightarrow> bool" where
  "workInv fs s \<longleftrightarrow> (\<forall>l. (ln_draining (getLaneState s l) \<longrightarrow> FPump l \<in> set fs) \<and>
     (laneIdle (getLaneState s l) \<or> covered l fs))"

lemma covered_append [simp]: "covered l (fs @ gs) \<longleftrightarrow> covered l fs \<or> covered l gs"
  by (auto simp: covered_def)

lemma covered_simps [simp]:
  "covered l (FPump l' # fs) \<longleftrightarrow> l = l' \<or> covered l fs" "covered l (FRun cs # fs) \<longleftrightarrow> covered l fs"
  "covered l (FDrain ls # fs) \<longleftrightarrow> l \<in> set ls \<or> covered l fs" "covered l (FComplete i r # fs) \<longleftrightarrow> covered l fs"
  "covered l (FSettle i r # fs) \<longleftrightarrow> covered l fs" "\<not> covered l []"
  by (auto simp: covered_def)

lemma pump_covered: "FPump l \<in> set fs \<Longrightarrow> covered l fs"
  by (simp add: covered_def)

lemma work_frame:
  assumes "workInv F s" "\<And>l. FPump l \<in> set F \<Longrightarrow> FPump l \<in> set G" "\<And>l. covered l F \<Longrightarrow> covered l G"
    and "\<And>l. ln_draining (getLaneState s' l) \<Longrightarrow> ln_draining (getLaneState s l)"
    and "\<And>l. laneIdle (getLaneState s l) \<Longrightarrow> laneIdle (getLaneState s' l) \<or> covered l G"
  shows "workInv G s'"
  using assms unfolding workInv_def by blast

lemma work_drain:
  assumes d: "drainLane lane s = (fs, s')"
    and i: "\<And>l. ln_draining (getLaneState s l) \<Longrightarrow> FPump l \<in> set F"
      "\<And>l. l \<noteq> lane \<Longrightarrow> laneIdle (getLaneState s l) \<or> covered l F"
  shows "workInv (fs @ F) s'"
proof -
  from drainLane_fields [OF d] have fs: "fs = (if ln_draining (getLaneState s lane) then [] else [FPump lane])"
    and g: "\<And>l. getLaneState s' l = (if l = lane then getLaneState s l\<lparr>ln_draining := True\<rparr> else getLaneState s l)"
    by blast+
  show ?thesis using i pump_covered by (auto simp: workInv_def fs g)
qed

lemma work_command:
  assumes w: "workInv F s" and c: "runCommand now c s = (fs, s')"
  shows "workInv (fs @ F) s'"
proof (cases c)
  case (Enqueue l t w)
  let ?c = "cleanLane l" and ?e = "\<lparr>qe_task = t, qe_enqueuedAt = now, qe_warnAfterMs = w\<rparr>"
  let ?s = "logEvents [Accepted ?c ?e] (setLane ?c (getLaneState s ?c\<lparr>ln_queue := ln_queue (getLaneState s ?c) @ [?e]\<rparr>) s)"
  have "workInv (gs @ F) s''" if "drainLane ?c ?s = (gs, s'')" for gs s''
    using that by (rule work_drain) (use w in \<open>auto simp: workInv_def split: if_splits\<close>)
  with c w Enqueue show ?thesis
    by (auto simp: enqueueCommandInLane_def Let_def workInv_def split: if_splits)
next
  case (SetConcurrency l n)
  let ?c = "cleanLane l"
  let ?s = "setLane ?c (getLaneState s ?c\<lparr>ln_maxConcurrent := nat (max 1 \<lfloor>n\<rfloor>)\<rparr>) s"
  have "workInv (gs @ F) s''" if "drainLane ?c ?s = (gs, s'')" for gs s''
    using that by (rule work_drain) (use w in \<open>auto simp: workInv_def split: if_splits\<close>)
  with c SetConcurrency show ?thesis by (auto simp: setCommandLaneConcurrency_def Let_def)
next
  case (ClearLane l)
  have "workInv F (snd (clearCommandLane l s))"
    by (rule work_frame [OF w]) (auto simp: clear_lanes laneIdle_def split: if_splits)
  with c ClearLane show ?thesis by auto
next
  case ResetLanes
  have r: "resetAllLanes s = (fs, s')" using c ResetLanes by simp
  have fs: "fs = [FDrain (map fst (filter (\<lambda>(l, st). ln_queue st \<noteq> []) (qs_lanes s)))]"
    using r by (simp add: resetAllLanes_def)
  have "laneIdle (getLaneState s' l) \<or> covered l fs" for l
  proof (cases "map_of (qs_lanes s) l")
    case None
    then have "l \<notin> fst ` set (qs_lanes s)" by (simp add: map_of_eq_None_iff)
    with getLane_reset [of s l] r show ?thesis by (simp add: laneIdle_def newLane_def)
  next
    case (Some st)
    then have m: "(l, st) \<in> set (qs_lanes s)" by (rule map_of_SomeD)
    then have "l \<in> fst ` set (qs_lanes s)" by force
    with getLane_reset [of s l] r Some have "getLaneState s' l = resetLane st" by (simp add: getLaneState_def)
    with m fs show ?thesis by (cases "ln_queue st = []") (force simp: laneIdle_def)+
  qed
  moreover have "\<not> ln_draining (getLaneState s' l)" for l
    using getLane_reset [of s l] r by (simp add: newLane_def split: if_splits)
  ultimately show ?thesis by (auto simp: workInv_def)
next
  case MarkDraining
  with w c show ?thesis by (auto simp: markGatewayDraining_def workInv_def)
qed

lemma work_exec1:
  assumes w: "workInv (f # fs) s" and e: "exec1 now f s = (gs, s')"
  shows "workInv (gs @ fs) s'"
  using e
proof (cases "(now, f, s)" rule: exec1.cases)
  case (1 now' lane s0)
  let ?st = "getLaneState s lane"
  show ?thesis
  proof (cases "ln_queue ?st \<noteq> [] \<and> length (ln_activeTaskIds ?st) < ln_maxConcurrent ?st")
    case True
    then obtain e rest where "ln_queue ?st = e # rest" by (cases "ln_queue ?st") auto
    with True 1 e have g: "gs = [FRun (task_sync (qe_task e))] @
        (if task_throws (qe_task e) then [FComplete (qs_nextTaskId s) Failed] else []) @ [FPump lane]"
      and s': "s' = startHead now lane ?st e s" by (auto simp: Let_def)
    have "getLaneState s' l = (if l = lane then ?st\<lparr>ln_queue := tl (ln_queue ?st),
        ln_activeTaskIds := ln_activeTaskIds ?st @ [qs_nextTaskId s]\<rparr> else getLaneState s l)" for l
      by (simp add: s' startHead_def Let_def)
    with w 1 g show ?thesis by (auto simp: workInv_def)
  next
    case False
    with 1 e have "gs = []" "s' = setLane lane (?st\<lparr>ln_draining := False\<rparr>) s"
      by (auto simp: Let_def split: list.splits if_splits)
    with w 1 False show ?thesis by (auto simp: workInv_def laneIdle_def)
  qed
next
  case (3 now' c cs s0)
  from w 3 have "workInv (FRun cs # fs) s" by (simp add: workInv_def)
  from work_command [OF this] 3 e show ?thesis by (auto split: prod.splits)
next
  case (5 now' l ls s0)
  obtain hs s1 where d: "drainLane l s = (hs, s1)" by fastforce
  have "workInv (hs @ FDrain ls # fs) s1"
    by (rule work_drain [OF d]) (use w 5 in \<open>auto simp: workInv_def\<close>)
  with 5 e d show ?thesis by auto
next
  case (6 now' i r s0)
  let ?c = "getLaneState s"
  have same: "workInv (hs @ fs) t" if "hs = [] \<or> hs = [FSettle i r]" "\<And>l. getLaneState t l = ?c l" for hs t
    by (rule work_frame [OF w]) (use that 6 in auto)
  have freed: "workInv (FPump a # FSettle i r # fs) t"
    if "\<And>l. getLaneState t l = (if l = a then ?c l\<lparr>ln_activeTaskIds := x\<rparr> else ?c l)" for a t x
    by (rule work_frame [OF w]) (use that 6 in \<open>auto split: if_splits\<close>)
  show ?thesis
  proof (cases "map_of (qs_running s) i")
    case None
    with 6 e same [of "[]" s] show ?thesis by auto
  next
    case (Some lg)
    let ?t = "s\<lparr>qs_running := AList.delete i (qs_running s)\<rparr>"
    have "workInv (FPump a # FSettle i r # fs) (setLane a (?c a\<lparr>ln_activeTaskIds := x\<rparr>) ?t)" for a x
      by (rule freed [where x = x]) simp
    with Some 6 e same [of "[FSettle i r]" ?t]
    show ?thesis by (cases lg) (auto simp: completeTask_def Let_def split: if_splits)
  qed
qed (use w in \<open>auto simp: workInv_def\<close>)

lemma work_exec: "workInv fs s \<Longrightarrow> workInv [] (exec now fs s)"
  by (rule exec_induct_inv [of workInv]) (rule work_exec1)

lemma work_frames: "workInv [] s \<Longrightarrow> workInv fs s"
  by (auto simp: workInv_def)

lemma work_run: "workInv [] (queueRun evs)"
proof (rule queueRun_invariant)
  show "workInv [] initQueue"
    by (simp add: workInv_def initQueue_def getLaneState_def newLane_def laneIdle_def)
  show "workInv [] s \<Longrightarrow> workInv [] (exec now fs s)" for now fs s
    by (rule work_exec [OF work_frames])
qed


section \<open>Slots belong to running tasks of the current generation\<close>

definition slotInv :: "queueState \<Rightarrow> bool" where
  "slotInv s \<longleftrightarrow>
     (\<forall>l i. i \<in> set (ln_activeTaskIds (getLaneState s l)) \<longleftrightarrow>
        map_of (qs_running s) i = Some (l, ln_generation (getLaneState s l))) \<and>
     (\<forall>l. distinct (ln_activeTaskIds (getLaneState s l))) \<and>
     (\<forall>i l g. map_of (qs_running s) i = Some (l, g) \<longrightarrow> i < qs_nextTaskId s \<and> g \<le> ln_generation (getLaneState s l))"

lemma slot_frame:
  assumes "slotInv s" "qs_running s' = qs_running s" "qs_nextTaskId s' = qs_nextTaskId s"
    and "\<And>l. ln_activeTaskIds (getLaneState s' l) = ln_activeTaskIds (getLaneState s l)"
    and "\<And>l. ln_generation (getLaneState s' l) = ln_generation (getLaneState s l)"
  shows "slotInv s'"
  using assms by (simp add: slotInv_def)

lemma slot_drain: "slotInv s \<Longrightarrow> drainLane lane s = (fs, s') \<Longrightarrow> slotInv s'"
  by (erule slot_frame) (use drainLane_fields in fastforce)+

lemma slot_reset:
  assumes "slotInv s"
  shows "slotInv (snd (resetAllLanes s))"
proof -
  let ?s = "snd (resetAllLanes s)"
  have run: "qs_running ?s = qs_running s" "qs_nextTaskId ?s = qs_nextTaskId s"
    by (simp_all add: resetAllLanes_def)
  have none: "map_of (qs_running s) i \<noteq> Some (l, ln_generation newLane)" if "l \<notin> fst ` set (qs_lanes s)" for i l
    using assms getLane_absent [OF that] unfolding slotInv_def
    by (metis laneState.select_convs(2) list.set(1) empty_iff newLane_def)
  have new: "ln_activeTaskIds newLane = []" by (simp add: newLane_def)
  have le: "g < ln_generation (getLaneState ?s l) \<or> l \<notin> fst ` set (qs_lanes s)"
    if "map_of (qs_running s) i = Some (l, g)" for i l g
    using assms that by (auto simp: slotInv_def getLane_reset less_Suc_eq_le)
  have abs: "g = ln_generation newLane" if "map_of (qs_running s) i = Some (l, g)" "l \<notin> fst ` set (qs_lanes s)" for i l g
    using assms that getLane_absent [OF that(2)] unfolding slotInv_def newLane_def by fastforce
  show ?thesis
    unfolding slotInv_def run
  proof (intro conjI allI impI)
    fix l i
    show "(i \<in> set (ln_activeTaskIds (getLaneState ?s l))) =
        (map_of (qs_running s) i = Some (l, ln_generation (getLaneState ?s l)))"
    proof (cases "l \<in> fst ` set (qs_lanes s)")
      case True
      then show ?thesis using le [of i l "ln_generation (getLaneState ?s l)"] by (auto simp: getLane_reset)
    next
      case False
      with none new show ?thesis by (simp add: getLane_reset)
    qed
    show "distinct (ln_activeTaskIds (getLaneState ?s l))" by (simp add: getLane_reset new)
  next
    fix i l g assume m: "map_of (qs_running s) i = Some (l, g)"
    with assms show "i < qs_nextTaskId s" by (simp add: slotInv_def)
    show "g \<le> ln_generation (getLaneState ?s l)" using le [OF m] abs [OF m] none m by fastforce
  qed
qed

lemma slot_command:
  assumes "slotInv s" "runCommand now c s = (fs, s')"
  shows "slotInv s'"
proof (cases c)
  case (Enqueue l t w)
  let ?c = "cleanLane l" and ?e = "\<lparr>qe_task = t, qe_enqueuedAt = now, qe_warnAfterMs = w\<rparr>"
  have "slotInv (logEvents [Accepted ?c ?e] (setLane ?c (getLaneState s ?c\<lparr>ln_queue := q\<rparr>) s))"
    "slotInv (logEvents [Refused l t] s)" for q
    by (rule slot_frame [OF assms(1)]; simp)+
  with assms(2) Enqueue show ?thesis
    by (auto simp: enqueueCommandInLane_def Let_def split: if_splits dest: slot_drain)
next
  case (SetConcurrency l n)
  have "slotInv (setLane (cleanLane l) (getLaneState s (cleanLane l)\<lparr>ln_maxConcurrent := m\<rparr>) s)" for m
    by (rule slot_frame [OF assms(1)]) auto
  with assms(2) SetConcurrency show ?thesis
    by (auto simp: setCommandLaneConcurrency_def Let_def dest: slot_drain)
next
  case (ClearLane l)
  have "slotInv (snd (clearCommandLane l s))"
    by (rule slot_frame [OF assms(1)]) (simp_all add: clear_lanes)
  with assms(2) ClearLane show ?thesis by auto
next
  case ResetLanes
  with assms(2) slot_reset [OF assms(1)] show ?thesis by (simp add: prod_eq_iff)
next
  case MarkDraining
  with assms show ?thesis by (auto simp: markGatewayDraining_def elim: slot_frame)
qed

lemma slot_start:
  assumes "slotInv s"
  shows "slotInv (startHead now lane (getLaneState s lane) e s)"
proof -
  have fresh: "map_of (qs_running s) (qs_nextTaskId s) = None"
    using assms unfolding slotInv_def by (metis less_irrefl not_None_eq surj_pair)
  then have run: "([qs_nextTaskId s \<mapsto> x] ++ map_of (qs_running s)) i =
      (if i = qs_nextTaskId s then Some x else map_of (qs_running s) i)" for x i
    by (simp add: map_add_def split: option.split)
  have notin: "qs_nextTaskId s \<notin> set (ln_activeTaskIds (getLaneState s l))" for l
    using assms fresh by (simp add: slotInv_def)
  show ?thesis
    using assms notin fresh unfolding slotInv_def startHead_def Let_def
    by (auto simp: run less_SucI)
qed

lemma slot_complete:
  assumes "slotInv s" "map_of (qs_running s) i = Some (lane, gen)"
  shows "slotInv (snd (completeTask lane i gen (s\<lparr>qs_running := AList.delete i (qs_running s)\<rparr>)))"
  using assms
  by (auto simp: slotInv_def completeTask_def Let_def delete_conv' distinct_removeAll)

lemma slot_exec1:
  assumes "slotInv s" "exec1 now f s = (gs, s')"
  shows "slotInv s'"
  using assms
proof (cases "(now, f, s)" rule: exec1.cases)
  case (1 now' lane s0)
  have "slotInv (setLane lane (getLaneState s lane\<lparr>ln_draining := b\<rparr>) s)" for b
    by (rule slot_frame [OF assms(1)]) auto
  with 1 assms show ?thesis
    by (auto simp: Let_def split: list.splits if_splits intro: slot_start)
next
  case (3 now' c cs s0)
  with assms show ?thesis by (auto split: prod.splits dest: slot_command)
next
  case (5 now' l ls s0)
  with assms show ?thesis by (auto split: prod.splits dest: slot_drain)
next
  case (6 now' i r s0)
  with assms slot_complete [OF assms(1), of i] show ?thesis
    by (auto split: option.splits prod.splits)
next
  case (7 now' i r s0)
  with assms show ?thesis by (auto elim!: slot_frame)
qed auto

lemma slot_run: "slotInv (queueRun evs)"
proof (rule queueRun_invariant)
  show "slotInv initQueue" by (simp add: slotInv_def initQueue_def getLaneState_def newLane_def)
  show "slotInv s \<Longrightarrow> slotInv (exec now fs s)" for now fs s
    by (rule exec_induct_inv [of "\<lambda>fs. slotInv"]) (rule slot_exec1)
qed


section \<open>Slots are bounded by the configured concurrency\<close>

text \<open>Every concurrency setting of lane \<open>L\<close> in a command, or nested in a task of it, is at most
  \<open>N\<close>.\<close>

fun taskCaps :: "string \<Rightarrow> nat \<Rightarrow> task \<Rightarrow> bool" and cmdCaps :: "string \<Rightarrow> nat \<Rightarrow> command \<Rightarrow> bool"
  and cmdsCap :: "string \<Rightarrow> nat \<Rightarrow> command list \<Rightarrow> bool" where
  "taskCaps L N (Task n cs b) = cmdsCap L N cs"
| "cmdCaps L N (Enqueue l t w) = taskCaps L N t"
| "cmdCaps L N (SetConcurrency l n) = (cleanLane l = L \<longrightarrow> \<lfloor>n\<rfloor> \<le> int N)"
| "cmdCaps L N (ClearLane l) = True"
| "cmdCaps L N ResetLanes = True"
| "cmdCaps L N MarkDraining = True"
| "cmdsCap L N [] = True"
| "cmdsCap L N (c # cs) = (cmdCaps L N c \<and> cmdsCap L N cs)"

fun frameCaps :: "string \<Rightarrow> nat \<Rightarrow> frame \<Rightarrow> bool" where
  "frameCaps L N (FRun cs) = cmdsCap L N cs"
| "frameCaps L N f = True"

definition capInv :: "string \<Rightarrow> nat \<Rightarrow> frame list \<Rightarrow> queueState \<Rightarrow> bool" where
  "capInv L N fs s \<longleftrightarrow> list_all (frameCaps L N) fs \<and>
     (\<forall>l. list_all (\<lambda>e. taskCaps L N (qe_task e)) (ln_queue (getLaneState s l))) \<and>
     ln_maxConcurrent (getLaneState s L) \<le> N \<and> length (ln_activeTaskIds (getLaneState s L)) \<le> N"

lemma cap_frame:
  assumes "capInv L N F s" "list_all (frameCaps L N) G"
    and "\<And>l. set (ln_queue (getLaneState s' l)) \<subseteq> set (ln_queue (getLaneState s l))"
    and "ln_maxConcurrent (getLaneState s' L) \<le> N"
    and "length (ln_activeTaskIds (getLaneState s' L)) \<le> length (ln_activeTaskIds (getLaneState s L))"
  shows "capInv L N G s'"
  using assms unfolding capInv_def list_all_iff by (metis le_trans subsetD)

lemma cap_drain: "capInv L N F s \<Longrightarrow> drainLane lane s = (fs, s') \<Longrightarrow> capInv L N (fs @ F) s'"
proof -
  assume w: "capInv L N F s" and d: "drainLane lane s = (fs, s')"
  note f = drainLane_fields [OF d]
  show "capInv L N (fs @ F) s'"
    by (rule cap_frame [OF w]) (use w f in \<open>auto simp: capInv_def\<close>)
qed

lemma cap_command:
  assumes w: "capInv L N F s" and c: "runCommand now c s = (fs, s')" and N: "0 < N" and k: "cmdCaps L N c"
  shows "capInv L N (fs @ F) s'"
proof (cases c)
  case (Enqueue l t w')
  let ?c = "cleanLane l" and ?e = "\<lparr>qe_task = t, qe_enqueuedAt = now, qe_warnAfterMs = w'\<rparr>"
  let ?s = "logEvents [Accepted ?c ?e] (setLane ?c (getLaneState s ?c\<lparr>ln_queue := ln_queue (getLaneState s ?c) @ [?e]\<rparr>) s)"
  have "capInv L N F ?s" "capInv L N F (logEvents [Refused l t] s)"
    using w k Enqueue by (auto simp: capInv_def)
  with c Enqueue cap_drain show ?thesis
    by (fastforce simp: enqueueCommandInLane_def Let_def split: if_splits)
next
  case (SetConcurrency l n)
  let ?s = "setLane (cleanLane l) (getLaneState s (cleanLane l)\<lparr>ln_maxConcurrent := nat (max 1 \<lfloor>n\<rfloor>)\<rparr>) s"
  have "capInv L N F ?s" using w k N SetConcurrency by (auto simp: capInv_def)
  with c SetConcurrency cap_drain show ?thesis by (fastforce simp: setCommandLaneConcurrency_def Let_def)
next
  case (ClearLane l)
  have "capInv L N F (snd (clearCommandLane l s))" using w by (auto simp: capInv_def clear_lanes)
  with c ClearLane show ?thesis by auto
next
  case ResetLanes
  have "capInv L N (fst (resetAllLanes s) @ F) (snd (resetAllLanes s))"
    by (rule cap_frame [OF w])
      (use w N in \<open>auto simp: capInv_def getLane_reset newLane_def, simp add: resetAllLanes_def\<close>)
  with c ResetLanes show ?thesis by (simp add: prod_eq_iff)
next
  case MarkDraining
  with w c show ?thesis by (auto simp: markGatewayDraining_def capInv_def)
qed

lemma cap_exec1:
  assumes N: "0 < N" and w: "capInv L N (f # fs) s" and e: "exec1 now f s = (gs, s')"
  shows "capInv L N (gs @ fs) s'"
  using e
proof (cases "(now, f, s)" rule: exec1.cases)
  case (1 now' lane s0)
  let ?st = "getLaneState s lane"
  show ?thesis
  proof (cases "ln_queue ?st \<noteq> [] \<and> length (ln_activeTaskIds ?st) < ln_maxConcurrent ?st")
    case True
    then obtain e' rest where q: "ln_queue ?st = e' # rest" by (cases "ln_queue ?st") auto
    obtain n cs b where t: "qe_task e' = Task n cs b" by (rule task.exhaust)
    have "taskCaps L N (qe_task e')" using w q unfolding capInv_def by (metis list.pred_inject(2))
    with q True 1 e t have g: "list_all (frameCaps L N) gs" and s': "s' = startHead now lane ?st e' s"
      by (auto simp: Let_def)
    have "getLaneState s' l = (if l = lane then ?st\<lparr>ln_queue := rest,
        ln_activeTaskIds := ln_activeTaskIds ?st @ [qs_nextTaskId s]\<rparr> else getLaneState s l)" for l
      by (simp add: s' startHead_def Let_def q)
    moreover from w q have "list_all (\<lambda>e. taskCaps L N (qe_task e)) rest"
      unfolding capInv_def by (metis list.pred_inject(2))
    ultimately show ?thesis using w g True unfolding capInv_def by auto
  next
    case False
    with 1 e have "gs = []" "s' = setLane lane (?st\<lparr>ln_draining := False\<rparr>) s"
      by (auto simp: Let_def split: list.splits if_splits)
    with w show ?thesis by (auto simp: capInv_def)
  qed
next
  case (3 now' c cs s0)
  from w 3 have "capInv L N (FRun cs # fs) s" "cmdCaps L N c" by (simp_all add: capInv_def)
  from cap_command [OF this(1) _ N this(2)] 3 e show ?thesis by (auto split: prod.splits)
next
  case (5 now' l ls s0)
  from w 5 have "capInv L N (FDrain ls # fs) s" by (simp add: capInv_def)
  from cap_drain [OF this] 5 e show ?thesis by (auto split: prod.splits)
next
  case (6 now' i r s0)
  with w e show ?thesis
    by (auto simp: completeTask_def Let_def capInv_def split: option.splits if_splits
        intro!: le_trans [OF length_removeAll_less_eq])
qed (use w in \<open>auto simp: capInv_def\<close>)

lemma cap_run:
  assumes "0 < N" "list_all (\<lambda>ev. case snd ev of Command c \<Rightarrow> cmdCaps L N c | Settle i r \<Rightarrow> True) evs"
  shows "capInv L N [] (queueRun evs)"
proof -
  have ex: "capInv L N fs s \<Longrightarrow> capInv L N [] (exec now fs s)" for now fs s
    by (rule exec_induct_inv [of "capInv L N"]) (rule cap_exec1 [OF assms(1)])
  have "capInv L N [] s \<Longrightarrow> capInv L N [] (fold queueStep evs s)" for s
    using assms(2)
  proof (induction evs arbitrary: s)
    case (Cons ev evs)
    then have "capInv L N [] (queueStep ev s)"
      by (auto simp: queueStep_def split: queueInput.splits prod.splits intro!: ex) (auto simp: capInv_def)
    with Cons show ?case by simp
  qed simp
  moreover have "capInv L N [] initQueue"
    using assms(1) by (simp add: capInv_def initQueue_def getLaneState_def newLane_def)
  ultimately show ?thesis by (simp add: queueRun_def)
qed


section \<open>Properties\<close>

text \<open>C34: per lane and across clears and restarts, the commands accepted so far are, in order,
  those that were started or cleared followed by those still queued: none is lost, started twice
  or overtaken.\<close>

theorem lane_fifo_conservation:
  "accepted l (queueRun evs) = taken l (queueRun evs) @ ln_queue (getLaneState (queueRun evs) l)"
  using fifo_run by (simp add: fifoInv_def)

text \<open>C14: between events no lane is stuck: its pump is not running, and it has an empty queue or
  every slot in use, however tasks, restarts and nested enqueues were interleaved.\<close>

theorem lane_work_conserving:
  "\<not> ln_draining (getLaneState (queueRun evs) l) \<and>
   (ln_queue (getLaneState (queueRun evs) l) = [] \<or>
    ln_maxConcurrent (getLaneState (queueRun evs) l) \<le> length (ln_activeTaskIds (getLaneState (queueRun evs) l)))"
  using work_run [of evs] by (auto simp: workInv_def laneIdle_def)

text \<open>a lane whose concurrency is never set above \<open>N\<close>, neither from outside nor by a task,
  never has more than \<open>N\<close> active tasks; an untouched lane runs one at a time.\<close>

theorem lane_concurrency_bounded:
  assumes "0 < N" "list_all (\<lambda>ev. case snd ev of Command c \<Rightarrow> cmdCaps L N c | Settle i r \<Rightarrow> True) evs"
  shows "length (ln_activeTaskIds (getLaneState (queueRun evs) L)) \<le> N"
  using cap_run [OF assms] by (simp add: capInv_def)

definition plainTask :: "string \<Rightarrow> task" where
  "plainTask n = Task n [] False"

theorem lane_concurrency_bounded_witness:
  "length (ln_activeTaskIds (getLaneState (queueRun
     [(0, Command (Enqueue ''cron'' (plainTask ''a'') 2000)),
      (1, Command (SetConcurrency ''cron'' 2)),
      (2, Command (Enqueue ''cron'' (plainTask ''b'') 2000)),
      (3, Command (Enqueue ''cron'' (plainTask ''c'') 2000))]) ''cron'')) \<le> 2"
proof (rule lane_concurrency_bounded)
  show "0 < (2::nat)" by simp
qed (simp add: plainTask_def)

text \<open>a slot of a lane is held exactly by a task that started in the lane's current
  generation and has not settled: no slot leaks, and none survives a restart.\<close>

theorem lane_slots_are_running_tasks:
  "i \<in> set (ln_activeTaskIds (getLaneState (queueRun evs) l)) \<longleftrightarrow>
   map_of (qs_running (queueRun evs)) i = Some (l, ln_generation (getLaneState (queueRun evs) l))"
  using slot_run [of evs] unfolding slotInv_def by blast

text \<open>A completion of a task from before a restart only settles its promise: it changes no
  lane, frees no slot and starts nothing.\<close>

theorem stale_completion_ignored:
  assumes "map_of (qs_running s) i = Some (l, g)" "g \<noteq> ln_generation (getLaneState s l)"
  shows "qs_lanes (queueStep (now, Settle i r) s) = qs_lanes s \<and>
    qs_log (queueStep (now, Settle i r) s) = qs_log s @ [Settled i r] \<and>
    map_of (qs_running (queueStep (now, Settle i r) s)) i = None"
proof -
  let ?s = "s\<lparr>qs_running := AList.delete i (qs_running s)\<rparr>"
  have "completeTask l i g ?s = (False, ?s)" using assms(2) by (simp add: completeTask_def Let_def)
  then have "queueStep (now, Settle i r) s = logEvents [Settled i r] ?s"
    using assms(1) by (simp add: queueStep_def exec.simps(2))
  then show ?thesis by (simp add: logEvents_def delete_conv')
qed

theorem stale_completion_ignored_witness:
  "qs_log (queueStep (9, Settle 1 Resolved)
     (queueRun [(0, Command (Enqueue ''main'' (plainTask ''a'') 2000)), (5, Command ResetLanes)])) =
   qs_log (queueRun [(0, Command (Enqueue ''main'' (plainTask ''a'') 2000)), (5, Command ResetLanes)]) @
     [Settled 1 Resolved]"
proof -
  let ?s = "queueRun [(0, Command (Enqueue ''main'' (plainTask ''a'') 2000)), (5, Command ResetLanes)]"
  have "map_of (qs_running ?s) 1 = Some (''main'', 0)" by code_simp
  moreover have "0 \<noteq> ln_generation (getLaneState ?s ''main'')" by code_simp
  ultimately show ?thesis using stale_completion_ignored by blast
qed

end
