(* ===== verification/Js_Values.thy ===== *)
theory Js_Values
  imports Prelude
begin

text \<open>
  JavaScript values as data: values of unknown type that come from clients and files, with the
  conversions the code applies to them, and the JSON text of arrays of strings, which the code uses
  as composite keys and as input of hashes. Numbers are integers.
\<close>

section \<open>Values\<close>

datatype jsv =
    JUndef
  | JNull
  | JBool bool
  | JNum int
  | JStr string
  | JArr "jsv list"
  | JObj "(string \<times> jsv) list"

text \<open>\<open>value.key\<close> on an object.\<close>

definition js_field :: "(string \<times> jsv) list \<Rightarrow> string \<Rightarrow> jsv" where
  "js_field obj key = (case map_of obj key of None \<Rightarrow> JUndef | Some v \<Rightarrow> v)"

definition show_int :: "int \<Rightarrow> string" where
  "show_int n = (if n < 0 then CHR ''-'' # show_nat (nat (- n)) else show_nat (nat n))"

text \<open>\<open>String(value)\<close>\<close>

fun js_String :: "jsv \<Rightarrow> string" where
  "js_String JUndef = ''undefined''"
| "js_String JNull = ''null''"
| "js_String (JBool b) = (if b then ''true'' else ''false'')"
| "js_String (JNum n) = show_int n"
| "js_String (JStr s) = s"
| "js_String (JArr vs) = js_join '','' (map (\<lambda>v. if v = JUndef \<or> v = JNull then [] else js_String v) vs)"
| "js_String (JObj fs) = ''[object Object]''"

text \<open>\<open>typeof value === "string"\<close>, trimmed and not empty.\<close>

definition js_nonEmptyString :: "jsv \<Rightarrow> string option" where
  "js_nonEmptyString v = (case v of JStr s \<Rightarrow> js_some (js_trim s) | _ \<Rightarrow> None)"

definition js_optStr :: "string option \<Rightarrow> jsv" where
  "js_optStr v = (case v of None \<Rightarrow> JNull | Some s \<Rightarrow> JStr s)"

text \<open>What an \<open>if\<close> makes of a value.\<close>

fun js_isTruthy :: "jsv \<Rightarrow> bool" where
  "js_isTruthy JUndef = False"
| "js_isTruthy JNull = False"
| "js_isTruthy (JBool b) = b"
| "js_isTruthy (JNum n) = (n \<noteq> 0)"
| "js_isTruthy (JStr s) = (s \<noteq> [])"
| "js_isTruthy (JArr vs) = True"
| "js_isTruthy (JObj fs) = True"

section \<open>JSON text\<close>

text \<open>\<open>JSON.stringify\<close> of a string and of an array of strings.\<close>

definition hexDigit :: "nat \<Rightarrow> char" where
  "hexDigit n = (if n < 10 then char_of (48 + n) else char_of (87 + n))"

definition jsonChar :: "char \<Rightarrow> string" where
  "jsonChar c =
     (let n = (of_char c :: nat); bs = CHR 0x5C in
      if n = 0x22 then [bs, c] else if n = 0x5C then [bs, c]
      else if n = 8 then [bs, CHR ''b''] else if n = 9 then [bs, CHR ''t'']
      else if n = 10 then [bs, CHR ''n''] else if n = 12 then [bs, CHR ''f'']
      else if n = 13 then [bs, CHR ''r'']
      else if n < 32 then [bs] @ ''u00'' @ [hexDigit (n div 16), hexDigit (n mod 16)]
      else [c])"

definition jsonString :: "string \<Rightarrow> string" where
  "jsonString s = [CHR 0x22] @ concat (map jsonChar s) @ [CHR 0x22]"

definition jsonArray :: "string list \<Rightarrow> string" where
  "jsonArray ss = ''['' @ js_join '','' (map jsonString ss) @ '']''"

text \<open>\<open>JSON.stringify\<close> of any value; undefined has no text, is null in an array and left out of an object.\<close>

fun js_json :: "jsv \<Rightarrow> string option" where
  "js_json JUndef = None"
| "js_json JNull = Some ''null''"
| "js_json (JBool b) = Some (if b then ''true'' else ''false'')"
| "js_json (JNum n) = Some (show_int n)"
| "js_json (JStr s) = Some (jsonString s)"
| "js_json (JArr vs) =
     Some (''['' @ js_join '','' (map (\<lambda>v. case js_json v of None \<Rightarrow> ''null'' | Some t \<Rightarrow> t) vs) @ '']'')"
| "js_json (JObj fs) =
     Some (''{'' @ js_join '','' (concat (map (\<lambda>(k, v). case js_json v of None \<Rightarrow> [] | Some t \<Rightarrow> [jsonString k @ '':'' @ t]) fs)) @ ''}'')"

section \<open>JSON text determines the strings\<close>

definition unhex :: "char \<Rightarrow> nat" where
  "unhex c = (let n = (of_char c :: nat) in if n < 58 then n - 48 else n - 87)"

text \<open>Reads one encoded character.\<close>

definition jsonHead :: "string \<Rightarrow> char \<times> string" where
  "jsonHead s = (case s of
     a # b # r \<Rightarrow>
       if a \<noteq> CHR 0x5C then (a, b # r)
       else if b = CHR ''b'' then (char_of (8::nat), r) else if b = CHR ''t'' then (char_of (9::nat), r)
       else if b = CHR ''n'' then (char_of (10::nat), r) else if b = CHR ''f'' then (char_of (12::nat), r)
       else if b = CHR ''r'' then (char_of (13::nat), r)
       else if b = CHR ''u'' then (char_of (16 * unhex (r ! 2) + unhex (r ! 3)), drop 4 r)
       else (b, r)
   | _ \<Rightarrow> (hd s, []))"

lemma jsonHead_control:
  assumes "of_char c < (32::nat)"
  shows "jsonHead (jsonChar c @ x # r) = (c, x # r)"
proof -
  define n where "n = (of_char c :: nat)"
  then have c: "c = char_of n" and n: "n < 32" using assms by simp_all
  from n have "n \<in> {0, 1, 2, 3, 4, 5, 6, 7, 8, 9, 10, 11, 12, 13, 14, 15, 16, 17, 18, 19, 20, 21, 22, 23,
    24, 25, 26, 27, 28, 29, 30, 31}" by (simp, arith)
  then show ?thesis
    by (elim insertE emptyE) (simp_all add: c jsonHead_def jsonChar_def hexDigit_def unhex_def Let_def)
qed

lemma jsonHead_plain:
  assumes "\<not> of_char c < (32::nat)"
  shows "jsonHead (jsonChar c @ x # r) = (c, x # r)"
proof -
  consider "of_char c = (0x22::nat)" | "of_char c = (0x5C::nat)" | "of_char c \<noteq> (0x22::nat)" "of_char c \<noteq> (0x5C::nat)"
    by blast
  then show ?thesis
  proof cases
    case 1
    then have "(of_char c :: nat) = of_char (CHR 0x22)" by simp
    then have "c = CHR 0x22" by (simp only: of_char_eq_iff)
    then show ?thesis by (simp add: jsonHead_def jsonChar_def Let_def)
  next
    case 2
    then have "(of_char c :: nat) = of_char (CHR 0x5C)" by simp
    then have "c = CHR 0x5C" by (simp only: of_char_eq_iff)
    then show ?thesis by (simp add: jsonHead_def jsonChar_def Let_def)
  next
    case 3
    with assms have "jsonChar c = [c]" "c \<noteq> CHR 0x5C" by (auto simp: jsonChar_def Let_def)
    then show ?thesis by (simp add: jsonHead_def)
  qed
qed

lemma jsonHead_Char: "jsonHead (jsonChar c @ x # r) = (c, x # r)"
  using jsonHead_control jsonHead_plain by blast

lemma jsonChar_hd: "\<exists>a r. jsonChar c = a # r \<and> a \<noteq> CHR 0x22"
proof (cases "of_char c = (0x22::nat)")
  case False
  then have "c \<noteq> CHR 0x22" by auto
  then show ?thesis by (auto simp: jsonChar_def Let_def)
qed (simp add: jsonChar_def Let_def)

lemma jsonChars_inj:
  "concat (map jsonChar s) @ CHR 0x22 # r = concat (map jsonChar t) @ CHR 0x22 # r' \<Longrightarrow> s = t \<and> r = r'"
proof (induction s arbitrary: t)
  case Nil
  then show ?case using jsonChar_hd by (cases t) (auto, metis Cons_eq_appendI list.inject)
next
  case (Cons c s)
  show ?case
  proof (cases t)
    case Nil
    then show ?thesis using Cons.prems jsonChar_hd [of c] by auto
  next
    case (Cons d t')
    obtain x u where xu: "concat (map jsonChar s) @ CHR 0x22 # r = x # u"
      by (cases "concat (map jsonChar s) @ CHR 0x22 # r") auto
    obtain y v where yv: "concat (map jsonChar t') @ CHR 0x22 # r' = y # v"
      by (cases "concat (map jsonChar t') @ CHR 0x22 # r'") auto
    have "jsonChar c @ x # u = jsonChar d @ y # v"
      using Cons.prems Cons xu yv by simp
    then have "jsonHead (jsonChar c @ x # u) = jsonHead (jsonChar d @ y # v)" by simp
    then have "c = d" "x # u = y # v" by (simp_all add: jsonHead_Char)
    with Cons Cons.IH [of t'] xu yv show ?thesis by simp
  qed
qed

lemma jsonString_inj:
  assumes "jsonString s @ r = jsonString t @ r'"
  shows "s = t \<and> r = r'"
  by (rule jsonChars_inj) (use assms in \<open>simp add: jsonString_def\<close>)

text \<open>A comma-separated list in brackets determines its elements, when the encoding of an element
  does (for any continuation) and never starts with the closing bracket.\<close>

lemma join_body:
  "js_join '','' (map enc (u # us)) @ CHR '']'' # q =
   enc u @ (if us = [] then CHR '']'' # q else CHR '','' # js_join '','' (map enc us) @ CHR '']'' # q)"
  by (cases us) simp_all

lemma join_inj:
  assumes enc: "\<And>x y r r'. enc x @ r = enc y @ r' \<Longrightarrow> x = y \<and> r = r'"
    and start: "\<And>x. enc x \<noteq> [] \<and> hd (enc x) \<noteq> CHR '']''"
  shows "js_join '','' (map enc ss) @ CHR '']'' # r = js_join '','' (map enc ts) @ CHR '']'' # r' \<Longrightarrow>
    ss = ts \<and> r = r'"
proof (induction ss arbitrary: ts)
  case Nil
  show ?case
  proof (cases ts)
    case (Cons t us)
    from Nil have "CHR '']'' # r = enc t @ (if us = [] then CHR '']'' # r' else CHR '','' # js_join '','' (map enc us) @ CHR '']'' # r')"
      unfolding Cons join_body by simp
    then show ?thesis using start [of t] by (cases "enc t") auto
  qed (use Nil in simp)
next
  case (Cons s ss)
  show ?case
  proof (cases ts)
    case Nil
    from Cons.prems have "enc s @ (if ss = [] then CHR '']'' # r else CHR '','' # js_join '','' (map enc ss) @ CHR '']'' # r) = CHR '']'' # r'"
      unfolding Nil join_body by simp
    then show ?thesis using start [of s] by (cases "enc s") auto
  next
    case (Cons t ts')
    note eq = Cons.prems [unfolded Cons join_body]
    from enc [OF eq] have "s = t"
      and r: "(if ss = [] then CHR '']'' # r else CHR '','' # js_join '','' (map enc ss) @ CHR '']'' # r) =
        (if ts' = [] then CHR '']'' # r' else CHR '','' # js_join '','' (map enc ts') @ CHR '']'' # r')"
      by simp_all
    with Cons.IH [of ts'] show ?thesis by (auto simp: Cons split: if_splits)
  qed
qed

lemma jsonArray_inj:
  assumes "jsonArray ss @ r = jsonArray ts @ r'"
  shows "ss = ts \<and> r = r'"
proof (rule join_inj [where enc = jsonString])
  show "js_join '','' (map jsonString ss) @ CHR '']'' # r = js_join '','' (map jsonString ts) @ CHR '']'' # r'"
    using assms by (simp add: jsonArray_def)
qed (use jsonString_inj in blast, simp add: jsonString_def)

lemma jsonArray_eq [simp]: "jsonArray ss = jsonArray ts \<longleftrightarrow> ss = ts"
  using jsonArray_inj [of ss "[]" ts "[]"] by auto

end
