(* ===== verification/Queue_Helpers.thy ===== *)
theory Queue_Helpers
  imports Prelude
begin

text \<open>
  \<open>src/utils/queue-helpers.ts\<close>: the bounded queue with a drop policy that the follow-up queues
  are built on, its overflow summaries and its prompts. Waiting and running belong to
  \<open>Followup_Queue\<close>. Texts are Latin-1, so the ellipsis that marks a cut stands at its Windows-1252
  place.
\<close>

section \<open>Model\<close>

datatype dropPolicy = DropOld | DropNew | DropSummarize

record 'a dropQueue =
  dq_items :: "'a list"
  dq_cap :: int
  dq_dropPolicy :: dropPolicy
  dq_droppedCount :: nat
  dq_summaryLines :: "string list"

definition clearQueueSummaryState :: "('a, 'z) dropQueue_scheme \<Rightarrow> ('a, 'z) dropQueue_scheme" where
  "clearQueueSummaryState q = q\<lparr>dq_droppedCount := 0, dq_summaryLines := []\<rparr>"

text \<open>\<open>text.replace(/\\s+/g, " ")\<close>\<close>

fun collapseWs :: "bool \<Rightarrow> string \<Rightarrow> string" where
  "collapseWs inRun [] = []"
| "collapseWs inRun (c # cs) =
     (if js_ws c then (if inRun then collapseWs True cs else CHR '' '' # collapseWs True cs)
      else c # collapseWs False cs)"

definition ELLIPSIS :: char where
  "ELLIPSIS = CHR 0x85"

definition elideQueueText :: "string \<Rightarrow> nat \<Rightarrow> string" where
  "elideQueueText t limit =
     (if length t \<le> limit then t else js_trim_end (take (limit - 1) t) @ [ELLIPSIS])"

definition buildQueueSummaryLine :: "string \<Rightarrow> nat \<Rightarrow> string" where
  "buildQueueSummaryLine t limit = elideQueueText (js_trim (collapseWs False t)) limit"

definition shouldSkipQueueItem :: "'a \<Rightarrow> 'a list \<Rightarrow> ('a \<Rightarrow> 'a list \<Rightarrow> bool) option \<Rightarrow> bool" where
  "shouldSkipQueueItem item items dedupe = (case dedupe of None \<Rightarrow> False | Some d \<Rightarrow> d item items)"

text \<open>The loop that shifts summary lines while there are more than the limit.\<close>

function trimSummaryLines :: "nat \<Rightarrow> string list \<Rightarrow> string list" where
  "trimSummaryLines limit ls = (if limit < length ls then trimSummaryLines limit (tl ls) else ls)"
  by pat_completeness auto
termination by (relation "measure (\<lambda>(limit, ls). length ls)") auto

declare trimSummaryLines.simps [simp del]

definition applyQueueDropPolicy ::
    "('a \<Rightarrow> string) \<Rightarrow> int option \<Rightarrow> ('a, 'z) dropQueue_scheme \<Rightarrow> bool \<times> ('a, 'z) dropQueue_scheme" where
  "applyQueueDropPolicy summarize summaryLimit q =
     (let cap = dq_cap q in
      if cap \<le> 0 \<or> int (length (dq_items q)) < cap then (True, q)
      else if dq_dropPolicy q = DropNew then (False, q)
      else (let dropCount = nat (int (length (dq_items q)) - cap + 1);
                dropped = take dropCount (dq_items q);
                q1 = q\<lparr>dq_items := drop dropCount (dq_items q)\<rparr>
            in if dq_dropPolicy q = DropSummarize
               then (True, q1\<lparr>dq_droppedCount := dq_droppedCount q + length dropped,
                      dq_summaryLines :=
                        trimSummaryLines (nat (max 0 (case summaryLimit of None \<Rightarrow> cap | Some l \<Rightarrow> l)))
                          (dq_summaryLines q @ map (\<lambda>i. buildQueueSummaryLine (summarize i) 160) dropped)\<rparr>)
               else (True, q1)))"

definition buildQueueSummaryPrompt ::
    "string \<Rightarrow> string option \<Rightarrow> ('a, 'z) dropQueue_scheme \<Rightarrow> string option \<times> ('a, 'z) dropQueue_scheme" where
  "buildQueueSummaryPrompt noun title q =
     (if dq_dropPolicy q \<noteq> DropSummarize \<or> dq_droppedCount q = 0 then (None, q)
      else (let t = (case title of Some t \<Rightarrow> t
                     | None \<Rightarrow> ''[Queue overflow] Dropped '' @ show_nat (dq_droppedCount q) @ '' '' @ noun @
                              (if dq_droppedCount q = 1 then [] else ''s'') @ '' due to cap.'');
                ls = [t] @ (if dq_summaryLines q = [] then []
                            else ''Summary:'' # map (\<lambda>l. ''- '' @ l) (dq_summaryLines q))
            in (Some (js_join [CHR 0x0A] ls), clearQueueSummaryState q)))"

text \<open>The preview works on a copy: the prompt without the change of state.\<close>

definition previewQueueSummaryPrompt :: "string \<Rightarrow> string option \<Rightarrow> ('a, 'z) dropQueue_scheme \<Rightarrow> string option" where
  "previewQueueSummaryPrompt noun title q = fst (buildQueueSummaryPrompt noun title q)"

fun renderItems :: "('a \<Rightarrow> nat \<Rightarrow> string) \<Rightarrow> nat \<Rightarrow> 'a list \<Rightarrow> string list" where
  "renderItems render idx [] = []"
| "renderItems render idx (i # is) = render i idx # renderItems render (Suc idx) is"

definition buildCollectPrompt :: "string \<Rightarrow> 'a list \<Rightarrow> string option \<Rightarrow> ('a \<Rightarrow> nat \<Rightarrow> string) \<Rightarrow> string" where
  "buildCollectPrompt title items summary renderItem =
     js_join [CHR 0x0A, CHR 0x0A]
       ([title] @ (case summary of None \<Rightarrow> [] | Some s \<Rightarrow> if s = [] then [] else [s]) @
        renderItems renderItem 0 items)"

text \<open>The loop of \<open>hasCrossChannelItems\<close>: an early \<open>return true\<close> is \<open>None\<close>, otherwise the
  set of keys and whether an item had none.\<close>

fun crossLoop :: "('a \<Rightarrow> bool \<times> string option) \<Rightarrow> 'a list \<Rightarrow> string list \<Rightarrow> bool \<Rightarrow> (string list \<times> bool) option" where
  "crossLoop resolveKey [] keys unkeyed = Some (keys, unkeyed)"
| "crossLoop resolveKey (i # is) keys unkeyed =
     (case resolveKey i of (cross, key) \<Rightarrow>
        if cross then None
        else (case js_or_empty key of
            [] \<Rightarrow> crossLoop resolveKey is keys True
          | c # cs \<Rightarrow> crossLoop resolveKey is (List.insert (c # cs) keys) unkeyed))"

definition hasCrossChannelItems :: "'a list \<Rightarrow> ('a \<Rightarrow> bool \<times> string option) \<Rightarrow> bool" where
  "hasCrossChannelItems items resolveKey =
     (case crossLoop resolveKey items [] False of
        None \<Rightarrow> True
      | Some (keys, unkeyed) \<Rightarrow>
          if keys = [] then False else if unkeyed then True else 1 < length keys)"

section \<open>Lemmas\<close>

lemma trimSummaryLines_drop: "trimSummaryLines n ls = drop (length ls - n) ls"
proof (induction n ls rule: trimSummaryLines.induct)
  case (1 n ls)
  show ?case
  proof (cases "n < length ls")
    case True
    with 1 have "trimSummaryLines n ls = drop (length (tl ls) - n) (tl ls)"
      by (simp add: trimSummaryLines.simps [of n ls])
    also have "\<dots> = drop (length ls - n) ls"
      using True by (simp add: drop_Suc [symmetric] Suc_diff_Suc)
    finally show ?thesis .
  next
    case False
    then show ?thesis by (simp add: trimSummaryLines.simps [of n ls])
  qed
qed

lemma applyQueueDropPolicy_suffix:
  "applyQueueDropPolicy f sl q = (b, q') \<Longrightarrow> \<exists>n. dq_items q' = drop n (dq_items q)"
  by (auto simp: applyQueueDropPolicy_def Let_def split: if_splits intro: exI [of _ 0])

lemma elideQueueText_length: "0 < limit \<Longrightarrow> length (elideQueueText t limit) \<le> limit"
proof -
  assume l: "0 < limit"
  have "length (js_trim_end s) \<le> length s" for s
    unfolding js_trim_end_def using length_dropWhile_le [of js_ws "rev s"] by simp
  from this [of "take (limit - 1) t"] l show ?thesis by (auto simp: elideQueueText_def)
qed

text \<open>What the items' keys say of a mixed batch: all keyed alike, or all unkeyed, is not mixed.\<close>

lemma crossLoop_spec:
  "crossLoop r is ks u =
     (if \<exists>i\<in>set is. fst (r i) then None
      else Some (fold List.insert (filter (\<lambda>k. k \<noteq> []) (map (\<lambda>i. js_or_empty (snd (r i))) is)) ks,
                 u \<or> (\<exists>i\<in>set is. js_or_empty (snd (r i)) = [])))"
  by (induction r "is" ks u rule: crossLoop.induct) (auto split: prod.split list.split)

lemma mixed_keys:
  fixes f :: "'a \<Rightarrow> string"
  shows "(\<exists>i\<in>S. f i \<noteq> []) \<and> ((\<exists>i\<in>S. f i = []) \<or>
      (\<exists>k\<in>{k. k \<noteq> [] \<and> (\<exists>i\<in>S. k = f i)}. \<exists>k'\<in>{k. k \<noteq> [] \<and> (\<exists>i\<in>S. k = f i)}. k \<noteq> k')) \<longleftrightarrow>
    (\<exists>i\<in>S. \<exists>j\<in>S. f i \<noteq> [] \<and> f i \<noteq> f j)" (is "?l \<longleftrightarrow> ?r")
proof
  assume l: ?l
  then obtain i where i: "i \<in> S" "f i \<noteq> []" by blast
  from l consider (a) j where "j \<in> S" "f j = []" | (b) i j where "i \<in> S" "j \<in> S" "f i \<noteq> []" "f i \<noteq> f j"
    by blast
  then show ?r
  proof cases
    case a
    with i have "f i \<noteq> f j" by simp
    with a i show ?thesis by blast
  next
    case b
    then show ?thesis by blast
  qed
next
  assume ?r
  then obtain i j where "i \<in> S" "j \<in> S" "f i \<noteq> []" "f i \<noteq> f j" by blast
  then show ?l by (cases "f j = []") blast+
qed

section \<open>Properties\<close>

text \<open>with a positive cap, an item is only admitted into a queue that then has room for it:
  the newest items stay in order, the oldest are dropped, and under the summarising policy every
  dropped item is counted.\<close>

theorem drop_policy_bounds_queue:
  assumes "0 < dq_cap q"
  shows "case applyQueueDropPolicy summarize sl q of (admitted, q') \<Rightarrow>
    (admitted \<longrightarrow> int (length (dq_items q')) + 1 \<le> dq_cap q) \<and>
    (\<not> admitted \<longrightarrow> q' = q \<and> dq_dropPolicy q = DropNew \<and> dq_cap q \<le> int (length (dq_items q))) \<and>
    dq_items q' = drop (length (dq_items q) - length (dq_items q')) (dq_items q) \<and>
    (dq_dropPolicy q = DropSummarize \<longrightarrow>
      dq_droppedCount q' + length (dq_items q') = dq_droppedCount q + length (dq_items q))"
  using assms by (auto simp: applyQueueDropPolicy_def Let_def nat_add_distrib split: if_splits)

definition sampleDropQueue :: "string dropQueue" where
  "sampleDropQueue = \<lparr>dq_items = [''a'', ''b''], dq_cap = 2, dq_dropPolicy = DropSummarize,
     dq_droppedCount = 1, dq_summaryLines = [''z'']\<rparr>"

theorem drop_policy_bounds_queue_witness:
  "fst (applyQueueDropPolicy id None sampleDropQueue) \<and>
   int (length (dq_items (snd (applyQueueDropPolicy id None sampleDropQueue)))) + 1 \<le> 2"
proof -
  have c: "dq_cap sampleDropQueue = 2" by (simp add: sampleDropQueue_def)
  have "fst (applyQueueDropPolicy id None sampleDropQueue)" by code_simp
  then show ?thesis
    using drop_policy_bounds_queue [of sampleDropQueue id None] by (simp add: c case_prod_beta)
qed

text \<open>A batch is reported as mixed exactly if some item is marked as crossing channels, or
  some key is present and not every item has that key.\<close>

lemma cross_channel_iff_mixed:
  "hasCrossChannelItems items r \<longleftrightarrow>
     (\<exists>i\<in>set items. fst (r i)) \<or>
     (\<exists>i\<in>set items. \<exists>j\<in>set items. js_or_empty (snd (r i)) \<noteq> [] \<and> js_or_empty (snd (r i)) \<noteq> js_or_empty (snd (r j)))"
proof (cases "\<exists>i\<in>set items. fst (r i)")
  case True
  then show ?thesis by (simp add: hasCrossChannelItems_def crossLoop_spec)
next
  case False
  let ?K = "fold List.insert (filter (\<lambda>k. k \<noteq> []) (map (\<lambda>i. js_or_empty (snd (r i))) items)) []"
  have ins: "set (fold List.insert ks xs) = set ks \<union> set xs" for ks xs :: "string list"
    by (induction ks arbitrary: xs) auto
  have d: "distinct xs \<Longrightarrow> distinct (fold List.insert ks xs)" for ks xs :: "string list"
    by (induction ks arbitrary: xs) auto
  have K: "set ?K = {k. k \<noteq> [] \<and> (\<exists>i\<in>set items. k = js_or_empty (snd (r i)))}" by (auto simp: ins)
  have two: "1 < length ?K \<longleftrightarrow> (\<exists>k\<in>set ?K. \<exists>k'\<in>set ?K. k \<noteq> k')"
  proof -
    have "length ?K = card (set ?K)" using d [of "[]"] distinct_card [of ?K] by simp
    then show ?thesis using card_le_Suc0_iff_eq [of "set ?K"] by (auto simp: not_le [symmetric])
  qed
  have ne: "xs \<noteq> [] \<longleftrightarrow> (\<exists>k. k \<in> set xs)" for xs :: "string list" by (cases xs) auto
  have "hasCrossChannelItems items r \<longleftrightarrow> ?K \<noteq> [] \<and>
      ((\<exists>i\<in>set items. js_or_empty (snd (r i)) = []) \<or> 1 < length ?K)"
    using False by (simp add: hasCrossChannelItems_def crossLoop_spec)
  also have "?K \<noteq> [] \<longleftrightarrow> (\<exists>i\<in>set items. js_or_empty (snd (r i)) \<noteq> [])"
    unfolding ne [of ?K] K by auto
  finally show ?thesis using False mixed_keys [of "set items" "\<lambda>i. js_or_empty (snd (r i))"] unfolding two K by simp
qed

end
