(* ===== verification/Followup_Queue.thy ===== *)
theory Followup_Queue
  imports Complex_Main Js_Values Queue_Helpers Dedupe_Cache Command_Queue
begin

text \<open>
  \<open>src/auto-reply/reply/queue/\<close> (\<open>types\<close>, \<open>normalize\<close>, \<open>settings\<close>, \<open>state\<close>, \<open>enqueue\<close>,
  \<open>drain\<close>, \<open>cleanup\<close>) and \<open>src/agents/pi-embedded-runner/lanes.ts\<close>: the messages that wait
  while an agent is busy. Queue objects live in a store, because a drain keeps its object while
  the registry may already name another one. A drain is an asynchronous loop; between events it
  stands at one of its two \<open>await\<close>s, the debounce timer or a running follow-up.
\<close>

section \<open>Types and settings\<close>

datatype queueMode = ModeSteer | ModeFollowup | ModeCollect | ModeSteerBacklog | ModeInterrupt | ModeQueue

datatype dedupeMode = ByMessageId | ByPrompt | NoDedupe

record queueSettings =
  qset_mode :: queueMode
  qset_debounceMs :: "int option"
  qset_cap :: "rat option"
  qset_dropPolicy :: "dropPolicy option"

datatype threadId = ThreadStr string | ThreadNum nat

text \<open>The run context of a message (agent, session, model) is only passed on.\<close>

type_synonym runContext = nat

record followupRun =
  fr_prompt :: string
  fr_messageId :: "string option"
  fr_summaryLine :: "string option"
  fr_enqueuedAt :: int
  fr_originatingChannel :: "string option"
  fr_originatingTo :: "string option"
  fr_originatingAccountId :: "string option"
  fr_originatingThreadId :: "threadId option"
  fr_run :: runContext

record followupQueue = "followupRun dropQueue" +
  fq_draining :: bool
  fq_lastEnqueuedAt :: int
  fq_mode :: queueMode
  fq_debounceMs :: int
  fq_lastRun :: "runContext option"

definition normalizeQueueMode :: "string option \<Rightarrow> queueMode option" where
  "normalizeQueueMode raw =
     (if js_or_empty raw = [] then None
      else (let cleaned = js_lower (js_trim (js_or_empty raw)) in
        if cleaned \<in> {''queue'', ''queued''} then Some ModeSteer
        else if cleaned \<in> {''interrupt'', ''interrupts'', ''abort''} then Some ModeInterrupt
        else if cleaned \<in> {''steer'', ''steering''} then Some ModeSteer
        else if cleaned \<in> {''followup'', ''follow-ups'', ''followups''} then Some ModeFollowup
        else if cleaned \<in> {''collect'', ''coalesce''} then Some ModeCollect
        else if cleaned \<in> {''steer+backlog'', ''steer-backlog'', ''steer_backlog''} then Some ModeSteerBacklog
        else None))"

definition normalizeQueueDropPolicy :: "string option \<Rightarrow> dropPolicy option" where
  "normalizeQueueDropPolicy raw =
     (if js_or_empty raw = [] then None
      else (let cleaned = js_lower (js_trim (js_or_empty raw)) in
        if cleaned \<in> {''old'', ''oldest''} then Some DropOld
        else if cleaned \<in> {''new'', ''newest''} then Some DropNew
        else if cleaned \<in> {''summarize'', ''summary''} then Some DropSummarize
        else None))"

definition DEFAULT_QUEUE_DEBOUNCE_MS :: int where "DEFAULT_QUEUE_DEBOUNCE_MS = 1000"

definition DEFAULT_QUEUE_CAP :: int where "DEFAULT_QUEUE_CAP = 20"

definition DEFAULT_QUEUE_DROP :: dropPolicy where "DEFAULT_QUEUE_DROP = DropSummarize"

record queueConfig =
  qcfg_mode :: "string option"
  qcfg_byChannel :: "(string \<times> string) list option"
  qcfg_debounceMs :: "int option"
  qcfg_debounceMsByChannel :: "(string \<times> int) list option"
  qcfg_cap :: "rat option"
  qcfg_drop :: "string option"

record queueSessionEntry =
  qse_queueMode :: "string option"
  qse_queueDebounceMs :: "int option"
  qse_queueCap :: "rat option"
  qse_queueDrop :: "dropPolicy option"

record inlineQueueOptions =
  iq_debounceMs :: "int option"
  iq_cap :: "rat option"
  iq_dropPolicy :: "dropPolicy option"

text \<open>The channel's key, when there is one that is not empty.\<close>

definition resolveChannelDebounce :: "(string \<times> int) list option \<Rightarrow> string option \<Rightarrow> int option" where
  "resolveChannelDebounce byChannel channelKey =
     (if js_or_empty channelKey = [] then None
      else case byChannel of None \<Rightarrow> None
         | Some m \<Rightarrow> map_option (max 0) (map_of m (js_or_empty channelKey)))"

text \<open>The debounce default of the channel's plugin comes from the plugin registry: a parameter.\<close>

definition resolvePluginDebounce :: "(string \<Rightarrow> int option) \<Rightarrow> string option \<Rightarrow> int option" where
  "resolvePluginDebounce pluginDebounce channelKey =
     (if js_or_empty channelKey = [] then None else map_option (max 0) (pluginDebounce (js_or_empty channelKey)))"

definition resolveQueueSettings ::
    "(string \<Rightarrow> int option) \<Rightarrow> queueConfig option \<Rightarrow> string option \<Rightarrow> queueSessionEntry option \<Rightarrow>
     queueMode option \<Rightarrow> inlineQueueOptions option \<Rightarrow> queueSettings" where
  "resolveQueueSettings pluginDebounce cfg channel entry inlineMode inline =
     (let channelKey = map_option (\<lambda>c. js_lower (js_trim c)) channel;
          providerModeRaw = (if js_or_empty channelKey = [] then None
             else Option.bind (Option.bind cfg qcfg_byChannel) (\<lambda>m. map_of m (js_or_empty channelKey)));
          mode = js_coalesce inlineMode
                (js_coalesce (normalizeQueueMode (Option.bind entry qse_queueMode))
                (js_coalesce (normalizeQueueMode providerModeRaw)
                (js_coalesce (normalizeQueueMode (Option.bind cfg qcfg_mode)) (Some ModeCollect))));
          debounceRaw = js_coalesce (Option.bind inline iq_debounceMs)
                (js_coalesce (Option.bind entry qse_queueDebounceMs)
                (js_coalesce (resolveChannelDebounce (Option.bind cfg qcfg_debounceMsByChannel) channelKey)
                (js_coalesce (resolvePluginDebounce pluginDebounce channelKey)
                (js_coalesce (Option.bind cfg qcfg_debounceMs) (Some DEFAULT_QUEUE_DEBOUNCE_MS)))));
          capRaw = js_coalesce (Option.bind inline iq_cap)
                (js_coalesce (Option.bind entry qse_queueCap)
                (js_coalesce (Option.bind cfg qcfg_cap) (Some (of_int DEFAULT_QUEUE_CAP))));
          dropRaw = js_coalesce (Option.bind inline iq_dropPolicy)
                (js_coalesce (Option.bind entry qse_queueDrop)
                (js_coalesce (normalizeQueueDropPolicy (Option.bind cfg qcfg_drop)) (Some DEFAULT_QUEUE_DROP)))
      in \<lparr>qset_mode = (case mode of None \<Rightarrow> ModeCollect | Some m \<Rightarrow> m),
          qset_debounceMs = map_option (max 0) debounceRaw,
          qset_cap = map_option (\<lambda>c. of_int (max 1 \<lfloor>c\<rfloor>)) capRaw,
          qset_dropPolicy = dropRaw\<rparr>)"

definition applyQueueRuntimeSettings :: "queueSettings \<Rightarrow> followupQueue \<Rightarrow> followupQueue" where
  "applyQueueRuntimeSettings settings q =
     q\<lparr>fq_mode := qset_mode settings,
       fq_debounceMs := (case qset_debounceMs settings of Some d \<Rightarrow> max 0 d | None \<Rightarrow> fq_debounceMs q),
       dq_cap := (case qset_cap settings of Some c \<Rightarrow> if 0 < c then \<lfloor>c\<rfloor> else dq_cap q | None \<Rightarrow> dq_cap q),
       dq_dropPolicy := (case qset_dropPolicy settings of Some p \<Rightarrow> p | None \<Rightarrow> dq_dropPolicy q)\<rparr>"

section \<open>State\<close>

text \<open>What a drain is waiting for. A running follow-up remembers the items it was called for:
  one item, the collected batch, or the item whose slot the overflow summary takes.\<close>

datatype drainKind =
    RunItem followupRun
  | RunCollected "followupRun list" bool
  | RunSummary followupRun

datatype drainPc = WaitDebounce int | Running drainKind | DrainDone

record drainProc =
  dp_key :: string
  dp_obj :: nat
  dp_callback :: nat
  dp_forceIndividual :: bool
  dp_pc :: drainPc

text \<open>\<open>Pushed\<close> and \<open>Handled\<close> observe what enters a queue object and what a follow-up that
  returned was called for; \<open>Delivered\<close> is a call of the callback.\<close>

datatype followEvent =
    Pushed nat followupRun
  | Delivered nat nat followupRun
  | Handled nat "followupRun list"

record followupState =
  fs_heap :: "followupQueue list"
  fs_queues :: "(string \<times> nat) list"
  fs_callbacks :: "(string \<times> nat) list"
  fs_recent :: dedupeCache
  fs_drains :: "drainProc list"
  fs_log :: "followEvent list"

definition followupWith :: "dedupeCache \<Rightarrow> followupState" where
  "followupWith recent = \<lparr>fs_heap = [], fs_queues = [], fs_callbacks = [],
     fs_recent = recent, fs_drains = [], fs_log = []\<rparr>"

definition initFollowup :: followupState where
  "initFollowup = followupWith (createDedupeCache (5 * 60 * 1000) 10000)"

definition qAt :: "followupState \<Rightarrow> nat \<Rightarrow> followupQueue" where
  "qAt s o' = fs_heap s ! o'"

definition setQ :: "nat \<Rightarrow> followupQueue \<Rightarrow> followupState \<Rightarrow> followupState" where
  "setQ o' q s = s\<lparr>fs_heap := (fs_heap s)[o' := q]\<rparr>"

definition logF :: "followEvent \<Rightarrow> followupState \<Rightarrow> followupState" where
  "logF e s = s\<lparr>fs_log := fs_log s @ [e]\<rparr>"

definition setDrain :: "nat \<Rightarrow> drainProc \<Rightarrow> followupState \<Rightarrow> followupState" where
  "setDrain d p s = s\<lparr>fs_drains := (fs_drains s)[d := p]\<rparr>"

definition getExistingFollowupQueue :: "string \<Rightarrow> followupState \<Rightarrow> nat option" where
  "getExistingFollowupQueue key s =
     (let cleaned = js_trim key in if cleaned = [] then None else map_of (fs_queues s) cleaned)"

definition createFollowupQueue :: "queueSettings \<Rightarrow> followupQueue" where
  "createFollowupQueue settings = applyQueueRuntimeSettings settings
     \<lparr>dq_items = [],
      dq_cap = (case qset_cap settings of Some c \<Rightarrow> if 0 < c then \<lfloor>c\<rfloor> else DEFAULT_QUEUE_CAP | None \<Rightarrow> DEFAULT_QUEUE_CAP),
      dq_dropPolicy = (case qset_dropPolicy settings of Some p \<Rightarrow> p | None \<Rightarrow> DEFAULT_QUEUE_DROP),
      dq_droppedCount = 0, dq_summaryLines = [],
      fq_draining = False, fq_lastEnqueuedAt = 0, fq_mode = qset_mode settings,
      fq_debounceMs = (case qset_debounceMs settings of Some d \<Rightarrow> max 0 d | None \<Rightarrow> DEFAULT_QUEUE_DEBOUNCE_MS),
      fq_lastRun = None\<rparr>"

definition getFollowupQueue :: "string \<Rightarrow> queueSettings \<Rightarrow> followupState \<Rightarrow> nat \<times> followupState" where
  "getFollowupQueue key settings s =
     (case map_of (fs_queues s) key of
        Some o' \<Rightarrow> (o', setQ o' (applyQueueRuntimeSettings settings (qAt s o')) s)
      | None \<Rightarrow>
          (length (fs_heap s),
           s\<lparr>fs_heap := fs_heap s @ [createFollowupQueue settings],
             fs_queues := AList.update key (length (fs_heap s)) (fs_queues s)\<rparr>))"

definition clearFollowupQueue :: "string \<Rightarrow> followupState \<Rightarrow> nat \<times> followupState" where
  "clearFollowupQueue key s =
     (let cleaned = js_trim key in
      case getExistingFollowupQueue cleaned s of
        None \<Rightarrow> (0, s)
      | Some o' \<Rightarrow>
          (let q = qAt s o' in
           (length (dq_items q) + dq_droppedCount q,
            (setQ o' (q\<lparr>dq_items := [], dq_droppedCount := 0, dq_summaryLines := [],
                        fq_lastRun := None, fq_lastEnqueuedAt := 0\<rparr>) s)
              \<lparr>fs_queues := AList.delete cleaned (fs_queues s)\<rparr>)))"

definition clearFollowupDrainCallback :: "string \<Rightarrow> followupState \<Rightarrow> followupState" where
  "clearFollowupDrainCallback key s = s\<lparr>fs_callbacks := AList.delete key (fs_callbacks s)\<rparr>"

definition getFollowupQueueDepth :: "string \<Rightarrow> followupState \<Rightarrow> nat" where
  "getFollowupQueueDepth key s =
     (case getExistingFollowupQueue key s of None \<Rightarrow> 0 | Some o' \<Rightarrow> length (dq_items (qAt s o')))"

section \<open>Scheduling drains\<close>

definition pending :: "followupQueue \<Rightarrow> bool" where
  "pending q \<longleftrightarrow> dq_items q \<noteq> [] \<or> 0 < dq_droppedCount q"

text \<open>\<open>beginQueueDrain\<close>: the registered object, unless there is none or it is draining.\<close>

definition beginQueueDrain :: "string \<Rightarrow> followupState \<Rightarrow> (nat \<times> followupState) option" where
  "beginQueueDrain key s =
     (case map_of (fs_queues s) key of
        None \<Rightarrow> None
      | Some o' \<Rightarrow>
          if fq_draining (qAt s o') then None
          else Some (o', setQ o' ((qAt s o')\<lparr>fq_draining := True\<rparr>) s))"

text \<open>The drain runs synchronously up to the debounce. With nothing to do the loop and its
  \<open>finally\<close> run at once: the queue is unmarked and deleted.\<close>

definition scheduleFollowupDrain :: "string \<Rightarrow> nat \<Rightarrow> followupState \<Rightarrow> followupState" where
  "scheduleFollowupDrain key cb s =
     (case beginQueueDrain key s of
        None \<Rightarrow> s
      | Some (o', s1) \<Rightarrow>
          (let s2 = s1\<lparr>fs_callbacks := AList.update key cb (fs_callbacks s1)\<rparr>; q = qAt s2 o' in
           if pending q
           then s2\<lparr>fs_drains := fs_drains s2 @
                  [\<lparr>dp_key = key, dp_obj = o', dp_callback = cb, dp_forceIndividual = False,
                    dp_pc = WaitDebounce (max 0 (fq_debounceMs q))\<rparr>]\<rparr>
           else (setQ o' (q\<lparr>fq_draining := False\<rparr>) s2)\<lparr>fs_queues := AList.delete key (fs_queues s2)\<rparr>))"

definition kickFollowupDrainIfIdle :: "string \<Rightarrow> followupState \<Rightarrow> followupState" where
  "kickFollowupDrainIfIdle key s =
     (case map_of (fs_callbacks s) key of None \<Rightarrow> s | Some cb \<Rightarrow> scheduleFollowupDrain key cb s)"

section \<open>Enqueueing\<close>

fun threadText :: "threadId \<Rightarrow> string" where
  "threadText (ThreadStr s) = s"
| "threadText (ThreadNum n) = show_nat n"

definition buildRecentMessageIdKey :: "followupRun \<Rightarrow> string \<Rightarrow> string option" where
  "buildRecentMessageIdKey run queueKey =
     (let messageId = js_trim (js_or_empty (fr_messageId run)) in
      if messageId = [] then None
      else Some (jsonArray
        [''queue'', queueKey, js_or_empty (fr_originatingChannel run), js_or_empty (fr_originatingTo run),
         js_or_empty (fr_originatingAccountId run),
         (case fr_originatingThreadId run of None \<Rightarrow> [] | Some t \<Rightarrow> threadText t), messageId]))"

definition hasSameRouting :: "followupRun \<Rightarrow> followupRun \<Rightarrow> bool" where
  "hasSameRouting run item \<longleftrightarrow>
     fr_originatingChannel item = fr_originatingChannel run \<and> fr_originatingTo item = fr_originatingTo run \<and>
     fr_originatingAccountId item = fr_originatingAccountId run \<and>
     fr_originatingThreadId item = fr_originatingThreadId run"

definition isRunAlreadyQueued :: "bool \<Rightarrow> followupRun \<Rightarrow> followupRun list \<Rightarrow> bool" where
  "isRunAlreadyQueued allowPromptFallback run items =
     (let messageId = js_trim (js_or_empty (fr_messageId run)) in
      if messageId \<noteq> []
      then list_ex (\<lambda>i. fr_messageId i \<noteq> None \<and> js_trim (js_or_empty (fr_messageId i)) = messageId \<and>
             hasSameRouting run i) items
      else if \<not> allowPromptFallback then False
      else list_ex (\<lambda>i. fr_prompt i = fr_prompt run \<and> hasSameRouting run i) items)"

definition summarizeRun :: "followupRun \<Rightarrow> string" where
  "summarizeRun r =
     js_or (js_trim (js_or_empty (fr_summaryLine r))) (js_trim (fr_prompt r))"

definition enqueueFollowupRun ::
    "int \<Rightarrow> string \<Rightarrow> followupRun \<Rightarrow> queueSettings \<Rightarrow> dedupeMode \<Rightarrow> followupState \<Rightarrow> bool \<times> followupState" where
  "enqueueFollowupRun now key run settings mode s =
     (case getFollowupQueue key settings s of
        (o', s1) \<Rightarrow>
          (let recentKey = (if mode \<noteq> NoDedupe then buildRecentMessageIdKey run key else None);
               (seen, recent1) = (case recentKey of None \<Rightarrow> (False, fs_recent s1)
                                  | Some k \<Rightarrow> dedupePeek (Some k) now (fs_recent s1));
               s2 = s1\<lparr>fs_recent := recent1\<rparr>
           in if seen then (False, s2)
              else (let dedupe = (if mode = NoDedupe then None
                                  else Some (isRunAlreadyQueued (mode = ByPrompt)));
                        q = qAt s2 o'
                    in if shouldSkipQueueItem run (dq_items q) dedupe then (False, s2)
                       else (let q1 = q\<lparr>fq_lastEnqueuedAt := now, fq_lastRun := Some (fr_run run)\<rparr> in
                             case applyQueueDropPolicy summarizeRun None q1 of
                               (False, q2) \<Rightarrow> (False, setQ o' q2 s2)
                             | (True, q2) \<Rightarrow>
                                 (let q3 = q2\<lparr>dq_items := dq_items q2 @ [run]\<rparr>;
                                      s3 = logF (Pushed o' run) (setQ o' q3 s2);
                                      s4 = (case recentKey of None \<Rightarrow> s3
                                            | Some k \<Rightarrow> s3\<lparr>fs_recent := snd (dedupeCheck (Some k) now (fs_recent s3))\<rparr>)
                                  in (True, if \<not> fq_draining q3 then kickFollowupDrainIfIdle key s4 else s4))))))"

definition resetRecentQueuedMessageIdDedupe :: "followupState \<Rightarrow> followupState" where
  "resetRecentQueuedMessageIdDedupe s = s\<lparr>fs_recent := dedupeClear (fs_recent s)\<rparr>"


section \<open>Draining\<close>

text \<open>\<open>normalizeChannelId\<close> looks in the plugin registry: a parameter.\<close>

definition isRoutableChannel :: "(string \<Rightarrow> string option) \<Rightarrow> string option \<Rightarrow> bool" where
  "isRoutableChannel normalizeChannelId channel =
     (case channel of
        None \<Rightarrow> False
      | Some c \<Rightarrow> if c = [] \<or> c = ''webchat'' then False else normalizeChannelId c \<noteq> None)"

definition hasThread :: "followupRun \<Rightarrow> bool" where
  "hasThread r \<longleftrightarrow> (case fr_originatingThreadId r of None \<Rightarrow> False | Some t \<Rightarrow> t \<noteq> ThreadStr [])"

definition resolveCrossChannelKey :: "(string \<Rightarrow> string option) \<Rightarrow> followupRun \<Rightarrow> bool \<times> string option" where
  "resolveCrossChannelKey reg item =
     (let channel = js_or_empty (fr_originatingChannel item); to = js_or_empty (fr_originatingTo item);
          accountId = js_or_empty (fr_originatingAccountId item)
      in if channel = [] \<and> to = [] \<and> accountId = [] \<and> \<not> hasThread item then (False, None)
         else if \<not> isRoutableChannel reg (fr_originatingChannel item) \<or> to = [] then (True, None)
         else (False, Some (js_join ''|'' [channel, to, accountId,
                 if hasThread item then (case fr_originatingThreadId item of None \<Rightarrow> [] | Some t \<Rightarrow> threadText t)
                 else []])))"

definition firstSome :: "('a \<Rightarrow> string option) \<Rightarrow> 'a list \<Rightarrow> string option" where
  "firstSome f items =
     (case find (\<lambda>i. js_or_empty (f i) \<noteq> []) items of None \<Rightarrow> None | Some i \<Rightarrow> f i)"

definition collectRenderItem :: "followupRun \<Rightarrow> nat \<Rightarrow> string" where
  "collectRenderItem item idx =
     js_trim (''---'' @ [CHR 0x0A] @ ''Queued #'' @ show_nat (idx + 1) @ [CHR 0x0A] @ fr_prompt item)"

definition plainRun :: "string \<Rightarrow> runContext \<Rightarrow> int \<Rightarrow> followupRun" where
  "plainRun prompt run now =
     \<lparr>fr_prompt = prompt, fr_messageId = None, fr_summaryLine = None, fr_enqueuedAt = now,
      fr_originatingChannel = None, fr_originatingTo = None, fr_originatingAccountId = None,
      fr_originatingThreadId = None, fr_run = run\<rparr>"

text \<open>The argument of the call for a collected batch, with \<open>resolveOriginRoutingMetadata\<close>.\<close>

definition collectedRun :: "followupRun list \<Rightarrow> string option \<Rightarrow> runContext \<Rightarrow> int \<Rightarrow> followupRun" where
  "collectedRun items summary run now =
     (plainRun (buildCollectPrompt ''[Queued messages while agent was busy]'' items summary collectRenderItem)
        run now)
       \<lparr>fr_originatingChannel := firstSome fr_originatingChannel items,
        fr_originatingTo := firstSome fr_originatingTo items,
        fr_originatingAccountId := firstSome fr_originatingAccountId items,
        fr_originatingThreadId := (case find hasThread items of None \<Rightarrow> None | Some i \<Rightarrow> fr_originatingThreadId i)\<rparr>"

definition summaryRun :: "string \<Rightarrow> followupRun \<Rightarrow> runContext \<Rightarrow> int \<Rightarrow> followupRun" where
  "summaryRun prompt item run now =
     (plainRun prompt run now)
       \<lparr>fr_originatingChannel := fr_originatingChannel item, fr_originatingTo := fr_originatingTo item,
        fr_originatingAccountId := fr_originatingAccountId item,
        fr_originatingThreadId := fr_originatingThreadId item\<rparr>"

text \<open>The \<open>finally\<close> of a drain.\<close>

definition finishDrain :: "nat \<Rightarrow> followupState \<Rightarrow> followupState" where
  "finishDrain d s =
     (let p = fs_drains s ! d; q = qAt s (dp_obj p);
          s1 = setDrain d (p\<lparr>dp_pc := DrainDone\<rparr>) (setQ (dp_obj p) (q\<lparr>fq_draining := False\<rparr>) s)
      in if \<not> pending q then s1\<lparr>fs_queues := AList.delete (dp_key p) (fs_queues s1)\<rparr>
         else scheduleFollowupDrain (dp_key p) (dp_callback p) s1)"

text \<open>The condition of the loop.\<close>

definition atLoop :: "nat \<Rightarrow> followupState \<Rightarrow> followupState" where
  "atLoop d s =
     (let p = fs_drains s ! d; q = qAt s (dp_obj p) in
      if pending q then setDrain d (p\<lparr>dp_pc := WaitDebounce (max 0 (fq_debounceMs q))\<rparr>) s
      else finishDrain d s)"

definition callFollowup :: "nat \<Rightarrow> drainProc \<Rightarrow> drainKind \<Rightarrow> followupRun \<Rightarrow> followupState \<Rightarrow> followupState" where
  "callFollowup d p kind arg s =
     logF (Delivered (dp_obj p) (dp_callback p) arg) (setDrain d (p\<lparr>dp_pc := Running kind\<rparr>) s)"

text \<open>The body of the loop after the debounce, up to the call of the callback or a \<open>break\<close>.\<close>

definition drainProceed :: "(string \<Rightarrow> string option) \<Rightarrow> int \<Rightarrow> nat \<Rightarrow> followupState \<Rightarrow> followupState" where
  "drainProceed reg now d s =
     (let p = fs_drains s ! d; q = qAt s (dp_obj p); items = dq_items q;
          summary = previewQueueSummaryPrompt ''message'' None q in
      if fq_mode q = ModeCollect then
        (let cross = hasCrossChannelItems items (resolveCrossChannelKey reg) in
         if dp_forceIndividual p \<or> cross then
           (let p1 = (if cross then p\<lparr>dp_forceIndividual := True\<rparr> else p) in
            case items of
              [] \<Rightarrow> finishDrain d (setDrain d p1 s)
            | i # rest \<Rightarrow> callFollowup d p1 (RunItem i) i s)
         else
           (case (if items = [] then fq_lastRun q else Some (fr_run (last items))) of
              None \<Rightarrow> finishDrain d s
            | Some run \<Rightarrow>
                callFollowup d p (RunCollected items (summary \<noteq> None)) (collectedRun items summary run now) s))
      else
        (case summary of
           Some prompt \<Rightarrow>
             (case fq_lastRun q of
                None \<Rightarrow> finishDrain d s
              | Some run \<Rightarrow>
                  (case items of
                     [] \<Rightarrow> finishDrain d s
                   | i # rest \<Rightarrow> callFollowup d p (RunSummary i) (summaryRun prompt i run now) s))
         | None \<Rightarrow>
             (case items of
                [] \<Rightarrow> finishDrain d s
              | i # rest \<Rightarrow> callFollowup d p (RunItem i) i s)))"

text \<open>The timer of \<open>waitForQueueDebounce\<close> fires.\<close>

definition drainTick :: "(string \<Rightarrow> string option) \<Rightarrow> int \<Rightarrow> nat \<Rightarrow> followupState \<Rightarrow> followupState" where
  "drainTick reg now d s =
     (if d < length (fs_drains s) then
        (case dp_pc (fs_drains s ! d) of
           WaitDebounce ms \<Rightarrow>
             if ms \<le> 0 \<or> ms \<le> now - fq_lastEnqueuedAt (qAt s (dp_obj (fs_drains s ! d)))
             then drainProceed reg now d s else s
         | _ \<Rightarrow> s)
      else s)"

text \<open>The callback's promise settles.\<close>

definition runDone :: "int \<Rightarrow> nat \<Rightarrow> bool \<Rightarrow> followupState \<Rightarrow> followupState" where
  "runDone now d ok s =
     (if d < length (fs_drains s) then
        (let p = fs_drains s ! d; o' = dp_obj p; q = qAt s o' in
         case dp_pc p of
           Running kind \<Rightarrow>
             if \<not> ok then finishDrain d (setQ o' (q\<lparr>fq_lastEnqueuedAt := now\<rparr>) s)
             else (case kind of
                 RunItem i \<Rightarrow>
                   atLoop d (logF (Handled o' [i]) (setQ o' (q\<lparr>dq_items := tl (dq_items q)\<rparr>) s))
               | RunCollected is b \<Rightarrow>
                   (let q1 = q\<lparr>dq_items := drop (length is) (dq_items q)\<rparr> in
                    atLoop d (logF (Handled o' is) (setQ o' (if b then clearQueueSummaryState q1 else q1) s)))
               | RunSummary i \<Rightarrow>
                   atLoop d (logF (Handled o' [])
                     (setQ o' (clearQueueSummaryState (q\<lparr>dq_items := tl (dq_items q)\<rparr>)) s)))
         | _ \<Rightarrow> s)
      else s)"

section \<open>Clearing a session's queues\<close>

definition resolveSessionLane :: "string \<Rightarrow> string" where
  "resolveSessionLane key =
     (let cleaned = js_or (js_trim key) laneMain in
      if prefix ''session:'' cleaned then cleaned else ''session:'' @ cleaned)"

definition resolveGlobalLane :: "string option \<Rightarrow> string" where
  "resolveGlobalLane lane =
     (let cleaned = map_option js_trim lane in
      if cleaned = Some ''cron'' then ''nested'' else js_or (js_or_empty cleaned) laneMain)"

definition resolveEmbeddedSessionLane :: "string \<Rightarrow> string" where
  "resolveEmbeddedSessionLane key = resolveSessionLane key"

record clearResult =
  cr_followupCleared :: nat
  cr_laneCleared :: nat
  cr_keys :: "string list"

fun clearKeys ::
    "string option list \<Rightarrow> clearResult \<Rightarrow> followupState \<Rightarrow> queueState \<Rightarrow> clearResult \<times> followupState \<times> queueState" where
  "clearKeys [] r s l = (r, s, l)"
| "clearKeys (k # ks) r s l =
     (let cleaned = js_trim (js_or_empty k) in
      if cleaned = [] \<or> cleaned \<in> set (cr_keys r) then clearKeys ks r s l
      else (case clearFollowupQueue cleaned s of (n, s1) \<Rightarrow>
             (case clearCommandLane (resolveEmbeddedSessionLane cleaned) l of (m, l1) \<Rightarrow>
               clearKeys ks
                 \<lparr>cr_followupCleared = cr_followupCleared r + n, cr_laneCleared = cr_laneCleared r + m,
                  cr_keys = cr_keys r @ [cleaned]\<rparr>
                 (clearFollowupDrainCallback cleaned s1) l1)))"

definition clearSessionQueues ::
    "string option list \<Rightarrow> followupState \<Rightarrow> queueState \<Rightarrow> clearResult \<times> followupState \<times> queueState" where
  "clearSessionQueues keys s l =
     clearKeys keys \<lparr>cr_followupCleared = 0, cr_laneCleared = 0, cr_keys = []\<rparr> s l"

section \<open>Events\<close>

datatype followInput =
    FEnqueue string followupRun queueSettings dedupeMode
  | FSchedule string nat
  | FTick nat
  | FRunDone nat bool
  | FClear "string option list"
  | FResetDedupe

definition followStep :: "(string \<Rightarrow> string option) \<Rightarrow> int \<times> followInput \<Rightarrow> followupState \<Rightarrow> followupState" where
  "followStep reg ev s = (case ev of
     (now, FEnqueue key run settings mode) \<Rightarrow> snd (enqueueFollowupRun now key run settings mode s)
   | (now, FSchedule key cb) \<Rightarrow> scheduleFollowupDrain key cb s
   | (now, FTick d) \<Rightarrow> drainTick reg now d s
   | (now, FRunDone d ok) \<Rightarrow> runDone now d ok s
   | (now, FClear keys) \<Rightarrow> fst (snd (clearSessionQueues keys s initQueue))
   | (now, FResetDedupe) \<Rightarrow> resetRecentQueuedMessageIdDedupe s)"

definition followRun :: "(string \<Rightarrow> string option) \<Rightarrow> (int \<times> followInput) list \<Rightarrow> followupState \<Rightarrow> followupState" where
  "followRun reg evs s = fold (followStep reg) evs s"


section \<open>Lemmas: what is pushed is handled or still queued\<close>

fun pushedBy :: "nat \<Rightarrow> followEvent \<Rightarrow> followupRun list" where
  "pushedBy o' (Pushed i r) = (if i = o' then [r] else [])"
| "pushedBy o' _ = []"

fun handledBy :: "nat \<Rightarrow> followEvent \<Rightarrow> followupRun list" where
  "handledBy o' (Handled i rs) = (if i = o' then rs else [])"
| "handledBy o' _ = []"

definition pushed :: "nat \<Rightarrow> followupState \<Rightarrow> followupRun list" where
  "pushed o' s = concat (map (pushedBy o') (fs_log s))"

definition handled :: "nat \<Rightarrow> followupState \<Rightarrow> followupRun list" where
  "handled o' s = concat (map (handledBy o') (fs_log s))"

text \<open>Nothing was dropped from an object.\<close>

definition objOk :: "followupState \<Rightarrow> nat \<Rightarrow> followupQueue \<Rightarrow> bool" where
  "objOk s o' q \<longleftrightarrow> dq_droppedCount q = 0 \<and> pushed o' s = handled o' s @ dq_items q"

fun pcOk :: "drainPc \<Rightarrow> followupRun list \<Rightarrow> bool" where
  "pcOk (Running (RunItem i)) items = (\<exists>r. items = i # r)"
| "pcOk (Running (RunCollected is b)) items = (\<exists>r. items = is @ r)"
| "pcOk (Running (RunSummary i)) items = False"
| "pcOk _ items = True"

definition active :: "followupState \<Rightarrow> nat \<Rightarrow> bool" where
  "active s d \<longleftrightarrow> d < length (fs_drains s) \<and> dp_pc (fs_drains s ! d) \<noteq> DrainDone"

definition objOf :: "followupState \<Rightarrow> nat \<Rightarrow> nat" where
  "objOf s d = dp_obj (fs_drains s ! d)"

text \<open>\<open>X\<close> exempts a drain whose step is half done.\<close>

definition queueInv :: "nat set \<Rightarrow> followupState \<Rightarrow> bool" where
  "queueInv X s \<longleftrightarrow>
     (\<forall>k o'. map_of (fs_queues s) k = Some o' \<longrightarrow> o' < length (fs_heap s)) \<and>
     (\<forall>o'<length (fs_heap s). objOk s o' (qAt s o')) \<and>
     (\<forall>o'. \<not> o' < length (fs_heap s) \<longrightarrow> pushed o' s = [] \<and> handled o' s = []) \<and>
     (\<forall>d. active s d \<longrightarrow> objOf s d < length (fs_heap s)) \<and>
     (\<forall>d. active s d \<longrightarrow> d \<notin> X \<longrightarrow> pcOk (dp_pc (fs_drains s ! d)) (dq_items (qAt s (objOf s d)))) \<and>
     (\<forall>d d'. active s d \<longrightarrow> active s d' \<longrightarrow> objOf s d = objOf s d' \<longrightarrow> d = d') \<and>
     (\<forall>o'<length (fs_heap s). fq_draining (qAt s o') \<longleftrightarrow> (\<exists>d. active s d \<and> objOf s d = o'))"

lemma queueInvD:
  assumes "queueInv X s"
  shows "map_of (fs_queues s) k = Some o' \<Longrightarrow> o' < length (fs_heap s)"
    and "o' < length (fs_heap s) \<Longrightarrow> objOk s o' (qAt s o')"
    and "\<not> o' < length (fs_heap s) \<Longrightarrow> pushed o' s = [] \<and> handled o' s = []"
    and "active s d \<Longrightarrow> objOf s d < length (fs_heap s)"
    and "active s d \<Longrightarrow> d \<notin> X \<Longrightarrow> pcOk (dp_pc (fs_drains s ! d)) (dq_items (qAt s (objOf s d)))"
    and "active s d \<Longrightarrow> active s d' \<Longrightarrow> objOf s d = objOf s d' \<Longrightarrow> d = d'"
    and "o' < length (fs_heap s) \<Longrightarrow> fq_draining (qAt s o') \<longleftrightarrow> (\<exists>d. active s d \<and> objOf s d = o')"
  using assms unfolding queueInv_def by blast+

lemma queueInvI:
  assumes "\<And>k o'. map_of (fs_queues s) k = Some o' \<Longrightarrow> o' < length (fs_heap s)"
    and "\<And>o'. o' < length (fs_heap s) \<Longrightarrow> objOk s o' (qAt s o')"
    and "\<And>o'. \<not> o' < length (fs_heap s) \<Longrightarrow> pushed o' s = [] \<and> handled o' s = []"
    and "\<And>d. active s d \<Longrightarrow> objOf s d < length (fs_heap s)"
    and "\<And>d. active s d \<Longrightarrow> d \<notin> X \<Longrightarrow> pcOk (dp_pc (fs_drains s ! d)) (dq_items (qAt s (objOf s d)))"
    and "\<And>d d'. active s d \<Longrightarrow> active s d' \<Longrightarrow> objOf s d = objOf s d' \<Longrightarrow> d = d'"
    and "\<And>o'. o' < length (fs_heap s) \<Longrightarrow> fq_draining (qAt s o') \<longleftrightarrow> (\<exists>d. active s d \<and> objOf s d = o')"
  shows "queueInv X s"
  using assms unfolding queueInv_def by blast

lemma active_simps [simp]:
  "active (setQ o' q s) d = active s d" "objOf (setQ o' q s) d = objOf s d"
  "active (logF e s) d = active s d" "objOf (logF e s) d = objOf s d"
  "active (s\<lparr>fs_queues := m\<rparr>) d = active s d" "objOf (s\<lparr>fs_queues := m\<rparr>) d = objOf s d"
  "active (s\<lparr>fs_callbacks := c\<rparr>) d = active s d" "objOf (s\<lparr>fs_callbacks := c\<rparr>) d = objOf s d"
  "active (s\<lparr>fs_recent := r\<rparr>) d = active s d" "objOf (s\<lparr>fs_recent := r\<rparr>) d = objOf s d"
  by (simp_all add: active_def objOf_def setQ_def logF_def)

lemma qAt_simps [simp]:
  "o' < length (fs_heap s) \<Longrightarrow> qAt (setQ i q s) o' = (if o' = i then q else qAt s o')"
  "qAt (logF e s) o' = qAt s o'" "qAt (s\<lparr>fs_queues := m\<rparr>) o' = qAt s o'"
  "qAt (s\<lparr>fs_callbacks := c\<rparr>) o' = qAt s o'" "qAt (s\<lparr>fs_recent := r\<rparr>) o' = qAt s o'"
  "qAt (setDrain d p s) o' = qAt s o'" "qAt (s\<lparr>fs_drains := ds\<rparr>) o' = qAt s o'"
  by (simp_all add: qAt_def setQ_def logF_def setDrain_def)

lemma state_simps [simp]:
  "length (fs_heap (setQ i q s)) = length (fs_heap s)" "fs_heap (logF e s) = fs_heap s"
  "fs_heap (setDrain d p s) = fs_heap s"
  "fs_drains (setQ i q s) = fs_drains s" "fs_drains (logF e s) = fs_drains s"
  "fs_drains (setDrain d p s) = (fs_drains s)[d := p]"
  "fs_queues (setQ i q s) = fs_queues s" "fs_queues (logF e s) = fs_queues s" "fs_queues (setDrain d p s) = fs_queues s"
  "fs_callbacks (setQ i q s) = fs_callbacks s" "fs_callbacks (logF e s) = fs_callbacks s"
  "fs_callbacks (setDrain d p s) = fs_callbacks s"
  "fs_recent (setQ i q s) = fs_recent s" "fs_recent (logF e s) = fs_recent s" "fs_recent (setDrain d p s) = fs_recent s"
  "fs_log (setQ i q s) = fs_log s" "fs_log (setDrain d p s) = fs_log s" "fs_log (logF e s) = fs_log s @ [e]"
  by (simp_all add: setQ_def logF_def setDrain_def)

lemma log_simps [simp]:
  "pushed o' (setQ i q s) = pushed o' s" "pushed o' (setDrain d p s) = pushed o' s"
  "pushed o' (s\<lparr>fs_queues := m\<rparr>) = pushed o' s" "pushed o' (s\<lparr>fs_callbacks := c\<rparr>) = pushed o' s"
  "pushed o' (s\<lparr>fs_recent := r\<rparr>) = pushed o' s" "pushed o' (s\<lparr>fs_drains := ds\<rparr>) = pushed o' s"
  "pushed o' (s\<lparr>fs_heap := h\<rparr>) = pushed o' s"
  "handled o' (setQ i q s) = handled o' s" "handled o' (setDrain d p s) = handled o' s"
  "handled o' (s\<lparr>fs_queues := m\<rparr>) = handled o' s" "handled o' (s\<lparr>fs_callbacks := c\<rparr>) = handled o' s"
  "handled o' (s\<lparr>fs_recent := r\<rparr>) = handled o' s" "handled o' (s\<lparr>fs_drains := ds\<rparr>) = handled o' s"
  "handled o' (s\<lparr>fs_heap := h\<rparr>) = handled o' s"
  "pushed o' (logF e s) = pushed o' s @ pushedBy o' e" "handled o' (logF e s) = handled o' s @ handledBy o' e"
  by (simp_all add: pushed_def handled_def)

text \<open>A change of one object that is not about its items, and changes of the other fields.\<close>

lemma inv_setQ:
  assumes i: "queueInv X s" and o: "o' < length (fs_heap s)"
    and q: "dq_droppedCount q = 0" "dq_items q = dq_items (qAt s o')"
      "fq_draining q = fq_draining (qAt s o')"
  shows "queueInv X (setQ o' q s)"
proof (rule queueInvI, goal_cases)
  case 1
  then show ?case using queueInvD(1) [OF i] by simp
next
  case (2 i')
  then show ?case using queueInvD(2) [OF i, of i'] q by (auto simp: objOk_def)
next
  case 3
  then show ?case using queueInvD(3) [OF i] by simp
next
  case 4
  then show ?case using queueInvD(4) [OF i] by simp
next
  case (5 d)
  then show ?case using queueInvD(5) [OF i, of d] queueInvD(4) [OF i, of d] q(2) by auto
next
  case 6
  then show ?case using queueInvD(6) [OF i] by simp
next
  case 7
  then show ?case using queueInvD(7) [OF i] q(3) by auto
qed

lemma inv_fields:
  assumes i: "queueInv X s"
  shows "queueInv X (s\<lparr>fs_callbacks := c\<rparr>)" "queueInv X (s\<lparr>fs_recent := r\<rparr>)"
    "queueInv X (s\<lparr>fs_queues := AList.delete k (fs_queues s)\<rparr>)"
  using i unfolding queueInv_def objOk_def by (simp_all add: delete_conv')

lemma objOk_zero: "objOk s o' q \<Longrightarrow> pending q \<longleftrightarrow> dq_items q \<noteq> []"
  by (simp add: objOk_def pending_def)


lemma inv_weaken: "queueInv {} s \<Longrightarrow> queueInv X s"
  unfolding queueInv_def by blast

lemma active_setDrain:
  assumes "active s d" "dp_obj p = objOf s d" "dp_pc p \<noteq> DrainDone"
  shows "active (setDrain d p s) d' = active s d'" "objOf (setDrain d p s) d' = objOf s d'"
  using assms by (auto simp: active_def objOf_def nth_list_update)

lemma inv_setDrain:
  assumes i: "queueInv {d} s" and a: "active s d"
    and p: "dp_obj p = objOf s d" "dp_pc p \<noteq> DrainDone" "X = {} \<Longrightarrow> pcOk (dp_pc p) (dq_items (qAt s (objOf s d)))"
    and X: "X \<in> {{}, {d}}"
  shows "queueInv X (setDrain d p s)"
proof (rule queueInvI, goal_cases)
  case (2 o')
  then show ?case using queueInvD(2) [OF i, of o'] by (simp add: objOk_def)
next
  case (5 d')
  note act = active_setDrain [OF a p(1,2)]
  show ?case
  proof (cases "d' = d")
    case True
    with 5 X p(3) a show ?thesis by (auto simp: act active_def)
  next
    case False
    with 5 queueInvD(5) [OF i, of d'] show ?thesis by (simp add: act)
  qed
qed (use queueInvD(1,3,4,6,7) [OF i] active_setDrain [OF a p(1,2)] in \<open>auto\<close>)

lemma setQ_setQ [simp]: "setQ i q (setQ i q' s) = setQ i q s"
  by (simp add: setQ_def)

lemma inv_schedule:
  assumes i: "queueInv {} s"
  shows "queueInv {} (scheduleFollowupDrain key cb s)"
proof (cases "beginQueueDrain key s")
  case None
  then show ?thesis using i by (simp add: scheduleFollowupDrain_def)
next
  case (Some x)
  then obtain o' where m: "map_of (fs_queues s) key = Some o'" and nd: "\<not> fq_draining (qAt s o')"
    and x: "x = (o', setQ o' ((qAt s o')\<lparr>fq_draining := True\<rparr>) s)"
    by (auto simp: beginQueueDrain_def split: option.splits if_splits)
  note o = queueInvD(1) [OF i m]
  note ok = queueInvD(2) [OF i o]
  have free: "\<not> (active s d \<and> objOf s d = o')" for d using queueInvD(7) [OF i o] nd by blast
  let ?t = "(setQ o' ((qAt s o')\<lparr>fq_draining := True\<rparr>) s)\<lparr>fs_callbacks := AList.update key cb (fs_callbacks s)\<rparr>"
  show ?thesis
  proof (cases "pending (qAt s o')")
    case True
    let ?p = "\<lparr>dp_key = key, dp_obj = o', dp_callback = cb, dp_forceIndividual = False,
        dp_pc = WaitDebounce (max 0 (fq_debounceMs (qAt s o')))\<rparr>"
    define u where "u = ?t\<lparr>fs_drains := fs_drains s @ [?p]\<rparr>"
    have e: "scheduleFollowupDrain key cb s = u"
      using Some x True o by (simp add: scheduleFollowupDrain_def Let_def pending_def u_def)
    have act: "active u d \<longleftrightarrow> active s d \<or> d = length (fs_drains s)" for d
      by (auto simp: active_def nth_append u_def)
    have obj: "active s d \<Longrightarrow> objOf u d = objOf s d" "objOf u (length (fs_drains s)) = o'" for d
      by (simp_all add: active_def objOf_def nth_append u_def)
    have new: "\<not> active s (length (fs_drains s))" by (simp add: active_def)
    have pc: "active s d \<Longrightarrow> fs_drains u ! d = fs_drains s ! d" "fs_drains u ! length (fs_drains s) = ?p" for d
      by (simp_all add: active_def nth_append u_def)
    have heap: "length (fs_heap u) = length (fs_heap s)" by (simp add: u_def)
    have q: "i' < length (fs_heap s) \<Longrightarrow> qAt u i' = (if i' = o' then (qAt s o')\<lparr>fq_draining := True\<rparr> else qAt s i')" for i'
      by (simp add: u_def)
    have logs: "pushed i' u = pushed i' s" "handled i' u = handled i' s" "fs_queues u = fs_queues s" for i'
      by (simp_all add: u_def)
    show ?thesis
      unfolding e
    proof (rule queueInvI, goal_cases)
      case 1
      then show ?case using queueInvD(1) [OF i] by (simp add: logs heap)
    next
      case (2 i')
      then show ?case using queueInvD(2) [OF i, of i'] ok by (auto simp: objOk_def logs heap q)
    next
      case 3
      then show ?case using queueInvD(3) [OF i] by (simp add: logs heap)
    next
      case (4 d)
      then show ?case using queueInvD(4) [OF i, of d] o by (auto simp: act obj heap)
    next
      case (5 d)
      then consider "active s d" | "d = length (fs_drains s)" using act by blast
      then show ?case
      proof cases
        case 1
        with queueInvD(4,5) [OF i 1] show ?thesis by (auto simp: obj pc q)
      next
        case 2
        then show ?thesis by (simp add: pc)
      qed
    next
      case (6 d d')
      then show ?case using queueInvD(6) [OF i, of d d'] free [of d] free [of d'] by (auto simp: act obj)
    next
      case (7 i')
      show ?case
      proof (cases "i' = o'")
        case True
        then show ?thesis using o obj(2) act by (auto simp: q)
      next
        case False
        then have "(\<exists>d. active u d \<and> objOf u d = i') \<longleftrightarrow> (\<exists>d. active s d \<and> objOf s d = i')"
          using act obj by metis
        with False 7 queueInvD(7) [OF i, of i'] show ?thesis by (simp add: q heap)
      qed
    qed
  next
    case False
    let ?q = "(qAt s o')\<lparr>fq_draining := False\<rparr>"
    have e: "scheduleFollowupDrain key cb s = (setQ o' ?q s)\<lparr>fs_callbacks := AList.update key cb (fs_callbacks s),
        fs_queues := AList.delete key (fs_queues s)\<rparr>"
      using Some x False o by (simp add: scheduleFollowupDrain_def Let_def pending_def) (simp add: setQ_def)
    have "queueInv {} (setQ o' ?q s)"
      by (rule inv_setQ [OF i o]) (use ok nd in \<open>auto simp: objOk_def\<close>)
    from inv_fields(3) [OF inv_fields(1) [OF this], of key] show ?thesis unfolding e by simp
  qed
qed


lemma inv_finish:
  assumes i: "queueInv {d} s" and a: "active s d"
  shows "queueInv {} (finishDrain d s)"
proof -
  let ?p = "fs_drains s ! d" and ?o = "objOf s d"
  note o = queueInvD(4) [OF i a]
  define t where "t = setDrain d (?p\<lparr>dp_pc := DrainDone\<rparr>) (setQ ?o ((qAt s ?o)\<lparr>fq_draining := False\<rparr>) s)"
  have act: "active t d' \<longleftrightarrow> active s d' \<and> d' \<noteq> d" for d'
    using a by (auto simp: t_def active_def nth_list_update)
  have obj: "d' \<noteq> d \<Longrightarrow> objOf t d' = objOf s d'" "d' \<noteq> d \<Longrightarrow> fs_drains t ! d' = fs_drains s ! d'" for d'
    by (auto simp: t_def objOf_def)
  have q: "i' < length (fs_heap s) \<Longrightarrow> qAt t i' = (if i' = ?o then (qAt s ?o)\<lparr>fq_draining := False\<rparr> else qAt s i')" for i'
    by (simp add: t_def)
  have logs: "pushed i' t = pushed i' s" "handled i' t = handled i' s" "fs_queues t = fs_queues s"
    "length (fs_heap t) = length (fs_heap s)" for i'
    by (simp_all add: t_def)
  have t: "queueInv {} t"
  proof (rule queueInvI, goal_cases)
    case 1
    then show ?case using queueInvD(1) [OF i] by (simp add: logs)
  next
    case (2 i')
    then show ?case using queueInvD(2) [OF i, of i'] by (auto simp: objOk_def logs q)
  next
    case 3
    then show ?case using queueInvD(3) [OF i] by (simp add: logs)
  next
    case (4 d')
    then show ?case using queueInvD(4) [OF i, of d'] by (auto simp: act obj logs)
  next
    case (5 d')
    then show ?case using queueInvD(4,5) [OF i, of d'] by (auto simp: act obj q)
  next
    case (6 d' d'')
    then show ?case using queueInvD(6) [OF i, of d' d''] by (auto simp: act obj)
  next
    case (7 i')
    have "(\<exists>d'. active t d' \<and> objOf t d' = i') \<longleftrightarrow> (\<exists>d'. active s d' \<and> objOf s d' = i') \<and> i' \<noteq> ?o"
      using act obj(1) queueInvD(6) [OF i] a by metis
    with 7 queueInvD(7) [OF i, of i'] show ?case by (auto simp: q logs)
  qed
  have e: "finishDrain d s = (if \<not> pending (qAt s ?o) then t\<lparr>fs_queues := AList.delete (dp_key ?p) (fs_queues t)\<rparr>
      else scheduleFollowupDrain (dp_key ?p) (dp_callback ?p) t)"
    by (simp add: finishDrain_def t_def objOf_def Let_def)
  show ?thesis unfolding e using inv_fields(3) [OF t] inv_schedule [OF t] by simp
qed

lemma inv_atLoop:
  assumes i: "queueInv {d} s" and a: "active s d"
  shows "queueInv {} (atLoop d s)"
  using inv_finish [OF i a] inv_setDrain [OF i a, where X = "{}"]
  by (auto simp: atLoop_def Let_def objOf_def)

lemma inv_log:
  "queueInv X s \<Longrightarrow> queueInv X (logF (Delivered o' c r) s)"
  unfolding queueInv_def objOk_def by simp

lemma inv_call:
  assumes i: "queueInv {d} s" and a: "active s d" and p: "dp_obj p = objOf s d"
    and k: "pcOk (Running kind) (dq_items (qAt s (objOf s d)))"
  shows "queueInv {} (callFollowup d p kind arg s)"
  unfolding callFollowup_def by (intro inv_log inv_setDrain [OF i a]) (use p k in auto)

lemma inv_proceed:
  assumes i0: "queueInv {} s" and a: "active s d"
  shows "queueInv {} (drainProceed reg now d s)"
proof -
  let ?p = "fs_drains s ! d" and ?q = "qAt s (objOf s d)"
  note i = inv_weaken [OF i0, of "{d}"]
  have none: "previewQueueSummaryPrompt n t ?q = None" for n t
    using queueInvD(2) [OF i queueInvD(4) [OF i a]]
    by (simp add: objOk_def previewQueueSummaryPrompt_def buildQueueSummaryPrompt_def)
  note fin = inv_finish [OF i a]
  have pc: "dp_pc ?p \<noteq> DrainDone" using a by (simp add: active_def)
  have forced: "queueInv {} (finishDrain d (setDrain d (?p\<lparr>dp_forceIndividual := True\<rparr>) s))"
    by (rule inv_finish [OF inv_setDrain [OF i a]])
      (use pc a in \<open>auto simp: objOf_def active_setDrain [unfolded objOf_def]\<close>)
  have call: "queueInv {} (callFollowup d p kind arg s)"
    if "dp_obj p = objOf s d" "pcOk (Running kind) (dq_items ?q)" for p kind arg
    by (rule inv_call [OF i a that])
  have same: "setDrain d ?p s = s" by (simp add: setDrain_def)
  show ?thesis
    unfolding drainProceed_def Let_def objOf_def [symmetric] none
    using fin forced call by (auto simp: same objOf_def split: list.split option.split)
qed

lemma inv_tick: "queueInv {} s \<Longrightarrow> queueInv {} (drainTick reg now d s)"
  by (auto simp: drainTick_def active_def intro!: inv_proceed split: drainPc.split)


lemma inv_take:
  assumes i: "queueInv {} s" and a: "active s d" and l: "dq_items (qAt s (objOf s d)) = is @ r"
    and q: "dq_items q = r" "dq_droppedCount q = 0" "dq_cap q = dq_cap (qAt s (objOf s d))"
      "fq_draining q = fq_draining (qAt s (objOf s d))"
  shows "queueInv {d} (logF (Handled (objOf s d) is) (setQ (objOf s d) q s))"
proof -
  let ?o = "objOf s d"
  note o = queueInvD(4) [OF i a]
  have "objOk s ?o (qAt s ?o)" by (rule queueInvD(2) [OF i o])
  show ?thesis
  proof (rule queueInvI, goal_cases)
    case 1
    then show ?case using queueInvD(1) [OF i] by simp
  next
    case (2 i')
    then show ?case using queueInvD(2) [OF i, of i'] q l by (auto simp: objOk_def)
  next
    case 3
    then show ?case using queueInvD(3) [OF i] o by auto
  next
    case 4
    then show ?case using queueInvD(4) [OF i] by simp
  next
    case (5 d')
    then have "objOf s d' \<noteq> ?o" using queueInvD(6) [OF i _ a] by auto
    with 5 queueInvD(4,5) [OF i, of d'] show ?case by simp
  next
    case 6
    then show ?case using queueInvD(6) [OF i] by simp
  next
    case (7 i')
    then show ?case using queueInvD(7) [OF i, of i'] q(4) by auto
  qed
qed

lemma inv_done:
  assumes i: "queueInv {} s"
  shows "queueInv {} (runDone now d ok s)"
proof (cases "d < length (fs_drains s) \<and> (\<exists>k. dp_pc (fs_drains s ! d) = Running k)")
  case False
  then show ?thesis using i by (auto simp: runDone_def Let_def split: drainPc.split)
next
  case True
  then obtain k where d: "d < length (fs_drains s)" and k: "dp_pc (fs_drains s ! d) = Running k" by blast
  let ?o = "objOf s d" and ?q = "qAt s (objOf s d)"
  have a: "active s d" using d k by (simp add: active_def)
  note o = queueInvD(4) [OF i a]
  have ok0: "dq_droppedCount ?q = 0" using queueInvD(2) [OF i o] by (simp_all add: objOk_def)
  note pc = queueInvD(5) [OF i a, unfolded k, simplified]
  show ?thesis
  proof (cases ok)
    case False
    have "queueInv {} (finishDrain d (setQ ?o (?q\<lparr>fq_lastEnqueuedAt := now\<rparr>) s))"
      by (rule inv_finish [OF inv_weaken [OF inv_setQ [OF i o]]]) (use ok0 a in auto)
    with False d k show ?thesis by (simp add: runDone_def Let_def objOf_def)
  next
    case True
    have step: "queueInv {} (atLoop d (logF (Handled ?o is) (setQ ?o q s)))"
      if "dq_items ?q = is @ r" "dq_items q = r" "dq_droppedCount q = 0" "dq_cap q = dq_cap ?q"
        "fq_draining q = fq_draining ?q" for "is" r q
      by (rule inv_atLoop [OF inv_take [OF i a that]]) (simp add: a)
    show ?thesis
    proof (cases k)
      case (RunItem j)
      then obtain r where "dq_items ?q = [j] @ r" using pc by auto
      with step [OF this, of "?q\<lparr>dq_items := r\<rparr>"] RunItem True d k ok0 show ?thesis
        by (simp add: runDone_def Let_def objOf_def)
    next
      case (RunCollected "is" b)
      then obtain r where l: "dq_items ?q = is @ r" using pc by auto
      have "queueInv {} (atLoop d (logF (Handled ?o is)
          (setQ ?o (if b then clearQueueSummaryState (?q\<lparr>dq_items := r\<rparr>) else ?q\<lparr>dq_items := r\<rparr>) s)))"
        by (rule step [OF l]) (simp_all add: clearQueueSummaryState_def ok0)
      with l RunCollected True d k show ?thesis by (cases b) (simp_all add: runDone_def Let_def objOf_def)
    next
      case (RunSummary j)
      with pc show ?thesis by simp
    qed
  qed
qed

lemma inv_getQueue:
  assumes i: "queueInv {} s"
    and g: "getFollowupQueue key st s = (o', s1)"
  shows "queueInv {} s1 \<and> o' < length (fs_heap s1) \<and> fs_recent s1 = fs_recent s \<and> fs_log s1 = fs_log s"
proof (cases "map_of (fs_queues s) key")
  case (Some x)
  note o = queueInvD(1) [OF i Some]
  have "queueInv {} (setQ x (applyQueueRuntimeSettings st (qAt s x)) s)"
    by (rule inv_setQ [OF i o])
      (use queueInvD(2) [OF i o] in \<open>auto simp: applyQueueRuntimeSettings_def objOk_def\<close>)
  with Some g o show ?thesis by (auto simp: getFollowupQueue_def)
next
  case None
  let ?q = "createFollowupQueue st"
  have q: "dq_items ?q = []" "dq_droppedCount ?q = 0" "\<not> fq_draining ?q"
    by (simp_all add: createFollowupQueue_def applyQueueRuntimeSettings_def)
  define t where "t = s\<lparr>fs_heap := fs_heap s @ [?q], fs_queues := AList.update key (length (fs_heap s)) (fs_queues s)\<rparr>"
  have qt: "i' < length (fs_heap s) \<Longrightarrow> qAt t i' = qAt s i'" "qAt t (length (fs_heap s)) = ?q" for i'
    by (simp_all add: t_def qAt_def nth_append)
  have act: "active t d = active s d" "objOf t d = objOf s d" "fs_drains t = fs_drains s" for d
    by (simp_all add: t_def active_def objOf_def)
  have h: "length (fs_heap t) = Suc (length (fs_heap s))" by (simp add: t_def)
  have logs: "pushed i' t = pushed i' s" "handled i' t = handled i' s" for i' by (simp_all add: t_def)
  have lt: "active s d \<Longrightarrow> objOf s d < length (fs_heap s)" for d by (rule queueInvD(4) [OF i])
  have "queueInv {} t"
  proof (rule queueInvI, goal_cases)
    case (1 k i')
    then show ?case using queueInvD(1) [OF i, of k i'] by (auto simp: t_def map_of_update_iff split: if_splits)
  next
    case (2 i')
    then show ?case using queueInvD(2,3) [OF i, of i'] q
      by (cases "i' = length (fs_heap s)") (auto simp: h qt objOk_def logs)
  next
    case 3
    then show ?case using queueInvD(3) [OF i] by (simp add: h logs)
  next
    case 4
    then show ?case using lt by (simp add: act h less_SucI)
  next
    case (5 d)
    then show ?case using queueInvD(5) [OF i, of d] lt [of d] by (simp add: act qt)
  next
    case 6
    then show ?case using queueInvD(6) [OF i] by (simp add: act)
  next
    case (7 i')
    show ?case
    proof (cases "i' = length (fs_heap s)")
      case True
      have "active s d \<Longrightarrow> objOf s d \<noteq> length (fs_heap s)" for d using lt by (metis less_irrefl)
      with True q show ?thesis by (auto simp: act qt)
    next
      case False
      with 7 queueInvD(7) [OF i, of i'] show ?thesis by (simp add: act qt h)
    qed
  qed
  with None g show ?thesis by (auto simp: getFollowupQueue_def t_def)
qed


lemma pcOk_append: "pcOk pc items \<Longrightarrow> pcOk pc (items @ [r])"
  by (cases "(pc, items)" rule: pcOk.cases) auto

lemma inv_push:
  assumes i: "queueInv {} s" and o: "o' < length (fs_heap s)"
    and q: "dq_items q = dq_items (qAt s o') @ [run]" "dq_droppedCount q = 0" "dq_cap q = dq_cap (qAt s o')"
      "fq_draining q = fq_draining (qAt s o')"
  shows "queueInv {} (logF (Pushed o' run) (setQ o' q s))"
proof (rule queueInvI, goal_cases)
  case 1
  then show ?case using queueInvD(1) [OF i] by simp
next
  case (2 i')
  then show ?case using queueInvD(2) [OF i, of i'] q by (auto simp: objOk_def)
next
  case 3
  then show ?case using queueInvD(3) [OF i] o by auto
next
  case 4
  then show ?case using queueInvD(4) [OF i] by simp
next
  case (5 d)
  then show ?case using queueInvD(4,5) [OF i, of d] q(1) pcOk_append by auto
next
  case 6
  then show ?case using queueInvD(6) [OF i] by simp
next
  case (7 i')
  then show ?case using queueInvD(7) [OF i, of i'] q(4) by auto
qed

lemma schedule_log [simp]: "fs_log (scheduleFollowupDrain key cb s) = fs_log s"
  by (auto simp: scheduleFollowupDrain_def beginQueueDrain_def Let_def split: option.split)

lemma finish_log [simp]: "fs_log (finishDrain d s) = fs_log s"
  by (simp add: finishDrain_def Let_def)

lemma kick_log [simp]: "fs_log (kickFollowupDrainIfIdle key s) = fs_log s"
  by (simp add: kickFollowupDrainIfIdle_def split: option.split)

lemma atLoop_log [simp]: "fs_log (atLoop d s) = fs_log s"
  by (simp add: atLoop_def Let_def)

text \<open>A message finds no room: the queue of its key, under the settings it brings, is at its cap.\<close>

definition overflows :: "string \<Rightarrow> queueSettings \<Rightarrow> followupState \<Rightarrow> bool" where
  "overflows key settings s = (case getFollowupQueue key settings s of
     (o', s1) \<Rightarrow> 0 < dq_cap (qAt s1 o') \<and> dq_cap (qAt s1 o') \<le> int (length (dq_items (qAt s1 o'))))"

fun roomFor :: "followInput \<Rightarrow> followupState \<Rightarrow> bool" where
  "roomFor (FEnqueue key run st mode) s = (\<not> overflows key st s)"
| "roomFor (FClear keys) s = False"
| "roomFor _ s = True"

text \<open>No queue overflows and none is cleared in a sequence of events.\<close>

fun noOverflow :: "(string \<Rightarrow> string option) \<Rightarrow> (int \<times> followInput) list \<Rightarrow> followupState \<Rightarrow> bool" where
  "noOverflow reg [] s = True"
| "noOverflow reg (ev # evs) s = (roomFor (snd ev) s \<and> noOverflow reg evs (followStep reg ev s))"

lemma inv_enqueue:
  assumes i: "queueInv {} s" and room: "\<not> overflows key st s"
  shows "queueInv {} (snd (enqueueFollowupRun now key run st mode s))"
proof -
  obtain o' s1 where g: "getFollowupQueue key st s = (o', s1)" by fastforce
  note s1 = inv_getQueue [OF i g]
  obtain b r1 where pk: "(case if mode \<noteq> NoDedupe then buildRecentMessageIdKey run key else None of
      None \<Rightarrow> (False, fs_recent s1) | Some k \<Rightarrow> dedupePeek (Some k) now (fs_recent s1)) = (b, r1)" by fastforce
  let ?s2 = "s1\<lparr>fs_recent := r1\<rparr>"
  have s2: "queueInv {} ?s2" "o' < length (fs_heap ?s2)" using s1 inv_fields(2) by auto
  let ?q = "qAt ?s2 o'"
  let ?q1 = "?q\<lparr>fq_lastEnqueuedAt := now, fq_lastRun := Some (fr_run run)\<rparr>"
  have ok: "objOk ?s2 o' ?q" by (rule queueInvD(2) [OF s2])
  have q2: "?q = qAt s1 o'" by (simp add: qAt_def)
  have "dq_cap ?q \<le> 0 \<or> int (length (dq_items ?q)) < dq_cap ?q"
    using room by (auto simp: overflows_def g q2)
  then have drop: "applyQueueDropPolicy summarizeRun None ?q1 = (True, ?q1)"
    by (simp add: applyQueueDropPolicy_def)
  let ?s3 = "logF (Pushed o' run) (setQ o' (?q1\<lparr>dq_items := dq_items ?q @ [run]\<rparr>) ?s2)"
  have s3: "queueInv {} ?s3" by (rule inv_push [OF s2]) (use ok in \<open>auto simp: objOk_def\<close>)
  have kick: "queueInv {} (kickFollowupDrainIfIdle key t)" if "queueInv {} t" for t
    using inv_schedule [OF that] that by (simp add: kickFollowupDrainIfIdle_def split: option.split)
  have rec: "queueInv {} (?s3\<lparr>fs_recent := x\<rparr>)" for x
    using inv_fields(2) [OF s3] by simp
  show ?thesis
    unfolding enqueueFollowupRun_def g prod.case Let_def pk drop bool.case
    using s2 kick [OF s3] kick [OF rec] s3 rec
    by (auto split: option.split)
qed

lemma inv_run: "queueInv {} s \<Longrightarrow> noOverflow reg evs s \<Longrightarrow> queueInv {} (followRun reg evs s)"
proof (induction evs arbitrary: s)
  case Nil
  then show ?case by (simp add: followRun_def)
next
  case (Cons ev evs)
  obtain now e where ev: "ev = (now, e)" by (cases ev)
  have "queueInv {} (followStep reg ev s)"
  proof (cases e)
    case FResetDedupe
    then show ?thesis using Cons.prems(1) inv_fields(2)
      by (simp add: followStep_def ev resetRecentQueuedMessageIdDedupe_def)
  qed (use Cons.prems ev inv_enqueue inv_schedule inv_tick inv_done in \<open>simp_all add: followStep_def\<close>)
  with Cons show ?case by (simp add: followRun_def)
qed

lemma inv_init: "queueInv {} initFollowup"
  by (simp add: queueInv_def initFollowup_def followupWith_def active_def pushed_def handled_def)

section \<open>Lemmas: the recent message ids\<close>

lemma recent_simps [simp]:
  "fs_recent (scheduleFollowupDrain key cb s) = fs_recent s"
  "fs_recent (finishDrain d s) = fs_recent s" "fs_recent (atLoop d s) = fs_recent s"
  "fs_recent (callFollowup d p k a s) = fs_recent s"
  "fs_recent (kickFollowupDrainIfIdle key s) = fs_recent s"
proof -
  show sch: "fs_recent (scheduleFollowupDrain key cb s) = fs_recent s" for key cb s
    by (auto simp: scheduleFollowupDrain_def beginQueueDrain_def Let_def split: option.split)
  show fin: "fs_recent (finishDrain d s) = fs_recent s"
    by (simp add: finishDrain_def Let_def sch)
  show "fs_recent (atLoop d s) = fs_recent s" using fin by (simp add: atLoop_def Let_def)
  show "fs_recent (callFollowup d p k a s) = fs_recent s" by (simp add: callFollowup_def)
  show "fs_recent (kickFollowupDrainIfIdle key s) = fs_recent s"
    by (simp add: kickFollowupDrainIfIdle_def sch split: option.split)
qed

lemma recent_tick [simp]: "fs_recent (drainTick reg now d s) = fs_recent s"
  by (simp add: drainTick_def drainProceed_def Let_def split: drainPc.split option.split list.split)

lemma recent_done [simp]: "fs_recent (runDone now d ok s) = fs_recent s"
  by (simp add: runDone_def Let_def split: drainPc.split drainKind.split)

lemma recent_clear: "fs_recent (fst (snd (clearKeys ks r s l))) = fs_recent s"
proof (induction ks arbitrary: r s l)
  case (Cons k ks)
  then show ?case
    by (auto simp: Let_def clearFollowupQueue_def clearFollowupDrainCallback_def split: option.split prod.split)
qed simp

lemma getFollowupQueue_recent: "fs_recent (snd (getFollowupQueue key st s)) = fs_recent s"
  by (simp add: getFollowupQueue_def split: option.split)

definition recentKeyOf :: "dedupeMode \<Rightarrow> followupRun \<Rightarrow> string \<Rightarrow> string option" where
  "recentKeyOf mode run key = (if mode \<noteq> NoDedupe then buildRecentMessageIdKey run key else None)"

lemma enqueue_recent:
  "fs_recent (snd (enqueueFollowupRun now key run st mode s)) =
     (case recentKeyOf mode run key of
        None \<Rightarrow> fs_recent s
      | Some k \<Rightarrow> if fst (enqueueFollowupRun now key run st mode s)
                 then snd (dedupeCheck (Some k) now (snd (dedupePeek (Some k) now (fs_recent s))))
                 else snd (dedupePeek (Some k) now (fs_recent s)))"
proof -
  obtain o' s1 where g: "getFollowupQueue key st s = (o', s1)" by fastforce
  then have r: "fs_recent s1 = fs_recent s" using getFollowupQueue_recent [of key st s] by simp
  show ?thesis
    by (auto simp: enqueueFollowupRun_def g recentKeyOf_def r Let_def
        split: option.split prod.split bool.split if_split)
qed

lemma buildRecentMessageIdKey_not_Nil: "buildRecentMessageIdKey run key = Some k \<Longrightarrow> k \<noteq> []"
  by (auto simp: buildRecentMessageIdKey_def jsonArray_def Let_def split: if_splits)

text \<open>The JSON tuple keeps its parts apart: equal keys mean the same queue, message id and routing.\<close>

lemma recent_key_identifies:
  "buildRecentMessageIdKey run q = Some k \<Longrightarrow> buildRecentMessageIdKey run' q' = Some k \<Longrightarrow>
   q = q' \<and> js_trim (js_or_empty (fr_messageId run)) = js_trim (js_or_empty (fr_messageId run')) \<and>
   js_or_empty (fr_originatingChannel run) = js_or_empty (fr_originatingChannel run') \<and>
   js_or_empty (fr_originatingTo run) = js_or_empty (fr_originatingTo run') \<and>
   js_or_empty (fr_originatingAccountId run) = js_or_empty (fr_originatingAccountId run')"
  by (auto simp: buildRecentMessageIdKey_def Let_def split: if_splits)

text \<open>What the message queue needs of the dedupe cache is its interface.\<close>

lemma held_step:
  assumes ok: "dedupeOk 300000 10000 (fs_recent s)" and h: "dedupeHeld k t n (fs_recent s)"
    and n: "Suc n < 10000" and u: "t \<le> u" "u < t + 300000" and e: "e \<noteq> FResetDedupe"
  shows "dedupeOk 300000 10000 (fs_recent (followStep reg (u, e) s)) \<and>
    dedupeHeld k t (Suc n) (fs_recent (followStep reg (u, e) s))"
proof (cases e)
  case (FEnqueue key run st mode)
  let ?r = "fs_recent s"
  have w: "dedupeHeld k t (Suc n) d" if "dedupeHeld k t n d" for d
    using held_weaken [OF that] by simp
  have pk: "dedupeOk 300000 10000 (snd (dedupePeek (Some k') u ?r))"
    "dedupeHeld k t n (snd (dedupePeek (Some k') u ?r))" for k'
    using recent_ids.ok_look [OF ok] recent_ids.held_look [OF ok h u] by blast+
  have ck: "dedupeOk 300000 10000 (snd (dedupeCheck (Some k') u (snd (dedupePeek (Some k') u ?r))))"
    "dedupeHeld k t (Suc n) (snd (dedupeCheck (Some k') u (snd (dedupePeek (Some k') u ?r))))" for k'
    using recent_ids.ok_mark [OF pk(1)] recent_ids.held_other [OF pk n u] by blast+
  show ?thesis
    using FEnqueue ok w [OF h] pk w [OF pk(2)] ck
    by (auto simp: followStep_def enqueue_recent split: option.split)
qed (use ok e h held_weaken [OF h, of "Suc n"] recent_clear in
    \<open>auto simp: followStep_def clearSessionQueues_def\<close>)

lemma held_run:
  "dedupeOk 300000 10000 (fs_recent s) \<Longrightarrow> dedupeHeld k t n (fs_recent s) \<Longrightarrow> n + length evs < 10000 \<Longrightarrow>
   (\<And>u e. (u, e) \<in> set evs \<Longrightarrow> t \<le> u \<and> u < t + 300000 \<and> e \<noteq> FResetDedupe) \<Longrightarrow>
   dedupeOk 300000 10000 (fs_recent (followRun reg evs s)) \<and>
   dedupeHeld k t (n + length evs) (fs_recent (followRun reg evs s))"
proof (induction evs arbitrary: s n)
  case Nil
  then show ?case by (simp add: followRun_def)
next
  case (Cons ev evs)
  obtain u e where ev: "ev = (u, e)" by (cases ev)
  with Cons.prems(4) have "t \<le> u" "u < t + 300000" "e \<noteq> FResetDedupe" by auto
  from held_step [OF Cons.prems(1,2) _ this, of reg] Cons.prems(3)
  have "dedupeOk 300000 10000 (fs_recent (followStep reg ev s))"
    "dedupeHeld k t (Suc n) (fs_recent (followStep reg ev s))" by (simp_all add: ev)
  note h = Cons.IH [OF this]
  have "\<And>u e. (u, e) \<in> set evs \<Longrightarrow> t \<le> u \<and> u < t + 300000 \<and> e \<noteq> FResetDedupe"
    by (rule Cons.prems(4) [OF list.set_intros(2)])
  with h Cons.prems(3)
  have "dedupeOk 300000 10000 (fs_recent (followRun reg evs (followStep reg ev s))) \<and>
    dedupeHeld k t (Suc n + length evs) (fs_recent (followRun reg evs (followStep reg ev s)))" by simp
  then show ?case by (simp add: followRun_def)
qed

lemma enqueue_seen_refused:
  assumes "fst (dedupePeek (Some k) v (fs_recent s))" "recentKeyOf mode run key = Some k"
  shows "\<not> fst (enqueueFollowupRun v key run st mode s)"
proof -
  obtain o' s3 where g: "getFollowupQueue key st s = (o', s3)" by fastforce
  then have "fs_recent s3 = fs_recent s" using getFollowupQueue_recent [of key st s] by simp
  with assms show ?thesis
    by (auto simp: enqueueFollowupRun_def recentKeyOf_def g Let_def split: prod.split if_splits)
qed

section \<open>Properties\<close>

definition queuedItems :: "followupState \<Rightarrow> nat \<Rightarrow> followupRun list" where
  "queuedItems s o' = (if o' < length (fs_heap s) then dq_items (qAt s o') else [])"

text \<open>C35: As long as no queue is full when a message arrives and none is cleared, however many messages pass through it,
  every accepted message is, in order of arrival, either handed to a follow-up that returned or still queued: whatever
  drains run, fail, restart or collect, none is lost, duplicated in a queue or overtaken.\<close>

theorem followup_fifo_no_loss:
  assumes "noOverflow reg evs initFollowup"
  shows "pushed o' (followRun reg evs initFollowup) =
    handled o' (followRun reg evs initFollowup) @ queuedItems (followRun reg evs initFollowup) o'"
proof -
  have i: "queueInv {} (followRun reg evs initFollowup)" by (rule inv_run [OF inv_init assms])
  show ?thesis
    using queueInvD(2) [OF i, of o'] queueInvD(3) [OF i, of o'] by (auto simp: queuedItems_def objOk_def)
qed

definition sampleRun :: "string \<Rightarrow> string \<Rightarrow> followupRun" where
  "sampleRun msgId txt = (plainRun txt 1 0)\<lparr>fr_messageId := Some msgId\<rparr>"

definition sampleSettings :: "queueMode \<Rightarrow> rat \<Rightarrow> dropPolicy \<Rightarrow> queueSettings" where
  "sampleSettings m c p = \<lparr>qset_mode = m, qset_debounceMs = Some 0, qset_cap = Some c, qset_dropPolicy = Some p\<rparr>"

theorem followup_fifo_no_loss_witness:
  "let st = sampleSettings ModeFollowup 1 DropOld;
       s = followRun (\<lambda>c. None)
         [(0, FEnqueue ''k'' (sampleRun ''1'' ''a'') st ByMessageId), (1, FSchedule ''k'' 7), (2, FTick 0), (3, FRunDone 0 True),
          (4, FEnqueue ''k'' (sampleRun ''2'' ''b'') st ByMessageId)] initFollowup
   in pushed 0 s = handled 0 s @ queuedItems s 0 \<and> pushed 1 s = handled 1 s @ queuedItems s 1 \<and> queuedItems s 1 \<noteq> []"
  unfolding Let_def
proof (intro conjI)
  let ?st = "sampleSettings ModeFollowup 1 DropOld"
  let ?evs = "[(0, FEnqueue ''k'' (sampleRun ''1'' ''a'') ?st ByMessageId), (1, FSchedule ''k'' 7), (2, FTick 0), (3, FRunDone 0 True),
    (4, FEnqueue ''k'' (sampleRun ''2'' ''b'') ?st ByMessageId)]"
  have room: "noOverflow (\<lambda>c. None) ?evs initFollowup" by code_simp
  show "pushed 0 (followRun (\<lambda>c. None) ?evs initFollowup) = handled 0 (followRun (\<lambda>c. None) ?evs initFollowup) @
      queuedItems (followRun (\<lambda>c. None) ?evs initFollowup) 0"
    by (rule followup_fifo_no_loss [OF room, of 0])
  show "pushed 1 (followRun (\<lambda>c. None) ?evs initFollowup) = handled 1 (followRun (\<lambda>c. None) ?evs initFollowup) @
      queuedItems (followRun (\<lambda>c. None) ?evs initFollowup) 1"
    by (rule followup_fifo_no_loss [OF room, of 1])
  show "queuedItems (followRun (\<lambda>c. None) ?evs initFollowup) 1 \<noteq> []" by code_simp
qed

text \<open>a message that was accepted with an id is refused when it is delivered again to the same
  queue with the same routing within five minutes, whatever happens to the queue in between
  (drained, cleared, deleted), short of 10000 events or a reset of the dedupe cache.\<close>

theorem followup_redelivery_refused:
  assumes "dedupeOk 300000 10000 (fs_recent s)" "mode \<noteq> NoDedupe" "mode' \<noteq> NoDedupe"
    and "buildRecentMessageIdKey run key = Some k" "buildRecentMessageIdKey run' key = Some k"
    and "fst (enqueueFollowupRun t key run st mode s)"
    and "length evs < 10000" "t \<le> v" "v < t + 300000"
    and "\<And>u e. (u, e) \<in> set evs \<Longrightarrow> t \<le> u \<and> u < t + 300000 \<and> e \<noteq> FResetDedupe"
  shows "\<not> fst (enqueueFollowupRun v key run' st' mode'
    (followRun reg evs (snd (enqueueFollowupRun t key run st mode s))))"
proof -
  let ?s1 = "snd (enqueueFollowupRun t key run st mode s)"
  note k = buildRecentMessageIdKey_not_Nil [OF assms(4)]
  have r1: "fs_recent ?s1 = snd (dedupeCheck (Some k) t (snd (dedupePeek (Some k) t (fs_recent s))))"
    using assms(2,4,6) by (simp add: enqueue_recent recentKeyOf_def)
  note pk = recent_ids.ok_look [OF assms(1), of k t]
  have ok1: "dedupeOk 300000 10000 (fs_recent ?s1)" "dedupeHeld k t 0 (fs_recent ?s1)"
    unfolding r1 using recent_ids.ok_mark [OF pk] recent_ids.held_mark [OF pk k] by simp_all
  let ?s2 = "followRun reg evs ?s1"
  have ok2: "dedupeOk 300000 10000 (fs_recent ?s2)" "dedupeHeld k t (length evs) (fs_recent ?s2)"
    using held_run [OF ok1, of evs reg] assms(7,10) by auto
  have seen: "fst (dedupePeek (Some k) v (fs_recent ?s2))"
    by (rule recent_ids.held_seen [OF ok2 k assms(8,9)])
  have "recentKeyOf mode' run' key = Some k" using assms(3,5) by (simp add: recentKeyOf_def)
  from enqueue_seen_refused [OF seen this] show ?thesis .
qed

theorem followup_redelivery_refused_witness:
  "\<not> fst (enqueueFollowupRun 9 ''k'' (sampleRun ''1'' ''a'') (sampleSettings ModeFollowup 5 DropOld) ByMessageId
    (followRun (\<lambda>c. None) [(2, FSchedule ''k'' 7), (3, FTick 0), (4, FRunDone 0 True), (5, FClear [Some ''k''])]
      (snd (enqueueFollowupRun 1 ''k'' (sampleRun ''1'' ''a'') (sampleSettings ModeFollowup 5 DropOld) ByMessageId
        initFollowup))))"
proof (rule followup_redelivery_refused)
  show "dedupeOk 300000 10000 (fs_recent initFollowup)"
    by (simp add: dedupeOk_def initFollowup_def followupWith_def createDedupeCache_def dedupe_wf_def)
  show "buildRecentMessageIdKey (sampleRun ''1'' ''a'') ''k'' =
      Some (the (buildRecentMessageIdKey (sampleRun ''1'' ''a'') ''k''))" by code_simp
  then show "buildRecentMessageIdKey (sampleRun ''1'' ''a'') ''k'' =
      Some (the (buildRecentMessageIdKey (sampleRun ''1'' ''a'') ''k''))" .
  show "fst (enqueueFollowupRun 1 ''k'' (sampleRun ''1'' ''a'') (sampleSettings ModeFollowup 5 DropOld)
    ByMessageId initFollowup)" by code_simp
qed auto

section \<open>What can be lost: runs outside the hypotheses of the loss-freedom property\<close>

fun deliveredBy :: "followEvent \<Rightarrow> string list" where
  "deliveredBy (Delivered o' cb r) = [fr_prompt r]"
| "deliveredBy _ = []"

text \<open>The prompts the callback was called with. The runs below hold whatever the dedupe cache has seen:
  their messages carry no id.\<close>

definition deliveredPrompts :: "followupState \<Rightarrow> string list" where
  "deliveredPrompts s = concat (map deliveredBy (fs_log s))"

definition msgA :: followupRun where "msgA = plainRun ''a'' 1 0"
definition msgB :: followupRun where "msgB = plainRun ''b'' 1 0"
definition msgC :: followupRun where "msgC = plainRun ''c'' 1 0"

text \<open>A queue of cap 1 overflows while its first message is being handled: the overflow drops the
  message in flight, and its completion then shifts the new message away, which is never delivered.\<close>

lemma overflow_during_run_loses:
  "let st = sampleSettings ModeFollowup 1 DropOld;
       s = followRun (\<lambda>c. None)
         [(0, FEnqueue ''k'' msgA st ByMessageId), (1, FSchedule ''k'' 7), (2, FTick 0),
          (3, FEnqueue ''k'' msgB st ByMessageId), (4, FRunDone 0 True)] (followupWith r)
   in pushed 0 s = [msgA, msgB] \<and> deliveredPrompts s = [''a''] \<and> fs_queues s = [] \<and> queuedItems s 0 = []"
  by code_simp

text \<open>A session is cleared while a follow-up runs and gets a new message: the old drain ends by
  deleting the registry entry of the new queue object, which holds the message and has no drain.\<close>

lemma clear_during_run_orphans:
  "let st = sampleSettings ModeFollowup 5 DropOld;
       s = followRun (\<lambda>c. None)
         [(0, FEnqueue ''k'' msgA st ByMessageId), (1, FSchedule ''k'' 7), (2, FTick 0),
          (3, FClear [Some ''k'']), (4, FEnqueue ''k'' msgB st ByMessageId), (5, FRunDone 0 True),
          (6, FSchedule ''k'' 8)] (followupWith r)
   in queuedItems s 1 = [msgB] \<and> fs_queues s = [] \<and> deliveredPrompts s = [''a''] \<and>
      list_all (\<lambda>p. dp_pc p = DrainDone) (fs_drains s)"
  by code_simp

text \<open>Outside collect mode the overflow summary is sent in the place of the first queued message,
  which is shifted with it: its own prompt is never delivered.\<close>

lemma summary_replaces_message:
  "let st = sampleSettings ModeFollowup 1 DropSummarize;
       s = followRun (\<lambda>c. None)
         [(0, FEnqueue ''k'' msgA st ByMessageId), (1, FEnqueue ''k'' msgB st ByMessageId),
          (2, FSchedule ''k'' 7), (3, FTick 0), (4, FRunDone 0 True)] (followupWith r)
   in pushed 0 s = [msgA, msgB] \<and> queuedItems s 0 = [] \<and> fs_queues s = [] \<and>
      length (deliveredPrompts s) = 1 \<and> ''b'' \<notin> set (deliveredPrompts s)"
  by code_simp

text \<open>A queue that dropped messages under \<open>summarize\<close> and is then set to another policy keeps its
  count of dropped messages for ever: once its items are drained, a collecting drain calls the
  follow-up with an empty batch, and is afterwards in the state it was in before.\<close>

definition staleDropState :: "dedupeCache \<Rightarrow> followupState" where
  "staleDropState r = followRun (\<lambda>c. None)
     [(0, FEnqueue ''k'' msgA (sampleSettings ModeCollect 1 DropSummarize) ByMessageId),
      (1, FEnqueue ''k'' msgB (sampleSettings ModeCollect 1 DropSummarize) ByMessageId),
      (2, FEnqueue ''k'' msgC (sampleSettings ModeCollect 1 DropNew) ByMessageId),
      (3, FSchedule ''k'' 7), (4, FTick 0), (5, FRunDone 0 True)] (followupWith r)"

lemma stale_drops_deliver_empty_batches:
  "queuedItems (staleDropState r) 0 = []"
  "(followRun (\<lambda>c. None) [(6, FTick 0), (7, FRunDone 0 True)] (staleDropState r))\<lparr>fs_log := []\<rparr> =
     (staleDropState r)\<lparr>fs_log := []\<rparr>"
  "length (deliveredPrompts (followRun (\<lambda>c. None) [(6, FTick 0), (7, FRunDone 0 True)] (staleDropState r))) =
     length (deliveredPrompts (staleDropState r)) + 1"
  by code_simp+

end
