(* ===== verification/Auth_Profiles.thy ===== *)
theory Auth_Profiles
  imports Complex_Main Prelude
begin

text \<open>
  \<open>src/agents/auth-profiles/usage.ts\<close> and the types of \<open>types.ts\<close>, with \<open>normalizeProviderId\<close>
  of \<open>src/agents/model-selection.ts\<close>: the credentials an agent rotates through, when one is
  cooling down or disabled, and how failures and successes move these windows. Times are
  milliseconds. A store update under the file lock is a function of the store read from disk
  (\<open>fresh\<close>, absent when locking failed) that returns the caller's store and what was saved.
\<close>

section \<open>Provider ids\<close>

definition normalizeProviderId :: "string \<Rightarrow> string" where
  "normalizeProviderId provider =
     (let normalized = js_lower (js_trim provider) in
      if normalized = ''z.ai'' \<or> normalized = ''z-ai'' then ''zai''
      else if normalized = ''opencode-zen'' then ''opencode''
      else if normalized = ''opencode-go-auth'' then ''opencode-go''
      else if normalized = ''qwen'' then ''qwen-portal''
      else if normalized = ''kimi-code'' then ''kimi-coding''
      else if normalized = ''bedrock'' \<or> normalized = ''aws-bedrock'' then ''amazon-bedrock''
      else if normalized = ''bytedance'' \<or> normalized = ''doubao'' then ''volcengine''
      else normalized)"

definition normalizeProviderIdForAuth :: "string \<Rightarrow> string" where
  "normalizeProviderIdForAuth provider =
     (let normalized = normalizeProviderId provider in
      if normalized = ''volcengine-plan'' then ''volcengine''
      else if normalized = ''byteplus-plan'' then ''byteplus''
      else normalized)"

definition findNormalizedProviderValue :: "(string \<times> 'v) list option \<Rightarrow> string \<Rightarrow> 'v option" where
  "findNormalizedProviderValue entries provider =
     (case entries of
        None \<Rightarrow> None
      | Some es \<Rightarrow> map_option snd
          (find (\<lambda>(key, value). normalizeProviderId key = normalizeProviderId provider) es))"

section \<open>Stores\<close>

type_synonym msTime = rat

datatype failureReason =
    AuthPermanent | AuthFailed | Billing | FormatError | ModelNotFound | Overloaded | TimedOut
  | RateLimit | UnknownReason | SessionExpired

datatype secretValue =
    SecretText string
  | SecretObject "string option" "string option" "string option"

datatype expiresField = NoExpiry | ExpiresAt msTime | ExpiryNotANumber

datatype authCredential =
    ApiKeyCredential string "secretValue option" "secretValue option"
  | TokenCredential string "secretValue option" "secretValue option" expiresField
  | OAuthCredential string "secretValue option" "secretValue option"

fun credProvider :: "authCredential \<Rightarrow> string" where
  "credProvider (ApiKeyCredential p key keyRef) = p"
| "credProvider (TokenCredential p token tokenRef expires) = p"
| "credProvider (OAuthCredential p access refresh) = p"

record usageStats =
  us_lastUsed :: "msTime option"
  us_cooldownUntil :: "msTime option"
  us_disabledUntil :: "msTime option"
  us_disabledReason :: "failureReason option"
  us_errorCount :: "int option"
  us_failureCounts :: "(failureReason \<times> int) list option"
  us_lastFailureAt :: "msTime option"

text \<open>Objects keyed by a profile or provider id are maps in insertion order (ids are not numerals).\<close>

record authStore =
  as_profiles :: "(string \<times> authCredential) list"
  as_order :: "(string \<times> string list) list option"
  as_lastGood :: "(string \<times> string) list option"
  as_usageStats :: "(string \<times> usageStats) list option"

record cooldownConfig =
  cd_billingBackoffHours :: "rat option"
  cd_billingBackoffHoursByProvider :: "(string \<times> rat) list option"
  cd_billingMaxHours :: "rat option"
  cd_failureWindowHours :: "rat option"

definition emptyStats :: usageStats where
  "emptyStats = \<lparr>us_lastUsed = None, us_cooldownUntil = None, us_disabledUntil = None,
     us_disabledReason = None, us_errorCount = None, us_failureCounts = None, us_lastFailureAt = None\<rparr>"

definition statsOf :: "authStore \<Rightarrow> string \<Rightarrow> usageStats option" where
  "statsOf store profileId = Option.bind (as_usageStats store) (\<lambda>m. map_of m profileId)"

definition providerOf :: "authStore \<Rightarrow> string \<Rightarrow> string" where
  "providerOf store profileId = (case map_of (as_profiles store) profileId of None \<Rightarrow> [] | Some c \<Rightarrow> credProvider c)"

section \<open>Windows\<close>

definition FAILURE_REASON_PRIORITY :: "failureReason list" where
  "FAILURE_REASON_PRIORITY =
     [AuthPermanent, AuthFailed, Billing, FormatError, ModelNotFound, Overloaded, TimedOut, RateLimit,
      UnknownReason]"

definition FAILURE_REASON_SET :: "failureReason set" where
  "FAILURE_REASON_SET = set FAILURE_REASON_PRIORITY"

definition FAILURE_REASON_ORDER :: "(failureReason \<times> nat) list" where
  "FAILURE_REASON_ORDER = zip FAILURE_REASON_PRIORITY [0..<length FAILURE_REASON_PRIORITY]"

definition isAuthCooldownBypassedForProvider :: "string \<Rightarrow> bool" where
  "isAuthCooldownBypassedForProvider provider =
     (normalizeProviderId provider = ''openrouter'' \<or> normalizeProviderId provider = ''kilocode'')"

definition positives :: "msTime option list \<Rightarrow> msTime list" where
  "positives vs = concat (map (\<lambda>v. case v of None \<Rightarrow> [] | Some t \<Rightarrow> if 0 < t then [t] else []) vs)"

definition resolveProfileUnusableUntil :: "usageStats \<Rightarrow> msTime option" where
  "resolveProfileUnusableUntil stats =
     (case positives [us_cooldownUntil stats, us_disabledUntil stats] of
        [] \<Rightarrow> None
      | v # vs \<Rightarrow> Some (fold max vs v))"

definition isProfileInCooldown :: "authStore \<Rightarrow> string \<Rightarrow> msTime \<Rightarrow> bool" where
  "isProfileInCooldown store profileId ts =
     (if isAuthCooldownBypassedForProvider (providerOf store profileId) then False
      else case statsOf store profileId of
          None \<Rightarrow> False
        | Some stats \<Rightarrow>
            (case resolveProfileUnusableUntil stats of None \<Rightarrow> False | Some u \<Rightarrow> ts < u))"

definition isActiveUnusableWindow :: "msTime option \<Rightarrow> msTime \<Rightarrow> bool" where
  "isActiveUnusableWindow until now = (case until of None \<Rightarrow> False | Some u \<Rightarrow> 0 < u \<and> now < u)"

definition resolveProfileUnusableUntilForDisplay :: "authStore \<Rightarrow> string \<Rightarrow> msTime option" where
  "resolveProfileUnusableUntilForDisplay store profileId =
     (if isAuthCooldownBypassedForProvider (providerOf store profileId) then None
      else Option.bind (statsOf store profileId) resolveProfileUnusableUntil)"

fun soonestLoop :: "authStore \<Rightarrow> string list \<Rightarrow> msTime option \<Rightarrow> msTime option" where
  "soonestLoop store [] soonest = soonest"
| "soonestLoop store (i # is) soonest =
     (case Option.bind (statsOf store i) resolveProfileUnusableUntil of
        None \<Rightarrow> soonestLoop store is soonest
      | Some until \<Rightarrow>
          if until \<le> 0 then soonestLoop store is soonest
          else soonestLoop store is
            (case soonest of None \<Rightarrow> Some until | Some s \<Rightarrow> if until < s then Some until else Some s))"

definition getSoonestCooldownExpiry :: "authStore \<Rightarrow> string list \<Rightarrow> msTime option" where
  "getSoonestCooldownExpiry store profileIds = soonestLoop store profileIds None"

section \<open>Why no profile is available\<close>

type_synonym reasonScores = "(failureReason \<times> int) list"

definition addScore :: "failureReason \<Rightarrow> int \<Rightarrow> reasonScores \<Rightarrow> reasonScores" where
  "addScore reason value scores =
     (if reason \<notin> FAILURE_REASON_SET \<or> value \<le> 0 then scores
      else AList.update reason ((case map_of scores reason of None \<Rightarrow> 0 | Some s \<Rightarrow> s) + value) scores)"

fun addCounts :: "(failureReason \<times> int) list \<Rightarrow> reasonScores \<Rightarrow> bool \<Rightarrow> reasonScores \<times> bool" where
  "addCounts [] scores recorded = (scores, recorded)"
| "addCounts ((reason, count) # cs) scores recorded =
     (if reason \<notin> FAILURE_REASON_SET \<or> count \<le> 0 then addCounts cs scores recorded
      else addCounts cs (addScore reason count scores) True)"

definition scoreProfile :: "msTime \<Rightarrow> usageStats \<Rightarrow> reasonScores \<Rightarrow> reasonScores" where
  "scoreProfile now stats scores =
     (let disabledActive = isActiveUnusableWindow (us_disabledUntil stats) now;
          reason = (case us_disabledReason stats of None \<Rightarrow> SessionExpired | Some r \<Rightarrow> r)
      in if disabledActive \<and> us_disabledReason stats \<noteq> None \<and> reason \<in> FAILURE_REASON_SET
         then addScore reason 1000 scores
         else if \<not> isActiveUnusableWindow (us_cooldownUntil stats) now then scores
         else (case addCounts (case us_failureCounts stats of None \<Rightarrow> [] | Some cs \<Rightarrow> cs) scores False of
                 (scores', recorded) \<Rightarrow> if recorded then scores' else addScore UnknownReason 1 scores'))"

fun scoreProfiles :: "authStore \<Rightarrow> msTime \<Rightarrow> string list \<Rightarrow> reasonScores \<Rightarrow> reasonScores" where
  "scoreProfiles store now [] scores = scores"
| "scoreProfiles store now (i # is) scores =
     (case statsOf store i of
        None \<Rightarrow> scoreProfiles store now is scores
      | Some stats \<Rightarrow> scoreProfiles store now is (scoreProfile now stats scores))"

definition MAX_SAFE_INTEGER :: int where "MAX_SAFE_INTEGER = 2 ^ 53 - 1"

definition priorityOf :: "failureReason \<Rightarrow> int" where
  "priorityOf reason = (case map_of FAILURE_REASON_ORDER reason of None \<Rightarrow> MAX_SAFE_INTEGER | Some n \<Rightarrow> int n)"

definition pickStep ::
    "reasonScores \<Rightarrow> failureReason \<Rightarrow> failureReason option \<times> int \<times> int \<Rightarrow> failureReason option \<times> int \<times> int" where
  "pickStep scores reason acc = (case acc of (best, bestScore, bestPriority) \<Rightarrow>
     (case map_of scores reason of
        None \<Rightarrow> (best, bestScore, bestPriority)
      | Some score \<Rightarrow>
          if bestScore < score \<or> (score = bestScore \<and> priorityOf reason < bestPriority)
          then (Some reason, score, priorityOf reason)
          else (best, bestScore, bestPriority)))"

definition resolveProfilesUnavailableReason :: "authStore \<Rightarrow> string list \<Rightarrow> msTime \<Rightarrow> failureReason option" where
  "resolveProfilesUnavailableReason store profileIds now =
     (let scores = scoreProfiles store now profileIds [] in
      if scores = [] then None
      else fst (fold (pickStep scores) FAILURE_REASON_PRIORITY (None, -1, MAX_SAFE_INTEGER)))"

section \<open>Expiry\<close>

definition windowExpiredAt :: "msTime option \<Rightarrow> msTime \<Rightarrow> bool" where
  "windowExpiredAt until ts = (case until of None \<Rightarrow> False | Some u \<Rightarrow> 0 < u \<and> u \<le> ts)"

definition clearExpiredStats :: "msTime \<Rightarrow> usageStats \<Rightarrow> bool \<times> usageStats" where
  "clearExpiredStats ts stats =
     (let cooldownExpired = windowExpiredAt (us_cooldownUntil stats) ts;
          disabledExpired = windowExpiredAt (us_disabledUntil stats) ts;
          s1 = (if cooldownExpired then stats\<lparr>us_cooldownUntil := None\<rparr> else stats);
          s2 = (if disabledExpired then s1\<lparr>us_disabledUntil := None, us_disabledReason := None\<rparr> else s1);
          profileMutated = (cooldownExpired \<or> disabledExpired);
          s3 = (if profileMutated \<and> resolveProfileUnusableUntil s2 = None
                then s2\<lparr>us_errorCount := Some 0, us_failureCounts := None\<rparr> else s2)
      in (profileMutated, s3))"

definition clearExpiredCooldowns :: "authStore \<Rightarrow> msTime \<Rightarrow> bool \<times> authStore" where
  "clearExpiredCooldowns store ts =
     (case as_usageStats store of
        None \<Rightarrow> (False, store)
      | Some m \<Rightarrow>
          (list_ex (\<lambda>(i, stats). fst (clearExpiredStats ts stats)) m,
           store\<lparr>as_usageStats := Some (map (\<lambda>(i, stats). (i, snd (clearExpiredStats ts stats))) m)\<rparr>))"

section \<open>Successes and failures\<close>

definition calculateAuthProfileCooldownMs :: "int \<Rightarrow> msTime" where
  "calculateAuthProfileCooldownMs errorCount =
     (let normalized = max 1 errorCount in
      min (60 * 60 * 1000) (60 * 1000 * 5 ^ nat (min (normalized - 1) 3)))"

record resolvedCooldown =
  rc_billingBackoffMs :: msTime
  rc_billingMaxMs :: msTime
  rc_failureWindowMs :: msTime

definition resolveHours :: "rat option \<Rightarrow> rat \<Rightarrow> rat" where
  "resolveHours value fallback = (case value of None \<Rightarrow> fallback | Some v \<Rightarrow> if 0 < v then v else fallback)"

definition resolveAuthCooldownConfig :: "cooldownConfig option \<Rightarrow> string \<Rightarrow> resolvedCooldown" where
  "resolveAuthCooldownConfig cooldowns providerId =
     (let billingOverride = Option.bind (Option.bind cooldowns cd_billingBackoffHoursByProvider)
            (\<lambda>m. map_option snd (find (\<lambda>(key, value). normalizeProviderId key = providerId) m));
          billingBackoffHours = resolveHours
            (js_coalesce billingOverride (Option.bind cooldowns cd_billingBackoffHours)) 5;
          billingMaxHours = resolveHours (Option.bind cooldowns cd_billingMaxHours) 24;
          failureWindowHours = resolveHours (Option.bind cooldowns cd_failureWindowHours) 24
      in \<lparr>rc_billingBackoffMs = billingBackoffHours * 60 * 60 * 1000,
          rc_billingMaxMs = billingMaxHours * 60 * 60 * 1000,
          rc_failureWindowMs = failureWindowHours * 60 * 60 * 1000\<rparr>)"

definition calculateAuthProfileBillingDisableMsWithConfig :: "int \<Rightarrow> msTime \<Rightarrow> msTime \<Rightarrow> msTime" where
  "calculateAuthProfileBillingDisableMsWithConfig errorCount base maxP =
     (let normalized = max 1 errorCount; baseMs = max 60000 base; maxMs = max baseMs maxP;
          exponent = min (normalized - 1) 10; raw = baseMs * 2 ^ nat exponent
      in min maxMs raw)"

definition resetUsageStats :: "usageStats option \<Rightarrow> usageStats" where
  "resetUsageStats existing =
     (case existing of None \<Rightarrow> emptyStats | Some s \<Rightarrow> s)
       \<lparr>us_errorCount := Some 0, us_cooldownUntil := None, us_disabledUntil := None,
        us_disabledReason := None, us_failureCounts := None\<rparr>"

definition updateUsageStatsEntry :: "string \<Rightarrow> (usageStats option \<Rightarrow> usageStats) \<Rightarrow> authStore \<Rightarrow> authStore" where
  "updateUsageStatsEntry profileId updater store =
     (let m = (case as_usageStats store of None \<Rightarrow> [] | Some m \<Rightarrow> m)
      in store\<lparr>as_usageStats := Some (AList.update profileId (updater (map_of m profileId)) m)\<rparr>)"

definition keepActiveWindowOrRecompute :: "msTime option \<Rightarrow> msTime \<Rightarrow> msTime \<Rightarrow> msTime" where
  "keepActiveWindowOrRecompute existingUntil now recomputedUntil =
     (case existingUntil of None \<Rightarrow> recomputedUntil | Some u \<Rightarrow> if now < u then u else recomputedUntil)"

definition shouldResetCounters :: "usageStats \<Rightarrow> msTime \<Rightarrow> resolvedCooldown \<Rightarrow> bool" where
  "shouldResetCounters existing now cfg \<longleftrightarrow>
     (case us_lastFailureAt existing of None \<Rightarrow> False | Some t \<Rightarrow> 0 < t \<and> rc_failureWindowMs cfg < now - t) \<or>
     (case resolveProfileUnusableUntil existing of None \<Rightarrow> False | Some u \<Rightarrow> u \<le> now)"

definition countOf :: "(failureReason \<times> int) list \<Rightarrow> failureReason \<Rightarrow> int" where
  "countOf counts reason = (case map_of counts reason of None \<Rightarrow> 0 | Some n \<Rightarrow> n)"

definition computeNextProfileUsageStats ::
    "usageStats \<Rightarrow> msTime \<Rightarrow> failureReason \<Rightarrow> resolvedCooldown \<Rightarrow> usageStats" where
  "computeNextProfileUsageStats existing now reason cfg =
     (let reset = shouldResetCounters existing now cfg;
          baseErrorCount = (if reset then 0 else case us_errorCount existing of None \<Rightarrow> 0 | Some n \<Rightarrow> n);
          nextErrorCount = baseErrorCount + 1;
          counts = (if reset then [] else case us_failureCounts existing of None \<Rightarrow> [] | Some c \<Rightarrow> c);
          failureCounts = AList.update reason (countOf counts reason + 1) counts;
          updated = existing\<lparr>us_errorCount := Some nextErrorCount, us_failureCounts := Some failureCounts,
            us_lastFailureAt := Some now\<rparr>
      in if reason = Billing \<or> reason = AuthPermanent
         then updated\<lparr>us_disabledUntil := Some (keepActiveWindowOrRecompute (us_disabledUntil existing) now
                (now + calculateAuthProfileBillingDisableMsWithConfig (countOf failureCounts reason)
                   (rc_billingBackoffMs cfg) (rc_billingMaxMs cfg))),
              us_disabledReason := Some reason\<rparr>
         else updated\<lparr>us_cooldownUntil := Some (keepActiveWindowOrRecompute (us_cooldownUntil existing) now
                (now + calculateAuthProfileCooldownMs nextErrorCount))\<rparr>)"

text \<open>The pattern all updates share: under the lock on the store read from disk, or else, when
  locking failed, on the caller's own store. The result is the caller's store and what was saved.\<close>

definition withStoreLock ::
    "authStore option \<Rightarrow> (authStore \<Rightarrow> authStore option) \<Rightarrow> authStore \<Rightarrow> authStore \<times> authStore option" where
  "withStoreLock fresh updater store =
     (case fresh of
        Some f \<Rightarrow>
          (case updater f of
             None \<Rightarrow> (store\<lparr>as_usageStats := as_usageStats f\<rparr>, None)
           | Some f' \<Rightarrow> (store\<lparr>as_usageStats := as_usageStats f'\<rparr>, Some f'))
      | None \<Rightarrow>
          (case updater store of None \<Rightarrow> (store, None) | Some s \<Rightarrow> (s, Some s)))"

definition markAuthProfileUsed ::
    "msTime \<Rightarrow> authStore option \<Rightarrow> string \<Rightarrow> authStore \<Rightarrow> authStore \<times> authStore option" where
  "markAuthProfileUsed now fresh profileId store =
     withStoreLock fresh
       (\<lambda>s. if map_of (as_profiles s) profileId = None then None
             else Some (updateUsageStatsEntry profileId
                    (\<lambda>existing. (resetUsageStats existing)\<lparr>us_lastUsed := Some now\<rparr>) s)) store"

definition recordFailure ::
    "cooldownConfig option \<Rightarrow> msTime \<Rightarrow> string \<Rightarrow> failureReason \<Rightarrow> authStore \<Rightarrow> authStore" where
  "recordFailure cfg now profileId reason s =
     updateUsageStatsEntry profileId
       (\<lambda>existing. computeNextProfileUsageStats (case existing of None \<Rightarrow> emptyStats | Some e \<Rightarrow> e) now reason
          (resolveAuthCooldownConfig cfg (normalizeProviderId (providerOf s profileId)))) s"

definition markAuthProfileFailure ::
    "cooldownConfig option \<Rightarrow> msTime \<Rightarrow> authStore option \<Rightarrow> string \<Rightarrow> failureReason \<Rightarrow> authStore \<Rightarrow>
     authStore \<times> authStore option" where
  "markAuthProfileFailure cfg now fresh profileId reason store =
     (if map_of (as_profiles store) profileId = None \<or>
         isAuthCooldownBypassedForProvider (providerOf store profileId) then (store, None)
      else withStoreLock fresh
        (\<lambda>s. if map_of (as_profiles s) profileId = None \<or>
                 isAuthCooldownBypassedForProvider (providerOf s profileId) then None
              else Some (recordFailure cfg now profileId reason s)) store)"

definition markAuthProfileCooldown ::
    "msTime \<Rightarrow> authStore option \<Rightarrow> string \<Rightarrow> authStore \<Rightarrow> authStore \<times> authStore option" where
  "markAuthProfileCooldown now fresh profileId store =
     markAuthProfileFailure None now fresh profileId UnknownReason store"

definition clearAuthProfileCooldown ::
    "authStore option \<Rightarrow> string \<Rightarrow> authStore \<Rightarrow> authStore \<times> authStore option" where
  "clearAuthProfileCooldown fresh profileId store =
     withStoreLock fresh
       (\<lambda>s. if statsOf s profileId = None then None
             else Some (updateUsageStatsEntry profileId resetUsageStats s)) store"

section \<open>Failure reasons are ordered by priority\<close>

fun reasonRank :: "failureReason \<Rightarrow> nat" where
  "reasonRank AuthPermanent = 0"
| "reasonRank AuthFailed = 1"
| "reasonRank Billing = 2"
| "reasonRank FormatError = 3"
| "reasonRank ModelNotFound = 4"
| "reasonRank Overloaded = 5"
| "reasonRank TimedOut = 6"
| "reasonRank RateLimit = 7"
| "reasonRank UnknownReason = 8"
| "reasonRank SessionExpired = 9"

lemma reasonRank_inj: "reasonRank a = reasonRank b \<Longrightarrow> a = b"
  by (cases a; cases b) simp_all

instantiation failureReason :: linorder
begin

definition less_eq_failureReason :: "failureReason \<Rightarrow> failureReason \<Rightarrow> bool" where
  "less_eq_failureReason a b \<longleftrightarrow> reasonRank a \<le> reasonRank b"

definition less_failureReason :: "failureReason \<Rightarrow> failureReason \<Rightarrow> bool" where
  "less_failureReason a b \<longleftrightarrow> reasonRank a < reasonRank b"

instance
proof
  fix a b c :: failureReason
  show "a < b \<longleftrightarrow> a \<le> b \<and> \<not> b \<le> a" by (auto simp: less_eq_failureReason_def less_failureReason_def)
  show "a \<le> a" by (simp add: less_eq_failureReason_def)
  show "a \<le> b \<or> b \<le> a" by (auto simp: less_eq_failureReason_def)
  show "a \<le> b \<Longrightarrow> b \<le> c \<Longrightarrow> a \<le> c" by (simp add: less_eq_failureReason_def)
  show "a \<le> b \<Longrightarrow> b \<le> a \<Longrightarrow> a = b" by (simp add: less_eq_failureReason_def reasonRank_inj)
qed

end

lemma in_reason_set: "r \<in> FAILURE_REASON_SET \<longleftrightarrow> r \<noteq> SessionExpired"
  by (cases r) (simp_all add: FAILURE_REASON_SET_def FAILURE_REASON_PRIORITY_def)

lemma priorityOf_rank: "r \<noteq> SessionExpired \<Longrightarrow> priorityOf r = int (reasonRank r)"
  by (cases r) (simp_all add: priorityOf_def FAILURE_REASON_ORDER_def FAILURE_REASON_PRIORITY_def)

section \<open>Windows\<close>

lemma positives_Cons:
  "positives (v # vs) = (case v of None \<Rightarrow> positives vs | Some t \<Rightarrow> if 0 < t then t # positives vs else positives vs)"
  by (simp add: positives_def split: option.split)

lemma positives_Nil: "positives [] = []"
  by (simp add: positives_def)

lemma unusable_lt:
  "(case resolveProfileUnusableUntil s of None \<Rightarrow> False | Some u \<Rightarrow> ts < u) \<longleftrightarrow>
     isActiveUnusableWindow (us_cooldownUntil s) ts \<or> isActiveUnusableWindow (us_disabledUntil s) ts"
  by (auto simp: resolveProfileUnusableUntil_def positives_Cons positives_Nil isActiveUnusableWindow_def
      split: option.splits)

lemma unusable_le:
  "(case resolveProfileUnusableUntil s of None \<Rightarrow> False | Some u \<Rightarrow> u \<le> ts) \<longleftrightarrow>
     resolveProfileUnusableUntil s \<noteq> None \<and> \<not> isActiveUnusableWindow (us_cooldownUntil s) ts \<and>
     \<not> isActiveUnusableWindow (us_disabledUntil s) ts"
  using unusable_lt [of ts s] by (auto split: option.splits)

lemma unusable_None:
  "resolveProfileUnusableUntil s = None \<longleftrightarrow>
     (\<forall>u. us_cooldownUntil s = Some u \<longrightarrow> u \<le> 0) \<and> (\<forall>u. us_disabledUntil s = Some u \<longrightarrow> u \<le> 0)"
  by (auto simp: resolveProfileUnusableUntil_def positives_Cons positives_Nil split: option.splits)

lemma inCooldown_iff:
  "isProfileInCooldown store i ts \<longleftrightarrow>
     \<not> isAuthCooldownBypassedForProvider (providerOf store i) \<and>
     (\<exists>s. statsOf store i = Some s \<and>
       (isActiveUnusableWindow (us_cooldownUntil s) ts \<or> isActiveUnusableWindow (us_disabledUntil s) ts))"
proof (cases "statsOf store i")
  case (Some s)
  then show ?thesis using unusable_lt [of ts s] by (simp add: isProfileInCooldown_def)
qed (simp add: isProfileInCooldown_def)

lemmas window_defs = isActiveUnusableWindow_def windowExpiredAt_def

lemma clearExpired_active:
  "ts \<le> ts' \<Longrightarrow>
     isActiveUnusableWindow (us_cooldownUntil (snd (clearExpiredStats ts s))) ts' =
       isActiveUnusableWindow (us_cooldownUntil s) ts' \<and>
     isActiveUnusableWindow (us_disabledUntil (snd (clearExpiredStats ts s))) ts' =
       isActiveUnusableWindow (us_disabledUntil s) ts'"
  by (auto simp: clearExpiredStats_def Let_def window_defs split: option.split)

lemma clearExpired_not_expired:
  "\<not> windowExpiredAt (us_cooldownUntil (snd (clearExpiredStats ts s))) ts"
  "\<not> windowExpiredAt (us_disabledUntil (snd (clearExpiredStats ts s))) ts"
  by (auto simp: clearExpiredStats_def Let_def windowExpiredAt_def)

lemma clearExpired_idem:
  "\<not> windowExpiredAt (us_cooldownUntil s) ts \<Longrightarrow> \<not> windowExpiredAt (us_disabledUntil s) ts \<Longrightarrow>
   clearExpiredStats ts s = (False, s)"
  by (simp add: clearExpiredStats_def)

lemma statsOf_clearExpired:
  "statsOf (snd (clearExpiredCooldowns store ts)) i = map_option (\<lambda>s. snd (clearExpiredStats ts s)) (statsOf store i)"
  by (simp add: statsOf_def clearExpiredCooldowns_def map_of_map split: option.split)

lemma providerOf_clearExpired: "providerOf (snd (clearExpiredCooldowns store ts)) i = providerOf store i"
  by (simp add: providerOf_def clearExpiredCooldowns_def split: option.split)

text \<open>Clearing what expired by \<open>ts\<close> never changes whether a profile is in cooldown at \<open>ts\<close> or
  later, leaves no expired window, and doing it twice at one time changes nothing more.\<close>

theorem clear_expired_preserves_availability:
  assumes "ts \<le> ts'"
  shows "(\<forall>i. isProfileInCooldown (snd (clearExpiredCooldowns store ts)) i ts' = isProfileInCooldown store i ts') \<and>
   clearExpiredCooldowns (snd (clearExpiredCooldowns store ts)) ts = (False, snd (clearExpiredCooldowns store ts))"
proof
  note active = clearExpired_active [OF assms]
  show "\<forall>i. isProfileInCooldown (snd (clearExpiredCooldowns store ts)) i ts' =
      isProfileInCooldown store i ts'"
  proof
    fix i
    show "isProfileInCooldown (snd (clearExpiredCooldowns store ts)) i ts' =
      isProfileInCooldown store i ts'"
      by (cases "statsOf store i") (simp_all add: inCooldown_iff providerOf_clearExpired statsOf_clearExpired active)
  qed
  have "clearExpiredStats ts (snd (clearExpiredStats ts s)) = (False, snd (clearExpiredStats ts s))" for s
    by (rule clearExpired_idem [OF clearExpired_not_expired])
  then show "clearExpiredCooldowns (snd (clearExpiredCooldowns store ts)) ts =
      (False, snd (clearExpiredCooldowns store ts))"
    by (simp add: clearExpiredCooldowns_def list_ex_iff comp_def case_prod_beta split: option.split)
qed

definition sampleStats :: usageStats where
  "sampleStats = emptyStats\<lparr>us_cooldownUntil := Some 100, us_errorCount := Some 2\<rparr>"

definition sampleStore :: authStore where
  "sampleStore = \<lparr>as_profiles = [(''p1'', ApiKeyCredential ''openai'' (Some (SecretText ''x'')) None),
       (''p2'', ApiKeyCredential ''openai'' (Some (SecretText ''y'')) None)],
     as_order = None, as_lastGood = None, as_usageStats = Some [(''p1'', sampleStats)]\<rparr>"

theorem clear_expired_preserves_availability_witness:
  "isProfileInCooldown (snd (clearExpiredCooldowns sampleStore 50)) ''p1'' 60 = isProfileInCooldown sampleStore ''p1'' 60"
  using clear_expired_preserves_availability [of 50 60 sampleStore] by simp

section \<open>Backoff\<close>

definition isDisableReason :: "failureReason \<Rightarrow> bool" where
  "isDisableReason r \<longleftrightarrow> r = Billing \<or> r = AuthPermanent"

lemma cooldownMs_bounds:
  "60000 \<le> calculateAuthProfileCooldownMs n" "calculateAuthProfileCooldownMs n \<le> 3600000"
proof -
  have "(1::rat) \<le> 5 ^ nat (min (max 1 n - 1) 3)" by (rule one_le_power) simp
  then show "60000 \<le> calculateAuthProfileCooldownMs n"
    unfolding calculateAuthProfileCooldownMs_def Let_def by simp
  show "calculateAuthProfileCooldownMs n \<le> 3600000"
    unfolding calculateAuthProfileCooldownMs_def Let_def by simp
qed

lemma cooldownMs_one: "n \<le> 1 \<Longrightarrow> calculateAuthProfileCooldownMs n = 60000"
  by (simp add: calculateAuthProfileCooldownMs_def)

text \<open>The ladder: one, five, twenty-five minutes, then an hour.\<close>

lemma cooldownMs_ladder:
  "map calculateAuthProfileCooldownMs [1, 2, 3, 4, 5] = [60000, 300000, 1500000, 3600000, 3600000]"
  by (simp add: calculateAuthProfileCooldownMs_def)

lemma disableMs_bounds:
  "max 60000 base \<le> calculateAuthProfileBillingDisableMsWithConfig n base mx"
  "calculateAuthProfileBillingDisableMsWithConfig n base mx \<le> max (max 60000 base) mx"
proof -
  let ?b = "max 60000 base" and ?e = "nat (min (max 1 n - 1) 10)"
  have "(1::rat) \<le> 2 ^ ?e" by (rule one_le_power) simp
  then have "?b * 1 \<le> ?b * 2 ^ ?e" by (intro mult_left_mono) simp_all
  then show "?b \<le> calculateAuthProfileBillingDisableMsWithConfig n base mx"
    unfolding calculateAuthProfileBillingDisableMsWithConfig_def Let_def by simp
  show "calculateAuthProfileBillingDisableMsWithConfig n base mx \<le> max ?b mx"
    unfolding calculateAuthProfileBillingDisableMsWithConfig_def Let_def by simp
qed

lemma disableMs_one: "n \<le> 1 \<Longrightarrow> calculateAuthProfileBillingDisableMsWithConfig n base mx = max 60000 base"
  by (simp add: calculateAuthProfileBillingDisableMsWithConfig_def)

lemma keep_active:
  "keepActiveWindowOrRecompute u now r = (case u of Some t \<Rightarrow> if now < t then t else r | None \<Rightarrow> r)"
  by (simp add: keepActiveWindowOrRecompute_def split: option.split)

lemma computeNext_windows:
  "isDisableReason r \<Longrightarrow> us_cooldownUntil (computeNextProfileUsageStats s now r cfg) = us_cooldownUntil s"
  "\<not> isDisableReason r \<Longrightarrow> us_disabledUntil (computeNextProfileUsageStats s now r cfg) = us_disabledUntil s"
  "isDisableReason r \<Longrightarrow> \<exists>n. us_disabledUntil (computeNextProfileUsageStats s now r cfg) =
     Some (keepActiveWindowOrRecompute (us_disabledUntil s) now
       (now + calculateAuthProfileBillingDisableMsWithConfig n (rc_billingBackoffMs cfg) (rc_billingMaxMs cfg)))"
  "\<not> isDisableReason r \<Longrightarrow> \<exists>n. us_cooldownUntil (computeNextProfileUsageStats s now r cfg) =
     Some (keepActiveWindowOrRecompute (us_cooldownUntil s) now (now + calculateAuthProfileCooldownMs n))"
  by (auto simp: computeNextProfileUsageStats_def isDisableReason_def Let_def)

text \<open>a failure never moves a window that is still active, and never touches the window of the
  other kind; a window it opens lasts between one minute and an hour for a transient failure, and
  between the billing base and its cap for a billing or permanent-auth failure.\<close>

theorem failure_window_bounds:
  "let s' = computeNextProfileUsageStats s now r cfg; base = max 60000 (rc_billingBackoffMs cfg) in
   if isDisableReason r
   then us_cooldownUntil s' = us_cooldownUntil s \<and>
     (case us_disabledUntil s' of None \<Rightarrow> False
      | Some u \<Rightarrow> if us_disabledUntil s = Some u \<and> now < u then True
                 else (case us_disabledUntil s of None \<Rightarrow> True | Some t \<Rightarrow> t \<le> now) \<and>
                   now + base \<le> u \<and> u \<le> now + max base (rc_billingMaxMs cfg))
   else us_disabledUntil s' = us_disabledUntil s \<and>
     (case us_cooldownUntil s' of None \<Rightarrow> False
      | Some u \<Rightarrow> if us_cooldownUntil s = Some u \<and> now < u then True
                 else (case us_cooldownUntil s of None \<Rightarrow> True | Some t \<Rightarrow> t \<le> now) \<and>
                   now + 60000 \<le> u \<and> u \<le> now + 3600000)"
proof (cases "isDisableReason r")
  case True
  obtain n where n: "us_disabledUntil (computeNextProfileUsageStats s now r cfg) =
     Some (keepActiveWindowOrRecompute (us_disabledUntil s) now
       (now + calculateAuthProfileBillingDisableMsWithConfig n (rc_billingBackoffMs cfg) (rc_billingMaxMs cfg)))"
    using computeNext_windows(3) [OF True] by blast
  show ?thesis
    using True disableMs_bounds [where base = "rc_billingBackoffMs cfg" and n = n and mx = "rc_billingMaxMs cfg"]
    by (auto simp: Let_def computeNext_windows(1) n keep_active split: option.split)
next
  case False
  obtain n where n: "us_cooldownUntil (computeNextProfileUsageStats s now r cfg) =
     Some (keepActiveWindowOrRecompute (us_cooldownUntil s) now (now + calculateAuthProfileCooldownMs n))"
    using computeNext_windows(4) [OF False] by blast
  show ?thesis
    using False cooldownMs_bounds [of n]
    by (auto simp: Let_def computeNext_windows(2) n keep_active split: option.split)
qed

section \<open>Which windows are ever opened\<close>

datatype profileEvent =
    Failed failureReason msTime
  | Used msTime
  | Cleared
  | Expired msTime

definition profileStep :: "resolvedCooldown \<Rightarrow> profileEvent \<Rightarrow> usageStats \<Rightarrow> usageStats" where
  "profileStep cfg e s = (case e of
     Failed r now \<Rightarrow> computeNextProfileUsageStats s now r cfg
   | Used now \<Rightarrow> (resetUsageStats (Some s))\<lparr>us_lastUsed := Some now\<rparr>
   | Cleared \<Rightarrow> resetUsageStats (Some s)
   | Expired now \<Rightarrow> snd (clearExpiredStats now s))"

text \<open>The stats a profile can reach when its failures all have reasons in \<open>R\<close>; times are positive.\<close>

inductive reachableStats :: "failureReason set \<Rightarrow> resolvedCooldown \<Rightarrow> usageStats \<Rightarrow> bool"
  for R :: "failureReason set" and cfg :: resolvedCooldown where
  reach_init: "reachableStats R cfg emptyStats"
| reach_failed: "reachableStats R cfg s \<Longrightarrow> r \<in> R \<Longrightarrow> 0 < now \<Longrightarrow>
    reachableStats R cfg (profileStep cfg (Failed r now) s)"
| reach_used: "reachableStats R cfg s \<Longrightarrow> reachableStats R cfg (profileStep cfg (Used now) s)"
| reach_cleared: "reachableStats R cfg s \<Longrightarrow> reachableStats R cfg (profileStep cfg Cleared s)"
| reach_expired: "reachableStats R cfg s \<Longrightarrow> reachableStats R cfg (profileStep cfg (Expired now) s)"

text \<open>With failures of one kind only, the other window stays unset, and the counters are zero
  whenever this kind's window is unset.\<close>

definition freshCounters :: "usageStats \<Rightarrow> bool" where
  "freshCounters s \<longleftrightarrow> us_errorCount s \<in> {None, Some 0} \<and> us_failureCounts s \<in> {None, Some []}"

definition onlyWindow ::
    "(usageStats \<Rightarrow> msTime option) \<Rightarrow> (usageStats \<Rightarrow> msTime option) \<Rightarrow> usageStats \<Rightarrow> bool" where
  "onlyWindow this other s \<longleftrightarrow> other s = None \<and> (this s = None \<longrightarrow> freshCounters s) \<and> (\<forall>u. this s = Some u \<longrightarrow> 0 < u)"

lemma compute_reset_or_fresh:
  assumes "shouldResetCounters s now cfg \<or> freshCounters s"
  shows "\<not> isDisableReason r \<Longrightarrow> us_cooldownUntil (computeNextProfileUsageStats s now r cfg) =
      Some (keepActiveWindowOrRecompute (us_cooldownUntil s) now (now + 60000))"
    and "isDisableReason r \<Longrightarrow> us_disabledUntil (computeNextProfileUsageStats s now r cfg) =
      Some (keepActiveWindowOrRecompute (us_disabledUntil s) now (now + max 60000 (rc_billingBackoffMs cfg)))"
  using assms
  by (auto simp: computeNextProfileUsageStats_def isDisableReason_def Let_def freshCounters_def countOf_def
      cooldownMs_one disableMs_one map_of_update_iff split: option.split)

lemma resets_when_inactive:
  "this s = Some u \<Longrightarrow> other s = None \<Longrightarrow> 0 < u \<Longrightarrow> u \<le> now \<Longrightarrow>
   (this, other) \<in> {(us_cooldownUntil, us_disabledUntil), (us_disabledUntil, us_cooldownUntil)} \<Longrightarrow>
   shouldResetCounters s now cfg"
  by (auto simp: shouldResetCounters_def unusable_le unusable_None isActiveUnusableWindow_def)

lemma only_cooldown_opens:
  assumes "onlyWindow us_cooldownUntil us_disabledUntil s" "\<not> isDisableReason r"
  shows "us_cooldownUntil (computeNextProfileUsageStats s now r cfg) =
    Some (keepActiveWindowOrRecompute (us_cooldownUntil s) now (now + 60000))"
proof (cases "us_cooldownUntil s")
  case None
  with assms show ?thesis by (intro compute_reset_or_fresh(1)) (auto simp: onlyWindow_def)
next
  case (Some u)
  show ?thesis
  proof (cases "now < u")
    case True
    with Some show ?thesis using computeNext_windows(4) [OF assms(2), of s now cfg] by (auto simp: keep_active)
  next
    case False
    then have "shouldResetCounters s now cfg"
      using assms Some by (intro resets_when_inactive [of us_cooldownUntil s u us_disabledUntil]) (auto simp: onlyWindow_def)
    then show ?thesis by (intro compute_reset_or_fresh(1) disjI1 assms(2))
  qed
qed

lemma only_disable_opens:
  assumes "onlyWindow us_disabledUntil us_cooldownUntil s" "isDisableReason r"
  shows "us_disabledUntil (computeNextProfileUsageStats s now r cfg) =
    Some (keepActiveWindowOrRecompute (us_disabledUntil s) now (now + max 60000 (rc_billingBackoffMs cfg)))"
proof (cases "us_disabledUntil s")
  case None
  with assms show ?thesis by (intro compute_reset_or_fresh(2)) (auto simp: onlyWindow_def)
next
  case (Some u)
  show ?thesis
  proof (cases "now < u")
    case True
    with Some show ?thesis using computeNext_windows(3) [OF assms(2), of s now cfg] by (auto simp: keep_active)
  next
    case False
    then have "shouldResetCounters s now cfg"
      using assms Some by (intro resets_when_inactive [of us_disabledUntil s u us_cooldownUntil]) (auto simp: onlyWindow_def)
    then show ?thesis by (intro compute_reset_or_fresh(2) disjI1 assms(2))
  qed
qed

lemma onlyWindow_reset:
  "onlyWindow us_cooldownUntil us_disabledUntil (resetUsageStats s)"
  "onlyWindow us_disabledUntil us_cooldownUntil (resetUsageStats s)"
  "onlyWindow us_cooldownUntil us_disabledUntil ((resetUsageStats s)\<lparr>us_lastUsed := l\<rparr>)"
  "onlyWindow us_disabledUntil us_cooldownUntil ((resetUsageStats s)\<lparr>us_lastUsed := l\<rparr>)"
  by (simp_all add: onlyWindow_def resetUsageStats_def freshCounters_def)

lemma onlyWindow_expired:
  "onlyWindow us_cooldownUntil us_disabledUntil s \<Longrightarrow>
     onlyWindow us_cooldownUntil us_disabledUntil (snd (clearExpiredStats now s))"
  "onlyWindow us_disabledUntil us_cooldownUntil s \<Longrightarrow>
     onlyWindow us_disabledUntil us_cooldownUntil (snd (clearExpiredStats now s))"
  by (auto simp: onlyWindow_def clearExpiredStats_def Let_def freshCounters_def unusable_None windowExpiredAt_def
      split: option.splits)

lemma reachable_only_cooldown:
  "reachableStats R cfg s \<Longrightarrow> (\<And>r. r \<in> R \<Longrightarrow> \<not> isDisableReason r) \<Longrightarrow>
   onlyWindow us_cooldownUntil us_disabledUntil s"
proof (induction rule: reachableStats.induct)
  case (reach_failed s r now)
  then have nd: "\<not> isDisableReason r" and ow: "onlyWindow us_cooldownUntil us_disabledUntil s" by auto
  show ?case
    using only_cooldown_opens [OF ow nd, of now cfg] computeNext_windows(2) [OF nd, of s now cfg] ow reach_failed.hyps
    by (auto simp: profileStep_def onlyWindow_def keep_active split: option.splits)
qed (auto simp: profileStep_def onlyWindow_reset onlyWindow_expired, simp add: onlyWindow_def freshCounters_def emptyStats_def)

lemma reachable_only_disable:
  "reachableStats R cfg s \<Longrightarrow> (\<And>r. r \<in> R \<Longrightarrow> isDisableReason r) \<Longrightarrow>
   onlyWindow us_disabledUntil us_cooldownUntil s"
proof (induction rule: reachableStats.induct)
  case (reach_failed s r now)
  then have nd: "isDisableReason r" and ow: "onlyWindow us_disabledUntil us_cooldownUntil s" by auto
  show ?case
    using only_disable_opens [OF ow nd, of now cfg] computeNext_windows(1) [OF nd, of s now cfg] ow reach_failed.hyps
    by (auto simp: profileStep_def onlyWindow_def keep_active split: option.splits)
qed (auto simp: profileStep_def onlyWindow_reset onlyWindow_expired, simp add: onlyWindow_def freshCounters_def emptyStats_def)

text \<open>The backoff ladders are never climbed by failures of one kind: however often a profile fails
  transiently, is used, cleared or expires, each cooldown it gets lasts one minute (a failure within the
  window does not move it, one after the window starts afresh); and however often it fails for
  billing or permanent auth alone, each disable window has the base length.\<close>

theorem backoff_never_escalates:
  assumes "reachableStats R cfg s" "r \<in> R"
    and "(\<forall>q\<in>R. \<not> isDisableReason q) \<or> (\<forall>q\<in>R. isDisableReason q)"
  shows "if isDisableReason r
    then us_disabledUntil (profileStep cfg (Failed r now) s) =
      Some (if isActiveUnusableWindow (us_disabledUntil s) now then the (us_disabledUntil s)
            else now + max 60000 (rc_billingBackoffMs cfg))
    else us_cooldownUntil (profileStep cfg (Failed r now) s) =
      Some (if isActiveUnusableWindow (us_cooldownUntil s) now then the (us_cooldownUntil s) else now + 60000)"
proof (cases "isDisableReason r")
  case True
  with assms have ow: "onlyWindow us_disabledUntil us_cooldownUntil s" by (intro reachable_only_disable) auto
  show ?thesis
    using True only_disable_opens [OF ow True, of now cfg] ow
    by (auto simp: profileStep_def keep_active isActiveUnusableWindow_def onlyWindow_def split: option.splits)
next
  case False
  with assms have ow: "onlyWindow us_cooldownUntil us_disabledUntil s" by (intro reachable_only_cooldown) auto
  show ?thesis
    using False only_cooldown_opens [OF ow False, of now cfg] ow
    by (auto simp: profileStep_def keep_active isActiveUnusableWindow_def onlyWindow_def split: option.splits)
qed

theorem backoff_never_escalates_witness:
  "let cfg = resolveAuthCooldownConfig None ''openai'';
       s = profileStep cfg (Failed RateLimit 61000) (profileStep cfg (Failed RateLimit 1000) emptyStats)
   in us_cooldownUntil (profileStep cfg (Failed RateLimit 121000) s) = Some (121000 + 60000)"
proof -
  define cfg where "cfg = resolveAuthCooldownConfig None ''openai''"
  have s1: "reachableStats {RateLimit} cfg (profileStep cfg (Failed RateLimit 1000) emptyStats)"
    by (intro reach_init reach_failed) simp_all
  note s2 = reach_failed [OF s1, of RateLimit 61000]
  have "us_cooldownUntil (profileStep cfg (Failed RateLimit 1000) emptyStats) = Some 61000"
    using backoff_never_escalates [OF reach_init, of RateLimit "{RateLimit}" cfg 1000]
    by (simp add: isDisableReason_def isActiveUnusableWindow_def emptyStats_def)
  then have "us_cooldownUntil (profileStep cfg (Failed RateLimit 61000)
      (profileStep cfg (Failed RateLimit 1000) emptyStats)) = Some 121000"
    using backoff_never_escalates [OF s1, of RateLimit 61000]
    by (simp add: isDisableReason_def isActiveUnusableWindow_def)
  then show ?thesis
    using backoff_never_escalates [OF s2, of RateLimit 121000]
    by (simp add: isDisableReason_def isActiveUnusableWindow_def cfg_def [symmetric] Let_def)
qed

section \<open>The reason no profile is available\<close>

text \<open>What one profile says for a reason: 1000 for the reason it is disabled for, otherwise the failure
  counts of an active cooldown, otherwise one for \<open>unknown\<close>.\<close>

definition countedFailures :: "usageStats \<Rightarrow> (failureReason \<times> int) list" where
  "countedFailures s = filter (\<lambda>(r, c). r \<noteq> SessionExpired \<and> 0 < c)
     (case us_failureCounts s of None \<Rightarrow> [] | Some cs \<Rightarrow> cs)"

definition evidence :: "msTime \<Rightarrow> usageStats \<Rightarrow> failureReason \<Rightarrow> int" where
  "evidence now s r =
     (if isActiveUnusableWindow (us_disabledUntil s) now \<and> us_disabledReason s \<notin> {None, Some SessionExpired}
      then (if us_disabledReason s = Some r then 1000 else 0)
      else if \<not> isActiveUnusableWindow (us_cooldownUntil s) now then 0
      else if countedFailures s = [] then (if r = UnknownReason then 1 else 0)
      else sum_list (map snd (filter (\<lambda>(r', c). r' = r) (countedFailures s))))"

definition totalEvidence :: "authStore \<Rightarrow> string list \<Rightarrow> msTime \<Rightarrow> failureReason \<Rightarrow> int" where
  "totalEvidence store ids now r =
     sum_list (map (\<lambda>i. case statsOf store i of None \<Rightarrow> 0 | Some s \<Rightarrow> evidence now s r) ids)"

definition scoreIn :: "reasonScores \<Rightarrow> failureReason \<Rightarrow> int" where
  "scoreIn scores r = (case map_of scores r of None \<Rightarrow> 0 | Some s \<Rightarrow> s)"

definition scoresOk :: "reasonScores \<Rightarrow> bool" where
  "scoresOk scores \<longleftrightarrow> (\<forall>r s. map_of scores r = Some s \<longrightarrow> 0 < s \<and> r \<noteq> SessionExpired)"

lemma scoresOk_addScore: "scoresOk sc \<Longrightarrow> scoresOk (addScore r v sc)"
  by (auto simp: scoresOk_def addScore_def map_of_update_iff in_reason_set split: option.split)
    (smt (verit, best) option.inject)+

lemma scoreIn_addScore:
  "scoreIn (addScore r v sc) r' = scoreIn sc r' + (if r' = r \<and> r \<noteq> SessionExpired \<and> 0 < v then v else 0)"
  by (auto simp: scoreIn_def addScore_def map_of_update_iff in_reason_set)

lemma addCounts_spec:
  "addCounts cs sc b = (sc', b') \<Longrightarrow> scoresOk sc \<Longrightarrow>
     scoresOk sc' \<and> (b' \<longleftrightarrow> b \<or> filter (\<lambda>(r, c). r \<noteq> SessionExpired \<and> 0 < c) cs \<noteq> []) \<and>
     scoreIn sc' r = scoreIn sc r + sum_list (map snd (filter (\<lambda>(r', c). r' = r)
       (filter (\<lambda>(r, c). r \<noteq> SessionExpired \<and> 0 < c) cs)))"
proof (induction cs sc b arbitrary: sc' b' rule: addCounts.induct)
  case (2 q c cs sc b)
  show ?case
  proof (cases "q \<notin> FAILURE_REASON_SET \<or> c \<le> 0")
    case True
    then have "\<not> (q \<noteq> SessionExpired \<and> 0 < c)" by (auto simp: in_reason_set)
    moreover have "addCounts cs sc b = (sc', b')" using 2(3) True by simp
    ultimately show ?thesis using 2(1) [OF True] 2(4) by auto
  next
    case False
    then have "addCounts cs (addScore q c sc) True = (sc', b')" using 2(3) by simp
    from 2(2) [OF False this scoresOk_addScore [OF 2(4)]] False show ?thesis
      by (auto simp: in_reason_set scoreIn_addScore)
  qed
qed simp

lemma scoreProfile_spec:
  assumes "scoresOk sc"
  shows "scoresOk (scoreProfile now s sc)" "scoreIn (scoreProfile now s sc) r = scoreIn sc r + evidence now s r"
proof -
  let ?cs = "case us_failureCounts s of None \<Rightarrow> [] | Some cs \<Rightarrow> cs"
  obtain sc' b' where a: "addCounts ?cs sc False = (sc', b')" by fastforce
  note ac = addCounts_spec [OF a assms, folded countedFailures_def]
  show "scoresOk (scoreProfile now s sc)"
    using assms ac by (simp add: scoreProfile_def a scoresOk_addScore Let_def)
  show "scoreIn (scoreProfile now s sc) r = scoreIn sc r + evidence now s r"
    using ac [of r] by (auto simp: scoreProfile_def evidence_def a Let_def in_reason_set scoreIn_addScore
        split: option.splits)
qed

lemma scoreProfiles_spec:
  "scoresOk sc \<Longrightarrow> scoresOk (scoreProfiles store now ids sc) \<and>
     scoreIn (scoreProfiles store now ids sc) r = scoreIn sc r + totalEvidence store ids now r"
  by (induction store now ids sc rule: scoreProfiles.induct)
    (auto simp: totalEvidence_def scoreProfile_spec split: option.splits)

definition pickInv :: "reasonScores \<Rightarrow> failureReason list \<Rightarrow> failureReason option \<times> int \<times> int \<Rightarrow> bool" where
  "pickInv scores done acc \<longleftrightarrow> (case acc of
     (None, bs, bp) \<Rightarrow> bs = -1 \<and> (\<forall>r\<in>set done. map_of scores r = None)
   | (Some b, bs, bp) \<Rightarrow> b \<in> set done \<and> map_of scores b = Some bs \<and> bp = int (reasonRank b) \<and>
       (\<forall>r\<in>set done. \<forall>s. map_of scores r = Some s \<longrightarrow> s < bs \<or> (s = bs \<and> b \<le> r)))"

lemma pickInv_step:
  assumes "scoresOk scores" "pickInv scores done acc" "r \<noteq> SessionExpired"
  shows "pickInv scores (done @ [r]) (pickStep scores r acc)"
proof -
  obtain best bs bp where acc: "acc = (best, bs, bp)" by (cases acc)
  show ?thesis
  proof (cases "map_of scores r")
    case None
    with assms(2) show ?thesis by (auto simp: acc pickInv_def pickStep_def split: option.splits)
  next
    case (Some s)
    then have s: "0 < s" using assms(1) by (auto simp: scoresOk_def)
    show ?thesis
    proof (cases best)
      case None
      with assms(2) Some s priorityOf_rank [OF assms(3)] show ?thesis
        by (auto simp: acc pickInv_def pickStep_def)
    next
      case (Some b)
      with assms(2) \<open>map_of scores r = Some s\<close> priorityOf_rank [OF assms(3)] show ?thesis
        by (auto simp: acc pickInv_def pickStep_def less_eq_failureReason_def)
    qed
  qed
qed

lemma pickInv_fold:
  assumes "scoresOk scores" "\<And>r. r \<in> set rs \<Longrightarrow> r \<noteq> SessionExpired"
  shows "pickInv scores rs (fold (pickStep scores) rs (None, -1, MAX_SAFE_INTEGER))"
  using assms(2)
proof (induction rs rule: rev_induct)
  case Nil
  then show ?case by (simp add: pickInv_def)
next
  case (snoc r rs)
  then show ?case using pickInv_step [OF assms(1), of rs _ r] by simp
qed

lemma set_priority: "set FAILURE_REASON_PRIORITY = {r. r \<noteq> SessionExpired}"
  using in_reason_set by (auto simp: FAILURE_REASON_SET_def)

text \<open>The reason reported for a set of unavailable profiles is the one with the most evidence in
  their active windows, the most severe one among equals; none is reported if there is no evidence.\<close>

theorem unavailable_reason_strongest:
  "resolveProfilesUnavailableReason store ids now = Some r \<longleftrightarrow>
     0 < totalEvidence store ids now r \<and>
     (\<forall>q. totalEvidence store ids now q < totalEvidence store ids now r \<or>
          totalEvidence store ids now q = totalEvidence store ids now r \<and> r \<le> q)"
proof -
  define sc where "sc = scoreProfiles store now ids []"
  define E where "E = totalEvidence store ids now"
  have ok: "scoresOk sc" and sE: "\<And>q. scoreIn sc q = E q"
    using scoreProfiles_spec [of "[]" store now ids] by (auto simp: sc_def E_def scoresOk_def scoreIn_def)
  have D: "0 < s \<and> q \<noteq> SessionExpired" if "map_of sc q = Some s" for q s
    using ok that unfolding scoresOk_def by blast
  have ev: "map_of sc q = (if E q = 0 then None else Some (E q)) \<and> 0 \<le> E q" for q
  proof (cases "map_of sc q")
    case (Some s)
    with sE [of q] D [OF Some] show ?thesis by (simp add: scoreIn_def)
  qed (use sE [of q] in \<open>simp add: scoreIn_def\<close>)
  have "pickInv sc FAILURE_REASON_PRIORITY (fold (pickStep sc) FAILURE_REASON_PRIORITY (None, -1, MAX_SAFE_INTEGER))"
    by (rule pickInv_fold [OF ok]) (simp add: set_priority)
  then obtain best bs bp where f: "fold (pickStep sc) FAILURE_REASON_PRIORITY (None, -1, MAX_SAFE_INTEGER) = (best, bs, bp)"
    and inv: "pickInv sc FAILURE_REASON_PRIORITY (best, bs, bp)" by (metis prod_cases3)
  have res: "resolveProfilesUnavailableReason store ids now = (if sc = [] then None else best)"
    by (simp add: resolveProfilesUnavailableReason_def Let_def sc_def [symmetric] f)
  show ?thesis
  proof (cases "\<exists>q. 0 < E q")
    case False
    then have "map_of sc q = None" for q using ev [of q] by (auto simp: not_less order.antisym)
    then have "map_of sc = Map.empty" by (intro ext) simp
    then have "sc = []" by simp
    with res False show ?thesis by (simp add: E_def)
  next
    case True
    then obtain q where q: "map_of sc q = Some (E q)" using ev by (metis less_irrefl)
    then have "sc \<noteq> []" "q \<in> set FAILURE_REASON_PRIORITY" using D by (auto simp: set_priority)
    with inv q obtain b where b: "best = Some b" by (cases best) (auto simp: pickInv_def)
    with inv have m: "map_of sc b = Some bs"
      and top: "\<And>r s. map_of sc r = Some s \<Longrightarrow> s < bs \<or> (s = bs \<and> b \<le> r)"
      using D by (auto simp: pickInv_def set_priority)
    have Eb: "E b = bs" "0 < bs" using m ev [of b] D [OF m] by (auto split: if_splits)
    have max: "E r < E b \<or> (E r = E b \<and> b \<le> r)" for r
      using top [of r "E r"] ev [of r] Eb by (cases "E r = 0") auto
    have "(\<forall>q. E q < E r \<or> E q = E r \<and> r \<le> q) \<and> 0 < E r \<longleftrightarrow> b = r" for r
      using max Eb by (metis less_asym order.antisym order.strict_iff_not)
    then show ?thesis using \<open>sc \<noteq> []\<close> by (auto simp: res b E_def)
  qed
qed

section \<open>Success and manual reset\<close>

lemma statsOf_updateEntry:
  "statsOf (updateUsageStatsEntry i f store) j = (if j = i then Some (f (statsOf store i)) else statsOf store j)"
  by (auto simp: statsOf_def updateUsageStatsEntry_def Let_def map_of_update_iff split: option.splits)

lemma statsOf_usageStats: "statsOf (s\<lparr>as_usageStats := as_usageStats f\<rparr>) j = statsOf f j"
  by (simp add: statsOf_def)

lemma reset_windows:
  "us_cooldownUntil (resetUsageStats e) = None" "us_disabledUntil (resetUsageStats e) = None"
  by (simp_all add: resetUsageStats_def)

lemma not_inCooldown_reset:
  "statsOf store i = Some s \<Longrightarrow> us_cooldownUntil s = None \<Longrightarrow> us_disabledUntil s = None \<Longrightarrow>
   \<not> isProfileInCooldown store i t"
  by (simp add: inCooldown_iff isActiveUnusableWindow_def)

text \<open>A success ends every window of the profile, with or without the file lock, on disk and in the
  caller's store; the other profiles keep the stats of the store that was updated, which are the
  ones on disk when the lock was held, and the credentials do not change.\<close>

theorem success_restores_profile:
  assumes "map_of (as_profiles (case fresh of Some f \<Rightarrow> f | None \<Rightarrow> store)) i \<noteq> None"
    and "markAuthProfileUsed now fresh i store = (store', saved)"
  shows "\<not> isProfileInCooldown store' i t \<and> as_profiles store' = as_profiles store \<and>
    (\<forall>j. j \<noteq> i \<longrightarrow> statsOf store' j = statsOf (case fresh of Some f \<Rightarrow> f | None \<Rightarrow> store) j) \<and>
    (\<exists>d. saved = Some d \<and> (\<forall>j. statsOf d j = statsOf store' j))"
proof -
  let ?src = "case fresh of Some f \<Rightarrow> f | None \<Rightarrow> store"
  let ?f = "\<lambda>existing. (resetUsageStats existing)\<lparr>us_lastUsed := Some now\<rparr>"
  have s: "saved = Some (updateUsageStatsEntry i ?f ?src)"
    "as_usageStats store' = as_usageStats (updateUsageStatsEntry i ?f ?src)"
    "as_profiles store' = as_profiles store"
    using assms
    by (auto simp: markAuthProfileUsed_def withStoreLock_def updateUsageStatsEntry_def Let_def split: option.splits)
  have "statsOf store' j = statsOf (updateUsageStatsEntry i ?f ?src) j" for j
    using s(2) by (simp add: statsOf_def)
  note st = this [unfolded statsOf_updateEntry]
  have "\<not> isProfileInCooldown store' i t"
    by (rule not_inCooldown_reset [of _ _ "?f (statsOf ?src i)"]) (simp_all add: st reset_windows)
  then show ?thesis using s by (simp add: st statsOf_updateEntry)
qed

theorem success_restores_profile_witness:
  "isProfileInCooldown sampleStore ''p1'' 50 \<and>
   \<not> isProfileInCooldown (fst (markAuthProfileUsed 50 None ''p1'' sampleStore)) ''p1'' 50"
proof
  show "isProfileInCooldown sampleStore ''p1'' 50" by code_simp
  show "\<not> isProfileInCooldown (fst (markAuthProfileUsed 50 None ''p1'' sampleStore)) ''p1'' 50"
    using success_restores_profile [where fresh = None and store = sampleStore and i = "''p1''" and t = 50,
        OF _ prod.collapse [symmetric]]
    by (simp add: sampleStore_def)
qed

section \<open>A reason the report does not know\<close>

text \<open>\<open>session_expired\<close> is a failure reason that the priority list leaves out: three such failures
  are reported as one of unknown cause.\<close>

lemma session_expired_reported_unknown:
  "resolveProfilesUnavailableReason
     (sampleStore\<lparr>as_usageStats := Some [(''p1'',
        sampleStats\<lparr>us_failureCounts := Some [(SessionExpired, 3)]\<rparr>)]\<rparr>) [''p1''] 50 = Some UnknownReason"
  by code_simp

end
