(* ===== verification/Auth_Order.thy ===== *)
theory Auth_Order
  imports Auth_Profiles "HOL-Library.Product_Lexorder" "HOL-Library.Multiset"
begin

text \<open>
  \<open>src/agents/auth-profiles/order.ts\<close>, \<open>credential-state.ts\<close>, parts of \<open>profiles.ts\<close> and the
  secret references of \<open>src/config/types.secrets.ts\<close>: which stored credentials may be used for a
  provider, and in which order they are tried. The clock is read once per call.
\<close>

section \<open>Credentials\<close>

definition DEFAULT_SECRET_PROVIDER_ALIAS :: string where "DEFAULT_SECRET_PROVIDER_ALIAS = ''default''"

definition knownSource :: "string option \<Rightarrow> bool" where
  "knownSource source \<longleftrightarrow> source = Some ''env'' \<or> source = Some ''file'' \<or> source = Some ''exec''"

definition nonBlank :: "string option \<Rightarrow> bool" where
  "nonBlank v \<longleftrightarrow> js_trim (js_or_empty v) \<noteq> []"

text \<open>An object with the fields \<open>source\<close>, \<open>provider\<close> and \<open>id\<close>, where present, and no others.\<close>

definition isSecretRef :: "secretValue \<Rightarrow> bool" where
  "isSecretRef v = (case v of
     SecretText s \<Rightarrow> False
   | SecretObject source provider i \<Rightarrow> knownSource source \<and> nonBlank provider \<and> nonBlank i)"

definition isLegacySecretRefWithoutProvider :: "secretValue \<Rightarrow> bool" where
  "isLegacySecretRefWithoutProvider v = (case v of
     SecretText s \<Rightarrow> False
   | SecretObject source provider i \<Rightarrow> knownSource source \<and> nonBlank i \<and> provider = None)"

definition isUpper :: "char \<Rightarrow> bool" where
  "isUpper c = (let n = (of_char c :: nat) in 65 \<le> n \<and> n \<le> 90)"

definition isEnvChar :: "char \<Rightarrow> bool" where
  "isEnvChar c = (let n = (of_char c :: nat) in (65 \<le> n \<and> n \<le> 90) \<or> (48 \<le> n \<and> n \<le> 57) \<or> n = 95)"

text \<open>\<open>^\$\{([A-Z][A-Z0-9_]{0,127})\}$\<close>: the name between the braces.\<close>

definition envTemplateId :: "string \<Rightarrow> string option" where
  "envTemplateId s =
     (if prefix ''${'' s \<and> last s = CHR ''}'' \<and> 3 < length s
      then (let i = drop 2 (butlast s) in
        if isUpper (hd i) \<and> list_all isEnvChar (tl i) \<and> length i \<le> 128 then Some i else None)
      else None)"

definition parseEnvTemplateSecretRef :: "secretValue \<Rightarrow> (string \<times> string \<times> string) option" where
  "parseEnvTemplateSecretRef v = (case v of
     SecretText s \<Rightarrow> map_option (\<lambda>i. (''env'', DEFAULT_SECRET_PROVIDER_ALIAS, i)) (envTemplateId (js_trim s))
   | SecretObject source provider i \<Rightarrow> None)"

definition coerceSecretRef :: "secretValue \<Rightarrow> (string \<times> string \<times> string) option" where
  "coerceSecretRef v = (case v of
     SecretObject source provider i \<Rightarrow>
       if isSecretRef v then Some (js_or_empty source, js_or_empty provider, js_or_empty i)
       else if isLegacySecretRefWithoutProvider v
       then Some (js_or_empty source, DEFAULT_SECRET_PROVIDER_ALIAS, js_or_empty i)
       else parseEnvTemplateSecretRef v
   | SecretText s \<Rightarrow> parseEnvTemplateSecretRef v)"

definition normalizeSecretInputString :: "secretValue option \<Rightarrow> string option" where
  "normalizeSecretInputString v = (case v of Some (SecretText s) \<Rightarrow> js_some (js_trim s) | _ \<Rightarrow> None)"

definition hasConfiguredSecretRef :: "secretValue option \<Rightarrow> bool" where
  "hasConfiguredSecretRef v \<longleftrightarrow> Option.bind v coerceSecretRef \<noteq> None"

definition hasConfiguredSecretString :: "secretValue option \<Rightarrow> bool" where
  "hasConfiguredSecretString v \<longleftrightarrow> normalizeSecretInputString v \<noteq> None"

datatype tokenExpiryState = ExpiryMissing | ExpiryValid | ExpiryExpired | ExpiryInvalid

definition resolveTokenExpiryState :: "expiresField \<Rightarrow> msTime \<Rightarrow> tokenExpiryState" where
  "resolveTokenExpiryState expires now = (case expires of
     NoExpiry \<Rightarrow> ExpiryMissing
   | ExpiryNotANumber \<Rightarrow> ExpiryInvalid
   | ExpiresAt t \<Rightarrow> if t \<le> 0 then ExpiryInvalid else if t \<le> now then ExpiryExpired else ExpiryValid)"

datatype eligibilityReason =
    EligOk | MissingCredential | InvalidExpires | TokenExpired | ProfileMissing | ProviderMismatch | ModeMismatch

definition evaluateStoredCredentialEligibility :: "authCredential \<Rightarrow> msTime \<Rightarrow> bool \<times> eligibilityReason" where
  "evaluateStoredCredentialEligibility credential now = (case credential of
     ApiKeyCredential p key keyRef \<Rightarrow>
       if \<not> hasConfiguredSecretString key \<and> \<not> hasConfiguredSecretRef keyRef then (False, MissingCredential)
       else (True, EligOk)
   | TokenCredential p token tokenRef expires \<Rightarrow>
       if \<not> hasConfiguredSecretString token \<and> \<not> hasConfiguredSecretRef tokenRef then (False, MissingCredential)
       else (case resolveTokenExpiryState expires now of
               ExpiryInvalid \<Rightarrow> (False, InvalidExpires)
             | ExpiryExpired \<Rightarrow> (False, TokenExpired)
             | _ \<Rightarrow> (True, EligOk))
   | OAuthCredential p access refresh \<Rightarrow>
       if normalizeSecretInputString access = None \<and> normalizeSecretInputString refresh = None
       then (False, MissingCredential) else (True, EligOk))"

section \<open>Eligible profiles\<close>

datatype credentialMode = ModeApiKey | ModeOAuth | ModeToken

fun credMode :: "authCredential \<Rightarrow> credentialMode" where
  "credMode (ApiKeyCredential p key keyRef) = ModeApiKey"
| "credMode (TokenCredential p token tokenRef expires) = ModeToken"
| "credMode (OAuthCredential p access refresh) = ModeOAuth"

record authConfig =
  ac_profiles :: "(string \<times> string \<times> credentialMode) list option"
  ac_order :: "(string \<times> string list) list option"

definition resolveAuthProfileEligibility ::
    "authConfig \<Rightarrow> authStore \<Rightarrow> string \<Rightarrow> string \<Rightarrow> msTime \<Rightarrow> bool \<times> eligibilityReason" where
  "resolveAuthProfileEligibility cfg store provider profileId now =
     (let providerAuthKey = normalizeProviderIdForAuth provider in
      case map_of (as_profiles store) profileId of
        None \<Rightarrow> (False, ProfileMissing)
      | Some cred \<Rightarrow>
          if normalizeProviderIdForAuth (credProvider cred) \<noteq> providerAuthKey then (False, ProviderMismatch)
          else (case Option.bind (ac_profiles cfg) (\<lambda>m. map_of m profileId) of
              None \<Rightarrow> evaluateStoredCredentialEligibility cred now
            | Some (cfgProvider, mode) \<Rightarrow>
                if normalizeProviderIdForAuth cfgProvider \<noteq> providerAuthKey then (False, ProviderMismatch)
                else if mode \<noteq> credMode cred \<and> \<not> (mode = ModeOAuth \<and> credMode cred = ModeToken)
                then (False, ModeMismatch)
                else evaluateStoredCredentialEligibility cred now))"

definition listProfilesForProvider :: "authStore \<Rightarrow> string \<Rightarrow> string list" where
  "listProfilesForProvider store provider =
     map fst (filter (\<lambda>(i, cred). normalizeProviderIdForAuth (credProvider cred) = normalizeProviderIdForAuth provider)
       (as_profiles store))"

text \<open>\<open>[...new Set(ids)]\<close> keeps the first of equal ids.\<close>

definition dedupeProfileIds :: "string list \<Rightarrow> string list" where
  "dedupeProfileIds ids = rev (remdups (rev ids))"

definition setAuthProfileOrder :: "string \<Rightarrow> string list option \<Rightarrow> authStore \<Rightarrow> authStore option" where
  "setAuthProfileOrder provider order store =
     (let providerKey = normalizeProviderId provider;
          sanitized = (case order of None \<Rightarrow> [] | Some l \<Rightarrow> filter (\<lambda>e. e \<noteq> []) (map js_trim l));
          deduped = dedupeProfileIds sanitized;
          m = (case as_order store of None \<Rightarrow> [] | Some m \<Rightarrow> m)
      in if deduped = []
         then (if map_of m providerKey = None then None
               else (let m' = AList.delete providerKey m in
                 Some (store\<lparr>as_order := (if m' = [] then None else Some m')\<rparr>)))
         else Some (store\<lparr>as_order := Some (AList.update providerKey deduped m)\<rparr>))"

section \<open>The order in which profiles are tried\<close>

definition typeScore :: "authStore \<Rightarrow> string \<Rightarrow> int" where
  "typeScore store i = (case map_of (as_profiles store) i of
     None \<Rightarrow> 3
   | Some cred \<Rightarrow> (case credMode cred of ModeOAuth \<Rightarrow> 0 | ModeToken \<Rightarrow> 1 | ModeApiKey \<Rightarrow> 2))"

definition lastUsedOf :: "authStore \<Rightarrow> string \<Rightarrow> msTime" where
  "lastUsedOf store i = (case Option.bind (statsOf store i) us_lastUsed of None \<Rightarrow> 0 | Some t \<Rightarrow> t)"

definition cooldownKey :: "authStore \<Rightarrow> msTime \<Rightarrow> string \<Rightarrow> msTime" where
  "cooldownKey store now i =
     (case resolveProfileUnusableUntil (case statsOf store i of None \<Rightarrow> emptyStats | Some s \<Rightarrow> s) of
        None \<Rightarrow> now | Some u \<Rightarrow> u)"

definition orderProfilesByMode :: "string list \<Rightarrow> authStore \<Rightarrow> msTime \<Rightarrow> string list" where
  "orderProfilesByMode order store now =
     (let available = filter (\<lambda>i. \<not> isProfileInCooldown store i now) order;
          inCooldown = filter (\<lambda>i. isProfileInCooldown store i now) order;
          sorted = sort_key (\<lambda>i. (typeScore store i, lastUsedOf store i)) available;
          cooldownSorted = sort_key (cooldownKey store now) inCooldown
      in sorted @ cooldownSorted)"

definition preferFirst :: "string option \<Rightarrow> string list \<Rightarrow> string list" where
  "preferFirst preferred ordered =
     (let p = js_or_empty preferred in
      if p \<noteq> [] \<and> p \<in> set ordered then p # filter (\<lambda>e. e \<noteq> p) ordered else ordered)"

definition baseProfileOrder :: "authConfig \<Rightarrow> authStore \<Rightarrow> string \<Rightarrow> string list option \<times> string list \<times> string list" where
  "baseProfileOrder cfg store provider =
     (let providerKey = normalizeProviderId provider;
          explicitOrder = js_coalesce (findNormalizedProviderValue (as_order store) providerKey)
            (findNormalizedProviderValue (ac_order cfg) providerKey);
          explicitProfiles = (case ac_profiles cfg of
              None \<Rightarrow> []
            | Some ps \<Rightarrow> map fst (filter (\<lambda>(i, p, mode).
                normalizeProviderIdForAuth p = normalizeProviderIdForAuth provider) ps));
          baseOrder = (case explicitOrder of
              Some l \<Rightarrow> l
            | None \<Rightarrow> if explicitProfiles \<noteq> [] then explicitProfiles else listProfilesForProvider store provider)
      in (explicitOrder, explicitProfiles, baseOrder))"

definition candidateProfiles :: "authConfig \<Rightarrow> authStore \<Rightarrow> string \<Rightarrow> msTime \<Rightarrow> string list" where
  "candidateProfiles cfg store provider now =
     (case baseProfileOrder cfg store provider of
        (explicitOrder, explicitProfiles, baseOrder) \<Rightarrow>
          (let isValid = (\<lambda>i. fst (resolveAuthProfileEligibility cfg store (normalizeProviderIdForAuth provider) i now));
               filtered = filter isValid baseOrder;
               allMissing = list_all (\<lambda>i. map_of (as_profiles store) i = None) baseOrder
           in dedupeProfileIds
                (if filtered = [] \<and> explicitProfiles \<noteq> [] \<and> allMissing
                 then filter isValid (listProfilesForProvider store provider) else filtered)))"

definition resolveAuthProfileOrder ::
    "authConfig \<Rightarrow> authStore \<Rightarrow> string \<Rightarrow> string option \<Rightarrow> msTime \<Rightarrow> string list \<times> authStore" where
  "resolveAuthProfileOrder cfg store0 provider preferredProfile now =
     (let store = snd (clearExpiredCooldowns store0 now) in
      case baseProfileOrder cfg store provider of
        (explicitOrder, explicitProfiles, baseOrder) \<Rightarrow>
          if baseOrder = [] then ([], store)
          else (let deduped = candidateProfiles cfg store provider now in
            case explicitOrder of
              Some (e # es) \<Rightarrow>
                (let available = filter (\<lambda>i. \<not> isProfileInCooldown store i now) deduped;
                     inCooldown = filter (\<lambda>i. isProfileInCooldown store i now) deduped;
                     ordered = available @ sort_key (cooldownKey store now) inCooldown
                 in (preferFirst preferredProfile ordered, store))
            | _ \<Rightarrow> (preferFirst preferredProfile (orderProfilesByMode deduped store now), store)))"

section \<open>Lemmas\<close>

lemma dedupe_set [simp]: "set (dedupeProfileIds ids) = set ids"
  by (simp add: dedupeProfileIds_def)

lemma dedupe_distinct [simp]: "distinct (dedupeProfileIds ids)"
  by (simp add: dedupeProfileIds_def)

lemma set_preferFirst [simp]: "set (preferFirst p l) = set l"
  by (auto simp: preferFirst_def Let_def)

lemma distinct_preferFirst [simp]: "distinct l \<Longrightarrow> distinct (preferFirst p l)"
  by (simp add: preferFirst_def Let_def)

lemma orderByMode_split:
  "set (orderProfilesByMode l store now) = set l" "distinct l \<Longrightarrow> distinct (orderProfilesByMode l store now)"
  by (auto simp: orderProfilesByMode_def Let_def)

text \<open>What both orders are: the profiles out of cooldown, then those in cooldown by the end of their window.\<close>

definition rotationOf :: "authStore \<Rightarrow> msTime \<Rightarrow> string list \<Rightarrow> string list \<Rightarrow> bool" where
  "rotationOf store now l r \<longleftrightarrow> (\<exists>a c. r = a @ c \<and>
     mset a = mset (filter (\<lambda>i. \<not> isProfileInCooldown store i now) l) \<and>
     c = sort_key (cooldownKey store now) (filter (\<lambda>i. isProfileInCooldown store i now) l))"

lemma rotation_mset: "rotationOf store now l r \<Longrightarrow> mset r = mset l"
  by (auto simp: rotationOf_def)

lemma rotation_set: "rotationOf store now l r \<Longrightarrow> set r = set l"
  using rotation_mset by (metis set_mset_mset)

lemma rotation_distinct: "rotationOf store now l r \<Longrightarrow> distinct l \<Longrightarrow> distinct r"
  using rotation_mset by (metis mset_eq_imp_distinct_iff)

lemma rotation_sorted:
  assumes "rotationOf store now l r"
  shows "sorted (map (\<lambda>i. isProfileInCooldown store i now) r)"
    and "sorted (map (cooldownKey store now) (filter (\<lambda>i. isProfileInCooldown store i now) r))"
proof -
  obtain a c where r: "r = a @ c" and a: "mset a = mset (filter (\<lambda>i. \<not> isProfileInCooldown store i now) l)"
    and c: "c = sort_key (cooldownKey store now) (filter (\<lambda>i. isProfileInCooldown store i now) l)"
    using assms by (auto simp: rotationOf_def)
  have a0: "\<not> isProfileInCooldown store i now" if "i \<in> set a" for i
    using mset_eq_setD [OF a] that by auto
  have c0: "isProfileInCooldown store i now" if "i \<in> set c" for i using that c by auto
  have ma: "map (\<lambda>i. isProfileInCooldown store i now) a = replicate (length a) False"
    using a0 by (simp add: map_replicate_const [symmetric])
  have mc: "map (\<lambda>i. isProfileInCooldown store i now) c = replicate (length c) True"
    using c0 by (simp add: map_replicate_const [symmetric])
  show "sorted (map (\<lambda>i. isProfileInCooldown store i now) r)"
    by (simp add: r ma mc sorted_append)
  have "filter (\<lambda>i. isProfileInCooldown store i now) r = c"
    using a0 c0 by (simp add: r filter_empty_conv filter_id_conv)
  then show "sorted (map (cooldownKey store now) (filter (\<lambda>i. isProfileInCooldown store i now) r))"
    by (simp add: c)
qed

lemma order_rotation:
  assumes "baseProfileOrder cfg (snd (clearExpiredCooldowns store now)) provider = (ex, ps, b)"
  shows "\<exists>r. fst (resolveAuthProfileOrder cfg store provider preferred now) = preferFirst preferred r \<and>
    rotationOf (snd (clearExpiredCooldowns store now)) now
      (if b = [] then [] else candidateProfiles cfg (snd (clearExpiredCooldowns store now)) provider now) r"
proof (cases "b = []")
  case True
  then show ?thesis
    using assms by (intro exI [of _ "[]"]) (simp add: resolveAuthProfileOrder_def Let_def rotationOf_def preferFirst_def)
next
  case False
  let ?s = "snd (clearExpiredCooldowns store now)"
  let ?d = "candidateProfiles cfg ?s provider now"
  have m: "rotationOf ?s now ?d (orderProfilesByMode ?d ?s now)"
    by (auto simp: rotationOf_def orderProfilesByMode_def Let_def)
  have e: "rotationOf ?s now ?d (filter (\<lambda>i. \<not> isProfileInCooldown ?s i now) ?d @
      sort_key (cooldownKey ?s now) (filter (\<lambda>i. isProfileInCooldown ?s i now) ?d))"
    by (auto simp: rotationOf_def)
  show ?thesis
    using False assms m e
    by (cases ex; cases "the ex") (auto simp: resolveAuthProfileOrder_def Let_def)
qed

lemma candidates_eligible:
  "i \<in> set (candidateProfiles cfg s provider now) \<Longrightarrow>
   fst (resolveAuthProfileEligibility cfg s (normalizeProviderIdForAuth provider) i now)"
  by (auto simp: candidateProfiles_def Let_def split: prod.splits if_splits)

lemma candidates_complete:
  "baseProfileOrder cfg s provider = (ex, ps, b) \<Longrightarrow> i \<in> set b \<Longrightarrow>
   fst (resolveAuthProfileEligibility cfg s (normalizeProviderIdForAuth provider) i now) \<Longrightarrow>
   i \<in> set (candidateProfiles cfg s provider now)"
  by (auto simp: candidateProfiles_def Let_def filter_empty_conv)

lemma candidates_distinct: "distinct (candidateProfiles cfg s provider now)"
  by (simp add: candidateProfiles_def Let_def split: prod.split)

lemma preferFirst_sorted:
  "sorted (map f l) \<Longrightarrow> js_or_empty p \<noteq> [] \<and> js_or_empty p \<in> set l \<Longrightarrow>
   hd (preferFirst p l) = js_or_empty p \<and> sorted (map f (tl (preferFirst p l)))"
  by (simp add: preferFirst_def sorted_filter Let_def)

lemma preferFirst_id: "\<not> (js_or_empty p \<noteq> [] \<and> js_or_empty p \<in> set l) \<Longrightarrow> preferFirst p l = l"
  by (auto simp: preferFirst_def)

lemma snd_order: "snd (resolveAuthProfileOrder cfg store provider preferred now) = snd (clearExpiredCooldowns store now)"
  by (auto simp: resolveAuthProfileOrder_def Let_def split: prod.split option.split list.split)

section \<open>Properties\<close>

lemma preferFirst_rest:
  "sorted (map f (filter P l)) \<Longrightarrow> sorted (map f (filter P (tl (preferFirst p l))))" if "js_or_empty p \<noteq> []" "js_or_empty p \<in> set l"
  using that sorted_filter [of f "filter P l" "\<lambda>e. e \<noteq> js_or_empty p"]
  by (simp add: preferFirst_def Let_def filter_filter conj_commute)

text \<open>C19: The profiles of a provider are tried in the order of a rotation. It holds each profile at most once, only
  eligible ones, and every eligible one of the base order (the one stored, the one configured, or else all profiles of
  the provider). The preferred profile comes first when it is among them. The rest are the profiles that are
  available before those in cooldown, and the latter in the order in which their cooldowns end.\<close>

theorem auth_order_rotation:
  "let r = fst (resolveAuthProfileOrder cfg store provider preferred now);
       s = snd (resolveAuthProfileOrder cfg store provider preferred now);
       eligible = (\<lambda>i. fst (resolveAuthProfileEligibility cfg s (normalizeProviderIdForAuth provider) i now));
       cooling = (\<lambda>i. isProfileInCooldown s i now); p = js_or_empty preferred;
       rest = (if p \<noteq> [] \<and> p \<in> set r then tl r else r)
   in distinct r \<and> list_all eligible r \<and>
      list_all (\<lambda>i. i \<in> set r) (filter eligible (snd (snd (baseProfileOrder cfg s provider)))) \<and>
      (if p \<noteq> [] \<and> p \<in> set r then hd r = p else True) \<and>
      sorted (map cooling rest) \<and> sorted (map (cooldownKey s now) (filter cooling rest))"
proof -
  define s where "s = snd (clearExpiredCooldowns store now)"
  obtain ex ps b where base: "baseProfileOrder cfg s provider = (ex, ps, b)" by (metis prod_cases3)
  define d where "d = (if b = [] then [] else candidateProfiles cfg s provider now)"
  obtain l where l: "fst (resolveAuthProfileOrder cfg store provider preferred now) = preferFirst preferred l"
    and rot: "rotationOf s now d l"
    using order_rotation [of cfg store now provider ex ps b preferred] base unfolding s_def d_def by blast
  have sl: "set l = set d" "distinct l" and so: "sorted (map (\<lambda>i. isProfileInCooldown s i now) l)"
    using rotation_set [OF rot] rotation_distinct [OF rot] rotation_sorted(1) [OF rot] candidates_distinct
    by (auto simp: d_def)
  define el where "el = (\<lambda>i. fst (resolveAuthProfileEligibility cfg s (normalizeProviderIdForAuth provider) i now))"
  have e: "list_all el (preferFirst preferred l)"
    using candidates_eligible [of _ cfg s provider now] by (auto simp: list_all_iff sl d_def el_def)
  have c: "list_all (\<lambda>i. i \<in> set (preferFirst preferred l)) (filter el b)"
    using candidates_complete [OF base, of _ now] by (auto simp: list_all_iff sl d_def el_def)
  define r where "r = preferFirst preferred l"
  define rest where "rest = (if js_or_empty preferred \<noteq> [] \<and> js_or_empty preferred \<in> set r then tl r else r)"
  have p: "(if js_or_empty preferred \<noteq> [] \<and> js_or_empty preferred \<in> set r then hd r = js_or_empty preferred else True) \<and>
      sorted (map (\<lambda>i. isProfileInCooldown s i now) rest)"
    using preferFirst_sorted [OF so, of preferred] preferFirst_id [of preferred l] so by (auto simp: r_def rest_def)
  have q: "sorted (map (cooldownKey s now) (filter (\<lambda>i. isProfileInCooldown s i now) rest))"
    using preferFirst_rest [OF _ _ rotation_sorted(2) [OF rot], of preferred] preferFirst_id [of preferred l] rotation_sorted(2) [OF rot]
    by (auto simp: r_def rest_def)
  show ?thesis
    using e c p q sl(2) unfolding Let_def snd_order s_def [symmetric] l base el_def r_def rest_def
    by simp
qed

text \<open>Within a rotation, the profiles in cooldown come in the order in which their windows end.\<close>

theorem auth_order_soonest_first:
  "let r = fst (resolveAuthProfileOrder cfg store provider None now);
       s = snd (resolveAuthProfileOrder cfg store provider None now)
   in sorted (map (cooldownKey s now) (filter (\<lambda>i. isProfileInCooldown s i now) r))"
proof -
  define s where "s = snd (clearExpiredCooldowns store now)"
  obtain ex ps b where base: "baseProfileOrder cfg s provider = (ex, ps, b)" by (metis prod_cases3)
  obtain l where l: "fst (resolveAuthProfileOrder cfg store provider None now) = preferFirst None l"
    and rot: "rotationOf s now (if b = [] then [] else candidateProfiles cfg s provider now) l"
    using order_rotation [of cfg store now provider ex ps b None] base unfolding s_def by blast
  from rotation_sorted(2) [OF rot] show ?thesis
    by (simp add: Let_def snd_order s_def [symmetric] l preferFirst_def js_or_empty_def)
qed

end
