(* ===== verification/Exec_Wrapper.thy ===== *)
theory Exec_Wrapper
  imports Prelude
begin

text \<open>
  \<open>src/infra/exec-wrapper-resolution.ts\<close> and \<open>src/infra/shell-inline-command.ts\<close>: which
  program an argument vector runs once wrappers such as \<open>env\<close>, \<open>timeout\<close> or \<open>busybox sh\<close> are
  taken off, and the inline command of a shell invocation. An index into \<open>argv\<close> is the suffix of
  the list that starts there.
\<close>

section \<open>Names of executables\<close>

definition WINDOWS_EXECUTABLE_SUFFIXES :: "string list" where
  "WINDOWS_EXECUTABLE_SUFFIXES = [''.exe'', ''.cmd'', ''.bat'', ''.com'']"

definition POSIX_SHELL_WRAPPER_NAMES :: "string list" where
  "POSIX_SHELL_WRAPPER_NAMES = [''ash'', ''bash'', ''dash'', ''fish'', ''ksh'', ''sh'', ''zsh'']"

definition WINDOWS_CMD_WRAPPER_NAMES :: "string list" where
  "WINDOWS_CMD_WRAPPER_NAMES = [''cmd'']"

definition POWERSHELL_WRAPPER_NAMES :: "string list" where
  "POWERSHELL_WRAPPER_NAMES = [''powershell'', ''pwsh'']"

definition SHELL_MULTIPLEXER_WRAPPER_NAMES :: "string list" where
  "SHELL_MULTIPLEXER_WRAPPER_NAMES = [''busybox'', ''toybox'']"

definition DISPATCH_WRAPPER_NAMES :: "string list" where
  "DISPATCH_WRAPPER_NAMES = [''chrt'', ''doas'', ''env'', ''ionice'', ''nice'', ''nohup'', ''setsid'',
     ''stdbuf'', ''sudo'', ''taskset'', ''timeout'']"

fun stripFirstSuffix :: "string list \<Rightarrow> string \<Rightarrow> string" where
  "stripFirstSuffix [] value = value"
| "stripFirstSuffix (s # ss) value =
     (if suffix s value then take (length value - length s) value else stripFirstSuffix ss value)"

definition stripWindowsExecutableSuffix :: "string \<Rightarrow> string" where
  "stripWindowsExecutableSuffix value = stripFirstSuffix WINDOWS_EXECUTABLE_SUFFIXES value"

text \<open>Node's \<open>path.posix.basename\<close> and \<open>path.win32.basename\<close>: the last segment, trailing
  separators ignored, on Windows after a drive letter.\<close>

definition lastSegment :: "char set \<Rightarrow> string \<Rightarrow> string" where
  "lastSegment seps s = rev (takeWhile (\<lambda>c. c \<notin> seps) (dropWhile (\<lambda>c. c \<in> seps) (rev s)))"

definition posixBasename :: "string \<Rightarrow> string" where
  "posixBasename s = lastSegment {CHR ''/''} s"

definition isAsciiLetter :: "char \<Rightarrow> bool" where
  "isAsciiLetter c = (let n = (of_char c :: nat) in (65 \<le> n \<and> n \<le> 90) \<or> (97 \<le> n \<and> n \<le> 122))"

definition win32Basename :: "string \<Rightarrow> string" where
  "win32Basename s = lastSegment {CHR ''/'', CHR 0x5C}
     (case s of a # b # r \<Rightarrow> if isAsciiLetter a \<and> b = CHR '':'' then r else s | _ \<Rightarrow> s)"

definition basenameLower :: "string \<Rightarrow> string" where
  "basenameLower token =
     (let win = win32Basename token; posix = posixBasename token;
          base = (if length win < length posix then win else posix)
      in js_lower (js_trim base))"

definition normalizeExecutableToken :: "string \<Rightarrow> string" where
  "normalizeExecutableToken token = stripWindowsExecutableSuffix (basenameLower token)"

definition isDispatchWrapperExecutable :: "string \<Rightarrow> bool" where
  "isDispatchWrapperExecutable token = (normalizeExecutableToken token \<in> set DISPATCH_WRAPPER_NAMES)"

definition SHELL_WRAPPER_CANONICAL :: "string list" where
  "SHELL_WRAPPER_CANONICAL = POSIX_SHELL_WRAPPER_NAMES @ WINDOWS_CMD_WRAPPER_NAMES @ POWERSHELL_WRAPPER_NAMES"

definition isShellWrapperExecutable :: "string \<Rightarrow> bool" where
  "isShellWrapperExecutable token = (normalizeExecutableToken token \<in> set SHELL_WRAPPER_CANONICAL)"

datatype shellWrapperKind = PosixShell | CmdShell | PowerShell

definition findShellWrapperSpec :: "string \<Rightarrow> shellWrapperKind option" where
  "findShellWrapperSpec baseExecutable =
     (let canonicalBase = stripWindowsExecutableSuffix baseExecutable in
      if canonicalBase \<in> set POSIX_SHELL_WRAPPER_NAMES then Some PosixShell
      else if canonicalBase \<in> set WINDOWS_CMD_WRAPPER_NAMES then Some CmdShell
      else if canonicalBase \<in> set POWERSHELL_WRAPPER_NAMES then Some PowerShell
      else None)"

text \<open>\<open>argv[0]?.trim()\<close>; a missing token and a blank one are alike.\<close>

definition token0 :: "string list \<Rightarrow> string" where
  "token0 argv = (case argv of [] \<Rightarrow> [] | t # _ \<Rightarrow> js_trim t)"

section \<open>Taking off one wrapper\<close>

datatype unwrapResult = NotWrapper | Blocked string | Unwrapped string "string list"

definition unwrapKnownShellMultiplexerInvocation :: "string list \<Rightarrow> unwrapResult" where
  "unwrapKnownShellMultiplexerInvocation argv =
     (if token0 argv = [] then NotWrapper
      else (let wrapper = normalizeExecutableToken (token0 argv) in
        if wrapper \<notin> set SHELL_MULTIPLEXER_WRAPPER_NAMES then NotWrapper
        else (let rest = (if token0 (tl argv) = ''--'' then tl (tl argv) else tl argv) in
          if token0 rest = [] \<or> \<not> isShellWrapperExecutable (token0 rest) then Blocked wrapper
          else Unwrapped wrapper rest)))"

definition isWordChar :: "char \<Rightarrow> bool" where
  "isWordChar c = (let n = (of_char c :: nat) in isAsciiLetter c \<or> (48 \<le> n \<and> n \<le> 57) \<or> n = 95)"

definition isEnvAssignment :: "string \<Rightarrow> bool" where
  "isEnvAssignment token =
     (let name = takeWhile isWordChar token in
      name \<noteq> [] \<and> (isAsciiLetter (hd name) \<or> hd name = CHR ''_'') \<and>
      prefix [CHR ''=''] (drop (length name) token))"

definition ENV_OPTIONS_WITH_VALUE :: "string list" where
  "ENV_OPTIONS_WITH_VALUE = [''-u'', ''--unset'', ''-c'', ''--chdir'', ''-s'', ''--split-string'',
     ''--default-signal'', ''--ignore-signal'', ''--block-signal'']"

definition ENV_INLINE_VALUE_PREFIXES :: "string list" where
  "ENV_INLINE_VALUE_PREFIXES = [''-u'', ''-c'', ''-s'', ''--unset='', ''--chdir='', ''--split-string='',
     ''--default-signal='', ''--ignore-signal='', ''--block-signal='']"

definition ENV_FLAG_OPTIONS :: "string list" where
  "ENV_FLAG_OPTIONS = [''-i'', ''--ignore-environment'', ''-0'', ''--null'']"

definition NICE_OPTIONS_WITH_VALUE :: "string list" where
  "NICE_OPTIONS_WITH_VALUE = [''-n'', ''--adjustment'', ''--priority'']"

definition STDBUF_OPTIONS_WITH_VALUE :: "string list" where
  "STDBUF_OPTIONS_WITH_VALUE = [''-i'', ''--input'', ''-o'', ''--output'', ''-e'', ''--error'']"

definition TIMEOUT_FLAG_OPTIONS :: "string list" where
  "TIMEOUT_FLAG_OPTIONS = [''--foreground'', ''--preserve-status'', ''-v'', ''--verbose'']"

definition TIMEOUT_OPTIONS_WITH_VALUE :: "string list" where
  "TIMEOUT_OPTIONS_WITH_VALUE = [''-k'', ''--kill-after'', ''-s'', ''--signal'']"

definition TRANSPARENT_DISPATCH_WRAPPERS :: "string list" where
  "TRANSPARENT_DISPATCH_WRAPPERS = [''nice'', ''nohup'', ''stdbuf'', ''timeout'']"

definition hasEnvInlineValuePrefix :: "string \<Rightarrow> bool" where
  "hasEnvInlineValuePrefix lower = list_ex (\<lambda>p. prefix p lower) ENV_INLINE_VALUE_PREFIXES"

datatype scanDirective = ScanContinue | ScanConsumeNext | ScanStop | ScanInvalid

text \<open>The loop returns the suffix from the command on, or \<open>None\<close> when the invocation is invalid.\<close>

fun scanLoop ::
    "string set \<Rightarrow> (string \<Rightarrow> string \<Rightarrow> scanDirective) \<Rightarrow> bool \<Rightarrow> string list \<Rightarrow> string list option" where
  "scanLoop seps onToken expects [] = (if expects then None else Some [])"
| "scanLoop seps onToken expects (t # ts) =
     (let token = js_trim t in
      if token = [] then scanLoop seps onToken expects ts
      else if expects then scanLoop seps onToken False ts
      else if token \<in> seps then Some ts
      else (case onToken token (js_lower token) of
              ScanStop \<Rightarrow> Some (t # ts)
            | ScanInvalid \<Rightarrow> None
            | ScanConsumeNext \<Rightarrow> scanLoop seps onToken True ts
            | ScanContinue \<Rightarrow> scanLoop seps onToken False ts))"

definition scanWrapperInvocation ::
    "string set \<Rightarrow> (string \<Rightarrow> string \<Rightarrow> scanDirective) \<Rightarrow> (string list \<Rightarrow> string list option) \<Rightarrow>
     string list \<Rightarrow> string list option" where
  "scanWrapperInvocation seps onToken adjust argv =
     (case scanLoop seps onToken False (tl argv) of
        None \<Rightarrow> None
      | Some rest \<Rightarrow>
          (case adjust rest of None \<Rightarrow> None | Some command \<Rightarrow> if command = [] then None else Some command))"

definition isOptionToken :: "string \<Rightarrow> bool" where
  "isOptionToken token \<longleftrightarrow> prefix ''-'' token \<and> token \<noteq> ''-''"

definition flagOf :: "string \<Rightarrow> string" where
  "flagOf lower = takeWhile (\<lambda>c. c \<noteq> CHR ''='') lower"

definition envDirective :: "string \<Rightarrow> string \<Rightarrow> scanDirective" where
  "envDirective token lower =
     (if isEnvAssignment token then ScanContinue
      else if \<not> isOptionToken token then ScanStop
      else if flagOf lower \<in> set ENV_FLAG_OPTIONS then ScanContinue
      else if flagOf lower \<in> set ENV_OPTIONS_WITH_VALUE
      then (if CHR ''='' \<in> set lower then ScanContinue else ScanConsumeNext)
      else if hasEnvInlineValuePrefix lower then ScanContinue
      else ScanInvalid)"

definition unwrapEnvInvocation :: "string list \<Rightarrow> string list option" where
  "unwrapEnvInvocation argv = scanWrapperInvocation {''--'', ''-''} envDirective Some argv"

fun envModifierLoop :: "bool \<Rightarrow> string list \<Rightarrow> bool" where
  "envModifierLoop expects [] = False"
| "envModifierLoop expects (t # ts) =
     (let token = js_trim t; lower = js_lower token in
      if token = [] then envModifierLoop expects ts
      else if expects then True
      else if token = ''--'' \<or> token = ''-'' then False
      else if isEnvAssignment token then True
      else if \<not> isOptionToken token then False
      else if flagOf lower \<in> set ENV_FLAG_OPTIONS then True
      else if flagOf lower \<in> set ENV_OPTIONS_WITH_VALUE
      then (if CHR ''='' \<in> set lower then True else envModifierLoop True ts)
      else True)"

definition envInvocationUsesModifiers :: "string list \<Rightarrow> bool" where
  "envInvocationUsesModifiers argv = envModifierLoop False (tl argv)"

definition unwrapDashOptionInvocation ::
    "(string \<Rightarrow> string \<Rightarrow> scanDirective) \<Rightarrow> (string list \<Rightarrow> string list option) \<Rightarrow> string list \<Rightarrow> string list option" where
  "unwrapDashOptionInvocation onFlag adjust argv =
     scanWrapperInvocation {''--''}
       (\<lambda>token lower. if \<not> isOptionToken token then ScanStop else onFlag (flagOf lower) lower) adjust argv"

definition isDashDigits :: "string \<Rightarrow> bool" where
  "isDashDigits lower \<longleftrightarrow> prefix ''-'' lower \<and> tl lower \<noteq> [] \<and>
     list_all (\<lambda>c. let n = (of_char c :: nat) in 48 \<le> n \<and> n \<le> 57) (tl lower)"

definition niceDirective :: "string \<Rightarrow> string \<Rightarrow> scanDirective" where
  "niceDirective flag lower =
     (if isDashDigits lower then ScanContinue
      else if flag \<in> set NICE_OPTIONS_WITH_VALUE
      then (if CHR ''='' \<in> set lower \<or> lower \<noteq> flag then ScanContinue else ScanConsumeNext)
      else if prefix ''-n'' lower \<and> 2 < length lower then ScanContinue
      else ScanInvalid)"

definition unwrapNiceInvocation :: "string list \<Rightarrow> string list option" where
  "unwrapNiceInvocation argv = unwrapDashOptionInvocation niceDirective Some argv"

definition nohupDirective :: "string \<Rightarrow> string \<Rightarrow> scanDirective" where
  "nohupDirective token lower =
     (if \<not> isOptionToken token then ScanStop
      else if lower = ''--help'' \<or> lower = ''--version'' then ScanContinue else ScanInvalid)"

definition unwrapNohupInvocation :: "string list \<Rightarrow> string list option" where
  "unwrapNohupInvocation argv = scanWrapperInvocation {''--''} nohupDirective Some argv"

definition stdbufDirective :: "string \<Rightarrow> string \<Rightarrow> scanDirective" where
  "stdbufDirective flag lower =
     (if flag \<notin> set STDBUF_OPTIONS_WITH_VALUE then ScanInvalid
      else if CHR ''='' \<in> set lower then ScanContinue else ScanConsumeNext)"

definition unwrapStdbufInvocation :: "string list \<Rightarrow> string list option" where
  "unwrapStdbufInvocation argv = unwrapDashOptionInvocation stdbufDirective Some argv"

definition timeoutDirective :: "string \<Rightarrow> string \<Rightarrow> scanDirective" where
  "timeoutDirective flag lower =
     (if flag \<in> set TIMEOUT_FLAG_OPTIONS then ScanContinue
      else if flag \<in> set TIMEOUT_OPTIONS_WITH_VALUE
      then (if CHR ''='' \<in> set lower then ScanContinue else ScanConsumeNext)
      else ScanInvalid)"

text \<open>\<open>timeout\<close> takes a duration before the command.\<close>

definition skipDuration :: "string list \<Rightarrow> string list option" where
  "skipDuration rest = (if length rest < 2 then None else Some (tl rest))"

definition unwrapTimeoutInvocation :: "string list \<Rightarrow> string list option" where
  "unwrapTimeoutInvocation argv = unwrapDashOptionInvocation timeoutDirective skipDuration argv"

definition unwrapDispatchWrapper :: "string \<Rightarrow> string list option \<Rightarrow> unwrapResult" where
  "unwrapDispatchWrapper wrapper unwrapped =
     (case unwrapped of None \<Rightarrow> Blocked wrapper | Some argv \<Rightarrow> Unwrapped wrapper argv)"

definition unwrapKnownDispatchWrapperInvocation :: "string list \<Rightarrow> unwrapResult" where
  "unwrapKnownDispatchWrapperInvocation argv =
     (if token0 argv = [] then NotWrapper
      else (let wrapper = normalizeExecutableToken (token0 argv) in
        if wrapper = ''env'' then unwrapDispatchWrapper wrapper (unwrapEnvInvocation argv)
        else if wrapper = ''nice'' then unwrapDispatchWrapper wrapper (unwrapNiceInvocation argv)
        else if wrapper = ''nohup'' then unwrapDispatchWrapper wrapper (unwrapNohupInvocation argv)
        else if wrapper = ''stdbuf'' then unwrapDispatchWrapper wrapper (unwrapStdbufInvocation argv)
        else if wrapper = ''timeout'' then unwrapDispatchWrapper wrapper (unwrapTimeoutInvocation argv)
        else if wrapper \<in> {''chrt'', ''doas'', ''ionice'', ''setsid'', ''sudo'', ''taskset''} then Blocked wrapper
        else NotWrapper))"

section \<open>Chains of wrappers\<close>

definition MAX_DISPATCH_WRAPPER_DEPTH :: nat where "MAX_DISPATCH_WRAPPER_DEPTH = 4"

record dispatchPlan =
  dpl_argv :: "string list"
  dpl_wrappers :: "string list"
  dpl_policyBlocked :: bool
  dpl_blockedWrapper :: "string option"

definition isSemanticDispatchWrapperUsage :: "string \<Rightarrow> string list \<Rightarrow> bool" where
  "isSemanticDispatchWrapperUsage wrapper argv =
     (if wrapper = ''env'' then envInvocationUsesModifiers argv
      else wrapper \<notin> set TRANSPARENT_DISPATCH_WRAPPERS)"

definition blockedDispatchWrapperPlan :: "string list \<Rightarrow> string list \<Rightarrow> string \<Rightarrow> dispatchPlan" where
  "blockedDispatchWrapperPlan argv wrappers blockedWrapper =
     \<lparr>dpl_argv = argv, dpl_wrappers = wrappers, dpl_policyBlocked = True, dpl_blockedWrapper = Some blockedWrapper\<rparr>"

text \<open>The loop ends with a blocked plan, or with the current vector and the wrappers taken off.\<close>

fun planLoop :: "nat \<Rightarrow> string list \<Rightarrow> string list \<Rightarrow> dispatchPlan + (string list \<times> string list)" where
  "planLoop 0 current wrappers = Inr (current, wrappers)"
| "planLoop (Suc n) current wrappers =
     (case unwrapKnownDispatchWrapperInvocation current of
        Blocked w \<Rightarrow> Inl (blockedDispatchWrapperPlan current wrappers w)
      | NotWrapper \<Rightarrow> Inr (current, wrappers)
      | Unwrapped w argv \<Rightarrow>
          if argv = [] then Inr (current, wrappers)
          else if isSemanticDispatchWrapperUsage w current
          then Inl (blockedDispatchWrapperPlan current (wrappers @ [w]) w)
          else planLoop n argv (wrappers @ [w]))"

definition resolveDispatchWrapperExecutionPlan :: "string list \<Rightarrow> nat \<Rightarrow> dispatchPlan" where
  "resolveDispatchWrapperExecutionPlan argv maxDepth =
     (case planLoop maxDepth argv [] of
        Inl plan \<Rightarrow> plan
      | Inr (current, wrappers) \<Rightarrow>
          (let done = \<lparr>dpl_argv = current, dpl_wrappers = wrappers, dpl_policyBlocked = False,
                       dpl_blockedWrapper = None\<rparr>
           in if maxDepth \<le> length wrappers
              then (case unwrapKnownDispatchWrapperInvocation current of
                      Blocked w \<Rightarrow> blockedDispatchWrapperPlan current wrappers w
                    | Unwrapped w r \<Rightarrow> blockedDispatchWrapperPlan current wrappers w
                    | NotWrapper \<Rightarrow> done)
              else done))"

definition unwrapDispatchWrappersForResolution :: "string list \<Rightarrow> string list" where
  "unwrapDispatchWrappersForResolution argv =
     dpl_argv (resolveDispatchWrapperExecutionPlan argv MAX_DISPATCH_WRAPPER_DEPTH)"

section \<open>Inline commands of shells\<close>

definition POSIX_INLINE_COMMAND_FLAGS :: "string list" where
  "POSIX_INLINE_COMMAND_FLAGS = [''-lc'', ''-c'', ''--command'']"

definition POWERSHELL_INLINE_COMMAND_FLAGS :: "string list" where
  "POWERSHELL_INLINE_COMMAND_FLAGS = [''-c'', ''-command'', ''--command'', ''-f'', ''-file'',
     ''-encodedcommand'', ''-enc'', ''-e'']"

text \<open>\<open>/^-[^-]*c[^-]*$/i\<close>\<close>

definition isCombinedC :: "string \<Rightarrow> bool" where
  "isCombinedC token \<longleftrightarrow> prefix ''-'' token \<and> CHR ''-'' \<notin> set (tl token) \<and> CHR ''c'' \<in> set (js_lower (tl token))"

text \<open>The command, and the arguments after the one that holds it, when there is such an argument.\<close>

definition inlineValue :: "string list \<Rightarrow> string option \<times> string list option" where
  "inlineValue rest = (js_some (token0 rest), case rest of [] \<Rightarrow> None | _ # after \<Rightarrow> Some after)"

fun inlineLoop :: "string list \<Rightarrow> bool \<Rightarrow> string list \<Rightarrow> string option \<times> string list option" where
  "inlineLoop flags allowCombinedC [] = (None, None)"
| "inlineLoop flags allowCombinedC (t # ts) =
     (let token = js_trim t; lower = js_lower token in
      if token = [] then inlineLoop flags allowCombinedC ts
      else if lower = ''--'' then (None, None)
      else if lower \<in> set flags then inlineValue ts
      else if allowCombinedC \<and> isCombinedC token then
        (let inline = js_trim (tl (dropWhile (\<lambda>c. js_lower_char c \<noteq> CHR ''c'') token)) in
         if inline \<noteq> [] then (Some inline, Some ts) else inlineValue ts)
      else inlineLoop flags allowCombinedC ts)"

definition resolveInlineCommandMatch :: "string list \<Rightarrow> string list \<Rightarrow> bool \<Rightarrow> string option \<times> string list option" where
  "resolveInlineCommandMatch argv flags allowCombinedC = inlineLoop flags allowCombinedC (tl argv)"

fun afterCmdSwitch :: "string list \<Rightarrow> string list option" where
  "afterCmdSwitch [] = None"
| "afterCmdSwitch (t # ts) =
     (if js_lower (js_trim t) = ''/c'' \<or> js_lower (js_trim t) = ''/k'' then Some ts else afterCmdSwitch ts)"

definition extractCmdInlineCommand :: "string list \<Rightarrow> string option" where
  "extractCmdInlineCommand argv =
     (case afterCmdSwitch argv of
        None \<Rightarrow> None
      | Some tail \<Rightarrow> if tail = [] then None else js_some (js_trim (js_join '' '' tail)))"

definition extractShellWrapperPayload :: "string list \<Rightarrow> shellWrapperKind \<Rightarrow> string option" where
  "extractShellWrapperPayload argv spec = (case spec of
     PosixShell \<Rightarrow> fst (resolveInlineCommandMatch argv POSIX_INLINE_COMMAND_FLAGS True)
   | CmdShell \<Rightarrow> extractCmdInlineCommand argv
   | PowerShell \<Rightarrow> fst (resolveInlineCommandMatch argv POWERSHELL_INLINE_COMMAND_FLAGS False))"

function hasEnvManipulationInternal :: "string list \<Rightarrow> nat \<Rightarrow> bool \<Rightarrow> bool" where
  "hasEnvManipulationInternal argv depth seen =
     (if MAX_DISPATCH_WRAPPER_DEPTH < depth \<or> token0 argv = [] then False
      else (case unwrapKnownDispatchWrapperInvocation argv of
          Blocked w \<Rightarrow> False
        | Unwrapped w rest \<Rightarrow>
            hasEnvManipulationInternal rest (depth + 1)
              (seen \<or> (w = ''env'' \<and> envInvocationUsesModifiers argv))
        | NotWrapper \<Rightarrow>
            (case unwrapKnownShellMultiplexerInvocation argv of
               Blocked w \<Rightarrow> False
             | Unwrapped w rest \<Rightarrow> hasEnvManipulationInternal rest (depth + 1) seen
             | NotWrapper \<Rightarrow>
                 (case findShellWrapperSpec (normalizeExecutableToken (token0 argv)) of
                    None \<Rightarrow> False
                  | Some spec \<Rightarrow> if extractShellWrapperPayload argv spec = None then False else seen))))"
  by pat_completeness auto
termination by (relation "measure (\<lambda>(argv, depth, seen). Suc MAX_DISPATCH_WRAPPER_DEPTH - depth)") auto

definition hasEnvManipulationBeforeShellWrapper :: "string list \<Rightarrow> bool" where
  "hasEnvManipulationBeforeShellWrapper argv = hasEnvManipulationInternal argv 0 False"

text \<open>The result is \<open>None\<close> for \<open>isWrapper: false\<close>.\<close>

function extractShellWrapperCommandInternal :: "string list \<Rightarrow> string option \<Rightarrow> nat \<Rightarrow> string option" where
  "extractShellWrapperCommandInternal argv rawCommand depth =
     (if MAX_DISPATCH_WRAPPER_DEPTH < depth \<or> token0 argv = [] then None
      else (case unwrapKnownDispatchWrapperInvocation argv of
          Blocked w \<Rightarrow> None
        | Unwrapped w rest \<Rightarrow> extractShellWrapperCommandInternal rest rawCommand (depth + 1)
        | NotWrapper \<Rightarrow>
            (case unwrapKnownShellMultiplexerInvocation argv of
               Blocked w \<Rightarrow> None
             | Unwrapped w rest \<Rightarrow> extractShellWrapperCommandInternal rest rawCommand (depth + 1)
             | NotWrapper \<Rightarrow>
                 (case findShellWrapperSpec (normalizeExecutableToken (token0 argv)) of
                    None \<Rightarrow> None
                  | Some spec \<Rightarrow>
                      (case extractShellWrapperPayload argv spec of
                         None \<Rightarrow> None
                       | Some payload \<Rightarrow> Some (case rawCommand of None \<Rightarrow> payload | Some r \<Rightarrow> r))))))"
  by pat_completeness auto
termination by (relation "measure (\<lambda>(argv, raw, depth). Suc MAX_DISPATCH_WRAPPER_DEPTH - depth)") auto

declare hasEnvManipulationInternal.simps [simp del] extractShellWrapperCommandInternal.simps [simp del]

definition normalizeRawCommand :: "string option \<Rightarrow> string option" where
  "normalizeRawCommand rawCommand = js_some (js_trim (js_or_empty rawCommand))"

definition extractShellWrapperInlineCommand :: "string list \<Rightarrow> string option" where
  "extractShellWrapperInlineCommand argv = extractShellWrapperCommandInternal argv None 0"

definition extractShellWrapperCommand :: "string list \<Rightarrow> string option \<Rightarrow> string option" where
  "extractShellWrapperCommand argv rawCommand =
     extractShellWrapperCommandInternal argv (normalizeRawCommand rawCommand) 0"

section \<open>Unwrapping consumes tokens\<close>

lemma suffix_tl_D: "suffix r (tl argv) \<Longrightarrow> suffix r argv"
  by (metis suffix_order.trans suffix_tl)

lemma scanLoop_suffix: "scanLoop seps f e ts = Some r \<Longrightarrow> suffix r ts"
  by (induction seps f e ts rule: scanLoop.induct)
    (auto simp: Let_def split: if_splits scanDirective.splits intro: suffix_ConsI)

definition takesSuffix :: "(string list \<Rightarrow> string list option) \<Rightarrow> bool" where
  "takesSuffix unwrap \<longleftrightarrow> (\<forall>argv r. unwrap argv = Some r \<longrightarrow> suffix r (tl argv) \<and> r \<noteq> [])"

lemma takesSuffix_scan:
  assumes "\<And>rest c. adjust rest = Some c \<Longrightarrow> suffix c rest"
  shows "takesSuffix (scanWrapperInvocation seps f adjust)"
  using assms scanLoop_suffix
  by (fastforce simp: takesSuffix_def scanWrapperInvocation_def intro: suffix_order.trans
      split: option.splits if_splits)

lemma skipDuration_suffix: "skipDuration rest = Some c \<Longrightarrow> suffix c rest"
  by (auto simp: skipDuration_def suffix_tl split: if_splits)

lemma takesSuffix_all:
  "takesSuffix unwrapEnvInvocation" "takesSuffix unwrapNiceInvocation" "takesSuffix unwrapNohupInvocation"
  "takesSuffix unwrapStdbufInvocation" "takesSuffix unwrapTimeoutInvocation"
proof -
  have "takesSuffix (unwrapDashOptionInvocation g Some)" "takesSuffix (unwrapDashOptionInvocation g skipDuration)"
    "takesSuffix (scanWrapperInvocation seps f Some)" for g f seps
    unfolding unwrapDashOptionInvocation_def [abs_def]
    by (rule takesSuffix_scan, simp)
      (rule takesSuffix_scan, rule skipDuration_suffix, assumption, rule takesSuffix_scan, simp)
  then show "takesSuffix unwrapEnvInvocation" "takesSuffix unwrapNiceInvocation" "takesSuffix unwrapNohupInvocation"
    "takesSuffix unwrapStdbufInvocation" "takesSuffix unwrapTimeoutInvocation"
    unfolding unwrapEnvInvocation_def [abs_def] unwrapNiceInvocation_def [abs_def] unwrapNohupInvocation_def [abs_def]
      unwrapStdbufInvocation_def [abs_def] unwrapTimeoutInvocation_def [abs_def] by blast+
qed

lemma unwrapDispatch_D:
  assumes "takesSuffix u" "unwrapDispatchWrapper w (u argv) = Unwrapped w' r"
  shows "suffix r (tl argv) \<and> r \<noteq> []"
  using assms by (auto simp: unwrapDispatchWrapper_def takesSuffix_def split: option.splits)

lemma dispatch_consumes:
  "unwrapKnownDispatchWrapperInvocation argv = Unwrapped w r \<Longrightarrow> suffix r (tl argv) \<and> r \<noteq> []"
  by (auto simp: unwrapKnownDispatchWrapperInvocation_def Let_def split: if_splits
      dest: unwrapDispatch_D [OF takesSuffix_all(1)] unwrapDispatch_D [OF takesSuffix_all(2)]
        unwrapDispatch_D [OF takesSuffix_all(3)] unwrapDispatch_D [OF takesSuffix_all(4)]
        unwrapDispatch_D [OF takesSuffix_all(5)])

lemma dispatch_shorter: "unwrapKnownDispatchWrapperInvocation argv = Unwrapped w r \<Longrightarrow> length r < length argv"
  using dispatch_consumes [of argv w r] suffix_length_le [of r "tl argv"] by (cases argv) auto

lemma multiplexer_consumes:
  "unwrapKnownShellMultiplexerInvocation argv = Unwrapped w r \<Longrightarrow> suffix r (tl argv) \<and> r \<noteq> []"
  by (auto simp: unwrapKnownShellMultiplexerInvocation_def Let_def token0_def suffix_tl split: if_splits list.splits
      intro: suffix_ConsI)

lemma planLoop_result:
  "case planLoop n current ws of
     Inl p \<Rightarrow> dpl_policyBlocked p \<and> suffix (dpl_argv p) current \<and>
       length (dpl_wrappers p) + length (dpl_argv p) \<le> length ws + length current + 1
   | Inr (c, ws') \<Rightarrow> suffix c current \<and> length ws' + length c \<le> length ws + length current \<and>
       (length ws' < length ws + n \<and> unwrapKnownDispatchWrapperInvocation c = NotWrapper \<or> length ws' = length ws + n) \<and>
       (\<exists>added. ws' = ws @ added \<and> set added \<subseteq> insert ''env'' (set TRANSPARENT_DISPATCH_WRAPPERS))"
proof (induction n current ws rule: planLoop.induct)
  case (1 current wrappers)
  then show ?case by simp
next
  case (2 n current wrappers)
  show ?case
  proof (cases "unwrapKnownDispatchWrapperInvocation current")
    case (Unwrapped w r)
    note c = dispatch_consumes [OF Unwrapped] dispatch_shorter [OF Unwrapped]
    show ?thesis
    proof (cases "isSemanticDispatchWrapperUsage w current")
      case True
      with Unwrapped c show ?thesis by (simp add: blockedDispatchWrapperPlan_def)
    next
      case False
      then have "w \<in> insert ''env'' (set TRANSPARENT_DISPATCH_WRAPPERS)"
        by (auto simp: isSemanticDispatchWrapperUsage_def split: if_splits)
      moreover have "suffix x r \<Longrightarrow> suffix x current" for x
        using c suffix_tl_D by (meson suffix_order.trans)
      ultimately show ?thesis
        using 2 [OF Unwrapped _ False] c Unwrapped False
        by (auto split: sum.splits)
    qed
  qed (simp_all add: blockedDispatchWrapperPlan_def)
qed

lemma planLoop_fuel: "length current \<le> n \<Longrightarrow> planLoop n current ws = planLoop (length current) current ws"
proof (induction n arbitrary: current ws rule: less_induct)
  case (less n)
  show ?case
  proof (cases "unwrapKnownDispatchWrapperInvocation current")
    case (Unwrapped w r)
    note s = dispatch_shorter [OF Unwrapped]
    then obtain m k where mk: "n = Suc m" "length current = Suc k" using less.prems by (cases n; cases "length current") auto
    then have "planLoop m r (ws @ [w]) = planLoop k r (ws @ [w])"
      using less.IH [of m r "ws @ [w]"] less.IH [of k r "ws @ [w]"] s less.prems
      by (cases "k < n") auto
    then show ?thesis using mk Unwrapped by simp
  next
    case NotWrapper
    then show ?thesis by (cases n; cases "length current") simp_all
  next
    case (Blocked w)
    then have "current \<noteq> []" by (auto simp: unwrapKnownDispatchWrapperInvocation_def token0_def)
    with Blocked less.prems show ?thesis by (cases n; cases "length current") simp_all
  qed
qed

section \<open>Properties\<close>

text \<open>an execution plan names a suffix of the given vector, takes one token at least per wrapper,
  and unless it is blocked its command is not a wrapper any more and only \<open>env\<close> and the
  transparent wrappers were taken off.\<close>

theorem dispatch_plan_sound:
  "let p = resolveDispatchWrapperExecutionPlan argv n in
   suffix (dpl_argv p) argv \<and> length (dpl_wrappers p) + length (dpl_argv p) \<le> length argv + 1 \<and>
   (dpl_policyBlocked p \<or>
    unwrapKnownDispatchWrapperInvocation (dpl_argv p) = NotWrapper \<and> dpl_blockedWrapper p = None \<and>
    set (dpl_wrappers p) \<subseteq> insert ''env'' (set TRANSPARENT_DISPATCH_WRAPPERS))"
proof (cases "planLoop n argv []")
  case (Inl p)
  with planLoop_result [where n = n and current = argv and ws = "[]"] show ?thesis
    by (simp add: resolveDispatchWrapperExecutionPlan_def)
next
  case (Inr cw)
  then obtain c ws where cw: "planLoop n argv [] = Inr (c, ws)" by (cases cw) auto
  with planLoop_result [where n = n and current = argv and ws = "[]"] show ?thesis
    by (auto simp: resolveDispatchWrapperExecutionPlan_def blockedDispatchWrapperPlan_def Let_def
        split: unwrapResult.split)
qed

text \<open>Unwrapping ends by itself: a depth limit of at least the length of the vector is never
  reached, so that any larger limit gives the same plan.\<close>

theorem dispatch_plan_terminates:
  assumes "length argv < n"
  shows "resolveDispatchWrapperExecutionPlan argv n = resolveDispatchWrapperExecutionPlan argv (length argv + 1)"
proof -
  define m where "m = length argv + 1"
  have e: "planLoop n argv [] = planLoop m argv []"
    using planLoop_fuel [of argv n "[]"] planLoop_fuel [of argv m "[]"] assms by (simp add: m_def)
  have "resolveDispatchWrapperExecutionPlan argv n = resolveDispatchWrapperExecutionPlan argv m"
  proof (cases "planLoop n argv []")
    case (Inl p)
    moreover have "planLoop m argv [] = Inl p" using e Inl by simp
    ultimately show ?thesis by (simp add: resolveDispatchWrapperExecutionPlan_def)
  next
    case (Inr cw)
    then obtain c ws where cw: "planLoop n argv [] = Inr (c, ws)" by (cases cw) auto
    then have "length ws \<le> length argv"
      using planLoop_result [where n = n and current = argv and ws = "[]"] by simp
    then have "\<not> n \<le> length ws" "\<not> m \<le> length ws" using assms by (simp_all add: m_def)
    with cw e show ?thesis by (simp add: resolveDispatchWrapperExecutionPlan_def)
  qed
  then show ?thesis by (simp add: m_def)
qed

theorem dispatch_plan_terminates_witness:
  "resolveDispatchWrapperExecutionPlan [''nice'', ''timeout'', ''5'', ''ls''] 9 =
   resolveDispatchWrapperExecutionPlan [''nice'', ''timeout'', ''5'', ''ls''] 5"
  using dispatch_plan_terminates [of "[''nice'', ''timeout'', ''5'', ''ls'']" 9] by (simp add: eval_nat_numeral)

text \<open>\<open>env -\<close> means \<open>env -i\<close>, but the scan for modifiers takes the dash for a separator: the plan
  runs through it as if the environment were kept.\<close>

lemma env_dash_not_a_modifier:
  "envInvocationUsesModifiers [''env'', ''-i'', ''ls'']" "\<not> envInvocationUsesModifiers [''env'', ''-'', ''ls'']"
  "\<not> dpl_policyBlocked (resolveDispatchWrapperExecutionPlan [''env'', ''-'', ''ls''] 4)"
  by code_simp+

end
