(* ===== verification/System_Run.thy ===== *)
theory System_Run
  imports Js_Values Exec_Wrapper
begin

text \<open>
  \<open>src/infra/system-run-normalize.ts\<close>, \<open>system-run-command.ts\<close>, \<open>system-run-approval-binding.ts\<close>,
  \<open>system-run-approval-context.ts\<close>, \<open>normalizeEnvVarKey\<close> of \<open>host-env-security.ts\<close> and
  \<open>src/gateway/node-invoke-system-run-approval-match.ts\<close>: the command a client asks to run on a node,
  the text shown for approval, and the comparison of a request with what was approved. The hash
  (SHA-256) and the sort keys of \<open>localeCompare\<close> are parameters.
\<close>

section \<open>Errors\<close>

record runError =
  re_message :: string
  re_details :: "(string \<times> jsv) list"

definition strArr :: "string list \<Rightarrow> jsv" where
  "strArr ss = JArr (map JStr ss)"

section \<open>Normalising\<close>

definition normalizeNonEmptyString :: "jsv \<Rightarrow> string option" where
  "normalizeNonEmptyString value = js_nonEmptyString value"

definition normalizeStringArray :: "jsv \<Rightarrow> string list" where
  "normalizeStringArray value = (case value of JArr vs \<Rightarrow> map js_String vs | _ \<Rightarrow> [])"

record fileOperand =
  fo_argvIndex :: int
  fo_path :: string
  fo_sha256 :: string

record approvalPlan =
  pl_argv :: "string list"
  pl_cwd :: "string option"
  pl_commandText :: string
  pl_commandPreview :: "string option"
  pl_agentId :: "string option"
  pl_sessionKey :: "string option"
  pl_mutableFileOperand :: "fileOperand option"

text \<open>\<open>None\<close> is \<open>undefined\<close>, \<open>Some None\<close> is \<open>null\<close>.\<close>

definition normalizeFileOperand :: "jsv \<Rightarrow> fileOperand option option" where
  "normalizeFileOperand value = (case value of
     JUndef \<Rightarrow> None
   | JObj candidate \<Rightarrow>
       Some (case (js_field candidate ''argvIndex'', normalizeNonEmptyString (js_field candidate ''path''),
                   normalizeNonEmptyString (js_field candidate ''sha256'')) of
               (JNum n, Some p, Some h) \<Rightarrow>
                 if 0 \<le> n then Some \<lparr>fo_argvIndex = n, fo_path = p, fo_sha256 = h\<rparr> else None
             | _ \<Rightarrow> None)
   | _ \<Rightarrow> Some None)"

definition normalizeSystemRunApprovalPlan :: "jsv \<Rightarrow> approvalPlan option" where
  "normalizeSystemRunApprovalPlan value = (case value of
     JObj candidate \<Rightarrow>
       (let argv = normalizeStringArray (js_field candidate ''argv'');
            operand = normalizeFileOperand (js_field candidate ''mutableFileOperand'');
            commandText = js_coalesce (normalizeNonEmptyString (js_field candidate ''commandText''))
              (normalizeNonEmptyString (js_field candidate ''rawCommand''))
        in if argv = [] then None
           else if operand = Some None then None
           else (case commandText of
               None \<Rightarrow> None
             | Some text \<Rightarrow> Some
                 \<lparr>pl_argv = argv,
                  pl_cwd = normalizeNonEmptyString (js_field candidate ''cwd''),
                  pl_commandText = text,
                  pl_commandPreview = normalizeNonEmptyString (js_field candidate ''commandPreview''),
                  pl_agentId = normalizeNonEmptyString (js_field candidate ''agentId''),
                  pl_sessionKey = normalizeNonEmptyString (js_field candidate ''sessionKey''),
                  pl_mutableFileOperand = (case operand of None \<Rightarrow> None | Some o' \<Rightarrow> o')\<rparr>))
   | _ \<Rightarrow> None)"

text \<open>A plan as the value it is stored as.\<close>

definition fileOperandValue :: "fileOperand option \<Rightarrow> jsv" where
  "fileOperandValue fo = (case fo of
     None \<Rightarrow> JUndef
   | Some f \<Rightarrow> JObj [(''argvIndex'', JNum (fo_argvIndex f)), (''path'', JStr (fo_path f)), (''sha256'', JStr (fo_sha256 f))])"

definition planValue :: "approvalPlan option \<Rightarrow> jsv" where
  "planValue plan = (case plan of
     None \<Rightarrow> JNull
   | Some p \<Rightarrow> JObj [(''argv'', strArr (pl_argv p)), (''cwd'', js_optStr (pl_cwd p)), (''commandText'', JStr (pl_commandText p)),
       (''commandPreview'', js_optStr (pl_commandPreview p)), (''agentId'', js_optStr (pl_agentId p)),
       (''sessionKey'', js_optStr (pl_sessionKey p)), (''mutableFileOperand'', fileOperandValue (pl_mutableFileOperand p))])"

section \<open>The command and its text\<close>

definition quoteChar :: "char \<Rightarrow> string" where
  "quoteChar c = (if c = CHR 0x22 then [CHR 0x5C, c] else [c])"

definition needsQuotes :: "string \<Rightarrow> bool" where
  "needsQuotes arg \<longleftrightarrow> list_ex (\<lambda>c. js_ws c \<or> c = CHR 0x22) arg"

definition formatArg :: "string \<Rightarrow> string" where
  "formatArg arg =
     (if arg = [] then [CHR 0x22, CHR 0x22]
      else if \<not> needsQuotes arg then arg
      else CHR 0x22 # concat (map quoteChar arg) @ [CHR 0x22])"

definition formatExecCommand :: "string list \<Rightarrow> string" where
  "formatExecCommand argv = js_join '' '' (map formatArg argv)"

definition extractShellCommandFromArgv :: "string list \<Rightarrow> string option" where
  "extractShellCommandFromArgv argv = extractShellWrapperCommand argv None"

definition unwrapShellWrapperArgv :: "string list \<Rightarrow> string list" where
  "unwrapShellWrapperArgv argv =
     (let d = unwrapDispatchWrappersForResolution argv in
      case unwrapKnownShellMultiplexerInvocation d of Unwrapped w r \<Rightarrow> r | _ \<Rightarrow> d)"

definition INLINE_WRAPPER_NAMES :: "string list" where
  "INLINE_WRAPPER_NAMES = [''ash'', ''bash'', ''dash'', ''fish'', ''ksh'', ''powershell'', ''pwsh'', ''sh'', ''zsh'']"

definition hasTrailingPositionalArgvAfterInlineCommand :: "string list \<Rightarrow> bool" where
  "hasTrailingPositionalArgvAfterInlineCommand argv =
     (let wrapperArgv = unwrapShellWrapperArgv argv; wrapper = normalizeExecutableToken (token0 wrapperArgv) in
      if token0 wrapperArgv = [] \<or> wrapper \<notin> set INLINE_WRAPPER_NAMES then False
      else (case snd (if wrapper = ''powershell'' \<or> wrapper = ''pwsh''
                      then resolveInlineCommandMatch wrapperArgv POWERSHELL_INLINE_COMMAND_FLAGS False
                      else resolveInlineCommandMatch wrapperArgv POSIX_INLINE_COMMAND_FLAGS True) of
              None \<Rightarrow> False
            | Some after \<Rightarrow> list_ex (\<lambda>e. js_trim e \<noteq> []) after))"

record commandDisplay =
  cdi_shellPayload :: "string option"
  cdi_commandText :: string
  cdi_previewText :: "string option"

definition buildSystemRunCommandDisplay :: "string list \<Rightarrow> commandDisplay" where
  "buildSystemRunCommandDisplay argv =
     (let shellPayload = extractShellWrapperCommand argv None;
          positional = hasTrailingPositionalArgvAfterInlineCommand argv;
          envManipulation = (shellPayload \<noteq> None \<and> hasEnvManipulationBeforeShellWrapper argv)
      in \<lparr>cdi_shellPayload = shellPayload, cdi_commandText = formatExecCommand argv,
          cdi_previewText = (if envManipulation \<or> positional then None else map_option js_trim shellPayload)\<rparr>)"

definition normalizeRawCommandText :: "jsv \<Rightarrow> string option" where
  "normalizeRawCommandText rawCommand = js_nonEmptyString rawCommand"

definition validateSystemRunCommandConsistency ::
    "string list \<Rightarrow> string option \<Rightarrow> bool \<Rightarrow> runError + commandDisplay" where
  "validateSystemRunCommandConsistency argv rawCommand allowLegacyShellText =
     (let raw = js_some (js_trim (js_or_empty rawCommand)); display = buildSystemRunCommandDisplay argv in
      case raw of
        None \<Rightarrow> Inr display
      | Some r \<Rightarrow>
          if r \<noteq> cdi_commandText display \<and>
             \<not> (allowLegacyShellText \<and> cdi_previewText display = Some r)
          then Inl \<lparr>re_message = ''INVALID_REQUEST: rawCommand does not match command'',
                 re_details = [(''code'', JStr ''RAW_COMMAND_MISMATCH''), (''rawCommand'', JStr r),
                   (''inferred'', JStr (cdi_commandText display)), (''formattedArgv'', JStr (cdi_commandText display))]\<rparr>
          else Inr display)"

definition resolveSystemRunCommandWithMode :: "jsv \<Rightarrow> jsv \<Rightarrow> bool \<Rightarrow> runError + string list \<times> commandDisplay" where
  "resolveSystemRunCommandWithMode command rawCommand allowLegacyShellText =
     (let raw = normalizeRawCommandText rawCommand; argv = normalizeStringArray command in
      if argv = [] then
        (if raw \<noteq> None
         then Inl \<lparr>re_message = ''rawCommand requires params.command'', re_details = [(''code'', JStr ''MISSING_COMMAND'')]\<rparr>
         else Inr ([], \<lparr>cdi_shellPayload = None, cdi_commandText = [], cdi_previewText = None\<rparr>))
      else (case validateSystemRunCommandConsistency argv raw allowLegacyShellText of
              Inl e \<Rightarrow> Inl e
            | Inr d \<Rightarrow> Inr (argv, d)))"

definition resolveSystemRunCommand :: "jsv \<Rightarrow> jsv \<Rightarrow> runError + string list \<times> commandDisplay" where
  "resolveSystemRunCommand command rawCommand = resolveSystemRunCommandWithMode command rawCommand False"

definition resolveSystemRunCommandRequest :: "jsv \<Rightarrow> jsv \<Rightarrow> runError + string list \<times> commandDisplay" where
  "resolveSystemRunCommandRequest command rawCommand = resolveSystemRunCommandWithMode command rawCommand True"

section \<open>Bindings\<close>

definition isPortableEnvKey :: "string \<Rightarrow> bool" where
  "isPortableEnvKey key \<longleftrightarrow> key \<noteq> [] \<and> (isAsciiLetter (hd key) \<or> hd key = CHR ''_'') \<and> list_all isWordChar (tl key)"

definition normalizeEnvVarKey :: "bool \<Rightarrow> string \<Rightarrow> string option" where
  "normalizeEnvVarKey portable rawKey =
     (let key = js_trim rawKey in
      if key = [] then None else if portable \<and> \<not> isPortableEnvKey key then None else Some key)"

type_synonym envEntries = "(string \<times> string) list"

definition normalizeSystemRunEnvEntries :: "(string \<Rightarrow> nat list) \<Rightarrow> jsv \<Rightarrow> envEntries" where
  "normalizeSystemRunEnvEntries collate env = (case env of
     JObj props \<Rightarrow> sort_key (\<lambda>(k, v). collate k)
       (concat (map (\<lambda>(rawKey, rawValue). case (rawValue, normalizeEnvVarKey True rawKey) of
          (JStr v, Some key) \<Rightarrow> [(key, v)] | _ \<Rightarrow> []) props))
   | _ \<Rightarrow> [])"

text \<open>\<open>JSON.stringify(entries)\<close>\<close>

definition jsonEntries :: "envEntries \<Rightarrow> string" where
  "jsonEntries entries = ''['' @ js_join '','' (map (\<lambda>(k, v). jsonArray [k, v]) entries) @ '']''"

definition hashSystemRunEnvEntries :: "(string \<Rightarrow> string) \<Rightarrow> envEntries \<Rightarrow> string option" where
  "hashSystemRunEnvEntries sha256 entries = (if entries = [] then None else Some (sha256 (jsonEntries entries)))"

record runBinding =
  rb_argv :: "string list"
  rb_cwd :: "string option"
  rb_agentId :: "string option"
  rb_sessionKey :: "string option"
  rb_envHash :: "string option"

definition buildSystemRunApprovalEnvBinding ::
    "(string \<Rightarrow> string) \<Rightarrow> (string \<Rightarrow> nat list) \<Rightarrow> jsv \<Rightarrow> string option \<times> string list" where
  "buildSystemRunApprovalEnvBinding sha256 collate env =
     (let entries = normalizeSystemRunEnvEntries collate env
      in (hashSystemRunEnvEntries sha256 entries, map fst entries))"

definition buildSystemRunApprovalBinding ::
    "(string \<Rightarrow> string) \<Rightarrow> (string \<Rightarrow> nat list) \<Rightarrow> jsv \<Rightarrow> jsv \<Rightarrow> jsv \<Rightarrow> jsv \<Rightarrow> jsv \<Rightarrow> runBinding \<times> string list" where
  "buildSystemRunApprovalBinding sha256 collate argv cwd agentId sessionKey env =
     (case buildSystemRunApprovalEnvBinding sha256 collate env of
        (envHash, envKeys) \<Rightarrow>
          (\<lparr>rb_argv = normalizeStringArray argv, rb_cwd = normalizeNonEmptyString cwd,
            rb_agentId = normalizeNonEmptyString agentId, rb_sessionKey = normalizeNonEmptyString sessionKey,
            rb_envHash = envHash\<rparr>, envKeys))"

fun argvLoop :: "string list \<Rightarrow> string list \<Rightarrow> bool" where
  "argvLoop (e # es) (a # as) = (if e \<noteq> a then False else argvLoop es as)"
| "argvLoop _ _ = True"

definition argvMatches :: "string list \<Rightarrow> string list \<Rightarrow> bool" where
  "argvMatches expectedArgv actualArgv =
     (if expectedArgv = [] \<or> length expectedArgv \<noteq> length actualArgv then False
      else argvLoop expectedArgv actualArgv)"

text \<open>A mismatch: its code, message and details.\<close>

record runMismatch =
  rm_code :: string
  rm_message :: string
  rm_details :: "(string \<times> jsv) list"

definition requestMismatch :: "(string \<times> jsv) list \<Rightarrow> runMismatch" where
  "requestMismatch details =
     \<lparr>rm_code = ''APPROVAL_REQUEST_MISMATCH'', rm_message = ''approval id does not match request'', rm_details = details\<rparr>"

definition matchSystemRunApprovalEnvHash ::
    "string option \<Rightarrow> string option \<Rightarrow> string list \<Rightarrow> runMismatch option" where
  "matchSystemRunApprovalEnvHash expected actual actualEnvKeys =
     (if js_or_empty expected = [] \<and> js_or_empty actual = [] then None
      else if js_or_empty expected = [] \<and> js_or_empty actual \<noteq> [] then
        Some \<lparr>rm_code = ''APPROVAL_ENV_BINDING_MISSING'',
          rm_message = ''approval id missing env binding for requested env overrides'',
          rm_details = [(''envKeys'', strArr actualEnvKeys)]\<rparr>
      else if expected \<noteq> actual then
        Some \<lparr>rm_code = ''APPROVAL_ENV_MISMATCH'', rm_message = ''approval id env binding mismatch'',
          rm_details = [(''envKeys'', strArr actualEnvKeys), (''expectedEnvHash'', js_optStr expected),
            (''actualEnvHash'', js_optStr actual)]\<rparr>
      else None)"

definition matchSystemRunApprovalBinding :: "runBinding \<Rightarrow> runBinding \<Rightarrow> string list \<Rightarrow> runMismatch option" where
  "matchSystemRunApprovalBinding expected actual actualEnvKeys =
     (if \<not> argvMatches (rb_argv expected) (rb_argv actual) then Some (requestMismatch [])
      else if rb_cwd expected \<noteq> rb_cwd actual then Some (requestMismatch [])
      else if rb_agentId expected \<noteq> rb_agentId actual then Some (requestMismatch [])
      else if rb_sessionKey expected \<noteq> rb_sessionKey actual then Some (requestMismatch [])
      else matchSystemRunApprovalEnvHash (rb_envHash expected) (rb_envHash actual) actualEnvKeys)"

definition missingSystemRunApprovalBinding :: "string list \<Rightarrow> runMismatch" where
  "missingSystemRunApprovalBinding actualEnvKeys = requestMismatch [(''envKeys'', strArr actualEnvKeys)]"

definition toSystemRunApprovalMismatchError :: "string \<Rightarrow> runMismatch \<Rightarrow> runError" where
  "toSystemRunApprovalMismatchError runId m =
     \<lparr>re_message = rm_message m, re_details = (''code'', JStr (rm_code m)) # (''runId'', JStr runId) # rm_details m\<rparr>"

text \<open>\<open>evaluateSystemRunApprovalMatch\<close>, with the fields of the approved request it reads.\<close>

definition evaluateSystemRunApprovalMatch ::
    "(string \<Rightarrow> string) \<Rightarrow> (string \<Rightarrow> nat list) \<Rightarrow> string list \<Rightarrow> string option \<Rightarrow> runBinding option \<Rightarrow>
     string option \<Rightarrow> string option \<Rightarrow> string option \<Rightarrow> jsv \<Rightarrow> runMismatch option" where
  "evaluateSystemRunApprovalMatch sha256 collate argv host binding cwd agentId sessionKey env =
     (if host \<noteq> Some ''node'' then Some (requestMismatch [])
      else (case buildSystemRunApprovalBinding sha256 collate (strArr argv) (js_optStr cwd) (js_optStr agentId)
                   (js_optStr sessionKey) env of
              (actual, envKeys) \<Rightarrow>
                (case binding of
                   None \<Rightarrow> Some (missingSystemRunApprovalBinding envKeys)
                 | Some expected \<Rightarrow> matchSystemRunApprovalBinding expected actual envKeys)))"

section \<open>Contexts\<close>

record requestContext =
  qc_plan :: "approvalPlan option"
  qc_commandArgv :: "string list option"
  qc_commandText :: string
  qc_commandPreview :: "string option"
  qc_cwd :: "string option"
  qc_agentId :: "string option"
  qc_sessionKey :: "string option"

definition normalizeCommandText :: "jsv \<Rightarrow> string" where
  "normalizeCommandText value = (case value of JStr s \<Rightarrow> s | _ \<Rightarrow> [])"

definition normalizeCommandPreview :: "string option \<Rightarrow> string \<Rightarrow> string option" where
  "normalizeCommandPreview value authoritative =
     (case js_some (js_trim (js_or_empty value)) of
        None \<Rightarrow> None
      | Some p \<Rightarrow> if p = authoritative then None else Some p)"

definition resolveSystemRunApprovalRequestContext ::
    "jsv \<Rightarrow> jsv \<Rightarrow> jsv \<Rightarrow> jsv \<Rightarrow> jsv \<Rightarrow> jsv \<Rightarrow> jsv \<Rightarrow> requestContext" where
  "resolveSystemRunApprovalRequestContext host command commandArgv systemRunPlan cwd agentId sessionKey =
     (let normalizedPlan = (if normalizeNonEmptyString host = Some ''node''
            then normalizeSystemRunApprovalPlan systemRunPlan else None);
          fallbackArgv = normalizeStringArray commandArgv;
          fallbackCommand = normalizeCommandText command
      in (case normalizedPlan of
            None \<Rightarrow>
              \<lparr>qc_plan = None, qc_commandArgv = (if fallbackArgv = [] then None else Some fallbackArgv),
               qc_commandText = fallbackCommand, qc_commandPreview = None,
               qc_cwd = normalizeNonEmptyString cwd, qc_agentId = normalizeNonEmptyString agentId,
               qc_sessionKey = normalizeNonEmptyString sessionKey\<rparr>
          | Some p \<Rightarrow>
              (let commandText = js_or (pl_commandText p) (formatExecCommand (pl_argv p));
                   preview = normalizeCommandPreview (js_coalesce (pl_commandPreview p) (Some fallbackCommand)) commandText
               in \<lparr>qc_plan = Some (p\<lparr>pl_commandPreview := preview\<rparr>), qc_commandArgv = Some (pl_argv p),
                   qc_commandText = commandText, qc_commandPreview = preview,
                   qc_cwd = js_coalesce (pl_cwd p) (normalizeNonEmptyString cwd),
                   qc_agentId = js_coalesce (pl_agentId p) (normalizeNonEmptyString agentId),
                   qc_sessionKey = js_coalesce (pl_sessionKey p) (normalizeNonEmptyString sessionKey)\<rparr>)))"

record runtimeContext =
  xc_plan :: "approvalPlan option"
  xc_argv :: "string list"
  xc_cwd :: "string option"
  xc_agentId :: "string option"
  xc_sessionKey :: "string option"
  xc_commandText :: string

definition resolveSystemRunApprovalRuntimeContext ::
    "jsv \<Rightarrow> jsv \<Rightarrow> jsv \<Rightarrow> jsv \<Rightarrow> jsv \<Rightarrow> jsv \<Rightarrow> runError + runtimeContext" where
  "resolveSystemRunApprovalRuntimeContext plan command rawCommand cwd agentId sessionKey =
     (case normalizeSystemRunApprovalPlan plan of
        Some p \<Rightarrow> Inr \<lparr>xc_plan = Some p, xc_argv = pl_argv p, xc_cwd = pl_cwd p, xc_agentId = pl_agentId p,
            xc_sessionKey = pl_sessionKey p, xc_commandText = pl_commandText p\<rparr>
      | None \<Rightarrow>
          (case resolveSystemRunCommandRequest command rawCommand of
             Inl e \<Rightarrow> Inl e
           | Inr (argv, d) \<Rightarrow> Inr \<lparr>xc_plan = None, xc_argv = argv, xc_cwd = normalizeNonEmptyString cwd,
               xc_agentId = normalizeNonEmptyString agentId, xc_sessionKey = normalizeNonEmptyString sessionKey,
               xc_commandText = cdi_commandText d\<rparr>))"

definition parsePreparedSystemRunPayload :: "jsv \<Rightarrow> approvalPlan option" where
  "parsePreparedSystemRunPayload payload = (case payload of
     JObj raw \<Rightarrow>
       (case normalizeSystemRunApprovalPlan (js_field raw ''plan'') of
          Some p \<Rightarrow> Some p
        | None \<Rightarrow>
            (case js_field raw ''plan'' of
               JObj legacyPlan \<Rightarrow>
                 (let argv = normalizeStringArray (js_field legacyPlan ''argv'');
                      commandText = js_coalesce (normalizeNonEmptyString (js_field legacyPlan ''rawCommand''))
                        (js_coalesce (normalizeNonEmptyString (js_field raw ''commandText''))
                          (normalizeNonEmptyString (js_field raw ''cmdText'')))
                  in (case commandText of
                        None \<Rightarrow> None
                      | Some text \<Rightarrow> if argv = [] then None else Some
                          \<lparr>pl_argv = argv, pl_cwd = normalizeNonEmptyString (js_field legacyPlan ''cwd''),
                           pl_commandText = text,
                           pl_commandPreview = normalizeNonEmptyString (js_field legacyPlan ''commandPreview''),
                           pl_agentId = normalizeNonEmptyString (js_field legacyPlan ''agentId''),
                           pl_sessionKey = normalizeNonEmptyString (js_field legacyPlan ''sessionKey''),
                           pl_mutableFileOperand = None\<rparr>))
             | _ \<Rightarrow> None))
   | _ \<Rightarrow> None)"

section \<open>The text of a command determines the command\<close>

abbreviation quoted :: "string \<Rightarrow> string" where "quoted s \<equiv> concat (map quoteChar s)"

fun tailText :: "string list \<Rightarrow> string" where
  "tailText [] = []"
| "tailText (x # xs) = CHR '' '' # formatArg x @ tailText xs"

lemma format_tail: "formatExecCommand (x # xs) = formatArg x @ tailText xs"
  by (induction xs arbitrary: x) (simp_all add: formatExecCommand_def)

lemma quoteChar_simps: "quoteChar CHR 0x22 = [CHR 0x5C, CHR 0x22]" "c \<noteq> CHR 0x22 \<Longrightarrow> quoteChar c = [c]"
  by (simp_all add: quoteChar_def)

lemma quoteChar_hd: "\<exists>a r. quoteChar c = a # r \<and> a \<noteq> CHR 0x22"
  by (simp add: quoteChar_def)

lemma quoted_no_close: "CHR 0x22 # r = quoted c @ t \<Longrightarrow> c = []"
  using quoteChar_hd by (cases c) (auto, metis Cons_eq_appendI list.inject)

lemma formatArg_cases:
  obtains (plain) "formatArg x = x" "x \<noteq> []" "\<And>c. c \<in> set x \<Longrightarrow> \<not> js_ws c \<and> c \<noteq> CHR 0x22"
  | (quotes) "formatArg x = CHR 0x22 # quoted x @ [CHR 0x22]"
proof (cases "x = [] \<or> needsQuotes x")
  case True
  then show ?thesis by (intro quotes) (auto simp: formatArg_def needsQuotes_def)
next
  case False
  then show ?thesis by (intro plain) (auto simp: formatArg_def needsQuotes_def list_ex_iff)
qed

lemma plain_inside_quotes:
  "u @ r = quoted c @ CHR 0x22 # t \<Longrightarrow> CHR 0x22 \<notin> set u \<Longrightarrow> (r = [] \<or> hd r \<noteq> CHR 0x22) \<Longrightarrow>
   \<exists>c'. r = quoted c' @ CHR 0x22 # t"
proof (induction u arbitrary: c)
  case Nil
  then show ?case by auto
next
  case (Cons a u)
  show ?case
  proof (cases c)
    case Nil
    with Cons.prems show ?thesis by simp
  next
    case (Cons d c0)
    show ?thesis
    proof (cases "d = CHR 0x22")
      case True
      with Cons Cons.prems have "u @ r = CHR 0x22 # quoted c0 @ CHR 0x22 # t"
        by (simp add: quoteChar_simps)
      with Cons.prems(2,3) show ?thesis by (cases u) auto
    next
      case False
      with Cons Cons.prems have "u @ r = quoted c0 @ CHR 0x22 # t" by (simp add: quoteChar_simps)
      with Cons.IH Cons.prems(2,3) show ?thesis by simp
    qed
  qed
qed

lemma tailText_hd: "tailText xs = [] \<or> hd (tailText xs) = CHR '' ''"
  by (cases xs) simp_all

text \<open>The arguments after a command never read as the rest of a quoted argument.\<close>

lemma tail_not_inside_quotes: "tailText xs \<noteq> quoted c @ CHR 0x22 # tailText ys"
proof (induction "length (tailText xs)" arbitrary: xs c ys rule: less_induct)
  case less
  show ?case
  proof
    assume eq: "tailText xs = quoted c @ CHR 0x22 # tailText ys"
    then obtain x xs' where xs: "xs = x # xs'" by (cases xs) auto
    show False
    proof (cases x rule: formatArg_cases)
      case plain
      have "(CHR '' '' # x) @ tailText xs' = quoted c @ CHR 0x22 # tailText ys"
        using eq xs plain by simp
      moreover have "CHR 0x22 \<notin> set (CHR '' '' # x)" using plain(3) by auto
      moreover have "tailText xs' = [] \<or> hd (tailText xs') \<noteq> CHR 0x22" using tailText_hd [of xs'] by auto
      ultimately obtain c' where "tailText xs' = quoted c' @ CHR 0x22 # tailText ys"
        using plain_inside_quotes by blast
      moreover have "length (tailText xs') < length (tailText xs)" by (simp add: xs)
      ultimately show ?thesis using less by blast
    next
      case quotes
      have e: "CHR '' '' # CHR 0x22 # quoted x @ CHR 0x22 # tailText xs' = quoted c @ CHR 0x22 # tailText ys"
        using eq xs quotes by simp
      then obtain d c' where c: "c = d # c'" by (cases c) auto
      with e have "CHR 0x22 # quoted x @ CHR 0x22 # tailText xs' = quoted c' @ CHR 0x22 # tailText ys"
        by (cases "d = CHR 0x22") (simp_all add: quoteChar_simps)
      with quoted_no_close [OF this] have "tailText ys = quoted x @ CHR 0x22 # tailText xs'" by simp
      moreover from eq have "length (tailText ys) < length (tailText xs)" by simp
      ultimately show ?thesis using less by blast
    qed
  qed
qed

lemma quoted_inj:
  "quoted x @ CHR 0x22 # tailText xs = quoted y @ CHR 0x22 # tailText ys \<Longrightarrow> x = y \<and> tailText xs = tailText ys"
proof (induction x arbitrary: y)
  case Nil
  then have "y = []" using quoted_no_close [of "tailText xs" y] by simp
  with Nil show ?case by simp
next
  case (Cons c x)
  show ?case
  proof (cases y)
    case Nil
    with Cons.prems quoted_no_close [of "tailText ys" "c # x"] show ?thesis by (metis append_Nil concat.simps(1) list.distinct(1) list.map(1))
  next
    case (Cons d y')
    have e: "quoteChar c @ quoted x @ CHR 0x22 # tailText xs = quoteChar d @ quoted y' @ CHR 0x22 # tailText ys"
      using Cons.prems Cons by simp
    consider "c = d" | "c = CHR 0x22" "d \<noteq> CHR 0x22" | "c \<noteq> CHR 0x22" "d = CHR 0x22" | "c \<noteq> CHR 0x22" "d \<noteq> CHR 0x22" by blast
    then show ?thesis
    proof cases
      case 1
      with e Cons.IH [of y'] Cons show ?thesis by simp
    next
      case 2
      with e have "CHR 0x22 # quoted x @ CHR 0x22 # tailText xs = quoted y' @ CHR 0x22 # tailText ys"
        by (simp add: quoteChar_simps)
      with quoted_no_close [OF this] have "tailText ys = quoted x @ CHR 0x22 # tailText xs" by simp
      with tail_not_inside_quotes show ?thesis by blast
    next
      case 3
      with e have "CHR 0x22 # quoted y' @ CHR 0x22 # tailText ys = quoted x @ CHR 0x22 # tailText xs"
        by (simp add: quoteChar_simps)
      with quoted_no_close [OF this] have "tailText xs = quoted y' @ CHR 0x22 # tailText ys" by simp
      with tail_not_inside_quotes show ?thesis by blast
    next
      case 4
      with e Cons.IH [of y'] Cons show ?thesis by (simp add: quoteChar_simps)
    qed
  qed
qed

lemma takeWhile_plain:
  "(\<And>c. c \<in> set z \<Longrightarrow> \<not> js_ws c) \<Longrightarrow> takeWhile (\<lambda>c. \<not> js_ws c) (z @ tailText zs) = z"
  by (cases zs) (simp_all add: takeWhile_append js_ws_def)

lemma plain_inj:
  assumes "x @ tailText xs = y @ tailText ys" "\<And>c. c \<in> set x \<Longrightarrow> \<not> js_ws c" "\<And>c. c \<in> set y \<Longrightarrow> \<not> js_ws c"
  shows "x = y \<and> tailText xs = tailText ys"
proof -
  have "takeWhile (\<lambda>c. \<not> js_ws c) (x @ tailText xs) = takeWhile (\<lambda>c. \<not> js_ws c) (y @ tailText ys)"
    using assms(1) by simp
  moreover have "takeWhile (\<lambda>c. \<not> js_ws c) (x @ tailText xs) = x" by (rule takeWhile_plain [OF assms(2)])
  moreover have "takeWhile (\<lambda>c. \<not> js_ws c) (y @ tailText ys) = y" by (rule takeWhile_plain [OF assms(3)])
  ultimately have "x = y" by (simp only:)
  with assms(1) show ?thesis by simp
qed

lemma formatArg_inj:
  assumes "formatArg x @ tailText xs = formatArg y @ tailText ys"
  shows "x = y \<and> tailText xs = tailText ys"
proof (cases x rule: formatArg_cases)
  case px: plain
  show ?thesis
  proof (cases y rule: formatArg_cases)
    case plain
    with assms px show ?thesis by (intro plain_inj) auto
  next
    case quotes
    with assms px show ?thesis by (cases x) auto
  qed
next
  case qx: quotes
  show ?thesis
  proof (cases y rule: formatArg_cases)
    case plain
    with assms qx show ?thesis by (cases y) auto
  next
    case quotes
    with assms qx show ?thesis by (intro quoted_inj) simp
  qed
qed

lemma tailText_inj: "tailText xs = tailText ys \<Longrightarrow> xs = ys"
proof (induction xs arbitrary: ys)
  case Nil
  then show ?case by (cases ys) simp_all
next
  case (Cons x xs)
  then obtain y ys' where ys: "ys = y # ys'" by (cases ys) auto
  with Cons.prems formatArg_inj [of x xs y ys'] Cons.IH [of ys'] show ?case by simp
qed

lemma formatArg_not_Nil: "formatArg x \<noteq> []"
  by (cases x rule: formatArg_cases) simp_all

section \<open>Properties\<close>

text \<open>the text shown for an approval determines the argument vector: two commands with the same
  text are the same command, whatever quotes, blanks or backslashes their arguments hold.\<close>

theorem command_text_determines_argv: "formatExecCommand a = formatExecCommand b \<longleftrightarrow> a = b"
proof
  assume eq: "formatExecCommand a = formatExecCommand b"
  show "a = b"
  proof (cases a)
    case Nil
    with eq show ?thesis using formatArg_not_Nil by (cases b) (simp_all add: format_tail formatExecCommand_def [of "[]"])
  next
    case ax: (Cons x xs)
    show ?thesis
    proof (cases b)
      case Nil
      with eq ax show ?thesis using formatArg_not_Nil by (simp add: format_tail formatExecCommand_def [of "[]"])
    next
      case (Cons y ys)
      with eq ax formatArg_inj [of x xs y ys] tailText_inj show ?thesis by (auto simp: format_tail)
    qed
  qed
qed simp

lemma trim_nonEmpty: "js_nonEmptyString v = Some s \<Longrightarrow> js_trim s = s \<and> s \<noteq> []"
  by (cases v) (auto simp: js_nonEmptyString_def js_some_def split: if_splits)

lemma nonEmpty_optStr:
  "normalizeNonEmptyString (js_optStr (normalizeNonEmptyString v)) = normalizeNonEmptyString v"
  using trim_nonEmpty [of v]
  by (cases "js_nonEmptyString v")
    (auto simp: normalizeNonEmptyString_def js_optStr_def js_nonEmptyString_def [of "JStr _"]
      js_nonEmptyString_def [of JNull] js_some_def)

lemma nonEmpty_Str: "normalizeNonEmptyString v = Some s \<Longrightarrow> normalizeNonEmptyString (JStr s) = Some s"
  using trim_nonEmpty [of v s]
  by (simp add: normalizeNonEmptyString_def js_nonEmptyString_def [of "JStr _"] js_some_def)

lemma stringArray_strArr [simp]: "normalizeStringArray (strArr ss) = ss"
  by (simp add: normalizeStringArray_def strArr_def comp_def)

lemma operand_parts:
  assumes "normalizeFileOperand v = Some (Some f)"
  shows "0 \<le> fo_argvIndex f" "normalizeNonEmptyString (JStr (fo_path f)) = Some (fo_path f)"
    "normalizeNonEmptyString (JStr (fo_sha256 f)) = Some (fo_sha256 f)"
  using assms by (auto simp: normalizeFileOperand_def split: jsv.splits option.splits if_splits
      dest: nonEmpty_Str)

lemma operand_value:
  assumes "normalizeFileOperand v = Some (Some f)"
  shows "normalizeFileOperand (fileOperandValue (Some f)) = Some (Some f)"
  using operand_parts [OF assms]
  by (simp add: normalizeFileOperand_def fileOperandValue_def js_field_def)

text \<open>A plan that was normalised is not changed by being stored and normalised again, as the
  gateway does when the approved command is finally run.\<close>

theorem plan_normalised_once:
  assumes "normalizeSystemRunApprovalPlan v = Some p"
  shows "normalizeSystemRunApprovalPlan (planValue (Some p)) = Some p"
proof -
  obtain c where v: "v = JObj c" using assms by (cases v) (auto simp: normalizeSystemRunApprovalPlan_def)
  define mf where "mf = normalizeFileOperand (js_field c ''mutableFileOperand'')"
  have mf: "normalizeFileOperand (fileOperandValue (case mf of None \<Rightarrow> None | Some o' \<Rightarrow> o')) = mf" if "mf \<noteq> Some None"
    using that operand_value [of "js_field c ''mutableFileOperand''"]
    by (cases mf) (auto simp: mf_def [symmetric] fileOperandValue_def normalizeFileOperand_def [of JUndef])
  obtain tx where t: "js_coalesce (normalizeNonEmptyString (js_field c ''commandText''))
      (normalizeNonEmptyString (js_field c ''rawCommand'')) = Some tx"
    and ok: "normalizeStringArray (js_field c ''argv'') \<noteq> []" "mf \<noteq> Some None"
    and p: "p = \<lparr>pl_argv = normalizeStringArray (js_field c ''argv''), pl_cwd = normalizeNonEmptyString (js_field c ''cwd''),
      pl_commandText = tx, pl_commandPreview = normalizeNonEmptyString (js_field c ''commandPreview''),
      pl_agentId = normalizeNonEmptyString (js_field c ''agentId''),
      pl_sessionKey = normalizeNonEmptyString (js_field c ''sessionKey''),
      pl_mutableFileOperand = (case mf of None \<Rightarrow> None | Some o' \<Rightarrow> o')\<rparr>"
    using assms unfolding v mf_def
    by (auto simp: normalizeSystemRunApprovalPlan_def Let_def split: if_splits option.split_asm)
  have "normalizeNonEmptyString (JStr tx) = Some tx"
    using t nonEmpty_Str by (auto simp: js_coalesce_def split: option.splits)
  then show ?thesis
    using ok mf by (simp add: p planValue_def normalizeSystemRunApprovalPlan_def js_field_def nonEmpty_optStr
        js_coalesce_def)
qed

definition samplePlanValue :: jsv where
  "samplePlanValue = JObj [(''argv'', JArr [JStr ''ls'', JNum 5]), (''cwd'', JStr '' /tmp ''), (''rawCommand'', JStr ''ls 5'')]"

theorem plan_normalised_once_witness:
  "\<exists>p. normalizeSystemRunApprovalPlan samplePlanValue = Some p \<and>
       normalizeSystemRunApprovalPlan (planValue (Some p)) = Some p"
proof -
  have "normalizeSystemRunApprovalPlan samplePlanValue \<noteq> None" by code_simp
  then obtain p where p: "normalizeSystemRunApprovalPlan samplePlanValue = Some p" by blast
  with plan_normalised_once [OF p] show ?thesis by blast
qed

lemma argvLoop_iff: "length es = length as \<Longrightarrow> argvLoop es as \<longleftrightarrow> es = as"
  by (induction es as rule: argvLoop.induct) auto

lemma argvMatches_iff: "argvMatches e a \<longleftrightarrow> e = a \<and> e \<noteq> []"
  using argvLoop_iff [of e a] by (auto simp: argvMatches_def)

definition jsonPair :: "string \<times> string \<Rightarrow> string" where
  "jsonPair = (\<lambda>(k, v). jsonArray [k, v])"

lemma jsonPair_inj: "jsonPair p @ r = jsonPair q @ r' \<Longrightarrow> p = q \<and> r = r'"
  using jsonArray_inj by (cases p; cases q) (fastforce simp: jsonPair_def)

lemma jsonEntries_inj:
  assumes "jsonEntries es = jsonEntries fs"
  shows "es = fs"
proof -
  have "es = fs \<and> [] = ([] :: string)"
  proof (rule join_inj [where enc = jsonPair])
    show "js_join '','' (map jsonPair es) @ CHR '']'' # [] = js_join '','' (map jsonPair fs) @ CHR '']'' # []"
      using assms by (simp add: jsonEntries_def jsonPair_def)
    show "jsonPair x \<noteq> [] \<and> hd (jsonPair x) \<noteq> CHR '']''" for x
      by (cases x) (simp add: jsonPair_def jsonArray_def)
  qed (rule jsonPair_inj)
  then show ?thesis by simp
qed

text \<open>a request matches an approval only if it is for a node and has the approved arguments, working
  directory, agent and session, and the approved environment, as far as the hash tells two
  environments apart.\<close>

theorem approval_match_identifies_run:
  assumes "evaluateSystemRunApprovalMatch sha256 collate argv host
      (Some (fst (buildSystemRunApprovalBinding sha256 collate argv0 cwd0 agent0 session0 env0))) cwd agent session env = None"
    and "\<And>t. sha256 t \<noteq> []"
    and "inj_on sha256 {jsonEntries (normalizeSystemRunEnvEntries collate env0),
      jsonEntries (normalizeSystemRunEnvEntries collate env)}"
  shows "host = Some ''node'' \<and> argv = normalizeStringArray argv0 \<and> argv \<noteq> [] \<and>
    normalizeNonEmptyString (js_optStr cwd) = normalizeNonEmptyString cwd0 \<and>
    normalizeNonEmptyString (js_optStr agent) = normalizeNonEmptyString agent0 \<and>
    normalizeNonEmptyString (js_optStr session) = normalizeNonEmptyString session0 \<and>
    normalizeSystemRunEnvEntries collate env = normalizeSystemRunEnvEntries collate env0"
proof -
  define e0 where "e0 = normalizeSystemRunEnvEntries collate env0"
  define e where "e = normalizeSystemRunEnvEntries collate env"
  have m: "matchSystemRunApprovalBinding
      \<lparr>rb_argv = normalizeStringArray argv0, rb_cwd = normalizeNonEmptyString cwd0,
       rb_agentId = normalizeNonEmptyString agent0, rb_sessionKey = normalizeNonEmptyString session0,
       rb_envHash = hashSystemRunEnvEntries sha256 e0\<rparr>
      \<lparr>rb_argv = argv, rb_cwd = normalizeNonEmptyString (js_optStr cwd),
       rb_agentId = normalizeNonEmptyString (js_optStr agent), rb_sessionKey = normalizeNonEmptyString (js_optStr session),
       rb_envHash = hashSystemRunEnvEntries sha256 e\<rparr> (map fst e) = None" and h: "host = Some ''node''"
    using assms(1)
    by (auto simp: evaluateSystemRunApprovalMatch_def buildSystemRunApprovalBinding_def
        buildSystemRunApprovalEnvBinding_def Let_def e_def e0_def split: if_splits)
  then have parts: "normalizeStringArray argv0 = argv" "argv \<noteq> []"
    "normalizeNonEmptyString cwd0 = normalizeNonEmptyString (js_optStr cwd)"
    "normalizeNonEmptyString agent0 = normalizeNonEmptyString (js_optStr agent)"
    "normalizeNonEmptyString session0 = normalizeNonEmptyString (js_optStr session)"
    and env: "matchSystemRunApprovalEnvHash (hashSystemRunEnvEntries sha256 e0) (hashSystemRunEnvEntries sha256 e)
      (map fst e) = None"
    by (auto simp: matchSystemRunApprovalBinding_def argvMatches_iff split: if_splits)
  from env assms(2) have "hashSystemRunEnvEntries sha256 e0 = hashSystemRunEnvEntries sha256 e"
    by (auto simp: matchSystemRunApprovalEnvHash_def hashSystemRunEnvEntries_def js_or_empty_def split: if_splits)
  then have "e0 = e"
    using assms(3) jsonEntries_inj [of e0 e]
    by (auto simp: hashSystemRunEnvEntries_def e_def e0_def inj_on_def split: if_splits)
  then show ?thesis using parts h by (simp add: e_def e0_def)
qed

definition sampleEnv :: jsv where
  "sampleEnv = JObj [(''B'', JStr ''2''), ('' A '', JStr ''1''), (''9'', JStr ''x''), (''C'', JNull)]"

definition sampleCollate :: "string \<Rightarrow> nat list" where
  "sampleCollate = map of_char"

theorem approval_match_identifies_run_witness:
  "normalizeSystemRunEnvEntries sampleCollate sampleEnv =
   normalizeSystemRunEnvEntries sampleCollate (JObj [(''A'', JStr ''1''), (''B'', JStr ''2'')])"
proof -
  have "evaluateSystemRunApprovalMatch (Cons CHR ''h'') sampleCollate [''ls''] (Some ''node'')
    (Some (fst (buildSystemRunApprovalBinding (Cons CHR ''h'') sampleCollate (strArr [''ls'']) (JStr ''/tmp'') JNull JNull
      (JObj [(''A'', JStr ''1''), (''B'', JStr ''2'')])))) (Some ''/tmp'') None None sampleEnv = None"
    by code_simp
  from approval_match_identifies_run [OF this] show ?thesis by (simp add: inj_on_def)
qed

end
