(* ===== verification/Exec_Approvals.thy ===== *)
theory Exec_Approvals
  imports System_Run
begin

text \<open>
  \<open>src/gateway/exec-approval-manager.ts\<close>, the request and resolve handlers of
  \<open>src/gateway/server-methods/exec-approval.ts\<close>, and the gate
  \<open>src/gateway/node-invoke-system-run-approval.ts\<close> that lets an approved command through to a node.
  Pending entries are objects in a store, because timers and grace periods hold on to an entry after
  its id may name another. A promise is the value it settled to, if it did.
\<close>

section \<open>Records\<close>

datatype approvalDecision = AllowOnce | AllowAlways | Deny

text \<open>Of the payload, what the gateway reads back; the rest is shown to the operator.\<close>

record approvalRequest =
  aq_command :: string
  aq_host :: "string option"
  aq_nodeId :: "string option"
  aq_systemRunBinding :: "runBinding option"
  aq_systemRunPlan :: "approvalPlan option"

text \<open>\<open>ar_resolvedBy\<close>: \<open>None\<close> is \<open>undefined\<close>, \<open>Some None\<close> is \<open>null\<close>.\<close>

record approvalRecord =
  ar_id :: string
  ar_request :: approvalRequest
  ar_createdAtMs :: int
  ar_expiresAtMs :: int
  ar_requestedByConnId :: "string option"
  ar_requestedByDeviceId :: "string option"
  ar_requestedByClientId :: "string option"
  ar_resolvedAtMs :: "int option"
  ar_decision :: "approvalDecision option"
  ar_resolvedBy :: "string option option"

record pendingEntry =
  pe_record :: approvalRecord
  pe_promise :: "approvalDecision option option"
  pe_timer :: bool

text \<open>The log observes settled promises, consumed approvals and commands let through.\<close>

datatype forwardGrant = ByOnce | ByAlways | ByFallback

datatype approvalEvent =
    Settled nat "approvalDecision option"
  | Consumed nat
  | Forwarded nat forwardGrant

record approvalState =
  ap_heap :: "pendingEntry list"
  ap_pending :: "(string \<times> nat) list"
  ap_grace :: "(string \<times> nat) list"
  ap_log :: "approvalEvent list"

definition initApprovals :: approvalState where
  "initApprovals = \<lparr>ap_heap = [], ap_pending = [], ap_grace = [], ap_log = []\<rparr>"

definition entryAt :: "approvalState \<Rightarrow> nat \<Rightarrow> pendingEntry" where
  "entryAt s o' = ap_heap s ! o'"

definition setEntry :: "nat \<Rightarrow> pendingEntry \<Rightarrow> approvalState \<Rightarrow> approvalState" where
  "setEntry o' e s = s\<lparr>ap_heap := (ap_heap s)[o' := e]\<rparr>"

definition logA :: "approvalEvent \<Rightarrow> approvalState \<Rightarrow> approvalState" where
  "logA ev s = s\<lparr>ap_log := ap_log s @ [ev]\<rparr>"

section \<open>The manager\<close>

text \<open>\<open>randomUUID\<close> is the argument \<open>uuid\<close>.\<close>

definition createRecord ::
    "string \<Rightarrow> int \<Rightarrow> approvalRequest \<Rightarrow> int \<Rightarrow> string option \<Rightarrow> approvalRecord" where
  "createRecord uuid now request timeoutMs givenId =
     \<lparr>ar_id = js_or (js_trim (js_or_empty givenId)) uuid, ar_request = request, ar_createdAtMs = now,
      ar_expiresAtMs = now + timeoutMs, ar_requestedByConnId = None, ar_requestedByDeviceId = None,
      ar_requestedByClientId = None, ar_resolvedAtMs = None, ar_decision = None, ar_resolvedBy = None\<rparr>"

text \<open>The result is the entry whose promise is returned, or the error thrown.\<close>

definition registerRecord :: "approvalRecord \<Rightarrow> approvalState \<Rightarrow> (string + nat) \<times> approvalState" where
  "registerRecord record s =
     (case map_of (ap_pending s) (ar_id record) of
        Some o' \<Rightarrow>
          if ar_resolvedAtMs (pe_record (entryAt s o')) = None then (Inr o', s)
          else (Inl (''approval id '' @ [CHR 0x27] @ ar_id record @ [CHR 0x27] @ '' already resolved''), s)
      | None \<Rightarrow>
          (let o' = length (ap_heap s) in
           (Inr o', s\<lparr>ap_heap := ap_heap s @ [\<lparr>pe_record = record, pe_promise = None, pe_timer = True\<rparr>],
                      ap_pending := AList.update (ar_id record) o' (ap_pending s)\<rparr>)))"

text \<open>What \<open>resolve\<close> and \<open>expire\<close> share.\<close>

definition settleEntry ::
    "int \<Rightarrow> string \<Rightarrow> approvalDecision option \<Rightarrow> string option \<Rightarrow> approvalState \<Rightarrow> bool \<times> approvalState" where
  "settleEntry now recordId decision resolvedBy s =
     (case map_of (ap_pending s) recordId of
        None \<Rightarrow> (False, s)
      | Some o' \<Rightarrow>
          (let e = entryAt s o'; r = pe_record e in
           if ar_resolvedAtMs r \<noteq> None then (False, s)
           else (True,
             (logA (Settled o' decision)
               (setEntry o' \<lparr>pe_record = r\<lparr>ar_resolvedAtMs := Some now, ar_decision := decision,
                   ar_resolvedBy := Some resolvedBy\<rparr>, pe_promise = Some decision, pe_timer = False\<rparr> s))
               \<lparr>ap_grace := ap_grace s @ [(recordId, o')]\<rparr>)))"

definition resolveApproval ::
    "int \<Rightarrow> string \<Rightarrow> approvalDecision \<Rightarrow> string option \<Rightarrow> approvalState \<Rightarrow> bool \<times> approvalState" where
  "resolveApproval now recordId decision resolvedBy s = settleEntry now recordId (Some decision) resolvedBy s"

definition expireApproval :: "int \<Rightarrow> string \<Rightarrow> string option \<Rightarrow> approvalState \<Rightarrow> bool \<times> approvalState" where
  "expireApproval now recordId resolvedBy s = settleEntry now recordId None resolvedBy s"

text \<open>The timeout of an entry fires, if it was not cleared.\<close>

definition timerFires :: "int \<Rightarrow> nat \<Rightarrow> approvalState \<Rightarrow> approvalState" where
  "timerFires now o' s =
     (if o' < length (ap_heap s) \<and> pe_timer (entryAt s o')
      then (let s1 = setEntry o' ((entryAt s o')\<lparr>pe_timer := False\<rparr>) s
            in snd (expireApproval now (ar_id (pe_record (entryAt s o'))) None s1))
      else s)"

text \<open>The \<open>k\<close>-th grace period ends: the entry is deleted unless its id names another one.\<close>

definition graceFires :: "nat \<Rightarrow> approvalState \<Rightarrow> approvalState" where
  "graceFires k s =
     (if k < length (ap_grace s)
      then (case ap_grace s ! k of
              (recordId, o') \<Rightarrow>
                (let s1 = s\<lparr>ap_grace := take k (ap_grace s) @ drop (Suc k) (ap_grace s)\<rparr>
                 in if map_of (ap_pending s) recordId = Some o'
                    then s1\<lparr>ap_pending := AList.delete recordId (ap_pending s)\<rparr> else s1))
      else s)"

definition getSnapshot :: "string \<Rightarrow> approvalState \<Rightarrow> approvalRecord option" where
  "getSnapshot recordId s = map_option (\<lambda>o'. pe_record (entryAt s o')) (map_of (ap_pending s) recordId)"

definition consumeAllowOnce :: "string \<Rightarrow> approvalState \<Rightarrow> bool \<times> approvalState" where
  "consumeAllowOnce recordId s =
     (case map_of (ap_pending s) recordId of
        None \<Rightarrow> (False, s)
      | Some o' \<Rightarrow>
          (let e = entryAt s o' in
           if ar_decision (pe_record e) \<noteq> Some AllowOnce then (False, s)
           else (True, logA (Consumed o') (setEntry o' (e\<lparr>pe_record := (pe_record e)\<lparr>ar_decision := None\<rparr>\<rparr>) s))))"

definition awaitDecision :: "string \<Rightarrow> approvalState \<Rightarrow> nat option" where
  "awaitDecision recordId s = map_of (ap_pending s) recordId"

datatype approvalLookup = LookupExact string | LookupPrefix string | LookupAmbiguous "string list" | LookupNone

definition lookupPendingId :: "string \<Rightarrow> approvalState \<Rightarrow> approvalLookup" where
  "lookupPendingId input s =
     (let normalized = js_trim input in
      if normalized = [] then LookupNone
      else (case map_of (ap_pending s) normalized of
          Some o' \<Rightarrow> if ar_resolvedAtMs (pe_record (entryAt s o')) = None then LookupExact normalized else LookupNone
        | None \<Rightarrow>
            (let matches = map fst (filter (\<lambda>(i, o'). ar_resolvedAtMs (pe_record (entryAt s o')) = None \<and>
                   prefix (js_lower normalized) (js_lower i)) (ap_pending s))
             in case matches of [] \<Rightarrow> LookupNone | [m] \<Rightarrow> LookupPrefix m | _ \<Rightarrow> LookupAmbiguous matches)))"

section \<open>Handlers\<close>

text \<open>\<open>exec.approval.request\<close>: the guards, then the payload. \<open>display\<close> sanitises text for display.\<close>

record requestParams =
  rp_id :: jsv
  rp_command :: jsv
  rp_commandArgv :: jsv
  rp_env :: jsv
  rp_cwd :: jsv
  rp_systemRunPlan :: jsv
  rp_nodeId :: jsv
  rp_host :: jsv
  rp_agentId :: jsv
  rp_sessionKey :: jsv

definition trimmedText :: "jsv \<Rightarrow> string" where
  "trimmedText v = (case v of JStr s \<Rightarrow> js_trim s | _ \<Rightarrow> [])"

definition buildApprovalRequest ::
    "(string \<Rightarrow> string) \<Rightarrow> (string \<Rightarrow> nat list) \<Rightarrow> (string \<Rightarrow> string) \<Rightarrow> requestParams \<Rightarrow> approvalState \<Rightarrow>
     string + (string option \<times> approvalRequest)" where
  "buildApprovalRequest sha256 collate display p s =
     (let explicitId = js_nonEmptyString (rp_id p); host = trimmedText (rp_host p); nodeId = trimmedText (rp_nodeId p);
          ctx = resolveSystemRunApprovalRequestContext (JStr host) (rp_command p) (rp_commandArgv p)
            (rp_systemRunPlan p) (rp_cwd p) (rp_agentId p) (rp_sessionKey p)
      in if host = ''node'' \<and> nodeId = [] then Inl ''nodeId is required for host=node''
         else if host = ''node'' \<and> qc_plan ctx = None then Inl ''systemRunPlan is required for host=node''
         else if qc_commandText ctx = [] then Inl ''command is required''
         else if host = ''node'' \<and> (qc_commandArgv ctx = None \<or> qc_commandArgv ctx = Some [])
         then Inl ''commandArgv is required for host=node''
         else if explicitId \<noteq> None \<and> getSnapshot (js_or_empty explicitId) s \<noteq> None then Inl ''approval id already pending''
         else Inr (explicitId,
           \<lparr>aq_command = display (qc_commandText ctx), aq_host = js_some host,
            aq_nodeId = (if host = ''node'' then Some nodeId else None),
            aq_systemRunBinding = (if host = ''node'' then Some (fst (buildSystemRunApprovalBinding sha256 collate
                (strArr (case qc_commandArgv ctx of None \<Rightarrow> [] | Some a \<Rightarrow> a)) (js_optStr (qc_cwd ctx))
                (js_optStr (qc_agentId ctx)) (js_optStr (qc_sessionKey ctx)) (rp_env p))) else None),
            aq_systemRunPlan = qc_plan ctx\<rparr>))"

record approvalClient =
  cl_connId :: "string option"
  cl_deviceId :: "string option"
  cl_clientId :: "string option"
  cl_displayName :: "string option"
  cl_scopes :: "string list"

definition requestApproval ::
    "(string \<Rightarrow> string) \<Rightarrow> (string \<Rightarrow> nat list) \<Rightarrow> (string \<Rightarrow> string) \<Rightarrow> string \<Rightarrow> int \<Rightarrow> int \<Rightarrow> requestParams \<Rightarrow>
     approvalClient option \<Rightarrow> approvalState \<Rightarrow> (string + nat) \<times> approvalState" where
  "requestApproval sha256 collate display uuid now timeoutMs p client s =
     (case buildApprovalRequest sha256 collate display p s of
        Inl e \<Rightarrow> (Inl e, s)
      | Inr (explicitId, request) \<Rightarrow>
          registerRecord ((createRecord uuid now request timeoutMs explicitId)
            \<lparr>ar_requestedByConnId := Option.bind client cl_connId,
             ar_requestedByDeviceId := Option.bind client cl_deviceId,
             ar_requestedByClientId := Option.bind client cl_clientId\<rparr>) s)"

text \<open>\<open>exec.approval.resolve\<close>: the id may be a unique prefix.\<close>

definition resolveRequest ::
    "int \<Rightarrow> string \<Rightarrow> approvalDecision \<Rightarrow> approvalClient option \<Rightarrow> approvalState \<Rightarrow> bool \<times> approvalState" where
  "resolveRequest now input decision client s =
     (let resolvedBy = js_coalesce (Option.bind client cl_displayName) (Option.bind client cl_clientId) in
      case lookupPendingId input s of
        LookupExact i \<Rightarrow> resolveApproval now i decision resolvedBy s
      | LookupPrefix i \<Rightarrow> resolveApproval now i decision resolvedBy s
      | _ \<Rightarrow> (False, s))"

section \<open>The gate\<close>

definition guardError :: "string \<Rightarrow> string \<Rightarrow> (string \<times> jsv) list \<Rightarrow> runError" where
  "guardError code message details = \<lparr>re_message = message, re_details = (''code'', JStr code) # details\<rparr>"

definition approvalRequired :: "string \<Rightarrow> runError" where
  "approvalRequired runId = guardError ''APPROVAL_REQUIRED'' ''approval required'' [(''runId'', JStr runId)]"

definition normalizeApprovalDecision :: "jsv \<Rightarrow> approvalDecision option" where
  "normalizeApprovalDecision value =
     (if js_nonEmptyString value = Some ''allow-once'' then Some AllowOnce
      else if js_nonEmptyString value = Some ''allow-always'' then Some AllowAlways else None)"

definition clientHasApprovals :: "approvalClient option \<Rightarrow> bool" where
  "clientHasApprovals client =
     (case client of None \<Rightarrow> False
      | Some c \<Rightarrow> ''operator.admin'' \<in> set (cl_scopes c) \<or> ''operator.approvals'' \<in> set (cl_scopes c))"

definition FORWARDED_KEYS :: "string list" where
  "FORWARDED_KEYS = [''command'', ''rawCommand'', ''systemRunPlan'', ''cwd'', ''env'', ''timeoutMs'',
     ''needsScreenRecording'', ''agentId'', ''sessionKey'', ''runId'', ''suppressNotifyOnExit'']"

definition pickSystemRunParams :: "(string \<times> jsv) list \<Rightarrow> (string \<times> jsv) list" where
  "pickSystemRunParams raw =
     concat (map (\<lambda>k. case map_of raw k of None \<Rightarrow> [] | Some v \<Rightarrow> [(k, v)]) FORWARDED_KEYS)"

definition setOrDelete :: "string \<Rightarrow> string option \<Rightarrow> (string \<times> jsv) list \<Rightarrow> (string \<times> jsv) list" where
  "setOrDelete key v next' =
     (if js_or_empty v = [] then AList.delete key next' else AList.update key (JStr (js_or_empty v)) next')"

definition applyRuntimePlan :: "runtimeContext \<Rightarrow> (string \<times> jsv) list \<Rightarrow> (string \<times> jsv) list" where
  "applyRuntimePlan ctx next' =
     (case xc_plan ctx of
        None \<Rightarrow> next'
      | Some plan \<Rightarrow>
          setOrDelete ''sessionKey'' (xc_sessionKey ctx)
            (setOrDelete ''agentId'' (xc_agentId ctx)
              (setOrDelete ''cwd'' (xc_cwd ctx)
                (setOrDelete ''rawCommand'' (Some (xc_commandText ctx))
                  (AList.update ''systemRunPlan'' (planValue (Some plan))
                    (AList.update ''command'' (strArr (pl_argv plan)) next'))))))"

definition approvedParams :: "string \<Rightarrow> (string \<times> jsv) list \<Rightarrow> jsv" where
  "approvedParams decision next' =
     JObj (AList.update ''approvalDecision'' (JStr decision) (AList.update ''approved'' (JBool True) next'))"

text \<open>The checks on the recorded approval, in the order of the code.\<close>

definition checkApproval ::
    "int \<Rightarrow> string option \<Rightarrow> approvalClient option \<Rightarrow> string \<Rightarrow> approvalRecord \<Rightarrow> runError option" where
  "checkApproval now nodeId client runId snapshot =
     (let rid = [(''runId'', JStr runId)]; target = js_some (js_trim (js_or_empty nodeId));
          approvalNode = js_some (js_trim (js_or_empty (aq_nodeId (ar_request snapshot))))
      in if ar_expiresAtMs snapshot < now then Some (guardError ''APPROVAL_EXPIRED'' ''approval expired'' rid)
         else if target = None then Some (guardError ''MISSING_NODE_ID'' ''node.invoke requires nodeId'' rid)
         else if approvalNode = None
         then Some (guardError ''APPROVAL_NODE_BINDING_MISSING'' ''approval id missing node binding'' rid)
         else if approvalNode \<noteq> target
         then Some (guardError ''APPROVAL_NODE_MISMATCH'' ''approval id not valid for this node'' rid)
         else if js_or_empty (ar_requestedByDeviceId snapshot) \<noteq> []
         then (if ar_requestedByDeviceId snapshot \<noteq> Option.bind client cl_deviceId
               then Some (guardError ''APPROVAL_DEVICE_MISMATCH'' ''approval id not valid for this device'' rid)
               else None)
         else if js_or_empty (ar_requestedByConnId snapshot) \<noteq> [] \<and>
             ar_requestedByConnId snapshot \<noteq> Option.bind client cl_connId
         then Some (guardError ''APPROVAL_CLIENT_MISMATCH'' ''approval id not valid for this client'' rid)
         else None)"

definition timedOutSnapshot :: "approvalRecord \<Rightarrow> bool" where
  "timedOutSnapshot r \<longleftrightarrow> ar_resolvedAtMs r \<noteq> None \<and> ar_decision r = None \<and> ar_resolvedBy r = Some None"

text \<open>The decision at the end of the gate, for the entry \<open>o'\<close> that \<open>runId\<close> names.\<close>

definition enforceDecision ::
    "jsv \<Rightarrow> jsv \<Rightarrow> approvalClient option \<Rightarrow> string \<Rightarrow> nat \<Rightarrow> (string \<times> jsv) list \<Rightarrow> approvalState \<Rightarrow>
     (runError + jsv) \<times> approvalState" where
  "enforceDecision approved requested client runId o' next' s =
     (let snapshot = pe_record (entryAt s o') in
      if ar_decision snapshot = Some AllowOnce then
        (case consumeAllowOnce runId s of
           (True, s1) \<Rightarrow> (Inr (approvedParams ''allow-once'' next'), logA (Forwarded o' ByOnce) s1)
         | (False, s1) \<Rightarrow> (Inl (approvalRequired runId), s1))
      else if ar_decision snapshot = Some AllowAlways then
        (Inr (approvedParams ''allow-always'' next'), logA (Forwarded o' ByAlways) s)
      else if timedOutSnapshot snapshot \<and> approved = JBool True \<and>
          normalizeApprovalDecision requested = Some AllowOnce \<and> clientHasApprovals client then
        (Inr (approvedParams ''allow-once'' next'), logA (Forwarded o' ByFallback) s)
      else (Inl (approvalRequired runId), s))"

text \<open>\<open>managed\<close> is whether the gateway has a manager of approvals, which it always creates.\<close>

definition sanitizeSystemRunParamsForForwarding ::
    "bool \<Rightarrow> (string \<Rightarrow> string) \<Rightarrow> (string \<Rightarrow> nat list) \<Rightarrow> int \<Rightarrow> string option \<Rightarrow> jsv \<Rightarrow> approvalClient option \<Rightarrow>
     approvalState \<Rightarrow> (runError + jsv) \<times> approvalState" where
  "sanitizeSystemRunParamsForForwarding managed sha256 collate now nodeId rawParams client s =
     (case rawParams of
        JObj obj \<Rightarrow>
          (let approved = js_field obj ''approved''; requested = js_field obj ''approvalDecision'';
               next' = pickSystemRunParams obj
           in if approved \<noteq> JBool True \<and> normalizeApprovalDecision requested = None then
                (case resolveSystemRunCommandRequest (js_field obj ''command'') (js_field obj ''rawCommand'') of
                   Inl e \<Rightarrow> (Inl e, s)
                 | Inr _ \<Rightarrow> (Inr (JObj next'), s))
              else (case js_nonEmptyString (js_field obj ''runId'') of
                  None \<Rightarrow> (Inl (guardError ''MISSING_RUN_ID'' ''approval override requires params.runId'' []), s)
                | Some runId \<Rightarrow>
                    if \<not> managed then (Inl (guardError ''APPROVALS_UNAVAILABLE'' ''exec approvals unavailable'' []), s)
                    else (case map_of (ap_pending s) runId of
                       None \<Rightarrow> (Inl (guardError ''UNKNOWN_APPROVAL_ID'' ''unknown or expired approval id''
                                    [(''runId'', JStr runId)]), s)
                     | Some o' \<Rightarrow>
                         (let snapshot = pe_record (entryAt s o'); request = ar_request snapshot in
                          case checkApproval now nodeId client runId snapshot of
                            Some e \<Rightarrow> (Inl e, s)
                          | None \<Rightarrow>
                              (case resolveSystemRunApprovalRuntimeContext (planValue (aq_systemRunPlan request))
                                     (js_field obj ''command'') (js_field obj ''rawCommand'') (js_field obj ''cwd'')
                                     (js_field obj ''agentId'') (js_field obj ''sessionKey'') of
                                 Inl e \<Rightarrow> (Inl e, s)
                               | Inr ctx \<Rightarrow>
                                   (case evaluateSystemRunApprovalMatch sha256 collate (xc_argv ctx) (aq_host request)
                                          (aq_systemRunBinding request) (xc_cwd ctx) (xc_agentId ctx) (xc_sessionKey ctx)
                                          (js_field obj ''env'') of
                                      Some m \<Rightarrow> (Inl (toSystemRunApprovalMismatchError runId m), s)
                                    | None \<Rightarrow> enforceDecision approved requested client runId o'
                                        (applyRuntimePlan ctx next') s))))))
      | _ \<Rightarrow> (Inr rawParams, s))"

definition sanitizeSystemRunParams ::
    "(string \<Rightarrow> string) \<Rightarrow> (string \<Rightarrow> nat list) \<Rightarrow> int \<Rightarrow> string option \<Rightarrow> jsv \<Rightarrow> approvalClient option \<Rightarrow>
     approvalState \<Rightarrow> (runError + jsv) \<times> approvalState" where
  "sanitizeSystemRunParams = sanitizeSystemRunParamsForForwarding True"

definition sanitizeNodeInvokeParams ::
    "(string \<Rightarrow> string) \<Rightarrow> (string \<Rightarrow> nat list) \<Rightarrow> int \<Rightarrow> string \<Rightarrow> string \<Rightarrow> jsv \<Rightarrow> approvalClient option \<Rightarrow>
     approvalState \<Rightarrow> (runError + jsv) \<times> approvalState" where
  "sanitizeNodeInvokeParams sha256 collate now nodeId command rawParams client s =
     (if command = ''system.run'' then sanitizeSystemRunParams sha256 collate now (Some nodeId) rawParams client s
      else (Inr rawParams, s))"

section \<open>Runs\<close>

text \<open>A request whose guards passed registers a fresh record; timers and grace periods fire in any
  order. A record that is registered has not been resolved.\<close>

datatype approvalInput =
    ARequest requestParams string int "approvalClient option"
  | AResolve string approvalDecision "approvalClient option"
  | AExpire string "string option"
  | ATimer nat
  | AGrace nat
  | AInvoke "string option" jsv "approvalClient option"

text \<open>The environment of a run: the hash, the collation and the display of text.\<close>

type_synonym approvalEnv = "(string \<Rightarrow> string) \<times> (string \<Rightarrow> nat list) \<times> (string \<Rightarrow> string)"

definition approvalStep :: "approvalEnv \<Rightarrow> int \<times> approvalInput \<Rightarrow> approvalState \<Rightarrow> approvalState" where
  "approvalStep env ev s = (case env of (sha256, collate, display) \<Rightarrow>
     (case ev of
        (now, ARequest p uuid timeoutMs client) \<Rightarrow>
          snd (requestApproval sha256 collate display uuid now timeoutMs p client s)
      | (now, AResolve input d client) \<Rightarrow> snd (resolveRequest now input d client s)
      | (now, AExpire i by') \<Rightarrow> snd (expireApproval now i by' s)
      | (now, ATimer o') \<Rightarrow> timerFires now o' s
      | (now, AGrace k) \<Rightarrow> graceFires k s
      | (now, AInvoke nodeId params client) \<Rightarrow> snd (sanitizeSystemRunParams sha256 collate now nodeId params client s)))"

definition approvalRun :: "approvalEnv \<Rightarrow> (int \<times> approvalInput) list \<Rightarrow> approvalState" where
  "approvalRun env evs = fold (approvalStep env) evs initApprovals"

section \<open>What is promised of one approval\<close>

text \<open>The life of an approval: it waits until it is granted, denied or lapses, once. A grant for once lets
  one command through, a grant for good any number, and one that lapsed only those that the client's
  fallback asks for.\<close>

datatype approvalPhase = Waiting | Granted approvalDecision | Used | Spent | Lapsed

inductive phaseStep :: "approvalPhase \<Rightarrow> approvalEvent \<Rightarrow> approvalPhase \<Rightarrow> bool" where
  settled: "phaseStep Waiting (Settled o' (Some d)) (Granted d)"
| lapsed: "phaseStep Waiting (Settled o' None) Lapsed"
| used: "phaseStep (Granted AllowOnce) (Consumed o') Used"
| once: "phaseStep Used (Forwarded o' ByOnce) Spent"
| always: "phaseStep (Granted AllowAlways) (Forwarded o' ByAlways) (Granted AllowAlways)"
| fallback: "phaseStep Lapsed (Forwarded o' ByFallback) Lapsed"

inductive phaseRun :: "approvalEvent list \<Rightarrow> approvalPhase \<Rightarrow> bool" where
  start: "phaseRun [] Waiting"
| step: "phaseRun evs ph \<Longrightarrow> phaseStep ph ev ph' \<Longrightarrow> phaseRun (evs @ [ev]) ph'"

inductive_cases phaseStep_SettledE: "phaseStep ph (Settled o' d) ph'"
inductive_cases phaseStep_ForwardedE: "phaseStep ph (Forwarded o' g) ph'"
inductive_cases phaseStep_ConsumedE: "phaseStep ph (Consumed o') ph'"

lemmas phaseStep_cases = phaseStep_SettledE phaseStep_ForwardedE phaseStep_ConsumedE

text \<open>The phase an entry is in, and the events that concern it.\<close>

definition phaseOf :: "pendingEntry \<Rightarrow> approvalPhase" where
  "phaseOf e = (case pe_promise e of
     None \<Rightarrow> Waiting
   | Some None \<Rightarrow> Lapsed
   | Some (Some d) \<Rightarrow> if ar_decision (pe_record e) = None then Spent else Granted d)"

definition eventObj :: "approvalEvent \<Rightarrow> nat" where
  "eventObj ev = (case ev of Settled o' _ \<Rightarrow> o' | Consumed o' \<Rightarrow> o' | Forwarded o' _ \<Rightarrow> o')"

definition eventsOf :: "nat \<Rightarrow> approvalState \<Rightarrow> approvalEvent list" where
  "eventsOf o' s = filter (\<lambda>ev. eventObj ev = o') (ap_log s)"

definition forwardsOf :: "nat \<Rightarrow> approvalState \<Rightarrow> forwardGrant list" where
  "forwardsOf o' s = concat (map (\<lambda>ev. case ev of Forwarded o2 g \<Rightarrow> if o2 = o' then [g] else [] | _ \<Rightarrow> []) (ap_log s))"

section \<open>Store lemmas\<close>

lemma setEntry_simps [simp]:
  "length (ap_heap (setEntry o' e s)) = length (ap_heap s)"
  "ap_pending (setEntry o' e s) = ap_pending s" "ap_grace (setEntry o' e s) = ap_grace s"
  "ap_log (setEntry o' e s) = ap_log s"
  by (simp_all add: setEntry_def)

lemma logA_simps [simp]:
  "ap_heap (logA ev s) = ap_heap s" "ap_pending (logA ev s) = ap_pending s" "ap_grace (logA ev s) = ap_grace s"
  "ap_log (logA ev s) = ap_log s @ [ev]" "entryAt (logA ev s) o' = entryAt s o'"
  by (simp_all add: logA_def entryAt_def)

lemma entryAt_simps [simp]:
  "entryAt (s\<lparr>ap_pending := p\<rparr>) o' = entryAt s o'" "entryAt (s\<lparr>ap_grace := g\<rparr>) o' = entryAt s o'"
  "entryAt (s\<lparr>ap_log := l\<rparr>) o' = entryAt s o'"
  by (simp_all add: entryAt_def)

lemma entryAt_setEntry:
  "o' < length (ap_heap s) \<Longrightarrow> entryAt (setEntry o' e s) o2 = (if o2 = o' then e else entryAt s o2)"
  by (simp add: entryAt_def setEntry_def)

lemma setEntry_twice [simp]: "setEntry o' e (setEntry o' e2 s) = setEntry o' e s"
  by (simp add: setEntry_def)

lemma eventsOf_simps [simp]:
  "eventsOf o' (s\<lparr>ap_pending := p\<rparr>) = eventsOf o' s" "eventsOf o' (s\<lparr>ap_grace := g\<rparr>) = eventsOf o' s"
  "eventsOf o' (s\<lparr>ap_heap := h\<rparr>) = eventsOf o' s"
  "eventsOf o' (setEntry o2 e s) = eventsOf o' s"
  by (simp_all add: eventsOf_def)

lemma eventsOf_logA [simp]:
  "eventsOf o' (logA ev s) = eventsOf o' s @ (if eventObj ev = o' then [ev] else [])"
  by (simp add: eventsOf_def)

lemma eventObj_simps [simp]:
  "eventObj (Settled o' d) = o'" "eventObj (Consumed o') = o'" "eventObj (Forwarded o' g) = o'"
  by (simp_all add: eventObj_def)

section \<open>The invariant of the store\<close>

definition entryOk :: "pendingEntry \<Rightarrow> bool" where
  "entryOk e \<longleftrightarrow> (ar_resolvedAtMs (pe_record e) = None \<longleftrightarrow> pe_promise e = None) \<and> (pe_timer e \<longleftrightarrow> pe_promise e = None) \<and>
     (case pe_promise e of None \<Rightarrow> ar_decision (pe_record e) = None | Some d \<Rightarrow>
        ar_decision (pe_record e) = d \<or> d = Some AllowOnce \<and> ar_decision (pe_record e) = None)"

definition approvalInv :: "approvalState \<Rightarrow> bool" where
  "approvalInv s \<longleftrightarrow>
     (\<forall>i o'. map_of (ap_pending s) i = Some o' \<longrightarrow> o' < length (ap_heap s) \<and> ar_id (pe_record (entryAt s o')) = i) \<and>
     (\<forall>i o'. (i, o') \<in> set (ap_grace s) \<longrightarrow> o' < length (ap_heap s) \<and> pe_promise (entryAt s o') \<noteq> None) \<and>
     (\<forall>o'. o' < length (ap_heap s) \<longrightarrow> entryOk (entryAt s o')) \<and>
     (\<forall>o'. o' < length (ap_heap s) \<longrightarrow> pe_promise (entryAt s o') = None \<longrightarrow>
        map_of (ap_pending s) (ar_id (pe_record (entryAt s o'))) = Some o')"

lemma approvalInvI:
  assumes "\<And>i o'. map_of (ap_pending s) i = Some o' \<Longrightarrow> o' < length (ap_heap s)"
    "\<And>i o'. map_of (ap_pending s) i = Some o' \<Longrightarrow> ar_id (pe_record (entryAt s o')) = i"
    "\<And>i o'. (i, o') \<in> set (ap_grace s) \<Longrightarrow> o' < length (ap_heap s) \<and> pe_promise (entryAt s o') \<noteq> None"
    "\<And>o'. o' < length (ap_heap s) \<Longrightarrow> entryOk (entryAt s o')"
    "\<And>o'. o' < length (ap_heap s) \<Longrightarrow> pe_promise (entryAt s o') = None \<Longrightarrow>
       map_of (ap_pending s) (ar_id (pe_record (entryAt s o'))) = Some o'"
  shows "approvalInv s"
  using assms by (simp add: approvalInv_def)

lemma approvalInvD:
  assumes "approvalInv s"
  shows "map_of (ap_pending s) i = Some o' \<Longrightarrow> o' < length (ap_heap s)"
    "map_of (ap_pending s) i = Some o' \<Longrightarrow> ar_id (pe_record (entryAt s o')) = i"
    "(i, o') \<in> set (ap_grace s) \<Longrightarrow> o' < length (ap_heap s)"
    "(i, o') \<in> set (ap_grace s) \<Longrightarrow> pe_promise (entryAt s o') \<noteq> None"
    "o' < length (ap_heap s) \<Longrightarrow> entryOk (entryAt s o')"
    "o' < length (ap_heap s) \<Longrightarrow> pe_promise (entryAt s o') = None \<Longrightarrow>
       map_of (ap_pending s) (ar_id (pe_record (entryAt s o'))) = Some o'"
  using assms by (auto simp: approvalInv_def)

text \<open>An operation that changes one entry and leaves its id and the maps as they are.\<close>

lemma setEntry_Inv:
  assumes s: "approvalInv s" and l: "o' < length (ap_heap s)" and e: "entryOk e"
    and i: "ar_id (pe_record e) = ar_id (pe_record (entryAt s o'))"
    and p: "pe_promise (entryAt s o') \<noteq> None \<Longrightarrow> pe_promise e \<noteq> None"
  shows "approvalInv (setEntry o' e s)"
proof (rule approvalInvI, goal_cases)
  case (5 o2)
  then show ?case using approvalInvD(6) [OF s, of o2] l i p by (auto simp: entryAt_setEntry split: if_splits)
qed (use l e i p approvalInvD [OF s] in \<open>auto simp: entryAt_setEntry split: if_splits\<close>)

lemma logA_Inv [simp]: "approvalInv (logA ev s) = approvalInv s"
  by (simp add: approvalInv_def)

definition settled :: "int \<Rightarrow> approvalDecision option \<Rightarrow> string option \<Rightarrow> pendingEntry \<Rightarrow> pendingEntry" where
  "settled now decision resolvedBy e =
     \<lparr>pe_record = (pe_record e)\<lparr>ar_resolvedAtMs := Some now, ar_decision := decision, ar_resolvedBy := Some resolvedBy\<rparr>,
      pe_promise = Some decision, pe_timer = False\<rparr>"

text \<open>The three outcomes of settling.\<close>

lemma settleEntry_cases:
  assumes s: "approvalInv s"
  obtains (kept) "settleEntry now i d b s = (False, s)"
      "map_of (ap_pending s) i = None \<or> (\<exists>o'. map_of (ap_pending s) i = Some o' \<and> pe_promise (entryAt s o') \<noteq> None)"
  | (settles) o' where "map_of (ap_pending s) i = Some o'" "o' < length (ap_heap s)" "pe_promise (entryAt s o') = None"
      "settleEntry now i d b s = (True, (logA (Settled o' d) (setEntry o' (settled now d b (entryAt s o')) s))
         \<lparr>ap_grace := ap_grace s @ [(i, o')]\<rparr>)"
proof (cases "map_of (ap_pending s) i")
  case None
  then show ?thesis by (intro kept) (simp_all add: settleEntry_def)
next
  case (Some o')
  have "entryOk (entryAt s o')" "o' < length (ap_heap s)" using approvalInvD [OF s] Some by blast+
  with Some show ?thesis
    by (cases "pe_promise (entryAt s o')")
      (auto simp: settleEntry_def Let_def settled_def entryOk_def intro: kept settles)
qed

lemma settled_ok: "entryOk (settled now d b e)"
  by (cases d) (simp_all add: entryOk_def settled_def)

lemma settled_simps [simp]:
  "pe_promise (settled now d b e) = Some d" "ar_id (pe_record (settled now d b e)) = ar_id (pe_record e)"
  "ar_decision (pe_record (settled now d b e)) = d" "ar_resolvedBy (pe_record (settled now d b e)) = Some b"
  "pe_timer (settled now d b e) = False"
  by (simp_all add: settled_def)

lemma grace_Inv:
  assumes "approvalInv s" "\<And>i o'. (i, o') \<in> set g \<Longrightarrow> o' < length (ap_heap s) \<and> pe_promise (entryAt s o') \<noteq> None"
  shows "approvalInv (s\<lparr>ap_grace := g\<rparr>)"
  using assms by (simp add: approvalInv_def)

lemma settleEntry_Inv:
  assumes s: "approvalInv s"
  shows "approvalInv (snd (settleEntry now i d b s))"
  using s
proof (cases rule: settleEntry_cases [where i = i and d = d and b = b and now = now])
  case kept
  with s show ?thesis by simp
next
  case (settles o')
  have "approvalInv (setEntry o' (settled now d b (entryAt s o')) s)"
    using s settles by (intro setEntry_Inv) (simp_all add: settled_ok)
  moreover have "(i2, o2) \<in> set (ap_grace s @ [(i, o')]) \<Longrightarrow> o2 < length (ap_heap s) \<and>
      pe_promise (entryAt (setEntry o' (settled now d b (entryAt s o')) s) o2) \<noteq> None" for i2 o2
    using settles approvalInvD(3,4) [OF s, of i2 o2] by (auto simp: entryAt_setEntry)
  ultimately show ?thesis unfolding settles(4) snd_conv by (intro grace_Inv) simp_all
qed

text \<open>A timer that fires expires its own entry: an armed timer's entry is the one its id names.\<close>

lemma timerFires_settles:
  assumes s: "approvalInv s" and l: "o' < length (ap_heap s)" and t: "pe_promise (entryAt s o') = None"
  shows "timerFires now o' s =
    (logA (Settled o' None) (setEntry o' (settled now None None (entryAt s o')) s))
      \<lparr>ap_grace := ap_grace s @ [(ar_id (pe_record (entryAt s o')), o')]\<rparr>"
proof -
  have "pe_timer (entryAt s o')" "ar_resolvedAtMs (pe_record (entryAt s o')) = None"
    using approvalInvD(5) [OF s l] t by (simp_all add: entryOk_def)
  moreover have "map_of (ap_pending s) (ar_id (pe_record (entryAt s o'))) = Some o'"
    using approvalInvD(6) [OF s l t] .
  ultimately show ?thesis
    using l by (simp add: timerFires_def Let_def expireApproval_def settleEntry_def entryAt_setEntry settled_def)
qed

lemma timerFires_kept:
  assumes s: "approvalInv s" and "length (ap_heap s) \<le> o' \<or> pe_promise (entryAt s o') \<noteq> None"
  shows "timerFires now o' s = s"
  using assms(2) approvalInvD(5) [OF s, of o'] by (auto simp: timerFires_def entryOk_def)

lemma timerFires_settle:
  assumes s: "approvalInv s"
  shows "timerFires now o' s = (if o' < length (ap_heap s) \<and> pe_promise (entryAt s o') = None
    then snd (settleEntry now (ar_id (pe_record (entryAt s o'))) None None s) else s)"
proof (cases "o' < length (ap_heap s) \<and> pe_promise (entryAt s o') = None")
  case True
  then have m: "map_of (ap_pending s) (ar_id (pe_record (entryAt s o'))) = Some o'" "ar_resolvedAtMs (pe_record (entryAt s o')) = None"
    using approvalInvD(5,6) [OF s, of o'] by (simp_all add: entryOk_def)
  show ?thesis using True timerFires_settles [OF s, of o' now] m by (simp add: settleEntry_def Let_def settled_def)
next
  case False
  then show ?thesis using timerFires_kept [OF s, of o' now] by auto
qed

lemma timerFires_Inv: "approvalInv s \<Longrightarrow> approvalInv (timerFires now o' s)"
  using settleEntry_Inv by (simp add: timerFires_settle)

section \<open>The steps\<close>

text \<open>Whoever resolves an approval has a name or a client id.\<close>

definition resolverNamed :: "int \<times> approvalInput \<Rightarrow> bool" where
  "resolverNamed ev = (case snd ev of
     AResolve _ _ client \<Rightarrow> js_coalesce (Option.bind client cl_displayName) (Option.bind client cl_clientId) \<noteq> None
   | _ \<Rightarrow> True)"

definition consumed :: "pendingEntry \<Rightarrow> pendingEntry" where
  "consumed e = e\<lparr>pe_record := (pe_record e)\<lparr>ar_decision := None\<rparr>\<rparr>"

lemma consumed_simps [simp]:
  "pe_promise (consumed e) = pe_promise e" "pe_timer (consumed e) = pe_timer e"
  "ar_id (pe_record (consumed e)) = ar_id (pe_record e)" "ar_decision (pe_record (consumed e)) = None"
  "ar_resolvedBy (pe_record (consumed e)) = ar_resolvedBy (pe_record e)"
  "ar_resolvedAtMs (pe_record (consumed e)) = ar_resolvedAtMs (pe_record e)"
  by (simp_all add: consumed_def)

definition freshEntry :: "approvalRecord \<Rightarrow> pendingEntry" where
  "freshEntry record = \<lparr>pe_record = record, pe_promise = None, pe_timer = True\<rparr>"

text \<open>What one step can do, and what it found.\<close>

inductive approvalMove :: "bool \<Rightarrow> approvalState \<Rightarrow> approvalState \<Rightarrow> bool" where
  same: "approvalMove n s s"
| fresh: "map_of (ap_pending s) (ar_id record) = None \<Longrightarrow> ar_resolvedAtMs record = None \<Longrightarrow> ar_decision record = None \<Longrightarrow>
    approvalMove n s (s\<lparr>ap_heap := ap_heap s @ [freshEntry record],
      ap_pending := AList.update (ar_id record) (length (ap_heap s)) (ap_pending s)\<rparr>)"
| settles: "\<lbrakk>map_of (ap_pending s) i = Some o'; o' < length (ap_heap s); pe_promise (entryAt s o') = None;
     n \<Longrightarrow> d \<noteq> None \<Longrightarrow> b \<noteq> None\<rbrakk> \<Longrightarrow>
    approvalMove n s ((logA (Settled o' d) (setEntry o' (settled now d b (entryAt s o')) s))
      \<lparr>ap_grace := ap_grace s @ [(i, o')]\<rparr>)"
| graceEnds: "k < length (ap_grace s) \<Longrightarrow> approvalMove n s (graceFires k s)"
| goesOnce: "\<lbrakk>o' < length (ap_heap s); ar_decision (pe_record (entryAt s o')) = Some AllowOnce\<rbrakk> \<Longrightarrow>
    approvalMove n s (logA (Forwarded o' ByOnce) (logA (Consumed o') (setEntry o' (consumed (entryAt s o')) s)))"
| goesAlways: "\<lbrakk>o' < length (ap_heap s); ar_decision (pe_record (entryAt s o')) = Some AllowAlways\<rbrakk> \<Longrightarrow>
    approvalMove n s (logA (Forwarded o' ByAlways) s)"
| fallsBack: "\<lbrakk>o' < length (ap_heap s); timedOutSnapshot (pe_record (entryAt s o'))\<rbrakk> \<Longrightarrow>
    approvalMove n s (logA (Forwarded o' ByFallback) s)"

lemma enforce_moves:
  assumes "map_of (ap_pending s) runId = Some o'" "o' < length (ap_heap s)"
  shows "approvalMove n s (snd (enforceDecision approved requested client runId o' next' s))"
  using assms
  by (auto simp: enforceDecision_def Let_def consumeAllowOnce_def consumed_def [symmetric]
      intro: approvalMove.intros split: if_splits)

lemma sanitize_moves:
  assumes s: "approvalInv s"
  shows "approvalMove n s (snd (sanitizeSystemRunParams sha256 collate now nodeId params client s))"
proof (cases params)
  case (JObj obj)
  show ?thesis
    using enforce_moves approvalInvD(1) [OF s] unfolding JObj
    by (auto simp: sanitizeSystemRunParams_def sanitizeSystemRunParamsForForwarding_def Let_def intro: same
        split: sum.splits option.splits)
qed (auto simp: sanitizeSystemRunParams_def sanitizeSystemRunParamsForForwarding_def intro: same)

lemma settle_moves:
  assumes s: "approvalInv s" and "n \<Longrightarrow> d \<noteq> None \<Longrightarrow> b \<noteq> None"
  shows "approvalMove n s (snd (settleEntry now i d b s))"
  using s
proof (cases rule: settleEntry_cases [where i = i and d = d and b = b and now = now])
  case kept
  then show ?thesis by (simp add: same)
next
  case (settles o')
  show ?thesis unfolding settles(4) snd_conv by (intro approvalMove.settles settles assms(2))
qed

lemma register_moves:
  assumes "ar_resolvedAtMs record = None" "ar_decision record = None"
  shows "approvalMove n s (snd (registerRecord record s))"
  using fresh [of s "record" n] assms
  by (auto simp: registerRecord_def Let_def freshEntry_def [symmetric] same split: option.split)

lemma request_moves:
  "approvalMove n s (snd (requestApproval sha256 collate display uuid now timeoutMs p client s))"
  by (auto simp: requestApproval_def createRecord_def same split: sum.splits intro: register_moves)

lemma approvalStep_moves:
  assumes s: "approvalInv s"
  shows "approvalMove (resolverNamed ev) s (approvalStep env ev s)"
proof (cases ev)
  case (Pair now inp)
  obtain sha collate display where env: "env = (sha, collate, display)" by (metis prod_cases3)
  show ?thesis
  proof (cases inp)
    case (ARequest p uuid timeoutMs client)
    then show ?thesis using request_moves by (simp add: Pair env approvalStep_def)
  next
    case (AResolve input d client)
    have "approvalMove (resolverNamed ev) s (snd (settleEntry now i (Some d)
        (js_coalesce (Option.bind client cl_displayName) (Option.bind client cl_clientId)) s))" for i
      by (rule settle_moves [OF s]) (simp add: resolverNamed_def Pair AResolve)
    then show ?thesis
      by (auto simp: Pair env AResolve approvalStep_def resolveRequest_def Let_def resolveApproval_def
          intro: same split: approvalLookup.splits)
  next
    case (AExpire i b)
    then show ?thesis using settle_moves [OF s, of _ None] by (simp add: Pair env approvalStep_def expireApproval_def)
  next
    case (ATimer o')
    then show ?thesis using settle_moves [OF s, of _ None]
      by (simp add: Pair env approvalStep_def timerFires_settle [OF s] same)
  next
    case (AGrace k)
    have "graceFires k s = s" if "\<not> k < length (ap_grace s)" using that by (simp add: graceFires_def)
    then show ?thesis
      using graceEnds [of k s] same [of "resolverNamed ev" s]
      by (cases "k < length (ap_grace s)") (simp_all add: Pair env AGrace approvalStep_def)
  next
    case (AInvoke nodeId params client)
    then show ?thesis using sanitize_moves [OF s] by (simp add: Pair env approvalStep_def)
  qed
qed

section \<open>Reachable states\<close>

lemma graceFires_Inv:
  assumes s: "approvalInv s"
  shows "approvalInv (graceFires k s)"
proof (cases "k < length (ap_grace s)")
  case True
  obtain i o' where k: "ap_grace s ! k = (i, o')" by fastforce
  with True have g: "(i, o') \<in> set (ap_grace s)" by (metis nth_mem)
  let ?g = "take k (ap_grace s) @ drop (Suc k) (ap_grace s)"
  have g': "approvalInv (s\<lparr>ap_grace := ?g\<rparr>)"
    using s approvalInvD(3,4) [OF s] by (intro grace_Inv) (auto dest: in_set_takeD in_set_dropD)
  have "approvalInv (s\<lparr>ap_grace := ?g, ap_pending := AList.delete i (ap_pending s)\<rparr>)"
    if m: "map_of (ap_pending s) i = Some o'"
  proof (rule approvalInvI, goal_cases)
    case (5 o2)
    with approvalInvD(6) [OF s, of o2] approvalInvD(4) [OF s g] m show ?case by (auto simp: delete_conv)
  qed (use approvalInvD [OF g'] in \<open>auto simp: delete_conv split: if_splits\<close>)
  with g' True k show ?thesis by (simp add: graceFires_def Let_def)
qed (simp add: graceFires_def s)

lemma entryAt_grown [simp]:
  "o' < length (ap_heap s) \<Longrightarrow> entryAt (s\<lparr>ap_heap := ap_heap s @ [e]\<rparr>) o' = entryAt s o'"
  "entryAt (s\<lparr>ap_heap := ap_heap s @ [e]\<rparr>) (length (ap_heap s)) = e"
  by (simp_all add: entryAt_def nth_append)

lemma fresh_Inv:
  assumes s: "approvalInv s" and n: "map_of (ap_pending s) (ar_id record) = None"
    and r: "ar_resolvedAtMs record = None" "ar_decision record = None"
  shows "approvalInv (s\<lparr>ap_heap := ap_heap s @ [freshEntry record],
      ap_pending := AList.update (ar_id record) (length (ap_heap s)) (ap_pending s)\<rparr>)"
proof (rule approvalInvI, goal_cases)
  case (1 i o')
  then show ?case using approvalInvD(1) [OF s, of i o'] by (auto simp: update_conv split: if_splits)
next
  case (2 i o')
  then show ?case using approvalInvD(1,2) [OF s, of i o']
    by (auto simp: update_conv freshEntry_def split: if_splits)
next
  case (3 i o')
  then show ?case using approvalInvD(3,4) [OF s, of i o'] by auto
next
  case (4 o')
  then show ?case using approvalInvD(5) [OF s, of o'] r
    by (cases "o' = length (ap_heap s)") (simp_all add: freshEntry_def entryOk_def)
next
  case (5 o')
  then show ?case using approvalInvD(6) [OF s, of o'] n
    by (cases "o' = length (ap_heap s)") (auto simp: freshEntry_def update_conv)
qed

lemma consumed_Inv:
  assumes s: "approvalInv s" and o': "o' < length (ap_heap s)" "ar_decision (pe_record (entryAt s o')) = Some AllowOnce"
  shows "approvalInv (setEntry o' (consumed (entryAt s o')) s)"
  using s o' approvalInvD(5) [OF s o'(1)]
  by (intro setEntry_Inv) (auto simp: entryOk_def split: option.splits)

lemma settled_Inv:
  assumes s: "approvalInv s" and m: "map_of (ap_pending s) i = Some o'" "o' < length (ap_heap s)"
  shows "approvalInv ((logA ev (setEntry o' (settled now d b (entryAt s o')) s))\<lparr>ap_grace := ap_grace s @ [(i, o')]\<rparr>)"
proof -
  have e: "approvalInv (setEntry o' (settled now d b (entryAt s o')) s)"
    using s m by (intro setEntry_Inv) (simp_all add: settled_ok)
  show ?thesis
    using e m approvalInvD(3,4) [OF s] by (intro grace_Inv) (auto simp: entryAt_setEntry)
qed

lemma approvalMove_Inv: "approvalMove n s s' \<Longrightarrow> approvalInv s \<Longrightarrow> approvalInv s'"
  by (induction rule: approvalMove.induct)
    (simp_all add: fresh_Inv settled_Inv graceFires_Inv consumed_Inv)

text \<open>The events of an entry are a run that ends in its phase.\<close>

definition entryNamed :: "pendingEntry \<Rightarrow> bool" where
  "entryNamed e = (case pe_promise e of Some (Some d) \<Rightarrow> ar_resolvedBy (pe_record e) \<noteq> Some None | _ \<Rightarrow> True)"

definition traceOk :: "approvalState \<Rightarrow> nat \<Rightarrow> bool" where
  "traceOk s o' =
     (if o' < length (ap_heap s) then phaseRun (eventsOf o' s) (phaseOf (entryAt s o')) \<and> entryNamed (entryAt s o')
      else eventsOf o' s = [])"

lemma traceOk_simps [simp]:
  "traceOk (s\<lparr>ap_pending := p\<rparr>) o' = traceOk s o'" "traceOk (s\<lparr>ap_grace := g\<rparr>) o' = traceOk s o'"
  by (simp_all add: traceOk_def)

lemma traceOk_graceFires [simp]: "traceOk (graceFires k s) o' = traceOk s o'"
  by (simp add: graceFires_def Let_def split: prod.split)

lemma phaseRun_step: "phaseRun evs ph \<Longrightarrow> phaseStep ph ev ph' \<Longrightarrow> phaseRun (evs @ [ev]) ph'"
  by (rule phaseRun.step)

lemma approvalMove_trace:
  assumes "approvalMove n s s'" "n" "approvalInv s" "\<And>o'. traceOk s o'"
  shows "traceOk s' o'"
  using assms
proof (induction rule: approvalMove.induct)
  case (fresh s "record" n)
  have "eventsOf (length (ap_heap s)) s = []" using fresh(6) [of "length (ap_heap s)"] by (simp add: traceOk_def)
  then show ?case
    using fresh(6) [of o'] by (cases "o' = length (ap_heap s)")
      (auto simp: traceOk_def freshEntry_def phaseOf_def entryNamed_def start)
next
  case (settles s i o2 n d b now)
  have "phaseOf (entryAt s o2) = Waiting" using settles(3) by (simp add: phaseOf_def)
  then have "phaseRun (eventsOf o2 s) Waiting" using settles(2,7) by (metis traceOk_def)
  moreover have "phaseStep Waiting (Settled o2 d) (phaseOf (settled now d b (entryAt s o2)))"
    by (cases d) (simp_all add: phaseOf_def phaseStep.intros)
  ultimately have "phaseRun (eventsOf o2 s @ [Settled o2 d]) (phaseOf (settled now d b (entryAt s o2)))"
    by (rule phaseRun.step)
  moreover have "entryNamed (settled now d b (entryAt s o2))"
    using settles(4,5) by (cases d) (auto simp: entryNamed_def)
  ultimately show ?case
    using settles(2) settles(7) [of o'] by (simp add: traceOk_def entryAt_setEntry)
next
  case (goesOnce o2 s n)
  have e: "entryOk (entryAt s o2)" using approvalInvD(5) [OF goesOnce(4,1)] .
  then have pr: "pe_promise (entryAt s o2) = Some (Some AllowOnce)"
    using goesOnce(2) by (auto simp: entryOk_def split: option.splits)
  then have "phaseOf (entryAt s o2) = Granted AllowOnce" using goesOnce(2) by (simp add: phaseOf_def)
  then have "phaseRun (eventsOf o2 s) (Granted AllowOnce)" using goesOnce(1,5) by (metis traceOk_def)
  from phaseRun.step [OF phaseRun.step [OF this used] once]
  have "phaseRun (eventsOf o2 s @ [Consumed o2, Forwarded o2 ByOnce]) Spent" by simp
  moreover have "phaseOf (consumed (entryAt s o2)) = Spent" using pr by (simp add: phaseOf_def)
  moreover have "entryNamed (consumed (entryAt s o2)) = entryNamed (entryAt s o2)"
    using pr by (simp add: entryNamed_def)
  ultimately show ?case
    using goesOnce(1) goesOnce(5) [of o2] goesOnce(5) [of o']
    by (cases "o' = o2") (simp_all add: traceOk_def entryAt_setEntry)
next
  case (goesAlways o2 s n)
  have "entryOk (entryAt s o2)" using approvalInvD(5) [OF goesAlways(4,1)] .
  then have "pe_promise (entryAt s o2) = Some (Some AllowAlways)"
    using goesAlways(2) by (auto simp: entryOk_def split: option.splits)
  then have "phaseOf (entryAt s o2) = Granted AllowAlways" using goesAlways(2) by (simp add: phaseOf_def)
  moreover then have "phaseRun (eventsOf o2 s) (Granted AllowAlways)" using goesAlways(1,5) by (metis traceOk_def)
  note phaseRun.step [OF this always, of o2]
  ultimately show ?case
    using goesAlways(1) goesAlways(5) [of o2] goesAlways(5) [of o'] by (auto simp: traceOk_def)
next
  case (fallsBack o2 s n)
  have "entryOk (entryAt s o2)" using approvalInvD(5) [OF fallsBack(4,1)] .
  then have "phaseOf (entryAt s o2) = Lapsed"
    using fallsBack(1,2) fallsBack(5) [of o2]
    by (auto simp: entryOk_def phaseOf_def timedOutSnapshot_def traceOk_def entryNamed_def split: option.splits)
  moreover then have "phaseRun (eventsOf o2 s) Lapsed" using fallsBack(1,5) by (metis traceOk_def)
  note phaseRun.step [OF this fallback, of o2]
  ultimately show ?case
    using fallsBack(1) fallsBack(5) [of o2] fallsBack(5) [of o'] by (auto simp: traceOk_def)
qed simp_all

lemma approvalInv_init: "approvalInv initApprovals"
  by (simp add: approvalInv_def initApprovals_def)

lemma approvalRun_snoc: "approvalRun env (evs @ [ev]) = approvalStep env ev (approvalRun env evs)"
  by (simp add: approvalRun_def)

lemma approvalRun_Inv: "approvalInv (approvalRun env evs)"
proof (induction evs rule: rev_induct)
  case Nil
  then show ?case by (simp add: approvalRun_def approvalInv_init)
next
  case (snoc ev evs)
  then show ?case using approvalMove_Inv [OF approvalStep_moves] by (simp add: approvalRun_snoc)
qed

lemma approvalRun_trace: "list_all resolverNamed evs \<Longrightarrow> traceOk (approvalRun env evs) o'"
proof (induction evs arbitrary: o' rule: rev_induct)
  case Nil
  then show ?case by (simp add: approvalRun_def initApprovals_def traceOk_def eventsOf_def)
next
  case (snoc ev evs)
  then show ?case
    using approvalMove_trace [OF approvalStep_moves [OF approvalRun_Inv]] approvalRun_Inv by (simp add: approvalRun_snoc)
qed

section \<open>Uses of an approval\<close>

definition grants :: "approvalEvent list \<Rightarrow> forwardGrant list" where
  "grants evs = concat (map (\<lambda>ev. case ev of Forwarded _ g \<Rightarrow> [g] | _ \<Rightarrow> []) evs)"

lemma grants_simps [simp]:
  "grants [] = []" "grants (evs @ evs') = grants evs @ grants evs'"
  "grants [Settled o' d] = []" "grants [Consumed o'] = []" "grants [Forwarded o' g] = [g]"
  by (simp_all add: grants_def)

lemma forwardsOf_grants: "forwardsOf o' s = grants (eventsOf o' s)"
proof -
  have "concat (map (\<lambda>ev. case ev of Forwarded o2 g \<Rightarrow> if o2 = o' then [g] else [] | _ \<Rightarrow> []) evs) =
      grants (filter (\<lambda>ev. eventObj ev = o') evs)" for evs
    by (induction evs) (auto simp: grants_def eventObj_def split: approvalEvent.split)
  then show ?thesis by (simp add: forwardsOf_def eventsOf_def)
qed

lemma phaseRun_grants:
  "phaseRun evs ph \<Longrightarrow>
     (case ph of Spent \<Rightarrow> grants evs = [ByOnce] | Lapsed \<Rightarrow> set (grants evs) \<subseteq> {ByFallback}
      | Granted d \<Rightarrow> if d = AllowAlways then set (grants evs) \<subseteq> {ByAlways} else grants evs = []
      | _ \<Rightarrow> grants evs = [])"
proof (induction rule: phaseRun.induct)
  case (step evs ph ev ph')
  from step.hyps(2) step.IH show ?case by cases auto
qed simp

section \<open>Properties\<close>

text \<open>C36: an approval lives as promised: it is settled once, as granted, denied or lapsed; a grant for
  once is consumed before one command goes through; nothing else goes through, in any interleaving of
  requests, decisions, timeouts, grace periods and invocations, if whoever resolves approvals has a name.\<close>

theorem approval_refines_life:
  assumes "list_all resolverNamed evs" "o' < length (ap_heap (approvalRun env evs))"
  shows "phaseRun (eventsOf o' (approvalRun env evs)) (phaseOf (entryAt (approvalRun env evs) o'))"
  using approvalRun_trace [OF assms(1), of env o'] assms(2) by (simp add: traceOk_def)

text \<open>C6: what goes through is what was decided, if whoever resolves approvals has a name: nothing while an approval
  waits or after a denial, at most one command after allow-once, and a lapsed approval lets through only what asks
  to fall back.\<close>

theorem approval_uses:
  assumes "list_all resolverNamed evs" "o' < length (ap_heap (approvalRun env evs))"
  shows "case pe_promise (entryAt (approvalRun env evs) o') of
      None \<Rightarrow> forwardsOf o' (approvalRun env evs) = []
    | Some None \<Rightarrow> set (forwardsOf o' (approvalRun env evs)) \<subseteq> {ByFallback}
    | Some (Some Deny) \<Rightarrow> forwardsOf o' (approvalRun env evs) = []
    | Some (Some AllowAlways) \<Rightarrow> set (forwardsOf o' (approvalRun env evs)) \<subseteq> {ByAlways}
    | Some (Some AllowOnce) \<Rightarrow> forwardsOf o' (approvalRun env evs) \<in> {[], [ByOnce]}"
proof -
  define s where "s = approvalRun env evs"
  have t: "phaseRun (eventsOf o' s) (phaseOf (entryAt s o'))"
    using approvalRun_trace [OF assms(1), of env o'] assms(2) by (simp add: traceOk_def s_def)
  have "entryOk (entryAt s o')"
    using approvalInvD(5) [OF approvalRun_Inv assms(2)] by (simp add: s_def)
  then show ?thesis
    using phaseRun_grants [OF t] unfolding forwardsOf_grants s_def [symmetric]
    by (auto simp: phaseOf_def entryOk_def split: option.splits approvalDecision.splits if_splits)
qed

text \<open>no approval waits for ever: whatever happened before, an approval that is not settled has its
  timer armed, and when that fires the approval is settled, without a decision unless it had one.\<close>

theorem approval_timer_settles:
  assumes "o' < length (ap_heap (approvalRun env evs))"
  shows "pe_timer (entryAt (approvalRun env evs) o') = (pe_promise (entryAt (approvalRun env evs) o') = None) \<and>
    pe_promise (entryAt (timerFires now o' (approvalRun env evs)) o') =
      Some (case pe_promise (entryAt (approvalRun env evs) o') of None \<Rightarrow> None | Some d \<Rightarrow> d)"
proof -
  define s where "s = approvalRun env evs"
  have s: "approvalInv s" and l: "o' < length (ap_heap s)" using approvalRun_Inv assms by (simp_all add: s_def)
  have "pe_promise (entryAt (timerFires now o' s) o') = Some (case pe_promise (entryAt s o') of None \<Rightarrow> None | Some d \<Rightarrow> d)"
    using timerFires_settles [OF s l, of now] timerFires_kept [OF s, of o' now] l
    by (cases "pe_promise (entryAt s o')") (auto simp: entryAt_setEntry)
  then show ?thesis using approvalInvD(5) [OF s l] by (simp add: entryOk_def s_def [symmetric])
qed

section \<open>What the gate lets through\<close>











text \<open>Without a manager nothing is passed on as approved.\<close>

lemma unmanaged_passes_plain:
  assumes "sanitizeSystemRunParamsForForwarding False sha256 collate now nodeId (JObj obj) client s = (Inr params, s')"
  shows "params = JObj (pickSystemRunParams obj) \<and> s' = s"
  using assms by (auto simp: sanitizeSystemRunParamsForForwarding_def Let_def split: if_splits option.splits sum.splits)


section \<open>Sample runs\<close>

definition sampleApprovalEnv :: approvalEnv where
  "sampleApprovalEnv = (Cons CHR ''h'', map of_char, id)"

definition sampleOwner :: approvalClient where
  "sampleOwner = \<lparr>cl_connId = Some ''c1'', cl_deviceId = Some ''d1'', cl_clientId = Some ''cli'', cl_displayName = None,
    cl_scopes = [''operator.approvals'']\<rparr>"

definition sampleRequest :: requestParams where
  "sampleRequest = \<lparr>rp_id = JStr ''r1'', rp_command = JStr ''ls'', rp_commandArgv = JUndef, rp_env = JUndef, rp_cwd = JUndef,
    rp_systemRunPlan = JObj [(''argv'', strArr [''ls'']), (''commandText'', JStr ''ls'')], rp_nodeId = JStr ''n1'',
    rp_host = JStr ''node'', rp_agentId = JUndef, rp_sessionKey = JUndef\<rparr>"

definition sampleInvoke :: "(string \<times> jsv) list" where
  "sampleInvoke = [(''command'', strArr [''ls'']), (''runId'', JStr ''r1''), (''approved'', JBool True),
    (''approvalDecision'', JStr ''allow-once'')]"

definition sampleRun :: "approvalClient \<Rightarrow> approvalDecision \<Rightarrow> (int \<times> approvalInput) list" where
  "sampleRun resolver d = [(0, ARequest sampleRequest ''u1'' 60 (Some sampleOwner)), (1, AResolve ''r1'' d (Some resolver)),
    (2, AInvoke (Some ''n1'') (JObj sampleInvoke) (Some sampleOwner)),
    (3, AInvoke (Some ''n1'') (JObj sampleInvoke) (Some sampleOwner))]"

lemma sampleRun_facts:
  "list_all resolverNamed (sampleRun sampleOwner AllowOnce)"
  "length (ap_heap (approvalRun sampleApprovalEnv (sampleRun sampleOwner AllowOnce))) = 1"
  "ap_log (approvalRun sampleApprovalEnv (sampleRun sampleOwner AllowOnce)) =
    [Settled 0 (Some AllowOnce), Consumed 0, Forwarded 0 ByOnce]"
  "pe_promise (entryAt (approvalRun sampleApprovalEnv (sampleRun sampleOwner AllowOnce)) 0) = Some (Some AllowOnce)"
  by code_simp+

text \<open>The same run, resolved by a client without a name and id: once consumed, the approval looks like
  one that timed out, and the second invocation goes through as a fallback.\<close>

lemma unnamed_allow_once_used_twice:
  "ap_log (approvalRun sampleApprovalEnv (sampleRun (sampleOwner\<lparr>cl_clientId := None\<rparr>) AllowOnce)) =
    [Settled 0 (Some AllowOnce), Consumed 0, Forwarded 0 ByOnce, Forwarded 0 ByFallback]"
  by code_simp

theorem approval_refines_life_witness:
  "phaseRun [Settled 0 (Some AllowOnce), Consumed 0, Forwarded 0 ByOnce]
     (phaseOf (entryAt (approvalRun sampleApprovalEnv (sampleRun sampleOwner AllowOnce)) 0))"
  using approval_refines_life [of "sampleRun sampleOwner AllowOnce" 0 sampleApprovalEnv] sampleRun_facts
  by (simp add: eventsOf_def)

theorem approval_uses_witness:
  "forwardsOf 0 (approvalRun sampleApprovalEnv (sampleRun sampleOwner AllowOnce)) \<in> {[], [ByOnce]}"
  using approval_uses [of "sampleRun sampleOwner AllowOnce" 0 sampleApprovalEnv] sampleRun_facts by simp

theorem approval_timer_settles_witness:
  "pe_promise (entryAt (timerFires 60 0 (approvalRun sampleApprovalEnv (take 1 (sampleRun sampleOwner AllowOnce)))) 0) = Some None"
proof -
  have "length (ap_heap (approvalRun sampleApprovalEnv (take 1 (sampleRun sampleOwner AllowOnce)))) = 1"
    "pe_promise (entryAt (approvalRun sampleApprovalEnv (take 1 (sampleRun sampleOwner AllowOnce))) 0) = None"
    by code_simp+
  then show ?thesis
    using approval_timer_settles [of 0 sampleApprovalEnv "take 1 (sampleRun sampleOwner AllowOnce)" 60] by simp
qed



end
