(* ===== verification/Exec_Paths.thy ===== *)
theory Exec_Paths
  imports Exec_Wrapper
begin

text \<open>
  \<open>src/infra/home-dir.ts\<close>, \<open>executable-path.ts\<close>, \<open>exec-command-resolution.ts\<close> and
  \<open>exec-allowlist-pattern.ts\<close>, on a POSIX host: which file an argument vector executes, and whether
  a pattern of the allowlist matches it. What the operating system answers (the environment, which
  files are executable, real paths) is a record of functions.
\<close>

section \<open>Node's path functions\<close>

definition isAbsolutePath :: "string \<Rightarrow> bool" where
  "isAbsolutePath p \<longleftrightarrow> prefix ''/'' p"

text \<open>Dot segments are resolved from the left; above the root, or above a relative start if that is
  allowed, \<open>..\<close> stays.\<close>

definition normSegment :: "bool \<Rightarrow> string \<Rightarrow> string list \<Rightarrow> string list" where
  "normSegment allowAboveRoot seg acc =
     (if seg = [] \<or> seg = ''.'' then acc
      else if seg = ''..'' then
        (if acc \<noteq> [] \<and> last acc \<noteq> ''..'' then butlast acc
         else if allowAboveRoot then acc @ [seg] else acc)
      else acc @ [seg])"

definition normalizeString :: "bool \<Rightarrow> string \<Rightarrow> string" where
  "normalizeString allowAboveRoot p = js_join ''/'' (fold (normSegment allowAboveRoot) (js_split CHR ''/'' p) [])"

definition pathNormalize :: "string \<Rightarrow> string" where
  "pathNormalize p =
     (if p = [] then ''.''
      else (let absolute = isAbsolutePath p; q = normalizeString (\<not> absolute) p;
                trailing = (last p = CHR ''/'')
            in if q = [] then (if absolute then ''/'' else if trailing then ''./'' else ''.'')
               else (if absolute then ''/'' else []) @ q @ (if trailing then ''/'' else [])))"

definition pathJoin :: "string \<Rightarrow> string \<Rightarrow> string" where
  "pathJoin a b =
     (let joined = js_join ''/'' (filter (\<lambda>p. p \<noteq> []) [a, b]) in if joined = [] then ''.'' else pathNormalize joined)"

text \<open>\<open>path.resolve\<close> of the parts, the rightmost absolute one first, below the working directory.\<close>

fun resolveLoop :: "string list \<Rightarrow> string \<Rightarrow> string" where
  "resolveLoop [] resolved = resolved"
| "resolveLoop (p # ps) resolved =
     (if p = [] then resolveLoop ps resolved
      else if isAbsolutePath p then p @ ''/'' @ resolved
      else resolveLoop ps (p @ ''/'' @ resolved))"

definition pathResolve :: "string \<Rightarrow> string list \<Rightarrow> string" where
  "pathResolve processCwd parts = ''/'' @ normalizeString False (resolveLoop (rev parts @ [processCwd]) [])"

definition pathDirname :: "string \<Rightarrow> string" where
  "pathDirname p =
     (let r = dropWhile (\<lambda>c. c = CHR ''/'') (rev p);
          d = dropWhile (\<lambda>c. c = CHR ''/'') (dropWhile (\<lambda>c. c \<noteq> CHR ''/'') r)
      in if d \<noteq> [] then rev d else if isAbsolutePath p then ''/'' else ''.'')"

section \<open>The host\<close>

record execHost =
  xh_env :: "string \<Rightarrow> string option"
  xh_homedir :: "string option"
  xh_processCwd :: string
  xh_isExecutable :: "string \<Rightarrow> bool"
  xh_realpath :: "string \<Rightarrow> string option"

definition normalizeDir :: "string option \<Rightarrow> string option" where
  "normalizeDir value = js_some (js_trim (js_or_empty value))"

definition tildePrefix :: "string \<Rightarrow> bool" where
  "tildePrefix s \<longleftrightarrow> s = ''~'' \<or> prefix ''~/'' s \<or> prefix [CHR ''~'', CHR 0x5C] s"

text \<open>\<open>input.replace(/^~(?=$|[\\/])/, home)\<close>\<close>

definition replaceTilde :: "string \<Rightarrow> string \<Rightarrow> string" where
  "replaceTilde input home = (if tildePrefix input then home @ tl input else input)"

definition resolveRawHomeDir :: "execHost \<Rightarrow> string option" where
  "resolveRawHomeDir h =
     (case normalizeDir (xh_env h ''FOXCLAW_HOME'') of
        Some explicitHome \<Rightarrow>
          (if tildePrefix explicitHome then
             map_option (replaceTilde explicitHome)
               (js_coalesce (normalizeDir (xh_env h ''HOME''))
                 (js_coalesce (normalizeDir (xh_env h ''USERPROFILE'')) (normalizeDir (xh_homedir h))))
           else Some explicitHome)
      | None \<Rightarrow>
          js_coalesce (normalizeDir (xh_env h ''HOME''))
            (js_coalesce (normalizeDir (xh_env h ''USERPROFILE'')) (normalizeDir (xh_homedir h))))"

definition resolveEffectiveHomeDir :: "execHost \<Rightarrow> string option" where
  "resolveEffectiveHomeDir h = map_option (\<lambda>raw. pathResolve (xh_processCwd h) [raw]) (resolveRawHomeDir h)"

definition expandHomePrefix :: "execHost \<Rightarrow> string \<Rightarrow> string" where
  "expandHomePrefix h input =
     (if \<not> prefix ''~'' input then input
      else (case resolveEffectiveHomeDir h of None \<Rightarrow> input | Some home \<Rightarrow> replaceTilde input home))"

section \<open>Executables\<close>

text \<open>The options of a call: the working directory and the variables of the command, which fall back
  to those of the process where the code does.\<close>

record execOpts =
  xo_cwd :: "string option"
  xo_env :: "(string \<Rightarrow> string option) option"

definition hasPathSeparator :: "string \<Rightarrow> bool" where
  "hasPathSeparator s \<longleftrightarrow> CHR ''/'' \<in> set s \<or> CHR 0x5C \<in> set s"

definition resolveExecutableFromPathEnv :: "execHost \<Rightarrow> string \<Rightarrow> string \<Rightarrow> string option" where
  "resolveExecutableFromPathEnv h executable pathEnv =
     find (xh_isExecutable h) (map (\<lambda>entry. pathJoin entry executable) (js_parts CHR '':'' pathEnv))"

definition baseDir :: "execHost \<Rightarrow> string option \<Rightarrow> string" where
  "baseDir h cwd = js_or (js_trim (js_or_empty cwd)) (xh_processCwd h)"

definition resolveExecutablePath :: "execHost \<Rightarrow> execOpts \<Rightarrow> string \<Rightarrow> string option" where
  "resolveExecutablePath h opts rawExecutable =
     (let optEnv = (\<lambda>k. Option.bind (xo_env opts) (\<lambda>f. f k));
          hostOf = h\<lparr>xh_env := (case xo_env opts of None \<Rightarrow> xh_env h | Some f \<Rightarrow> f)\<rparr>;
          expanded = (if prefix ''~'' rawExecutable then expandHomePrefix hostOf rawExecutable else rawExecutable)
      in if hasPathSeparator expanded then
           (let candidate = (if isAbsolutePath expanded then expanded
                             else pathResolve (xh_processCwd h) [baseDir h (xo_cwd opts), expanded])
            in if xh_isExecutable h candidate then Some candidate else None)
         else resolveExecutableFromPathEnv h expanded
           (js_or_empty (js_coalesce (optEnv ''PATH'') (js_coalesce (optEnv ''Path'')
             (js_coalesce (xh_env h ''PATH'') (xh_env h ''Path''))))))"

record commandResolution =
  cr_rawExecutable :: string
  cr_resolvedPath :: "string option"
  cr_resolvedRealPath :: "string option"
  cr_executableName :: string
  cr_effectiveArgv :: "string list option"
  cr_wrapperChain :: "string list option"
  cr_policyBlocked :: "bool option"
  cr_blockedWrapper :: "string option"

definition parseFirstToken :: "string \<Rightarrow> string option" where
  "parseFirstToken command =
     (let trimmed = js_trim command in
      case trimmed of
        [] \<Rightarrow> None
      | first # rest \<Rightarrow>
          if first = CHR 0x22 \<or> first = CHR 0x27 then
            (let inner = takeWhile (\<lambda>c. c \<noteq> first) rest
             in Some (if first \<in> set rest \<and> inner \<noteq> [] then inner else rest))
          else Some (takeWhile (\<lambda>c. \<not> js_ws c) trimmed))"

definition tryResolveRealpath :: "execHost \<Rightarrow> string option \<Rightarrow> string option" where
  "tryResolveRealpath h filePath = (if js_or_empty filePath = [] then None else Option.bind filePath (xh_realpath h))"

definition buildCommandResolution ::
    "execHost \<Rightarrow> execOpts \<Rightarrow> string \<Rightarrow> string list \<Rightarrow> string list \<Rightarrow> bool \<Rightarrow> string option \<Rightarrow> commandResolution" where
  "buildCommandResolution h opts rawExecutable effectiveArgv wrapperChain policyBlocked blockedWrapper =
     (let resolvedPath = resolveExecutablePath h opts rawExecutable in
      \<lparr>cr_rawExecutable = rawExecutable, cr_resolvedPath = resolvedPath,
       cr_resolvedRealPath = tryResolveRealpath h resolvedPath,
       cr_executableName = (if js_or_empty resolvedPath = [] then rawExecutable else posixBasename (js_or_empty resolvedPath)),
       cr_effectiveArgv = Some effectiveArgv, cr_wrapperChain = Some wrapperChain,
       cr_policyBlocked = Some policyBlocked, cr_blockedWrapper = blockedWrapper\<rparr>)"

definition resolveCommandResolution :: "execHost \<Rightarrow> execOpts \<Rightarrow> string \<Rightarrow> commandResolution option" where
  "resolveCommandResolution h opts command =
     (case parseFirstToken command of
        None \<Rightarrow> None
      | Some rawExecutable \<Rightarrow>
          if rawExecutable = [] then None
          else Some (buildCommandResolution h opts rawExecutable [rawExecutable] [] False None))"

definition resolveCommandResolutionFromArgv :: "execHost \<Rightarrow> execOpts \<Rightarrow> string list \<Rightarrow> commandResolution option" where
  "resolveCommandResolutionFromArgv h opts argv =
     (let plan = resolveDispatchWrapperExecutionPlan argv MAX_DISPATCH_WRAPPER_DEPTH in
      if token0 (dpl_argv plan) = [] then None
      else Some (buildCommandResolution h opts (token0 (dpl_argv plan)) (dpl_argv plan) (dpl_wrappers plan)
        (dpl_policyBlocked plan) (dpl_blockedWrapper plan)))"

definition resolveAllowlistCandidatePath :: "execHost \<Rightarrow> commandResolution option \<Rightarrow> string option \<Rightarrow> string option" where
  "resolveAllowlistCandidatePath h resolution cwd =
     (case resolution of
        None \<Rightarrow> None
      | Some r \<Rightarrow>
          if js_or_empty (cr_resolvedPath r) \<noteq> [] then cr_resolvedPath r
          else (let raw = js_trim (cr_rawExecutable r);
                    expanded = (if prefix ''~'' raw then expandHomePrefix h raw else raw)
                in if raw = [] then None
                   else if \<not> hasPathSeparator expanded then None
                   else if isAbsolutePath expanded then Some expanded
                   else Some (pathResolve (xh_processCwd h) [baseDir h cwd, expanded])))"

section \<open>Patterns\<close>

text \<open>The regular expression a pattern compiles to: \<open>.*\<close>, \<open>[^/]*\<close>, \<open>[^/]\<close> and literals, anchored. On a POSIX
  host a pair of backslashes counts as a slash on both sides.\<close>

datatype globTok = GDeep | GStar | GOne | GLit char

fun normalizeMatchTarget :: "string \<Rightarrow> string" where
  "normalizeMatchTarget (a # b # r) =
     (if a = CHR 0x5C \<and> b = CHR 0x5C then CHR ''/'' # normalizeMatchTarget r else a # normalizeMatchTarget (b # r))"
| "normalizeMatchTarget r = r"

fun compileGlob :: "string \<Rightarrow> globTok list" where
  "compileGlob (a # b # r) =
     (if a = CHR ''*'' then (if b = CHR ''*'' then GDeep # compileGlob r else GStar # compileGlob (b # r))
      else if a = CHR ''?'' then GOne # compileGlob (b # r)
      else GLit a # compileGlob (b # r))"
| "compileGlob [a] = [if a = CHR ''*'' then GStar else if a = CHR ''?'' then GOne else GLit a]"
| "compileGlob [] = []"

definition deepChar :: "char \<Rightarrow> bool" where
  "deepChar c \<longleftrightarrow> c \<noteq> CHR 0x0A \<and> c \<noteq> CHR 0x0D"

fun globTest :: "globTok list \<Rightarrow> string \<Rightarrow> bool" where
  "globTest [] s = (s = [])"
| "globTest (GLit c # ts) s = (case s of [] \<Rightarrow> False | x # xs \<Rightarrow> x = c \<and> globTest ts xs)"
| "globTest (GOne # ts) s = (case s of [] \<Rightarrow> False | x # xs \<Rightarrow> x \<noteq> CHR ''/'' \<and> globTest ts xs)"
| "globTest (GStar # ts) [] = globTest ts []"
| "globTest (GStar # ts) (x # xs) = (globTest ts (x # xs) \<or> (x \<noteq> CHR ''/'' \<and> globTest (GStar # ts) xs))"
| "globTest (GDeep # ts) [] = globTest ts []"
| "globTest (GDeep # ts) (x # xs) = (globTest ts (x # xs) \<or> (deepChar x \<and> globTest (GDeep # ts) xs))"

text \<open>The cache of compiled patterns is cleared when it is full.\<close>

type_synonym globCache = "(string \<times> globTok list) list"

definition GLOB_REGEX_CACHE_LIMIT :: nat where "GLOB_REGEX_CACHE_LIMIT = 512"

definition setGlobCache :: "string \<Rightarrow> globTok list \<Rightarrow> globCache \<Rightarrow> globCache" where
  "setGlobCache key compiled cache =
     AList.update key compiled (if GLOB_REGEX_CACHE_LIMIT \<le> length cache then [] else cache)"

definition compileGlobRegex :: "string \<Rightarrow> globCache \<Rightarrow> globTok list \<times> globCache" where
  "compileGlobRegex pattern cache =
     (case map_of cache pattern of
        Some cached \<Rightarrow> (cached, cache)
      | None \<Rightarrow> (let compiled = compileGlob pattern in (compiled, setGlobCache pattern compiled cache)))"

interpretation glob_cache:
  memo_cache "map_of :: globCache \<Rightarrow> string \<Rightarrow> globTok list option" setGlobCache "[]" length GLOB_REGEX_CACHE_LIMIT
proof
  show "length (setGlobCache k v c) \<le> GLOB_REGEX_CACHE_LIMIT" if "length c \<le> GLOB_REGEX_CACHE_LIMIT" for k v c
    using length_jm_update [of k v c] that by (auto simp: setGlobCache_def GLOB_REGEX_CACHE_LIMIT_def)
qed (auto simp: setGlobCache_def map_of_update_iff split: if_splits)

definition patternText :: "execHost \<Rightarrow> string \<Rightarrow> string" where
  "patternText h trimmed = normalizeMatchTarget (if prefix ''~'' trimmed then expandHomePrefix h trimmed else trimmed)"

definition matchesExecAllowlistPattern :: "execHost \<Rightarrow> string \<Rightarrow> string \<Rightarrow> globCache \<Rightarrow> bool \<times> globCache" where
  "matchesExecAllowlistPattern h pattern target cache =
     (let trimmed = js_trim pattern in
      if trimmed = [] then (False, cache)
      else (case compileGlobRegex (patternText h trimmed) cache of
              (toks, cache') \<Rightarrow> (globTest toks (normalizeMatchTarget target), cache')))"

text \<open>A match without the cache, which is transparent; what follows uses this one.\<close>

definition patternMatches :: "execHost \<Rightarrow> string \<Rightarrow> string \<Rightarrow> bool" where
  "patternMatches h pattern target =
     (js_trim pattern \<noteq> [] \<and>
      globTest (compileGlob (patternText h (js_trim pattern))) (normalizeMatchTarget target))"

lemma compileGlobRegex_memo: "compileGlobRegex p c = memo_call map_of setGlobCache compileGlob p c"
  by (cases "map_of c p") (simp_all add: compileGlobRegex_def memo_call_def Let_def)

lemma matchesPattern_cached:
  assumes "coherent map_of compileGlob c"
  shows "fst (matchesExecAllowlistPattern h p t c) = patternMatches h p t"
    "coherent map_of compileGlob (snd (matchesExecAllowlistPattern h p t c))"
  using glob_cache.memo_value [OF assms] glob_cache.memo_coherent [OF assms] assms
  by (simp_all add: matchesExecAllowlistPattern_def patternMatches_def Let_def compileGlobRegex_memo split_beta)

text \<open>The allowlist, first match first. A bare star matches whatever has a resolution.\<close>

record allowlistEntry =
  ale_id :: "string option"
  ale_pattern :: string
  ale_lastUsedAt :: "int option"
  ale_lastUsedCommand :: "string option"
  ale_lastResolvedPath :: "string option"

definition entryMatches :: "execHost \<Rightarrow> string \<Rightarrow> allowlistEntry \<Rightarrow> bool" where
  "entryMatches h target entry =
     (let pattern = js_trim (ale_pattern entry) in
      pattern \<noteq> [] \<and> (hasPathSeparator pattern \<or> CHR ''~'' \<in> set pattern) \<and> patternMatches h pattern target)"

definition matchAllowlist :: "execHost \<Rightarrow> allowlistEntry list \<Rightarrow> commandResolution option \<Rightarrow> allowlistEntry option" where
  "matchAllowlist h entries resolution =
     (case resolution of
        None \<Rightarrow> None
      | Some r \<Rightarrow>
          (case find (\<lambda>e. js_trim (ale_pattern e) = ''*'') entries of
             Some bareWild \<Rightarrow> Some bareWild
           | None \<Rightarrow> if js_or_empty (cr_resolvedPath r) = [] then None
                     else find (entryMatches h (js_or_empty (cr_resolvedPath r))) entries))"

text \<open>\<open>parseExecArgvToken\<close>: how one argument reads as an option.\<close>

datatype argvToken =
    TEmpty | TTerminator | TStdin | TPositional string
  | TLong string "string option"
  | TShort string "string list"

definition parseExecArgvToken :: "string \<Rightarrow> argvToken" where
  "parseExecArgvToken raw =
     (if raw = [] then TEmpty
      else if raw = ''--'' then TTerminator
      else if raw = ''-'' then TStdin
      else if \<not> prefix ''-'' raw then TPositional raw
      else if prefix ''--'' raw then
        (if CHR ''='' \<in> set raw
         then TLong (takeWhile (\<lambda>c. c \<noteq> CHR ''='') raw) (Some (tl (dropWhile (\<lambda>c. c \<noteq> CHR ''='') raw)))
         else TLong raw None)
      else TShort (tl raw) (map (\<lambda>c. [CHR ''-'', c]) (tl raw)))"

section \<open>Lemmas on patterns\<close>

text \<open>What one token of a pattern matches.\<close>

definition tokMatches :: "globTok \<Rightarrow> string \<Rightarrow> bool" where
  "tokMatches t s = (case t of
     GLit c \<Rightarrow> s = [c] | GOne \<Rightarrow> (\<exists>c. s = [c] \<and> c \<noteq> CHR ''/'')
   | GStar \<Rightarrow> CHR ''/'' \<notin> set s | GDeep \<Rightarrow> list_all deepChar s)"

text \<open>A matched string is cut into a piece per token.\<close>

definition pieces :: "globTok list \<Rightarrow> string \<Rightarrow> bool" where
  "pieces ts s \<longleftrightarrow> (\<exists>ps. list_all2 tokMatches ts ps \<and> concat ps = s)"

lemma pieces_Nil [simp]: "pieces [] s \<longleftrightarrow> s = []"
  by (auto simp: pieces_def)

lemma pieces_Cons: "pieces (t # ts) s \<longleftrightarrow> (\<exists>p r. s = p @ r \<and> tokMatches t p \<and> pieces ts r)"
  by (auto simp: pieces_def list_all2_Cons1) force+

text \<open>A star that matches something takes one character and stays.\<close>

lemma pieces_star:
  assumes one: "\<And>p. tokMatches t p = list_all P p"
  shows "pieces (t # ts) [] = pieces ts []"
    "pieces (t # ts) (x # xs) = (pieces ts (x # xs) \<or> P x \<and> pieces (t # ts) xs)"
proof -
  show "pieces (t # ts) [] = pieces ts []" by (auto simp: pieces_Cons one)
  show "pieces (t # ts) (x # xs) = (pieces ts (x # xs) \<or> P x \<and> pieces (t # ts) xs)"
  proof
    assume "pieces (t # ts) (x # xs)"
    then obtain p r where "x # xs = p @ r" "list_all P p" "pieces ts r" by (auto simp: pieces_Cons one)
    then show "pieces ts (x # xs) \<or> P x \<and> pieces (t # ts) xs"
      by (cases p) (auto simp: pieces_Cons one)
  next
    assume "pieces ts (x # xs) \<or> P x \<and> pieces (t # ts) xs"
    then show "pieces (t # ts) (x # xs)"
    proof
      assume "pieces ts (x # xs)"
      then show ?thesis unfolding pieces_Cons one by (intro exI [of _ "[]"] exI [of _ "x # xs"]) simp
    next
      assume a: "P x \<and> pieces (t # ts) xs"
      then obtain p r where "xs = p @ r" "list_all P p" "pieces ts r" by (auto simp: pieces_Cons one)
      with a show ?thesis unfolding pieces_Cons one by (intro exI [of _ "x # p"] exI [of _ r]) simp
    qed
  qed
qed

lemma tok_star: "tokMatches GStar p = list_all (\<lambda>c. c \<noteq> CHR ''/'') p" "tokMatches GDeep p = list_all deepChar p"
  by (auto simp: tokMatches_def list_all_iff)

lemmas pieces_GStar = pieces_star [where t = GStar, OF tok_star(1)]
lemmas pieces_GDeep = pieces_star [where t = GDeep, OF tok_star(2)]

lemma pieces_one:
  assumes "\<And>p. tokMatches t p = (\<exists>c. p = [c] \<and> P c)"
  shows "pieces (t # ts) s = (case s of [] \<Rightarrow> False | x # xs \<Rightarrow> P x \<and> pieces ts xs)"
  using assms by (cases s) (auto simp: pieces_Cons, metis append_Cons append_Nil)

lemma globTest_pieces: "globTest ts s = pieces ts s"
  by (induction ts s rule: globTest.induct)
    (simp_all add: pieces_GStar pieces_GDeep pieces_one [where P = "\<lambda>x. x \<noteq> CHR ''/''"] tokMatches_def
      pieces_one [where P = "\<lambda>x. x = c" for c] split: list.split)

lemma compileGlob_deep: "GDeep \<in> set (compileGlob p) \<Longrightarrow> sublist ''**'' p"
proof (induction p rule: compileGlob.induct)
  case (1 a b r)
  show ?case
  proof (cases "a = CHR ''*'' \<and> b = CHR ''*''")
    case True
    then show ?thesis by (simp add: sublist_Cons_right)
  next
    case False
    with 1 have "sublist ''**'' (b # r)" by (auto split: if_splits)
    then show ?thesis by (simp add: sublist_Cons_right)
  qed
qed (auto split: if_splits)

lemma compileGlob_slashes: "count_list (compileGlob p) (GLit CHR ''/'') = count_list p CHR ''/''"
  by (induction p rule: compileGlob.induct) auto

lemma compileGlob_literal:
  "CHR ''*'' \<notin> set p \<Longrightarrow> CHR ''?'' \<notin> set p \<Longrightarrow> compileGlob p = map GLit p"
  by (induction p rule: compileGlob.induct) auto

lemma pieces_slashes:
  "pieces ts s \<Longrightarrow> GDeep \<notin> set ts \<Longrightarrow> count_list s CHR ''/'' = count_list ts (GLit CHR ''/'')"
proof (induction ts arbitrary: s)
  case (Cons t ts)
  then obtain p r where s: "s = p @ r" "tokMatches t p" "pieces ts r" by (auto simp: pieces_Cons)
  have "count_list p CHR ''/'' = (if t = GLit CHR ''/'' then 1 else 0)"
    using s(2) Cons.prems(2) by (cases t) (auto simp: tokMatches_def count_list_0_iff)
  with Cons.IH [OF s(3)] Cons.prems(2) s(1) show ?case by simp
qed simp

lemma pieces_literal: "pieces (map GLit p) s \<longleftrightarrow> s = p"
  by (induction p arbitrary: s) (auto simp: pieces_Cons tokMatches_def)

section \<open>Properties\<close>

text \<open>A pattern of the allowlist without a double star never reaches into another directory level: what
  it matches has as many slashes as the pattern; without any wildcard it matches one path only.\<close>

theorem pattern_stays_in_directory:
  assumes "patternMatches h pattern target" "\<not> sublist ''**'' (patternText h (js_trim pattern))"
  shows "count_list (normalizeMatchTarget target) CHR ''/'' = count_list (patternText h (js_trim pattern)) CHR ''/'' \<and>
    (if CHR ''*'' \<in> set (patternText h (js_trim pattern)) \<or> CHR ''?'' \<in> set (patternText h (js_trim pattern)) then True
     else normalizeMatchTarget target = patternText h (js_trim pattern))"
proof -
  have m: "pieces (compileGlob (patternText h (js_trim pattern))) (normalizeMatchTarget target)"
    using assms(1) by (simp add: patternMatches_def globTest_pieces)
  have "GDeep \<notin> set (compileGlob (patternText h (js_trim pattern)))"
    using compileGlob_deep assms(2) by blast
  with pieces_slashes [OF m] show ?thesis
    using m by (auto simp: compileGlob_slashes compileGlob_literal pieces_literal)
qed

definition sampleHost :: execHost where
  "sampleHost = \<lparr>xh_env = (\<lambda>k. if k = ''HOME'' then Some ''/home/u'' else if k = ''PATH'' then Some ''/usr/bin:/bin'' else None),
     xh_homedir = Some ''/home/u'', xh_processCwd = ''/srv'', xh_isExecutable = (\<lambda>p. prefix ''/usr/bin/'' p \<or> prefix ''/home/'' p),
     xh_realpath = Some\<rparr>"

theorem pattern_stays_in_directory_witness:
  "patternMatches sampleHost ''~/bin/*'' ''/home/u/bin/tool'' \<and>
   count_list (normalizeMatchTarget ''/home/u/bin/tool'') CHR ''/'' = 4"
proof -
  have m: "patternMatches sampleHost ''~/bin/*'' ''/home/u/bin/tool''" by code_simp
  have p: "patternText sampleHost (js_trim ''~/bin/*'') = ''/home/u/bin/*''" by code_simp
  have "\<not> sublist ''**'' ''/home/u/bin/*''" by code_simp
  with pattern_stays_in_directory [OF m] m show ?thesis by (simp add: p)
qed

end
