(* ===== verification/Shell_Analysis.thy ===== *)
theory Shell_Analysis
  imports Exec_Paths
begin

text \<open>
  \<open>src/utils/shell-argv.ts\<close> and \<open>src/infra/exec-approvals-analysis.ts\<close>: how a command line is cut into
  chains, pipelines and arguments before it is checked against the allowlist, and how it is rebuilt
  with literal arguments before it runs. Each scanner is a step on a state, driven over the
  characters by \<open>scan\<close>; an index is the suffix that starts at it.
\<close>

section \<open>Scanning\<close>

text \<open>A step fails, stops (\<open>break\<close>), or goes on after skipping that many characters beyond its own.\<close>

datatype 's scanMove = Fail string | Halt 's | Go nat 's

function scan ::
    "(char option \<Rightarrow> char \<Rightarrow> string \<Rightarrow> 's \<Rightarrow> 's scanMove) \<Rightarrow> char option \<Rightarrow> string \<Rightarrow> 's \<Rightarrow> string + 's" where
  "scan step prev [] st = Inr st"
| "scan step prev (c # rest) st =
     (case step prev c rest st of
        Fail e \<Rightarrow> Inl e
      | Halt st' \<Rightarrow> Inr st'
      | Go n st' \<Rightarrow> scan step (Some (last (c # take n rest))) (drop n rest) st')"
  by pat_completeness auto
termination by (relation "measure (\<lambda>(step, prev, s, st). length s)") auto

definition peek :: "string \<Rightarrow> char option" where
  "peek s = (case s of [] \<Rightarrow> None | c # _ \<Rightarrow> Some c)"

abbreviation SQ :: char where "SQ \<equiv> CHR 0x27"
abbreviation DQ :: char where "DQ \<equiv> CHR 0x22"
abbreviation BS :: char where "BS \<equiv> CHR 0x5C"
abbreviation NL :: char where "NL \<equiv> CHR 0x0A"
abbreviation CR :: char where "CR \<equiv> CHR 0x0D"
abbreviation BQ :: char where "BQ \<equiv> CHR 0x60"

section \<open>Arguments\<close>

record argState =
  as_tokens :: "string list"
  as_buf :: string
  as_inSingle :: bool
  as_inDouble :: bool
  as_escaped :: bool

definition argEscape :: "char option \<Rightarrow> bool" where
  "argEscape n \<longleftrightarrow> n \<in> Some ` {BS, DQ, CHR ''$'', BQ, NL, CR}"

definition pushToken :: "argState \<Rightarrow> argState" where
  "pushToken st = (if as_buf st = [] then st else st\<lparr>as_tokens := as_tokens st @ [as_buf st], as_buf := []\<rparr>)"

definition argStep :: "char option \<Rightarrow> char \<Rightarrow> string \<Rightarrow> argState \<Rightarrow> argState scanMove" where
  "argStep prev ch rest st =
     (if as_escaped st then Go 0 (st\<lparr>as_buf := as_buf st @ [ch], as_escaped := False\<rparr>)
      else if \<not> as_inSingle st \<and> \<not> as_inDouble st \<and> ch = BS then Go 0 (st\<lparr>as_escaped := True\<rparr>)
      else if as_inSingle st then
        Go 0 (if ch = SQ then st\<lparr>as_inSingle := False\<rparr> else st\<lparr>as_buf := as_buf st @ [ch]\<rparr>)
      else if as_inDouble st then
        (if ch = BS \<and> argEscape (peek rest) then Go 1 (st\<lparr>as_buf := as_buf st @ [hd rest]\<rparr>)
         else Go 0 (if ch = DQ then st\<lparr>as_inDouble := False\<rparr> else st\<lparr>as_buf := as_buf st @ [ch]\<rparr>))
      else if ch = SQ then Go 0 (st\<lparr>as_inSingle := True\<rparr>)
      else if ch = DQ then Go 0 (st\<lparr>as_inDouble := True\<rparr>)
      else if ch = CHR ''#'' \<and> as_buf st = [] then Halt st
      else if js_ws ch then Go 0 (pushToken st)
      else Go 0 (st\<lparr>as_buf := as_buf st @ [ch]\<rparr>))"

definition initArgs :: argState where
  "initArgs = \<lparr>as_tokens = [], as_buf = [], as_inSingle = False, as_inDouble = False, as_escaped = False\<rparr>"

definition splitShellArgs :: "string \<Rightarrow> string list option" where
  "splitShellArgs raw =
     (case scan argStep None raw initArgs of
        Inl e \<Rightarrow> None
      | Inr st \<Rightarrow>
          if as_escaped st \<or> as_inSingle st \<or> as_inDouble st then None else Some (as_tokens (pushToken st)))"

section \<open>Pipelines\<close>

record heredocSpec =
  hd_delimiter :: string
  hd_stripTabs :: bool
  hd_quoted :: bool

record pipeState =
  ps_segments :: "string list"
  ps_buf :: string
  ps_inSingle :: bool
  ps_inDouble :: bool
  ps_escaped :: bool
  ps_emptySegment :: bool
  ps_pending :: "heredocSpec list"
  ps_inBody :: bool
  ps_line :: string

definition isDoubleQuoteEscape :: "char option \<Rightarrow> bool" where
  "isDoubleQuoteEscape n \<longleftrightarrow> n \<in> Some ` {BS, DQ, CHR ''$'', BQ}"

definition isEscapedLineContinuation :: "char option \<Rightarrow> bool" where
  "isEscapedLineContinuation n \<longleftrightarrow> n \<in> Some ` {NL, CR}"

definition isShellCommentStart :: "char option \<Rightarrow> char \<Rightarrow> bool" where
  "isShellCommentStart prev ch \<longleftrightarrow> ch = CHR ''#'' \<and> (case prev of None \<Rightarrow> True | Some p \<Rightarrow> js_ws p)"

text \<open>The delimiter after \<open><<\<close>, with what follows it.\<close>

fun quotedDelimiter :: "char \<Rightarrow> string \<Rightarrow> string \<Rightarrow> (string \<times> string) option" where
  "quotedDelimiter q [] acc = None"
| "quotedDelimiter q (ch # cs) acc =
     (if ch = NL \<or> ch = CR then None
      else if q = DQ \<and> ch = BS \<and> cs \<noteq> [] then quotedDelimiter q (tl cs) (acc @ [hd cs])
      else if ch = q then Some (acc, cs)
      else quotedDelimiter q cs (acc @ [ch]))"

definition delimiterChar :: "char \<Rightarrow> bool" where
  "delimiterChar ch \<longleftrightarrow> \<not> (js_ws ch \<or> ch \<in> set ''|&;<>'')"

definition parseHeredocDelimiter :: "string \<Rightarrow> (string \<times> string \<times> bool) option" where
  "parseHeredocDelimiter source =
     (let src = dropWhile (\<lambda>c. c = CHR '' '' \<or> c = CHR 0x09) source in
      case src of
        [] \<Rightarrow> None
      | first # cs \<Rightarrow>
          if first = SQ \<or> first = DQ then map_option (\<lambda>(d, r). (d, r, True)) (quotedDelimiter first cs [])
          else (let d = takeWhile delimiterChar src in
                if d = [] then None else Some (d, dropWhile delimiterChar src, False)))"

text \<open>A backquote or \<open>$(\<close> or \<open>${\<close> behind an even number of backslashes.\<close>

fun expansionToken :: "string \<Rightarrow> string \<Rightarrow> bool" where
  "expansionToken before [] = False"
| "expansionToken before (ch # cs) =
     (let escaped = odd (length (takeWhile (\<lambda>c. c = BS) before)) in
      if ch = BQ \<and> \<not> escaped then True
      else if ch = CHR ''$'' \<and> \<not> escaped \<and> (peek cs = Some CHR ''('' \<or> peek cs = Some CHR ''{'') then True
      else expansionToken (ch # before) cs)"

definition hasUnquotedHeredocExpansionToken :: "string \<Rightarrow> bool" where
  "hasUnquotedHeredocExpansionToken line = expansionToken [] line"

definition heredocLineText :: "heredocSpec \<Rightarrow> string \<Rightarrow> string" where
  "heredocLineText spec line = (if hd_stripTabs spec then dropWhile (\<lambda>c. c = CHR 0x09) line else line)"

definition pushSegment :: "pipeState \<Rightarrow> pipeState" where
  "pushSegment st =
     (let trimmed = js_trim (ps_buf st) in
      st\<lparr>ps_segments := (if trimmed = [] then ps_segments st else ps_segments st @ [trimmed]), ps_buf := []\<rparr>)"

definition addPipe :: "string \<Rightarrow> pipeState \<Rightarrow> pipeState" where
  "addPipe s st = st\<lparr>ps_buf := ps_buf st @ s, ps_emptySegment := False\<rparr>"

definition crlfSkip :: "char \<Rightarrow> string \<Rightarrow> nat" where
  "crlfSkip ch rest = (if ch = CR \<and> peek rest = Some NL then 1 else 0)"

definition unsupported :: "string \<Rightarrow> string" where
  "unsupported t = ''unsupported shell token: '' @ t"

definition bodyStep :: "char \<Rightarrow> string \<Rightarrow> pipeState \<Rightarrow> pipeState scanMove" where
  "bodyStep ch rest st =
     (if ch = NL \<or> ch = CR then
        (let closed = (case ps_pending st of [] \<Rightarrow> False
                       | spec # _ \<Rightarrow> heredocLineText spec (ps_line st) = hd_delimiter spec);
             pending = (if closed then tl (ps_pending st) else ps_pending st)
         in if ps_pending st \<noteq> [] \<and> \<not> closed \<and> \<not> hd_quoted (hd (ps_pending st)) \<and>
               hasUnquotedHeredocExpansionToken (ps_line st)
            then Fail ''command substitution in unquoted heredoc''
            else Go (crlfSkip ch rest) (st\<lparr>ps_pending := pending, ps_line := [], ps_inBody := (pending \<noteq> [])\<rparr>))
      else Go 0 (st\<lparr>ps_line := ps_line st @ [ch]\<rparr>))"

text \<open>After \<open><<\<close>: an optional dash, then the delimiter. Without a delimiter only \<open><<\<close> is consumed,
  though the dash was already copied.\<close>

definition heredocStep :: "string \<Rightarrow> pipeState \<Rightarrow> pipeState scanMove" where
  "heredocStep rest st =
     (let after = tl rest; dash = (peek after = Some CHR ''-''); src = (if dash then tl after else after);
          st1 = addPipe (''<<'' @ (if dash then ''-'' else [])) st
      in case parseHeredocDelimiter src of
           None \<Rightarrow> Go 1 st1
         | Some (delimiter, left', quoted) \<Rightarrow>
             Go (length rest - length left')
               (st1\<lparr>ps_buf := ps_buf st1 @ take (length src - length left') src,
                    ps_pending := ps_pending st1 @
                      [\<lparr>hd_delimiter = delimiter, hd_stripTabs = dash, hd_quoted = quoted\<rparr>]\<rparr>))"

definition DISALLOWED_PIPELINE_TOKENS :: "char set" where
  "DISALLOWED_PIPELINE_TOKENS = {CHR ''>'', CHR ''<'', BQ, NL, CR, CHR ''('', CHR '')''}"

definition pipeStep :: "char option \<Rightarrow> char \<Rightarrow> string \<Rightarrow> pipeState \<Rightarrow> pipeState scanMove" where
  "pipeStep prev ch rest st =
     (if ps_inBody st then bodyStep ch rest st
      else if ps_escaped st then Go 0 (addPipe [ch] st\<lparr>ps_escaped := False\<rparr>)
      else if \<not> ps_inSingle st \<and> \<not> ps_inDouble st \<and> ch = BS then Go 0 (addPipe [ch] st\<lparr>ps_escaped := True\<rparr>)
      else if ps_inSingle st then Go 0 (addPipe [ch] st\<lparr>ps_inSingle := (ch \<noteq> SQ)\<rparr>)
      else if ps_inDouble st then
        (if ch = BS \<and> isEscapedLineContinuation (peek rest) then Fail (unsupported ''newline'')
         else if ch = BS \<and> isDoubleQuoteEscape (peek rest) then Go 1 (addPipe [ch, hd rest] st)
         else if ch = CHR ''$'' \<and> peek rest = Some CHR ''('' then Fail (unsupported ''$()'')
         else if ch = BQ then Fail (unsupported [BQ])
         else if ch = NL \<or> ch = CR then Fail (unsupported ''newline'')
         else Go 0 (addPipe [ch] st\<lparr>ps_inDouble := (ch \<noteq> DQ)\<rparr>))
      else if ch = SQ then Go 0 (addPipe [ch] st\<lparr>ps_inSingle := True\<rparr>)
      else if ch = DQ then Go 0 (addPipe [ch] st\<lparr>ps_inDouble := True\<rparr>)
      else if isShellCommentStart prev ch then Halt st
      else if (ch = NL \<or> ch = CR) \<and> ps_pending st \<noteq> [] then
        Go (crlfSkip ch rest) (st\<lparr>ps_inBody := True, ps_line := []\<rparr>)
      else if ch = CHR ''|'' \<and> peek rest = Some CHR ''|'' then Fail (unsupported ''||'')
      else if ch = CHR ''|'' \<and> peek rest = Some CHR ''&'' then Fail (unsupported ''|&'')
      else if ch = CHR ''|'' then Go 0 (pushSegment (st\<lparr>ps_emptySegment := True\<rparr>))
      else if ch = CHR ''&'' \<or> ch = CHR '';'' then Fail (unsupported [ch])
      else if ch = CHR ''<'' \<and> peek rest = Some CHR ''<'' then heredocStep rest st
      else if ch \<in> DISALLOWED_PIPELINE_TOKENS then Fail (unsupported [ch])
      else if ch = CHR ''$'' \<and> peek rest = Some CHR ''('' then Fail (unsupported ''$()'')
      else Go 0 (addPipe [ch] st))"

definition initPipe :: pipeState where
  "initPipe = \<lparr>ps_segments = [], ps_buf = [], ps_inSingle = False, ps_inDouble = False, ps_escaped = False,
     ps_emptySegment = False, ps_pending = [], ps_inBody = False, ps_line = []\<rparr>"

text \<open>The end of the text closes a heredoc whose delimiter is the last line.\<close>

definition closeHeredoc :: "pipeState \<Rightarrow> pipeState" where
  "closeHeredoc st =
     (case (ps_inBody st, ps_pending st) of
        (True, spec # specs) \<Rightarrow>
          if heredocLineText spec (ps_line st) = hd_delimiter spec
          then st\<lparr>ps_pending := specs, ps_inBody := (specs \<noteq> [])\<rparr> else st
      | _ \<Rightarrow> st)"

definition splitShellPipeline :: "string \<Rightarrow> string + string list" where
  "splitShellPipeline command =
     (case scan pipeStep None command initPipe of
        Inl reason \<Rightarrow> Inl reason
      | Inr st0 \<Rightarrow>
          (let st = closeHeredoc st0; st' = pushSegment st in
           if ps_pending st \<noteq> [] \<or> ps_inBody st then Inl ''unterminated heredoc''
           else if ps_escaped st \<or> ps_inSingle st \<or> ps_inDouble st then Inl ''unterminated shell quote/escape''
           else if ps_segments st' = [] then Inl ''empty command''
           else if ps_emptySegment st' then Inl ''empty pipeline segment''
           else Inr (ps_segments st')))"

section \<open>Chains\<close>

datatype chainOp = OpAnd | OpOr | OpSeq

record chainPart =
  cp_part :: string
  cp_opToNext :: "chainOp option"

record chainState =
  cs_parts :: "chainPart list"
  cs_buf :: string
  cs_inSingle :: bool
  cs_inDouble :: bool
  cs_escaped :: bool
  cs_foundChain :: bool
  cs_invalidChain :: bool

definition addChain :: "string \<Rightarrow> chainState \<Rightarrow> chainState" where
  "addChain s st = st\<lparr>cs_buf := cs_buf st @ s\<rparr>"

text \<open>An operator ends a part; an empty one makes the chain invalid.\<close>

definition pushPart :: "chainOp \<Rightarrow> chainState \<Rightarrow> chainState" where
  "pushPart op st =
     (let trimmed = js_trim (cs_buf st) in
      if trimmed = [] then st\<lparr>cs_buf := [], cs_invalidChain := True, cs_foundChain := True\<rparr>
      else st\<lparr>cs_buf := [], cs_parts := cs_parts st @ [\<lparr>cp_part = trimmed, cp_opToNext = Some op\<rparr>], cs_foundChain := True\<rparr>)"

definition chainStep :: "char option \<Rightarrow> char \<Rightarrow> string \<Rightarrow> chainState \<Rightarrow> chainState scanMove" where
  "chainStep prev ch rest st =
     (if cs_escaped st then Go 0 ((addChain [ch] st)\<lparr>cs_escaped := False\<rparr>)
      else if \<not> cs_inSingle st \<and> \<not> cs_inDouble st \<and> ch = BS then Go 0 ((addChain [ch] st)\<lparr>cs_escaped := True\<rparr>)
      else if cs_inSingle st then Go 0 ((addChain [ch] st)\<lparr>cs_inSingle := (ch \<noteq> SQ)\<rparr>)
      else if cs_inDouble st then
        (if ch = BS \<and> isEscapedLineContinuation (peek rest) then Halt (st\<lparr>cs_invalidChain := True\<rparr>)
         else if ch = BS \<and> isDoubleQuoteEscape (peek rest) then Go 1 (addChain [ch, hd rest] st)
         else Go 0 ((addChain [ch] st)\<lparr>cs_inDouble := (ch \<noteq> DQ)\<rparr>))
      else if ch = SQ then Go 0 ((addChain [ch] st)\<lparr>cs_inSingle := True\<rparr>)
      else if ch = DQ then Go 0 ((addChain [ch] st)\<lparr>cs_inDouble := True\<rparr>)
      else if isShellCommentStart prev ch then Halt st
      else if ch = CHR ''&'' \<and> peek rest = Some CHR ''&'' then Go 1 (pushPart OpAnd st)
      else if ch = CHR ''|'' \<and> peek rest = Some CHR ''|'' then Go 1 (pushPart OpOr st)
      else if ch = CHR '';'' then Go 0 (pushPart OpSeq st)
      else Go 0 (addChain [ch] st))"

definition initChain :: chainState where
  "initChain = \<lparr>cs_parts = [], cs_buf = [], cs_inSingle = False, cs_inDouble = False, cs_escaped = False,
     cs_foundChain = False, cs_invalidChain = False\<rparr>"

definition splitCommandChainWithOperators :: "string \<Rightarrow> chainPart list option" where
  "splitCommandChainWithOperators command =
     (case scan chainStep None command initChain of
        Inl e \<Rightarrow> None
      | Inr st \<Rightarrow>
          (let trimmed = js_trim (cs_buf st) in
           if \<not> cs_foundChain st \<or> trimmed = [] \<or> cs_invalidChain st then None
           else Some (cs_parts st @ [\<lparr>cp_part = trimmed, cp_opToNext = None\<rparr>])))"

definition splitCommandChain :: "string \<Rightarrow> string list option" where
  "splitCommandChain command = map_option (map cp_part) (splitCommandChainWithOperators command)"

section \<open>Windows\<close>

definition WINDOWS_UNSUPPORTED_TOKENS :: "char set" where
  "WINDOWS_UNSUPPORTED_TOKENS = set ''&|<>^()%!'' \<union> {NL, CR}"

definition findWindowsUnsupportedToken :: "string \<Rightarrow> string option" where
  "findWindowsUnsupportedToken command =
     map_option (\<lambda>ch. if ch = NL \<or> ch = CR then ''newline'' else [ch])
       (find (\<lambda>ch. ch \<in> WINDOWS_UNSUPPORTED_TOKENS) command)"

fun windowsTokens :: "string \<Rightarrow> bool \<Rightarrow> string \<Rightarrow> string list \<Rightarrow> string list option" where
  "windowsTokens buf inDouble [] tokens =
     (let all = (if buf = [] then tokens else tokens @ [buf]) in if inDouble \<or> all = [] then None else Some all)"
| "windowsTokens buf inDouble (ch # cs) tokens =
     (if ch = DQ then windowsTokens buf (\<not> inDouble) cs tokens
      else if \<not> inDouble \<and> js_ws ch
      then windowsTokens [] inDouble cs (if buf = [] then tokens else tokens @ [buf])
      else windowsTokens (buf @ [ch]) inDouble cs tokens)"

definition tokenizeWindowsSegment :: "string \<Rightarrow> string list option" where
  "tokenizeWindowsSegment segment = windowsTokens [] False segment []"

definition isWindowsPlatform :: "string option \<Rightarrow> bool" where
  "isWindowsPlatform platform = prefix ''win'' (js_lower (js_trim (js_or_empty platform)))"

section \<open>Analysis\<close>

record execSegment =
  sg_raw :: string
  sg_argv :: "string list"
  sg_resolution :: "commandResolution option"

text \<open>\<open>Inl\<close> is \<open>ok: false\<close> with its reason; the chains are those of the operators, if there are any.\<close>

record execAnalysis =
  an_segments :: "execSegment list"
  an_chains :: "execSegment list list option"

definition segmentOf :: "execHost \<Rightarrow> execOpts \<Rightarrow> string \<Rightarrow> string list \<Rightarrow> execSegment" where
  "segmentOf h opts raw argv =
     \<lparr>sg_raw = raw, sg_argv = argv, sg_resolution = resolveCommandResolutionFromArgv h opts argv\<rparr>"

definition analyzeWindowsShellCommand :: "execHost \<Rightarrow> execOpts \<Rightarrow> string \<Rightarrow> string + execAnalysis" where
  "analyzeWindowsShellCommand h opts command =
     (case findWindowsUnsupportedToken command of
        Some t \<Rightarrow> Inl (''unsupported windows shell token: '' @ t)
      | None \<Rightarrow>
          (case tokenizeWindowsSegment command of
             None \<Rightarrow> Inl ''unable to parse windows command''
           | Some argv \<Rightarrow> Inr \<lparr>an_segments = [segmentOf h opts command argv], an_chains = None\<rparr>))"

fun parseSegmentsFromParts :: "execHost \<Rightarrow> execOpts \<Rightarrow> string list \<Rightarrow> execSegment list option" where
  "parseSegmentsFromParts h opts [] = Some []"
| "parseSegmentsFromParts h opts (raw # parts) =
     (case splitShellArgs raw of
        None \<Rightarrow> None
      | Some argv \<Rightarrow>
          if argv = [] then None
          else map_option (\<lambda>segments. segmentOf h opts raw argv # segments) (parseSegmentsFromParts h opts parts))"

definition analyzePipeline :: "execHost \<Rightarrow> execOpts \<Rightarrow> string \<Rightarrow> string + execSegment list" where
  "analyzePipeline h opts part =
     (case splitShellPipeline part of
        Inl reason \<Rightarrow> Inl reason
      | Inr parts \<Rightarrow>
          (case parseSegmentsFromParts h opts parts of
             None \<Rightarrow> Inl ''unable to parse shell segment''
           | Some segments \<Rightarrow> Inr segments))"

fun analyzeChains :: "execHost \<Rightarrow> execOpts \<Rightarrow> string list \<Rightarrow> string + execSegment list list" where
  "analyzeChains h opts [] = Inr []"
| "analyzeChains h opts (part # parts) =
     (case analyzePipeline h opts part of
        Inl reason \<Rightarrow> Inl reason
      | Inr segments \<Rightarrow>
          (case analyzeChains h opts parts of Inl reason \<Rightarrow> Inl reason | Inr groups \<Rightarrow> Inr (segments # groups)))"

definition analyzeShellCommand :: "execHost \<Rightarrow> execOpts \<Rightarrow> string option \<Rightarrow> string \<Rightarrow> string + execAnalysis" where
  "analyzeShellCommand h opts platform command =
     (if isWindowsPlatform platform then analyzeWindowsShellCommand h opts command
      else (case splitCommandChain command of
          Some chainParts \<Rightarrow>
            (case analyzeChains h opts chainParts of
               Inl reason \<Rightarrow> Inl reason
             | Inr groups \<Rightarrow> Inr \<lparr>an_segments = concat groups, an_chains = Some groups\<rparr>)
        | None \<Rightarrow>
            (case analyzePipeline h opts command of
               Inl reason \<Rightarrow> Inl reason
             | Inr segments \<Rightarrow> Inr \<lparr>an_segments = segments, an_chains = None\<rparr>)))"

definition analyzeArgvCommand :: "execHost \<Rightarrow> execOpts \<Rightarrow> string list \<Rightarrow> string + execAnalysis" where
  "analyzeArgvCommand h opts argv0 =
     (let argv = filter (\<lambda>entry. js_trim entry \<noteq> []) argv0 in
      if argv = [] then Inl ''empty argv''
      else Inr \<lparr>an_segments = [segmentOf h opts (js_join '' '' argv) argv], an_chains = None\<rparr>)"

section \<open>Rebuilding\<close>

definition quoteArgChar :: "char \<Rightarrow> string" where
  "quoteArgChar c = (if c = SQ then [SQ, DQ, SQ, DQ, SQ] else [c])"

definition shellEscapeSingleArg :: "string \<Rightarrow> string" where
  "shellEscapeSingleArg value = SQ # concat (map quoteArgChar value) @ [SQ]"

definition renderQuotedArgv :: "string list \<Rightarrow> string" where
  "renderQuotedArgv argv = js_join '' '' (map shellEscapeSingleArg argv)"

definition opText :: "chainOp \<Rightarrow> string" where
  "opText op = (case op of OpAnd \<Rightarrow> ''&&'' | OpOr \<Rightarrow> ''||'' | OpSeq \<Rightarrow> '';'')"

text \<open>The segments of all parts are numbered through.\<close>

type_synonym renderFn = "string \<Rightarrow> nat \<Rightarrow> string + string"

fun renderSegments :: "renderFn \<Rightarrow> nat \<Rightarrow> string list \<Rightarrow> string + string list" where
  "renderSegments render n [] = Inr []"
| "renderSegments render n (raw # raws) =
     (case render raw n of
        Inl reason \<Rightarrow> Inl reason
      | Inr r \<Rightarrow> (case renderSegments render (Suc n) raws of Inl reason \<Rightarrow> Inl reason | Inr rs \<Rightarrow> Inr (r # rs)))"

fun rebuildParts :: "renderFn \<Rightarrow> nat \<Rightarrow> string \<Rightarrow> chainPart list \<Rightarrow> string + string \<times> nat" where
  "rebuildParts render n out [] = Inr (out, n)"
| "rebuildParts render n out (part # parts) =
     (case splitShellPipeline (cp_part part) of
        Inl reason \<Rightarrow> Inl reason
      | Inr segments \<Rightarrow>
          (case renderSegments render n segments of
             Inl reason \<Rightarrow> Inl reason
           | Inr rendered \<Rightarrow>
               rebuildParts render (n + length segments)
                 (out @ js_join '' | '' rendered @
                   (case cp_opToNext part of None \<Rightarrow> [] | Some op \<Rightarrow> '' '' @ opText op @ '' '')) parts))"

definition rebuildShellCommandFromSource :: "renderFn \<Rightarrow> string option \<Rightarrow> string \<Rightarrow> string + string \<times> nat" where
  "rebuildShellCommandFromSource render platform command =
     (let source = js_trim command in
      if isWindowsPlatform platform then Inl ''unsupported platform''
      else if source = [] then Inl ''empty command''
      else rebuildParts render 0 []
        (case splitCommandChainWithOperators source of
           Some ps \<Rightarrow> ps | None \<Rightarrow> [\<lparr>cp_part = source, cp_opToNext = None\<rparr>]))"

definition finalizeRebuiltShellCommand :: "string + string \<times> nat \<Rightarrow> nat option \<Rightarrow> string + string" where
  "finalizeRebuiltShellCommand rebuilt expectedSegmentCount =
     (case rebuilt of
        Inl reason \<Rightarrow> Inl reason
      | Inr (command, segmentCount) \<Rightarrow>
          if expectedSegmentCount \<noteq> None \<and> expectedSegmentCount \<noteq> Some segmentCount
          then Inl ''segment count mismatch'' else Inr command)"

definition buildSafeShellCommand :: "string option \<Rightarrow> string \<Rightarrow> string + string" where
  "buildSafeShellCommand platform command =
     finalizeRebuiltShellCommand
       (rebuildShellCommandFromSource
         (\<lambda>segmentRaw i. case splitShellArgs segmentRaw of
            None \<Rightarrow> Inl ''unable to parse shell segment''
          | Some argv \<Rightarrow> if argv = [] then Inl ''unable to parse shell segment'' else Inr (renderQuotedArgv argv))
         platform command) None"

definition resolvePlannedSegmentArgv :: "execSegment \<Rightarrow> string list option" where
  "resolvePlannedSegmentArgv segment =
     (let resolution = sg_resolution segment;
          effective = (case Option.bind resolution cr_effectiveArgv of None \<Rightarrow> [] | Some a \<Rightarrow> a);
          baseArgv = (if effective \<noteq> [] then effective else sg_argv segment);
          resolvedExecutable = js_or_empty (js_coalesce
            (map_option js_trim (Option.bind resolution cr_resolvedRealPath))
            (map_option js_trim (Option.bind resolution cr_resolvedPath)))
      in if Option.bind resolution cr_policyBlocked = Some True then None
         else if baseArgv = [] then None
         else Some (if resolvedExecutable \<noteq> [] then resolvedExecutable # tl baseArgv else baseArgv))"

definition renderSafeBinSegmentArgv :: "execSegment \<Rightarrow> string option" where
  "renderSafeBinSegmentArgv segment =
     (case resolvePlannedSegmentArgv segment of
        None \<Rightarrow> None | Some argv \<Rightarrow> if argv = [] then None else Some (renderQuotedArgv argv))"

datatype satisfiedBy = ByAllowlist | BySafeBins | BySkills

definition buildSafeBinsShellCommand ::
    "string option \<Rightarrow> string \<Rightarrow> execSegment list \<Rightarrow> satisfiedBy option list \<Rightarrow> string + string" where
  "buildSafeBinsShellCommand platform command segments segmentSatisfiedBy =
     (if length segments \<noteq> length segmentSatisfiedBy then Inl ''segment metadata mismatch''
      else finalizeRebuiltShellCommand
        (rebuildShellCommandFromSource
          (\<lambda>raw i.
             if length segments \<le> i then Inl ''segment mapping failed''
             else if segmentSatisfiedBy ! i \<noteq> Some BySafeBins then Inr (js_trim raw)
             else (case renderSafeBinSegmentArgv (segments ! i) of
                     None \<Rightarrow> Inl ''segment execution plan unavailable''
                   | Some rendered \<Rightarrow>
                       if rendered = [] then Inl ''segment execution plan unavailable'' else Inr rendered))
          platform command) (Some (length segments)))"

definition buildEnforcedShellCommand :: "string option \<Rightarrow> string \<Rightarrow> execSegment list \<Rightarrow> string + string" where
  "buildEnforcedShellCommand platform command segments =
     finalizeRebuiltShellCommand
       (rebuildShellCommandFromSource
         (\<lambda>raw i.
            if length segments \<le> i then Inl ''segment mapping failed''
            else (case resolvePlannedSegmentArgv (segments ! i) of
                    None \<Rightarrow> Inl ''segment execution plan unavailable''
                  | Some argv \<Rightarrow> Inr (renderQuotedArgv argv)))
         platform command) (Some (length segments))"

end
