(* ===== verification/Shell_Rebuild.thy ===== *)
theory Shell_Rebuild
  imports Shell_Analysis
begin

text \<open>
  What a rebuilt command line means to the scanners of \<open>Shell_Analysis\<close>: quoted arguments read back as
  they were, and a whole rebuilt command is analysed into exactly the argument vectors that were
  planned for it.
\<close>

section \<open>Scanner lemmas\<close>

text \<open>A property of the state that every step keeps holds at the end.\<close>

definition keeps :: "(char option \<Rightarrow> char \<Rightarrow> string \<Rightarrow> 's \<Rightarrow> 's scanMove) \<Rightarrow> ('s \<Rightarrow> bool) \<Rightarrow> bool" where
  "keeps step P \<longleftrightarrow> (\<forall>prev c rest st. P st \<longrightarrow>
     (case step prev c rest st of Fail e \<Rightarrow> True | Halt st' \<Rightarrow> P st' | Go n st' \<Rightarrow> P st'))"

lemma scan_keeps: "scan step prev s st = Inr st' \<Longrightarrow> keeps step P \<Longrightarrow> P st \<Longrightarrow> P st'"
proof (induction step prev s st rule: scan.induct)
  case (2 step prev c rest st)
  then have "case step prev c rest st of Fail e \<Rightarrow> True | Halt st' \<Rightarrow> P st' | Go n st' \<Rightarrow> P st'"
    by (simp add: keeps_def)
  with 2 show ?case by (cases "step prev c rest st") auto
qed simp

section \<open>Steps of the argument scanner\<close>

definition argPlain :: "argState \<Rightarrow> bool" where
  "argPlain st \<longleftrightarrow> \<not> as_escaped st \<and> \<not> as_inDouble st \<and> \<not> as_inSingle st"

lemma argStep_single:
  "as_inSingle st \<Longrightarrow> \<not> as_escaped st \<Longrightarrow> argStep p c r st =
     Go 0 (if c = SQ then st\<lparr>as_inSingle := False\<rparr> else st\<lparr>as_buf := as_buf st @ [c]\<rparr>)"
  by (simp add: argStep_def)

lemma argStep_open:
  "argPlain st \<Longrightarrow> argStep p SQ r st = Go 0 (st\<lparr>as_inSingle := True\<rparr>)"
  "argPlain st \<Longrightarrow> argStep p DQ r st = Go 0 (st\<lparr>as_inDouble := True\<rparr>)"
  "argPlain st \<Longrightarrow> argStep p CHR '' '' r st = Go 0 (pushToken st)"
  by (simp_all add: argStep_def argPlain_def js_ws_def)

lemma argStep_double:
  "as_inDouble st \<Longrightarrow> \<not> as_escaped st \<Longrightarrow> \<not> as_inSingle st \<Longrightarrow> argStep p SQ r st = Go 0 (st\<lparr>as_buf := as_buf st @ [SQ]\<rparr>)"
  "as_inDouble st \<Longrightarrow> \<not> as_escaped st \<Longrightarrow> \<not> as_inSingle st \<Longrightarrow> argStep p DQ r st = Go 0 (st\<lparr>as_inDouble := False\<rparr>)"
  by (simp_all add: argStep_def)

section \<open>Quoted arguments read back\<close>

lemma quoteArgChar_simps [simp]:
  "quoteArgChar SQ = [SQ, DQ, SQ, DQ, SQ]" "c \<noteq> SQ \<Longrightarrow> quoteArgChar c = [c]"
  by (simp_all add: quoteArgChar_def)

lemma scan_arg_single:
  "\<not> as_escaped st \<Longrightarrow> \<not> as_inDouble st \<Longrightarrow> as_inSingle st \<Longrightarrow>
   scan argStep p (concat (map quoteArgChar v) @ SQ # r) st =
   scan argStep (Some SQ) r (st\<lparr>as_buf := as_buf st @ v, as_inSingle := False\<rparr>)"
proof (induction v arbitrary: st p)
  case Nil
  then show ?case by (simp add: argStep_single)
next
  case (Cons c v)
  show ?case
  proof (cases "c = SQ")
    case True
    let ?r = "concat (map quoteArgChar v) @ SQ # r"
    have "scan argStep p (SQ # DQ # SQ # DQ # SQ # ?r) st =
        scan argStep (Some SQ) ?r (st\<lparr>as_buf := as_buf st @ [SQ]\<rparr>)"
      using Cons.prems by (cases st) (simp add: argStep_single argStep_open argStep_double argPlain_def)
    with True Cons show ?thesis by simp
  next
    case False
    with Cons show ?thesis by (simp add: argStep_single)
  qed
qed

lemma scan_arg_quoted:
  "argPlain st \<Longrightarrow>
   scan argStep p (shellEscapeSingleArg v @ r) st = scan argStep (Some SQ) r (st\<lparr>as_buf := as_buf st @ v\<rparr>)"
  by (cases st) (simp add: shellEscapeSingleArg_def argStep_open scan_arg_single argPlain_def)

lemma renderQuotedArgv_simps [simp]:
  "renderQuotedArgv [] = []" "renderQuotedArgv [v] = shellEscapeSingleArg v"
  "renderQuotedArgv (v # w # ws) = shellEscapeSingleArg v @ CHR '' '' # renderQuotedArgv (w # ws)"
  by (simp_all add: renderQuotedArgv_def)

lemma argPlain_keep [simp]:
  "argPlain (st\<lparr>as_buf := b\<rparr>) = argPlain st" "argPlain (pushToken st) = argPlain st"
  by (simp_all add: argPlain_def pushToken_def)

lemma scan_arg_vector:
  "argPlain st \<Longrightarrow> as_buf st = [] \<Longrightarrow>
   \<exists>st'. scan argStep p (renderQuotedArgv argv) st = Inr st' \<and> argPlain st' \<and>
     as_tokens (pushToken st') = as_tokens st @ filter (\<lambda>t. t \<noteq> []) argv"
proof (induction argv arbitrary: st p rule: induct_list012)
  case 1
  then show ?case by (simp add: pushToken_def)
next
  case (2 v)
  then show ?case using scan_arg_quoted [of st p v "[]"] by (simp add: pushToken_def)
next
  case (3 v w ws)
  let ?st = "pushToken (st\<lparr>as_buf := v\<rparr>)"
  have "scan argStep p (renderQuotedArgv (v # w # ws)) st = scan argStep (Some CHR '' '') (renderQuotedArgv (w # ws)) ?st"
    using "3.prems" by (simp add: scan_arg_quoted argStep_open)
  moreover have "as_tokens ?st = as_tokens st @ filter (\<lambda>t. t \<noteq> []) [v]" "as_buf ?st = []"
    using "3.prems" by (simp_all add: pushToken_def)
  moreover have "filter (\<lambda>t. t \<noteq> []) (v # w # ws) = filter (\<lambda>t. t \<noteq> []) [v] @ filter (\<lambda>t. t \<noteq> []) (w # ws)" by simp
  ultimately show ?case
    using "3.IH"(2) [of ?st "Some CHR '' ''"] "3.prems" by (simp only: argPlain_keep append_assoc)
qed

lemma splitShellArgs_quoted: "splitShellArgs (renderQuotedArgv argv) = Some (filter (\<lambda>t. t \<noteq> []) argv)"
  using scan_arg_vector [of initArgs None argv] by (auto simp: splitShellArgs_def initArgs_def argPlain_def)

section \<open>Quoted text in pipelines and chains\<close>

definition pipePlain :: "pipeState \<Rightarrow> bool" where
  "pipePlain st \<longleftrightarrow> \<not> ps_inBody st \<and> \<not> ps_escaped st \<and> \<not> ps_inSingle st \<and> \<not> ps_inDouble st"

definition chainPlain :: "chainState \<Rightarrow> bool" where
  "chainPlain st \<longleftrightarrow> \<not> cs_escaped st \<and> \<not> cs_inSingle st \<and> \<not> cs_inDouble st"

text \<open>Text that both scanners copy, from a plain state to a plain state.\<close>

definition inert :: "string \<Rightarrow> bool" where
  "inert t \<longleftrightarrow>
     (\<forall>p r st. pipePlain st \<longrightarrow> (\<exists>q. scan pipeStep p (t @ r) st = scan pipeStep q r (addPipe t st))) \<and>
     (\<forall>p r st. chainPlain st \<longrightarrow> (\<exists>q. scan chainStep p (t @ r) st = scan chainStep q r (addChain t st)))"

lemma inertD:
  assumes "inert t"
  obtains "\<And>p r st. pipePlain st \<Longrightarrow> \<exists>q. scan pipeStep p (t @ r) st = scan pipeStep q r (addPipe t st)"
    "\<And>p r st. chainPlain st \<Longrightarrow> \<exists>q. scan chainStep p (t @ r) st = scan chainStep q r (addChain t st)"
  using assms by (auto simp: inert_def)

lemma addPipe_simps [simp]:
  "pipePlain (addPipe t st) = pipePlain st" "addPipe u (addPipe t st) = addPipe (t @ u) st"
  "ps_segments (addPipe t st) = ps_segments st" "ps_buf (addPipe t st) = ps_buf st @ t"
  "ps_emptySegment (addPipe t st) = False" "ps_pending (addPipe t st) = ps_pending st"
  by (simp_all add: addPipe_def pipePlain_def)

lemma addChain_simps [simp]:
  "chainPlain (addChain t st) = chainPlain st" "addChain u (addChain t st) = addChain (t @ u) st"
  "cs_parts (addChain t st) = cs_parts st" "cs_buf (addChain t st) = cs_buf st @ t"
  "cs_foundChain (addChain t st) = cs_foundChain st" "cs_invalidChain (addChain t st) = cs_invalidChain st"
  by (simp_all add: addChain_def chainPlain_def)

lemma inert_append: "inert t \<Longrightarrow> inert u \<Longrightarrow> inert (t @ u)"
  unfolding inert_def by (metis addChain_simps(1,2) addPipe_simps(1,2) append.assoc)

lemma pipeStep_single:
  "ps_inSingle st \<Longrightarrow> \<not> ps_escaped st \<Longrightarrow> \<not> ps_inBody st \<Longrightarrow>
   pipeStep p c r st = Go 0 ((addPipe [c] st)\<lparr>ps_inSingle := (c \<noteq> SQ)\<rparr>)"
  by (simp add: pipeStep_def)

lemma pipeStep_plain:
  "pipePlain st \<Longrightarrow> pipeStep p SQ r st = Go 0 ((addPipe [SQ] st)\<lparr>ps_inSingle := True\<rparr>)"
  "pipePlain st \<Longrightarrow> pipeStep p DQ r st = Go 0 ((addPipe [DQ] st)\<lparr>ps_inDouble := True\<rparr>)"
  "pipePlain st \<Longrightarrow> pipeStep p CHR '' '' r st = Go 0 (addPipe '' '' st)"
  "pipePlain st \<Longrightarrow> pipeStep p CHR ''|'' (CHR '' '' # r) st = Go 0 (pushSegment (st\<lparr>ps_emptySegment := True\<rparr>))"
  by (simp_all add: pipeStep_def pipePlain_def isShellCommentStart_def DISALLOWED_PIPELINE_TOKENS_def peek_def)

lemma pipeStep_double:
  "ps_inDouble st \<Longrightarrow> \<not> ps_escaped st \<Longrightarrow> \<not> ps_inBody st \<Longrightarrow> \<not> ps_inSingle st \<Longrightarrow>
     pipeStep p SQ r st = Go 0 ((addPipe [SQ] st)\<lparr>ps_inDouble := True\<rparr>)"
  "ps_inDouble st \<Longrightarrow> \<not> ps_escaped st \<Longrightarrow> \<not> ps_inBody st \<Longrightarrow> \<not> ps_inSingle st \<Longrightarrow>
     pipeStep p DQ r st = Go 0 ((addPipe [DQ] st)\<lparr>ps_inDouble := False\<rparr>)"
  by (simp_all add: pipeStep_def)

lemma scan_pipe_single:
  "\<not> ps_inBody st \<Longrightarrow> \<not> ps_escaped st \<Longrightarrow> \<not> ps_inDouble st \<Longrightarrow> ps_inSingle st \<Longrightarrow>
   scan pipeStep p (concat (map quoteArgChar v) @ SQ # r) st =
   scan pipeStep (Some SQ) r ((addPipe (concat (map quoteArgChar v) @ [SQ]) st)\<lparr>ps_inSingle := False\<rparr>)"
proof (induction v arbitrary: st p)
  case Nil
  then show ?case by (simp add: pipeStep_single)
next
  case (Cons c v)
  show ?case
  proof (cases "c = SQ")
    case True
    let ?r = "concat (map quoteArgChar v) @ SQ # r"
    have "scan pipeStep p (SQ # DQ # SQ # DQ # SQ # ?r) st =
        scan pipeStep (Some SQ) ?r (addPipe [SQ, DQ, SQ, DQ, SQ] st)"
      using Cons.prems by (cases st) (simp add: pipeStep_single pipeStep_plain pipeStep_double pipePlain_def addPipe_def)
    with True Cons show ?thesis by (simp add: addPipe_def)
  next
    case False
    with Cons show ?thesis by (simp add: pipeStep_single addPipe_def)
  qed
qed

lemma chainStep_single:
  "cs_inSingle st \<Longrightarrow> \<not> cs_escaped st \<Longrightarrow>
   chainStep p c r st = Go 0 ((addChain [c] st)\<lparr>cs_inSingle := (c \<noteq> SQ)\<rparr>)"
  by (simp add: chainStep_def)

lemma chainStep_plain:
  "chainPlain st \<Longrightarrow> chainStep p SQ r st = Go 0 ((addChain [SQ] st)\<lparr>cs_inSingle := True\<rparr>)"
  "chainPlain st \<Longrightarrow> chainStep p DQ r st = Go 0 ((addChain [DQ] st)\<lparr>cs_inDouble := True\<rparr>)"
  "chainPlain st \<Longrightarrow> chainStep p CHR '' '' r st = Go 0 (addChain '' '' st)"
  "chainPlain st \<Longrightarrow> chainStep p CHR ''|'' (CHR '' '' # r) st = Go 0 (addChain ''|'' st)"
  by (simp_all add: chainStep_def chainPlain_def isShellCommentStart_def peek_def)

lemma chainStep_double:
  "cs_inDouble st \<Longrightarrow> \<not> cs_escaped st \<Longrightarrow> \<not> cs_inSingle st \<Longrightarrow>
     chainStep p SQ r st = Go 0 ((addChain [SQ] st)\<lparr>cs_inDouble := True\<rparr>)"
  "cs_inDouble st \<Longrightarrow> \<not> cs_escaped st \<Longrightarrow> \<not> cs_inSingle st \<Longrightarrow>
     chainStep p DQ r st = Go 0 ((addChain [DQ] st)\<lparr>cs_inDouble := False\<rparr>)"
  by (simp_all add: chainStep_def)

lemma scan_chain_single:
  "\<not> cs_escaped st \<Longrightarrow> \<not> cs_inDouble st \<Longrightarrow> cs_inSingle st \<Longrightarrow>
   scan chainStep p (concat (map quoteArgChar v) @ SQ # r) st =
   scan chainStep (Some SQ) r ((addChain (concat (map quoteArgChar v) @ [SQ]) st)\<lparr>cs_inSingle := False\<rparr>)"
proof (induction v arbitrary: st p)
  case Nil
  then show ?case by (simp add: chainStep_single)
next
  case (Cons c v)
  show ?case
  proof (cases "c = SQ")
    case True
    let ?r = "concat (map quoteArgChar v) @ SQ # r"
    have "scan chainStep p (SQ # DQ # SQ # DQ # SQ # ?r) st =
        scan chainStep (Some SQ) ?r (addChain [SQ, DQ, SQ, DQ, SQ] st)"
      using Cons.prems by (cases st) (simp add: chainStep_single chainStep_plain chainStep_double chainPlain_def addChain_def)
    with True Cons show ?thesis by (simp add: addChain_def)
  next
    case False
    with Cons show ?thesis by (simp add: chainStep_single addChain_def)
  qed
qed

lemma inert_quoted: "inert (shellEscapeSingleArg v)"
proof -
  have "scan pipeStep p (shellEscapeSingleArg v @ r) st = scan pipeStep (Some SQ) r (addPipe (shellEscapeSingleArg v) st)"
    if "pipePlain st" for p r st
    using that by (cases st) (simp add: shellEscapeSingleArg_def pipeStep_plain scan_pipe_single pipePlain_def addPipe_def)
  moreover have "scan chainStep p (shellEscapeSingleArg v @ r) st =
      scan chainStep (Some SQ) r (addChain (shellEscapeSingleArg v) st)" if "chainPlain st" for p r st
    using that by (cases st) (simp add: shellEscapeSingleArg_def chainStep_plain scan_chain_single chainPlain_def addChain_def)
  ultimately show ?thesis unfolding inert_def by blast
qed

lemma inert_space: "inert '' ''"
  unfolding inert_def by (auto simp: pipeStep_plain chainStep_plain)

lemma inert_vector: "argv \<noteq> [] \<Longrightarrow> inert (renderQuotedArgv argv)"
proof (induction argv rule: induct_list012)
  case (3 v w ws)
  then have "inert (shellEscapeSingleArg v @ '' '' @ renderQuotedArgv (w # ws))"
    by (intro inert_append inert_quoted inert_space) simp
  then show ?case by simp
qed (simp_all add: inert_quoted)

section \<open>Pipelines read back\<close>

definition solid :: "string \<Rightarrow> bool" where
  "solid t \<longleftrightarrow> t \<noteq> [] \<and> \<not> js_ws (hd t) \<and> \<not> js_ws (last t)"

lemma trim_pad:
  assumes "solid t" "list_all js_ws a" "list_all js_ws b"
  shows "js_trim (a @ t @ b) = t"
proof -
  have skip: "list_all js_ws x \<Longrightarrow> dropWhile js_ws (x @ y) = dropWhile js_ws y" for x y
    by (induction x) auto
  have l: "dropWhile js_ws (a @ t @ b) = t @ b"
    using assms by (cases t) (simp_all add: skip solid_def)
  have "dropWhile js_ws (rev b @ rev t) = rev t"
    using assms by (cases t rule: rev_cases) (simp_all add: skip solid_def)
  with l show ?thesis by (simp add: js_trim_def)
qed

lemma trim_solid: "solid t \<Longrightarrow> js_trim t = t" "solid t \<Longrightarrow> js_trim (t @ '' '') = t"
    "solid t \<Longrightarrow> js_trim (CHR '' '' # t) = t" "solid t \<Longrightarrow> js_trim (CHR '' '' # t @ '' '') = t"
  using trim_pad [of t "[]" "[]"] trim_pad [of t "[]" "'' ''"] trim_pad [of t "'' ''" "[]"] trim_pad [of t "'' ''" "'' ''"]
  by (simp_all add: js_ws_def)

lemma solid_quoted: "solid (shellEscapeSingleArg v)"
  by (simp add: solid_def shellEscapeSingleArg_def js_ws_def)

lemma solid_join: "solid a \<Longrightarrow> solid b \<Longrightarrow> solid (a @ c @ b)"
  by (auto simp: solid_def)

lemma solid_vector: "argv \<noteq> [] \<Longrightarrow> solid (renderQuotedArgv argv)"
proof (induction argv rule: induct_list012)
  case (3 v w ws)
  then have "solid (shellEscapeSingleArg v @ '' '' @ renderQuotedArgv (w # ws))"
    by (intro solid_join solid_quoted) simp
  then show ?case by simp
qed (simp_all add: solid_quoted)

definition pipeText :: "string list \<Rightarrow> string" where
  "pipeText ts = js_join '' | '' ts"

lemma pipeText_simps [simp]:
  "pipeText [t] = t" "pipeText (t # u # us) = t @ '' | '' @ pipeText (u # us)"
  by (simp_all add: pipeText_def)

lemma solid_pipeText: "ts \<noteq> [] \<Longrightarrow> list_all solid ts \<Longrightarrow> solid (pipeText ts)"
proof (induction ts rule: induct_list012)
  case (3 t u us)
  then show ?case using solid_join [of t "pipeText (u # us)" "'' | ''"] by simp
qed simp_all

lemma scan_pipe_inert:
  assumes "inert t" "pipePlain st"
  obtains q where "scan pipeStep p (t @ r) st = scan pipeStep q r (addPipe t st)"
  using assms unfolding inert_def by blast

lemma scan_bar:
  assumes "pipePlain st"
  shows "scan pipeStep p ('' | '' @ r) st =
    scan pipeStep (Some CHR '' '') r (addPipe '' '' (pushSegment ((addPipe '' '' st)\<lparr>ps_emptySegment := True\<rparr>)))"
proof -
  have "pipePlain ((addPipe '' '' st)\<lparr>ps_emptySegment := True\<rparr>)" "pipePlain (pushSegment ((addPipe '' '' st)\<lparr>ps_emptySegment := True\<rparr>))"
    using assms by (simp_all add: pipePlain_def addPipe_def pushSegment_def Let_def)
  with assms show ?thesis by (simp add: pipeStep_plain)
qed

lemma scan_pipeText:
  assumes "ts \<noteq> []" "list_all inert ts" "list_all solid ts" "pipePlain st" "ps_buf st \<in> {[], '' ''}" "ps_pending st = []"
  shows "\<exists>st'. scan pipeStep p (pipeText ts) st = Inr st' \<and> pipePlain st' \<and> ps_pending st' = [] \<and>
    \<not> ps_emptySegment st' \<and> ps_segments (pushSegment st') = ps_segments st @ ts"
  using assms
proof (induction ts arbitrary: st p rule: induct_list012)
  case (2 t)
  obtain q where "scan pipeStep p (t @ []) st = scan pipeStep q [] (addPipe t st)"
    using scan_pipe_inert [of t st p "[]"] 2 by auto
  moreover have "js_trim (ps_buf st @ t) = t" "t \<noteq> []" using 2 by (auto simp: trim_solid solid_def)
  ultimately show ?case using 2 by (auto simp: pushSegment_def Let_def)
next
  case (3 t u us)
  obtain q where q: "scan pipeStep p (t @ '' | '' @ pipeText (u # us)) st = scan pipeStep q ('' | '' @ pipeText (u # us)) (addPipe t st)"
    using scan_pipe_inert [of t st p "'' | '' @ pipeText (u # us)"] 3 by auto
  let ?st = "addPipe '' '' (pushSegment ((addPipe '' '' (addPipe t st))\<lparr>ps_emptySegment := True\<rparr>))"
  have tr: "js_trim (ps_buf st @ t @ '' '') = t" "t \<noteq> []" using 3 by (auto simp: trim_solid solid_def)
  have st: "pipePlain ?st" "ps_buf ?st = '' ''" "ps_pending ?st = []" "ps_segments ?st = ps_segments st @ [t]"
    using 3 tr by (simp_all add: pipePlain_def addPipe_def pushSegment_def Let_def)
  have "scan pipeStep p (pipeText (t # u # us)) st = scan pipeStep (Some CHR '' '') (pipeText (u # us)) ?st"
    using q scan_bar [of "addPipe t st" q "pipeText (u # us)"] 3 by simp
  with "3.IH"(2) [of ?st "Some CHR '' ''"] "3.prems" st show ?case by simp
qed simp

lemma split_pipeText:
  assumes "ts \<noteq> []" "list_all inert ts" "list_all solid ts"
  shows "splitShellPipeline (pipeText ts) = Inr ts"
proof -
  obtain st' where "scan pipeStep None (pipeText ts) initPipe = Inr st'" "pipePlain st'" "ps_pending st' = []"
    "\<not> ps_emptySegment st'" "ps_segments (pushSegment st') = ts"
    using scan_pipeText [OF assms, of initPipe None] by (auto simp: initPipe_def pipePlain_def)
  then show ?thesis
    using assms(1) by (simp add: splitShellPipeline_def closeHeredoc_def pipePlain_def Let_def) (simp add: pushSegment_def Let_def)
qed

section \<open>Chains read back\<close>

text \<open>The text of a chain: parts with the operator to the next one.\<close>

fun chainText :: "(string \<times> chainOp option) list \<Rightarrow> string" where
  "chainText [] = []"
| "chainText ((t, None) # ps) = t @ chainText ps"
| "chainText ((t, Some op) # ps) = t @ '' '' @ opText op @ '' '' @ chainText ps"

definition chainOk :: "(string \<times> chainOp option) list \<Rightarrow> bool" where
  "chainOk ps \<longleftrightarrow> ps \<noteq> [] \<and> snd (last ps) = None \<and> list_all (\<lambda>p. snd p \<noteq> None) (butlast ps) \<and> list_all (\<lambda>p. solid (fst p)) ps"

definition inertC :: "string \<Rightarrow> bool" where
  "inertC t \<longleftrightarrow> (\<forall>p r st. chainPlain st \<longrightarrow> (\<exists>q. scan chainStep p (t @ r) st = scan chainStep q r (addChain t st)))"

lemma inertC_append: "inertC t \<Longrightarrow> inertC u \<Longrightarrow> inertC (t @ u)"
  unfolding inertC_def by (metis addChain_simps(1,2) append.assoc)

lemma inertC_bar: "inertC '' | ''"
  unfolding inertC_def by (auto simp: chainStep_plain)

lemma inertC_pipeText: "ts \<noteq> [] \<Longrightarrow> list_all inert ts \<Longrightarrow> inertC (pipeText ts)"
proof (induction ts rule: induct_list012)
  case (3 t u us)
  then have "inertC (t @ '' | '' @ pipeText (u # us))"
    by (intro inertC_append inertC_bar) (auto simp: inertC_def inert_def)
  then show ?case by simp
qed (auto simp: inertC_def inert_def)

lemma scan_op:
  assumes "chainPlain st"
  shows "scan chainStep p ('' '' @ opText op @ '' '' @ r) st =
    scan chainStep (Some CHR '' '') r (addChain '' '' (pushPart op (addChain '' '' st)))"
proof -
  have pl: "chainPlain (pushPart op (addChain '' '' st))" "chainPlain (addChain '' '' st)"
    using assms by (simp_all add: chainPlain_def addChain_def pushPart_def Let_def)
  have "chainStep q CHR ''&'' (CHR ''&'' # r') (addChain '' '' st) = Go 1 (pushPart OpAnd (addChain '' '' st))"
    "chainStep q CHR ''|'' (CHR ''|'' # r') (addChain '' '' st) = Go 1 (pushPart OpOr (addChain '' '' st))"
    "chainStep q CHR '';'' r' (addChain '' '' st) = Go 0 (pushPart OpSeq (addChain '' '' st))" for q r'
    using assms by (simp_all add: chainStep_def chainPlain_def addChain_def isShellCommentStart_def peek_def)
  then show ?thesis
    using assms pl by (cases op) (simp_all add: opText_def chainStep_plain)
qed

lemma scan_chain_inert:
  assumes "inertC t" "chainPlain st"
  obtains q where "scan chainStep p (t @ r) st = scan chainStep q r (addChain t st)"
  using assms unfolding inertC_def by blast

lemma scan_chainText:
  assumes "chainOk ps" "list_all (\<lambda>p. inertC (fst p)) ps" "chainPlain st" "cs_buf st \<in> {[], '' ''}"
    "\<not> cs_invalidChain st"
  shows "\<exists>st'. scan chainStep p (chainText ps) st = Inr st' \<and> \<not> cs_invalidChain st' \<and>
    cs_foundChain st' = (cs_foundChain st \<or> 1 < length ps) \<and> js_trim (cs_buf st') = fst (last ps) \<and>
    cs_parts st' = cs_parts st @ map (\<lambda>(t, op). \<lparr>cp_part = t, cp_opToNext = op\<rparr>) (butlast ps)"
  using assms
proof (induction ps arbitrary: st p rule: chainText.induct)
  case 1
  then show ?case by (simp add: chainOk_def)
next
  case (2 t ps)
  then have ps: "ps = []" "solid t" "inertC t" by (cases ps; auto simp: chainOk_def)+
  obtain q where "scan chainStep p (t @ []) st = scan chainStep q [] (addChain t st)"
    using scan_chain_inert [OF ps(3) "2.prems"(3)] by blast
  moreover have "js_trim (cs_buf st @ t) = t" using "2.prems"(4) ps(2) by (auto simp: trim_solid)
  ultimately show ?case using "2.prems"(5) by (simp add: ps)
next
  case (3 t op ps)
  then have ps: "ps \<noteq> []" "chainOk ps" "solid t" "inertC t" by (auto simp: chainOk_def split: if_splits)
  obtain q where q: "scan chainStep p (t @ '' '' @ opText op @ '' '' @ chainText ps) st =
      scan chainStep q ('' '' @ opText op @ '' '' @ chainText ps) (addChain t st)"
    using scan_chain_inert [OF ps(4) "3.prems"(3)] by blast
  let ?st = "addChain '' '' (pushPart op (addChain '' '' (addChain t st)))"
  have sc: "scan chainStep p (chainText ((t, Some op) # ps)) st = scan chainStep (Some CHR '' '') (chainText ps) ?st"
    using q scan_op [of "addChain t st" q op "chainText ps"] "3.prems"(3) by simp
  have tr: "js_trim (cs_buf st @ t @ '' '') = t" "t \<noteq> []" using "3.prems"(4) ps(3) by (auto simp: trim_solid solid_def)
  have st: "chainPlain ?st" "cs_buf ?st \<in> {[], '' ''}" "\<not> cs_invalidChain ?st" "cs_foundChain ?st"
    "cs_parts ?st = cs_parts st @ [\<lparr>cp_part = t, cp_opToNext = Some op\<rparr>]"
    using "3.prems"(3,5) tr by (simp_all add: chainPlain_def addChain_def pushPart_def Let_def)
  have "list_all (\<lambda>p. inertC (fst p)) ps" using "3.prems"(2) by simp
  from "3.IH" [OF ps(2) this st(1-3), of "Some CHR '' ''"] show ?case
    unfolding sc using ps(1) st(4,5) by auto
qed

lemma split_chainText:
  assumes "chainOk ps" "list_all (\<lambda>p. inertC (fst p)) ps"
  shows "splitCommandChainWithOperators (chainText ps) =
    (if length ps = 1 then None else Some (map (\<lambda>(t, op). \<lparr>cp_part = t, cp_opToNext = op\<rparr>) ps))"
proof -
  have ne: "ps \<noteq> []" "solid (fst (last ps))" "snd (last ps) = None" using assms(1) by (auto simp: chainOk_def list_all_iff)
  obtain st' where st': "scan chainStep None (chainText ps) initChain = Inr st'" "\<not> cs_invalidChain st'"
    "cs_foundChain st' = (1 < length ps)" "js_trim (cs_buf st') = fst (last ps)"
    "cs_parts st' = map (\<lambda>(t, op). \<lparr>cp_part = t, cp_opToNext = op\<rparr>) (butlast ps)"
    using scan_chainText [OF assms, of initChain None] by (auto simp: initChain_def chainPlain_def)
  have "map (\<lambda>(t, op). \<lparr>cp_part = t, cp_opToNext = op\<rparr>) ps =
      map (\<lambda>(t, op). \<lparr>cp_part = t, cp_opToNext = op\<rparr>) (butlast ps) @ [\<lparr>cp_part = fst (last ps), cp_opToNext = None\<rparr>]"
    using ne by (cases ps rule: rev_cases) (auto simp: split_beta)
  then show ?thesis
    using st' ne by (cases ps) (auto simp: splitCommandChainWithOperators_def Let_def solid_def)
qed

section \<open>Whole commands read back\<close>

text \<open>A command as structure: for each part of the chain the argument vectors of its pipeline.\<close>

type_synonym program = "(string list list \<times> chainOp option) list"

definition partText :: "string list list \<Rightarrow> string" where
  "partText argvs = pipeText (map renderQuotedArgv argvs)"

definition programText :: "program \<Rightarrow> string" where
  "programText qs = chainText (map (\<lambda>(argvs, op). (partText argvs, op)) qs)"

definition vectorOk :: "string list \<Rightarrow> bool" where
  "vectorOk argv \<longleftrightarrow> argv \<noteq> [] \<and> [] \<notin> set argv"

definition programOk :: "program \<Rightarrow> bool" where
  "programOk qs \<longleftrightarrow> qs \<noteq> [] \<and> snd (last qs) = None \<and> list_all (\<lambda>q. snd q \<noteq> None) (butlast qs) \<and>
     list_all (\<lambda>q. fst q \<noteq> [] \<and> list_all vectorOk (fst q)) qs"

lemma vectors_inert: "list_all vectorOk argvs \<Longrightarrow> list_all inert (map renderQuotedArgv argvs)"
    "list_all vectorOk argvs \<Longrightarrow> list_all solid (map renderQuotedArgv argvs)"
  by (auto simp: list_all_iff vectorOk_def inert_vector solid_vector)

lemma split_partText:
  "argvs \<noteq> [] \<Longrightarrow> list_all vectorOk argvs \<Longrightarrow> splitShellPipeline (partText argvs) = Inr (map renderQuotedArgv argvs)"
  unfolding partText_def by (rule split_pipeText) (simp_all add: vectors_inert)

lemma parse_vectors:
  "list_all vectorOk argvs \<Longrightarrow> parseSegmentsFromParts h opts (map renderQuotedArgv argvs) =
     Some (map (\<lambda>argv. segmentOf h opts (renderQuotedArgv argv) argv) argvs)"
proof (induction argvs)
  case (Cons argv argvs)
  then have "filter (\<lambda>t. t \<noteq> []) argv = argv" "argv \<noteq> []" by (auto simp: vectorOk_def filter_id_conv)
  with Cons show ?case by (simp add: splitShellArgs_quoted)
qed simp

lemma analyze_partText:
  "argvs \<noteq> [] \<Longrightarrow> list_all vectorOk argvs \<Longrightarrow> analyzePipeline h opts (partText argvs) =
     Inr (map (\<lambda>argv. segmentOf h opts (renderQuotedArgv argv) argv) argvs)"
  by (simp add: analyzePipeline_def split_partText parse_vectors)

lemma analyze_parts:
  "list_all (\<lambda>argvs. argvs \<noteq> [] \<and> list_all vectorOk argvs) as \<Longrightarrow>
   analyzeChains h opts (map partText as) = Inr (map (map (\<lambda>argv. segmentOf h opts (renderQuotedArgv argv) argv)) as)"
  by (induction as) (simp_all add: analyze_partText)

lemma chainOk_program:
  assumes "programOk qs"
  shows "chainOk (map (\<lambda>(argvs, op). (partText argvs, op)) qs)"
    "list_all (\<lambda>p. inertC (fst p)) (map (\<lambda>(argvs, op). (partText argvs, op)) qs)"
proof -
  have "solid (partText (fst q)) \<and> inertC (partText (fst q))" if "q \<in> set qs" for q
    using that assms by (auto simp: programOk_def list_all_iff partText_def vectors_inert [unfolded list_all_iff]
        intro!: solid_pipeText [unfolded list_all_iff] inertC_pipeText [unfolded list_all_iff])
  then show "chainOk (map (\<lambda>(argvs, op). (partText argvs, op)) qs)"
    "list_all (\<lambda>p. inertC (fst p)) (map (\<lambda>(argvs, op). (partText argvs, op)) qs)"
    using assms by (auto simp: chainOk_def programOk_def list_all_iff last_map split_beta map_butlast [symmetric])
qed

lemma segmentOf_argv [simp]: "sg_argv (segmentOf h opts raw argv) = argv"
  by (simp add: segmentOf_def)

lemma analyze_programText:
  assumes ok: "programOk qs" and w: "\<not> isWindowsPlatform platform"
  shows "\<exists>a. analyzeShellCommand h opts platform (programText qs) = Inr a \<and>
    map sg_argv (an_segments a) = concat (map fst qs) \<and>
    an_chains a = (if length qs = 1 then None else Some (map (map (\<lambda>argv. segmentOf h opts (renderQuotedArgv argv) argv)) (map fst qs)))"
proof -
  note split = split_chainText [OF chainOk_program [OF ok], folded programText_def]
  have vs: "list_all (\<lambda>argvs. argvs \<noteq> [] \<and> list_all vectorOk argvs) (map fst qs)"
    using ok by (auto simp: programOk_def list_all_iff)
  show ?thesis
  proof (cases "length qs = 1")
    case True
    then obtain argvs op where qs: "qs = [(argvs, op)]" by (cases qs) auto
    with ok have "op = None" by (simp add: programOk_def)
    with qs have "programText qs = partText argvs" by (simp add: programText_def)
    moreover have "argvs \<noteq> []" "list_all vectorOk argvs" using vs qs by simp_all
    moreover have "splitCommandChain (programText qs) = None" using split True by (simp add: splitCommandChain_def)
    ultimately show ?thesis using w qs by (simp add: analyzeShellCommand_def analyze_partText comp_def)
  next
    case False
    have "splitCommandChain (programText qs) = Some (map partText (map fst qs))"
      using split False by (simp add: splitCommandChain_def comp_def split_beta)
    then have "analyzeShellCommand h opts platform (programText qs) =
        Inr \<lparr>an_segments = concat (map (map (\<lambda>argv. segmentOf h opts (renderQuotedArgv argv) argv)) (map fst qs)),
             an_chains = Some (map (map (\<lambda>argv. segmentOf h opts (renderQuotedArgv argv) argv)) (map fst qs))\<rparr>"
      using w by (simp add: analyzeShellCommand_def analyze_parts [OF vs] del: map_map)
    moreover have "map sg_argv (concat (map (map (\<lambda>argv. segmentOf h opts (renderQuotedArgv argv) argv)) (map fst qs))) =
        concat (map fst qs)"
      by (simp add: map_concat comp_def)
    ultimately show ?thesis using False by simp
  qed
qed

section \<open>What the rebuilt command is\<close>

definition enforcedRender :: "execSegment list \<Rightarrow> renderFn" where
  "enforcedRender segments raw i =
     (if length segments \<le> i then Inl ''segment mapping failed''
      else (case resolvePlannedSegmentArgv (segments ! i) of
              None \<Rightarrow> Inl ''segment execution plan unavailable''
            | Some argv \<Rightarrow> Inr (renderQuotedArgv argv)))"

lemma enforced_render: "buildEnforcedShellCommand platform command segments =
    finalizeRebuiltShellCommand (rebuildShellCommandFromSource (enforcedRender segments) platform command) (Some (length segments))"
  by (simp add: buildEnforcedShellCommand_def enforcedRender_def [abs_def])

text \<open>The vectors planned for the segments from \<open>n\<close> on.\<close>

definition plannedFrom :: "execSegment list \<Rightarrow> nat \<Rightarrow> string list list \<Rightarrow> bool" where
  "plannedFrom segments n argvs \<longleftrightarrow>
     n + length argvs \<le> length segments \<and>
     map resolvePlannedSegmentArgv (take (length argvs) (drop n segments)) = map Some argvs"

lemma plannedFrom_append:
  "plannedFrom segments n as \<Longrightarrow> plannedFrom segments (n + length as) bs \<Longrightarrow> plannedFrom segments n (as @ bs)"
  by (auto simp: plannedFrom_def take_add add.assoc add.commute [of n])

lemma plannedFrom_Nil: "n \<le> length segments \<Longrightarrow> plannedFrom segments n []"
  by (simp add: plannedFrom_def)

lemma enforcedRender_Inr: "enforcedRender segments raw n = Inr r \<longleftrightarrow>
    n < length segments \<and> (\<exists>argv. resolvePlannedSegmentArgv (segments ! n) = Some argv \<and> r = renderQuotedArgv argv)"
  by (auto simp: enforcedRender_def split: option.splits)

lemma renderSegments_enforced:
  "renderSegments (enforcedRender segments) n raws = Inr rs \<Longrightarrow> n \<le> length segments \<Longrightarrow>
   \<exists>argvs. rs = map renderQuotedArgv argvs \<and> length argvs = length raws \<and> plannedFrom segments n argvs"
proof (induction raws arbitrary: n rs)
  case Nil
  then show ?case by (simp add: plannedFrom_Nil)
next
  case (Cons raw raws)
  then obtain argv rs' where n: "n < length segments" "resolvePlannedSegmentArgv (segments ! n) = Some argv"
    and rs: "rs = renderQuotedArgv argv # rs'" "renderSegments (enforcedRender segments) (Suc n) raws = Inr rs'"
    by (auto simp: enforcedRender_Inr split: sum.splits)
  obtain argvs where argvs: "rs' = map renderQuotedArgv argvs" "length argvs = length raws" "plannedFrom segments (Suc n) argvs"
    using Cons.IH [OF rs(2)] n by auto
  have "plannedFrom segments n [argv]"
    using n by (simp add: plannedFrom_def take_Suc_conv_app_nth)
  then have "plannedFrom segments n ([argv] @ argvs)" using argvs(3) by (intro plannedFrom_append) simp_all
  then show ?case using argvs rs(1) by (intro exI [of _ "argv # argvs"]) simp
qed

lemma splitShellPipeline_not_Nil: "splitShellPipeline command = Inr segments \<Longrightarrow> segments \<noteq> []"
  by (auto simp: splitShellPipeline_def Let_def split: sum.splits if_splits)

lemma programText_Cons:
  "programText ((argvs, op) # qs) = partText argvs @ (case op of None \<Rightarrow> [] | Some op' \<Rightarrow> '' '' @ opText op' @ '' '') @ programText qs"
  by (cases op) (simp_all add: programText_def)

definition pipelineOf :: "string \<Rightarrow> string list" where
  "pipelineOf part = (case splitShellPipeline part of Inl _ \<Rightarrow> [] | Inr segments \<Rightarrow> segments)"

lemma rebuildParts_enforced:
  "rebuildParts (enforcedRender segments) n out parts = Inr (out', m) \<Longrightarrow> n \<le> length segments \<Longrightarrow>
   \<exists>qs. out' = out @ programText qs \<and> map snd qs = map cp_opToNext parts \<and> list_all (\<lambda>q. fst q \<noteq> []) qs \<and>
     plannedFrom segments n (concat (map fst qs)) \<and> m = n + length (concat (map fst qs)) \<and>
     map (\<lambda>q. length (fst q)) qs = map (\<lambda>p. length (pipelineOf (cp_part p))) parts"
proof (induction parts arbitrary: n out)
  case Nil
  then show ?case by (auto simp: programText_def plannedFrom_Nil)
next
  case (Cons part parts)
  then obtain raws rs where raws: "splitShellPipeline (cp_part part) = Inr raws"
    "renderSegments (enforcedRender segments) n raws = Inr rs"
    and rest: "rebuildParts (enforcedRender segments) (n + length raws)
      (out @ js_join '' | '' rs @ (case cp_opToNext part of None \<Rightarrow> [] | Some op \<Rightarrow> '' '' @ opText op @ '' '')) parts = Inr (out', m)"
    by (auto split: sum.splits)
  obtain argvs where argvs: "rs = map renderQuotedArgv argvs" "length argvs = length raws" "plannedFrom segments n argvs"
    using renderSegments_enforced [OF raws(2) Cons.prems(2)] by blast
  then have le: "n + length raws \<le> length segments" by (simp add: plannedFrom_def)
  obtain qs where qs: "out' = (out @ js_join '' | '' rs @ (case cp_opToNext part of None \<Rightarrow> [] | Some op \<Rightarrow> '' '' @ opText op @ '' '')) @ programText qs"
    "map snd qs = map cp_opToNext parts" "list_all (\<lambda>q. fst q \<noteq> []) qs"
    "plannedFrom segments (n + length raws) (concat (map fst qs))" "m = n + length raws + length (concat (map fst qs))"
    "map (\<lambda>q. length (fst q)) qs = map (\<lambda>p. length (pipelineOf (cp_part p))) parts"
    using Cons.IH [OF rest le] by blast
  have "argvs \<noteq> []" using splitShellPipeline_not_Nil [OF raws(1)] argvs(2) by auto
  moreover have "plannedFrom segments n (argvs @ concat (map fst qs))"
    using argvs qs(4) by (intro plannedFrom_append) simp_all
  moreover have "length argvs = length (pipelineOf (cp_part part))" using argvs(2) raws(1) by (simp add: pipelineOf_def)
  ultimately show ?case
    using qs argvs by (intro exI [of _ "(argvs, cp_opToNext part) # qs"])
      (simp add: programText_Cons partText_def pipeText_def)
qed

text \<open>Only the last part of a chain has no operator after it.\<close>

lemma chainStep_keeps: "keeps chainStep (\<lambda>st. list_all (\<lambda>p. cp_opToNext p \<noteq> None) (cs_parts st))"
  by (simp add: keeps_def chainStep_def pushPart_def addChain_def Let_def)

lemma chain_ops:
  assumes "splitCommandChainWithOperators command = Some ps"
  shows "ps \<noteq> [] \<and> cp_opToNext (last ps) = None \<and> list_all (\<lambda>p. cp_opToNext p \<noteq> None) (butlast ps)"
proof -
  obtain st where st: "scan chainStep None command initChain = Inr st"
    "ps = cs_parts st @ [\<lparr>cp_part = js_trim (cs_buf st), cp_opToNext = None\<rparr>]"
    using assms by (auto simp: splitCommandChainWithOperators_def Let_def split: sum.splits if_splits)
  have "list_all (\<lambda>p. cp_opToNext p \<noteq> None) (cs_parts st)"
    using scan_keeps [OF st(1) chainStep_keeps] by (simp add: initChain_def)
  with st(2) show ?thesis by simp
qed

section \<open>Planned vectors have no empty arguments\<close>

lemma argStep_keeps: "keeps argStep (\<lambda>st. [] \<notin> set (as_tokens st))"
  by (auto simp: keeps_def argStep_def pushToken_def)

lemma splitShellArgs_nonempty: "splitShellArgs raw = Some argv \<Longrightarrow> [] \<notin> set argv"
  using scan_keeps [OF _ argStep_keeps, of None raw initArgs]
  by (auto simp: splitShellArgs_def initArgs_def pushToken_def split: sum.splits if_splits)

lemma plan_suffix: "suffix (dpl_argv (resolveDispatchWrapperExecutionPlan argv n)) argv"
  using planLoop_result [where n = n and current = argv and ws = "[]"]
  by (auto simp: resolveDispatchWrapperExecutionPlan_def blockedDispatchWrapperPlan_def Let_def
      split: sum.splits unwrapResult.splits)

lemma planned_vectorOk:
  assumes "vectorOk argv" "resolvePlannedSegmentArgv (segmentOf h opts raw argv) = Some planned"
  shows "vectorOk planned"
proof -
  define e where "e = (case Option.bind (resolveCommandResolutionFromArgv h opts argv) cr_effectiveArgv of None \<Rightarrow> [] | Some a \<Rightarrow> a)"
  have "set e \<subseteq> set argv"
    using plan_suffix [of argv MAX_DISPATCH_WRAPPER_DEPTH] set_mono_suffix
    by (auto simp: e_def resolveCommandResolutionFromArgv_def buildCommandResolution_def Let_def split: option.splits if_splits)
  then have "vectorOk (if e \<noteq> [] then e else argv)" using assms(1) by (auto simp: vectorOk_def)
  then show ?thesis
    using assms(2) by (auto simp: resolvePlannedSegmentArgv_def segmentOf_def Let_def e_def [symmetric] vectorOk_def
        dest: list.set_sel(2) split: if_splits)
qed

lemma parse_segments:
  "parseSegmentsFromParts h opts parts = Some segments \<Longrightarrow>
   list_all (\<lambda>g. \<exists>raw argv. g = segmentOf h opts raw argv \<and> vectorOk argv) segments"
proof (induction parts arbitrary: segments)
  case (Cons raw parts)
  then show ?case using splitShellArgs_nonempty
    by (fastforce simp: vectorOk_def split: option.splits if_splits)
qed simp

lemma analyze_segments:
  assumes "analyzeShellCommand h opts platform command = Inr a" "\<not> isWindowsPlatform platform"
  shows "list_all (\<lambda>g. \<exists>raw argv. g = segmentOf h opts raw argv \<and> vectorOk argv) (an_segments a)"
proof -
  have pipe: "list_all (\<lambda>g. \<exists>raw argv. g = segmentOf h opts raw argv \<and> vectorOk argv) gs"
    if "analyzePipeline h opts part = Inr gs" for part gs
    using that parse_segments by (auto simp: analyzePipeline_def split: sum.splits option.splits)
  have "list_all (list_all (\<lambda>g. \<exists>raw argv. g = segmentOf h opts raw argv \<and> vectorOk argv)) gss"
    if "analyzeChains h opts parts = Inr gss" for parts gss
    using that by (induction parts arbitrary: gss) (auto split: sum.splits intro: pipe)
  with assms pipe show ?thesis
    by (force simp: analyzeShellCommand_def list_all_iff split: option.splits sum.splits)
qed

section \<open>Properties\<close>

text \<open>The parts of a command between its operators, and the pipelines of an analysis.\<close>

definition commandChain :: "string \<Rightarrow> chainPart list" where
  "commandChain source = (case splitCommandChainWithOperators source of
     Some ps \<Rightarrow> ps | None \<Rightarrow> [\<lparr>cp_part = source, cp_opToNext = None\<rparr>])"

definition chainGroups :: "execAnalysis \<Rightarrow> execSegment list list" where
  "chainGroups a = (case an_chains a of Some groups \<Rightarrow> groups | None \<Rightarrow> [an_segments a])"

lemma program_groups:
  assumes ok: "programOk qs" and w: "\<not> isWindowsPlatform platform" and b: "analyzeShellCommand h opts platform (programText qs) = Inr b"
  shows "concat (chainGroups b) = an_segments b \<and> map length (chainGroups b) = map (\<lambda>q. length (fst q)) qs"
proof -
  from b w have "concat (chainGroups b) = an_segments b"
    by (auto simp: analyzeShellCommand_def chainGroups_def split: option.splits sum.splits)
  moreover have "map length (chainGroups b) = map (\<lambda>q. length (fst q)) qs"
  proof (cases "length qs = 1")
    case True
    then obtain q where q: "qs = [q]" by (cases qs) auto
    then have "length (map sg_argv (an_segments b)) = length (fst q)" "an_chains b = None"
      using analyze_programText [OF ok w, of h opts] b by auto
    then show ?thesis by (simp add: chainGroups_def q)
  next
    case False
    with analyze_programText [OF ok w, of h opts] b show ?thesis by (auto simp: chainGroups_def)
  qed
  ultimately show ?thesis ..
qed

lemma program_ops:
  assumes ok: "programOk qs"
  shows "map cp_opToNext (commandChain (programText qs)) = map snd qs"
proof -
  note split = split_chainText [OF chainOk_program [OF ok], folded programText_def]
  show ?thesis
  proof (cases "length qs = 1")
    case True
    then obtain q where "qs = [q]" by (cases qs) auto
    with ok split show ?thesis by (cases q) (auto simp: commandChain_def programOk_def)
  next
    case False
    with split show ?thesis by (simp add: commandChain_def comp_def split_beta)
  qed
qed

text \<open>C5: the command that is executed in allowlist mode, rebuilt with literal arguments, is analysed
  again into exactly the argument vectors that were planned for the segments that were checked: no
  argument is split, merged, expanded or lost, whatever characters it holds. The operators between its
  parts are those of the command, without the blanks around it, and each part is a pipeline of as many
  commands as the part of the command that it stands for.\<close>

theorem enforced_command_reparses:
  assumes "analyzeShellCommand h opts platform command = Inr a"
    and "buildEnforcedShellCommand platform command (an_segments a) = Inr enforced"
  shows "\<exists>b. analyzeShellCommand h opts platform enforced = Inr b \<and>
    map (\<lambda>g. Some (sg_argv g)) (an_segments b) = map resolvePlannedSegmentArgv (an_segments a) \<and>
    map cp_opToNext (commandChain enforced) = map cp_opToNext (commandChain (js_trim command)) \<and>
    concat (chainGroups b) = an_segments b \<and>
    map length (chainGroups b) = map (\<lambda>p. length (pipelineOf (cp_part p))) (commandChain (js_trim command))"
proof -
  define ps where "ps = commandChain (js_trim command)"
  obtain n where w: "\<not> isWindowsPlatform platform"
    and r: "rebuildParts (enforcedRender (an_segments a)) 0 [] ps = Inr (enforced, n)" and n: "n = length (an_segments a)"
    using assms(2) by (auto simp: enforced_render finalizeRebuiltShellCommand_def rebuildShellCommandFromSource_def
        Let_def ps_def commandChain_def split: sum.splits if_splits prod.splits)
  obtain qs where qs: "enforced = programText qs" "map snd qs = map cp_opToNext ps" "list_all (\<lambda>q. fst q \<noteq> []) qs"
    "plannedFrom (an_segments a) 0 (concat (map fst qs))" "n = length (concat (map fst qs))"
    "map (\<lambda>q. length (fst q)) qs = map (\<lambda>p. length (pipelineOf (cp_part p))) ps"
    using rebuildParts_enforced [OF r] by auto
  have planned: "map resolvePlannedSegmentArgv (an_segments a) = map Some (concat (map fst qs))"
    using qs(4,5) n by (simp add: plannedFrom_def)
  have vs: "list_all vectorOk (concat (map fst qs))"
  proof (unfold list_all_iff, rule ballI)
    fix v assume "v \<in> set (concat (map fst qs))"
    then have "Some v \<in> set (map resolvePlannedSegmentArgv (an_segments a))" using planned by simp
    then obtain g where "g \<in> set (an_segments a)" "resolvePlannedSegmentArgv g = Some v" by auto
    with analyze_segments [OF assms(1) w] planned_vectorOk show "vectorOk v" by (auto simp: list_all_iff)
  qed
  have ops: "ps \<noteq> [] \<and> cp_opToNext (last ps) = None \<and> list_all (\<lambda>p. cp_opToNext p \<noteq> None) (butlast ps)"
    using chain_ops by (auto simp: ps_def commandChain_def split: option.split)
  have "map snd (butlast qs) = map cp_opToNext (butlast ps)" using qs(2) by (metis map_butlast)
  moreover have "list_all (\<lambda>op. op \<noteq> None) (map cp_opToNext (butlast ps))" using ops by (simp add: list_all_iff)
  ultimately have "list_all (\<lambda>op. op \<noteq> None) (map snd (butlast qs))" by simp
  moreover have "qs \<noteq> []" using qs(2) ops by auto
  moreover have "snd (last qs) = cp_opToNext (last ps)" using qs(2) ops \<open>qs \<noteq> []\<close> by (metis last_map)
  moreover have "\<forall>q\<in>set qs. list_all vectorOk (fst q)" using vs by (auto simp: list_all_iff)
  ultimately have prog: "programOk qs" using qs(3) ops by (simp add: programOk_def list_all_iff)
  from analyze_programText [OF prog w, of h opts] obtain b where
    b: "analyzeShellCommand h opts platform enforced = Inr b" "map sg_argv (an_segments b) = concat (map fst qs)"
    and groups: "concat (chainGroups b) = an_segments b" "map length (chainGroups b) = map (\<lambda>q. length (fst q)) qs"
    using program_groups [OF prog w, of h opts] qs(1) by auto
  have "map (\<lambda>g. Some (sg_argv g)) (an_segments b) = map Some (map sg_argv (an_segments b))" by simp
  then have "map (\<lambda>g. Some (sg_argv g)) (an_segments b) = map resolvePlannedSegmentArgv (an_segments a)"
    using b(2) planned by (metis (no_types))
  moreover have "map cp_opToNext (commandChain enforced) = map cp_opToNext ps"
    using program_ops [OF prog] qs(1,2) by simp
  ultimately show ?thesis using b(1) groups qs(6) by (simp add: ps_def)
qed

definition sampleOpts :: execOpts where
  "sampleOpts = \<lparr>xo_cwd = None, xo_env = None\<rparr>"

definition sampleCommand :: string where
  "sampleCommand = ''ls -l | grep a'' @ [BS] @ ''*b && nice echo '' @ [DQ] @ ''x; y'' @ [DQ]"

theorem enforced_command_reparses_witness:
  "\<exists>a b enforced. analyzeShellCommand sampleHost sampleOpts None sampleCommand = Inr a \<and>
     buildEnforcedShellCommand None sampleCommand (an_segments a) = Inr enforced \<and>
     analyzeShellCommand sampleHost sampleOpts None enforced = Inr b \<and>
     map sg_argv (an_segments b) = [[''/usr/bin/ls'', ''-l''], [''/usr/bin/grep'', ''a*b''], [''/usr/bin/echo'', ''x; y'']] \<and>
     map cp_opToNext (commandChain enforced) = [Some OpAnd, None] \<and> map length (chainGroups b) = [2, 1]"
proof -
  have "(case analyzeShellCommand sampleHost sampleOpts None sampleCommand of Inl e \<Rightarrow> False
     | Inr a \<Rightarrow> map resolvePlannedSegmentArgv (an_segments a) =
         map Some [[''/usr/bin/ls'', ''-l''], [''/usr/bin/grep'', ''a*b''], [''/usr/bin/echo'', ''x; y'']] \<and>
         (case buildEnforcedShellCommand None sampleCommand (an_segments a) of Inl e \<Rightarrow> False | Inr c \<Rightarrow> True))"
    by code_simp
  then obtain a c where a: "analyzeShellCommand sampleHost sampleOpts None sampleCommand = Inr a"
    "buildEnforcedShellCommand None sampleCommand (an_segments a) = Inr c"
    and p: "map resolvePlannedSegmentArgv (an_segments a) =
         map Some [[''/usr/bin/ls'', ''-l''], [''/usr/bin/grep'', ''a*b''], [''/usr/bin/echo'', ''x; y'']]"
    by (auto split: sum.splits)
  from enforced_command_reparses [OF a] obtain b where b: "analyzeShellCommand sampleHost sampleOpts None c = Inr b"
    "map (\<lambda>g. Some (sg_argv g)) (an_segments b) = map resolvePlannedSegmentArgv (an_segments a)"
    "map cp_opToNext (commandChain c) = map cp_opToNext (commandChain (js_trim sampleCommand))"
    "map length (chainGroups b) = map (\<lambda>p. length (pipelineOf (cp_part p))) (commandChain (js_trim sampleCommand))" by blast
  have chain: "map cp_opToNext (commandChain (js_trim sampleCommand)) = [Some OpAnd, None]"
    "map (\<lambda>p. length (pipelineOf (cp_part p))) (commandChain (js_trim sampleCommand)) = [2, 1]" by code_simp+
  have "map Some (map sg_argv (an_segments b)) =
      map Some [[''/usr/bin/ls'', ''-l''], [''/usr/bin/grep'', ''a*b''], [''/usr/bin/echo'', ''x; y'']]"
    using b(2) p by (simp add: comp_def)
  then have "map sg_argv (an_segments b) = [[''/usr/bin/ls'', ''-l''], [''/usr/bin/grep'', ''a*b''], [''/usr/bin/echo'', ''x; y'']]"
    by (metis inj_map_eq_map inj_Some)
  with a b(1) b(3,4) [unfolded chain] show ?thesis by (intro exI [of _ a] exI [of _ b] exI [of _ c] conjI)
qed

section \<open>What the analysis misses\<close>

definition argvsOf :: "string \<Rightarrow> string + string list list" where
  "argvsOf command = map_sum id (\<lambda>a. map sg_argv (an_segments a)) (analyzeShellCommand sampleHost sampleOpts None command)"

text \<open>A comment ends with its line, but the scanners stop at it: the lines after it are not analysed.\<close>

lemma comment_hides_next_lines: "argvsOf (''ls # list'' @ [NL] @ ''rm -rf /'') = Inr [[''ls'']]"
  by code_simp

text \<open>Empty arguments are dropped.\<close>

lemma empty_argument_dropped: "argvsOf (''grep -e '' @ [SQ, SQ] @ '' x'') = Inr [[''grep'', ''-e'', ''x'']]"
  by code_simp

text \<open>A pipeline segment of blanks only is not noticed, since the blank after the bar resets the flag.\<close>

lemma blank_segment_accepted:
  "splitShellPipeline ''ls | | wc'' = Inr [''ls'', ''wc'']" "splitShellPipeline ''ls || wc'' = Inl (unsupported ''||'')"
  "splitShellPipeline ''ls |'' = Inl ''empty pipeline segment''" "splitShellPipeline ''ls | '' = Inr [''ls'']"
  by code_simp+

text \<open>A heredoc is rebuilt as a literal argument: the approved command no longer reads its input.\<close>

lemma heredoc_rebuilt_literally:
  "case analyzeShellCommand sampleHost sampleOpts None (''cat <<EOF'' @ [NL] @ ''hi'' @ [NL] @ ''EOF'') of Inl e \<Rightarrow> False
   | Inr a \<Rightarrow> buildEnforcedShellCommand None (''cat <<EOF'' @ [NL] @ ''hi'' @ [NL] @ ''EOF'') (an_segments a) =
       Inr (renderQuotedArgv [''/usr/bin/cat'', ''<<EOF''])"
  by code_simp

end
