(* ===== verification/Shell_Safety.thy ===== *)
theory Shell_Safety
  imports Shell_Rebuild
begin

text \<open>
  What a command line that passes the pipeline scanner can do. The reference is a small automaton
  that says of every character whether it is plain, active inside double quotes, or literal; nothing
  that a shell would act on, other than a bar, is left in a text that was accepted, and every
  character of it belongs to a segment.
\<close>

section \<open>Quoting, as a shell has it\<close>

datatype quoteMode = QPlain | QEscaped | QSingle | QDouble | QDoubleEscaped

datatype charClass = Active | InDouble | Literal

fun quoteStep :: "quoteMode \<Rightarrow> char \<Rightarrow> quoteMode \<times> charClass" where
  "quoteStep QPlain c =
     (if c = BS then (QEscaped, Literal) else if c = SQ then (QSingle, Literal)
      else if c = DQ then (QDouble, Literal) else (QPlain, Active))"
| "quoteStep QEscaped c = (QPlain, Literal)"
| "quoteStep QSingle c = (if c = SQ then QPlain else QSingle, Literal)"
| "quoteStep QDouble c =
     (if c = BS then (QDoubleEscaped, Literal) else if c = DQ then (QPlain, Literal) else (QDouble, InDouble))"
| "quoteStep QDoubleEscaped c = (QDouble, Literal)"

text \<open>The mode after a text and the class of each of its characters.\<close>

definition quoteRun :: "string \<Rightarrow> quoteMode \<times> (charClass \<times> char) list" where
  "quoteRun s = fold (\<lambda>c (m, cs). (fst (quoteStep m c), cs @ [(snd (quoteStep m c), c)])) s (QPlain, [])"

definition CONTROL :: "char set" where
  "CONTROL = set ''|&;<>()'' \<union> {BQ, NL, CR}"

text \<open>A piece of a command in which a shell finds one simple command: quotes are closed, no control
  character is active and nothing is substituted.\<close>

definition harmless :: "(charClass \<times> char) list \<Rightarrow> bool" where
  "harmless cs \<longleftrightarrow> set cs \<inter> ({Active} \<times> CONTROL \<union> {InDouble} \<times> {BQ, NL, CR}) = {} \<and>
     \<not> sublist [(InDouble, CHR ''$''), (InDouble, CHR ''('')] cs"

definition simpleCommand :: "string \<Rightarrow> bool" where
  "simpleCommand p \<longleftrightarrow> fst (quoteRun p) = QPlain \<and> harmless (snd (quoteRun p))"

lemma quoteRun_Nil [simp]: "quoteRun [] = (QPlain, [])"
  by (simp add: quoteRun_def)

lemma quoteRun_snoc: "quoteRun (s @ [c]) =
    (fst (quoteStep (fst (quoteRun s)) c), snd (quoteRun s) @ [(snd (quoteStep (fst (quoteRun s)) c), c)])"
  by (simp add: quoteRun_def split_beta)

lemma sublist_pair_snoc: "sublist [a, b] (xs @ [y]) \<longleftrightarrow> sublist [a, b] xs \<or> (xs \<noteq> [] \<and> last xs = a \<and> y = b)"
proof
  assume "sublist [a, b] (xs @ [y])"
  then obtain ps ss where e: "xs @ [y] = ps @ [a, b] @ ss" by (auto simp: sublist_def)
  show "sublist [a, b] xs \<or> (xs \<noteq> [] \<and> last xs = a \<and> y = b)"
  proof (cases ss rule: rev_cases)
    case Nil
    with e have "xs @ [y] = (ps @ [a]) @ [b]" by simp
    then show ?thesis by auto
  next
    case (snoc ss' z)
    with e have "xs = ps @ [a, b] @ ss'" by simp
    then show ?thesis by (auto simp: sublist_def)
  qed
next
  assume "sublist [a, b] xs \<or> (xs \<noteq> [] \<and> last xs = a \<and> y = b)"
  then show "sublist [a, b] (xs @ [y])"
  proof
    assume "xs \<noteq> [] \<and> last xs = a \<and> y = b"
    then have "xs @ [y] = butlast xs @ [a, b] @ []" by (metis append.assoc append_Cons append_Nil append_butlast_last_id append_Nil2)
    then show ?thesis unfolding sublist_def by blast
  qed (simp add: sublist_append)
qed

lemma harmless_snoc: "harmless (cs @ [(k, c)]) \<longleftrightarrow> harmless cs \<and>
    (k, c) \<notin> {Active} \<times> CONTROL \<union> {InDouble} \<times> {BQ, NL, CR} \<and>
    \<not> (cs \<noteq> [] \<and> last cs = (InDouble, CHR ''$'') \<and> k = InDouble \<and> c = CHR ''('')"
  by (auto simp: harmless_def sublist_pair_snoc)

lemma harmless_Nil [simp]: "harmless []"
  by (simp add: harmless_def)

section \<open>The invariant of the scanner\<close>

text \<open>Without heredocs and comments: the text so far is the closed pieces, each followed by a bar, and
  the buffer, and the flags say how the buffer is quoted.\<close>

definition flagsAgree :: "pipeState \<Rightarrow> string \<Rightarrow> bool" where
  "flagsAgree st rest \<longleftrightarrow>
     (case fst (quoteRun (ps_buf st)) of
        QPlain \<Rightarrow> \<not> ps_escaped st \<and> \<not> ps_inSingle st \<and> \<not> ps_inDouble st
      | QEscaped \<Rightarrow> ps_escaped st \<and> \<not> ps_inSingle st \<and> \<not> ps_inDouble st
      | QSingle \<Rightarrow> \<not> ps_escaped st \<and> ps_inSingle st \<and> \<not> ps_inDouble st
      | QDouble \<Rightarrow> \<not> ps_escaped st \<and> \<not> ps_inSingle st \<and> ps_inDouble st
      | QDoubleEscaped \<Rightarrow> \<not> ps_escaped st \<and> \<not> ps_inSingle st \<and> ps_inDouble st \<and>
          \<not> isEscapedLineContinuation (peek rest) \<and> \<not> isDoubleQuoteEscape (peek rest))"

definition dollarOk :: "string \<Rightarrow> string \<Rightarrow> bool" where
  "dollarOk buf rest \<longleftrightarrow> (buf \<noteq> [] \<and> last (snd (quoteRun buf)) = (InDouble, CHR ''$'') \<longrightarrow> peek rest \<noteq> Some CHR ''('')"

definition pipeInv :: "string \<Rightarrow> string \<Rightarrow> pipeState \<Rightarrow> bool" where
  "pipeInv u rest st \<longleftrightarrow> \<not> ps_inBody st \<and> ps_pending st = [] \<and> harmless (snd (quoteRun (ps_buf st))) \<and>
     flagsAgree st rest \<and> dollarOk (ps_buf st) rest \<and>
     (\<exists>ps. u = concat (map (\<lambda>p. p @ ''|'') ps) @ ps_buf st \<and> list_all simpleCommand ps \<and>
        ps_segments st = filter (\<lambda>t. t \<noteq> []) (map js_trim ps))"

text \<open>A step that only adds its character to the buffer.\<close>

lemma pipeInv_add:
  assumes "pipeInv u (c # rest) st" "ps_buf st' = ps_buf st @ [c]" "ps_segments st' = ps_segments st"
    "\<not> ps_inBody st'" "ps_pending st' = []"
    "harmless (snd (quoteRun (ps_buf st @ [c])))" "flagsAgree st' rest" "dollarOk (ps_buf st @ [c]) rest"
  shows "pipeInv (u @ [c]) rest st'"
  using assms unfolding pipeInv_def by auto

lemma snd_quoteRun_Nil: "snd (quoteRun s) = [] \<longleftrightarrow> s = []"
  by (cases s rule: rev_cases) (simp_all add: quoteRun_snoc)

lemma last_quoteRun_snoc [simp]: "last (snd (quoteRun (s @ [c]))) = (snd (quoteStep (fst (quoteRun s)) c), c)"
  by (simp add: quoteRun_snoc)

lemma addPipe_flags [simp]: "ps_inBody (addPipe s st) = ps_inBody st" "ps_escaped (addPipe s st) = ps_escaped st"
  "ps_inSingle (addPipe s st) = ps_inSingle st" "ps_inDouble (addPipe s st) = ps_inDouble st"
  by (simp_all add: addPipe_def)

lemma quoteRun_escape: "fst (quoteRun s) = QDouble \<Longrightarrow>
    quoteRun (s @ [BS, d]) = (QDouble, snd (quoteRun s) @ [(Literal, BS), (Literal, d)])"
  using quoteRun_snoc [of "s @ [BS]" d] by (simp add: quoteRun_snoc)

lemma harmless_escape: "harmless (cs @ [(Literal, c), (Literal, d)]) \<longleftrightarrow> harmless cs"
  using harmless_snoc [of "cs @ [(Literal, c)]" Literal d] by (simp add: harmless_snoc)

text \<open>The scanner's move in each mode.\<close>

lemma pipeStep_open:
  "\<not> ps_inBody st \<Longrightarrow> \<not> ps_escaped st \<Longrightarrow> \<not> ps_inSingle st \<Longrightarrow> \<not> ps_inDouble st \<Longrightarrow> ps_pending st = [] \<Longrightarrow>
   c \<noteq> CHR ''#'' \<Longrightarrow> c \<noteq> CHR ''<'' \<Longrightarrow> pipeStep prev c rest st = Go n st' \<Longrightarrow>
   n = 0 \<and> (if c = BS then st' = addPipe [c] st\<lparr>ps_escaped := True\<rparr>
     else if c = SQ then st' = addPipe [c] st\<lparr>ps_inSingle := True\<rparr>
     else if c = DQ then st' = addPipe [c] st\<lparr>ps_inDouble := True\<rparr>
     else if c = CHR ''|'' then st' = pushSegment (st\<lparr>ps_emptySegment := True\<rparr>)
     else c \<notin> CONTROL \<and> st' = addPipe [c] st)"
  by (auto simp: pipeStep_def isShellCommentStart_def DISALLOWED_PIPELINE_TOKENS_def CONTROL_def
      split: if_splits)

lemma pipeStep_inDouble:
  "\<not> ps_inBody st \<Longrightarrow> \<not> ps_escaped st \<Longrightarrow> \<not> ps_inSingle st \<Longrightarrow> ps_inDouble st \<Longrightarrow>
   pipeStep prev c rest st = Go n st' \<Longrightarrow>
   c \<notin> {BQ, NL, CR} \<and> \<not> (c = CHR ''$'' \<and> peek rest = Some CHR ''('') \<and>
   (c = BS \<longrightarrow> \<not> isEscapedLineContinuation (peek rest)) \<and>
   (if c = BS \<and> isDoubleQuoteEscape (peek rest) then n = 1 \<and> st' = addPipe [c, hd rest] st
    else n = 0 \<and> st' = addPipe [c] st\<lparr>ps_inDouble := (c \<noteq> DQ)\<rparr>)"
  by (auto simp: pipeStep_def split: if_splits)

lemmas pipeInv_defs = pipeInv_def flagsAgree_def dollarOk_def

lemma pipeInv_step_open:
  assumes inv: "pipeInv u (c # rest) st" and mode: "fst (quoteRun (ps_buf st)) = QPlain"
    and c: "c \<noteq> CHR ''#''" "c \<noteq> CHR ''<''" and step: "pipeStep prev c rest st = Go n st'"
  shows "pipeInv (u @ c # take n rest) (drop n rest) st'"
proof -
  from inv mode have st: "\<not> ps_inBody st" "\<not> ps_escaped st" "\<not> ps_inSingle st" "\<not> ps_inDouble st" "ps_pending st = []"
    and h: "harmless (snd (quoteRun (ps_buf st)))" by (simp_all add: pipeInv_defs)
  note m = pipeStep_open [OF st c step]
  show ?thesis
  proof (cases "c = CHR ''|''")
    case True
    with m have st': "n = 0" "st' = pushSegment (st\<lparr>ps_emptySegment := True\<rparr>)" by simp_all
    from inv obtain ps where ps: "u = concat (map (\<lambda>p. p @ ''|'') ps) @ ps_buf st" "list_all simpleCommand ps"
      "ps_segments st = filter (\<lambda>t. t \<noteq> []) (map js_trim ps)" by (auto simp: pipeInv_def)
    have "u @ ''|'' = concat (map (\<lambda>p. p @ ''|'') (ps @ [ps_buf st])) @ []" "list_all simpleCommand (ps @ [ps_buf st])"
      "ps_segments st' = filter (\<lambda>t. t \<noteq> []) (map js_trim (ps @ [ps_buf st]))"
      using ps mode h st' by (simp_all add: simpleCommand_def pushSegment_def Let_def)
    then show ?thesis using st st' True
      by (auto simp: pipeInv_defs pushSegment_def Let_def intro!: exI [of _ "ps @ [ps_buf st]"])
  next
    case False
    with m have st': "n = 0" "ps_buf st' = ps_buf st @ [c]" "ps_segments st' = ps_segments st"
      "\<not> ps_inBody st'" "ps_pending st' = []" using st by (simp_all split: if_splits)
    have "harmless (snd (quoteRun (ps_buf st @ [c])))"
      using h m False mode by (auto simp: quoteRun_snoc harmless_snoc split: if_splits)
    moreover have "flagsAgree st' rest"
      using m False mode st st'(2) by (auto simp: flagsAgree_def quoteRun_snoc split: if_splits)
    moreover have "dollarOk (ps_buf st @ [c]) rest" using mode by (simp add: dollarOk_def)
    ultimately show ?thesis using pipeInv_add [OF inv st'(2-5)] st'(1) by simp
  qed
qed

lemma pipeInv_step_double:
  assumes inv: "pipeInv u (c # rest) st" and mode: "fst (quoteRun (ps_buf st)) \<in> {QDouble, QDoubleEscaped}"
    and step: "pipeStep prev c rest st = Go n st'"
  shows "pipeInv (u @ c # take n rest) (drop n rest) st'"
proof -
  from inv mode have st: "\<not> ps_inBody st" "\<not> ps_escaped st" "\<not> ps_inSingle st" "ps_inDouble st" "ps_pending st = []"
    and h: "harmless (snd (quoteRun (ps_buf st)))"
    and d: "ps_buf st \<noteq> [] \<Longrightarrow> last (snd (quoteRun (ps_buf st))) = (InDouble, CHR ''$'') \<Longrightarrow> c \<noteq> CHR ''(''"
    by (auto simp: pipeInv_defs peek_def)
  note m = pipeStep_inDouble [OF st(1-4) step]
  show ?thesis
  proof (cases "c = BS \<and> isDoubleQuoteEscape (peek rest)")
    case True
    then obtain x rest' where r: "rest = x # rest'" "isDoubleQuoteEscape (Some x)"
      by (cases rest) (auto simp: peek_def isDoubleQuoteEscape_def)
    from True inv mode have q: "fst (quoteRun (ps_buf st)) = QDouble"
      by (auto simp: pipeInv_defs peek_def isDoubleQuoteEscape_def)
    from True m have st': "n = 1" "st' = addPipe [c, x] st" using r by simp_all
    have one: "pipeInv (u @ [c, x]) rest' st' \<longleftrightarrow> harmless (snd (quoteRun (ps_buf st @ [c, x]))) \<and>
        flagsAgree st' rest' \<and> dollarOk (ps_buf st @ [c, x]) rest'"
      using inv st st' by (auto simp: pipeInv_def)
    have "harmless (snd (quoteRun (ps_buf st @ [c, x])))" "dollarOk (ps_buf st @ [c, x]) rest'"
      "flagsAgree st' rest'"
      using True q h st st' by (simp_all add: dollarOk_def flagsAgree_def quoteRun_escape harmless_escape)
    then show ?thesis using one st' r by simp
  next
    case False
    with m have st': "n = 0" "st' = addPipe [c] st\<lparr>ps_inDouble := (c \<noteq> DQ)\<rparr>" by auto
    have chars: "c \<notin> {BQ, NL, CR}" "c = BS \<Longrightarrow> \<not> isEscapedLineContinuation (peek rest)"
      "c = BS \<Longrightarrow> \<not> isDoubleQuoteEscape (peek rest)" "c = CHR ''$'' \<Longrightarrow> peek rest \<noteq> Some CHR ''(''"
      using m False by auto
    have esc: "fst (quoteRun (ps_buf st)) = QDoubleEscaped \<Longrightarrow> c \<noteq> DQ"
      using inv by (simp add: pipeInv_def flagsAgree_def peek_def isDoubleQuoteEscape_def)
    have "harmless (snd (quoteRun (ps_buf st @ [c])))"
      using h chars(1) d mode by (auto simp: quoteRun_snoc harmless_snoc snd_quoteRun_Nil split: if_splits)
    moreover have "flagsAgree st' rest"
    proof (cases "fst (quoteRun (ps_buf st)) = QDouble")
      case True
      then show ?thesis using st'(2) st chars(2,3) by (simp add: flagsAgree_def quoteRun_snoc)
    next
      case False
      then show ?thesis using st'(2) st mode esc by (simp add: flagsAgree_def quoteRun_snoc)
    qed
    moreover have "dollarOk (ps_buf st @ [c]) rest"
      using mode chars(4) by (auto simp: dollarOk_def)
    ultimately show ?thesis using pipeInv_add [OF inv, of st'] st st' by simp
  qed
qed

lemma pipeInv_step:
  assumes inv: "pipeInv u (c # rest) st" and c: "c \<noteq> CHR ''#''" "c \<noteq> CHR ''<''"
    and step: "pipeStep prev c rest st = Go n st'"
  shows "pipeInv (u @ c # take n rest) (drop n rest) st'"
proof (cases "fst (quoteRun (ps_buf st))")
  case QEscaped
  with inv step have "n = 0" "st' = addPipe [c] st\<lparr>ps_escaped := False\<rparr>"
    by (simp_all add: pipeInv_defs pipeStep_def)
  with QEscaped inv show ?thesis
    by (auto simp: pipeInv_defs quoteRun_snoc harmless_snoc)
next
  case QSingle
  with inv step have "n = 0" "st' = addPipe [c] st\<lparr>ps_inSingle := (c \<noteq> SQ)\<rparr>"
    by (simp_all add: pipeInv_defs pipeStep_def)
  with QSingle inv show ?thesis
    by (auto simp: pipeInv_defs quoteRun_snoc harmless_snoc)
qed (use assms in \<open>auto intro: pipeInv_step_open pipeInv_step_double\<close>)

lemma pipeStep_never_stops:
  "c \<noteq> CHR ''#'' \<Longrightarrow> pipeStep prev c rest st \<noteq> Halt st'"
  by (auto simp: pipeStep_def bodyStep_def heredocStep_def isShellCommentStart_def Let_def
      split: option.splits)

lemma scan_pipeInv:
  "scan pipeStep prev s st = Inr st' \<Longrightarrow> pipeInv u s st \<Longrightarrow> CHR ''#'' \<notin> set s \<Longrightarrow> CHR ''<'' \<notin> set s \<Longrightarrow>
   pipeInv (u @ s) [] st'"
proof (induction "length s" arbitrary: prev s st u rule: less_induct)
  case less
  show ?case
  proof (cases s)
    case (Cons c rest)
    with less.prems have c: "c \<noteq> CHR ''#''" "c \<noteq> CHR ''<''" by auto
    with less.prems(1) obtain n st1 where go: "pipeStep prev c rest st = Go n st1"
      and r: "scan pipeStep (Some (last (c # take n rest))) (drop n rest) st1 = Inr st'"
      using pipeStep_never_stops [of c prev rest st] Cons
      by (cases "pipeStep prev c rest st") auto
    have "pipeInv ((u @ c # take n rest) @ drop n rest) [] st'"
    proof (rule less.hyps [OF _ r])
      show "pipeInv (u @ c # take n rest) (drop n rest) st1"
        using pipeInv_step [OF _ c go] less.prems(2) Cons by simp
      show "CHR ''#'' \<notin> set (drop n rest)" "CHR ''<'' \<notin> set (drop n rest)"
        using less.prems(3,4) Cons set_drop_subset [of n rest] by auto
    qed (use Cons in simp)
    then show ?thesis by (simp add: Cons)
  qed (use less.prems in simp)
qed

lemma join_bars: "concat (map (\<lambda>p. p @ ''|'') ps) @ b = js_join ''|'' (ps @ [b])"
  by (induction ps) (simp_all add: js_join_Cons)

text \<open>C18: An accepted pipeline accounts for all of its text. A command line in which no hash and no less-than sign
  occurs, quoted or not, and that the pipeline scanner accepts, is exactly its pieces joined by bars; in each piece the
  quotes are closed and no control character is left active for the shell (no separator, redirection,
  group, backquote or newline outside quotes, no substitution inside double quotes), and the segments
  to be checked against the allowlist are those pieces, trimmed, the blank ones left out.\<close>

theorem pipeline_accounts_for_all_text:
  assumes "splitShellPipeline cmd = Inr segments" "CHR ''#'' \<notin> set cmd" "CHR ''<'' \<notin> set cmd"
  shows "\<exists>ps. cmd = js_join ''|'' ps \<and> segments = filter (\<lambda>t. t \<noteq> []) (map js_trim ps) \<and>
    list_all simpleCommand ps"
proof -
  from assms(1) obtain st where st: "scan pipeStep None cmd initPipe = Inr st"
    by (auto simp: splitShellPipeline_def split: sum.splits)
  have "pipeInv [] cmd initPipe"
    by (auto simp: pipeInv_defs initPipe_def)
  from scan_pipeInv [OF st this assms(2,3)] have inv: "pipeInv cmd [] st" by simp
  then obtain ps where ps: "cmd = concat (map (\<lambda>p. p @ ''|'') ps) @ ps_buf st" "list_all simpleCommand ps"
    "ps_segments st = filter (\<lambda>t. t \<noteq> []) (map js_trim ps)" by (auto simp: pipeInv_def)
  from inv have "closeHeredoc st = st" by (simp add: pipeInv_def closeHeredoc_def)
  with assms(1) st have e: "\<not> ps_escaped st" "\<not> ps_inSingle st" "\<not> ps_inDouble st"
    "segments = ps_segments (pushSegment st)"
    by (auto simp: splitShellPipeline_def Let_def split: if_splits)
  from e inv have "simpleCommand (ps_buf st)"
    by (cases "fst (quoteRun (ps_buf st))") (simp_all add: pipeInv_def flagsAgree_def simpleCommand_def)
  with ps e(4) show ?thesis
    by (intro exI [of _ "ps @ [ps_buf st]"]) (simp add: join_bars pushSegment_def Let_def)
qed

text \<open>The theorem at a pipeline with a bar inside quotes.\<close>

theorem pipeline_accounts_for_all_text_witness:
  "\<exists>ps. ''grep '' @ [DQ] @ ''a|b'' @ [DQ] @ '' | wc'' = js_join ''|'' ps \<and>
     [''grep '' @ [DQ] @ ''a|b'' @ [DQ], ''wc''] = filter (\<lambda>t. t \<noteq> []) (map js_trim ps) \<and> list_all simpleCommand ps"
proof (rule pipeline_accounts_for_all_text)
  show "splitShellPipeline (''grep '' @ [DQ] @ ''a|b'' @ [DQ] @ '' | wc'') =
      Inr [''grep '' @ [DQ] @ ''a|b'' @ [DQ], ''wc'']" by code_simp
qed simp_all

end
