(* ===== verification/Safe_Bins.thy ===== *)
theory Safe_Bins
  imports Exec_Paths
begin

text \<open>
  \<open>src/infra/exec-safe-bin-policy-profiles.ts\<close>, \<open>exec-safe-bin-policy-validator.ts\<close> and
  \<open>exec-safe-bin-trust.ts\<close>: commands such as \<open>grep\<close> or \<open>sort\<close> that may run without approval as long
  as they only read standard input. A profile says of each which options may carry a value and which
  are refused; an option may be abbreviated as GNU programs allow. The reference is the grammar of
  the argument vectors that are accepted.
\<close>

section \<open>Profiles\<close>

record safeBinFixture =
  sf_minPositional :: "int option"
  sf_maxPositional :: "int option"
  sf_allowedValueFlags :: "string list option"
  sf_deniedFlags :: "string list option"

type_synonym prefixMap = "(string \<times> string option) list"

record safeBinProfile =
  sb_minPositional :: "int option"
  sb_maxPositional :: "int option"
  sb_allowedValueFlags :: "string list option"
  sb_deniedFlags :: "string list option"
  sb_knownLongFlags :: "string list option"
  sb_knownLongFlagsSet :: "string list option"
  sb_longFlagPrefixMap :: "prefixMap option"

definition optFlags :: "string list option \<Rightarrow> string list" where
  "optFlags flags = (case flags of None \<Rightarrow> [] | Some fs \<Rightarrow> fs)"

definition toFlagSet :: "string list option \<Rightarrow> string list" where
  "toFlagSet flags = js_uniq (optFlags flags)"

definition collectKnownLongFlags :: "string list \<Rightarrow> string list \<Rightarrow> string list" where
  "collectKnownLongFlags allowedValueFlags deniedFlags =
     js_uniq (filter (prefix ''--'') allowedValueFlags @ filter (prefix ''--'') deniedFlags)"

text \<open>Every prefix of a flag stands for it, unless it is a prefix of two: then for none.\<close>

definition addPrefix :: "string \<Rightarrow> string \<Rightarrow> prefixMap \<Rightarrow> prefixMap" where
  "addPrefix flag p m =
     (case map_of m p of
        None \<Rightarrow> AList.update p (Some flag) m
      | Some existing \<Rightarrow> if existing \<noteq> Some flag then AList.update p None m else m)"

definition addPrefixes :: "string \<Rightarrow> prefixMap \<Rightarrow> prefixMap" where
  "addPrefixes flag m =
     (if \<not> prefix ''--'' flag \<or> length flag \<le> 2 then m
      else fold (\<lambda>n. addPrefix flag (take n flag)) [3..<Suc (length flag)] m)"

definition buildLongFlagPrefixMap :: "string list \<Rightarrow> prefixMap" where
  "buildLongFlagPrefixMap knownLongFlags = fold addPrefixes knownLongFlags []"

definition compileSafeBinProfile :: "safeBinFixture \<Rightarrow> safeBinProfile" where
  "compileSafeBinProfile fixture =
     (let allowedValueFlags = toFlagSet (sf_allowedValueFlags fixture);
          deniedFlags = toFlagSet (sf_deniedFlags fixture);
          knownLongFlags = collectKnownLongFlags allowedValueFlags deniedFlags
      in \<lparr>sb_minPositional = sf_minPositional fixture, sb_maxPositional = sf_maxPositional fixture,
          sb_allowedValueFlags = Some allowedValueFlags, sb_deniedFlags = Some deniedFlags,
          sb_knownLongFlags = Some knownLongFlags, sb_knownLongFlagsSet = Some (js_uniq knownLongFlags),
          sb_longFlagPrefixMap = Some (buildLongFlagPrefixMap knownLongFlags)\<rparr>)"

definition compileSafeBinProfiles :: "(string \<times> safeBinFixture) list \<Rightarrow> (string \<times> safeBinProfile) list" where
  "compileSafeBinProfiles fixtures = map (\<lambda>(name, fixture). (name, compileSafeBinProfile fixture)) fixtures"

text \<open>A fixture of the table: at most so many positional arguments, and its flags.\<close>

definition safeBinFixtureOf :: "int option \<Rightarrow> int option \<Rightarrow> string list \<Rightarrow> string list \<Rightarrow> safeBinFixture" where
  "safeBinFixtureOf lo hi allowed denied =
     \<lparr>sf_minPositional = lo, sf_maxPositional = hi,
      sf_allowedValueFlags = (if allowed = [] then None else Some allowed),
      sf_deniedFlags = (if denied = [] then None else Some denied)\<rparr>"

definition SAFE_BIN_PROFILE_FIXTURES :: "(string \<times> safeBinFixture) list" where
  "SAFE_BIN_PROFILE_FIXTURES =
    [(''jq'', safeBinFixtureOf None (Some 1) [''--arg'', ''--argjson'', ''--argstr'']
       [''--argfile'', ''--rawfile'', ''--slurpfile'', ''--from-file'', ''--library-path'', ''-L'', ''-f'']),
     (''grep'', safeBinFixtureOf None (Some 0)
       [''--regexp'', ''--max-count'', ''--after-context'', ''--before-context'', ''--context'', ''--devices'',
        ''--binary-files'', ''--exclude'', ''--include'', ''--label'', ''-e'', ''-m'', ''-A'', ''-B'', ''-C'', ''-D'']
       [''--file'', ''--exclude-from'', ''--dereference-recursive'', ''--directories'', ''--recursive'',
        ''-f'', ''-d'', ''-r'', ''-R'']),
     (''cut'', safeBinFixtureOf None (Some 0)
       [''--bytes'', ''--characters'', ''--fields'', ''--delimiter'', ''--output-delimiter'', ''-b'', ''-c'', ''-f'', ''-d''] []),
     (''sort'', safeBinFixtureOf None (Some 0)
       [''--key'', ''--field-separator'', ''--buffer-size'', ''--parallel'', ''--batch-size'', ''-k'', ''-t'', ''-S'']
       [''--compress-program'', ''--files0-from'', ''--output'', ''--random-source'', ''--temporary-directory'', ''-T'', ''-o'']),
     (''uniq'', safeBinFixtureOf None (Some 0)
       [''--skip-fields'', ''--skip-chars'', ''--check-chars'', ''--group'', ''-f'', ''-s'', ''-w''] []),
     (''head'', safeBinFixtureOf None (Some 0) [''--lines'', ''--bytes'', ''-n'', ''-c''] []),
     (''tail'', safeBinFixtureOf None (Some 0)
       [''--lines'', ''--bytes'', ''--sleep-interval'', ''--max-unchanged-stats'', ''--pid'', ''-n'', ''-c''] []),
     (''tr'', safeBinFixtureOf (Some 1) (Some 2) [] []),
     (''wc'', safeBinFixtureOf None (Some 0) [] [''--files0-from''])]"

definition SAFE_BIN_PROFILES :: "(string \<times> safeBinProfile) list" where
  "SAFE_BIN_PROFILES = compileSafeBinProfiles SAFE_BIN_PROFILE_FIXTURES"

text \<open>Fixtures from the configuration. Limits are whole numbers; \<open>localeCompare\<close> is a parameter.\<close>

definition normalizeSafeBinProfileName :: "string \<Rightarrow> string option" where
  "normalizeSafeBinProfileName raw = js_some (js_lower (js_trim raw))"

definition normalizeFixtureLimit :: "int option \<Rightarrow> int option" where
  "normalizeFixtureLimit raw = (case raw of None \<Rightarrow> None | Some n \<Rightarrow> if 0 \<le> n then Some n else None)"

definition normalizeFixtureFlags :: "(string \<Rightarrow> nat list) \<Rightarrow> string list option \<Rightarrow> string list option" where
  "normalizeFixtureFlags collate flags =
     (let normalized = sort_key collate (js_uniq (filter (\<lambda>flag. flag \<noteq> []) (map js_trim (optFlags flags))))
      in if normalized = [] then None else Some normalized)"

definition normalizeSafeBinProfileFixture :: "(string \<Rightarrow> nat list) \<Rightarrow> safeBinFixture \<Rightarrow> safeBinFixture" where
  "normalizeSafeBinProfileFixture collate fixture =
     (let minPositional = normalizeFixtureLimit (sf_minPositional fixture);
          maxPositionalRaw = normalizeFixtureLimit (sf_maxPositional fixture);
          maxPositional = (case (minPositional, maxPositionalRaw) of
             (Some lo, Some hi) \<Rightarrow> if hi < lo then minPositional else maxPositionalRaw
           | _ \<Rightarrow> maxPositionalRaw)
      in \<lparr>sf_minPositional = minPositional, sf_maxPositional = maxPositional,
          sf_allowedValueFlags = normalizeFixtureFlags collate (sf_allowedValueFlags fixture),
          sf_deniedFlags = normalizeFixtureFlags collate (sf_deniedFlags fixture)\<rparr>)"

definition normalizeSafeBinProfileFixtures ::
    "(string \<Rightarrow> nat list) \<Rightarrow> (string \<times> safeBinFixture) list option \<Rightarrow> (string \<times> safeBinFixture) list" where
  "normalizeSafeBinProfileFixtures collate fixtures =
     fold (\<lambda>(rawName, fixture) normalized.
        case normalizeSafeBinProfileName rawName of
          None \<Rightarrow> normalized
        | Some name \<Rightarrow> AList.update name (normalizeSafeBinProfileFixture collate fixture) normalized)
       (case fixtures of None \<Rightarrow> [] | Some fs \<Rightarrow> fs) []"

text \<open>\<open>{...a, ...b}\<close>\<close>

definition spreadObjects :: "(string \<times> 'v) list \<Rightarrow> (string \<times> 'v) list \<Rightarrow> (string \<times> 'v) list" where
  "spreadObjects a b = fold (\<lambda>(k, v). AList.update k v) b a"

definition resolveSafeBinProfiles ::
    "(string \<Rightarrow> nat list) \<Rightarrow> (string \<times> safeBinFixture) list option \<Rightarrow> (string \<times> safeBinProfile) list" where
  "resolveSafeBinProfiles collate fixtures =
     (let normalizedFixtures = normalizeSafeBinProfileFixtures collate fixtures in
      if normalizedFixtures = [] then SAFE_BIN_PROFILES
      else spreadObjects SAFE_BIN_PROFILES (compileSafeBinProfiles normalizedFixtures))"

definition resolveSafeBinDeniedFlags :: "(string \<times> safeBinFixture) list \<Rightarrow> (string \<times> string list) list" where
  "resolveSafeBinDeniedFlags fixtures =
     fold (\<lambda>(name, fixture) out.
        let denied = sort (js_uniq (optFlags (sf_deniedFlags fixture))) in
        if denied = [] then out else AList.update name denied out) fixtures []"

definition renderSafeBinDeniedFlagsDocBullets :: "(string \<times> safeBinFixture) list \<Rightarrow> string" where
  "renderSafeBinDeniedFlagsDocBullets fixtures =
     (let deniedByBin = resolveSafeBinDeniedFlags fixtures;
          code = (\<lambda>s. [CHR 0x60] @ s @ [CHR 0x60])
      in js_join [CHR 0x0A]
        (map (\<lambda>bin. ''- '' @ code bin @ '': '' @
            js_join '', '' (map code (case map_of deniedByBin bin of None \<Rightarrow> [] | Some fs \<Rightarrow> fs)))
          (sort (map fst deniedByBin))))"

section \<open>The validator\<close>

definition isPathLikeToken :: "string \<Rightarrow> bool" where
  "isPathLikeToken value =
     (let trimmed = js_trim value in
      trimmed \<noteq> [] \<and> trimmed \<noteq> ''-'' \<and>
      (prefix ''./'' trimmed \<or> prefix ''../'' trimmed \<or> prefix ''~'' trimmed \<or> prefix ''/'' trimmed \<or>
       (3 \<le> length trimmed \<and> isAsciiLetter (trimmed ! 0) \<and> trimmed ! 1 = CHR '':'' \<and>
        (trimmed ! 2 = CHR ''/'' \<or> trimmed ! 2 = CHR 0x5C))))"

definition hasGlobToken :: "string \<Rightarrow> bool" where
  "hasGlobToken value \<longleftrightarrow> list_ex (\<lambda>c. c \<in> set ''*?[]'') value"

definition isSafeLiteralToken :: "string \<Rightarrow> bool" where
  "isSafeLiteralToken value \<longleftrightarrow> value = [] \<or> value = ''-'' \<or> (\<not> hasGlobToken value \<and> \<not> isPathLikeToken value)"

text \<open>The argument after the option; there may be none.\<close>

definition isInvalidValueToken :: "string list \<Rightarrow> bool" where
  "isInvalidValueToken rest \<longleftrightarrow> (case rest of [] \<Rightarrow> True | v # _ \<Rightarrow> v = [] \<or> \<not> isSafeLiteralToken v)"

definition resolveCanonicalLongFlag :: "string \<Rightarrow> string list \<Rightarrow> prefixMap \<Rightarrow> string option" where
  "resolveCanonicalLongFlag flag knownLongFlagsSet longFlagPrefixMap =
     (if \<not> prefix ''--'' flag \<or> length flag \<le> 2 then None
      else if flag \<in> set knownLongFlagsSet then Some flag
      else (case map_of longFlagPrefixMap flag of Some f \<Rightarrow> f | None \<Rightarrow> None))"

text \<open>How many arguments after the option are its value, or refusal.\<close>

definition consumeLongOptionToken ::
    "string list \<Rightarrow> string \<Rightarrow> string option \<Rightarrow> string list \<Rightarrow> string list \<Rightarrow> string list \<Rightarrow> prefixMap \<Rightarrow> nat option" where
  "consumeLongOptionToken rest flag inlineArg allowedValueFlags deniedFlags knownLongFlagsSet longFlagPrefixMap =
     (case resolveCanonicalLongFlag flag knownLongFlagsSet longFlagPrefixMap of
        None \<Rightarrow> None
      | Some canonicalFlag \<Rightarrow>
          if canonicalFlag \<in> set deniedFlags then None
          else (let expectsValue = canonicalFlag \<in> set allowedValueFlags in
            case inlineArg of
              Some v \<Rightarrow> if expectsValue \<and> isSafeLiteralToken v then Some 0 else None
            | None \<Rightarrow>
                if \<not> expectsValue then Some 0
                else if isInvalidValueToken rest then None else Some 1))"

text \<open>The characters of a cluster, up to the first that takes a value; without one it is refused.\<close>

fun consumeShortOptionClusterToken :: "string list \<Rightarrow> string \<Rightarrow> string list \<Rightarrow> string list \<Rightarrow> nat option" where
  "consumeShortOptionClusterToken rest [] allowedValueFlags deniedFlags = None"
| "consumeShortOptionClusterToken rest (c # inlineArg) allowedValueFlags deniedFlags =
     (if [CHR ''-'', c] \<in> set deniedFlags then None
      else if [CHR ''-'', c] \<notin> set allowedValueFlags
      then consumeShortOptionClusterToken rest inlineArg allowedValueFlags deniedFlags
      else if inlineArg \<noteq> [] then (if isSafeLiteralToken inlineArg then Some 0 else None)
      else if isInvalidValueToken rest then None else Some 1)"

text \<open>After \<open>--\<close> everything is positional, but for empty arguments and dashes.\<close>

definition positionalRest :: "string list \<Rightarrow> string list" where
  "positionalRest rest = filter (\<lambda>a. a \<noteq> [] \<and> a \<noteq> ''-'') rest"

text \<open>The positional arguments, or refusal.\<close>

fun validateLoop ::
    "string list \<Rightarrow> string list \<Rightarrow> string list \<Rightarrow> prefixMap \<Rightarrow> string list \<Rightarrow> string list \<Rightarrow> string list option" where
  "validateLoop allowed denied known pmap [] positional = Some positional"
| "validateLoop allowed denied known pmap (raw # rest) positional =
     (case parseExecArgvToken raw of
        TEmpty \<Rightarrow> validateLoop allowed denied known pmap rest positional
      | TStdin \<Rightarrow> validateLoop allowed denied known pmap rest positional
      | TTerminator \<Rightarrow>
          (if list_all isSafeLiteralToken (positionalRest rest) then Some (positional @ positionalRest rest) else None)
      | TPositional a \<Rightarrow>
          (if isSafeLiteralToken a then validateLoop allowed denied known pmap rest (positional @ [a]) else None)
      | TLong flag inlineArg \<Rightarrow>
          (case consumeLongOptionToken rest flag inlineArg allowed denied known pmap of
             None \<Rightarrow> None | Some n \<Rightarrow> validateLoop allowed denied known pmap (drop n rest) positional)
      | TShort cluster flags \<Rightarrow>
          (case consumeShortOptionClusterToken rest cluster allowed denied of
             None \<Rightarrow> None | Some n \<Rightarrow> validateLoop allowed denied known pmap (drop n rest) positional))"

definition validatePositionalCount :: "string list \<Rightarrow> safeBinProfile \<Rightarrow> bool" where
  "validatePositionalCount positional profile \<longleftrightarrow>
     (case sb_minPositional profile of None \<Rightarrow> 0 | Some n \<Rightarrow> n) \<le> int (length positional) \<and>
     (case sb_maxPositional profile of None \<Rightarrow> True | Some n \<Rightarrow> int (length positional) \<le> n)"

definition validateSafeBinArgv :: "string list \<Rightarrow> safeBinProfile \<Rightarrow> bool" where
  "validateSafeBinArgv args profile =
     (let allowedValueFlags = optFlags (sb_allowedValueFlags profile);
          deniedFlags = optFlags (sb_deniedFlags profile);
          knownLongFlags = (case sb_knownLongFlags profile of
             Some fs \<Rightarrow> fs | None \<Rightarrow> collectKnownLongFlags allowedValueFlags deniedFlags);
          knownLongFlagsSet = (case sb_knownLongFlagsSet profile of Some fs \<Rightarrow> fs | None \<Rightarrow> js_uniq knownLongFlags);
          longFlagPrefixMap = (case sb_longFlagPrefixMap profile of
             Some m \<Rightarrow> m | None \<Rightarrow> buildLongFlagPrefixMap knownLongFlags)
      in case validateLoop allowedValueFlags deniedFlags knownLongFlagsSet longFlagPrefixMap args [] of
           None \<Rightarrow> False | Some positional \<Rightarrow> validatePositionalCount positional profile)"

section \<open>Trusted directories\<close>

definition DEFAULT_SAFE_BIN_TRUSTED_DIRS :: "string list" where
  "DEFAULT_SAFE_BIN_TRUSTED_DIRS = [''/bin'', ''/usr/bin'']"

definition normalizeTrustedDir :: "execHost \<Rightarrow> string \<Rightarrow> string option" where
  "normalizeTrustedDir h value =
     (let trimmed = js_trim value in if trimmed = [] then None else Some (pathResolve (xh_processCwd h) [trimmed]))"

definition normalizeTrustedSafeBinDirs :: "string list option \<Rightarrow> string list" where
  "normalizeTrustedSafeBinDirs entries = js_uniq (filter (\<lambda>e. e \<noteq> []) (map js_trim (optFlags entries)))"

definition resolveTrustedSafeBinDirs :: "execHost \<Rightarrow> string list \<Rightarrow> string list" where
  "resolveTrustedSafeBinDirs h entries = sort (js_uniq (List.map_filter (normalizeTrustedDir h) entries))"

definition buildTrustedSafeBinCacheKey :: "execHost \<Rightarrow> string list \<Rightarrow> string" where
  "buildTrustedSafeBinCacheKey h entries =
     js_join [CHR 0x01] (resolveTrustedSafeBinDirs h (normalizeTrustedSafeBinDirs (Some entries)))"

definition buildTrustedSafeBinDirs :: "execHost \<Rightarrow> string list \<Rightarrow> string list \<Rightarrow> string list" where
  "buildTrustedSafeBinDirs h baseDirs extraDirs =
     js_uniq (resolveTrustedSafeBinDirs h
       (normalizeTrustedSafeBinDirs (Some baseDirs) @ normalizeTrustedSafeBinDirs (Some extraDirs)))"

text \<open>One set of directories is cached, by its key.\<close>

type_synonym trustCache = "(string \<times> string list) option"

definition trustCacheGet :: "trustCache \<Rightarrow> string \<Rightarrow> string list option" where
  "trustCacheGet cache key = (case cache of Some (k, dirs) \<Rightarrow> if k = key then Some dirs else None | None \<Rightarrow> None)"

definition getTrustedSafeBinDirs ::
    "execHost \<Rightarrow> string list option \<Rightarrow> string list option \<Rightarrow> bool \<Rightarrow> trustCache \<Rightarrow> string list \<times> trustCache" where
  "getTrustedSafeBinDirs h base extra refresh cache =
     (let baseDirs = (case base of None \<Rightarrow> DEFAULT_SAFE_BIN_TRUSTED_DIRS | Some ds \<Rightarrow> ds);
          extraDirs = optFlags extra;
          key = buildTrustedSafeBinCacheKey h (baseDirs @ extraDirs)
      in case (if refresh then None else trustCacheGet cache key) of
           Some dirs \<Rightarrow> (dirs, cache)
         | None \<Rightarrow> (let dirs = buildTrustedSafeBinDirs h baseDirs extraDirs in (dirs, Some (key, dirs))))"

definition isTrustedSafeBinPath :: "execHost \<Rightarrow> string \<Rightarrow> string list \<Rightarrow> bool" where
  "isTrustedSafeBinPath h resolvedPath trustedDirs \<longleftrightarrow>
     pathDirname (pathResolve (xh_processCwd h) [resolvedPath]) \<in> set trustedDirs"

section \<open>Abbreviations\<close>

text \<open>What a long option stands for: itself, or the one known option that it abbreviates.\<close>

definition standsFor :: "string set \<Rightarrow> string \<Rightarrow> string \<Rightarrow> bool" where
  "standsFor known flag f \<longleftrightarrow> prefix ''--'' flag \<and> 2 < length flag \<and>
     (if flag \<in> known then f = flag else {g \<in> known. prefix flag g} = {f})"

text \<open>What adding a flag does to the entry of one of its prefixes.\<close>

definition markPrefix :: "string \<Rightarrow> string option option \<Rightarrow> string option option" where
  "markPrefix flag e = (if e = None \<or> e = Some (Some flag) then Some (Some flag) else Some None)"

lemma markPrefix_idem [simp]: "markPrefix f (markPrefix f e) = markPrefix f e"
  by (simp add: markPrefix_def)

lemma map_of_addPrefix: "map_of (addPrefix flag p m) q = (if q = p then markPrefix flag (map_of m q) else map_of m q)"
  by (auto simp: addPrefix_def markPrefix_def map_of_update_iff split: option.splits)

lemma map_of_fold_addPrefix:
  "map_of (fold (\<lambda>n. addPrefix flag (take n flag)) ns m) q =
   (if \<exists>n\<in>set ns. q = take n flag then markPrefix flag (map_of m q) else map_of m q)"
  by (induction ns arbitrary: m) (auto simp: map_of_addPrefix)

lemma map_of_addPrefixes: "map_of (addPrefixes flag m) q =
    (if prefix ''--'' flag \<and> 3 \<le> length q \<and> prefix q flag then markPrefix flag (map_of m q) else map_of m q)"
proof -
  have "(\<exists>n\<in>{3..<Suc (length flag)}. q = take n flag) \<longleftrightarrow> 3 \<le> length q \<and> prefix q flag"
    by (auto simp: take_is_prefix less_Suc_eq_le prefix_length_le)
      (metis atLeastLessThan_iff le_imp_less_Suc min.absorb2 prefix_length_le take_all_iff
        append_eq_conv_conj prefix_def)
  then have "map_of (fold (\<lambda>n. addPrefix flag (take n flag)) [3..<Suc (length flag)] m) q =
      (if 3 \<le> length q \<and> prefix q flag then markPrefix flag (map_of m q) else map_of m q)"
    by (simp only: map_of_fold_addPrefix set_upt)
  then show ?thesis using prefix_length_le [of q flag]
    by (auto simp: addPrefixes_def simp del: upt_Suc)
qed

lemma map_of_build: "map_of (fold addPrefixes fs m) q =
    fold markPrefix (filter (\<lambda>f. prefix ''--'' f \<and> 3 \<le> length q \<and> prefix q f) fs) (map_of m q)"
  by (induction fs arbitrary: m) (simp_all add: map_of_addPrefixes)

lemma fold_markPrefix:
  "(fold markPrefix cs None = None \<longleftrightarrow> cs = []) \<and> (\<forall>f. fold markPrefix cs None = Some (Some f) \<longleftrightarrow> set cs = {f})"
proof (induction cs rule: rev_induct)
  case (snoc g cs)
  then show ?case
    by (cases "cs = []") (auto simp: markPrefix_def subset_singleton_iff)
qed simp

lemma resolveCanonicalLongFlag_standsFor:
  assumes "list_all (prefix ''--'') known"
  shows "resolveCanonicalLongFlag flag known (buildLongFlagPrefixMap known) = Some f \<longleftrightarrow> standsFor (set known) flag f"
proof -
  have *: "map_of (buildLongFlagPrefixMap known) flag = Some (Some f) \<longleftrightarrow> {g \<in> set known. prefix flag g} = {f}"
    if l: "prefix ''--'' flag" "2 < length flag"
  proof -
    from l assms have "filter (\<lambda>f. prefix ''--'' f \<and> 3 \<le> length flag \<and> prefix flag f) known = filter (prefix flag) known"
      by (intro filter_cong) (auto simp: list_all_iff)
    then show ?thesis
      using fold_markPrefix [of "filter (prefix flag) known"]
      by (simp add: buildLongFlagPrefixMap_def map_of_build)
  qed
  show ?thesis
  proof (cases "prefix ''--'' flag \<and> 2 < length flag")
    case True
    with * show ?thesis
      by (cases "map_of (buildLongFlagPrefixMap known) flag") (auto simp: resolveCanonicalLongFlag_def standsFor_def)
  qed (auto simp: resolveCanonicalLongFlag_def standsFor_def)
qed

section \<open>The grammar\<close>

text \<open>The options that a profile accepts, for given allowed and denied flags: a long option stands for an
  allowed flag and has a value, inline or after it; a cluster of short ones has one that takes a
  value, inline or after it, and none that is denied up to there. A value is a literal: no glob and
  nothing that looks like a path. \<open>takes A D a rest n\<close>: the option \<open>a\<close> takes \<open>n\<close> of the arguments after it.\<close>

definition valueAfter :: "string list \<Rightarrow> bool" where
  "valueAfter rest \<longleftrightarrow> (\<exists>v vs. rest = v # vs \<and> v \<noteq> [] \<and> isSafeLiteralToken v)"

inductive takes :: "string set \<Rightarrow> string set \<Rightarrow> string \<Rightarrow> string list \<Rightarrow> nat \<Rightarrow> bool" for A D where
  long_inline: "standsFor {f \<in> A \<union> D. prefix ''--'' f} flag f \<Longrightarrow> f \<in> A \<Longrightarrow> f \<notin> D \<Longrightarrow> CHR ''='' \<notin> set flag \<Longrightarrow>
     isSafeLiteralToken v \<Longrightarrow> takes A D (flag @ CHR ''='' # v) rest 0"
| long_value: "standsFor {f \<in> A \<union> D. prefix ''--'' f} flag f \<Longrightarrow> f \<in> A \<Longrightarrow> f \<notin> D \<Longrightarrow> CHR ''='' \<notin> set flag \<Longrightarrow>
     valueAfter rest \<Longrightarrow> takes A D flag rest 1"
| short_inline: "(\<And>x. x \<in> set pre \<Longrightarrow> [CHR ''-'', x] \<notin> A \<union> D) \<Longrightarrow> [CHR ''-'', c] \<in> A \<Longrightarrow> [CHR ''-'', c] \<notin> D \<Longrightarrow>
     \<not> prefix ''-'' (pre @ [c]) \<Longrightarrow> v \<noteq> [] \<Longrightarrow> isSafeLiteralToken v \<Longrightarrow> takes A D (''-'' @ pre @ c # v) rest 0"
| short_value: "(\<And>x. x \<in> set pre \<Longrightarrow> [CHR ''-'', x] \<notin> A \<union> D) \<Longrightarrow> [CHR ''-'', c] \<in> A \<Longrightarrow> [CHR ''-'', c] \<notin> D \<Longrightarrow>
     \<not> prefix ''-'' (pre @ [c]) \<Longrightarrow> valueAfter rest \<Longrightarrow> takes A D (''-'' @ pre @ [c]) rest 1"

text \<open>An argument vector with its positional arguments.\<close>

inductive reads :: "string set \<Rightarrow> string set \<Rightarrow> string list \<Rightarrow> string list \<Rightarrow> bool" for A D where
  reads_done: "reads A D [] []"
| reads_skip: "a = [] \<or> a = ''-'' \<Longrightarrow> reads A D args pos \<Longrightarrow> reads A D (a # args) pos"
| reads_rest: "list_all isSafeLiteralToken args \<Longrightarrow> reads A D (''--'' # args) (positionalRest args)"
| reads_positional: "a \<noteq> [] \<Longrightarrow> \<not> prefix ''-'' a \<Longrightarrow> isSafeLiteralToken a \<Longrightarrow> reads A D args pos \<Longrightarrow>
     reads A D (a # args) (a # pos)"
| reads_option: "takes A D a args n \<Longrightarrow> reads A D (drop n args) pos \<Longrightarrow> reads A D (a # args) pos"

lemma isInvalidValueToken_iff: "isInvalidValueToken rest \<longleftrightarrow> \<not> valueAfter rest"
  by (cases rest) (auto simp: isInvalidValueToken_def valueAfter_def)

lemma positionalRest_literal: "list_all isSafeLiteralToken (positionalRest rest) \<longleftrightarrow> list_all isSafeLiteralToken rest"
  by (auto simp: positionalRest_def list_all_iff isSafeLiteralToken_def)

lemma ex_split_Cons: "(\<exists>pre c v. x # xs = pre @ c # v \<and> Q pre c v) \<longleftrightarrow>
    Q [] x xs \<or> (\<exists>pre c v. xs = pre @ c # v \<and> Q (x # pre) c v)"
  by (simp add: Cons_eq_append_conv) blast

lemma cluster_takes:
  "consumeShortOptionClusterToken rest cluster A D = Some n \<longleftrightarrow>
   (\<exists>pre c v. cluster = pre @ c # v \<and> (\<forall>x\<in>set pre. [CHR ''-'', x] \<notin> set A \<union> set D) \<and>
      [CHR ''-'', c] \<in> set A \<and> [CHR ''-'', c] \<notin> set D \<and>
      (if v \<noteq> [] then isSafeLiteralToken v \<and> n = 0 else valueAfter rest \<and> n = 1))"
proof (induction cluster)
  case (Cons x xs)
  show ?case
    by (simp only: ex_split_Cons consumeShortOptionClusterToken.simps isInvalidValueToken_iff Cons.IH split: if_splits)
      auto
qed simp

inductive_simps reads_Cons_iff: "reads A D (a # args) pos"
inductive_simps reads_Nil_iff [simp]: "reads A D [] pos"

lemma standsFor_known: "standsFor K flag f \<Longrightarrow> f \<in> K"
  unfolding standsFor_def by (auto split: if_splits)

lemma long_takes:
  assumes "set K = {f \<in> set A \<union> set D. prefix ''--'' f}"
  shows "consumeLongOptionToken rest flag inl A D K (buildLongFlagPrefixMap K) = Some n \<longleftrightarrow>
    (\<exists>f. standsFor (set K) flag f \<and> f \<in> set A \<and> f \<notin> set D \<and>
      (case inl of Some v \<Rightarrow> isSafeLiteralToken v \<and> n = 0 | None \<Rightarrow> valueAfter rest \<and> n = 1))"
proof -
  have K: "list_all (prefix ''--'') K" using assms by (auto simp: list_all_iff)
  note c = resolveCanonicalLongFlag_standsFor [OF K, of flag]
  have A: "f \<in> set A" if "standsFor (set K) flag f" "f \<notin> set D" for f
    using standsFor_known [OF that(1)] that(2) assms by auto
  show ?thesis
  proof (cases "resolveCanonicalLongFlag flag K (buildLongFlagPrefixMap K)")
    case None
    with c have "\<not> standsFor (set K) flag f" for f by (metis option.distinct(1))
    with None show ?thesis by (simp add: consumeLongOptionToken_def)
  next
    case (Some g)
    with c have g: "standsFor (set K) flag f \<longleftrightarrow> g = f" for f by simp
    with A [of g] have "g \<in> set D \<or> g \<in> set A" by blast
    with Some show ?thesis
      by (cases inl) (auto simp: consumeLongOptionToken_def g isInvalidValueToken_iff)
  qed
qed

lemma split_first: "(s = a @ d # b \<and> d \<notin> set a) \<longleftrightarrow>
    d \<in> set s \<and> a = takeWhile (\<lambda>c. c \<noteq> d) s \<and> b = tl (dropWhile (\<lambda>c. c \<noteq> d) s)"
proof (induction s arbitrary: a)
  case (Cons x s)
  show ?case
  proof (cases a)
    case Nil
    then show ?thesis by auto
  next
    case (Cons y ys)
    with Cons.IH [of ys] show ?thesis by auto
  qed
qed simp

lemma parse_long: "parseExecArgvToken raw = TLong flag inl \<longleftrightarrow> prefix ''--'' raw \<and> raw \<noteq> ''--'' \<and>
    (case inl of None \<Rightarrow> CHR ''='' \<notin> set raw \<and> flag = raw
     | Some v \<Rightarrow> raw = flag @ CHR ''='' # v \<and> CHR ''='' \<notin> set flag)"
proof (cases inl)
  case None
  then show ?thesis by (cases raw) (auto simp: parseExecArgvToken_def)
next
  case (Some v)
  show ?thesis
    unfolding Some option.case split_first
    by (cases raw) (auto simp: parseExecArgvToken_def)
qed

lemma parse_short: "parseExecArgvToken raw = TShort cluster flags \<longleftrightarrow>
    raw = CHR ''-'' # cluster \<and> cluster \<noteq> [] \<and> \<not> prefix ''-'' cluster \<and> flags = map (\<lambda>c. [CHR ''-'', c]) cluster"
  by (cases raw) (auto simp: parseExecArgvToken_def)

text \<open>An option that the loop consumes is one that the grammar takes.\<close>

lemma option_takes:
  assumes K: "set K = {f \<in> set A \<union> set D. prefix ''--'' f}"
  shows "takes (set A) (set D) raw rest n \<longleftrightarrow>
    (case parseExecArgvToken raw of
       TLong flag inl \<Rightarrow> consumeLongOptionToken rest flag inl A D K (buildLongFlagPrefixMap K) = Some n
     | TShort cluster flags \<Rightarrow> consumeShortOptionClusterToken rest cluster A D = Some n
     | _ \<Rightarrow> False)" (is "_ \<longleftrightarrow> ?code")
proof
  assume "takes (set A) (set D) raw rest n"
  then show ?code
  proof cases
    case (long_inline flag f v)
    then have "parseExecArgvToken raw = TLong flag (Some v)"
      unfolding parse_long by (auto simp: standsFor_def prefix_def)
    with long_inline show ?thesis by (auto simp: long_takes [OF K] K)
  next
    case (long_value f)
    then have "parseExecArgvToken raw = TLong raw None"
      unfolding parse_long by (auto simp: standsFor_def)
    with long_value show ?thesis by (auto simp: long_takes [OF K] K)
  next
    case (short_inline pre c v)
    then have "parseExecArgvToken raw = TShort (pre @ c # v) (map (\<lambda>c. [CHR ''-'', c]) (pre @ c # v))"
      unfolding parse_short by (cases pre) auto
    with short_inline show ?thesis by (auto simp: cluster_takes)
  next
    case (short_value pre c)
    then have "parseExecArgvToken raw = TShort (pre @ [c]) (map (\<lambda>c. [CHR ''-'', c]) (pre @ [c]))"
      unfolding parse_short by auto
    with short_value show ?thesis by (auto simp: cluster_takes)
  qed
next
  assume code: ?code
  show "takes (set A) (set D) raw rest n"
  proof (cases "parseExecArgvToken raw")
    case (TLong flag inl)
    note p = this [unfolded parse_long]
    from code TLong obtain f where f: "standsFor {f \<in> set A \<union> set D. prefix ''--'' f} flag f" "f \<in> set A" "f \<notin> set D"
      "case inl of Some v \<Rightarrow> isSafeLiteralToken v \<and> n = 0 | None \<Rightarrow> valueAfter rest \<and> n = 1"
      by (auto simp: long_takes [OF K] K)
    with p show ?thesis
      using takes.long_inline [OF f(1-3)] takes.long_value [OF f(1-3)] by (cases inl) auto
  next
    case (TShort cluster flags)
    note p = this [unfolded parse_short]
    from code TShort obtain pre c v where c: "cluster = pre @ c # v" "\<forall>x\<in>set pre. [CHR ''-'', x] \<notin> set A \<union> set D"
      "[CHR ''-'', c] \<in> set A" "[CHR ''-'', c] \<notin> set D"
      "if v \<noteq> [] then isSafeLiteralToken v \<and> n = 0 else valueAfter rest \<and> n = 1"
      by (auto simp: cluster_takes)
    with p have "\<not> prefix ''-'' (pre @ [c])" by (cases pre) auto
    with c p show ?thesis
      using takes.short_inline [of pre "set A" "set D" c v rest] takes.short_value [of pre "set A" "set D" c rest]
      by (auto split: if_splits)
  qed (use code in auto)
qed

lemma parse_other:
  "parseExecArgvToken raw = TEmpty \<longleftrightarrow> raw = []" "parseExecArgvToken raw = TStdin \<longleftrightarrow> raw = ''-''"
  "parseExecArgvToken raw = TTerminator \<longleftrightarrow> raw = ''--''"
  "parseExecArgvToken raw = TPositional a \<longleftrightarrow> raw = a \<and> raw \<noteq> [] \<and> \<not> prefix ''-'' raw"
  by (cases raw; auto simp: parseExecArgvToken_def)+

lemma parse_values [simp]:
  "parseExecArgvToken [] = TEmpty" "parseExecArgvToken ''-'' = TStdin" "parseExecArgvToken ''--'' = TTerminator"
  by (simp_all add: parse_other)

lemma validateLoop_reads:
  assumes K: "set K = {f \<in> set A \<union> set D. prefix ''--'' f}"
  shows "validateLoop A D K (buildLongFlagPrefixMap K) args positional = Some pos \<longleftrightarrow>
    (\<exists>p. pos = positional @ p \<and> reads (set A) (set D) args p)"
proof (induction "length args" arbitrary: args positional rule: less_induct)
  case less
  let ?loop = "validateLoop A D K (buildLongFlagPrefixMap K)"
  show ?case
  proof (cases args)
    case (Cons raw rest)
    have IH: "?loop (drop n rest) q = Some pos \<longleftrightarrow> (\<exists>p. pos = q @ p \<and> reads (set A) (set D) (drop n rest) p)" for n q
      using less [of "drop n rest" q] Cons by simp
    have plain: "?loop rest q = Some pos \<longleftrightarrow> (\<exists>p. pos = q @ p \<and> reads (set A) (set D) rest p)" for q
      using IH [of 0 q] by simp
    note opt = option_takes [OF K, of raw rest]
    show ?thesis
    proof (cases "parseExecArgvToken raw")
      case TEmpty
      with opt have "\<not> takes (set A) (set D) raw rest n" for n by simp
      with TEmpty show ?thesis unfolding Cons reads_Cons_iff by (simp add: plain parse_other)
    next
      case TStdin
      with opt have "\<not> takes (set A) (set D) raw rest n" for n by simp
      with TStdin show ?thesis unfolding Cons reads_Cons_iff by (simp add: plain parse_other)
    next
      case TTerminator
      with opt have "\<not> takes (set A) (set D) raw rest n" for n by simp
      with TTerminator show ?thesis unfolding Cons reads_Cons_iff
        by (auto simp: parse_other positionalRest_literal)
    next
      case (TPositional a)
      with opt have "\<not> takes (set A) (set D) raw rest n" for n by simp
      moreover from TPositional parse_other(4) [of raw a] have "a = raw" "raw \<noteq> []" "\<not> prefix ''-'' raw" by auto
      moreover from this have "raw \<noteq> ''-''" "raw \<noteq> ''--''" by auto
      ultimately show ?thesis using TPositional unfolding Cons reads_Cons_iff by (auto simp: plain)
    next
      case (TLong flag inl)
      with parse_long [of raw flag inl] have "raw \<noteq> []" "raw \<noteq> ''-''" "raw \<noteq> ''--''" "prefix ''-'' raw"
        by (auto simp: prefix_def)
      with TLong opt show ?thesis unfolding Cons reads_Cons_iff
        by (auto simp: IH split: option.splits)
    next
      case (TShort cluster flags)
      with parse_short [of raw cluster flags] have "raw \<noteq> []" "raw \<noteq> ''-''" "raw \<noteq> ''--''" "prefix ''-'' raw"
        by (auto simp: prefix_def)
      with TShort opt show ?thesis unfolding Cons reads_Cons_iff
        by (auto simp: IH split: option.splits)
    qed
  qed auto
qed

section \<open>Properties\<close>

lemma collectKnown: "set (collectKnownLongFlags A D) = {f \<in> set A \<union> set D. prefix ''--'' f}"
  by (auto simp: collectKnownLongFlags_def)

lemma js_uniq_distinct: "distinct xs \<Longrightarrow> js_uniq xs = xs"
  by (simp add: js_uniq_def distinct_remdups_id)

lemma known_uniq: "js_uniq (collectKnownLongFlags A D) = collectKnownLongFlags A D"
  by (simp add: js_uniq_distinct collectKnownLongFlags_def)

text \<open>The precomputed tables of a profile are only a shortcut.\<close>

lemma metadata_optional:
  "validateSafeBinArgv args ((compileSafeBinProfile fixture)\<lparr>sb_knownLongFlags := None,
     sb_knownLongFlagsSet := None, sb_longFlagPrefixMap := None\<rparr>) =
   validateSafeBinArgv args (compileSafeBinProfile fixture)"
  by (simp add: validateSafeBinArgv_def compileSafeBinProfile_def optFlags_def Let_def validatePositionalCount_def
      split: option.splits)

text \<open>C29: A safe binary's arguments are accepted exactly if the grammar reads them and the number of
  positional arguments fits: every option stands, by its name or an unambiguous abbreviation, for a flag that
  may carry a value and is not denied, it has a value, and no value and no positional argument is a glob
  or looks like a path. The table of prefixes that the code computes decides abbreviations correctly.\<close>

theorem safe_bin_argv_grammar:
  "validateSafeBinArgv args (compileSafeBinProfile fixture) \<longleftrightarrow>
   (\<exists>pos. reads (set (optFlags (sf_allowedValueFlags fixture))) (set (optFlags (sf_deniedFlags fixture))) args pos \<and>
      validatePositionalCount pos (compileSafeBinProfile fixture))"
proof -
  let ?A = "toFlagSet (sf_allowedValueFlags fixture)" and ?D = "toFlagSet (sf_deniedFlags fixture)"
  let ?K = "collectKnownLongFlags ?A ?D"
  have "validateSafeBinArgv args (compileSafeBinProfile fixture) \<longleftrightarrow>
      (\<exists>pos. validateLoop ?A ?D ?K (buildLongFlagPrefixMap ?K) args [] = Some pos \<and>
        validatePositionalCount pos (compileSafeBinProfile fixture))"
    by (simp add: validateSafeBinArgv_def compileSafeBinProfile_def optFlags_def [of "Some _"] Let_def known_uniq
        split: option.splits)
  then show ?thesis
    by (simp add: validateLoop_reads [OF collectKnown] toFlagSet_def)
qed

text \<open>Two vectors that the table of the code accepts although the program then reads a file: the option
  \<open>--group\<close> of \<open>uniq\<close> takes its value inline only, so what follows is the input file; and \<open>--args\<close> of
  \<open>jq\<close>, which takes no value, counts as an abbreviation of \<open>--argstr\<close>, so the denied \<open>-f\<close> after it counts
  as its value.\<close>

lemma uniq_group_file_accepted:
  "validateSafeBinArgv [''--group'', ''secrets.txt''] (compileSafeBinProfile (the (map_of SAFE_BIN_PROFILE_FIXTURES ''uniq'')))"
  by code_simp

lemma jq_program_file_accepted:
  "validateSafeBinArgv [''--args'', ''-f'', ''secrets.txt''] (compileSafeBinProfile (the (map_of SAFE_BIN_PROFILE_FIXTURES ''jq'')))"
  by code_simp

end
