(* ===== verification/Exec_Allowlist.thy ===== *)
theory Exec_Allowlist
  imports Safe_Bins Shell_Analysis
begin

text \<open>
  \<open>src/infra/exec-approvals-allowlist.ts\<close>: whether every segment of a command is covered by the
  allowlist, by a safe binary or by a binary of a skill, and which patterns an approval for good
  adds to the allowlist.
\<close>

section \<open>Safe binaries\<close>

definition DEFAULT_SAFE_BINS :: "string list" where
  "DEFAULT_SAFE_BINS = [''jq'', ''cut'', ''uniq'', ''head'', ''tail'', ''tr'', ''wc'']"

definition hasShellLineContinuation :: "string \<Rightarrow> bool" where
  "hasShellLineContinuation command \<longleftrightarrow> sublist [BS, NL] command \<or> sublist [BS, CR] command"

definition normalizeSafeBins :: "string list option \<Rightarrow> string list" where
  "normalizeSafeBins entries =
     js_uniq (filter (\<lambda>e. e \<noteq> []) (map (\<lambda>e. js_lower (js_trim e)) (optFlags entries)))"

text \<open>The outer option is \<open>undefined\<close>, the inner one \<open>null\<close>.\<close>

definition resolveSafeBins :: "string list option option \<Rightarrow> string list" where
  "resolveSafeBins entries =
     (case entries of None \<Rightarrow> normalizeSafeBins (Some DEFAULT_SAFE_BINS) | Some e \<Rightarrow> normalizeSafeBins e)"

record skillBinTrustEntry =
  sk_name :: string
  sk_resolvedPath :: string

record allowlistContext =
  ac_allowlist :: "allowlistEntry list"
  ac_safeBins :: "string list"
  ac_safeBinProfiles :: "(string \<times> safeBinProfile) list option"
  ac_cwd :: "string option"
  ac_platform :: "string option"
  ac_trustedSafeBinDirs :: "string list option"
  ac_skillBins :: "skillBinTrustEntry list"
  ac_autoAllowSkills :: bool

definition trustedDirsOf :: "execHost \<Rightarrow> allowlistContext \<Rightarrow> string list" where
  "trustedDirsOf h ctx = (case ac_trustedSafeBinDirs ctx of
     Some dirs \<Rightarrow> dirs | None \<Rightarrow> buildTrustedSafeBinDirs h DEFAULT_SAFE_BIN_TRUSTED_DIRS [])"

definition isSafeBinUsage :: "execHost \<Rightarrow> allowlistContext \<Rightarrow> string list \<Rightarrow> commandResolution option \<Rightarrow> bool" where
  "isSafeBinUsage h ctx argv resolution =
     (if isWindowsPlatform (ac_platform ctx) then False
      else case resolution of
        None \<Rightarrow> False
      | Some r \<Rightarrow>
          (let execName = js_lower (cr_executableName r);
               profiles = (case ac_safeBinProfiles ctx of Some ps \<Rightarrow> ps | None \<Rightarrow> SAFE_BIN_PROFILES)
           in execName \<noteq> [] \<and> execName \<in> set (ac_safeBins ctx) \<and> js_or_empty (cr_resolvedPath r) \<noteq> [] \<and>
              isTrustedSafeBinPath h (js_or_empty (cr_resolvedPath r)) (trustedDirsOf h ctx) \<and>
              (case map_of profiles execName of None \<Rightarrow> False | Some profile \<Rightarrow> validateSafeBinArgv (drop 1 argv) profile)))"

section \<open>Binaries of skills\<close>

definition normalizeSkillBinName :: "string option \<Rightarrow> string option" where
  "normalizeSkillBinName value = js_some (js_lower (js_trim (js_or_empty value)))"

definition normalizeSkillBinResolvedPath :: "execHost \<Rightarrow> string option \<Rightarrow> string option" where
  "normalizeSkillBinResolvedPath h value =
     (let trimmed = js_trim (js_or_empty value) in
      if trimmed = [] then None else Some (pathResolve (xh_processCwd h) [trimmed]))"

type_synonym skillTrust = "(string \<times> string list) list"

definition addSkillTrust :: "execHost \<Rightarrow> skillBinTrustEntry \<Rightarrow> skillTrust \<Rightarrow> skillTrust" where
  "addSkillTrust h entry trustByName =
     (case (normalizeSkillBinName (Some (sk_name entry)), normalizeSkillBinResolvedPath h (Some (sk_resolvedPath entry))) of
        (Some name, Some resolvedPath) \<Rightarrow>
          AList.update name (js_uniq (optFlags (map_of trustByName name) @ [resolvedPath])) trustByName
      | _ \<Rightarrow> trustByName)"

definition buildSkillBinTrustIndex :: "execHost \<Rightarrow> skillBinTrustEntry list \<Rightarrow> skillTrust" where
  "buildSkillBinTrustIndex h entries = fold (addSkillTrust h) entries []"

definition isSkillAutoAllowedSegment :: "execHost \<Rightarrow> execSegment \<Rightarrow> bool \<Rightarrow> skillTrust \<Rightarrow> bool" where
  "isSkillAutoAllowedSegment h segment allowSkills skillBinTrust =
     (if \<not> allowSkills then False
      else case sg_resolution segment of
        None \<Rightarrow> False
      | Some r \<Rightarrow>
          (let rawExecutable = js_trim (cr_rawExecutable r) in
           js_or_empty (cr_resolvedPath r) \<noteq> [] \<and> rawExecutable \<noteq> [] \<and> \<not> hasPathSeparator rawExecutable \<and>
           (case (normalizeSkillBinName (Some (cr_executableName r)), normalizeSkillBinResolvedPath h (cr_resolvedPath r)) of
              (Some executableName, Some resolvedPath) \<Rightarrow>
                resolvedPath \<in> set (optFlags (map_of skillBinTrust executableName))
            | _ \<Rightarrow> False)))"

section \<open>Shells\<close>

definition hasSegmentExecutableMatch :: "execSegment \<Rightarrow> (string \<Rightarrow> bool) \<Rightarrow> bool" where
  "hasSegmentExecutableMatch segment predicate \<longleftrightarrow>
     list_ex (\<lambda>candidate. js_trim candidate \<noteq> [] \<and> predicate (js_trim candidate))
       [js_or_empty (map_option cr_executableName (sg_resolution segment)),
        js_or_empty (map_option cr_rawExecutable (sg_resolution segment)),
        (case sg_argv segment of [] \<Rightarrow> [] | a # _ \<Rightarrow> a)]"

definition isShellWrapperSegment :: "execSegment \<Rightarrow> bool" where
  "isShellWrapperSegment segment = hasSegmentExecutableMatch segment isShellWrapperExecutable"

definition isDispatchWrapperSegment :: "execSegment \<Rightarrow> bool" where
  "isDispatchWrapperSegment segment = hasSegmentExecutableMatch segment isDispatchWrapperExecutable"

definition SHELL_WRAPPER_OPTIONS_WITH_VALUE :: "string list" where
  "SHELL_WRAPPER_OPTIONS_WITH_VALUE =
    [''-c'', ''--command'', ''-o'', ''-O'', ''+O'', ''--rcfile'', ''--init-file'', ''--startup-file'']"

text \<open>\<open>/^-[^-]*x[^-]*$/i\<close>\<close>

definition clusterWith :: "char \<Rightarrow> string \<Rightarrow> bool" where
  "clusterWith x token \<longleftrightarrow> (case token of
     [] \<Rightarrow> False | c # cs \<Rightarrow> c = CHR ''-'' \<and> CHR ''-'' \<notin> set cs \<and> x \<in> set (js_lower cs))"

text \<open>The arguments from the script on; none if the shell reads its command elsewhere.\<close>

fun scriptArgs :: "string list \<Rightarrow> string list" where
  "scriptArgs [] = []"
| "scriptArgs (raw # rest) =
     (let token = js_trim raw in
      if token = [] then scriptArgs rest
      else if token = ''--'' then rest
      else if token = ''-c'' \<or> token = ''--command'' then []
      else if clusterWith CHR ''c'' token then []
      else if token = ''-s'' \<or> clusterWith CHR ''s'' token then []
      else if token \<in> set SHELL_WRAPPER_OPTIONS_WITH_VALUE then scriptArgs (drop 1 rest)
      else if prefix ''-'' token \<or> prefix ''+'' token then scriptArgs rest
      else raw # rest)"

definition resolveShellWrapperScriptCandidatePath ::
    "execHost \<Rightarrow> execSegment \<Rightarrow> string option \<Rightarrow> string option" where
  "resolveShellWrapperScriptCandidatePath h segment cwd =
     (if \<not> isShellWrapperSegment segment \<or> length (sg_argv segment) < 2 then None
      else (let scriptToken = token0 (scriptArgs (tl (sg_argv segment)));
                expanded = (if prefix ''~'' scriptToken then expandHomePrefix h scriptToken else scriptToken);
                base = (if js_trim (js_or_empty cwd) \<noteq> [] then js_or_empty cwd else xh_processCwd h)
            in if scriptToken = [] then None
               else if isAbsolutePath scriptToken then Some scriptToken
               else Some (pathResolve (xh_processCwd h) [base, expanded])))"

section \<open>Evaluation\<close>

definition effectiveArgvOf :: "execSegment \<Rightarrow> string list" where
  "effectiveArgvOf segment =
     (let effective = optFlags (Option.bind (sg_resolution segment) cr_effectiveArgv)
      in if effective \<noteq> [] then effective else sg_argv segment)"

text \<open>The entry of the allowlist that covers the executable, or else the script that a shell runs.\<close>

definition segmentMatch :: "execHost \<Rightarrow> allowlistContext \<Rightarrow> execSegment \<Rightarrow> allowlistEntry option" where
  "segmentMatch h ctx segment =
     (let allowlistSegment = segment\<lparr>sg_argv := effectiveArgvOf segment\<rparr>;
          candidatePath = resolveAllowlistCandidatePath h (sg_resolution segment) (ac_cwd ctx);
          candidateResolution = (if js_or_empty candidatePath = [] then sg_resolution segment
            else map_option (\<lambda>r. r\<lparr>cr_resolvedPath := candidatePath\<rparr>) (sg_resolution segment));
          executableMatch = matchAllowlist h (ac_allowlist ctx) candidateResolution;
          shellScriptCandidatePath = (if extractShellWrapperInlineCommand (sg_argv allowlistSegment) = None
            then resolveShellWrapperScriptCandidatePath h allowlistSegment (ac_cwd ctx) else None);
          shellScriptMatch = (case shellScriptCandidatePath of
             None \<Rightarrow> None
           | Some p \<Rightarrow> if p = [] then None else matchAllowlist h (ac_allowlist ctx)
               (Some \<lparr>cr_rawExecutable = p, cr_resolvedPath = Some p, cr_resolvedRealPath = None,
                 cr_executableName = posixBasename p, cr_effectiveArgv = None, cr_wrapperChain = None,
                 cr_policyBlocked = None, cr_blockedWrapper = None\<rparr>))
      in js_coalesce executableMatch shellScriptMatch)"

definition policyBlockedSegment :: "execSegment \<Rightarrow> bool" where
  "policyBlockedSegment segment \<longleftrightarrow> Option.bind (sg_resolution segment) cr_policyBlocked = Some True"

definition allowSkillsOf :: "execHost \<Rightarrow> allowlistContext \<Rightarrow> bool" where
  "allowSkillsOf h ctx \<longleftrightarrow> ac_autoAllowSkills ctx \<and> buildSkillBinTrustIndex h (ac_skillBins ctx) \<noteq> []"

text \<open>What covers one segment, with its entry of the allowlist.\<close>

definition evaluateSegment ::
    "execHost \<Rightarrow> allowlistContext \<Rightarrow> execSegment \<Rightarrow> allowlistEntry option \<times> satisfiedBy option" where
  "evaluateSegment h ctx segment =
     (if policyBlockedSegment segment then (None, None)
      else (let m = segmentMatch h ctx segment in
            (m, if m \<noteq> None then Some ByAllowlist
                else if isSafeBinUsage h ctx (effectiveArgvOf segment) (sg_resolution segment) then Some BySafeBins
                else if isSkillAutoAllowedSegment h segment (allowSkillsOf h ctx)
                  (buildSkillBinTrustIndex h (ac_skillBins ctx)) then Some BySkills
                else None)))"

record allowlistEvaluation =
  ev_satisfied :: bool
  ev_matches :: "allowlistEntry list"
  ev_satisfiedBy :: "satisfiedBy option list"

text \<open>\<open>every\<close> stops at the first segment that is not covered.\<close>

fun evaluateSegments :: "execHost \<Rightarrow> allowlistContext \<Rightarrow> execSegment list \<Rightarrow> allowlistEvaluation" where
  "evaluateSegments h ctx [] = \<lparr>ev_satisfied = True, ev_matches = [], ev_satisfiedBy = []\<rparr>"
| "evaluateSegments h ctx (segment # segments) =
     (case evaluateSegment h ctx segment of
        (m, by') \<Rightarrow>
          (let ms = (case m of None \<Rightarrow> [] | Some e \<Rightarrow> [e]) in
           if by' = None then \<lparr>ev_satisfied = False, ev_matches = ms, ev_satisfiedBy = [by']\<rparr>
           else (let r = evaluateSegments h ctx segments in
             \<lparr>ev_satisfied = ev_satisfied r, ev_matches = ms @ ev_matches r,
              ev_satisfiedBy = by' # ev_satisfiedBy r\<rparr>)))"

definition unsatisfied :: allowlistEvaluation where
  "unsatisfied = \<lparr>ev_satisfied = False, ev_matches = [], ev_satisfiedBy = []\<rparr>"

fun evaluateGroups :: "execHost \<Rightarrow> allowlistContext \<Rightarrow> bool \<Rightarrow> execSegment list list \<Rightarrow> allowlistEvaluation" where
  "evaluateGroups h ctx hasChains [] = \<lparr>ev_satisfied = True, ev_matches = [], ev_satisfiedBy = []\<rparr>"
| "evaluateGroups h ctx hasChains (segs # groups) =
     (let result = evaluateSegments h ctx segs in
      if \<not> ev_satisfied result then (if hasChains then unsatisfied else result)
      else (let r = evaluateGroups h ctx hasChains groups in
        if \<not> ev_satisfied r then r
        else \<lparr>ev_satisfied = True, ev_matches = ev_matches result @ ev_matches r,
              ev_satisfiedBy = ev_satisfiedBy result @ ev_satisfiedBy r\<rparr>))"

definition evaluateExecAllowlist ::
    "execHost \<Rightarrow> allowlistContext \<Rightarrow> string + execAnalysis \<Rightarrow> allowlistEvaluation" where
  "evaluateExecAllowlist h ctx analysis =
     (case analysis of
        Inl reason \<Rightarrow> unsatisfied
      | Inr an \<Rightarrow>
          if an_segments an = [] then unsatisfied
          else (case an_chains an of
            Some groups \<Rightarrow> evaluateGroups h ctx True groups
          | None \<Rightarrow> evaluateGroups h ctx False [an_segments an]))"

record allowlistAnalysis =
  aa_analysisOk :: bool
  aa_allowlistSatisfied :: bool
  aa_allowlistMatches :: "allowlistEntry list"
  aa_segments :: "execSegment list"
  aa_segmentSatisfiedBy :: "satisfiedBy option list"

definition analysisFailure :: allowlistAnalysis where
  "analysisFailure = \<lparr>aa_analysisOk = False, aa_allowlistSatisfied = False, aa_allowlistMatches = [],
     aa_segments = [], aa_segmentSatisfiedBy = []\<rparr>"

definition withEvaluation :: "execSegment list \<Rightarrow> allowlistEvaluation \<Rightarrow> allowlistAnalysis" where
  "withEvaluation segments ev = \<lparr>aa_analysisOk = True, aa_allowlistSatisfied = ev_satisfied ev,
     aa_allowlistMatches = ev_matches ev, aa_segments = segments, aa_segmentSatisfiedBy = ev_satisfiedBy ev\<rparr>"

text \<open>The parts of a chain, up to the first that is not covered; \<open>acc\<close> is what came before.\<close>

fun evaluateParts ::
    "execHost \<Rightarrow> execOpts \<Rightarrow> allowlistContext \<Rightarrow> allowlistAnalysis \<Rightarrow> string list \<Rightarrow> allowlistAnalysis" where
  "evaluateParts h opts ctx acc [] = acc"
| "evaluateParts h opts ctx acc (part # parts) =
     (case analyzeShellCommand h opts (ac_platform ctx) part of
        Inl reason \<Rightarrow> analysisFailure
      | Inr an \<Rightarrow>
          (let ev = evaluateExecAllowlist h ctx (Inr an);
               acc' = \<lparr>aa_analysisOk = True, aa_allowlistSatisfied = ev_satisfied ev,
                 aa_allowlistMatches = aa_allowlistMatches acc @ ev_matches ev,
                 aa_segments = aa_segments acc @ an_segments an,
                 aa_segmentSatisfiedBy = aa_segmentSatisfiedBy acc @ ev_satisfiedBy ev\<rparr>
           in if \<not> ev_satisfied ev then acc' else evaluateParts h opts ctx acc' parts))"

definition evaluateShellAllowlist ::
    "execHost \<Rightarrow> (string \<Rightarrow> string option) option \<Rightarrow> allowlistContext \<Rightarrow> string \<Rightarrow> allowlistAnalysis" where
  "evaluateShellAllowlist h env ctx command =
     (let opts = \<lparr>xo_cwd = ac_cwd ctx, xo_env = env\<rparr> in
      if hasShellLineContinuation command then analysisFailure
      else case (if isWindowsPlatform (ac_platform ctx) then None else splitCommandChain command) of
        None \<Rightarrow>
          (case analyzeShellCommand h opts (ac_platform ctx) command of
             Inl reason \<Rightarrow> analysisFailure
           | Inr an \<Rightarrow> withEvaluation (an_segments an) (evaluateExecAllowlist h ctx (Inr an)))
      | Some chainParts \<Rightarrow> evaluateParts h opts ctx (withEvaluation [] (evaluateSegments h ctx [])) chainParts)"

section \<open>Patterns of an approval for good\<close>

definition addUnique :: "'a \<Rightarrow> 'a list \<Rightarrow> 'a list" where
  "addUnique x xs = (if x \<in> set xs then xs else xs @ [x])"

text \<open>Three levels of wrappers are looked into; the first argument counts those that are left.\<close>

fun collectAllowAlwaysPatterns ::
    "nat \<Rightarrow> execHost \<Rightarrow> execOpts \<Rightarrow> string option \<Rightarrow> execSegment \<Rightarrow> string list \<Rightarrow> string list" where
  "collectAllowAlwaysPatterns 0 h opts platform segment out = out"
| "collectAllowAlwaysPatterns (Suc n) h opts platform segment out =
     (let recurseWithArgv = (\<lambda>argv. collectAllowAlwaysPatterns n h opts platform
            (segmentOf h opts (js_join '' '' argv) argv) out) in
      if isDispatchWrapperSegment segment then
        (case unwrapKnownDispatchWrapperInvocation (sg_argv segment) of
           Unwrapped w argv \<Rightarrow> if argv = [] then out else recurseWithArgv argv
         | _ \<Rightarrow> out)
      else case unwrapKnownShellMultiplexerInvocation (sg_argv segment) of
        Blocked w \<Rightarrow> out
      | Unwrapped w argv \<Rightarrow> recurseWithArgv argv
      | NotWrapper \<Rightarrow>
          (let candidatePath = resolveAllowlistCandidatePath h (sg_resolution segment) (xo_cwd opts) in
           if js_or_empty candidatePath = [] then out
           else if \<not> isShellWrapperSegment segment then addUnique (js_or_empty candidatePath) out
           else (let inlineCommand = js_or_empty (extractShellWrapperInlineCommand (sg_argv segment)) in
             if inlineCommand = [] then
               (case resolveShellWrapperScriptCandidatePath h segment (xo_cwd opts) of
                  None \<Rightarrow> out | Some p \<Rightarrow> if p = [] then out else addUnique p out)
             else (case analyzeShellCommand h opts platform inlineCommand of
                Inl reason \<Rightarrow> out
              | Inr nested \<Rightarrow> fold (collectAllowAlwaysPatterns n h opts platform) (an_segments nested) out))))"

definition resolveAllowAlwaysPatterns ::
    "execHost \<Rightarrow> execOpts \<Rightarrow> string option \<Rightarrow> execSegment list \<Rightarrow> string list" where
  "resolveAllowAlwaysPatterns h opts platform segments =
     fold (collectAllowAlwaysPatterns 3 h opts platform) segments []"

section \<open>What covers a segment\<close>

text \<open>An entry covers a segment if it is the bare star or matches the path of the executable, or that of
  the script a shell runs.\<close>

definition entryCovers :: "execHost \<Rightarrow> allowlistContext \<Rightarrow> execSegment \<Rightarrow> allowlistEntry \<Rightarrow> bool" where
  "entryCovers h ctx segment e \<longleftrightarrow>
     js_trim (ale_pattern e) = ''*'' \<or>
     (\<exists>path. path \<noteq> [] \<and> entryMatches h path e \<and>
        (Some path = resolveAllowlistCandidatePath h (sg_resolution segment) (ac_cwd ctx) \<or>
         extractShellWrapperInlineCommand (effectiveArgvOf segment) = None \<and>
         Some path = resolveShellWrapperScriptCandidatePath h (segment\<lparr>sg_argv := effectiveArgvOf segment\<rparr>) (ac_cwd ctx)))"

definition segmentCovered :: "execHost \<Rightarrow> allowlistContext \<Rightarrow> execSegment \<Rightarrow> satisfiedBy option \<Rightarrow> bool" where
  "segmentCovered h ctx segment by' \<longleftrightarrow> \<not> policyBlockedSegment segment \<and>
     (case by' of
        None \<Rightarrow> False
      | Some ByAllowlist \<Rightarrow> \<exists>e\<in>set (ac_allowlist ctx). entryCovers h ctx segment e
      | Some BySafeBins \<Rightarrow> isSafeBinUsage h ctx (effectiveArgvOf segment) (sg_resolution segment)
      | Some BySkills \<Rightarrow> ac_autoAllowSkills ctx \<and>
          isSkillAutoAllowedSegment h segment True (buildSkillBinTrustIndex h (ac_skillBins ctx)))"

lemma find_member: "find P xs = Some x \<Longrightarrow> x \<in> set xs \<and> P x"
  by (auto simp: find_Some_iff)

lemma matchAllowlist_entry:
  assumes "matchAllowlist h entries resolution = Some e"
  shows "e \<in> set entries \<and> (js_trim (ale_pattern e) = ''*'' \<or>
    (\<exists>r path. resolution = Some r \<and> cr_resolvedPath r = Some path \<and> path \<noteq> [] \<and> entryMatches h path e))"
  using assms
  by (auto simp: matchAllowlist_def js_or_empty_def dest!: find_member split: option.splits if_splits)

lemma candidate_resolved:
  "cr_resolvedPath r = Some path \<Longrightarrow> path \<noteq> [] \<Longrightarrow> resolveAllowlistCandidatePath h (Some r) cwd = Some path"
  by (simp add: resolveAllowlistCandidatePath_def js_or_empty_def)

lemma segmentMatch_covers:
  assumes "segmentMatch h ctx segment = Some e"
  shows "e \<in> set (ac_allowlist ctx) \<and> entryCovers h ctx segment e"
proof -
  let ?candidate = "resolveAllowlistCandidatePath h (sg_resolution segment) (ac_cwd ctx)"
  let ?res = "if js_or_empty ?candidate = [] then sg_resolution segment
    else map_option (\<lambda>r. r\<lparr>cr_resolvedPath := ?candidate\<rparr>) (sg_resolution segment)"
  show ?thesis
  proof (cases "matchAllowlist h (ac_allowlist ctx) ?res")
    case (Some e')
    with assms have "e' = e" by (simp add: segmentMatch_def js_coalesce_def Let_def)
    have path: "?candidate = Some path" if "?res = Some r" "cr_resolvedPath r = Some path" "path \<noteq> []" for r path
    proof (cases "js_or_empty ?candidate = []")
      case True
      with that show ?thesis by (simp add: candidate_resolved)
    next
      case False
      with that(1) have "cr_resolvedPath r = ?candidate" by auto
      with that(2) show ?thesis by simp
    qed
    from matchAllowlist_entry [OF Some] have m: "e' \<in> set (ac_allowlist ctx)"
      "js_trim (ale_pattern e') = ''*'' \<or>
       (\<exists>r path. ?res = Some r \<and> cr_resolvedPath r = Some path \<and> path \<noteq> [] \<and> entryMatches h path e')" by auto
    from m(2) have "entryCovers h ctx segment e'"
    proof
      assume "\<exists>r path. ?res = Some r \<and> cr_resolvedPath r = Some path \<and> path \<noteq> [] \<and> entryMatches h path e'"
      then obtain r p where "?res = Some r" "cr_resolvedPath r = Some p" "p \<noteq> []" "entryMatches h p e'" by blast
      with path [of r p] show ?thesis unfolding entryCovers_def by metis
    qed (simp add: entryCovers_def)
    with m(1) \<open>e' = e\<close> show ?thesis by simp
  next
    case None
    let ?shell = "if extractShellWrapperInlineCommand (effectiveArgvOf segment) = None
      then resolveShellWrapperScriptCandidatePath h (segment\<lparr>sg_argv := effectiveArgvOf segment\<rparr>) (ac_cwd ctx) else None"
    let ?script = "\<lambda>p. \<lparr>cr_rawExecutable = p, cr_resolvedPath = Some p, cr_resolvedRealPath = None,
      cr_executableName = posixBasename p, cr_effectiveArgv = None, cr_wrapperChain = None,
      cr_policyBlocked = None, cr_blockedWrapper = None\<rparr>"
    have sg: "sg_argv (segment\<lparr>sg_argv := a\<rparr>) = a" for a by simp
    from assms have "(case ?shell of None \<Rightarrow> None
      | Some p \<Rightarrow> if p = [] then None else matchAllowlist h (ac_allowlist ctx) (Some (?script p))) = Some e"
      unfolding segmentMatch_def Let_def js_coalesce_def sg None by (simp only: option.case)
    then obtain p where p: "?shell = Some p" "p \<noteq> []" "matchAllowlist h (ac_allowlist ctx) (Some (?script p)) = Some e"
      by (cases ?shell) (simp_all split: if_splits)
    from p(1) have "extractShellWrapperInlineCommand (effectiveArgvOf segment) = None"
      "Some p = resolveShellWrapperScriptCandidatePath h (segment\<lparr>sg_argv := effectiveArgvOf segment\<rparr>) (ac_cwd ctx)"
      by (simp_all split: if_splits)
    with p(2) matchAllowlist_entry [OF p(3)] show ?thesis by (auto simp: entryCovers_def)
  qed
qed

lemma skill_allowed: "isSkillAutoAllowedSegment h segment allow trust \<longleftrightarrow>
    allow \<and> isSkillAutoAllowedSegment h segment True trust"
  by (simp add: isSkillAutoAllowedSegment_def)

lemma evaluateSegment_covered:
  assumes "evaluateSegment h ctx segment = (m, Some b)"
  shows "segmentCovered h ctx segment (Some b)"
proof (cases "segmentMatch h ctx segment")
  case None
  with assms skill_allowed [of h segment "allowSkillsOf h ctx"] show ?thesis
    by (auto simp: evaluateSegment_def segmentCovered_def allowSkillsOf_def Let_def split: if_splits)
next
  case (Some e)
  with assms segmentMatch_covers [OF Some] show ?thesis
    by (auto simp: evaluateSegment_def segmentCovered_def Let_def split: if_splits)
qed

lemma evaluateSegments_covered:
  "ev_satisfied (evaluateSegments h ctx segments) \<Longrightarrow>
   list_all2 (segmentCovered h ctx) segments (ev_satisfiedBy (evaluateSegments h ctx segments))"
proof (induction segments)
  case (Cons s ss)
  obtain m b where b: "evaluateSegment h ctx s = (m, b)" by (cases "evaluateSegment h ctx s")
  with Cons evaluateSegment_covered [of h ctx s m] show ?case by (cases b) (auto simp: Let_def)
qed simp

lemma evaluateGroups_covered:
  "ev_satisfied (evaluateGroups h ctx hasChains groups) \<Longrightarrow>
   list_all2 (segmentCovered h ctx) (concat groups) (ev_satisfiedBy (evaluateGroups h ctx hasChains groups))"
proof (induction groups)
  case (Cons g gs)
  then have "ev_satisfied (evaluateSegments h ctx g)" "ev_satisfied (evaluateGroups h ctx hasChains gs)"
    by (auto simp: Let_def unsatisfied_def split: if_splits)
  with Cons.IH evaluateSegments_covered [of h ctx g] show ?case
    by (simp add: Let_def list_all2_appendI)
qed simp

text \<open>The segments of an analysis are those of its chains.\<close>

lemma analyze_chains_concat:
  "analyzeShellCommand h opts platform command = Inr an \<Longrightarrow> an_chains an = Some groups \<Longrightarrow>
   concat groups = an_segments an"
  by (auto simp: analyzeShellCommand_def analyzeWindowsShellCommand_def split: if_splits option.splits sum.splits)

lemma evaluateExecAllowlist_covered:
  assumes "ev_satisfied (evaluateExecAllowlist h ctx (Inr an))"
    "\<And>groups. an_chains an = Some groups \<Longrightarrow> concat groups = an_segments an"
  shows "an_segments an \<noteq> [] \<and>
    list_all2 (segmentCovered h ctx) (an_segments an) (ev_satisfiedBy (evaluateExecAllowlist h ctx (Inr an)))"
proof (cases "an_segments an = []")
  case True
  with assms(1) show ?thesis by (simp add: evaluateExecAllowlist_def unsatisfied_def)
next
  case False
  then show ?thesis
  proof (cases "an_chains an")
    case None
    with False assms(1) evaluateGroups_covered [of h ctx False "[an_segments an]"] show ?thesis
      by (simp only: evaluateExecAllowlist_def sum.case option.case if_False) simp
  next
    case (Some groups)
    with False assms(1) assms(2) [OF Some] evaluateGroups_covered [of h ctx True groups] show ?thesis
      by (simp add: evaluateExecAllowlist_def)
  qed
qed

lemma evaluateParts_covered:
  "aa_allowlistSatisfied (evaluateParts h opts ctx acc parts) \<Longrightarrow> aa_allowlistSatisfied acc \<Longrightarrow>
   list_all2 (segmentCovered h ctx) (aa_segments acc) (aa_segmentSatisfiedBy acc) \<Longrightarrow>
   (\<exists>ans. list_all2 (\<lambda>part an. analyzeShellCommand h opts (ac_platform ctx) part = Inr an \<and> an_segments an \<noteq> []) parts ans \<and>
      aa_segments (evaluateParts h opts ctx acc parts) = aa_segments acc @ concat (map an_segments ans)) \<and>
   list_all2 (segmentCovered h ctx) (aa_segments (evaluateParts h opts ctx acc parts))
     (aa_segmentSatisfiedBy (evaluateParts h opts ctx acc parts))"
proof (induction parts arbitrary: acc)
  case (Cons part parts)
  from Cons.prems(1) obtain an where an: "analyzeShellCommand h opts (ac_platform ctx) part = Inr an"
    by (auto simp: analysisFailure_def split: sum.splits)
  let ?ev = "evaluateExecAllowlist h ctx (Inr an)"
  let ?acc = "\<lparr>aa_analysisOk = True, aa_allowlistSatisfied = ev_satisfied ?ev,
    aa_allowlistMatches = aa_allowlistMatches acc @ ev_matches ?ev, aa_segments = aa_segments acc @ an_segments an,
    aa_segmentSatisfiedBy = aa_segmentSatisfiedBy acc @ ev_satisfiedBy ?ev\<rparr>"
  from Cons.prems(1) an have sat: "ev_satisfied ?ev"
    and rest: "evaluateParts h opts ctx acc (part # parts) = evaluateParts h opts ctx ?acc parts"
    by (auto simp: Let_def split: if_splits)
  note cov = evaluateExecAllowlist_covered [OF sat analyze_chains_concat [OF an]]
  have "list_all2 (segmentCovered h ctx) (aa_segments ?acc) (aa_segmentSatisfiedBy ?acc)"
    using Cons.prems(3) cov by (simp add: list_all2_appendI)
  from Cons.IH [of ?acc, OF _ _ this] Cons.prems(1) sat rest obtain ans where
    "list_all2 (\<lambda>part an. analyzeShellCommand h opts (ac_platform ctx) part = Inr an \<and> an_segments an \<noteq> []) parts ans"
    "aa_segments (evaluateParts h opts ctx ?acc parts) = aa_segments ?acc @ concat (map an_segments ans)"
    "list_all2 (segmentCovered h ctx) (aa_segments (evaluateParts h opts ctx ?acc parts))
     (aa_segmentSatisfiedBy (evaluateParts h opts ctx ?acc parts))" by auto
  with an cov show ?case unfolding rest by (intro conjI exI [of _ "an # ans"]) auto
qed auto

text \<open>The texts that are analysed one by one: the parts of the chain, or the whole command.\<close>

definition commandParts :: "string option \<Rightarrow> string \<Rightarrow> string list" where
  "commandParts platform command =
     (case (if isWindowsPlatform platform then None else splitCommandChain command) of
        None \<Rightarrow> [command] | Some parts \<Rightarrow> parts)"

text \<open>C4: When the allowlist is satisfied by a shell command, every segment that the analysis finds in any
  part of its chain is covered: it is not blocked by the wrapper policy, and an entry of the allowlist
  matches its executable or its script, or it is a safe binary with harmless arguments from a trusted
  directory, or a skill's binary at its own path. The metadata that is handed on has one such reason
  for each segment.\<close>

theorem allowlist_covers_every_segment:
  assumes "aa_allowlistSatisfied (evaluateShellAllowlist h env ctx command)"
  shows "\<exists>ans. list_all2 (\<lambda>part an. analyzeShellCommand h \<lparr>xo_cwd = ac_cwd ctx, xo_env = env\<rparr> (ac_platform ctx) part = Inr an \<and>
        an_segments an \<noteq> []) (commandParts (ac_platform ctx) command) ans \<and>
      aa_segments (evaluateShellAllowlist h env ctx command) = concat (map an_segments ans) \<and>
      list_all2 (segmentCovered h ctx) (aa_segments (evaluateShellAllowlist h env ctx command))
        (aa_segmentSatisfiedBy (evaluateShellAllowlist h env ctx command))"
proof -
  let ?opts = "\<lparr>xo_cwd = ac_cwd ctx, xo_env = env\<rparr>" and ?r = "evaluateShellAllowlist h env ctx command"
  let ?chain = "if isWindowsPlatform (ac_platform ctx) then None else splitCommandChain command"
  from assms have ok: "\<not> hasShellLineContinuation command"
    by (auto simp: evaluateShellAllowlist_def analysisFailure_def)
  show ?thesis
  proof (cases ?chain)
    case None
    with assms ok obtain an where an: "analyzeShellCommand h ?opts (ac_platform ctx) command = Inr an"
      by (auto simp: evaluateShellAllowlist_def analysisFailure_def split: sum.splits)
    with None ok have r: "?r = withEvaluation (an_segments an) (evaluateExecAllowlist h ctx (Inr an))"
      by (simp add: evaluateShellAllowlist_def)
    with assms have "ev_satisfied (evaluateExecAllowlist h ctx (Inr an))" by (simp add: withEvaluation_def)
    from evaluateExecAllowlist_covered [OF this analyze_chains_concat [OF an]] an None r show ?thesis
      by (intro exI [of _ "[an]"]) (simp add: withEvaluation_def commandParts_def)
  next
    case (Some parts)
    with ok have r: "?r = evaluateParts h ?opts ctx (withEvaluation [] (evaluateSegments h ctx [])) parts"
      by (simp add: evaluateShellAllowlist_def)
    with evaluateParts_covered [of h ?opts ctx "withEvaluation [] (evaluateSegments h ctx [])" parts] assms Some
    show ?thesis by (simp add: withEvaluation_def commandParts_def)
  qed
qed

definition sampleContext :: allowlistContext where
  "sampleContext = \<lparr>ac_allowlist = [\<lparr>ale_id = None, ale_pattern = ''/usr/bin/l*'', ale_lastUsedAt = None, ale_lastUsedCommand = None,
       ale_lastResolvedPath = None\<rparr>], ac_safeBins = [''wc''],
     ac_safeBinProfiles = Some [(''wc'', compileSafeBinProfile (safeBinFixtureOf None (Some 0) [] [''-x'']))],
     ac_cwd = None, ac_platform = Some ''linux'', ac_trustedSafeBinDirs = Some [''/usr/bin''],
     ac_skillBins = [], ac_autoAllowSkills = False\<rparr>"

theorem allowlist_covers_every_segment_witness:
  "aa_allowlistSatisfied (evaluateShellAllowlist sampleHost None sampleContext ''ls -l | wc'') \<and>
   list_all2 (segmentCovered sampleHost sampleContext)
     (aa_segments (evaluateShellAllowlist sampleHost None sampleContext ''ls -l | wc'')) [Some ByAllowlist, Some BySafeBins]"
proof -
  have s: "aa_allowlistSatisfied (evaluateShellAllowlist sampleHost None sampleContext ''ls -l | wc'')"
    "aa_segmentSatisfiedBy (evaluateShellAllowlist sampleHost None sampleContext ''ls -l | wc'') = [Some ByAllowlist, Some BySafeBins]"
    by code_simp+
  from allowlist_covers_every_segment [OF s(1)] s show ?thesis by auto
qed

section \<open>Patterns that are kept\<close>

text \<open>What an approval for good may keep: the executable of a segment that is neither a dispatch wrapper nor
  a shell, or the script that a shell without an inline command runs.\<close>

definition persistable :: "execHost \<Rightarrow> execOpts \<Rightarrow> string \<Rightarrow> bool" where
  "persistable h opts p \<longleftrightarrow> p \<noteq> [] \<and> (\<exists>segment. \<not> isDispatchWrapperSegment segment \<and>
     (if isShellWrapperSegment segment
      then js_or_empty (extractShellWrapperInlineCommand (sg_argv segment)) = [] \<and>
        resolveShellWrapperScriptCandidatePath h segment (xo_cwd opts) = Some p
      else resolveAllowlistCandidatePath h (sg_resolution segment) (xo_cwd opts) = Some p))"

lemma set_addUnique [simp]: "set (addUnique x xs) = insert x (set xs)"
  by (auto simp: addUnique_def)

lemma persistableI:
  assumes "\<not> isDispatchWrapperSegment segment"
  shows "\<not> isShellWrapperSegment segment \<Longrightarrow>
      js_or_empty (resolveAllowlistCandidatePath h (sg_resolution segment) (xo_cwd opts)) \<noteq> [] \<Longrightarrow>
      persistable h opts (js_or_empty (resolveAllowlistCandidatePath h (sg_resolution segment) (xo_cwd opts)))"
    and "isShellWrapperSegment segment \<Longrightarrow> js_or_empty (extractShellWrapperInlineCommand (sg_argv segment)) = [] \<Longrightarrow>
      resolveShellWrapperScriptCandidatePath h segment (xo_cwd opts) = Some p \<Longrightarrow> p \<noteq> [] \<Longrightarrow> persistable h opts p"
  using assms by (auto simp: persistable_def js_or_empty_def split: option.splits if_splits)

lemma fold_collects:
  "(\<And>s out. s \<in> set ss \<Longrightarrow> set (f s out) \<subseteq> set out \<union> P) \<Longrightarrow> set (fold f ss out) \<subseteq> set out \<union> P"
proof (induction ss arbitrary: out)
  case (Cons s ss)
  from Cons.IH [of "f s out"] Cons.prems [of s out] Cons.prems show ?case by fastforce
qed simp

lemma collect_persistable:
  "set (collectAllowAlwaysPatterns n h opts platform segment out) \<subseteq> set out \<union> {p. persistable h opts p}"
proof (induction n arbitrary: segment out)
  case (Suc n)
  show ?case
  proof (cases "isDispatchWrapperSegment segment")
    case True
    with Suc.IH show ?thesis by (auto simp: Let_def split: unwrapResult.split)
  next
    case False
    note I = persistableI [OF False]
    show ?thesis
    proof (cases "unwrapKnownShellMultiplexerInvocation (sg_argv segment)")
      case NotWrapper
      show ?thesis
      proof (cases "isShellWrapperSegment segment")
        case True
        show ?thesis
        proof (cases "js_or_empty (extractShellWrapperInlineCommand (sg_argv segment)) = []")
          case True
          with I(2) [OF \<open>isShellWrapperSegment segment\<close>] \<open>isShellWrapperSegment segment\<close> False NotWrapper show ?thesis
            by (auto simp: Let_def split: option.split)
        next
          case inline: False
          have "set (fold (collectAllowAlwaysPatterns n h opts platform) ss out) \<subseteq> set out \<union> {p. persistable h opts p}" for ss
            by (rule fold_collects) (rule Suc.IH)
          with inline True False NotWrapper show ?thesis by (auto simp: Let_def split: sum.split)
        qed
      next
        case shell: False
        with I(1) [OF shell] False NotWrapper show ?thesis by (auto simp: Let_def)
      qed
    qed (use Suc.IH False in \<open>auto simp: Let_def\<close>)
  qed
qed simp

text \<open>An approval for good never keeps a shell or a dispatch wrapper.\<close>

lemma allow_always_never_a_shell:
  "p \<in> set (resolveAllowAlwaysPatterns h opts platform segments) \<Longrightarrow> persistable h opts p"
  using fold_collects [of segments "collectAllowAlwaysPatterns 3 h opts platform" "{p. persistable h opts p}" "[]"]
    collect_persistable [of 3 h opts platform] by (auto simp: resolveAllowAlwaysPatterns_def)

end
