(* ===== verification/Exec_Policy.thy ===== *)
theory Exec_Policy
  imports Exec_Allowlist Session_Keys System_Run
begin

text \<open>
  \<open>src/infra/exec-approvals.ts\<close> (the file of approvals, its defaults and its allowlists),
  \<open>src/node-host/exec-policy.ts\<close> and \<open>invoke-system-run-allowlist.ts\<close>: what a node lets run. Texts
  from the file are not trusted: a security or ask level is any string until it is normalised, and
  an allowlist may hold anything.
\<close>

section \<open>Levels\<close>

datatype execHostKind = HostSandbox | HostGateway | HostNode
datatype execSecurity = SecDeny | SecAllowlist | SecFull
datatype execAsk = AskOff | AskOnMiss | AskAlways

definition normalizeExecHost :: "string option \<Rightarrow> execHostKind option" where
  "normalizeExecHost value =
     (let normalized = js_lower (js_trim (js_or_empty value)) in
      if normalized = ''sandbox'' then Some HostSandbox else if normalized = ''gateway'' then Some HostGateway
      else if normalized = ''node'' then Some HostNode else None)"

text \<open>The levels by their exact names.\<close>

definition securityNamed :: "string option \<Rightarrow> execSecurity option" where
  "securityNamed name =
     (if name = Some ''deny'' then Some SecDeny else if name = Some ''allowlist'' then Some SecAllowlist
      else if name = Some ''full'' then Some SecFull else None)"

definition askNamed :: "string option \<Rightarrow> execAsk option" where
  "askNamed name =
     (if name = Some ''off'' then Some AskOff else if name = Some ''on-miss'' then Some AskOnMiss
      else if name = Some ''always'' then Some AskAlways else None)"

definition normalizeExecSecurity :: "string option \<Rightarrow> execSecurity option" where
  "normalizeExecSecurity value = securityNamed (map_option (\<lambda>s. js_lower (js_trim s)) value)"

definition normalizeExecAsk :: "string option \<Rightarrow> execAsk option" where
  "normalizeExecAsk value = askNamed (map_option (\<lambda>s. js_lower (js_trim s)) value)"

text \<open>The order in which a level is laxer, or asks more.\<close>

definition securityRank :: "execSecurity \<Rightarrow> nat" where
  "securityRank s = (case s of SecDeny \<Rightarrow> 0 | SecAllowlist \<Rightarrow> 1 | SecFull \<Rightarrow> 2)"

definition askRank :: "execAsk \<Rightarrow> nat" where
  "askRank a = (case a of AskOff \<Rightarrow> 0 | AskOnMiss \<Rightarrow> 1 | AskAlways \<Rightarrow> 2)"

definition minSecurity :: "execSecurity \<Rightarrow> execSecurity \<Rightarrow> execSecurity" where
  "minSecurity a b = (if securityRank a \<le> securityRank b then a else b)"

definition maxAsk :: "execAsk \<Rightarrow> execAsk \<Rightarrow> execAsk" where
  "maxAsk a b = (if askRank b \<le> askRank a then a else b)"

instantiation execSecurity :: linorder
begin

definition less_eq_execSecurity :: "execSecurity \<Rightarrow> execSecurity \<Rightarrow> bool" where
  "less_eq_execSecurity a b \<longleftrightarrow> securityRank a \<le> securityRank b"

definition less_execSecurity :: "execSecurity \<Rightarrow> execSecurity \<Rightarrow> bool" where
  "less_execSecurity a b \<longleftrightarrow> securityRank a < securityRank b"

instance
  by standard
    (auto simp: less_eq_execSecurity_def less_execSecurity_def securityRank_def split: execSecurity.splits)

end

instantiation execAsk :: linorder
begin

definition less_eq_execAsk :: "execAsk \<Rightarrow> execAsk \<Rightarrow> bool" where
  "less_eq_execAsk a b \<longleftrightarrow> askRank a \<le> askRank b"

definition less_execAsk :: "execAsk \<Rightarrow> execAsk \<Rightarrow> bool" where
  "less_execAsk a b \<longleftrightarrow> askRank a < askRank b"

instance
  by standard (auto simp: less_eq_execAsk_def less_execAsk_def askRank_def split: execAsk.splits)

end

lemma minSecurity_min: "minSecurity a b = min a b"
  by (simp add: minSecurity_def min_def less_eq_execSecurity_def)

lemma maxAsk_max: "maxAsk a b = max a b"
  by (cases a; cases b) (simp_all add: maxAsk_def max_def less_eq_execAsk_def askRank_def)

section \<open>The file of approvals\<close>

text \<open>An item of an allowlist: a bare string, an object with a pattern, or something without one.\<close>

datatype allowItem = AString string | AEntry allowlistEntry | AInvalid

record execDefaults =
  df_security :: "string option"
  df_ask :: "string option"
  df_askFallback :: "string option"
  df_autoAllowSkills :: "bool option"

record execAgent = execDefaults +
  ag_allowlist :: "allowItem list option"

record approvalsFile =
  af_socketPath :: "string option"
  af_socketToken :: "string option"
  af_defaults :: "execDefaults option"
  af_agents :: "(string \<times> execAgent) list option"

definition noDefaults :: execDefaults where
  "noDefaults = \<lparr>df_security = None, df_ask = None, df_askFallback = None, df_autoAllowSkills = None\<rparr>"

definition noAgent :: execAgent where
  "noAgent = \<lparr>df_security = None, df_ask = None, df_askFallback = None, df_autoAllowSkills = None, ag_allowlist = None\<rparr>"

definition itemsOf :: "allowItem list option \<Rightarrow> allowItem list" where
  "itemsOf allowlist = (case allowlist of None \<Rightarrow> [] | Some items \<Rightarrow> items)"

definition agentsOf :: "approvalsFile \<Rightarrow> (string \<times> execAgent) list" where
  "agentsOf file = (case af_agents file of None \<Rightarrow> [] | Some as \<Rightarrow> as)"

definition normalizeAllowlistPattern :: "string option \<Rightarrow> string option" where
  "normalizeAllowlistPattern value = js_some (js_lower (js_trim (js_or_empty value)))"

definition itemPattern :: "allowItem \<Rightarrow> string option" where
  "itemPattern item = (case item of AEntry e \<Rightarrow> Some (ale_pattern e) | _ \<Rightarrow> None)"

text \<open>\<open>pushEntry\<close>: an entry without a pattern, or with one that was seen, is left out.\<close>

definition pushEntry :: "allowItem \<Rightarrow> allowItem list \<times> string list \<Rightarrow> allowItem list \<times> string list" where
  "pushEntry item acc =
     (case normalizeAllowlistPattern (itemPattern item) of
        None \<Rightarrow> acc
      | Some key \<Rightarrow> if key \<in> set (snd acc) then acc else (fst acc @ [item], key # snd acc))"

definition mergeLegacyAgent :: "execAgent \<Rightarrow> execAgent \<Rightarrow> execAgent" where
  "mergeLegacyAgent current legacy =
     (let allowlist = fst (fold pushEntry (itemsOf (ag_allowlist current) @ itemsOf (ag_allowlist legacy)) ([], []))
      in \<lparr>df_security = js_coalesce (df_security current) (df_security legacy),
          df_ask = js_coalesce (df_ask current) (df_ask legacy),
          df_askFallback = js_coalesce (df_askFallback current) (df_askFallback legacy),
          df_autoAllowSkills = js_coalesce (df_autoAllowSkills current) (df_autoAllowSkills legacy),
          ag_allowlist = (if allowlist = [] then None else Some allowlist)\<rparr>)"

definition newEntry :: "string option \<Rightarrow> string \<Rightarrow> int option \<Rightarrow> allowlistEntry" where
  "newEntry eid pattern usedAt = \<lparr>ale_id = eid, ale_pattern = pattern, ale_lastUsedAt = usedAt,
     ale_lastUsedCommand = None, ale_lastResolvedPath = None\<rparr>"

fun coerceItem :: "allowItem \<Rightarrow> allowItem list" where
  "coerceItem (AString s) = (if js_trim s = [] then [] else [AEntry (newEntry None (js_trim s) None)])"
| "coerceItem (AEntry e) = (if js_trim (ale_pattern e) = [] then [] else [AEntry e])"
| "coerceItem AInvalid = []"

definition coerceAllowlistEntries :: "allowItem list option \<Rightarrow> allowItem list option" where
  "coerceAllowlistEntries allowlist =
     (case allowlist of
        None \<Rightarrow> None
      | Some items \<Rightarrow>
          if items = [] then Some []
          else (let result = concat (map coerceItem items) in if result = [] then None else Some result))"

text \<open>The \<open>n\<close>th fresh id is \<open>newId n\<close>.\<close>

fun ensureIds :: "(nat \<Rightarrow> string) \<Rightarrow> nat \<Rightarrow> allowItem list \<Rightarrow> allowItem list \<times> nat" where
  "ensureIds newId n [] = ([], n)"
| "ensureIds newId n (item # items) =
     (case item of
        AEntry e \<Rightarrow>
          (if js_or_empty (ale_id e) \<noteq> [] then (case ensureIds newId n items of (r, m) \<Rightarrow> (item # r, m))
           else (case ensureIds newId (Suc n) items of (r, m) \<Rightarrow> (AEntry (e\<lparr>ale_id := Some (newId n)\<rparr>) # r, m)))
      | _ \<Rightarrow> (case ensureIds newId n items of (r, m) \<Rightarrow> (item # r, m)))"

definition ensureAllowlistIds :: "(nat \<Rightarrow> string) \<Rightarrow> nat \<Rightarrow> allowItem list option \<Rightarrow> allowItem list option \<times> nat" where
  "ensureAllowlistIds newId n allowlist =
     (case allowlist of None \<Rightarrow> (None, n) | Some items \<Rightarrow> (case ensureIds newId n items of (r, m) \<Rightarrow> (Some r, m)))"

fun normalizeAgents ::
    "(nat \<Rightarrow> string) \<Rightarrow> nat \<Rightarrow> (string \<times> execAgent) list \<Rightarrow> (string \<times> execAgent) list \<times> nat" where
  "normalizeAgents newId n [] = ([], n)"
| "normalizeAgents newId n ((key, agent) # agents) =
     (case ensureAllowlistIds newId n (coerceAllowlistEntries (ag_allowlist agent)) of
        (allowlist, m) \<Rightarrow>
          (case normalizeAgents newId m agents of
             (r, k) \<Rightarrow> ((key, agent\<lparr>ag_allowlist := allowlist\<rparr>) # r, k)))"

text \<open>The agent \<open>default\<close> of older files becomes the main agent.\<close>

definition adoptDefault :: "(string \<times> execAgent) list \<Rightarrow> (string \<times> execAgent) list" where
  "adoptDefault agents =
     (case map_of agents ''default'' of
        None \<Rightarrow> agents
      | Some legacyDefault \<Rightarrow>
          AList.delete ''default''
            (AList.update DEFAULT_AGENT_ID
              (case map_of agents DEFAULT_AGENT_ID of
                 Some main \<Rightarrow> mergeLegacyAgent main legacyDefault | None \<Rightarrow> legacyDefault) agents))"

definition normalizeExecApprovals :: "(nat \<Rightarrow> string) \<Rightarrow> nat \<Rightarrow> approvalsFile \<Rightarrow> approvalsFile \<times> nat" where
  "normalizeExecApprovals newId n file =
     (case normalizeAgents newId n (adoptDefault (agentsOf file)) of
        (agents, m) \<Rightarrow>
          (\<lparr>af_socketPath = js_some (js_trim (js_or_empty (af_socketPath file))),
            af_socketToken = js_some (js_trim (js_or_empty (af_socketToken file))),
            af_defaults = Some (case af_defaults file of None \<Rightarrow> noDefaults | Some d \<Rightarrow> d),
            af_agents = Some agents\<rparr>, m))"

text \<open>\<open>mergeExecApprovalsSocketDefaults\<close>; only what is missing falls back, an empty text does not.\<close>

definition DEFAULT_SOCKET :: string where "DEFAULT_SOCKET = ''~/.foxclaw/exec-approvals.sock''"
definition DEFAULT_FILE :: string where "DEFAULT_FILE = ''~/.foxclaw/exec-approvals.json''"

definition resolveExecApprovalsPath :: "execHost \<Rightarrow> string" where
  "resolveExecApprovalsPath h = expandHomePrefix h DEFAULT_FILE"

definition resolveExecApprovalsSocketPath :: "execHost \<Rightarrow> string" where
  "resolveExecApprovalsSocketPath h = expandHomePrefix h DEFAULT_SOCKET"

definition mergeExecApprovalsSocketDefaults :: "execHost \<Rightarrow> approvalsFile \<Rightarrow> approvalsFile option \<Rightarrow> approvalsFile" where
  "mergeExecApprovalsSocketDefaults h normalized current =
     (let trimmed = map_option js_trim;
          currentSocketPath = trimmed (Option.bind current af_socketPath);
          currentToken = trimmed (Option.bind current af_socketToken)
      in normalized\<lparr>
           af_socketPath := Some (case js_coalesce (trimmed (af_socketPath normalized)) currentSocketPath of
             Some p \<Rightarrow> p | None \<Rightarrow> resolveExecApprovalsSocketPath h),
           af_socketToken := Some (js_or_empty (js_coalesce (trimmed (af_socketToken normalized)) currentToken))\<rparr>)"

text \<open>What the file holds: nothing if it is missing, unreadable or of another version.\<close>

definition loadExecApprovals :: "(nat \<Rightarrow> string) \<Rightarrow> nat \<Rightarrow> approvalsFile option \<Rightarrow> approvalsFile \<times> nat" where
  "loadExecApprovals newId n content =
     normalizeExecApprovals newId n (case content of
       Some file \<Rightarrow> file
     | None \<Rightarrow> \<lparr>af_socketPath = None, af_socketToken = None, af_defaults = None, af_agents = Some []\<rparr>)"

text \<open>The file that is written back; the token is generated if there is none.\<close>

definition ensureExecApprovals ::
    "execHost \<Rightarrow> (nat \<Rightarrow> string) \<Rightarrow> string \<Rightarrow> nat \<Rightarrow> approvalsFile option \<Rightarrow> approvalsFile \<times> nat" where
  "ensureExecApprovals h newId generatedToken n content =
     (case loadExecApprovals newId n content of
        (loaded, m) \<Rightarrow>
          (case normalizeExecApprovals newId m loaded of
             (next', k) \<Rightarrow>
               (next'\<lparr>af_socketPath := Some (js_or (js_trim (js_or_empty (af_socketPath next'))) (resolveExecApprovalsSocketPath h)),
                  af_socketToken := Some (js_or (js_trim (js_or_empty (af_socketToken next'))) generatedToken)\<rparr>, k)))"

section \<open>What holds for an agent\<close>

record execOverrides =
  ov_security :: "execSecurity option"
  ov_ask :: "execAsk option"
  ov_askFallback :: "execSecurity option"
  ov_autoAllowSkills :: "bool option"

record execLevels =
  lv_security :: execSecurity
  lv_ask :: execAsk
  lv_askFallback :: execSecurity
  lv_autoAllowSkills :: bool

record approvalsResolved =
  rs_path :: string
  rs_socketPath :: string
  rs_token :: string
  rs_defaults :: execLevels
  rs_agent :: execLevels
  rs_allowlist :: "allowItem list"
  rs_file :: approvalsFile

definition orElse :: "'a option \<Rightarrow> 'a \<Rightarrow> 'a" where
  "orElse v d = (case v of None \<Rightarrow> d | Some x \<Rightarrow> x)"

definition normalizeSecurity :: "string option \<Rightarrow> execSecurity \<Rightarrow> execSecurity" where
  "normalizeSecurity value fallback = orElse (securityNamed value) fallback"

definition normalizeAsk :: "string option \<Rightarrow> execAsk \<Rightarrow> execAsk" where
  "normalizeAsk value fallback = orElse (askNamed value) fallback"

definition resolvedDefaults :: "execDefaults \<Rightarrow> execOverrides \<Rightarrow> execLevels" where
  "resolvedDefaults defaults overrides =
     \<lparr>lv_security = normalizeSecurity (df_security defaults) (orElse (ov_security overrides) SecDeny),
      lv_ask = normalizeAsk (df_ask defaults) (orElse (ov_ask overrides) AskOnMiss),
      lv_askFallback = normalizeSecurity (df_askFallback defaults) (orElse (ov_askFallback overrides) SecDeny),
      lv_autoAllowSkills = orElse (df_autoAllowSkills defaults) (orElse (ov_autoAllowSkills overrides) False)\<rparr>"

definition resolvedAgent :: "execAgent \<Rightarrow> execAgent \<Rightarrow> execLevels \<Rightarrow> execLevels" where
  "resolvedAgent agent wildcard ds =
     \<lparr>lv_security = normalizeSecurity (js_coalesce (df_security agent) (df_security wildcard)) (lv_security ds),
      lv_ask = normalizeAsk (js_coalesce (df_ask agent) (df_ask wildcard)) (lv_ask ds),
      lv_askFallback = normalizeSecurity (js_coalesce (df_askFallback agent) (df_askFallback wildcard)) (lv_askFallback ds),
      lv_autoAllowSkills =
        orElse (js_coalesce (df_autoAllowSkills agent) (df_autoAllowSkills wildcard)) (lv_autoAllowSkills ds)\<rparr>"

definition resolveExecApprovalsFromFile ::
    "execHost \<Rightarrow> (nat \<Rightarrow> string) \<Rightarrow> nat \<Rightarrow> approvalsFile \<Rightarrow> string option \<Rightarrow> execOverrides \<Rightarrow>
     string option \<Rightarrow> string option \<Rightarrow> string option \<Rightarrow> approvalsResolved \<times> nat" where
  "resolveExecApprovalsFromFile h newId n file0 agentId overrides path socketPath token =
     (case normalizeExecApprovals newId n file0 of
        (file, m) \<Rightarrow>
          (let agents = agentsOf file;
               agent = orElse (map_of agents (orElse agentId DEFAULT_AGENT_ID)) noAgent;
               wildcard = orElse (map_of agents ''*'') noAgent;
               ds = resolvedDefaults (orElse (af_defaults file) noDefaults) overrides
           in (\<lparr>rs_path = orElse path (resolveExecApprovalsPath h),
                rs_socketPath = expandHomePrefix h
                  (orElse (js_coalesce socketPath (af_socketPath file)) (resolveExecApprovalsSocketPath h)),
                rs_token = js_or_empty (js_coalesce token (af_socketToken file)),
                rs_defaults = ds, rs_agent = resolvedAgent agent wildcard ds,
                rs_allowlist = itemsOf (ag_allowlist wildcard) @ itemsOf (ag_allowlist agent),
                rs_file = file\<rparr>, m)))"

definition resolveExecApprovals ::
    "execHost \<Rightarrow> (nat \<Rightarrow> string) \<Rightarrow> string \<Rightarrow> nat \<Rightarrow> approvalsFile option \<Rightarrow> string option \<Rightarrow> execOverrides \<Rightarrow>
     approvalsResolved \<times> nat" where
  "resolveExecApprovals h newId generatedToken n content agentId overrides =
     (case ensureExecApprovals h newId generatedToken n content of
        (file, m) \<Rightarrow> resolveExecApprovalsFromFile h newId m file agentId overrides
          (Some (resolveExecApprovalsPath h))
          (Some (expandHomePrefix h (orElse (af_socketPath file) (resolveExecApprovalsSocketPath h))))
          (Some (js_or_empty (af_socketToken file))))"

text \<open>The entries of a normalised allowlist.\<close>

definition entriesOf :: "allowItem list \<Rightarrow> allowlistEntry list" where
  "entriesOf items = List.map_filter (\<lambda>i. case i of AEntry e \<Rightarrow> Some e | _ \<Rightarrow> None) items"

section \<open>Changes of the allowlist\<close>

definition updateAgent :: "string \<Rightarrow> execAgent \<Rightarrow> approvalsFile \<Rightarrow> approvalsFile" where
  "updateAgent target agent file = file\<lparr>af_agents := Some (AList.update target agent (agentsOf file))\<rparr>"

definition recordUse ::
    "(nat \<Rightarrow> string) \<Rightarrow> int \<Rightarrow> string \<Rightarrow> string \<Rightarrow> string option \<Rightarrow> nat \<Rightarrow> allowItem \<Rightarrow> allowItem" where
  "recordUse newId now pattern command resolvedPath n item =
     (case item of
        AEntry e \<Rightarrow>
          if ale_pattern e = pattern
          then AEntry (e\<lparr>ale_id := Some (orElse (ale_id e) (newId n)), ale_lastUsedAt := Some now,
                 ale_lastUsedCommand := Some command, ale_lastResolvedPath := resolvedPath\<rparr>)
          else item
      | _ \<Rightarrow> item)"

definition recordAllowlistUse ::
    "(nat \<Rightarrow> string) \<Rightarrow> nat \<Rightarrow> int \<Rightarrow> approvalsFile \<Rightarrow> string option \<Rightarrow> allowlistEntry \<Rightarrow> string \<Rightarrow> string option \<Rightarrow>
     approvalsFile" where
  "recordAllowlistUse newId n now approvals agentId entry command resolvedPath =
     (let target = orElse agentId DEFAULT_AGENT_ID;
          existing = orElse (map_of (agentsOf approvals) target) noAgent;
          allowlist = itemsOf (ag_allowlist existing);
          nextAllowlist = map (\<lambda>(i, item). recordUse newId now (ale_pattern entry) command resolvedPath (n + i) item)
            (enumerate 0 allowlist)
      in updateAgent target (existing\<lparr>ag_allowlist := Some nextAllowlist\<rparr>) approvals)"

definition addAllowlistEntry ::
    "(nat \<Rightarrow> string) \<Rightarrow> nat \<Rightarrow> int \<Rightarrow> approvalsFile \<Rightarrow> string option \<Rightarrow> string \<Rightarrow> approvalsFile" where
  "addAllowlistEntry newId n now approvals agentId pattern =
     (let target = orElse agentId DEFAULT_AGENT_ID;
          existing = orElse (map_of (agentsOf approvals) target) noAgent;
          allowlist = itemsOf (ag_allowlist existing);
          trimmed = js_trim pattern
      in if trimmed = [] then approvals
         else if list_ex (\<lambda>item. itemPattern item = Some trimmed) allowlist then approvals
         else updateAgent target (existing\<lparr>ag_allowlist :=
           Some (allowlist @ [AEntry (newEntry (Some (newId n)) trimmed (Some now))])\<rparr>) approvals)"

section \<open>The decision of a node\<close>

definition requiresExecApproval :: "execAsk \<Rightarrow> execSecurity \<Rightarrow> bool \<Rightarrow> bool \<Rightarrow> bool" where
  "requiresExecApproval ask security analysisOk allowlistSatisfied \<longleftrightarrow>
     ask = AskAlways \<or> (ask = AskOnMiss \<and> security = SecAllowlist \<and> (\<not> analysisOk \<or> \<not> allowlistSatisfied))"

datatype runDecision = RunAllowOnce | RunAllowAlways

definition resolveExecApprovalDecision :: "string option \<Rightarrow> runDecision option" where
  "resolveExecApprovalDecision value =
     (if value = Some ''allow-once'' then Some RunAllowOnce
      else if value = Some ''allow-always'' then Some RunAllowAlways else None)"

definition formatSystemRunAllowlistMissMessage :: "bool \<Rightarrow> bool \<Rightarrow> string" where
  "formatSystemRunAllowlistMissMessage shellWrapperBlocked windowsShellWrapperBlocked =
     (if windowsShellWrapperBlocked then
        ''SYSTEM_RUN_DENIED: allowlist miss (Windows shell wrappers like cmd.exe /c require approval; approve once/always or run with --ask on-miss|always)''
      else if shellWrapperBlocked then
        ''SYSTEM_RUN_DENIED: allowlist miss (shell wrappers like sh/bash/zsh -c require approval; approve once/always or run with --ask on-miss|always)''
      else ''SYSTEM_RUN_DENIED: allowlist miss'')"

datatype runReason = ReasonSecurityDeny | ReasonApprovalRequired | ReasonAllowlistMiss

record runPolicy =
  rp_denied :: "(runReason \<times> string) option"
  rp_analysisOk :: bool
  rp_allowlistSatisfied :: bool
  rp_shellWrapperBlocked :: bool
  rp_windowsShellWrapperBlocked :: bool
  rp_requiresAsk :: bool
  rp_approvalDecision :: "runDecision option"
  rp_approvedByAsk :: bool

record runPolicyParams =
  pp_security :: execSecurity
  pp_ask :: execAsk
  pp_analysisOk :: bool
  pp_allowlistSatisfied :: bool
  pp_approvalDecision :: "runDecision option"
  pp_approved :: bool
  pp_isWindows :: bool
  pp_cmdInvocation :: bool
  pp_shellWrapperInvocation :: bool

definition evaluateSystemRunPolicy :: "runPolicyParams \<Rightarrow> runPolicy" where
  "evaluateSystemRunPolicy p =
     (let shellWrapperBlocked = (pp_security p = SecAllowlist \<and> pp_shellWrapperInvocation p);
          windowsShellWrapperBlocked = (shellWrapperBlocked \<and> pp_isWindows p \<and> pp_cmdInvocation p);
          analysisOk = (if shellWrapperBlocked then False else pp_analysisOk p);
          allowlistSatisfied = (if shellWrapperBlocked then False else pp_allowlistSatisfied p);
          approvedByAsk = (pp_approvalDecision p \<noteq> None \<or> pp_approved p);
          requiresAsk = requiresExecApproval (pp_ask p) (pp_security p) analysisOk allowlistSatisfied;
          result = (\<lambda>denied asks. \<lparr>rp_denied = denied, rp_analysisOk = analysisOk, rp_allowlistSatisfied = allowlistSatisfied,
            rp_shellWrapperBlocked = shellWrapperBlocked, rp_windowsShellWrapperBlocked = windowsShellWrapperBlocked,
            rp_requiresAsk = asks, rp_approvalDecision = pp_approvalDecision p, rp_approvedByAsk = approvedByAsk\<rparr>)
      in if pp_security p = SecDeny
         then result (Some (ReasonSecurityDeny, ''SYSTEM_RUN_DISABLED: security=deny'')) False
         else if requiresAsk \<and> \<not> approvedByAsk
         then result (Some (ReasonApprovalRequired, ''SYSTEM_RUN_DENIED: approval required'')) requiresAsk
         else if pp_security p = SecAllowlist \<and> (\<not> analysisOk \<or> \<not> allowlistSatisfied) \<and> \<not> approvedByAsk
         then result (Some (ReasonAllowlistMiss,
                formatSystemRunAllowlistMissMessage shellWrapperBlocked windowsShellWrapperBlocked)) requiresAsk
         else result None requiresAsk)"

record runAllowlist =
  ra_analysisOk :: bool
  ra_allowlistMatches :: "allowlistEntry list"
  ra_allowlistSatisfied :: bool
  ra_segments :: "execSegment list"

text \<open>The context has the host's platform; of an argument vector it has none.\<close>

definition evaluateSystemRunAllowlist ::
    "execHost \<Rightarrow> (string \<Rightarrow> string option) option \<Rightarrow> allowlistContext \<Rightarrow> execSecurity \<Rightarrow> string option \<Rightarrow> string list \<Rightarrow>
     runAllowlist" where
  "evaluateSystemRunAllowlist h env ctx security shellCommand argv =
     (if js_or_empty shellCommand \<noteq> [] then
        (let ev = evaluateShellAllowlist h env ctx (js_or_empty shellCommand) in
         \<lparr>ra_analysisOk = aa_analysisOk ev, ra_allowlistMatches = aa_allowlistMatches ev,
          ra_allowlistSatisfied = (if security = SecAllowlist \<and> aa_analysisOk ev then aa_allowlistSatisfied ev else False),
          ra_segments = aa_segments ev\<rparr>)
      else
        (let analysis = analyzeArgvCommand h \<lparr>xo_cwd = ac_cwd ctx, xo_env = env\<rparr> argv;
             ev = evaluateExecAllowlist h (ctx\<lparr>ac_platform := None\<rparr>) analysis;
             ok = (case analysis of Inl r \<Rightarrow> False | Inr an \<Rightarrow> True)
         in \<lparr>ra_analysisOk = ok, ra_allowlistMatches = ev_matches ev,
             ra_allowlistSatisfied = (if security = SecAllowlist \<and> ok then ev_satisfied ev else False),
             ra_segments = (case analysis of Inl r \<Rightarrow> [] | Inr an \<Rightarrow> an_segments an)\<rparr>))"

text \<open>\<open>undefined\<close> leaves the vector as it is, \<open>null\<close> refuses it.\<close>

datatype plannedArgv = AsGiven | NoPlan | Planned "string list"

definition resolvePlannedAllowlistArgv ::
    "execSecurity \<Rightarrow> string option \<Rightarrow> runPolicy \<Rightarrow> execSegment list \<Rightarrow> plannedArgv" where
  "resolvePlannedAllowlistArgv security shellCommand policy segments =
     (if security \<noteq> SecAllowlist \<or> rp_approvedByAsk policy \<or> js_or_empty shellCommand \<noteq> [] \<or>
         \<not> rp_analysisOk policy \<or> \<not> rp_allowlistSatisfied policy \<or> length segments \<noteq> 1 then AsGiven
      else case resolvePlannedSegmentArgv (hd segments) of
        None \<Rightarrow> NoPlan | Some argv \<Rightarrow> if argv = [] then NoPlan else Planned argv)"

definition resolveSystemRunExecArgv ::
    "plannedArgv \<Rightarrow> string list \<Rightarrow> execSecurity \<Rightarrow> bool \<Rightarrow> runPolicy \<Rightarrow> string option \<Rightarrow> execSegment list \<Rightarrow> string list" where
  "resolveSystemRunExecArgv planned argv security isWindows policy shellCommand segments =
     (if security = SecAllowlist \<and> isWindows \<and> \<not> rp_approvedByAsk policy \<and> js_or_empty shellCommand \<noteq> [] \<and>
         rp_analysisOk policy \<and> rp_allowlistSatisfied policy \<and> length segments = 1 \<and> sg_argv (hd segments) \<noteq> []
      then sg_argv (hd segments)
      else case planned of Planned a \<Rightarrow> a | _ \<Rightarrow> argv)"

section \<open>Lemmas on the file\<close>

text \<open>An allowlist that needs no more work: entries with a pattern and an id.\<close>

fun tidyItem :: "allowItem \<Rightarrow> bool" where
  "tidyItem (AEntry e) \<longleftrightarrow> js_trim (ale_pattern e) \<noteq> [] \<and> js_or_empty (ale_id e) \<noteq> []"
| "tidyItem _ \<longleftrightarrow> False"

definition tidyAgents :: "(string \<times> execAgent) list \<Rightarrow> bool" where
  "tidyAgents agents \<longleftrightarrow> map_of agents ''default'' = None \<and>
     list_all (\<lambda>(k, a). list_all tidyItem (itemsOf (ag_allowlist a))) agents"

lemma coerceItem_entries: "item' \<in> set (coerceItem item) \<Longrightarrow> \<exists>e. item' = AEntry e \<and> js_trim (ale_pattern e) \<noteq> []"
  by (cases item) (auto simp: newEntry_def split: if_splits)

lemma ensureIds_tidy:
  assumes "\<And>k. newId k \<noteq> []"
  shows "list_all (\<lambda>i. \<exists>e. i = AEntry e \<and> js_trim (ale_pattern e) \<noteq> []) items \<Longrightarrow>
    list_all tidyItem (fst (ensureIds newId n items))"
proof (induction items arbitrary: n)
  case (Cons item items)
  then obtain e where e: "item = AEntry e" "js_trim (ale_pattern e) \<noteq> []" by auto
  obtain r m where r: "ensureIds newId n items = (r, m)" by fastforce
  obtain r' m' where r': "ensureIds newId (Suc n) items = (r', m')" by fastforce
  have "list_all tidyItem (fst (ensureIds newId k items))" for k
    using Cons.IH [of k] Cons.prems by simp
  from this [of n] this [of "Suc n"] have "list_all tidyItem r" "list_all tidyItem r'" by (simp_all add: r r')
  with e r r' assms show ?case by (auto simp: js_or_empty_def)
qed simp

lemma ensureIds_fixed: "list_all tidyItem items \<Longrightarrow> ensureIds newId n items = (items, n)"
proof (induction items)
  case (Cons item items)
  then show ?case by (cases item) auto
qed simp

lemma coerce_fixed: "list_all tidyItem items \<Longrightarrow> concat (map coerceItem items) = items"
proof (induction items)
  case (Cons item items)
  then show ?case by (cases item) auto
qed simp

lemma normalizeAgents_fixed:
  "list_all (\<lambda>(k, a). list_all tidyItem (itemsOf (ag_allowlist a))) agents \<Longrightarrow> normalizeAgents newId n agents = (agents, n)"
proof (induction agents)
  case (Cons p agents)
  obtain key agent where p: "p = (key, agent)" by (cases p)
  have "ensureAllowlistIds newId n (coerceAllowlistEntries (ag_allowlist agent)) = (ag_allowlist agent, n)"
    using Cons.prems p
    by (cases "ag_allowlist agent")
      (auto simp: coerceAllowlistEntries_def ensureAllowlistIds_def itemsOf_def coerce_fixed ensureIds_fixed Let_def)
  with Cons p show ?case by simp
qed simp

lemma normalizeAgents_keys: "map fst (fst (normalizeAgents newId n agents)) = map fst agents"
proof (induction agents arbitrary: n)
  case (Cons p agents)
  obtain key agent where p: "p = (key, agent)" by (cases p)
  obtain al m where al: "ensureAllowlistIds newId n (coerceAllowlistEntries (ag_allowlist agent)) = (al, m)"
    by fastforce
  moreover obtain r k where "normalizeAgents newId m agents = (r, k)" by fastforce
  ultimately show ?case using p Cons.IH [of m] by simp
qed simp

lemma normalizeAgents_tidy:
  assumes "\<And>k. newId k \<noteq> []"
  shows "list_all (\<lambda>(k, a). list_all tidyItem (itemsOf (ag_allowlist a))) (fst (normalizeAgents newId n agents))"
proof (induction agents arbitrary: n)
  case (Cons p agents)
  obtain key agent where p: "p = (key, agent)" by (cases p)
  obtain al m where al: "ensureAllowlistIds newId n (coerceAllowlistEntries (ag_allowlist agent)) = (al, m)"
    by fastforce
  have entries: "list_all (\<lambda>i. \<exists>e. i = AEntry e \<and> js_trim (ale_pattern e) \<noteq> [])
      (itemsOf (coerceAllowlistEntries (ag_allowlist agent)))"
    using coerceItem_entries
    by (auto simp: coerceAllowlistEntries_def itemsOf_def list_all_iff Let_def split: option.splits)
  have "list_all tidyItem (itemsOf al)"
    using al ensureIds_tidy [where newId = newId and n = n, OF assms entries]
    by (auto simp: ensureAllowlistIds_def itemsOf_def split: option.splits prod.splits)
  moreover obtain r k where "normalizeAgents newId m agents = (r, k)" by fastforce
  ultimately show ?case using al p Cons.IH [of m] by simp
qed simp

lemma adoptDefault_none: "map_of (adoptDefault agents) ''default'' = None"
  by (simp add: adoptDefault_def delete_conv' split: option.splits)

lemma normalize_tidy:
  assumes "\<And>k. newId k \<noteq> []"
  shows "tidyAgents (agentsOf (fst (normalizeExecApprovals newId n file)))"
proof -
  let ?as = "normalizeAgents newId n (adoptDefault (agentsOf file))"
  have "agentsOf (fst (normalizeExecApprovals newId n file)) = fst ?as"
    by (simp add: normalizeExecApprovals_def agentsOf_def split: prod.split)
  moreover have "map_of (fst ?as) ''default'' = None"
    using adoptDefault_none [of "agentsOf file"] normalizeAgents_keys [of newId n "adoptDefault (agentsOf file)"]
    by (metis map_of_eq_None_iff set_map)
  ultimately show ?thesis
    using normalizeAgents_tidy [where newId = newId and n = n and agents = "adoptDefault (agentsOf file)", OF assms] by (simp add: tidyAgents_def)
qed

text \<open>Loading a file of approvals yields a well-formed one. Whatever the file held, bare strings, values of
  no use, blank patterns, entries without ids or the older agent, every allowlist of the result consists of
  entries with a pattern and an id, the older agent's name is gone, and agents and defaults are there.\<close>

theorem loaded_approvals_well_formed:
  assumes "\<And>k. newId k \<noteq> []"
  shows "map_of (agentsOf (fst (normalizeExecApprovals newId n file))) ''default'' = None \<and>
    list_all (\<lambda>(k, a). list_all tidyItem (itemsOf (ag_allowlist a))) (agentsOf (fst (normalizeExecApprovals newId n file))) \<and>
    af_agents (fst (normalizeExecApprovals newId n file)) \<noteq> None \<and> af_defaults (fst (normalizeExecApprovals newId n file)) \<noteq> None"
  using normalize_tidy [of newId n "file", OF assms]
  by (simp add: tidyAgents_def) (simp add: normalizeExecApprovals_def split: prod.split)

definition oldApprovals :: approvalsFile where
  "oldApprovals = \<lparr>af_socketPath = None, af_socketToken = None, af_defaults = None,
     af_agents = Some [(''default'', noAgent\<lparr>ag_allowlist := Some [AEntry \<lparr>ale_id = None, ale_pattern = ''/bin/ls'',
       ale_lastUsedAt = None, ale_lastUsedCommand = None, ale_lastResolvedPath = None\<rparr>, AInvalid]\<rparr>),
       (''ops'', noAgent\<lparr>ag_allowlist := Some [AString '' /bin/cat '', AString '' '']\<rparr>)]\<rparr>"

theorem loaded_approvals_well_formed_witness:
  "map fst (agentsOf (fst (normalizeExecApprovals (\<lambda>k. ''id'') 0 oldApprovals))) = [''ops'', ''main''] \<and>
   map_of (agentsOf (fst (normalizeExecApprovals (\<lambda>k. ''id'') 0 oldApprovals))) ''default'' = None \<and>
   list_all (\<lambda>(k, a). list_all tidyItem (itemsOf (ag_allowlist a))) (agentsOf (fst (normalizeExecApprovals (\<lambda>k. ''id'') 0 oldApprovals)))"
proof -
  have "map fst (agentsOf (fst (normalizeExecApprovals (\<lambda>k. ''id'') 0 oldApprovals))) = [''ops'', ''main'']" by code_simp
  with loaded_approvals_well_formed [of "\<lambda>k. ''id''" 0 oldApprovals] show ?thesis by simp
qed

lemma normalize_fixed:
  assumes "tidyAgents (agentsOf file)" "af_agents file \<noteq> None" "af_defaults file \<noteq> None"
    "af_socketPath file = js_some (js_trim (js_or_empty (af_socketPath file)))"
    "af_socketToken file = js_some (js_trim (js_or_empty (af_socketToken file)))"
  shows "normalizeExecApprovals newId n file = (file, n)"
proof -
  from assms(1) have "adoptDefault (agentsOf file) = agentsOf file"
    by (simp add: tidyAgents_def adoptDefault_def)
  with assms normalizeAgents_fixed [of "agentsOf file" newId n] show ?thesis
    by (cases "file") (auto simp: normalizeExecApprovals_def tidyAgents_def agentsOf_def)
qed

lemma js_some_fixed: "js_some (js_trim (js_or_empty (js_some (js_trim s)))) = js_some (js_trim s)"
  by (simp add: js_some_def js_or_empty_def)

text \<open>Normalising twice is normalising once, without new ids, so loading never renames an entry.\<close>

lemma normalize_idempotent:
  assumes "\<And>k. newId k \<noteq> []"
  shows "normalizeExecApprovals newId m (fst (normalizeExecApprovals newId n file)) =
    (fst (normalizeExecApprovals newId n file), m)"
  by (rule normalize_fixed)
    (use normalize_tidy [where newId = newId and n = n, OF assms] in \<open>auto simp: normalizeExecApprovals_def js_some_fixed split: prod.splits\<close>)

section \<open>A run without approval\<close>

text \<open>The policy phase of \<open>src/node-host/invoke-system-run.ts\<close> for a run that nobody approved, on a POSIX
  host: the reason why it is refused, or the vector that is executed. (Paths are hardened for approved runs only.)\<close>

definition unapprovedRun ::
    "execHost \<Rightarrow> (string \<Rightarrow> string option) option \<Rightarrow> allowlistContext \<Rightarrow> execSecurity \<Rightarrow> execAsk \<Rightarrow> string option \<Rightarrow>
     string list \<Rightarrow> string + string list" where
  "unapprovedRun h env ctx security ask shellPayload argv =
     (let ev = evaluateSystemRunAllowlist h env ctx security shellPayload argv;
          policy = evaluateSystemRunPolicy \<lparr>pp_security = security, pp_ask = ask, pp_analysisOk = ra_analysisOk ev,
            pp_allowlistSatisfied = ra_allowlistSatisfied ev, pp_approvalDecision = None, pp_approved = False,
            pp_isWindows = False, pp_cmdInvocation = False, pp_shellWrapperInvocation = (shellPayload \<noteq> None)\<rparr>
      in case rp_denied policy of
           Some (reason, message) \<Rightarrow> Inl message
         | None \<Rightarrow>
             if security = SecAllowlist \<and> js_or_empty shellPayload \<noteq> [] \<and> \<not> rp_approvedByAsk policy
             then Inl ''SYSTEM_RUN_DENIED: approval required''
             else (let planned = resolvePlannedAllowlistArgv security shellPayload policy (ra_segments ev) in
               if planned = NoPlan then Inl ''SYSTEM_RUN_DENIED: execution plan mismatch''
               else Inr (resolveSystemRunExecArgv planned argv security False policy shellPayload (ra_segments ev))))"

text \<open>The run that a request without an approval asks for: what counts as its inline shell command is found in its
  arguments.\<close>

definition unapprovedRequest ::
    "execHost \<Rightarrow> (string \<Rightarrow> string option) option \<Rightarrow> allowlistContext \<Rightarrow> execSecurity \<Rightarrow> execAsk \<Rightarrow> jsv \<Rightarrow> jsv \<Rightarrow> string + string list" where
  "unapprovedRequest h env ctx security ask command rawCommand =
     (case resolveSystemRunCommandRequest command rawCommand of
        Inl e \<Rightarrow> Inl (re_message e)
      | Inr (argv, display) \<Rightarrow>
          if argv = [] then Inl ''command required''
          else unapprovedRun h env ctx security ask (cdi_shellPayload display) argv)"

lemma request_command:
  assumes "resolveSystemRunCommandRequest command rawCommand = Inr (argv, display)" "argv \<noteq> []"
  shows "argv = normalizeStringArray command \<and> cdi_shellPayload display = extractShellCommandFromArgv argv"
  using assms
  by (auto simp: resolveSystemRunCommandRequest_def resolveSystemRunCommandWithMode_def validateSystemRunCommandConsistency_def
    buildSystemRunCommandDisplay_def extractShellCommandFromArgv_def Let_def split: if_splits option.splits sum.splits)

text \<open>When a run is allowed, by level.\<close>

lemma policy_allows:
  "rp_denied (evaluateSystemRunPolicy p) = None \<longleftrightarrow> pp_security p \<noteq> SecDeny \<and>
     (pp_approvalDecision p \<noteq> None \<or> pp_approved p \<or>
      pp_ask p \<noteq> AskAlways \<and> (pp_security p = SecAllowlist \<longrightarrow>
        \<not> pp_shellWrapperInvocation p \<and> pp_analysisOk p \<and> pp_allowlistSatisfied p))"
  by (cases "pp_ask p") (auto simp: evaluateSystemRunPolicy_def requiresExecApproval_def Let_def)

lemma policy_simps [simp]:
  "rp_approvedByAsk (evaluateSystemRunPolicy p) \<longleftrightarrow> pp_approvalDecision p \<noteq> None \<or> pp_approved p"
  "rp_analysisOk (evaluateSystemRunPolicy p) \<longleftrightarrow>
    \<not> (pp_security p = SecAllowlist \<and> pp_shellWrapperInvocation p) \<and> pp_analysisOk p"
  "rp_allowlistSatisfied (evaluateSystemRunPolicy p) \<longleftrightarrow>
    \<not> (pp_security p = SecAllowlist \<and> pp_shellWrapperInvocation p) \<and> pp_allowlistSatisfied p"
  by (auto simp: evaluateSystemRunPolicy_def Let_def)

lemma planned_effective: "resolvePlannedSegmentArgv segment =
    (let exe = js_or_empty (js_coalesce (map_option js_trim (Option.bind (sg_resolution segment) cr_resolvedRealPath))
           (map_option js_trim (Option.bind (sg_resolution segment) cr_resolvedPath)));
         base = effectiveArgvOf segment
     in if policyBlockedSegment segment \<or> base = [] then None else Some (if exe \<noteq> [] then exe # tl base else base))"
  unfolding resolvePlannedSegmentArgv_def effectiveArgvOf_def policyBlockedSegment_def optFlags_def Let_def
  by simp

lemma covered_plan:
  assumes "segmentCovered h ctx segment by'" "sg_argv segment \<noteq> []"
  obtains run where "resolvePlannedSegmentArgv segment = Some run" "run \<noteq> []" "tl run = tl (effectiveArgvOf segment)"
proof -
  have "effectiveArgvOf segment \<noteq> []" using assms(2) by (simp add: effectiveArgvOf_def Let_def)
  with assms(1) that show ?thesis
    by (auto simp: planned_effective segmentCovered_def Let_def split: if_splits)
qed

lemma unapprovedRun_covered:
  assumes "unapprovedRun h env ctx SecAllowlist ask shellPayload argv = Inr run"
  shows "shellPayload = None \<and> ask \<noteq> AskAlways \<and>
    (\<exists>segment by'. segment = segmentOf h \<lparr>xo_cwd = ac_cwd ctx, xo_env = env\<rparr>
        (js_join '' '' (filter (\<lambda>a. js_trim a \<noteq> []) argv)) (filter (\<lambda>a. js_trim a \<noteq> []) argv) \<and>
      segmentCovered h (ctx\<lparr>ac_platform := None\<rparr>) segment by' \<and>
      resolvePlannedSegmentArgv segment = Some run \<and> tl run = tl (effectiveArgvOf segment))"
proof -
  let ?ev = "evaluateSystemRunAllowlist h env ctx SecAllowlist shellPayload argv"
  let ?ctx = "ctx\<lparr>ac_platform := None\<rparr>"
  let ?argv = "filter (\<lambda>a. js_trim a \<noteq> []) argv" and ?opts = "\<lparr>xo_cwd = ac_cwd ctx, xo_env = env\<rparr>"
  let ?policy = "evaluateSystemRunPolicy \<lparr>pp_security = SecAllowlist, pp_ask = ask, pp_analysisOk = ra_analysisOk ?ev,
    pp_allowlistSatisfied = ra_allowlistSatisfied ?ev, pp_approvalDecision = None, pp_approved = False,
    pp_isWindows = False, pp_cmdInvocation = False, pp_shellWrapperInvocation = (shellPayload \<noteq> None)\<rparr>"
  from assms have "rp_denied ?policy = None"
    by (auto simp: unapprovedRun_def Let_def split: option.splits)
  then have p: "shellPayload = None" "ask \<noteq> AskAlways" "ra_analysisOk ?ev" "ra_allowlistSatisfied ?ev"
    by (auto simp: policy_allows)
  from p(3) have ne: "?argv \<noteq> []"
    using p(1) by (auto simp: evaluateSystemRunAllowlist_def analyzeArgvCommand_def js_or_empty_def Let_def)
  define segment where "segment = segmentOf h ?opts (js_join '' '' ?argv) ?argv"
  have an: "analyzeArgvCommand h ?opts argv = Inr \<lparr>an_segments = [segment], an_chains = None\<rparr>"
    using ne by (simp add: analyzeArgvCommand_def Let_def segment_def)
  with p(1,4) have sat: "ev_satisfied (evaluateExecAllowlist h ?ctx (Inr \<lparr>an_segments = [segment], an_chains = None\<rparr>))"
    and segs: "ra_segments ?ev = [segment]"
    by (auto simp: evaluateSystemRunAllowlist_def js_or_empty_def Let_def split: if_splits)
  from evaluateExecAllowlist_covered [OF sat] obtain by' where cov: "segmentCovered h ?ctx segment by'"
    by (auto simp: list_all2_Cons1)
  obtain run' where run': "resolvePlannedSegmentArgv segment = Some run'" "run' \<noteq> []" "tl run' = tl (effectiveArgvOf segment)"
    by (rule covered_plan [OF cov]) (use ne in \<open>simp_all add: segment_def segmentOf_def\<close>)
  have "unapprovedRun h env ctx SecAllowlist ask shellPayload argv = Inr run'"
    using \<open>rp_denied ?policy = None\<close> p segs run'
    by (simp add: unapprovedRun_def resolvePlannedAllowlistArgv_def resolveSystemRunExecArgv_def js_or_empty_def Let_def)
  with assms have "run = run'" by simp
  with p cov run' segment_def show ?thesis by blast
qed

text \<open>C7: With the security level "allowlist", whatever a node runs without an approval is covered. No inline
  command of a shell is found in the given arguments, and asking is not mandatory; the arguments, but for blank ones,
  are one segment that the allowlist, a safe binary or a skill covers and that the wrapper policy does not block; and
  what is executed is the plan of that segment: its arguments once dispatch wrappers are taken off, with the
  executable's real path in front. The program covered may itself be a shell, run without an inline command.\<close>

theorem unapproved_run_is_covered:
  assumes "unapprovedRequest h env ctx SecAllowlist ask command rawCommand = Inr run"
  shows "extractShellCommandFromArgv (normalizeStringArray command) = None \<and> ask \<noteq> AskAlways \<and>
    (\<exists>argv segment by'. argv = filter (\<lambda>a. js_trim a \<noteq> []) (normalizeStringArray command) \<and>
      segment = segmentOf h \<lparr>xo_cwd = ac_cwd ctx, xo_env = env\<rparr> (js_join '' '' argv) argv \<and>
      segmentCovered h (ctx\<lparr>ac_platform := None\<rparr>) segment by' \<and>
      resolvePlannedSegmentArgv segment = Some run \<and> tl run = tl (effectiveArgvOf segment))"
proof -
  obtain argv display where req: "resolveSystemRunCommandRequest command rawCommand = Inr (argv, display)" "argv \<noteq> []"
    and run: "unapprovedRun h env ctx SecAllowlist ask (cdi_shellPayload display) argv = Inr run"
    using assms by (auto simp: unapprovedRequest_def split: sum.splits if_splits)
  from unapprovedRun_covered [OF run] request_command [OF req] show ?thesis by auto
qed

definition niceLs :: jsv where
  "niceLs = JArr [JStr ''nice'', JStr ''ls'', JStr ''-l'']"

theorem unapproved_run_is_covered_witness:
  "unapprovedRequest sampleHost None sampleContext SecAllowlist AskOnMiss niceLs JUndef = Inr [''/usr/bin/ls'', ''-l''] \<and>
   (\<exists>segment by'. segmentCovered sampleHost (sampleContext\<lparr>ac_platform := None\<rparr>) segment by' \<and>
      resolvePlannedSegmentArgv segment = Some [''/usr/bin/ls'', ''-l''])"
proof -
  have r: "unapprovedRequest sampleHost None sampleContext SecAllowlist AskOnMiss niceLs JUndef = Inr [''/usr/bin/ls'', ''-l'']"
    by code_simp
  from unapproved_run_is_covered [OF r] r show ?thesis by blast
qed

text \<open>A shell that is called by its name, or through a multiplexer, is found.\<close>

lemma shell_request_denied:
  "list_all (\<lambda>argv. \<not> isl (unapprovedRequest sampleHost None sampleContext SecFull AskOff (JArr (map JStr argv)) JUndef) \<and>
     isl (unapprovedRequest sampleHost None (sampleContext\<lparr>ac_allowlist := [newEntry None ''/usr/bin/*'' None]\<rparr>) SecAllowlist AskOff
       (JArr (map JStr argv)) JUndef))
     [[''sh'', ''-c'', ''id''], [''busybox'', ''sh'', ''-c'', ''id'']]"
  by code_simp

section \<open>What the model shows of the code\<close>

text \<open>The executable's real path goes in front of arguments that were checked for the link: where an allowed
  program is a link to a program that picks its function by its first argument, another function runs.\<close>

lemma applet_link_runs_multiplexer:
  "unapprovedRun (sampleHost\<lparr>xh_isExecutable := prefix ''/bin/'',
       xh_realpath := (\<lambda>p. Some (if p = ''/bin/ls'' then ''/bin/busybox'' else p))\<rparr>) None
     (sampleContext\<lparr>ac_allowlist := [newEntry None ''/bin/ls'' None]\<rparr>) SecAllowlist AskOnMiss None
     [''/bin/ls'', ''sh'', ''-c'', ''id''] = Inr [''/bin/busybox'', ''sh'', ''-c'', ''id'']"
  by code_simp

text \<open>Blank arguments are not part of the plan.\<close>

lemma blank_argument_dropped:
  "unapprovedRun sampleHost None sampleContext SecAllowlist AskOnMiss None [''ls'', [], ''x''] = Inr [''/usr/bin/ls'', ''x'']"
  by code_simp

text \<open>Bare strings of an older file are kept as entries, unless there is a main agent to merge them into.\<close>

definition legacyFile :: "(string \<times> execAgent) list \<Rightarrow> approvalsFile" where
  "legacyFile agents = \<lparr>af_socketPath = None, af_socketToken = None, af_defaults = None, af_agents = Some agents\<rparr>"

lemma legacy_strings_lost:
  "map (\<lambda>agents. map (\<lambda>(k, a). (k, itemsOf (ag_allowlist a)))
       (agentsOf (fst (normalizeExecApprovals (\<lambda>n. ''id'') 0 (legacyFile agents)))))
     [[(''default'', noAgent\<lparr>ag_allowlist := Some [AString ''/bin/ls'']\<rparr>)],
      [(''main'', noAgent), (''default'', noAgent\<lparr>ag_allowlist := Some [AString ''/bin/ls'']\<rparr>)]] =
   [[(''main'', [AEntry (newEntry (Some ''id'') ''/bin/ls'' None)])], [(''main'', [])]]"
  by code_simp

text \<open>A level of an agent that is not recognised falls back to the defaults past the wildcard.\<close>

lemma invalid_level_skips_wildcard:
  "lv_security (resolvedAgent (noAgent\<lparr>df_security := Some ''allow-list''\<rparr>) (noAgent\<lparr>df_security := Some ''deny''\<rparr>)
     (resolvedDefaults (noDefaults\<lparr>df_security := Some ''full''\<rparr>)
       \<lparr>ov_security = None, ov_ask = None, ov_askFallback = None, ov_autoAllowSkills = None\<rparr>)) = SecFull"
  by code_simp

end
