(* ===== verification/Safe_Bin_Runtime.thy ===== *)
theory Safe_Bin_Runtime
  imports Exec_Allowlist
begin

text \<open>
  \<open>src/infra/exec-safe-bin-runtime-policy.ts\<close>: the safe binaries, their profiles and the trusted
  directories that result from the global configuration and that of an agent, with what a warning
  names: interpreters without a profile and directories that others may write to.
\<close>

section \<open>Interpreters\<close>

definition INTERPRETER_LIKE_SAFE_BINS :: "string list" where
  "INTERPRETER_LIKE_SAFE_BINS =
    [''ash'', ''bash'', ''busybox'', ''bun'', ''cmd'', ''cmd.exe'', ''cscript'', ''dash'', ''deno'', ''fish'', ''ksh'',
     ''lua'', ''node'', ''nodejs'', ''perl'', ''php'', ''powershell'', ''powershell.exe'', ''pypy'', ''pwsh'', ''pwsh.exe'',
     ''python'', ''python2'', ''python3'', ''ruby'', ''sh'', ''toybox'', ''wscript'', ''zsh'']"

definition isDigitChar :: "char \<Rightarrow> bool" where
  "isDigitChar c \<longleftrightarrow> c \<in> set ''0123456789''"

text \<open>\<open>/^name\d+(?:\.\d+)?$/\<close>\<close>

definition versionedName :: "string \<Rightarrow> string \<Rightarrow> bool" where
  "versionedName name s \<longleftrightarrow> prefix name s \<and>
     (let v = drop (length name) s; major = takeWhile isDigitChar v; rest = dropWhile isDigitChar v
      in major \<noteq> [] \<and> (rest = [] \<or> (hd rest = CHR ''.'' \<and> tl rest \<noteq> [] \<and> list_all isDigitChar (tl rest))))"

definition INTERPRETER_NAMES :: "string list" where
  "INTERPRETER_NAMES = [''python'', ''ruby'', ''perl'', ''php'', ''node'']"

definition stripSafeBinSuffix :: "string \<Rightarrow> string" where
  "stripSafeBinSuffix s =
     (case find (\<lambda>ext. suffix ext (js_lower s)) [''.exe'', ''.cmd'', ''.bat'', ''.com''] of
        Some ext \<Rightarrow> take (length s - length ext) s | None \<Rightarrow> s)"

definition normalizeSafeBinName :: "string \<Rightarrow> string" where
  "normalizeSafeBinName raw =
     (let trimmed = js_lower (js_trim raw);
          lastPart = rev (takeWhile (\<lambda>c. c \<noteq> CHR ''/'' \<and> c \<noteq> CHR 0x5C) (rev trimmed))
      in if trimmed = [] then [] else stripSafeBinSuffix lastPart)"

definition isInterpreterLikeSafeBin :: "string \<Rightarrow> bool" where
  "isInterpreterLikeSafeBin raw \<longleftrightarrow>
     (let normalized = normalizeSafeBinName raw in
      normalized \<noteq> [] \<and> (normalized \<in> set INTERPRETER_LIKE_SAFE_BINS \<or>
        list_ex (\<lambda>name. versionedName name normalized) INTERPRETER_NAMES))"

definition listInterpreterLikeSafeBins :: "string list \<Rightarrow> string list" where
  "listInterpreterLikeSafeBins entries =
     sort (filter (\<lambda>e. e \<noteq> [] \<and> isInterpreterLikeSafeBin e) (map normalizeSafeBinName entries))"

section \<open>The policy\<close>

record safeBinScope =
  ss_safeBins :: "string list option option"
  ss_safeBinProfiles :: "(string \<times> safeBinFixture) list option"
  ss_safeBinTrustedDirs :: "string list option"

definition scopeBins :: "safeBinScope option \<Rightarrow> string list option option" where
  "scopeBins scope = Option.bind scope ss_safeBins"

definition resolveMergedSafeBinProfileFixtures ::
    "(string \<Rightarrow> nat list) \<Rightarrow> safeBinScope option \<Rightarrow> safeBinScope option \<Rightarrow> (string \<times> safeBinFixture) list option" where
  "resolveMergedSafeBinProfileFixtures collate globalScope localScope =
     (let fromGlobal = normalizeSafeBinProfileFixtures collate (Option.bind globalScope ss_safeBinProfiles);
          fromLocal = normalizeSafeBinProfileFixtures collate (Option.bind localScope ss_safeBinProfiles)
      in if fromGlobal = [] \<and> fromLocal = [] then None else Some (spreadObjects fromGlobal fromLocal))"

record writableDir =
  wd_dir :: string
  wd_groupWritable :: bool
  wd_worldWritable :: bool

text \<open>The mode of a directory, if there is one of that name.\<close>

definition listWritableExplicitTrustedSafeBinDirs ::
    "execHost \<Rightarrow> (string \<Rightarrow> nat option) \<Rightarrow> string list option \<Rightarrow> writableDir list" where
  "listWritableExplicitTrustedSafeBinDirs h dirMode entries =
     List.map_filter (\<lambda>dir. case dirMode dir of
         None \<Rightarrow> None
       | Some mode \<Rightarrow>
           (let groupWritable = odd (mode div 16); worldWritable = odd (mode div 2) in
            if \<not> groupWritable \<and> \<not> worldWritable then None
            else Some \<lparr>wd_dir = dir, wd_groupWritable = groupWritable, wd_worldWritable = worldWritable\<rparr>))
       (resolveTrustedSafeBinDirs h (normalizeTrustedSafeBinDirs entries))"

record safeBinRuntime =
  sr_safeBins :: "string list"
  sr_safeBinProfiles :: "(string \<times> safeBinProfile) list"
  sr_trustedSafeBinDirs :: "string list"
  sr_unprofiledSafeBins :: "string list"
  sr_unprofiledInterpreterSafeBins :: "string list"
  sr_writableTrustedSafeBinDirs :: "writableDir list"
  sr_warnings :: "string list"

definition trustWarning :: "writableDir \<Rightarrow> string" where
  "trustWarning hit =
     ''exec: safeBinTrustedDirs includes '' @ (if wd_worldWritable hit then ''world-writable'' else ''group-writable'') @
     '' directory '' @ [CHR 0x27] @ wd_dir hit @ [CHR 0x27] @
     ''; remove trust or tighten permissions (for example chmod 755).''"

text \<open>\<open>local?.safeBins ?? global?.safeBins\<close>: a \<open>null\<close> of the agent falls back as well, one of the global
  configuration means no safe binaries.\<close>

definition pickBins :: "safeBinScope option \<Rightarrow> safeBinScope option \<Rightarrow> string list option option" where
  "pickBins globalScope localScope =
     (case scopeBins localScope of Some (Some bins) \<Rightarrow> Some (Some bins) | _ \<Rightarrow> scopeBins globalScope)"

definition resolveExecSafeBinRuntimePolicy ::
    "execHost \<Rightarrow> (string \<Rightarrow> nat list) \<Rightarrow> (string \<Rightarrow> nat option) \<Rightarrow> safeBinScope option \<Rightarrow> safeBinScope option \<Rightarrow>
     trustCache \<Rightarrow> safeBinRuntime \<times> trustCache" where
  "resolveExecSafeBinRuntimePolicy h collate dirMode globalScope localScope cache =
     (let safeBins = resolveSafeBins (pickBins globalScope localScope);
          safeBinProfiles = resolveSafeBinProfiles collate (resolveMergedSafeBinProfileFixtures collate globalScope localScope);
          unprofiledSafeBins = sort (filter (\<lambda>entry. map_of safeBinProfiles entry = None) safeBins);
          explicitDirs = normalizeTrustedSafeBinDirs (Option.bind globalScope ss_safeBinTrustedDirs) @
            normalizeTrustedSafeBinDirs (Option.bind localScope ss_safeBinTrustedDirs);
          writable = listWritableExplicitTrustedSafeBinDirs h dirMode (Some explicitDirs)
      in case getTrustedSafeBinDirs h None (Some explicitDirs) False cache of
           (trustedSafeBinDirs, cache') \<Rightarrow>
             (\<lparr>sr_safeBins = safeBins, sr_safeBinProfiles = safeBinProfiles, sr_trustedSafeBinDirs = trustedSafeBinDirs,
               sr_unprofiledSafeBins = unprofiledSafeBins,
               sr_unprofiledInterpreterSafeBins = listInterpreterLikeSafeBins unprofiledSafeBins,
               sr_writableTrustedSafeBinDirs = writable, sr_warnings = map trustWarning writable\<rparr>, cache'))"

section \<open>The cache of trusted directories\<close>

text \<open>One entry, keyed by the text of the directories.\<close>

definition trustCachePut :: "string \<Rightarrow> string list \<Rightarrow> trustCache \<Rightarrow> trustCache" where
  "trustCachePut key dirs cache = Some (key, dirs)"

interpretation trust_cache:
  memo_cache trustCacheGet trustCachePut None "\<lambda>c. if c = None then 0 else 1" 1
  by unfold_locales (auto simp: trustCacheGet_def trustCachePut_def split: option.splits if_splits)

text \<open>The directories that a key stands for.\<close>

definition dirsOfKey :: "string \<Rightarrow> string list" where
  "dirsOfKey key = js_parts CHR 0x01 key"

lemma resolveTrusted_once:
  "js_uniq (resolveTrustedSafeBinDirs h (normalizeTrustedSafeBinDirs (Some a) @ normalizeTrustedSafeBinDirs (Some b))) =
   resolveTrustedSafeBinDirs h (normalizeTrustedSafeBinDirs (Some (a @ b)))"
proof -
  have set_resolve: "set (resolveTrustedSafeBinDirs h es) = set (List.map_filter (normalizeTrustedDir h) es)" for es
    by (simp add: resolveTrustedSafeBinDirs_def)
  have d: "sorted (resolveTrustedSafeBinDirs h es) \<and> distinct (resolveTrustedSafeBinDirs h es)" for es
    by (simp add: resolveTrustedSafeBinDirs_def)
  have "set (resolveTrustedSafeBinDirs h (normalizeTrustedSafeBinDirs (Some a) @ normalizeTrustedSafeBinDirs (Some b))) =
      set (resolveTrustedSafeBinDirs h (normalizeTrustedSafeBinDirs (Some (a @ b))))"
    by (auto simp: set_resolve normalizeTrustedSafeBinDirs_def optFlags_def map_filter_def)
  with d show ?thesis by (metis js_uniq_distinct sorted_distinct_set_unique)
qed

lemma resolved_not_Nil: "d \<in> set (resolveTrustedSafeBinDirs h es) \<Longrightarrow> d \<noteq> []"
  by (auto simp: resolveTrustedSafeBinDirs_def map_filter_def normalizeTrustedDir_def pathResolve_def Let_def
      split: if_splits)

lemma dirsOfKey_join:
  assumes "\<And>d. d \<in> set ds \<Longrightarrow> d \<noteq> [] \<and> CHR 0x01 \<notin> set d"
  shows "dirsOfKey (js_join [CHR 0x01] ds) = ds"
proof (cases ds)
  case Nil
  then show ?thesis by (simp add: dirsOfKey_def js_parts_def)
next
  case (Cons d ds')
  with assms have "js_split CHR 0x01 (js_join [CHR 0x01] ds) = ds" by (intro js_split_join) auto
  with assms show ?thesis by (auto simp: dirsOfKey_def js_parts_def intro: filter_True)
qed

text \<open>Through the cache the trusted directories are those of the configuration, as long as no directory
  has the separator of the key in its name.\<close>

lemma trusted_dirs_cached:
  assumes "coherent trustCacheGet dirsOfKey cache"
    and "\<And>d. d \<in> set (resolveTrustedSafeBinDirs h (normalizeTrustedSafeBinDirs (Some (orDefault base @ optFlags extra)))) \<Longrightarrow>
      CHR 0x01 \<notin> set d"
    and "orDefault = (\<lambda>b. case b of None \<Rightarrow> DEFAULT_SAFE_BIN_TRUSTED_DIRS | Some ds \<Rightarrow> ds)"
  shows "fst (getTrustedSafeBinDirs h base extra refresh cache) = buildTrustedSafeBinDirs h (orDefault base) (optFlags extra) \<and>
    coherent trustCacheGet dirsOfKey (snd (getTrustedSafeBinDirs h base extra refresh cache))"
proof -
  let ?es = "orDefault base @ optFlags extra" and ?key = "buildTrustedSafeBinCacheKey h (orDefault base @ optFlags extra)"
  have key: "dirsOfKey ?key = buildTrustedSafeBinDirs h (orDefault base) (optFlags extra)"
    unfolding buildTrustedSafeBinCacheKey_def buildTrustedSafeBinDirs_def resolveTrusted_once
    by (rule dirsOfKey_join) (use assms(2) resolved_not_Nil in blast)
  have hit: "trustCacheGet cache ?key = Some dirs \<Longrightarrow> dirs = dirsOfKey ?key" for dirs
    using assms(1) by (simp add: coherent_def)
  have new: "coherent trustCacheGet dirsOfKey (Some (?key, dirsOfKey ?key))"
    using trust_cache.coherent_put [OF assms(1), of ?key] by (simp add: trustCachePut_def)
  show ?thesis
    using hit new assms(1) unfolding getTrustedSafeBinDirs_def Let_def assms(3) [symmetric] key [symmetric]
    by (cases "trustCacheGet cache ?key") (auto simp: assms(3) [symmetric] split: option.splits)
qed

end
