(* ===== verification/Net_Address.thy ===== *)
theory Net_Address
  imports Js_Values
begin

text \<open>
  \<open>src/gateway/net.ts\<close> and \<open>src/shared/net/ip.ts\<close>: which address a request comes from. The
  package ipaddr.js and the runtime's \<open>net.isIP\<close> are a record of functions on a type of parsed
  addresses; everything the program itself does with them is modelled.
\<close>

section \<open>Model\<close>

text \<open>\<open>ip_parseCIDR\<close> and \<open>ip_match\<close> may throw: \<^const>\<open>None\<close>.\<close>

record 'ip ipLib =
  ipv4_isValid :: "string \<Rightarrow> bool"
  ipv4_isFourPart :: "string \<Rightarrow> bool"
  ipv4_parse :: "string \<Rightarrow> 'ip"
  ipv6_isValid :: "string \<Rightarrow> bool"
  ipv6_parse :: "string \<Rightarrow> 'ip"
  ip_isV6 :: "'ip \<Rightarrow> bool"
  ip_isMapped :: "'ip \<Rightarrow> bool"
  ip_toIPv4 :: "'ip \<Rightarrow> 'ip"
  ip_range :: "'ip \<Rightarrow> string"
  ip_toString :: "'ip \<Rightarrow> string"
  ip_parseCIDR :: "string \<Rightarrow> ('ip \<times> int) option"
  ip_match :: "'ip \<Rightarrow> 'ip \<times> int \<Rightarrow> bool option"
  net_isIP :: "string \<Rightarrow> nat"

definition js_truthy :: "string option \<Rightarrow> bool" where
  "js_truthy v \<longleftrightarrow> js_or_empty v \<noteq> []"

subsection \<open>Parsing an address\<close>

definition bracketed :: "string \<Rightarrow> bool" where
  "bracketed s \<longleftrightarrow> s \<noteq> [] \<and> hd s = CHR ''['' \<and> last s = CHR '']''"

definition stripIpv6Brackets :: "string \<Rightarrow> string" where
  "stripIpv6Brackets s = (if bracketed s then butlast (tl s) else s)"

text \<open>\<open>[^:%]+(\.[^:%]+){k}\<close> on text without \<open>:\<close> and \<open>%\<close>.\<close>

fun dottedParts :: "nat \<Rightarrow> string \<Rightarrow> bool" where
  "dottedParts 0 s \<longleftrightarrow> s \<noteq> []"
| "dottedParts (Suc k) s \<longleftrightarrow>
     list_ex (\<lambda>i. 0 < i \<and> s ! i = CHR ''.'' \<and> dottedParts k (drop (Suc i) s)) [0..<length s]"

definition alnumChar :: "char \<Rightarrow> bool" where
  "alnumChar c = (let n = (of_char c :: nat) in
     (48 \<le> n \<and> n \<le> 57) \<or> (65 \<le> n \<and> n \<le> 90) \<or> (97 \<le> n \<and> n \<le> 122))"

text \<open>\<open>/^(.*:)([^:%]+(?:\.[^:%]+){3})(%[0-9A-Za-z]+)?$/i\<close>: what follows the last colon is the
  second group, which has no colon.\<close>

definition embeddedMatch :: "string \<Rightarrow> (string \<times> string \<times> string) option" where
  "embeddedMatch raw =
     (let rest = rev (takeWhile (\<lambda>c. c \<noteq> CHR '':'') (rev raw));
          front = take (length raw - length rest) raw;
          main = takeWhile (\<lambda>c. c \<noteq> CHR ''%'') rest;
          zone = dropWhile (\<lambda>c. c \<noteq> CHR ''%'') rest
      in if front \<noteq> [] \<and> \<not> list_ex (\<lambda>c. c = CHR 0x0A \<or> c = CHR 0x0D) front \<and> dottedParts 3 main \<and>
            (zone = [] \<or> tl zone \<noteq> [] \<and> list_all alnumChar (tl zone))
         then Some (front, main, zone) else None)"

definition parseDecimal :: "string \<Rightarrow> nat" where
  "parseDecimal s = foldl (\<lambda>n c. 10 * n + (of_char c - 48)) 0 s"

fun show_hex :: "nat \<Rightarrow> string" where
  "show_hex n = (if n < 16 then [hexDigit n] else show_hex (n div 16) @ [hexDigit (n mod 16)])"

declare show_hex.simps [simp del]

text \<open>A four-part decimal splits into four octets.\<close>

definition hextets :: "string \<Rightarrow> string \<times> string" where
  "hextets main =
     (let octets = map parseDecimal (js_split CHR ''.'' main)
      in (show_hex (Bit_Operations.or (push_bit 8 (octets ! 0)) (octets ! 1)),
          show_hex (Bit_Operations.or (push_bit 8 (octets ! 2)) (octets ! 3))))"

definition parseIpv6WithEmbeddedIpv4 :: "'ip ipLib \<Rightarrow> string \<Rightarrow> 'ip option" where
  "parseIpv6WithEmbeddedIpv4 lib raw =
     (if CHR '':'' \<notin> set raw \<or> CHR ''.'' \<notin> set raw then None
      else (case embeddedMatch raw of
          None \<Rightarrow> None
        | Some (front, embedded, zone) \<Rightarrow>
            if \<not> ipv4_isFourPart lib embedded then None
            else (let (high, low) = hextets embedded;
                      normalized = front @ high @ '':'' @ low @ zone
                  in if ipv6_isValid lib normalized then Some (ipv6_parse lib normalized) else None)))"

definition normalizeIpv4MappedAddress :: "'ip ipLib \<Rightarrow> 'ip \<Rightarrow> 'ip" where
  "normalizeIpv4MappedAddress lib a =
     (if \<not> ip_isV6 lib a then a else if \<not> ip_isMapped lib a then a else ip_toIPv4 lib a)"

definition normalizeIpParseInput :: "string option \<Rightarrow> string option" where
  "normalizeIpParseInput raw =
     (let trimmed = js_trim (js_or_empty raw) in if trimmed = [] then None else Some (stripIpv6Brackets trimmed))"

definition parseCanonicalIpAddress :: "'ip ipLib \<Rightarrow> string option \<Rightarrow> 'ip option" where
  "parseCanonicalIpAddress lib raw =
     (case normalizeIpParseInput raw of
        None \<Rightarrow> None
      | Some s \<Rightarrow>
          if s = [] then None
          else if ipv4_isValid lib s then (if \<not> ipv4_isFourPart lib s then None else Some (ipv4_parse lib s))
          else if ipv6_isValid lib s then Some (ipv6_parse lib s)
          else parseIpv6WithEmbeddedIpv4 lib s)"

definition normalizeIpAddress :: "'ip ipLib \<Rightarrow> string option \<Rightarrow> string option" where
  "normalizeIpAddress lib raw =
     map_option (\<lambda>a. js_lower (ip_toString lib (normalizeIpv4MappedAddress lib a))) (parseCanonicalIpAddress lib raw)"

definition isLoopbackIpAddress :: "'ip ipLib \<Rightarrow> string option \<Rightarrow> bool" where
  "isLoopbackIpAddress lib raw \<longleftrightarrow>
     (case parseCanonicalIpAddress lib raw of
        None \<Rightarrow> False
      | Some a \<Rightarrow> ip_range lib (normalizeIpv4MappedAddress lib a) = ''loopback'')"

definition isIpInCidr :: "'ip ipLib \<Rightarrow> string \<Rightarrow> string \<Rightarrow> bool" where
  "isIpInCidr lib ip cidr \<longleftrightarrow>
     (case parseCanonicalIpAddress lib (Some ip) of
        None \<Rightarrow> False
      | Some a \<Rightarrow>
          let candidate = js_trim cidr; comparable = normalizeIpv4MappedAddress lib a
          in if candidate = [] then False
             else if CHR ''/'' \<notin> set candidate
             then (case parseCanonicalIpAddress lib (Some candidate) of
                 None \<Rightarrow> False
               | Some e \<Rightarrow>
                   let exact = normalizeIpv4MappedAddress lib e
                   in ip_isV6 lib comparable = ip_isV6 lib exact \<and> ip_toString lib comparable = ip_toString lib exact)
             else (case ip_parseCIDR lib candidate of
                 None \<Rightarrow> False
               | Some (base, len) \<Rightarrow>
                   let comparableBase = normalizeIpv4MappedAddress lib base
                   in if ip_isV6 lib comparable \<noteq> ip_isV6 lib comparableBase then False
                      else (case ip_match lib comparable (comparableBase, len) of None \<Rightarrow> False | Some b \<Rightarrow> b)))"

subsection \<open>Requests\<close>

datatype headerVal = HStr string | HArr "string list"

record httpReq =
  rq_remoteAddress :: "string option"
  rq_headers :: "(string \<times> headerVal) list"

definition headerValue :: "headerVal option \<Rightarrow> string option" where
  "headerValue v = (case v of
     None \<Rightarrow> None
   | Some (HStr s) \<Rightarrow> Some s
   | Some (HArr vs) \<Rightarrow> (case vs of [] \<Rightarrow> None | s # _ \<Rightarrow> Some s))"

definition header :: "httpReq \<Rightarrow> string \<Rightarrow> headerVal option" where
  "header req name = map_of (rq_headers req) name"

text \<open>\<open>Boolean(req.headers[name])\<close>: an array is always true.\<close>

definition headerTruthy :: "headerVal option \<Rightarrow> bool" where
  "headerTruthy v = (case v of None \<Rightarrow> False | Some (HStr s) \<Rightarrow> s \<noteq> [] | Some (HArr _) \<Rightarrow> True)"

definition lastColonCandidate :: "string \<Rightarrow> string option" where
  "lastColonCandidate ip =
     (case js_split CHR '':'' ip of
        [candidate, _] \<Rightarrow> if CHR ''.'' \<in> set ip then Some candidate else None
      | _ \<Rightarrow> None)"

definition stripOptionalPort :: "'ip ipLib \<Rightarrow> string \<Rightarrow> string" where
  "stripOptionalPort lib ip =
     (if ip \<noteq> [] \<and> hd ip = CHR ''['' \<and> CHR '']'' \<in> set ip
      then tl (takeWhile (\<lambda>c. c \<noteq> CHR '']'') ip)
      else if net_isIP lib ip \<noteq> 0 then ip
      else (case lastColonCandidate ip of
          Some candidate \<Rightarrow> if net_isIP lib candidate = 4 then candidate else ip
        | None \<Rightarrow> ip))"

definition parseIpLiteral :: "'ip ipLib \<Rightarrow> string option \<Rightarrow> string option" where
  "parseIpLiteral lib raw =
     (let trimmed = js_trim (js_or_empty raw)
      in if trimmed = [] then None
         else (case normalizeIpAddress lib (Some (stripOptionalPort lib trimmed)) of
             None \<Rightarrow> None
           | Some normalized \<Rightarrow> if normalized = [] \<or> net_isIP lib normalized = 0 then None else Some normalized))"

definition isTrustedProxyAddress :: "'ip ipLib \<Rightarrow> string option \<Rightarrow> string list \<Rightarrow> bool" where
  "isTrustedProxyAddress lib ip trustedProxies \<longleftrightarrow>
     (case normalizeIpAddress lib ip of
        None \<Rightarrow> False
      | Some normalized \<Rightarrow> normalized \<noteq> [] \<and>
          list_ex (\<lambda>proxy. js_trim proxy \<noteq> [] \<and> isIpInCidr lib normalized (js_trim proxy)) trustedProxies)"

definition forwardedChain :: "'ip ipLib \<Rightarrow> string option \<Rightarrow> string list" where
  "forwardedChain lib forwardedFor =
     (case forwardedFor of
        None \<Rightarrow> []
      | Some s \<Rightarrow> concat (map (\<lambda>entry. case parseIpLiteral lib (Some entry) of None \<Rightarrow> [] | Some n \<Rightarrow> [n]) (js_split CHR '','' s)))"

text \<open>Right to left, the first hop that is not a trusted proxy.\<close>

definition resolveForwardedClientIp :: "'ip ipLib \<Rightarrow> string option \<Rightarrow> string list \<Rightarrow> string option" where
  "resolveForwardedClientIp lib forwardedFor trustedProxies =
     (if trustedProxies = [] then None
      else find (\<lambda>hop. \<not> isTrustedProxyAddress lib (Some hop) trustedProxies) (rev (forwardedChain lib forwardedFor)))"

definition resolveClientIp ::
  "'ip ipLib \<Rightarrow> string option \<Rightarrow> string option \<Rightarrow> string option \<Rightarrow> string list \<Rightarrow> bool \<Rightarrow> string option" where
  "resolveClientIp lib remoteAddr forwardedFor realIp trustedProxies allowRealIpFallback =
     (case normalizeIpAddress lib remoteAddr of
        None \<Rightarrow> None
      | Some remote \<Rightarrow>
          if remote = [] then None
          else if \<not> isTrustedProxyAddress lib (Some remote) trustedProxies then Some remote
          else (case resolveForwardedClientIp lib forwardedFor trustedProxies of
              Some forwardedIp \<Rightarrow> Some forwardedIp
            | None \<Rightarrow> if allowRealIpFallback then parseIpLiteral lib realIp else None))"

definition resolveRequestClientIp ::
  "'ip ipLib \<Rightarrow> httpReq option \<Rightarrow> string list \<Rightarrow> bool \<Rightarrow> string option" where
  "resolveRequestClientIp lib req trustedProxies allowRealIpFallback =
     (case req of
        None \<Rightarrow> None
      | Some r \<Rightarrow>
          resolveClientIp lib (Some (js_or_empty (rq_remoteAddress r)))
            (headerValue (header r ''x-forwarded-for'')) (headerValue (header r ''x-real-ip''))
            trustedProxies allowRealIpFallback)"

subsection \<open>Host names\<close>

definition normalizeHostHeader :: "string option \<Rightarrow> string" where
  "normalizeHostHeader hostHeader = js_lower (js_trim (js_or_empty hostHeader))"

definition resolveHostName :: "'ip ipLib \<Rightarrow> string option \<Rightarrow> string" where
  "resolveHostName lib hostHeader =
     (let host = normalizeHostHeader hostHeader
      in if host = [] then []
         else if hd host = CHR ''['' \<and> CHR '']'' \<in> set host then tl (takeWhile (\<lambda>c. c \<noteq> CHR '']'') host)
         else if net_isIP lib host = 6 then host
         else hd (js_split CHR '':'' host))"

text \<open>The host is the local one, or the address to look at.\<close>

definition parseHostForAddressChecks :: "string \<Rightarrow> (bool \<times> string) option" where
  "parseHostForAddressChecks host =
     (if host = [] then None
      else let normalizedHost = js_lower (js_trim host)
        in if normalizedHost = ''localhost'' then Some (True, normalizedHost)
           else Some (False, if bracketed normalizedHost then butlast (tl normalizedHost) else normalizedHost))"

definition isLoopbackHost :: "'ip ipLib \<Rightarrow> string \<Rightarrow> bool" where
  "isLoopbackHost lib host \<longleftrightarrow>
     (case parseHostForAddressChecks host of
        None \<Rightarrow> False
      | Some (isLocalhost, unbracketedHost) \<Rightarrow> isLocalhost \<or> isLoopbackIpAddress lib (Some unbracketedHost))"

definition isLocalishHost :: "'ip ipLib \<Rightarrow> string option \<Rightarrow> bool" where
  "isLocalishHost lib hostHeader \<longleftrightarrow>
     (let host = resolveHostName lib hostHeader
      in host \<noteq> [] \<and> (isLoopbackHost lib host \<or> suffix ''.ts.net'' host))"

section \<open>Facts\<close>

lemma js_split_append_split: "js_split d (p @ d # s) = js_split d p @ js_split d s"
proof (induction p)
  case (Cons c p)
  obtain q qs where "js_split d p = q # qs" by (cases "js_split d p") auto
  with Cons show ?case by simp
qed simp

lemma forwardedChain_append:
  "forwardedChain lib (Some (spoof @ CHR '','' # real)) =
   forwardedChain lib (Some spoof) @ forwardedChain lib (Some real)"
  by (simp add: forwardedChain_def js_split_append_split)

lemma find_append_left: "x \<in> set xs \<Longrightarrow> P x \<Longrightarrow> List.find P (xs @ ys) = List.find P xs"
  by (induction xs) auto

lemma forwarded_spoof:
  assumes "hop \<in> set (forwardedChain lib (Some real))" "\<not> isTrustedProxyAddress lib (Some hop) proxies"
  shows "resolveForwardedClientIp lib (Some (spoof @ CHR '','' # real)) proxies =
    resolveForwardedClientIp lib (Some real) proxies"
  using assms by (simp add: resolveForwardedClientIp_def forwardedChain_append find_append_left [of hop])

lemma forwarded_found:
  assumes "hop \<in> set (forwardedChain lib (Some real))" "\<not> isTrustedProxyAddress lib (Some hop) proxies" "proxies \<noteq> []"
  shows "\<exists>ip. resolveForwardedClientIp lib (Some real) proxies = Some ip"
  using assms by (cases "resolveForwardedClientIp lib (Some real) proxies")
    (auto simp: resolveForwardedClientIp_def find_None_iff)

lemma trusted_needs_proxies: "isTrustedProxyAddress lib ip proxies \<Longrightarrow> proxies \<noteq> []"
  by (auto simp: isTrustedProxyAddress_def split: option.splits)

text \<open>A parsed address library for the examples: addresses are their text, dotted decimals are IPv4,
  text with a colon is IPv6, and a block is everything with its first octet.\<close>

definition demoLib :: "string ipLib" where
  "demoLib = \<lparr>
     ipv4_isValid = (\<lambda>s. list_all (\<lambda>c. c \<in> set ''0123456789.'') s \<and> length (js_split CHR ''.'' s) = 4),
     ipv4_isFourPart = (\<lambda>s. list_all (\<lambda>c. c \<in> set ''0123456789.'') s \<and> length (js_split CHR ''.'' s) = 4),
     ipv4_parse = (\<lambda>s. s), ipv6_isValid = (\<lambda>s. CHR '':'' \<in> set s \<and> CHR ''.'' \<notin> set s), ipv6_parse = (\<lambda>s. s),
     ip_isV6 = (\<lambda>s. CHR '':'' \<in> set s), ip_isMapped = (\<lambda>s. False), ip_toIPv4 = (\<lambda>s. s),
     ip_range = (\<lambda>s. if hd (js_split CHR ''.'' s) = ''127'' \<or> s = ''::1'' then ''loopback'' else ''unicast''),
     ip_toString = (\<lambda>s. s), ip_parseCIDR = (\<lambda>s. Some (hd (js_split CHR ''/'' s), 8)),
     ip_match = (\<lambda>a b. Some (hd (js_split CHR ''.'' a) = hd (js_split CHR ''.'' (fst b)))),
     net_isIP = (\<lambda>s. if CHR '':'' \<in> set s then 6 else if length (js_split CHR ''.'' s) = 4 then 4 else 0)\<rparr>"

text \<open>C32: A client cannot choose the address it is known by. When the peer of the socket is not a trusted
  proxy, the address is the peer's, whatever the forwarding headers say; when it is one, and the part of
  \<open>X-Forwarded-For\<close> that the proxies appended, after a comma, names a hop outside the trusted ones, nothing that the
  client puts before that part, nor an \<open>X-Real-IP\<close> header, changes the address. (If the proxies append trusted
  hops only, what comes before them decides.)\<close>

theorem client_ip_unspoofable:
  assumes peer: "normalizeIpAddress lib addr = Some peer" and "peer \<noteq> []"
    and appended: "isTrustedProxyAddress lib (Some peer) proxies \<Longrightarrow>
      hop \<in> set (forwardedChain lib (Some real)) \<and> \<not> isTrustedProxyAddress lib (Some hop) proxies"
  shows "resolveClientIp lib addr (Some (spoof @ CHR '','' # real)) realIp proxies realIpAllowed =
      (if isTrustedProxyAddress lib (Some peer) proxies then resolveClientIp lib addr (Some real) None proxies False
       else Some peer)"
proof (cases "isTrustedProxyAddress lib (Some peer) proxies")
  case True
  with appended have hop: "hop \<in> set (forwardedChain lib (Some real))" "\<not> isTrustedProxyAddress lib (Some hop) proxies"
    by simp_all
  with forwarded_found [OF this trusted_needs_proxies [OF True]] show ?thesis
    using True peer \<open>peer \<noteq> []\<close> by (auto simp: resolveClientIp_def forwarded_spoof [OF hop])
next
  case False
  then show ?thesis using peer \<open>peer \<noteq> []\<close> by (simp add: resolveClientIp_def)
qed

theorem client_ip_unspoofable_witness:
  "resolveClientIp demoLib (Some ''10.0.0.1'') (Some (''127.0.0.1'' @ CHR '','' # ''203.0.113.9, 10.0.0.2''))
     (Some ''127.0.0.1'') [''10.0.0.0/8''] True = Some ''203.0.113.9''"
proof -
  let ?real = "''203.0.113.9, 10.0.0.2''"
  have peer: "normalizeIpAddress demoLib (Some ''10.0.0.1'') = Some ''10.0.0.1''" by code_simp
  have trusted: "isTrustedProxyAddress demoLib (Some ''10.0.0.1'') [''10.0.0.0/8'']" by code_simp
  have hop: "''203.0.113.9'' \<in> set (forwardedChain demoLib (Some ?real)) \<and>
    \<not> isTrustedProxyAddress demoLib (Some ''203.0.113.9'') [''10.0.0.0/8'']" by code_simp
  have res: "resolveClientIp demoLib (Some ''10.0.0.1'') (Some ?real) None [''10.0.0.0/8''] False = Some ''203.0.113.9''"
    by code_simp
  show ?thesis
    using client_ip_unspoofable [where lib = demoLib and addr = "Some ''10.0.0.1''" and peer = "''10.0.0.1''"
      and proxies = "[''10.0.0.0/8'']" and hop = "''203.0.113.9''" and real = ?real and spoof = "''127.0.0.1''"
      and realIp = "Some ''127.0.0.1''" and realIpAllowed = True, OF peer _ hop] trusted res by simp
qed

end
