(* ===== verification/Auth_Rate_Limit.thy ===== *)
theory Auth_Rate_Limit
  imports Net_Address
begin

text \<open>
  \<open>src/gateway/auth-rate-limit.ts\<close>: the sliding-window limiter of failed authentication attempts.
  Times are milliseconds. The periodic timer only calls \<open>prune\<close>, which is an operation here.
\<close>

section \<open>Model\<close>

definition AUTH_RATE_LIMIT_SCOPE_DEFAULT :: string where
  "AUTH_RATE_LIMIT_SCOPE_DEFAULT = ''default''"
definition AUTH_RATE_LIMIT_SCOPE_SHARED_SECRET :: string where
  "AUTH_RATE_LIMIT_SCOPE_SHARED_SECRET = ''shared-secret''"
definition AUTH_RATE_LIMIT_SCOPE_DEVICE_TOKEN :: string where
  "AUTH_RATE_LIMIT_SCOPE_DEVICE_TOKEN = ''device-token''"

record rateLimitEntry =
  re_attempts :: "int list"
  re_lockedUntil :: "int option"

record rateLimitCheck =
  rc_allowed :: bool
  rc_remaining :: int
  rc_retryAfterMs :: int

record rateLimitConfig =
  rlc_maxAttempts :: "int option"
  rlc_windowMs :: "int option"
  rlc_lockoutMs :: "int option"
  rlc_exemptLoopback :: "bool option"

record rateLimiter =
  rl_maxAttempts :: int
  rl_windowMs :: int
  rl_lockoutMs :: int
  rl_exemptLoopback :: bool
  rl_entries :: "(string \<times> rateLimitEntry) list"

definition createAuthRateLimiter :: "rateLimitConfig \<Rightarrow> rateLimiter" where
  "createAuthRateLimiter config = \<lparr>
     rl_maxAttempts = js_default (rlc_maxAttempts config) 10,
     rl_windowMs = js_default (rlc_windowMs config) 60000,
     rl_lockoutMs = js_default (rlc_lockoutMs config) 300000,
     rl_exemptLoopback = js_default (rlc_exemptLoopback config) True,
     rl_entries = []\<rparr>"

text \<open>\<open>resolveClientIp({ remoteAddr: ip }) ?? "unknown"\<close>\<close>

definition normalizeRateLimitClientIp :: "'ip ipLib \<Rightarrow> string option \<Rightarrow> string" where
  "normalizeRateLimitClientIp lib ip = js_default (resolveClientIp lib ip None None [] False) ''unknown''"

definition normalizeScope :: "string option \<Rightarrow> string" where
  "normalizeScope scope =
     js_or (js_trim (js_default scope AUTH_RATE_LIMIT_SCOPE_DEFAULT)) AUTH_RATE_LIMIT_SCOPE_DEFAULT"

definition resolveKey :: "'ip ipLib \<Rightarrow> string option \<Rightarrow> string option \<Rightarrow> string \<times> string" where
  "resolveKey lib rawIp rawScope =
     (let ip = normalizeRateLimitClientIp lib rawIp; scope = normalizeScope rawScope
      in (scope @ '':'' @ ip, ip))"

definition isExempt :: "'ip ipLib \<Rightarrow> rateLimiter \<Rightarrow> string \<Rightarrow> bool" where
  "isExempt lib lim ip \<longleftrightarrow> rl_exemptLoopback lim \<and> isLoopbackIpAddress lib (Some ip)"

definition slideWindow :: "rateLimiter \<Rightarrow> int \<Rightarrow> rateLimitEntry \<Rightarrow> rateLimitEntry" where
  "slideWindow lim now entry =
     entry\<lparr>re_attempts := filter (\<lambda>ts. now - rl_windowMs lim < ts) (re_attempts entry)\<rparr>"

text \<open>\<open>entry.lockedUntil && now < entry.lockedUntil\<close>, and the other way round.\<close>

definition lockedAt :: "int \<Rightarrow> rateLimitEntry \<Rightarrow> bool" where
  "lockedAt now entry \<longleftrightarrow> (case re_lockedUntil entry of None \<Rightarrow> False | Some l \<Rightarrow> l \<noteq> 0 \<and> now < l)"

definition lockExpiredAt :: "int \<Rightarrow> rateLimitEntry \<Rightarrow> bool" where
  "lockExpiredAt now entry \<longleftrightarrow> (case re_lockedUntil entry of None \<Rightarrow> False | Some l \<Rightarrow> l \<noteq> 0 \<and> l \<le> now)"

definition putEntry :: "string \<Rightarrow> rateLimitEntry \<Rightarrow> rateLimiter \<Rightarrow> rateLimiter" where
  "putEntry key entry lim = lim\<lparr>rl_entries := AList.update key entry (rl_entries lim)\<rparr>"

definition rl_check ::
  "'ip ipLib \<Rightarrow> int \<Rightarrow> string option \<Rightarrow> string option \<Rightarrow> rateLimiter \<Rightarrow> rateLimitCheck \<times> rateLimiter" where
  "rl_check lib now rawIp rawScope lim =
     (let (key, ip) = resolveKey lib rawIp rawScope;
          free = \<lparr>rc_allowed = True, rc_remaining = rl_maxAttempts lim, rc_retryAfterMs = 0\<rparr>
      in if isExempt lib lim ip then (free, lim)
         else (case map_of (rl_entries lim) key of
             None \<Rightarrow> (free, lim)
           | Some entry \<Rightarrow>
               if lockedAt now entry
               then (\<lparr>rc_allowed = False, rc_remaining = 0,
                      rc_retryAfterMs = js_default (re_lockedUntil entry) 0 - now\<rparr>, lim)
               else let cleared = (if lockExpiredAt now entry
                                   then entry\<lparr>re_lockedUntil := None, re_attempts := []\<rparr> else entry);
                        slid = slideWindow lim now cleared;
                        remaining = max 0 (rl_maxAttempts lim - int (length (re_attempts slid)))
                    in (\<lparr>rc_allowed = 0 < remaining, rc_remaining = remaining, rc_retryAfterMs = 0\<rparr>,
                        putEntry key slid lim)))"

definition rl_recordFailure ::
  "'ip ipLib \<Rightarrow> int \<Rightarrow> string option \<Rightarrow> string option \<Rightarrow> rateLimiter \<Rightarrow> rateLimiter" where
  "rl_recordFailure lib now rawIp rawScope lim =
     (let (key, ip) = resolveKey lib rawIp rawScope
      in if isExempt lib lim ip then lim
         else let entry = js_default (map_of (rl_entries lim) key) \<lparr>re_attempts = [], re_lockedUntil = None\<rparr>
           in if lockedAt now entry then putEntry key entry lim
              else let slid = slideWindow lim now entry;
                       pushed = slid\<lparr>re_attempts := re_attempts slid @ [now]\<rparr>
                in putEntry key
                     (if rl_maxAttempts lim \<le> int (length (re_attempts pushed))
                      then pushed\<lparr>re_lockedUntil := Some (now + rl_lockoutMs lim)\<rparr> else pushed) lim)"

definition rl_reset :: "'ip ipLib \<Rightarrow> string option \<Rightarrow> string option \<Rightarrow> rateLimiter \<Rightarrow> rateLimiter" where
  "rl_reset lib rawIp rawScope lim =
     lim\<lparr>rl_entries := AList.delete (fst (resolveKey lib rawIp rawScope)) (rl_entries lim)\<rparr>"

fun pruneEntries :: "rateLimiter \<Rightarrow> int \<Rightarrow> (string \<times> rateLimitEntry) list \<Rightarrow> (string \<times> rateLimitEntry) list" where
  "pruneEntries lim now [] = []"
| "pruneEntries lim now ((key, entry) # rest) =
     (if lockedAt now entry then (key, entry) # pruneEntries lim now rest
      else let slid = slideWindow lim now entry
        in if re_attempts slid = [] then pruneEntries lim now rest
           else (key, slid) # pruneEntries lim now rest)"

definition rl_prune :: "int \<Rightarrow> rateLimiter \<Rightarrow> rateLimiter" where
  "rl_prune now lim = lim\<lparr>rl_entries := pruneEntries lim now (rl_entries lim)\<rparr>"

definition rl_size :: "rateLimiter \<Rightarrow> nat" where
  "rl_size lim = length (rl_entries lim)"

definition rl_dispose :: "rateLimiter \<Rightarrow> rateLimiter" where
  "rl_dispose lim = lim\<lparr>rl_entries := []\<rparr>"

section \<open>Sequences of operations\<close>

text \<open>What callers do: a wrong guess (the failure is recorded only when the check admits it), a right
  one (which resets the key when the check admits it), a check alone, and the timer's \<open>prune\<close>. The
  flag says whether a wrong guess was admitted.\<close>

datatype limiterEvent =
    Guess "string option" "string option"
  | Succeed "string option" "string option"
  | Check "string option" "string option"
  | Prune

fun limiterStep :: "'ip ipLib \<Rightarrow> int \<times> limiterEvent \<Rightarrow> rateLimiter \<Rightarrow> bool \<times> rateLimiter" where
  "limiterStep lib (now, Guess ip scope) lim =
     (let (r, lim') = rl_check lib now ip scope lim
      in if rc_allowed r then (True, rl_recordFailure lib now ip scope lim') else (False, lim'))"
| "limiterStep lib (now, Succeed ip scope) lim =
     (let (r, lim') = rl_check lib now ip scope lim
      in (False, if rc_allowed r then rl_reset lib ip scope lim' else lim'))"
| "limiterStep lib (now, Check ip scope) lim = (False, snd (rl_check lib now ip scope lim))"
| "limiterStep lib (now, Prune) lim = (False, rl_prune now lim)"

text \<open>The times at which a key's guesses were admitted.\<close>

fun eventKey :: "'ip ipLib \<Rightarrow> limiterEvent \<Rightarrow> string option" where
  "eventKey lib (Guess ip scope) = Some (fst (resolveKey lib ip scope))"
| "eventKey lib _ = None"

fun limiterRun :: "'ip ipLib \<Rightarrow> (int \<times> limiterEvent) list \<Rightarrow> rateLimiter \<Rightarrow> rateLimiter" where
  "limiterRun lib [] lim = lim"
| "limiterRun lib (e # es) lim = limiterRun lib es (snd (limiterStep lib e lim))"

fun admittedTimes :: "'ip ipLib \<Rightarrow> string \<Rightarrow> (int \<times> limiterEvent) list \<Rightarrow> rateLimiter \<Rightarrow> int list" where
  "admittedTimes lib key [] lim = []"
| "admittedTimes lib key (e # es) lim =
     (let (ok, lim') = limiterStep lib e lim
      in (if ok \<and> eventKey lib (snd e) = Some key then [fst e] else []) @ admittedTimes lib key es lim')"

section \<open>The history of a key against its entry\<close>

text \<open>For a window of \<open>D\<close> milliseconds: the attempts of an entry are the recent ones of the history,
  a lock outlasts every attempt by the lockout, and without a lock there is room for an attempt.\<close>

definition recent :: "int \<Rightarrow> int \<Rightarrow> int list \<Rightarrow> int list" where
  "recent D now ts = filter (\<lambda>t. now - D < t) ts"

definition windowsBounded :: "int \<Rightarrow> int \<Rightarrow> int list \<Rightarrow> bool" where
  "windowsBounded D m ts \<longleftrightarrow> (\<forall>a. int (length (filter (\<lambda>t. a < t \<and> t \<le> a + D) ts)) \<le> m)"

definition entryInv :: "rateLimiter \<Rightarrow> int \<Rightarrow> int \<Rightarrow> int list \<Rightarrow> rateLimitEntry \<Rightarrow> bool" where
  "entryInv lim D now H entry \<longleftrightarrow>
     (\<forall>t \<in> set H. t \<le> now) \<and> recent D now H = recent D now (re_attempts entry) \<and>
     (\<forall>l. re_lockedUntil entry = Some l \<longrightarrow> l \<noteq> 0 \<and> (\<forall>t \<in> set H. t + rl_lockoutMs lim \<le> l)) \<and>
     (re_lockedUntil entry = None \<longrightarrow> int (length (re_attempts entry)) < rl_maxAttempts lim) \<and>
     int (length (re_attempts entry)) \<le> rl_maxAttempts lim \<and>
     windowsBounded D (rl_maxAttempts lim) H"

definition freshEntry :: rateLimitEntry where
  "freshEntry = \<lparr>re_attempts = [], re_lockedUntil = None\<rparr>"

lemma recent_later: "n \<le> n' \<Longrightarrow> recent D n' ts = recent D n' (recent D n ts)"
  by (induction ts) (auto simp: recent_def)

lemma entryInv_later: "entryInv lim D n H entry \<Longrightarrow> n \<le> n' \<Longrightarrow> entryInv lim D n' H entry"
  using recent_later [of n n' D H] recent_later [of n n' D "re_attempts entry"]
  by (fastforce simp: entryInv_def)

lemma recent_slide:
  assumes "D \<le> rl_windowMs lim"
  shows "recent D now (filter (\<lambda>ts. now - rl_windowMs lim < ts) ts) = recent D now ts"
  using assms by (induction ts) (auto simp: recent_def)

lemma int_filter_le: "int (length xs) \<le> m \<Longrightarrow> int (length (filter P xs)) \<le> m"
  by (rule order_trans [OF _]) simp_all

lemma int_filter_less: "int (length xs) < m \<Longrightarrow> int (length (filter P xs)) < m"
  by (rule le_less_trans [of _ "int (length xs)"]) simp_all

lemma entryInv_slide:
  assumes "entryInv lim D now H entry" "D \<le> rl_windowMs lim"
  shows "entryInv lim D now H (slideWindow lim now entry)"
  using assms unfolding entryInv_def slideWindow_def
  by (auto simp: recent_slide intro: int_filter_le int_filter_less)

lemma recent_Nil: "recent D now ts = [] \<longleftrightarrow> (\<forall>t \<in> set ts. t \<le> now - D)"
  by (auto simp: recent_def filter_empty_conv)

lemma entryInv_clear:
  assumes inv: "entryInv lim D now H entry" and "lockExpiredAt now entry" and "D \<le> rl_lockoutMs lim"
    and "0 < rl_maxAttempts lim"
  shows "entryInv lim D now H (entry\<lparr>re_lockedUntil := None, re_attempts := []\<rparr>)"
proof -
  from assms obtain l where "l \<le> now" "\<forall>t \<in> set H. t + rl_lockoutMs lim \<le> l"
    by (auto simp: lockExpiredAt_def entryInv_def split: option.splits)
  then have "recent D now H = []" using assms(3) by (fastforce simp: recent_Nil)
  then show ?thesis using inv \<open>0 < rl_maxAttempts lim\<close> by (auto simp: entryInv_def recent_def)
qed

lemma entryInv_fresh:
  assumes inv: "entryInv lim D now H entry" and "re_attempts entry = []" and "0 < rl_maxAttempts lim"
  shows "entryInv lim D now H freshEntry"
  using assms by (auto simp: entryInv_def freshEntry_def)

lemma recent_length: "length (recent D now ts) \<le> length ts"
  by (simp add: recent_def)

lemma windowsBounded_snoc:
  assumes "windowsBounded D m H" "int (length (recent D now (H @ [now]))) \<le> m"
  shows "windowsBounded D m (H @ [now])"
  unfolding windowsBounded_def
proof
  fix a
  show "int (length (filter (\<lambda>t. a < t \<and> t \<le> a + D) (H @ [now]))) \<le> m"
  proof (cases "a < now \<and> now \<le> a + D")
    case True
    then have "filter (\<lambda>t. a < t \<and> t \<le> a + D) (H @ [now]) =
        filter (\<lambda>t. a < t \<and> t \<le> a + D) (recent D now (H @ [now]))"
      by (auto simp: recent_def intro!: filter_cong)
    with int_filter_le [OF assms(2)] show ?thesis by metis
  next
    case False
    then have "filter (\<lambda>t. a < t \<and> t \<le> a + D) (H @ [now]) = filter (\<lambda>t. a < t \<and> t \<le> a + D) H" by auto
    with assms(1) show ?thesis by (simp add: windowsBounded_def)
  qed
qed

definition pushed :: "rateLimiter \<Rightarrow> int \<Rightarrow> rateLimitEntry \<Rightarrow> rateLimitEntry" where
  "pushed lim now entry =
     (let e = entry\<lparr>re_attempts := re_attempts entry @ [now]\<rparr>
      in if rl_maxAttempts lim \<le> int (length (re_attempts e))
         then e\<lparr>re_lockedUntil := Some (now + rl_lockoutMs lim)\<rparr> else e)"

lemma entryInv_push:
  assumes inv: "entryInv lim D now H entry" and lock: "re_lockedUntil entry = None"
    and "0 < now" "0 \<le> rl_lockoutMs lim"
  shows "entryInv lim D now (H @ [now]) (pushed lim now entry)"
proof -
  have len: "int (length (re_attempts entry @ [now])) \<le> rl_maxAttempts lim"
    using inv lock by (simp add: entryInv_def)
  have rec: "recent D now (H @ [now]) = recent D now (re_attempts entry @ [now])"
    using inv by (simp add: entryInv_def recent_def)
  have wb: "windowsBounded D (rl_maxAttempts lim) (H @ [now])"
    by (rule windowsBounded_snoc)
      (use inv rec len recent_length [of D now "re_attempts entry @ [now]"] in \<open>auto simp: entryInv_def\<close>)
  have le: "\<forall>t \<in> set (H @ [now]). t \<le> now" using inv by (auto simp: entryInv_def)
  show ?thesis
    using rec len wb le lock assms(3,4) by (auto simp: entryInv_def pushed_def Let_def)
qed

section \<open>One operation\<close>

definition entryOf :: "rateLimiter \<Rightarrow> string \<Rightarrow> rateLimitEntry" where
  "entryOf lim key = js_default (map_of (rl_entries lim) key) freshEntry"

definition checkedEntry :: "rateLimiter \<Rightarrow> int \<Rightarrow> rateLimitEntry \<Rightarrow> rateLimitEntry" where
  "checkedEntry lim now entry =
     slideWindow lim now (if lockExpiredAt now entry then entry\<lparr>re_lockedUntil := None, re_attempts := []\<rparr> else entry)"

lemma putEntry_simps [simp]:
  "rl_maxAttempts (putEntry key e lim) = rl_maxAttempts lim"
  "rl_windowMs (putEntry key e lim) = rl_windowMs lim"
  "rl_lockoutMs (putEntry key e lim) = rl_lockoutMs lim"
  "rl_exemptLoopback (putEntry key e lim) = rl_exemptLoopback lim"
  "map_of (rl_entries (putEntry key e lim)) key' = (if key' = key then Some e else map_of (rl_entries lim) key')"
  "jm_wf (rl_entries lim) \<Longrightarrow> jm_wf (rl_entries (putEntry key e lim))"
  by (simp_all add: putEntry_def map_of_update_iff)

lemma entryOf_put: "entryOf (putEntry key e lim) key' = (if key' = key then e else entryOf lim key')"
  by (simp add: entryOf_def js_default_def)

lemma entryInv_put [simp]: "entryInv (putEntry key e lim) = entryInv lim"
  by (intro ext) (simp add: entryInv_def)

lemma lock_cases: "\<not> lockedAt now entry \<Longrightarrow> entryInv lim D now H entry \<Longrightarrow>
  lockExpiredAt now entry \<or> re_lockedUntil entry = None"
  by (auto simp: lockedAt_def lockExpiredAt_def entryInv_def split: option.splits)

lemma checkedEntry_inv:
  assumes "entryInv lim D now H entry" "\<not> lockedAt now entry" "D \<le> rl_windowMs lim" "D \<le> rl_lockoutMs lim"
    "0 < rl_maxAttempts lim"
  shows "entryInv lim D now H (checkedEntry lim now entry)"
    and "re_lockedUntil (checkedEntry lim now entry) = None"
  using lock_cases [OF assms(2,1)] entryInv_slide [OF _ assms(3)] entryInv_clear [OF assms(1) _ assms(4,5)] assms(1)
  by (auto simp: checkedEntry_def slideWindow_def)

lemma fresh_unlocked [simp]: "\<not> lockedAt now freshEntry" "re_lockedUntil freshEntry = None"
  by (simp_all add: freshEntry_def lockedAt_def)

lemma check_cases:
  assumes "resolveKey lib ip scope = (key, addr)" "\<not> isExempt lib lim addr"
  shows "rl_check lib now ip scope lim =
    (case map_of (rl_entries lim) key of
       None \<Rightarrow> (\<lparr>rc_allowed = True, rc_remaining = rl_maxAttempts lim, rc_retryAfterMs = 0\<rparr>, lim)
     | Some e \<Rightarrow> if lockedAt now e
         then (\<lparr>rc_allowed = False, rc_remaining = 0, rc_retryAfterMs = js_default (re_lockedUntil e) 0 - now\<rparr>, lim)
         else let e' = checkedEntry lim now e; remaining = max 0 (rl_maxAttempts lim - int (length (re_attempts e')))
           in (\<lparr>rc_allowed = 0 < remaining, rc_remaining = remaining, rc_retryAfterMs = 0\<rparr>, putEntry key e' lim))"
  using assms by (simp add: rl_check_def checkedEntry_def Let_def split: option.split)

lemma failure_cases:
  assumes "resolveKey lib ip scope = (key, addr)" "\<not> isExempt lib lim addr" "\<not> lockedAt now (entryOf lim key)"
  shows "rl_recordFailure lib now ip scope lim =
    putEntry key (pushed lim now (slideWindow lim now (entryOf lim key))) lim"
  using assms by (simp add: rl_recordFailure_def pushed_def entryOf_def freshEntry_def Let_def slideWindow_def)

lemma exempt_put [simp]: "isExempt lib (putEntry key e lim) = isExempt lib lim"
  by (simp add: isExempt_def fun_eq_iff)

lemma slide_put [simp]: "slideWindow (putEntry key e lim) = slideWindow lim" "pushed (putEntry key e lim) = pushed lim"
  by (simp_all add: slideWindow_def pushed_def fun_eq_iff Let_def)

lemma unlocked_not_locked: "re_lockedUntil e = None \<Longrightarrow> \<not> lockedAt now e"
  by (simp add: lockedAt_def)

text \<open>A guess on the key itself.\<close>

lemma failure_inv:
  assumes key: "resolveKey lib ip scope = (key, addr)" "\<not> isExempt lib lim addr"
    and inv: "entryInv lim D now H (entryOf lim key)" and open_: "re_lockedUntil (entryOf lim key) = None"
    and "D \<le> rl_windowMs lim" "0 < now" "0 \<le> rl_lockoutMs lim"
  shows "entryInv lim D now (H @ [now]) (entryOf (rl_recordFailure lib now ip scope lim) key)"
  using failure_cases [OF key unlocked_not_locked [OF open_]] entryInv_slide [OF inv assms(5)] entryInv_push assms(6,7) open_
  by (simp add: entryOf_put slideWindow_def)

lemma guess_own:
  assumes key: "resolveKey lib ip scope = (key, addr)" "\<not> isExempt lib lim addr"
    and inv: "entryInv lim D now H (entryOf lim key)"
    and D: "D \<le> rl_windowMs lim" "D \<le> rl_lockoutMs lim"
    and pos: "0 < rl_maxAttempts lim" "0 < now" "0 \<le> rl_lockoutMs lim"
    and step: "limiterStep lib (now, Guess ip scope) lim = (ok, lim')"
  shows "entryInv lim D now (H @ (if ok then [now] else [])) (entryOf lim' key)"
proof (cases "map_of (rl_entries lim) key")
  case None
  then have "entryOf lim key = freshEntry" by (simp add: entryOf_def js_default_def)
  with failure_inv [OF key inv _ D(1) pos(2,3)] step show ?thesis by (auto simp: check_cases [OF key] None)
next
  case (Some e)
  then have e: "entryOf lim key = e" by (simp add: entryOf_def js_default_def)
  show ?thesis
  proof (cases "lockedAt now e")
    case True
    with step inv show ?thesis by (auto simp: check_cases [OF key] Some)
  next
    case False
    note chk = checkedEntry_inv [OF inv [unfolded e] False D pos(1)]
    let ?lim1 = "putEntry key (checkedEntry lim now e) lim"
    have "entryInv ?lim1 D now (H @ [now]) (entryOf (rl_recordFailure lib now ip scope ?lim1) key)"
      by (rule failure_inv [where addr = addr]) (use key chk D pos in \<open>simp_all add: entryOf_put\<close>)
    then show ?thesis
      using step chk by (auto simp: check_cases [OF key] Some False Let_def entryOf_put split: if_splits)
  qed
qed

lemma check_own:
  assumes key: "resolveKey lib ip scope = (key, addr)" "\<not> isExempt lib lim addr"
    and inv: "entryInv lim D now H (entryOf lim key)"
    and D: "D \<le> rl_windowMs lim" "D \<le> rl_lockoutMs lim" and pos: "0 < rl_maxAttempts lim"
  shows "entryInv lim D now H (entryOf (snd (rl_check lib now ip scope lim)) key)"
proof (cases "map_of (rl_entries lim) key")
  case (Some e)
  then have e: "entryOf lim key = e" by (simp add: entryOf_def js_default_def)
  show ?thesis using inv checkedEntry_inv(1) [OF inv [unfolded e] _ D pos]
    by (auto simp: check_cases [OF key] Some Let_def entryOf_put)
qed (use inv in \<open>simp add: check_cases [OF key]\<close>)

text \<open>Every other operation leaves the key's entry alone, or only slides it.\<close>

lemma check_other:
  assumes "fst (resolveKey lib ip scope) \<noteq> key"
  shows "entryOf (snd (rl_check lib now ip scope lim)) key = entryOf lim key"
proof (cases "isExempt lib lim (snd (resolveKey lib ip scope))")
  case True
  then show ?thesis by (simp add: rl_check_def Let_def split_beta)
next
  case False
  from assms check_cases [OF _ False, of ip scope "fst (resolveKey lib ip scope)" now] show ?thesis
    by (auto simp: Let_def entryOf_put split: option.splits)
qed

lemma failure_other:
  assumes "fst (resolveKey lib ip scope) \<noteq> key"
  shows "entryOf (rl_recordFailure lib now ip scope lim) key = entryOf lim key"
  using assms by (auto simp: rl_recordFailure_def Let_def split_beta entryOf_put)

lemma reset_other:
  assumes "fst (resolveKey lib ip scope) \<noteq> key"
  shows "entryOf (rl_reset lib ip scope lim) key = entryOf lim key"
  using assms by (simp add: rl_reset_def entryOf_def delete_conv' js_default_def)

lemma map_of_pruneEntries:
  "jm_wf es \<Longrightarrow> map_of (pruneEntries lim now es) key =
     (case map_of es key of
        None \<Rightarrow> None
      | Some e \<Rightarrow> if lockedAt now e then Some e
          else if re_attempts (slideWindow lim now e) = [] then None else Some (slideWindow lim now e))"
proof (induction lim now es rule: pruneEntries.induct)
  case (2 lim now k e rest)
  from "2.prems" have "map_of rest k = None" "jm_wf rest" by (auto simp: jm_wf_def map_of_eq_None_iff)
  with "2.IH" show ?case by (cases "k = key") (auto simp: Let_def split: option.splits)
qed simp

lemma pruneEntries_keys: "set (map fst (pruneEntries lim now es)) \<subseteq> set (map fst es)"
  by (induction lim now es rule: pruneEntries.induct) (auto simp: Let_def)

lemma jm_wf_pruneEntries: "jm_wf es \<Longrightarrow> jm_wf (pruneEntries lim now es)"
proof (induction lim now es rule: pruneEntries.induct)
  case (2 lim now k e rest)
  then show ?case using pruneEntries_keys [of lim now rest] by (auto simp: jm_wf_def Let_def)
qed (simp add: jm_wf_def)

lemma prune_entry:
  assumes "jm_wf (rl_entries lim)" "entryInv lim D now H (entryOf lim key)" "D \<le> rl_windowMs lim"
    "0 < rl_maxAttempts lim"
  shows "entryInv lim D now H (entryOf (rl_prune now lim) key)"
proof (cases "map_of (rl_entries lim) key")
  case (Some e)
  then have e: "entryOf lim key = e" by (simp add: entryOf_def js_default_def)
  note slid = entryInv_slide [OF assms(2) [unfolded e] assms(3)]
  show ?thesis using assms(2) slid entryInv_fresh [OF slid _ assms(4)]
    by (auto simp: entryOf_def rl_prune_def map_of_pruneEntries [OF assms(1)] Some js_default_def)
qed (use assms(2) in \<open>simp add: entryOf_def rl_prune_def map_of_pruneEntries [OF assms(1)] js_default_def\<close>)

text \<open>No operation changes the configuration, and the map stays one.\<close>

definition sameLimits :: "rateLimiter \<Rightarrow> rateLimiter \<Rightarrow> bool" where
  "sameLimits a b \<longleftrightarrow> rl_maxAttempts a = rl_maxAttempts b \<and> rl_windowMs a = rl_windowMs b \<and>
     rl_lockoutMs a = rl_lockoutMs b \<and> rl_exemptLoopback a = rl_exemptLoopback b"

lemma sameLimits_simps [simp]:
  "sameLimits a a" "sameLimits (putEntry key e a) a" "sameLimits (rl_prune now a) a"
  by (simp_all add: sameLimits_def rl_prune_def)

lemma sameLimits_trans: "sameLimits a b \<Longrightarrow> sameLimits b c \<Longrightarrow> sameLimits a c"
  by (simp add: sameLimits_def)

lemma sameLimits_inv: "sameLimits a b \<Longrightarrow> entryInv a = entryInv b"
  by (intro ext) (simp add: entryInv_def sameLimits_def)

lemma check_limits:
  "sameLimits (snd (rl_check lib now ip scope lim)) lim"
  "jm_wf (rl_entries lim) \<Longrightarrow> jm_wf (rl_entries (snd (rl_check lib now ip scope lim)))"
  by (auto simp: rl_check_def Let_def split_beta split: option.splits)

lemma failure_limits:
  "sameLimits (rl_recordFailure lib now ip scope lim) lim"
  "jm_wf (rl_entries lim) \<Longrightarrow> jm_wf (rl_entries (rl_recordFailure lib now ip scope lim))"
  by (auto simp: rl_recordFailure_def Let_def split_beta)

lemma step_limits:
  assumes "limiterStep lib e lim = (ok, lim')"
  shows "sameLimits lim' lim" and "jm_wf (rl_entries lim) \<Longrightarrow> jm_wf (rl_entries lim')"
proof -
  have "sameLimits lim' lim \<and> (jm_wf (rl_entries lim) \<longrightarrow> jm_wf (rl_entries lim'))"
  proof (cases e)
    case (Pair now ev)
    show ?thesis
    proof (cases ev)
      case (Guess ip scope)
      then show ?thesis
        using assms Pair check_limits [where lib = lib and now = now and ip = ip and scope = scope and lim = lim]
            failure_limits [where lib = lib and now = now and ip = ip and scope = scope]
        by (auto simp: Let_def split_beta split: if_splits intro: sameLimits_trans)
    next
      case (Succeed ip scope)
      then show ?thesis
        using assms Pair check_limits [where lib = lib and now = now and ip = ip and scope = scope and lim = lim]
        by (auto simp: Let_def split_beta rl_reset_def sameLimits_def split: if_splits)
    next
      case (Check ip scope)
      then show ?thesis using assms Pair check_limits [where lib = lib and now = now and ip = ip and scope = scope and lim = lim] by auto
    next
      case Prune
      then show ?thesis using assms Pair by (auto simp: rl_prune_def jm_wf_pruneEntries sameLimits_def)
    qed
  qed
  then show "sameLimits lim' lim" "jm_wf (rl_entries lim) \<Longrightarrow> jm_wf (rl_entries lim')" by simp_all
qed

definition exemptEvent :: "'ip ipLib \<Rightarrow> rateLimiter \<Rightarrow> limiterEvent \<Rightarrow> bool" where
  "exemptEvent lib lim ev \<longleftrightarrow> (case ev of
     Guess ip scope \<Rightarrow> isExempt lib lim (snd (resolveKey lib ip scope))
   | Succeed ip scope \<Rightarrow> False
   | Check ip scope \<Rightarrow> isExempt lib lim (snd (resolveKey lib ip scope))
   | Prune \<Rightarrow> False)"

text \<open>Not a success of the key.\<close>

definition spares :: "'ip ipLib \<Rightarrow> string \<Rightarrow> limiterEvent \<Rightarrow> bool" where
  "spares lib key ev \<longleftrightarrow> (case ev of Succeed ip scope \<Rightarrow> fst (resolveKey lib ip scope) \<noteq> key | _ \<Rightarrow> True)"

lemma exempt_step:
  assumes "exemptEvent lib lim ev" "limiterStep lib (now, ev) lim = (ok, lim')"
  shows "lim' = lim"
  using assms by (cases ev) (auto simp: exemptEvent_def rl_check_def rl_recordFailure_def Let_def split_beta)

lemma step_inv:
  assumes wf: "jm_wf (rl_entries lim)" and inv: "entryInv lim D now H (entryOf lim key)"
    and D: "D \<le> rl_windowMs lim" "D \<le> rl_lockoutMs lim"
    and pos: "0 < rl_maxAttempts lim" "0 < now" "0 \<le> rl_lockoutMs lim"
    and counted: "eventKey lib ev = Some key \<Longrightarrow> \<not> exemptEvent lib lim ev" "spares lib key ev"
    and step: "limiterStep lib (now, ev) lim = (ok, lim')"
  shows "entryInv lim D now (H @ (if ok \<and> eventKey lib ev = Some key then [now] else [])) (entryOf lim' key)"
proof (cases ev)
  case (Guess ip scope)
  show ?thesis
  proof (cases "fst (resolveKey lib ip scope) = key")
    case True
    then have key: "resolveKey lib ip scope = (key, snd (resolveKey lib ip scope))" by auto
    have "\<not> isExempt lib lim (snd (resolveKey lib ip scope))" using counted(1) Guess True by (simp add: exemptEvent_def)
    from guess_own [OF key this inv D pos step [unfolded Guess]] True Guess show ?thesis by simp
  next
    case False
    with step Guess inv check_other [OF False] failure_other [OF False] show ?thesis
      by (auto simp: Let_def split_beta split: if_splits)
  qed
next
  case (Succeed ip scope)
  then have other: "fst (resolveKey lib ip scope) \<noteq> key" using counted(2) by (simp add: spares_def)
  from step Succeed inv check_other [OF other, of now lim] show ?thesis
    by (auto simp: Let_def split_beta reset_other [OF other] split: if_splits)
next
  case (Check ip scope)
  show ?thesis
  proof (cases "fst (resolveKey lib ip scope) = key \<and> \<not> isExempt lib lim (snd (resolveKey lib ip scope))")
    case True
    then have key: "resolveKey lib ip scope = (key, snd (resolveKey lib ip scope))" by auto
    from check_own [OF key _ inv D pos(1)] True step Check show ?thesis by auto
  next
    case False
    with step Check inv check_other [of lib ip scope key now lim] exempt_step [of lib lim ev now ok lim'] show ?thesis
      by (auto simp: exemptEvent_def)
  qed
next
  case Prune
  with step prune_entry [OF wf inv D(1) pos(1)] show ?thesis by auto
qed

text \<open>Over a whole run.\<close>

lemma run_windows:
  assumes "jm_wf (rl_entries lim)" "entryInv lim D n H (entryOf lim key)"
    and "D \<le> rl_windowMs lim" "D \<le> rl_lockoutMs lim" "0 < rl_maxAttempts lim" "0 \<le> rl_lockoutMs lim"
    and "sorted (map fst es)" "\<And>e. e \<in> set es \<Longrightarrow> n \<le> fst e \<and> 0 < fst e"
    and "\<And>e. e \<in> set es \<Longrightarrow> eventKey lib (snd e) = Some key \<Longrightarrow> \<not> exemptEvent lib lim (snd e)"
    and "\<And>e. e \<in> set es \<Longrightarrow> spares lib key (snd e)"
  shows "windowsBounded D (rl_maxAttempts lim) (H @ admittedTimes lib key es lim)"
  using assms
proof (induction es arbitrary: lim n H)
  case Nil
  then show ?case by (simp add: entryInv_def)
next
  case (Cons e es)
  obtain now ev where e: "e = (now, ev)" by (cases e)
  obtain ok lim' where step: "limiterStep lib (now, ev) lim = (ok, lim')" by (cases "limiterStep lib (now, ev) lim")
  have now: "n \<le> now" "0 < now" using Cons.prems(8) [of e] by (simp_all add: e)
  have same: "sameLimits lim' lim" and wf': "jm_wf (rl_entries lim')"
    using step_limits [OF step] Cons.prems(1) by simp_all
  have inv: "entryInv lim D now (H @ (if ok \<and> eventKey lib ev = Some key then [now] else [])) (entryOf lim' key)"
    by (rule step_inv [OF Cons.prems(1) entryInv_later [OF Cons.prems(2) now(1)] Cons.prems(3-5) now(2) Cons.prems(6) _ _ step])
      (use Cons.prems(9) [of e] Cons.prems(10) [of e] in \<open>simp_all add: e\<close>)
  have "windowsBounded D (rl_maxAttempts lim')
      ((H @ (if ok \<and> eventKey lib ev = Some key then [now] else [])) @ admittedTimes lib key es lim')"
  proof (rule Cons.IH [OF wf' inv [folded sameLimits_inv [OF same]]])
    fix e' assume "e' \<in> set es"
    then show "now \<le> fst e' \<and> 0 < fst e'" using Cons.prems(7) Cons.prems(8) [of e'] by (simp add: e)
  next
    fix e' assume "e' \<in> set es" "eventKey lib (snd e') = Some key"
    then show "\<not> exemptEvent lib lim' (snd e')" using Cons.prems(9) [of e'] same
      by (auto simp: exemptEvent_def isExempt_def sameLimits_def split: limiterEvent.splits)
  qed (use Cons.prems same in \<open>auto simp: sameLimits_def\<close>)
  then show ?case using same by (auto simp: e step sameLimits_def split: if_splits)
qed

end
