(* ===== verification/Gateway_Auth.thy ===== *)
theory Gateway_Auth
  imports Auth_Rate_Limit
begin

text \<open>
  \<open>src/gateway/auth.ts\<close>: who may talk to the gateway. The hash function of \<open>safeEqualSecret\<close> and
  Tailscale's whois service are parameters; a request is handled at one time of the clock.
\<close>

section \<open>Model\<close>

datatype authMode = ModeNone | ModeToken | ModePassword | ModeTrustedProxy

datatype authMethod =
    MethodNone | MethodToken | MethodPassword | MethodTailscale | MethodDeviceToken
  | MethodBootstrapToken | MethodTrustedProxy

datatype authSurface = SurfaceHttp | SurfaceWsControlUi

record trustedProxyConfig =
  tp_userHeader :: string
  tp_requiredHeaders :: "string list"
  tp_allowUsers :: "string list"

record resolvedAuth =
  ra_mode :: authMode
  ra_token :: "string option"
  ra_password :: "string option"
  ra_allowTailscale :: bool
  ra_trustedProxy :: "trustedProxyConfig option"

record authResult =
  ar_ok :: bool
  ar_method :: "authMethod option"
  ar_user :: "string option"
  ar_reason :: "string option"
  ar_rateLimited :: bool
  ar_retryAfterMs :: "int option"

record connectAuth =
  ca_token :: "string option"
  ca_password :: "string option"

record whoisIdentity =
  wi_login :: string
  wi_name :: "string option"

record tailscaleUser =
  tu_login :: string
  tu_name :: string
  tu_profilePic :: "string option"

record connectParams =
  cp_connectAuth :: "connectAuth option"
  cp_req :: "httpReq option"
  cp_trustedProxies :: "string list"
  cp_clientIp :: "string option"
  cp_rateLimitScope :: "string option"
  cp_allowRealIpFallback :: bool

text \<open>What the host provides: addresses, the hash, and the identity behind a Tailscale address.\<close>

record ('ip, 'h) authHost =
  ah_lib :: "'ip ipLib"
  ah_sha :: "string \<Rightarrow> 'h"
  ah_whois :: "string \<Rightarrow> whoisIdentity option"

definition granted :: "authMethod \<Rightarrow> string option \<Rightarrow> authResult" where
  "granted how user = \<lparr>ar_ok = True, ar_method = Some how, ar_user = user, ar_reason = None,
     ar_rateLimited = False, ar_retryAfterMs = None\<rparr>"

definition refused :: "string \<Rightarrow> authResult" where
  "refused reason = \<lparr>ar_ok = False, ar_method = None, ar_user = None, ar_reason = Some reason,
     ar_rateLimited = False, ar_retryAfterMs = None\<rparr>"

definition refusedLimited :: "int \<Rightarrow> authResult" where
  "refusedLimited retryAfterMs = \<lparr>ar_ok = False, ar_method = None, ar_user = None,
     ar_reason = Some ''rate_limited'', ar_rateLimited = True, ar_retryAfterMs = Some retryAfterMs\<rparr>"

definition safeEqualSecret :: "(string \<Rightarrow> 'h) \<Rightarrow> string option \<Rightarrow> string option \<Rightarrow> bool" where
  "safeEqualSecret sha provided expected \<longleftrightarrow>
     (case (provided, expected) of (Some p, Some e) \<Rightarrow> sha p = sha e | _ \<Rightarrow> False)"

subsection \<open>Where a request comes from\<close>

definition isLocalDirectRequest :: "'ip ipLib \<Rightarrow> httpReq option \<Rightarrow> string list \<Rightarrow> bool \<Rightarrow> bool" where
  "isLocalDirectRequest lib req trustedProxies allowRealIpFallback \<longleftrightarrow>
     (case req of
        None \<Rightarrow> False
      | Some r \<Rightarrow>
          let clientIp = js_or_empty (resolveRequestClientIp lib req trustedProxies allowRealIpFallback);
              hasForwarded = headerTruthy (header r ''x-forwarded-for'') \<or> headerTruthy (header r ''x-real-ip'') \<or>
                headerTruthy (header r ''x-forwarded-host'');
              remoteIsTrustedProxy = isTrustedProxyAddress lib (rq_remoteAddress r) trustedProxies
          in isLoopbackIpAddress lib (Some clientIp) \<and> isLocalishHost lib (headerValue (header r ''host'')) \<and>
             (\<not> hasForwarded \<or> remoteIsTrustedProxy))"

text \<open>A header that is a string and not blank, trimmed.\<close>

definition stringHeader :: "httpReq \<Rightarrow> string \<Rightarrow> string option" where
  "stringHeader req name = (case header req name of Some (HStr s) \<Rightarrow> js_some (js_trim s) | _ \<Rightarrow> None)"

definition getTailscaleUser :: "httpReq option \<Rightarrow> tailscaleUser option" where
  "getTailscaleUser req = (case req of
     None \<Rightarrow> None
   | Some r \<Rightarrow> (case stringHeader r ''tailscale-user-login'' of
         None \<Rightarrow> None
       | Some login \<Rightarrow> Some \<lparr>tu_login = login, tu_name = js_default (stringHeader r ''tailscale-user-name'') login,
           tu_profilePic = stringHeader r ''tailscale-user-profile-pic''\<rparr>))"

definition hasTailscaleProxyHeaders :: "httpReq \<Rightarrow> bool" where
  "hasTailscaleProxyHeaders r \<longleftrightarrow> headerTruthy (header r ''x-forwarded-for'') \<and>
     headerTruthy (header r ''x-forwarded-proto'') \<and> headerTruthy (header r ''x-forwarded-host'')"

definition isTailscaleProxyRequest :: "'ip ipLib \<Rightarrow> httpReq option \<Rightarrow> bool" where
  "isTailscaleProxyRequest lib req \<longleftrightarrow> (case req of
     None \<Rightarrow> False
   | Some r \<Rightarrow> isLoopbackIpAddress lib (rq_remoteAddress r) \<and> hasTailscaleProxyHeaders r)"

definition TAILSCALE_TRUSTED_PROXIES :: "string list" where
  "TAILSCALE_TRUSTED_PROXIES = [''127.0.0.1'', ''::1'']"

definition resolveTailscaleClientIp :: "'ip ipLib \<Rightarrow> httpReq option \<Rightarrow> string option" where
  "resolveTailscaleClientIp lib req = (case req of
     None \<Rightarrow> None
   | Some r \<Rightarrow> resolveClientIp lib (Some (js_or_empty (rq_remoteAddress r)))
       (headerValue (header r ''x-forwarded-for'')) None TAILSCALE_TRUSTED_PROXIES False)"

definition normalizeLogin :: "string \<Rightarrow> string" where
  "normalizeLogin login = js_lower (js_trim login)"

definition resolveVerifiedTailscaleUser :: "('ip, 'h) authHost \<Rightarrow> httpReq option \<Rightarrow> string + tailscaleUser" where
  "resolveVerifiedTailscaleUser host req =
     (case getTailscaleUser req of
        None \<Rightarrow> Inl ''tailscale_user_missing''
      | Some user \<Rightarrow>
          if \<not> isTailscaleProxyRequest (ah_lib host) req then Inl ''tailscale_proxy_missing''
          else (case resolveTailscaleClientIp (ah_lib host) req of
              None \<Rightarrow> Inl ''tailscale_whois_failed''
            | Some clientIp \<Rightarrow>
                if clientIp = [] then Inl ''tailscale_whois_failed''
                else (case ah_whois host clientIp of
                    None \<Rightarrow> Inl ''tailscale_whois_failed''
                  | Some w \<Rightarrow>
                      if wi_login w = [] then Inl ''tailscale_whois_failed''
                      else if normalizeLogin (wi_login w) \<noteq> normalizeLogin (tu_login user)
                      then Inl ''tailscale_user_mismatch''
                      else Inr \<lparr>tu_login = wi_login w, tu_name = js_default (wi_name w) (tu_name user),
                             tu_profilePic = tu_profilePic user\<rparr>)))"

text \<open>\<open>headerValue(req.headers[name.toLowerCase()])\<close>, when it is not blank.\<close>

definition filledHeader :: "httpReq \<Rightarrow> string \<Rightarrow> string option" where
  "filledHeader r name = js_some (js_trim (js_or_empty (headerValue (header r (js_lower name)))))"

definition authorizeTrustedProxy ::
  "'ip ipLib \<Rightarrow> httpReq option \<Rightarrow> string list \<Rightarrow> trustedProxyConfig \<Rightarrow> string + string" where
  "authorizeTrustedProxy lib req trustedProxies config =
     (case req of
        None \<Rightarrow> Inl ''trusted_proxy_no_request''
      | Some r \<Rightarrow>
          if \<not> js_truthy (rq_remoteAddress r) \<or> \<not> isTrustedProxyAddress lib (rq_remoteAddress r) trustedProxies
          then Inl ''trusted_proxy_untrusted_source''
          else (case List.find (\<lambda>h. filledHeader r h = None) (tp_requiredHeaders config) of
              Some missing \<Rightarrow> Inl (''trusted_proxy_missing_header_'' @ missing)
            | None \<Rightarrow> (case filledHeader r (tp_userHeader config) of
                  None \<Rightarrow> Inl ''trusted_proxy_user_missing''
                | Some user \<Rightarrow>
                    if tp_allowUsers config \<noteq> [] \<and> user \<notin> set (tp_allowUsers config)
                    then Inl ''trusted_proxy_user_not_allowed'' else Inr user)))"

subsection \<open>The decision\<close>

definition shouldAllowTailscaleHeaderAuth :: "authSurface \<Rightarrow> bool" where
  "shouldAllowTailscaleHeaderAuth surface \<longleftrightarrow> surface = SurfaceWsControlUi"

text \<open>\<open>limiter?.check\<close>, \<open>limiter?.recordFailure\<close> and \<open>limiter?.reset\<close>.\<close>

definition opt_check ::
  "'ip ipLib \<Rightarrow> int \<Rightarrow> string option \<Rightarrow> string \<Rightarrow> rateLimiter option \<Rightarrow> rateLimitCheck option \<times> rateLimiter option" where
  "opt_check lib now ip scope limiter = (case limiter of
     None \<Rightarrow> (None, None)
   | Some lim \<Rightarrow> (let (r, lim') = rl_check lib now ip (Some scope) lim in (Some r, Some lim')))"

definition opt_fail :: "'ip ipLib \<Rightarrow> int \<Rightarrow> string option \<Rightarrow> string \<Rightarrow> rateLimiter option \<Rightarrow> rateLimiter option" where
  "opt_fail lib now ip scope = map_option (rl_recordFailure lib now ip (Some scope))"

definition opt_reset :: "'ip ipLib \<Rightarrow> string option \<Rightarrow> string \<Rightarrow> rateLimiter option \<Rightarrow> rateLimiter option" where
  "opt_reset lib ip scope = map_option (rl_reset lib ip (Some scope))"

text \<open>One branch for the token and one for the password, with the reasons of each.\<close>

definition secretCheck ::
  "('ip, 'h) authHost \<Rightarrow> int \<Rightarrow> string option \<Rightarrow> string \<Rightarrow> authMethod \<Rightarrow> string \<Rightarrow> string option \<Rightarrow> string option \<Rightarrow>
   rateLimiter option \<Rightarrow> authResult \<times> rateLimiter option" where
  "secretCheck host now ip scope how label configured provided limiter =
     (if \<not> js_truthy configured then (refused (label @ ''_missing_config''), limiter)
      else if \<not> js_truthy provided then (refused (label @ ''_missing''), limiter)
      else if \<not> safeEqualSecret (ah_sha host) provided configured
      then (refused (label @ ''_mismatch''), opt_fail (ah_lib host) now ip scope limiter)
      else (granted how None, opt_reset (ah_lib host) ip scope limiter))"

definition requestIp :: "'ip ipLib \<Rightarrow> connectParams \<Rightarrow> string option" where
  "requestIp lib params =
     js_coalesce (cp_clientIp params)
       (js_coalesce (resolveRequestClientIp lib (cp_req params) (cp_trustedProxies params) (cp_allowRealIpFallback params))
          (case cp_req params of None \<Rightarrow> None | Some r \<Rightarrow> rq_remoteAddress r))"

definition requestScope :: "connectParams \<Rightarrow> string" where
  "requestScope params = js_default (cp_rateLimitScope params) AUTH_RATE_LIMIT_SCOPE_SHARED_SECRET"

definition authorizeByProxy :: "'ip ipLib \<Rightarrow> resolvedAuth \<Rightarrow> connectParams \<Rightarrow> authResult" where
  "authorizeByProxy lib auth params =
     (case ra_trustedProxy auth of
        None \<Rightarrow> refused ''trusted_proxy_config_missing''
      | Some config \<Rightarrow>
          if cp_trustedProxies params = [] then refused ''trusted_proxy_no_proxies_configured''
          else (case authorizeTrustedProxy lib (cp_req params) (cp_trustedProxies params) config of
              Inr user \<Rightarrow> granted MethodTrustedProxy (Some user)
            | Inl reason \<Rightarrow> refused reason))"

definition authorizeBySecret ::
  "('ip, 'h) authHost \<Rightarrow> int \<Rightarrow> resolvedAuth \<Rightarrow> connectParams \<Rightarrow> rateLimiter option \<Rightarrow> authResult \<times> rateLimiter option" where
  "authorizeBySecret host now auth params limiter =
     (let ip = requestIp (ah_lib host) params; scope = requestScope params
      in if ra_mode auth = ModeToken
         then secretCheck host now ip scope MethodToken ''token'' (ra_token auth)
                (Option.bind (cp_connectAuth params) ca_token) limiter
         else if ra_mode auth = ModePassword
         then secretCheck host now ip scope MethodPassword ''password'' (ra_password auth)
                (Option.bind (cp_connectAuth params) ca_password) limiter
         else (refused ''unauthorized'', opt_fail (ah_lib host) now ip scope limiter))"

definition authorizeGatewayConnect ::
  "('ip, 'h) authHost \<Rightarrow> int \<Rightarrow> resolvedAuth \<Rightarrow> authSurface \<Rightarrow> connectParams \<Rightarrow> rateLimiter option \<Rightarrow>
   authResult \<times> rateLimiter option" where
  "authorizeGatewayConnect host now auth surface params limiter =
     (let lib = ah_lib host;
          localDirect = isLocalDirectRequest lib (cp_req params) (cp_trustedProxies params) (cp_allowRealIpFallback params);
          ip = requestIp lib params; scope = requestScope params
      in if ra_mode auth = ModeTrustedProxy then (authorizeByProxy lib auth params, limiter)
         else if ra_mode auth = ModeNone then (granted MethodNone None, limiter)
         else (case opt_check lib now ip scope limiter of (check, limiter') \<Rightarrow>
             if (case check of None \<Rightarrow> False | Some r \<Rightarrow> \<not> rc_allowed r)
             then (refusedLimited (rc_retryAfterMs (the check)), limiter')
             else if shouldAllowTailscaleHeaderAuth surface \<and> ra_allowTailscale auth \<and> \<not> localDirect
             then (case resolveVerifiedTailscaleUser host (cp_req params) of
                 Inr user \<Rightarrow> (granted MethodTailscale (Some (tu_login user)), opt_reset lib ip scope limiter')
               | Inl reason \<Rightarrow> authorizeBySecret host now auth params limiter')
             else authorizeBySecret host now auth params limiter'))"

definition authorizeHttpGatewayConnect ::
  "('ip, 'h) authHost \<Rightarrow> int \<Rightarrow> resolvedAuth \<Rightarrow> connectParams \<Rightarrow> rateLimiter option \<Rightarrow> authResult \<times> rateLimiter option" where
  "authorizeHttpGatewayConnect host now auth = authorizeGatewayConnect host now auth SurfaceHttp"

definition authorizeWsControlUiGatewayConnect ::
  "('ip, 'h) authHost \<Rightarrow> int \<Rightarrow> resolvedAuth \<Rightarrow> connectParams \<Rightarrow> rateLimiter option \<Rightarrow> authResult \<times> rateLimiter option" where
  "authorizeWsControlUiGatewayConnect host now auth = authorizeGatewayConnect host now auth SurfaceWsControlUi"

text \<open>What the gateway refuses to start with: the start of the message of the error it throws. The
  password of the raw configuration may be an object.\<close>

definition assertGatewayAuthConfigured :: "resolvedAuth \<Rightarrow> jsv \<Rightarrow> string + unit" where
  "assertGatewayAuthConfigured auth rawPassword =
     (if ra_mode auth = ModeToken \<and> \<not> js_truthy (ra_token auth)
      then (if ra_allowTailscale auth then Inr () else Inl ''gateway auth mode is token, but no token was configured'')
      else if ra_mode auth = ModePassword \<and> \<not> js_truthy (ra_password auth)
      then (case rawPassword of
          JUndef \<Rightarrow> Inl ''gateway auth mode is password, but no password was configured''
        | JNull \<Rightarrow> Inl ''gateway auth mode is password, but no password was configured''
        | JStr s \<Rightarrow> Inl ''gateway auth mode is password, but no password was configured''
        | _ \<Rightarrow> Inl ''gateway auth mode is password, but gateway.auth.password contains a provider reference object'')
      else if ra_mode auth = ModeTrustedProxy
      then (case ra_trustedProxy auth of
          None \<Rightarrow> Inl ''gateway auth mode is trusted-proxy, but no trustedProxy config was provided''
        | Some config \<Rightarrow> if js_trim (tp_userHeader config) = []
            then Inl ''gateway auth mode is trusted-proxy, but trustedProxy.userHeader is empty'' else Inr ())
      else Inr ())"

section \<open>Who is admitted\<close>

definition limiterAdmits :: "'ip ipLib \<Rightarrow> int \<Rightarrow> connectParams \<Rightarrow> rateLimiter option \<Rightarrow> bool" where
  "limiterAdmits lib now params limiter \<longleftrightarrow> (case limiter of
     None \<Rightarrow> True
   | Some lim \<Rightarrow> rc_allowed (fst (rl_check lib now (requestIp lib params) (Some (requestScope params)) lim)))"

definition proxyVouchesFor :: "'ip ipLib \<Rightarrow> trustedProxyConfig \<Rightarrow> string list \<Rightarrow> httpReq \<Rightarrow> string \<Rightarrow> bool" where
  "proxyVouchesFor lib config proxies r user \<longleftrightarrow>
     js_truthy (rq_remoteAddress r) \<and> isTrustedProxyAddress lib (rq_remoteAddress r) proxies \<and>
     list_all (\<lambda>h. filledHeader r h \<noteq> None) (tp_requiredHeaders config) \<and>
     filledHeader r (tp_userHeader config) = Some user \<and>
     (tp_allowUsers config = [] \<or> user \<in> set (tp_allowUsers config))"

definition knowsSecret :: "('ip, 'h) authHost \<Rightarrow> resolvedAuth \<Rightarrow> connectParams \<Rightarrow> bool" where
  "knowsSecret host auth params \<longleftrightarrow>
     (case ra_mode auth of
        ModeToken \<Rightarrow> js_truthy (ra_token auth) \<and> js_truthy (Option.bind (cp_connectAuth params) ca_token) \<and>
          safeEqualSecret (ah_sha host) (Option.bind (cp_connectAuth params) ca_token) (ra_token auth)
      | ModePassword \<Rightarrow> js_truthy (ra_password auth) \<and> js_truthy (Option.bind (cp_connectAuth params) ca_password) \<and>
          safeEqualSecret (ah_sha host) (Option.bind (cp_connectAuth params) ca_password) (ra_password auth)
      | _ \<Rightarrow> False)"

definition tailscaleLogsIn :: "('ip, 'h) authHost \<Rightarrow> resolvedAuth \<Rightarrow> authSurface \<Rightarrow> connectParams \<Rightarrow> bool" where
  "tailscaleLogsIn host auth surface params \<longleftrightarrow>
     surface = SurfaceWsControlUi \<and> ra_allowTailscale auth \<and>
     \<not> isLocalDirectRequest (ah_lib host) (cp_req params) (cp_trustedProxies params) (cp_allowRealIpFallback params) \<and>
     (\<exists>user. resolveVerifiedTailscaleUser host (cp_req params) = Inr user)"

lemma results_simps [simp]:
  "ar_ok (granted how user)" "ar_method (granted how user) = Some how" "ar_reason (granted how user) = None"
  "\<not> ar_ok (refused reason)" "ar_reason (refused reason) = Some reason" "ar_method (refused reason) = None"
  "\<not> ar_ok (refusedLimited n)" "ar_reason (refusedLimited n) = Some ''rate_limited''" "ar_method (refusedLimited n) = None"
  "\<not> ar_rateLimited (refused reason)" "\<not> ar_rateLimited (granted how user)" "ar_rateLimited (refusedLimited n)"
  by (simp_all add: granted_def refused_def refusedLimited_def)

lemma authorizeTrustedProxy_user:
  "(\<exists>user. authorizeTrustedProxy lib req proxies config = Inr user) \<longleftrightarrow>
   (\<exists>r user. req = Some r \<and> proxyVouchesFor lib config proxies r user)"
  by (cases req)
    (auto simp: authorizeTrustedProxy_def proxyVouchesFor_def list_all_iff find_None_iff find_Some_iff
      split: option.splits)

lemma authorizeByProxy_ok:
  "ar_ok (authorizeByProxy lib auth params) \<longleftrightarrow> cp_trustedProxies params \<noteq> [] \<and>
   (\<exists>config r user. ra_trustedProxy auth = Some config \<and> cp_req params = Some r \<and>
      proxyVouchesFor lib config (cp_trustedProxies params) r user)"
proof (cases "ra_trustedProxy auth")
  case (Some config)
  have "ar_ok (authorizeByProxy lib auth params) \<longleftrightarrow> cp_trustedProxies params \<noteq> [] \<and>
      (\<exists>user. authorizeTrustedProxy lib (cp_req params) (cp_trustedProxies params) config = Inr user)"
    by (auto simp: authorizeByProxy_def Some split: sum.splits)
  then show ?thesis by (auto simp: Some authorizeTrustedProxy_user)
qed (simp add: authorizeByProxy_def)

lemma secretCheck_ok:
  "ar_ok (fst (secretCheck host now ip scope how label configured provided limiter)) \<longleftrightarrow>
   js_truthy configured \<and> js_truthy provided \<and> safeEqualSecret (ah_sha host) provided configured"
  by (simp add: secretCheck_def)

lemma authorizeBySecret_ok: "ar_ok (fst (authorizeBySecret host now auth params limiter)) \<longleftrightarrow> knowsSecret host auth params"
  by (cases "ra_mode auth") (simp_all add: authorizeBySecret_def knowsSecret_def secretCheck_ok Let_def)

lemma opt_check_admits:
  "(case fst (opt_check lib now (requestIp lib params) (requestScope params) limiter) of
      None \<Rightarrow> False | Some r \<Rightarrow> \<not> rc_allowed r) \<longleftrightarrow> \<not> limiterAdmits lib now params limiter"
  by (cases limiter) (simp_all add: opt_check_def limiterAdmits_def split: prod.splits)

lemma authorizeGatewayConnect_secret_modes:
  assumes "ra_mode auth = ModeToken \<or> ra_mode auth = ModePassword"
  shows "ar_ok (fst (authorizeGatewayConnect host now auth surface params limiter)) \<longleftrightarrow>
    limiterAdmits (ah_lib host) now params limiter \<and>
    (tailscaleLogsIn host auth surface params \<or> knowsSecret host auth params)"
proof -
  obtain check limiter' where c: "opt_check (ah_lib host) now (requestIp (ah_lib host) params) (requestScope params) limiter = (check, limiter')"
    by (cases "opt_check (ah_lib host) now (requestIp (ah_lib host) params) (requestScope params) limiter")
  have adm: "(case check of None \<Rightarrow> False | Some r \<Rightarrow> \<not> rc_allowed r) \<longleftrightarrow> \<not> limiterAdmits (ah_lib host) now params limiter"
    using opt_check_admits [of "ah_lib host" now params limiter] c by simp
  have mode: "ra_mode auth \<noteq> ModeTrustedProxy" "ra_mode auth \<noteq> ModeNone" using assms by auto
  show ?thesis
  proof (cases "limiterAdmits (ah_lib host) now params limiter")
    case False
    then show ?thesis by (simp add: authorizeGatewayConnect_def Let_def mode c adm)
  next
    case True
    then show ?thesis
      by (cases "resolveVerifiedTailscaleUser host (cp_req params)")
        (auto simp: authorizeGatewayConnect_def Let_def mode c adm authorizeBySecret_ok tailscaleLogsIn_def
          shouldAllowTailscaleHeaderAuth_def)
  qed
qed

text \<open>C30: Exactly who is admitted. With no authentication, everyone; behind a trusted proxy, the requests
  that come from one of the configured proxies with the required headers and an allowed user; otherwise,
  unless the limiter has locked the address out, a client that presents the configured secret, or on the
  websocket surface a user that Tailscale vouches for. No header a client may send helps without one of
  these.\<close>

theorem gateway_admits_exactly:
  "ar_ok (fst (authorizeGatewayConnect host now auth surface params limiter)) \<longleftrightarrow>
   (case ra_mode auth of
      ModeNone \<Rightarrow> True
    | ModeTrustedProxy \<Rightarrow> cp_trustedProxies params \<noteq> [] \<and>
        (\<exists>config r user. ra_trustedProxy auth = Some config \<and> cp_req params = Some r \<and>
           proxyVouchesFor (ah_lib host) config (cp_trustedProxies params) r user)
    | _ \<Rightarrow> limiterAdmits (ah_lib host) now params limiter \<and>
        (tailscaleLogsIn host auth surface params \<or> knowsSecret host auth params))"
proof (cases "ra_mode auth")
  case ModeTrustedProxy
  then show ?thesis by (simp add: authorizeGatewayConnect_def Let_def authorizeByProxy_ok)
next
  case ModeNone
  then show ?thesis by (simp add: authorizeGatewayConnect_def Let_def)
qed (simp_all add: authorizeGatewayConnect_secret_modes)

section \<open>Guessing the secret\<close>

definition requestKey :: "('ip, 'h) authHost \<Rightarrow> connectParams \<Rightarrow> string" where
  "requestKey host params = fst (resolveKey (ah_lib host) (requestIp (ah_lib host) params) (Some (requestScope params)))"

text \<open>Requests over HTTP one after the other, and the times at which a key was told that its secret is
  wrong.\<close>

definition toldWrong :: "authResult \<Rightarrow> bool" where
  "toldWrong res \<longleftrightarrow> ar_reason res = Some ''token_mismatch'' \<or> ar_reason res = Some ''password_mismatch''"

fun wrongAnswers ::
  "('ip, 'h) authHost \<Rightarrow> resolvedAuth \<Rightarrow> string \<Rightarrow> (int \<times> connectParams) list \<Rightarrow> rateLimiter option \<Rightarrow> int list" where
  "wrongAnswers host auth key [] limiter = []"
| "wrongAnswers host auth key ((now, params) # rest) limiter =
     (case authorizeHttpGatewayConnect host now auth params limiter of (res, limiter') \<Rightarrow>
        (if requestKey host params = key \<and> toldWrong res then [now] else []) @
        wrongAnswers host auth key rest limiter')"

definition configuredSecret :: "resolvedAuth \<Rightarrow> string option" where
  "configuredSecret auth = (if ra_mode auth = ModeToken then ra_token auth else ra_password auth)"

definition presentedSecret :: "resolvedAuth \<Rightarrow> connectParams \<Rightarrow> string option" where
  "presentedSecret auth params =
     Option.bind (cp_connectAuth params) (if ra_mode auth = ModeToken then ca_token else ca_password)"

definition requestEvent :: "('ip, 'h) authHost \<Rightarrow> resolvedAuth \<Rightarrow> connectParams \<Rightarrow> limiterEvent" where
  "requestEvent host auth params =
     (let ip = requestIp (ah_lib host) params; scope = Some (requestScope params)
      in if \<not> js_truthy (configuredSecret auth) \<or> \<not> js_truthy (presentedSecret auth params) then Check ip scope
         else if safeEqualSecret (ah_sha host) (presentedSecret auth params) (configuredSecret auth) then Succeed ip scope
         else Guess ip scope)"

lemma toldWrong_simps [simp]:
  "\<not> toldWrong (granted how user)" "\<not> toldWrong (refusedLimited n)"
  "toldWrong (refused ''token_mismatch'')" "toldWrong (refused ''password_mismatch'')"
  "\<not> toldWrong (refused ''token_missing'')" "\<not> toldWrong (refused ''password_missing'')"
  "\<not> toldWrong (refused ''token_missing_config'')" "\<not> toldWrong (refused ''password_missing_config'')"
  by (simp_all add: toldWrong_def)

text \<open>An HTTP request is one event of the limiter.\<close>

lemma http_request_event:
  assumes "ra_mode auth = ModeToken \<or> ra_mode auth = ModePassword"
  shows "\<exists>res lim'. authorizeHttpGatewayConnect host now auth params (Some lim) = (res, Some lim') \<and>
    limiterStep (ah_lib host) (now, requestEvent host auth params) lim = (toldWrong res, lim')"
proof -
  obtain r lim' where c: "rl_check (ah_lib host) now (requestIp (ah_lib host) params) (Some (requestScope params)) lim = (r, lim')"
    by (cases "rl_check (ah_lib host) now (requestIp (ah_lib host) params) (Some (requestScope params)) lim")
  note unfold = authorizeHttpGatewayConnect_def authorizeGatewayConnect_def requestEvent_def Let_def opt_check_def
    opt_fail_def opt_reset_def authorizeBySecret_def secretCheck_def configuredSecret_def presentedSecret_def
    shouldAllowTailscaleHeaderAuth_def
  show ?thesis
  proof (cases "rc_allowed r")
    case True
    then show ?thesis using assms by (elim disjE) (simp_all add: unfold c)
  next
    case False
    then show ?thesis using assms by (elim disjE) (simp_all add: unfold c)
  qed
qed

lemma requestEvent_key: "eventKey (ah_lib host) (requestEvent host auth params) = Some key \<Longrightarrow> requestKey host params = key"
  by (auto simp: requestEvent_def requestKey_def Let_def split: if_splits)

lemma requestEvent_spares:
  "(requestKey host params = key \<Longrightarrow> \<not> safeEqualSecret (ah_sha host) (presentedSecret auth params) (configuredSecret auth)) \<Longrightarrow>
   spares (ah_lib host) key (requestEvent host auth params)"
  by (auto simp: requestEvent_def requestKey_def spares_def Let_def)

lemma wrong_is_guess:
  assumes "ra_mode auth = ModeToken \<or> ra_mode auth = ModePassword"
    and "limiterStep (ah_lib host) (now, requestEvent host auth params) lim = (True, lim')"
  shows "eventKey (ah_lib host) (requestEvent host auth params) = Some (requestKey host params)"
  using assms by (auto simp: requestEvent_def requestKey_def Let_def split: if_splits prod.splits)

lemma wrongAnswers_admitted:
  assumes "ra_mode auth = ModeToken \<or> ra_mode auth = ModePassword"
  shows "wrongAnswers host auth key reqs (Some lim) =
    admittedTimes (ah_lib host) key (map (\<lambda>(now, params). (now, requestEvent host auth params)) reqs) lim"
proof (induction reqs arbitrary: lim)
  case (Cons req reqs)
  obtain now params where req: "req = (now, params)" by (cases req)
  obtain res lim' where r: "authorizeHttpGatewayConnect host now auth params (Some lim) = (res, Some lim')"
    and l: "limiterStep (ah_lib host) (now, requestEvent host auth params) lim = (toldWrong res, lim')"
    using http_request_event [OF assms] by blast
  show ?case
  proof (cases "toldWrong res")
    case True
    with wrong_is_guess [OF assms] l have "eventKey (ah_lib host) (requestEvent host auth params) = Some (requestKey host params)"
      by simp
    with True show ?thesis using Cons.IH by (simp add: req r l)
  next
    case False
    then show ?thesis using Cons.IH by (simp add: req r l)
  qed
qed simp

text \<open>C3: A secret cannot be guessed faster than the limiter allows. In token or password mode, whatever requests reach
  the gateway over HTTP, from whatever addresses, in whatever order and at whatever times: an address that the limiter
  does not exempt, and that has not presented the right secret, is told that its secret is wrong at most
  \<open>maxAttempts\<close> times in any window as long as the shorter of the sliding window and the lockout.\<close>

theorem wrong_guesses_bounded:
  assumes mode: "ra_mode auth = ModeToken \<or> ra_mode auth = ModePassword"
    and lim: "lim = createAuthRateLimiter config"
    and limits: "0 < rl_maxAttempts lim" "0 \<le> rl_lockoutMs lim"
    and clock: "sorted (map fst reqs)" "\<forall>(now, params) \<in> set reqs. 0 < now"
    and stranger: "\<forall>(now, params) \<in> set reqs. requestKey host params = key \<longrightarrow>
      \<not> safeEqualSecret (ah_sha host) (presentedSecret auth params) (configuredSecret auth) \<and>
      \<not> isExempt (ah_lib host) lim (snd (resolveKey (ah_lib host) (requestIp (ah_lib host) params) (Some (requestScope params))))"
  shows "int (length (filter (\<lambda>t. a < t \<and> t \<le> a + min (rl_windowMs lim) (rl_lockoutMs lim))
      (wrongAnswers host auth key reqs (Some lim)))) \<le> rl_maxAttempts lim"
proof -
  let ?D = "min (rl_windowMs lim) (rl_lockoutMs lim)"
  let ?es = "map (\<lambda>(now, params). (now, requestEvent host auth params)) reqs"
  have empty: "rl_entries lim = []" by (simp add: lim createAuthRateLimiter_def)
  have keys: "eventKey (ah_lib host) (snd e) = Some key \<Longrightarrow> \<not> exemptEvent (ah_lib host) lim (snd e)"
    and sp: "spares (ah_lib host) key (snd e)" if e: "e \<in> set ?es" for e
  proof -
    from e obtain now params where np: "(now, params) \<in> set reqs" "e = (now, requestEvent host auth params)" by auto
    with stranger have st: "requestKey host params = key \<longrightarrow>
      \<not> safeEqualSecret (ah_sha host) (presentedSecret auth params) (configuredSecret auth) \<and>
      \<not> isExempt (ah_lib host) lim (snd (resolveKey (ah_lib host) (requestIp (ah_lib host) params) (Some (requestScope params))))"
      by auto
    show "spares (ah_lib host) key (snd e)" using st np(2) by (simp add: requestEvent_spares)
    assume k: "eventKey (ah_lib host) (snd e) = Some key"
    from k have "requestKey host params = key" using np(2) requestEvent_key by simp
    with st show "\<not> exemptEvent (ah_lib host) lim (snd e)"
      by (auto simp: np(2) exemptEvent_def requestEvent_def Let_def)
  qed
  have "windowsBounded ?D (rl_maxAttempts lim) ([] @ admittedTimes (ah_lib host) key ?es lim)"
  proof (rule run_windows [where n = 0])
    show "jm_wf (rl_entries lim)" by (simp add: empty)
    show "entryInv lim ?D 0 [] (entryOf lim key)"
      using limits by (simp add: entryInv_def entryOf_def empty js_default_def freshEntry_def recent_def windowsBounded_def)
    show "sorted (map fst ?es)" using clock(1) by (simp add: comp_def split_beta)
    show "0 \<le> fst e \<and> 0 < fst e" if "e \<in> set ?es" for e using clock(2) that by auto
  qed (use limits keys sp in auto)
  then show ?thesis by (simp add: windowsBounded_def wrongAnswers_admitted [OF mode])
qed

definition demoHost :: "(string, string) authHost" where
  "demoHost = \<lparr>ah_lib = demoLib, ah_sha = (\<lambda>s. s),
     ah_whois = (\<lambda>ip. if ip = ''100.64.0.7'' then Some \<lparr>wi_login = ''ada@example.org'', wi_name = None\<rparr> else None)\<rparr>"

definition demoAuth :: resolvedAuth where
  "demoAuth = \<lparr>ra_mode = ModeToken, ra_token = Some ''s3cret'', ra_password = None, ra_allowTailscale = False,
     ra_trustedProxy = None\<rparr>"

definition demoConfig :: rateLimitConfig where
  "demoConfig = \<lparr>rlc_maxAttempts = Some 2, rlc_windowMs = Some 100, rlc_lockoutMs = Some 200, rlc_exemptLoopback = None\<rparr>"

definition demoGuess :: "string \<Rightarrow> string \<Rightarrow> connectParams" where
  "demoGuess peer token = \<lparr>cp_connectAuth = Some \<lparr>ca_token = Some token, ca_password = None\<rparr>,
     cp_req = Some \<lparr>rq_remoteAddress = Some peer, rq_headers = []\<rparr>, cp_trustedProxies = [], cp_clientIp = None,
     cp_rateLimitScope = None, cp_allowRealIpFallback = False\<rparr>"

theorem wrong_guesses_bounded_witness:
  "let reqs = [(1000, demoGuess ''10.0.0.1'' ''a''), (1001, demoGuess ''10.0.0.1'' ''b''),
      (1002, demoGuess ''10.0.0.1'' ''c''), (1003, demoGuess ''10.0.0.2'' ''s3cret'')];
     told = wrongAnswers demoHost demoAuth ''shared-secret:10.0.0.1'' reqs (Some (createAuthRateLimiter demoConfig))
   in told = [1000, 1001] \<and> int (length (filter (\<lambda>t. 999 < t \<and> t \<le> 999 + 100) told)) \<le> 2"
proof -
  let ?lim = "createAuthRateLimiter demoConfig"
  let ?key = "''shared-secret:10.0.0.1''"
  let ?reqs = "[(1000, demoGuess ''10.0.0.1'' ''a''), (1001, demoGuess ''10.0.0.1'' ''b''),
      (1002, demoGuess ''10.0.0.1'' ''c''), (1003, demoGuess ''10.0.0.2'' ''s3cret'')] :: (int \<times> connectParams) list"
  have lim: "rl_maxAttempts ?lim = 2" "rl_windowMs ?lim = 100" "rl_lockoutMs ?lim = 200"
    by (simp_all add: createAuthRateLimiter_def demoConfig_def js_default_def)
  have told: "wrongAnswers demoHost demoAuth ?key ?reqs (Some ?lim) = [1000, 1001]" by code_simp
  have stranger: "list_all (\<lambda>(now, params). requestKey demoHost params = ?key \<longrightarrow>
      \<not> safeEqualSecret (ah_sha demoHost) (presentedSecret demoAuth params) (configuredSecret demoAuth) \<and>
      \<not> isExempt (ah_lib demoHost) ?lim (snd (resolveKey (ah_lib demoHost) (requestIp (ah_lib demoHost) params)
        (Some (requestScope params))))) ?reqs"
    by code_simp
  have "int (length (filter (\<lambda>t. 999 < t \<and> t \<le> 999 + min (rl_windowMs ?lim) (rl_lockoutMs ?lim))
      (wrongAnswers demoHost demoAuth ?key ?reqs (Some ?lim)))) \<le> rl_maxAttempts ?lim"
    by (rule wrong_guesses_bounded [where config = demoConfig])
      (use stranger in \<open>simp_all add: lim demoAuth_def list_all_iff\<close>)
  then show ?thesis unfolding Let_def told by (simp add: lim)
qed

section \<open>Configuration errors\<close>

lemma js_trim_blank: "js_trim s = [] \<longleftrightarrow> list_all js_ws s"
proof
  assume "js_trim s = []"
  then have all: "\<forall>x \<in> set (dropWhile js_ws s). js_ws x" by (simp add: js_trim_def)
  have "dropWhile js_ws s = []"
  proof (rule ccontr)
    assume "dropWhile js_ws s \<noteq> []"
    with all hd_dropWhile [of js_ws s] hd_in_set [of "dropWhile js_ws s"] show False by blast
  qed
  then show "list_all js_ws s" by (simp add: list_all_iff)
next
  assume "list_all js_ws s"
  then show "js_trim s = []" by (auto simp: js_trim_def list_all_iff dest: set_dropWhileD)
qed

lemma blank_header_missing:
  assumes "list_all (\<lambda>(name, v). js_trim name \<noteq> []) (rq_headers r)" "js_trim name = []"
  shows "filledHeader r name = None"
proof -
  have "map js_lower_char s = t \<Longrightarrow> list_all js_ws s \<Longrightarrow> list_all js_ws t" for s t
    by (induction s arbitrary: t) (auto simp: js_ws_def js_lower_char_def Let_def)
  then have "js_trim (js_lower name) = []" using assms(2) by (simp add: js_lower_def js_trim_blank)
  then have "header r (js_lower name) = None"
    using assms(1) by (auto simp: header_def list_all_iff map_of_eq_None_iff)
  then show ?thesis by (simp add: filledHeader_def headerValue_def js_or_empty_def js_some_def)
qed

lemma secretCheck_reason:
  "ar_reason (fst (secretCheck host now ip scope how label configured provided limiter)) = Some (label @ ''_missing_config'') \<Longrightarrow>
   \<not> js_truthy configured"
  by (auto simp: secretCheck_def split: if_splits)

text \<open>The startup check is right about what can work. With a configuration it refuses, no HTTP request is
  ever admitted; with one it lets pass, no request is ever answered that the configuration is missing,
  except that a token-less gateway that relies on Tailscale says so to those who present a token.\<close>

theorem startup_check_exact:
  assumes headers: "\<And>r. cp_req params = Some r \<Longrightarrow> list_all (\<lambda>(name, v). js_trim name \<noteq> []) (rq_headers r)"
  shows "case assertGatewayAuthConfigured auth rawPassword of
      Inl message \<Rightarrow> \<not> ar_ok (fst (authorizeHttpGatewayConnect host now auth params limiter))
    | Inr _ \<Rightarrow> (let reason = ar_reason (fst (authorizeHttpGatewayConnect host now auth params limiter))
        in reason \<noteq> Some ''password_missing_config'' \<and> reason \<noteq> Some ''trusted_proxy_config_missing'' \<and>
           (reason = Some ''token_missing_config'' \<longrightarrow> ra_allowTailscale auth))"
proof (cases "ra_mode auth")
  case ModeNone
  then show ?thesis by (simp add: assertGatewayAuthConfigured_def authorizeHttpGatewayConnect_def authorizeGatewayConnect_def Let_def)
next
  case ModeToken
  obtain check limiter' where c: "opt_check (ah_lib host) now (requestIp (ah_lib host) params) (requestScope params) limiter = (check, limiter')"
    by (cases "opt_check (ah_lib host) now (requestIp (ah_lib host) params) (requestScope params) limiter")
  from ModeToken c show ?thesis
    by (auto simp: assertGatewayAuthConfigured_def authorizeHttpGatewayConnect_def authorizeGatewayConnect_def Let_def
      shouldAllowTailscaleHeaderAuth_def authorizeBySecret_def secretCheck_def)
next
  case ModePassword
  obtain check limiter' where c: "opt_check (ah_lib host) now (requestIp (ah_lib host) params) (requestScope params) limiter = (check, limiter')"
    by (cases "opt_check (ah_lib host) now (requestIp (ah_lib host) params) (requestScope params) limiter")
  from ModePassword c show ?thesis
    by (auto simp: assertGatewayAuthConfigured_def authorizeHttpGatewayConnect_def authorizeGatewayConnect_def Let_def
      shouldAllowTailscaleHeaderAuth_def authorizeBySecret_def secretCheck_def split: jsv.splits)
next
  case ModeTrustedProxy
  show ?thesis
  proof (cases "ra_trustedProxy auth")
    case None
    with ModeTrustedProxy show ?thesis
      by (simp add: assertGatewayAuthConfigured_def authorizeHttpGatewayConnect_def authorizeGatewayConnect_def Let_def authorizeByProxy_def)
  next
    case (Some config)
    have "\<not> ar_ok (authorizeByProxy (ah_lib host) auth params)" if "js_trim (tp_userHeader config) = []"
      using blank_header_missing [OF headers that] Some by (auto simp: authorizeByProxy_ok proxyVouchesFor_def)
    moreover have "ar_reason (authorizeByProxy (ah_lib host) auth params) \<noteq> Some ''trusted_proxy_config_missing''"
      "ar_reason (authorizeByProxy (ah_lib host) auth params) \<noteq> Some ''password_missing_config''"
      "ar_reason (authorizeByProxy (ah_lib host) auth params) \<noteq> Some ''token_missing_config''"
      by (auto simp: authorizeByProxy_def Some authorizeTrustedProxy_def split: option.splits sum.splits if_splits)
    ultimately show ?thesis using ModeTrustedProxy Some
      by (auto simp: assertGatewayAuthConfigured_def authorizeHttpGatewayConnect_def authorizeGatewayConnect_def Let_def)
  qed
qed

theorem startup_check_exact_witness:
  "(let auth = demoAuth\<lparr>ra_token := None\<rparr> in \<exists>message. assertGatewayAuthConfigured auth JUndef = Inl message \<and>
     \<not> ar_ok (fst (authorizeHttpGatewayConnect demoHost 1000 auth (demoGuess ''10.0.0.1'' ''a'') None))) \<and>
   (let auth = demoAuth\<lparr>ra_token := None, ra_allowTailscale := True\<rparr> in assertGatewayAuthConfigured auth JUndef = Inr () \<and>
     ar_reason (fst (authorizeHttpGatewayConnect demoHost 1000 auth (demoGuess ''10.0.0.1'' ''a'') None)) =
       Some ''token_missing_config'')"
proof -
  have a: "assertGatewayAuthConfigured (demoAuth\<lparr>ra_token := None\<rparr>) JUndef =
      Inl ''gateway auth mode is token, but no token was configured''" by code_simp
  have b: "assertGatewayAuthConfigured (demoAuth\<lparr>ra_token := None, ra_allowTailscale := True\<rparr>) JUndef = Inr ()" by code_simp
  have r: "ar_reason (fst (authorizeHttpGatewayConnect demoHost 1000 (demoAuth\<lparr>ra_token := None, ra_allowTailscale := True\<rparr>)
      (demoGuess ''10.0.0.1'' ''a'') None)) = Some ''token_missing_config''" by code_simp
  show ?thesis
    using startup_check_exact [where host = demoHost and now = 1000 and params = "demoGuess ''10.0.0.1'' ''a''"
      and auth = "demoAuth\<lparr>ra_token := None\<rparr>" and rawPassword = JUndef and limiter = None] a b r
    by (simp add: demoGuess_def)
qed

end
