(* ===== verification/Connect_Auth.thy ===== *)
theory Connect_Auth
  imports Gateway_Auth
begin

text \<open>
  \<open>src/gateway/server/ws-connection/auth-context.ts\<close> and the decisions of
  \<open>handshake-auth-helpers.ts\<close> and \<open>connect-policy.ts\<close>: how the handshake of a websocket combines the
  shared secret, bootstrap tokens and device tokens. Verifying a bootstrap or a device token is a
  callback of the code, and a function argument here.
\<close>

section \<open>Model\<close>

record handshakeAuth =
  ha_token :: "string option"
  ha_bootstrapToken :: "string option"
  ha_deviceToken :: "string option"
  ha_password :: "string option"

datatype deviceTokenSource = ExplicitDeviceToken | SharedTokenFallback

record connectAuthState =
  cs_authResult :: authResult
  cs_authOk :: bool
  cs_authMethod :: authMethod
  cs_sharedAuthOk :: bool
  cs_sharedAuthProvided :: bool
  cs_bootstrapTokenCandidate :: "string option"
  cs_deviceTokenCandidate :: "string option"
  cs_deviceTokenCandidateSource :: "deviceTokenSource option"

record connectDecision =
  cd_authResult :: authResult
  cd_authOk :: bool
  cd_authMethod :: authMethod

definition trimToUndefined :: "string option \<Rightarrow> string option" where
  "trimToUndefined value = js_some (js_trim (js_or_empty value))"

definition handshakeField :: "(handshakeAuth \<Rightarrow> string option) \<Rightarrow> handshakeAuth option \<Rightarrow> string option" where
  "handshakeField f connectAuth = trimToUndefined (Option.bind connectAuth f)"

definition resolveSharedConnectAuth :: "handshakeAuth option \<Rightarrow> connectAuth option" where
  "resolveSharedConnectAuth connectAuth =
     (let token = handshakeField ha_token connectAuth; password = handshakeField ha_password connectAuth
      in if token = None \<and> password = None then None
         else Some \<lparr>ca_token = token, ca_password = password\<rparr>)"

definition resolveDeviceTokenCandidate :: "handshakeAuth option \<Rightarrow> (string \<times> deviceTokenSource) option" where
  "resolveDeviceTokenCandidate connectAuth =
     (case handshakeField ha_deviceToken connectAuth of
        Some token \<Rightarrow> Some (token, ExplicitDeviceToken)
      | None \<Rightarrow> map_option (\<lambda>token. (token, SharedTokenFallback)) (handshakeField ha_token connectAuth))"

definition resolveBootstrapTokenCandidate :: "handshakeAuth option \<Rightarrow> string option" where
  "resolveBootstrapTokenCandidate connectAuth = handshakeField ha_bootstrapToken connectAuth"

record handshakeParams =
  hp_connectAuth :: "handshakeAuth option"
  hp_hasDeviceIdentity :: bool
  hp_req :: httpReq
  hp_trustedProxies :: "string list"
  hp_allowRealIpFallback :: bool
  hp_clientIp :: "string option"

definition sharedParams :: "handshakeParams \<Rightarrow> connectParams" where
  "sharedParams hs = \<lparr>cp_connectAuth = resolveSharedConnectAuth (hp_connectAuth hs), cp_req = Some (hp_req hs),
     cp_trustedProxies = hp_trustedProxies hs, cp_clientIp = hp_clientIp hs,
     cp_rateLimitScope = Some AUTH_RATE_LIMIT_SCOPE_SHARED_SECRET,
     cp_allowRealIpFallback = hp_allowRealIpFallback hs\<rparr>"

text \<open>The probe of the shared secret has no client address of its own.\<close>

definition probeParams :: "handshakeParams \<Rightarrow> connectParams" where
  "probeParams hs = (sharedParams hs)\<lparr>cp_clientIp := None\<rparr>"

definition isSecretMethod :: "authMethod option \<Rightarrow> bool" where
  "isSecretMethod how \<longleftrightarrow> how = Some MethodToken \<or> how = Some MethodPassword"

text \<open>With a device token candidate the limiter is consulted only after the secret was found right.\<close>

definition deferredLimit ::
  "'ip ipLib \<Rightarrow> int \<Rightarrow> handshakeParams \<Rightarrow> authResult \<Rightarrow> rateLimiter option \<Rightarrow> authResult \<times> rateLimiter option" where
  "deferredLimit lib now hs res limiter =
     (case limiter of
        None \<Rightarrow> (res, None)
      | Some lim \<Rightarrow>
          if ar_ok res \<and> isSecretMethod (ar_method res)
          then (case rl_check lib now (hp_clientIp hs) (Some AUTH_RATE_LIMIT_SCOPE_SHARED_SECRET) lim of (r, lim') \<Rightarrow>
             if \<not> rc_allowed r then (refusedLimited (rc_retryAfterMs r), Some lim')
             else (res, Some (rl_reset lib (hp_clientIp hs) (Some AUTH_RATE_LIMIT_SCOPE_SHARED_SECRET) lim')))
          else (res, Some lim))"

definition resolveConnectAuthState ::
  "('ip, 'h) authHost \<Rightarrow> int \<Rightarrow> resolvedAuth \<Rightarrow> handshakeParams \<Rightarrow> rateLimiter option \<Rightarrow>
   connectAuthState \<times> rateLimiter option" where
  "resolveConnectAuthState host now auth hs limiter =
     (let shared = resolveSharedConnectAuth (hp_connectAuth hs);
          device = (if hp_hasDeviceIdentity hs then resolveDeviceTokenCandidate (hp_connectAuth hs) else None);
          bootstrap = (if hp_hasDeviceIdentity hs then resolveBootstrapTokenCandidate (hp_connectAuth hs) else None);
          (res, limiter') =
            (if device \<noteq> None
             then deferredLimit (ah_lib host) now hs
                    (fst (authorizeWsControlUiGatewayConnect host now auth (sharedParams hs) None)) limiter
             else authorizeWsControlUiGatewayConnect host now auth (sharedParams hs) limiter);
          probe = (if shared = None then None
                   else Some (fst (authorizeHttpGatewayConnect host now (auth\<lparr>ra_allowTailscale := False\<rparr>) (probeParams hs) None)));
          sharedOk = (case probe of None \<Rightarrow> False | Some r \<Rightarrow> ar_ok r \<and> isSecretMethod (ar_method r)) \<or>
            (ar_ok res \<and> ar_method res = Some MethodTrustedProxy)
      in (\<lparr>cs_authResult = res, cs_authOk = ar_ok res,
           cs_authMethod = js_default (ar_method res) (if ra_mode auth = ModePassword then MethodPassword else MethodToken),
           cs_sharedAuthOk = sharedOk, cs_sharedAuthProvided = (shared \<noteq> None),
           cs_bootstrapTokenCandidate = bootstrap, cs_deviceTokenCandidate = map_option fst device,
           cs_deviceTokenCandidateSource = map_option snd device\<rparr>, limiter'))"

text \<open>A verifier of bootstrap tokens answers with a reason when it refuses; one of device tokens with yes
  or no.\<close>

record tokenVerifiers =
  tv_bootstrap :: "string \<Rightarrow> string \<Rightarrow> string \<Rightarrow> string \<Rightarrow> string list \<Rightarrow> string option + unit"
  tv_device :: "string \<Rightarrow> string \<Rightarrow> string \<Rightarrow> string list \<Rightarrow> bool"

record decisionParams =
  dp_hasDeviceIdentity :: bool
  dp_deviceId :: "string option"
  dp_publicKey :: "string option"
  dp_role :: string
  dp_scopes :: "string list"
  dp_clientIp :: "string option"

definition bootstrapStage :: "tokenVerifiers \<Rightarrow> decisionParams \<Rightarrow> connectAuthState \<Rightarrow> connectDecision" where
  "bootstrapStage verify dp st =
     (let before = \<lparr>cd_authResult = cs_authResult st, cd_authOk = cs_authOk st, cd_authMethod = cs_authMethod st\<rparr>
      in if dp_hasDeviceIdentity dp \<and> js_truthy (dp_deviceId dp) \<and> js_truthy (dp_publicKey dp) \<and> \<not> cs_authOk st \<and>
            js_truthy (cs_bootstrapTokenCandidate st)
         then (case tv_bootstrap verify (js_or_empty (dp_deviceId dp)) (js_or_empty (dp_publicKey dp))
                 (js_or_empty (cs_bootstrapTokenCandidate st)) (dp_role dp) (dp_scopes dp) of
             Inr _ \<Rightarrow> before\<lparr>cd_authOk := True, cd_authMethod := MethodBootstrapToken\<rparr>
           | Inl reason \<Rightarrow> before\<lparr>cd_authResult := refused (js_default reason ''bootstrap_token_invalid'')\<rparr>)
         else before)"

definition deviceMismatchReason :: "connectAuthState \<Rightarrow> authResult \<Rightarrow> string" where
  "deviceMismatchReason st res =
     (if cs_deviceTokenCandidateSource st = Some ExplicitDeviceToken then ''device_token_mismatch''
      else js_default (ar_reason res) ''device_token_mismatch'')"

definition resolveConnectAuthDecision ::
  "'ip ipLib \<Rightarrow> int \<Rightarrow> tokenVerifiers \<Rightarrow> decisionParams \<Rightarrow> connectAuthState \<Rightarrow> rateLimiter option \<Rightarrow>
   connectDecision \<times> rateLimiter option" where
  "resolveConnectAuthDecision lib now verify dp st limiter =
     (let d = bootstrapStage verify dp st
      in if \<not> dp_hasDeviceIdentity dp \<or> \<not> js_truthy (dp_deviceId dp) \<or> cd_authOk d \<or>
            \<not> js_truthy (cs_deviceTokenCandidate st)
         then (d, limiter)
         else (case opt_check lib now (dp_clientIp dp) AUTH_RATE_LIMIT_SCOPE_DEVICE_TOKEN limiter of (check, limiter') \<Rightarrow>
            let d' = (case check of
                  None \<Rightarrow> d
                | Some r \<Rightarrow> if rc_allowed r then d else d\<lparr>cd_authResult := refusedLimited (rc_retryAfterMs r)\<rparr>)
            in if ar_rateLimited (cd_authResult d') then (d', limiter')
               else if tv_device verify (js_or_empty (dp_deviceId dp)) (js_or_empty (cs_deviceTokenCandidate st))
                      (dp_role dp) (dp_scopes dp)
               then (d'\<lparr>cd_authOk := True, cd_authMethod := MethodDeviceToken\<rparr>,
                     opt_reset lib (dp_clientIp dp) AUTH_RATE_LIMIT_SCOPE_DEVICE_TOKEN limiter')
               else (d'\<lparr>cd_authResult := refused (deviceMismatchReason st (cd_authResult d'))\<rparr>,
                     opt_fail lib now (dp_clientIp dp) AUTH_RATE_LIMIT_SCOPE_DEVICE_TOKEN limiter')))"

subsection \<open>What the handshake does with it\<close>

definition BROWSER_ORIGIN_LOOPBACK_RATE_LIMIT_IP :: string where
  "BROWSER_ORIGIN_LOOPBACK_RATE_LIMIT_IP = ''198.18.0.1''"

record browserContext =
  bc_hasBrowserOriginHeader :: bool
  bc_enforceOriginCheckForAnyClient :: bool
  bc_rateLimitClientIp :: "string option"
  bc_usesBrowserLimiter :: bool

text \<open>Which of the two limiters is used: the browser's, if there is one, for requests with an origin.\<close>

definition resolveHandshakeBrowserSecurityContext ::
  "'ip ipLib \<Rightarrow> string option \<Rightarrow> string option \<Rightarrow> bool \<Rightarrow> browserContext" where
  "resolveHandshakeBrowserSecurityContext lib requestOrigin clientIp hasBrowserLimiter =
     (let origin = js_trim (js_or_empty requestOrigin) \<noteq> []
      in \<lparr>bc_hasBrowserOriginHeader = origin, bc_enforceOriginCheckForAnyClient = origin,
          bc_rateLimitClientIp = (if origin \<and> isLoopbackIpAddress lib clientIp
            then Some BROWSER_ORIGIN_LOOPBACK_RATE_LIMIT_IP else clientIp),
          bc_usesBrowserLimiter = (origin \<and> hasBrowserLimiter)\<rparr>)"

datatype gatewayRole = RoleOperator | RoleNode

definition parseGatewayRole :: "jsv \<Rightarrow> gatewayRole option" where
  "parseGatewayRole v = (if v = JStr ''operator'' then Some RoleOperator
     else if v = JStr ''node'' then Some RoleNode else None)"

definition roleCanSkipDeviceIdentity :: "gatewayRole \<Rightarrow> bool \<Rightarrow> bool" where
  "roleCanSkipDeviceIdentity role sharedAuthOk \<longleftrightarrow> role = RoleOperator \<and> sharedAuthOk"

record controlUiPolicy =
  cu_allowInsecureAuthConfigured :: bool
  cu_dangerouslyDisableDeviceAuth :: bool
  cu_allowBypass :: bool
  cu_hasDevice :: bool

definition resolveControlUiAuthPolicy :: "bool \<Rightarrow> bool option \<Rightarrow> bool option \<Rightarrow> bool \<Rightarrow> controlUiPolicy" where
  "resolveControlUiAuthPolicy isControlUi allowInsecureAuth disableDeviceAuth hasDeviceRaw =
     (let dangerous = isControlUi \<and> disableDeviceAuth = Some True
      in \<lparr>cu_allowInsecureAuthConfigured = (isControlUi \<and> allowInsecureAuth = Some True),
          cu_dangerouslyDisableDeviceAuth = dangerous, cu_allowBypass = dangerous,
          cu_hasDevice = (\<not> dangerous \<and> hasDeviceRaw)\<rparr>)"

definition shouldSkipControlUiPairing :: "controlUiPolicy \<Rightarrow> gatewayRole \<Rightarrow> bool \<Rightarrow> bool" where
  "shouldSkipControlUiPairing policy role trustedProxyAuthOk \<longleftrightarrow>
     trustedProxyAuthOk \<or> (role = RoleOperator \<and> cu_allowBypass policy)"

definition isTrustedProxyControlUiOperatorAuth ::
  "bool \<Rightarrow> gatewayRole \<Rightarrow> authMode \<Rightarrow> bool \<Rightarrow> authMethod \<Rightarrow> bool" where
  "isTrustedProxyControlUiOperatorAuth isControlUi role mode authOk how \<longleftrightarrow>
     isControlUi \<and> role = RoleOperator \<and> mode = ModeTrustedProxy \<and> authOk \<and> how = MethodTrustedProxy"

datatype missingDevice = Allow | RejectControlUiInsecureAuth | RejectUnauthorized | RejectDeviceRequired

record missingDeviceParams =
  md_hasDeviceIdentity :: bool
  md_role :: gatewayRole
  md_isControlUi :: bool
  md_policy :: controlUiPolicy
  md_trustedProxyAuthOk :: bool
  md_sharedAuthOk :: bool
  md_authOk :: bool
  md_hasSharedAuth :: bool
  md_isLocalClient :: bool

definition evaluateMissingDeviceIdentity :: "missingDeviceParams \<Rightarrow> missingDevice" where
  "evaluateMissingDeviceIdentity p =
     (if md_hasDeviceIdentity p then Allow
      else if md_isControlUi p \<and> md_trustedProxyAuthOk p then Allow
      else if md_isControlUi p \<and> cu_allowBypass (md_policy p) \<and> md_role p = RoleOperator then Allow
      else if md_isControlUi p \<and> \<not> cu_allowBypass (md_policy p) \<and>
              (\<not> cu_allowInsecureAuthConfigured (md_policy p) \<or> \<not> md_isLocalClient p)
      then RejectControlUiInsecureAuth
      else if roleCanSkipDeviceIdentity (md_role p) (md_sharedAuthOk p) then Allow
      else if \<not> md_authOk p \<and> md_hasSharedAuth p then RejectUnauthorized
      else RejectDeviceRequired)"

datatype pairingReason = NotPaired | RoleUpgrade | ScopeUpgrade | MetadataUpgrade

definition shouldAllowSilentLocalPairing :: "bool \<Rightarrow> bool \<Rightarrow> bool \<Rightarrow> bool \<Rightarrow> pairingReason \<Rightarrow> bool" where
  "shouldAllowSilentLocalPairing isLocalClient hasBrowserOrigin isControlUi isWebchat reason \<longleftrightarrow>
     isLocalClient \<and> (\<not> hasBrowserOrigin \<or> isControlUi \<or> isWebchat) \<and> (reason = NotPaired \<or> reason = ScopeUpgrade)"

definition shouldSkipBackendSelfPairing :: "bool \<Rightarrow> bool \<Rightarrow> bool \<Rightarrow> bool \<Rightarrow> authMethod \<Rightarrow> bool" where
  "shouldSkipBackendSelfPairing isGatewayBackendClient isLocalClient hasBrowserOrigin sharedAuthOk how \<longleftrightarrow>
     isGatewayBackendClient \<and> isLocalClient \<and> \<not> hasBrowserOrigin \<and>
     ((sharedAuthOk \<and> isSecretMethod (Some how)) \<or> how = MethodDeviceToken)"

section \<open>Guesses that come with a device\<close>

text \<open>One connect request: the credentials, then the decision.\<close>

definition connectAttempt ::
  "('ip, 'h) authHost \<Rightarrow> resolvedAuth \<Rightarrow> tokenVerifiers \<Rightarrow> decisionParams \<Rightarrow> int \<times> handshakeParams \<Rightarrow> rateLimiter option \<Rightarrow>
   connectDecision \<times> rateLimiter option" where
  "connectAttempt host auth verify dp attempt limiter =
     (case resolveConnectAuthState host (fst attempt) auth (snd attempt) limiter of (cs, limiter') \<Rightarrow>
        resolveConnectAuthDecision (ah_lib host) (fst attempt) verify dp cs limiter')"

lemma scope_keys: "fst (resolveKey lib ip (Some AUTH_RATE_LIMIT_SCOPE_DEVICE_TOKEN)) \<noteq> fst (resolveKey lib ip' (Some AUTH_RATE_LIMIT_SCOPE_SHARED_SECRET))"
proof -
  have "normalizeScope (Some AUTH_RATE_LIMIT_SCOPE_DEVICE_TOKEN) = ''device-token''"
    "normalizeScope (Some AUTH_RATE_LIMIT_SCOPE_SHARED_SECRET) = ''shared-secret''" by code_simp+
  then show ?thesis by (simp add: resolveKey_def Let_def)
qed

text \<open>The decision only ever touches the entries of device tokens.\<close>

lemma decision_spares_shared:
  assumes "resolveConnectAuthDecision lib now verify dp cs (Some lim) = (d, limiter')"
    and "key = fst (resolveKey lib ip (Some AUTH_RATE_LIMIT_SCOPE_SHARED_SECRET))"
  shows "\<exists>lim'. limiter' = Some lim' \<and> entryOf lim' key = entryOf lim key \<and> sameLimits lim' lim"
proof -
  have other: "fst (resolveKey lib (dp_clientIp dp) (Some AUTH_RATE_LIMIT_SCOPE_DEVICE_TOKEN)) \<noteq> key"
    using scope_keys assms(2) by simp
  obtain r lim1 where chk: "rl_check lib now (dp_clientIp dp) (Some AUTH_RATE_LIMIT_SCOPE_DEVICE_TOKEN) lim = (r, lim1)"
    by (cases "rl_check lib now (dp_clientIp dp) (Some AUTH_RATE_LIMIT_SCOPE_DEVICE_TOKEN) lim")
  have lim1: "entryOf lim1 key = entryOf lim key" "sameLimits lim1 lim"
    using check_other [OF other, of now lim] check_limits(1) [of lib now "dp_clientIp dp" "Some AUTH_RATE_LIMIT_SCOPE_DEVICE_TOKEN" lim]
    by (simp_all add: chk)
  have lim2: "entryOf (rl_recordFailure lib now (dp_clientIp dp) (Some AUTH_RATE_LIMIT_SCOPE_DEVICE_TOKEN) lim1) key = entryOf lim key"
    "sameLimits (rl_recordFailure lib now (dp_clientIp dp) (Some AUTH_RATE_LIMIT_SCOPE_DEVICE_TOKEN) lim1) lim"
    using failure_other [OF other, of now lim1] lim1(1) sameLimits_trans [OF failure_limits(1) lim1(2)] by auto
  have lim3: "entryOf (rl_reset lib (dp_clientIp dp) (Some AUTH_RATE_LIMIT_SCOPE_DEVICE_TOKEN) lim1) key = entryOf lim key"
    "sameLimits (rl_reset lib (dp_clientIp dp) (Some AUTH_RATE_LIMIT_SCOPE_DEVICE_TOKEN) lim1) lim"
    using reset_other [OF other, of lim1] lim1 by (auto simp: sameLimits_def rl_reset_def)
  show ?thesis
    using assms(1) lim1 lim2 lim3
    by (auto simp: resolveConnectAuthDecision_def Let_def opt_check_def opt_fail_def opt_reset_def chk split: if_splits)
qed

definition guessesSecret :: "('ip, 'h) authHost \<Rightarrow> resolvedAuth \<Rightarrow> handshakeParams \<Rightarrow> bool" where
  "guessesSecret host auth hs \<longleftrightarrow> hp_hasDeviceIdentity hs \<and> handshakeField ha_token (hp_connectAuth hs) \<noteq> None \<and>
     \<not> knowsSecret host auth (sharedParams hs)"

lemma candidate_with_token:
  "handshakeField ha_token (hp_connectAuth hs) \<noteq> None \<Longrightarrow> resolveDeviceTokenCandidate (hp_connectAuth hs) \<noteq> None"
  by (auto simp: resolveDeviceTokenCandidate_def split: option.splits)

lemma guess_attempt:
  assumes mode: "ra_mode auth = ModeToken" "\<not> ra_allowTailscale auth" and guess: "guessesSecret host auth (snd attempt)"
    and key: "key = fst (resolveKey (ah_lib host) ip (Some AUTH_RATE_LIMIT_SCOPE_SHARED_SECRET))"
  shows "\<exists>d lim'. connectAttempt host auth verify dp attempt (Some lim) = (d, Some lim') \<and>
    entryOf lim' key = entryOf lim key \<and> sameLimits lim' lim"
proof -
  obtain now hs where at: "attempt = (now, hs)" by (cases attempt)
  have "\<not> ar_ok (fst (authorizeWsControlUiGatewayConnect host now auth (sharedParams hs) None))"
    using authorizeGatewayConnect_secret_modes [of auth host now SurfaceWsControlUi "sharedParams hs" None] mode guess
    by (simp add: authorizeWsControlUiGatewayConnect_def tailscaleLogsIn_def guessesSecret_def at)
  then obtain cs where cs: "resolveConnectAuthState host now auth hs (Some lim) = (cs, Some lim)"
    using guess candidate_with_token [of hs]
    by (auto simp: resolveConnectAuthState_def Let_def deferredLimit_def guessesSecret_def at)
  obtain d limiter' where d: "resolveConnectAuthDecision (ah_lib host) now verify dp cs (Some lim) = (d, limiter')"
    by (cases "resolveConnectAuthDecision (ah_lib host) now verify dp cs (Some lim)")
  from decision_spares_shared [OF d key] d cs show ?thesis by (auto simp: connectAttempt_def at)
qed

text \<open>However many wrong secrets were presented together with a device, at whatever times, the right one
  is accepted next: these guesses are not counted against the secret.\<close>

lemma device_guesses_not_limited:
  assumes mode: "ra_mode auth = ModeToken" "\<not> ra_allowTailscale auth"
    and guesses: "\<And>attempt. attempt \<in> set attempts \<Longrightarrow> guessesSecret host auth (snd attempt)"
    and lim: "lim = createAuthRateLimiter config" "0 < rl_maxAttempts lim"
    and right: "hp_hasDeviceIdentity hs" "handshakeField ha_token (hp_connectAuth hs) \<noteq> None" "knowsSecret host auth (sharedParams hs)"
  shows "cd_authOk (fst (connectAttempt host auth verify dp (now, hs)
    (fold (\<lambda>attempt l. snd (connectAttempt host auth verify dp attempt l)) attempts (Some lim))))"
proof -
  let ?key = "fst (resolveKey (ah_lib host) (hp_clientIp hs) (Some AUTH_RATE_LIMIT_SCOPE_SHARED_SECRET))"
  have "\<exists>lim'. fold (\<lambda>attempt l. snd (connectAttempt host auth verify dp attempt l)) attempts (Some l0) = Some lim' \<and>
      entryOf lim' ?key = entryOf l0 ?key \<and> sameLimits lim' l0" for l0
    using guesses
  proof (induction attempts arbitrary: l0)
    case (Cons a as)
    obtain d l1 where a: "connectAttempt host auth verify dp a (Some l0) = (d, Some l1)"
      and l1: "entryOf l1 ?key = entryOf l0 ?key" "sameLimits l1 l0"
      using guess_attempt [OF mode Cons.prems [of a] refl, of verify dp l0 "hp_clientIp hs"] by auto
    from Cons.IH [of l1] Cons.prems l1 sameLimits_trans show ?case by (fastforce simp: a)
  qed simp
  then obtain lim' where run: "fold (\<lambda>attempt l. snd (connectAttempt host auth verify dp attempt l)) attempts (Some lim) = Some lim'"
    and entry: "entryOf lim' ?key = entryOf lim ?key" and same: "sameLimits lim' lim" by blast
  have fresh: "entryOf lim' ?key = freshEntry"
    using entry lim by (simp add: createAuthRateLimiter_def entryOf_def js_default_def)
  have allowed: "rc_allowed (fst (rl_check (ah_lib host) now (hp_clientIp hs) (Some AUTH_RATE_LIMIT_SCOPE_SHARED_SECRET) lim'))"
  proof (cases "isExempt (ah_lib host) lim' (snd (resolveKey (ah_lib host) (hp_clientIp hs) (Some AUTH_RATE_LIMIT_SCOPE_SHARED_SECRET)))")
    case True
    then show ?thesis by (simp add: rl_check_def Let_def split_beta)
  next
    case False
    from check_cases [OF _ False, of "hp_clientIp hs" "Some AUTH_RATE_LIMIT_SCOPE_SHARED_SECRET" ?key now] fresh lim(2) same show ?thesis
      by (auto simp: Let_def entryOf_def js_default_def freshEntry_def lockedAt_def checkedEntry_def lockExpiredAt_def
        slideWindow_def sameLimits_def split: option.splits)
  qed
  have ok: "ar_ok (fst (authorizeWsControlUiGatewayConnect host now auth (sharedParams hs) None))"
    using authorizeGatewayConnect_secret_modes [of auth host now SurfaceWsControlUi "sharedParams hs" None] mode right(3)
    by (simp add: authorizeWsControlUiGatewayConnect_def limiterAdmits_def)
  obtain cs limiter where cs: "resolveConnectAuthState host now auth hs (Some lim') = (cs, limiter)" "cs_authOk cs"
    using ok allowed right(1) candidate_with_token [OF right(2)]
    by (cases "resolveConnectAuthState host now auth hs (Some lim')")
      (auto simp: resolveConnectAuthState_def Let_def deferredLimit_def split: if_splits prod.splits)
  then have "cd_authOk (bootstrapStage verify dp cs)" by (simp add: bootstrapStage_def Let_def)
  then have "cd_authOk (fst (connectAttempt host auth verify dp (now, hs) (Some lim')))"
    by (simp add: connectAttempt_def cs resolveConnectAuthDecision_def Let_def)
  then show ?thesis unfolding run .
qed

end
