(* ===== verification/Device_Pairing.thy ===== *)
theory Device_Pairing
  imports Gateway_Auth
begin

text \<open>
  \<open>src/infra/device-pairing.ts\<close>, \<open>pairing-files.ts\<close>, \<open>pairing-pending.ts\<close>, \<open>pairing-token.ts\<close>,
  \<open>device-bootstrap.ts\<close>, \<open>src/shared/device-auth.ts\<close> and \<open>operator-scope-compat.ts\<close>: pairing requests,
  paired devices and their tokens. Every operation runs under one lock on the two files, whose contents
  are the state; it reads them, drops the expired requests, and writes them back unless it returns early.
  Random tokens, request ids and the clock are arguments.
\<close>

section \<open>Scopes\<close>

text \<open>Distinct trimmed names, in order: \<open>normalizeScopeList\<close>, and the sets of \<open>mergeRoles\<close> and
  \<open>mergeScopes\<close>, where a single role is a list of one.\<close>

definition normalizeScopeList :: "string list \<Rightarrow> string list" where
  "normalizeScopeList scopes = js_uniq (filter (\<lambda>s. s \<noteq> []) (map js_trim scopes))"

definition mergeScopes :: "string list option list \<Rightarrow> string list option" where
  "mergeScopes items =
     (let scopes = normalizeScopeList (concat (map (\<lambda>item. js_default item []) items))
      in if scopes = [] then None else Some scopes)"

definition mergeRoles :: "string list option list \<Rightarrow> string list option" where
  "mergeRoles items =
     (let roles = normalizeScopeList (concat (map (\<lambda>item. js_default item []) items))
      in if roles = [] then None else Some roles)"

definition singleRole :: "string option \<Rightarrow> string list option" where
  "singleRole role = map_option (\<lambda>r. [r]) role"

definition normalizeDeviceAuthScopes :: "string list option \<Rightarrow> string list" where
  "normalizeDeviceAuthScopes scopes = sort (normalizeScopeList (js_default scopes []))"

definition OPERATOR_ROLE :: string where "OPERATOR_ROLE = ''operator''"
definition OPERATOR_ADMIN_SCOPE :: string where "OPERATOR_ADMIN_SCOPE = ''operator.admin''"
definition OPERATOR_READ_SCOPE :: string where "OPERATOR_READ_SCOPE = ''operator.read''"
definition OPERATOR_WRITE_SCOPE :: string where "OPERATOR_WRITE_SCOPE = ''operator.write''"
definition OPERATOR_SCOPE_PREFIX :: string where "OPERATOR_SCOPE_PREFIX = ''operator.''"

definition operatorScopeSatisfied :: "string \<Rightarrow> string list \<Rightarrow> bool" where
  "operatorScopeSatisfied requested owned \<longleftrightarrow>
     (if OPERATOR_ADMIN_SCOPE \<in> set owned \<and> prefix OPERATOR_SCOPE_PREFIX requested then True
      else if requested = OPERATOR_READ_SCOPE
      then OPERATOR_READ_SCOPE \<in> set owned \<or> OPERATOR_WRITE_SCOPE \<in> set owned
      else if requested = OPERATOR_WRITE_SCOPE then OPERATOR_WRITE_SCOPE \<in> set owned
      else requested \<in> set owned)"

definition roleScopesAllow :: "string \<Rightarrow> string list \<Rightarrow> string list \<Rightarrow> bool" where
  "roleScopesAllow role requestedScopes allowedScopes \<longleftrightarrow>
     (let requested = normalizeScopeList requestedScopes; allowed = normalizeScopeList allowedScopes
      in if requested = [] then True
         else if allowed = [] then False
         else if js_trim role \<noteq> OPERATOR_ROLE then list_all (\<lambda>s. s \<in> set allowed) requested
         else list_all (\<lambda>s. operatorScopeSatisfied s allowed) requested)"

section \<open>State\<close>

record pendingRequest =
  pr_requestId :: string
  pr_deviceId :: string
  pr_publicKey :: string
  pr_displayName :: "string option"
  pr_platform :: "string option"
  pr_deviceFamily :: "string option"
  pr_clientId :: "string option"
  pr_clientMode :: "string option"
  pr_role :: "string option"
  pr_roles :: "string list option"
  pr_scopes :: "string list option"
  pr_remoteIp :: "string option"
  pr_silent :: bool
  pr_isRepair :: bool
  pr_ts :: int

record deviceAuthToken =
  dt_token :: string
  dt_role :: string
  dt_scopes :: "string list"
  dt_createdAtMs :: int
  dt_rotatedAtMs :: "int option"
  dt_revokedAtMs :: "int option"
  dt_lastUsedAtMs :: "int option"

record pairedDevice =
  pv_deviceId :: string
  pv_publicKey :: string
  pv_displayName :: "string option"
  pv_platform :: "string option"
  pv_deviceFamily :: "string option"
  pv_clientId :: "string option"
  pv_clientMode :: "string option"
  pv_role :: "string option"
  pv_roles :: "string list option"
  pv_scopes :: "string list option"
  pv_approvedScopes :: "string list option"
  pv_remoteIp :: "string option"
  pv_tokens :: "(string \<times> deviceAuthToken) list option"
  pv_createdAtMs :: int
  pv_approvedAtMs :: int

record pairingState =
  ps_pendingById :: "(string \<times> pendingRequest) list"
  ps_pairedByDeviceId :: "(string \<times> pairedDevice) list"

text \<open>A request without the fields the store adds.\<close>

record incomingRequest =
  in_deviceId :: string
  in_publicKey :: string
  in_displayName :: "string option"
  in_platform :: "string option"
  in_deviceFamily :: "string option"
  in_clientId :: "string option"
  in_clientMode :: "string option"
  in_role :: "string option"
  in_scopes :: "string list option"
  in_remoteIp :: "string option"
  in_silent :: bool

definition PENDING_TTL_MS :: int where "PENDING_TTL_MS = 5 * 60 * 1000"

definition pruneExpiredPending :: "('a \<Rightarrow> int) \<Rightarrow> int \<Rightarrow> int \<Rightarrow> (string \<times> 'a) list \<Rightarrow> (string \<times> 'a) list" where
  "pruneExpiredPending stamp nowMs ttlMs pending = filter (\<lambda>(i, r). \<not> ttlMs < nowMs - stamp r) pending"

definition loadState :: "int \<Rightarrow> pairingState \<Rightarrow> pairingState" where
  "loadState now st = st\<lparr>ps_pendingById := pruneExpiredPending pr_ts now PENDING_TTL_MS (ps_pendingById st)\<rparr>"

definition normalizeDeviceId :: "string \<Rightarrow> string" where
  "normalizeDeviceId deviceId = js_trim deviceId"

definition normalizeRole :: "string option \<Rightarrow> string option" where
  "normalizeRole role = js_some (js_trim (js_or_empty role))"

definition verifyPairingToken :: "(string \<Rightarrow> 'h) \<Rightarrow> string \<Rightarrow> string \<Rightarrow> bool" where
  "verifyPairingToken sha provided expected \<longleftrightarrow>
     js_trim provided \<noteq> [] \<and> js_trim expected \<noteq> [] \<and> safeEqualSecret sha (Some provided) (Some expected)"

definition getPairedDeviceFromState :: "pairingState \<Rightarrow> string \<Rightarrow> pairedDevice option" where
  "getPairedDeviceFromState st deviceId = map_of (ps_pairedByDeviceId st) (normalizeDeviceId deviceId)"

definition putPaired :: "string \<Rightarrow> pairedDevice \<Rightarrow> pairingState \<Rightarrow> pairingState" where
  "putPaired key device st = st\<lparr>ps_pairedByDeviceId := AList.update key device (ps_pairedByDeviceId st)\<rparr>"

definition tokensOf :: "pairedDevice \<Rightarrow> (string \<times> deviceAuthToken) list" where
  "tokensOf device = js_default (pv_tokens device) []"

section \<open>Requests and approvals\<close>

definition mergePendingDevicePairingRequest ::
  "int \<Rightarrow> pendingRequest \<Rightarrow> incomingRequest \<Rightarrow> bool \<Rightarrow> pendingRequest" where
  "mergePendingDevicePairingRequest now existing req isRepair = existing\<lparr>
     pr_displayName := js_coalesce (in_displayName req) (pr_displayName existing),
     pr_platform := js_coalesce (in_platform req) (pr_platform existing),
     pr_deviceFamily := js_coalesce (in_deviceFamily req) (pr_deviceFamily existing),
     pr_clientId := js_coalesce (in_clientId req) (pr_clientId existing),
     pr_clientMode := js_coalesce (in_clientMode req) (pr_clientMode existing),
     pr_role := js_coalesce (normalizeRole (pr_role existing)) (normalizeRole (in_role req)),
     pr_roles := mergeRoles [pr_roles existing, singleRole (pr_role existing), singleRole (in_role req)],
     pr_scopes := mergeScopes [pr_scopes existing, in_scopes req],
     pr_remoteIp := js_coalesce (in_remoteIp req) (pr_remoteIp existing),
     pr_silent := pr_silent existing \<and> in_silent req,
     pr_isRepair := pr_isRepair existing \<or> isRepair,
     pr_ts := now\<rparr>"

definition newPending :: "int \<Rightarrow> string \<Rightarrow> incomingRequest \<Rightarrow> bool \<Rightarrow> pendingRequest" where
  "newPending now requestId req isRepair = \<lparr>
     pr_requestId = requestId, pr_deviceId = normalizeDeviceId (in_deviceId req), pr_publicKey = in_publicKey req,
     pr_displayName = in_displayName req, pr_platform = in_platform req, pr_deviceFamily = in_deviceFamily req,
     pr_clientId = in_clientId req, pr_clientMode = in_clientMode req, pr_role = in_role req,
     pr_roles = (if js_truthy (in_role req) then singleRole (in_role req) else None),
     pr_scopes = in_scopes req, pr_remoteIp = in_remoteIp req, pr_silent = in_silent req,
     pr_isRepair = isRepair, pr_ts = now\<rparr>"

text \<open>The result is the request and whether it is new; an empty device id throws.\<close>

definition requestDevicePairing ::
  "int \<Rightarrow> string \<Rightarrow> incomingRequest \<Rightarrow> pairingState \<Rightarrow> (string + pendingRequest \<times> bool) \<times> pairingState" where
  "requestDevicePairing now newId req st0 =
     (let st = loadState now st0; deviceId = normalizeDeviceId (in_deviceId req)
      in if deviceId = [] then (Inl ''deviceId required'', st0)
         else let isRepair = (map_of (ps_pairedByDeviceId st) deviceId \<noteq> None)
           in (case List.find (\<lambda>p. pr_deviceId p = deviceId) (map snd (ps_pendingById st)) of
               Some existing \<Rightarrow>
                 (let merged = mergePendingDevicePairingRequest now existing req isRepair
                  in (Inr (merged, False),
                      st\<lparr>ps_pendingById := AList.update (pr_requestId existing) merged (ps_pendingById st)\<rparr>))
             | None \<Rightarrow>
                 (let request = newPending now newId req isRepair
                  in (Inr (request, True),
                      st\<lparr>ps_pendingById := AList.update newId request (ps_pendingById st)\<rparr>))))"

definition approvedToken ::
  "int \<Rightarrow> string \<Rightarrow> pendingRequest \<Rightarrow> pairedDevice option \<Rightarrow> string list option \<Rightarrow> string \<Rightarrow>
   (string \<times> deviceAuthToken) list \<Rightarrow> deviceAuthToken" where
  "approvedToken now newToken pending existing approvedScopes role tokens =
     (let existingToken = map_of tokens role;
          requestedScopes = normalizeDeviceAuthScopes (pr_scopes pending);
          fallback = js_coalesce (map_option dt_scopes existingToken)
            (js_coalesce approvedScopes
              (js_coalesce (Option.bind existing pv_approvedScopes) (Option.bind existing pv_scopes)))
      in \<lparr>dt_token = newToken, dt_role = role,
          dt_scopes = (if requestedScopes \<noteq> [] then requestedScopes else normalizeDeviceAuthScopes fallback),
          dt_createdAtMs = (case existingToken of None \<Rightarrow> now | Some t \<Rightarrow> dt_createdAtMs t),
          dt_rotatedAtMs = (case existingToken of None \<Rightarrow> None | Some _ \<Rightarrow> Some now),
          dt_revokedAtMs = None,
          dt_lastUsedAtMs = Option.bind existingToken dt_lastUsedAtMs\<rparr>)"

definition approvedDevice :: "int \<Rightarrow> string \<Rightarrow> pendingRequest \<Rightarrow> pairedDevice option \<Rightarrow> pairedDevice" where
  "approvedDevice now newToken pending existing =
     (let roles = mergeRoles [Option.bind existing pv_roles, singleRole (Option.bind existing pv_role),
            pr_roles pending, singleRole (pr_role pending)];
          approvedScopes = mergeScopes
            [js_coalesce (Option.bind existing pv_approvedScopes) (Option.bind existing pv_scopes), pr_scopes pending];
          tokens = (case existing of None \<Rightarrow> [] | Some d \<Rightarrow> tokensOf d);
          tokens' = (case normalizeRole (pr_role pending) of
              None \<Rightarrow> tokens
            | Some role \<Rightarrow> AList.update role (approvedToken now newToken pending existing approvedScopes role tokens) tokens)
      in \<lparr>pv_deviceId = pr_deviceId pending, pv_publicKey = pr_publicKey pending,
          pv_displayName = pr_displayName pending, pv_platform = pr_platform pending,
          pv_deviceFamily = pr_deviceFamily pending, pv_clientId = pr_clientId pending,
          pv_clientMode = pr_clientMode pending, pv_role = pr_role pending, pv_roles = roles,
          pv_scopes = approvedScopes, pv_approvedScopes = approvedScopes, pv_remoteIp = pr_remoteIp pending,
          pv_tokens = Some tokens', pv_createdAtMs = (case existing of None \<Rightarrow> now | Some d \<Rightarrow> pv_createdAtMs d),
          pv_approvedAtMs = now\<rparr>)"

definition approveDevicePairing ::
  "int \<Rightarrow> string \<Rightarrow> string \<Rightarrow> pairingState \<Rightarrow> pairedDevice option \<times> pairingState" where
  "approveDevicePairing now newToken requestId st0 =
     (let st = loadState now st0
      in case map_of (ps_pendingById st) requestId of
           None \<Rightarrow> (None, st0)
         | Some pending \<Rightarrow>
             (let device = approvedDevice now newToken pending (map_of (ps_pairedByDeviceId st) (pr_deviceId pending))
              in (Some device,
                  putPaired (pv_deviceId device) device
                    (st\<lparr>ps_pendingById := AList.delete requestId (ps_pendingById st)\<rparr>))))"

definition rejectDevicePairing :: "int \<Rightarrow> string \<Rightarrow> pairingState \<Rightarrow> string option \<times> pairingState" where
  "rejectDevicePairing now requestId st0 =
     (let st = loadState now st0
      in case map_of (ps_pendingById st) requestId of
           None \<Rightarrow> (None, st0)
         | Some pending \<Rightarrow> (Some (pr_deviceId pending), st\<lparr>ps_pendingById := AList.delete requestId (ps_pendingById st)\<rparr>))"

definition removePairedDevice :: "int \<Rightarrow> string \<Rightarrow> pairingState \<Rightarrow> string option \<times> pairingState" where
  "removePairedDevice now deviceId st0 =
     (let st = loadState now st0; normalized = normalizeDeviceId deviceId
      in if normalized = [] \<or> map_of (ps_pairedByDeviceId st) normalized = None then (None, st0)
         else (Some normalized, st\<lparr>ps_pairedByDeviceId := AList.delete normalized (ps_pairedByDeviceId st)\<rparr>))"

definition clearDevicePairing :: "int \<Rightarrow> string \<Rightarrow> pairingState \<Rightarrow> bool \<times> pairingState" where
  "clearDevicePairing now deviceId st0 =
     (let st = loadState now st0; normalizedId = normalizeDeviceId deviceId
      in if map_of (ps_pairedByDeviceId st) normalizedId = None then (False, st0)
         else (True, st\<lparr>ps_pairedByDeviceId := AList.delete normalizedId (ps_pairedByDeviceId st)\<rparr>))"

text \<open>A key that is present in a patch overrides, also with \<open>undefined\<close>.\<close>

record metadataPatch =
  mp_publicKey :: "string option"
  mp_displayName :: "string option option"
  mp_platform :: "string option option"
  mp_deviceFamily :: "string option option"
  mp_clientId :: "string option option"
  mp_clientMode :: "string option option"
  mp_remoteIp :: "string option option"
  mp_tokens :: "(string \<times> deviceAuthToken) list option option"
  mp_role :: "string option"
  mp_scopes :: "string list option"

definition patchedDevice :: "metadataPatch \<Rightarrow> pairedDevice \<Rightarrow> pairedDevice" where
  "patchedDevice patch existing = existing\<lparr>
     pv_publicKey := js_default (mp_publicKey patch) (pv_publicKey existing),
     pv_displayName := js_default (mp_displayName patch) (pv_displayName existing),
     pv_platform := js_default (mp_platform patch) (pv_platform existing),
     pv_deviceFamily := js_default (mp_deviceFamily patch) (pv_deviceFamily existing),
     pv_clientId := js_default (mp_clientId patch) (pv_clientId existing),
     pv_clientMode := js_default (mp_clientMode patch) (pv_clientMode existing),
     pv_remoteIp := js_default (mp_remoteIp patch) (pv_remoteIp existing),
     pv_tokens := js_default (mp_tokens patch) (pv_tokens existing),
     pv_role := js_coalesce (mp_role patch) (pv_role existing),
     pv_roles := mergeRoles [pv_roles existing, singleRole (pv_role existing), singleRole (mp_role patch)],
     pv_scopes := mergeScopes [pv_scopes existing, mp_scopes patch]\<rparr>"

definition updatePairedDeviceMetadata :: "int \<Rightarrow> string \<Rightarrow> metadataPatch \<Rightarrow> pairingState \<Rightarrow> pairingState" where
  "updatePairedDeviceMetadata now deviceId patch st0 =
     (let st = loadState now st0
      in case getPairedDeviceFromState st deviceId of
           None \<Rightarrow> st0
         | Some existing \<Rightarrow> putPaired deviceId (patchedDevice patch existing) st)"

section \<open>Tokens\<close>

definition resolveApprovedDeviceScopeBaseline :: "pairedDevice \<Rightarrow> string list option" where
  "resolveApprovedDeviceScopeBaseline device =
     (case js_coalesce (pv_approvedScopes device) (pv_scopes device) of
        None \<Rightarrow> None
      | Some baseline \<Rightarrow> Some (normalizeDeviceAuthScopes (Some baseline)))"

definition scopesWithinApprovedDeviceBaseline :: "string \<Rightarrow> string list \<Rightarrow> string list option \<Rightarrow> bool" where
  "scopesWithinApprovedDeviceBaseline role scopes approved \<longleftrightarrow>
     (case approved of None \<Rightarrow> False | Some allowed \<Rightarrow> roleScopesAllow role scopes allowed)"

definition revoked :: "deviceAuthToken \<Rightarrow> bool" where
  "revoked t \<longleftrightarrow> (case dt_revokedAtMs t of None \<Rightarrow> False | Some at \<Rightarrow> at \<noteq> 0)"

text \<open>The reason of a refusal, or the acceptance.\<close>

definition tokenRefusal ::
  "(string \<Rightarrow> 'h) \<Rightarrow> pairingState \<Rightarrow> string \<Rightarrow> string \<Rightarrow> string \<Rightarrow> string list \<Rightarrow>
   string + pairedDevice \<times> string \<times> deviceAuthToken" where
  "tokenRefusal sha st deviceId token rawRole scopes =
     (case getPairedDeviceFromState st deviceId of
        None \<Rightarrow> Inl ''device-not-paired''
      | Some device \<Rightarrow> (case normalizeRole (Some rawRole) of
            None \<Rightarrow> Inl ''role-missing''
          | Some role \<Rightarrow> (case map_of (tokensOf device) role of
                None \<Rightarrow> Inl ''token-missing''
              | Some entry \<Rightarrow>
                  if revoked entry then Inl ''token-revoked''
                  else if \<not> verifyPairingToken sha token (dt_token entry) then Inl ''token-mismatch''
                  else if \<not> scopesWithinApprovedDeviceBaseline role (dt_scopes entry) (resolveApprovedDeviceScopeBaseline device)
                  then Inl ''scope-mismatch''
                  else if \<not> roleScopesAllow role (normalizeDeviceAuthScopes (Some scopes)) (dt_scopes entry)
                  then Inl ''scope-mismatch''
                  else Inr (device, role, entry))))"

definition verifyDeviceToken ::
  "(string \<Rightarrow> 'h) \<Rightarrow> int \<Rightarrow> string \<Rightarrow> string \<Rightarrow> string \<Rightarrow> string list \<Rightarrow> pairingState \<Rightarrow> (string + unit) \<times> pairingState" where
  "verifyDeviceToken sha now deviceId token role scopes st0 =
     (let st = loadState now st0
      in case tokenRefusal sha st deviceId token role scopes of
           Inl reason \<Rightarrow> (Inl reason, st0)
         | Inr (device, role, entry) \<Rightarrow>
             (Inr (),
              putPaired (pv_deviceId device)
                (device\<lparr>pv_tokens := Some (AList.update role (entry\<lparr>dt_lastUsedAtMs := Some now\<rparr>) (tokensOf device))\<rparr>) st))"

definition buildDeviceAuthToken ::
  "int \<Rightarrow> string \<Rightarrow> string \<Rightarrow> string list \<Rightarrow> deviceAuthToken option \<Rightarrow> int option \<Rightarrow> deviceAuthToken" where
  "buildDeviceAuthToken now newToken role scopes existing rotatedAtMs =
     \<lparr>dt_token = newToken, dt_role = role, dt_scopes = scopes,
      dt_createdAtMs = (case existing of None \<Rightarrow> now | Some t \<Rightarrow> dt_createdAtMs t),
      dt_rotatedAtMs = rotatedAtMs, dt_revokedAtMs = None, dt_lastUsedAtMs = Option.bind existing dt_lastUsedAtMs\<rparr>"

text \<open>The device, its trimmed role and the token it has for the role.\<close>

definition resolveDeviceTokenUpdateContext ::
  "pairingState \<Rightarrow> string \<Rightarrow> string \<Rightarrow> (pairedDevice \<times> string \<times> deviceAuthToken option) option" where
  "resolveDeviceTokenUpdateContext st deviceId rawRole =
     (case getPairedDeviceFromState st deviceId of
        None \<Rightarrow> None
      | Some device \<Rightarrow> (case normalizeRole (Some rawRole) of
            None \<Rightarrow> None
          | Some role \<Rightarrow> Some (device, role, map_of (tokensOf device) role)))"

definition putToken :: "pairedDevice \<Rightarrow> string \<Rightarrow> deviceAuthToken \<Rightarrow> pairingState \<Rightarrow> pairingState" where
  "putToken device role token st =
     putPaired (pv_deviceId device) (device\<lparr>pv_tokens := Some (AList.update role token (tokensOf device))\<rparr>) st"

definition keepsToken :: "string \<Rightarrow> string list \<Rightarrow> pairedDevice \<Rightarrow> deviceAuthToken \<Rightarrow> bool" where
  "keepsToken role requestedScopes device t \<longleftrightarrow> \<not> revoked t \<and>
     scopesWithinApprovedDeviceBaseline role (dt_scopes t) (resolveApprovedDeviceScopeBaseline device) \<and>
     roleScopesAllow role requestedScopes (dt_scopes t)"

definition ensureDeviceToken ::
  "int \<Rightarrow> string \<Rightarrow> string \<Rightarrow> string \<Rightarrow> string list \<Rightarrow> pairingState \<Rightarrow> deviceAuthToken option \<times> pairingState" where
  "ensureDeviceToken now newToken deviceId rawRole scopes st0 =
     (let st = loadState now st0; requestedScopes = normalizeDeviceAuthScopes (Some scopes)
      in case resolveDeviceTokenUpdateContext st deviceId rawRole of
           None \<Rightarrow> (None, st0)
         | Some (device, role, existing) \<Rightarrow>
             if \<not> scopesWithinApprovedDeviceBaseline role requestedScopes (resolveApprovedDeviceScopeBaseline device)
             then (None, st0)
             else if (case existing of None \<Rightarrow> False | Some t \<Rightarrow> keepsToken role requestedScopes device t)
             then (existing, st0)
             else (let next = buildDeviceAuthToken now newToken role requestedScopes existing
                         (if existing = None then None else Some now)
                   in (Some next, putToken device role next st)))"

definition rotateDeviceToken ::
  "int \<Rightarrow> string \<Rightarrow> string \<Rightarrow> string \<Rightarrow> string list option \<Rightarrow> pairingState \<Rightarrow> deviceAuthToken option \<times> pairingState" where
  "rotateDeviceToken now newToken deviceId rawRole scopes st0 =
     (let st = loadState now st0
      in case resolveDeviceTokenUpdateContext st deviceId rawRole of
           None \<Rightarrow> (None, st0)
         | Some (device, role, existing) \<Rightarrow>
             (let requestedScopes = normalizeDeviceAuthScopes
                    (js_coalesce scopes (js_coalesce (map_option dt_scopes existing) (pv_scopes device)))
              in if \<not> scopesWithinApprovedDeviceBaseline role requestedScopes (resolveApprovedDeviceScopeBaseline device)
                 then (None, st0)
                 else (let next = buildDeviceAuthToken now newToken role requestedScopes existing (Some now)
                       in (Some next, putToken device role next st))))"

definition revokeDeviceToken :: "int \<Rightarrow> string \<Rightarrow> string \<Rightarrow> pairingState \<Rightarrow> deviceAuthToken option \<times> pairingState" where
  "revokeDeviceToken now deviceId rawRole st0 =
     (let st = loadState now st0
      in case resolveDeviceTokenUpdateContext st deviceId rawRole of
           None \<Rightarrow> (None, st0)
         | Some (device, role, existing) \<Rightarrow> (case existing of
               None \<Rightarrow> (None, st0)
             | Some t \<Rightarrow> (let entry = t\<lparr>dt_revokedAtMs := Some now\<rparr> in (Some entry, putToken device role entry st))))"

section \<open>What scopes allow\<close>

definition names :: "string list \<Rightarrow> string set" where
  "names scopes = {js_trim s | s. s \<in> set scopes \<and> js_trim s \<noteq> []}"

definition scopeSatisfied :: "string \<Rightarrow> string \<Rightarrow> string set \<Rightarrow> bool" where
  "scopeSatisfied role s A \<longleftrightarrow> s \<in> A \<or>
     (js_trim role = OPERATOR_ROLE \<and>
       ((OPERATOR_ADMIN_SCOPE \<in> A \<and> prefix OPERATOR_SCOPE_PREFIX s) \<or>
        (s = OPERATOR_READ_SCOPE \<and> OPERATOR_WRITE_SCOPE \<in> A)))"

lemma set_normalizeScopeList [simp]: "set (normalizeScopeList scopes) = names scopes"
  by (auto simp: normalizeScopeList_def names_def)

lemma normalizeScopeList_Nil: "normalizeScopeList scopes = [] \<longleftrightarrow> names scopes = {}"
  by (metis set_normalizeScopeList set_empty)

lemma names_append [simp]: "names (a @ b) = names a \<union> names b"
  by (auto simp: names_def)

lemma names_Nil [simp]: "names [] = {}"
  by (simp add: names_def)

lemma names_trimmed: "(\<And>s. s \<in> set scopes \<Longrightarrow> js_trim s = s \<and> s \<noteq> []) \<Longrightarrow> names scopes = set scopes"
  by (force simp: names_def)

lemma names_names: "set scopes = names scopes' \<Longrightarrow> names scopes = names scopes'"
  by (rule trans [OF names_trimmed]) (auto simp: names_def)

lemma names_normalizeScopeList [simp]: "names (normalizeScopeList scopes) = names scopes"
  by (rule names_names) simp

lemma names_normalizeDeviceAuthScopes [simp]: "names (normalizeDeviceAuthScopes scopes) = names (js_default scopes [])"
  by (rule names_names) (simp add: normalizeDeviceAuthScopes_def)

lemma normalizeDeviceAuthScopes_Nil: "normalizeDeviceAuthScopes scopes = [] \<longleftrightarrow> names (js_default scopes []) = {}"
  using normalizeScopeList_Nil [of "js_default scopes []"]
  by (simp add: normalizeDeviceAuthScopes_def) (metis set_empty set_normalizeScopeList set_sort)

lemma names_mergeScopes: "names (js_default (mergeScopes items) []) = \<Union> (names ` (\<lambda>i. js_default i []) ` set items)"
proof -
  have "names (concat (map f items)) = \<Union> (names ` f ` set items)" for f :: "string list option \<Rightarrow> string list"
    by (induction items) simp_all
  moreover have "names (js_default (mergeScopes items) []) = names (concat (map (\<lambda>i. js_default i []) items))"
    by (simp add: mergeScopes_def Let_def js_default_def normalizeScopeList_Nil)
  ultimately show ?thesis by simp
qed

lemma names_merge2 [simp]:
  "names (js_default (mergeScopes [a, b]) []) = names (js_default a []) \<union> names (js_default b [])"
  by (simp add: names_mergeScopes)

lemma option_ops [simp]:
  "js_default None d = d" "js_default (Some x) d = x"
  "js_coalesce None b = b" "js_coalesce (Some x) b = Some x"
  by (simp_all add: js_default_def js_coalesce_def)

lemma mergeScopes_None: "mergeScopes items = None \<longleftrightarrow> names (js_default (mergeScopes items) []) = {}"
  by (simp add: mergeScopes_def Let_def js_default_def normalizeScopeList_Nil)

lemma operatorScopeSatisfied_iff:
  "js_trim role = OPERATOR_ROLE \<Longrightarrow> operatorScopeSatisfied s scopes \<longleftrightarrow> scopeSatisfied role s (set scopes)"
  by (auto simp: operatorScopeSatisfied_def scopeSatisfied_def)

lemma roleScopesAllow_iff:
  "roleScopesAllow role requested allowed \<longleftrightarrow> (\<forall>s \<in> names requested. scopeSatisfied role s (names allowed))"
proof (cases "js_trim role = OPERATOR_ROLE")
  case True
  then show ?thesis
    by (auto simp: roleScopesAllow_def Let_def normalizeScopeList_Nil list_all_iff operatorScopeSatisfied_iff [OF True])
      (auto simp: scopeSatisfied_def)
next
  case False
  then show ?thesis
    by (auto simp: roleScopesAllow_def Let_def normalizeScopeList_Nil list_all_iff scopeSatisfied_def)
qed

lemma scopeSatisfied_mono: "scopeSatisfied role s A \<Longrightarrow> A \<subseteq> B \<Longrightarrow> scopeSatisfied role s B"
  by (auto simp: scopeSatisfied_def)

lemma scopeSatisfied_trans:
  assumes "scopeSatisfied role s E" "\<And>e. e \<in> E \<Longrightarrow> scopeSatisfied role e B"
  shows "scopeSatisfied role s B"
proof -
  have admin: "OPERATOR_ADMIN_SCOPE \<in> B" if "OPERATOR_ADMIN_SCOPE \<in> E"
    using assms(2) [OF that]
    by (auto simp: scopeSatisfied_def OPERATOR_ADMIN_SCOPE_def OPERATOR_READ_SCOPE_def)
  have "scopeSatisfied role OPERATOR_READ_SCOPE B" if "OPERATOR_WRITE_SCOPE \<in> E" "js_trim role = OPERATOR_ROLE"
    using assms(2) [OF that(1)] that(2)
    by (auto simp: scopeSatisfied_def OPERATOR_READ_SCOPE_def OPERATOR_WRITE_SCOPE_def OPERATOR_SCOPE_PREFIX_def)
  then show ?thesis using assms admin by (auto simp: scopeSatisfied_def)
qed

text \<open>The operator's order of scopes is the most generous.\<close>

lemma scopeSatisfied_operator: "scopeSatisfied role s A \<Longrightarrow> scopeSatisfied OPERATOR_ROLE s A"
proof -
  have "js_trim OPERATOR_ROLE = OPERATOR_ROLE" unfolding OPERATOR_ROLE_def by code_simp
  then show "scopeSatisfied role s A \<Longrightarrow> scopeSatisfied OPERATOR_ROLE s A" by (auto simp: scopeSatisfied_def)
qed

lemma baseline_names:
  "names (js_default (resolveApprovedDeviceScopeBaseline d) []) = names (js_default (js_coalesce (pv_approvedScopes d) (pv_scopes d)) [])"
proof (cases "js_coalesce (pv_approvedScopes d) (pv_scopes d)")
  case (Some b)
  have "names (normalizeDeviceAuthScopes (Some b)) = names b" by (simp add: js_default_def)
  then show ?thesis by (simp add: resolveApprovedDeviceScopeBaseline_def Some js_default_def)
qed (simp add: resolveApprovedDeviceScopeBaseline_def js_default_def)

section \<open>Runs of the store\<close>

text \<open>What the devices were approved for: an approval adds the scopes of its request, a removal drops
  those of the device.\<close>

definition approvedBy :: "int \<Rightarrow> string \<Rightarrow> pairingState \<Rightarrow> (string \<times> string) set" where
  "approvedBy now requestId st =
     (case map_of (ps_pendingById (loadState now st)) requestId of
        None \<Rightarrow> {}
      | Some pending \<Rightarrow> {pr_deviceId pending} \<times> names (js_default (pr_scopes pending) []))"

definition pairedScopes :: "pairedDevice \<Rightarrow> string list" where
  "pairedScopes d = js_default (js_coalesce (pv_scopes d) (pv_approvedScopes d)) []"

text \<open>The handshake updates a device only after checking the scopes it asks for against the paired
  ones, and never patches tokens.\<close>

definition connectPatch :: "pairingState \<Rightarrow> string \<Rightarrow> metadataPatch \<Rightarrow> bool" where
  "connectPatch st deviceId patch \<longleftrightarrow> mp_tokens patch = None \<and>
     (case getPairedDeviceFromState st deviceId of
        None \<Rightarrow> True
      | Some d \<Rightarrow> \<exists>role. roleScopesAllow role (js_default (mp_scopes patch) []) (pairedScopes d))"

definition emptyPairing :: pairingState where
  "emptyPairing = \<lparr>ps_pendingById = [], ps_pairedByDeviceId = []\<rparr>"

inductive pairingRun :: "(string \<Rightarrow> 'h) \<Rightarrow> pairingState \<Rightarrow> (string \<times> string) set \<Rightarrow> bool" for sha where
  Start: "pairingRun sha emptyPairing {}"
| Request: "pairingRun sha st A \<Longrightarrow> pairingRun sha (snd (requestDevicePairing now newId req st)) A"
| Approve: "pairingRun sha st A \<Longrightarrow>
    pairingRun sha (snd (approveDevicePairing now newToken requestId st)) (A \<union> approvedBy now requestId st)"
| Reject: "pairingRun sha st A \<Longrightarrow> pairingRun sha (snd (rejectDevicePairing now requestId st)) A"
| Remove: "pairingRun sha st A \<Longrightarrow> removePairedDevice now dev st = (Some removed, st') \<Longrightarrow>
    pairingRun sha st' (A - {removed} \<times> UNIV)"
| Clear: "pairingRun sha st A \<Longrightarrow> clearDevicePairing now dev st = (True, st') \<Longrightarrow>
    pairingRun sha st' (A - {normalizeDeviceId dev} \<times> UNIV)"
| Update: "pairingRun sha st A \<Longrightarrow> connectPatch st dev patch \<Longrightarrow>
    pairingRun sha (updatePairedDeviceMetadata now dev patch st) A"
| Verify: "pairingRun sha st A \<Longrightarrow> pairingRun sha (snd (verifyDeviceToken sha now dev token role scopes st)) A"
| Ensure: "pairingRun sha st A \<Longrightarrow> pairingRun sha (snd (ensureDeviceToken now newToken dev role scopes st)) A"
| Rotate: "pairingRun sha st A \<Longrightarrow> pairingRun sha (snd (rotateDeviceToken now newToken dev role oscopes st)) A"
| Revoke: "pairingRun sha st A \<Longrightarrow> pairingRun sha (snd (revokeDeviceToken now dev role st)) A"

section \<open>The invariant\<close>

definition approvedNames :: "pairedDevice \<Rightarrow> string set" where
  "approvedNames d = names (js_default (js_coalesce (pv_approvedScopes d) (pv_scopes d)) [])"

definition tokensWithin :: "pairedDevice \<Rightarrow> bool" where
  "tokensWithin d \<longleftrightarrow> (\<forall>role t. map_of (tokensOf d) role = Some t \<longrightarrow>
     (\<forall>s \<in> names (dt_scopes t). scopeSatisfied role s (approvedNames d)))"

definition deviceOk :: "(string \<times> string) set \<Rightarrow> string \<Rightarrow> pairedDevice \<Rightarrow> bool" where
  "deviceOk A key d \<longleftrightarrow> pv_deviceId d = key \<and> approvedNames d \<subseteq> {s. (key, s) \<in> A} \<and>
     (pv_approvedScopes d = None \<longrightarrow> pv_scopes d = None) \<and> tokensWithin d \<and>
     (\<forall>s \<in> names (js_default (pv_scopes d) []). scopeSatisfied OPERATOR_ROLE s {s. (key, s) \<in> A})"

definition stateOk :: "(string \<times> string) set \<Rightarrow> pairingState \<Rightarrow> bool" where
  "stateOk A st \<longleftrightarrow>
     (\<forall>key d. map_of (ps_pairedByDeviceId st) key = Some d \<longrightarrow> js_trim key = key \<longrightarrow> deviceOk A key d) \<and>
     (\<forall>p \<in> snd ` set (ps_pendingById st). js_trim (pr_deviceId p) = pr_deviceId p)"

lemma loadState_paired [simp]: "ps_pairedByDeviceId (loadState now st) = ps_pairedByDeviceId st"
  by (simp add: loadState_def)

lemma loadState_pending: "set (ps_pendingById (loadState now st)) \<subseteq> set (ps_pendingById st)"
  by (auto simp: loadState_def pruneExpiredPending_def)

lemma stateOk_load: "stateOk A st \<Longrightarrow> stateOk A (loadState now st)"
  using loadState_pending [of now st] by (auto simp: stateOk_def image_subset_iff)

lemma putPaired_simps [simp]:
  "map_of (ps_pairedByDeviceId (putPaired key d st)) key' = (if key' = key then Some d else map_of (ps_pairedByDeviceId st) key')"
  "ps_pendingById (putPaired key d st) = ps_pendingById st"
  by (simp_all add: putPaired_def map_of_update_iff)

lemma stateOk_put: "stateOk A st \<Longrightarrow> (js_trim key = key \<Longrightarrow> deviceOk A key d) \<Longrightarrow> stateOk A (putPaired key d st)"
  by (auto simp: stateOk_def)

lemma deviceOk_mono: "deviceOk A key d \<Longrightarrow> A \<subseteq> B \<Longrightarrow> deviceOk B key d"
  by (auto simp: deviceOk_def intro: scopeSatisfied_mono)

lemma stateOk_mono: "stateOk A st \<Longrightarrow> A \<subseteq> B \<Longrightarrow> stateOk B st"
  by (auto simp: stateOk_def intro: deviceOk_mono)

lemma deviceOk_other: "key' \<noteq> key \<Longrightarrow> deviceOk (A - {key} \<times> UNIV) key' d \<longleftrightarrow> deviceOk A key' d"
  by (simp add: deviceOk_def)

lemma stateOk_delete:
  assumes "stateOk A st"
  shows "stateOk (A - {key} \<times> UNIV) (st\<lparr>ps_pairedByDeviceId := AList.delete key (ps_pairedByDeviceId st)\<rparr>)"
  using assms by (auto simp: stateOk_def delete_conv' deviceOk_other split: if_splits)

lemma stateOk_pending:
  assumes "stateOk A st" "snd ` set pending \<subseteq> insert p (snd ` set (ps_pendingById st))"
    "js_trim (pr_deviceId p) = pr_deviceId p"
  shows "stateOk A (st\<lparr>ps_pendingById := pending\<rparr>)"
proof -
  have "\<forall>q \<in> snd ` set pending. js_trim (pr_deviceId q) = pr_deviceId q"
    using assms unfolding stateOk_def by blast
  then show ?thesis using assms(1) by (simp add: stateOk_def)
qed

lemma lookup_ok: "stateOk A st \<Longrightarrow> getPairedDeviceFromState st dev = Some d \<Longrightarrow> deviceOk A (normalizeDeviceId dev) d"
  by (auto simp: stateOk_def getPairedDeviceFromState_def normalizeDeviceId_def)

lemma find_pending: "List.find P (map snd m) = Some p \<Longrightarrow> p \<in> snd ` set m \<and> P p"
  by (auto simp: find_Some_iff)

lemma stateOk_request:
  assumes "stateOk A st0"
  shows "stateOk A (snd (requestDevicePairing now newId req st0))"
proof -
  let ?st = "loadState now st0"
  note ok = stateOk_load [OF assms, of now]
  show ?thesis
  proof (cases "List.find (\<lambda>p. pr_deviceId p = normalizeDeviceId (in_deviceId req)) (map snd (ps_pendingById ?st))")
    case None
    let ?new = "newPending now newId req (map_of (ps_pairedByDeviceId ?st) (normalizeDeviceId (in_deviceId req)) \<noteq> None)"
    have "stateOk A (?st\<lparr>ps_pendingById := AList.update newId ?new (ps_pendingById ?st)\<rparr>)"
      by (rule stateOk_pending [OF ok, where p = ?new])
        (use set_update_subset [of newId ?new "ps_pendingById ?st"] in
          \<open>auto simp: newPending_def normalizeDeviceId_def image_subset_iff\<close>)
    then show ?thesis using assms None by (simp add: requestDevicePairing_def Let_def)
  next
    case (Some p)
    let ?m = "mergePendingDevicePairingRequest now p req (map_of (ps_pairedByDeviceId ?st) (normalizeDeviceId (in_deviceId req)) \<noteq> None)"
    have "js_trim (pr_deviceId ?m) = pr_deviceId ?m"
      using find_pending [OF Some] by (simp add: mergePendingDevicePairingRequest_def normalizeDeviceId_def)
    then have "stateOk A (?st\<lparr>ps_pendingById := AList.update (pr_requestId p) ?m (ps_pendingById ?st)\<rparr>)"
      by (intro stateOk_pending [OF ok, where p = ?m])
        (use set_update_subset [of "pr_requestId p" ?m "ps_pendingById ?st"] in \<open>auto simp: image_subset_iff\<close>)
    then show ?thesis using assms Some by (simp add: requestDevicePairing_def Let_def)
  qed
qed

lemma approvedNames_baseline: "names (js_default (resolveApprovedDeviceScopeBaseline d) []) = approvedNames d"
  by (simp add: baseline_names approvedNames_def)

lemma within_baseline:
  "scopesWithinApprovedDeviceBaseline role scopes (resolveApprovedDeviceScopeBaseline d) \<Longrightarrow>
   \<forall>s \<in> names scopes. scopeSatisfied role s (approvedNames d)"
  using approvedNames_baseline [of d]
  by (auto simp: scopesWithinApprovedDeviceBaseline_def roleScopesAllow_iff js_default_def split: option.splits)

lemma tokensWithin_update:
  assumes "tokensWithin d" "\<forall>s \<in> names (dt_scopes t). scopeSatisfied role s (approvedNames d)"
  shows "tokensWithin (d\<lparr>pv_tokens := Some (AList.update role t (tokensOf d))\<rparr>)"
  using assms by (auto simp: tokensWithin_def tokensOf_def js_default_def approvedNames_def map_of_update_iff)

lemma deviceOk_update:
  assumes "deviceOk A key d" "\<forall>s \<in> names (dt_scopes t). scopeSatisfied role s (approvedNames d)"
  shows "deviceOk A key (d\<lparr>pv_tokens := Some (AList.update role t (tokensOf d))\<rparr>)"
  using assms tokensWithin_update [of d t role]
  by (auto simp: deviceOk_def approvedNames_def)

lemma deviceOk_token:
  assumes "deviceOk A key d" "map_of (tokensOf d) role = Some t"
  shows "\<forall>s \<in> names (dt_scopes t). scopeSatisfied role s (approvedNames d)"
  using assms by (auto simp: deviceOk_def tokensWithin_def)

text \<open>A freshly approved device.\<close>

definition priorNames :: "pairedDevice option \<Rightarrow> string set" where
  "priorNames existing = (case existing of None \<Rightarrow> {} | Some d \<Rightarrow> approvedNames d)"

lemma approvedDevice_names:
  "approvedNames (approvedDevice now tok pending existing) = priorNames existing \<union> names (js_default (pr_scopes pending) [])"
proof -
  have "js_coalesce m m = m" for m :: "string list option" by (cases m) simp_all
  then show ?thesis
    by (cases existing) (simp_all add: approvedDevice_def Let_def approvedNames_def priorNames_def)
qed

lemma approvedToken_within:
  assumes existing: "\<And>d. existing = Some d \<Longrightarrow> tokensWithin d"
    and merged: "names (js_default merged []) = priorNames existing \<union> names (js_default (pr_scopes pending) [])"
    and t: "s \<in> names (dt_scopes (approvedToken now tok pending existing merged role (case existing of None \<Rightarrow> [] | Some d \<Rightarrow> tokensOf d)))"
  shows "scopeSatisfied role s (priorNames existing \<union> names (js_default (pr_scopes pending) []))"
proof (cases "normalizeDeviceAuthScopes (pr_scopes pending) = []")
  case False
  with t have "s \<in> names (js_default (pr_scopes pending) [])" by (simp add: approvedToken_def Let_def)
  then show ?thesis by (simp add: scopeSatisfied_def)
next
  case True
  let ?tokens = "case existing of None \<Rightarrow> [] | Some d \<Rightarrow> tokensOf d"
  show ?thesis
  proof (cases "map_of ?tokens role")
    case (Some old)
    then obtain d where d: "existing = Some d" "map_of (tokensOf d) role = Some old" by (cases existing) simp_all
    from t True Some have "s \<in> names (dt_scopes old)"
      by (simp add: approvedToken_def Let_def js_coalesce_def js_default_def)
    with existing [OF d(1)] d(2) have "scopeSatisfied role s (approvedNames d)" by (auto simp: tokensWithin_def)
    then show ?thesis by (rule scopeSatisfied_mono) (simp add: d priorNames_def)
  next
    case None
    have "s \<in> names (js_default merged []) \<or> s \<in> priorNames existing"
    proof (cases merged)
      case (Some m)
      with t True None show ?thesis by (simp add: approvedToken_def Let_def js_coalesce_def js_default_def)
    next
      case m: None
      with t True None show ?thesis
        by (cases existing) (simp_all add: approvedToken_def Let_def js_coalesce_def js_default_def priorNames_def approvedNames_def)
    qed
    with merged show ?thesis by (auto simp: scopeSatisfied_def)
  qed
qed

lemma approvedDevice_ok:
  assumes "\<And>d. existing = Some d \<Longrightarrow> deviceOk A (pr_deviceId pending) d"
  shows "deviceOk (A \<union> {pr_deviceId pending} \<times> names (js_default (pr_scopes pending) [])) (pr_deviceId pending)
    (approvedDevice now tok pending existing)"
proof -
  let ?d = "approvedDevice now tok pending existing"
  let ?prior = "js_coalesce (Option.bind existing pv_approvedScopes) (Option.bind existing pv_scopes)"
  let ?merged = "mergeScopes [?prior, pr_scopes pending]"
  let ?tokens = "case existing of None \<Rightarrow> [] | Some d \<Rightarrow> tokensOf d"
  have within: "tokensWithin d" if "existing = Some d" for d using assms [OF that] by (simp add: deviceOk_def)
  have merged: "names (js_default ?merged []) = priorNames existing \<union> names (js_default (pr_scopes pending) [])"
    by (cases existing) (simp_all add: priorNames_def approvedNames_def)
  have old: "scopeSatisfied role s (priorNames existing)"
    if "map_of ?tokens role = Some t" "s \<in> names (dt_scopes t)" for role t s
    using that within by (cases existing) (auto simp: tokensWithin_def priorNames_def)
  have toks: "tokensOf ?d = (case normalizeRole (pr_role pending) of None \<Rightarrow> ?tokens
      | Some role \<Rightarrow> AList.update role (approvedToken now tok pending existing ?merged role ?tokens) ?tokens)"
    by (simp add: approvedDevice_def Let_def tokensOf_def js_default_def)
  have "tokensWithin ?d"
    unfolding tokensWithin_def approvedDevice_names
  proof (intro allI impI ballI)
    fix role t s
    assume t: "map_of (tokensOf ?d) role = Some t" and s: "s \<in> names (dt_scopes t)"
    show "scopeSatisfied role s (priorNames existing \<union> names (js_default (pr_scopes pending) []))"
    proof (cases "map_of ?tokens role = Some t")
      case True
      show ?thesis by (rule scopeSatisfied_mono [OF old [OF True s]]) simp
    next
      case False
      with t have "t = approvedToken now tok pending existing ?merged role ?tokens"
        by (auto simp: toks map_of_update_iff split: option.splits if_splits)
      then show ?thesis using approvedToken_within [OF within merged] s by simp
    qed
  qed
  moreover have "approvedNames ?d \<subseteq> {s. (pr_deviceId pending, s) \<in> A \<union> {pr_deviceId pending} \<times> names (js_default (pr_scopes pending) [])}"
    using assms by (cases existing) (auto simp: approvedDevice_names priorNames_def deviceOk_def)
  moreover have "pv_deviceId ?d = pr_deviceId pending" "pv_approvedScopes ?d = pv_scopes ?d"
    by (simp_all add: approvedDevice_def Let_def)
  moreover have "names (js_default (pv_scopes ?d) []) = approvedNames ?d"
    by (cases "pv_scopes ?d") (simp_all add: approvedNames_def \<open>pv_approvedScopes ?d = pv_scopes ?d\<close>)
  ultimately show ?thesis by (auto simp: deviceOk_def scopeSatisfied_def)
qed

lemma stateOk_approve:
  assumes ok: "stateOk A st0"
  shows "stateOk (A \<union> approvedBy now requestId st0) (snd (approveDevicePairing now tok requestId st0))"
proof (cases "map_of (ps_pendingById (loadState now st0)) requestId")
  case None
  then show ?thesis using ok by (simp add: approveDevicePairing_def approvedBy_def)
next
  case (Some pending)
  let ?A = "A \<union> {pr_deviceId pending} \<times> names (js_default (pr_scopes pending) [])"
  let ?st = "(loadState now st0)\<lparr>ps_pendingById := AList.delete requestId (ps_pendingById (loadState now st0))\<rparr>"
  have okL: "stateOk A (loadState now st0)" by (rule stateOk_load [OF ok])
  have p: "js_trim (pr_deviceId pending) = pr_deviceId pending"
    using okL map_of_SomeD [OF Some] by (force simp: stateOk_def)
  have "stateOk A ?st"
    by (rule stateOk_pending [OF okL _ p]) (auto simp: AList.delete_eq)
  then have st: "stateOk ?A ?st" by (rule stateOk_mono) simp
  let ?d = "approvedDevice now tok pending (map_of (ps_pairedByDeviceId st0) (pr_deviceId pending))"
  have "deviceOk ?A (pr_deviceId pending) ?d"
    by (rule approvedDevice_ok) (use ok p in \<open>auto simp: stateOk_def\<close>)
  then have "stateOk ?A (putPaired (pr_deviceId pending) ?d ?st)" using st by (simp add: stateOk_put)
  then show ?thesis by (simp add: approveDevicePairing_def approvedBy_def Some Let_def approvedDevice_def)
qed

lemma stateOk_reject: "stateOk A st0 \<Longrightarrow> stateOk A (snd (rejectDevicePairing now requestId st0))"
proof -
  assume ok: "stateOk A st0"
  note okL = stateOk_load [OF ok, of now]
  have "stateOk A ((loadState now st0)\<lparr>ps_pendingById := AList.delete requestId (ps_pendingById (loadState now st0))\<rparr>)"
    if "map_of (ps_pendingById (loadState now st0)) requestId = Some p" for p
    by (rule stateOk_pending [OF okL, where p = p])
      (use okL map_of_SomeD [OF that] in \<open>auto simp: AList.delete_eq stateOk_def\<close>)
  then show ?thesis using ok by (auto simp: rejectDevicePairing_def Let_def split: option.splits)
qed

lemma stateOk_delete_loaded:
  assumes "stateOk A st0"
  shows "stateOk (A - {key} \<times> UNIV)
    ((loadState now st0)\<lparr>ps_pairedByDeviceId := AList.delete key (ps_pairedByDeviceId st0)\<rparr>)"
  using stateOk_delete [OF stateOk_load [OF assms, of now], of key] by simp

lemma stateOk_remove: "stateOk A st0 \<Longrightarrow> removePairedDevice now dev st0 = (Some removed, st') \<Longrightarrow> stateOk (A - {removed} \<times> UNIV) st'"
  using stateOk_delete_loaded by (auto simp: removePairedDevice_def Let_def split: if_splits)

lemma stateOk_clear:
  "stateOk A st0 \<Longrightarrow> clearDevicePairing now dev st0 = (True, st') \<Longrightarrow> stateOk (A - {normalizeDeviceId dev} \<times> UNIV) st'"
  using stateOk_delete_loaded by (auto simp: clearDevicePairing_def Let_def split: if_splits)

lemma paired_covered:
  assumes "deviceOk A key d" "s \<in> names (pairedScopes d)"
  shows "scopeSatisfied OPERATOR_ROLE s {s. (key, s) \<in> A}"
proof (cases "pv_scopes d")
  case None
  with assms have "s \<in> approvedNames d"
    by (cases "pv_approvedScopes d") (simp_all add: pairedScopes_def approvedNames_def)
  with assms(1) show ?thesis by (auto simp: deviceOk_def scopeSatisfied_def)
qed (use assms in \<open>auto simp: pairedScopes_def deviceOk_def\<close>)

lemma patchedDevice_ok:
  assumes ok: "deviceOk A key d" and patch: "mp_tokens patch = None"
    and allowed: "roleScopesAllow role (js_default (mp_scopes patch) []) (pairedScopes d)"
  shows "deviceOk A key (patchedDevice patch d)"
proof -
  have fields: "pv_deviceId (patchedDevice patch d) = pv_deviceId d"
    "pv_approvedScopes (patchedDevice patch d) = pv_approvedScopes d"
    "tokensOf (patchedDevice patch d) = tokensOf d"
    "pv_scopes (patchedDevice patch d) = mergeScopes [pv_scopes d, mp_scopes patch]"
    using patch by (simp_all add: patchedDevice_def tokensOf_def)
  note paired = paired_covered [OF ok]
  have new: "scopeSatisfied OPERATOR_ROLE s {s. (key, s) \<in> A}" if "s \<in> names (js_default (mp_scopes patch) [])" for s
  proof (rule scopeSatisfied_trans [OF _ paired])
    show "scopeSatisfied OPERATOR_ROLE s (names (pairedScopes d))"
      using allowed that by (auto simp: roleScopesAllow_iff intro: scopeSatisfied_operator)
  qed
  show ?thesis
  proof (cases "pv_approvedScopes d")
    case None
    with ok have sc: "pv_scopes d = None" by (simp add: deviceOk_def)
    have "names (js_default (mp_scopes patch) []) = {}"
      using allowed by (auto simp: roleScopesAllow_iff sc None pairedScopes_def scopeSatisfied_def)
    then have "mergeScopes [pv_scopes d, mp_scopes patch] = None" by (simp add: mergeScopes_None sc)
    then show ?thesis using ok by (simp add: deviceOk_def tokensWithin_def approvedNames_def fields None sc)
  next
    case (Some a)
    then show ?thesis using ok new by (auto simp: deviceOk_def tokensWithin_def approvedNames_def fields)
  qed
qed

lemma stateOk_update:
  assumes ok: "stateOk A st0" and patch: "connectPatch st0 dev patch"
  shows "stateOk A (updatePairedDeviceMetadata now dev patch st0)"
proof (cases "getPairedDeviceFromState st0 dev")
  case None
  then show ?thesis using ok by (simp add: updatePairedDeviceMetadata_def getPairedDeviceFromState_def)
next
  case (Some d)
  obtain role where role: "roleScopesAllow role (js_default (mp_scopes patch) []) (pairedScopes d)"
    and t: "mp_tokens patch = None" using patch Some by (auto simp: connectPatch_def)
  have "deviceOk A dev (patchedDevice patch d)" if "js_trim dev = dev"
    using patchedDevice_ok [OF lookup_ok [OF ok Some] t role] that by (simp add: normalizeDeviceId_def)
  with stateOk_put [OF stateOk_load [OF ok, of now]] Some show ?thesis
    by (simp add: updatePairedDeviceMetadata_def getPairedDeviceFromState_def)
qed

text \<open>The operations on tokens write the device back under its own id.\<close>

lemma stateOk_putToken:
  assumes ok: "stateOk A st" and d: "getPairedDeviceFromState st dev = Some d"
    and t: "\<forall>s \<in> names (dt_scopes t). scopeSatisfied role s (approvedNames d)"
  shows "stateOk A (putToken d role t (loadState now st))"
proof -
  have dok: "deviceOk A (normalizeDeviceId dev) d" by (rule lookup_ok [OF ok d])
  then have "pv_deviceId d = normalizeDeviceId dev" by (simp add: deviceOk_def)
  with stateOk_put [OF stateOk_load [OF ok, of now]] deviceOk_update [OF dok t] show ?thesis
    by (simp add: putToken_def)
qed

lemma loaded_lookup [simp]: "getPairedDeviceFromState (loadState now st) = getPairedDeviceFromState st"
  by (simp add: getPairedDeviceFromState_def fun_eq_iff)

lemma tokenRefusal_load [simp]: "tokenRefusal sha (loadState now st) = tokenRefusal sha st"
  by (simp add: tokenRefusal_def fun_eq_iff)

lemma context_load [simp]: "resolveDeviceTokenUpdateContext (loadState now st) = resolveDeviceTokenUpdateContext st"
  by (simp add: resolveDeviceTokenUpdateContext_def fun_eq_iff)

lemma context_SomeD:
  assumes "resolveDeviceTokenUpdateContext st dev rawRole = Some (d, role, existing)"
  shows "getPairedDeviceFromState st dev = Some d" "map_of (tokensOf d) role = existing" "role = js_trim rawRole"
  using assms by (auto simp: resolveDeviceTokenUpdateContext_def normalizeRole_def js_some_def js_or_empty_def
    split: option.splits if_splits)

lemma tokenRefusal_InrD:
  assumes "tokenRefusal sha st dev tok rawRole scopes = Inr (d, role, t)"
  shows "getPairedDeviceFromState st dev = Some d" "map_of (tokensOf d) role = Some t" "role = js_trim rawRole"
    "\<not> revoked t" "verifyPairingToken sha tok (dt_token t)"
    "roleScopesAllow role (normalizeDeviceAuthScopes (Some scopes)) (dt_scopes t)"
  using assms by (auto simp: tokenRefusal_def normalizeRole_def js_some_def js_or_empty_def
    split: option.splits if_splits)

lemma putToken_verify: "putPaired (pv_deviceId d) (d\<lparr>pv_tokens := Some (AList.update role t (tokensOf d))\<rparr>) st = putToken d role t st"
  by (simp add: putToken_def)

lemma stateOk_verify:
  assumes ok: "stateOk A st"
  shows "stateOk A (snd (verifyDeviceToken sha now dev tok rawRole scopes st))"
proof (cases "tokenRefusal sha st dev tok rawRole scopes")
  case (Inr r)
  obtain d role t where r: "r = (d, role, t)" by (cases r)
  note D = tokenRefusal_InrD [OF Inr [unfolded r]]
  have "\<forall>s \<in> names (dt_scopes t). scopeSatisfied role s (approvedNames d)"
    by (rule deviceOk_token [OF lookup_ok [OF ok D(1)] D(2)])
  then have "stateOk A (putToken d role (t\<lparr>dt_lastUsedAtMs := Some now\<rparr>) (loadState now st))"
    by (intro stateOk_putToken [OF ok D(1)]) simp
  then show ?thesis by (simp add: verifyDeviceToken_def Inr r putToken_verify Let_def)
qed (use ok in \<open>simp add: verifyDeviceToken_def Let_def\<close>)

lemma stateOk_ensure:
  assumes ok: "stateOk A st"
  shows "stateOk A (snd (ensureDeviceToken now newToken dev rawRole scopes st))"
proof (cases "resolveDeviceTokenUpdateContext st dev rawRole")
  case (Some c)
  obtain d role existing where c: "c = (d, role, existing)" by (cases c)
  note D = context_SomeD [OF Some [unfolded c]]
  show ?thesis
  proof (cases "scopesWithinApprovedDeviceBaseline role (normalizeDeviceAuthScopes (Some scopes)) (resolveApprovedDeviceScopeBaseline d)")
    case True
    from within_baseline [OF True]
    have "stateOk A (putToken d role (buildDeviceAuthToken now newToken role (normalizeDeviceAuthScopes (Some scopes)) existing rot)
        (loadState now st))" for rot
      by (intro stateOk_putToken [OF ok D(1)]) (simp add: buildDeviceAuthToken_def)
    then show ?thesis using ok True by (simp add: ensureDeviceToken_def Some c Let_def)
  qed (use ok in \<open>simp add: ensureDeviceToken_def Some c Let_def\<close>)
qed (use ok in \<open>simp add: ensureDeviceToken_def Let_def\<close>)

lemma stateOk_rotate:
  assumes ok: "stateOk A st"
  shows "stateOk A (snd (rotateDeviceToken now newToken dev rawRole oscopes st))"
proof (cases "resolveDeviceTokenUpdateContext st dev rawRole")
  case (Some c)
  obtain d role existing where c: "c = (d, role, existing)" by (cases c)
  note D = context_SomeD [OF Some [unfolded c]]
  let ?req = "normalizeDeviceAuthScopes (js_coalesce oscopes (js_coalesce (map_option dt_scopes existing) (pv_scopes d)))"
  show ?thesis
  proof (cases "scopesWithinApprovedDeviceBaseline role ?req (resolveApprovedDeviceScopeBaseline d)")
    case True
    from within_baseline [OF True]
    have "stateOk A (putToken d role (buildDeviceAuthToken now newToken role ?req existing (Some now)) (loadState now st))"
      by (intro stateOk_putToken [OF ok D(1)]) (simp add: buildDeviceAuthToken_def)
    then show ?thesis using ok True by (simp add: rotateDeviceToken_def Some c Let_def)
  qed (use ok in \<open>simp add: rotateDeviceToken_def Some c Let_def\<close>)
qed (use ok in \<open>simp add: rotateDeviceToken_def Let_def\<close>)

lemma stateOk_revoke:
  assumes ok: "stateOk A st"
  shows "stateOk A (snd (revokeDeviceToken now dev rawRole st))"
proof (cases "resolveDeviceTokenUpdateContext st dev rawRole")
  case (Some c)
  obtain d role existing where c: "c = (d, role, existing)" by (cases c)
  note D = context_SomeD [OF Some [unfolded c]]
  show ?thesis
  proof (cases existing)
    case (Some t)
    have "\<forall>s \<in> names (dt_scopes t). scopeSatisfied role s (approvedNames d)"
      by (rule deviceOk_token [OF lookup_ok [OF ok D(1)]]) (simp add: D(2) Some)
    then have "stateOk A (putToken d role (t\<lparr>dt_revokedAtMs := Some now\<rparr>) (loadState now st))"
      by (intro stateOk_putToken [OF ok D(1)]) simp
    then show ?thesis by (simp add: revokeDeviceToken_def \<open>resolveDeviceTokenUpdateContext st dev rawRole = Some c\<close> c Some Let_def)
  qed (use ok \<open>resolveDeviceTokenUpdateContext st dev rawRole = Some c\<close> in \<open>simp add: revokeDeviceToken_def c Let_def\<close>)
qed (use ok in \<open>simp add: revokeDeviceToken_def Let_def\<close>)

lemma run_ok: "pairingRun sha st A \<Longrightarrow> stateOk A st"
proof (induction rule: pairingRun.induct)
  case Start
  then show ?case by (simp add: stateOk_def emptyPairing_def)
qed (simp_all add: stateOk_request stateOk_approve stateOk_reject stateOk_remove stateOk_clear stateOk_update
  stateOk_verify stateOk_ensure stateOk_rotate stateOk_revoke)

section \<open>What a device token is worth\<close>

lemma satisfied_trim [simp]: "scopeSatisfied (js_trim role) = scopeSatisfied role"
  by (simp add: scopeSatisfied_def fun_eq_iff)

text \<open>C9: A device token is worth no more than what was approved for the device. After any sequence of
  requests, approvals, removals, updates of a connecting device and operations on tokens, a token is
  accepted only if the device is paired, the token is the unrevoked one of the role, and every scope asked
  for is covered by scopes that were approved for this very device since it was last removed.\<close>

theorem device_token_within_approvals:
  assumes run: "pairingRun sha st approvals"
    and accepted: "fst (verifyDeviceToken sha now dev tok role scopes st) = Inr ()"
  shows "(\<exists>d t. getPairedDeviceFromState st dev = Some d \<and> map_of (tokensOf d) (js_trim role) = Some t \<and>
      \<not> revoked t \<and> sha tok = sha (dt_token t)) \<and>
    (\<forall>s \<in> names scopes. scopeSatisfied role s {s. (normalizeDeviceId dev, s) \<in> approvals})"
proof -
  obtain d r t where "tokenRefusal sha st dev tok role scopes = Inr (d, r, t)"
    using accepted by (auto simp: verifyDeviceToken_def Let_def split: sum.splits)
  note D = tokenRefusal_InrD [OF this]
  have ok: "deviceOk approvals (normalizeDeviceId dev) d" by (rule lookup_ok [OF run_ok [OF run] D(1)])
  have "scopeSatisfied role s {s. (normalizeDeviceId dev, s) \<in> approvals}" if s: "s \<in> names scopes" for s
  proof (rule scopeSatisfied_trans)
    show "scopeSatisfied role s (names (dt_scopes t))"
      using D(3,6) s by (auto simp: roleScopesAllow_iff)
    show "scopeSatisfied role e {s. (normalizeDeviceId dev, s) \<in> approvals}" if "e \<in> names (dt_scopes t)" for e
      by (rule scopeSatisfied_mono [of _ _ "approvedNames d"])
        (use deviceOk_token [OF ok D(2)] D(3) that ok in \<open>auto simp: deviceOk_def\<close>)
  qed
  then show ?thesis using D by (auto simp: verifyPairingToken_def safeEqualSecret_def)
qed

definition demoRequest :: "string \<Rightarrow> string list \<Rightarrow> incomingRequest" where
  "demoRequest role scopes = \<lparr>in_deviceId = ''dev1'', in_publicKey = ''pk1'', in_displayName = None, in_platform = None,
     in_deviceFamily = None, in_clientId = None, in_clientMode = None, in_role = Some role, in_scopes = Some scopes,
     in_remoteIp = None, in_silent = False\<rparr>"

definition pairedState :: "string \<Rightarrow> string list \<Rightarrow> pairingState" where
  "pairedState role scopes =
     snd (approveDevicePairing 2000 ''tok1'' ''req1'' (snd (requestDevicePairing 1000 ''req1'' (demoRequest role scopes) emptyPairing)))"

lemma pairedState_run:
  "pairingRun (\<lambda>s. s) (pairedState ''operator'' [''operator.write'']) {(''dev1'', ''operator.write'')}"
proof -
  let ?st1 = "snd (requestDevicePairing 1000 ''req1'' (demoRequest ''operator'' [''operator.write'']) emptyPairing)"
  have "map_option (\<lambda>p. (pr_deviceId p, pr_scopes p)) (map_of (ps_pendingById (loadState 2000 ?st1)) ''req1'') =
      Some (''dev1'', Some [''operator.write''])" by code_simp
  moreover have "js_trim ''operator.write'' = ''operator.write''" by code_simp
  ultimately have approved: "approvedBy 2000 ''req1'' ?st1 = {(''dev1'', ''operator.write'')}"
    by (auto simp: approvedBy_def names_def)
  have "pairingRun (\<lambda>s. s) (pairedState ''operator'' [''operator.write'']) ({} \<union> approvedBy 2000 ''req1'' ?st1)"
    unfolding pairedState_def by (rule Approve [OF Request [OF Start]])
  then show ?thesis by (simp add: approved)
qed

theorem device_token_within_approvals_witness:
  "fst (verifyDeviceToken (\<lambda>s. s) 3000 ''dev1'' ''tok1'' ''operator'' [''operator.read''] (pairedState ''operator'' [''operator.write''])) = Inr () \<and>
   scopeSatisfied ''operator'' ''operator.read'' {s. (''dev1'', s) \<in> {(''dev1'', ''operator.write'')}}"
proof -
  have acc: "fst (verifyDeviceToken (\<lambda>s. s) 3000 ''dev1'' ''tok1'' ''operator'' [''operator.read'']
      (pairedState ''operator'' [''operator.write''])) = Inr ()" by code_simp
  have trims: "js_trim ''operator.read'' = ''operator.read''" "normalizeDeviceId ''dev1'' = ''dev1''" by code_simp+
  then have "names [''operator.read''] = {''operator.read''}" by (auto simp: names_def)
  then show ?thesis using device_token_within_approvals [OF pairedState_run acc] acc by (simp add: trims)
qed

text \<open>A device that was approved without scopes has no baseline: its token is issued on approval, and is
  neither accepted nor reissued afterwards, although no scope is asked for.\<close>

lemma unscoped_device_token_useless:
  assumes d: "getPairedDeviceFromState st dev = Some d" and none: "pv_approvedScopes d = None" "pv_scopes d = None"
  shows "fst (verifyDeviceToken sha now dev tok role scopes st) \<noteq> Inr ()"
    and "fst (ensureDeviceToken now newToken dev role scopes st) = None"
    and "fst (rotateDeviceToken now newToken dev role oscopes st) = None"
proof -
  have baseline: "resolveApprovedDeviceScopeBaseline d = None"
    using none by (simp add: resolveApprovedDeviceScopeBaseline_def)
  then show "fst (verifyDeviceToken sha now dev tok role scopes st) \<noteq> Inr ()"
    "fst (ensureDeviceToken now newToken dev role scopes st) = None"
    "fst (rotateDeviceToken now newToken dev role oscopes st) = None"
    by (auto simp: verifyDeviceToken_def tokenRefusal_def ensureDeviceToken_def rotateDeviceToken_def Let_def
      scopesWithinApprovedDeviceBaseline_def resolveDeviceTokenUpdateContext_def d split: option.splits)
qed

lemma node_token_refused:
  "(case getPairedDeviceFromState (pairedState ''node'' []) ''dev1'' of
      None \<Rightarrow> False | Some d \<Rightarrow> map_option dt_token (map_of (tokensOf d) ''node'') = Some ''tok1'') \<and>
   fst (verifyDeviceToken (\<lambda>s. s) 3000 ''dev1'' ''tok1'' ''node'' [] (pairedState ''node'' [])) = Inl ''scope-mismatch''"
  by code_simp

text \<open>The device is looked up under its trimmed id and written under the id as given.\<close>

lemma update_writes_raw_key:
  assumes "getPairedDeviceFromState st dev = Some d" "js_trim dev \<noteq> dev"
  shows "getPairedDeviceFromState (updatePairedDeviceMetadata now dev patch st) dev = Some d \<and>
    map_of (ps_pairedByDeviceId (updatePairedDeviceMetadata now dev patch st)) dev = Some (patchedDevice patch d)"
  using assms by (simp add: updatePairedDeviceMetadata_def getPairedDeviceFromState_def normalizeDeviceId_def)

section \<open>Bootstrap tokens\<close>

definition DEVICE_BOOTSTRAP_TOKEN_TTL_MS :: int where
  "DEVICE_BOOTSTRAP_TOKEN_TTL_MS = 10 * 60 * 1000"

record bootstrapRecord =
  br_token :: string
  br_ts :: int
  br_issuedAtMs :: int

text \<open>The file: entries that are not objects are \<^const>\<open>None\<close>; a field of the wrong type is absent.\<close>

record rawBootstrap =
  rb_token :: "string option"
  rb_ts :: "int option"
  rb_issuedAtMs :: "int option"

type_synonym bootstrapFile = "(string \<times> rawBootstrap option) list"
type_synonym bootstrapState = "(string \<times> bootstrapRecord) list"

definition bootstrapRecordOf :: "string \<Rightarrow> rawBootstrap \<Rightarrow> bootstrapRecord" where
  "bootstrapRecordOf tokenKey raw =
     (let issuedAtMs = js_default (rb_issuedAtMs raw) 0
      in \<lparr>br_token = (case rb_token raw of None \<Rightarrow> tokenKey | Some t \<Rightarrow> if js_trim t = [] then tokenKey else t),
          br_ts = js_default (rb_ts raw) issuedAtMs, br_issuedAtMs = issuedAtMs\<rparr>)"

definition loadBootstrap :: "int \<Rightarrow> bootstrapFile \<Rightarrow> bootstrapState" where
  "loadBootstrap now raw =
     pruneExpiredPending br_ts now DEVICE_BOOTSTRAP_TOKEN_TTL_MS
       (concat (map (\<lambda>(k, e). case e of None \<Rightarrow> [] | Some r \<Rightarrow> [(k, bootstrapRecordOf k r)]) raw))"

definition persistBootstrap :: "bootstrapState \<Rightarrow> bootstrapFile" where
  "persistBootstrap st =
     map (\<lambda>(k, r). (k, Some \<lparr>rb_token = Some (br_token r), rb_ts = Some (br_ts r), rb_issuedAtMs = Some (br_issuedAtMs r)\<rparr>)) st"

definition issueDeviceBootstrapToken :: "int \<Rightarrow> string \<Rightarrow> bootstrapFile \<Rightarrow> int \<times> bootstrapFile" where
  "issueDeviceBootstrapToken now token raw =
     (now + DEVICE_BOOTSTRAP_TOKEN_TTL_MS,
      persistBootstrap (AList.update token \<lparr>br_token = token, br_ts = now, br_issuedAtMs = now\<rparr> (loadBootstrap now raw)))"

definition verifyDeviceBootstrapToken ::
  "(string \<Rightarrow> 'h) \<Rightarrow> int \<Rightarrow> string \<Rightarrow> string \<Rightarrow> string \<Rightarrow> string \<Rightarrow> bootstrapFile \<Rightarrow> (string + unit) \<times> bootstrapFile" where
  "verifyDeviceBootstrapToken sha now token deviceId publicKey role raw =
     (let st = loadBootstrap now raw; provided = js_trim token
      in if provided = [] then (Inl ''bootstrap_token_invalid'', raw)
         else (case List.find (\<lambda>r. verifyPairingToken sha provided (br_token r)) (map snd st) of
             None \<Rightarrow> (Inl ''bootstrap_token_invalid'', raw)
           | Some entry \<Rightarrow>
               if js_trim deviceId = [] \<or> js_trim publicKey = [] \<or> js_trim role = []
               then (Inl ''bootstrap_token_invalid'', raw)
               else (Inr (), persistBootstrap (AList.delete (br_token entry) st))))"

datatype bootstrapOp =
    Issue int string
  | Present int string string string string

fun bootstrapApply :: "(string \<Rightarrow> 'h) \<Rightarrow> bootstrapOp \<Rightarrow> bootstrapFile \<Rightarrow> bootstrapFile" where
  "bootstrapApply sha (Issue now token) raw = snd (issueDeviceBootstrapToken now token raw)"
| "bootstrapApply sha (Present now token deviceId publicKey role) raw =
     snd (verifyDeviceBootstrapToken sha now token deviceId publicKey role raw)"

text \<open>A file that the program wrote: every entry is stored under its token. None of the stored tokens has
  one of the hashes in \<open>B\<close>.\<close>

definition bootstrapFileOk :: "(string \<Rightarrow> 'h) \<Rightarrow> 'h set \<Rightarrow> bootstrapFile \<Rightarrow> bool" where
  "bootstrapFileOk sha B raw \<longleftrightarrow>
     (\<forall>(k, e) \<in> set raw. js_trim k \<noteq> [] \<and> (\<exists>r. e = Some r \<and> rb_token r = Some k) \<and> sha k \<notin> B)"

definition bootstrapStateOk :: "(string \<Rightarrow> 'h) \<Rightarrow> 'h set \<Rightarrow> bootstrapState \<Rightarrow> bool" where
  "bootstrapStateOk sha B st \<longleftrightarrow> (\<forall>(k, r) \<in> set st. js_trim k \<noteq> [] \<and> br_token r = k \<and> sha k \<notin> B)"

lemma load_keys: "(k, r) \<in> set (loadBootstrap now raw) \<Longrightarrow> \<exists>e. (k, Some e) \<in> set raw \<and> r = bootstrapRecordOf k e"
  by (auto simp: loadBootstrap_def pruneExpiredPending_def split: option.splits)

lemma load_ok: "bootstrapFileOk sha B raw \<Longrightarrow> bootstrapStateOk sha B (loadBootstrap now raw)"
  by (fastforce simp: bootstrapFileOk_def bootstrapStateOk_def bootstrapRecordOf_def Let_def dest!: load_keys)

lemma persist_ok: "bootstrapStateOk sha B st \<Longrightarrow> bootstrapFileOk sha B (persistBootstrap st)"
  by (auto simp: bootstrapFileOk_def bootstrapStateOk_def persistBootstrap_def)

lemma present_ok: "bootstrapFileOk sha B raw \<Longrightarrow> bootstrapFileOk sha B (snd (verifyDeviceBootstrapToken sha now tok dev pk role raw))"
proof -
  assume ok: "bootstrapFileOk sha B raw"
  have "bootstrapStateOk sha B (AList.delete key (loadBootstrap now raw))" for key
    using load_ok [OF ok, of now] by (auto simp: bootstrapStateOk_def AList.delete_eq)
  from persist_ok [OF this] ok show ?thesis
    by (auto simp: verifyDeviceBootstrapToken_def Let_def split: option.splits)
qed

lemma issue_ok:
  assumes "bootstrapFileOk sha B raw" "js_trim tok \<noteq> []" "sha tok \<notin> B"
  shows "bootstrapFileOk sha B (snd (issueDeviceBootstrapToken now tok raw))"
proof -
  let ?r = "\<lparr>br_token = tok, br_ts = now, br_issuedAtMs = now\<rparr>"
  have "bootstrapStateOk sha B (AList.update tok ?r (loadBootstrap now raw))"
    using load_ok [OF assms(1), of now] set_update_subset [of tok ?r "loadBootstrap now raw"] assms(2,3)
    by (fastforce simp: bootstrapStateOk_def)
  from persist_ok [OF this] show ?thesis by (simp add: issueDeviceBootstrapToken_def)
qed

lemma present_unknown:
  assumes "bootstrapFileOk sha B raw" "sha (js_trim tok) \<in> B"
  shows "fst (verifyDeviceBootstrapToken sha now tok dev pk role raw) = Inl ''bootstrap_token_invalid''"
proof (cases "List.find (\<lambda>r. verifyPairingToken sha (js_trim tok) (br_token r)) (map snd (loadBootstrap now raw))")
  case None
  then show ?thesis by (simp add: verifyDeviceBootstrapToken_def Let_def)
next
  case (Some entry)
  then obtain k where "(k, entry) \<in> set (loadBootstrap now raw)" "sha (js_trim tok) = sha (br_token entry)"
    using find_pending [OF Some] by (force simp: verifyPairingToken_def safeEqualSecret_def)
  with load_ok [OF assms(1), of now] assms(2) show ?thesis by (auto simp: bootstrapStateOk_def)
qed

lemma accepted_removes:
  assumes ok: "bootstrapFileOk sha {} raw" and inj: "inj_on sha (fst ` set raw)"
    and acc: "verifyDeviceBootstrapToken sha now tok dev pk role raw = (Inr (), raw')"
  shows "bootstrapFileOk sha {sha (js_trim tok)} raw'"
proof -
  let ?st = "loadBootstrap now raw"
  obtain entry where f: "List.find (\<lambda>r. verifyPairingToken sha (js_trim tok) (br_token r)) (map snd ?st) = Some entry"
    and raw': "raw' = persistBootstrap (AList.delete (br_token entry) ?st)"
    using acc by (auto simp: verifyDeviceBootstrapToken_def Let_def split: option.splits if_splits)
  from find_pending [OF f] obtain k where k: "(k, entry) \<in> set ?st" "sha (js_trim tok) = sha (br_token entry)"
    by (force simp: verifyPairingToken_def safeEqualSecret_def)
  note stok = load_ok [OF ok, of now]
  have key: "br_token entry = k" using stok k(1) by (auto simp: bootstrapStateOk_def)
  have sub: "fst ` set ?st \<subseteq> fst ` set raw" by (force dest: load_keys)
  have "bootstrapStateOk sha {sha (js_trim tok)} (AList.delete k ?st)"
  proof -
    have "sha k' \<noteq> sha k" if "(k', r) \<in> set ?st" "k' \<noteq> k" for k' r
      using inj_onD [OF inj, of k' k] that k(1) sub by (force simp: image_subset_iff)
    then show ?thesis using stok k(2) key by (fastforce simp: bootstrapStateOk_def AList.delete_eq)
  qed
  then show ?thesis by (simp add: raw' key persist_ok)
qed

lemma bootstrapApply_ok:
  assumes "bootstrapFileOk sha B raw"
    and "\<And>now t. Issue now t \<in> set ops \<Longrightarrow> js_trim t \<noteq> [] \<and> sha t \<notin> B"
  shows "bootstrapFileOk sha B (fold (bootstrapApply sha) ops raw)"
  using assms
proof (induction ops arbitrary: raw)
  case (Cons op ops)
  have "bootstrapFileOk sha B (bootstrapApply sha op raw)"
    using Cons.prems by (cases op) (auto intro: issue_ok present_ok)
  then have "bootstrapFileOk sha B (fold (bootstrapApply sha) ops (bootstrapApply sha op raw))"
    by (rule Cons.IH) (use Cons.prems(2) in auto)
  then show ?case by simp
qed simp

text \<open>C31: A bootstrap token works once. After it has been accepted, no later use of it is accepted, by any
  device and at any time, whatever other tokens are issued or used in between.\<close>

theorem bootstrap_token_single_use:
  assumes file_: "bootstrapFileOk sha {} raw" "inj_on sha (fst ` set raw)"
    and acc: "verifyDeviceBootstrapToken sha now tok dev pk role raw = (Inr (), raw')"
    and fresh: "\<And>at t. Issue at t \<in> set ops \<Longrightarrow> js_trim t \<noteq> [] \<and> sha t \<noteq> sha (js_trim tok)"
  shows "fst (verifyDeviceBootstrapToken sha now' tok dev' pk' role' (fold (bootstrapApply sha) ops raw')) =
    Inl ''bootstrap_token_invalid''"
  by (rule present_unknown [OF bootstrapApply_ok [OF accepted_removes [OF file_ acc]]]) (use fresh in auto)

theorem bootstrap_token_single_use_witness:
  "let raw = snd (issueDeviceBootstrapToken 1000 ''boot1'' []);
       (r, raw') = verifyDeviceBootstrapToken (\<lambda>s. s) 2000 ''boot1'' ''dev1'' ''pk1'' ''node'' raw
   in r = Inr () \<and>
      fst (verifyDeviceBootstrapToken (\<lambda>s. s) 4000 ''boot1'' ''dev2'' ''pk2'' ''node''
        (fold (bootstrapApply (\<lambda>s. s)) [Issue 3000 ''boot2''] raw')) = Inl ''bootstrap_token_invalid''"
proof -
  let ?raw = "snd (issueDeviceBootstrapToken 1000 ''boot1'' [])"
  obtain raw' where acc: "verifyDeviceBootstrapToken (\<lambda>s. s) 2000 ''boot1'' ''dev1'' ''pk1'' ''node'' ?raw = (Inr (), raw')"
  proof -
    have "fst (verifyDeviceBootstrapToken (\<lambda>s. s) 2000 ''boot1'' ''dev1'' ''pk1'' ''node'' ?raw) = Inr ()" by code_simp
    then show thesis using that by (metis prod.collapse)
  qed
  have trims: "js_trim ''boot1'' = ''boot1''" "js_trim ''boot2'' = ''boot2''" by code_simp+
  have raw: "?raw = [(''boot1'', Some \<lparr>rb_token = Some ''boot1'', rb_ts = Some 1000, rb_issuedAtMs = Some 1000\<rparr>)]" by code_simp
  have "fst (verifyDeviceBootstrapToken (\<lambda>s. s) 4000 ''boot1'' ''dev2'' ''pk2'' ''node''
      (fold (bootstrapApply (\<lambda>s. s)) [Issue 3000 ''boot2''] raw')) = Inl ''bootstrap_token_invalid''"
    by (rule bootstrap_token_single_use [OF _ _ acc]) (auto simp: bootstrapFileOk_def raw trims)
  with acc show ?thesis by (simp add: Let_def)
qed

end
