(* ===== verification/Gateway_Handshake.thy ===== *)
theory Gateway_Handshake
  imports Connect_Auth Device_Pairing
begin

text \<open>
  The connect request of \<open>src/gateway/server/ws-connection/message-handler.ts\<close>, from the role check to the
  device token, with \<open>origin-check.ts\<close> and \<open>device-auth.ts\<close>: the composition of the authentication of
  \<open>Connect_Auth\<close> with the pairing store of \<open>Device_Pairing\<close>. Keys, signatures and the parsing of
  URLs are functions of the host; fresh request ids and tokens are arguments; one connect request is
  handled at a time.
\<close>

section \<open>Model\<close>

record ('ip, 'h) wsHost =
  wh_auth :: "('ip, 'h) authHost"
  wh_deriveId :: "string \<Rightarrow> string option"
  wh_normalizeKey :: "string \<Rightarrow> string option"
  wh_verifySignature :: "string \<Rightarrow> string \<Rightarrow> string \<Rightarrow> bool"
  wh_parseUrl :: "string \<Rightarrow> (string \<times> string \<times> string) option"

record wsDevice =
  wd_id :: string
  wd_publicKey :: string
  wd_signature :: string
  wd_signedAt :: "int option"
  wd_nonce :: "string option"

record wsConnect =
  wc_role :: "jsv option"
  wc_scopes :: "string list option"
  wc_clientId :: string
  wc_clientMode :: string
  wc_displayName :: "string option"
  wc_platform :: "string option"
  wc_deviceFamily :: "string option"
  wc_device :: "wsDevice option"
  wc_auth :: "handshakeAuth option"

record wsGateway =
  wg_auth :: resolvedAuth
  wg_trustedProxies :: "string list"
  wg_allowRealIpFallback :: bool
  wg_req :: httpReq
  wg_rateLimitIp :: "string option"
  wg_reportedIp :: "string option"
  wg_requestOrigin :: "string option"
  wg_requestHost :: "string option"
  wg_nonce :: string
  wg_allowInsecureAuth :: "bool option"
  wg_disableDeviceAuth :: "bool option"
  wg_allowedOrigins :: "string list"
  wg_hostHeaderOriginFallback :: bool

record wsState =
  ws_limiter :: "rateLimiter option"
  ws_pairing :: pairingState
  ws_bootstrap :: bootstrapFile

record admission =
  ad_role :: gatewayRole
  ad_scopes :: "string list"
  ad_method :: authMethod
  ad_deviceToken :: "deviceAuthToken option"

datatype handshakeOutcome =
    InvalidRole
  | OriginNotAllowed string
  | MissingDevice missingDevice
  | DeviceAuthInvalid string
  | Unauthorized authResult
  | PairingRequired pairingReason
  | Admitted admission

subsection \<open>Origins\<close>

definition parseOrigin :: "('ip, 'h) wsHost \<Rightarrow> string option \<Rightarrow> (string \<times> string \<times> string) option" where
  "parseOrigin host originRaw =
     (let trimmed = js_trim (js_or_empty originRaw)
      in if trimmed = [] \<or> trimmed = ''null'' then None
         else map_option (\<lambda>(origin, hst, name). (js_lower origin, js_lower hst, js_lower name)) (wh_parseUrl host trimmed))"

text \<open>What the origin was matched by, or the reason of the refusal.\<close>

definition checkBrowserOrigin ::
  "('ip, 'h) wsHost \<Rightarrow> string option \<Rightarrow> string option \<Rightarrow> string list \<Rightarrow> bool \<Rightarrow> bool \<Rightarrow> string + string" where
  "checkBrowserOrigin host requestHost origin allowedOrigins hostFallback isLocalClient =
     (case parseOrigin host origin of
        None \<Rightarrow> Inl ''origin missing or invalid''
      | Some (parsedOrigin, parsedHost, hostname) \<Rightarrow>
          let allowlist = filter (\<lambda>v. v \<noteq> []) (map (\<lambda>v. js_lower (js_trim v)) allowedOrigins);
              reqHost = normalizeHostHeader requestHost
          in if ''*'' \<in> set allowlist \<or> parsedOrigin \<in> set allowlist then Inr ''allowlist''
             else if hostFallback \<and> reqHost \<noteq> [] \<and> parsedHost = reqHost then Inr ''host-header-fallback''
             else if isLocalClient \<and> isLoopbackHost (ah_lib (wh_auth host)) hostname then Inr ''local-loopback''
             else Inl ''origin not allowed'')"

subsection \<open>The proof of the device\<close>

definition asciiLowerChar :: "char \<Rightarrow> char" where
  "asciiLowerChar c = (let n = (of_char c :: nat) in if 65 \<le> n \<and> n \<le> 90 then char_of (n + 32) else c)"

definition normalizeDeviceMetadataForAuth :: "string option \<Rightarrow> string" where
  "normalizeDeviceMetadataForAuth value = map asciiLowerChar (js_trim (js_or_empty value))"

definition roleName :: "gatewayRole \<Rightarrow> string" where
  "roleName role = (case role of RoleOperator \<Rightarrow> ''operator'' | RoleNode \<Rightarrow> ''node'')"

definition payloadFields ::
  "wsConnect \<Rightarrow> wsDevice \<Rightarrow> gatewayRole \<Rightarrow> string list \<Rightarrow> int \<Rightarrow> string option \<Rightarrow> string \<Rightarrow> string list" where
  "payloadFields c device role scopes signedAtMs token nonce =
     [wd_id device, wc_clientId c, wc_clientMode c, roleName role, js_join '','' scopes, show_int signedAtMs,
      js_or_empty token, nonce]"

definition buildDeviceAuthPayload ::
  "wsConnect \<Rightarrow> wsDevice \<Rightarrow> gatewayRole \<Rightarrow> string list \<Rightarrow> int \<Rightarrow> string option \<Rightarrow> string \<Rightarrow> string" where
  "buildDeviceAuthPayload c device role scopes signedAtMs token nonce =
     js_join ''|'' (''v2'' # payloadFields c device role scopes signedAtMs token nonce)"

definition buildDeviceAuthPayloadV3 ::
  "wsConnect \<Rightarrow> wsDevice \<Rightarrow> gatewayRole \<Rightarrow> string list \<Rightarrow> int \<Rightarrow> string option \<Rightarrow> string \<Rightarrow> string" where
  "buildDeviceAuthPayloadV3 c device role scopes signedAtMs token nonce =
     js_join ''|'' (''v3'' # payloadFields c device role scopes signedAtMs token nonce @
       [normalizeDeviceMetadataForAuth (wc_platform c), normalizeDeviceMetadataForAuth (wc_deviceFamily c)])"

definition resolveSignatureToken :: "handshakeAuth option \<Rightarrow> string option" where
  "resolveSignatureToken auth =
     js_coalesce (Option.bind auth ha_token)
       (js_coalesce (Option.bind auth ha_deviceToken) (Option.bind auth ha_bootstrapToken))"

definition resolveDeviceSignaturePayloadVersion ::
  "('ip, 'h) wsHost \<Rightarrow> wsConnect \<Rightarrow> wsDevice \<Rightarrow> gatewayRole \<Rightarrow> string list \<Rightarrow> int \<Rightarrow> string \<Rightarrow> string option" where
  "resolveDeviceSignaturePayloadVersion host c device role scopes signedAtMs nonce =
     (let token = resolveSignatureToken (wc_auth c);
          check = (\<lambda>payload. wh_verifySignature host (wd_publicKey device) payload (wd_signature device))
      in if check (buildDeviceAuthPayloadV3 c device role scopes signedAtMs token nonce) then Some ''v3''
         else if check (buildDeviceAuthPayload c device role scopes signedAtMs token nonce) then Some ''v2''
         else None)"

definition DEVICE_SIGNATURE_SKEW_MS :: int where "DEVICE_SIGNATURE_SKEW_MS = 2 * 60 * 1000"

text \<open>The reason of a refusal, or the normalised public key.\<close>

definition checkDevice ::
  "('ip, 'h) wsHost \<Rightarrow> wsGateway \<Rightarrow> int \<Rightarrow> wsConnect \<Rightarrow> wsDevice \<Rightarrow> gatewayRole \<Rightarrow> string list \<Rightarrow> string + string" where
  "checkDevice host gw now c device role scopes =
     (let derived = js_or_empty (wh_deriveId host (wd_publicKey device));
          nonce = js_trim (js_or_empty (wd_nonce device))
      in if derived = [] \<or> derived \<noteq> wd_id device then Inl ''device-id-mismatch''
         else (case wd_signedAt device of
             None \<Rightarrow> Inl ''device-signature-stale''
           | Some signedAt \<Rightarrow>
               if DEVICE_SIGNATURE_SKEW_MS < \<bar>now - signedAt\<bar> then Inl ''device-signature-stale''
               else if nonce = [] then Inl ''device-nonce-missing''
               else if nonce \<noteq> wg_nonce gw then Inl ''device-nonce-mismatch''
               else if resolveDeviceSignaturePayloadVersion host c device role scopes signedAt nonce = None
               then Inl ''device-signature''
               else (case js_some (js_or_empty (wh_normalizeKey host (wd_publicKey device))) of
                   None \<Rightarrow> Inl ''device-public-key''
                 | Some key \<Rightarrow> Inr key)))"

subsection \<open>Pairing\<close>

definition isControlUi :: "wsConnect \<Rightarrow> bool" where
  "isControlUi c \<longleftrightarrow> wc_clientId c = ''foxclaw-control-ui''"

definition isWebchat :: "wsConnect \<Rightarrow> bool" where
  "isWebchat c \<longleftrightarrow> js_lower (js_trim (wc_clientMode c)) = ''webchat'' \<or> js_lower (js_trim (wc_clientId c)) = ''webchat-ui''"

definition isGatewayBackendClient :: "wsConnect \<Rightarrow> bool" where
  "isGatewayBackendClient c \<longleftrightarrow> wc_clientId c = ''gateway-client'' \<and> wc_clientMode c = ''backend''"

definition isLocalClient :: "('ip, 'h) wsHost \<Rightarrow> wsGateway \<Rightarrow> bool" where
  "isLocalClient host gw \<longleftrightarrow>
     isLocalDirectRequest (ah_lib (wh_auth host)) (Some (wg_req gw)) (wg_trustedProxies gw) (wg_allowRealIpFallback gw)"

definition hasBrowserOrigin :: "wsGateway \<Rightarrow> bool" where
  "hasBrowserOrigin gw \<longleftrightarrow> js_trim (js_or_empty (wg_requestOrigin gw)) \<noteq> []"

definition pairingRequest ::
  "('ip, 'h) wsHost \<Rightarrow> wsGateway \<Rightarrow> wsConnect \<Rightarrow> string \<Rightarrow> string \<Rightarrow> gatewayRole \<Rightarrow> string list \<Rightarrow> pairingReason \<Rightarrow> incomingRequest" where
  "pairingRequest host gw c deviceId key role scopes reason = \<lparr>
     in_deviceId = deviceId, in_publicKey = key, in_displayName = wc_displayName c, in_platform = wc_platform c,
     in_deviceFamily = wc_deviceFamily c, in_clientId = Some (wc_clientId c), in_clientMode = Some (wc_clientMode c),
     in_role = Some (roleName role), in_scopes = Some scopes, in_remoteIp = wg_reportedIp gw,
     in_silent = shouldAllowSilentLocalPairing (isLocalClient host gw) (hasBrowserOrigin gw) (isControlUi c) (isWebchat c) reason\<rparr>"

text \<open>Asks for a pairing and approves it at once when the request is silent; says whether to go on.\<close>

definition requirePairing ::
  "int \<Rightarrow> string \<Rightarrow> string \<Rightarrow> incomingRequest \<Rightarrow> pairingState \<Rightarrow> bool \<times> pairingState" where
  "requirePairing now newId newToken req st =
     (case requestDevicePairing now newId req st of
        (Inl err, st') \<Rightarrow> (False, st')
      | (Inr (pending, created), st') \<Rightarrow>
          if pr_silent pending then (True, snd (approveDevicePairing now newToken (pr_requestId pending) st'))
          else (False, st'))"

definition metadataMismatch :: "wsConnect \<Rightarrow> pairedDevice \<Rightarrow> bool" where
  "metadataMismatch c paired \<longleftrightarrow>
     (let pinned = (\<lambda>claimed old. normalizeDeviceMetadataForAuth old \<noteq> [] \<and>
        normalizeDeviceMetadataForAuth claimed \<noteq> normalizeDeviceMetadataForAuth old)
      in pinned (wc_platform c) (pv_platform paired) \<or> pinned (wc_deviceFamily c) (pv_deviceFamily paired))"

definition pairedRoles :: "pairedDevice \<Rightarrow> string list" where
  "pairedRoles paired = (case pv_roles paired of
     Some roles \<Rightarrow> roles
   | None \<Rightarrow> (if js_truthy (pv_role paired) then [js_or_empty (pv_role paired)] else []))"

definition accessPatch :: "wsGateway \<Rightarrow> wsConnect \<Rightarrow> gatewayRole \<Rightarrow> string list \<Rightarrow> metadataPatch" where
  "accessPatch gw c role scopes = \<lparr>mp_publicKey = None, mp_displayName = Some (wc_displayName c), mp_platform = None,
     mp_deviceFamily = None, mp_clientId = Some (Some (wc_clientId c)), mp_clientMode = Some (Some (wc_clientMode c)),
     mp_remoteIp = Some (wg_reportedIp gw), mp_tokens = None, mp_role = Some (roleName role), mp_scopes = Some scopes\<rparr>"

definition scopesNeedUpgrade :: "gatewayRole \<Rightarrow> string list \<Rightarrow> pairedDevice \<Rightarrow> bool" where
  "scopesNeedUpgrade role scopes paired \<longleftrightarrow> scopes \<noteq> [] \<and>
     (pairedScopes paired = [] \<or> \<not> roleScopesAllow (roleName role) scopes (pairedScopes paired))"

text \<open>The checks of a paired device against its record as it was read first; each step that fails may be
  repaired by a silent pairing. The result is the failed step, if there is one.\<close>

definition pairingStage ::
  "('ip, 'h) wsHost \<Rightarrow> wsGateway \<Rightarrow> int \<Rightarrow> (pairingReason \<Rightarrow> string) \<Rightarrow> (pairingReason \<Rightarrow> string) \<Rightarrow> wsConnect \<Rightarrow>
   string \<Rightarrow> string \<Rightarrow> gatewayRole \<Rightarrow> string list \<Rightarrow> pairingState \<Rightarrow> pairingReason option \<times> pairingState" where
  "pairingStage host gw now ids toks c deviceId key role scopes st =
     (let need = (\<lambda>reason s. requirePairing now (ids reason) (toks reason)
            (pairingRequest host gw c deviceId key role scopes reason) s)
      in case getPairedDeviceFromState (loadState now st) deviceId of
           None \<Rightarrow> (case need NotPaired st of (ok, st') \<Rightarrow> (if ok then None else Some NotPaired, st'))
         | Some paired \<Rightarrow>
             if pv_publicKey paired \<noteq> key
             then (case need NotPaired st of (ok, st') \<Rightarrow> (if ok then None else Some NotPaired, st'))
             else (case (if metadataMismatch c paired then need MetadataUpgrade st else (True, st)) of (ok1, st1) \<Rightarrow>
               if \<not> ok1 then (Some MetadataUpgrade, st1)
               else (case (if roleName role \<notin> set (pairedRoles paired) then need RoleUpgrade st1 else (True, st1)) of (ok2, st2) \<Rightarrow>
                 if \<not> ok2 then (Some RoleUpgrade, st2)
                 else (case (if scopesNeedUpgrade role scopes paired then need ScopeUpgrade st2 else (True, st2)) of (ok3, st3) \<Rightarrow>
                   if \<not> ok3 then (Some ScopeUpgrade, st3)
                   else (None, updatePairedDeviceMetadata now deviceId (accessPatch gw c role scopes) st3)))))"

subsection \<open>The connect request\<close>

definition tokenVerifiersOf :: "('ip, 'h) wsHost \<Rightarrow> int \<Rightarrow> wsState \<Rightarrow> tokenVerifiers" where
  "tokenVerifiersOf host now st = \<lparr>
     tv_bootstrap = (\<lambda>deviceId publicKey token role scopes.
       case fst (verifyDeviceBootstrapToken (ah_sha (wh_auth host)) now token deviceId publicKey role (ws_bootstrap st)) of
         Inl reason \<Rightarrow> Inl (Some reason) | Inr u \<Rightarrow> Inr u),
     tv_device = (\<lambda>deviceId token role scopes.
       fst (verifyDeviceToken (ah_sha (wh_auth host)) now deviceId token role scopes (ws_pairing st)) = Inr ())\<rparr>"

text \<open>What accepting a bootstrap or a device token changes in the stores.\<close>

definition consumeTokens ::
  "('ip, 'h) wsHost \<Rightarrow> int \<Rightarrow> connectAuthState \<Rightarrow> decisionParams \<Rightarrow> authMethod \<Rightarrow> wsState \<Rightarrow> wsState" where
  "consumeTokens host now cs dp how st =
     (if how = MethodBootstrapToken
      then st\<lparr>ws_bootstrap := snd (verifyDeviceBootstrapToken (ah_sha (wh_auth host)) now
             (js_or_empty (cs_bootstrapTokenCandidate cs)) (js_or_empty (dp_deviceId dp)) (js_or_empty (dp_publicKey dp))
             (dp_role dp) (ws_bootstrap st))\<rparr>
      else if how = MethodDeviceToken
      then st\<lparr>ws_pairing := snd (verifyDeviceToken (ah_sha (wh_auth host)) now (js_or_empty (dp_deviceId dp))
             (js_or_empty (cs_deviceTokenCandidate cs)) (dp_role dp) (dp_scopes dp) (ws_pairing st))\<rparr>
      else st)"

definition originChecked :: "('ip, 'h) wsHost \<Rightarrow> wsGateway \<Rightarrow> wsConnect \<Rightarrow> string + string" where
  "originChecked host gw c =
     (if hasBrowserOrigin gw \<or> isControlUi c \<or> isWebchat c
      then checkBrowserOrigin host (wg_requestHost gw) (wg_requestOrigin gw) (wg_allowedOrigins gw)
             (wg_hostHeaderOriginFallback gw) (isLocalClient host gw)
      else Inr [])"

definition handshakeParamsOf :: "wsGateway \<Rightarrow> wsConnect \<Rightarrow> bool \<Rightarrow> handshakeParams" where
  "handshakeParamsOf gw c hasDevice = \<lparr>hp_connectAuth = wc_auth c, hp_hasDeviceIdentity = hasDevice, hp_req = wg_req gw,
     hp_trustedProxies = wg_trustedProxies gw, hp_allowRealIpFallback = wg_allowRealIpFallback gw,
     hp_clientIp = wg_rateLimitIp gw\<rparr>"

definition missingDeviceOf ::
  "('ip, 'h) wsHost \<Rightarrow> wsGateway \<Rightarrow> wsConnect \<Rightarrow> gatewayRole \<Rightarrow> controlUiPolicy \<Rightarrow> connectAuthState \<Rightarrow> missingDevice" where
  "missingDeviceOf host gw c role policy cs =
     evaluateMissingDeviceIdentity \<lparr>md_hasDeviceIdentity = cu_hasDevice policy, md_role = role, md_isControlUi = isControlUi c,
       md_policy = policy,
       md_trustedProxyAuthOk = isTrustedProxyControlUiOperatorAuth (isControlUi c) role (ra_mode (wg_auth gw))
         (cs_authOk cs) (cs_authMethod cs),
       md_sharedAuthOk = cs_sharedAuthOk cs, md_authOk = cs_authOk cs,
       md_hasSharedAuth = (js_truthy (Option.bind (wc_auth c) ha_token) \<or> js_truthy (Option.bind (wc_auth c) ha_password)),
       md_isLocalClient = isLocalClient host gw\<rparr>"

definition skipsPairing ::
  "('ip, 'h) wsHost \<Rightarrow> wsGateway \<Rightarrow> wsConnect \<Rightarrow> gatewayRole \<Rightarrow> controlUiPolicy \<Rightarrow> connectAuthState \<Rightarrow> connectDecision \<Rightarrow> bool" where
  "skipsPairing host gw c role policy cs d \<longleftrightarrow>
     shouldSkipBackendSelfPairing (isGatewayBackendClient c) (isLocalClient host gw) (hasBrowserOrigin gw)
       (cs_sharedAuthOk cs) (cd_authMethod d) \<or>
     shouldSkipControlUiPairing policy role
       (isTrustedProxyControlUiOperatorAuth (isControlUi c) role (ra_mode (wg_auth gw)) (cd_authOk d) (cd_authMethod d))"

text \<open>After authentication: pairing, unless it is skipped, and the device's token.\<close>

definition finishConnect ::
  "('ip, 'h) wsHost \<Rightarrow> wsGateway \<Rightarrow> int \<Rightarrow> (pairingReason \<Rightarrow> string) \<Rightarrow> (pairingReason \<Rightarrow> string) \<Rightarrow> string \<Rightarrow> wsConnect \<Rightarrow>
   gatewayRole \<Rightarrow> string list \<Rightarrow> bool \<Rightarrow> authMethod \<Rightarrow> (string \<times> string) option \<Rightarrow> wsState \<Rightarrow> handshakeOutcome \<times> wsState" where
  "finishConnect host gw now ids toks ensureTok c role scopes skip how device st =
     (case device of
        None \<Rightarrow> (Admitted \<lparr>ad_role = role, ad_scopes = scopes, ad_method = how, ad_deviceToken = None\<rparr>, st)
      | Some (deviceId, key) \<Rightarrow>
          (case (if skip then (None, ws_pairing st)
                 else pairingStage host gw now ids toks c deviceId key role scopes (ws_pairing st)) of (failed, p) \<Rightarrow>
            (case failed of
               Some reason \<Rightarrow> (PairingRequired reason, st\<lparr>ws_pairing := p\<rparr>)
             | None \<Rightarrow>
                 (case ensureDeviceToken now ensureTok deviceId (roleName role) scopes p of (token, p') \<Rightarrow>
                   (Admitted \<lparr>ad_role = role, ad_scopes = scopes, ad_method = how, ad_deviceToken = token\<rparr>,
                    st\<lparr>ws_pairing := p'\<rparr>)))))"

definition decisionParamsOf :: "wsGateway \<Rightarrow> gatewayRole \<Rightarrow> string list \<Rightarrow> (wsDevice \<times> string) option \<Rightarrow> decisionParams" where
  "decisionParamsOf gw role scopes device = \<lparr>dp_hasDeviceIdentity = (device \<noteq> None),
     dp_deviceId = map_option (\<lambda>(d, k). wd_id d) device, dp_publicKey = map_option (\<lambda>(d, k). wd_publicKey d) device,
     dp_role = roleName role, dp_scopes = scopes, dp_clientIp = wg_rateLimitIp gw\<rparr>"

definition decideConnect ::
  "('ip, 'h) wsHost \<Rightarrow> wsGateway \<Rightarrow> int \<Rightarrow> (pairingReason \<Rightarrow> string) \<Rightarrow> (pairingReason \<Rightarrow> string) \<Rightarrow> string \<Rightarrow> wsConnect \<Rightarrow>
   gatewayRole \<Rightarrow> controlUiPolicy \<Rightarrow> string list \<Rightarrow> connectAuthState \<Rightarrow> (wsDevice \<times> string) option \<Rightarrow> wsState \<Rightarrow>
   handshakeOutcome \<times> wsState" where
  "decideConnect host gw now ids toks ensureTok c role policy scopes cs device st =
     (let dp = decisionParamsOf gw role scopes device
      in case resolveConnectAuthDecision (ah_lib (wh_auth host)) now (tokenVerifiersOf host now st) dp cs (ws_limiter st) of
           (d, limiter) \<Rightarrow>
             (let st' = (consumeTokens host now cs dp (cd_authMethod d) st)\<lparr>ws_limiter := limiter\<rparr>
              in if \<not> cd_authOk d then (Unauthorized (cd_authResult d), st\<lparr>ws_limiter := limiter\<rparr>)
                 else finishConnect host gw now ids toks ensureTok c role scopes (skipsPairing host gw c role policy cs d)
                   (cd_authMethod d) (map_option (\<lambda>(d, k). (wd_id d, k)) device) st'))"

definition connectPolicy :: "wsGateway \<Rightarrow> wsConnect \<Rightarrow> controlUiPolicy" where
  "connectPolicy gw c = resolveControlUiAuthPolicy (isControlUi c) (wg_allowInsecureAuth gw) (wg_disableDeviceAuth gw)
     (wc_device c \<noteq> None)"

definition connectDevice :: "wsGateway \<Rightarrow> wsConnect \<Rightarrow> wsDevice option" where
  "connectDevice gw c = (if cu_hasDevice (connectPolicy gw c) then wc_device c else None)"

text \<open>Without a device, scopes a client declares for itself are dropped, but for an allowed Control UI.\<close>

definition boundScopes :: "wsConnect \<Rightarrow> wsDevice option \<Rightarrow> missingDevice \<Rightarrow> string list" where
  "boundScopes c device missing =
     (if device = None \<and> (\<not> isControlUi c \<or> missing \<noteq> Allow) then [] else js_default (wc_scopes c) [])"

definition connectRole :: "wsConnect \<Rightarrow> gatewayRole option" where
  "connectRole c = parseGatewayRole (js_default (wc_role c) (JStr ''operator''))"

definition handleConnect ::
  "('ip, 'h) wsHost \<Rightarrow> wsGateway \<Rightarrow> int \<Rightarrow> (pairingReason \<Rightarrow> string) \<Rightarrow> (pairingReason \<Rightarrow> string) \<Rightarrow> string \<Rightarrow> wsConnect \<Rightarrow>
   wsState \<Rightarrow> handshakeOutcome \<times> wsState" where
  "handleConnect host gw now ids toks ensureTok c st =
     (case connectRole c of
        None \<Rightarrow> (InvalidRole, st)
      | Some role \<Rightarrow> (case originChecked host gw c of
            Inl reason \<Rightarrow> (OriginNotAllowed reason, st)
          | Inr matched \<Rightarrow>
              (case resolveConnectAuthState (wh_auth host) now (wg_auth gw)
                  (handshakeParamsOf gw c (cu_hasDevice (connectPolicy gw c))) (ws_limiter st) of (cs, limiter) \<Rightarrow>
                let policy = connectPolicy gw c; device = connectDevice gw c; st1 = st\<lparr>ws_limiter := limiter\<rparr>;
                    missing = missingDeviceOf host gw c role policy cs; scopes = boundScopes c device missing
                in if missing = RejectUnauthorized then (Unauthorized (cs_authResult cs), st1)
                   else if missing \<noteq> Allow then (MissingDevice missing, st1)
                   else (case device of
                       None \<Rightarrow> decideConnect host gw now ids toks ensureTok c role policy scopes cs None st1
                     | Some d \<Rightarrow> (case checkDevice host gw now c d role scopes of
                           Inl reason \<Rightarrow> (DeviceAuthInvalid reason, st1)
                         | Inr key \<Rightarrow> decideConnect host gw now ids toks ensureTok c role policy scopes cs (Some (d, key)) st1)))))"

section \<open>Remote clients\<close>

lemma request_silent:
  assumes "requestDevicePairing now newId req st = (Inr (pending, created), st')" "\<not> in_silent req"
  shows "\<not> pr_silent pending"
  using assms by (auto simp: requestDevicePairing_def Let_def mergePendingDevicePairingRequest_def newPending_def
    split: if_splits option.splits)

lemma requirePairing_loud:
  assumes "\<not> in_silent req"
  shows "requirePairing now newId newToken req st = (False, snd (requestDevicePairing now newId req st))"
  using request_silent [OF _ assms] by (auto simp: requirePairing_def split: sum.splits prod.splits)

lemma pairingRequest_remote: "\<not> isLocalClient host gw \<Longrightarrow> \<not> in_silent (pairingRequest host gw c i k role scopes reason)"
  by (simp add: pairingRequest_def shouldAllowSilentLocalPairing_def)

text \<open>A remote client passes the pairing stage only as the record of its device allows.\<close>

lemma pairingStage_remote:
  assumes remote: "\<not> isLocalClient host gw"
    and run: "pairingRun sha st A"
    and stage: "pairingStage host gw now ids toks c deviceId key role scopes st = (failed, st')"
  shows "pairingRun sha st' A \<and> (failed = None \<longrightarrow>
    (\<exists>paired. getPairedDeviceFromState st deviceId = Some paired \<and> pv_publicKey paired = key \<and>
       roleName role \<in> set (pairedRoles paired) \<and> \<not> scopesNeedUpgrade role scopes paired))"
proof -
  note loud = requirePairing_loud [OF pairingRequest_remote [OF remote]]
  note req = Request [OF run]
  show ?thesis
  proof (cases "getPairedDeviceFromState st deviceId")
    case None
    with stage req show ?thesis by (auto simp: pairingStage_def loud)
  next
    case (Some paired)
    show ?thesis
    proof (cases "pv_publicKey paired = key \<and> \<not> metadataMismatch c paired \<and> roleName role \<in> set (pairedRoles paired) \<and>
        \<not> scopesNeedUpgrade role scopes paired")
      case True
      then have "roleScopesAllow (roleName role) scopes (pairedScopes paired)"
        by (auto simp: scopesNeedUpgrade_def roleScopesAllow_iff)
      then have "connectPatch st deviceId (accessPatch gw c role scopes)"
        using Some by (auto simp: connectPatch_def accessPatch_def)
      from Update [OF run this] True Some stage show ?thesis by (auto simp: pairingStage_def)
    next
      case False
      then consider "pv_publicKey paired \<noteq> key" | "pv_publicKey paired = key" "metadataMismatch c paired"
        | "pv_publicKey paired = key" "\<not> metadataMismatch c paired" "roleName role \<notin> set (pairedRoles paired)"
        | "pv_publicKey paired = key" "\<not> metadataMismatch c paired" "roleName role \<in> set (pairedRoles paired)"
          "scopesNeedUpgrade role scopes paired"
        by blast
      then show ?thesis by cases (use stage Some req in \<open>auto simp: pairingStage_def loud\<close>)
    qed
  qed
qed

lemma consumeTokens_run:
  "pairingRun (ah_sha (wh_auth host)) (ws_pairing st) A \<Longrightarrow>
   pairingRun (ah_sha (wh_auth host)) (ws_pairing (consumeTokens host now cs dp how st)) A"
  by (simp add: consumeTokens_def Verify)

text \<open>A client that presents a device and is not local has its pairing checked, unless a trusted proxy
  vouches for an operator of the Control UI.\<close>

lemma remote_not_skipped:
  assumes "\<not> isLocalClient host gw" "cu_hasDevice policy" "cu_allowBypass policy \<longrightarrow> \<not> cu_hasDevice policy"
    and "cd_authMethod d \<noteq> MethodTrustedProxy"
  shows "\<not> skipsPairing host gw c role policy cs d"
  using assms by (auto simp: skipsPairing_def shouldSkipBackendSelfPairing_def shouldSkipControlUiPairing_def
    isTrustedProxyControlUiOperatorAuth_def)

definition approvedAdmission ::
  "('ip, 'h) wsHost \<Rightarrow> wsState \<Rightarrow> (string \<times> string) set \<Rightarrow> wsDevice \<Rightarrow> string \<Rightarrow> admission \<Rightarrow> bool" where
  "approvedAdmission host st A device key ad \<longleftrightarrow>
     (\<exists>paired. getPairedDeviceFromState (ws_pairing st) (wd_id device) = Some paired \<and> pv_publicKey paired = key \<and>
        roleName (ad_role ad) \<in> set (pairedRoles paired)) \<and>
     (\<forall>s \<in> names (ad_scopes ad). scopeSatisfied OPERATOR_ROLE s {s. (normalizeDeviceId (wd_id device), s) \<in> A})"

lemma stage_covers:
  assumes ok: "stateOk A st" and paired: "getPairedDeviceFromState st deviceId = Some paired"
    and scopes: "\<not> scopesNeedUpgrade role scopes paired" and s: "s \<in> names scopes"
  shows "scopeSatisfied OPERATOR_ROLE s {s. (normalizeDeviceId deviceId, s) \<in> A}"
proof (rule scopeSatisfied_trans [OF _ paired_covered [OF lookup_ok [OF ok paired]]])
  have "scopes \<noteq> []" using s by auto
  with scopes have "roleScopesAllow (roleName role) scopes (pairedScopes paired)" by (simp add: scopesNeedUpgrade_def)
  then show "scopeSatisfied OPERATOR_ROLE s (names (pairedScopes paired))"
    using s by (auto simp: roleScopesAllow_iff intro: scopeSatisfied_operator)
qed

lemma verify_lookup:
  assumes ok: "stateOk A st"
    and look: "getPairedDeviceFromState (snd (verifyDeviceToken sha now dev tok role scopes st)) deviceId = Some p'"
  shows "\<exists>p. getPairedDeviceFromState st deviceId = Some p \<and> pv_publicKey p = pv_publicKey p' \<and> pairedRoles p = pairedRoles p'"
proof (cases "tokenRefusal sha st dev tok role scopes")
  case (Inr r)
  obtain d r1 t where r: "r = (d, r1, t)" by (cases r)
  note D = tokenRefusal_InrD [OF Inr [unfolded r]]
  have "pv_deviceId d = normalizeDeviceId dev" using lookup_ok [OF ok D(1)] by (simp add: deviceOk_def)
  then have put: "snd (verifyDeviceToken sha now dev tok role scopes st) =
      putPaired (normalizeDeviceId dev) (d\<lparr>pv_tokens := Some (AList.update r1 (t\<lparr>dt_lastUsedAtMs := Some now\<rparr>) (tokensOf d))\<rparr>)
        (loadState now st)"
    using Inr r by (simp add: verifyDeviceToken_def Let_def)
  show ?thesis
  proof (cases "normalizeDeviceId deviceId = normalizeDeviceId dev")
    case True
    with look put have "p' = d\<lparr>pv_tokens := Some (AList.update r1 (t\<lparr>dt_lastUsedAtMs := Some now\<rparr>) (tokensOf d))\<rparr>"
      by (simp add: getPairedDeviceFromState_def)
    then have "pv_publicKey d = pv_publicKey p'" "pairedRoles d = pairedRoles p'"
      by (simp, cases "pv_roles d", simp_all add: pairedRoles_def)
    with D(1) True show ?thesis by (auto simp: getPairedDeviceFromState_def)
  next
    case False
    with look put show ?thesis by (auto simp: getPairedDeviceFromState_def)
  qed
qed (use look in \<open>simp add: verifyDeviceToken_def Let_def\<close>)

lemma consume_lookup:
  assumes "stateOk A (ws_pairing st)"
    and "getPairedDeviceFromState (ws_pairing (consumeTokens host now cs dp how st)) deviceId = Some p'"
  shows "\<exists>p. getPairedDeviceFromState (ws_pairing st) deviceId = Some p \<and> pv_publicKey p = pv_publicKey p' \<and> pairedRoles p = pairedRoles p'"
  using assms verify_lookup [OF assms(1)] by (auto simp: consumeTokens_def split: if_splits)

lemma finish_remote:
  assumes remote: "\<not> isLocalClient host gw"
    and run: "pairingRun (ah_sha (wh_auth host)) (ws_pairing st) A"
    and fin: "finishConnect host gw now ids toks ensureTok c role scopes skip how device st = (outcome, st')"
  shows "pairingRun (ah_sha (wh_auth host)) (ws_pairing st') A \<and>
    (\<forall>ad deviceId key. outcome = Admitted ad \<longrightarrow> device = Some (deviceId, key) \<longrightarrow> \<not> skip \<longrightarrow>
      ad_role ad = role \<and> ad_scopes ad = scopes \<and>
      (\<exists>paired. getPairedDeviceFromState (ws_pairing st) deviceId = Some paired \<and> pv_publicKey paired = key \<and>
        roleName role \<in> set (pairedRoles paired)) \<and>
      (\<forall>s \<in> names scopes. scopeSatisfied OPERATOR_ROLE s {s. (normalizeDeviceId deviceId, s) \<in> A}))"
proof (cases device)
  case None
  with fin run show ?thesis by (auto simp: finishConnect_def)
next
  case (Some dk)
  obtain deviceId key where dk: "dk = (deviceId, key)" by (cases dk)
  show ?thesis
  proof (cases skip)
    case True
    with fin run Ensure [OF run] show ?thesis
      by (auto simp: finishConnect_def Some dk split: prod.splits) (metis snd_conv)
  next
    case False
    obtain failed p where stage: "pairingStage host gw now ids toks c deviceId key role scopes (ws_pairing st) = (failed, p)"
      by (cases "pairingStage host gw now ids toks c deviceId key role scopes (ws_pairing st)")
    note S = pairingStage_remote [OF remote run stage]
    show ?thesis
    proof (cases failed)
      case (Some reason)
      with fin S False \<open>device = Some dk\<close> show ?thesis by (auto simp: finishConnect_def dk stage)
    next
      case None
      obtain token p' where ens: "ensureDeviceToken now ensureTok deviceId (roleName role) scopes p = (token, p')"
        by (cases "ensureDeviceToken now ensureTok deviceId (roleName role) scopes p")
      from S None obtain paired where paired: "getPairedDeviceFromState (ws_pairing st) deviceId = Some paired"
        "pv_publicKey paired = key" "roleName role \<in> set (pairedRoles paired)" "\<not> scopesNeedUpgrade role scopes paired"
        by blast
      have "pairingRun (ah_sha (wh_auth host)) p' A" using Ensure [OF conjunct1 [OF S]] ens by (metis snd_conv)
      with fin False None \<open>device = Some dk\<close> paired stage_covers [OF run_ok [OF run] paired(1,4)] show ?thesis
        by (auto simp: finishConnect_def dk stage ens)
    qed
  qed
qed

lemma decision_method:
  assumes "resolveConnectAuthDecision lib now verify dp cs limiter = (d, limiter')" "cd_authOk d"
  shows "cd_authMethod d = MethodTrustedProxy \<longrightarrow> cs_authMethod cs = MethodTrustedProxy"
  using assms by (auto simp: resolveConnectAuthDecision_def bootstrapStage_def Let_def split: if_splits sum.splits prod.splits option.splits)

lemma decide_remote:
  assumes remote: "\<not> isLocalClient host gw"
    and run: "pairingRun (ah_sha (wh_auth host)) (ws_pairing st) A"
    and policy: "cu_hasDevice policy \<longrightarrow> \<not> cu_allowBypass policy" and dev: "device \<noteq> None \<longrightarrow> cu_hasDevice policy"
    and dec: "decideConnect host gw now ids toks ensureTok c role policy scopes cs device st = (outcome, st')"
  shows "pairingRun (ah_sha (wh_auth host)) (ws_pairing st') A \<and>
    (\<forall>ad d key. outcome = Admitted ad \<longrightarrow> device = Some (d, key) \<longrightarrow> ad_method ad \<noteq> MethodTrustedProxy \<longrightarrow>
      approvedAdmission host st A d key ad)"
proof -
  define dp where "dp = decisionParamsOf gw role scopes device"
  obtain d limiter where d: "resolveConnectAuthDecision (ah_lib (wh_auth host)) now (tokenVerifiersOf host now st) dp cs (ws_limiter st) = (d, limiter)"
    by (cases "resolveConnectAuthDecision (ah_lib (wh_auth host)) now (tokenVerifiersOf host now st) dp cs (ws_limiter st)")
  let ?st1 = "(consumeTokens host now cs dp (cd_authMethod d) st)\<lparr>ws_limiter := limiter\<rparr>"
  show ?thesis
  proof (cases "cd_authOk d")
    case False
    with dec d run show ?thesis by (auto simp: decideConnect_def Let_def dp_def [symmetric])
  next
    case True
    have fin: "finishConnect host gw now ids toks ensureTok c role scopes (skipsPairing host gw c role policy cs d)
        (cd_authMethod d) (map_option (\<lambda>(d, k). (wd_id d, k)) device) ?st1 = (outcome, st')"
      using dec d True by (simp add: decideConnect_def Let_def dp_def [symmetric])
    have run1: "pairingRun (ah_sha (wh_auth host)) (ws_pairing ?st1) A" using consumeTokens_run [OF run] by simp
    note F = finish_remote [OF remote run1 fin]
    have "approvedAdmission host st A dv key ad"
      if out: "outcome = Admitted ad" and dv: "device = Some (dv, key)" and how: "ad_method ad \<noteq> MethodTrustedProxy" for ad dv key
    proof -
      have "ad_method ad = cd_authMethod d"
        using fin out dv by (auto simp: finishConnect_def split: prod.splits option.splits)
      then have skip: "\<not> skipsPairing host gw c role policy cs d"
        using remote_not_skipped [OF remote, of policy d] how policy dev dv by auto
      with F out dv obtain paired where
        P: "getPairedDeviceFromState (ws_pairing ?st1) (wd_id dv) = Some paired" "pv_publicKey paired = key"
          "roleName role \<in> set (pairedRoles paired)" and ad: "ad_role ad = role" "ad_scopes ad = scopes"
        and cov: "\<forall>s \<in> names scopes. scopeSatisfied OPERATOR_ROLE s {s. (normalizeDeviceId (wd_id dv), s) \<in> A}"
        by auto
      from P(1) consume_lookup [OF run_ok [OF run], of host now cs dp "cd_authMethod d" "wd_id dv" paired] P(2,3) ad cov
      show ?thesis by (auto simp: approvedAdmission_def)
    qed
    with F show ?thesis by blast
  qed
qed

section \<open>Who connects with which scopes\<close>

lemma policy_device: "cu_hasDevice (connectPolicy gw c) \<longrightarrow> \<not> cu_allowBypass (connectPolicy gw c)"
  by (simp add: connectPolicy_def resolveControlUiAuthPolicy_def Let_def)

lemma connectDevice_raw: "\<not> (isControlUi c \<and> wg_disableDeviceAuth gw = Some True) \<Longrightarrow> connectDevice gw c = wc_device c"
  by (auto simp: connectDevice_def connectPolicy_def resolveControlUiAuthPolicy_def Let_def)

lemma connectDevice_has: "connectDevice gw c = Some d \<Longrightarrow> cu_hasDevice (connectPolicy gw c)"
  by (simp add: connectDevice_def split: if_splits)

text \<open>A connect request that gets as far as the credentials.\<close>

lemma handleConnect_decides:
  assumes "handleConnect host gw now ids toks ensureTok c st = (outcome, st')"
  obtains (refused) "ws_pairing st' = ws_pairing st" "\<And>ad. outcome \<noteq> Admitted ad"
  | (decided) role cs limiter device scopes where
      "connectRole c = Some role"
      "resolveConnectAuthState (wh_auth host) now (wg_auth gw)
         (handshakeParamsOf gw c (cu_hasDevice (connectPolicy gw c))) (ws_limiter st) = (cs, limiter)"
      "missingDeviceOf host gw c role (connectPolicy gw c) cs = Allow"
      "scopes = boundScopes c (connectDevice gw c) Allow"
      "map_option fst device = connectDevice gw c"
      "\<And>d key. device = Some (d, key) \<Longrightarrow> checkDevice host gw now c d role scopes = Inr key"
      "decideConnect host gw now ids toks ensureTok c role (connectPolicy gw c) scopes cs device (st\<lparr>ws_limiter := limiter\<rparr>) =
         (outcome, st')"
proof (cases "connectRole c")
  case None
  with assms refused show ?thesis by (auto simp: handleConnect_def)
next
  case role: (Some role)
  show ?thesis
  proof (cases "originChecked host gw c")
    case (Inl reason)
    with assms role refused show ?thesis by (auto simp: handleConnect_def)
  next
    case origin: (Inr matched)
    obtain cs limiter where cs: "resolveConnectAuthState (wh_auth host) now (wg_auth gw)
        (handshakeParamsOf gw c (cu_hasDevice (connectPolicy gw c))) (ws_limiter st) = (cs, limiter)" by fastforce
    note con = assms [unfolded handleConnect_def role origin cs Let_def, simplified]
    show ?thesis
    proof (cases "missingDeviceOf host gw c role (connectPolicy gw c) cs = Allow")
      case False
      with con refused show ?thesis by (auto split: if_splits)
    next
      case allow: True
      show ?thesis
      proof (cases "connectDevice gw c")
        case None
        with con allow show ?thesis by (intro decided [OF role cs allow, of _ None]) simp_all
      next
        case dev: (Some d)
        show ?thesis
        proof (cases "checkDevice host gw now c d role (boundScopes c (connectDevice gw c) Allow)")
          case (Inl reason)
          with con allow dev refused show ?thesis by auto
        next
          case key: (Inr key)
          with con allow dev show ?thesis by (intro decided [OF role cs allow, of _ "Some (d, key)"]) simp_all
        qed
      qed
    qed
  qed
qed

text \<open>What a device shows of its key: its id belongs to the key, and with the key are signed, in one of the two
  versions of the message, the client, the role and scopes it asks for, the secret it presents, a time that
  is not more than two minutes away, and the number that the gateway drew for this connection.\<close>

definition signedMessage ::
  "wsGateway \<Rightarrow> wsConnect \<Rightarrow> wsDevice \<Rightarrow> gatewayRole \<Rightarrow> string list \<Rightarrow> int \<Rightarrow> string \<Rightarrow> string list \<Rightarrow> string" where
  "signedMessage gw c device role scopes signedAt version metadata =
     js_join ''|'' ([version, wd_id device, wc_clientId c, wc_clientMode c, roleName role, js_join '','' scopes,
       show_int signedAt, js_or_empty (resolveSignatureToken (wc_auth c)), wg_nonce gw] @ metadata)"

definition provesKey ::
  "('ip, 'h) wsHost \<Rightarrow> wsGateway \<Rightarrow> int \<Rightarrow> wsConnect \<Rightarrow> wsDevice \<Rightarrow> gatewayRole \<Rightarrow> string list \<Rightarrow> bool" where
  "provesKey host gw now c device role scopes \<longleftrightarrow>
     wh_deriveId host (wd_publicKey device) = Some (wd_id device) \<and> wg_nonce gw \<noteq> [] \<and>
     (case wd_signedAt device of None \<Rightarrow> False
      | Some signedAt \<Rightarrow> \<bar>now - signedAt\<bar> \<le> 120000 \<and>
         (let signs = (\<lambda>message. wh_verifySignature host (wd_publicKey device) message (wd_signature device));
              message = signedMessage gw c device role scopes signedAt
          in signs (message ''v2'' []) \<or>
             signs (message ''v3'' [normalizeDeviceMetadataForAuth (wc_platform c),
               normalizeDeviceMetadataForAuth (wc_deviceFamily c)])))"

lemma payload_message:
  "buildDeviceAuthPayload c device role scopes signedAt (resolveSignatureToken (wc_auth c)) (wg_nonce gw) =
     signedMessage gw c device role scopes signedAt ''v2'' []"
  "buildDeviceAuthPayloadV3 c device role scopes signedAt (resolveSignatureToken (wc_auth c)) (wg_nonce gw) =
     signedMessage gw c device role scopes signedAt ''v3'' [normalizeDeviceMetadataForAuth (wc_platform c),
       normalizeDeviceMetadataForAuth (wc_deviceFamily c)]"
  by (simp_all add: buildDeviceAuthPayload_def buildDeviceAuthPayloadV3_def payloadFields_def signedMessage_def)

lemma checkDevice_key: "checkDevice host gw now c d role scopes = Inr key \<Longrightarrow>
  wh_normalizeKey host (wd_publicKey d) = Some key \<and> provesKey host gw now c d role scopes"
  by (auto simp: checkDevice_def Let_def js_some_def js_or_empty_def provesKey_def DEVICE_SIGNATURE_SKEW_MS_def
    resolveDeviceSignaturePayloadVersion_def payload_message split: if_splits option.splits)

lemma admitted_as_asked:
  assumes "decideConnect host gw now ids toks ensureTok c role policy scopes cs device st = (Admitted ad, st')"
  shows "ad_role ad = role \<and> ad_scopes ad = scopes"
  using assms by (auto simp: decideConnect_def finishConnect_def Let_def split: prod.splits option.splits if_splits)

lemma remote_admission:
  assumes remote: "\<not> isLocalClient host gw"
    and run: "pairingRun (ah_sha (wh_auth host)) (ws_pairing st) approvals"
    and con: "handleConnect host gw now ids toks ensureTok c st = (outcome, st')"
  shows "pairingRun (ah_sha (wh_auth host)) (ws_pairing st') approvals \<and>
    (\<forall>ad device. outcome = Admitted ad \<longrightarrow> wc_device c = Some device \<longrightarrow>
      \<not> (isControlUi c \<and> wg_disableDeviceAuth gw = Some True) \<longrightarrow>
      provesKey host gw now c device (ad_role ad) (ad_scopes ad) \<and>
      (ad_method ad \<noteq> MethodTrustedProxy \<longrightarrow>
        (\<exists>key. wh_normalizeKey host (wd_publicKey device) = Some key \<and> approvedAdmission host st approvals device key ad)))"
  using con
proof (cases rule: handleConnect_decides)
  case refused
  with run show ?thesis by auto
next
  case (decided role cs limiter device scopes)
  have run1: "pairingRun (ah_sha (wh_auth host)) (ws_pairing (st\<lparr>ws_limiter := limiter\<rparr>)) approvals" using run by simp
  have "device \<noteq> None \<longrightarrow> cu_hasDevice (connectPolicy gw c)"
    using decided(5) [symmetric] connectDevice_has [of gw c] by auto
  note D = decide_remote [OF remote run1 policy_device this decided(7)]
  have same: "approvedAdmission host (st\<lparr>ws_limiter := limiter\<rparr>) = approvedAdmission host st"
    by (intro ext) (simp add: approvedAdmission_def)
  have "provesKey host gw now c dv (ad_role ad) (ad_scopes ad) \<and> (ad_method ad \<noteq> MethodTrustedProxy \<longrightarrow>
      (\<exists>key. wh_normalizeKey host (wd_publicKey dv) = Some key \<and> approvedAdmission host st approvals dv key ad))"
    if out: "outcome = Admitted ad" and dv: "wc_device c = Some dv" "\<not> (isControlUi c \<and> wg_disableDeviceAuth gw = Some True)" for ad dv
  proof -
    from decided(5) connectDevice_raw [OF dv(2)] dv(1) obtain key where dev: "device = Some (dv, key)"
      by (cases device) auto
    have key: "wh_normalizeKey host (wd_publicKey dv) = Some key" "provesKey host gw now c dv (ad_role ad) (ad_scopes ad)"
      using checkDevice_key [OF decided(6) [OF dev]] admitted_as_asked [OF decided(7) [unfolded out]] by auto
    moreover have "ad_method ad \<noteq> MethodTrustedProxy \<longrightarrow> approvedAdmission host st approvals dv key ad"
      using D out dev by (simp add: same)
    ultimately show ?thesis by blast
  qed
  with D show ?thesis by blast
qed

text \<open>C1: A remote client with a device is let in only as an operator approved it. However it connects, it
  changes nothing about what is approved. When it is admitted, it has proved to hold its key: its id belongs
  to the key, and the key has signed the role and the scopes that it is granted, a time not more than two
  minutes away, and the number the gateway drew for this connection. And unless a trusted proxy vouches for
  it, the device is paired with this key for the role, and each of the scopes is covered by scopes approved
  for the device. The Control UI is excepted where the configuration turns device authentication off.\<close>

theorem remote_device_needs_approval:
  assumes remote: "\<not> isLocalClient host gw"
    and run: "pairingRun (ah_sha (wh_auth host)) (ws_pairing st) approvals"
    and con: "handleConnect host gw now ids toks ensureTok c st = (outcome, st')"
  shows "pairingRun (ah_sha (wh_auth host)) (ws_pairing st') approvals \<and>
    (\<forall>ad device. outcome = Admitted ad \<longrightarrow> wc_device c = Some device \<longrightarrow>
      \<not> (isControlUi c \<and> wg_disableDeviceAuth gw = Some True) \<longrightarrow>
      provesKey host gw now c device (ad_role ad) (ad_scopes ad) \<and>
      (ad_method ad \<noteq> MethodTrustedProxy \<longrightarrow>
        (\<exists>key. wh_normalizeKey host (wd_publicKey device) = Some key \<and> approvedAdmission host st approvals device key ad)))"
  using remote run con by (rule remote_admission)

text \<open>An operator's device that was paired with write access, coming from another machine.\<close>

definition demoWs :: "(string, string) wsHost" where
  "demoWs = \<lparr>wh_auth = demoHost, wh_deriveId = (\<lambda>k. if k = ''pk1'' then Some ''dev1'' else None),
     wh_normalizeKey = Some, wh_verifySignature = (\<lambda>key payload signature. signature = ''signed by '' @ key),
     wh_parseUrl = (\<lambda>url. None)\<rparr>"

definition demoGateway :: wsGateway where
  "demoGateway = \<lparr>wg_auth = demoAuth, wg_trustedProxies = [], wg_allowRealIpFallback = False,
     wg_req = \<lparr>rq_remoteAddress = Some ''10.0.0.1'', rq_headers = []\<rparr>, wg_rateLimitIp = Some ''10.0.0.1'',
     wg_reportedIp = Some ''10.0.0.1'', wg_requestOrigin = None, wg_requestHost = None, wg_nonce = ''n0nce'',
     wg_allowInsecureAuth = None, wg_disableDeviceAuth = None, wg_allowedOrigins = [], wg_hostHeaderOriginFallback = False\<rparr>"

definition demoDevice :: wsDevice where
  "demoDevice = \<lparr>wd_id = ''dev1'', wd_publicKey = ''pk1'', wd_signature = ''signed by pk1'', wd_signedAt = Some 3000,
     wd_nonce = Some ''n0nce''\<rparr>"

definition demoConnect :: "wsDevice option \<Rightarrow> handshakeAuth option \<Rightarrow> wsConnect" where
  "demoConnect device auth = \<lparr>wc_role = None, wc_scopes = Some [''operator.read''], wc_clientId = ''cli'', wc_clientMode = ''cli'',
     wc_displayName = None, wc_platform = None, wc_deviceFamily = None, wc_device = device, wc_auth = auth\<rparr>"

definition demoState :: wsState where
  "demoState = \<lparr>ws_limiter = None, ws_pairing = pairedState ''operator'' [''operator.write''], ws_bootstrap = []\<rparr>"

definition demoHandshake :: "wsDevice option \<Rightarrow> handshakeAuth option \<Rightarrow> handshakeOutcome \<times> wsState" where
  "demoHandshake device auth = handleConnect demoWs demoGateway 3000 (\<lambda>r. ''req2'') (\<lambda>r. ''tok2'') ''tok3''
     (demoConnect device auth) demoState"

definition withDeviceToken :: "handshakeAuth option" where
  "withDeviceToken = Some \<lparr>ha_token = None, ha_bootstrapToken = None, ha_deviceToken = Some ''tok1'', ha_password = None\<rparr>"

definition withSecret :: "handshakeAuth option" where
  "withSecret = Some \<lparr>ha_token = Some ''s3cret'', ha_bootstrapToken = None, ha_deviceToken = None, ha_password = None\<rparr>"

theorem remote_device_needs_approval_witness:
  "case demoHandshake (Some demoDevice) withDeviceToken of
     (Admitted ad, st') \<Rightarrow> ad_method ad = MethodDeviceToken \<and>
       pairingRun (\<lambda>s. s) (ws_pairing st') {(''dev1'', ''operator.write'')} \<and>
       provesKey demoWs demoGateway 3000 (demoConnect (Some demoDevice) withDeviceToken) demoDevice (ad_role ad) (ad_scopes ad) \<and>
       approvedAdmission demoWs demoState {(''dev1'', ''operator.write'')} demoDevice ''pk1'' ad
   | _ \<Rightarrow> False"
proof -
  have "(case fst (demoHandshake (Some demoDevice) withDeviceToken) of Admitted ad \<Rightarrow> ad_method ad = MethodDeviceToken | _ \<Rightarrow> False)"
    by code_simp
  then obtain ad st' where con: "demoHandshake (Some demoDevice) withDeviceToken = (Admitted ad, st')" "ad_method ad = MethodDeviceToken"
    by (cases "demoHandshake (Some demoDevice) withDeviceToken"; cases "fst (demoHandshake (Some demoDevice) withDeviceToken)") auto
  have host: "ah_sha (wh_auth demoWs) = (\<lambda>s. s)" "wh_normalizeKey demoWs = Some" "wd_publicKey demoDevice = ''pk1''"
    "ws_pairing demoState = pairedState ''operator'' [''operator.write'']" "wg_disableDeviceAuth demoGateway = None"
    by (simp_all add: demoWs_def demoHost_def demoDevice_def demoState_def demoGateway_def)
  have remote: "\<not> isLocalClient demoWs demoGateway" by code_simp
  have run: "pairingRun (ah_sha (wh_auth demoWs)) (ws_pairing demoState) {(''dev1'', ''operator.write'')}"
    by (simp add: host pairedState_run)
  have "wc_device (demoConnect (Some demoDevice) withDeviceToken) = Some demoDevice" by (simp add: demoConnect_def)
  with remote_device_needs_approval [OF remote run con(1) [unfolded demoHandshake_def]] con show ?thesis by (simp add: host)
qed

text \<open>Without a device.\<close>

lemma cs_authMethod_proxy:
  assumes "resolveConnectAuthState host now auth hs limiter = (cs, limiter')" "cs_authMethod cs = MethodTrustedProxy" "cs_authOk cs"
  shows "ar_method (cs_authResult cs) = Some MethodTrustedProxy"
  using assms by (auto simp: resolveConnectAuthState_def Let_def js_default_def split: prod.splits option.splits if_splits)

lemma knowsSecret_probe: "knowsSecret host (auth\<lparr>ra_allowTailscale := b\<rparr>) = knowsSecret host auth"
  by (intro ext, cases "ra_mode auth") (simp_all add: knowsSecret_def)

lemma knowsSecret_params: "cp_connectAuth p = cp_connectAuth q \<Longrightarrow> knowsSecret host auth p \<longleftrightarrow> knowsSecret host auth q"
  by (cases "ra_mode auth") (simp_all add: knowsSecret_def)

lemma probe_secret:
  assumes "ar_ok (fst (authorizeHttpGatewayConnect host now (auth\<lparr>ra_allowTailscale := False\<rparr>) (probeParams hs) None))"
    and "isSecretMethod (ar_method (fst (authorizeHttpGatewayConnect host now (auth\<lparr>ra_allowTailscale := False\<rparr>) (probeParams hs) None)))"
  shows "knowsSecret host auth (sharedParams hs)"
proof -
  have mode: "ra_mode auth = ModeToken \<or> ra_mode auth = ModePassword"
  proof (cases "ra_mode auth")
    case ModeNone
    with assms(2) show ?thesis
      by (simp add: authorizeHttpGatewayConnect_def authorizeGatewayConnect_def Let_def isSecretMethod_def)
  next
    case ModeTrustedProxy
    with assms(2) show ?thesis
      by (auto simp: authorizeHttpGatewayConnect_def authorizeGatewayConnect_def Let_def isSecretMethod_def authorizeByProxy_def
        split: option.splits if_splits sum.splits)
  qed simp_all
  then have "knowsSecret host auth (probeParams hs)"
    using assms(1) authorizeGatewayConnect_secret_modes [of "auth\<lparr>ra_allowTailscale := False\<rparr>" host now SurfaceHttp "probeParams hs" None]
    by (simp add: authorizeHttpGatewayConnect_def tailscaleLogsIn_def knowsSecret_probe)
  then show ?thesis using knowsSecret_params [of "probeParams hs" "sharedParams hs" host auth] by (simp add: probeParams_def)
qed

lemma sharedAuth_means:
  assumes "resolveConnectAuthState host now auth hs limiter = (cs, limiter')" "cs_sharedAuthOk cs"
  shows "knowsSecret host auth (sharedParams hs) \<or> ar_method (cs_authResult cs) = Some MethodTrustedProxy"
  using assms probe_secret [of host now auth hs]
  by (auto simp: resolveConnectAuthState_def Let_def split: prod.splits option.splits if_splits)

lemma decide_deviceless:
  assumes "decideConnect host gw now ids toks ensureTok c role policy scopes cs None st = (Admitted ad, st')"
  shows "cs_authOk cs \<and> ad = \<lparr>ad_role = role, ad_scopes = scopes, ad_method = cs_authMethod cs, ad_deviceToken = None\<rparr>"
  using assms
  by (auto simp: decideConnect_def decisionParamsOf_def resolveConnectAuthDecision_def bootstrapStage_def finishConnect_def
    consumeTokens_def Let_def split: if_splits)

text \<open>C33: Only an operator connects without a device, and not with just anything: it presents the shared
  secret or a trusted proxy vouches for it, or it is the Control UI of a gateway whose configuration turns
  device authentication off. It gets no device token, and scopes only as the Control UI.\<close>

theorem deviceless_client_is_operator:
  assumes con: "handleConnect host gw now ids toks ensureTok c st = (Admitted ad, st')"
    and none: "wc_device c = None"
  shows "ad_role ad = RoleOperator \<and> ad_deviceToken ad = None \<and> (ad_scopes ad = [] \<or> isControlUi c) \<and>
    (knowsSecret (wh_auth host) (wg_auth gw) (sharedParams (handshakeParamsOf gw c False)) \<or>
     ad_method ad = MethodTrustedProxy \<or> (isControlUi c \<and> wg_disableDeviceAuth gw = Some True))"
  using con
proof (cases rule: handleConnect_decides)
  case (decided role cs limiter device scopes)
  have dev: "connectDevice gw c = None" "device = None" "\<not> cu_hasDevice (connectPolicy gw c)"
    using none decided(5) by (auto simp: connectDevice_def connectPolicy_def resolveControlUiAuthPolicy_def Let_def split: if_splits)
  from decide_deviceless [OF decided(7) [unfolded dev(2)]]
  have ad: "ad_role ad = role" "ad_scopes ad = scopes" "ad_method ad = cs_authMethod cs" "ad_deviceToken ad = None" and ok: "cs_authOk cs"
    by simp_all
  have cs: "resolveConnectAuthState (wh_auth host) now (wg_auth gw) (handshakeParamsOf gw c False) (ws_limiter st) = (cs, limiter)"
    using decided(2) dev(3) by simp
  consider (proxy) "isControlUi c" "role = RoleOperator" "cs_authMethod cs = MethodTrustedProxy"
    | (bypass) "isControlUi c" "cu_allowBypass (connectPolicy gw c)" "role = RoleOperator"
    | (shared) "role = RoleOperator" "cs_sharedAuthOk cs"
    using decided(3) dev(3)
    by (auto simp: missingDeviceOf_def evaluateMissingDeviceIdentity_def isTrustedProxyControlUiOperatorAuth_def
      roleCanSkipDeviceIdentity_def split: if_splits)
  then show ?thesis
  proof cases
    case shared
    have "cs_authMethod cs = MethodTrustedProxy" if "ar_method (cs_authResult cs) = Some MethodTrustedProxy"
      using cs that by (auto simp: resolveConnectAuthState_def Let_def js_default_def split: prod.splits)
    with sharedAuth_means [OF cs shared(2)] shared(1) ad show ?thesis by (auto simp: decided(4) boundScopes_def dev)
  qed (use ad in \<open>auto simp: connectPolicy_def resolveControlUiAuthPolicy_def Let_def\<close>)
next
  case refused
  then show ?thesis by blast
qed

theorem deviceless_client_is_operator_witness:
  "case demoHandshake None withSecret of
     (Admitted ad, st') \<Rightarrow> ad_role ad = RoleOperator \<and> ad_scopes ad = [] \<and> ad_deviceToken ad = None
   | _ \<Rightarrow> False"
proof -
  have "(case fst (demoHandshake None withSecret) of Admitted ad \<Rightarrow> True | _ \<Rightarrow> False)" by code_simp
  then obtain ad st' where con: "demoHandshake None withSecret = (Admitted ad, st')"
    by (cases "demoHandshake None withSecret"; cases "fst (demoHandshake None withSecret)") auto
  have c: "wc_device (demoConnect None withSecret) = None" "\<not> isControlUi (demoConnect None withSecret)"
    by (simp_all add: demoConnect_def isControlUi_def)
  from deviceless_client_is_operator [OF con [unfolded demoHandshake_def] c(1)] c(2) con show ?thesis by simp
qed

end
