(* ===== verification/Gateway_Methods.thy ===== *)
theory Gateway_Methods
  imports Gateway_Handshake
begin

text \<open>
  What a connected client may call: \<open>src/gateway/method-scopes.ts\<close>, the check of
  \<open>src/gateway/server-methods.ts\<close> in front of every request, the budget of writes to the control plane
  (\<open>control-plane-rate-limit.ts\<close>) and the guard against floods of unauthorised requests
  (\<open>unauthorized-flood-guard.ts\<close>). Which methods have a handler is an argument.
\<close>

section \<open>Scopes of methods\<close>

datatype operatorScope = ScopeAdmin | ScopeRead | ScopeWrite | ScopeApprovals | ScopePairing


definition CLI_DEFAULT_OPERATOR_SCOPES :: "operatorScope list" where
  "CLI_DEFAULT_OPERATOR_SCOPES = [ScopeAdmin, ScopeRead, ScopeWrite, ScopeApprovals, ScopePairing]"

definition NODE_ROLE_METHODS :: "string list" where
  "NODE_ROLE_METHODS = [
     ''node.invoke.result'', ''node.event'', ''node.pending.drain'', ''node.canvas.capability.refresh'',
     ''node.pending.pull'', ''node.pending.ack'', ''skills.bins'']"

fun METHOD_SCOPE_GROUPS :: "operatorScope \<Rightarrow> string list" where
  "METHOD_SCOPE_GROUPS ScopeApprovals = [
     ''exec.approval.request'', ''exec.approval.waitDecision'', ''exec.approval.resolve'']"
| "METHOD_SCOPE_GROUPS ScopePairing = [
     ''node.pair.request'', ''node.pair.list'', ''node.pair.approve'', ''node.pair.reject'', ''node.pair.verify'',
     ''device.pair.list'', ''device.pair.approve'', ''device.pair.reject'', ''device.pair.remove'',
     ''device.token.rotate'', ''device.token.revoke'', ''node.rename'']"
| "METHOD_SCOPE_GROUPS ScopeRead = [
     ''health'', ''doctor.memory.status'', ''logs.tail'', ''channels.status'', ''status'', ''usage.status'',
     ''usage.cost'', ''tts.status'', ''tts.providers'', ''models.list'', ''tools.catalog'', ''agents.list'',
     ''agent.identity.get'', ''skills.status'', ''voicewake.get'', ''sessions.list'', ''sessions.get'',
     ''sessions.preview'', ''sessions.resolve'', ''sessions.usage'', ''sessions.usage.timeseries'',
     ''sessions.usage.logs'', ''cron.list'', ''cron.status'', ''cron.runs'', ''gateway.identity.get'',
     ''system-presence'', ''last-heartbeat'', ''node.list'', ''node.describe'', ''chat.history'', ''config.get'',
     ''config.schema.lookup'', ''talk.config'', ''agents.files.list'', ''agents.files.get'']"
| "METHOD_SCOPE_GROUPS ScopeWrite = [
     ''send'', ''poll'', ''agent'', ''agent.wait'', ''wake'', ''talk.mode'', ''tts.enable'', ''tts.disable'',
     ''tts.convert'', ''tts.setProvider'', ''voicewake.set'', ''node.invoke'', ''chat.send'', ''chat.abort'',
     ''browser.request'', ''push.test'', ''node.pending.enqueue'']"
| "METHOD_SCOPE_GROUPS ScopeAdmin = [
     ''channels.logout'', ''agents.create'', ''agents.update'', ''agents.delete'', ''skills.install'',
     ''skills.update'', ''secrets.reload'', ''secrets.resolve'', ''cron.add'', ''cron.update'', ''cron.remove'',
     ''cron.run'', ''sessions.patch'', ''sessions.reset'', ''sessions.delete'', ''sessions.compact'', ''connect'',
     ''chat.inject'', ''web.login.start'', ''web.login.wait'', ''set-heartbeats'', ''system-event'',
     ''agents.files.set'']"

definition ADMIN_METHOD_PREFIXES :: "string list" where
  "ADMIN_METHOD_PREFIXES = [''exec.approvals.'', ''config.'', ''wizard.'', ''update.'']"

text \<open>The map of the groups, in the order they are written; a later entry would replace an earlier one.\<close>

definition METHOD_SCOPE_BY_NAME :: "(string \<times> operatorScope) list" where
  "METHOD_SCOPE_BY_NAME = concat (map (\<lambda>s. map (\<lambda>m. (m, s)) (METHOD_SCOPE_GROUPS s))
     [ScopeApprovals, ScopePairing, ScopeRead, ScopeWrite, ScopeAdmin])"

definition resolveScopedMethod :: "string \<Rightarrow> operatorScope option" where
  "resolveScopedMethod m =
     (case map_of (rev METHOD_SCOPE_BY_NAME) m of
        Some s \<Rightarrow> Some s
      | None \<Rightarrow> if list_ex (\<lambda>p. prefix p m) ADMIN_METHOD_PREFIXES then Some ScopeAdmin else None)"

definition isApprovalMethod :: "string \<Rightarrow> bool" where
  "isApprovalMethod m \<longleftrightarrow> resolveScopedMethod m = Some ScopeApprovals"
definition isPairingMethod :: "string \<Rightarrow> bool" where
  "isPairingMethod m \<longleftrightarrow> resolveScopedMethod m = Some ScopePairing"
definition isReadMethod :: "string \<Rightarrow> bool" where
  "isReadMethod m \<longleftrightarrow> resolveScopedMethod m = Some ScopeRead"
definition isWriteMethod :: "string \<Rightarrow> bool" where
  "isWriteMethod m \<longleftrightarrow> resolveScopedMethod m = Some ScopeWrite"
definition isNodeRoleMethod :: "string \<Rightarrow> bool" where
  "isNodeRoleMethod m \<longleftrightarrow> m \<in> set NODE_ROLE_METHODS"
definition isAdminOnlyMethod :: "string \<Rightarrow> bool" where
  "isAdminOnlyMethod m \<longleftrightarrow> resolveScopedMethod m = Some ScopeAdmin"

definition resolveRequiredOperatorScopeForMethod :: "string \<Rightarrow> operatorScope option" where
  "resolveRequiredOperatorScopeForMethod m = resolveScopedMethod m"

definition resolveLeastPrivilegeOperatorScopesForMethod :: "string \<Rightarrow> operatorScope list" where
  "resolveLeastPrivilegeOperatorScopesForMethod m =
     (case resolveRequiredOperatorScopeForMethod m of Some s \<Rightarrow> [s] | None \<Rightarrow> [])"


definition isGatewayMethodClassified :: "string \<Rightarrow> bool" where
  "isGatewayMethodClassified m \<longleftrightarrow> isNodeRoleMethod m \<or> resolveRequiredOperatorScopeForMethod m \<noteq> None"


section \<open>Requests\<close>

record gatewayClient =
  gl_role :: "jsv option"
  gl_scopes :: "string list option"
  gl_deviceId :: "string option"
  gl_clientId :: "string option"
  gl_clientIp :: "string option"
  gl_connId :: "string option"


definition CONTROL_PLANE_RATE_LIMIT_MAX_REQUESTS :: int where "CONTROL_PLANE_RATE_LIMIT_MAX_REQUESTS = 3"
definition CONTROL_PLANE_RATE_LIMIT_WINDOW_MS :: int where "CONTROL_PLANE_RATE_LIMIT_WINDOW_MS = 60000"

record budgetBucket =
  bb_count :: int
  bb_windowStartMs :: int

type_synonym budgetBuckets = "(string \<times> budgetBucket) list"

record writeBudget =
  wb_allowed :: bool
  wb_retryAfterMs :: int
  wb_remaining :: int
  wb_key :: string

definition normalizePart :: "string option \<Rightarrow> string \<Rightarrow> string" where
  "normalizePart value fallback = (let n = js_trim (js_or_empty value) in if n = [] then fallback else n)"

definition resolveControlPlaneRateLimitKey :: "gatewayClient option \<Rightarrow> string" where
  "resolveControlPlaneRateLimitKey client =
     (let deviceId = normalizePart (Option.bind client gl_deviceId) ''unknown-device'';
          clientIp = normalizePart (Option.bind client gl_clientIp) ''unknown-ip'';
          connId = normalizePart (Option.bind client gl_connId) []
      in deviceId @ ''|'' @ clientIp @
         (if deviceId = ''unknown-device'' \<and> clientIp = ''unknown-ip'' \<and> connId \<noteq> [] then ''|conn='' @ connId else []))"

definition consumeControlPlaneWriteBudget ::
  "gatewayClient option \<Rightarrow> int \<Rightarrow> budgetBuckets \<Rightarrow> writeBudget \<times> budgetBuckets" where
  "consumeControlPlaneWriteBudget client nowMs buckets =
     (let key = resolveControlPlaneRateLimitKey client;
          fresh = (\<lparr>wb_allowed = True, wb_retryAfterMs = 0, wb_remaining = CONTROL_PLANE_RATE_LIMIT_MAX_REQUESTS - 1, wb_key = key\<rparr>,
            AList.update key \<lparr>bb_count = 1, bb_windowStartMs = nowMs\<rparr> buckets)
      in case map_of buckets key of
           None \<Rightarrow> fresh
         | Some b \<Rightarrow>
             if CONTROL_PLANE_RATE_LIMIT_WINDOW_MS \<le> nowMs - bb_windowStartMs b then fresh
             else if CONTROL_PLANE_RATE_LIMIT_MAX_REQUESTS \<le> bb_count b
             then (\<lparr>wb_allowed = False, wb_retryAfterMs = max 0 (bb_windowStartMs b + CONTROL_PLANE_RATE_LIMIT_WINDOW_MS - nowMs),
                    wb_remaining = 0, wb_key = key\<rparr>, buckets)
             else (\<lparr>wb_allowed = True, wb_retryAfterMs = 0,
                    wb_remaining = max 0 (CONTROL_PLANE_RATE_LIMIT_MAX_REQUESTS - (bb_count b + 1)), wb_key = key\<rparr>,
                   AList.update key (b\<lparr>bb_count := bb_count b + 1\<rparr>) buckets))"

record controlPlaneActor =
  ca_actor :: string
  ca_deviceId :: string
  ca_clientIp :: string
  ca_connId :: string

definition resolveControlPlaneActor :: "gatewayClient option \<Rightarrow> controlPlaneActor" where
  "resolveControlPlaneActor client = \<lparr>ca_actor = normalizePart (Option.bind client gl_clientId) ''unknown-actor'',
     ca_deviceId = normalizePart (Option.bind client gl_deviceId) ''unknown-device'',
     ca_clientIp = normalizePart (Option.bind client gl_clientIp) ''unknown-ip'',
     ca_connId = normalizePart (Option.bind client gl_connId) ''unknown-conn''\<rparr>"

definition formatControlPlaneActor :: "controlPlaneActor \<Rightarrow> string" where
  "formatControlPlaneActor a =
     ''actor='' @ ca_actor a @ '' device='' @ ca_deviceId a @ '' ip='' @ ca_clientIp a @ '' conn='' @ ca_connId a"

definition summarizeChangedPaths :: "string list \<Rightarrow> nat \<Rightarrow> string" where
  "summarizeChangedPaths paths maxPaths =
     (if paths = [] then ''<none>''
      else if length paths \<le> maxPaths then js_join '','' paths
      else js_join '','' (take maxPaths paths) @ '',+'' @ show_nat (length paths - maxPaths) @ '' more'')"



subsection \<open>Floods\<close>

record floodGuard =
  fg_closeAfter :: int
  fg_logEvery :: int
  fg_count :: int
  fg_suppressed :: int

record floodDecision =
  fd_shouldClose :: bool
  fd_shouldLog :: bool
  fd_count :: int
  fd_suppressed :: int

definition newFloodGuard :: "int option \<Rightarrow> int option \<Rightarrow> floodGuard" where
  "newFloodGuard closeAfter logEvery = \<lparr>fg_closeAfter = max 1 (js_default closeAfter 10), fg_logEvery = max 1 (js_default logEvery 100),
     fg_count = 0, fg_suppressed = 0\<rparr>"

definition registerUnauthorized :: "floodGuard \<Rightarrow> floodDecision \<times> floodGuard" where
  "registerUnauthorized g =
     (let n = fg_count g + 1; shouldClose = fg_closeAfter g < n; shouldLog = (n = 1 \<or> n mod fg_logEvery g = 0 \<or> shouldClose)
      in if \<not> shouldLog
         then (\<lparr>fd_shouldClose = shouldClose, fd_shouldLog = False, fd_count = n, fd_suppressed = 0\<rparr>,
               g\<lparr>fg_count := n, fg_suppressed := fg_suppressed g + 1\<rparr>)
         else (\<lparr>fd_shouldClose = shouldClose, fd_shouldLog = True, fd_count = n, fd_suppressed = fg_suppressed g\<rparr>,
               g\<lparr>fg_count := n, fg_suppressed := 0\<rparr>))"

definition resetFloodGuard :: "floodGuard \<Rightarrow> floodGuard" where
  "resetFloodGuard g = g\<lparr>fg_count := 0, fg_suppressed := 0\<rparr>"

definition isUnauthorizedRoleError :: "string option \<Rightarrow> bool" where
  "isUnauthorizedRoleError message = (case message of None \<Rightarrow> False | Some m \<Rightarrow> prefix ''unauthorized role:'' m)"

text \<open>What answering a request does to the guard of its connection: whether the connection is closed, and whether
  the answer is logged.\<close>

definition noteResponse :: "string option \<Rightarrow> floodGuard \<Rightarrow> (bool \<times> bool) \<times> floodGuard" where
  "noteResponse error g =
     (if isUnauthorizedRoleError error
      then (case registerUnauthorized g of (d, g') \<Rightarrow>
        ((fd_shouldLog d \<and> fd_shouldClose d, fd_shouldLog d), g'))
      else ((False, True), resetFloodGuard g))"


section \<open>Which scope lets a method through\<close>

lemma scoped_methods_distinct: "distinct (map fst METHOD_SCOPE_BY_NAME)"
  by code_simp


lemma js_default_Some [simp]: "js_default (Some x) d = x"
  by (simp add: js_default_def)

lemma parse_roleName [simp]: "parseGatewayRole (JStr (roleName role)) = Some role"
  by (cases role) (simp_all add: parseGatewayRole_def roleName_def)

lemma health_scoped: "resolveScopedMethod ''health'' = Some ScopeRead" by code_simp











section \<open>The budget of writes to the control plane\<close>

text \<open>A run of writes by clients at the times they come: the answers, and the buckets after it.\<close>

fun controlPlaneWrites :: "(gatewayClient option \<times> int) list \<Rightarrow> budgetBuckets \<Rightarrow> writeBudget list \<times> budgetBuckets" where
  "controlPlaneWrites [] buckets = ([], buckets)"
| "controlPlaneWrites ((client, now) # rest) buckets =
     (case consumeControlPlaneWriteBudget client now buckets of (b, buckets') \<Rightarrow>
       (case controlPlaneWrites rest buckets' of (bs, buckets'') \<Rightarrow> (b # bs, buckets'')))"

definition grantedTo :: "string \<Rightarrow> writeBudget list \<Rightarrow> int" where
  "grantedTo key bs = int (length (filter (\<lambda>b. wb_key b = key \<and> wb_allowed b) bs))"

lemma grantedTo_simps [simp]:
  "grantedTo key [] = 0"
  "grantedTo key (b # bs) = (if wb_key b = key \<and> wb_allowed b then 1 else 0) + grantedTo key bs"
  by (simp_all add: grantedTo_def)

definition bucketsUsed :: "budgetBuckets \<Rightarrow> bool" where
  "bucketsUsed buckets \<longleftrightarrow> (\<forall>key b. map_of buckets key = Some b \<longrightarrow> 1 \<le> bb_count b)"

text \<open>How many more writes a key can be granted before \<open>t0\<close> is a minute ago.\<close>

definition grantsLeft :: "budgetBuckets \<Rightarrow> string \<Rightarrow> int \<Rightarrow> int" where
  "grantsLeft buckets key t0 = (case map_of buckets key of
     None \<Rightarrow> 3 | Some b \<Rightarrow> max 0 (3 - bb_count b) + (if t0 \<le> bb_windowStartMs b then 0 else 3))"

lemma grantsLeft_bounds: "0 \<le> grantsLeft buckets key start" "bucketsUsed buckets \<Longrightarrow> grantsLeft buckets key start \<le> 5"
  by (fastforce simp: grantsLeft_def bucketsUsed_def split: option.splits)+

lemma consume_used:
  "consumeControlPlaneWriteBudget client now buckets = (b, buckets') \<Longrightarrow> bucketsUsed buckets \<Longrightarrow> bucketsUsed buckets'"
  by (fastforce simp: consumeControlPlaneWriteBudget_def bucketsUsed_def update_conv' Let_def split: option.splits if_splits)

lemma writes_used:
  "controlPlaneWrites reqs buckets = (bs, buckets') \<Longrightarrow> bucketsUsed buckets \<Longrightarrow> bucketsUsed buckets'"
  by (induction reqs buckets arbitrary: bs rule: controlPlaneWrites.induct) (auto split: prod.splits intro: consume_used)

lemma consume_grants:
  assumes "consumeControlPlaneWriteBudget client now buckets = (b, buckets')" "start \<le> now" "now < start + 60000"
  shows "grantsLeft buckets' key start + (if wb_key b = key \<and> wb_allowed b then 1 else 0) \<le> grantsLeft buckets key start"
  using assms
  by (auto simp: consumeControlPlaneWriteBudget_def grantsLeft_def CONTROL_PLANE_RATE_LIMIT_MAX_REQUESTS_def
    CONTROL_PLANE_RATE_LIMIT_WINDOW_MS_def update_conv' Let_def split: option.splits if_splits)

lemma writes_grants:
  assumes "controlPlaneWrites reqs buckets = (bs, buckets')" "list_all (\<lambda>(client, now). start \<le> now \<and> now < start + 60000) reqs"
  shows "grantsLeft buckets' key start + grantedTo key bs \<le> grantsLeft buckets key start"
  using assms
proof (induction reqs buckets arbitrary: bs rule: controlPlaneWrites.induct)
  case (2 client now rest buckets)
  obtain b mid where step: "consumeControlPlaneWriteBudget client now buckets = (b, mid)" by fastforce
  obtain bs2 where rest: "controlPlaneWrites rest mid = (bs2, buckets')" "bs = b # bs2"
    using 2(2) by (auto simp: step split: prod.splits)
  have "grantsLeft buckets' key start + grantedTo key bs2 \<le> grantsLeft mid key start"
    using 2(1) [OF step [symmetric] rest(1)] 2(3) by simp
  moreover have "grantsLeft mid key start + (if wb_key b = key \<and> wb_allowed b then 1 else 0) \<le> grantsLeft buckets key start"
    using consume_grants [OF step] 2(3) by simp
  ultimately show ?case by (simp add: rest(2))
qed simp

text \<open>C40: Writes to the control plane are limited. Whatever writes came before, and however the writes of other
  clients are interleaved, a burst of requests that fits in less than a minute grants at most five writes to
  the clients of one key: the limit of three is one of fixed windows, and a burst can fall in two of them.\<close>

theorem control_plane_writes_bounded:
  assumes "controlPlaneWrites earlier [] = (answers, buckets)"
    and "list_all (\<lambda>(client, now). start \<le> now \<and> now < start + 60000) burst"
    and "controlPlaneWrites burst buckets = (answers', buckets')"
  shows "grantedTo key answers' \<le> 5"
proof -
  have "bucketsUsed buckets" by (rule writes_used [OF assms(1)]) (simp add: bucketsUsed_def)
  then show ?thesis
    using writes_grants [OF assms(3,2), of key] grantsLeft_bounds(1) [of buckets' key start]
      grantsLeft_bounds(2) [of buckets key start] by simp
qed

theorem control_plane_writes_bounded_witness:
  "grantedTo ''unknown-device|unknown-ip'' (fst (controlPlaneWrites
     [(None, 59998), (None, 59999), (None, 60000), (None, 60001), (None, 60002), (None, 60003)]
     (snd (controlPlaneWrites [(None, 0)] [])))) = 5 \<and>
   grantedTo ''unknown-device|unknown-ip'' (fst (controlPlaneWrites
     [(None, 59998), (None, 59999), (None, 60000), (None, 60001), (None, 60002), (None, 60003)]
     (snd (controlPlaneWrites [(None, 0)] [])))) \<le> 5"
proof
  show "grantedTo ''unknown-device|unknown-ip'' (fst (controlPlaneWrites
     [(None, 59998), (None, 59999), (None, 60000), (None, 60001), (None, 60002), (None, 60003)]
     (snd (controlPlaneWrites [(None, 0)] [])))) = 5" by code_simp
  show "grantedTo ''unknown-device|unknown-ip'' (fst (controlPlaneWrites
     [(None, 59998), (None, 59999), (None, 60000), (None, 60001), (None, 60002), (None, 60003)]
     (snd (controlPlaneWrites [(None, 0)] [])))) \<le> 5"
    by (rule control_plane_writes_bounded [where start = 59998, OF prod.collapse [symmetric] _ prod.collapse [symmetric]]) simp
qed

subsection \<open>Floods of unauthorised requests\<close>

fun floodRun :: "nat \<Rightarrow> floodGuard \<Rightarrow> floodGuard" where
  "floodRun 0 g = g"
| "floodRun (Suc n) g = floodRun n (snd (registerUnauthorized g))"

lemma register_counts:
  "fg_count (snd (registerUnauthorized g)) = fg_count g + 1"
  "fg_closeAfter (snd (registerUnauthorized g)) = fg_closeAfter g"
  by (simp_all add: registerUnauthorized_def Let_def)

lemma floodRun_counts: "fg_count (floodRun n g) = fg_count g + int n" "fg_closeAfter (floodRun n g) = fg_closeAfter g"
  by (induction n arbitrary: g) (simp_all add: register_counts)

text \<open>A connection that keeps asking for what its role may not do is closed, after as many refusals as configured.\<close>

lemma flood_closes:
  assumes "isUnauthorizedRoleError error"
  shows "fst (fst (noteResponse error (floodRun n (newFloodGuard closeAfter logEvery)))) \<longleftrightarrow>
    max 1 (js_default closeAfter 10) \<le> int n"
  using assms by (auto simp: noteResponse_def registerUnauthorized_def Let_def floodRun_counts newFloodGuard_def)

end
