(* ===== verification/Node_Policy.thy ===== *)
theory Node_Policy
  imports Js_Values
begin

text \<open>
  The commands a node may be asked to run: \<open>src/gateway/node-command-policy.ts\<close>. The folding of Unicode
  text that the policy applies to what a node says about itself is a function of the host; platforms and
  device families are classified by it and the tables of the source.
\<close>

section \<open>Tables\<close>

definition NODE_SYSTEM_RUN_COMMANDS :: "string list" where
  "NODE_SYSTEM_RUN_COMMANDS = [''system.run.prepare'', ''system.run'', ''system.which'']"
definition NODE_SYSTEM_NOTIFY_COMMAND :: string where "NODE_SYSTEM_NOTIFY_COMMAND = ''system.notify''"
definition NODE_BROWSER_PROXY_COMMAND :: string where "NODE_BROWSER_PROXY_COMMAND = ''browser.proxy''"
definition NODE_EXEC_APPROVALS_COMMANDS :: "string list" where
  "NODE_EXEC_APPROVALS_COMMANDS = [''system.execApprovals.get'', ''system.execApprovals.set'']"

definition CANVAS_COMMANDS :: "string list" where
  "CANVAS_COMMANDS = [''canvas.present'', ''canvas.hide'', ''canvas.navigate'', ''canvas.eval'', ''canvas.snapshot'',
     ''canvas.a2ui.push'', ''canvas.a2ui.pushJSONL'', ''canvas.a2ui.reset'']"
definition CAMERA_COMMANDS :: "string list" where "CAMERA_COMMANDS = [''camera.list'']"
definition CAMERA_DANGEROUS_COMMANDS :: "string list" where
  "CAMERA_DANGEROUS_COMMANDS = [''camera.snap'', ''camera.clip'']"
definition SCREEN_DANGEROUS_COMMANDS :: "string list" where "SCREEN_DANGEROUS_COMMANDS = [''screen.record'']"
definition LOCATION_COMMANDS :: "string list" where "LOCATION_COMMANDS = [''location.get'']"
definition NOTIFICATION_COMMANDS :: "string list" where "NOTIFICATION_COMMANDS = [''notifications.list'']"
definition ANDROID_NOTIFICATION_COMMANDS :: "string list" where
  "ANDROID_NOTIFICATION_COMMANDS = NOTIFICATION_COMMANDS @ [''notifications.actions'']"
definition DEVICE_COMMANDS :: "string list" where "DEVICE_COMMANDS = [''device.info'', ''device.status'']"
definition ANDROID_DEVICE_COMMANDS :: "string list" where
  "ANDROID_DEVICE_COMMANDS = DEVICE_COMMANDS @ [''device.permissions'', ''device.health'']"
definition CONTACTS_COMMANDS :: "string list" where "CONTACTS_COMMANDS = [''contacts.search'']"
definition CONTACTS_DANGEROUS_COMMANDS :: "string list" where "CONTACTS_DANGEROUS_COMMANDS = [''contacts.add'']"
definition CALENDAR_COMMANDS :: "string list" where "CALENDAR_COMMANDS = [''calendar.events'']"
definition CALENDAR_DANGEROUS_COMMANDS :: "string list" where "CALENDAR_DANGEROUS_COMMANDS = [''calendar.add'']"
definition REMINDERS_COMMANDS :: "string list" where "REMINDERS_COMMANDS = [''reminders.list'']"
definition REMINDERS_DANGEROUS_COMMANDS :: "string list" where "REMINDERS_DANGEROUS_COMMANDS = [''reminders.add'']"
definition PHOTOS_COMMANDS :: "string list" where "PHOTOS_COMMANDS = [''photos.latest'']"
definition MOTION_COMMANDS :: "string list" where "MOTION_COMMANDS = [''motion.activity'', ''motion.pedometer'']"
definition SMS_DANGEROUS_COMMANDS :: "string list" where "SMS_DANGEROUS_COMMANDS = [''sms.send'']"
definition IOS_SYSTEM_COMMANDS :: "string list" where "IOS_SYSTEM_COMMANDS = [NODE_SYSTEM_NOTIFY_COMMAND]"
definition SYSTEM_COMMANDS :: "string list" where
  "SYSTEM_COMMANDS = NODE_SYSTEM_RUN_COMMANDS @ [NODE_SYSTEM_NOTIFY_COMMAND, NODE_BROWSER_PROXY_COMMAND]"
definition UNKNOWN_PLATFORM_COMMANDS :: "string list" where
  "UNKNOWN_PLATFORM_COMMANDS = CANVAS_COMMANDS @ CAMERA_COMMANDS @ LOCATION_COMMANDS @ [NODE_SYSTEM_NOTIFY_COMMAND]"

definition DEFAULT_DANGEROUS_NODE_COMMANDS :: "string list" where
  "DEFAULT_DANGEROUS_NODE_COMMANDS = CAMERA_DANGEROUS_COMMANDS @ SCREEN_DANGEROUS_COMMANDS @ CONTACTS_DANGEROUS_COMMANDS @
     CALENDAR_DANGEROUS_COMMANDS @ REMINDERS_DANGEROUS_COMMANDS @ SMS_DANGEROUS_COMMANDS"

datatype platformId = PlatformIos | PlatformAndroid | PlatformMacos | PlatformWindows | PlatformLinux | PlatformUnknown

fun PLATFORM_DEFAULTS :: "platformId \<Rightarrow> string list" where
  "PLATFORM_DEFAULTS PlatformIos =
     CANVAS_COMMANDS @ CAMERA_COMMANDS @ LOCATION_COMMANDS @ DEVICE_COMMANDS @ CONTACTS_COMMANDS @ CALENDAR_COMMANDS @
     REMINDERS_COMMANDS @ PHOTOS_COMMANDS @ MOTION_COMMANDS @ IOS_SYSTEM_COMMANDS"
| "PLATFORM_DEFAULTS PlatformAndroid =
     CANVAS_COMMANDS @ CAMERA_COMMANDS @ LOCATION_COMMANDS @ ANDROID_NOTIFICATION_COMMANDS @ [NODE_SYSTEM_NOTIFY_COMMAND] @
     ANDROID_DEVICE_COMMANDS @ CONTACTS_COMMANDS @ CALENDAR_COMMANDS @ REMINDERS_COMMANDS @ PHOTOS_COMMANDS @ MOTION_COMMANDS"
| "PLATFORM_DEFAULTS PlatformMacos =
     CANVAS_COMMANDS @ CAMERA_COMMANDS @ LOCATION_COMMANDS @ DEVICE_COMMANDS @ CONTACTS_COMMANDS @ CALENDAR_COMMANDS @
     REMINDERS_COMMANDS @ PHOTOS_COMMANDS @ MOTION_COMMANDS @ SYSTEM_COMMANDS"
| "PLATFORM_DEFAULTS PlatformLinux = SYSTEM_COMMANDS"
| "PLATFORM_DEFAULTS PlatformWindows = SYSTEM_COMMANDS"
| "PLATFORM_DEFAULTS PlatformUnknown = UNKNOWN_PLATFORM_COMMANDS"

definition PLATFORM_PREFIX_RULES :: "(platformId \<times> string list) list" where
  "PLATFORM_PREFIX_RULES = [(PlatformIos, [''ios'']), (PlatformAndroid, [''android'']), (PlatformMacos, [''mac'', ''darwin'']),
     (PlatformWindows, [''win'']), (PlatformLinux, [''linux''])]"

definition DEVICE_FAMILY_TOKEN_RULES :: "(platformId \<times> string list) list" where
  "DEVICE_FAMILY_TOKEN_RULES = [(PlatformIos, [''iphone'', ''ipad'', ''ios'']), (PlatformAndroid, [''android'']),
     (PlatformMacos, [''mac'']), (PlatformWindows, [''windows'']), (PlatformLinux, [''linux''])]"

section \<open>Platforms\<close>

definition firstRule :: "(string \<Rightarrow> bool) \<Rightarrow> (platformId \<times> string list) list \<Rightarrow> platformId option" where
  "firstRule hit rules = map_option fst (List.find (\<lambda>(p, ts). list_ex hit ts) rules)"

definition resolvePlatformIdByPrefix :: "string \<Rightarrow> platformId option" where
  "resolvePlatformIdByPrefix value = firstRule (\<lambda>p. prefix p value) PLATFORM_PREFIX_RULES"

definition resolvePlatformIdByDeviceFamily :: "string \<Rightarrow> platformId option" where
  "resolvePlatformIdByDeviceFamily value = firstRule (\<lambda>t. sublist t value) DEVICE_FAMILY_TOKEN_RULES"

text \<open>The first argument decomposes the text and drops its combining marks.\<close>

definition normalizeDeviceMetadataForPolicy :: "(string \<Rightarrow> string) \<Rightarrow> string option \<Rightarrow> string" where
  "normalizeDeviceMetadataForPolicy decompose value =
     (let trimmed = js_trim (js_or_empty value) in if trimmed = [] then [] else js_lower (decompose trimmed))"

definition normalizePlatformId :: "(string \<Rightarrow> string) \<Rightarrow> string option \<Rightarrow> string option \<Rightarrow> platformId" where
  "normalizePlatformId decompose platform deviceFamily =
     (case resolvePlatformIdByPrefix (normalizeDeviceMetadataForPolicy decompose platform) of
        Some p \<Rightarrow> p
      | None \<Rightarrow> js_default (resolvePlatformIdByDeviceFamily (normalizeDeviceMetadataForPolicy decompose deviceFamily)) PlatformUnknown)"

section \<open>The policy\<close>

record nodesConfig =
  nc_allowCommands :: "string list option"
  nc_denyCommands :: "string list option"

text \<open>\<open>allow.delete\<close> for every blocked name.\<close>

definition denyCommands :: "string list \<Rightarrow> string list \<Rightarrow> string list" where
  "denyCommands blocked allow = fold (\<lambda>b a. if js_trim b = [] then a else filter (\<lambda>c. c \<noteq> js_trim b) a) (js_uniq blocked) allow"

definition resolveNodeCommandAllowlist ::
  "(string \<Rightarrow> string) \<Rightarrow> nodesConfig \<Rightarrow> string option \<Rightarrow> string option \<Rightarrow> string list" where
  "resolveNodeCommandAllowlist decompose cfg platform deviceFamily =
     (let base = PLATFORM_DEFAULTS (normalizePlatformId decompose platform deviceFamily);
          extra = js_default (nc_allowCommands cfg) []
      in denyCommands (js_default (nc_denyCommands cfg) [])
           (js_uniq (filter (\<lambda>c. c \<noteq> []) (map js_trim (base @ extra)))))"

text \<open>The reason of a refusal, or the permission.\<close>

definition isNodeCommandAllowed :: "string \<Rightarrow> string list option \<Rightarrow> string list \<Rightarrow> string + unit" where
  "isNodeCommandAllowed rawCommand declared allowlist =
     (let command = js_trim rawCommand
      in if command = [] then Inl ''command required''
         else if command \<notin> set allowlist then Inl ''command not allowlisted''
         else if js_default declared [] = [] then Inl ''node did not declare commands''
         else if command \<notin> set (js_default declared []) then Inl ''command not declared by node''
         else Inr ())"

text \<open>What a node may declare when it connects.\<close>

definition filterDeclared :: "(string \<Rightarrow> string) \<Rightarrow> nodesConfig \<Rightarrow> string option \<Rightarrow> string option \<Rightarrow> string list option \<Rightarrow> string list" where
  "filterDeclared decompose cfg platform deviceFamily declared =
     filter (\<lambda>c. c \<noteq> [] \<and> c \<in> set (resolveNodeCommandAllowlist decompose cfg platform deviceFamily))
       (map js_trim (js_default declared []))"

section \<open>What the allowlist holds\<close>

lemma set_denyCommands: "set (denyCommands blocked allow) = set allow - (js_trim ` set blocked - {[]})"
proof -
  have "set (fold (\<lambda>b a. if js_trim b = [] then a else filter (\<lambda>c. c \<noteq> js_trim b) a) bs allow) =
      set allow - (js_trim ` set bs - {[]})" for bs
    by (induction bs arbitrary: allow) auto
  then show ?thesis by (simp add: denyCommands_def)
qed

lemma set_allowlist:
  "set (resolveNodeCommandAllowlist decompose cfg platform family) =
     (js_trim ` (set (PLATFORM_DEFAULTS (normalizePlatformId decompose platform family)) \<union>
        set (js_default (nc_allowCommands cfg) [])) - {[]}) - js_trim ` set (js_default (nc_denyCommands cfg) [])"
  by (auto simp: resolveNodeCommandAllowlist_def Let_def set_denyCommands)

lemma defaults_tidy: "list_all (\<lambda>p. map js_trim (PLATFORM_DEFAULTS p) = PLATFORM_DEFAULTS p)
  [PlatformIos, PlatformAndroid, PlatformMacos, PlatformWindows, PlatformLinux, PlatformUnknown]"
  by code_simp

lemma trim_defaults: "js_trim ` set (PLATFORM_DEFAULTS p) = set (PLATFORM_DEFAULTS p)"
proof -
  have "map js_trim (PLATFORM_DEFAULTS p) = PLATFORM_DEFAULTS p" using defaults_tidy by (cases p) simp_all
  then show ?thesis by (metis set_map)
qed

lemma defaults_harmless: "list_all (\<lambda>p. list_all (\<lambda>c. c \<notin> set (PLATFORM_DEFAULTS p)) DEFAULT_DANGEROUS_NODE_COMMANDS)
  [PlatformIos, PlatformAndroid, PlatformMacos, PlatformWindows, PlatformLinux, PlatformUnknown]"
  by code_simp

lemma dangerous_not_default: "c \<in> set DEFAULT_DANGEROUS_NODE_COMMANDS \<Longrightarrow> c \<notin> set (PLATFORM_DEFAULTS p)"
  using defaults_harmless by (cases p) (auto simp: list_all_iff)

lemma defaults_exec: "list_all (\<lambda>p. list_all (\<lambda>c. c \<notin> set (PLATFORM_DEFAULTS p)) NODE_SYSTEM_RUN_COMMANDS)
  [PlatformIos, PlatformAndroid, PlatformUnknown]"
  by code_simp

definition isDesktop :: "platformId \<Rightarrow> bool" where
  "isDesktop p \<longleftrightarrow> p \<in> {PlatformMacos, PlatformWindows, PlatformLinux}"

lemma exec_default_desktop: "c \<in> set NODE_SYSTEM_RUN_COMMANDS \<Longrightarrow> c \<in> set (PLATFORM_DEFAULTS p) \<Longrightarrow> isDesktop p"
  using defaults_exec by (cases p) (auto simp: list_all_iff isDesktop_def)

end
