(* ===== verification/Node_Registry.thy ===== *)
theory Node_Registry
  imports Node_Policy "HOL-Library.Multiset"
begin

text \<open>
  \<open>src/gateway/node-registry.ts\<close>: the sessions of connected nodes and the invocations that wait for an
  answer. A timer fires as an event; a promise is the settlement that is told to its caller. Sending over
  the socket is a function of the host that says whether it succeeded.
\<close>

section \<open>Model\<close>

record nodeSession =
  ns_nodeId :: string
  ns_connId :: string
  ns_displayName :: "string option"
  ns_platform :: "string option"
  ns_version :: "string option"
  ns_coreVersion :: "string option"
  ns_uiVersion :: "string option"
  ns_deviceFamily :: "string option"
  ns_modelIdentifier :: "string option"
  ns_remoteIp :: "string option"
  ns_caps :: "string list"
  ns_commands :: "string list"
  ns_permissions :: "(string \<times> bool) list option"
  ns_pathEnv :: "string option"
  ns_connectedAtMs :: int

text \<open>The part of a connected client the registry reads.\<close>

record nodeClient =
  cl_connId :: string
  cl_deviceId :: "string option"
  cl_clientId :: string
  cl_displayName :: "string option"
  cl_platform :: "string option"
  cl_version :: "string option"
  cl_coreVersion :: "string option"
  cl_uiVersion :: "string option"
  cl_deviceFamily :: "string option"
  cl_modelIdentifier :: "string option"
  cl_caps :: "string list option"
  cl_commands :: "string list option"
  cl_permissions :: "(string \<times> bool) list option"
  cl_pathEnv :: "string option"

record pendingInvoke =
  pi_nodeId :: string
  pi_command :: string

record nodeError =
  er_code :: "string option"
  er_message :: "string option"

record nodeInvokeResult =
  ir_ok :: bool
  ir_payload :: jsv
  ir_payloadJSON :: "string option"
  ir_error :: "nodeError option"

record nodeRegistry =
  nr_nodesById :: "(string \<times> nodeSession) list"
  nr_nodesByConn :: "(string \<times> string) list"
  nr_pendingInvokes :: "(string \<times> pendingInvoke) list"

datatype settlement = Resolved nodeInvokeResult | Rejected string

definition newNodeRegistry :: nodeRegistry where
  "newNodeRegistry = \<lparr>nr_nodesById = [], nr_nodesByConn = [], nr_pendingInvokes = []\<rparr>"

definition clientNodeId :: "nodeClient \<Rightarrow> string" where
  "clientNodeId client = js_default (cl_deviceId client) (cl_clientId client)"

definition sessionOf :: "int \<Rightarrow> nodeClient \<Rightarrow> string option \<Rightarrow> nodeSession" where
  "sessionOf now client remoteIp = \<lparr>ns_nodeId = clientNodeId client, ns_connId = cl_connId client,
     ns_displayName = cl_displayName client, ns_platform = cl_platform client, ns_version = cl_version client,
     ns_coreVersion = cl_coreVersion client, ns_uiVersion = cl_uiVersion client, ns_deviceFamily = cl_deviceFamily client,
     ns_modelIdentifier = cl_modelIdentifier client, ns_remoteIp = remoteIp, ns_caps = js_default (cl_caps client) [],
     ns_commands = js_default (cl_commands client) [], ns_permissions = cl_permissions client, ns_pathEnv = cl_pathEnv client,
     ns_connectedAtMs = now\<rparr>"

definition registerNode :: "int \<Rightarrow> nodeClient \<Rightarrow> string option \<Rightarrow> nodeRegistry \<Rightarrow> nodeSession \<times> nodeRegistry" where
  "registerNode now client remoteIp reg =
     (let session = sessionOf now client remoteIp
      in (session, reg\<lparr>nr_nodesById := AList.update (ns_nodeId session) session (nr_nodesById reg),
                        nr_nodesByConn := AList.update (cl_connId client) (ns_nodeId session) (nr_nodesByConn reg)\<rparr>))"

text \<open>Every invocation that waits for the node is rejected.\<close>

definition rejectedOf :: "string \<Rightarrow> (string \<times> pendingInvoke) list \<Rightarrow> (string \<times> settlement) list" where
  "rejectedOf nodeId pending =
     map (\<lambda>(i, p). (i, Rejected (''node disconnected ('' @ pi_command p @ '')''))) (filter (\<lambda>(i, p). pi_nodeId p = nodeId) pending)"

definition unregisterNode :: "string \<Rightarrow> nodeRegistry \<Rightarrow> string option \<times> (string \<times> settlement) list \<times> nodeRegistry" where
  "unregisterNode connId reg =
     (case js_some (js_or_empty (map_of (nr_nodesByConn reg) connId)) of
        None \<Rightarrow> (None, [], reg)
      | Some nodeId \<Rightarrow>
          (Some nodeId, rejectedOf nodeId (nr_pendingInvokes reg),
           reg\<lparr>nr_nodesByConn := AList.delete connId (nr_nodesByConn reg),
               nr_nodesById := AList.delete nodeId (nr_nodesById reg),
               nr_pendingInvokes := filter (\<lambda>(i, p). pi_nodeId p \<noteq> nodeId) (nr_pendingInvokes reg)\<rparr>))"

definition listConnected :: "nodeRegistry \<Rightarrow> nodeSession list" where
  "listConnected reg = map snd (nr_nodesById reg)"

definition getNode :: "nodeRegistry \<Rightarrow> string \<Rightarrow> nodeSession option" where
  "getNode reg nodeId = map_of (nr_nodesById reg) nodeId"

definition invokeFailure :: "string \<Rightarrow> string \<Rightarrow> nodeInvokeResult" where
  "invokeFailure code message = \<lparr>ir_ok = False, ir_payload = JUndef, ir_payloadJSON = None,
     ir_error = Some \<lparr>er_code = Some code, er_message = Some message\<rparr>\<rparr>"

definition invokeRequest :: "string \<Rightarrow> string \<Rightarrow> string \<Rightarrow> jsv \<Rightarrow> jsv \<Rightarrow> jsv \<Rightarrow> jsv" where
  "invokeRequest requestId nodeId command params timeoutMs idempotencyKey = JObj
     [(''id'', JStr requestId), (''nodeId'', JStr nodeId), (''command'', JStr command),
      (''paramsJSON'', js_optStr (js_json params)), (''timeoutMs'', timeoutMs), (''idempotencyKey'', idempotencyKey)]"

definition sendEvent :: "(nodeSession \<Rightarrow> string \<Rightarrow> jsv \<Rightarrow> bool) \<Rightarrow> nodeRegistry \<Rightarrow> string \<Rightarrow> string \<Rightarrow> jsv \<Rightarrow> bool" where
  "sendEvent send reg nodeId event payload =
     (case getNode reg nodeId of None \<Rightarrow> False | Some node \<Rightarrow> send node event payload)"

text \<open>The answer at once, or nothing while the invocation waits.\<close>

definition invokeNode ::
  "(nodeSession \<Rightarrow> string \<Rightarrow> jsv \<Rightarrow> bool) \<Rightarrow> string \<Rightarrow> string \<Rightarrow> string \<Rightarrow> jsv \<Rightarrow> jsv \<Rightarrow> jsv \<Rightarrow> nodeRegistry \<Rightarrow>
   nodeInvokeResult option \<times> nodeRegistry" where
  "invokeNode send requestId nodeId command params timeoutMs idempotencyKey reg =
     (case getNode reg nodeId of
        None \<Rightarrow> (Some (invokeFailure ''NOT_CONNECTED'' ''node not connected''), reg)
      | Some node \<Rightarrow>
          if \<not> send node ''node.invoke.request'' (invokeRequest requestId nodeId command params timeoutMs idempotencyKey)
          then (Some (invokeFailure ''UNAVAILABLE'' ''failed to send invoke to node''), reg)
          else (None, reg\<lparr>nr_pendingInvokes :=
                  AList.update requestId \<lparr>pi_nodeId = nodeId, pi_command = command\<rparr> (nr_pendingInvokes reg)\<rparr>))"

definition invokeTimeoutMs :: "jsv \<Rightarrow> int" where
  "invokeTimeoutMs timeoutMs = (case timeoutMs of JNum n \<Rightarrow> n | _ \<Rightarrow> 30000)"

text \<open>The timer of an invocation; it is cleared when the invocation is settled otherwise.\<close>

definition invokeTimer :: "string \<Rightarrow> nodeRegistry \<Rightarrow> (string \<times> settlement) list \<times> nodeRegistry" where
  "invokeTimer requestId reg =
     (case map_of (nr_pendingInvokes reg) requestId of
        None \<Rightarrow> ([], reg)
      | Some p \<Rightarrow> ([(requestId, Resolved (invokeFailure ''TIMEOUT'' ''node invoke timed out''))],
                  reg\<lparr>nr_pendingInvokes := AList.delete requestId (nr_pendingInvokes reg)\<rparr>))"

definition handleInvokeResult ::
  "string \<Rightarrow> string \<Rightarrow> nodeInvokeResult \<Rightarrow> nodeRegistry \<Rightarrow> bool \<times> (string \<times> settlement) list \<times> nodeRegistry" where
  "handleInvokeResult requestId nodeId result reg =
     (case map_of (nr_pendingInvokes reg) requestId of
        None \<Rightarrow> (False, [], reg)
      | Some p \<Rightarrow>
          if pi_nodeId p \<noteq> nodeId then (False, [], reg)
          else (True, [(requestId, Resolved result)],
                reg\<lparr>nr_pendingInvokes := AList.delete requestId (nr_pendingInvokes reg)\<rparr>))"

datatype invokeReply = ResultInvalid | ResultAccepted | ResultIgnored

text \<open>The request handler of the node's answer: a node answers for itself only.\<close>

definition handleNodeInvokeResult ::
  "nodeClient option \<Rightarrow> string \<Rightarrow> string \<Rightarrow> nodeInvokeResult \<Rightarrow> nodeRegistry \<Rightarrow>
   invokeReply \<times> (string \<times> settlement) list \<times> nodeRegistry" where
  "handleNodeInvokeResult client requestId nodeId result reg =
     (let caller = js_or_empty (map_option clientNodeId client)
      in if caller \<noteq> [] \<and> caller \<noteq> nodeId then (ResultInvalid, [], reg)
         else (case handleInvokeResult requestId nodeId result reg of
             (ok, told, reg') \<Rightarrow> (if ok then ResultAccepted else ResultIgnored, told, reg')))"

section \<open>Runs\<close>

datatype registryEvent =
    NodeConnects int nodeClient "string option"
  | NodeCloses string
  | Invokes string string string jsv jsv jsv
  | TimerFires string
  | NodeAnswers nodeClient string string nodeInvokeResult

fun registryStep ::
  "(nodeSession \<Rightarrow> string \<Rightarrow> jsv \<Rightarrow> bool) \<Rightarrow> registryEvent \<Rightarrow> nodeRegistry \<Rightarrow> (string \<times> settlement) list \<times> nodeRegistry" where
  "registryStep send (NodeConnects now client ip) reg = ([], snd (registerNode now client ip reg))"
| "registryStep send (NodeCloses connId) reg = snd (unregisterNode connId reg)"
| "registryStep send (Invokes i nodeId command params timeoutMs key) reg =
     (case invokeNode send i nodeId command params timeoutMs key reg of
        (None, reg') \<Rightarrow> ([], reg')
      | (Some r, reg') \<Rightarrow> ([(i, Resolved r)], reg'))"
| "registryStep send (TimerFires i) reg = invokeTimer i reg"
| "registryStep send (NodeAnswers client i nodeId r) reg = snd (handleNodeInvokeResult (Some client) i nodeId r reg)"

text \<open>What callers are told, in order.\<close>

fun registryRun ::
  "(nodeSession \<Rightarrow> string \<Rightarrow> jsv \<Rightarrow> bool) \<Rightarrow> registryEvent list \<Rightarrow> nodeRegistry \<Rightarrow> (string \<times> settlement) list \<times> nodeRegistry" where
  "registryRun send [] reg = ([], reg)"
| "registryRun send (e # es) reg =
     (case registryStep send e reg of (told, reg') \<Rightarrow>
       (case registryRun send es reg' of (told', reg'') \<Rightarrow> (told @ told', reg'')))"

fun invokedId :: "registryEvent \<Rightarrow> string list" where
  "invokedId (Invokes i nodeId command params timeoutMs key) = [i]"
| "invokedId _ = []"

definition invokedIds :: "registryEvent list \<Rightarrow> string list" where
  "invokedIds es = concat (map invokedId es)"

section \<open>Every invocation is settled once\<close>

abbreviation pendingIds :: "nodeRegistry \<Rightarrow> string multiset" where
  "pendingIds reg \<equiv> mset (map fst (nr_pendingInvokes reg))"

abbreviation toldIds :: "(string \<times> settlement) list \<Rightarrow> string multiset" where
  "toldIds told \<equiv> mset (map fst told)"

lemma mset_delete: "jm_wf m \<Longrightarrow> map_of m k = Some v \<Longrightarrow>
  add_mset k (image_mset fst (mset (AList.delete k m))) = image_mset fst (mset m)"
proof (induction m)
  case (Cons p m)
  obtain a b where p: "p = (a, b)" by force
  show ?case
  proof (cases "a = k")
    case True
    with Cons.prems(1) have "k \<notin> fst ` set m" by (simp add: p jm_wf_def)
    then have "AList.delete k m = m" by (rule delete_id)
    with True show ?thesis by (simp add: p)
  next
    case False
    with Cons show ?thesis by (simp add: p jm_wf_def)
  qed
qed simp

lemma mset_update: "k \<notin> fst ` set m \<Longrightarrow> image_mset fst (mset (AList.update k v m)) = add_mset k (image_mset fst (mset m))"
  by (induction m) auto

lemma mset_reject:
  "toldIds (rejectedOf n ps) + mset (map fst (filter (\<lambda>(i, p). pi_nodeId p \<noteq> n) ps)) = mset (map fst ps)"
  by (induction ps) (auto simp: rejectedOf_def)

lemma jm_wf_filtered [simp]: "jm_wf m \<Longrightarrow> jm_wf (filter P m)"
  unfolding jm_wf_def by (rule distinct_map_filter)

lemma registryStep_balance:
  assumes "jm_wf (nr_pendingInvokes reg)" "\<And>i. i \<in> set (invokedId e) \<Longrightarrow> i \<notin> fst ` set (nr_pendingInvokes reg)"
    and "registryStep send e reg = (told, reg')"
  shows "jm_wf (nr_pendingInvokes reg') \<and> toldIds told + pendingIds reg' = mset (invokedId e) + pendingIds reg"
proof (cases e)
  case (NodeConnects now client ip)
  with assms show ?thesis by (auto simp: registerNode_def Let_def)
next
  case (NodeCloses connId)
  with assms mset_reject show ?thesis by (auto simp: unregisterNode_def split: option.splits)
next
  case (Invokes i nodeId command params timeoutMs key)
  with assms show ?thesis
    by (auto simp: invokeNode_def mset_update split: option.splits if_splits)
next
  case (TimerFires i)
  with assms mset_delete [OF assms(1)] show ?thesis by (auto simp: invokeTimer_def split: option.splits)
next
  case (NodeAnswers client i nodeId r)
  with assms mset_delete [OF assms(1)] show ?thesis
    by (auto simp: handleNodeInvokeResult_def handleInvokeResult_def Let_def split: option.splits if_splits)
qed

text \<open>The ids still to come are not those that wait.\<close>

lemma registry_fresh:
  assumes "jm_wf (nr_pendingInvokes reg)" "distinct (invokedIds (e # es))"
    and "set (invokedIds (e # es)) \<inter> fst ` set (nr_pendingInvokes reg) = {}" "registryStep send e reg = (told, reg')"
  shows "jm_wf (nr_pendingInvokes reg') \<and> toldIds told + pendingIds reg' = mset (invokedId e) + pendingIds reg \<and>
    set (invokedIds es) \<inter> fst ` set (nr_pendingInvokes reg') = {}"
proof -
  have new: "i \<notin> fst ` set (nr_pendingInvokes reg)" if "i \<in> set (invokedId e)" for i
    using assms(3) that by (auto simp: invokedIds_def)
  note B = registryStep_balance [OF assms(1) new assms(4)]
  then have "set_mset (pendingIds reg') \<subseteq> set_mset (mset (invokedId e) + pendingIds reg)"
    by (metis set_mset_union Un_upper2)
  then have keys: "fst ` set (nr_pendingInvokes reg') \<subseteq> set (invokedId e) \<union> fst ` set (nr_pendingInvokes reg)" by simp
  have "set (invokedId e) \<inter> set (invokedIds es) = {}" "set (invokedIds es) \<inter> fst ` set (nr_pendingInvokes reg) = {}"
    using assms(2,3) by (auto simp: invokedIds_def)
  with keys have "set (invokedIds es) \<inter> fst ` set (nr_pendingInvokes reg') = {}" by blast
  with B show ?thesis by blast
qed

lemma registryRun_balance:
  assumes "jm_wf (nr_pendingInvokes reg)" "distinct (invokedIds es)"
    and "set (invokedIds es) \<inter> fst ` set (nr_pendingInvokes reg) = {}" "registryRun send es reg = (told, reg')"
  shows "toldIds told + pendingIds reg' = mset (invokedIds es) + pendingIds reg"
  using assms
proof (induction es arbitrary: reg told)
  case Nil
  then show ?case by (simp add: invokedIds_def)
next
  case (Cons e es)
  obtain told1 reg1 told2 where s: "registryStep send e reg = (told1, reg1)"
    and r: "registryRun send es reg1 = (told2, reg')" "told = told1 @ told2"
    using Cons.prems(4) by (auto split: prod.splits)
  note F = registry_fresh [OF Cons.prems(1-3) s]
  with Cons.IH [OF _ _ _ r(1)] Cons.prems(2) have "toldIds told2 + pendingIds reg' = mset (invokedIds es) + pendingIds reg1"
    by (simp add: invokedIds_def)
  moreover have "mset (invokedIds (e # es)) = mset (invokedId e) + mset (invokedIds es)" by (simp add: invokedIds_def)
  ultimately show ?case using F by (simp add: r(2) ac_simps)
qed

text \<open>Where an answer comes from.\<close>

definition invokedAt :: "registryEvent list \<Rightarrow> string \<Rightarrow> string \<Rightarrow> bool" where
  "invokedAt es i nodeId \<longleftrightarrow> list_ex (\<lambda>e. case e of Invokes j n _ _ _ _ \<Rightarrow> j = i \<and> n = nodeId | _ \<Rightarrow> False) es"

definition answeredBy :: "registryEvent list \<Rightarrow> string \<Rightarrow> string \<Rightarrow> nodeInvokeResult \<Rightarrow> bool" where
  "answeredBy es i nodeId r \<longleftrightarrow> list_ex (\<lambda>e. case e of
     NodeAnswers client j n q \<Rightarrow> j = i \<and> n = nodeId \<and> q = r \<and> clientNodeId client \<in> {[], nodeId} | _ \<Rightarrow> False) es"

definition ownFailure :: "nodeInvokeResult \<Rightarrow> bool" where
  "ownFailure r \<longleftrightarrow> r \<in> {invokeFailure ''NOT_CONNECTED'' ''node not connected'',
     invokeFailure ''UNAVAILABLE'' ''failed to send invoke to node'', invokeFailure ''TIMEOUT'' ''node invoke timed out''}"

definition sourced :: "registryEvent list \<Rightarrow> string \<times> settlement \<Rightarrow> bool" where
  "sourced es t \<longleftrightarrow> (case t of
     (i, Rejected _) \<Rightarrow> True
   | (i, Resolved r) \<Rightarrow> ownFailure r \<or> (\<exists>nodeId. invokedAt es i nodeId \<and> answeredBy es i nodeId r))"

definition pendingSourced :: "registryEvent list \<Rightarrow> nodeRegistry \<Rightarrow> bool" where
  "pendingSourced es reg \<longleftrightarrow> (\<forall>i p. map_of (nr_pendingInvokes reg) i = Some p \<longrightarrow> invokedAt es i (pi_nodeId p))"

lemma append_sources [simp]:
  "invokedAt (es @ es') i n \<longleftrightarrow> invokedAt es i n \<or> invokedAt es' i n"
  "answeredBy (es @ es') i n r \<longleftrightarrow> answeredBy es i n r \<or> answeredBy es' i n r"
  by (simp_all add: invokedAt_def answeredBy_def)

lemma single_source [simp]:
  "invokedAt [Invokes j n' command params timeoutMs key] i n \<longleftrightarrow> j = i \<and> n' = n"
  "answeredBy [NodeAnswers client j n' q] i n r \<longleftrightarrow> j = i \<and> n' = n \<and> q = r \<and> clientNodeId client \<in> {[], n}"
  by (auto simp: invokedAt_def answeredBy_def)

lemma sourced_mono: "sourced es t \<Longrightarrow> sourced (es @ es') t"
  by (cases t; cases "snd t") (auto simp: sourced_def)

lemma map_of_filter_SomeD: "jm_wf m \<Longrightarrow> map_of (filter P m) i = Some p \<Longrightarrow> map_of m i = Some p"
  using map_of_SomeD [of "filter P m" i p] by (simp add: jm_wf_def)

lemma pendingSourced_step:
  assumes "pendingSourced es reg" "\<And>i p. map_of (nr_pendingInvokes reg') i = Some p \<Longrightarrow>
    map_of (nr_pendingInvokes reg) i = Some p \<or> invokedAt es' i (pi_nodeId p)"
  shows "pendingSourced (es @ es') reg'"
  using assms by (fastforce simp: pendingSourced_def)

lemma registryStep_sourced:
  assumes "jm_wf (nr_pendingInvokes reg)" "pendingSourced es reg" "registryStep send e reg = (told, reg')"
  shows "pendingSourced (es @ [e]) reg' \<and> list_all (sourced (es @ [e])) told"
proof (cases e)
  case (NodeConnects now client ip)
  with assms show ?thesis by (auto simp: registerNode_def Let_def intro!: pendingSourced_step [OF assms(2)])
next
  case (NodeCloses connId)
  with assms map_of_filter_SomeD [OF assms(1)] show ?thesis
    by (auto simp: unregisterNode_def rejectedOf_def list_all_iff sourced_def intro!: pendingSourced_step [OF assms(2)]
      split: option.splits)
next
  case (Invokes i nodeId command params timeoutMs key)
  with assms show ?thesis
    by (auto simp: invokeNode_def sourced_def ownFailure_def update_conv' intro!: pendingSourced_step [OF assms(2)]
      split: option.splits if_splits)
next
  case (TimerFires i)
  with assms show ?thesis
    by (auto simp: invokeTimer_def sourced_def ownFailure_def intro!: pendingSourced_step [OF assms(2)]
      dest!: map_of_delete_Some split: option.splits)
next
  case (NodeAnswers client i nodeId r)
  have "invokedAt es i (pi_nodeId p)" if "map_of (nr_pendingInvokes reg) i = Some p" for p
    using assms(2) that by (simp add: pendingSourced_def)
  with NodeAnswers assms(3) show ?thesis
    by (auto simp: handleNodeInvokeResult_def handleInvokeResult_def Let_def sourced_def js_or_empty_def
      intro!: pendingSourced_step [OF assms(2)] dest!: map_of_delete_Some split: option.splits if_splits)
qed

lemma registryRun_sourced:
  assumes "jm_wf (nr_pendingInvokes reg)" "distinct (invokedIds es)"
    and "set (invokedIds es) \<inter> fst ` set (nr_pendingInvokes reg) = {}" "registryRun send es reg = (told, reg')"
    and "pendingSourced past reg"
  shows "list_all (sourced (past @ es)) told"
  using assms
proof (induction es arbitrary: reg told past)
  case (Cons e es)
  obtain told1 reg1 told2 where s: "registryStep send e reg = (told1, reg1)"
    and r: "registryRun send es reg1 = (told2, reg')" "told = told1 @ told2"
    using Cons.prems(4) by (auto split: prod.splits)
  note F = registry_fresh [OF Cons.prems(1-3) s]
  from registryStep_sourced [OF Cons.prems(1,5) s] have now: "pendingSourced (past @ [e]) reg1"
    "list_all (sourced ((past @ [e]) @ es)) told1"
    by (auto simp: list_all_iff simp del: append_assoc intro: sourced_mono)
  from Cons.IH [OF _ _ _ r(1) now(1)] F Cons.prems(2) have "list_all (sourced ((past @ [e]) @ es)) told2"
    by (simp add: invokedIds_def)
  with now(2) show ?case by (simp add: r(2))
qed simp

text \<open>C8: Every invocation of a node is settled exactly once. Whatever connects, closes, answers and times
  out in whatever order, the invocations whose caller was told a result and those that still wait are,
  each once, the invocations that were made; and a result that is not the registry's own failure is one
  that the invoked node gave for this invocation.\<close>

theorem invocation_settled_once:
  assumes "distinct (invokedIds es)" "registryRun send es newNodeRegistry = (told, reg)"
  shows "mset (map fst told) + mset (map fst (nr_pendingInvokes reg)) = mset (invokedIds es) \<and> list_all (sourced es) told"
  using registryRun_balance [OF _ assms(1) _ assms(2)] registryRun_sourced [OF _ assms(1) _ assms(2), of "[]"]
  by (simp add: newNodeRegistry_def pendingSourced_def)

definition demoNode :: "string \<Rightarrow> nodeClient" where
  "demoNode connId = \<lparr>cl_connId = connId, cl_deviceId = Some ''n1'', cl_clientId = ''node-host'', cl_displayName = None,
     cl_platform = Some ''linux'', cl_version = None, cl_coreVersion = None, cl_uiVersion = None, cl_deviceFamily = None,
     cl_modelIdentifier = None, cl_caps = None, cl_commands = Some [''system.notify''], cl_permissions = None,
     cl_pathEnv = None\<rparr>"

definition demoAnswer :: nodeInvokeResult where
  "demoAnswer = \<lparr>ir_ok = True, ir_payload = JNum 1, ir_payloadJSON = None, ir_error = None\<rparr>"

definition demoEvents :: "registryEvent list" where
  "demoEvents = [Invokes ''r0'' ''n1'' ''system.notify'' JNull (JNum 500) JUndef, NodeConnects 1 (demoNode ''c1'') None,
     Invokes ''r1'' ''n1'' ''system.notify'' JNull (JNum 500) JUndef, Invokes ''r2'' ''n1'' ''system.notify'' JNull JUndef JUndef,
     NodeAnswers (demoNode ''c1'') ''r1'' ''n1'' demoAnswer, TimerFires ''r1'', TimerFires ''r2'',
     Invokes ''r3'' ''n1'' ''system.notify'' JNull JUndef JUndef, Invokes ''r4'' ''n2'' ''system.notify'' JNull JUndef JUndef,
     NodeCloses ''c1'', NodeAnswers (demoNode ''c1'') ''r3'' ''n1'' demoAnswer]"

theorem invocation_settled_once_witness:
  "case registryRun (\<lambda>node event payload. True) demoEvents newNodeRegistry of
     (told, reg) \<Rightarrow> mset (map fst told) = {#''r0'', ''r1'', ''r2'', ''r3'', ''r4''#} \<and> nr_pendingInvokes reg = [] \<and>
       (''r1'', Resolved demoAnswer) \<in> set told \<and> list_all (sourced demoEvents) told"
proof -
  obtain told reg where run: "registryRun (\<lambda>node event payload. True) demoEvents newNodeRegistry = (told, reg)"
    by (cases "registryRun (\<lambda>node event payload. True) demoEvents newNodeRegistry")
  have ids: "invokedIds demoEvents = [''r0'', ''r1'', ''r2'', ''r3'', ''r4'']" by code_simp
  have "nr_pendingInvokes (snd (registryRun (\<lambda>node event payload. True) demoEvents newNodeRegistry)) = []" by code_simp
  moreover have "(''r1'', Resolved demoAnswer) \<in> set (fst (registryRun (\<lambda>node event payload. True) demoEvents newNodeRegistry))"
    by code_simp
  ultimately show ?thesis using invocation_settled_once [OF _ run] run by (simp add: ids)
qed

text \<open>A node that comes back before its old connection is closed: the late close removes the live session,
  and rejects what was asked of it.\<close>

lemma late_close_drops_live_session:
  assumes "clientNodeId c1 = n" "clientNodeId c2 = n" "n \<noteq> []" "cl_connId c1 \<noteq> cl_connId c2"
    and "registryRun send [NodeConnects t1 c1 ip1, NodeConnects t2 c2 ip2, NodeCloses (cl_connId c1)] newNodeRegistry = (told, reg)"
  shows "getNode reg n = None \<and> map_of (nr_nodesByConn reg) (cl_connId c2) = Some n"
  using assms
  by (auto simp: registerNode_def sessionOf_def unregisterNode_def newNodeRegistry_def getNode_def Let_def update_conv'
    delete_conv' js_or_empty_def js_some_def split: if_splits)

end
