(* ===== verification/Node_Subscriptions.thy ===== *)
theory Node_Subscriptions
  imports Node_Registry
begin

text \<open>
  \<open>src/gateway/server-node-subscriptions.ts\<close>, the subscriptions of nodes to sessions, kept in two indexes.
  An index maps a key to a set, kept as a list in the order of insertion.
\<close>

section \<open>Indexes\<close>

type_synonym index = "(string \<times> string list) list"

definition members :: "index \<Rightarrow> string \<Rightarrow> string list" where
  "members m k = js_default (map_of m k) []"

definition addMember :: "string \<Rightarrow> string \<Rightarrow> index \<Rightarrow> index" where
  "addMember k v m = (if v \<in> set (members m k) then m else AList.update k (members m k @ [v]) m)"

text \<open>Removes a member, and the set with its last member.\<close>

definition dropMember :: "string \<Rightarrow> string \<Rightarrow> index \<Rightarrow> index" where
  "dropMember k v m =
     (case map_of m k of
        None \<Rightarrow> m
      | Some vs \<Rightarrow> let rest = filter (\<lambda>x. x \<noteq> v) vs
          in if rest = [] then AList.delete k m else AList.update k rest m)"

section \<open>Subscriptions\<close>

record nodeSubscriptions =
  su_nodeSubscriptions :: index
  su_sessionSubscribers :: index

record nodeEvent =
  ev_nodeId :: string
  ev_event :: string
  ev_payloadJSON :: "string option"

definition noSubscriptions :: nodeSubscriptions where
  "noSubscriptions = \<lparr>su_nodeSubscriptions = [], su_sessionSubscribers = []\<rparr>"

definition toPayloadJSON :: "jsv \<Rightarrow> string option" where
  "toPayloadJSON payload = (if js_isTruthy payload then js_json payload else None)"

definition subscribe :: "string \<Rightarrow> string \<Rightarrow> nodeSubscriptions \<Rightarrow> nodeSubscriptions" where
  "subscribe nodeId sessionKey st =
     (let n = js_trim nodeId; s = js_trim sessionKey
      in if n = [] \<or> s = [] then st
         else if s \<in> set (members (su_nodeSubscriptions st) n) then st
         else st\<lparr>su_nodeSubscriptions := addMember n s (su_nodeSubscriptions st),
                 su_sessionSubscribers := addMember s n (su_sessionSubscribers st)\<rparr>)"

definition unsubscribe :: "string \<Rightarrow> string \<Rightarrow> nodeSubscriptions \<Rightarrow> nodeSubscriptions" where
  "unsubscribe nodeId sessionKey st =
     (let n = js_trim nodeId; s = js_trim sessionKey
      in if n = [] \<or> s = [] then st
         else st\<lparr>su_nodeSubscriptions := dropMember n s (su_nodeSubscriptions st),
                 su_sessionSubscribers := dropMember s n (su_sessionSubscribers st)\<rparr>)"

definition unsubscribeAll :: "string \<Rightarrow> nodeSubscriptions \<Rightarrow> nodeSubscriptions" where
  "unsubscribeAll nodeId st =
     (let n = js_trim nodeId
      in case map_of (su_nodeSubscriptions st) n of
           None \<Rightarrow> st
         | Some sessions \<Rightarrow>
             st\<lparr>su_sessionSubscribers := fold (\<lambda>s. dropMember s n) sessions (su_sessionSubscribers st),
                su_nodeSubscriptions := AList.delete n (su_nodeSubscriptions st)\<rparr>)"

definition nodeEvents :: "string list \<Rightarrow> string \<Rightarrow> jsv \<Rightarrow> nodeEvent list" where
  "nodeEvents nodes event payload =
     map (\<lambda>n. \<lparr>ev_nodeId = n, ev_event = event, ev_payloadJSON = toPayloadJSON payload\<rparr>) nodes"

definition sendToSession :: "nodeSubscriptions \<Rightarrow> string \<Rightarrow> string \<Rightarrow> jsv \<Rightarrow> nodeEvent list" where
  "sendToSession st sessionKey event payload =
     (let s = js_trim sessionKey
      in if s = [] then [] else nodeEvents (members (su_sessionSubscribers st) s) event payload)"

definition sendToAllSubscribed :: "nodeSubscriptions \<Rightarrow> string \<Rightarrow> jsv \<Rightarrow> nodeEvent list" where
  "sendToAllSubscribed st event payload = nodeEvents (map fst (su_nodeSubscriptions st)) event payload"

definition sendToAllConnected :: "nodeRegistry \<Rightarrow> string \<Rightarrow> jsv \<Rightarrow> nodeEvent list" where
  "sendToAllConnected reg event payload = nodeEvents (map ns_nodeId (listConnected reg)) event payload"

datatype subscriptionOp = Subscribe string string | Unsubscribe string string | UnsubscribeAll string | ClearAll

fun subscriptionStep :: "subscriptionOp \<Rightarrow> nodeSubscriptions \<Rightarrow> nodeSubscriptions" where
  "subscriptionStep (Subscribe n s) st = subscribe n s st"
| "subscriptionStep (Unsubscribe n s) st = unsubscribe n s st"
| "subscriptionStep (UnsubscribeAll n) st = unsubscribeAll n st"
| "subscriptionStep ClearAll st = noSubscriptions"

section \<open>A relation between nodes and sessions\<close>

text \<open>What is promised: the operations on a set of pairs.\<close>

fun relationStep :: "subscriptionOp \<Rightarrow> (string \<times> string) set \<Rightarrow> (string \<times> string) set" where
  "relationStep (Subscribe n s) R = (if js_trim n = [] \<or> js_trim s = [] then R else insert (js_trim n, js_trim s) R)"
| "relationStep (Unsubscribe n s) R = R - {(js_trim n, js_trim s)}"
| "relationStep (UnsubscribeAll n) R = R - {js_trim n} \<times> UNIV"
| "relationStep ClearAll R = {}"

definition indexOk :: "index \<Rightarrow> bool" where
  "indexOk m \<longleftrightarrow> jm_wf m \<and> (\<forall>k vs. map_of m k = Some vs \<longrightarrow> vs \<noteq> [] \<and> distinct vs)"

definition refines :: "nodeSubscriptions \<Rightarrow> (string \<times> string) set \<Rightarrow> bool" where
  "refines st R \<longleftrightarrow> indexOk (su_nodeSubscriptions st) \<and> indexOk (su_sessionSubscribers st) \<and>
     (\<forall>n s. s \<in> set (members (su_nodeSubscriptions st) n) \<longleftrightarrow> (n, s) \<in> R) \<and>
     (\<forall>n s. n \<in> set (members (su_sessionSubscribers st) s) \<longleftrightarrow> (n, s) \<in> R) \<and>
     (\<forall>(n, s) \<in> R. n \<noteq> [] \<and> s \<noteq> [])"

lemma members_add: "set (members (addMember k v m) k') = (if k' = k then insert v (set (members m k)) else set (members m k'))"
  by (auto simp: addMember_def members_def js_default_def update_conv')

lemma members_drop: "set (members (dropMember k v m) k') = set (members m k') - (if k' = k then {v} else {})"
  by (auto simp: dropMember_def members_def js_default_def update_conv' delete_conv' Let_def filter_empty_conv split: option.splits)

lemma indexOkD: "indexOk m \<Longrightarrow> map_of m k = Some vs \<Longrightarrow> vs \<noteq> [] \<and> distinct vs"
  unfolding indexOk_def by blast

lemma indexOkI: "jm_wf m \<Longrightarrow> (\<And>k vs. map_of m k = Some vs \<Longrightarrow> vs \<noteq> [] \<and> distinct vs) \<Longrightarrow> indexOk m"
  unfolding indexOk_def by blast

lemma indexOk_wf: "indexOk m \<Longrightarrow> jm_wf m"
  unfolding indexOk_def by blast

lemma distinct_members: "indexOk m \<Longrightarrow> distinct (members m k)"
proof (cases "map_of m k")
  case (Some vs)
  assume "indexOk m"
  from indexOkD [OF this Some] Some show ?thesis by (simp add: members_def js_default_def)
qed (simp add: members_def js_default_def)

lemma indexOk_update:
  assumes "indexOk m" "vs \<noteq> []" "distinct vs"
  shows "indexOk (AList.update k vs m)"
proof (rule indexOkI)
  show "jm_wf (AList.update k vs m)" by (rule jm_wf_update) (rule indexOk_wf [OF assms(1)])
  show "ws \<noteq> [] \<and> distinct ws" if "map_of (AList.update k vs m) l = Some ws" for l ws
    using that assms(2,3) indexOkD [OF assms(1), of l ws] by (cases "l = k") (simp_all add: update_conv')
qed

lemma indexOk_delete [simp]:
  assumes "indexOk m"
  shows "indexOk (AList.delete k m)"
proof (rule indexOkI)
  show "jm_wf (AList.delete k m)" by (rule jm_wf_delete) (rule indexOk_wf [OF assms])
  show "ws \<noteq> [] \<and> distinct ws" if "map_of (AList.delete k m) l = Some ws" for l ws
    by (rule indexOkD [OF assms map_of_delete_Some [OF that]])
qed

lemma indexOk_add [simp]: "indexOk m \<Longrightarrow> indexOk (addMember k v m)"
  using distinct_members [of m k] by (simp add: addMember_def indexOk_update)

lemma indexOk_drop [simp]:
  assumes "indexOk m"
  shows "indexOk (dropMember k v m)"
proof (cases "map_of m k")
  case None
  with assms show ?thesis by (simp add: dropMember_def)
next
  case (Some vs)
  have "distinct vs" using indexOkD [OF assms Some] by simp
  with Some assms show ?thesis by (simp add: dropMember_def Let_def indexOk_update)
qed

lemma drop_all:
  "indexOk m \<Longrightarrow> indexOk (fold (\<lambda>s. dropMember s n) ss m) \<and>
   set (members (fold (\<lambda>s. dropMember s n) ss m) s) = set (members m s) - (if s \<in> set ss then {n} else {})"
  by (induction ss arbitrary: m) (auto simp: members_drop)

lemma members_delete: "members (AList.delete k m) k' = (if k' = k then [] else members m k')"
  by (simp add: members_def delete_conv' js_default_def)

lemma indexOk_Nil [simp]: "indexOk []"
  by (rule indexOkI) simp_all

lemma refines_step: "refines st R \<Longrightarrow> refines (subscriptionStep e st) (relationStep e R)"
proof (cases e)
  case (Subscribe n s)
  then show "refines st R \<Longrightarrow> refines (subscriptionStep e st) (relationStep e R)"
    by (auto simp: refines_def subscribe_def Let_def members_add insert_absorb)
next
  case (Unsubscribe n s)
  then show "refines st R \<Longrightarrow> refines (subscriptionStep e st) (relationStep e R)"
    by (auto simp: refines_def unsubscribe_def Let_def members_drop)
next
  case (UnsubscribeAll n)
  assume R: "refines st R"
  show ?thesis
  proof (cases "map_of (su_nodeSubscriptions st) (js_trim n)")
    case None
    then have "members (su_nodeSubscriptions st) (js_trim n) = []" by (simp add: members_def js_default_def)
    with R have "(js_trim n, s) \<notin> R" for s by (metis refines_def empty_iff empty_set)
    then have "relationStep e R = R" by (auto simp: UnsubscribeAll)
    with R None show ?thesis by (simp add: UnsubscribeAll unsubscribeAll_def Let_def)
  next
    case (Some ss)
    then have "members (su_nodeSubscriptions st) (js_trim n) = ss" by (simp add: members_def js_default_def)
    with R Some show ?thesis
      by (auto simp: UnsubscribeAll unsubscribeAll_def Let_def refines_def drop_all members_delete split: if_splits)
  qed
next
  case ClearAll
  then show "refines st R \<Longrightarrow> refines (subscriptionStep e st) (relationStep e R)"
    by (simp add: refines_def noSubscriptions_def members_def js_default_def)
qed

lemma refines_run: "refines st R \<Longrightarrow> refines (fold subscriptionStep es st) (fold relationStep es R)"
  by (induction es arbitrary: st R) (simp_all add: refines_step)

lemma key_members: "indexOk m \<Longrightarrow> k \<in> set (map fst m) \<longleftrightarrow> (\<exists>v. v \<in> set (members m k))"
proof (cases "map_of m k")
  case None
  then have "members m k = []" unfolding members_def js_default_def by (simp only: option.case)
  moreover have "k \<notin> set (map fst m)" using None by (simp add: map_of_eq_None_iff)
  ultimately show ?thesis by simp
next
  case (Some vs)
  assume "indexOk m"
  from indexOkD [OF this Some] Some have "\<exists>v. v \<in> set (members m k)"
    by (cases vs) (auto simp: members_def js_default_def)
  moreover have "k \<in> set (map fst m)" using map_of_SomeD [OF Some] by force
  ultimately show ?thesis by simp
qed

lemma refines_keys:
  assumes "refines st R"
  shows "set (map fst (su_nodeSubscriptions st)) = Domain R"
proof -
  have ok: "indexOk (su_nodeSubscriptions st)" and R: "\<And>n s. s \<in> set (members (su_nodeSubscriptions st) n) \<longleftrightarrow> (n, s) \<in> R"
    using assms by (auto simp: refines_def)
  have "n \<in> set (map fst (su_nodeSubscriptions st)) \<longleftrightarrow> n \<in> Domain R" for n
    by (simp only: key_members [OF ok] R Domain_iff)
  then show ?thesis by blast
qed

text \<open>C17: The two indexes of the subscriptions are one relation. After any sequence of operations, an event
  for a session goes to exactly the nodes that are subscribed to it, and an event for all subscribers to
  exactly the nodes with a subscription, each once; subscribing adds a pair, unsubscribing removes it, and
  a node that disconnects loses all of its pairs.\<close>

theorem subscriptions_refine_relation:
  "let st = fold subscriptionStep es noSubscriptions; R = fold relationStep es {}
   in sendToSession st key event payload = nodeEvents (map ev_nodeId (sendToSession st key event payload)) event payload \<and>
      distinct (map ev_nodeId (sendToSession st key event payload)) \<and>
      set (map ev_nodeId (sendToSession st key event payload)) = {n. (n, js_trim key) \<in> R} \<and>
      distinct (map ev_nodeId (sendToAllSubscribed st event payload)) \<and>
      set (map ev_nodeId (sendToAllSubscribed st event payload)) = Domain R"
proof -
  let ?st = "fold subscriptionStep es noSubscriptions" and ?R = "fold relationStep es {}"
  have "refines noSubscriptions {}"
    by (simp add: refines_def noSubscriptions_def members_def js_default_def)
  from refines_run [OF this] have R: "refines ?st ?R" .
  have ids: "map ev_nodeId (nodeEvents ns event payload) = ns" for ns by (simp add: nodeEvents_def comp_def)
  have one: "map ev_nodeId (sendToSession ?st key event payload) =
      (if js_trim key = [] then [] else members (su_sessionSubscribers ?st) (js_trim key))"
    by (simp add: sendToSession_def Let_def ids)
  have every: "map ev_nodeId (sendToAllSubscribed ?st event payload) = map fst (su_nodeSubscriptions ?st)"
    by (simp add: sendToAllSubscribed_def ids)
  have "sendToSession ?st key event payload = nodeEvents (map ev_nodeId (sendToSession ?st key event payload)) event payload"
    by (simp add: sendToSession_def Let_def ids) (simp add: nodeEvents_def)
  moreover have "set (map ev_nodeId (sendToSession ?st key event payload)) = {n. (n, js_trim key) \<in> ?R}"
    unfolding one using R by (auto simp: refines_def)
  moreover have "distinct (map ev_nodeId (sendToSession ?st key event payload))"
    unfolding one using R distinct_members [of "su_sessionSubscribers ?st" "js_trim key"] by (simp add: refines_def)
  moreover have "distinct (map ev_nodeId (sendToAllSubscribed ?st event payload))"
    unfolding every using R by (simp add: refines_def indexOk_wf [unfolded jm_wf_def])
  ultimately show ?thesis unfolding Let_def using refines_keys [OF R] every by simp
qed

end
