(* ===== verification/Node_Invoke.thy ===== *)
theory Node_Invoke
  imports Node_Subscriptions Exec_Approvals
begin

text \<open>
  The request handlers of \<open>src/gateway/server-methods/nodes.ts\<close> that invoke a command on a node, and the
  actions that wait until a node comes to the foreground, with \<open>src/gateway/node-invoke-sanitize.ts\<close>. What
  waking a node achieves is seen in the registry when it is looked at again; fresh ids are arguments.
\<close>

section \<open>Actions that wait for the foreground\<close>

definition NODE_PENDING_ACTION_TTL_MS :: int where "NODE_PENDING_ACTION_TTL_MS = 10 * 60000"
definition NODE_PENDING_ACTION_MAX_PER_NODE :: nat where "NODE_PENDING_ACTION_MAX_PER_NODE = 64"

record pendingNodeAction =
  pa_id :: string
  pa_nodeId :: string
  pa_command :: string
  pa_paramsJSON :: "string option"
  pa_idempotencyKey :: string
  pa_enqueuedAtMs :: int

type_synonym pendingActions = "(string \<times> pendingNodeAction list) list"

definition isForegroundRestrictedIosCommand :: "string \<Rightarrow> bool" where
  "isForegroundRestrictedIosCommand command \<longleftrightarrow> list_ex (\<lambda>p. prefix p command) [''canvas.'', ''camera.'', ''screen.'', ''talk.'']"

text \<open>\<open>toUpperCase\<close> of Latin-1 text; the sharp s becomes two letters, and the two letters whose capitals are
  not Latin-1 stay.\<close>

definition js_upper :: "string \<Rightarrow> string" where
  "js_upper s = concat (map (\<lambda>c. let n = (of_char c :: nat) in
     if (97 \<le> n \<and> n \<le> 122) \<or> (224 \<le> n \<and> n \<le> 254 \<and> n \<noteq> 247) then [char_of (n - 32)]
     else if n = 223 then ''SS'' else [c]) s)"

definition shouldQueueAsPendingForegroundAction :: "string option \<Rightarrow> string \<Rightarrow> nodeError option \<Rightarrow> bool" where
  "shouldQueueAsPendingForegroundAction platform command err \<longleftrightarrow>
     (let p = js_lower (js_trim (js_or_empty platform));
          code = js_upper (js_trim (js_or_empty (Option.bind err er_code)));
          message = js_upper (js_trim (js_or_empty (Option.bind err er_message)))
      in (prefix ''ios'' p \<or> prefix ''ipados'' p) \<and> isForegroundRestrictedIosCommand command \<and>
         (code = ''NODE_BACKGROUND_UNAVAILABLE'' \<or> sublist ''BACKGROUND_UNAVAILABLE'' message))"

definition prunePendingNodeActions :: "string \<Rightarrow> int \<Rightarrow> pendingActions \<Rightarrow> pendingNodeAction list \<times> pendingActions" where
  "prunePendingNodeActions nodeId nowMs m =
     (let live = filter (\<lambda>e. nowMs - NODE_PENDING_ACTION_TTL_MS \<le> pa_enqueuedAtMs e) (js_default (map_of m nodeId) [])
      in if live = [] then ([], AList.delete nodeId m) else (live, AList.update nodeId live m))"

definition enqueuePendingNodeAction ::
  "int \<Rightarrow> string \<Rightarrow> string \<Rightarrow> string \<Rightarrow> string option \<Rightarrow> string \<Rightarrow> pendingActions \<Rightarrow> pendingNodeAction \<times> pendingActions" where
  "enqueuePendingNodeAction nowMs newId nodeId command paramsJSON idempotencyKey m =
     (case prunePendingNodeActions nodeId nowMs m of (queue, m') \<Rightarrow>
       (case List.find (\<lambda>e. pa_idempotencyKey e = idempotencyKey) queue of
          Some existing \<Rightarrow> (existing, m')
        | None \<Rightarrow>
            let entry = \<lparr>pa_id = newId, pa_nodeId = nodeId, pa_command = command, pa_paramsJSON = paramsJSON,
                  pa_idempotencyKey = idempotencyKey, pa_enqueuedAtMs = nowMs\<rparr>;
                pushed = queue @ [entry]
            in (entry, AList.update nodeId (drop (length pushed - NODE_PENDING_ACTION_MAX_PER_NODE) pushed) m')))"

definition listPendingNodeActions :: "string \<Rightarrow> int \<Rightarrow> pendingActions \<Rightarrow> pendingNodeAction list \<times> pendingActions" where
  "listPendingNodeActions = prunePendingNodeActions"

definition ackPendingNodeActions ::
  "string \<Rightarrow> string list \<Rightarrow> int \<Rightarrow> pendingActions \<Rightarrow> pendingNodeAction list \<times> pendingActions" where
  "ackPendingNodeActions nodeId ids nowMs m =
     (if ids = [] then listPendingNodeActions nodeId nowMs m
      else (case prunePendingNodeActions nodeId nowMs m of (pending, m') \<Rightarrow>
        let remaining = filter (\<lambda>e. pa_id e \<notin> set ids) pending
        in if remaining = [] then ([], AList.delete nodeId m') else (remaining, AList.update nodeId remaining m')))"

text \<open>The handlers \<open>node.pending.pull\<close> and \<open>node.pending.ack\<close>; a client without an id is refused.\<close>

definition pendingPull :: "nodeClient \<Rightarrow> int \<Rightarrow> pendingActions \<Rightarrow> pendingNodeAction list option \<times> pendingActions" where
  "pendingPull client nowMs m =
     (let nodeId = js_trim (clientNodeId client)
      in if nodeId = [] then (None, m) else (case listPendingNodeActions nodeId nowMs m of (q, m') \<Rightarrow> (Some q, m')))"

definition pendingAck :: "nodeClient \<Rightarrow> string list \<Rightarrow> int \<Rightarrow> pendingActions \<Rightarrow> (string list \<times> nat) option \<times> pendingActions" where
  "pendingAck client ids nowMs m =
     (let nodeId = js_trim (clientNodeId client); ackIds = js_uniq (filter (\<lambda>i. i \<noteq> []) (map js_trim ids))
      in if nodeId = [] then (None, m)
         else (case ackPendingNodeActions nodeId ackIds nowMs m of (q, m') \<Rightarrow> (Some (ackIds, length q), m')))"

section \<open>Invoking a command\<close>






text \<open>What the caller is told when the invocation is settled; an action that a phone in the background
  refuses waits for the foreground.\<close>

datatype invokeAnswer = Answered nodeInvokeResult | QueuedUntilForeground pendingNodeAction | NodeUnavailable "nodeError option"

definition answerInvoke ::
  "int \<Rightarrow> string \<Rightarrow> nodeSession \<Rightarrow> string \<Rightarrow> string \<Rightarrow> jsv \<Rightarrow> string \<Rightarrow> nodeInvokeResult \<Rightarrow> pendingActions \<Rightarrow>
   invokeAnswer \<times> pendingActions" where
  "answerInvoke nowMs newId node nodeId command forwarded key res m =
     (if ir_ok res then (Answered res, m)
      else if shouldQueueAsPendingForegroundAction (ns_platform node) command (ir_error res)
      then (case enqueuePendingNodeAction nowMs newId nodeId command (js_json forwarded) key m of
              (queued, m') \<Rightarrow> (QueuedUntilForeground queued, m'))
      else (NodeUnavailable (ir_error res), m))"

section \<open>What reaches a node\<close>









text \<open>A family that only contains the letters of a Mac gets the commands of one.\<close>

lemma machine_is_a_mac:
  "normalizePlatformId (\<lambda>s. s) (Some ''RTOS'') (Some ''Vending Machine'') = PlatformMacos \<and>
   ''system.run'' \<in> set (resolveNodeCommandAllowlist (\<lambda>s. s) \<lparr>nc_allowCommands = None, nc_denyCommands = None\<rparr>
     (Some ''RTOS'') (Some ''Vending Machine''))"
  by code_simp

section \<open>The actions of a node\<close>

datatype pendingOp = Enqueue int string string string "string option" string | Pull string int | Ack string "string list" int

fun pendingStep :: "pendingOp \<Rightarrow> pendingActions \<Rightarrow> pendingActions" where
  "pendingStep (Enqueue now i n command params key) m = snd (enqueuePendingNodeAction now i n command params key m)"
| "pendingStep (Pull n now) m = snd (listPendingNodeActions n now m)"
| "pendingStep (Ack n ids now) m = snd (ackPendingNodeActions n ids now m)"

definition queueOk :: "string \<Rightarrow> pendingNodeAction list \<Rightarrow> bool" where
  "queueOk n q \<longleftrightarrow> q \<noteq> [] \<and> length q \<le> NODE_PENDING_ACTION_MAX_PER_NODE \<and> distinct (map pa_idempotencyKey q) \<and>
     list_all (\<lambda>e. pa_nodeId e = n) q"

definition pendingOk :: "pendingActions \<Rightarrow> bool" where
  "pendingOk m \<longleftrightarrow> list_all (\<lambda>(n, q). queueOk n q) m"

lemma queueOk_filter: "queueOk n q \<Longrightarrow> filter P q \<noteq> [] \<Longrightarrow> queueOk n (filter P q)"
  by (auto simp: queueOk_def distinct_map_filter list_all_iff intro: order_trans [OF length_filter_le])

lemma pendingOk_update: "pendingOk m \<Longrightarrow> queueOk n q \<Longrightarrow> pendingOk (AList.update n q m)"
  unfolding pendingOk_def by (induction m) auto

lemma pendingOk_delete: "pendingOk m \<Longrightarrow> pendingOk (AList.delete n m)"
  unfolding pendingOk_def by (induction m) auto

lemma pendingOk_lookup: "pendingOk m \<Longrightarrow> map_of m n = Some q \<Longrightarrow> queueOk n q"
  by (auto simp: pendingOk_def list_all_iff dest: map_of_SomeD)

lemma prune_ok:
  assumes "pendingOk m" "prunePendingNodeActions n now m = (q, m')"
  shows "pendingOk m' \<and> (q = [] \<or> queueOk n q)"
proof (cases "map_of m n")
  case None
  with assms pendingOk_delete show ?thesis by (auto simp: prunePendingNodeActions_def js_default_def)
next
  case (Some old)
  note filtered = queueOk_filter [OF pendingOk_lookup [OF assms(1) Some]]
  from Some assms(2) filtered pendingOk_update [OF assms(1) filtered] pendingOk_delete [OF assms(1)] show ?thesis
    by (auto simp: prunePendingNodeActions_def js_default_def Let_def split: if_splits)
qed

lemma queueOk_push:
  assumes "q = [] \<or> queueOk n q" "pa_nodeId e = n" "pa_idempotencyKey e \<notin> set (map pa_idempotencyKey q)"
  shows "queueOk n (drop (length (q @ [e]) - NODE_PENDING_ACTION_MAX_PER_NODE) (q @ [e]))"
proof -
  let ?k = "length (q @ [e]) - NODE_PENDING_ACTION_MAX_PER_NODE"
  have "distinct (map pa_idempotencyKey (q @ [e]))" "list_all (\<lambda>e. pa_nodeId e = n) (q @ [e])"
    using assms by (auto simp: queueOk_def)
  then have "distinct (map pa_idempotencyKey (drop ?k (q @ [e])))" "list_all (\<lambda>e. pa_nodeId e = n) (drop ?k (q @ [e]))"
    using set_drop_subset [of ?k "q @ [e]"] by (simp_all only: drop_map [symmetric] distinct_drop) (auto simp: list_all_iff)
  then show ?thesis by (simp add: queueOk_def NODE_PENDING_ACTION_MAX_PER_NODE_def)
qed

lemma pendingStep_ok:
  assumes "pendingOk m"
  shows "pendingOk (pendingStep e m)"
proof (cases e)
  case (Enqueue now i n command params key)
  obtain q m' where p: "prunePendingNodeActions n now m = (q, m')" by fastforce
  note P = prune_ok [OF assms p]
  show ?thesis
  proof (cases "List.find (\<lambda>e. pa_idempotencyKey e = key) q")
    case None
    let ?e = "\<lparr>pa_id = i, pa_nodeId = n, pa_command = command, pa_paramsJSON = params, pa_idempotencyKey = key, pa_enqueuedAtMs = now\<rparr>"
    have "pa_idempotencyKey ?e \<notin> set (map pa_idempotencyKey q)" using None by (auto simp: find_None_iff)
    from queueOk_push [OF conjunct2 [OF P] _ this] pendingOk_update [OF conjunct1 [OF P]] show ?thesis
      by (simp add: Enqueue enqueuePendingNodeAction_def p None Let_def)
  next
    case (Some e')
    with P show ?thesis by (simp add: Enqueue enqueuePendingNodeAction_def p)
  qed
next
  case (Pull n now)
  then show ?thesis using prune_ok [OF assms, of n now] by (cases "prunePendingNodeActions n now m") (simp add: listPendingNodeActions_def)
next
  case (Ack n ids now)
  obtain q m' where p: "prunePendingNodeActions n now m = (q, m')" by fastforce
  note P = prune_ok [OF assms p]
  have "queueOk n (filter (\<lambda>e. pa_id e \<notin> set ids) q)" if "filter (\<lambda>e. pa_id e \<notin> set ids) q \<noteq> []"
    using P that queueOk_filter by (cases "q = []") auto
  with P pendingOk_update [OF conjunct1 [OF P]] pendingOk_delete [OF conjunct1 [OF P]] show ?thesis
    by (auto simp: Ack ackPendingNodeActions_def listPendingNodeActions_def p Let_def)
qed

lemma pendingRun_ok: "pendingOk m \<Longrightarrow> pendingOk (fold pendingStep es m)"
  by (induction es arbitrary: m) (simp_all add: pendingStep_ok)

text \<open>The actions that wait for a phone stay bounded. After any sequence of operations at any times, every
  node with waiting actions has between one and 64 of them, they are its own, and no two of them carry
  the same idempotency key: repeating a request does not queue it twice.\<close>

theorem pending_actions_bounded:
  "list_all (\<lambda>(n, q). queueOk n q) (fold pendingStep es [])"
  using pendingRun_ok [of "[]" es] by (simp add: pendingOk_def)

end
