(* ===== verification/Diagnostic_Sessions.thy ===== *)
theory Diagnostic_Sessions
  imports Js_Values "HOL-Library.Multiset"
begin

text \<open>
  \<open>src/logging/diagnostic-session-state.ts\<close>, the store of the diagnostic state of sessions, and
  \<open>src/agents/command-poll-backoff.ts\<close>, which keeps poll counts in it. A lookup hands out an object that its
  callers change in place: here it names the key under which the object is kept.
\<close>

section \<open>Sessions\<close>

datatype sessionStateValue = SessionIdle | SessionProcessing | SessionWaiting

record toolCallRecord =
  tc_toolName :: string
  tc_argsHash :: string
  tc_toolCallId :: "string option"
  tc_resultHash :: "string option"
  tc_timestamp :: int

record pollCount =
  pc_count :: int
  pc_lastPollAt :: int

text \<open>Absent histories and maps are empty.\<close>

record sessionState =
  ss_sessionId :: "string option"
  ss_sessionKey :: "string option"
  ss_lastActivity :: int
  ss_state :: sessionStateValue
  ss_queueDepth :: int
  ss_toolCallHistory :: "toolCallRecord list"
  ss_toolLoopWarningBuckets :: "(string \<times> int) list"
  ss_commandPollCounts :: "(string \<times> pollCount) list"

record sessionRef =
  sr_sessionId :: "string option"
  sr_sessionKey :: "string option"

record diagnosticStore =
  dg_states :: "(string \<times> sessionState) list"
  dg_lastPruneAt :: int

definition SESSION_STATE_TTL_MS :: int where "SESSION_STATE_TTL_MS = 30 * 60 * 1000"
definition SESSION_STATE_PRUNE_INTERVAL_MS :: int where "SESSION_STATE_PRUNE_INTERVAL_MS = 60 * 1000"
definition SESSION_STATE_MAX_ENTRIES :: nat where "SESSION_STATE_MAX_ENTRIES = 2000"

definition noDiagnostics :: diagnosticStore where
  "noDiagnostics = \<lparr>dg_states = [], dg_lastPruneAt = 0\<rparr>"

definition staleSession :: "int \<Rightarrow> sessionState \<Rightarrow> bool" where
  "staleSession now st \<longleftrightarrow> ss_state st = SessionIdle \<and> ss_queueDepth st \<le> 0 \<and> SESSION_STATE_TTL_MS < now - ss_lastActivity st"

text \<open>The keys with the oldest activity, as many as there are too many; the loop stops at an empty key.\<close>

definition excessKeys :: "(string \<times> sessionState) list \<Rightarrow> string list" where
  "excessKeys m =
     takeWhile (\<lambda>k. k \<noteq> []) (map fst (take (length m - SESSION_STATE_MAX_ENTRIES) (sort_key (\<lambda>(k, st). ss_lastActivity st) m)))"

definition pruneDiagnosticSessionStates :: "int \<Rightarrow> bool \<Rightarrow> diagnosticStore \<Rightarrow> diagnosticStore" where
  "pruneDiagnosticSessionStates now force store =
     (if \<not> force \<and> \<not> SESSION_STATE_MAX_ENTRIES < length (dg_states store) \<and>
         now - dg_lastPruneAt store < SESSION_STATE_PRUNE_INTERVAL_MS
      then store
      else let live = filter (\<lambda>(k, st). \<not> staleSession now st) (dg_states store)
        in \<lparr>dg_states = filter (\<lambda>(k, st). k \<notin> set (excessKeys live)) live, dg_lastPruneAt = now\<rparr>)"

definition resolveSessionKey :: "sessionRef \<Rightarrow> string" where
  "resolveSessionKey ref = js_default (js_coalesce (sr_sessionKey ref) (sr_sessionId ref)) ''unknown''"

text \<open>The key of the first state with the id.\<close>

definition findStateBySessionId :: "string \<Rightarrow> diagnosticStore \<Rightarrow> string option" where
  "findStateBySessionId sessionId store =
     map_option fst (List.find (\<lambda>(k, st). ss_sessionId st = Some sessionId) (dg_states store))"

definition foundSessionKey :: "sessionRef \<Rightarrow> diagnosticStore \<Rightarrow> string option" where
  "foundSessionKey ref store =
     (let key = resolveSessionKey ref
      in if map_of (dg_states store) key \<noteq> None then Some key
         else case js_some (js_or_empty (sr_sessionId ref)) of
             None \<Rightarrow> None | Some sessionId \<Rightarrow> findStateBySessionId sessionId store)"

definition renamedSession :: "sessionRef \<Rightarrow> sessionState \<Rightarrow> sessionState" where
  "renamedSession ref st = st\<lparr>ss_sessionId := (case js_some (js_or_empty (sr_sessionId ref)) of None \<Rightarrow> ss_sessionId st | i \<Rightarrow> i),
     ss_sessionKey := (case js_some (js_or_empty (sr_sessionKey ref)) of None \<Rightarrow> ss_sessionKey st | k \<Rightarrow> k)\<rparr>"

definition createdSession :: "int \<Rightarrow> sessionRef \<Rightarrow> sessionState" where
  "createdSession now ref = \<lparr>ss_sessionId = sr_sessionId ref, ss_sessionKey = sr_sessionKey ref, ss_lastActivity = now,
     ss_state = SessionIdle, ss_queueDepth = 0, ss_toolCallHistory = [], ss_toolLoopWarningBuckets = [],
     ss_commandPollCounts = []\<rparr>"

text \<open>The key under which the state is kept, the state, and the store.\<close>

definition getDiagnosticSessionState :: "int \<Rightarrow> sessionRef \<Rightarrow> diagnosticStore \<Rightarrow> string \<times> sessionState \<times> diagnosticStore" where
  "getDiagnosticSessionState now ref store0 =
     (let store = pruneDiagnosticSessionStates now False store0; key = resolveSessionKey ref
      in case foundSessionKey ref store of
           Some k \<Rightarrow>
             (let st = renamedSession ref (the (map_of (dg_states store) k))
              in (k, st, store\<lparr>dg_states := AList.update k st (dg_states store)\<rparr>))
         | None \<Rightarrow>
             (let st = createdSession now ref
              in (key, st, pruneDiagnosticSessionStates now True (store\<lparr>dg_states := AList.update key st (dg_states store)\<rparr>))))"

text \<open>What callers do to the object they were handed; one that was removed is lost.\<close>

definition changeSession :: "string \<Rightarrow> sessionState \<Rightarrow> diagnosticStore \<Rightarrow> diagnosticStore" where
  "changeSession k st store =
     (if map_of (dg_states store) k = None then store else store\<lparr>dg_states := AList.update k st (dg_states store)\<rparr>)"

section \<open>Backoff of polls\<close>

definition BACKOFF_SCHEDULE_MS :: "int list" where
  "BACKOFF_SCHEDULE_MS = [5000, 10000, 30000, 60000]"

definition calculateBackoffMs :: "int \<Rightarrow> int" where
  "calculateBackoffMs n =
     (let i = min n (int (length BACKOFF_SCHEDULE_MS) - 1) in if i < 0 then 60000 else BACKOFF_SCHEDULE_MS ! nat i)"

definition recordCommandPoll :: "int \<Rightarrow> string \<Rightarrow> bool \<Rightarrow> sessionState \<Rightarrow> int \<times> sessionState" where
  "recordCommandPoll now commandId hasNewOutput st =
     (if hasNewOutput
      then (5000, st\<lparr>ss_commandPollCounts := AList.update commandId \<lparr>pc_count = 0, pc_lastPollAt = now\<rparr> (ss_commandPollCounts st)\<rparr>)
      else let newCount = (case map_of (ss_commandPollCounts st) commandId of None \<Rightarrow> - 1 | Some c \<Rightarrow> pc_count c) + 1
        in (calculateBackoffMs newCount,
            st\<lparr>ss_commandPollCounts := AList.update commandId \<lparr>pc_count = newCount, pc_lastPollAt = now\<rparr> (ss_commandPollCounts st)\<rparr>))"

definition getCommandPollSuggestion :: "string \<Rightarrow> sessionState \<Rightarrow> int option" where
  "getCommandPollSuggestion commandId st =
     map_option (\<lambda>c. calculateBackoffMs (pc_count c)) (map_of (ss_commandPollCounts st) commandId)"

definition resetCommandPollCount :: "string \<Rightarrow> sessionState \<Rightarrow> sessionState" where
  "resetCommandPollCount commandId st = st\<lparr>ss_commandPollCounts := AList.delete commandId (ss_commandPollCounts st)\<rparr>"

definition pruneStaleCommandPolls :: "int \<Rightarrow> int \<Rightarrow> sessionState \<Rightarrow> sessionState" where
  "pruneStaleCommandPolls now maxAgeMs st =
     st\<lparr>ss_commandPollCounts := filter (\<lambda>(k, c). \<not> maxAgeMs < now - pc_lastPollAt c) (ss_commandPollCounts st)\<rparr>"

section \<open>The store stays bounded\<close>

lemma length_minus_keys:
  assumes "distinct (map fst m)" "ks = map fst (take n ys)" "mset ys = mset m" "n \<le> length m"
  shows "length (filter (\<lambda>(k, v). k \<notin> set ks) m) = length m - n"
proof -
  have "length (filter (\<lambda>(k, v). k \<notin> set ks) m) = length (filter (\<lambda>(k, v). k \<notin> set ks) ys)"
    using assms(3) by (metis mset_filter size_mset)
  also have "\<dots> = length (filter (\<lambda>(k, v). k \<notin> set ks) (take n ys)) + length (filter (\<lambda>(k, v). k \<notin> set ks) (drop n ys))"
    by (metis append_take_drop_id filter_append length_append)
  also have "filter (\<lambda>(k, v). k \<notin> set ks) (take n ys) = []"
    unfolding assms(2) filter_empty_conv by force
  also have "filter (\<lambda>(k, v). k \<notin> set ks) (drop n ys) = drop n ys"
  proof -
    have "distinct (map fst ys)" using assms(1,3) by (metis mset_map mset_eq_imp_distinct_iff)
    then have "distinct (map fst (take n ys) @ map fst (drop n ys))" by (metis append_take_drop_id map_append)
    then have "set ks \<inter> fst ` set (drop n ys) = {}" unfolding assms(2) distinct_append by simp
    then have "\<forall>p \<in> set (drop n ys). fst p \<notin> set ks" by blast
    then show ?thesis by (intro filter_True) (simp add: split_beta)
  qed
  finally show ?thesis using mset_eq_length [OF assms(3)] by (simp only: list.size length_drop add_0)
qed

lemma prune_bounded:
  assumes "jm_wf (dg_states store)" "[] \<notin> fst ` set (dg_states store)"
  shows "length (dg_states (pruneDiagnosticSessionStates now True store)) \<le> SESSION_STATE_MAX_ENTRIES"
proof -
  let ?live = "filter (\<lambda>(k, st). \<not> staleSession now st) (dg_states store)"
  let ?f = "sort_key (\<lambda>(k, st :: sessionState). ss_lastActivity st)"
  have live: "distinct (map fst ?live)" "[] \<notin> fst ` set ?live"
    using assms distinct_map_filter by (auto simp: jm_wf_def)
  have "k \<noteq> []" if "k \<in> set (map fst (take n (?f ?live)))" for k n
    using that live(2) set_take_subset [of n "?f ?live"] by force
  then have keys: "excessKeys ?live = map fst (take (length ?live - SESSION_STATE_MAX_ENTRIES) (?f ?live))"
    by (simp add: excessKeys_def takeWhile_eq_all_conv)
  have "length (filter (\<lambda>(k, st). k \<notin> set (excessKeys ?live)) ?live) = length ?live - (length ?live - SESSION_STATE_MAX_ENTRIES)"
    by (rule length_minus_keys [where ys = "?f ?live", OF live(1) keys]) simp_all
  then show ?thesis by (simp add: pruneDiagnosticSessionStates_def Let_def)
qed

end
