(* ===== verification/Tool_Loops.thy ===== *)
theory Tool_Loops
  imports Diagnostic_Sessions
begin

text \<open>
  \<open>src/agents/tool-loop-detection.ts\<close>: recognises an agent that repeats tool calls without progress. The hash
  function is an argument; hashing undefined throws, which is \<^const>\<open>None\<close> here.
\<close>

section \<open>Settings\<close>

definition TOOL_CALL_HISTORY_SIZE :: int where "TOOL_CALL_HISTORY_SIZE = 30"
definition WARNING_THRESHOLD :: int where "WARNING_THRESHOLD = 10"
definition CRITICAL_THRESHOLD :: int where "CRITICAL_THRESHOLD = 20"
definition GLOBAL_CIRCUIT_BREAKER_THRESHOLD :: int where "GLOBAL_CIRCUIT_BREAKER_THRESHOLD = 30"

record loopConfig =
  lc_enabled :: "bool option"
  lc_historySize :: "int option"
  lc_warningThreshold :: "int option"
  lc_criticalThreshold :: "int option"
  lc_globalCircuitBreakerThreshold :: "int option"
  lc_genericRepeat :: "bool option"
  lc_knownPollNoProgress :: "bool option"
  lc_pingPong :: "bool option"

record resolvedLoopConfig =
  rl_enabled :: bool
  rl_historySize :: int
  rl_warningThreshold :: int
  rl_criticalThreshold :: int
  rl_globalThreshold :: int
  rl_genericRepeat :: bool
  rl_knownPollNoProgress :: bool
  rl_pingPong :: bool

definition asPositiveInt :: "int option \<Rightarrow> int \<Rightarrow> int" where
  "asPositiveInt value fallback = (case value of None \<Rightarrow> fallback | Some n \<Rightarrow> if n \<le> 0 then fallback else n)"

definition noLoopConfig :: loopConfig where
  "noLoopConfig = \<lparr>lc_enabled = None, lc_historySize = None, lc_warningThreshold = None, lc_criticalThreshold = None,
     lc_globalCircuitBreakerThreshold = None, lc_genericRepeat = None, lc_knownPollNoProgress = None, lc_pingPong = None\<rparr>"

definition resolveLoopDetectionConfig :: "loopConfig option \<Rightarrow> resolvedLoopConfig" where
  "resolveLoopDetectionConfig config =
     (let c = js_default config noLoopConfig;
          w = asPositiveInt (lc_warningThreshold c) WARNING_THRESHOLD;
          crit0 = asPositiveInt (lc_criticalThreshold c) CRITICAL_THRESHOLD;
          glob0 = asPositiveInt (lc_globalCircuitBreakerThreshold c) GLOBAL_CIRCUIT_BREAKER_THRESHOLD;
          crit = (if crit0 \<le> w then w + 1 else crit0);
          glob = (if glob0 \<le> crit then crit + 1 else glob0)
      in \<lparr>rl_enabled = js_default (lc_enabled c) False, rl_historySize = asPositiveInt (lc_historySize c) TOOL_CALL_HISTORY_SIZE,
          rl_warningThreshold = w, rl_criticalThreshold = crit, rl_globalThreshold = glob,
          rl_genericRepeat = js_default (lc_genericRepeat c) True,
          rl_knownPollNoProgress = js_default (lc_knownPollNoProgress c) True, rl_pingPong = js_default (lc_pingPong c) True\<rparr>)"

section \<open>Hashes\<close>

text \<open>Undefined has no text: it is empty as an element of an array and ``undefined'' as a field.\<close>

fun stableStringify :: "jsv \<Rightarrow> string option" where
  "stableStringify (JArr vs) = Some (''['' @ js_join '','' (map (\<lambda>v. js_or_empty (stableStringify v)) vs) @ '']'')"
| "stableStringify (JObj fs) = Some (''{'' @ js_join '','' (map (\<lambda>(k, t). jsonString k @ '':'' @ t)
     (sort_key fst (map (\<lambda>(k, v). (k, case stableStringify v of None \<Rightarrow> ''undefined'' | Some t \<Rightarrow> t)) fs))) @ ''}'')"
| "stableStringify v = js_json v"

definition digestStable :: "(string \<Rightarrow> string) \<Rightarrow> jsv \<Rightarrow> string option" where
  "digestStable sha v = map_option sha (stableStringify v)"

definition hashToolCall :: "(string \<Rightarrow> string) \<Rightarrow> string \<Rightarrow> jsv \<Rightarrow> string option" where
  "hashToolCall sha toolName params = map_option (\<lambda>d. toolName @ '':'' @ d) (digestStable sha params)"

definition isKnownPollToolCall :: "string \<Rightarrow> jsv \<Rightarrow> bool" where
  "isKnownPollToolCall toolName params \<longleftrightarrow>
     toolName = ''command_status'' \<or>
     toolName = ''process'' \<and>
       (case params of JObj fs \<Rightarrow> js_field fs ''action'' \<in> {JStr ''poll'', JStr ''log''} | _ \<Rightarrow> False)"

definition textEntry :: "jsv \<Rightarrow> string option" where
  "textEntry entry =
     (case entry of
        JObj fs \<Rightarrow> (case (js_field fs ''type'', js_field fs ''text'') of (JStr t, JStr s) \<Rightarrow> Some s | _ \<Rightarrow> None)
      | _ \<Rightarrow> None)"

definition extractTextContent :: "(string \<times> jsv) list \<Rightarrow> string" where
  "extractTextContent result =
     (case js_field result ''content'' of
        JArr entries \<Rightarrow> js_trim (js_join [CHR 0x0A] (List.map_filter textEntry entries))
      | _ \<Rightarrow> [])"

text \<open>What a tool threw, or returned.\<close>

datatype toolOutcome = Returned jsv | ThrewError string string | ThrewValue jsv

definition formatErrorForHash :: "jsv \<Rightarrow> string" where
  "formatErrorForHash err =
     (case err of JStr s \<Rightarrow> s | JNum n \<Rightarrow> show_int n | JBool b \<Rightarrow> (if b then ''true'' else ''false'')
      | v \<Rightarrow> js_or_empty (stableStringify v))"

definition nullish :: "jsv \<Rightarrow> jsv" where
  "nullish v = (if v = JUndef then JNull else v)"

definition pollFields :: "string \<Rightarrow> (string \<times> jsv) list \<Rightarrow> string \<Rightarrow> (string \<times> jsv) list" where
  "pollFields action details txt =
     (''action'', JStr action) # (''status'', js_field details ''status'') #
     (if action = ''poll''
      then map (\<lambda>k. (k, nullish (js_field details k))) [''exitCode'', ''exitSignal'', ''aggregated'']
      else map (\<lambda>k. (k, nullish (js_field details k))) [''totalLines'', ''totalChars'', ''truncated'', ''exitCode'', ''exitSignal'']) @
     [(''text'', JStr txt)]"

definition hashResult :: "(string \<Rightarrow> string) \<Rightarrow> string \<Rightarrow> jsv \<Rightarrow> jsv \<Rightarrow> string option" where
  "hashResult sha toolName params result =
     (case result of
        JObj fs \<Rightarrow>
          (let details = (case js_field fs ''details'' of JObj d \<Rightarrow> d | _ \<Rightarrow> []); txt = extractTextContent fs;
               plain = digestStable sha (JObj [(''details'', JObj details), (''text'', JStr txt)])
           in if toolName \<noteq> ''process'' then plain
              else (case params of
                  JObj ps \<Rightarrow>
                    if js_field ps ''action'' = JStr ''poll'' then digestStable sha (JObj (pollFields ''poll'' details txt))
                    else if js_field ps ''action'' = JStr ''log'' then digestStable sha (JObj (pollFields ''log'' details txt))
                    else plain
                | _ \<Rightarrow> plain))
      | v \<Rightarrow> digestStable sha v)"

definition hashToolOutcome :: "(string \<Rightarrow> string) \<Rightarrow> string \<Rightarrow> jsv \<Rightarrow> toolOutcome \<Rightarrow> string option" where
  "hashToolOutcome sha toolName params outcome =
     (let err = (\<lambda>s. map_option (\<lambda>d. ''error:'' @ d) (digestStable sha (JStr s)))
      in case outcome of
           Returned result \<Rightarrow> hashResult sha toolName params result
         | ThrewError name message \<Rightarrow> err (if message = [] then name else message)
         | ThrewValue v \<Rightarrow> if v = JUndef then None else err (formatErrorForHash v))"

section \<open>Streaks\<close>

text \<open>Over the history from its newest call; a call counts once it has a result.\<close>

fun streakLoop :: "string \<Rightarrow> string \<Rightarrow> string option \<Rightarrow> int \<Rightarrow> toolCallRecord list \<Rightarrow> int \<times> string option" where
  "streakLoop toolName argsHash latest streak [] = (streak, latest)"
| "streakLoop toolName argsHash latest streak (r # rs) =
     (if tc_toolName r \<noteq> toolName \<or> tc_argsHash r \<noteq> argsHash then streakLoop toolName argsHash latest streak rs
      else if js_or_empty (tc_resultHash r) = [] then streakLoop toolName argsHash latest streak rs
      else if js_or_empty latest = [] then streakLoop toolName argsHash (tc_resultHash r) 1 rs
      else if tc_resultHash r \<noteq> latest then (streak, latest)
      else streakLoop toolName argsHash latest (streak + 1) rs)"

definition getNoProgressStreak :: "toolCallRecord list \<Rightarrow> string \<Rightarrow> string \<Rightarrow> int \<times> string option" where
  "getNoProgressStreak history toolName argsHash = streakLoop toolName argsHash None 0 (rev history)"

record pingPong =
  pp_count :: int
  pp_pairedToolName :: "string option"
  pp_pairedSignature :: "string option"
  pp_noProgressEvidence :: bool

definition noPingPong :: pingPong where
  "noPingPong = \<lparr>pp_count = 0, pp_pairedToolName = None, pp_pairedSignature = None, pp_noProgressEvidence = False\<rparr>"

fun alternatingTail :: "string \<Rightarrow> string \<Rightarrow> toolCallRecord list \<Rightarrow> nat" where
  "alternatingTail expected other [] = 0"
| "alternatingTail expected other (r # rs) =
     (if tc_argsHash r \<noteq> expected then 0 else Suc (alternatingTail other expected rs))"

text \<open>The evidence of the calls in the tail, from the oldest: each side keeps to its first result.\<close>

fun evidenceLoop :: "string \<Rightarrow> string \<Rightarrow> string option \<Rightarrow> string option \<Rightarrow> toolCallRecord list \<Rightarrow> bool" where
  "evidenceLoop lastHash other hashA hashB [] = (js_or_empty hashA \<noteq> [] \<and> js_or_empty hashB \<noteq> [])"
| "evidenceLoop lastHash other hashA hashB (r # rs) =
     (if js_or_empty (tc_resultHash r) = [] then False
      else if tc_argsHash r = lastHash
      then (if js_or_empty hashA = [] then evidenceLoop lastHash other (tc_resultHash r) hashB rs
            else if hashA \<noteq> tc_resultHash r then False else evidenceLoop lastHash other hashA hashB rs)
      else if tc_argsHash r = other
      then (if js_or_empty hashB = [] then evidenceLoop lastHash other hashA (tc_resultHash r) rs
            else if hashB \<noteq> tc_resultHash r then False else evidenceLoop lastHash other hashA hashB rs)
      else False)"

definition getPingPongStreak :: "toolCallRecord list \<Rightarrow> string \<Rightarrow> pingPong" where
  "getPingPongStreak history currentSignature =
     (case rev history of
        [] \<Rightarrow> noPingPong
      | lst # before \<Rightarrow>
          (case List.find (\<lambda>c. tc_argsHash c \<noteq> tc_argsHash lst) before of
             None \<Rightarrow> noPingPong
           | Some other \<Rightarrow>
               let tail = alternatingTail (tc_argsHash lst) (tc_argsHash other) (rev history)
               in if tc_argsHash other = [] \<or> tc_toolName other = [] then noPingPong
                  else if tail < 2 then noPingPong
                  else if currentSignature \<noteq> tc_argsHash other then noPingPong
                  else \<lparr>pp_count = int tail + 1, pp_pairedToolName = Some (tc_toolName lst),
                         pp_pairedSignature = Some (tc_argsHash lst),
                         pp_noProgressEvidence = evidenceLoop (tc_argsHash lst) (tc_argsHash other) None None
                           (drop (length history - tail) history)\<rparr>))"

definition canonicalPairKey :: "string \<Rightarrow> string \<Rightarrow> string" where
  "canonicalPairKey a b = js_join ''|'' (sort [a, b])"

section \<open>Detection\<close>

datatype loopDetector = GenericRepeat | KnownPollNoProgress | GlobalCircuitBreaker | PingPongLoop
datatype loopLevel = LoopWarning | LoopCritical

record loopFinding =
  lf_level :: loopLevel
  lf_detector :: loopDetector
  lf_count :: int
  lf_pairedToolName :: "string option"
  lf_warningKey :: string

definition pingPongWarningKey :: "string \<Rightarrow> string \<Rightarrow> pingPong \<Rightarrow> string" where
  "pingPongWarningKey toolName currentHash pp =
     ''pingpong:'' @ (case js_some (js_or_empty (pp_pairedSignature pp)) of
        Some signature \<Rightarrow> canonicalPairKey currentHash signature
      | None \<Rightarrow> toolName @ '':'' @ currentHash)"

definition repeatCount :: "toolCallRecord list \<Rightarrow> string \<Rightarrow> string \<Rightarrow> int" where
  "repeatCount history toolName argsHash =
     int (length (filter (\<lambda>r. tc_toolName r = toolName \<and> tc_argsHash r = argsHash) history))"

text \<open>What is found once the hash is known; the message for the agent is left out.\<close>

definition detectWith :: "resolvedLoopConfig \<Rightarrow> toolCallRecord list \<Rightarrow> string \<Rightarrow> bool \<Rightarrow> string \<Rightarrow> loopFinding option" where
  "detectWith cfg history toolName poll currentHash =
     (let (streak, latest) = getNoProgressStreak history toolName currentHash;
          pp = getPingPongStreak history currentHash;
          streakKey = (\<lambda>kind. kind @ toolName @ '':'' @ currentHash @ '':'' @ js_default latest ''none'');
          found = (\<lambda>level detector count paired key. Some \<lparr>lf_level = level, lf_detector = detector, lf_count = count,
            lf_pairedToolName = paired, lf_warningKey = key\<rparr>);
          recent = repeatCount history toolName currentHash
      in if rl_globalThreshold cfg \<le> streak then found LoopCritical GlobalCircuitBreaker streak None (streakKey ''global:'')
         else if poll \<and> rl_knownPollNoProgress cfg \<and> rl_criticalThreshold cfg \<le> streak
         then found LoopCritical KnownPollNoProgress streak None (streakKey ''poll:'')
         else if poll \<and> rl_knownPollNoProgress cfg \<and> rl_warningThreshold cfg \<le> streak
         then found LoopWarning KnownPollNoProgress streak None (streakKey ''poll:'')
         else if rl_pingPong cfg \<and> rl_criticalThreshold cfg \<le> pp_count pp \<and> pp_noProgressEvidence pp
         then found LoopCritical PingPongLoop (pp_count pp) (pp_pairedToolName pp) (pingPongWarningKey toolName currentHash pp)
         else if rl_pingPong cfg \<and> rl_warningThreshold cfg \<le> pp_count pp
         then found LoopWarning PingPongLoop (pp_count pp) (pp_pairedToolName pp) (pingPongWarningKey toolName currentHash pp)
         else if \<not> poll \<and> rl_genericRepeat cfg \<and> rl_warningThreshold cfg \<le> recent
         then found LoopWarning GenericRepeat recent None (''generic:'' @ toolName @ '':'' @ currentHash)
         else None)"

text \<open>The outer \<^const>\<open>None\<close> is the exception of the hash.\<close>

definition detectToolCallLoop ::
  "(string \<Rightarrow> string) \<Rightarrow> sessionState \<Rightarrow> string \<Rightarrow> jsv \<Rightarrow> loopConfig option \<Rightarrow> loopFinding option option" where
  "detectToolCallLoop sha st toolName params config =
     (let cfg = resolveLoopDetectionConfig config
      in if \<not> rl_enabled cfg then Some None
         else map_option (detectWith cfg (ss_toolCallHistory st) toolName (isKnownPollToolCall toolName params))
                (hashToolCall sha toolName params))"

section \<open>Recording\<close>

definition newCall :: "int \<Rightarrow> string \<Rightarrow> string \<Rightarrow> string option \<Rightarrow> string option \<Rightarrow> toolCallRecord" where
  "newCall now toolName argsHash callId resultHash = \<lparr>tc_toolName = toolName, tc_argsHash = argsHash, tc_toolCallId = callId,
     tc_resultHash = resultHash, tc_timestamp = now\<rparr>"

definition recordToolCall ::
  "(string \<Rightarrow> string) \<Rightarrow> int \<Rightarrow> string \<Rightarrow> jsv \<Rightarrow> string option \<Rightarrow> loopConfig option \<Rightarrow> sessionState \<Rightarrow> sessionState option" where
  "recordToolCall sha now toolName params callId config st =
     (case hashToolCall sha toolName params of
        None \<Rightarrow> None
      | Some h \<Rightarrow>
          let pushed = ss_toolCallHistory st @ [newCall now toolName h callId None]
          in Some (st\<lparr>ss_toolCallHistory :=
               if rl_historySize (resolveLoopDetectionConfig config) < int (length pushed) then tl pushed else pushed\<rparr>))"

text \<open>Whether an outcome belongs to a call; it is written to the newest such call.\<close>

definition awaits :: "string \<Rightarrow> string \<Rightarrow> string option \<Rightarrow> toolCallRecord \<Rightarrow> bool" where
  "awaits toolName argsHash callId r \<longleftrightarrow>
     \<not> (js_or_empty callId \<noteq> [] \<and> tc_toolCallId r \<noteq> callId) \<and> tc_toolName r = toolName \<and> tc_argsHash r = argsHash \<and>
     tc_resultHash r = None"

fun settleNewest :: "(toolCallRecord \<Rightarrow> bool) \<Rightarrow> string \<Rightarrow> toolCallRecord list \<Rightarrow> toolCallRecord list option" where
  "settleNewest P h [] = None"
| "settleNewest P h (r # rs) =
     (if P r then Some (r\<lparr>tc_resultHash := Some h\<rparr> # rs) else map_option (Cons r) (settleNewest P h rs))"

definition recordToolCallOutcome ::
  "(string \<Rightarrow> string) \<Rightarrow> int \<Rightarrow> string \<Rightarrow> jsv \<Rightarrow> string option \<Rightarrow> toolOutcome \<Rightarrow> loopConfig option \<Rightarrow> sessionState \<Rightarrow>
   sessionState option" where
  "recordToolCallOutcome sha now toolName params callId outcome config st =
     (case js_some (js_or_empty (hashToolOutcome sha toolName params outcome)) of
        None \<Rightarrow> Some st
      | Some h \<Rightarrow>
          (case hashToolCall sha toolName params of
             None \<Rightarrow> None
           | Some argsHash \<Rightarrow>
               let settled = (case settleNewest (awaits toolName argsHash callId) h (rev (ss_toolCallHistory st)) of
                     Some calls \<Rightarrow> rev calls
                   | None \<Rightarrow> ss_toolCallHistory st @ [newCall now toolName argsHash callId (Some h)])
               in Some (st\<lparr>ss_toolCallHistory :=
                    drop (nat (int (length settled) - rl_historySize (resolveLoopDetectionConfig config))) settled\<rparr>)))"

record toolCallStats =
  ts_totalCalls :: nat
  ts_uniquePatterns :: nat
  ts_mostFrequent :: "(string \<times> nat) option"

fun countPatterns :: "toolCallRecord list \<Rightarrow> (string \<times> string \<times> nat) list \<Rightarrow> (string \<times> string \<times> nat) list" where
  "countPatterns [] m = m"
| "countPatterns (r # rs) m =
     countPatterns rs (case map_of m (tc_argsHash r) of
       Some (t, n) \<Rightarrow> AList.update (tc_argsHash r) (t, n + 1) m
     | None \<Rightarrow> AList.update (tc_argsHash r) (tc_toolName r, 1) m)"

fun mostFrequent :: "(string \<times> nat) list \<Rightarrow> (string \<times> nat) option \<Rightarrow> (string \<times> nat) option" where
  "mostFrequent [] best = best"
| "mostFrequent (p # ps) best =
     mostFrequent ps (case best of None \<Rightarrow> Some p | Some b \<Rightarrow> if snd b < snd p then Some p else best)"

definition getToolCallStats :: "sessionState \<Rightarrow> toolCallStats" where
  "getToolCallStats st =
     (let patterns = countPatterns (ss_toolCallHistory st) []
      in \<lparr>ts_totalCalls = length (ss_toolCallHistory st), ts_uniquePatterns = length patterns,
          ts_mostFrequent = mostFrequent (map snd patterns) None\<rparr>)"

end
