(* ===== verification/Tool_Hooks.thy ===== *)
theory Tool_Hooks
  imports Tool_Loops
begin

text \<open>
  \<open>src/agents/pi-tools.before-tool-call.ts\<close>: what happens before a tool is executed and after, as two steps
  between which other calls may run. The plugins' hook and the tool are given by what they answer.
\<close>

section \<open>Model\<close>

definition TOOL_NAME_ALIASES :: "(string \<times> string) list" where
  "TOOL_NAME_ALIASES = [(''bash'', ''exec''), (''apply-patch'', ''apply_patch'')]"

definition normalizeToolName :: "string \<Rightarrow> string" where
  "normalizeToolName name = (let n = js_lower (js_trim name) in js_default (map_of TOOL_NAME_ALIASES n) n)"

record hookContext =
  hx_agentId :: "string option"
  hx_sessionKey :: "string option"
  hx_sessionId :: "string option"
  hx_runId :: "string option"
  hx_loopDetection :: "loopConfig option"

datatype hookAnswer = NoHooks | HookThrew | HookAnswer bool "string option" jsv

datatype hookOutcome =
    BlockedByLoop loopFinding
  | BlockedByHook string
  | Proceeds jsv
  | HookFailed

record toolGuard =
  tg_store :: diagnosticStore
  tg_adjusted :: "(string \<times> jsv) list"

definition MAX_TRACKED_ADJUSTED_PARAMS :: nat where "MAX_TRACKED_ADJUSTED_PARAMS = 1024"
definition LOOP_WARNING_BUCKET_SIZE :: int where "LOOP_WARNING_BUCKET_SIZE = 10"
definition MAX_LOOP_WARNING_KEYS :: nat where "MAX_LOOP_WARNING_KEYS = 256"

definition newGuard :: toolGuard where
  "newGuard = \<lparr>tg_store = noDiagnostics, tg_adjusted = []\<rparr>"

definition buildAdjustedParamsKey :: "string option \<Rightarrow> string \<Rightarrow> string" where
  "buildAdjustedParamsKey runId toolCallId =
     (if js_trim (js_or_empty runId) \<noteq> [] then js_or_empty runId @ '':'' @ toolCallId else toolCallId)"

text \<open>\<open>map.set\<close>, then the oldest key goes when there are more than the limit.\<close>

definition putLimited :: "nat \<Rightarrow> string \<Rightarrow> 'v \<Rightarrow> (string \<times> 'v) list \<Rightarrow> (string \<times> 'v) list" where
  "putLimited n k v m =
     (let m' = AList.update k v m
      in if n < length m' \<and> fst (hd m') \<noteq> [] then AList.delete (fst (hd m')) m' else m')"

definition shouldEmitLoopWarning :: "sessionState \<Rightarrow> string \<Rightarrow> int \<Rightarrow> bool \<times> sessionState" where
  "shouldEmitLoopWarning st warningKey n =
     (let bucket = n div LOOP_WARNING_BUCKET_SIZE;
          lastBucket = js_default (map_of (ss_toolLoopWarningBuckets st) warningKey) 0
      in if bucket \<le> lastBucket then (False, st)
         else (True, st\<lparr>ss_toolLoopWarningBuckets :=
                putLimited MAX_LOOP_WARNING_KEYS warningKey bucket (ss_toolLoopWarningBuckets st)\<rparr>))"

definition hookSession :: "hookContext \<Rightarrow> sessionRef" where
  "hookSession ctx = \<lparr>sr_sessionId = hx_agentId ctx, sr_sessionKey = hx_sessionKey ctx\<rparr>"

text \<open>\<open>{ ...a, ...b }\<close>\<close>

definition spreadFields :: "(string \<times> jsv) list \<Rightarrow> (string \<times> jsv) list \<Rightarrow> (string \<times> jsv) list" where
  "spreadFields a b = fold (\<lambda>(k, v). AList.update k v) b a"

definition applyHook :: "hookAnswer \<Rightarrow> jsv \<Rightarrow> hookOutcome" where
  "applyHook answer params =
     (case answer of
        NoHooks \<Rightarrow> Proceeds params
      | HookThrew \<Rightarrow> Proceeds params
      | HookAnswer block reason changed \<Rightarrow>
          if block
          then BlockedByHook (if js_or_empty reason = [] then ''Tool call blocked by plugin hook'' else js_or_empty reason)
          else (case changed of
              JObj fs \<Rightarrow> (case params of JObj ps \<Rightarrow> Proceeds (JObj (spreadFields ps fs)) | _ \<Rightarrow> Proceeds (JObj fs))
            | _ \<Rightarrow> Proceeds params))"

text \<open>The check of one session: a block, an exception, or the state with the call recorded and whether a
  warning was given.\<close>

definition loopBlocks :: "loopFinding option \<Rightarrow> bool" where
  "loopBlocks found \<longleftrightarrow> (case found of None \<Rightarrow> False | Some f \<Rightarrow> lf_level f = LoopCritical)"

definition warnLoop :: "loopFinding option \<Rightarrow> sessionState \<Rightarrow> bool \<times> sessionState" where
  "warnLoop found st = (case found of None \<Rightarrow> (False, st) | Some f \<Rightarrow> shouldEmitLoopWarning st (lf_warningKey f) (lf_count f))"

definition checkLoop ::
  "(string \<Rightarrow> string) \<Rightarrow> int \<Rightarrow> string \<Rightarrow> jsv \<Rightarrow> string option \<Rightarrow> loopConfig option \<Rightarrow> sessionState \<Rightarrow>
   (hookOutcome + bool) \<times> sessionState" where
  "checkLoop sha now toolName params callId config st =
     (case detectToolCallLoop sha st toolName params config of
        None \<Rightarrow> (Inl HookFailed, st)
      | Some found \<Rightarrow>
          if loopBlocks found then (Inl (BlockedByLoop (the found)), st)
          else (case warnLoop found st of (warned, st1) \<Rightarrow>
            (case recordToolCall sha now toolName params callId config st1 of
               None \<Rightarrow> (Inl HookFailed, st1) | Some st2 \<Rightarrow> (Inr warned, st2))))"

definition runBeforeToolCallHook ::
  "(string \<Rightarrow> string) \<Rightarrow> int \<Rightarrow> hookAnswer \<Rightarrow> string \<Rightarrow> jsv \<Rightarrow> string option \<Rightarrow> hookContext option \<Rightarrow> toolGuard \<Rightarrow>
   hookOutcome \<times> toolGuard" where
  "runBeforeToolCallHook sha now answer rawName params callId ctx guard =
     (let toolName = normalizeToolName (if rawName = [] then ''tool'' else rawName)
      in case ctx of
           None \<Rightarrow> (applyHook answer params, guard)
         | Some c \<Rightarrow>
             if js_or_empty (hx_sessionKey c) = [] then (applyHook answer params, guard)
             else (case getDiagnosticSessionState now (hookSession c) (tg_store guard) of (k, st, store) \<Rightarrow>
               (case checkLoop sha now toolName params callId (hx_loopDetection c) st of
                  (Inl outcome, st') \<Rightarrow> (outcome, guard\<lparr>tg_store := changeSession k st' store\<rparr>)
                | (Inr warned, st') \<Rightarrow> (applyHook answer params, guard\<lparr>tg_store := changeSession k st' store\<rparr>))))"

text \<open>A failure to record an outcome is only logged.\<close>

definition recordLoopOutcome ::
  "(string \<Rightarrow> string) \<Rightarrow> int \<Rightarrow> string \<Rightarrow> jsv \<Rightarrow> string option \<Rightarrow> toolOutcome \<Rightarrow> hookContext option \<Rightarrow> toolGuard \<Rightarrow> toolGuard" where
  "recordLoopOutcome sha now toolName params callId outcome ctx guard =
     (case ctx of
        None \<Rightarrow> guard
      | Some c \<Rightarrow>
          if js_or_empty (hx_sessionKey c) = [] then guard
          else (case getDiagnosticSessionState now (hookSession c) (tg_store guard) of (k, st, store) \<Rightarrow>
            (case recordToolCallOutcome sha now toolName params callId outcome (hx_loopDetection c) st of
               None \<Rightarrow> guard\<lparr>tg_store := store\<rparr>
             | Some st' \<Rightarrow> guard\<lparr>tg_store := changeSession k st' store\<rparr>)))"

text \<open>The wrapped tool up to its execution, and after it.\<close>

definition beginTool ::
  "(string \<Rightarrow> string) \<Rightarrow> int \<Rightarrow> hookAnswer \<Rightarrow> string \<Rightarrow> jsv \<Rightarrow> string \<Rightarrow> hookContext option \<Rightarrow> toolGuard \<Rightarrow>
   hookOutcome \<times> toolGuard" where
  "beginTool sha now answer rawName params callId ctx guard =
     (case runBeforeToolCallHook sha now answer (if rawName = [] then ''tool'' else rawName) params (Some callId) ctx guard of
        (Proceeds adjusted, guard') \<Rightarrow>
          (Proceeds adjusted,
           if callId = [] then guard'
           else guard'\<lparr>tg_adjusted := putLimited MAX_TRACKED_ADJUSTED_PARAMS
                  (buildAdjustedParamsKey (Option.bind ctx hx_runId) callId) adjusted (tg_adjusted guard')\<rparr>)
      | r \<Rightarrow> r)"

definition endTool ::
  "(string \<Rightarrow> string) \<Rightarrow> int \<Rightarrow> string \<Rightarrow> jsv \<Rightarrow> string \<Rightarrow> toolOutcome \<Rightarrow> hookContext option \<Rightarrow> toolGuard \<Rightarrow> toolGuard" where
  "endTool sha now rawName adjusted callId outcome ctx guard =
     recordLoopOutcome sha now (normalizeToolName (if rawName = [] then ''tool'' else rawName)) adjusted (Some callId) outcome ctx guard"

definition consumeAdjustedParamsForToolCall :: "string \<Rightarrow> string option \<Rightarrow> toolGuard \<Rightarrow> jsv \<times> toolGuard" where
  "consumeAdjustedParamsForToolCall toolCallId runId guard =
     (let k = buildAdjustedParamsKey runId toolCallId
      in (js_default (map_of (tg_adjusted guard) k) JUndef, guard\<lparr>tg_adjusted := AList.delete k (tg_adjusted guard)\<rparr>))"

text \<open>One call after the other: a tool is executed with what the hook made of its parameters.\<close>

definition callTool ::
  "(string \<Rightarrow> string) \<Rightarrow> (jsv \<Rightarrow> hookAnswer) \<Rightarrow> (jsv \<Rightarrow> toolOutcome) \<Rightarrow> string \<Rightarrow> jsv \<Rightarrow> hookContext option \<Rightarrow>
   int \<times> string \<Rightarrow> toolGuard \<Rightarrow> hookOutcome \<times> toolGuard" where
  "callTool sha hook tool name params ctx at guard =
     (case beginTool sha (fst at) (hook params) name params (snd at) ctx guard of
        (Proceeds adjusted, guard') \<Rightarrow> (Proceeds adjusted, endTool sha (fst at) name adjusted (snd at) (tool adjusted) ctx guard')
      | r \<Rightarrow> r)"

section \<open>A runaway call is stopped\<close>

text \<open>One attempt of a session that makes the same call again: it is checked, and executed if it may. Between the check
  and the outcome nothing else happens to the session, and no plugin takes part.\<close>

definition attemptCall ::
  "(string \<Rightarrow> string) \<Rightarrow> string \<Rightarrow> jsv \<Rightarrow> toolOutcome \<Rightarrow> loopConfig option \<Rightarrow> int \<times> string option \<Rightarrow> sessionState \<Rightarrow>
   bool \<times> sessionState" where
  "attemptCall sha toolName params outcome config at st =
     (case checkLoop sha (fst at) toolName params (snd at) config st of
        (Inl _, st') \<Rightarrow> (False, st')
      | (Inr _, st') \<Rightarrow>
          (True, js_default (recordToolCallOutcome sha (fst at) toolName params (snd at) outcome config st') st'))"

fun executedCalls ::
  "(string \<Rightarrow> string) \<Rightarrow> string \<Rightarrow> jsv \<Rightarrow> toolOutcome \<Rightarrow> loopConfig option \<Rightarrow> (int \<times> string option) list \<Rightarrow> sessionState \<Rightarrow> nat" where
  "executedCalls sha toolName params outcome config [] st = 0"
| "executedCalls sha toolName params outcome config (at # ats) st =
     (case attemptCall sha toolName params outcome config at st of (done', st') \<Rightarrow>
        (if done' then 1 else 0) + executedCalls sha toolName params outcome config ats st')"

text \<open>How often the same call may be made before it is blocked.\<close>

definition loopLimit :: "resolvedLoopConfig \<Rightarrow> bool \<Rightarrow> int" where
  "loopLimit cfg poll = (if poll \<and> rl_knownPollNoProgress cfg then rl_criticalThreshold cfg else rl_globalThreshold cfg)"

definition sameResult :: "string \<Rightarrow> string \<Rightarrow> string \<Rightarrow> toolCallRecord \<Rightarrow> bool" where
  "sameResult toolName argsHash h r \<longleftrightarrow> tc_toolName r = toolName \<and> tc_argsHash r = argsHash \<and> tc_resultHash r = Some h"

lemma streak_at_least:
  assumes "h \<noteq> []" "list_all (sameResult toolName argsHash h) recs"
  shows "int (length recs) + n \<le> fst (streakLoop toolName argsHash (Some h) n (recs @ rest))"
  using assms(2)
proof (induction recs arbitrary: n)
  case Nil
  have "n \<le> fst (streakLoop toolName argsHash (Some h) n rest)"
  proof (induction rest arbitrary: n)
    case (Cons r rs)
    have "n \<le> n + 1" by simp
    with Cons [of "n + 1"] Cons [of n] show ?case using assms(1) by (auto simp: js_or_empty_def intro: order_trans)
  qed simp
  then show ?case by simp
next
  case (Cons r rs)
  then have "int (length rs) + (n + 1) \<le> fst (streakLoop toolName argsHash (Some h) (n + 1) (rs @ rest))" by simp
  with Cons.prems assms(1) show ?case by (simp add: sameResult_def js_or_empty_def)
qed

lemma no_progress_at_least:
  assumes "h \<noteq> []" "list_all (sameResult toolName argsHash h) recs"
  shows "int (length recs) \<le> fst (getNoProgressStreak (pre @ recs) toolName argsHash)"
proof (cases "rev recs")
  case Nil
  have "0 \<le> fst (streakLoop toolName argsHash l n rest)" if "0 \<le> n" for l n rest
    using that by (induction toolName argsHash l n rest rule: streakLoop.induct) simp_all
  then show ?thesis using Nil by (simp add: getNoProgressStreak_def)
next
  case (Cons r rs)
  have all: "list_all (sameResult toolName argsHash h) (r # rs)" using assms(2) by (simp add: Cons [symmetric])
  have len: "length recs = Suc (length rs)" using arg_cong [OF Cons, of length] by simp
  have "int (length rs) + 1 \<le> fst (streakLoop toolName argsHash (Some h) 1 (rs @ rev pre))"
    by (rule streak_at_least [OF assms(1)]) (use all in simp)
  then show ?thesis using all assms(1) len by (simp add: getNoProgressStreak_def Cons sameResult_def js_or_empty_def)
qed

lemma detects_streak:
  assumes "loopLimit cfg poll \<le> fst (getNoProgressStreak history toolName argsHash)"
  shows "loopBlocks (detectWith cfg history toolName poll argsHash)"
  using assms by (auto simp: detectWith_def Let_def loopBlocks_def loopLimit_def split: prod.splits if_splits)

text \<open>The calls that were executed are the newest of the history.\<close>

definition loopInv :: "resolvedLoopConfig \<Rightarrow> string \<Rightarrow> string \<Rightarrow> string \<Rightarrow> nat \<Rightarrow> sessionState \<Rightarrow> bool" where
  "loopInv cfg toolName argsHash h i st \<longleftrightarrow>
     int (length (ss_toolCallHistory st)) \<le> rl_historySize cfg \<and>
     (\<exists>pre recs. ss_toolCallHistory st = pre @ recs \<and> length recs = i \<and> list_all (sameResult toolName argsHash h) recs)"

lemma warnLoop_history [simp]: "ss_toolCallHistory (snd (warnLoop found st)) = ss_toolCallHistory st"
  by (simp add: warnLoop_def shouldEmitLoopWarning_def Let_def split: option.splits)

lemma record_pair:
  assumes cfg: "cfg = resolveLoopDetectionConfig config" and hash: "hashToolCall sha toolName params = Some a"
    and res: "hashToolOutcome sha toolName params outcome = Some h" "h \<noteq> []"
    and inv: "loopInv cfg toolName a h i st" and room: "int i < rl_historySize cfg"
    and rec: "recordToolCall sha now toolName params callId config st = Some st1"
  shows "loopInv cfg toolName a h (Suc i)
    (js_default (recordToolCallOutcome sha now toolName params callId outcome config st1) st1)"
proof -
  obtain pre recs where H: "ss_toolCallHistory st = pre @ recs" "length recs = i" "list_all (sameResult toolName a h) recs"
    and len: "int (length (pre @ recs)) \<le> rl_historySize cfg"
    using inv by (auto simp: loopInv_def)
  let ?new = "newCall now toolName a callId None" and ?old = "if rl_historySize cfg < int (length (pre @ recs @ [newCall now toolName a callId None])) then tl pre else pre"
  have pre: "pre \<noteq> []" if "rl_historySize cfg < int (length (pre @ recs @ [?new]))"
    using that room H(2) by auto
  have st1: "ss_toolCallHistory st1 = ?old @ recs @ [?new]"
    using rec pre by (auto simp: recordToolCall_def hash Let_def H(1) cfg [symmetric] split: if_splits)
  have len1: "int (length (?old @ recs @ [?new])) \<le> rl_historySize cfg"
    using len pre by (cases pre) (auto split: if_splits)
  have "awaits toolName a callId ?new" by (simp add: awaits_def newCall_def)
  then have settle: "settleNewest (awaits toolName a callId) h (rev (ss_toolCallHistory st1)) =
      Some (?new\<lparr>tc_resultHash := Some h\<rparr> # rev recs @ rev ?old)"
    by (simp add: st1)
  have truthy: "js_some (js_or_empty (hashToolOutcome sha toolName params outcome)) = Some h"
    using res by (simp add: js_or_empty_def js_some_def)
  have "ss_toolCallHistory (js_default (recordToolCallOutcome sha now toolName params callId outcome config st1) st1) =
      ?old @ (recs @ [?new\<lparr>tc_resultHash := Some h\<rparr>])"
    using len1 by (simp add: recordToolCallOutcome_def truthy hash settle Let_def cfg [symmetric] js_default_def)
  moreover have "sameResult toolName a h (?new\<lparr>tc_resultHash := Some h\<rparr>)" by (simp add: sameResult_def newCall_def)
  ultimately show ?thesis using len1 H(2,3)
    unfolding loopInv_def by (intro conjI exI [of _ ?old] exI [of _ "recs @ [?new\<lparr>tc_resultHash := Some h\<rparr>]"]) simp_all
qed

lemma attempt_step:
  assumes cfg: "cfg = resolveLoopDetectionConfig config" "rl_enabled cfg" and hash: "hashToolCall sha toolName params = Some a"
    and res: "hashToolOutcome sha toolName params outcome = Some h" "h \<noteq> []"
    and limit: "loopLimit cfg (isKnownPollToolCall toolName params) \<le> rl_historySize cfg"
    and inv: "loopInv cfg toolName a h i st" and step: "attemptCall sha toolName params outcome config at st = (done', st')"
  shows "if done' then int i < loopLimit cfg (isKnownPollToolCall toolName params) \<and> loopInv cfg toolName a h (Suc i) st' else st' = st"
proof -
  let ?poll = "isKnownPollToolCall toolName params"
  define found where "found = detectWith cfg (ss_toolCallHistory st) toolName ?poll a"
  have det: "detectToolCallLoop sha st toolName params config = Some found"
    using cfg by (simp add: detectToolCallLoop_def Let_def hash found_def)
  show ?thesis
  proof (cases "loopBlocks found")
    case True
    with step det show ?thesis by (simp add: attemptCall_def checkLoop_def)
  next
    case False
    have i: "int i < loopLimit cfg ?poll"
    proof (rule ccontr)
      assume "\<not> int i < loopLimit cfg ?poll"
      moreover obtain pre recs where "ss_toolCallHistory st = pre @ recs" "length recs = i" "list_all (sameResult toolName a h) recs"
        using inv by (auto simp: loopInv_def)
      ultimately have "loopBlocks found"
        using no_progress_at_least [OF res(2), of toolName a recs pre] unfolding found_def by (intro detects_streak) simp
      with False show False by simp
    qed
    obtain warned st1 where w: "warnLoop found st = (warned, st1)" by fastforce
    have inv1: "loopInv cfg toolName a h i st1" using inv warnLoop_history [of found st] by (simp add: w loopInv_def)
    obtain st2 where rec: "recordToolCall sha (fst at) toolName params (snd at) config st1 = Some st2"
      by (simp add: recordToolCall_def hash Let_def)
    with step False det w have "done'" "st' = js_default (recordToolCallOutcome sha (fst at) toolName params (snd at) outcome config st2) st2"
      by (simp_all add: attemptCall_def checkLoop_def)
    with record_pair [OF cfg(1) hash res inv1 _ rec] i limit show ?thesis by simp
  qed
qed

lemma executed_at_most:
  assumes cfg: "cfg = resolveLoopDetectionConfig config" "rl_enabled cfg" and hash: "hashToolCall sha toolName params = Some a"
    and res: "hashToolOutcome sha toolName params outcome = Some h" "h \<noteq> []"
    and limit: "loopLimit cfg (isKnownPollToolCall toolName params) \<le> rl_historySize cfg"
  shows "loopInv cfg toolName a h i st \<Longrightarrow> int i \<le> loopLimit cfg (isKnownPollToolCall toolName params) \<Longrightarrow>
    int i + int (executedCalls sha toolName params outcome config ats st) \<le> loopLimit cfg (isKnownPollToolCall toolName params)"
proof (induction ats arbitrary: i st)
  case (Cons at ats)
  obtain done' st' where step: "attemptCall sha toolName params outcome config at st = (done', st')" by fastforce
  note S = attempt_step [OF cfg hash res limit Cons.prems(1) step]
  show ?case
  proof (cases done')
    case True
    with S Cons.IH [of "Suc i" st'] show ?thesis by (simp add: step)
  next
    case False
    with S Cons.IH [OF Cons.prems] show ?thesis by (simp add: step)
  qed
qed simp

definition js_truthy_text :: "string option \<Rightarrow> bool" where
  "js_truthy_text v \<longleftrightarrow> js_or_empty v \<noteq> []"

text \<open>C15: A runaway agent is stopped. With detection enabled, take a call that is attempted again and again, each attempt
  following the last with no other call and no hook of a plugin in between, with the same arguments and the same
  outcome, both of which have a hash. However many attempts are made and whatever was called before them, it is executed
  at most as often as its threshold says, as long as the history is no shorter than that threshold; the threshold is
  the critical one for polls and the circuit breaker for other tools.\<close>

theorem runaway_call_stopped:
  assumes "rl_enabled (resolveLoopDetectionConfig config)"
    and "hashToolCall sha toolName params \<noteq> None" "js_truthy_text (hashToolOutcome sha toolName params outcome)"
    and "loopLimit (resolveLoopDetectionConfig config) (isKnownPollToolCall toolName params) \<le> rl_historySize (resolveLoopDetectionConfig config)"
    and "int (length (ss_toolCallHistory st)) \<le> rl_historySize (resolveLoopDetectionConfig config)"
  shows "int (executedCalls sha toolName params outcome config ats st) \<le>
    loopLimit (resolveLoopDetectionConfig config) (isKnownPollToolCall toolName params)"
proof -
  obtain a h where "hashToolCall sha toolName params = Some a" "hashToolOutcome sha toolName params outcome = Some h" "h \<noteq> []"
    using assms(2,3) by (cases "hashToolOutcome sha toolName params outcome") (auto simp: js_truthy_text_def js_or_empty_def)
  moreover have "loopInv (resolveLoopDetectionConfig config) toolName a h 0 st" for a h
    using assms(5) by (simp add: loopInv_def)
  moreover have "0 \<le> loopLimit (resolveLoopDetectionConfig config) (isKnownPollToolCall toolName params)"
    by (auto simp: loopLimit_def resolveLoopDetectionConfig_def asPositiveInt_def WARNING_THRESHOLD_def CRITICAL_THRESHOLD_def
      GLOBAL_CIRCUIT_BREAKER_THRESHOLD_def Let_def split: option.splits)
  ultimately show ?thesis using executed_at_most [OF refl assms(1) _ _ _ assms(4), of sha _ outcome _ 0 st ats] by auto
qed

definition strictLoops :: loopConfig where
  "strictLoops = noLoopConfig\<lparr>lc_enabled := Some True, lc_warningThreshold := Some 1, lc_criticalThreshold := Some 2,
     lc_globalCircuitBreakerThreshold := Some 3\<rparr>"

definition pollParams :: jsv where
  "pollParams = JObj [(''action'', JStr ''poll''), (''sessionId'', JStr ''s1'')]"

definition pollResult :: toolOutcome where
  "pollResult = Returned (JObj [(''details'', JObj [(''status'', JStr ''running'')])])"

theorem runaway_call_stopped_witness:
  "executedCalls (\<lambda>s. s) ''process'' pollParams pollResult (Some strictLoops)
     [(1, Some ''a''), (2, Some ''b''), (3, Some ''c''), (4, Some ''d'')] (createdSession 0 \<lparr>sr_sessionId = None, sr_sessionKey = Some ''k''\<rparr>) = 2 \<and>
   executedCalls (\<lambda>s. s) ''process'' pollParams pollResult (Some strictLoops)
     [(1, Some ''a''), (2, Some ''b''), (3, Some ''c''), (4, Some ''d'')] (createdSession 0 \<lparr>sr_sessionId = None, sr_sessionKey = Some ''k''\<rparr>) \<le>
   nat (loopLimit (resolveLoopDetectionConfig (Some strictLoops)) (isKnownPollToolCall ''process'' pollParams))"
proof -
  let ?st = "createdSession 0 \<lparr>sr_sessionId = None, sr_sessionKey = Some ''k''\<rparr>"
  let ?ats = "[(1, Some ''a''), (2, Some ''b''), (3, Some ''c''), (4, Some ''d'')]"
  have run: "executedCalls (\<lambda>s. s) ''process'' pollParams pollResult (Some strictLoops) ?ats ?st = 2" by code_simp
  have enabled: "rl_enabled (resolveLoopDetectionConfig (Some strictLoops))" by code_simp
  have hashed: "hashToolCall (\<lambda>s. s) ''process'' pollParams \<noteq> None"
    "js_truthy_text (hashToolOutcome (\<lambda>s. s) ''process'' pollParams pollResult)" by code_simp+
  have room: "loopLimit (resolveLoopDetectionConfig (Some strictLoops)) (isKnownPollToolCall ''process'' pollParams)
      \<le> rl_historySize (resolveLoopDetectionConfig (Some strictLoops))" by code_simp
  have "int (length (ss_toolCallHistory ?st)) \<le> rl_historySize (resolveLoopDetectionConfig (Some strictLoops))" by code_simp
  from runaway_call_stopped [OF enabled hashed room this, of ?ats] run show ?thesis by simp
qed

section \<open>Where the guard does not reach\<close>

text \<open>A streak is no longer than the history, so a threshold beyond it never fires.\<close>

lemma streak_at_most:
  "n \<le> m \<Longrightarrow> 0 \<le> m \<Longrightarrow> fst (streakLoop toolName argsHash latest n rs) \<le> m + int (length rs)"
proof (induction rs arbitrary: latest n m)
  case (Cons r rs)
  have "fst (streakLoop toolName argsHash l k rs) \<le> (m + 1) + int (length rs)" if "k \<le> m + 1" for l k
    using Cons.IH [OF that] Cons.prems by simp
  from this [of n latest] this [of 1 "tc_resultHash r"] this [of "n + 1" latest] Cons.prems show ?case by auto
qed simp

lemma threshold_beyond_history_never_fires:
  assumes "int (length history) < rl_globalThreshold cfg" "poll \<Longrightarrow> int (length history) < rl_criticalThreshold cfg"
    and "\<not> rl_pingPong cfg"
  shows "\<not> loopBlocks (detectWith cfg history toolName poll argsHash)"
  using streak_at_most [of 0 0 toolName argsHash None "rev history"] assms
  by (auto simp: detectWith_def getNoProgressStreak_def loopBlocks_def Let_def split: prod.splits)

lemma raised_threshold_disables_breaker:
  assumes "lc_criticalThreshold c = Some n" "30 \<le> n" "lc_historySize c = None" "lc_globalCircuitBreakerThreshold c = None"
  shows "rl_historySize (resolveLoopDetectionConfig (Some c)) < rl_globalThreshold (resolveLoopDetectionConfig (Some c))"
  using assms by (auto simp: resolveLoopDetectionConfig_def asPositiveInt_def TOOL_CALL_HISTORY_SIZE_def
    GLOBAL_CIRCUIT_BREAKER_THRESHOLD_def js_default_def Let_def)

text \<open>Two polls that alternate without progress fill the history and are only warned about: the warning about
  the poll comes before the block of the alternation, and neither poll reaches the critical threshold.\<close>

definition alternatingHistory :: "toolCallRecord list" where
  "alternatingHistory = concat (replicate 15
     [newCall 0 ''command_status'' ''command_status:b'' None (Some ''r''), newCall 0 ''command_status'' ''command_status:a'' None (Some ''r'')])"

lemma alternating_polls_never_blocked:
  "map_option (\<lambda>f. (lf_level f, lf_detector f))
     (detectWith (resolveLoopDetectionConfig (Some (noLoopConfig\<lparr>lc_enabled := Some True\<rparr>))) alternatingHistory
        ''command_status'' True ''command_status:b'') = Some (LoopWarning, KnownPollNoProgress) \<and>
   pp_noProgressEvidence (getPingPongStreak alternatingHistory ''command_status:b'') \<and>
   pp_count (getPingPongStreak alternatingHistory ''command_status:b'') = 31"
  by code_simp

text \<open>Four equal calls: two are executed; with a plugin that adds a field, all of them, because their outcomes
  are recorded for the changed parameters.\<close>

definition fourCalls :: "(jsv \<Rightarrow> hookAnswer) \<Rightarrow> hookOutcome list" where
  "fourCalls hook = rev (fst (fold (\<lambda>at (outs, g).
     case callTool (\<lambda>s. s) hook (\<lambda>p. pollResult) ''process'' pollParams
       (Some \<lparr>hx_agentId = None, hx_sessionKey = Some ''k'', hx_sessionId = None, hx_runId = None, hx_loopDetection = Some strictLoops\<rparr>)
       at g of (r, g') \<Rightarrow> (r # outs, g')) [(1, ''a''), (2, ''b''), (3, ''c''), (4, ''d'')] ([], newGuard)))"

definition executes :: "hookOutcome \<Rightarrow> bool" where
  "executes r \<longleftrightarrow> (case r of Proceeds p \<Rightarrow> True | _ \<Rightarrow> False)"

lemma hook_hides_loop:
  "length (filter executes (fourCalls (\<lambda>p. NoHooks))) = 2 \<and>
   length (filter executes (fourCalls (\<lambda>p. HookAnswer False None (JObj [(''traceId'', JNum 7)])))) = 4"
  by code_simp

text \<open>The agent's id is used as the id of the session, so a new session of the agent is handed the state, with
  the history, of another one.\<close>

lemma sessions_share_history:
  assumes "getDiagnosticSessionState now (hookSession c1) noDiagnostics = (k1, st1, store1)"
    and "hx_agentId c1 = Some agent" "hx_agentId c2 = Some agent" "agent \<noteq> []"
    and "hx_sessionKey c1 = Some key1" "hx_sessionKey c2 = Some key2" "key1 \<noteq> key2"
  shows "\<exists>st2 store2. getDiagnosticSessionState now (hookSession c2) store1 = (key1, st2, store2) \<and>
    ss_toolCallHistory st2 = ss_toolCallHistory st1"
proof -
  have key: "resolveSessionKey (hookSession c1) = key1" "resolveSessionKey (hookSession c2) = key2"
    using assms by (simp_all add: resolveSessionKey_def hookSession_def js_coalesce_def js_default_def)
  let ?s1 = "createdSession now (hookSession c1)"
  have fresh: "\<not> staleSession now ?s1" by (simp add: staleSession_def createdSession_def SESSION_STATE_TTL_MS_def)
  have empty: "dg_states (pruneDiagnosticSessionStates now False noDiagnostics) = []"
    by (simp add: pruneDiagnosticSessionStates_def noDiagnostics_def Let_def)
  have one: "pruneDiagnosticSessionStates now True (store\<lparr>dg_states := [(key1, ?s1)]\<rparr>) =
      \<lparr>dg_states = [(key1, ?s1)], dg_lastPruneAt = now\<rparr>" for store
    by (simp add: pruneDiagnosticSessionStates_def Let_def fresh excessKeys_def SESSION_STATE_MAX_ENTRIES_def)
  have first: "st1 = ?s1" "store1 = \<lparr>dg_states = [(key1, ?s1)], dg_lastPruneAt = now\<rparr>"
    using assms(1) by (auto simp: getDiagnosticSessionState_def Let_def foundSessionKey_def findStateBySessionId_def key empty one
      split: option.splits)
  have kept: "pruneDiagnosticSessionStates now False store1 = store1"
    by (simp add: first pruneDiagnosticSessionStates_def SESSION_STATE_MAX_ENTRIES_def SESSION_STATE_PRUNE_INTERVAL_MS_def)
  have ids: "sr_sessionId (hookSession c2) = Some agent" "ss_sessionId ?s1 = Some agent"
    using assms by (simp_all add: hookSession_def createdSession_def)
  have "foundSessionKey (hookSession c2) store1 = Some key1"
    using assms(4,7) by (simp add: foundSessionKey_def key first ids findStateBySessionId_def js_or_empty_def js_some_def)
  moreover have "map_of (dg_states store1) key1 = Some ?s1" by (simp add: first(2))
  ultimately show ?thesis by (simp add: getDiagnosticSessionState_def kept Let_def first(1) renamedSession_def)
qed

end
