(* ===== verification/Cron_Schedule.thy ===== *)
theory Cron_Schedule
  imports Session_Keys Js_Values "HOL-Library.Word"
begin

text \<open>
  When a scheduled job runs next: \<open>src/cron/parse.ts\<close>, \<open>schedule.ts\<close>, \<open>stagger.ts\<close> and the parts of
  \<open>service/jobs.ts\<close> that spread cron jobs by an offset of their own. The cron-expression library, the
  parser of dates and the hash are a \<open>cronHost\<close>; an expression or a time zone that the library rejects is
  an error (\<open>Inl\<close>). Both caches are modelled and proved transparent.
\<close>

section \<open>Values\<close>

definition err_bind :: "'e + 'a \<Rightarrow> ('a \<Rightarrow> 'e + 'b) \<Rightarrow> 'e + 'b" where
  "err_bind r f = (case r of Inl e \<Rightarrow> Inl e | Inr x \<Rightarrow> f x)"

lemma err_bind_simps [simp]: "err_bind (Inl e) f = Inl e" "err_bind (Inr x) f = f x"
  by (simp_all add: err_bind_def)

lemma err_bind_Inr: "err_bind r f = Inr y \<longleftrightarrow> (\<exists>x. r = Inr x \<and> f x = Inr y)"
  by (cases r) simp_all

record 'c cronHost =
  ch_dateParse :: "string \<Rightarrow> int option"
  ch_localTz :: string
  ch_newCron :: "string \<Rightarrow> string \<Rightarrow> string + 'c"
  ch_nextRun :: "'c \<Rightarrow> int \<Rightarrow> string + int option"
  ch_previousRun :: "'c \<Rightarrow> int \<Rightarrow> string + int option"
  ch_sha32 :: "string \<Rightarrow> 32 word"

text \<open>\<open>Number(text)\<close> of the decimal integers, the numbers that the model has.\<close>

definition digitsValue :: "string \<Rightarrow> int" where
  "digitsValue s = foldl (\<lambda>n c. 10 * n + (of_char c - 48)) 0 s"

definition isDigits :: "string \<Rightarrow> bool" where
  "isDigits s \<longleftrightarrow> s \<noteq> [] \<and> list_all isAsciiDigit s"

definition js_Number :: "string \<Rightarrow> int option" where
  "js_Number s = (case s of
       CHR ''-'' # t \<Rightarrow> if isDigits t then Some (- digitsValue t) else None
     | CHR ''+'' # t \<Rightarrow> if isDigits t then Some (digitsValue t) else None
     | _ \<Rightarrow> if isDigits s then Some (digitsValue s) else None)"

section \<open>Absolute times\<close>

definition digitAt :: "string \<Rightarrow> nat \<Rightarrow> bool" where
  "digitAt s i \<longleftrightarrow> i < length s \<and> isAsciiDigit (s ! i)"
definition charAt :: "string \<Rightarrow> nat \<Rightarrow> char \<Rightarrow> bool" where
  "charAt s i c \<longleftrightarrow> i < length s \<and> s ! i = c"

definition signAt :: "string \<Rightarrow> nat \<Rightarrow> bool" where
  "signAt s i \<longleftrightarrow> charAt s i CHR ''+'' \<or> charAt s i CHR ''-''"

text \<open>The three patterns, on the end, the whole and the start of the text.\<close>

definition hasTimezone :: "string \<Rightarrow> bool" where
  "hasTimezone s \<longleftrightarrow>
     (let n = length s in
      (s \<noteq> [] \<and> last s \<in> {CHR ''Z'', CHR ''z''}) \<or>
      (5 \<le> n \<and> signAt s (n - 5) \<and> list_all (\<lambda>i. digitAt s (n - i)) [4, 3, 2, 1]) \<or>
      (6 \<le> n \<and> signAt s (n - 6) \<and> charAt s (n - 3) CHR '':'' \<and> list_all (\<lambda>i. digitAt s (n - i)) [5, 4, 2, 1]))"

definition startsWithDate :: "string \<Rightarrow> bool" where
  "startsWithDate s \<longleftrightarrow> list_all (digitAt s) [0, 1, 2, 3, 5, 6, 8, 9] \<and> charAt s 4 CHR ''-'' \<and> charAt s 7 CHR ''-''"

definition normalizeUtcIso :: "string \<Rightarrow> string" where
  "normalizeUtcIso raw =
     (if hasTimezone raw then raw
      else if startsWithDate raw \<and> length raw = 10 then raw @ ''T00:00:00Z''
      else if startsWithDate raw \<and> charAt raw 10 CHR ''T'' then raw @ ''Z''
      else raw)"

definition parseAbsoluteTimeMs :: "'c cronHost \<Rightarrow> string \<Rightarrow> int option" where
  "parseAbsoluteTimeMs h input =
     (let raw = js_trim input in
      if raw = [] then None
      else if isDigits raw \<and> 0 < digitsValue raw then Some (digitsValue raw)
      else ch_dateParse h (normalizeUtcIso raw))"

section \<open>Schedules\<close>

text \<open>The fields as a store or a client gives them, \<open>JUndef\<close> for one that is missing; the fields \<open>atMs\<close> and
  \<open>cron\<close> are those of older stores.\<close>

datatype cronSchedule =
    SchedAt (sd_at: jsv) (sd_atMs: jsv)
  | SchedEvery (sd_everyMs: jsv) (sd_anchorMs: jsv)
  | SchedCron (sd_expr: jsv) (sd_cron: jsv) (sd_tz: jsv) (sd_staggerMs: jsv)

definition isAt :: "cronSchedule \<Rightarrow> bool" where
  "isAt s \<longleftrightarrow> (case s of SchedAt _ _ \<Rightarrow> True | _ \<Rightarrow> False)"
definition isEvery :: "cronSchedule \<Rightarrow> bool" where
  "isEvery s \<longleftrightarrow> (case s of SchedEvery _ _ \<Rightarrow> True | _ \<Rightarrow> False)"
definition isCron :: "cronSchedule \<Rightarrow> bool" where
  "isCron s \<longleftrightarrow> (case s of SchedCron _ _ _ _ \<Rightarrow> True | _ \<Rightarrow> False)"

lemma schedule_kinds [simp]:
  "isAt (SchedAt a b)" "\<not> isAt (SchedEvery c d)" "\<not> isAt (SchedCron e f g i)"
  "\<not> isEvery (SchedAt a b)" "isEvery (SchedEvery c d)" "\<not> isEvery (SchedCron e f g i)"
  "\<not> isCron (SchedAt a b)" "\<not> isCron (SchedEvery c d)" "isCron (SchedCron e f g i)"
  by (simp_all add: isAt_def isEvery_def isCron_def)

definition coerceFiniteScheduleNumber :: "jsv \<Rightarrow> int option" where
  "coerceFiniteScheduleNumber v = (case v of
     JNum n \<Rightarrow> Some n
   | JStr s \<Rightarrow> (let t = js_trim s in if t = [] then None else js_Number t)
   | _ \<Rightarrow> None)"

definition resolveCronTimezone :: "'c cronHost \<Rightarrow> jsv \<Rightarrow> string" where
  "resolveCronTimezone h tz =
     (let trimmed = (case tz of JStr s \<Rightarrow> js_trim s | _ \<Rightarrow> []) in if trimmed \<noteq> [] then trimmed else ch_localTz h)"

subsection \<open>The cache of parsed expressions\<close>

definition CRON_EVAL_CACHE_MAX :: nat where "CRON_EVAL_CACHE_MAX = 512"

type_synonym 'c cronEvalCache = "(string \<times> 'c) list"

definition cronEvalKey :: "string \<Rightarrow> string \<Rightarrow> string" where
  "cronEvalKey expr tz = tz @ CHR 0x00 # expr"

text \<open>The oldest entry makes room before the constructor is called, which may throw.\<close>

definition resolveCachedCron ::
  "'c cronHost \<Rightarrow> string \<Rightarrow> string \<Rightarrow> 'c cronEvalCache \<Rightarrow> (string + 'c) \<times> 'c cronEvalCache" where
  "resolveCachedCron h expr tz cache =
     (case map_of cache (cronEvalKey expr tz) of
        Some c \<Rightarrow> (Inr c, cache)
      | None \<Rightarrow>
          (let room = (if CRON_EVAL_CACHE_MAX \<le> length cache then jm_evict cache else cache)
           in case ch_newCron h expr tz of
                Inl e \<Rightarrow> (Inl e, room)
              | Inr c \<Rightarrow> (Inr c, AList.update (cronEvalKey expr tz) c room)))"

text \<open>Where the result does not depend on the cache, the rest of the model leaves it out.\<close>

definition resolveCronFromSchedule :: "'c cronHost \<Rightarrow> jsv \<Rightarrow> jsv \<Rightarrow> jsv \<Rightarrow> string + 'c option" where
  "resolveCronFromSchedule h expr cron tz =
     (case (case expr of JStr s \<Rightarrow> JStr s | _ \<Rightarrow> cron) of
        JStr source \<Rightarrow>
          (let e = js_trim source in
           if e = [] then Inr None else map_sum id Some (ch_newCron h e (resolveCronTimezone h tz)))
      | _ \<Rightarrow> Inl ''Error: invalid cron schedule: expr is required'')"

subsection \<open>The next and the previous run\<close>

definition atTime :: "'c cronHost \<Rightarrow> jsv \<Rightarrow> jsv \<Rightarrow> int option" where
  "atTime h at atMs = (case atMs of
       JNum n \<Rightarrow> if 0 < n then Some n else (case at of JStr s \<Rightarrow> parseAbsoluteTimeMs h s | _ \<Rightarrow> None)
     | JStr s \<Rightarrow> parseAbsoluteTimeMs h s
     | _ \<Rightarrow> (case at of JStr s \<Rightarrow> parseAbsoluteTimeMs h s | _ \<Rightarrow> None))"

definition everyNext :: "int \<Rightarrow> int \<Rightarrow> int \<Rightarrow> int" where
  "everyNext everyMs anchor nowMs =
     (if nowMs < anchor then anchor
      else anchor + max 1 ((nowMs - anchor + everyMs - 1) div everyMs) * everyMs)"

text \<open>The first answer of the library that lies in the future, asked from now, from the next second and
  from the start of tomorrow.\<close>

definition cronNext :: "'c cronHost \<Rightarrow> 'c \<Rightarrow> int \<Rightarrow> string + int option" where
  "cronNext h c nowMs =
     err_bind (ch_nextRun h c nowMs) (\<lambda>next. case next of
       None \<Rightarrow> Inr None
     | Some t \<Rightarrow>
         if nowMs < t then Inr (Some t)
         else err_bind (ch_nextRun h c (nowMs div 1000 * 1000 + 1000)) (\<lambda>retry.
           case (case retry of Some r \<Rightarrow> if nowMs < r then Some r else None | None \<Rightarrow> None) of
             Some r \<Rightarrow> Inr (Some r)
           | None \<Rightarrow> err_bind (ch_nextRun h c ((nowMs div 86400000 + 1) * 86400000)) (\<lambda>retry2.
               Inr (case retry2 of Some r \<Rightarrow> if nowMs < r then Some r else None | None \<Rightarrow> None))))"

fun computeNextRunAtMs :: "'c cronHost \<Rightarrow> cronSchedule \<Rightarrow> int \<Rightarrow> string + int option" where
  "computeNextRunAtMs h (SchedAt at atMs) nowMs =
     Inr (case atTime h at atMs of None \<Rightarrow> None | Some t \<Rightarrow> if nowMs < t then Some t else None)"
| "computeNextRunAtMs h (SchedEvery everyMs anchorMs) nowMs =
     Inr (case coerceFiniteScheduleNumber everyMs of
       None \<Rightarrow> None
     | Some e \<Rightarrow> Some (everyNext (max 1 e) (max 0 (js_default (coerceFiniteScheduleNumber anchorMs) nowMs)) nowMs))"
| "computeNextRunAtMs h (SchedCron expr cron tz stagger) nowMs =
     err_bind (resolveCronFromSchedule h expr cron tz) (\<lambda>c. case c of
       None \<Rightarrow> Inr None
     | Some c \<Rightarrow> cronNext h c nowMs)"

fun computePreviousRunAtMs :: "'c cronHost \<Rightarrow> cronSchedule \<Rightarrow> int \<Rightarrow> string + int option" where
  "computePreviousRunAtMs h (SchedCron expr cron tz stagger) nowMs =
     err_bind (resolveCronFromSchedule h expr cron tz) (\<lambda>c. case c of
       None \<Rightarrow> Inr None
     | Some c \<Rightarrow> err_bind (ch_previousRun h c nowMs) (\<lambda>previous.
         Inr (case previous of Some t \<Rightarrow> if nowMs \<le> t then None else Some t | None \<Rightarrow> None)))"
| "computePreviousRunAtMs h _ nowMs = Inr None"

section \<open>Staggering\<close>

definition DEFAULT_TOP_OF_HOUR_STAGGER_MS :: int where "DEFAULT_TOP_OF_HOUR_STAGGER_MS = 5 * 60 * 1000"

text \<open>\<open>s.split(/\s+/).filter(Boolean)\<close>\<close>

fun js_words :: "string \<Rightarrow> string list" where
  "js_words [] = []"
| "js_words (c # cs) =
     (if js_ws c then js_words cs
      else (case cs of
         [] \<Rightarrow> [[c]]
       | d # _ \<Rightarrow> if js_ws d then [c] # js_words cs
           else (case js_words cs of w # ws \<Rightarrow> (c # w) # ws | [] \<Rightarrow> [[c]])))"

definition parseCronFields :: "string \<Rightarrow> string list" where
  "parseCronFields expr = js_words (js_trim expr)"

definition isRecurringTopOfHourCronExpr :: "string \<Rightarrow> bool" where
  "isRecurringTopOfHourCronExpr expr = (case parseCronFields expr of
     [minute, hour, _, _, _] \<Rightarrow> minute = ''0'' \<and> CHR ''*'' \<in> set hour
   | [second, minute, hour, _, _, _] \<Rightarrow> second = ''0'' \<and> minute = ''0'' \<and> CHR ''*'' \<in> set hour
   | _ \<Rightarrow> False)"

definition normalizeCronStaggerMs :: "jsv \<Rightarrow> int option" where
  "normalizeCronStaggerMs raw = map_option (max 0) (case raw of
     JNum n \<Rightarrow> Some n
   | JStr s \<Rightarrow> if js_trim s \<noteq> [] then js_Number (js_trim s) else None
   | _ \<Rightarrow> None)"

definition resolveDefaultCronStaggerMs :: "string \<Rightarrow> int option" where
  "resolveDefaultCronStaggerMs expr = (if isRecurringTopOfHourCronExpr expr then Some DEFAULT_TOP_OF_HOUR_STAGGER_MS else None)"

definition resolveCronStaggerMs :: "cronSchedule \<Rightarrow> int" where
  "resolveCronStaggerMs s =
     (case normalizeCronStaggerMs (sd_staggerMs s) of
        Some explicit \<Rightarrow> explicit
      | None \<Rightarrow> js_default (resolveDefaultCronStaggerMs (case sd_expr s of JStr e \<Rightarrow> e | _ \<Rightarrow> [])) 0)"

text \<open>The offset of a job, computed and through its cache.\<close>

definition stableCronOffset :: "'c cronHost \<Rightarrow> string \<Rightarrow> int \<Rightarrow> int" where
  "stableCronOffset h jobId staggerMs = (if staggerMs \<le> 1 then 0 else uint (ch_sha32 h jobId) mod staggerMs)"

definition STAGGER_OFFSET_CACHE_MAX :: nat where "STAGGER_OFFSET_CACHE_MAX = 4096"

type_synonym staggerOffsetCache = "(string \<times> int) list"

definition staggerKey :: "int \<times> string \<Rightarrow> string" where
  "staggerKey k = show_int (fst k) @ '':'' @ snd k"

definition resolveStableCronOffsetMs ::
  "'c cronHost \<Rightarrow> string \<Rightarrow> int \<Rightarrow> staggerOffsetCache \<Rightarrow> int \<times> staggerOffsetCache" where
  "resolveStableCronOffsetMs h jobId staggerMs cache =
     (if staggerMs \<le> 1 then (0, cache)
      else (case map_of cache (staggerKey (staggerMs, jobId)) of
          Some offset \<Rightarrow> (offset, cache)
        | None \<Rightarrow>
            (let offset = uint (ch_sha32 h jobId) mod staggerMs
             in (offset, AList.update (staggerKey (staggerMs, jobId)) offset
                  (if STAGGER_OFFSET_CACHE_MAX \<le> length cache then jm_evict cache else cache)))))"

text \<open>At most four attempts, as many as the loop makes.\<close>

fun staggeredNextLoop :: "'c cronHost \<Rightarrow> cronSchedule \<Rightarrow> int \<Rightarrow> int \<Rightarrow> nat \<Rightarrow> int \<Rightarrow> string + int option" where
  "staggeredNextLoop h s offset nowMs 0 cursor = Inr None"
| "staggeredNextLoop h s offset nowMs (Suc n) cursor =
     err_bind (computeNextRunAtMs h s cursor) (\<lambda>base. case base of
       None \<Rightarrow> Inr None
     | Some b \<Rightarrow> if nowMs < b + offset then Inr (Some (b + offset))
         else staggeredNextLoop h s offset nowMs n (max (cursor + 1) (b + 1000)))"

definition computeStaggeredCronNextRunAtMs :: "'c cronHost \<Rightarrow> string \<Rightarrow> cronSchedule \<Rightarrow> int \<Rightarrow> string + int option" where
  "computeStaggeredCronNextRunAtMs h jobId s nowMs =
     (if \<not> isCron s then computeNextRunAtMs h s nowMs
      else (let offset = stableCronOffset h jobId (resolveCronStaggerMs s)
        in if offset \<le> 0 then computeNextRunAtMs h s nowMs
           else staggeredNextLoop h s offset nowMs 4 (max 0 (nowMs - offset))))"

fun staggeredPreviousLoop :: "'c cronHost \<Rightarrow> cronSchedule \<Rightarrow> int \<Rightarrow> int \<Rightarrow> nat \<Rightarrow> int \<Rightarrow> string + int option" where
  "staggeredPreviousLoop h s offset nowMs 0 cursor = Inr None"
| "staggeredPreviousLoop h s offset nowMs (Suc n) cursor =
     err_bind (computePreviousRunAtMs h s cursor) (\<lambda>base. case base of
       None \<Rightarrow> Inr None
     | Some b \<Rightarrow> if b + offset \<le> nowMs then Inr (Some (b + offset))
         else staggeredPreviousLoop h s offset nowMs n (max 0 (b - 1000)))"

definition computeStaggeredCronPreviousRunAtMs :: "'c cronHost \<Rightarrow> string \<Rightarrow> cronSchedule \<Rightarrow> int \<Rightarrow> string + int option" where
  "computeStaggeredCronPreviousRunAtMs h jobId s nowMs =
     (if \<not> isCron s then Inr None
      else (let offset = stableCronOffset h jobId (resolveCronStaggerMs s)
        in if offset \<le> 0 then computePreviousRunAtMs h s nowMs
           else staggeredPreviousLoop h s offset nowMs 4 (max 0 (nowMs - offset))))"

section \<open>The caches do not matter\<close>

definition evalCacheOk :: "'c cronHost \<Rightarrow> 'c cronEvalCache \<Rightarrow> bool" where
  "evalCacheOk h cache \<longleftrightarrow> length cache \<le> CRON_EVAL_CACHE_MAX \<and>
     (\<forall>expr tz c. CHR 0x00 \<notin> set tz \<longrightarrow> map_of cache (cronEvalKey expr tz) = Some c \<longrightarrow> ch_newCron h expr tz = Inr c)"

lemma separated_inj:
  "xs @ d # r = ys @ d # r' \<Longrightarrow> d \<notin> set xs \<Longrightarrow> d \<notin> set ys \<Longrightarrow> xs = ys \<and> r = r'"
  by (induction xs arbitrary: ys) (auto simp: Cons_eq_append_conv append_eq_Cons_conv)

lemma cronEvalKey_inj:
  assumes "cronEvalKey e tz = cronEvalKey e' tz'" "CHR 0x00 \<notin> set tz" "CHR 0x00 \<notin> set tz'"
  shows "e = e' \<and> tz = tz'"
  using assms separated_inj [of tz "CHR 0x00" e tz' e'] unfolding cronEvalKey_def by blast

text \<open>A time zone has no NUL character, so the key of an expression and a zone is theirs alone: a cached call
  gives what the constructor gives, and the cache stays within its bound.\<close>

lemma cached_cron_transparent:
  assumes "evalCacheOk h cache" "CHR 0x00 \<notin> set tz"
  shows "fst (resolveCachedCron h expr tz cache) = ch_newCron h expr tz \<and> evalCacheOk h (snd (resolveCachedCron h expr tz cache))"
proof -
  let ?k = "cronEvalKey expr tz"
  let ?room = "if CRON_EVAL_CACHE_MAX \<le> length cache then jm_evict cache else cache"
  have room: "length ?room < CRON_EVAL_CACHE_MAX"
    using assms(1) length_jm_evict [of cache] by (auto simp: evalCacheOk_def CRON_EVAL_CACHE_MAX_def)
  have kept: "map_of ?room k = Some c \<Longrightarrow> map_of cache k = Some c" for k c
    by (auto split: if_splits dest: map_of_evict_Some)
  have ok: "evalCacheOk h ?room"
    using assms(1) room kept unfolding evalCacheOk_def by (metis less_imp_le)
  have "evalCacheOk h (AList.update ?k c ?room)" if "ch_newCron h expr tz = Inr c" for c
    using ok room that assms(2) length_jm_update [of ?k c ?room] cronEvalKey_inj [of _ _ expr tz]
    unfolding evalCacheOk_def map_of_update_iff by (auto split: if_splits)
  then show ?thesis
    using assms ok by (auto simp: resolveCachedCron_def Let_def evalCacheOk_def [of h cache] split: option.splits sum.splits)
qed

lemma show_nat_digits: "c \<in> set (show_nat n) \<Longrightarrow> 48 \<le> (of_char c :: nat) \<and> of_char c \<le> (57 :: nat)"
  by (induction n rule: show_nat.induct) (subst (asm) (2) show_nat.simps, auto split: if_splits)

lemma digitsValue_append: "digitsValue (s @ [c]) = 10 * digitsValue s + (of_char c - 48)"
  by (simp add: digitsValue_def)

lemma of_char_int: "(of_char c :: int) = int (of_char c)"
  by (cases c) (simp add: of_char_Char of_nat_add)

lemma of_char_digit: "n < 10 \<Longrightarrow> (of_char (char_of (48 + n :: nat)) :: int) = 48 + int n"
  by (simp add: of_char_int)

lemma digitsValue_show_nat: "digitsValue (show_nat n) = int n"
proof (induction n rule: show_nat.induct)
  case (1 n)
  show ?case
  proof (cases "n < 10")
    case True
    then have "digitsValue ([] @ [char_of (48 + n)]) = int n"
      unfolding digitsValue_append by (simp add: of_char_digit) (simp add: digitsValue_def)
    with True show ?thesis by (subst show_nat.simps) simp
  next
    case False
    then have "digitsValue (show_nat (n div 10) @ [char_of (48 + n mod 10)]) = 10 * int (n div 10) + int (n mod 10)"
      unfolding digitsValue_append using 1 by (simp add: of_char_digit)
    also have "\<dots> = int n" by (metis int_plus int_ops(7) mult_div_mod_eq of_nat_numeral)
    finally show ?thesis using False by (subst show_nat.simps) simp
  qed
qed

lemma show_nat_no_colon: "CHR '':'' \<notin> set (show_nat n)"
  using show_nat_digits [of "CHR '':''" n] by auto

lemma staggerKey_inj:
  assumes "staggerKey (s, j) = staggerKey (s', j')" "0 \<le> s" "0 \<le> s'"
  shows "s = s' \<and> j = j'"
proof -
  have "show_nat (nat s) @ CHR '':'' # j = show_nat (nat s') @ CHR '':'' # j'"
    using assms by (simp add: staggerKey_def show_int_def)
  then have "show_nat (nat s) = show_nat (nat s') \<and> j = j'"
    by (rule separated_inj) (simp_all add: show_nat_no_colon)
  with assms show ?thesis by (metis digitsValue_show_nat nat_0_le)
qed

definition offsetCacheOk :: "'c cronHost \<Rightarrow> staggerOffsetCache \<Rightarrow> bool" where
  "offsetCacheOk h cache \<longleftrightarrow> length cache \<le> STAGGER_OFFSET_CACHE_MAX \<and>
     (\<forall>s j offset. 0 \<le> s \<longrightarrow> map_of cache (staggerKey (s, j)) = Some offset \<longrightarrow> offset = uint (ch_sha32 h j) mod s)"

lemma cached_offset_transparent:
  assumes "offsetCacheOk h cache"
  shows "fst (resolveStableCronOffsetMs h jobId staggerMs cache) = stableCronOffset h jobId staggerMs \<and>
    offsetCacheOk h (snd (resolveStableCronOffsetMs h jobId staggerMs cache))"
proof (cases "staggerMs \<le> 1")
  case False
  let ?k = "staggerKey (staggerMs, jobId)" and ?v = "uint (ch_sha32 h jobId) mod staggerMs"
  let ?put = "fifo_put_before STAGGER_OFFSET_CACHE_MAX ?k ?v cache"
  have "offsetCacheOk h ?put"
    unfolding offsetCacheOk_def
  proof (intro conjI allI impI)
    show "length ?put \<le> STAGGER_OFFSET_CACHE_MAX"
      using assms by (intro length_fifo_put_before) (simp_all add: offsetCacheOk_def STAGGER_OFFSET_CACHE_MAX_def)
    fix s j offset assume s: "0 \<le> s" and m: "map_of ?put (staggerKey (s, j)) = Some offset"
    from map_of_fifo_put_before [OF m] show "offset = uint (ch_sha32 h j) mod s"
    proof
      assume "staggerKey (s, j) = ?k \<and> offset = ?v"
      with staggerKey_inj [of s j staggerMs jobId] s False show ?thesis by simp
    next
      assume "map_of cache (staggerKey (s, j)) = Some offset"
      with assms s show ?thesis by (simp add: offsetCacheOk_def)
    qed
  qed
  with False assms show ?thesis
    by (auto simp: resolveStableCronOffsetMs_def stableCronOffset_def fifo_put_before_def Let_def offsetCacheOk_def [of h cache]
      split: option.splits)
qed (use assms in \<open>simp add: resolveStableCronOffsetMs_def stableCronOffset_def\<close>)

section \<open>What the next run is\<close>

lemma cronNext_future: "cronNext h c now = Inr (Some t) \<Longrightarrow> now < t"
  by (auto simp: cronNext_def err_bind_Inr split: option.splits if_splits)

lemma cron_next_future:
  assumes "computeNextRunAtMs h s now = Inr (Some t)"
  shows "if isEvery s then now \<le> t else now < t"
proof (cases s)
  case (SchedEvery e a)
  have "n \<le> (n - b + p - 1) div p * p + b" if "0 < p" for n b p :: int
  proof -
    have "n - b \<le> ((n - b + p - 1) div p) * p"
      using that by (smt (verit) minus_mod_eq_div_mult pos_mod_bound)
    then show ?thesis by linarith
  qed
  then have "n \<le> everyNext p b n" if "0 < p" for n b p
    using that unfolding everyNext_def
    by (smt (verit) mult_right_mono)
  then show ?thesis using assms by (auto simp: SchedEvery split: option.splits)
qed (use assms in \<open>auto simp: err_bind_Inr dest: cronNext_future split: option.splits if_splits\<close>)

text \<open>An interval keeps to the grid of its anchor, and takes the first point of it that is not in the past.\<close>

lemma everyNext_grid:
  assumes "0 < e"
  shows "\<exists>k \<ge> 0. everyNext e a now = a + k * e"
    and "now \<le> everyNext e a now"
    and "a \<le> now \<Longrightarrow> everyNext e a now \<le> now + e"
    and "a < now \<Longrightarrow> everyNext e a now < now + e"
proof -
  obtain q r where q: "(now - a + e - 1) div e = q" and eq: "now - a + e - 1 = q * e + r" and r: "0 \<le> r" "r < e"
    using assms by (metis div_mult_mod_eq pos_mod_bound pos_mod_sign)
  have q1: "1 \<le> q" if "a < now"
  proof (rule ccontr)
    assume "\<not> 1 \<le> q"
    then have "q * e \<le> 0" using assms by (simp add: mult_nonpos_nonneg)
    with eq r that show False by linarith
  qed
  show "\<exists>k \<ge> 0. everyNext e a now = a + k * e"
    unfolding everyNext_def by (cases "now < a") (auto intro: exI [of _ 0] exI [of _ "max 1 ((now - a + e - 1) div e)"])
  have nxt: "everyNext e a now = (if now < a then a else if a < now then a + q * e else a + max 1 q * e)"
    using q1 by (simp add: everyNext_def q max_def)
  have "e \<le> max 1 q * e \<and> max 1 q * e \<le> e" if "a = now"
  proof -
    have "q \<le> 1"
    proof (rule ccontr)
      assume "\<not> q \<le> 1"
      then have "2 * e \<le> q * e" using assms by (intro mult_right_mono) simp_all
      with eq r that show False by linarith
    qed
    then show ?thesis by simp
  qed
  then show "now \<le> everyNext e a now" "a \<le> now \<Longrightarrow> everyNext e a now \<le> now + e" "a < now \<Longrightarrow> everyNext e a now < now + e"
    using eq r assms unfolding nxt by (auto split: if_splits)
qed

text \<open>The loop never goes round: its first answer is in the future.\<close>

lemma staggered_first:
  assumes "isCron s" "0 < offset"
  shows "staggeredNextLoop h s offset now (Suc n) (max 0 (now - offset)) =
    map_sum id (map_option (\<lambda>t. t + offset)) (computeNextRunAtMs h s (max 0 (now - offset)))"
proof (cases "computeNextRunAtMs h s (max 0 (now - offset))")
  case (Inr r)
  then show ?thesis
    using cron_next_future [of h s "max 0 (now - offset)"] assms(1)
    by (cases r) (auto simp: isEvery_def isCron_def split: cronSchedule.splits)
qed simp

lemma stableCronOffset_bounds: "0 \<le> stableCronOffset h j s" "1 < s \<Longrightarrow> stableCronOffset h j s < s"
  by (simp_all add: stableCronOffset_def)

lemma staggered_eq:
  assumes "isCron s" "stableCronOffset h jobId (resolveCronStaggerMs s) = offset" "offset \<le> now"
  shows "computeStaggeredCronNextRunAtMs h jobId s now =
    map_sum id (map_option (\<lambda>t. t + offset)) (computeNextRunAtMs h s (now - offset))"
proof (cases "offset \<le> 0")
  case True
  with stableCronOffset_bounds(1) [of h jobId "resolveCronStaggerMs s"] assms have [simp]: "offset = 0" by simp
  have "map_sum id (map_option (\<lambda>t. t + 0)) r = r" for r :: "string + int option"
    by (cases r) (simp_all add: option.map_ident)
  with assms show ?thesis by (simp add: computeStaggeredCronNextRunAtMs_def)
next
  case False
  with assms staggered_first [of s offset h now 3] show ?thesis
    by (simp add: computeStaggeredCronNextRunAtMs_def numeral_eq_Suc)
qed

text \<open>What the library does: asked for the next run after a time, it gives the first instant of the expression
  that is later; but for some dates and time zones it goes back, by a year and in any case by a day.\<close>

definition firesAt :: "'c cronHost \<Rightarrow> 'c \<Rightarrow> int set \<Rightarrow> bool" where
  "firesAt h c slots \<longleftrightarrow> (\<forall>t. case ch_nextRun h c t of
     Inl _ \<Rightarrow> False
   | Inr None \<Rightarrow> \<forall>s \<in> slots. s \<le> t
   | Inr (Some n) \<Rightarrow> n + 86400000 \<le> t \<or> (n \<in> slots \<and> t < n \<and> (\<forall>s \<in> slots. t < s \<longrightarrow> n \<le> s)))"

definition rollsBack :: "'c cronHost \<Rightarrow> 'c \<Rightarrow> int \<Rightarrow> bool" where
  "rollsBack h c t = (case ch_nextRun h c t of Inr (Some n) \<Rightarrow> n \<le> t | _ \<Rightarrow> False)"

text \<open>The time after which the next run is looked for: now, or else the next second, or else the next day, whichever
  is the first at which the library does not go back.\<close>

definition nextSecond :: "int \<Rightarrow> int" where "nextSecond t = t div 1000 * 1000 + 1000"
definition nextDay :: "int \<Rightarrow> int" where "nextDay t = (t div 86400000 + 1) * 86400000"

definition askedFrom :: "'c cronHost \<Rightarrow> 'c \<Rightarrow> int \<Rightarrow> int option" where
  "askedFrom h c t = find (\<lambda>p. \<not> rollsBack h c p) [t, nextSecond t, nextDay t]"

lemma next_multiple:
  fixes t k p :: int
  assumes "0 < p"
  shows "t < (t div p + 1) * p" and "t < k * p \<Longrightarrow> (t div p + 1) * p \<le> k * p"
proof -
  have eq: "t = t div p * p + t mod p" by simp
  have r: "0 \<le> t mod p" "t mod p < p" using assms by simp_all
  show "t < (t div p + 1) * p" using eq r by (simp only: distrib_right)
  assume "t < k * p"
  then have "t div p * p < k * p" using eq r by linarith
  then have "t div p < k" using assms by simp
  then show "(t div p + 1) * p \<le> k * p" using assms by (intro mult_right_mono) simp_all
qed

lemma retry_points: "t < nextSecond t" "nextSecond t \<le> nextDay t" "nextDay t \<le> t + 86400000"
proof -
  have s: "nextSecond t = (t div 1000 + 1) * 1000" by (simp add: nextSecond_def)
  have "t < nextDay t" unfolding nextDay_def by (rule next_multiple(1)) simp
  moreover have d: "nextDay t = ((t div 86400000 + 1) * 86400) * 1000" by (simp add: nextDay_def)
  ultimately show "nextSecond t \<le> nextDay t" unfolding s d by (intro next_multiple(2)) simp_all
  show "t < nextSecond t" unfolding s by (rule next_multiple(1)) simp
  show "nextDay t \<le> t + 86400000" by (simp add: nextDay_def)
qed

lemma firesAtD:
  assumes "firesAt h c slots"
  obtains (none) "ch_nextRun h c t = Inr None" "\<not> rollsBack h c t" "\<forall>s \<in> slots. s \<le> t"
  | (rolled) n where "ch_nextRun h c t = Inr (Some n)" "rollsBack h c t" "n + 86400000 \<le> t"
  | (ahead) n where "ch_nextRun h c t = Inr (Some n)" "\<not> rollsBack h c t" "n \<in> slots" "t < n" "\<forall>s \<in> slots. t < s \<longrightarrow> n \<le> s"
proof -
  from assms have "case ch_nextRun h c t of Inl _ \<Rightarrow> False | Inr None \<Rightarrow> \<forall>s \<in> slots. s \<le> t
   | Inr (Some n) \<Rightarrow> n + 86400000 \<le> t \<or> (n \<in> slots \<and> t < n \<and> (\<forall>s \<in> slots. t < s \<longrightarrow> n \<le> s))"
    unfolding firesAt_def by blast
  then show thesis
    using none rolled ahead by (auto simp: rollsBack_def split: sum.splits option.splits)
qed

lemma firesAt_next:
  assumes fires: "firesAt h c slots"
  shows "case askedFrom h c t of
     None \<Rightarrow> cronNext h c t = Inr None
   | Some p \<Rightarrow> (case cronNext h c t of
       Inl _ \<Rightarrow> False
     | Inr None \<Rightarrow> \<forall>s \<in> slots. s \<le> p
     | Inr (Some n) \<Rightarrow> n \<in> slots \<and> t < n \<and> (\<forall>s \<in> slots. p < s \<longrightarrow> n \<le> s))"
proof (cases rule: firesAtD [where t = t, OF fires, case_names none rolled ahead])
  case none
  then show ?thesis by (simp add: askedFrom_def cronNext_def)
next
  case (ahead n)
  then show ?thesis by (simp add: askedFrom_def cronNext_def)
next
  case (rolled n)
  note points = retry_points [of t]
  have first: "cronNext h c t = err_bind (ch_nextRun h c (nextSecond t)) (\<lambda>retry.
      case (case retry of Some r \<Rightarrow> if t < r then Some r else None | None \<Rightarrow> None) of
        Some r \<Rightarrow> Inr (Some r)
      | None \<Rightarrow> err_bind (ch_nextRun h c (nextDay t)) (\<lambda>retry2.
          Inr (case retry2 of Some r \<Rightarrow> if t < r then Some r else None | None \<Rightarrow> None)))"
    unfolding nextSecond_def nextDay_def using rolled by (simp add: cronNext_def)
  show ?thesis
  proof (cases rule: firesAtD [where t = "nextSecond t", OF fires, case_names none rolled ahead])
    case none
    from fires have "\<exists>r. ch_nextRun h c (nextDay t) = Inr r \<and>
        (case r of Some n \<Rightarrow> if t < n then Some n else None | None \<Rightarrow> None) = None"
      by (cases rule: firesAtD [where t = "nextDay t"]) (use none(3) points in \<open>force+\<close>)
    with none rolled first show ?thesis by (auto simp: askedFrom_def)
  next
    case (ahead r)
    with ahead rolled first points show ?thesis by (simp add: askedFrom_def)
  next
    case second: (rolled r)
    then have r: "\<not> t < r" using points by linarith
    show ?thesis
    proof (cases rule: firesAtD [where t = "nextDay t", OF fires, case_names none rolled ahead])
      case none
      with second r rolled first show ?thesis by (simp add: askedFrom_def)
    next
      case (ahead r2)
      moreover have "t < r2" using ahead(4) points by linarith
      ultimately show ?thesis using second r rolled first by (simp add: askedFrom_def)
    next
      case third: (rolled r2)
      then have "\<not> t < r2" using points by linarith
      with third second r rolled first show ?thesis by (simp add: askedFrom_def)
    qed
  qed
qed

text \<open>C20: A cron job keeps to its schedule, later by an offset of its own. The offset is not negative and less
  than the width of the window over which the jobs are spread; and the next run of the job is the first
  instant of the expression, moved by the offset, that lies in the future. An instant whose moved slot is
  still to come is not skipped, although it may already have passed itself. When the library goes back in
  time, the next run is the first instant after the next second, or if it goes back there as well, the first
  instant of the days that follow; there is none only if the library goes back all three times or has no
  later instant.\<close>

theorem staggered_next_exact:
  assumes cron: "resolveCronFromSchedule h expr legacy tz = Inr (Some c)" and fires: "firesAt h c slots"
    and offset: "offset = stableCronOffset h jobId (resolveCronStaggerMs (SchedCron expr legacy tz stagger))" "offset \<le> now"
  shows "0 \<le> offset \<and> offset < max 1 (resolveCronStaggerMs (SchedCron expr legacy tz stagger)) \<and>
    (case askedFrom h c (now - offset) of
       None \<Rightarrow> computeStaggeredCronNextRunAtMs h jobId (SchedCron expr legacy tz stagger) now = Inr None
     | Some p \<Rightarrow> (case computeStaggeredCronNextRunAtMs h jobId (SchedCron expr legacy tz stagger) now of
         Inl _ \<Rightarrow> False
       | Inr None \<Rightarrow> \<forall>s \<in> slots. s \<le> p
       | Inr (Some t) \<Rightarrow> t - offset \<in> slots \<and> now < t \<and> (\<forall>s \<in> slots. p < s \<longrightarrow> t \<le> s + offset)))"
proof (intro conjI)
  let ?s = "SchedCron expr legacy tz stagger"
  show "0 \<le> offset" "offset < max 1 (resolveCronStaggerMs ?s)"
    by (auto simp: offset(1) stableCronOffset_def max_def)
  have "computeStaggeredCronNextRunAtMs h jobId ?s now = map_sum id (map_option (\<lambda>t. t + offset)) (cronNext h c (now - offset))"
    using staggered_eq [where s = ?s and h = h and jobId = jobId and offset = offset and now = now] offset cron by simp
  with firesAt_next [OF fires, of "now - offset"]
  show "case askedFrom h c (now - offset) of
       None \<Rightarrow> computeStaggeredCronNextRunAtMs h jobId ?s now = Inr None
     | Some p \<Rightarrow> (case computeStaggeredCronNextRunAtMs h jobId ?s now of
         Inl _ \<Rightarrow> False
       | Inr None \<Rightarrow> \<forall>s \<in> slots. s \<le> p
       | Inr (Some t) \<Rightarrow> t - offset \<in> slots \<and> now < t \<and> (\<forall>s \<in> slots. p < s \<longrightarrow> t \<le> s + offset))"
    by (cases "cronNext h c (now - offset)") (fastforce split: option.splits)+
qed

text \<open>A library that knows one expression, the top of the hour.\<close>

definition hourlyHost :: "unit cronHost" where
  "hourlyHost = \<lparr>ch_dateParse = (\<lambda>s. None), ch_localTz = ''UTC'',
     ch_newCron = (\<lambda>e tz. if e = ''0 * * * *'' then Inr () else Inl ''bad expression''),
     ch_nextRun = (\<lambda>c t. Inr (Some ((t div 3600000 + 1) * 3600000))),
     ch_previousRun = (\<lambda>c t. Inr (Some ((t - 1) div 3600000 * 3600000))), ch_sha32 = (\<lambda>s. 1234567)\<rparr>"

text \<open>It goes back a year unless it is asked on a full second.\<close>

definition rollingHost :: "unit cronHost" where
  "rollingHost = hourlyHost\<lparr>ch_nextRun := (\<lambda>c t. Inr (Some
     (if t mod 1000 = 0 then (t div 3600000 + 1) * 3600000 else t - 31536000000)))\<rparr>"

lemma rolling_fires: "firesAt rollingHost () (range (\<lambda>k. k * 3600000))"
  using next_multiple [where p = 3600000] by (auto simp: firesAt_def rollingHost_def simp del: distrib_right_numeral)

definition hourly :: cronSchedule where "hourly = SchedCron (JStr ''0 * * * *'') JUndef JUndef JUndef"

lemma hourly_facts:
  "resolveCronFromSchedule rollingHost (JStr ''0 * * * *'') JUndef JUndef = Inr (Some ())"
  "resolveCronStaggerMs hourly = 300000"
  "stableCronOffset rollingHost ''job1'' 300000 = 34567"
proof -
  have "js_trim ''0 * * * *'' = ''0 * * * *''" by (simp add: js_trim_def js_ws_def)
  then show "resolveCronFromSchedule rollingHost (JStr ''0 * * * *'') JUndef JUndef = Inr (Some ())"
    by (simp add: resolveCronFromSchedule_def rollingHost_def hourlyHost_def)
  show "resolveCronStaggerMs hourly = 300000" by code_simp
  show "stableCronOffset rollingHost ''job1'' 300000 = 34567" by (simp add: stableCronOffset_def rollingHost_def hourlyHost_def)
qed

theorem staggered_next_exact_witness:
  "computeStaggeredCronNextRunAtMs rollingHost ''job1'' hourly 7200000 = Inr (Some 7234567) \<and>
   askedFrom rollingHost () (7200000 - 34567) = Some 7166000 \<and> 7234567 - (34567::int) \<in> range (\<lambda>k. k * 3600000)"
proof -
  have one: "cronNext rollingHost () (7200000 - 34567) = Inr (Some 7200000)"
    by (simp add: cronNext_def rollingHost_def)
  have run: "computeStaggeredCronNextRunAtMs rollingHost ''job1'' hourly 7200000 = Inr (Some 7234567)"
    using one staggered_eq [where s = hourly and h = rollingHost and jobId = "''job1''" and offset = 34567 and now = 7200000]
    by (simp add: hourly_facts) (simp add: hourly_def hourly_facts)
  have asked: "askedFrom rollingHost () (7200000 - 34567) = Some 7166000"
    by (simp add: askedFrom_def rollsBack_def rollingHost_def nextSecond_def)
  from staggered_next_exact [where now = 7200000 and stagger = JUndef and offset = 34567, OF hourly_facts(1) rolling_fires, of "''job1''"]
  have "7234567 - (34567::int) \<in> range (\<lambda>k. k * 3600000)"
    by (simp only: hourly_facts hourly_def [symmetric] run [unfolded hourly_def] asked option.case sum.case) simp
  with run asked show ?thesis by blast
qed

text \<open>The library is asked for what comes after the next second, so that a run at that second is passed over.\<close>

lemma retry_skips_second: "cronNext rollingHost () 7199500 = Inr (Some 10800000)"
  by (simp add: cronNext_def rollingHost_def)

end
