(* ===== verification/Cron_Jobs.thy ===== *)
theory Cron_Jobs
  imports Cron_Schedule
begin

text \<open>
  Scheduled jobs and what the scheduler keeps about them: \<open>src/cron/types.ts\<close>, \<open>types-shared.ts\<close>,
  \<open>webhook-url.ts\<close>, \<open>service/normalize.ts\<close>, \<open>service/initial-delivery.ts\<close> and \<open>service/jobs.ts\<close>. A job that
  the code updates in place is returned updated; an operation that throws half way returns the job as it
  leaves it, beside the error. What it asks of other components is a list of effects.
\<close>

section \<open>Data\<close>

datatype cronStatus = CronOk | CronError | CronSkipped

datatype cronDeliveryStatus = Delivered | NotDelivered | DeliveryUnknown | DeliveryNotRequested

datatype cronWakeMode = WakeNextHeartbeat | WakeNow

record cronFailureDestination =
  cfd_channel :: "string option"
  cfd_to :: "string option"
  cfd_accountId :: "string option"
  cfd_mode :: "string option"

record cronDelivery =
  cd_mode :: string
  cd_channel :: "string option"
  cd_to :: "string option"
  cd_accountId :: "string option"
  cd_bestEffort :: "bool option"
  cd_failureDestination :: "cronFailureDestination option"

record agentTurn =
  at_message :: string
  at_model :: "string option"
  at_fallbacks :: "string list option"
  at_thinking :: "string option"
  at_timeoutSeconds :: "int option"
  at_allowUnsafeExternalContent :: "bool option"
  at_lightContext :: "bool option"
  at_deliver :: "bool option"
  at_channel :: "string option"
  at_to :: "string option"
  at_bestEffortDeliver :: "bool option"

datatype cronPayload = SystemEventPayload string | AgentTurnPayload agentTurn

record cronFailureAlert =
  fa_after :: "int option"
  fa_channel :: "string option"
  fa_to :: "string option"
  fa_cooldownMs :: "int option"
  fa_mode :: "string option"
  fa_accountId :: "string option"

datatype cronAlertSetting = AlertUnset | AlertOff | AlertOn cronFailureAlert

record cronJobState =
  cs_nextRunAtMs :: "int option"
  cs_runningAtMs :: "int option"
  cs_lastRunAtMs :: "int option"
  cs_lastRunStatus :: "cronStatus option"
  cs_lastStatus :: "cronStatus option"
  cs_lastError :: "string option"
  cs_lastErrorReason :: "string option"
  cs_lastDurationMs :: "int option"
  cs_consecutiveErrors :: "int option"
  cs_lastFailureAlertAtMs :: "int option"
  cs_scheduleErrorCount :: "int option"
  cs_lastDeliveryStatus :: "cronDeliveryStatus option"
  cs_lastDeliveryError :: "string option"
  cs_lastDelivered :: "bool option"

record cronJob =
  cj_id :: string
  cj_agentId :: "string option"
  cj_sessionKey :: "string option"
  cj_name :: string
  cj_description :: "string option"
  cj_enabled :: bool
  cj_deleteAfterRun :: "bool option"
  cj_createdAtMs :: int
  cj_updatedAtMs :: int
  cj_schedule :: cronSchedule
  cj_sessionTarget :: string
  cj_wakeMode :: cronWakeMode
  cj_payload :: cronPayload
  cj_delivery :: "cronDelivery option"
  cj_failureAlert :: cronAlertSetting
  cj_state :: cronJobState

text \<open>A state without fields.\<close>

definition emptyJobState :: cronJobState where
  "emptyJobState = \<lparr>cs_nextRunAtMs = None, cs_runningAtMs = None, cs_lastRunAtMs = None, cs_lastRunStatus = None,
     cs_lastStatus = None, cs_lastError = None, cs_lastErrorReason = None, cs_lastDurationMs = None, cs_consecutiveErrors = None,
     cs_lastFailureAlertAtMs = None, cs_scheduleErrorCount = None, cs_lastDeliveryStatus = None, cs_lastDeliveryError = None,
     cs_lastDelivered = None\<rparr>"

text \<open>What the scheduler asks for: an event for the session of an agent, a heartbeat, the notice that a job was
  disabled, an alert, and the events of the jobs.\<close>

datatype cronEffect =
    EnqueueSystemEvent string "string option" "string option" "string option"
  | RequestHeartbeat string "string option" "string option"
  | AutoDisabledNotice string string int string
  | SendFailureAlert string string string "string option" "string option" "string option"
  | JobStarted string int
  | JobFinished string cronStatus "int option"
  | JobAdded string "int option"
  | JobUpdated string "int option"
  | JobRemoved string

section \<open>Normalisation of fields\<close>

definition normalizeRequiredName :: "jsv \<Rightarrow> string + string" where
  "normalizeRequiredName raw = (case raw of
       JStr s \<Rightarrow> (let name = js_trim s in if name = [] then Inl ''cron job name is required'' else Inr name)
     | _ \<Rightarrow> Inl ''cron job name is required'')"

definition normalizeOptionalText :: "jsv \<Rightarrow> string option" where
  "normalizeOptionalText raw = js_nonEmptyString raw"

definition normalizeOptionalAgentId :: "jsv \<Rightarrow> string option" where
  "normalizeOptionalAgentId raw = map_option (\<lambda>s. normalizeAgentId (Some s)) (js_nonEmptyString raw)"

definition normalizeOptionalSessionKey :: "jsv \<Rightarrow> string option" where
  "normalizeOptionalSessionKey raw = js_nonEmptyString raw"

definition normalizeOptionalTrimmedString :: "jsv \<Rightarrow> string option" where
  "normalizeOptionalTrimmedString raw = js_nonEmptyString raw"

definition normalizePayloadToSystemText :: "cronPayload \<Rightarrow> string" where
  "normalizePayloadToSystemText p = (case p of SystemEventPayload s \<Rightarrow> js_trim s | AgentTurnPayload t \<Rightarrow> js_trim (at_message t))"

definition resolveJobPayloadTextForMain :: "cronJob \<Rightarrow> string option" where
  "resolveJobPayloadTextForMain job = (case cj_payload job of
       SystemEventPayload s \<Rightarrow> (let t = normalizePayloadToSystemText (cj_payload job) in if js_trim t \<noteq> [] then Some t else None)
     | AgentTurnPayload _ \<Rightarrow> None)"

text \<open>The protocol that the URL parser finds, and the trimmed address when it is one of the web.\<close>

definition normalizeHttpWebhookUrl :: "(string \<Rightarrow> string option) \<Rightarrow> string option \<Rightarrow> string option" where
  "normalizeHttpWebhookUrl protocol v = (case v of
     None \<Rightarrow> None
   | Some s \<Rightarrow> (let t = js_trim s in
       if t = [] then None
       else (case protocol t of Some p \<Rightarrow> if p \<in> {''http:'', ''https:''} then Some t else None | None \<Rightarrow> None)))"

section \<open>Checks\<close>

definition isIsolatedLike :: "string \<Rightarrow> bool" where
  "isIsolatedLike target \<longleftrightarrow> target = ''isolated'' \<or> target = ''current'' \<or> prefix ''session:'' target"

definition isAgentTurn :: "cronPayload \<Rightarrow> bool" where
  "isAgentTurn p \<longleftrightarrow> (case p of AgentTurnPayload _ \<Rightarrow> True | _ \<Rightarrow> False)"

text \<open>A check is the error it throws, or nothing; two of them also write the trimmed address back.\<close>

type_synonym jobCheck = "cronJob \<Rightarrow> cronJob \<times> string option"

definition assertSupportedJobSpec :: jobCheck where
  "assertSupportedJobSpec job = (job,
     if cj_sessionTarget job = ''main'' \<and> isAgentTurn (cj_payload job)
     then Some ''main cron jobs require payload.kind=\"systemEvent\"''
     else if isIsolatedLike (cj_sessionTarget job) \<and> \<not> isAgentTurn (cj_payload job)
     then Some ''isolated/current/session cron jobs require payload.kind=\"agentTurn\"''
     else None)"

definition assertMainSessionAgentId :: "string option \<Rightarrow> jobCheck" where
  "assertMainSessionAgentId defaultAgentId job = (job,
     if cj_sessionTarget job \<noteq> ''main'' \<or> js_or_empty (cj_agentId job) = [] then None
     else if normalizeAgentId (cj_agentId job) \<noteq> normalizeAgentId defaultAgentId
     then Some (''cron: sessionTarget \"main\" is only valid for the default agent. Use sessionTarget \"isolated\" with payload.kind \"agentTurn\" for non-default agents (agentId: '' @ js_or_empty (cj_agentId job) @ '')'')
     else None)"

text \<open>\<open>/^-?\d+\/\d+$/\<close>\<close>

definition isSlashTopic :: "string \<Rightarrow> bool" where
  "isSlashTopic s = (case js_split CHR ''/'' (case s of CHR ''-'' # t \<Rightarrow> t | _ \<Rightarrow> s) of
     [a, b] \<Rightarrow> isDigits a \<and> isDigits b | _ \<Rightarrow> False)"

text \<open>A link contains \<open>t.me/\<close>: the second alternative of the pattern is not anchored.\<close>

definition validateTelegramDeliveryTarget :: "string option \<Rightarrow> string option" where
  "validateTelegramDeliveryTarget to =
     (let raw = js_or_empty to; trimmed = js_trim raw in
      if raw = [] then None
      else if sublist ''t.me/'' (js_lower trimmed) then None
      else if isSlashTopic trimmed
      then Some (''Invalid Telegram delivery target \"'' @ raw @ ''\". Use colon (:) as delimiter for topics, not slash. Valid formats: -1001234567890, -1001234567890:123, -1001234567890:topic:123, @username, https://t.me/username'')
      else None)"

definition assertDeliverySupport :: "(string \<Rightarrow> string option) \<Rightarrow> jobCheck" where
  "assertDeliverySupport protocol job = (case cj_delivery job of
     None \<Rightarrow> (job, None)
   | Some d \<Rightarrow>
       if cd_mode d = ''none'' then (job, None)
       else if cd_mode d = ''webhook''
       then (case normalizeHttpWebhookUrl protocol (cd_to d) of
           None \<Rightarrow> (job, Some ''cron webhook delivery requires delivery.to to be a valid http(s) URL'')
         | Some target \<Rightarrow> (job\<lparr>cj_delivery := Some (d\<lparr>cd_to := Some target\<rparr>)\<rparr>, None))
       else if \<not> isIsolatedLike (cj_sessionTarget job)
       then (job, Some ''cron channel delivery config is only supported for sessionTarget=\"isolated\"'')
       else if cd_channel d = Some ''telegram'' then (job, validateTelegramDeliveryTarget (cd_to d))
       else (job, None))"

definition failureDestinationError :: string where
  "failureDestinationError = ''cron delivery.failureDestination is only supported for sessionTarget=\"isolated\" unless delivery.mode=\"webhook\"''"

definition deliveryMode :: "cronJob \<Rightarrow> string option" where
  "deliveryMode job = map_option cd_mode (cj_delivery job)"

definition jobFailureDestination :: "cronJob \<Rightarrow> cronFailureDestination option" where
  "jobFailureDestination job = Option.bind (cj_delivery job) cd_failureDestination"

definition assertFailureDestinationSupport :: "(string \<Rightarrow> string option) \<Rightarrow> jobCheck" where
  "assertFailureDestinationSupport protocol job = (case cj_delivery job of
     None \<Rightarrow> (job, None)
   | Some d \<Rightarrow> (case cd_failureDestination d of
       None \<Rightarrow> (job, None)
     | Some f \<Rightarrow>
         if cj_sessionTarget job = ''main'' \<and> cd_mode d \<noteq> ''webhook'' then (job, Some failureDestinationError)
         else if cfd_mode f = Some ''webhook''
         then (case normalizeHttpWebhookUrl protocol (cfd_to f) of
             None \<Rightarrow> (job, Some ''cron failure destination webhook requires delivery.failureDestination.to to be a valid http(s) URL'')
           | Some target \<Rightarrow> (job\<lparr>cj_delivery := Some (d\<lparr>cd_failureDestination := Some (f\<lparr>cfd_to := Some target\<rparr>)\<rparr>)\<rparr>, None))
         else (job, None)))"

text \<open>One after the other, up to the first error.\<close>

fun runChecks :: "jobCheck list \<Rightarrow> jobCheck" where
  "runChecks [] job = (job, None)"
| "runChecks (c # cs) job = (case c job of (job', Some e) \<Rightarrow> (job', Some e) | (job', None) \<Rightarrow> runChecks cs job')"

definition jobChecks :: "(string \<Rightarrow> string option) \<Rightarrow> string option \<Rightarrow> jobCheck list" where
  "jobChecks protocol defaultAgentId = [assertSupportedJobSpec, assertMainSessionAgentId defaultAgentId,
     assertDeliverySupport protocol, assertFailureDestinationSupport protocol]"

section \<open>When a job runs\<close>

definition STUCK_RUN_MS :: int where "STUCK_RUN_MS = 2 * 60 * 60 * 1000"

definition resolveEveryAnchorMs :: "jsv \<Rightarrow> int \<Rightarrow> int" where
  "resolveEveryAnchorMs anchorMs fallbackAnchorMs =
     (case coerceFiniteScheduleNumber anchorMs of Some n \<Rightarrow> max 0 n | None \<Rightarrow> max 0 fallbackAnchorMs)"

definition computeJobNextRunAtMs :: "'c cronHost \<Rightarrow> cronJob \<Rightarrow> int \<Rightarrow> string + int option" where
  "computeJobNextRunAtMs h job nowMs =
     (if \<not> cj_enabled job then Inr None
      else (case cj_schedule job of
        SchedEvery everyMs anchorMs \<Rightarrow>
          (case coerceFiniteScheduleNumber everyMs of
             None \<Rightarrow> Inr None
           | Some raw \<Rightarrow>
               (let e = max 1 raw;
                    grid = computeNextRunAtMs h
                      (SchedEvery (JNum e) (JNum (resolveEveryAnchorMs anchorMs (cj_createdAtMs job)))) nowMs
                in case cs_lastRunAtMs (cj_state job) of
                     Some l \<Rightarrow> if nowMs < l + e then Inr (Some (l + e)) else grid
                   | None \<Rightarrow> grid))
      | SchedAt at atMs \<Rightarrow>
          (let t = atTime h at atMs in
           case (if cs_lastStatus (cj_state job) = Some CronOk then cs_lastRunAtMs (cj_state job) else None) of
             Some l \<Rightarrow> if l \<noteq> 0 then Inr (case t of Some x \<Rightarrow> if l < x then Some x else None | None \<Rightarrow> None) else Inr t
           | None \<Rightarrow> Inr t)
      | SchedCron _ _ _ _ \<Rightarrow>
          err_bind (computeStaggeredCronNextRunAtMs h (cj_id job) (cj_schedule job) nowMs) (\<lambda>next. case next of
            None \<Rightarrow> computeStaggeredCronNextRunAtMs h (cj_id job) (cj_schedule job) (nowMs div 1000 * 1000 + 1000)
          | Some t \<Rightarrow> Inr (Some t))))"

definition computeJobPreviousRunAtMs :: "'c cronHost \<Rightarrow> cronJob \<Rightarrow> int \<Rightarrow> string + int option" where
  "computeJobPreviousRunAtMs h job nowMs =
     (if \<not> cj_enabled job \<or> \<not> isCron (cj_schedule job) then Inr None
      else computeStaggeredCronPreviousRunAtMs h (cj_id job) (cj_schedule job) nowMs)"

definition MAX_SCHEDULE_ERRORS :: int where "MAX_SCHEDULE_ERRORS = 3"

definition recordScheduleComputeError :: "cronJob \<Rightarrow> string \<Rightarrow> cronJob \<times> cronEffect list" where
  "recordScheduleComputeError job err =
     (let errorCount = js_default (cs_scheduleErrorCount (cj_state job)) 0 + 1;
          job' = job\<lparr>cj_state := (cj_state job)\<lparr>cs_scheduleErrorCount := Some errorCount, cs_nextRunAtMs := None,
            cs_lastError := Some (''schedule error: '' @ err)\<rparr>\<rparr>
      in if MAX_SCHEDULE_ERRORS \<le> errorCount
         then (job'\<lparr>cj_enabled := False\<rparr>,
           [AutoDisabledNotice (cj_id job) (cj_name job) errorCount err,
            RequestHeartbeat (''cron:'' @ cj_id job @ '':auto-disabled'') (cj_agentId job) (cj_sessionKey job)])
         else (job', []))"

text \<open>The job, whether it changed, and what was asked for.\<close>

type_synonym jobWalk = "cronJob \<times> bool \<times> cronEffect list"

definition normalizeJobTickState :: "cronJob \<Rightarrow> int \<Rightarrow> cronJob \<times> bool \<times> bool" where
  "normalizeJobTickState job nowMs =
     (let st = cj_state job in
      if \<not> cj_enabled job
      then (job\<lparr>cj_state := st\<lparr>cs_nextRunAtMs := None, cs_runningAtMs := None\<rparr>\<rparr>,
            cs_nextRunAtMs st \<noteq> None \<or> cs_runningAtMs st \<noteq> None, True)
      else (case cs_runningAtMs st of
          Some r \<Rightarrow> if STUCK_RUN_MS < nowMs - r then (job\<lparr>cj_state := st\<lparr>cs_runningAtMs := None\<rparr>\<rparr>, True, False)
            else (job, False, False)
        | None \<Rightarrow> (job, False, False)))"

definition walkJob :: "(cronJob \<Rightarrow> int \<Rightarrow> jobWalk) \<Rightarrow> int \<Rightarrow> cronJob \<Rightarrow> jobWalk" where
  "walkJob fn nowMs job =
     (case normalizeJobTickState job nowMs of (job', changed, skip) \<Rightarrow>
        if skip then (job', changed, [])
        else (case fn job' nowMs of (job'', changed', effects) \<Rightarrow> (job'', changed \<or> changed', effects)))"

fun walkSchedulableJobs :: "(cronJob \<Rightarrow> int \<Rightarrow> jobWalk) \<Rightarrow> int \<Rightarrow> cronJob list \<Rightarrow> cronJob list \<times> bool \<times> cronEffect list" where
  "walkSchedulableJobs fn nowMs [] = ([], False, [])"
| "walkSchedulableJobs fn nowMs (job # jobs) =
     (case walkJob fn nowMs job of (job', c, es) \<Rightarrow>
       (case walkSchedulableJobs fn nowMs jobs of (jobs', cs, ess) \<Rightarrow> (job' # jobs', c \<or> cs, es @ ess)))"

definition recomputeJobNextRunAtMs :: "'c cronHost \<Rightarrow> cronJob \<Rightarrow> int \<Rightarrow> jobWalk" where
  "recomputeJobNextRunAtMs h job nowMs = (case computeJobNextRunAtMs h job nowMs of
     Inr newNext \<Rightarrow>
       (let st = cj_state job; counted = js_default (cs_scheduleErrorCount st) 0 \<noteq> 0 in
        (job\<lparr>cj_state := st\<lparr>cs_nextRunAtMs := newNext,
           cs_scheduleErrorCount := (if counted then None else cs_scheduleErrorCount st)\<rparr>\<rparr>,
         cs_nextRunAtMs st \<noteq> newNext \<or> counted, []))
   | Inl err \<Rightarrow> (case recordScheduleComputeError job err of (job', effects) \<Rightarrow> (job', True, effects)))"

definition recomputeNextRun :: "'c cronHost \<Rightarrow> cronJob \<Rightarrow> int \<Rightarrow> jobWalk" where
  "recomputeNextRun h job nowMs = (case cs_nextRunAtMs (cj_state job) of
     Some n \<Rightarrow> if n \<le> nowMs then recomputeJobNextRunAtMs h job nowMs else (job, False, [])
   | None \<Rightarrow> recomputeJobNextRunAtMs h job nowMs)"

definition recomputeNextRuns :: "'c cronHost \<Rightarrow> int \<Rightarrow> cronJob list \<Rightarrow> cronJob list \<times> bool \<times> cronEffect list" where
  "recomputeNextRuns h = walkSchedulableJobs (recomputeNextRun h)"

definition maintainNextRun :: "'c cronHost \<Rightarrow> bool \<Rightarrow> cronJob \<Rightarrow> int \<Rightarrow> jobWalk" where
  "maintainNextRun h recomputeExpired job nowMs = (case cs_nextRunAtMs (cj_state job) of
     None \<Rightarrow> recomputeJobNextRunAtMs h job nowMs
   | Some n \<Rightarrow>
       if recomputeExpired \<and> n \<le> nowMs \<and> cs_runningAtMs (cj_state job) = None \<and>
          (case cs_lastRunAtMs (cj_state job) of Some l \<Rightarrow> n \<le> l | None \<Rightarrow> False)
       then recomputeJobNextRunAtMs h job nowMs
       else (job, False, []))"

definition recomputeNextRunsForMaintenance ::
  "'c cronHost \<Rightarrow> bool \<Rightarrow> int \<Rightarrow> cronJob list \<Rightarrow> cronJob list \<times> bool \<times> cronEffect list" where
  "recomputeNextRunsForMaintenance h recomputeExpired = walkSchedulableJobs (maintainNextRun h recomputeExpired)"

definition nextWakeAtMs :: "cronJob list \<Rightarrow> int option" where
  "nextWakeAtMs jobs =
     (case concat (map (\<lambda>j. if cj_enabled j then (case cs_nextRunAtMs (cj_state j) of Some n \<Rightarrow> [n] | None \<Rightarrow> []) else []) jobs) of
        [] \<Rightarrow> None
      | n # ns \<Rightarrow> Some (foldl min n ns))"

definition isJobDue :: "cronJob \<Rightarrow> int \<Rightarrow> bool \<Rightarrow> bool" where
  "isJobDue job nowMs forced \<longleftrightarrow> cs_runningAtMs (cj_state job) = None \<and>
     (forced \<or> (cj_enabled job \<and> (case cs_nextRunAtMs (cj_state job) of Some n \<Rightarrow> n \<le> nowMs | None \<Rightarrow> False)))"

definition findJob :: "cronJob list \<Rightarrow> string \<Rightarrow> cronJob option" where
  "findJob jobs jobId = find (\<lambda>j. cj_id j = jobId) jobs"

section \<open>The next run is not in the past\<close>

lemma staggeredLoop_future: "staggeredNextLoop h s offset now n cursor = Inr (Some t) \<Longrightarrow> now < t"
  by (induction h s offset now n cursor rule: staggeredNextLoop.induct) (auto simp: err_bind_Inr split: option.splits if_splits)

lemma staggered_future:
  assumes "isCron s" "computeStaggeredCronNextRunAtMs h jobId s now = Inr (Some t)"
  shows "now < t"
  using assms cron_next_future [of h s now t]
  by (auto simp: computeStaggeredCronNextRunAtMs_def Let_def isEvery_def isCron_def split: if_splits cronSchedule.splits
    dest: staggeredLoop_future)

lemma job_next_future:
  assumes "computeJobNextRunAtMs h job now = Inr (Some t)" "\<not> isAt (cj_schedule job)"
  shows "if isCron (cj_schedule job) then now < t else now \<le> t"
proof (cases "cj_schedule job")
  case (SchedAt a b)
  with assms show ?thesis by simp
next
  case (SchedEvery e a)
  with assms show ?thesis
    using cron_next_future [of h "SchedEvery _ _" now t] everyNext_grid(2)
    by (auto simp: computeJobNextRunAtMs_def coerceFiniteScheduleNumber_def Let_def split: option.splits if_splits)
next
  case (SchedCron e c z s)
  have "now < now div 1000 * 1000 + 1000"
    using next_multiple(1) [of 1000 now] by simp
  with SchedCron assms staggered_future [of "cj_schedule job" h "cj_id job"] show ?thesis
    by (auto simp: computeJobNextRunAtMs_def err_bind_Inr split: option.splits if_splits) (meson less_trans)
qed

text \<open>An interval job runs again within its period, when neither its anchor nor its last run lie in the future.\<close>

lemma every_job_within_period:
  assumes "cj_schedule job = SchedEvery everyMs anchorMs" "cj_enabled job" "coerceFiniteScheduleNumber everyMs = Some e"
    and "resolveEveryAnchorMs anchorMs (cj_createdAtMs job) \<le> now"
    and "case cs_lastRunAtMs (cj_state job) of Some l \<Rightarrow> l \<le> now | None \<Rightarrow> True"
  shows "\<exists>t. computeJobNextRunAtMs h job now = Inr (Some t) \<and> now \<le> t \<and> t \<le> now + max 1 e"
proof -
  let ?e = "max 1 e" and ?a = "resolveEveryAnchorMs anchorMs (cj_createdAtMs job)"
  have a: "0 \<le> ?a" by (simp add: resolveEveryAnchorMs_def split: option.splits)
  have grid: "computeNextRunAtMs h (SchedEvery (JNum ?e) (JNum ?a)) now = Inr (Some (everyNext ?e ?a now))"
    using a by (simp add: coerceFiniteScheduleNumber_def js_default_def)
  have "now \<le> everyNext ?e ?a now" "everyNext ?e ?a now \<le> now + ?e"
    using everyNext_grid(2,3) [where e = ?e and a = ?a and now = now] assms(4) by simp_all
  with assms grid show ?thesis
    by (auto simp: computeJobNextRunAtMs_def Let_def simp del: computeNextRunAtMs.simps split: option.splits)
qed

end
