(* ===== verification/Cron_Results.thy ===== *)
theory Cron_Results
  imports Cron_Jobs
begin

text \<open>
  What the result of a run does to its job, and which jobs are to be run: the first half of
  \<open>src/cron/service/timer.ts\<close> with \<open>resolveCronDeliveryPlan\<close> of \<open>src/cron/delivery.ts\<close> and
  \<open>service/timeout-policy.ts\<close>. The classification of an error as a reason to change the model is an
  argument: it is recorded and not used here.
\<close>

section \<open>Configuration\<close>

record cronConfig =
  cc_maxConcurrentRuns :: "int option"
  cc_retryMaxAttempts :: "int option"
  cc_retryBackoffMs :: "int list option"
  cc_retryOn :: "string list option"
  cc_alertEnabled :: "bool option"
  cc_alertAfter :: "int option"
  cc_alertCooldownMs :: "int option"
  cc_alertMode :: "string option"
  cc_alertAccountId :: "string option"

record 'c cronDeps =
  cx_host :: "'c cronHost"
  cx_config :: cronConfig
  cx_cronEnabled :: bool
  cx_defaultAgentId :: "string option"
  cx_missedJobStaggerMs :: "int option"
  cx_maxMissedJobsPerRestart :: "int option"
  cx_sendsFailureAlerts :: bool
  cx_failoverReason :: "string \<Rightarrow> string option"
  cx_urlProtocol :: "string \<Rightarrow> string option"

definition MAX_TIMER_DELAY_MS :: int where "MAX_TIMER_DELAY_MS = 60000"
definition MIN_REFIRE_GAP_MS :: int where "MIN_REFIRE_GAP_MS = 2000"
definition DEFAULT_MISSED_JOB_STAGGER_MS :: int where "DEFAULT_MISSED_JOB_STAGGER_MS = 5000"
definition DEFAULT_MAX_MISSED_JOBS_PER_RESTART :: int where "DEFAULT_MAX_MISSED_JOBS_PER_RESTART = 5"
definition DEFAULT_FAILURE_ALERT_AFTER :: int where "DEFAULT_FAILURE_ALERT_AFTER = 2"
definition DEFAULT_FAILURE_ALERT_COOLDOWN_MS :: int where "DEFAULT_FAILURE_ALERT_COOLDOWN_MS = 60 * 60000"
definition DEFAULT_MAX_TRANSIENT_RETRIES :: int where "DEFAULT_MAX_TRANSIENT_RETRIES = 3"
definition DEFAULT_JOB_TIMEOUT_MS :: int where "DEFAULT_JOB_TIMEOUT_MS = 10 * 60000"
definition AGENT_TURN_SAFETY_TIMEOUT_MS :: int where "AGENT_TURN_SAFETY_TIMEOUT_MS = 60 * 60000"

definition DEFAULT_BACKOFF_SCHEDULE_MS :: "int list" where
  "DEFAULT_BACKOFF_SCHEDULE_MS = [30000, 60000, 5 * 60000, 15 * 60000, 60 * 60000]"

text \<open>No timeout, or its length.\<close>

definition resolveCronJobTimeoutMs :: "cronJob \<Rightarrow> int option" where
  "resolveCronJobTimeoutMs job = (case cj_payload job of
     SystemEventPayload _ \<Rightarrow> Some DEFAULT_JOB_TIMEOUT_MS
   | AgentTurnPayload t \<Rightarrow> (case at_timeoutSeconds t of
       None \<Rightarrow> Some AGENT_TURN_SAFETY_TIMEOUT_MS
     | Some s \<Rightarrow> if s * 1000 \<le> 0 then None else Some (s * 1000)))"

definition resolveRunConcurrency :: "cronConfig \<Rightarrow> int" where
  "resolveRunConcurrency cfg = (case cc_maxConcurrentRuns cfg of None \<Rightarrow> 1 | Some n \<Rightarrow> max 1 n)"

section \<open>Errors that pass\<close>

definition errorBackoffMs :: "int \<Rightarrow> int list \<Rightarrow> int" where
  "errorBackoffMs consecutiveErrors scheduleMs =
     scheduleMs ! nat (max 0 (min (consecutiveErrors - 1) (int (length scheduleMs) - 1)))"

text \<open>A pattern between two word boundaries that consists of word characters is a whole run of them.\<close>

definition isRegexWordChar :: "char \<Rightarrow> bool" where
  "isRegexWordChar c \<longleftrightarrow> isAsciiLower c \<or> isAsciiUpper c \<or> isAsciiDigit c \<or> c = CHR ''_''"

fun wordRuns :: "string \<Rightarrow> string list" where
  "wordRuns [] = []"
| "wordRuns (c # cs) =
     (if \<not> isRegexWordChar c then wordRuns cs
      else (case cs of
         [] \<Rightarrow> [[c]]
       | d # _ \<Rightarrow> if \<not> isRegexWordChar d then [c] # wordRuns cs
           else (case wordRuns cs of w # ws \<Rightarrow> (c # w) # ws | [] \<Rightarrow> [[c]])))"

definition containsAny :: "string list \<Rightarrow> string \<Rightarrow> bool" where
  "containsAny ps s \<longleftrightarrow> list_ex (\<lambda>p. sublist p s) ps"

definition isServerErrorCode :: "string \<Rightarrow> bool" where
  "isServerErrorCode w \<longleftrightarrow> length w = 3 \<and> hd w = CHR ''5'' \<and> list_all isAsciiDigit w"

definition TRANSIENT_PATTERNS :: "(string \<times> (string \<Rightarrow> bool)) list" where
  "TRANSIENT_PATTERNS = [
     (''rate_limit'', containsAny [''rate_limit'', ''rate limit'', ''too many requests'', ''429'',
        ''resource has been exhausted'', ''cloudflare'', ''tokens per day'']),
     (''overloaded'', \<lambda>s. list_ex (\<lambda>w. w \<in> {''529'', ''overloaded'', ''overloaded_error''}) (wordRuns s) \<or>
        containsAny [''high demand'', ''temporarily overloaded'', ''temporary overloaded'', ''capacity exceeded''] s),
     (''network'', containsAny [''network'', ''econnreset'', ''econnrefused'', ''fetch failed'', ''socket'']),
     (''timeout'', containsAny [''timeout'', ''etimedout'']),
     (''server_error'', \<lambda>s. list_ex isServerErrorCode (wordRuns s))]"

definition isTransientCronError :: "string option \<Rightarrow> string list option \<Rightarrow> bool" where
  "isTransientCronError error retryOn =
     (let e = js_or_empty error in
      if e = [] then False
      else list_ex (\<lambda>k. case map_of TRANSIENT_PATTERNS k of Some p \<Rightarrow> p (js_lower e) | None \<Rightarrow> False)
        (case retryOn of Some ks \<Rightarrow> if ks = [] then map fst TRANSIENT_PATTERNS else ks | None \<Rightarrow> map fst TRANSIENT_PATTERNS))"

record retryConfig =
  rc_maxAttempts :: int
  rc_backoffMs :: "int list"
  rc_retryOn :: "string list option"

definition resolveRetryConfig :: "cronConfig \<Rightarrow> retryConfig" where
  "resolveRetryConfig cfg = \<lparr>rc_maxAttempts = js_default (cc_retryMaxAttempts cfg) DEFAULT_MAX_TRANSIENT_RETRIES,
     rc_backoffMs = (case cc_retryBackoffMs cfg of Some bs \<Rightarrow> if bs \<noteq> [] then bs else take 3 DEFAULT_BACKOFF_SCHEDULE_MS
       | None \<Rightarrow> take 3 DEFAULT_BACKOFF_SCHEDULE_MS),
     rc_retryOn = (case cc_retryOn cfg of Some ks \<Rightarrow> if ks \<noteq> [] then Some ks else None | None \<Rightarrow> None)\<rparr>"

section \<open>Deliveries and alerts\<close>

record cronDeliveryPlan =
  dp_mode :: string
  dp_channel :: "string option"
  dp_to :: "string option"
  dp_accountId :: "string option"
  dp_fromDelivery :: bool
  dp_requested :: bool

definition trimmedText :: "string option \<Rightarrow> string option" where
  "trimmedText v = (case v of None \<Rightarrow> None | Some s \<Rightarrow> js_some (js_trim s))"

definition normalizeChannel :: "string option \<Rightarrow> string option" where
  "normalizeChannel v = map_option js_lower (trimmedText v)"

definition turnOf :: "cronPayload \<Rightarrow> agentTurn option" where
  "turnOf p = (case p of AgentTurnPayload t \<Rightarrow> Some t | _ \<Rightarrow> None)"

definition resolveCronDeliveryPlan :: "cronJob \<Rightarrow> cronDeliveryPlan" where
  "resolveCronDeliveryPlan job =
     (let payload = turnOf (cj_payload job); delivery = cj_delivery job;
          raw = map_option (\<lambda>d. js_lower (js_trim (cd_mode d))) delivery;
          mode = (case raw of
              Some m \<Rightarrow> if m \<in> {''announce'', ''deliver''} then Some ''announce''
                else if m = ''webhook'' then Some ''webhook'' else if m = ''none'' then Some ''none'' else None
            | None \<Rightarrow> None);
          payloadChannel = normalizeChannel (Option.bind payload at_channel);
          payloadTo = trimmedText (Option.bind payload at_to);
          channel = js_default (js_coalesce (normalizeChannel (Option.bind delivery cd_channel)) payloadChannel) ''last'';
          to = js_coalesce (trimmedText (Option.bind delivery cd_to)) payloadTo
      in case delivery of
           Some d \<Rightarrow>
             (let resolvedMode = js_default mode ''announce''
              in \<lparr>dp_mode = resolvedMode, dp_channel = (if resolvedMode = ''announce'' then Some channel else None), dp_to = to,
                  dp_accountId = trimmedText (cd_accountId d), dp_fromDelivery = True, dp_requested = (resolvedMode = ''announce'')\<rparr>)
         | None \<Rightarrow>
             (let deliver = Option.bind payload at_deliver;
                  requested = (deliver = Some True \<or> (deliver = None \<and> to \<noteq> None))
              in \<lparr>dp_mode = (if requested then ''announce'' else ''none''), dp_channel = Some channel, dp_to = to,
                  dp_accountId = None, dp_fromDelivery = False, dp_requested = requested\<rparr>))"

definition resolveDeliveryStatus :: "cronJob \<Rightarrow> bool option \<Rightarrow> cronDeliveryStatus" where
  "resolveDeliveryStatus job delivered = (case delivered of
     Some True \<Rightarrow> Delivered
   | Some False \<Rightarrow> NotDelivered
   | None \<Rightarrow> if dp_requested (resolveCronDeliveryPlan job) then DeliveryUnknown else DeliveryNotRequested)"

definition clampPositiveInt :: "int option \<Rightarrow> int \<Rightarrow> int" where
  "clampPositiveInt v fallback = (case v of Some n \<Rightarrow> if 1 \<le> n then n else fallback | None \<Rightarrow> fallback)"
definition clampNonNegativeInt :: "int option \<Rightarrow> int \<Rightarrow> int" where
  "clampNonNegativeInt v fallback = (case v of Some n \<Rightarrow> if 0 \<le> n then n else fallback | None \<Rightarrow> fallback)"

record alertPlan =
  ap_after :: int
  ap_cooldownMs :: int
  ap_channel :: string
  ap_to :: "string option"
  ap_mode :: "string option"
  ap_accountId :: "string option"

definition alertOf :: "cronAlertSetting \<Rightarrow> cronFailureAlert option" where
  "alertOf s = (case s of AlertOn a \<Rightarrow> Some a | _ \<Rightarrow> None)"

definition resolveFailureAlert :: "cronConfig \<Rightarrow> cronJob \<Rightarrow> alertPlan option" where
  "resolveFailureAlert cfg job =
     (let a = alertOf (cj_failureAlert job) in
      if cj_failureAlert job = AlertOff then None
      else if a = None \<and> cc_alertEnabled cfg \<noteq> Some True then None
      else (let mode = js_coalesce (Option.bind a fa_mode) (cc_alertMode cfg); explicitTo = trimmedText (Option.bind a fa_to)
        in Some \<lparr>ap_after = clampPositiveInt (js_coalesce (Option.bind a fa_after) (cc_alertAfter cfg)) DEFAULT_FAILURE_ALERT_AFTER,
             ap_cooldownMs = clampNonNegativeInt (js_coalesce (Option.bind a fa_cooldownMs) (cc_alertCooldownMs cfg))
               DEFAULT_FAILURE_ALERT_COOLDOWN_MS,
             ap_channel = js_default (js_coalesce (normalizeChannel (Option.bind a fa_channel))
               (normalizeChannel (Option.bind (cj_delivery job) cd_channel))) ''last'',
             ap_to = (if mode = Some ''webhook'' then explicitTo
               else js_coalesce explicitTo (trimmedText (Option.bind (cj_delivery job) cd_to))),
             ap_mode = mode, ap_accountId = js_coalesce (Option.bind a fa_accountId) (cc_alertAccountId cfg)\<rparr>))"

definition emitFailureAlert :: "'c cronDeps \<Rightarrow> cronJob \<Rightarrow> string option \<Rightarrow> int \<Rightarrow> alertPlan \<Rightarrow> cronEffect list" where
  "emitFailureAlert deps job error consecutiveErrors plan =
     (let name = (if cj_name job \<noteq> [] then cj_name job else cj_id job);
          trimmed = js_trim (js_or_empty error);
          shown = take 200 (if trimmed \<noteq> [] then trimmed else ''unknown error'');
          message = ''Cron job '' @ [CHR 0x22] @ name @ [CHR 0x22] @ '' failed '' @ show_int consecutiveErrors @ '' times'' @
            [CHR 0x0A] @ ''Last error: '' @ shown
      in if cx_sendsFailureAlerts deps
         then [SendFailureAlert (cj_id job) message (ap_channel plan) (ap_to plan) (ap_mode plan) (ap_accountId plan)]
         else EnqueueSystemEvent message (cj_agentId job) None None #
           (if cj_wakeMode job = WakeNow then [RequestHeartbeat (''cron:'' @ cj_id job @ '':failure-alert'') None None] else []))"

section \<open>The result of a run\<close>

record cronResult =
  cr_status :: cronStatus
  cr_error :: "string option"
  cr_delivered :: "bool option"
  cr_startedAt :: int
  cr_endedAt :: int

definition recordRun :: "'c cronDeps \<Rightarrow> cronJob \<Rightarrow> cronResult \<Rightarrow> cronJob" where
  "recordRun deps job r =
     (let status = resolveDeliveryStatus job (cr_delivered r)
      in job\<lparr>cj_updatedAtMs := cr_endedAt r,
           cj_state := (cj_state job)\<lparr>cs_runningAtMs := None, cs_lastRunAtMs := Some (cr_startedAt r),
             cs_lastRunStatus := Some (cr_status r), cs_lastStatus := Some (cr_status r),
             cs_lastDurationMs := Some (max 0 (cr_endedAt r - cr_startedAt r)), cs_lastError := cr_error r,
             cs_lastErrorReason := (if cr_status r = CronError then Option.bind (cr_error r) (cx_failoverReason deps) else None),
             cs_lastDelivered := cr_delivered r, cs_lastDeliveryStatus := Some status,
             cs_lastDeliveryError := (if status = NotDelivered then Option.bind (cr_error r) js_some else None)\<rparr>\<rparr>)"

definition isBestEffort :: "cronJob \<Rightarrow> bool" where
  "isBestEffort job \<longleftrightarrow> Option.bind (cj_delivery job) cd_bestEffort = Some True \<or>
     Option.bind (turnOf (cj_payload job)) at_bestEffortDeliver = Some True"

text \<open>Counting failures, and the alert with its cooldown.\<close>

definition noteOutcome :: "'c cronDeps \<Rightarrow> cronJob \<Rightarrow> cronResult \<Rightarrow> int \<Rightarrow> cronJob \<times> cronEffect list" where
  "noteOutcome deps job r now =
     (if cr_status r \<noteq> CronError
      then (job\<lparr>cj_state := (cj_state job)\<lparr>cs_consecutiveErrors := Some 0, cs_lastFailureAlertAtMs := None\<rparr>\<rparr>, [])
      else
        (let n = js_default (cs_consecutiveErrors (cj_state job)) 0 + 1;
             job' = job\<lparr>cj_state := (cj_state job)\<lparr>cs_consecutiveErrors := Some n\<rparr>\<rparr>
         in case resolveFailureAlert (cx_config deps) job' of
              None \<Rightarrow> (job', [])
            | Some plan \<Rightarrow>
                if n < ap_after plan \<or> isBestEffort job' then (job', [])
                else if (case cs_lastFailureAlertAtMs (cj_state job') of
                    Some l \<Rightarrow> now - l < max 0 (ap_cooldownMs plan) | None \<Rightarrow> False) then (job', [])
                else (job'\<lparr>cj_state := (cj_state job')\<lparr>cs_lastFailureAlertAtMs := Some now\<rparr>\<rparr>,
                      emitFailureAlert deps job' (cr_error r) n plan)))"

definition setNextRun :: "int option \<Rightarrow> cronJob \<Rightarrow> cronJob" where
  "setNextRun t job = job\<lparr>cj_state := (cj_state job)\<lparr>cs_nextRunAtMs := t\<rparr>\<rparr>"

definition disableJob :: "cronJob \<Rightarrow> cronJob" where
  "disableJob job = setNextRun None (job\<lparr>cj_enabled := False\<rparr>)"

text \<open>The natural next run after a run that ended; with \<open>preserve\<close> an interval is computed from the run before
  it. A schedule that cannot be evaluated is recorded.\<close>

definition naturalNextRun :: "'c cronDeps \<Rightarrow> bool \<Rightarrow> int option \<Rightarrow> cronJob \<Rightarrow> int \<Rightarrow> int option \<times> cronJob \<times> cronEffect list" where
  "naturalNextRun deps preserve prevLastRunAtMs job endedAt =
     (let seen = (if preserve \<and> isEvery (cj_schedule job)
            then job\<lparr>cj_state := (cj_state job)\<lparr>cs_lastRunAtMs := prevLastRunAtMs\<rparr>\<rparr> else job)
      in case computeJobNextRunAtMs (cx_host deps) seen endedAt of
           Inr t \<Rightarrow> (t, job, [])
         | Inl err \<Rightarrow> (case recordScheduleComputeError job err of (job', es) \<Rightarrow> (None, job', es)))"

definition laterOf :: "int option \<Rightarrow> int \<Rightarrow> int" where
  "laterOf natural least = (case natural of Some t \<Rightarrow> max t least | None \<Rightarrow> least)"

definition rescheduleOneShot :: "'c cronDeps \<Rightarrow> cronJob \<Rightarrow> cronResult \<Rightarrow> cronJob" where
  "rescheduleOneShot deps job r =
     (if cr_status r \<noteq> CronError then disableJob job
      else (let retry = resolveRetryConfig (cx_config deps); n = js_default (cs_consecutiveErrors (cj_state job)) 0
        in if isTransientCronError (cr_error r) (rc_retryOn retry) \<and> n \<le> rc_maxAttempts retry
           then setNextRun (Some (cr_endedAt r + errorBackoffMs n (rc_backoffMs retry))) job
           else disableJob job))"

definition rescheduleRecurring ::
  "'c cronDeps \<Rightarrow> bool \<Rightarrow> int option \<Rightarrow> cronJob \<Rightarrow> cronResult \<Rightarrow> cronJob \<times> cronEffect list" where
  "rescheduleRecurring deps preserve prevLastRunAtMs job r =
     (if \<not> cj_enabled job then (setNextRun None job, [])
      else (case naturalNextRun deps preserve prevLastRunAtMs job (cr_endedAt r) of (natural, job', es) \<Rightarrow>
        (if cr_status r = CronError
         then setNextRun (Some (laterOf natural (cr_endedAt r +
           errorBackoffMs (js_default (cs_consecutiveErrors (cj_state job)) 1) DEFAULT_BACKOFF_SCHEDULE_MS))) job'
         else if isCron (cj_schedule job) then setNextRun (Some (laterOf natural (cr_endedAt r + MIN_REFIRE_GAP_MS))) job'
         else setNextRun natural job', es)))"

text \<open>Whether the job is to be deleted, the job, and the effects.\<close>

definition applyJobResult :: "'c cronDeps \<Rightarrow> cronJob \<Rightarrow> cronResult \<Rightarrow> bool \<Rightarrow> int \<Rightarrow> bool \<times> cronJob \<times> cronEffect list" where
  "applyJobResult deps job r preserve now =
     (case noteOutcome deps (recordRun deps job r) r now of (job', es) \<Rightarrow>
        (if isAt (cj_schedule job) \<and> cj_deleteAfterRun job = Some True \<and> cr_status r = CronOk then (True, job', es)
         else if isAt (cj_schedule job) then (False, rescheduleOneShot deps job' r, es)
         else (case rescheduleRecurring deps preserve (cs_lastRunAtMs (cj_state job)) job' r of
           (job'', es') \<Rightarrow> (False, job'', es @ es'))))"

section \<open>Jobs to run\<close>

record runnableOpts =
  ro_skipJobIds :: "string list"
  ro_skipAtIfAlreadyRan :: bool
  ro_allowCronMissedRunByLastRun :: bool

definition tickOpts :: runnableOpts where
  "tickOpts = \<lparr>ro_skipJobIds = [], ro_skipAtIfAlreadyRan = False, ro_allowCronMissedRunByLastRun = False\<rparr>"

definition isErrorBackoffPending :: "cronJob \<Rightarrow> int \<Rightarrow> bool" where
  "isErrorBackoffPending job nowMs =
     (if isAt (cj_schedule job) \<or> cs_lastStatus (cj_state job) \<noteq> Some CronError then False
      else (case cs_lastRunAtMs (cj_state job) of
          None \<Rightarrow> False
        | Some l \<Rightarrow> nowMs < l + errorBackoffMs
            (case cs_consecutiveErrors (cj_state job) of Some n \<Rightarrow> max 1 n | None \<Rightarrow> 1) DEFAULT_BACKOFF_SCHEDULE_MS))"

definition missedSlot :: "'c cronHost \<Rightarrow> cronJob \<Rightarrow> int \<Rightarrow> bool" where
  "missedSlot h job nowMs = (case computeJobPreviousRunAtMs h job nowMs of
     Inr (Some p) \<Rightarrow> (case cs_lastRunAtMs (cj_state job) of Some l \<Rightarrow> l < p | None \<Rightarrow> False)
   | _ \<Rightarrow> False)"

definition isRunnableJob :: "'c cronHost \<Rightarrow> runnableOpts \<Rightarrow> int \<Rightarrow> cronJob \<Rightarrow> bool" where
  "isRunnableJob h opts nowMs job =
     (let st = cj_state job in
      if \<not> cj_enabled job \<or> cj_id job \<in> set (ro_skipJobIds opts) \<or> cs_runningAtMs st \<noteq> None then False
      else if ro_skipAtIfAlreadyRan opts \<and> isAt (cj_schedule job) \<and> cs_lastStatus st \<noteq> None
      then (case (cs_lastStatus st, cs_nextRunAtMs st, cs_lastRunAtMs st) of
          (Some CronError, Some n, Some l) \<Rightarrow> l < n \<and> n \<le> nowMs
        | _ \<Rightarrow> False)
      else (case cs_nextRunAtMs st of
          Some n \<Rightarrow>
            if n \<le> nowMs then True
            else if isErrorBackoffPending job nowMs then False
            else ro_allowCronMissedRunByLastRun opts \<and> isCron (cj_schedule job) \<and> missedSlot h job nowMs
        | None \<Rightarrow> ro_allowCronMissedRunByLastRun opts \<and> isCron (cj_schedule job) \<and> missedSlot h job nowMs))"

definition collectRunnableJobs :: "'c cronHost \<Rightarrow> runnableOpts \<Rightarrow> int \<Rightarrow> cronJob list \<Rightarrow> cronJob list" where
  "collectRunnableJobs h opts nowMs jobs = filter (isRunnableJob h opts nowMs) jobs"

section \<open>Failures are counted\<close>

definition failureCount :: "cronJob \<Rightarrow> int" where
  "failureCount job = js_default (cs_consecutiveErrors (cj_state job)) 0"

lemma setNextRun_simps [simp]:
  "cj_id (setNextRun t job) = cj_id job" "cj_enabled (setNextRun t job) = cj_enabled job"
  "cj_schedule (setNextRun t job) = cj_schedule job" "cs_nextRunAtMs (cj_state (setNextRun t job)) = t"
  "cs_runningAtMs (cj_state (setNextRun t job)) = cs_runningAtMs (cj_state job)"
  "cs_lastRunAtMs (cj_state (setNextRun t job)) = cs_lastRunAtMs (cj_state job)" "failureCount (setNextRun t job) = failureCount job"
  by (simp_all add: setNextRun_def failureCount_def)

lemma disableJob_simps [simp]:
  "cj_id (disableJob job) = cj_id job" "\<not> cj_enabled (disableJob job)" "cj_schedule (disableJob job) = cj_schedule job"
  "cs_nextRunAtMs (cj_state (disableJob job)) = None"
  "cs_runningAtMs (cj_state (disableJob job)) = cs_runningAtMs (cj_state job)"
  "cs_lastRunAtMs (cj_state (disableJob job)) = cs_lastRunAtMs (cj_state job)" "failureCount (disableJob job) = failureCount job"
  by (simp_all add: disableJob_def) (simp add: failureCount_def)

lemma recordRun_simps [simp]:
  "cj_id (recordRun deps job r) = cj_id job" "cj_enabled (recordRun deps job r) = cj_enabled job"
  "cj_schedule (recordRun deps job r) = cj_schedule job" "failureCount (recordRun deps job r) = failureCount job"
  "cs_runningAtMs (cj_state (recordRun deps job r)) = None"
  "cs_lastRunAtMs (cj_state (recordRun deps job r)) = Some (cr_startedAt r)"
  by (simp_all add: recordRun_def Let_def failureCount_def)

lemma noteOutcome_facts:
  assumes "noteOutcome deps job r now = (job', es)"
  shows "cj_id job' = cj_id job" "cj_enabled job' = cj_enabled job" "cj_schedule job' = cj_schedule job"
    "cs_runningAtMs (cj_state job') = cs_runningAtMs (cj_state job)" "cs_lastRunAtMs (cj_state job') = cs_lastRunAtMs (cj_state job)"
    "failureCount job' = (if cr_status r = CronError then failureCount job + 1 else 0)" "cs_consecutiveErrors (cj_state job') \<noteq> None"
  using assms
  by (auto simp: noteOutcome_def failureCount_def Let_def js_default_def split: if_splits option.splits)

lemma rescheduleOneShot_facts [simp]:
  "cj_id (rescheduleOneShot deps job r) = cj_id job" "cj_schedule (rescheduleOneShot deps job r) = cj_schedule job"
  "failureCount (rescheduleOneShot deps job r) = failureCount job"
  "cs_runningAtMs (cj_state (rescheduleOneShot deps job r)) = cs_runningAtMs (cj_state job)"
  "cj_enabled (rescheduleOneShot deps job r) \<longleftrightarrow> cj_enabled job \<and> cr_status r = CronError \<and>
     isTransientCronError (cr_error r) (rc_retryOn (resolveRetryConfig (cx_config deps))) \<and>
     failureCount job \<le> rc_maxAttempts (resolveRetryConfig (cx_config deps))"
  by (simp_all add: rescheduleOneShot_def Let_def failureCount_def [symmetric])

text \<open>The runs of a one-shot job, one after the other: each takes place while the job is there and enabled.\<close>

fun oneShotRuns :: "'c cronDeps \<Rightarrow> (cronResult \<times> bool \<times> int) list \<Rightarrow> cronJob \<Rightarrow> bool" where
  "oneShotRuns deps [] job \<longleftrightarrow> True"
| "oneShotRuns deps ((r, preserve, now) # rest) job \<longleftrightarrow> cj_enabled job \<and>
     (case applyJobResult deps job r preserve now of (deleted, job', _) \<Rightarrow>
        if deleted then rest = [] else oneShotRuns deps rest job')"

definition retried :: "'c cronDeps \<Rightarrow> cronResult \<Rightarrow> bool" where
  "retried deps r \<longleftrightarrow> cr_status r = CronError \<and>
     isTransientCronError (cr_error r) (rc_retryOn (resolveRetryConfig (cx_config deps)))"

lemma oneShot_step:
  assumes at: "isAt (cj_schedule job)" and res: "applyJobResult deps job r preserve now = (False, job', es)" "cj_enabled job'"
  shows "retried deps r \<and> isAt (cj_schedule job') \<and> failureCount job' = failureCount job + 1 \<and>
    failureCount job' \<le> rc_maxAttempts (resolveRetryConfig (cx_config deps))"
proof -
  obtain mid es1 where mid: "noteOutcome deps (recordRun deps job r) r now = (mid, es1)" by fastforce
  have "job' = rescheduleOneShot deps mid r"
    using res(1) at by (simp add: applyJobResult_def mid split: if_splits)
  with res(2) noteOutcome_facts [OF mid] at show ?thesis by (auto simp: retried_def)
qed

lemma oneShot_bound:
  assumes "isAt (cj_schedule job)" "oneShotRuns deps runs job"
  shows "int (length runs) \<le> max 0 (rc_maxAttempts (resolveRetryConfig (cx_config deps)) - failureCount job) + 1 \<and>
    list_all (\<lambda>(r, _, _). retried deps r) (butlast runs)"
  using assms
proof (induction runs arbitrary: job)
  case (Cons run rest)
  obtain r preserve now where run: "run = (r, preserve, now)" by (cases run)
  obtain deleted job' es where res: "applyJobResult deps job r preserve now = (deleted, job', es)"
    by (cases "applyJobResult deps job r preserve now")
  show ?case
  proof (cases "rest = []")
    case False
    with Cons.prems(2) have d: "\<not> deleted" and next_runs: "oneShotRuns deps rest job'"
      by (auto simp: run res split: if_splits)
    then have "cj_enabled job'" using False by (cases rest) auto
    from res d have "applyJobResult deps job r preserve now = (False, job', es)" by simp
    from oneShot_step [OF Cons.prems(1) this \<open>cj_enabled job'\<close>]
    have s: "retried deps r" "isAt (cj_schedule job')" "failureCount job' = failureCount job + 1"
      "failureCount job' \<le> rc_maxAttempts (resolveRetryConfig (cx_config deps))" by auto
    from Cons.IH [OF s(2) next_runs] s False show ?thesis by (auto simp: run)
  qed simp
qed simp

text \<open>C27: A one-shot job runs a bounded number of times while it is enabled, as it has to be to run other than by the force
  of an operator. Whatever these runs report: all of them but the last ended with an error that passes, and there are no
  more retries than configured; in particular it does not run so again after it succeeded. A job that is edited meanwhile is
  another matter: it may be enabled again; and a run by hand may be forced on a job that is disabled.\<close>

theorem oneshot_runs_bounded:
  assumes "isAt (cj_schedule job)" and "oneShotRuns deps runs job"
  shows "int (length runs) \<le> max 0 (rc_maxAttempts (resolveRetryConfig (cx_config deps)) - failureCount job) + 1 \<and>
    list_all (\<lambda>(r, _, _). cr_status r = CronError \<and>
      isTransientCronError (cr_error r) (rc_retryOn (resolveRetryConfig (cx_config deps)))) (butlast runs)"
  using oneShot_bound [OF assms] by (auto simp: retried_def list_all_iff)

definition plainConfig :: cronConfig where
  "plainConfig = \<lparr>cc_maxConcurrentRuns = None, cc_retryMaxAttempts = None, cc_retryBackoffMs = None, cc_retryOn = None,
     cc_alertEnabled = None, cc_alertAfter = None, cc_alertCooldownMs = None, cc_alertMode = None, cc_alertAccountId = None\<rparr>"

definition plainDeps :: "unit cronDeps" where
  "plainDeps = \<lparr>cx_host = hourlyHost, cx_config = plainConfig, cx_cronEnabled = True, cx_defaultAgentId = None,
     cx_missedJobStaggerMs = None, cx_maxMissedJobsPerRestart = None, cx_sendsFailureAlerts = False,
     cx_failoverReason = (\<lambda>e. None), cx_urlProtocol = (\<lambda>u. None)\<rparr>"

definition demoJob :: "string \<Rightarrow> cronSchedule \<Rightarrow> int option \<Rightarrow> cronJob" where
  "demoJob jobId schedule nextRun = \<lparr>cj_id = jobId, cj_agentId = None, cj_sessionKey = None, cj_name = ''demo'',
     cj_description = None, cj_enabled = True, cj_deleteAfterRun = None, cj_createdAtMs = 0, cj_updatedAtMs = 0,
     cj_schedule = schedule, cj_sessionTarget = ''main'', cj_wakeMode = WakeNextHeartbeat, cj_payload = SystemEventPayload ''hi'',
     cj_delivery = None, cj_failureAlert = AlertUnset, cj_state = emptyJobState\<lparr>cs_nextRunAtMs := nextRun\<rparr>\<rparr>"

definition failed :: "string \<Rightarrow> int \<Rightarrow> cronResult" where
  "failed e t = \<lparr>cr_status = CronError, cr_error = Some e, cr_delivered = None, cr_startedAt = t, cr_endedAt = t + 10\<rparr>"
definition succeeded :: "int \<Rightarrow> cronResult" where
  "succeeded t = \<lparr>cr_status = CronOk, cr_error = None, cr_delivered = None, cr_startedAt = t, cr_endedAt = t + 10\<rparr>"

definition demoRuns :: "(cronResult \<times> bool \<times> int) list" where
  "demoRuns = [(failed ''HTTP 429'' 100, False, 110), (failed ''socket closed'' 200, False, 210),
     (failed ''503 Service'' 300, False, 310), (failed ''timeout'' 400, False, 410)]"

theorem oneshot_runs_bounded_witness:
  "oneShotRuns plainDeps demoRuns (demoJob ''j'' (SchedAt JUndef (JNum 100)) (Some 100)) \<and>
   int (length demoRuns) = 4 \<and> int (length demoRuns) \<le> max 0 (rc_maxAttempts (resolveRetryConfig plainConfig) - 0) + 1"
proof -
  have runs: "oneShotRuns plainDeps demoRuns (demoJob ''j'' (SchedAt JUndef (JNum 100)) (Some 100))" by code_simp
  have at: "isAt (cj_schedule (demoJob ''j'' (SchedAt JUndef (JNum 100)) (Some 100)))" by (simp add: demoJob_def)
  have "failureCount (demoJob ''j'' (SchedAt JUndef (JNum 100)) (Some 100)) = 0" "cx_config plainDeps = plainConfig"
    by (simp_all add: failureCount_def demoJob_def emptyJobState_def plainDeps_def js_default_def)
  with oneshot_runs_bounded [OF at runs] runs show ?thesis by (simp add: demoRuns_def)
qed

section \<open>The next run after a result\<close>

lemma recordScheduleComputeError_facts:
  assumes "recordScheduleComputeError job err = (job', es)"
  shows "cj_id job' = cj_id job" "cj_enabled job' \<Longrightarrow> cj_enabled job" "cj_schedule job' = cj_schedule job"
    "cs_runningAtMs (cj_state job') = cs_runningAtMs (cj_state job)" "failureCount job' = failureCount job"
    "cs_lastRunAtMs (cj_state job') = cs_lastRunAtMs (cj_state job)"
  using assms by (auto simp: recordScheduleComputeError_def failureCount_def Let_def split: if_splits)

lemma naturalNextRun_facts:
  assumes "naturalNextRun deps preserve prev job endedAt = (t, job', es)"
  shows "cj_id job' = cj_id job" "cj_enabled job' \<Longrightarrow> cj_enabled job" "cj_schedule job' = cj_schedule job"
    "cs_runningAtMs (cj_state job') = cs_runningAtMs (cj_state job)" "failureCount job' = failureCount job"
    "cs_lastRunAtMs (cj_state job') = cs_lastRunAtMs (cj_state job)"
  using assms recordScheduleComputeError_facts [of job]
  by (auto simp: naturalNextRun_def Let_def split: sum.splits prod.splits)

lemma rescheduleRecurring_facts:
  assumes "rescheduleRecurring deps preserve prev job r = (job', es)"
  shows "cj_id job' = cj_id job" "cj_enabled job' \<Longrightarrow> cj_enabled job" "cj_schedule job' = cj_schedule job"
    "cs_runningAtMs (cj_state job') = cs_runningAtMs (cj_state job)" "failureCount job' = failureCount job"
    "cs_lastRunAtMs (cj_state job') = cs_lastRunAtMs (cj_state job)"
  using assms naturalNextRun_facts [of deps preserve prev job]
  by (auto simp: rescheduleRecurring_def split: if_splits prod.splits)

lemma applyJobResult_facts:
  assumes "applyJobResult deps job r preserve now = (deleted, job', es)"
  shows "cj_id job' = cj_id job" "cj_enabled job' \<Longrightarrow> cj_enabled job" "cj_schedule job' = cj_schedule job"
    "cs_runningAtMs (cj_state job') = None"
    "failureCount job' = (if cr_status r = CronError then failureCount job + 1 else 0)"
proof -
  obtain mid es1 where mid: "noteOutcome deps (recordRun deps job r) r now = (mid, es1)" by fastforce
  note f = noteOutcome_facts [OF mid]
  consider "job' = mid" | "job' = rescheduleOneShot deps mid r"
    | es2 where "rescheduleRecurring deps preserve (cs_lastRunAtMs (cj_state job)) mid r = (job', es2)"
    using assms by (auto simp: applyJobResult_def mid split: if_splits prod.splits)
  then have "cj_id job' = cj_id job \<and> (cj_enabled job' \<longrightarrow> cj_enabled job) \<and> cj_schedule job' = cj_schedule job \<and>
    cs_runningAtMs (cj_state job') = None \<and> failureCount job' = (if cr_status r = CronError then failureCount job + 1 else 0)"
  proof cases
    case 3
    from rescheduleRecurring_facts [OF 3] show ?thesis by (simp add: f) 
  qed (simp_all add: f)
  then show "cj_id job' = cj_id job" "cj_enabled job' \<Longrightarrow> cj_enabled job" "cj_schedule job' = cj_schedule job"
    "cs_runningAtMs (cj_state job') = None"
    "failureCount job' = (if cr_status r = CronError then failureCount job + 1 else 0)"
    by blast+
qed

lemma naturalNextRun_future:
  assumes "naturalNextRun deps preserve prev job endedAt = (Some t, job', es)" "\<not> isAt (cj_schedule job)"
  shows "endedAt \<le> t"
proof -
  let ?seen = "if preserve \<and> isEvery (cj_schedule job)
            then job\<lparr>cj_state := (cj_state job)\<lparr>cs_lastRunAtMs := prev\<rparr>\<rparr> else job"
  have "computeJobNextRunAtMs (cx_host deps) ?seen endedAt = Inr (Some t)"
    using assms(1) by (auto simp: naturalNextRun_def Let_def split: sum.splits prod.splits)
  moreover have "cj_schedule ?seen = cj_schedule job" by simp
  ultimately show ?thesis using job_next_future [of "cx_host deps" ?seen endedAt t] assms(2) by (auto split: if_splits)
qed

definition runGap :: "cronJob \<Rightarrow> cronResult \<Rightarrow> int" where
  "runGap job r =
     (if cr_status r = CronError then errorBackoffMs (failureCount job + 1) DEFAULT_BACKOFF_SCHEDULE_MS
      else if isCron (cj_schedule job) then MIN_REFIRE_GAP_MS else 0)"

lemma errorBackoffMs_default:
  "30000 \<le> errorBackoffMs n DEFAULT_BACKOFF_SCHEDULE_MS \<and> errorBackoffMs n DEFAULT_BACKOFF_SCHEDULE_MS \<le> 3600000"
proof -
  let ?i = "max 0 (min (n - 1) 4)"
  have "?i \<in> {0, 1, 2, 3, 4}" by (simp, arith)
  then show ?thesis
    by (elim insertE emptyE)
      (simp_all only: errorBackoffMs_def DEFAULT_BACKOFF_SCHEDULE_MS_def, simp_all add: max_def min_def split: if_splits)
qed

lemma errorBackoffMs_mono:
  assumes "n \<le> m"
  shows "errorBackoffMs n DEFAULT_BACKOFF_SCHEDULE_MS \<le> errorBackoffMs m DEFAULT_BACKOFF_SCHEDULE_MS"
proof -
  have sorted: "sorted DEFAULT_BACKOFF_SCHEDULE_MS" "length DEFAULT_BACKOFF_SCHEDULE_MS = 5"
    by (simp_all add: DEFAULT_BACKOFF_SCHEDULE_MS_def)
  show ?thesis unfolding errorBackoffMs_def using assms sorted
    by (intro sorted_nth_mono) auto
qed

text \<open>C28: A recurring job does not run in a tight loop. After a result it is not deleted, and its next run lies
  beyond the end of this one: after an error by the back-off for its errors in a row, which is at least half a
  minute and grows with them, after a success by two seconds for a cron expression; a schedule that cannot be
  evaluated does not shorten this. Only an interval that is no number leaves it without a next run. The errors
  in a row are counted, and a success starts anew.\<close>

theorem recurring_run_spacing:
  assumes "\<not> isAt (cj_schedule job)" "cj_enabled job" and res: "applyJobResult deps job r preserve now = (deleted, job', es)"
  shows "\<not> deleted \<and>
    (case cs_nextRunAtMs (cj_state job') of
       None \<Rightarrow> isEvery (cj_schedule job) \<and> cr_status r \<noteq> CronError
     | Some t \<Rightarrow> cr_endedAt r + runGap job r \<le> t) \<and>
    (if cr_status r = CronError then 30000 \<le> runGap job r \<and> failureCount job' = failureCount job + 1 else failureCount job' = 0)"
proof -
  obtain mid es1 where mid: "noteOutcome deps (recordRun deps job r) r now = (mid, es1)" by fastforce
  note f = noteOutcome_facts [OF mid, simplified]
  have c: "js_default (cs_consecutiveErrors (cj_state mid)) 1 = failureCount mid"
    using f(7) by (auto simp: failureCount_def js_default_def split: option.splits)
  obtain es2 where rec: "rescheduleRecurring deps preserve (cs_lastRunAtMs (cj_state job)) mid r = (job', es2)" and del: "\<not> deleted"
    using res assms(1) by (auto simp: applyJobResult_def mid split: prod.splits)
  obtain natural mid2 es3 where nat: "naturalNextRun deps preserve (cs_lastRunAtMs (cj_state job)) mid (cr_endedAt r) = (natural, mid2, es3)"
    by (cases "naturalNextRun deps preserve (cs_lastRunAtMs (cj_state job)) mid (cr_endedAt r)")
  have future: "natural = Some t \<Longrightarrow> cr_endedAt r \<le> t" for t
    using naturalNextRun_future [of deps preserve _ mid] nat assms(1) by (simp add: f)
  have "isCron (cj_schedule job) \<or> isEvery (cj_schedule job)"
    using assms(1) by (cases "cj_schedule job") simp_all
  then have next_run: "case cs_nextRunAtMs (cj_state job') of
       None \<Rightarrow> isEvery (cj_schedule job) \<and> cr_status r \<noteq> CronError
     | Some t \<Rightarrow> cr_endedAt r + runGap job r \<le> t"
    using rec assms(2) future
    by (auto simp: rescheduleRecurring_def nat f c runGap_def laterOf_def max_def split: if_splits option.splits)
  have "30000 \<le> runGap job r" if "cr_status r = CronError"
    using that errorBackoffMs_default by (simp add: runGap_def)
  with applyJobResult_facts(5) [OF res] del next_run show ?thesis by simp
qed

theorem recurring_run_spacing_witness:
  "case applyJobResult plainDeps ((demoJob ''j'' (SchedEvery (JNum 1000) JUndef) (Some 100))\<lparr>cj_state :=
       emptyJobState\<lparr>cs_consecutiveErrors := Some 2\<rparr>\<rparr>) (failed ''boom'' 100) False 110 of
     (deleted, job', _) \<Rightarrow> \<not> deleted \<and> cs_nextRunAtMs (cj_state job') = Some 300110 \<and> failureCount job' = 3"
proof -
  let ?job = "(demoJob ''j'' (SchedEvery (JNum 1000) JUndef) (Some 100))\<lparr>cj_state := emptyJobState\<lparr>cs_consecutiveErrors := Some 2\<rparr>\<rparr>"
  obtain deleted job' es where res: "applyJobResult plainDeps ?job (failed ''boom'' 100) False 110 = (deleted, job', es)"
    by (cases "applyJobResult plainDeps ?job (failed ''boom'' 100) False 110")
  have "cs_nextRunAtMs (cj_state (fst (snd (applyJobResult plainDeps ?job (failed ''boom'' 100) False 110)))) = Some 300110"
    by code_simp
  then have t: "cs_nextRunAtMs (cj_state job') = Some 300110" by (simp add: res)
  have "failureCount ?job = 2" "cr_status (failed ''boom'' 100) = CronError" "\<not> isAt (cj_schedule ?job)" "cj_enabled ?job"
    by (simp_all add: failureCount_def emptyJobState_def failed_def demoJob_def js_default_def)
  with recurring_run_spacing [OF _ _ res] t show ?thesis by (simp add: res)
qed

text \<open>An alert comes after as many failures in a row as configured, and within a row of failures not before its
  cooldown is over.\<close>

lemma alert_spacing:
  assumes "noteOutcome deps job r now = (job', e # es)" "resolveFailureAlert (cx_config deps) job = Some plan"
  shows "cr_status r = CronError \<and> ap_after plan \<le> failureCount job + 1 \<and> \<not> isBestEffort job \<and>
    cs_lastFailureAlertAtMs (cj_state job') = Some now \<and>
    (case cs_lastFailureAlertAtMs (cj_state job) of Some l \<Rightarrow> ap_cooldownMs plan \<le> now - l | None \<Rightarrow> True)"
proof -
  have same: "resolveFailureAlert cfg (job\<lparr>cj_state := s\<rparr>) = resolveFailureAlert cfg job" "isBestEffort (job\<lparr>cj_state := s\<rparr>) = isBestEffort job"
    for cfg s by (simp_all add: resolveFailureAlert_def isBestEffort_def Let_def cong: if_cong)
  show ?thesis using assms
    by (auto simp: noteOutcome_def Let_def same failureCount_def split: if_splits option.splits)
qed

end
