(* ===== verification/Cron_Edits.thy ===== *)
theory Cron_Edits
  imports Cron_Jobs
begin

text \<open>
  Creating and changing jobs: \<open>createJob\<close> and \<open>applyJobPatch\<close> of \<open>src/cron/service/jobs.ts\<close> with the merges
  of payloads, deliveries and alerts. A patch changes the job in place, so it is a sequence of steps that
  each may throw, and what was changed before stays changed.
\<close>

section \<open>Patches\<close>

text \<open>A field that may be in the patch with no value is an option of an option.\<close>

record agentTurnPatch =
  tp_message :: "string option"
  tp_model :: "string option"
  tp_fallbacks :: "string list option"
  tp_thinking :: "string option"
  tp_timeoutSeconds :: "int option"
  tp_allowUnsafeExternalContent :: "bool option"
  tp_lightContext :: "bool option"
  tp_deliver :: "bool option"
  tp_channel :: "string option"
  tp_to :: "string option"
  tp_bestEffortDeliver :: "bool option"

datatype cronPayloadPatch = SystemEventPatch "string option" | AgentTurnPatch agentTurnPatch

record failureDestinationPatch =
  fp_channel :: "jsv option"
  fp_to :: "jsv option"
  fp_accountId :: "jsv option"
  fp_mode :: "jsv option"

record cronDeliveryPatch =
  dq_mode :: "string option"
  dq_channel :: "jsv option"
  dq_to :: "jsv option"
  dq_accountId :: "jsv option"
  dq_bestEffort :: "bool option"
  dq_failureDestination :: "failureDestinationPatch option option"

record cronAlertPatch =
  lp_after :: "jsv option"
  lp_channel :: "jsv option"
  lp_to :: "jsv option"
  lp_cooldownMs :: "jsv option"
  lp_mode :: "jsv option"
  lp_accountId :: "jsv option"

datatype cronAlertChange = NoAlertChange | AlertChangeOff | AlertChange cronAlertPatch

record cronJobPatch =
  jp_name :: "jsv option"
  jp_description :: "jsv option"
  jp_enabled :: "bool option"
  jp_deleteAfterRun :: "bool option"
  jp_schedule :: "cronSchedule option"
  jp_sessionTarget :: "string option"
  jp_wakeMode :: "cronWakeMode option"
  jp_payload :: "cronPayloadPatch option"
  jp_delivery :: "cronDeliveryPatch option"
  jp_failureAlert :: cronAlertChange
  jp_state :: "cronJobState \<Rightarrow> cronJobState"
  jp_agentId :: "jsv option"
  jp_sessionKey :: "jsv option"

definition emptyPatch :: cronJobPatch where
  "emptyPatch = \<lparr>jp_name = None, jp_description = None, jp_enabled = None, jp_deleteAfterRun = None, jp_schedule = None,
     jp_sessionTarget = None, jp_wakeMode = None, jp_payload = None, jp_delivery = None, jp_failureAlert = NoAlertChange,
     jp_state = (\<lambda>s. s), jp_agentId = None, jp_sessionKey = None\<rparr>"

section \<open>Merges\<close>

definition buildPayloadFromPatch :: "cronPayloadPatch \<Rightarrow> string + cronPayload" where
  "buildPayloadFromPatch patch = (case patch of
     SystemEventPatch txt \<Rightarrow>
       (case txt of Some s \<Rightarrow> if s \<noteq> [] then Inr (SystemEventPayload s)
            else Inl ''cron.update payload.kind=\"systemEvent\" requires text''
        | None \<Rightarrow> Inl ''cron.update payload.kind=\"systemEvent\" requires text'')
   | AgentTurnPatch p \<Rightarrow>
       (case tp_message p of
          Some m \<Rightarrow> if m \<noteq> []
            then Inr (AgentTurnPayload \<lparr>at_message = m, at_model = tp_model p, at_fallbacks = None, at_thinking = tp_thinking p,
              at_timeoutSeconds = tp_timeoutSeconds p, at_allowUnsafeExternalContent = tp_allowUnsafeExternalContent p,
              at_lightContext = tp_lightContext p, at_deliver = tp_deliver p, at_channel = tp_channel p, at_to = tp_to p,
              at_bestEffortDeliver = tp_bestEffortDeliver p\<rparr>)
            else Inl ''cron.update payload.kind=\"agentTurn\" requires message''
        | None \<Rightarrow> Inl ''cron.update payload.kind=\"agentTurn\" requires message''))"

definition mergeCronPayload :: "cronPayload \<Rightarrow> cronPayloadPatch \<Rightarrow> string + cronPayload" where
  "mergeCronPayload existing patch = (case (existing, patch) of
     (SystemEventPayload old, SystemEventPatch txt) \<Rightarrow> Inr (SystemEventPayload (js_default txt old))
   | (AgentTurnPayload t, AgentTurnPatch p) \<Rightarrow>
       Inr (AgentTurnPayload (t\<lparr>at_message := js_default (tp_message p) (at_message t),
         at_model := js_coalesce (tp_model p) (at_model t), at_thinking := js_coalesce (tp_thinking p) (at_thinking t),
         at_timeoutSeconds := js_coalesce (tp_timeoutSeconds p) (at_timeoutSeconds t),
         at_lightContext := js_coalesce (tp_lightContext p) (at_lightContext t),
         at_allowUnsafeExternalContent := js_coalesce (tp_allowUnsafeExternalContent p) (at_allowUnsafeExternalContent t),
         at_deliver := js_coalesce (tp_deliver p) (at_deliver t), at_channel := js_coalesce (tp_channel p) (at_channel t),
         at_to := js_coalesce (tp_to p) (at_to t),
         at_bestEffortDeliver := js_coalesce (tp_bestEffortDeliver p) (at_bestEffortDeliver t)\<rparr>))
   | _ \<Rightarrow> buildPayloadFromPatch patch)"

definition emptyDeliveryPatch :: cronDeliveryPatch where
  "emptyDeliveryPatch = \<lparr>dq_mode = None, dq_channel = None, dq_to = None, dq_accountId = None, dq_bestEffort = None,
     dq_failureDestination = None\<rparr>"

definition buildLegacyDeliveryPatch :: "agentTurnPatch \<Rightarrow> cronDeliveryPatch option" where
  "buildLegacyDeliveryPatch p =
     (let toRaw = (case tp_to p of Some s \<Rightarrow> js_trim s | None \<Rightarrow> []) in
      if tp_deliver p = None \<and> tp_bestEffortDeliver p = None \<and> toRaw = [] then None
      else Some (emptyDeliveryPatch\<lparr>
        dq_mode := (if tp_deliver p = Some False then Some ''none''
          else if tp_deliver p = Some True \<or> toRaw \<noteq> [] then Some ''announce'' else None),
        dq_channel := (case tp_channel p of None \<Rightarrow> None
          | Some c \<Rightarrow> Some (let ch = js_lower (js_trim c) in if ch \<noteq> [] then JStr ch else JUndef)),
        dq_to := map_option (\<lambda>s. JStr (js_trim s)) (tp_to p),
        dq_bestEffort := tp_bestEffortDeliver p\<rparr>))"

definition patchField :: "jsv option \<Rightarrow> string option \<Rightarrow> string option" where
  "patchField v existing = (case v of None \<Rightarrow> existing | Some x \<Rightarrow> normalizeOptionalTrimmedString x)"

definition patchAlertMode :: "jsv option \<Rightarrow> string option \<Rightarrow> string option" where
  "patchAlertMode v existing = (case v of None \<Rightarrow> existing
     | Some x \<Rightarrow> (case normalizeOptionalTrimmedString x of
         Some m \<Rightarrow> if m \<in> {''announce'', ''webhook''} then Some m else None
       | None \<Rightarrow> None))"

definition mergeFailureDestination ::
  "cronFailureDestination option \<Rightarrow> failureDestinationPatch option option \<Rightarrow> cronFailureDestination option" where
  "mergeFailureDestination existing patch = (case patch of
     None \<Rightarrow> existing
   | Some None \<Rightarrow> None
   | Some (Some p) \<Rightarrow> Some \<lparr>cfd_channel = patchField (fp_channel p) (Option.bind existing cfd_channel),
       cfd_to = patchField (fp_to p) (Option.bind existing cfd_to),
       cfd_accountId = patchField (fp_accountId p) (Option.bind existing cfd_accountId),
       cfd_mode = patchAlertMode (fp_mode p) (Option.bind existing cfd_mode)\<rparr>)"

definition mergeCronDelivery :: "cronDelivery option \<Rightarrow> cronDeliveryPatch \<Rightarrow> cronDelivery" where
  "mergeCronDelivery existing p = \<lparr>
     cd_mode = (case dq_mode p of Some m \<Rightarrow> if m = ''deliver'' then ''announce'' else m
       | None \<Rightarrow> js_default (map_option cd_mode existing) ''none''),
     cd_channel = patchField (dq_channel p) (Option.bind existing cd_channel),
     cd_to = patchField (dq_to p) (Option.bind existing cd_to),
     cd_accountId = patchField (dq_accountId p) (Option.bind existing cd_accountId),
     cd_bestEffort = js_coalesce (dq_bestEffort p) (Option.bind existing cd_bestEffort),
     cd_failureDestination = mergeFailureDestination (Option.bind existing cd_failureDestination) (dq_failureDestination p)\<rparr>"

definition mergeCronFailureAlert :: "cronAlertSetting \<Rightarrow> cronAlertChange \<Rightarrow> cronAlertSetting" where
  "mergeCronFailureAlert existing change = (case change of
     AlertChangeOff \<Rightarrow> AlertOff
   | NoAlertChange \<Rightarrow> existing
   | AlertChange p \<Rightarrow>
       (let base = (case existing of AlertOn a \<Rightarrow> a
          | _ \<Rightarrow> \<lparr>fa_after = None, fa_channel = None, fa_to = None, fa_cooldownMs = None, fa_mode = None, fa_accountId = None\<rparr>)
        in AlertOn \<lparr>
          fa_after = (case lp_after p of None \<Rightarrow> fa_after base
            | Some (JNum n) \<Rightarrow> if 0 < n then Some n else None | Some _ \<Rightarrow> None),
          fa_channel = patchField (lp_channel p) (fa_channel base), fa_to = patchField (lp_to p) (fa_to base),
          fa_cooldownMs = (case lp_cooldownMs p of None \<Rightarrow> fa_cooldownMs base
            | Some (JNum n) \<Rightarrow> if 0 \<le> n then Some n else None | Some _ \<Rightarrow> None),
          fa_mode = patchAlertMode (lp_mode p) (fa_mode base),
          fa_accountId = patchField (lp_accountId p) (fa_accountId base)\<rparr>))"

section \<open>Changing a job\<close>

definition patchSchedule :: "cronSchedule \<Rightarrow> cronSchedule \<Rightarrow> cronSchedule" where
  "patchSchedule existing s = (case s of
     SchedCron expr cron tz stagger \<Rightarrow>
       (case normalizeCronStaggerMs stagger of
          Some n \<Rightarrow> SchedCron expr cron tz (JNum n)
        | None \<Rightarrow> (case existing of
            SchedCron _ _ _ old \<Rightarrow> SchedCron expr cron tz old
          | _ \<Rightarrow> (case resolveDefaultCronStaggerMs (case expr of JStr e \<Rightarrow> e | _ \<Rightarrow> []) of
              Some n \<Rightarrow> SchedCron expr cron tz (JNum n)
            | None \<Rightarrow> s)))
   | _ \<Rightarrow> s)"

definition patchFields1 :: "cronJobPatch \<Rightarrow> cronJob \<Rightarrow> cronJob" where
  "patchFields1 p job = job\<lparr>
     cj_description := (case jp_description p of Some v \<Rightarrow> normalizeOptionalText v | None \<Rightarrow> cj_description job),
     cj_enabled := js_default (jp_enabled p) (cj_enabled job),
     cj_deleteAfterRun := js_coalesce (jp_deleteAfterRun p) (cj_deleteAfterRun job),
     cj_schedule := (case jp_schedule p of Some s \<Rightarrow> patchSchedule (cj_schedule job) s | None \<Rightarrow> cj_schedule job),
     cj_sessionTarget := (case jp_sessionTarget p of Some t \<Rightarrow> if t \<noteq> [] then t else cj_sessionTarget job | None \<Rightarrow> cj_sessionTarget job),
     cj_wakeMode := js_default (jp_wakeMode p) (cj_wakeMode job)\<rparr>"

definition patchName :: "cronJobPatch \<Rightarrow> jobCheck" where
  "patchName p job = (case jp_name p of None \<Rightarrow> (job, None)
     | Some v \<Rightarrow> (case normalizeRequiredName v of Inl e \<Rightarrow> (job, Some e) | Inr n \<Rightarrow> (job\<lparr>cj_name := n\<rparr>, None)))"

definition patchPayload :: "cronJobPatch \<Rightarrow> jobCheck" where
  "patchPayload p job = (case jp_payload p of None \<Rightarrow> (job, None)
     | Some v \<Rightarrow> (case mergeCronPayload (cj_payload job) v of Inl e \<Rightarrow> (job, Some e) | Inr n \<Rightarrow> (job\<lparr>cj_payload := n\<rparr>, None)))"

definition patchLegacyDelivery :: "cronJobPatch \<Rightarrow> cronJob \<Rightarrow> cronJob" where
  "patchLegacyDelivery p job = (case (jp_delivery p, jp_payload p) of
     (None, Some (AgentTurnPatch t)) \<Rightarrow>
       (case buildLegacyDeliveryPatch t of
          Some d \<Rightarrow> if isIsolatedLike (cj_sessionTarget job) \<and> isAgentTurn (cj_payload job)
            then job\<lparr>cj_delivery := Some (mergeCronDelivery (cj_delivery job) d)\<rparr> else job
        | None \<Rightarrow> job)
   | _ \<Rightarrow> job)"

definition patchDelivery :: "cronJobPatch \<Rightarrow> cronJob \<Rightarrow> cronJob" where
  "patchDelivery p job =
     (let job' = (case jp_delivery p of Some d \<Rightarrow> job\<lparr>cj_delivery := Some (mergeCronDelivery (cj_delivery job) d)\<rparr>
        | None \<Rightarrow> patchLegacyDelivery p job)
      in job'\<lparr>cj_failureAlert := mergeCronFailureAlert (cj_failureAlert job') (jp_failureAlert p)\<rparr>)"

definition checkMainDelivery :: jobCheck where
  "checkMainDelivery job =
     (if cj_sessionTarget job = ''main'' \<and> deliveryMode job \<noteq> Some ''webhook''
      then (if jobFailureDestination job \<noteq> None then (job, Some failureDestinationError) else (job\<lparr>cj_delivery := None\<rparr>, None))
      else (job, None))"

definition patchFields2 :: "cronJobPatch \<Rightarrow> cronJob \<Rightarrow> cronJob" where
  "patchFields2 p job = job\<lparr>cj_state := jp_state p (cj_state job),
     cj_agentId := (case jp_agentId p of Some v \<Rightarrow> normalizeOptionalAgentId v | None \<Rightarrow> cj_agentId job),
     cj_sessionKey := (case jp_sessionKey p of Some v \<Rightarrow> normalizeOptionalSessionKey v | None \<Rightarrow> cj_sessionKey job)\<rparr>"

definition pureStep :: "(cronJob \<Rightarrow> cronJob) \<Rightarrow> jobCheck" where
  "pureStep f job = (f job, None)"

definition applyJobPatch :: "(string \<Rightarrow> string option) \<Rightarrow> string option \<Rightarrow> cronJobPatch \<Rightarrow> jobCheck" where
  "applyJobPatch protocol defaultAgentId p = runChecks
     ([patchName p, pureStep (patchFields1 p), patchPayload p, pureStep (patchDelivery p), checkMainDelivery,
       pureStep (patchFields2 p)] @ jobChecks protocol defaultAgentId)"

section \<open>Creating a job\<close>

record cronJobCreate =
  cr8_agentId :: jsv
  cr8_sessionKey :: jsv
  cr8_name :: jsv
  cr8_description :: jsv
  cr8_enabled :: "bool option"
  cr8_deleteAfterRun :: "bool option"
  cr8_schedule :: cronSchedule
  cr8_sessionTarget :: string
  cr8_wakeMode :: cronWakeMode
  cr8_payload :: cronPayload
  cr8_delivery :: "cronDelivery option"
  cr8_failureAlert :: cronAlertSetting
  cr8_state :: "cronJobState \<Rightarrow> cronJobState"

definition resolveInitialCronDelivery :: "cronJobCreate \<Rightarrow> cronDelivery option" where
  "resolveInitialCronDelivery i = (case cr8_delivery i of
     Some d \<Rightarrow> Some d
   | None \<Rightarrow> if cr8_sessionTarget i = ''isolated'' \<and> isAgentTurn (cr8_payload i)
       then Some \<lparr>cd_mode = ''announce'', cd_channel = None, cd_to = None, cd_accountId = None, cd_bestEffort = None,
         cd_failureDestination = None\<rparr> else None)"

definition initialSchedule :: "cronSchedule \<Rightarrow> int \<Rightarrow> cronSchedule" where
  "initialSchedule s now = (case s of
     SchedEvery e a \<Rightarrow> SchedEvery e (JNum (resolveEveryAnchorMs a now))
   | SchedCron _ _ _ _ \<Rightarrow> patchSchedule (SchedAt JUndef JUndef) s
   | SchedAt _ _ \<Rightarrow> s)"

definition newJob :: "string \<Rightarrow> int \<Rightarrow> string \<Rightarrow> cronJobCreate \<Rightarrow> cronJob" where
  "newJob newId now name i =
     (let schedule = initialSchedule (cr8_schedule i) now in
      \<lparr>cj_id = newId, cj_agentId = normalizeOptionalAgentId (cr8_agentId i),
        cj_sessionKey = normalizeOptionalSessionKey (cr8_sessionKey i), cj_name = name,
        cj_description = normalizeOptionalText (cr8_description i), cj_enabled = js_default (cr8_enabled i) True,
        cj_deleteAfterRun = js_coalesce (cr8_deleteAfterRun i) (if isAt schedule then Some True else None),
        cj_createdAtMs = now, cj_updatedAtMs = now, cj_schedule = schedule, cj_sessionTarget = cr8_sessionTarget i,
        cj_wakeMode = cr8_wakeMode i, cj_payload = cr8_payload i, cj_delivery = resolveInitialCronDelivery i,
        cj_failureAlert = cr8_failureAlert i, cj_state = cr8_state i emptyJobState\<rparr>)"

text \<open>The new job or the error.\<close>

definition createJob ::
  "'c cronHost \<Rightarrow> (string \<Rightarrow> string option) \<Rightarrow> string option \<Rightarrow> string \<Rightarrow> int \<Rightarrow> cronJobCreate \<Rightarrow> string + cronJob" where
  "createJob h protocol defaultAgentId newId now i =
     err_bind (normalizeRequiredName (cr8_name i)) (\<lambda>name.
       case runChecks (jobChecks protocol defaultAgentId) (newJob newId now name i) of
         (_, Some e) \<Rightarrow> Inl e
       | (job', None) \<Rightarrow>
           err_bind (computeJobNextRunAtMs h job' now) (\<lambda>t.
             Inr (job'\<lparr>cj_state := (cj_state job')\<lparr>cs_nextRunAtMs := t\<rparr>\<rparr>)))"

end
