(* ===== verification/Cron_Service.thy ===== *)
theory Cron_Service
  imports Cron_Results Cron_Edits
begin

text \<open>
  The scheduler: the tick, the catch-up after a restart and the timer of \<open>src/cron/service/timer.ts\<close>, the
  operations of \<open>service/ops.ts\<close> and the loading of \<open>service/store.ts\<close>. The store in memory and the file are
  two lists of jobs. What happens under the lock of the store is one function; a run happens between two of
  them, so that anything may come in between. The clock is an argument at each place that reads it.
\<close>

section \<open>State\<close>

text \<open>A reload replaces the objects of the store, so that a reference from before it is one to no job of the
  store: \<open>cv_loads\<close> counts the reloads. The timer is the delay it was armed with.\<close>

record cronService =
  cv_store :: "cronJob list option"
  cv_disk :: "cronJob list"
  cv_loads :: nat
  cv_timer :: "int option"
  cv_running :: bool

definition serviceJobs :: "cronService \<Rightarrow> cronJob list" where
  "serviceJobs sv = js_default (cv_store sv) []"

definition setJobs :: "cronJob list \<Rightarrow> cronService \<Rightarrow> cronService" where
  "setJobs jobs sv = sv\<lparr>cv_store := Some jobs\<rparr>"

definition updateJob :: "string \<Rightarrow> (cronJob \<Rightarrow> cronJob) \<Rightarrow> cronJob list \<Rightarrow> cronJob list" where
  "updateJob jobId f jobs = map (\<lambda>j. if cj_id j = jobId then f j else j) jobs"

definition ensureLoaded :: "'c cronHost \<Rightarrow> bool \<Rightarrow> bool \<Rightarrow> int \<Rightarrow> cronService \<Rightarrow> cronService \<times> cronEffect list" where
  "ensureLoaded h forceReload skipRecompute now sv =
     (if cv_store sv \<noteq> None \<and> \<not> forceReload then (sv, [])
      else (let sv' = sv\<lparr>cv_store := Some (cv_disk sv), cv_loads := Suc (cv_loads sv)\<rparr>
        in if skipRecompute then (sv', [])
           else (case recomputeNextRuns h now (cv_disk sv) of (jobs, _, es) \<Rightarrow> (setJobs jobs sv', es))))"

definition persist :: "cronService \<Rightarrow> cronService" where
  "persist sv = (case cv_store sv of None \<Rightarrow> sv | Some jobs \<Rightarrow> sv\<lparr>cv_disk := jobs\<rparr>)"

definition maintain :: "'c cronHost \<Rightarrow> bool \<Rightarrow> int \<Rightarrow> cronService \<Rightarrow> cronService \<times> bool \<times> cronEffect list" where
  "maintain h recomputeExpired now sv = (case cv_store sv of
     None \<Rightarrow> (sv, False, [])
   | Some jobs \<Rightarrow> (case recomputeNextRunsForMaintenance h recomputeExpired now jobs of
       (jobs', changed, es) \<Rightarrow> (setJobs jobs' sv, changed, es)))"

section \<open>The timer\<close>

definition armTimer :: "'c cronDeps \<Rightarrow> int \<Rightarrow> cronService \<Rightarrow> cronService" where
  "armTimer deps now sv = sv\<lparr>cv_timer :=
     (if \<not> cx_cronEnabled deps then None
      else (case nextWakeAtMs (serviceJobs sv) of
          None \<Rightarrow> None
        | Some nextAt \<Rightarrow>
            if nextAt = 0 then None
            else (let delay = max (nextAt - now) 0;
                      floored = (if delay = 0 then MIN_REFIRE_GAP_MS else delay)
                  in Some (min floored MAX_TIMER_DELAY_MS))))\<rparr>"

definition armRunningRecheckTimer :: "cronService \<Rightarrow> cronService" where
  "armRunningRecheckTimer sv = sv\<lparr>cv_timer := Some MAX_TIMER_DELAY_MS\<rparr>"

section \<open>A tick\<close>

definition markRunning :: "int \<Rightarrow> string list \<Rightarrow> cronJob list \<Rightarrow> cronJob list" where
  "markRunning now ids jobs = map (\<lambda>j. if cj_id j \<in> set ids
     then j\<lparr>cj_state := (cj_state j)\<lparr>cs_runningAtMs := Some now, cs_lastError := None\<rparr>\<rparr> else j) jobs"

text \<open>The first part of a tick: the jobs that it is going to run, or \<open>None\<close> when a tick is still running.\<close>

definition onTimerStart ::
  "'c cronDeps \<Rightarrow> int \<Rightarrow> int \<Rightarrow> cronService \<Rightarrow> cronService \<times> string list option \<times> cronEffect list" where
  "onTimerStart deps dueCheckNow now sv =
     (if cv_running sv then (armRunningRecheckTimer sv, None, [])
      else (case ensureLoaded (cx_host deps) True True dueCheckNow (armRunningRecheckTimer (sv\<lparr>cv_running := True\<rparr>)) of
        (sv1, es) \<Rightarrow>
          (let due = map cj_id (collectRunnableJobs (cx_host deps) tickOpts dueCheckNow (serviceJobs sv1))
           in if due = []
              then (case maintain (cx_host deps) True dueCheckNow sv1 of (sv2, changed, es') \<Rightarrow>
                (if changed then persist sv2 else sv2, Some [], es @ es'))
              else (persist (setJobs (markRunning now due (serviceJobs sv1)) sv1), Some due, es))))"

text \<open>A worker takes a job: the marker is moved to the start of this run, in the object that the tick found.\<close>

definition runDueJobStart :: "nat \<Rightarrow> string \<Rightarrow> int \<Rightarrow> cronService \<Rightarrow> cronService \<times> cronEffect list" where
  "runDueJobStart loads jobId startedAt sv =
     (if cv_loads sv = loads
      then setJobs (updateJob jobId (\<lambda>j. j\<lparr>cj_state := (cj_state j)\<lparr>cs_runningAtMs := Some startedAt\<rparr>\<rparr>) (serviceJobs sv)) sv
      else sv, [JobStarted jobId startedAt])"

definition applyOutcomeToStoredJob ::
  "'c cronDeps \<Rightarrow> string \<times> cronResult \<Rightarrow> int \<Rightarrow> cronJob list \<Rightarrow> cronJob list \<times> cronEffect list" where
  "applyOutcomeToStoredJob deps result now jobs =
     (case findJob jobs (fst result) of
        None \<Rightarrow> (jobs, [])
      | Some job \<Rightarrow>
          (case applyJobResult deps job (snd result) False now of (shouldDelete, job', es) \<Rightarrow>
            (let finished = es @ [JobFinished (fst result) (cr_status (snd result)) (cs_nextRunAtMs (cj_state job'))] in
             if shouldDelete
             then (filter (\<lambda>j. cj_id j \<noteq> fst result) jobs, finished @ [JobRemoved (fst result)])
             else (updateJob (fst result) (\<lambda>_. job') jobs, finished))))"

fun applyOutcomes ::
  "'c cronDeps \<Rightarrow> (string \<times> cronResult) list \<Rightarrow> int \<Rightarrow> cronJob list \<Rightarrow> cronJob list \<times> cronEffect list" where
  "applyOutcomes deps [] now jobs = (jobs, [])"
| "applyOutcomes deps (r # rs) now jobs =
     (case applyOutcomeToStoredJob deps r now jobs of (jobs', es) \<Rightarrow>
       (case applyOutcomes deps rs now jobs' of (jobs'', es') \<Rightarrow> (jobs'', es @ es')))"

text \<open>The last part of a tick, with the results in the order of the due jobs. The timer is armed in any case.\<close>

definition onTimerFinish ::
  "'c cronDeps \<Rightarrow> (string \<times> cronResult) list \<Rightarrow> int \<Rightarrow> cronService \<Rightarrow> cronService \<times> cronEffect list" where
  "onTimerFinish deps results now sv =
     (case (if results = [] then (sv, [])
            else (case ensureLoaded (cx_host deps) True True now sv of (sv1, es) \<Rightarrow>
              (case applyOutcomes deps results now (serviceJobs sv1) of (jobs, es1) \<Rightarrow>
                (case maintain (cx_host deps) False now (setJobs jobs sv1) of (sv2, _, es2) \<Rightarrow>
                  (persist sv2, es @ es1 @ es2))))) of
        (sv', es) \<Rightarrow> (armTimer deps now (sv'\<lparr>cv_running := False\<rparr>), es))"

section \<open>After a restart\<close>

definition planStartupCatchup ::
  "'c cronDeps \<Rightarrow> string list \<Rightarrow> int \<Rightarrow> cronService \<Rightarrow> cronService \<times> string list \<times> string list" where
  "planStartupCatchup deps skipJobIds now sv =
     (case ensureLoaded (cx_host deps) False True now sv of (sv1, _) \<Rightarrow>
       (let missed = collectRunnableJobs (cx_host deps)
              \<lparr>ro_skipJobIds = skipJobIds, ro_skipAtIfAlreadyRan = True, ro_allowCronMissedRunByLastRun = True\<rparr> now (serviceJobs sv1)
        in if missed = [] then (sv1, [], [])
           else (let sorted = sort_key (\<lambda>j. js_default (cs_nextRunAtMs (cj_state j)) 0) missed;
                     most = nat (max 0 (js_default (cx_maxMissedJobsPerRestart deps) DEFAULT_MAX_MISSED_JOBS_PER_RESTART));
                     candidates = map cj_id (take most sorted)
             in (persist (setJobs (markRunning now candidates (serviceJobs sv1)) sv1),
                 candidates, map cj_id (drop most sorted)))))"

text \<open>The deferred jobs follow at a distance, one after the other.\<close>

fun deferJobs :: "int \<Rightarrow> int \<Rightarrow> int \<Rightarrow> string list \<Rightarrow> cronJob list \<Rightarrow> cronJob list" where
  "deferJobs baseNow staggerMs offset [] jobs = jobs"
| "deferJobs baseNow staggerMs offset (i # ids) jobs =
     (case findJob jobs i of
        Some job \<Rightarrow> if cj_enabled job
          then deferJobs baseNow staggerMs (offset + staggerMs) ids (updateJob i (setNextRun (Some (baseNow + offset))) jobs)
          else deferJobs baseNow staggerMs offset ids jobs
      | None \<Rightarrow> deferJobs baseNow staggerMs offset ids jobs)"

definition applyStartupCatchupOutcomes ::
  "'c cronDeps \<Rightarrow> string list \<Rightarrow> (string \<times> cronResult) list \<Rightarrow> int \<Rightarrow> cronService \<Rightarrow> cronService \<times> cronEffect list" where
  "applyStartupCatchupOutcomes deps deferred outcomes now sv =
     (let staggerMs = max 0 (js_default (cx_missedJobStaggerMs deps) DEFAULT_MISSED_JOB_STAGGER_MS) in
      case ensureLoaded (cx_host deps) True True now sv of (sv1, _) \<Rightarrow>
        (case applyOutcomes deps outcomes now (serviceJobs sv1) of (jobs, es) \<Rightarrow>
          (case maintain (cx_host deps) False now (setJobs (deferJobs now staggerMs staggerMs deferred jobs) sv1) of
            (sv2, _, es') \<Rightarrow> (persist sv2, es @ es'))))"

definition startClear :: "'c cronDeps \<Rightarrow> int \<Rightarrow> cronService \<Rightarrow> cronService \<times> string list" where
  "startClear deps now sv =
     (case ensureLoaded (cx_host deps) False True now sv of (sv1, _) \<Rightarrow>
       (persist (setJobs (map (\<lambda>j. j\<lparr>cj_state := (cj_state j)\<lparr>cs_runningAtMs := None\<rparr>\<rparr>) (serviceJobs sv1)) sv1),
        map cj_id (filter (\<lambda>j. cs_runningAtMs (cj_state j) \<noteq> None) (serviceJobs sv1))))"

definition startFinish :: "'c cronDeps \<Rightarrow> int \<Rightarrow> cronService \<Rightarrow> cronService \<times> cronEffect list" where
  "startFinish deps now sv =
     (case ensureLoaded (cx_host deps) True True now sv of (sv1, _) \<Rightarrow>
       (case recomputeNextRuns (cx_host deps) now (serviceJobs sv1) of (jobs, _, es) \<Rightarrow>
         (armTimer deps now (persist (setJobs jobs sv1)), es)))"

section \<open>Operations\<close>

definition ensureLoadedForRead :: "'c cronDeps \<Rightarrow> int \<Rightarrow> cronService \<Rightarrow> cronService \<times> cronEffect list" where
  "ensureLoadedForRead deps now sv =
     (case ensureLoaded (cx_host deps) False True now sv of (sv1, _) \<Rightarrow>
       (case maintain (cx_host deps) False now sv1 of (sv2, changed, es) \<Rightarrow> (if changed then persist sv2 else sv2, es)))"

definition listJobs :: "'c cronDeps \<Rightarrow> bool \<Rightarrow> int \<Rightarrow> cronService \<Rightarrow> cronService \<times> cronJob list" where
  "listJobs deps includeDisabled now sv =
     (case ensureLoadedForRead deps now sv of (sv', _) \<Rightarrow>
       (sv', sort_key (\<lambda>j. js_default (cs_nextRunAtMs (cj_state j)) 0)
          (filter (\<lambda>j. includeDisabled \<or> cj_enabled j) (serviceJobs sv'))))"

definition addJob ::
  "'c cronDeps \<Rightarrow> string \<Rightarrow> int \<Rightarrow> cronJobCreate \<Rightarrow> cronService \<Rightarrow> cronService \<times> cronEffect list \<times> (string + cronJob)" where
  "addJob deps newId now input sv =
     (case ensureLoaded (cx_host deps) False False now sv of (sv1, es) \<Rightarrow>
       (case createJob (cx_host deps) (cx_urlProtocol deps) (cx_defaultAgentId deps) newId now input of
          Inl e \<Rightarrow> (sv1, es, Inl e)
        | Inr job \<Rightarrow>
            (case recomputeNextRuns (cx_host deps) now (serviceJobs sv1 @ [job]) of (jobs, _, es') \<Rightarrow>
              (armTimer deps now (persist (setJobs jobs sv1)),
               es @ es' @ [JobAdded newId (Option.bind (findJob jobs newId) (\<lambda>j. cs_nextRunAtMs (cj_state j)))], Inr job))))"

definition repairAnchor :: "cronJobPatch \<Rightarrow> int \<Rightarrow> cronJob \<Rightarrow> cronJob" where
  "repairAnchor patch now job = (case cj_schedule job of
     SchedEvery e (JNum _) \<Rightarrow> job
   | SchedEvery e _ \<Rightarrow>
       job\<lparr>cj_schedule := SchedEvery e (JNum (max 0
         (case jp_schedule patch of Some (SchedEvery _ _) \<Rightarrow> now | _ \<Rightarrow> cj_createdAtMs job)))\<rparr>
   | _ \<Rightarrow> job)"

text \<open>The part after the patch: the next run is computed again when the schedule or the switch is patched.\<close>

definition finishUpdate :: "'c cronHost \<Rightarrow> cronJobPatch \<Rightarrow> int \<Rightarrow> jobCheck" where
  "finishUpdate h patch now job =
     (let job1 = (repairAnchor patch now job)\<lparr>cj_updatedAtMs := now\<rparr> in
      if jp_schedule patch \<noteq> None \<or> jp_enabled patch \<noteq> None
      then (if cj_enabled job1
            then (case computeJobNextRunAtMs h job1 now of Inl e \<Rightarrow> (job1, Some e) | Inr t \<Rightarrow> (setNextRun t job1, None))
            else (job1\<lparr>cj_state := (cj_state job1)\<lparr>cs_nextRunAtMs := None, cs_runningAtMs := None\<rparr>\<rparr>, None))
      else if cj_enabled job1 \<and> cs_nextRunAtMs (cj_state job1) = None
      then (case computeJobNextRunAtMs h job1 now of Inl e \<Rightarrow> (job1, Some e) | Inr t \<Rightarrow> (setNextRun t job1, None))
      else (job1, None))"

definition updateStoredJob ::
  "'c cronDeps \<Rightarrow> string \<Rightarrow> cronJobPatch \<Rightarrow> int \<Rightarrow> cronService \<Rightarrow> cronService \<times> cronEffect list \<times> string option" where
  "updateStoredJob deps jobId patch now sv =
     (case ensureLoaded (cx_host deps) False True now sv of (sv1, _) \<Rightarrow>
       (case findJob (serviceJobs sv1) jobId of
          None \<Rightarrow> (sv1, [], Some (''unknown cron job id: '' @ jobId))
        | Some job \<Rightarrow>
            (case runChecks [applyJobPatch (cx_urlProtocol deps) (cx_defaultAgentId deps) patch,
                finishUpdate (cx_host deps) patch now] job of
               (job', Some e) \<Rightarrow> (setJobs (updateJob jobId (\<lambda>_. job') (serviceJobs sv1)) sv1, [], Some e)
             | (job', None) \<Rightarrow>
                 (armTimer deps now (persist (setJobs (updateJob jobId (\<lambda>_. job') (serviceJobs sv1)) sv1)),
                  [JobUpdated jobId (cs_nextRunAtMs (cj_state job'))], None))))"

definition removeJob :: "'c cronDeps \<Rightarrow> string \<Rightarrow> int \<Rightarrow> cronService \<Rightarrow> cronService \<times> cronEffect list \<times> bool" where
  "removeJob deps jobId now sv =
     (case ensureLoaded (cx_host deps) False False now sv of (sv1, es) \<Rightarrow>
       (let jobs = filter (\<lambda>j. cj_id j \<noteq> jobId) (serviceJobs sv1); removed = (length jobs \<noteq> length (serviceJobs sv1))
        in (armTimer deps now (persist (setJobs jobs sv1)), es @ (if removed then [JobRemoved jobId] else []), removed)))"

subsection \<open>Runs by hand\<close>

datatype manualRun = UnknownJob | AlreadyRunning | NotDue | Runnable int

definition inspectManualRunPreflight ::
  "'c cronDeps \<Rightarrow> string \<Rightarrow> bool \<Rightarrow> int \<Rightarrow> int \<Rightarrow> cronService \<Rightarrow> cronService \<times> manualRun" where
  "inspectManualRunPreflight deps jobId force maintainNow now sv =
     (case ensureLoaded (cx_host deps) False True maintainNow sv of (sv1, _) \<Rightarrow>
       (case maintain (cx_host deps) False maintainNow sv1 of (sv2, _, _) \<Rightarrow>
         (sv2, case findJob (serviceJobs sv2) jobId of
            None \<Rightarrow> UnknownJob
          | Some job \<Rightarrow> if cs_runningAtMs (cj_state job) \<noteq> None then AlreadyRunning
              else if isJobDue job now force then Runnable now else NotDue)))"

text \<open>The second look under the lock: it reserves the run.\<close>

definition reserveManualRun :: "string \<Rightarrow> int \<Rightarrow> cronService \<Rightarrow> cronService \<times> manualRun" where
  "reserveManualRun jobId preflightNow sv =
     (case findJob (serviceJobs sv) jobId of
        None \<Rightarrow> (sv, UnknownJob)
      | Some job \<Rightarrow> if cs_runningAtMs (cj_state job) \<noteq> None then (sv, AlreadyRunning)
          else (persist (setJobs (markRunning preflightNow [jobId] (serviceJobs sv)) sv), Runnable preflightNow))"

definition mergeManualRunSnapshot :: "string \<Rightarrow> cronJob option \<Rightarrow> cronJob list \<Rightarrow> cronJob list" where
  "mergeManualRunSnapshot jobId snapshot jobs = (case snapshot of
     None \<Rightarrow> filter (\<lambda>j. cj_id j \<noteq> jobId) jobs
   | Some s \<Rightarrow> updateJob jobId (\<lambda>j. j\<lparr>cj_enabled := cj_enabled s, cj_updatedAtMs := cj_updatedAtMs s, cj_state := cj_state s\<rparr>) jobs)"

definition finishPreparedManualRun ::
  "'c cronDeps \<Rightarrow> string \<Rightarrow> cronResult \<Rightarrow> bool \<Rightarrow> int \<Rightarrow> cronService \<Rightarrow> cronService \<times> cronEffect list" where
  "finishPreparedManualRun deps jobId r force now sv =
     (case ensureLoaded (cx_host deps) False True now sv of (sv1, _) \<Rightarrow>
       (case findJob (serviceJobs sv1) jobId of
          None \<Rightarrow> (sv1, [])
        | Some job \<Rightarrow>
            (case applyJobResult deps job r force now of (shouldDelete, job', es) \<Rightarrow>
              (case ensureLoaded (cx_host deps) True True now sv1 of (sv2, _) \<Rightarrow>
                (let jobs = mergeManualRunSnapshot jobId (if shouldDelete then None else Some job') (serviceJobs sv2)
                 in case maintain (cx_host deps) True now (setJobs jobs sv2) of (sv3, _, es') \<Rightarrow>
                   (armTimer deps now (persist sv3),
                    es @ [JobFinished jobId (cr_status r) (cs_nextRunAtMs (cj_state job'))] @
                      (if shouldDelete then [JobRemoved jobId] else []) @ es'))))))"

end
