(* ===== verification/Cron_Runs.thy ===== *)
theory Cron_Runs
  imports Cron_Service
begin

text \<open>
  What the scheduler guarantees over its ticks and operations: no slot is lost, the timer stays armed, and no
  job has two runs at the same time. The last is an invariant of every sequence of ticks, runs by hand,
  reads, edits and removals; two lemmas show where it ends.
\<close>

section \<open>Walking over the jobs\<close>

lemma walk_map: "fst (walkSchedulableJobs fn now jobs) = map (\<lambda>j. fst (walkJob fn now j)) jobs"
  by (induction jobs) (auto split: prod.splits)

lemma walk_member:
  "j \<in> set jobs \<Longrightarrow> fst (walkJob fn now j) \<in> set (fst (walkSchedulableJobs fn now jobs))"
  by (simp add: walk_map)

lemma normalizeJobTickState_facts:
  assumes "normalizeJobTickState job now = (job', changed, skip)"
  shows "cj_id job' = cj_id job" "cj_enabled job' = cj_enabled job" "skip = (\<not> cj_enabled job)" "cj_schedule job' = cj_schedule job"
    "cj_enabled job \<Longrightarrow> cs_nextRunAtMs (cj_state job') = cs_nextRunAtMs (cj_state job)"
    "cs_lastRunAtMs (cj_state job') = cs_lastRunAtMs (cj_state job)"
    "cj_enabled job \<Longrightarrow> cs_runningAtMs (cj_state job) = Some r \<Longrightarrow> now - r \<le> STUCK_RUN_MS \<Longrightarrow> cs_runningAtMs (cj_state job') = Some r"
  using assms by (auto simp: normalizeJobTickState_def Let_def split: if_splits option.splits)

lemma recomputeJobNextRunAtMs_facts:
  assumes "recomputeJobNextRunAtMs h job now = (job', changed, es)"
  shows "cj_id job' = cj_id job" "cj_enabled job' \<Longrightarrow> cj_enabled job"
    "cs_runningAtMs (cj_state job') = cs_runningAtMs (cj_state job)" "cs_lastRunAtMs (cj_state job') = cs_lastRunAtMs (cj_state job)"
  using assms recordScheduleComputeError_facts [of job]
  by (auto simp: recomputeJobNextRunAtMs_def Let_def split: sum.splits prod.splits)

text \<open>A step of a walk that keeps the name of the job and its marker, and does not switch it on.\<close>

definition tame :: "(cronJob \<Rightarrow> int \<Rightarrow> jobWalk) \<Rightarrow> bool" where
  "tame fn \<longleftrightarrow> (\<forall>job now. case fn job now of (job', _, _) \<Rightarrow>
     cj_id job' = cj_id job \<and> (cj_enabled job' \<longrightarrow> cj_enabled job) \<and>
     cs_runningAtMs (cj_state job') = cs_runningAtMs (cj_state job))"

lemma tame_maintain: "tame (maintainNextRun h expired)"
  using recomputeJobNextRunAtMs_facts by (fastforce simp: tame_def maintainNextRun_def split: option.splits prod.splits)

lemma tame_recompute: "tame (recomputeNextRun h)"
  using recomputeJobNextRunAtMs_facts by (fastforce simp: tame_def recomputeNextRun_def split: option.splits prod.splits)

lemma walkJob_tame:
  assumes "tame fn"
  shows "cj_id (fst (walkJob fn now job)) = cj_id job" "cj_enabled (fst (walkJob fn now job)) \<Longrightarrow> cj_enabled job"
    "cj_enabled job \<Longrightarrow> cs_runningAtMs (cj_state job) = Some r \<Longrightarrow> now - r \<le> STUCK_RUN_MS \<Longrightarrow>
      cs_runningAtMs (cj_state (fst (walkJob fn now job))) = Some r"
proof -
  obtain mid c skip where n: "normalizeJobTickState job now = (mid, c, skip)" by (cases "normalizeJobTickState job now")
  obtain job' c' es where w: "fn mid now = (job', c', es)" by (cases "fn mid now")
  have t: "cj_id job' = cj_id mid" "cj_enabled job' \<Longrightarrow> cj_enabled mid" "cs_runningAtMs (cj_state job') = cs_runningAtMs (cj_state mid)"
    using assms [unfolded tame_def, rule_format, of mid now] by (simp_all add: w)
  note f = normalizeJobTickState_facts [OF n]
  show "cj_id (fst (walkJob fn now job)) = cj_id job" "cj_enabled (fst (walkJob fn now job)) \<Longrightarrow> cj_enabled job"
    using f t by (auto simp: walkJob_def n w split: if_splits)
  show "cs_runningAtMs (cj_state (fst (walkJob fn now job))) = Some r"
    if "cj_enabled job" "cs_runningAtMs (cj_state job) = Some r" "now - r \<le> STUCK_RUN_MS"
    using f(3) f(7) [OF that] t(3) that(1) by (simp add: walkJob_def n w)
qed

section \<open>No slot is lost\<close>

text \<open>A job that has a slot and has not run since.\<close>

definition owed :: "cronJob \<Rightarrow> int \<Rightarrow> bool" where
  "owed job n \<longleftrightarrow> cj_enabled job \<and> cs_nextRunAtMs (cj_state job) = Some n \<and>
     (case cs_lastRunAtMs (cj_state job) of Some l \<Rightarrow> l < n | None \<Rightarrow> True)"

lemma maintain_owed:
  assumes "owed job n"
  shows "owed (fst (walkJob (maintainNextRun h expired) now job)) n \<and> cj_id (fst (walkJob (maintainNextRun h expired) now job)) = cj_id job"
proof -
  obtain mid c skip where m: "normalizeJobTickState job now = (mid, c, skip)" by (cases "normalizeJobTickState job now")
  from assms normalizeJobTickState_facts [OF m] have mid: "owed mid n" "\<not> skip" "cj_id mid = cj_id job"
    by (auto simp: owed_def)
  then have "maintainNextRun h expired mid now = (mid, False, [])"
    by (auto simp: owed_def maintainNextRun_def split: option.splits)
  with mid show ?thesis by (simp add: walkJob_def m)
qed

lemma maintained_owed:
  assumes "job \<in> set jobs" "owed job n" "recomputeNextRunsForMaintenance h expired now jobs = (jobs', c, es)"
  shows "\<exists>job' \<in> set jobs'. cj_id job' = cj_id job \<and> owed job' n"
proof -
  have "fst (walkJob (maintainNextRun h expired) now job) \<in> set jobs'"
    using walk_member [OF assms(1), of "maintainNextRun h expired" now] assms(3) by (simp add: recomputeNextRunsForMaintenance_def)
  with maintain_owed [OF assms(2), of h expired now] show ?thesis by blast
qed

lemma outcome_others:
  "job \<in> set jobs \<Longrightarrow> cj_id job \<noteq> fst r \<Longrightarrow> job \<in> set (fst (applyOutcomeToStoredJob deps r now jobs))"
  by (force simp: applyOutcomeToStoredJob_def updateJob_def Let_def split: option.splits prod.splits)

lemma outcomes_others:
  "job \<in> set jobs \<Longrightarrow> cj_id job \<notin> fst ` set rs \<Longrightarrow> job \<in> set (fst (applyOutcomes deps rs now jobs))"
proof (induction rs arbitrary: jobs)
  case (Cons r rs)
  obtain jobs1 es where o1: "applyOutcomeToStoredJob deps r now jobs = (jobs1, es)" by fastforce
  have "job \<in> set jobs1" using outcome_others [of job jobs r deps now] Cons.prems by (simp add: o1)
  with Cons.IH [of jobs1] Cons.prems(2) show ?case by (cases "applyOutcomes deps rs now jobs1") (simp add: o1)
qed simp

lemma ensureLoaded_reload [simp]:
  "ensureLoaded h True True now sv = (sv\<lparr>cv_store := Some (cv_disk sv), cv_loads := Suc (cv_loads sv)\<rparr>, [])"
  by (simp add: ensureLoaded_def)

lemma service_simps [simp]:
  "serviceJobs (setJobs jobs sv) = jobs" "cv_disk (setJobs jobs sv) = cv_disk sv" "cv_store (setJobs jobs sv) = Some jobs"
  "serviceJobs (sv\<lparr>cv_running := b\<rparr>) = serviceJobs sv" "serviceJobs (sv\<lparr>cv_timer := t\<rparr>) = serviceJobs sv"
  "cv_running (setJobs jobs sv) = cv_running sv" "cv_timer (setJobs jobs sv) = cv_timer sv"
  "cv_disk (armTimer deps now sv) = cv_disk sv" "serviceJobs (armTimer deps now sv) = serviceJobs sv"
  "cv_store (armTimer deps now sv) = cv_store sv" "cv_running (armTimer deps now sv) = cv_running sv"
  "serviceJobs (persist sv) = serviceJobs sv" "cv_store (persist sv) = cv_store sv" "cv_running (persist sv) = cv_running sv"
  "cv_timer (persist sv) = cv_timer sv" "cv_disk (persist (setJobs jobs sv)) = jobs"
  by (simp_all add: serviceJobs_def setJobs_def armTimer_def persist_def js_default_def split: option.splits)

lemma maintain_loaded:
  "cv_store sv = Some jobs \<Longrightarrow> maintain h expired now sv =
     (setJobs (fst (recomputeNextRunsForMaintenance h expired now jobs)) sv, snd (recomputeNextRunsForMaintenance h expired now jobs))"
  by (simp add: maintain_def split: prod.splits)

lemma serviceJobs_loaded: "cv_store sv = Some jobs \<Longrightarrow> serviceJobs sv = jobs"
  by (simp add: serviceJobs_def js_default_def)

definition tickLoaded :: "cronService \<Rightarrow> cronService" where
  "tickLoaded sv = sv\<lparr>cv_running := True, cv_timer := Some MAX_TIMER_DELAY_MS, cv_store := Some (cv_disk sv),
     cv_loads := Suc (cv_loads sv)\<rparr>"

lemma tickLoaded_simps [simp]:
  "cv_store (tickLoaded sv) = Some (cv_disk sv)" "cv_disk (tickLoaded sv) = cv_disk sv" "serviceJobs (tickLoaded sv) = cv_disk sv"
  "cv_running (tickLoaded sv)" "cv_timer (tickLoaded sv) = Some MAX_TIMER_DELAY_MS"
  by (simp_all add: tickLoaded_def serviceJobs_def js_default_def)

lemma onTimerStart_cases:
  assumes "onTimerStart deps dueCheckNow now sv = (sv', Some due, es)"
  obtains (idle) jobs' c es' where "\<not> cv_running sv" "due = []"
      "recomputeNextRunsForMaintenance (cx_host deps) True dueCheckNow (cv_disk sv) = (jobs', c, es')"
      "sv' = (if c then persist (setJobs jobs' (tickLoaded sv)) else setJobs jobs' (tickLoaded sv))"
      "filter (isRunnableJob (cx_host deps) tickOpts dueCheckNow) (cv_disk sv) = []"
    | (busy) "\<not> cv_running sv" "due \<noteq> []"
      "due = map cj_id (filter (isRunnableJob (cx_host deps) tickOpts dueCheckNow) (cv_disk sv))"
      "sv' = persist (setJobs (markRunning now due (cv_disk sv)) (tickLoaded sv))"
proof -
  have run: "\<not> cv_running sv" using assms by (auto simp: onTimerStart_def split: if_splits)
  have load: "(armRunningRecheckTimer (sv\<lparr>cv_running := True\<rparr>))\<lparr>cv_store := Some (cv_disk (armRunningRecheckTimer (sv\<lparr>cv_running := True\<rparr>))),
      cv_loads := Suc (cv_loads (armRunningRecheckTimer (sv\<lparr>cv_running := True\<rparr>)))\<rparr> = tickLoaded sv"
    by (simp add: armRunningRecheckTimer_def tickLoaded_def)
  let ?due = "map cj_id (filter (isRunnableJob (cx_host deps) tickOpts dueCheckNow) (cv_disk sv))"
  show thesis
  proof (cases "?due = []")
    case True
    obtain jobs' c es' where m: "recomputeNextRunsForMaintenance (cx_host deps) True dueCheckNow (cv_disk sv) = (jobs', c, es')"
      by (cases "recomputeNextRunsForMaintenance (cx_host deps) True dueCheckNow (cv_disk sv)")
    have "due = []" "sv' = (if c then persist (setJobs jobs' (tickLoaded sv)) else setJobs jobs' (tickLoaded sv))"
      using assms run True
      by (simp_all add: onTimerStart_def ensureLoaded_reload load collectRunnableJobs_def Let_def maintain_loaded [OF tickLoaded_simps(1)] m)
    with idle [OF run _ m] True show thesis by simp
  next
    case False
    with assms run have "due = ?due" "sv' = persist (setJobs (markRunning now due (cv_disk sv)) (tickLoaded sv))"
      by (auto simp: onTimerStart_def load collectRunnableJobs_def Let_def)
    with busy [OF run] False show thesis by simp
  qed
qed

lemma due_member:
  assumes "job \<in> set jobs" "owed job n" "cs_runningAtMs (cj_state job) = None" "n \<le> dueCheckNow"
  shows "job \<in> set (filter (isRunnableJob h tickOpts dueCheckNow) jobs)"
  using assms by (auto simp: owed_def isRunnableJob_def tickOpts_def Let_def)

text \<open>C11: The scheduler loses no slot. Take a tick, from its start to its end, and any job of the stored file that
  is enabled and whose next run, whenever it is, has not taken place yet. If that run is due and the job is
  not running, the tick runs the job. And a job that the tick does not run has the same next run after the
  tick, even if it fell due meanwhile, so that a later tick runs it: the upkeep of the store in between never
  moves a slot that was not executed.\<close>

theorem tick_loses_no_slot:
  assumes start: "onTimerStart deps dueCheckNow now sv = (sv1, Some due, es)"
    and finish: "onTimerFinish deps results later sv1 = (sv2, es')" and ran: "map fst results = due"
    and job: "job \<in> set (cv_disk sv)" "owed job n"
  shows "(cs_runningAtMs (cj_state job) = None \<and> n \<le> dueCheckNow \<longrightarrow> cj_id job \<in> set due) \<and>
    (cj_id job \<notin> set due \<longrightarrow> (\<exists>job' \<in> set (serviceJobs sv2). cj_id job' = cj_id job \<and> owed job' n))"
  using start
proof (cases rule: onTimerStart_cases)
  case (idle jobs' c es1)
  have "serviceJobs sv2 = jobs'"
    using finish ran idle(2,4) by (auto simp: onTimerFinish_def split: if_splits)
  moreover have "\<not> (cs_runningAtMs (cj_state job) = None \<and> n \<le> dueCheckNow)"
    using due_member [OF job, where dueCheckNow = dueCheckNow and h = "cx_host deps"] unfolding idle(5) by auto
  ultimately show ?thesis using maintained_owed [OF job idle(3)] by blast
next
  case busy
  have due: "cs_runningAtMs (cj_state job) = None \<and> n \<le> dueCheckNow \<longrightarrow> cj_id job \<in> set due"
    using due_member [OF job] busy(3) by auto
  have "\<exists>job' \<in> set (serviceJobs sv2). cj_id job' = cj_id job \<and> owed job' n" if out: "cj_id job \<notin> set due"
  proof -
    have disk: "cv_disk sv1 = markRunning now due (cv_disk sv)" by (simp add: busy(4))
    have "job \<in> set (cv_disk sv1)" using job(1) out by (force simp: disk markRunning_def)
    then have kept: "job \<in> set (fst (applyOutcomes deps results later (cv_disk sv1)))"
      using out ran by (intro outcomes_others) (auto simp del: set_map simp: set_map [symmetric])
    obtain jobs es2 where o: "applyOutcomes deps results later (cv_disk sv1) = (jobs, es2)" by fastforce
    obtain jobs' c es3 where m: "recomputeNextRunsForMaintenance (cx_host deps) False later jobs = (jobs', c, es3)"
      by (cases "recomputeNextRunsForMaintenance (cx_host deps) False later jobs")
    have "results \<noteq> []" using ran busy(2) by auto
    with finish have "serviceJobs sv2 = jobs'"
      by (auto simp: onTimerFinish_def o serviceJobs_def maintain_def m setJobs_def js_default_def split: prod.splits)
    with maintained_owed [OF _ job(2) m] kept show ?thesis by (simp add: o)
  qed
  with due show ?thesis by blast
qed

definition demoService :: "cronJob list \<Rightarrow> cronService" where
  "demoService jobs = \<lparr>cv_store = None, cv_disk = jobs, cv_loads = 0, cv_timer = None, cv_running = False\<rparr>"

definition demoJobs :: "cronJob list" where
  "demoJobs = [demoJob ''a'' (SchedEvery (JNum 60000) (JNum 0)) (Some 1000),
     demoJob ''b'' (SchedEvery (JNum 60000) (JNum 0)) (Some 1500)]"

theorem tick_loses_no_slot_witness:
  "case onTimerStart plainDeps 1200 1200 (demoService demoJobs) of
     (sv1, due, _) \<Rightarrow> due = Some [''a''] \<and>
       (case onTimerFinish plainDeps [(''a'', succeeded 1300)] 2000 sv1 of
          (sv2, _) \<Rightarrow> \<exists>job' \<in> set (serviceJobs sv2). cj_id job' = ''b'' \<and> owed job' 1500)"
proof -
  obtain sv1 es where start: "onTimerStart plainDeps 1200 1200 (demoService demoJobs) = (sv1, Some [''a''], es)"
  proof -
    have "fst (snd (onTimerStart plainDeps 1200 1200 (demoService demoJobs))) = Some [''a'']" by code_simp
    then show thesis using that by (cases "onTimerStart plainDeps 1200 1200 (demoService demoJobs)") auto
  qed
  obtain sv2 es' where finish: "onTimerFinish plainDeps [(''a'', succeeded 1300)] 2000 sv1 = (sv2, es')" by fastforce
  let ?b = "demoJob ''b'' (SchedEvery (JNum 60000) (JNum 0)) (Some 1500)"
  have "?b \<in> set (cv_disk (demoService demoJobs))" by (simp add: demoService_def demoJobs_def)
  moreover have "owed ?b 1500" "cj_id ?b = ''b''" by (simp_all add: owed_def demoJob_def emptyJobState_def)
  ultimately have "\<exists>job' \<in> set (serviceJobs sv2). cj_id job' = ''b'' \<and> owed job' 1500"
    using tick_loses_no_slot [OF start finish, of ?b 1500] by simp
  then show ?thesis by (simp add: start finish)
qed

section \<open>The timer stays armed\<close>

lemma foldl_min: "x \<in> set (n # ns) \<Longrightarrow> foldl min n ns \<le> (x :: int)"
proof (induction ns arbitrary: n x)
  case (Cons m ns)
  have "foldl min (min n m) ns \<le> min n m" by (rule Cons.IH) simp
  moreover have "x \<in> set ns \<Longrightarrow> foldl min (min n m) ns \<le> x" by (rule Cons.IH) simp
  ultimately show ?case using Cons.prems by auto
qed simp

lemma nextWakeAtMs_le:
  assumes "job \<in> set jobs" "cj_enabled job" "cs_nextRunAtMs (cj_state job) = Some n"
  shows "\<exists>m \<le> n. nextWakeAtMs jobs = Some m"
proof -
  let ?ns = "concat (map (\<lambda>j. if cj_enabled j then (case cs_nextRunAtMs (cj_state j) of Some n \<Rightarrow> [n] | None \<Rightarrow> []) else []) jobs)"
  have "n \<in> set ?ns" using assms by force
  then show ?thesis
    unfolding nextWakeAtMs_def by (cases ?ns) (use foldl_min [of n] in auto)
qed

lemma armTimer_armed:
  assumes "cx_cronEnabled deps" "job \<in> set (serviceJobs sv)" "cj_enabled job" "cs_nextRunAtMs (cj_state job) = Some n"
    and "nextWakeAtMs (serviceJobs sv) \<noteq> Some 0"
  shows "\<exists>d. cv_timer (armTimer deps now sv) = Some d \<and> 0 < d \<and> d \<le> MAX_TIMER_DELAY_MS \<and> d \<le> max (n - now) MIN_REFIRE_GAP_MS"
proof -
  obtain m where "nextWakeAtMs (serviceJobs sv) = Some m" "m \<le> n" using nextWakeAtMs_le [OF assms(2-4)] by auto
  with assms(1,5) show ?thesis
    by (auto simp: armTimer_def Let_def MAX_TIMER_DELAY_MS_def MIN_REFIRE_GAP_MS_def min_def max_def)
qed

text \<open>C26: The scheduler wakes up again, when cron is enabled. The first section of a tick leaves the timer armed for a
  minute later, however long its jobs will take; and the section that ends a tick, in whatever state other
  operations have left the service meanwhile, leaves it armed when some enabled job has a next run: in the
  future, so that the ticks do not spin, not beyond a minute, and not beyond that run except to keep two
  seconds between ticks. A store whose earliest next run is the time zero is left out: the code takes it for
  none.\<close>

theorem scheduler_stays_armed:
  assumes enabled: "cx_cronEnabled deps"
    and start: "onTimerStart deps dueCheckNow now sv = (sv1, due, es)"
    and finish: "onTimerFinish deps results later sv' = (sv2, es')"
    and job: "job \<in> set (serviceJobs sv2)" "cj_enabled job" "cs_nextRunAtMs (cj_state job) = Some n"
    and zero: "nextWakeAtMs (serviceJobs sv2) \<noteq> Some 0"
  shows "cv_timer sv1 = Some 60000 \<and> \<not> cv_running sv2 \<and>
    (\<exists>d. cv_timer sv2 = Some d \<and> 0 < d \<and> d \<le> 60000 \<and> d \<le> max (n - later) 2000)"
proof (intro conjI)
  show "cv_timer sv1 = Some 60000"
  proof (cases "due")
    case None
    with start show ?thesis
      by (auto simp: onTimerStart_def armRunningRecheckTimer_def MAX_TIMER_DELAY_MS_def Let_def split: if_splits prod.splits)
  next
    case (Some ids)
    from start [unfolded Some] show ?thesis
      by (cases rule: onTimerStart_cases) (simp_all add: MAX_TIMER_DELAY_MS_def)
  qed
  obtain svf where sv2: "sv2 = armTimer deps later (svf\<lparr>cv_running := False\<rparr>)"
    using finish by (auto simp: onTimerFinish_def split: prod.splits)
  then show "\<not> cv_running sv2" by simp
  have "job \<in> set (serviceJobs (svf\<lparr>cv_running := False\<rparr>))" "nextWakeAtMs (serviceJobs (svf\<lparr>cv_running := False\<rparr>)) \<noteq> Some 0"
    using job(1) zero by (simp_all add: sv2)
  from armTimer_armed [OF enabled this(1) job(2,3) this(2), of later]
  show "\<exists>d. cv_timer sv2 = Some d \<and> 0 < d \<and> d \<le> 60000 \<and> d \<le> max (n - later) 2000"
    unfolding sv2 by (simp add: MAX_TIMER_DELAY_MS_def MIN_REFIRE_GAP_MS_def)
qed

theorem scheduler_stays_armed_witness:
  "case onTimerStart plainDeps 1200 1200 (demoService demoJobs) of
     (sv1, _, _) \<Rightarrow> (case onTimerFinish plainDeps [(''a'', succeeded 1300)] 2000 sv1 of
        (sv2, _) \<Rightarrow> cv_timer sv2 = Some 2000 \<and> (\<exists>d. cv_timer sv2 = Some d \<and> 0 < d \<and> d \<le> 60000))"
proof -
  obtain sv1 due es where start: "onTimerStart plainDeps 1200 1200 (demoService demoJobs) = (sv1, due, es)"
    by (cases "onTimerStart plainDeps 1200 1200 (demoService demoJobs)")
  obtain sv2 es' where finish: "onTimerFinish plainDeps [(''a'', succeeded 1300)] 2000 sv1 = (sv2, es')" by fastforce
  let ?sv = "fst (onTimerFinish plainDeps [(''a'', succeeded 1300)] 2000 (fst (onTimerStart plainDeps 1200 1200 (demoService demoJobs))))"
  have sv2: "?sv = sv2" by (simp add: start finish)
  have "cv_timer ?sv = Some 2000" by code_simp
  moreover have "nextWakeAtMs (serviceJobs ?sv) = Some 1500" by code_simp
  moreover have "list_ex (\<lambda>j. cj_enabled j \<and> cs_nextRunAtMs (cj_state j) = Some 1500) (serviceJobs ?sv)" by code_simp
  then obtain job where "job \<in> set (serviceJobs sv2)" "cj_enabled job" "cs_nextRunAtMs (cj_state job) = Some 1500"
    by (auto simp: list_ex_iff sv2)
  moreover have "cx_cronEnabled plainDeps" by (simp add: plainDeps_def)
  ultimately have "cv_timer sv2 = Some 2000 \<and> (\<exists>d. cv_timer sv2 = Some d \<and> 0 < d \<and> d \<le> 60000)"
    using scheduler_stays_armed [OF _ start finish, of job 1500] by (auto simp: sv2)
  then show ?thesis by (simp add: start finish)
qed

section \<open>No job runs twice at the same time\<close>

text \<open>Jobs have their own names, and an enabled job of \<open>F\<close>, the jobs that are running, has its marker.\<close>

definition guarded :: "string set \<Rightarrow> cronJob list \<Rightarrow> bool" where
  "guarded F jobs \<longleftrightarrow> distinct (map cj_id jobs) \<and>
     (\<forall>j \<in> set jobs. cj_id j \<in> F \<longrightarrow> cj_enabled j \<longrightarrow> cs_runningAtMs (cj_state j) \<noteq> None)"

text \<open>No marker is older than two hours, when the scheduler would take its run for dead.\<close>

definition calm :: "int \<Rightarrow> cronJob list \<Rightarrow> bool" where
  "calm now jobs \<longleftrightarrow> (\<forall>j \<in> set jobs. \<forall>r. cs_runningAtMs (cj_state j) = Some r \<longrightarrow> now - r \<le> STUCK_RUN_MS)"

lemma guarded_mono: "guarded F jobs \<Longrightarrow> G \<subseteq> F \<Longrightarrow> guarded G jobs"
  unfolding guarded_def by blast

lemma guarded_map:
  assumes "guarded F jobs" "\<And>j. j \<in> set jobs \<Longrightarrow> cj_id (f j) = cj_id j"
    and "\<And>j. j \<in> set jobs \<Longrightarrow> cj_id j \<in> G \<Longrightarrow> cj_enabled (f j) \<Longrightarrow> cs_runningAtMs (cj_state (f j)) \<noteq> None"
  shows "guarded G (map f jobs)"
proof -
  have "map cj_id (map f jobs) = map cj_id jobs" using assms(2) by simp
  then show ?thesis using assms unfolding guarded_def by (simp only:) auto
qed

lemma guarded_marker:
  "guarded F jobs \<Longrightarrow> j \<in> set jobs \<Longrightarrow> cj_id j \<in> F \<Longrightarrow> cj_enabled j \<Longrightarrow> cs_runningAtMs (cj_state j) \<noteq> None"
  by (simp add: guarded_def)

lemma guarded_walk:
  assumes "guarded F jobs" "tame fn"
    and fresh: "\<And>j r. j \<in> set jobs \<Longrightarrow> cj_id j \<in> F \<Longrightarrow> cs_runningAtMs (cj_state j) = Some r \<Longrightarrow> now - r \<le> STUCK_RUN_MS"
    and walk: "walkSchedulableJobs fn now jobs = (jobs', c, es)"
  shows "guarded F jobs'"
proof -
  have "jobs' = map (\<lambda>j. fst (walkJob fn now j)) jobs" using walk_map [of fn now jobs] walk by simp
  moreover have "guarded F (map (\<lambda>j. fst (walkJob fn now j)) jobs)"
  proof (rule guarded_map [OF assms(1)])
    show "cj_id (fst (walkJob fn now j)) = cj_id j" for j by (rule walkJob_tame [OF assms(2)])
    fix j assume j: "j \<in> set jobs" "cj_id j \<in> F" "cj_enabled (fst (walkJob fn now j))"
    then have on: "cj_enabled j" using walkJob_tame(2) [OF assms(2)] by blast
    then obtain r where "cs_runningAtMs (cj_state j) = Some r" using guarded_marker [OF assms(1) j(1,2)] by auto
    with walkJob_tame(3) [OF assms(2) on, of r now] fresh [OF j(1,2)]
    show "cs_runningAtMs (cj_state (fst (walkJob fn now j))) \<noteq> None" by simp
  qed
  ultimately show ?thesis by simp
qed

lemma guarded_maintain:
  assumes "guarded F jobs" "calm now jobs" "recomputeNextRunsForMaintenance h expired now jobs = (jobs', c, es)"
  shows "guarded F jobs'"
  using assms(2,3) by (intro guarded_walk [OF assms(1) tame_maintain, where now = now and h1 = h and expired1 = expired and c = c and es = es])
    (auto simp: recomputeNextRunsForMaintenance_def calm_def)

lemma guarded_mark:
  assumes "guarded F jobs"
  shows "guarded (F \<union> set ids) (markRunning now ids jobs)"
  unfolding markRunning_def
  by (rule guarded_map [OF assms]) (auto dest: guarded_marker [OF assms])

lemma guarded_update:
  assumes "guarded F jobs" "\<And>j. j \<in> set jobs \<Longrightarrow> cj_id (f j) = cj_id j"
    and "\<And>j. j \<in> set jobs \<Longrightarrow> cj_id j = i \<Longrightarrow> i \<in> F \<Longrightarrow> cj_enabled (f j) \<Longrightarrow> cs_runningAtMs (cj_state (f j)) \<noteq> None"
  shows "guarded F (updateJob i f jobs)"
  unfolding updateJob_def
  by (rule guarded_map [OF assms(1)]) (use assms(2,3) in \<open>auto dest: guarded_marker [OF assms(1)] split: if_splits\<close>)

lemma guarded_replace:
  assumes "guarded F jobs" "cj_id job = i" "i \<in> F \<Longrightarrow> cj_enabled job \<Longrightarrow> cs_runningAtMs (cj_state job) \<noteq> None"
  shows "guarded F (updateJob i (\<lambda>_. job) jobs)"
  unfolding updateJob_def
  by (rule guarded_map [OF assms(1)]) (use assms(2,3) in \<open>auto dest: guarded_marker [OF assms(1)] split: if_splits\<close>)

lemma guarded_filter: "guarded F jobs \<Longrightarrow> guarded F (filter P jobs)"
  by (auto simp: guarded_def distinct_map_filter)

lemma findJob_Some: "findJob jobs i = Some job \<Longrightarrow> job \<in> set jobs \<and> cj_id job = i"
  by (auto simp: findJob_def find_Some_iff in_set_conv_nth)

lemma guarded_outcome:
  assumes "guarded F jobs" "fst r \<notin> F"
  shows "guarded F (fst (applyOutcomeToStoredJob deps r now jobs))"
proof (cases "findJob jobs (fst r)")
  case (Some job)
  obtain deleted job' es where res: "applyJobResult deps job (snd r) False now = (deleted, job', es)"
    by (cases "applyJobResult deps job (snd r) False now")
  have name: "cj_id job' = fst r" using applyJobResult_facts(1) [OF res] findJob_Some [OF Some] by simp
  then have "guarded F (updateJob (fst r) (\<lambda>_. job') jobs)"
    using assms by (intro guarded_replace) auto
  then show ?thesis using assms guarded_filter [of F jobs] by (auto simp: applyOutcomeToStoredJob_def Some res Let_def)
qed (use assms in \<open>simp add: applyOutcomeToStoredJob_def\<close>)

lemma guarded_outcomes:
  "guarded F jobs \<Longrightarrow> fst ` set rs \<inter> F = {} \<Longrightarrow> guarded F (fst (applyOutcomes deps rs now jobs))"
proof (induction rs arbitrary: jobs)
  case (Cons r rs)
  obtain jobs1 es where o1: "applyOutcomeToStoredJob deps r now jobs = (jobs1, es)" by fastforce
  have "guarded F jobs1" using guarded_outcome [of F jobs r deps now] Cons.prems by (simp add: o1)
  with Cons.IH [of jobs1] Cons.prems(2) show ?case by (cases "applyOutcomes deps rs now jobs1") (auto simp: o1)
qed simp

text \<open>The service: what holds of the store in memory, if it is loaded, and of the file.\<close>

definition overStores :: "(cronJob list \<Rightarrow> bool) \<Rightarrow> cronService \<Rightarrow> bool" where
  "overStores P sv \<longleftrightarrow> (case cv_store sv of None \<Rightarrow> True | Some jobs \<Rightarrow> P jobs) \<and> P (cv_disk sv)"

lemma overStores_set: "overStores P (setJobs jobs sv) \<longleftrightarrow> P jobs \<and> P (cv_disk sv)"
  by (simp add: overStores_def)

lemma overStores_persist: "overStores P sv \<Longrightarrow> overStores P (persist sv)"
  by (auto simp: overStores_def persist_def split: option.splits)

lemma overStores_arm [simp]: "overStores P (armTimer deps now sv) \<longleftrightarrow> overStores P sv"
  "overStores P (sv\<lparr>cv_running := b\<rparr>) \<longleftrightarrow> overStores P sv" "overStores P (sv\<lparr>cv_timer := t\<rparr>) \<longleftrightarrow> overStores P sv"
  by (simp_all add: overStores_def)

lemma overStores_load:
  assumes "overStores P sv" "ensureLoaded h force True now sv = (sv', es)"
  shows "overStores P sv' \<and> cv_store sv' \<noteq> None \<and> P (serviceJobs sv') \<and> cv_disk sv' = cv_disk sv \<and> cv_running sv' = cv_running sv"
  using assms by (auto simp: ensureLoaded_def Let_def overStores_def serviceJobs_def js_default_def split: if_splits option.splits)

lemma overStores_maintain:
  assumes "overStores (guarded F) sv" "overStores (calm now) sv" "maintain h expired now sv = (sv', c, es)"
  shows "overStores (guarded F) sv' \<and> cv_disk sv' = cv_disk sv \<and> (cv_store sv \<noteq> None \<longrightarrow> cv_store sv' \<noteq> None)"
  using assms guarded_maintain
  by (fastforce simp: maintain_def overStores_def split: option.splits prod.splits)

subsection \<open>Each operation keeps the markers\<close>

text \<open>What is to be shown of an operation: the stores stay guarded and the switch of the tick as it is.\<close>

definition keeps :: "string set \<Rightarrow> cronService \<Rightarrow> cronService \<Rightarrow> bool" where
  "keeps F sv sv' \<longleftrightarrow> overStores (guarded F) sv' \<and> cv_running sv' = cv_running sv"

lemma maintain_running: "maintain h expired now sv = (sv', c, es) \<Longrightarrow> cv_running sv' = cv_running sv"
  by (auto simp: maintain_def split: option.splits prod.splits)

lemma keeps_maintain:
  assumes "overStores (guarded F) sv" "overStores (calm now) sv" "maintain h expired now sv = (sv', c, es)"
  shows "keeps F sv sv'"
  using overStores_maintain [OF assms] maintain_running [OF assms(3)] by (simp add: keeps_def)

lemma keeps_arm: "keeps F sv sv' \<Longrightarrow> keeps F sv (armTimer deps now (persist sv'))"
  by (simp add: keeps_def overStores_persist)

lemma keeps_setJobs:
  "overStores (guarded F) sv \<Longrightarrow> guarded F jobs \<Longrightarrow> keeps F sv (setJobs jobs sv)"
  by (simp add: keeps_def overStores_set) (simp add: overStores_def)

lemma ensureLoaded_keeps:
  assumes "overStores (guarded F) sv" "overStores (calm now) sv" "ensureLoaded h False skip now sv = (sv', es)"
  shows "keeps F sv sv' \<and> guarded F (serviceJobs sv') \<and> cv_store sv' \<noteq> None"
proof (cases "cv_store sv")
  case None
  obtain jobs c es2 where w: "recomputeNextRuns h now (cv_disk sv) = (jobs, c, es2)" by (cases "recomputeNextRuns h now (cv_disk sv)")
  have disk: "guarded F (cv_disk sv)" "calm now (cv_disk sv)" using assms(1,2) by (simp_all add: overStores_def)
  have walk: "walkSchedulableJobs (recomputeNextRun h) now (cv_disk sv) = (jobs, c, es2)"
    using w by (simp add: recomputeNextRuns_def)
  have "guarded F jobs"
    by (rule guarded_walk [OF disk(1) tame_recompute _ walk]) (use disk(2) in \<open>simp add: calm_def\<close>)
  with None assms w show ?thesis
    by (cases skip) (auto simp: ensureLoaded_def Let_def keeps_def overStores_def serviceJobs_def setJobs_def js_default_def)
next
  case (Some jobs)
  with assms show ?thesis by (auto simp: ensureLoaded_def keeps_def overStores_def serviceJobs_def js_default_def)
qed

lemma ensureLoaded_calm:
  assumes "overStores (calm now) sv" "ensureLoaded h False True t sv = (sv', es)"
  shows "overStores (calm now) sv'"
  using overStores_load [OF assms] by blast

lemma read_keeps:
  assumes g: "overStores (guarded F) sv" and c: "overStores (calm now) sv" and op: "ensureLoadedForRead deps now sv = (sv', es)"
  shows "keeps F sv sv'"
proof -
  obtain sv1 es1 where l: "ensureLoaded (cx_host deps) False True now sv = (sv1, es1)" by fastforce
  obtain sv2 ch es2 where m: "maintain (cx_host deps) False now sv1 = (sv2, ch, es2)" by (cases "maintain (cx_host deps) False now sv1")
  have 1: "keeps F sv sv1" using ensureLoaded_keeps [OF g c l] by blast
  then have "overStores (guarded F) sv1" by (simp add: keeps_def)
  from keeps_maintain [OF this ensureLoaded_calm [OF c l] m] have "keeps F sv1 sv2" .
  with 1 op show ?thesis by (auto simp: ensureLoadedForRead_def l m keeps_def overStores_persist split: if_splits)
qed

lemma inspect_keeps:
  assumes g: "overStores (guarded F) sv" and c: "overStores (calm now) sv"
    and op: "inspectManualRunPreflight deps jobId force now t sv = (sv', outcome)"
  shows "keeps F sv sv'"
proof -
  obtain sv1 es1 where l: "ensureLoaded (cx_host deps) False True now sv = (sv1, es1)" by fastforce
  obtain sv2 ch es2 where m: "maintain (cx_host deps) False now sv1 = (sv2, ch, es2)" by (cases "maintain (cx_host deps) False now sv1")
  have 1: "keeps F sv sv1" using ensureLoaded_keeps [OF g c l] by blast
  then have "overStores (guarded F) sv1" by (simp add: keeps_def)
  from keeps_maintain [OF this ensureLoaded_calm [OF c l] m] have "keeps F sv1 sv2" .
  with 1 op show ?thesis by (auto simp: inspectManualRunPreflight_def l m keeps_def)
qed

lemma reserve_keeps:
  assumes g: "overStores (guarded F) sv" and loaded: "cv_store sv = Some jobs" and job: "findJob jobs jobId = Some job" "cj_enabled job"
    and op: "reserveManualRun jobId t sv = (sv', Runnable t')"
  shows "keeps (insert jobId F) sv sv' \<and> jobId \<notin> F"
proof -
  note sj = serviceJobs_loaded [OF loaded]
  have gj: "guarded F jobs" using g loaded by (simp add: overStores_def)
  from op job have idle: "cs_runningAtMs (cj_state job) = None" and sv': "sv' = persist (setJobs (markRunning t [jobId] jobs) sv)"
    by (auto simp: reserveManualRun_def sj split: if_splits)
  have "guarded (insert jobId F) (markRunning t [jobId] jobs)" using guarded_mark [OF gj, of "[jobId]" t] by simp
  then have "keeps (insert jobId F) sv sv'"
    by (simp add: sv' keeps_def overStores_def)
  moreover have "jobId \<notin> F" using guarded_marker [OF gj, of job] findJob_Some [OF job(1)] job(2) idle by auto
  ultimately show ?thesis by blast
qed

lemma calm_outcome:
  assumes "calm now jobs"
  shows "calm now (fst (applyOutcomeToStoredJob deps r t jobs))"
proof (cases "findJob jobs (fst r)")
  case (Some job)
  obtain deleted job' es where res: "applyJobResult deps job (snd r) False t = (deleted, job', es)"
    by (cases "applyJobResult deps job (snd r) False t")
  with applyJobResult_facts(4) [OF res] assms show ?thesis
    by (auto simp: applyOutcomeToStoredJob_def Some Let_def calm_def updateJob_def)
qed (use assms in \<open>simp add: applyOutcomeToStoredJob_def\<close>)

lemma calm_outcomes: "calm now jobs \<Longrightarrow> calm now (fst (applyOutcomes deps rs t jobs))"
proof (induction rs arbitrary: jobs)
  case (Cons r rs)
  obtain jobs1 es where o1: "applyOutcomeToStoredJob deps r t jobs = (jobs1, es)" by fastforce
  have "calm now jobs1" using calm_outcome [OF Cons.prems, of deps r t] by (simp add: o1)
  with Cons.IH [of jobs1] show ?case by (cases "applyOutcomes deps rs t jobs1") (simp add: o1)
qed simp

lemma runnable_idle: "isRunnableJob h opts now job \<Longrightarrow> cj_enabled job \<and> cs_runningAtMs (cj_state job) = None"
  by (simp add: isRunnableJob_def Let_def split: if_splits)

lemma tick_start_keeps:
  assumes g: "overStores (guarded F) sv" and c: "overStores (calm dueNow) sv"
    and op: "onTimerStart deps dueNow now sv = (sv', Some due, es)"
  shows "overStores (guarded (F \<union> set due)) sv' \<and> \<not> cv_running sv \<and> cv_running sv' \<and> distinct due \<and> set due \<inter> F = {}"
  using op
proof (cases rule: onTimerStart_cases)
  case (idle jobs' ch es')
  have gd: "guarded F (cv_disk sv)" "calm dueNow (cv_disk sv)" using g c by (simp_all add: overStores_def)
  from guarded_maintain [OF this idle(3)] gd idle show ?thesis
    by (auto simp: overStores_set overStores_persist split: if_splits)
next
  case busy
  have gd: "guarded F (cv_disk sv)" using g by (simp add: overStores_def)
  have "distinct (map cj_id (cv_disk sv))" using gd by (simp add: guarded_def)
  then have "distinct due" by (simp add: busy(3) distinct_map_filter)
  moreover have "set due \<inter> F = {}"
    using guarded_marker [OF gd] by (fastforce simp: busy(3) dest!: runnable_idle)
  moreover have "overStores (guarded (F \<union> set due)) sv'"
    using guarded_mark [OF gd] by (simp add: busy(4) overStores_def)
  ultimately show ?thesis using busy by simp
qed

lemma run_start_keeps:
  assumes "overStores (guarded F) sv" "runDueJobStart loads jobId t sv = (sv', es)"
  shows "keeps F sv sv'"
proof (cases "cv_store sv")
  case None
  with assms show ?thesis
    by (auto simp: runDueJobStart_def keeps_def overStores_def serviceJobs_def js_default_def updateJob_def guarded_def split: if_splits)
next
  case (Some jobs)
  let ?f = "\<lambda>j. j\<lparr>cj_state := (cj_state j)\<lparr>cs_runningAtMs := Some t\<rparr>\<rparr>"
  have "guarded F jobs" using assms(1) Some by (simp add: overStores_def)
  then have "guarded F (updateJob jobId ?f jobs)" by (rule guarded_update) simp_all
  with assms Some show ?thesis
    by (auto simp: runDueJobStart_def serviceJobs_loaded [OF Some] keeps_def overStores_def split: if_splits)
qed

lemma tick_finish_keeps:
  assumes g: "overStores (guarded F) sv" and c: "overStores (calm now) sv" and other: "fst ` set results \<inter> G = {}" "G \<subseteq> F"
    and op: "onTimerFinish deps results now sv = (sv', es)"
  shows "overStores (guarded G) sv'"
proof (cases "results = []")
  case True
  have "guarded F x \<Longrightarrow> guarded G x" for x using guarded_mono other(2) by blast
  with op True g show ?thesis by (auto simp: onTimerFinish_def overStores_def split: option.splits)
next
  case False
  let ?sv1 = "sv\<lparr>cv_store := Some (cv_disk sv), cv_loads := Suc (cv_loads sv)\<rparr>"
  have sj: "serviceJobs ?sv1 = cv_disk sv" by (simp add: serviceJobs_def js_default_def)
  obtain jobs es1 where o: "applyOutcomes deps results now (cv_disk sv) = (jobs, es1)" by fastforce
  have gd: "guarded G (cv_disk sv)" "calm now (cv_disk sv)"
    using g c guarded_mono [OF _ other(2)] by (simp_all add: overStores_def)
  have jobs: "guarded G jobs" "calm now jobs"
    using guarded_outcomes [OF gd(1) other(1), of deps now] calm_outcomes [OF gd(2), of deps results now] by (simp_all add: o)
  obtain sv2 ch es2 where m: "maintain (cx_host deps) False now (setJobs jobs ?sv1) = (sv2, ch, es2)"
    by (cases "maintain (cx_host deps) False now (setJobs jobs ?sv1)")
  have "keeps G (setJobs jobs ?sv1) sv2"
    using jobs gd by (intro keeps_maintain [OF _ _ m]) (simp_all add: overStores_def)
  with op False show ?thesis
    by (auto simp: onTimerFinish_def sj o m keeps_def overStores_persist)
qed

lemma finish_manual_keeps:
  assumes g: "overStores (guarded F) sv" and c: "overStores (calm now) sv" and other: "jobId \<notin> G" "G \<subseteq> F"
    and op: "finishPreparedManualRun deps jobId r force now sv = (sv', es)"
  shows "keeps G sv sv'"
proof -
  obtain sv1 es1 where l: "ensureLoaded (cx_host deps) False True now sv = (sv1, es1)" by fastforce
  have gG: "overStores (guarded G) sv" using g guarded_mono [OF _ other(2)] by (auto simp: overStores_def split: option.splits)
  have 1: "keeps G sv sv1" "overStores (calm now) sv1"
    using ensureLoaded_keeps [OF gG c l] ensureLoaded_calm [OF c l] by blast+
  show ?thesis
  proof (cases "findJob (serviceJobs sv1) jobId")
    case None
    with op 1 show ?thesis by (simp add: finishPreparedManualRun_def l)
  next
    case (Some job)
    obtain deleted job' es2 where res: "applyJobResult deps job r force now = (deleted, job', es2)"
      by (cases "applyJobResult deps job r force now")
    let ?sv2 = "sv1\<lparr>cv_store := Some (cv_disk sv1), cv_loads := Suc (cv_loads sv1)\<rparr>"
    have sj: "serviceJobs ?sv2 = cv_disk sv1" by (simp add: serviceJobs_def js_default_def)
    let ?jobs = "mergeManualRunSnapshot jobId (if deleted then None else Some job') (cv_disk sv1)"
    have gd: "guarded G (cv_disk sv1)" "calm now (cv_disk sv1)" using 1 by (simp_all add: keeps_def overStores_def)
    have jobs: "guarded G ?jobs"
      unfolding mergeManualRunSnapshot_def using other(1)
      by (auto intro!: guarded_filter [OF gd(1)] guarded_update [OF gd(1)] split: if_splits)
    have "calm now ?jobs"
      using gd(2) applyJobResult_facts(4) [OF res] by (auto simp: mergeManualRunSnapshot_def calm_def updateJob_def split: if_splits)
    moreover obtain sv3 ch es3 where m: "maintain (cx_host deps) True now (setJobs ?jobs ?sv2) = (sv3, ch, es3)"
      by (cases "maintain (cx_host deps) True now (setJobs ?jobs ?sv2)")
    ultimately have "keeps G (setJobs ?jobs ?sv2) sv3"
      using jobs gd by (intro keeps_maintain [OF _ _ m]) (simp_all add: overStores_def)
    then have "keeps G sv sv3" using 1(1) by (simp add: keeps_def)
    with op m show ?thesis
      using keeps_arm [of G sv sv3 deps now] by (auto simp: finishPreparedManualRun_def l Some res sj Let_def)
  qed
qed

text \<open>A check or step of a patch that keeps the name and the marker, and does not switch the job on.\<close>

definition tameStep :: "jobCheck \<Rightarrow> bool" where
  "tameStep step \<longleftrightarrow> (\<forall>job. cj_id (fst (step job)) = cj_id job \<and>
     (cj_enabled (fst (step job)) \<longrightarrow> cj_enabled job \<and> cs_runningAtMs (cj_state (fst (step job))) = cs_runningAtMs (cj_state job)))"

lemma tameStep_runChecks:
  "list_all tameStep steps \<Longrightarrow> tameStep (runChecks steps)"
proof (induction steps)
  case (Cons step steps)
  have s: "tameStep step" "tameStep (runChecks steps)" using Cons by simp_all
  show ?case
    unfolding tameStep_def
  proof
    fix job
    obtain job' e where step: "step job = (job', e)" by fastforce
    show "cj_id (fst (runChecks (step # steps) job)) = cj_id job \<and>
      (cj_enabled (fst (runChecks (step # steps) job)) \<longrightarrow> cj_enabled job \<and>
        cs_runningAtMs (cj_state (fst (runChecks (step # steps) job))) = cs_runningAtMs (cj_state job))"
      using s(1) [unfolded tameStep_def, rule_format, of job] s(2) [unfolded tameStep_def, rule_format, of job']
      by (cases e) (simp_all add: step)
  qed
qed (simp add: tameStep_def)

lemma tame_checks: "list_all tameStep (jobChecks protocol agent)"
  by (simp add: jobChecks_def tameStep_def assertSupportedJobSpec_def assertMainSessionAgentId_def assertDeliverySupport_def
    assertFailureDestinationSupport_def split: option.splits)

lemma tame_patch:
  assumes "jp_enabled patch = None" "jp_state patch = (\<lambda>s. s)"
  shows "tameStep (applyJobPatch protocol agent patch)"
proof -
  have "tameStep (patchName patch)" "tameStep (patchPayload patch)" "tameStep checkMainDelivery"
    by (auto simp: tameStep_def patchName_def patchPayload_def checkMainDelivery_def split: option.splits sum.splits)
  moreover have "tameStep (pureStep (patchFields1 patch))" "tameStep (pureStep (patchFields2 patch))"
    using assms by (simp_all add: tameStep_def pureStep_def patchFields1_def patchFields2_def js_default_def)
  moreover have "tameStep (pureStep (patchDelivery patch))"
    by (auto simp: tameStep_def pureStep_def patchDelivery_def patchLegacyDelivery_def Let_def
      split: option.splits cronPayloadPatch.splits)
  ultimately have "list_all tameStep ([patchName patch, pureStep (patchFields1 patch), patchPayload patch,
      pureStep (patchDelivery patch), checkMainDelivery, pureStep (patchFields2 patch)] @ jobChecks protocol agent)"
    using tame_checks by simp
  from tameStep_runChecks [OF this] have "tameStep (\<lambda>job. runChecks ([patchName patch, pureStep (patchFields1 patch), patchPayload patch,
      pureStep (patchDelivery patch), checkMainDelivery, pureStep (patchFields2 patch)] @ jobChecks protocol agent) job)" .
  then show ?thesis unfolding applyJobPatch_def [abs_def] .
qed

lemma tame_finishUpdate: "tameStep (finishUpdate h patch now)"
proof -
  have a: "cj_id (repairAnchor patch now job) = cj_id job" "cj_enabled (repairAnchor patch now job) = cj_enabled job"
    "cj_state (repairAnchor patch now job) = cj_state job" for job
    by (auto simp: repairAnchor_def split: cronSchedule.splits jsv.splits)
  show ?thesis
    by (auto simp: tameStep_def finishUpdate_def Let_def a split: sum.splits)
qed

lemma update_keeps:
  assumes g: "overStores (guarded F) sv" and c: "overStores (calm now) sv"
    and patch: "jp_enabled patch = None" "jp_state patch = (\<lambda>s. s)"
    and op: "updateStoredJob deps jobId patch now sv = (sv', es, err)"
  shows "keeps F sv sv'"
proof -
  obtain sv1 es1 where l: "ensureLoaded (cx_host deps) False True now sv = (sv1, es1)" by fastforce
  have 1: "keeps F sv sv1" "guarded F (serviceJobs sv1)" using ensureLoaded_keeps [OF g c l] by simp_all
  show ?thesis
  proof (cases "findJob (serviceJobs sv1) jobId")
    case (Some job)
    let ?steps = "[applyJobPatch (cx_urlProtocol deps) (cx_defaultAgentId deps) patch, finishUpdate (cx_host deps) patch now]"
    obtain job' e where r: "runChecks ?steps job = (job', e)" by fastforce
    have "tameStep (runChecks ?steps)"
      by (rule tameStep_runChecks) (simp add: tame_patch [OF patch] tame_finishUpdate)
    then have t: "cj_id job' = cj_id job"
      "cj_enabled job' \<longrightarrow> cj_enabled job \<and> cs_runningAtMs (cj_state job') = cs_runningAtMs (cj_state job)"
      unfolding tameStep_def using r by (metis fst_conv)+
    have "guarded F (updateJob jobId (\<lambda>_. job') (serviceJobs sv1))"
    proof (rule guarded_replace [OF 1(2)])
      show "cj_id job' = jobId" using t findJob_Some [OF Some] by simp
      assume "jobId \<in> F" "cj_enabled job'"
      then show "cs_runningAtMs (cj_state job') \<noteq> None"
        using t guarded_marker [OF 1(2)] findJob_Some [OF Some] by metis
    qed
    then have k: "keeps F sv1 (setJobs (updateJob jobId (\<lambda>_. job') (serviceJobs sv1)) sv1)"
      using 1(1) by (intro keeps_setJobs) (simp_all add: keeps_def)
    have "sv' = setJobs (updateJob jobId (\<lambda>_. job') (serviceJobs sv1)) sv1 \<or>
        sv' = armTimer deps now (persist (setJobs (updateJob jobId (\<lambda>_. job') (serviceJobs sv1)) sv1))"
      using op by (simp only: updateStoredJob_def l Some prod.case option.case r split: option.splits)
        (auto split: option.splits)
    with k keeps_arm [OF k] 1(1) show ?thesis by (auto simp: keeps_def)
  qed (use op 1 in \<open>simp add: updateStoredJob_def l\<close>)
qed

lemma createJob_id:
  assumes "createJob h protocol agent newId now input = Inr job"
  shows "cj_id job = newId"
proof -
  have "tameStep (runChecks (jobChecks protocol agent))" using tameStep_runChecks tame_checks by blast
  then have "runChecks (jobChecks protocol agent) j = (j', e) \<Longrightarrow> cj_id j' = cj_id j" for j j' e
    unfolding tameStep_def by (metis fst_conv)
  note same = this
  obtain name where body: "(case runChecks (jobChecks protocol agent) (newJob newId now name input) of
      (_, Some e) \<Rightarrow> Inl e
    | (job', None) \<Rightarrow> err_bind (computeJobNextRunAtMs h job' now) (\<lambda>t. Inr (job'\<lparr>cj_state := (cj_state job')\<lparr>cs_nextRunAtMs := t\<rparr>\<rparr>)))
      = Inr job"
    using assms by (auto simp: createJob_def err_bind_Inr)
  show ?thesis
  proof (cases "runChecks (jobChecks protocol agent) (newJob newId now name input)")
    case (Pair job' e)
    with body same [OF Pair] show ?thesis by (cases e) (auto simp: err_bind_Inr newJob_def Let_def)
  qed
qed

lemma walkJob_marker:
  assumes "tame fn"
  shows "cs_runningAtMs (cj_state (fst (walkJob fn now job))) \<in> {None, cs_runningAtMs (cj_state job)}"
proof -
  obtain mid c skip where n: "normalizeJobTickState job now = (mid, c, skip)" by (cases "normalizeJobTickState job now")
  have "cs_runningAtMs (cj_state mid) \<in> {None, cs_runningAtMs (cj_state job)}"
    using n by (auto simp: normalizeJobTickState_def Let_def split: if_splits option.splits)
  with assms [unfolded tame_def, rule_format, of mid now] show ?thesis
    by (auto simp: walkJob_def n split: prod.splits)
qed

lemma loaded_jobs:
  assumes "ensureLoaded h False skip now sv = (sv', es)"
  shows "overStores (\<lambda>jobs. i \<notin> cj_id ` set jobs) sv \<Longrightarrow> i \<notin> cj_id ` set (serviceJobs sv')"
    and "overStores (calm now) sv \<Longrightarrow> calm now (serviceJobs sv')"
proof -
  let ?walk = "\<lambda>j. fst (walkJob (recomputeNextRun h) now j)"
  consider jobs where "cv_store sv = Some jobs" "serviceJobs sv' = jobs" | "serviceJobs sv' = cv_disk sv"
    | "serviceJobs sv' = map ?walk (cv_disk sv)"
  proof (cases "cv_store sv")
    case None
    with assms walk_map [of "recomputeNextRun h" now "cv_disk sv"] that(2,3) show thesis
      by (cases skip) (auto simp: ensureLoaded_def recomputeNextRuns_def Let_def serviceJobs_def js_default_def setJobs_def split: prod.splits)
  next
    case (Some jobs)
    with assms that(1) show thesis by (simp add: ensureLoaded_def serviceJobs_loaded)
  qed
  note loaded = this
  have walk: "cj_id (?walk j) = cj_id j" for j by (rule walkJob_tame [OF tame_recompute])
  show "i \<notin> cj_id ` set (serviceJobs sv')" if "overStores (\<lambda>jobs. i \<notin> cj_id ` set jobs) sv"
    using loaded by cases (use that in \<open>auto simp: overStores_def walk\<close>)
  have marker: "cs_runningAtMs (cj_state (?walk j)) = Some r \<Longrightarrow> cs_runningAtMs (cj_state j) = Some r" for j r
    using walkJob_marker [OF tame_recompute, of h now j] by auto
  show "calm now (serviceJobs sv')" if "overStores (calm now) sv"
    using loaded by cases (use that in \<open>auto simp: overStores_def calm_def dest!: marker\<close>)
qed

lemma add_keeps:
  assumes g: "overStores (guarded F) sv" and c: "overStores (calm now) sv"
    and new: "newId \<notin> F" "overStores (\<lambda>jobs. newId \<notin> cj_id ` set jobs) sv"
    and op: "addJob deps newId now input sv = (sv', es, r)"
  shows "keeps F sv sv'"
proof -
  obtain sv1 es1 where l: "ensureLoaded (cx_host deps) False False now sv = (sv1, es1)" by fastforce
  have 1: "keeps F sv sv1" "guarded F (serviceJobs sv1)" using ensureLoaded_keeps [OF g c l] by simp_all
  note jobs1 = loaded_jobs [OF l]
  show ?thesis
  proof (cases "createJob (cx_host deps) (cx_urlProtocol deps) (cx_defaultAgentId deps) newId now input")
    case (Inl e)
    with op 1 show ?thesis by (simp add: addJob_def l)
  next
    case (Inr job)
    obtain jobs ch es2 where w: "recomputeNextRuns (cx_host deps) now (serviceJobs sv1 @ [job]) = (jobs, ch, es2)"
      by (cases "recomputeNextRuns (cx_host deps) now (serviceJobs sv1 @ [job])")
    have "guarded F (serviceJobs sv1 @ [job])"
      using 1(2) createJob_id [OF Inr] jobs1(1) [OF new(2)] new(1) by (auto simp: guarded_def)
    then have "guarded F jobs"
    proof (rule guarded_walk [OF _ tame_recompute])
      show "walkSchedulableJobs (recomputeNextRun (cx_host deps)) now (serviceJobs sv1 @ [job]) = (jobs, ch, es2)"
        using w by (simp add: recomputeNextRuns_def)
      show "now - r \<le> STUCK_RUN_MS" if "j \<in> set (serviceJobs sv1 @ [job])" "cj_id j \<in> F" "cs_runningAtMs (cj_state j) = Some r" for j r
        using that jobs1(2) [OF c] createJob_id [OF Inr] new(1) by (auto simp: calm_def)
    qed
    then have "keeps F sv1 (setJobs jobs sv1)" using 1(1) by (intro keeps_setJobs) (simp_all add: keeps_def)
    from keeps_arm [OF this, of deps now] op 1(1) show ?thesis by (auto simp: addJob_def l Inr w keeps_def)
  qed
qed

lemma remove_keeps:
  assumes g: "overStores (guarded F) sv" and c: "overStores (calm now) sv"
    and op: "removeJob deps jobId now sv = (sv', es, removed)"
  shows "keeps F sv sv'"
proof -
  obtain sv1 es1 where l: "ensureLoaded (cx_host deps) False False now sv = (sv1, es1)" by fastforce
  have 1: "keeps F sv sv1" "guarded F (serviceJobs sv1)" using ensureLoaded_keeps [OF g c l] by simp_all
  then have "keeps F sv1 (setJobs (filter (\<lambda>j. cj_id j \<noteq> jobId) (serviceJobs sv1)) sv1)"
    by (intro keeps_setJobs guarded_filter) (simp_all add: keeps_def)
  from keeps_arm [OF this, of deps now] op 1(1) show ?thesis by (auto simp: removeJob_def l Let_def keeps_def)
qed

lemma plan_keeps:
  assumes g: "overStores (guarded F) sv" and op: "planStartupCatchup deps skipIds now sv = (sv', candidates, deferred)"
  shows "keeps (F \<union> set candidates) sv sv' \<and> distinct candidates \<and> set candidates \<inter> F = {}"
proof -
  obtain sv1 es1 where l: "ensureLoaded (cx_host deps) False True now sv = (sv1, es1)" by fastforce
  have c: "overStores (\<lambda>_. True) sv" by (simp add: overStores_def split: option.splits)
  note L = overStores_load [OF g l]
  then have gj: "guarded F (serviceJobs sv1)" by blast
  let ?opts = "\<lparr>ro_skipJobIds = skipIds, ro_skipAtIfAlreadyRan = True, ro_allowCronMissedRunByLastRun = True\<rparr>"
  let ?missed = "filter (isRunnableJob (cx_host deps) ?opts now) (serviceJobs sv1)"
  let ?sorted = "sort_key (\<lambda>j. js_default (cs_nextRunAtMs (cj_state j)) 0) ?missed"
  show ?thesis
  proof (cases "?missed = []")
    case True
    with op L show ?thesis by (simp add: planStartupCatchup_def l collectRunnableJobs_def Let_def keeps_def)
  next
    case False
    obtain n where cand: "candidates = map cj_id (take n ?sorted)"
      and sv': "sv' = persist (setJobs (markRunning now candidates (serviceJobs sv1)) sv1)"
      using op False by (auto simp: planStartupCatchup_def l collectRunnableJobs_def Let_def)
    have "distinct (map cj_id (serviceJobs sv1))" using gj by (simp add: guarded_def)
    then have "distinct (map cj_id ?missed)" by (simp add: distinct_map_filter)
    then have "distinct (map cj_id ?sorted)"
      by (simp add: distinct_map)
    then have d: "distinct candidates" unfolding cand by (simp add: take_map [symmetric])
    have "set (take n ?sorted) \<subseteq> set ?missed" by (metis set_sort set_take_subset)
    then have idle: "j \<in> set (serviceJobs sv1) \<and> cj_id j \<notin> F" if "j \<in> set (take n ?sorted)" for j
    proof -
      have "j \<in> set ?missed" using that \<open>set (take n ?sorted) \<subseteq> set ?missed\<close> by blast
      then have "j \<in> set (serviceJobs sv1)" "isRunnableJob (cx_host deps) ?opts now j" by simp_all
      with guarded_marker [OF gj] runnable_idle show ?thesis by blast
    qed
    have "set candidates \<inter> F = {}"
    proof (intro equals0I)
      fix i assume "i \<in> set candidates \<inter> F"
      then obtain j where "j \<in> set (take n ?sorted)" "cj_id j = i" "i \<in> F" unfolding cand by auto
      with idle show False by blast
    qed
    moreover have "keeps (F \<union> set candidates) sv sv'"
      using guarded_mark [OF gj, of candidates now] L by (simp add: sv' keeps_def overStores_def)
    ultimately show ?thesis using d by blast
  qed
qed

lemma defer_guarded: "guarded F jobs \<Longrightarrow> calm now jobs \<Longrightarrow>
  guarded F (deferJobs base stagger offset ids jobs) \<and> calm now (deferJobs base stagger offset ids jobs)"
proof (induction ids arbitrary: offset jobs)
  case (Cons i ids)
  have "guarded F (updateJob i (setNextRun t) jobs)" for t
    by (rule guarded_update [OF Cons.prems(1)]) (use guarded_marker [OF Cons.prems(1)] in auto)
  moreover have "calm now (updateJob i (setNextRun t) jobs)" for t
    using Cons.prems(2) by (auto simp: calm_def updateJob_def)
  ultimately show ?case using Cons by (simp split: option.splits)
qed simp

lemma catchup_finish_keeps:
  assumes g: "overStores (guarded F) sv" and c: "overStores (calm now) sv" and other: "fst ` set results \<inter> G = {}" "G \<subseteq> F"
    and op: "applyStartupCatchupOutcomes deps deferred results now sv = (sv', es)"
  shows "keeps G sv sv'"
proof -
  let ?sv1 = "sv\<lparr>cv_store := Some (cv_disk sv), cv_loads := Suc (cv_loads sv)\<rparr>"
  have sj: "serviceJobs ?sv1 = cv_disk sv" by (simp add: serviceJobs_def js_default_def)
  obtain jobs es1 where o: "applyOutcomes deps results now (cv_disk sv) = (jobs, es1)" by fastforce
  have gd: "guarded G (cv_disk sv)" "calm now (cv_disk sv)"
    using g c guarded_mono [OF _ other(2)] by (simp_all add: overStores_def)
  have "guarded G jobs" "calm now jobs"
    using guarded_outcomes [OF gd(1) other(1), of deps now] calm_outcomes [OF gd(2), of deps results now] by (simp_all add: o)
  note jobs = defer_guarded [OF this]
  let ?st = "max 0 (js_default (cx_missedJobStaggerMs deps) DEFAULT_MISSED_JOB_STAGGER_MS)"
  obtain sv2 ch es2 where m: "maintain (cx_host deps) False now (setJobs (deferJobs now ?st ?st deferred jobs) ?sv1) = (sv2, ch, es2)"
    by (cases "maintain (cx_host deps) False now (setJobs (deferJobs now ?st ?st deferred jobs) ?sv1)")
  have "keeps G (setJobs (deferJobs now ?st ?st deferred jobs) ?sv1) sv2"
    using jobs gd by (intro keeps_maintain [OF _ _ m]) (simp_all add: overStores_def)
  moreover have "sv' = persist sv2" using op by (auto simp: applyStartupCatchupOutcomes_def sj o m Let_def)
  ultimately show ?thesis by (simp add: keeps_def overStores_persist)
qed

lemma start_clear_keeps:
  assumes g: "overStores (guarded {}) sv" and op: "startClear deps now sv = (sv', ids)"
  shows "keeps {} sv sv'"
proof -
  obtain sv1 es1 where l: "ensureLoaded (cx_host deps) False True now sv = (sv1, es1)" by fastforce
  note L = overStores_load [OF g l]
  have "guarded {} (map (\<lambda>j. j\<lparr>cj_state := (cj_state j)\<lparr>cs_runningAtMs := None\<rparr>\<rparr>) (serviceJobs sv1))"
    by (rule guarded_map [of "{}" "serviceJobs sv1"]) (use L in auto)
  with op L show ?thesis by (auto simp: startClear_def l keeps_def overStores_def)
qed

lemma start_finish_keeps:
  assumes g: "overStores (guarded F) sv" and c: "overStores (calm now) sv" and op: "startFinish deps now sv = (sv', es)"
  shows "keeps F sv sv'"
proof -
  let ?sv1 = "sv\<lparr>cv_store := Some (cv_disk sv), cv_loads := Suc (cv_loads sv)\<rparr>"
  have sj: "serviceJobs ?sv1 = cv_disk sv" by (simp add: serviceJobs_def js_default_def)
  obtain jobs ch es1 where w: "recomputeNextRuns (cx_host deps) now (cv_disk sv) = (jobs, ch, es1)"
    by (cases "recomputeNextRuns (cx_host deps) now (cv_disk sv)")
  have gd: "guarded F (cv_disk sv)" "calm now (cv_disk sv)" using g c by (simp_all add: overStores_def)
  have walk: "walkSchedulableJobs (recomputeNextRun (cx_host deps)) now (cv_disk sv) = (jobs, ch, es1)"
    using w by (simp add: recomputeNextRuns_def)
  have "guarded F jobs"
    by (rule guarded_walk [OF gd(1) tame_recompute _ walk]) (use gd(2) in \<open>simp add: calm_def\<close>)
  then have "keeps F sv (setJobs jobs ?sv1)" using gd by (simp add: keeps_def overStores_def)
  from keeps_arm [OF this, of deps now] op show ?thesis by (auto simp: startFinish_def sj w)
qed

subsection \<open>All operations in any order\<close>

text \<open>The scheduler with the runs that are under way: those of the tick, those of the catch-up after a restart,
  and those by hand.\<close>

record cronWorld =
  cw_sv :: cronService
  cw_tick :: "string list"
  cw_catchup :: "string list"
  cw_manual :: "string list"

definition inFlight :: "cronWorld \<Rightarrow> string list" where
  "inFlight w = cw_tick w @ cw_catchup w @ cw_manual w"

text \<open>The steps. A step that tidies up the store assumes that no marker is older than two hours; an edit does not
  touch the switch or the state of the job, and a run by hand is one of an enabled job. The restart belongs to
  a process that runs nothing yet.\<close>

inductive cronStep :: "'c cronDeps \<Rightarrow> cronWorld \<Rightarrow> cronWorld \<Rightarrow> bool" for deps where
  restart: "startClear deps now sv = (sv', ids) \<Longrightarrow> \<not> cv_running sv \<Longrightarrow>
    cronStep deps \<lparr>cw_sv = sv, cw_tick = [], cw_catchup = [], cw_manual = []\<rparr>
      \<lparr>cw_sv = sv', cw_tick = [], cw_catchup = [], cw_manual = []\<rparr>"
| catchup: "planStartupCatchup deps skipIds now sv = (sv', candidates, deferred) \<Longrightarrow>
    cronStep deps \<lparr>cw_sv = sv, cw_tick = t, cw_catchup = [], cw_manual = m\<rparr>
      \<lparr>cw_sv = sv', cw_tick = t, cw_catchup = candidates, cw_manual = m\<rparr>"
| caughtUp: "applyStartupCatchupOutcomes deps deferred results now sv = (sv', es) \<Longrightarrow> map fst results = c \<Longrightarrow>
    overStores (calm now) sv \<Longrightarrow>
    cronStep deps \<lparr>cw_sv = sv, cw_tick = t, cw_catchup = c, cw_manual = m\<rparr>
      \<lparr>cw_sv = sv', cw_tick = t, cw_catchup = [], cw_manual = m\<rparr>"
| started: "startFinish deps now sv = (sv', es) \<Longrightarrow> overStores (calm now) sv \<Longrightarrow>
    cronStep deps \<lparr>cw_sv = sv, cw_tick = t, cw_catchup = c, cw_manual = m\<rparr>
      \<lparr>cw_sv = sv', cw_tick = t, cw_catchup = c, cw_manual = m\<rparr>"
| tick: "onTimerStart deps dueNow now sv = (sv', Some due, es) \<Longrightarrow> overStores (calm dueNow) sv \<Longrightarrow>
    cronStep deps \<lparr>cw_sv = sv, cw_tick = t, cw_catchup = c, cw_manual = m\<rparr>
      \<lparr>cw_sv = sv', cw_tick = t @ due, cw_catchup = c, cw_manual = m\<rparr>"
| recheck: "onTimerStart deps dueNow now sv = (sv', None, es) \<Longrightarrow>
    cronStep deps \<lparr>cw_sv = sv, cw_tick = t, cw_catchup = c, cw_manual = m\<rparr>
      \<lparr>cw_sv = sv', cw_tick = t, cw_catchup = c, cw_manual = m\<rparr>"
| worker: "runDueJobStart loads i now sv = (sv', es) \<Longrightarrow> i \<in> set t \<Longrightarrow>
    cronStep deps \<lparr>cw_sv = sv, cw_tick = t, cw_catchup = c, cw_manual = m\<rparr>
      \<lparr>cw_sv = sv', cw_tick = t, cw_catchup = c, cw_manual = m\<rparr>"
| ticked: "onTimerFinish deps results now sv = (sv', es) \<Longrightarrow> map fst results = t \<Longrightarrow> cv_running sv \<Longrightarrow>
    overStores (calm now) sv \<Longrightarrow>
    cronStep deps \<lparr>cw_sv = sv, cw_tick = t, cw_catchup = c, cw_manual = m\<rparr>
      \<lparr>cw_sv = sv', cw_tick = [], cw_catchup = c, cw_manual = m\<rparr>"
| inspect: "inspectManualRunPreflight deps i force now t' sv = (sv', outcome) \<Longrightarrow> overStores (calm now) sv \<Longrightarrow>
    cronStep deps \<lparr>cw_sv = sv, cw_tick = t, cw_catchup = c, cw_manual = m\<rparr>
      \<lparr>cw_sv = sv', cw_tick = t, cw_catchup = c, cw_manual = m\<rparr>"
| reserve: "reserveManualRun i t' sv = (sv', Runnable t'') \<Longrightarrow> cv_store sv = Some jobs \<Longrightarrow> findJob jobs i = Some job \<Longrightarrow>
    cj_enabled job \<Longrightarrow>
    cronStep deps \<lparr>cw_sv = sv, cw_tick = t, cw_catchup = c, cw_manual = m\<rparr>
      \<lparr>cw_sv = sv', cw_tick = t, cw_catchup = c, cw_manual = i # m\<rparr>"
| ranByHand: "finishPreparedManualRun deps i r force now sv = (sv', es) \<Longrightarrow> i \<in> set m \<Longrightarrow> overStores (calm now) sv \<Longrightarrow>
    cronStep deps \<lparr>cw_sv = sv, cw_tick = t, cw_catchup = c, cw_manual = m\<rparr>
      \<lparr>cw_sv = sv', cw_tick = t, cw_catchup = c, cw_manual = remove1 i m\<rparr>"
| read: "ensureLoadedForRead deps now sv = (sv', es) \<Longrightarrow> overStores (calm now) sv \<Longrightarrow>
    cronStep deps \<lparr>cw_sv = sv, cw_tick = t, cw_catchup = c, cw_manual = m\<rparr>
      \<lparr>cw_sv = sv', cw_tick = t, cw_catchup = c, cw_manual = m\<rparr>"
| add: "addJob deps newId now input sv = (sv', es, r) \<Longrightarrow> overStores (calm now) sv \<Longrightarrow>
    newId \<notin> set t \<union> set c \<union> set m \<Longrightarrow> overStores (\<lambda>jobs. newId \<notin> cj_id ` set jobs) sv \<Longrightarrow>
    cronStep deps \<lparr>cw_sv = sv, cw_tick = t, cw_catchup = c, cw_manual = m\<rparr>
      \<lparr>cw_sv = sv', cw_tick = t, cw_catchup = c, cw_manual = m\<rparr>"
| edit: "updateStoredJob deps i patch now sv = (sv', es, err) \<Longrightarrow> overStores (calm now) sv \<Longrightarrow>
    jp_enabled patch = None \<Longrightarrow> jp_state patch = (\<lambda>s. s) \<Longrightarrow>
    cronStep deps \<lparr>cw_sv = sv, cw_tick = t, cw_catchup = c, cw_manual = m\<rparr>
      \<lparr>cw_sv = sv', cw_tick = t, cw_catchup = c, cw_manual = m\<rparr>"
| remove: "removeJob deps i now sv = (sv', es, removed) \<Longrightarrow> overStores (calm now) sv \<Longrightarrow>
    cronStep deps \<lparr>cw_sv = sv, cw_tick = t, cw_catchup = c, cw_manual = m\<rparr>
      \<lparr>cw_sv = sv', cw_tick = t, cw_catchup = c, cw_manual = m\<rparr>"

definition exclusive :: "cronWorld \<Rightarrow> bool" where
  "exclusive w \<longleftrightarrow> distinct (inFlight w) \<and> overStores (guarded (set (inFlight w))) (cw_sv w) \<and>
     (cw_tick w = [] \<or> cv_running (cw_sv w))"

lemma exclusiveI:
  "distinct (t @ c @ m) \<Longrightarrow> overStores (guarded (set t \<union> set c \<union> set m)) sv \<Longrightarrow> t = [] \<or> cv_running sv \<Longrightarrow>
     exclusive \<lparr>cw_sv = sv, cw_tick = t, cw_catchup = c, cw_manual = m\<rparr>"
  by (simp add: exclusive_def inFlight_def Un_assoc)

lemma exclusiveD:
  assumes "exclusive \<lparr>cw_sv = sv, cw_tick = t, cw_catchup = c, cw_manual = m\<rparr>"
  shows "distinct (t @ c @ m)" "overStores (guarded (set t \<union> set c \<union> set m)) sv" "t = [] \<or> cv_running sv"
  using assms by (simp_all add: exclusive_def inFlight_def Un_assoc)

lemma exclusive_kept:
  assumes "exclusive \<lparr>cw_sv = sv, cw_tick = t, cw_catchup = c, cw_manual = m\<rparr>" "keeps (set t \<union> set c \<union> set m) sv sv'"
  shows "exclusive \<lparr>cw_sv = sv', cw_tick = t, cw_catchup = c, cw_manual = m\<rparr>"
  using exclusiveD [OF assms(1)] assms(2) by (intro exclusiveI) (simp_all add: keeps_def)

lemma cronStep_exclusive:
  assumes "cronStep deps w w'" "exclusive w"
  shows "exclusive w'"
  using assms
proof (induction rule: cronStep.induct)
  case (restart now sv sv' ids)
  note x = exclusiveD [OF restart.prems]
  from start_clear_keeps [OF _ restart.hyps(1)] x show ?case by (intro exclusiveI) (simp_all add: keeps_def)
next
  case (catchup skipIds now sv sv' candidates deferred t m)
  note x = exclusiveD [OF catchup.prems]
  from plan_keeps [OF x(2) catchup.hyps] x show ?case by (intro exclusiveI) (auto simp: keeps_def Un_ac)
next
  case (caughtUp deferred results now sv sv' es c t m)
  note x = exclusiveD [OF caughtUp.prems]
  have "fst ` set results = set c" using caughtUp.hyps(2) by (metis set_map)
  then have "fst ` set results \<inter> (set t \<union> set m) = {}" using x(1) by auto
  from catchup_finish_keeps [OF x(2) caughtUp.hyps(3) this _ caughtUp.hyps(1)] x
  show ?case by (intro exclusiveI) (auto simp: keeps_def)
next
  case (started now sv sv' es t c m)
  show ?case by (rule exclusive_kept [OF started.prems start_finish_keeps [OF exclusiveD(2) [OF started.prems] started.hyps(2,1)]])
next
  case (tick dueNow now sv sv' due es t c m)
  note x = exclusiveD [OF tick.prems]
  note k = tick_start_keeps [OF x(2) tick.hyps(2,1)]
  with x(3) have "t = []" by blast
  with k x show ?case by (intro exclusiveI) (auto simp: Un_ac)
next
  case (recheck dueNow now sv sv' es t c m)
  have "sv' = sv\<lparr>cv_timer := Some MAX_TIMER_DELAY_MS\<rparr>"
    using recheck.hyps by (auto simp: onTimerStart_def armRunningRecheckTimer_def Let_def split: if_splits prod.splits)
  with exclusiveD(2) [OF recheck.prems] show ?case by (intro exclusive_kept [OF recheck.prems]) (simp add: keeps_def)
next
  case (worker loads i now sv sv' es t c m)
  show ?case by (rule exclusive_kept [OF worker.prems run_start_keeps [OF exclusiveD(2) [OF worker.prems] worker.hyps(1)]])
next
  case (ticked results now sv sv' es t c m)
  note x = exclusiveD [OF ticked.prems]
  have "fst ` set results = set t" using ticked.hyps(2) by (metis set_map)
  then have "fst ` set results \<inter> (set c \<union> set m) = {}" using x(1) by auto
  from tick_finish_keeps [OF x(2) ticked.hyps(4) this _ ticked.hyps(1)] x
  show ?case by (intro exclusiveI) auto
next
  case (inspect i force now t' sv sv' outcome t c m)
  show ?case by (rule exclusive_kept [OF inspect.prems inspect_keeps [OF exclusiveD(2) [OF inspect.prems] inspect.hyps(2,1)]])
next
  case (reserve i t' sv sv' t'' jobs job t c m)
  note x = exclusiveD [OF reserve.prems]
  from reserve_keeps [OF x(2) reserve.hyps(2,3,4,1)] x show ?case by (intro exclusiveI) (auto simp: keeps_def)
next
  case (ranByHand i r force now sv sv' es m t c)
  note x = exclusiveD [OF ranByHand.prems]
  have m: "set (remove1 i m) = set m - {i}" "distinct (remove1 i m)" using x(1) by simp_all
  have "keeps (set t \<union> set c \<union> set (remove1 i m)) sv sv'"
    using x(1) ranByHand.hyps(2) by (intro finish_manual_keeps [OF x(2) ranByHand.hyps(3) _ _ ranByHand.hyps(1)]) (auto simp: m(1))
  with x m show ?case by (intro exclusiveI) (auto simp: keeps_def)
next
  case (read now sv sv' es t c m)
  show ?case by (rule exclusive_kept [OF read.prems read_keeps [OF exclusiveD(2) [OF read.prems] read.hyps(2,1)]])
next
  case (add newId now input sv sv' es r t c m)
  show ?case by (rule exclusive_kept [OF add.prems add_keeps [OF exclusiveD(2) [OF add.prems] add.hyps(2,3,4,1)]])
next
  case (edit i patch now sv sv' es err t c m)
  show ?case by (rule exclusive_kept [OF edit.prems update_keeps [OF exclusiveD(2) [OF edit.prems] edit.hyps(2,3,4,1)]])
next
  case (remove i now sv sv' es removed t c m)
  show ?case by (rule exclusive_kept [OF remove.prems remove_keeps [OF exclusiveD(2) [OF remove.prems] remove.hyps(2,1)]])
qed

inductive cronReach :: "'c cronDeps \<Rightarrow> cronWorld \<Rightarrow> bool" for deps where
  reach_init: "distinct (map cj_id jobs) \<Longrightarrow>
    cronReach deps \<lparr>cw_sv = \<lparr>cv_store = None, cv_disk = jobs, cv_loads = 0, cv_timer = None, cv_running = False\<rparr>,
      cw_tick = [], cw_catchup = [], cw_manual = []\<rparr>"
| reach_step: "cronReach deps w \<Longrightarrow> cronStep deps w w' \<Longrightarrow> cronReach deps w'"

lemma cronReach_exclusive: "cronReach deps w \<Longrightarrow> exclusive w"
proof (induction rule: cronReach.induct)
  case (reach_init jobs)
  then show ?case by (intro exclusiveI) (simp_all add: overStores_def guarded_def)
qed (rule cronStep_exclusive)

text \<open>C10: No job has two runs at the same time. In every sequence of restarts, ticks, catch-ups, runs by hand,
  reads, additions, edits and removals, in which everything may happen between the start and the end of a run,
  the runs under way, and those a tick or a catch-up has marked and still has to start, are those of different
  jobs; and in the file each of these jobs, while it is there and enabled, carries the marker that keeps
  others from starting it. The runs by hand are those of enabled jobs, no edit switches a job on or writes its
  state, and no section begins while a marker is older than two hours: since a tick marks all its jobs when it
  starts and may run them one by one, this bounds the time of the whole batch, not only that of a run.\<close>

theorem cron_runs_exclusive:
  assumes "cronReach deps w"
  shows "distinct (inFlight w) \<and>
    (\<forall>job \<in> set (cv_disk (cw_sv w)). cj_id job \<in> set (inFlight w) \<longrightarrow> cj_enabled job \<longrightarrow> cs_runningAtMs (cj_state job) \<noteq> None)"
  using cronReach_exclusive [OF assms] by (simp add: exclusive_def overStores_def guarded_def)

theorem cron_runs_exclusive_witness:
  "case onTimerStart plainDeps 1200 1200 (demoService demoJobs) of
     (sv1, due, _) \<Rightarrow> due = Some [''a''] \<and>
       (case reserveManualRun ''b'' 1300 sv1 of
          (sv2, outcome) \<Rightarrow> outcome = Runnable 1300 \<and> distinct [''a'', ''b''] \<and>
            fst (inspectManualRunPreflight plainDeps ''b'' True 1400 1400 sv2) = sv2 \<and>
            snd (inspectManualRunPreflight plainDeps ''b'' True 1400 1400 sv2) = AlreadyRunning)"
proof -
  let ?sv0 = "demoService demoJobs"
  have r0: "cronReach plainDeps \<lparr>cw_sv = ?sv0, cw_tick = [], cw_catchup = [], cw_manual = []\<rparr>"
    unfolding demoService_def by (rule reach_init) (simp add: demoJobs_def demoJob_def)
  obtain sv1 es where start: "onTimerStart plainDeps 1200 1200 ?sv0 = (sv1, Some [''a''], es)"
  proof -
    have "fst (snd (onTimerStart plainDeps 1200 1200 ?sv0)) = Some [''a'']" by code_simp
    then show thesis using that by (cases "onTimerStart plainDeps 1200 1200 ?sv0") auto
  qed
  have "overStores (calm 1200) ?sv0"
    by (simp add: overStores_def demoService_def calm_def demoJobs_def demoJob_def emptyJobState_def)
  from reach_step [OF r0 cronStep.tick [OF start this]]
  have r1: "cronReach plainDeps \<lparr>cw_sv = sv1, cw_tick = [''a''], cw_catchup = [], cw_manual = []\<rparr>" by simp
  obtain sv2 where res: "reserveManualRun ''b'' 1300 sv1 = (sv2, Runnable 1300)"
  proof -
    have "snd (reserveManualRun ''b'' 1300 (fst (onTimerStart plainDeps 1200 1200 ?sv0))) = Runnable 1300" by code_simp
    then show thesis using that by (cases "reserveManualRun ''b'' 1300 sv1") (simp add: start)
  qed
  have st: "cv_store (fst (onTimerStart plainDeps 1200 1200 ?sv0)) \<noteq> None" by code_simp
  then obtain jobs where store: "cv_store sv1 = Some jobs" by (auto simp: start)
  have "(case findJob (serviceJobs (fst (onTimerStart plainDeps 1200 1200 ?sv0))) ''b'' of Some j \<Rightarrow> cj_enabled j | None \<Rightarrow> False)"
    by code_simp
  then obtain job where job: "findJob jobs ''b'' = Some job" "cj_enabled job"
    by (auto simp: start serviceJobs_loaded [OF store] split: option.splits)
  from cron_runs_exclusive [OF reach_step [OF r1 cronStep.reserve [OF res store job]]]
  have d: "distinct [''b'', ''a'']" by (auto simp: inFlight_def)
  have "fst (inspectManualRunPreflight plainDeps ''b'' True 1400 1400 (fst (reserveManualRun ''b'' 1300 (fst (onTimerStart plainDeps 1200 1200 ?sv0)))))
      = fst (reserveManualRun ''b'' 1300 (fst (onTimerStart plainDeps 1200 1200 ?sv0))) \<and>
    snd (inspectManualRunPreflight plainDeps ''b'' True 1400 1400 (fst (reserveManualRun ''b'' 1300 (fst (onTimerStart plainDeps 1200 1200 ?sv0)))))
      = AlreadyRunning" by code_simp
  with d show ?thesis by (simp add: start res)
qed

subsection \<open>Where it ends\<close>

text \<open>A job that is switched off can be run by hand, but the upkeep takes its marker away, also the upkeep that
  precedes the check of a second run.\<close>

definition switchedOff :: cronJob where
  "switchedOff = (demoJob ''d'' (SchedEvery (JNum 60000) (JNum 0)) None)\<lparr>cj_enabled := False\<rparr>"

definition runByHand :: "int \<Rightarrow> cronService \<Rightarrow> cronService \<times> manualRun" where
  "runByHand now sv = (case inspectManualRunPreflight plainDeps ''d'' True now now sv of
     (sv', Runnable t) \<Rightarrow> reserveManualRun ''d'' t sv' | r \<Rightarrow> r)"

lemma disabled_job_runs_twice:
  "case runByHand 1000 (demoService [switchedOff]) of
     (sv', first) \<Rightarrow> first = Runnable 1000 \<and> snd (runByHand 2000 sv') = Runnable 2000"
  by code_simp

text \<open>A run without a limit, or with one of more than two hours, is started again beside itself.\<close>

lemma long_run_starts_again:
  "case runByHand 1000 (demoService [switchedOff\<lparr>cj_enabled := True\<rparr>]) of
     (sv', first) \<Rightarrow> first = Runnable 1000 \<and> snd (runByHand 7200000 sv') = AlreadyRunning \<and>
       snd (runByHand 7201001 sv') = Runnable 7201001"
  by code_simp

text \<open>So is a job that a tick has marked and not started yet, because others of the batch come before it.\<close>

lemma waiting_job_starts_again:
  "case onTimerStart plainDeps 2000 2000 (demoService demoJobs) of
     (sv, due, _) \<Rightarrow> due = Some [''a'', ''b''] \<and>
       (case inspectManualRunPreflight plainDeps ''b'' True 7202001 7202001 sv of
          (sv', Runnable t) \<Rightarrow> snd (reserveManualRun ''b'' t sv') = Runnable t | _ \<Rightarrow> False)"
  by code_simp

text \<open>A patch that is refused stays in memory, and the next operation that writes the file makes it permanent.\<close>

definition refusedPatch :: cronJobPatch where
  "refusedPatch = emptyPatch\<lparr>jp_name := Some (JStr ''renamed''), jp_sessionTarget := Some ''isolated''\<rparr>"

lemma refused_patch_sticks:
  "case updateStoredJob plainDeps ''a'' refusedPatch 500 (demoService demoJobs) of
     (sv', _, err) \<Rightarrow> err \<noteq> None \<and> map cj_name (cv_disk sv') = [''demo'', ''demo''] \<and>
       map cj_name (cv_disk (fst (removeJob plainDeps ''b'' 600 sv'))) = [''renamed'']"
  by code_simp

text \<open>The models to fall back to are part of a patch, but changing a payload leaves them as they are.\<close>

lemma patch_keeps_fallbacks:
  "mergeCronPayload (AgentTurnPayload t) (AgentTurnPatch p) = Inr (AgentTurnPayload t') \<Longrightarrow> at_fallbacks t' = at_fallbacks t"
  by (auto simp: mergeCronPayload_def)

end
