(* ===== verification/Heartbeat_Wake.thy ===== *)
theory Heartbeat_Wake
  imports Js_Values
begin

text \<open>
  Requests to wake an agent for a heartbeat (\<open>src/infra/heartbeat-wake.ts\<close>, \<open>heartbeat-reason.ts\<close>):
  requests for the same target are coalesced into one pending wake, a timer starts a batch of them, and
  a wake that finds the agent busy is tried again. The module's variables are the record \<open>wakeState\<close>;
  the timer, its due time and its kind, which the code always sets and clears together, are one
  optional value with the delay that its callback captures. A batch waits for every call of its handler,
  so that its sections between two awaits are separate steps, and a batch in flight is a value
  \<open>wakeRun\<close> of its own.
\<close>

section \<open>Reasons\<close>

datatype heartbeatReasonKind = RkRetry | RkInterval | RkManual | RkExecEvent | RkWake | RkCron | RkHook | RkOther

definition trimReason :: "string option \<Rightarrow> string" where
  "trimReason reason = (case reason of Some r \<Rightarrow> js_trim r | None \<Rightarrow> [])"

definition normalizeHeartbeatWakeReason :: "string option \<Rightarrow> string" where
  "normalizeHeartbeatWakeReason reason = (let t = trimReason reason in if 0 < length t then t else ''requested'')"

definition resolveHeartbeatReasonKind :: "string option \<Rightarrow> heartbeatReasonKind" where
  "resolveHeartbeatReasonKind reason = (let t = trimReason reason in
     if t = ''retry'' then RkRetry else if t = ''interval'' then RkInterval
     else if t = ''manual'' then RkManual else if t = ''exec-event'' then RkExecEvent
     else if t = ''wake'' then RkWake else if prefix ''acp:spawn:'' t then RkWake
     else if prefix ''cron:'' t then RkCron else if prefix ''hook:'' t then RkHook else RkOther)"

definition isHeartbeatEventDrivenReason :: "string option \<Rightarrow> bool" where
  "isHeartbeatEventDrivenReason reason \<longleftrightarrow> resolveHeartbeatReasonKind reason \<in> {RkExecEvent, RkCron, RkWake, RkHook}"

definition isHeartbeatActionWakeReason :: "string option \<Rightarrow> bool" where
  "isHeartbeatActionWakeReason reason \<longleftrightarrow> resolveHeartbeatReasonKind reason \<in> {RkManual, RkExecEvent, RkHook}"

section \<open>Pending wakes\<close>

record pendingWake =
  pw_reason :: string
  pw_priority :: nat
  pw_requestedAt :: int
  pw_agentId :: "string option"
  pw_sessionKey :: "string option"

datatype wakeTimerKind = NormalTimer | RetryTimer

record wakeTimer =
  wt_dueAt :: int
  wt_kind :: wakeTimerKind
  wt_delay :: int

text \<open>Handlers are compared by identity, so a handler is a number.\<close>

record wakeState =
  hw_enabled :: bool
  hw_handler :: "nat option"
  hw_generation :: nat
  hw_pending :: "(string \<times> pendingWake) list"
  hw_scheduled :: bool
  hw_running :: bool
  hw_timer :: "wakeTimer option"

definition freshWakes :: wakeState where
  "freshWakes = \<lparr>hw_enabled = True, hw_handler = None, hw_generation = 0, hw_pending = [], hw_scheduled = False,
     hw_running = False, hw_timer = None\<rparr>"

definition setHeartbeatsEnabled :: "bool \<Rightarrow> wakeState \<Rightarrow> wakeState" where
  "setHeartbeatsEnabled enabled st = st\<lparr>hw_enabled := enabled\<rparr>"

definition DEFAULT_COALESCE_MS :: int where "DEFAULT_COALESCE_MS = 250"
definition DEFAULT_RETRY_MS :: int where "DEFAULT_RETRY_MS = 1000"

definition resolveReasonPriority :: "string \<Rightarrow> nat" where
  "resolveReasonPriority reason = (case resolveHeartbeatReasonKind (Some reason) of
       RkRetry \<Rightarrow> 0
     | RkInterval \<Rightarrow> 1
     | _ \<Rightarrow> if isHeartbeatActionWakeReason (Some reason) then 3 else 2)"

definition normalizeWakeTarget :: "string option \<Rightarrow> string option" where
  "normalizeWakeTarget v = js_some (case v of Some s \<Rightarrow> js_trim s | None \<Rightarrow> [])"

definition getWakeTargetKey :: "string option \<Rightarrow> string option \<Rightarrow> string" where
  "getWakeTargetKey agentId sessionKey =
     js_or_empty (normalizeWakeTarget agentId) @ ''::'' @ js_or_empty (normalizeWakeTarget sessionKey)"

definition newWake :: "int \<Rightarrow> string option \<Rightarrow> string option \<Rightarrow> string option \<Rightarrow> pendingWake" where
  "newWake requestedAt reason agentId sessionKey =
     \<lparr>pw_reason = normalizeHeartbeatWakeReason reason,
      pw_priority = resolveReasonPriority (normalizeHeartbeatWakeReason reason),
      pw_requestedAt = requestedAt, pw_agentId = normalizeWakeTarget agentId,
      pw_sessionKey = normalizeWakeTarget sessionKey\<rparr>"

text \<open>A pending wake is replaced by one of a higher priority, or of the same and not older.\<close>

definition replaces :: "pendingWake \<Rightarrow> pendingWake \<Rightarrow> bool" where
  "replaces next previous \<longleftrightarrow> pw_priority previous < pw_priority next \<or>
     (pw_priority next = pw_priority previous \<and> pw_requestedAt previous \<le> pw_requestedAt next)"

definition queuePendingWakeReason ::
  "int \<Rightarrow> string option \<Rightarrow> string option \<Rightarrow> string option \<Rightarrow> wakeState \<Rightarrow> wakeState" where
  "queuePendingWakeReason requestedAt reason agentId sessionKey st =
     (let next = newWake requestedAt reason agentId sessionKey;
          key = getWakeTargetKey (normalizeWakeTarget agentId) (normalizeWakeTarget sessionKey)
      in case map_of (hw_pending st) key of
           None \<Rightarrow> st\<lparr>hw_pending := AList.update key next (hw_pending st)\<rparr>
         | Some previous \<Rightarrow>
             if replaces next previous then st\<lparr>hw_pending := AList.update key next (hw_pending st)\<rparr> else st)"

section \<open>The timer\<close>

definition armWake :: "int \<Rightarrow> wakeTimerKind \<Rightarrow> int \<Rightarrow> wakeState \<Rightarrow> wakeState" where
  "armWake dueAt kind delay st = st\<lparr>hw_timer := Some \<lparr>wt_dueAt = dueAt, wt_kind = kind, wt_delay = delay\<rparr>\<rparr>"

definition schedule :: "int \<Rightarrow> int \<Rightarrow> wakeTimerKind \<Rightarrow> wakeState \<Rightarrow> wakeState" where
  "schedule now coalesceMs kind st =
     (let delay = max 0 coalesceMs; dueAt = now + delay in
      case hw_timer st of
        None \<Rightarrow> armWake dueAt kind delay st
      | Some t \<Rightarrow>
          if wt_kind t = RetryTimer then st
          else if wt_dueAt t \<le> dueAt then st
          else armWake dueAt kind delay st)"

text \<open>A batch in flight: the handler that was active, the delay of the timer that started it, the whole
  batch, and what is left of it, of which the first is under way.\<close>

record wakeRun =
  wr_handler :: nat
  wr_delay :: int
  wr_batch :: "pendingWake list"
  wr_rest :: "pendingWake list"

text \<open>The \<open>finally\<close> block.\<close>

definition finishWakes :: "int \<Rightarrow> int \<Rightarrow> wakeState \<Rightarrow> wakeState" where
  "finishWakes now delay st =
     (let st1 = st\<lparr>hw_running := False\<rparr> in
      if hw_pending st \<noteq> [] \<or> hw_scheduled st then schedule now delay NormalTimer st1 else st1)"

definition continueWakes :: "int \<Rightarrow> wakeRun \<Rightarrow> wakeState \<Rightarrow> wakeState \<times> wakeRun option" where
  "continueWakes now r st = (if wr_rest r = [] then (finishWakes now (wr_delay r) st, None) else (st, Some r))"

text \<open>The callback of the timer, up to the first await.\<close>

definition wakeTimerFires :: "int \<Rightarrow> wakeTimer \<Rightarrow> wakeState \<Rightarrow> wakeState \<times> wakeRun option" where
  "wakeTimerFires now t st =
     (let st1 = st\<lparr>hw_timer := None, hw_scheduled := False\<rparr> in
      case hw_handler st of
        None \<Rightarrow> (st1, None)
      | Some active \<Rightarrow>
          if hw_running st
          then (schedule now (wt_delay t) (wt_kind t) (st1\<lparr>hw_scheduled := True\<rparr>), None)
          else continueWakes now
                 \<lparr>wr_handler = active, wr_delay = wt_delay t, wr_batch = map snd (hw_pending st), wr_rest = map snd (hw_pending st)\<rparr>
                 (st1\<lparr>hw_pending := [], hw_running := True\<rparr>))"

datatype heartbeatRunResult = HbRan int | HbSkipped string | HbFailed string

definition requeueWake :: "int \<Rightarrow> pendingWake \<Rightarrow> wakeState \<Rightarrow> wakeState" where
  "requeueWake now p st = queuePendingWakeReason now (Some (pw_reason p)) (pw_agentId p) (pw_sessionKey p) st"

text \<open>What follows an await: the answer of the handler, or that it threw.\<close>

definition wakeAnswered :: "int \<Rightarrow> wakeRun \<Rightarrow> heartbeatRunResult \<Rightarrow> wakeState \<Rightarrow> wakeState \<times> wakeRun option" where
  "wakeAnswered now r res st =
     continueWakes now (r\<lparr>wr_rest := tl (wr_rest r)\<rparr>)
       (if res = HbSkipped ''requests-in-flight''
        then schedule now DEFAULT_RETRY_MS RetryTimer (requeueWake now (hd (wr_rest r)) st) else st)"

definition wakeThrew :: "int \<Rightarrow> wakeRun \<Rightarrow> wakeState \<Rightarrow> wakeState" where
  "wakeThrew now r st =
     finishWakes now (wr_delay r) (schedule now DEFAULT_RETRY_MS RetryTimer (fold (requeueWake now) (wr_batch r) st))"

section \<open>Handlers and requests\<close>

definition setHeartbeatWakeHandler :: "int \<Rightarrow> nat option \<Rightarrow> wakeState \<Rightarrow> wakeState \<times> nat" where
  "setHeartbeatWakeHandler now next st =
     (let generation = Suc (hw_generation st);
          st1 = st\<lparr>hw_generation := generation, hw_handler := next\<rparr>;
          st2 = (if next \<noteq> None then st1\<lparr>hw_timer := None, hw_running := False, hw_scheduled := False\<rparr> else st1)
      in (if next \<noteq> None \<and> hw_pending st \<noteq> [] then schedule now DEFAULT_COALESCE_MS NormalTimer st2 else st2, generation))"

text \<open>The disposer that the registration returned.\<close>

definition disposeWakeHandler :: "nat \<Rightarrow> nat option \<Rightarrow> wakeState \<Rightarrow> wakeState" where
  "disposeWakeHandler generation next st =
     (if hw_generation st \<noteq> generation \<or> hw_handler st \<noteq> next then st
      else st\<lparr>hw_generation := Suc (hw_generation st), hw_handler := None\<rparr>)"

definition requestHeartbeatNow ::
  "int \<Rightarrow> string option \<Rightarrow> int option \<Rightarrow> string option \<Rightarrow> string option \<Rightarrow> wakeState \<Rightarrow> wakeState" where
  "requestHeartbeatNow now reason coalesceMs agentId sessionKey st =
     schedule now (js_default coalesceMs DEFAULT_COALESCE_MS) NormalTimer
       (queuePendingWakeReason now reason agentId sessionKey st)"

definition hasPendingHeartbeatWake :: "wakeState \<Rightarrow> bool" where
  "hasPendingHeartbeatWake st \<longleftrightarrow> hw_pending st \<noteq> [] \<or> hw_timer st \<noteq> None \<or> hw_scheduled st"

section \<open>Runs of the module\<close>

text \<open>The state with the batches in flight, the clock, and the targets that are owed a call: those that
  were requested, or whose call found the agent busy or threw, and were not called since.\<close>

record wakeWorld =
  ww_state :: wakeState
  ww_runs :: "wakeRun list"
  ww_now :: int
  ww_owed :: "string set"

definition wakeKey :: "pendingWake \<Rightarrow> string" where
  "wakeKey p = getWakeTargetKey (pw_agentId p) (pw_sessionKey p)"

definition optRun :: "wakeRun option \<Rightarrow> wakeRun list" where
  "optRun r = (case r of None \<Rightarrow> [] | Some x \<Rightarrow> [x])"

definition called :: "wakeRun option \<Rightarrow> string set \<Rightarrow> string set" where
  "called r owed = (case r of None \<Rightarrow> owed | Some x \<Rightarrow> owed - {wakeKey (hd (wr_rest x))})"

inductive wakeStep :: "wakeWorld \<Rightarrow> wakeWorld \<Rightarrow> bool" where
  request: "ww_now w \<le> now \<Longrightarrow>
    wakeStep w (w\<lparr>ww_state := requestHeartbeatNow now reason coalesceMs agentId sessionKey (ww_state w),
      ww_now := now, ww_owed := insert (getWakeTargetKey agentId sessionKey) (ww_owed w)\<rparr>)"
| register: "ww_now w \<le> now \<Longrightarrow> setHeartbeatWakeHandler now next (ww_state w) = (st, generation) \<Longrightarrow>
    wakeStep w (w\<lparr>ww_state := st, ww_now := now\<rparr>)"
| dispose: "wakeStep w (w\<lparr>ww_state := disposeWakeHandler generation next (ww_state w)\<rparr>)"
| fires: "ww_now w \<le> now \<Longrightarrow> hw_timer (ww_state w) = Some t \<Longrightarrow> wt_dueAt t \<le> now \<Longrightarrow>
    wakeTimerFires now t (ww_state w) = (st, r) \<Longrightarrow>
    wakeStep w (w\<lparr>ww_state := st, ww_now := now, ww_runs := ww_runs w @ optRun r, ww_owed := called r (ww_owed w)\<rparr>)"
| answered: "ww_now w \<le> now \<Longrightarrow> ww_runs w = before @ x # after \<Longrightarrow>
    wakeAnswered now x res (ww_state w) = (st, r) \<Longrightarrow>
    wakeStep w (w\<lparr>ww_state := st, ww_now := now, ww_runs := before @ optRun r @ after,
      ww_owed := called r (if res = HbSkipped ''requests-in-flight'' then insert (wakeKey (hd (wr_rest x))) (ww_owed w)
        else ww_owed w)\<rparr>)"
| threw: "ww_now w \<le> now \<Longrightarrow> ww_runs w = before @ x # after \<Longrightarrow>
    wakeStep w (w\<lparr>ww_state := wakeThrew now x (ww_state w), ww_now := now, ww_runs := before @ after,
      ww_owed := ww_owed w \<union> wakeKey ` set (wr_batch x)\<rparr>)"

definition startWorld :: "int \<Rightarrow> wakeWorld" where
  "startWorld now = \<lparr>ww_state = freshWakes, ww_runs = [], ww_now = now, ww_owed = {}\<rparr>"

inductive wakeReach :: "wakeWorld \<Rightarrow> bool" where
  start: "wakeReach (startWorld now)"
| step: "wakeReach w \<Longrightarrow> wakeStep w w' \<Longrightarrow> wakeReach w'"

section \<open>Lemmas on the operations\<close>

named_theorems wake_simps \<open>what the parts of an operation keep\<close>

lemma normalizeWakeTarget_idem [simp]: "normalizeWakeTarget (normalizeWakeTarget v) = normalizeWakeTarget v"
  by (simp add: normalizeWakeTarget_def js_some_def split: option.split)

lemma getWakeTargetKey_normal [simp]:
  "getWakeTargetKey (normalizeWakeTarget a) (normalizeWakeTarget s) = getWakeTargetKey a s"
  by (simp add: getWakeTargetKey_def)

lemma queue_simps [wake_simps]:
  "hw_handler (queuePendingWakeReason at r a s st) = hw_handler st"
  "hw_generation (queuePendingWakeReason at r a s st) = hw_generation st"
  "hw_running (queuePendingWakeReason at r a s st) = hw_running st"
  "hw_scheduled (queuePendingWakeReason at r a s st) = hw_scheduled st"
  "hw_timer (queuePendingWakeReason at r a s st) = hw_timer st"
  by (simp_all add: queuePendingWakeReason_def Let_def split: option.split)

lemma queue_keys [wake_simps]:
  "fst ` set (hw_pending (queuePendingWakeReason at r a s st)) = insert (getWakeTargetKey a s) (fst ` set (hw_pending st))"
  by (auto simp: queuePendingWakeReason_def Let_def dom_update [symmetric] dom_map_of_conv_image_fst [symmetric]
      update_conv' split: option.split if_splits)

lemma schedule_simps [wake_simps]:
  "hw_handler (schedule now c k st) = hw_handler st"
  "hw_generation (schedule now c k st) = hw_generation st"
  "hw_running (schedule now c k st) = hw_running st"
  "hw_scheduled (schedule now c k st) = hw_scheduled st"
  "hw_pending (schedule now c k st) = hw_pending st"
  "hw_timer (schedule now c k st) \<noteq> None"
  by (simp_all add: schedule_def armWake_def Let_def split: option.split)

text \<open>The timer that is armed after scheduling is the new one, or one that may stay.\<close>

lemma schedule_timer:
  "hw_timer (schedule now c k st) = Some t \<Longrightarrow>
     t = \<lparr>wt_dueAt = now + max 0 c, wt_kind = k, wt_delay = max 0 c\<rparr> \<or>
     (hw_timer st = Some t \<and> (wt_kind t = RetryTimer \<or> wt_dueAt t \<le> now + max 0 c))"
  by (auto simp: schedule_def armWake_def Let_def split: option.splits if_splits)

text \<open>A timer of the kind that makes a retry wait is never further away than a second; no timer is further away
  than its delay.\<close>

definition timerOk :: "int \<Rightarrow> wakeState \<Rightarrow> bool" where
  "timerOk now st \<longleftrightarrow> (case hw_timer st of None \<Rightarrow> True
     | Some t \<Rightarrow> wt_dueAt t \<le> now + wt_delay t \<and> (wt_kind t = RetryTimer \<longrightarrow> wt_delay t = DEFAULT_RETRY_MS))"

lemma timerOk_schedule:
  assumes "timerOk now st" and "k = RetryTimer \<Longrightarrow> max 0 c = DEFAULT_RETRY_MS"
  shows "timerOk now (schedule now c k st)"
proof -
  obtain t where t: "hw_timer (schedule now c k st) = Some t"
    using schedule_simps(6) [of now c k st] by auto
  from schedule_timer [OF t] show ?thesis using assms t by (auto simp: timerOk_def)
qed

lemma timerOk_normal [simp]: "timerOk now st \<Longrightarrow> timerOk now (schedule now c NormalTimer st)"
  by (rule timerOk_schedule) simp_all

lemma timerOk_retry [simp]: "timerOk now st \<Longrightarrow> timerOk now (schedule now DEFAULT_RETRY_MS RetryTimer st)"
  by (rule timerOk_schedule) (simp_all add: DEFAULT_RETRY_MS_def)

lemma timerOk_later: "timerOk now st \<Longrightarrow> now \<le> now' \<Longrightarrow> timerOk now' st"
  by (auto simp: timerOk_def split: option.splits)

lemma timerOk_simps [simp]:
  "timerOk now (st\<lparr>hw_running := b\<rparr>) = timerOk now st"
  "timerOk now (st\<lparr>hw_scheduled := b\<rparr>) = timerOk now st"
  "timerOk now (st\<lparr>hw_pending := ps\<rparr>) = timerOk now st"
  "timerOk now (st\<lparr>hw_handler := h\<rparr>) = timerOk now st"
  "timerOk now (st\<lparr>hw_generation := g\<rparr>) = timerOk now st"
  "timerOk now (st\<lparr>hw_timer := None\<rparr>)"
  by (simp_all add: timerOk_def)

lemma timerOk_queue [simp]: "timerOk now (queuePendingWakeReason at r a s st) = timerOk now st"
  by (simp add: timerOk_def wake_simps)

text \<open>With a handler, whatever is pending has a timer.\<close>

definition wakeArmed :: "wakeState \<Rightarrow> bool" where
  "wakeArmed st \<longleftrightarrow> (hw_pending st \<noteq> [] \<and> hw_handler st \<noteq> None \<longrightarrow> hw_timer st \<noteq> None)"

lemma wakeArmed_schedule [simp]: "wakeArmed (schedule now c k st)"
  by (simp add: wakeArmed_def wake_simps)

lemma finish_simps [wake_simps]:
  "hw_handler (finishWakes now d st) = hw_handler st"
  "hw_generation (finishWakes now d st) = hw_generation st"
  "hw_pending (finishWakes now d st) = hw_pending st"
  "\<not> hw_running (finishWakes now d st)"
  by (simp_all add: finishWakes_def Let_def wake_simps)

lemma wakeArmed_finish [simp]: "wakeArmed (finishWakes now d st)"
  by (simp add: finishWakes_def Let_def) (simp add: wakeArmed_def)

lemma timerOk_finish: "timerOk now st \<Longrightarrow> timerOk now (finishWakes now d st)"
  by (simp add: finishWakes_def Let_def)

lemma requeue_fold [wake_simps]:
  "hw_handler (fold (requeueWake now) ps st) = hw_handler st"
  "hw_generation (fold (requeueWake now) ps st) = hw_generation st"
  "hw_running (fold (requeueWake now) ps st) = hw_running st"
  "hw_timer (fold (requeueWake now) ps st) = hw_timer st"
  "fst ` set (hw_pending (fold (requeueWake now) ps st)) = wakeKey ` set ps \<union> fst ` set (hw_pending st)"
  by (induction ps arbitrary: st) (simp_all add: requeueWake_def wake_simps wakeKey_def)

section \<open>The invariant\<close>

text \<open>Every pending wake stands under the key of its target.\<close>

definition keyed :: "wakeState \<Rightarrow> bool" where
  "keyed st \<longleftrightarrow> (\<forall>(k, p) \<in> set (hw_pending st). k = wakeKey p)"

lemma keyed_keys: "keyed st \<Longrightarrow> wakeKey ` snd ` set (hw_pending st) = fst ` set (hw_pending st)"
  by (force simp: keyed_def image_def)

lemma keyed_queue: "keyed st \<Longrightarrow> keyed (queuePendingWakeReason at r a s st)"
proof -
  assume k: "keyed st"
  have "keyed (st\<lparr>hw_pending := AList.update (getWakeTargetKey a s) (newWake at r a s) (hw_pending st)\<rparr>)"
    using k set_update_subset [of "getWakeTargetKey a s" "newWake at r a s" "hw_pending st"]
    by (auto simp: keyed_def wakeKey_def newWake_def)
  with k show ?thesis by (simp add: queuePendingWakeReason_def Let_def split: option.split)
qed

lemma keyed_simps [simp]:
  "keyed (st\<lparr>hw_running := b\<rparr>) = keyed st"
  "keyed (st\<lparr>hw_scheduled := b\<rparr>) = keyed st"
  "keyed (st\<lparr>hw_timer := t\<rparr>) = keyed st"
  "keyed (st\<lparr>hw_handler := h\<rparr>) = keyed st"
  "keyed (st\<lparr>hw_generation := g\<rparr>) = keyed st"
  "keyed (st\<lparr>hw_pending := []\<rparr>)"
  "keyed (schedule now c k st) = keyed st"
  "keyed (finishWakes now d st) = keyed st"
  by (simp_all add: keyed_def wake_simps)

lemma keyed_requeue: "keyed st \<Longrightarrow> keyed (fold (requeueWake now) ps st)"
  by (induction ps arbitrary: st) (simp_all add: requeueWake_def keyed_queue)

lemma timerOk_requeue [simp]: "timerOk now (fold (requeueWake now) ps st) = timerOk now st"
  by (simp add: timerOk_def wake_simps)

text \<open>A good state: keyed, armed, with a timer that is near.\<close>

definition wakeOk :: "int \<Rightarrow> wakeState \<Rightarrow> bool" where
  "wakeOk now st \<longleftrightarrow> keyed st \<and> wakeArmed st \<and> timerOk now st"

lemma wakeOk_later: "wakeOk now st \<Longrightarrow> now \<le> now' \<Longrightarrow> wakeOk now' st"
  by (auto simp: wakeOk_def timerOk_later)

lemma wakeOk_continue:
  assumes "wakeOk now st" "continueWakes now r st = (st', r')"
  shows "wakeOk now st'" "fst ` set (hw_pending st') = fst ` set (hw_pending st)"
    "r' = (if wr_rest r = [] then None else Some r)"
  using assms by (auto simp: wakeOk_def continueWakes_def timerOk_finish wake_simps split: if_splits)

lemma wakeOk_request: "wakeOk now st \<Longrightarrow> wakeOk now (requestHeartbeatNow now reason c a s st)"
  by (simp add: wakeOk_def requestHeartbeatNow_def keyed_queue)

lemma wakeOk_register:
  assumes "wakeOk now st" "setHeartbeatWakeHandler now next st = (st', g)"
  shows "wakeOk now st'" "hw_pending st' = hw_pending st"
proof -
  have "wakeOk now (fst (setHeartbeatWakeHandler now next st)) \<and>
      hw_pending (fst (setHeartbeatWakeHandler now next st)) = hw_pending st"
  proof (cases "next = None \<or> hw_pending st = []")
    case True
    with assms(1) show ?thesis
      by (auto simp: wakeOk_def setHeartbeatWakeHandler_def Let_def wakeArmed_def keyed_def)
  next
    case False
    with assms(1) show ?thesis by (simp add: wakeOk_def setHeartbeatWakeHandler_def Let_def wake_simps)
  qed
  with assms(2) show "wakeOk now st'" "hw_pending st' = hw_pending st" by simp_all
qed

lemma wakeOk_dispose: "wakeOk now st \<Longrightarrow> wakeOk now (disposeWakeHandler g next st)"
  by (simp add: wakeOk_def disposeWakeHandler_def wakeArmed_def)

lemma dispose_pending [simp]: "hw_pending (disposeWakeHandler g next st) = hw_pending st"
  by (simp add: disposeWakeHandler_def)

text \<open>When the timer fires, the wakes stay pending or become the batch.\<close>

lemma wakeOk_fires:
  assumes ok: "wakeOk now st" and t: "hw_timer st = Some t" and f: "wakeTimerFires now t st = (st', r)"
  shows "wakeOk now st' \<and>
    (case r of None \<Rightarrow> fst ` set (hw_pending st') = fst ` set (hw_pending st)
     | Some x \<Rightarrow> wr_rest x \<noteq> [] \<and> wr_batch x = wr_rest x \<and> wakeKey ` set (wr_rest x) = fst ` set (hw_pending st))"
proof (cases "hw_handler st")
  case None
  with ok f show ?thesis by (auto simp: wakeTimerFires_def Let_def wakeOk_def wakeArmed_def)
next
  case (Some h)
  show ?thesis
  proof (cases "hw_running st")
    case True
    have "timerOk now (schedule now (wt_delay t) (wt_kind t) (st\<lparr>hw_timer := None, hw_scheduled := True\<rparr>))"
      by (rule timerOk_schedule) (use ok t in \<open>simp_all add: wakeOk_def timerOk_def DEFAULT_RETRY_MS_def\<close>)
    with True Some ok f show ?thesis
      by (auto simp: wakeTimerFires_def Let_def wakeOk_def wake_simps)
  next
    case False
    let ?r = "\<lparr>wr_handler = h, wr_delay = wt_delay t, wr_batch = map snd (hw_pending st), wr_rest = map snd (hw_pending st)\<rparr>"
    let ?st = "st\<lparr>hw_timer := None, hw_scheduled := False, hw_pending := [], hw_running := True\<rparr>"
    have "wakeOk now ?st" by (simp add: wakeOk_def wakeArmed_def)
    moreover have "continueWakes now ?r ?st = (st', r)"
      using f Some False by (simp add: wakeTimerFires_def Let_def)
    ultimately show ?thesis
      using wakeOk_continue [of now ?st ?r st' r] ok
      by (auto simp: wakeOk_def keyed_keys [symmetric] image_image split: if_splits)
  qed
qed

lemma wakeOk_answered:
  assumes "wakeOk now st" "wakeAnswered now x res st = (st', r)"
  shows "wakeOk now st'"
    "fst ` set (hw_pending st') = (if res = HbSkipped ''requests-in-flight'' then insert (wakeKey (hd (wr_rest x))) (fst ` set (hw_pending st))
       else fst ` set (hw_pending st))"
    "r = (if tl (wr_rest x) = [] then None else Some (x\<lparr>wr_rest := tl (wr_rest x)\<rparr>))"
proof -
  let ?st = "if res = HbSkipped ''requests-in-flight''
        then schedule now DEFAULT_RETRY_MS RetryTimer (requeueWake now (hd (wr_rest x)) st) else st"
  have "wakeOk now ?st"
    using assms(1) by (simp add: wakeOk_def requeueWake_def keyed_queue)
  note c = wakeOk_continue [OF this assms(2) [unfolded wakeAnswered_def]]
  show "wakeOk now st'" by (rule c(1))
  show "r = (if tl (wr_rest x) = [] then None else Some (x\<lparr>wr_rest := tl (wr_rest x)\<rparr>))" using c(3) by simp
  show "fst ` set (hw_pending st') = (if res = HbSkipped ''requests-in-flight'' then insert (wakeKey (hd (wr_rest x))) (fst ` set (hw_pending st))
       else fst ` set (hw_pending st))"
    using c(2) by (simp add: requeueWake_def wake_simps wakeKey_def)
qed

lemma wakeOk_threw:
  assumes "wakeOk now st"
  shows "wakeOk now (wakeThrew now x st)"
    "fst ` set (hw_pending (wakeThrew now x st)) = wakeKey ` set (wr_batch x) \<union> fst ` set (hw_pending st)"
  using assms by (simp_all add: wakeOk_def wakeThrew_def keyed_requeue timerOk_finish wake_simps)

definition worldOk :: "wakeWorld \<Rightarrow> bool" where
  "worldOk w \<longleftrightarrow> wakeOk (ww_now w) (ww_state w) \<and>
     (\<forall>r \<in> set (ww_runs w). wr_rest r \<noteq> [] \<and> set (wr_rest r) \<subseteq> set (wr_batch r)) \<and>
     ww_owed w \<subseteq> fst ` set (hw_pending (ww_state w)) \<union> (\<Union>r \<in> set (ww_runs w). wakeKey ` set (tl (wr_rest r)))"

lemma worldOkI:
  assumes "wakeOk now st"
    and "\<And>r. r \<in> set runs \<Longrightarrow> wr_rest r \<noteq> [] \<and> set (wr_rest r) \<subseteq> set (wr_batch r)"
    and "owed \<subseteq> fst ` set (hw_pending st) \<union> (\<Union>r \<in> set runs. wakeKey ` set (tl (wr_rest r)))"
  shows "worldOk (w\<lparr>ww_state := st, ww_now := now, ww_runs := runs, ww_owed := owed\<rparr>)"
  using assms by (simp add: worldOk_def)

lemma set_optRun [simp]: "set (optRun r) = set_option r"
  by (cases r) (simp_all add: optRun_def)

lemma called_Some: "called (Some x) owed = owed - {wakeKey (hd (wr_rest x))}" "called None owed = owed"
  by (simp_all add: called_def)

lemma keys_hd_tl: "xs \<noteq> [] \<Longrightarrow> wakeKey ` set xs \<subseteq> insert (wakeKey (hd xs)) (wakeKey ` set (tl xs))"
  by (cases xs) auto

lemma owed_moves: "A \<subseteq> P \<union> R \<Longrightarrow> P \<subseteq> insert h T \<Longrightarrow> A - {h} \<subseteq> X \<union> (T \<union> R)"
  by blast

lemma worldOk_step:
  assumes "wakeStep w w'" "worldOk w"
  shows "worldOk w'"
proof -
  from assms(2) have ok: "wakeOk (ww_now w) (ww_state w)"
    and runs: "\<And>r. r \<in> set (ww_runs w) \<Longrightarrow> wr_rest r \<noteq> [] \<and> set (wr_rest r) \<subseteq> set (wr_batch r)"
    and owed: "ww_owed w \<subseteq> fst ` set (hw_pending (ww_state w)) \<union> (\<Union>r \<in> set (ww_runs w). wakeKey ` set (tl (wr_rest r)))"
    by (auto simp: worldOk_def)
  from assms(1) show ?thesis
  proof cases
    case (request now a s reason c)
    have "worldOk (w\<lparr>ww_state := requestHeartbeatNow now reason c a s (ww_state w), ww_now := now,
        ww_runs := ww_runs w, ww_owed := insert (getWakeTargetKey a s) (ww_owed w)\<rparr>)"
      by (rule worldOkI) (use wakeOk_request [OF wakeOk_later [OF ok request(2)]] runs owed in
          \<open>auto simp: requestHeartbeatNow_def wake_simps\<close>)
    with request show ?thesis by simp
  next
    case (register now h st g)
    note r = wakeOk_register [OF wakeOk_later [OF ok register(2)] register(3)]
    have "worldOk (w\<lparr>ww_state := st, ww_now := now, ww_runs := ww_runs w, ww_owed := ww_owed w\<rparr>)"
      by (rule worldOkI) (use r runs owed in auto)
    with register show ?thesis by simp
  next
    case (dispose g h)
    have "worldOk (w\<lparr>ww_state := disposeWakeHandler g h (ww_state w), ww_now := ww_now w, ww_runs := ww_runs w, ww_owed := ww_owed w\<rparr>)"
      by (rule worldOkI) (use wakeOk_dispose [OF ok] runs owed in auto)
    with dispose show ?thesis by simp
  next
    case (fires now t st r)
    note f = wakeOk_fires [OF wakeOk_later [OF ok fires(2)] fires(3,5)]
    have "worldOk (w\<lparr>ww_state := st, ww_now := now, ww_runs := ww_runs w @ optRun r, ww_owed := called r (ww_owed w)\<rparr>)"
    proof (rule worldOkI)
      show "called r (ww_owed w) \<subseteq> fst ` set (hw_pending st) \<union>
          (\<Union>r \<in> set (ww_runs w @ optRun r). wakeKey ` set (tl (wr_rest r)))"
      proof (cases r)
        case None
        with f owed show ?thesis by (auto simp: called_Some)
      next
        case (Some x)
        with f have "fst ` set (hw_pending (ww_state w)) \<subseteq> insert (wakeKey (hd (wr_rest x))) (wakeKey ` set (tl (wr_rest x)))"
          using keys_hd_tl [of "wr_rest x"] by simp
        from owed_moves [OF owed this] Some show ?thesis by (simp add: called_Some)
      qed
    qed (use f runs in \<open>auto split: option.splits\<close>)
    with fires show ?thesis by simp
  next
    case (answered now before x after res st r)
    note a = wakeOk_answered [OF wakeOk_later [OF ok answered(2)] answered(4)]
    let ?owed = "if res = HbSkipped ''requests-in-flight'' then insert (wakeKey (hd (wr_rest x))) (ww_owed w) else ww_owed w"
    have x: "wr_rest x \<noteq> []" "set (wr_rest x) \<subseteq> set (wr_batch x)" using runs answered(3) by auto
    have pend: "?owed \<subseteq> fst ` set (hw_pending st) \<union>
        (\<Union>r \<in> set (before @ after). wakeKey ` set (tl (wr_rest r))) \<union> wakeKey ` set (tl (wr_rest x))"
      using owed answered(3) a(2) by auto
    have "worldOk (w\<lparr>ww_state := st, ww_now := now, ww_runs := before @ optRun r @ after, ww_owed := called r ?owed\<rparr>)"
    proof (rule worldOkI)
      show "called r ?owed \<subseteq> fst ` set (hw_pending st) \<union>
          (\<Union>r \<in> set (before @ optRun r @ after). wakeKey ` set (tl (wr_rest r)))"
      proof (cases "tl (wr_rest x) = []")
        case True
        with a(3) pend show ?thesis by (simp add: called_Some)
      next
        case False
        let ?R = "fst ` set (hw_pending st) \<union> (\<Union>r \<in> set (before @ after). wakeKey ` set (tl (wr_rest r)))"
        from pend have "?owed \<subseteq> wakeKey ` set (tl (wr_rest x)) \<union> ?R" by (simp add: Un_ac)
        from owed_moves [OF this keys_hd_tl [OF False], of "{}"]
        have "?owed - {wakeKey (hd (tl (wr_rest x)))} \<subseteq> wakeKey ` set (tl (tl (wr_rest x))) \<union> ?R" by simp
        moreover have "r = Some (x\<lparr>wr_rest := tl (wr_rest x)\<rparr>)" using a(3) False by simp
        ultimately show ?thesis by (simp add: called_Some Un_ac)
      qed
    next
      fix q assume "q \<in> set (before @ optRun r @ after)"
      then consider "q \<in> set before \<union> set after" | "q = x\<lparr>wr_rest := tl (wr_rest x)\<rparr>" "tl (wr_rest x) \<noteq> []"
        using a(3) by (auto split: if_splits)
      then show "wr_rest q \<noteq> [] \<and> set (wr_rest q) \<subseteq> set (wr_batch q)"
        by cases (use runs answered(3) x list.set_sel(2) [OF x(1)] in auto)
    qed (rule a(1))
    with answered show ?thesis by simp
  next
    case (threw now before x after)
    note t = wakeOk_threw [OF wakeOk_later [OF ok threw(2)], of x]
    have "worldOk (w\<lparr>ww_state := wakeThrew now x (ww_state w), ww_now := now, ww_runs := before @ after,
        ww_owed := ww_owed w \<union> wakeKey ` set (wr_batch x)\<rparr>)"
    proof (rule worldOkI)
      have x: "set (tl (wr_rest x)) \<subseteq> set (wr_batch x)"
        using runs [of x] threw(3) list.set_sel(2) [of "wr_rest x"] by auto
      show "ww_owed w \<union> wakeKey ` set (wr_batch x) \<subseteq> fst ` set (hw_pending (wakeThrew now x (ww_state w))) \<union>
          (\<Union>r \<in> set (before @ after). wakeKey ` set (tl (wr_rest r)))"
        using owed threw(3) t(2) image_mono [OF x, of wakeKey] by auto
    qed (use t runs threw(3) in auto)
    with threw show ?thesis by simp
  qed
qed

lemma worldOk_reach: "wakeReach w \<Longrightarrow> worldOk w"
proof (induction rule: wakeReach.induct)
  case (start now)
  show ?case by (simp add: worldOk_def startWorld_def freshWakes_def wakeOk_def keyed_def wakeArmed_def timerOk_def)
next
  case (step w w')
  then show ?case by (blast intro: worldOk_step)
qed

section \<open>What is promised\<close>

text \<open>C21: Liveness of heartbeats: whatever the interleaving of requests, timers, answers, failures and
  registrations, a target that was requested (or whose call found the agent busy, or threw) and was not
  called since is next in a batch that is under way, or it is pending; and what is pending is under a
  timer as soon as there is a handler. No request is lost.\<close>

theorem heartbeat_wake_never_lost:
  assumes "wakeReach w" "k \<in> ww_owed w"
  shows "(\<exists>r \<in> set (ww_runs w). k \<in> wakeKey ` set (tl (wr_rest r))) \<or>
    (k \<in> fst ` set (hw_pending (ww_state w)) \<and> (hw_handler (ww_state w) \<noteq> None \<longrightarrow> hw_timer (ww_state w) \<noteq> None))"
proof -
  note ok = worldOk_reach [OF assms(1), unfolded worldOk_def wakeOk_def]
  from ok assms(2) consider "k \<in> fst ` set (hw_pending (ww_state w))"
    | "k \<in> (\<Union>r \<in> set (ww_runs w). wakeKey ` set (tl (wr_rest r)))" by blast
  then show ?thesis
  proof cases
    case 1
    then have "hw_pending (ww_state w) \<noteq> []" by auto
    with 1 ok show ?thesis by (auto simp: wakeArmed_def)
  qed blast
qed

text \<open>A timer is near: after a request it fires within the wait that was asked for, or within the second of a retry.\<close>

lemma wake_request_prompt:
  assumes "wakeReach w" "ww_now w \<le> now"
  shows "\<exists>t. hw_timer (requestHeartbeatNow now reason coalesceMs agentId sessionKey (ww_state w)) = Some t \<and>
    wt_dueAt t \<le> now + (if wt_kind t = RetryTimer then DEFAULT_RETRY_MS else max 0 (js_default coalesceMs DEFAULT_COALESCE_MS))"
proof -
  let ?q = "queuePendingWakeReason now reason agentId sessionKey (ww_state w)"
  let ?st = "schedule now (js_default coalesceMs DEFAULT_COALESCE_MS) NormalTimer ?q"
  from worldOk_reach [OF assms(1)] have "timerOk now (ww_state w)"
    using timerOk_later [OF _ assms(2)] by (simp add: worldOk_def wakeOk_def)
  moreover obtain t where t: "hw_timer ?st = Some t"
    using schedule_simps(6) by fastforce
  ultimately show ?thesis
    using schedule_timer [OF t] by (auto simp: requestHeartbeatNow_def timerOk_def wake_simps)
qed

text \<open>The steps as functions, which a run can be computed with.\<close>

definition doRequest :: "int \<Rightarrow> string \<Rightarrow> string \<Rightarrow> wakeWorld \<Rightarrow> wakeWorld" where
  "doRequest now reason agentId w = (if ww_now w \<le> now then
     w\<lparr>ww_state := requestHeartbeatNow now (Some reason) None (Some agentId) None (ww_state w), ww_now := now,
       ww_owed := insert (getWakeTargetKey (Some agentId) None) (ww_owed w)\<rparr> else w)"

definition doRegister :: "int \<Rightarrow> nat \<Rightarrow> wakeWorld \<Rightarrow> wakeWorld" where
  "doRegister now h w = (if ww_now w \<le> now then
     w\<lparr>ww_state := fst (setHeartbeatWakeHandler now (Some h) (ww_state w)), ww_now := now\<rparr> else w)"

definition doFire :: "int \<Rightarrow> wakeWorld \<Rightarrow> wakeWorld" where
  "doFire now w = (case hw_timer (ww_state w) of None \<Rightarrow> w
     | Some t \<Rightarrow> if ww_now w \<le> now \<and> wt_dueAt t \<le> now
         then (case wakeTimerFires now t (ww_state w) of (st, r) \<Rightarrow>
           w\<lparr>ww_state := st, ww_now := now, ww_runs := ww_runs w @ optRun r, ww_owed := called r (ww_owed w)\<rparr>) else w)"

definition doAnswer :: "int \<Rightarrow> heartbeatRunResult \<Rightarrow> wakeWorld \<Rightarrow> wakeWorld" where
  "doAnswer now res w = (case ww_runs w of [] \<Rightarrow> w
     | x # after \<Rightarrow> if ww_now w \<le> now
         then (case wakeAnswered now x res (ww_state w) of (st, r) \<Rightarrow>
           w\<lparr>ww_state := st, ww_now := now, ww_runs := optRun r @ after,
             ww_owed := called r (if res = HbSkipped ''requests-in-flight'' then insert (wakeKey (hd (wr_rest x))) (ww_owed w)
               else ww_owed w)\<rparr>) else w)"

lemma do_steps:
  assumes "wakeReach w"
  shows "wakeReach (doRequest now reason agentId w)" "wakeReach (doRegister now h w)"
    "wakeReach (doFire now w)" "wakeReach (doAnswer now res w)"
proof -
  show "wakeReach (doRequest now reason agentId w)"
    using assms by (auto simp: doRequest_def intro: wakeReach.step wakeStep.request)
  show "wakeReach (doRegister now h w)"
    using assms by (auto simp: doRegister_def intro!: wakeReach.step [OF assms] wakeStep.register prod.collapse [symmetric])
  show "wakeReach (doFire now w)"
    using assms by (auto simp: doFire_def split: option.split prod.split intro!: wakeReach.step [OF assms] wakeStep.fires)
  show "wakeReach (doAnswer now res w)"
  proof (cases "ww_runs w")
    case (Cons x after)
    obtain st r where a: "wakeAnswered now x res (ww_state w) = (st, r)" by fastforce
    from wakeStep.answered [of w now "[]" x after, OF _ _ a] Cons a show ?thesis
      by (auto simp: doAnswer_def assms intro: wakeReach.step [OF assms])
  qed (simp add: doAnswer_def assms)
qed

theorem heartbeat_wake_never_lost_witness:
  "''main::'' \<in> fst ` set (hw_pending (ww_state (doRequest 9 ''manual'' ''main'' (doRegister 5 1 (startWorld 0))))) \<and>
   hw_timer (ww_state (doRequest 9 ''manual'' ''main'' (doRegister 5 1 (startWorld 0)))) \<noteq> None"
proof -
  let ?w = "doRequest 9 ''manual'' ''main'' (doRegister 5 1 (startWorld 0))"
  have "wakeReach ?w" by (intro do_steps wakeReach.start)
  moreover have "''main::'' \<in> ww_owed ?w" by code_simp
  moreover have "ww_runs ?w = []" "hw_handler (ww_state ?w) = Some 1" by code_simp+
  ultimately show ?thesis using heartbeat_wake_never_lost [of ?w "''main::''"] by simp
qed

section \<open>Coalescing\<close>

text \<open>Of requests for one target that wait together, the one of the highest priority is kept, and of those the
  last.\<close>

definition wakeBurst :: "string option \<Rightarrow> string option \<Rightarrow> (int \<times> string option) list \<Rightarrow> wakeState \<Rightarrow> wakeState" where
  "wakeBurst a s reqs st = fold (\<lambda>(at, reason). queuePendingWakeReason at reason a s) reqs st"

definition requestPriority :: "int \<times> string option \<Rightarrow> nat" where
  "requestPriority q = resolveReasonPriority (normalizeHeartbeatWakeReason (snd q))"

definition strongest :: "(int \<times> string option) list \<Rightarrow> int \<times> string option" where
  "strongest reqs = foldl (\<lambda>best q. if requestPriority best \<le> requestPriority q then q else best) (hd reqs) (tl reqs)"

lemma queue_lookup:
  "map_of (hw_pending (queuePendingWakeReason at reason a s st)) (getWakeTargetKey a s) =
     (case map_of (hw_pending st) (getWakeTargetKey a s) of
        None \<Rightarrow> Some (newWake at reason a s)
      | Some p \<Rightarrow> Some (if replaces (newWake at reason a s) p then newWake at reason a s else p))"
  by (simp add: queuePendingWakeReason_def Let_def newWake_def update_conv' split: option.split)

lemma burst_lookup:
  assumes "sorted (map fst (q # reqs))"
    and "map_of (hw_pending st) (getWakeTargetKey a s) = Some (newWake (fst q) (snd q) a s)"
  shows "map_of (hw_pending (wakeBurst a s reqs st)) (getWakeTargetKey a s) =
    (let b = strongest (q # reqs) in Some (newWake (fst b) (snd b) a s))"
  using assms
proof (induction reqs arbitrary: q st)
  case Nil
  then show ?case by (simp add: wakeBurst_def strongest_def)
next
  case (Cons r reqs)
  let ?b = "if requestPriority q \<le> requestPriority r then r else q"
  let ?st = "queuePendingWakeReason (fst r) (snd r) a s st"
  have "map_of (hw_pending ?st) (getWakeTargetKey a s) = Some (newWake (fst ?b) (snd ?b) a s)"
    using Cons.prems by (auto simp: queue_lookup replaces_def newWake_def requestPriority_def)
  moreover have "sorted (map fst (?b # reqs))" using Cons.prems(1) by auto
  ultimately have "map_of (hw_pending (wakeBurst a s reqs ?st)) (getWakeTargetKey a s) =
      (let b = strongest (?b # reqs) in Some (newWake (fst b) (snd b) a s))"
    using Cons.IH by blast
  then show ?case by (simp add: wakeBurst_def strongest_def split_def)
qed

lemma burst_keeps_strongest:
  assumes "sorted (map fst reqs)" "reqs \<noteq> []" "map_of (hw_pending st) (getWakeTargetKey a s) = None"
  shows "map_of (hw_pending (wakeBurst a s reqs st)) (getWakeTargetKey a s) =
    Some (newWake (fst (strongest reqs)) (snd (strongest reqs)) a s)"
proof (cases reqs)
  case (Cons q qs)
  have "map_of (hw_pending (queuePendingWakeReason (fst q) (snd q) a s st)) (getWakeTargetKey a s) =
      Some (newWake (fst q) (snd q) a s)"
    using assms(3) by (simp add: queue_lookup)
  from burst_lookup [OF _ this, of qs] assms(1) Cons show ?thesis
    by (simp add: wakeBurst_def Let_def split_def)
qed (use assms in simp)

section \<open>Batches at the same time\<close>

text \<open>A batch starts only when none runs, as far as \<open>hw_running\<close> tells; a registration clears it. So there are at most
  as many batches in flight as registrations.\<close>

definition batchesOk :: "wakeWorld \<Rightarrow> bool" where
  "batchesOk w \<longleftrightarrow> length (ww_runs w) + (if hw_running (ww_state w) then 0 else 1) \<le> max 1 (hw_generation (ww_state w)) \<and>
     (hw_generation (ww_state w) = 0 \<longrightarrow> hw_handler (ww_state w) = None \<and> \<not> hw_running (ww_state w) \<and> ww_runs w = [])"

lemma request_simps [wake_simps]:
  "hw_generation (requestHeartbeatNow now reason c a s st) = hw_generation st"
  "hw_handler (requestHeartbeatNow now reason c a s st) = hw_handler st"
  "hw_running (requestHeartbeatNow now reason c a s st) = hw_running st"
  by (simp_all add: requestHeartbeatNow_def wake_simps)

lemma continue_facts:
  assumes "continueWakes now r st = (st', r')"
  shows "hw_generation st' = hw_generation st" "hw_handler st' = hw_handler st"
    "length (optRun r') + (if hw_running st' then 0 else 1) = (if hw_running st \<or> r' = None then 1 else 2)"
  using assms by (auto simp: continueWakes_def wake_simps optRun_def split: if_splits)

lemma fires_facts:
  assumes "wakeTimerFires now t st = (st', r)"
  shows "hw_generation st' = hw_generation st" "hw_handler st' = hw_handler st"
    "length (optRun r) + (if hw_running st' then 0 else 1) = (if hw_running st then 0 else 1)"
    "hw_handler st = None \<Longrightarrow> r = None \<and> hw_running st' = hw_running st"
proof -
  have "hw_generation st' = hw_generation st \<and> hw_handler st' = hw_handler st \<and>
      length (optRun r) + (if hw_running st' then 0 else 1) = (if hw_running st then 0 else 1) \<and>
      (hw_handler st = None \<longrightarrow> r = None \<and> hw_running st' = hw_running st)"
  proof (cases "hw_handler st")
    case None
    with assms show ?thesis by (auto simp: wakeTimerFires_def Let_def optRun_def)
  next
    case (Some h)
    show ?thesis
    proof (cases "hw_running st")
      case True
      with Some assms show ?thesis by (auto simp: wakeTimerFires_def Let_def optRun_def wake_simps)
    next
      case False
      with Some assms have "continueWakes now \<lparr>wr_handler = h, wr_delay = wt_delay t, wr_batch = map snd (hw_pending st),
          wr_rest = map snd (hw_pending st)\<rparr>
          (st\<lparr>hw_timer := None, hw_scheduled := False, hw_pending := [], hw_running := True\<rparr>) = (st', r)"
        by (simp add: wakeTimerFires_def Let_def)
      from continue_facts [OF this] Some False show ?thesis by simp
    qed
  qed
  then show "hw_generation st' = hw_generation st" "hw_handler st' = hw_handler st"
    "length (optRun r) + (if hw_running st' then 0 else 1) = (if hw_running st then 0 else 1)"
    "hw_handler st = None \<Longrightarrow> r = None \<and> hw_running st' = hw_running st"
    by blast+
qed

lemma answered_facts:
  assumes "wakeAnswered now x res st = (st', r)"
  shows "hw_generation st' = hw_generation st" "hw_handler st' = hw_handler st"
    "length (optRun r) + (if hw_running st' then 0 else 1) \<le> (if hw_running st then 1 else 2)"
  using continue_facts [OF assms [unfolded wakeAnswered_def]]
  by (auto simp: requeueWake_def wake_simps split: if_splits)

lemma batchesOk_step: "wakeStep w w' \<Longrightarrow> batchesOk w \<Longrightarrow> batchesOk w'"
proof (induction rule: wakeStep.induct)
  case (request w now a s reason c)
  then show ?case by (simp add: batchesOk_def wake_simps)
next
  case (register w now h st g)
  then show ?case
    by (auto simp: batchesOk_def setHeartbeatWakeHandler_def Let_def wake_simps split: if_splits)
next
  case (dispose w g h)
  then show ?case by (auto simp: batchesOk_def disposeWakeHandler_def)
next
  case (fires w now t st r)
  note f = fires_facts [OF fires(4)]
  show ?case using fires(5) f by (auto simp: batchesOk_def optRun_def split: if_splits)
next
  case (answered w now before x after res st r)
  note a = answered_facts [OF answered(3)]
  show ?case using answered(2,4) a by (auto simp: batchesOk_def split: if_splits)
next
  case (threw w now before x after)
  then show ?case by (auto simp: batchesOk_def wakeThrew_def wake_simps split: if_splits)
qed

lemma batches_at_most_registrations:
  "wakeReach w \<Longrightarrow> length (ww_runs w) \<le> max 1 (hw_generation (ww_state w))"
proof -
  assume "wakeReach w"
  then have "batchesOk w"
  proof (induction rule: wakeReach.induct)
    case (start now)
    show ?case by (simp add: batchesOk_def startWorld_def freshWakes_def)
  qed (rule batchesOk_step)
  then show ?thesis by (simp add: batchesOk_def)
qed

text \<open>But a batch of an earlier handler that ends clears the mark of the batch that runs now: the same handler may
  then be called twice at the same time.\<close>

definition staleRun :: wakeWorld where
  "staleRun = doFire 1500 (doRequest 1200 ''c'' ''main'' (doAnswer 1100 (HbRan 5)
     (doFire 1000 (doRequest 700 ''b'' ''main'' (doRegister 600 2
       (doFire 500 (doRequest 200 ''a'' ''main'' (doRegister 100 1 (startWorld 0)))))))))"

lemma stale_batch_unlocks: "wakeReach staleRun \<and> map wr_handler (ww_runs staleRun) = [2, 2]"
proof
  show "wakeReach staleRun"
    unfolding staleRun_def by (intro do_steps wakeReach.start)
  show "map wr_handler (ww_runs staleRun) = [2, 2]" by code_simp
qed

text \<open>And a wake that found the agent busy does not wait for the second of a retry when a request came in during the
  batch, whose timer is kept.\<close>

lemma retry_cooldown_undercut:
  assumes "hw_timer st = Some t" "wt_kind t = NormalTimer" "wt_dueAt t \<le> now + DEFAULT_RETRY_MS"
  shows "\<exists>t'. hw_timer (fst (wakeAnswered now r (HbSkipped ''requests-in-flight'') st)) = Some t' \<and> wt_dueAt t' \<le> wt_dueAt t"
proof -
  have "hw_timer (schedule now DEFAULT_RETRY_MS RetryTimer (requeueWake now p st)) = Some t" for p
    using assms by (simp add: schedule_def requeueWake_def wake_simps DEFAULT_RETRY_MS_def)
  then show ?thesis
    using assms by (auto simp: wakeAnswered_def continueWakes_def finishWakes_def schedule_def armWake_def Let_def)
qed

text \<open>A timer without delay that fires during a batch is armed again without delay, and so on for as long as the batch
  takes.\<close>

lemma running_timer_spins:
  assumes "hw_running st" "hw_handler st \<noteq> None" "wt_delay t = 0"
  shows "hw_timer (fst (wakeTimerFires now t st)) = Some \<lparr>wt_dueAt = now, wt_kind = wt_kind t, wt_delay = 0\<rparr>"
    and "hw_running (fst (wakeTimerFires now t st))"
  using assms by (auto simp: wakeTimerFires_def schedule_def armWake_def Let_def)

end
