(* ===== verification/Text_Chunks.thy ===== *)
theory Text_Chunks
  imports Session_Keys
begin

text \<open>
  How a reply is cut into messages of a channel: \<open>src/auto-reply/chunk.ts\<close>, \<open>shared/text-chunking.ts\<close>,
  \<open>markdown/fences.ts\<close> and \<open>routing/account-lookup.ts\<close>. A limit is an integer, since a configuration may hold
  any; positions in a text are natural numbers. The scanners of the code run over indices; here they run over
  the rest of the text with the index of its head. White space is that of \<open>\\s\<close> and of \<open>trim\<close>, which agree.
\<close>

section \<open>Limits and modes from the configuration\<close>

datatype chunkMode = ChunkLength | ChunkNewline

definition DEFAULT_CHUNK_LIMIT :: int where "DEFAULT_CHUNK_LIMIT = 4000"
definition DEFAULT_CHUNK_MODE :: chunkMode where "DEFAULT_CHUNK_MODE = ChunkLength"
definition INTERNAL_MESSAGE_CHANNEL :: string where "INTERNAL_MESSAGE_CHANNEL = ''webchat''"

record accountChunks =
  ac_textChunkLimit :: "int option"
  ac_chunkMode :: "chunkMode option"

record providerChunkConfig =
  pk_textChunkLimit :: "int option"
  pk_chunkMode :: "chunkMode option"
  pk_accounts :: "(string \<times> accountChunks) list option"

text \<open>The part of the configuration that is looked at: a section per channel, under \<open>channels\<close> or at the top.\<close>

record chunkConfig =
  ck_channels :: "(string \<times> providerChunkConfig) list"
  ck_top :: "(string \<times> providerChunkConfig) list"

definition resolveAccountEntry :: "(string \<times> 'v) list option \<Rightarrow> string \<Rightarrow> 'v option" where
  "resolveAccountEntry accounts accountId = (case accounts of
     None \<Rightarrow> None
   | Some m \<Rightarrow> (case map_of m accountId of
       Some v \<Rightarrow> Some v
     | None \<Rightarrow> (case List.find (\<lambda>(k, _). js_lower k = js_lower accountId) m of
         Some (k, _) \<Rightarrow> if k = [] then None else map_of m k
       | None \<Rightarrow> None)))"

definition providerSection :: "chunkConfig option \<Rightarrow> string \<Rightarrow> providerChunkConfig option" where
  "providerSection cfg provider = (case cfg of None \<Rightarrow> None
     | Some c \<Rightarrow> js_coalesce (map_of (ck_channels c) provider) (map_of (ck_top c) provider))"

definition resolveChunkLimitForProvider :: "providerChunkConfig option \<Rightarrow> string option \<Rightarrow> int option" where
  "resolveChunkLimitForProvider sec accountId = (case sec of
     None \<Rightarrow> None
   | Some s \<Rightarrow> (case Option.bind (resolveAccountEntry (pk_accounts s) (normalizeAccountId accountId)) ac_textChunkLimit of
       Some n \<Rightarrow> Some n
     | None \<Rightarrow> pk_textChunkLimit s))"

definition isOuterChannel :: "string option \<Rightarrow> bool" where
  "isOuterChannel provider \<longleftrightarrow> (case provider of None \<Rightarrow> False | Some p \<Rightarrow> p \<noteq> [] \<and> p \<noteq> INTERNAL_MESSAGE_CHANNEL)"

definition resolveTextChunkLimit :: "chunkConfig option \<Rightarrow> string option \<Rightarrow> string option \<Rightarrow> int option \<Rightarrow> int" where
  "resolveTextChunkLimit cfg provider accountId fallbackLimit =
     (let fallback = (case fallbackLimit of Some n \<Rightarrow> if 0 < n then n else DEFAULT_CHUNK_LIMIT | None \<Rightarrow> DEFAULT_CHUNK_LIMIT);
          override = (if isOuterChannel provider
            then resolveChunkLimitForProvider (providerSection cfg (the provider)) accountId else None)
      in case override of Some n \<Rightarrow> if 0 < n then n else fallback | None \<Rightarrow> fallback)"

definition resolveChunkModeForProvider :: "providerChunkConfig option \<Rightarrow> string option \<Rightarrow> chunkMode option" where
  "resolveChunkModeForProvider sec accountId = (case sec of
     None \<Rightarrow> None
   | Some s \<Rightarrow> (case Option.bind (resolveAccountEntry (pk_accounts s) (normalizeAccountId accountId)) ac_chunkMode of
       Some m \<Rightarrow> Some m
     | None \<Rightarrow> pk_chunkMode s))"

definition resolveChunkMode :: "chunkConfig option \<Rightarrow> string option \<Rightarrow> string option \<Rightarrow> chunkMode" where
  "resolveChunkMode cfg provider accountId =
     (if isOuterChannel provider
      then js_default (resolveChunkModeForProvider (providerSection cfg (the provider)) accountId) DEFAULT_CHUNK_MODE
      else DEFAULT_CHUNK_MODE)"

section \<open>Break points\<close>

definition NL :: char where "NL = CHR 0x0A"

text \<open>The last newline and the last other white space outside parentheses, at allowed indices; -1 for none.\<close>

fun scanFrom :: "(nat \<Rightarrow> bool) \<Rightarrow> nat \<Rightarrow> string \<Rightarrow> nat \<Rightarrow> int \<times> int \<Rightarrow> int \<times> int" where
  "scanFrom ok i [] depth found = found"
| "scanFrom ok i (c # cs) depth found =
     (if \<not> ok i then scanFrom ok (Suc i) cs depth found
      else if c = CHR ''('' then scanFrom ok (Suc i) cs (Suc depth) found
      else if c = CHR '')'' \<and> 0 < depth then scanFrom ok (Suc i) cs (depth - 1) found
      else if depth \<noteq> 0 then scanFrom ok (Suc i) cs depth found
      else if c = NL then scanFrom ok (Suc i) cs depth (int i, snd found)
      else if js_ws c then scanFrom ok (Suc i) cs depth (fst found, int i)
      else scanFrom ok (Suc i) cs depth found)"

definition scanParenAwareBreakpoints :: "string \<Rightarrow> nat \<Rightarrow> nat \<Rightarrow> (nat \<Rightarrow> bool) \<Rightarrow> int \<times> int" where
  "scanParenAwareBreakpoints t start stop isAllowed =
     scanFrom isAllowed start (take (stop - start) (drop start t)) 0 (-1, -1)"

section \<open>Cutting by length\<close>

definition js_trim_start :: "string \<Rightarrow> string" where
  "js_trim_start s = dropWhile js_ws s"

definition breakAt :: "nat \<Rightarrow> int \<Rightarrow> nat" where
  "breakAt limit candidate = (if 0 < candidate \<and> candidate \<le> int limit then nat candidate else limit)"

text \<open>What is left after a break: a separator at the break is dropped, then leading white space.\<close>

definition afterBreak :: "string \<Rightarrow> nat \<Rightarrow> string" where
  "afterBreak remaining breakIdx =
     js_trim_start (drop (min (length remaining)
       (breakIdx + (if breakIdx < length remaining \<and> js_ws (remaining ! breakIdx) then 1 else 0))) remaining)"

lemma length_js_trim_start: "length (js_trim_start s) \<le> length s"
  by (simp add: js_trim_start_def length_dropWhile_le)

lemma length_afterBreak: "length (afterBreak s b) \<le> length s - b"
  unfolding afterBreak_def by (rule order_trans [OF length_js_trim_start]) auto

lemma afterBreak_less: "0 < b \<Longrightarrow> b \<le> n \<Longrightarrow> n < length s \<Longrightarrow> length (afterBreak s b) < length s"
  using length_afterBreak [of s b] by linarith

lemma breakAt_bounds: "0 < limit \<Longrightarrow> 0 < breakAt limit c \<and> breakAt limit c \<le> limit"
  by (auto simp: breakAt_def)

text \<open>The loop, for a limit that is positive.\<close>

function breakLoop :: "nat \<Rightarrow> (string \<Rightarrow> int) \<Rightarrow> string \<Rightarrow> string list" where
  "breakLoop limit resolve remaining =
     (if length remaining \<le> limit \<or> limit = 0 then (if remaining = [] then [] else [remaining])
      else (let breakIdx = breakAt limit (resolve (take limit remaining));
                chunk = js_trim_end (take breakIdx remaining);
                rest = breakLoop limit resolve (afterBreak remaining breakIdx)
            in if 0 < length chunk then chunk # rest else rest))"
  by pat_completeness auto

termination
proof (relation "measure (\<lambda>(limit, resolve, remaining). length remaining)")
  fix limit :: nat and resolve :: "string \<Rightarrow> int" and remaining :: string and b
  assume "\<not> (length remaining \<le> limit \<or> limit = 0)" "b = breakAt limit (resolve (take limit remaining))"
  then show "((limit, resolve, afterBreak remaining b), limit, resolve, remaining)
      \<in> measure (\<lambda>(limit, resolve, remaining). length remaining)"
    using afterBreak_less [of b limit remaining] breakAt_bounds [of limit "resolve (take limit remaining)"] by simp
qed simp

declare breakLoop.simps [simp del]

definition chunkTextByBreakResolver :: "string \<Rightarrow> int \<Rightarrow> (string \<Rightarrow> int) \<Rightarrow> string list" where
  "chunkTextByBreakResolver t limit resolve =
     (if t = [] then [] else if limit \<le> 0 \<or> int (length t) \<le> limit then [t] else breakLoop (nat limit) resolve t)"

definition resolveChunkEarlyReturn :: "string \<Rightarrow> int \<Rightarrow> string list option" where
  "resolveChunkEarlyReturn t limit =
     (if t = [] then Some [] else if limit \<le> 0 then Some [t] else if int (length t) \<le> limit then Some [t] else None)"

definition breakInWindow :: "string \<Rightarrow> int" where
  "breakInWindow window = (case scanParenAwareBreakpoints window 0 (length window) (\<lambda>_. True) of
     (lastNewline, lastWhitespace) \<Rightarrow> if 0 < lastNewline then lastNewline else lastWhitespace)"

definition chunkText :: "string \<Rightarrow> int \<Rightarrow> string list" where
  "chunkText t limit = (case resolveChunkEarlyReturn t limit of
     Some early \<Rightarrow> early
   | None \<Rightarrow> chunkTextByBreakResolver t limit breakInWindow)"

section \<open>Cutting by lines\<close>

fun splitLinesFrom :: "(nat \<Rightarrow> bool) \<Rightarrow> nat \<Rightarrow> string \<Rightarrow> string list" where
  "splitLinesFrom safe i [] = [[]]"
| "splitLinesFrom safe i (c # cs) =
     (if c = NL \<and> safe i then [] # splitLinesFrom safe (Suc i) cs
      else (case splitLinesFrom safe (Suc i) cs of [] \<Rightarrow> [[c]] | l # ls \<Rightarrow> (c # l) # ls))"

definition splitByNewline :: "string \<Rightarrow> (nat \<Rightarrow> bool) \<Rightarrow> string list" where
  "splitByNewline t isSafeBreak = splitLinesFrom isSafeBreak 0 t"

record newlineOpts =
  no_splitLongLines :: bool
  no_trimLines :: bool
  no_isSafeBreak :: "nat \<Rightarrow> bool"

text \<open>One line that is not blank, after some blank ones.\<close>

definition lineChunks :: "int \<Rightarrow> newlineOpts \<Rightarrow> nat \<Rightarrow> string \<Rightarrow> string list" where
  "lineChunks maxLineLength opts pendingBlankLines line =
     (let maxPrefix = nat (max 0 (maxLineLength - 1));
          pre = replicate (min pendingBlankLines maxPrefix) NL;
          lineValue = (if no_trimLines opts then js_trim line else line)
      in if \<not> no_splitLongLines opts \<or> int (length lineValue + length pre) \<le> maxLineLength then [pre @ lineValue]
         else (let firstLimit = nat (max 1 (maxLineLength - int (length pre)));
                   remaining = drop firstLimit lineValue
               in (pre @ take firstLimit lineValue) #
                    (if remaining = [] then [] else chunkText remaining maxLineLength)))"

fun newlineLoop :: "int \<Rightarrow> newlineOpts \<Rightarrow> string list \<Rightarrow> nat \<Rightarrow> string list \<times> nat" where
  "newlineLoop maxLineLength opts [] pending = ([], pending)"
| "newlineLoop maxLineLength opts (line # rest) pending =
     (if js_trim line = [] then newlineLoop maxLineLength opts rest (Suc pending)
      else (case newlineLoop maxLineLength opts rest 0 of
        (chunks, left) \<Rightarrow> (lineChunks maxLineLength opts pending line @ chunks, left)))"

definition chunkByNewline :: "string \<Rightarrow> int \<Rightarrow> newlineOpts \<Rightarrow> string list" where
  "chunkByNewline t maxLineLength opts =
     (if t = [] then []
      else if maxLineLength \<le> 0 then (if js_trim t \<noteq> [] then [t] else [])
      else (case newlineLoop maxLineLength opts (splitByNewline t (no_isSafeBreak opts)) 0 of
        (chunks, pending) \<Rightarrow>
          if 0 < pending \<and> 0 < length chunks
          then butlast chunks @ [last chunks @ replicate pending NL] else chunks))"

section \<open>Fences\<close>

record fenceSpan =
  fe_start :: nat
  fe_end :: nat
  fe_openLine :: string
  fe_marker :: string
  fe_indent :: string

text \<open>A line that opens or closes a fence: up to three spaces and at least three marks; the rest of the line has no
  carriage return, which the dot of the pattern does not match.\<close>

definition matchFenceLine :: "string \<Rightarrow> (string \<times> string) option" where
  "matchFenceLine line =
     (let indent = takeWhile (\<lambda>c. c = CHR '' '') line; rest = drop (length indent) line
      in case rest of
           [] \<Rightarrow> None
         | c # _ \<Rightarrow> (let marker = takeWhile (\<lambda>d. d = c) rest in
             if (c = CHR 0x60 \<or> c = CHR ''~'') \<and> length indent \<le> 3 \<and> 3 \<le> length marker \<and> CHR 0x0D \<notin> set line
             then Some (indent, marker) else None))"

text \<open>One line of the scan, with its offset, the fence that is open and the spans so far.\<close>

definition fenceLine :: "string \<Rightarrow> nat \<times> fenceSpan option \<times> fenceSpan list \<Rightarrow> nat \<times> fenceSpan option \<times> fenceSpan list" where
  "fenceLine line st = (case st of (offset, opened, spans) \<Rightarrow>
     (let next = offset + length line + 1 in
      case matchFenceLine line of
        None \<Rightarrow> (next, opened, spans)
      | Some (indent, marker) \<Rightarrow> (case opened of
          None \<Rightarrow> (next, Some \<lparr>fe_start = offset, fe_end = offset, fe_openLine = line, fe_marker = marker, fe_indent = indent\<rparr>, spans)
        | Some f \<Rightarrow>
            if hd (fe_marker f) = hd marker \<and> length (fe_marker f) \<le> length marker
            then (next, None, spans @ [f\<lparr>fe_end := offset + length line\<rparr>])
            else (next, opened, spans))))"

definition parseFenceSpans :: "string \<Rightarrow> fenceSpan list" where
  "parseFenceSpans buffer =
     (case fold fenceLine (js_split NL buffer) (0, None, []) of
        (_, None, spans) \<Rightarrow> spans
      | (_, Some f, spans) \<Rightarrow> spans @ [f\<lparr>fe_end := length buffer\<rparr>])"

text \<open>The binary search, between \<open>low\<close> and the end \<open>high\<close> (exclusive here, so that it is a natural number).\<close>

function searchSpan :: "fenceSpan list \<Rightarrow> nat \<Rightarrow> nat \<Rightarrow> nat \<Rightarrow> fenceSpan option" where
  "searchSpan spans index low high =
     (if high \<le> low \<or> length spans < high then None
      else (let mid = (low + high - 1) div 2; span = spans ! mid in
        if index \<le> fe_start span then searchSpan spans index low mid
        else if fe_end span \<le> index then searchSpan spans index (Suc mid) high
        else Some span))"
  by pat_completeness auto

termination by (relation "measure (\<lambda>(spans, index, low, high). high - low)") auto

declare searchSpan.simps [simp del]

definition findFenceSpanAt :: "fenceSpan list \<Rightarrow> nat \<Rightarrow> fenceSpan option" where
  "findFenceSpanAt spans index = searchSpan spans index 0 (length spans)"

definition isSafeFenceBreak :: "fenceSpan list \<Rightarrow> nat \<Rightarrow> bool" where
  "isSafeFenceBreak spans index \<longleftrightarrow> findFenceSpanAt spans index = None"

section \<open>Cutting by paragraphs\<close>

text \<open>\<open>text.replace(/\\r\\n?/g, "\\n")\<close>\<close>

fun normalizeNewlines :: "string \<Rightarrow> string" where
  "normalizeNewlines [] = []"
| "normalizeNewlines (c # cs) =
     (if c = CHR 0x0D then NL # (case cs of [] \<Rightarrow> [] | d # ds \<Rightarrow> if d = NL then normalizeNewlines ds else normalizeNewlines cs)
      else c # normalizeNewlines cs)"

text \<open>The length of a paragraph break at the head of the text, 0 when there is none.\<close>

definition paragraphBreak :: "string \<Rightarrow> nat" where
  "paragraphBreak s = (case s of
     [] \<Rightarrow> 0
   | c # cs \<Rightarrow> if c \<noteq> NL then 0
       else (let blanks = takeWhile (\<lambda>d. d = CHR 0x09 \<or> d = CHR '' '') cs;
                 newlines = takeWhile (\<lambda>d. d = NL) (drop (length blanks) cs)
             in if newlines = [] then 0 else 1 + length blanks + length newlines))"

lemma paragraphBreak_bounds: "paragraphBreak s \<le> length s"
proof (cases s)
  case (Cons c cs)
  let ?blanks = "takeWhile (\<lambda>d. d = CHR 0x09 \<or> d = CHR '' '') cs"
  have "length ?blanks \<le> length cs" by (rule length_takeWhile_le)
  moreover have "length (takeWhile (\<lambda>d. d = NL) (drop (length ?blanks) cs)) \<le> length cs - length ?blanks"
    using length_takeWhile_le [of _ "drop (length ?blanks) cs"] by simp
  ultimately show ?thesis by (simp add: Cons paragraphBreak_def Let_def) (intro impI, linarith)
qed (simp add: paragraphBreak_def)

fun hasParagraphBreak :: "string \<Rightarrow> bool" where
  "hasParagraphBreak [] = False"
| "hasParagraphBreak (c # cs) = (0 < paragraphBreak (c # cs) \<or> hasParagraphBreak cs)"

text \<open>The parts between the breaks outside fences; \<open>acc\<close> is the text since the last of them.\<close>

function splitParagraphs :: "fenceSpan list \<Rightarrow> nat \<Rightarrow> string \<Rightarrow> string \<Rightarrow> string list" where
  "splitParagraphs spans i acc s =
     (if s = [] then [acc]
      else (let n = paragraphBreak s in
        if n = 0 then splitParagraphs spans (Suc i) (acc @ [hd s]) (tl s)
        else if isSafeFenceBreak spans i then acc # splitParagraphs spans (i + n) [] (drop n s)
        else splitParagraphs spans (i + n) (acc @ take n s) (drop n s)))"
  by pat_completeness auto

termination by (relation "measure (\<lambda>(spans, i, acc, s). length s)") auto

declare splitParagraphs.simps [simp del]

definition paragraphChunks :: "int \<Rightarrow> bool \<Rightarrow> string \<Rightarrow> string list" where
  "paragraphChunks limit splitLongParagraphs part =
     (let paragraph = js_trim_end part in
      if js_trim paragraph = [] then []
      else if int (length paragraph) \<le> limit \<or> \<not> splitLongParagraphs then [paragraph]
      else chunkText paragraph limit)"

definition chunkByParagraph :: "string \<Rightarrow> int \<Rightarrow> bool \<Rightarrow> string list" where
  "chunkByParagraph t limit splitLongParagraphs =
     (if t = [] then []
      else if limit \<le> 0 then [t]
      else (let normalized = normalizeNewlines t in
        if \<not> hasParagraphBreak normalized
        then (if int (length normalized) \<le> limit \<or> \<not> splitLongParagraphs then [normalized] else chunkText normalized limit)
        else concat (map (paragraphChunks limit splitLongParagraphs)
               (splitParagraphs (parseFenceSpans normalized) 0 [] normalized))))"

definition chunkTextWithMode :: "string \<Rightarrow> int \<Rightarrow> chunkMode \<Rightarrow> string list" where
  "chunkTextWithMode t limit mode = (case mode of
     ChunkNewline \<Rightarrow> chunkByParagraph t limit True
   | ChunkLength \<Rightarrow> chunkText t limit)"

section \<open>Cutting Markdown\<close>

definition skipLeadingNewlines :: "string \<Rightarrow> nat \<Rightarrow> nat" where
  "skipLeadingNewlines v start = start + length (takeWhile (\<lambda>c. c = NL) (drop start v))"

definition pickSafeBreakIndex :: "string \<Rightarrow> nat \<Rightarrow> nat \<Rightarrow> fenceSpan list \<Rightarrow> int" where
  "pickSafeBreakIndex t start stop spans =
     (case scanParenAwareBreakpoints t start stop (isSafeFenceBreak spans) of
        (lastNewline, lastWhitespace) \<Rightarrow>
          if int start < lastNewline then lastNewline
          else if int start < lastWhitespace then lastWhitespace else -1)"

definition sameFence :: "fenceSpan \<Rightarrow> fenceSpan option \<Rightarrow> fenceSpan option" where
  "sameFence f g = (case g of Some h \<Rightarrow> if fe_start h = fe_start f then Some h else None | None \<Rightarrow> None)"

text \<open>The search backwards for a newline inside the fence, from index \<open>p\<close>. The code asks \<open>lastIndexOf\<close> again and again;
  at index 0 it would find the same newline for ever, but there the break is before the least progress.\<close>

fun pickNewline :: "string \<Rightarrow> fenceSpan list \<Rightarrow> fenceSpan \<Rightarrow> nat \<Rightarrow> nat \<Rightarrow> nat \<Rightarrow> nat option" where
  "pickNewline t spans f start minProgressIdx 0 = None"
| "pickNewline t spans f start minProgressIdx (Suc p) =
     (if p < start then None
      else if p < length t \<and> t ! p = NL
      then (if Suc p < minProgressIdx then None
            else if sameFence f (findFenceSpanAt spans (Suc p)) \<noteq> None then Some (Suc p)
            else pickNewline t spans f start minProgressIdx p)
      else pickNewline t spans f start minProgressIdx p)"

declare pickNewline.simps [simp del]

definition closeLine :: "fenceSpan \<Rightarrow> string" where
  "closeLine f = fe_indent f @ fe_marker f"

text \<open>The break inside a fence.\<close>

definition fenceBreak :: "string \<Rightarrow> fenceSpan list \<Rightarrow> nat \<Rightarrow> int \<Rightarrow> nat \<Rightarrow> fenceSpan \<Rightarrow> nat" where
  "fenceBreak t spans start contentLimit windowEnd f =
     (let maxIdxIfNeedNewline = int start + (contentLimit - int (length (closeLine f) + 1)) in
      if maxIdxIfNeedNewline \<le> int start then windowEnd
      else (let minProgressIdx = min (length t) (max (start + 1) (fe_start f + length (fe_openLine f) + 2));
                maxIdxIfAlreadyNewline = int start + (contentLimit - int (length (closeLine f)))
            in case pickNewline t spans f start minProgressIdx (Suc (nat (max (int start) (maxIdxIfAlreadyNewline - 1)))) of
                 Some b \<Rightarrow> b
               | None \<Rightarrow> if maxIdxIfAlreadyNewline < int minProgressIdx then windowEnd
                   else nat (max (int minProgressIdx) maxIdxIfNeedNewline)))"

text \<open>Where the next chunk ends, and the fence it is split in.\<close>

definition markdownBreak :: "string \<Rightarrow> fenceSpan list \<Rightarrow> nat \<Rightarrow> int \<Rightarrow> nat \<times> fenceSpan option" where
  "markdownBreak t spans start contentLimit =
     (let windowEnd = min (length t) (start + nat contentLimit);
          softBreak = pickSafeBreakIndex t start windowEnd spans;
          breakIdx = (if int start < softBreak then nat softBreak else windowEnd)
      in case (if isSafeFenceBreak spans breakIdx then None else findFenceSpanAt spans breakIdx) of
           None \<Rightarrow> (breakIdx, None)
         | Some f \<Rightarrow> (let b = fenceBreak t spans start contentLimit windowEnd f in (b, sameFence f (findFenceSpanAt spans b))))"

definition reopenPrefix :: "fenceSpan option \<Rightarrow> string" where
  "reopenPrefix f = (case f of None \<Rightarrow> [] | Some g \<Rightarrow> fe_openLine g @ [NL])"

definition closeChunk :: "string \<Rightarrow> fenceSpan option \<Rightarrow> string" where
  "closeChunk raw f = (case f of None \<Rightarrow> raw
     | Some g \<Rightarrow> if raw \<noteq> [] \<and> last raw = NL then raw @ closeLine g else raw @ [NL] @ closeLine g)"

definition markdownNext :: "string \<Rightarrow> nat \<Rightarrow> fenceSpan option \<Rightarrow> nat" where
  "markdownNext t breakIdx f =
     (let next = min (length t) (breakIdx + (if breakIdx < length t \<and> js_ws (t ! breakIdx) then 1 else 0))
      in if f = None then skipLeadingNewlines t next else next)"

lemma markdownNext_gt: "start < length t \<Longrightarrow> start < b \<Longrightarrow> start < markdownNext t b f"
proof -
  assume "start < length t" "start < b"
  then have "start < min (length t) (b + k)" for k by simp
  then show ?thesis unfolding markdownNext_def Let_def skipLeadingNewlines_def by (simp add: trans_less_add1 del: min_less_iff_conj)
qed

function markdownLoop :: "string \<Rightarrow> int \<Rightarrow> fenceSpan list \<Rightarrow> nat \<Rightarrow> fenceSpan option \<Rightarrow> string list" where
  "markdownLoop t limit spans start reopenFence =
     (if length t \<le> start then []
      else (let contentLimit = max 1 (limit - int (length (reopenPrefix reopenFence))) in
        if int (length t - start) \<le> contentLimit then [reopenPrefix reopenFence @ drop start t]
        else (case markdownBreak t spans start contentLimit of (breakIdx, fenceToSplit) \<Rightarrow>
          if breakIdx \<le> start then []
          else closeChunk (reopenPrefix reopenFence @ take (breakIdx - start) (drop start t)) fenceToSplit
               # markdownLoop t limit spans (markdownNext t breakIdx fenceToSplit) fenceToSplit)))"
  by pat_completeness auto

termination
proof (relation "measure (\<lambda>(t, limit, spans, start, reopenFence). length t - start)")
  fix t :: string and limit :: int and spans :: "fenceSpan list" and start :: nat and reopenFence fenceToSplit x breakIdx
  assume "\<not> length t \<le> start" "\<not> breakIdx \<le> start"
  then show "((t, limit, spans, markdownNext t breakIdx fenceToSplit, fenceToSplit), t, limit, spans, start, reopenFence)
      \<in> measure (\<lambda>(t, limit, spans, start, reopenFence). length t - start)"
    using markdownNext_gt [of start t breakIdx fenceToSplit] by auto
qed simp

declare markdownLoop.simps [simp del]

definition chunkMarkdownText :: "string \<Rightarrow> int \<Rightarrow> string list" where
  "chunkMarkdownText t limit = (case resolveChunkEarlyReturn t limit of
     Some early \<Rightarrow> early
   | None \<Rightarrow> markdownLoop t limit (parseFenceSpans t) 0 None)"

definition chunkMarkdownTextWithMode :: "string \<Rightarrow> int \<Rightarrow> chunkMode \<Rightarrow> string list" where
  "chunkMarkdownTextWithMode t limit mode = (case mode of
     ChunkNewline \<Rightarrow> concat (map (\<lambda>chunk. let nested = chunkMarkdownText chunk limit in
        if nested = [] \<and> chunk \<noteq> [] then [chunk] else nested) (chunkByParagraph t limit False))
   | ChunkLength \<Rightarrow> chunkMarkdownText t limit)"

section \<open>Nothing but white space is lost\<close>

text \<open>What counts of a text: its characters other than white space.\<close>

definition inked :: "string \<Rightarrow> string" where
  "inked s = filter (\<lambda>c. \<not> js_ws c) s"

named_theorems ink \<open>what keeps the characters that count\<close>

lemma inked_simps [ink]:
  "inked [] = []" "inked (a @ b) = inked a @ inked b" "inked (c # s) = (if js_ws c then inked s else c # inked s)"
  by (simp_all add: inked_def)

lemma inked_ws [ink]: "(\<And>c. c \<in> set s \<Longrightarrow> js_ws c) \<Longrightarrow> inked s = []"
  by (simp add: inked_def)

lemma js_ws_NL [simp]: "js_ws NL" "js_ws (CHR 0x0D)" "js_ws (CHR 0x09)" "js_ws (CHR '' '')"
  by (simp_all add: js_ws_def NL_def)

lemma inked_dropWhile: "(\<And>c. P c \<Longrightarrow> js_ws c) \<Longrightarrow> inked (dropWhile P s) = inked s"
  by (induction s) (auto simp: ink)

lemma inked_trim_start [ink]: "inked (js_trim_start s) = inked s"
  by (simp add: js_trim_start_def inked_dropWhile)

lemma inked_rev: "inked (rev s) = rev (inked s)"
  by (simp add: inked_def rev_filter)

lemma inked_trim_end [ink]: "inked (js_trim_end s) = inked s"
  by (simp add: js_trim_end_def inked_rev inked_dropWhile)

lemma inked_split: "inked (take n s) @ inked (drop n s) = inked s"
  by (simp flip: inked_simps(2))

lemma length_js_trim_end [simp]: "length (js_trim_end s) \<le> length s"
  unfolding js_trim_end_def using length_dropWhile_le [of js_ws "rev s"] by simp

lemma inked_afterBreak: "b \<le> length s \<Longrightarrow> inked (afterBreak s b) = inked (drop b s)"
proof (cases "b < length s \<and> js_ws (s ! b)")
  case True
  then have "drop b s = s ! b # drop (Suc b) s" by (simp add: Cons_nth_drop_Suc)
  with True show ?thesis by (simp add: afterBreak_def ink)
qed (auto simp: afterBreak_def ink min_def)

text \<open>What a sequence of chunks must be: none is empty or beyond the limit, and together they are the text.\<close>

definition chunksOf :: "int \<Rightarrow> string \<Rightarrow> string list \<Rightarrow> bool" where
  "chunksOf limit t chunks \<longleftrightarrow> (\<forall>c \<in> set chunks. c \<noteq> [] \<and> int (length c) \<le> limit) \<and> inked (concat chunks) = inked t"

lemma chunksOf_Nil: "inked t = [] \<Longrightarrow> chunksOf limit t []"
  by (simp add: chunksOf_def ink)

lemma chunksOf_Cons:
  "c \<noteq> [] \<Longrightarrow> int (length c) \<le> limit \<Longrightarrow> inked c @ inked u = inked t \<Longrightarrow> chunksOf limit u cs \<Longrightarrow> chunksOf limit t (c # cs)"
  by (simp add: chunksOf_def ink)

lemma breakLoop_chunks: "0 < limit \<Longrightarrow> chunksOf (int limit) s (breakLoop limit resolve s)"
proof (induction limit resolve s rule: breakLoop.induct)
  case (1 limit resolve s)
  show ?case
  proof (cases "length s \<le> limit")
    case True
    with 1 show ?thesis by (auto simp: breakLoop.simps [of limit resolve s] chunksOf_def ink)
  next
    case False
    define b where "b = breakAt limit (resolve (take limit s))"
    let ?c = "js_trim_end (take b s)"
    from breakAt_bounds 1(2) have b: "0 < b" "b \<le> limit" by (simp_all add: b_def)
    have rest: "chunksOf (int limit) (afterBreak s b) (breakLoop limit resolve (afterBreak s b))"
      by (rule 1(1) [of b]) (use False 1(2) in \<open>simp_all add: b_def\<close>)
    have after: "inked ?c @ inked (afterBreak s b) = inked s"
      using False b by (simp add: ink inked_afterBreak inked_split)
    have "length ?c \<le> limit" using length_js_trim_end [of "take b s"] b by simp
    then have "chunksOf (int limit) s (if 0 < length ?c then ?c # breakLoop limit resolve (afterBreak s b)
        else breakLoop limit resolve (afterBreak s b))"
    proof (cases "?c = []")
      case True
      then have "inked ?c = []" by (simp add: inked_simps)
      with after have "inked (afterBreak s b) = inked s" by simp
      with True rest show ?thesis by (simp add: chunksOf_def)
    next
      case False
      with \<open>length ?c \<le> limit\<close> show ?thesis using chunksOf_Cons [OF _ _ after rest] by simp
    qed
    then show ?thesis
      using False 1(2) by (simp add: breakLoop.simps [of limit resolve s] Let_def flip: b_def)
  qed
qed

lemma chunkText_chunks: "0 < limit \<Longrightarrow> chunksOf limit t (chunkText t limit)"
proof (cases "t = [] \<or> int (length t) \<le> limit")
  case False
  assume "0 < limit"
  with False show ?thesis
    using breakLoop_chunks [of "nat limit" t breakInWindow]
    by (simp add: chunkText_def resolveChunkEarlyReturn_def chunkTextByBreakResolver_def)
qed (auto simp: chunkText_def resolveChunkEarlyReturn_def chunksOf_def ink)

section \<open>Paragraphs\<close>

lemma inked_normalize: "inked (normalizeNewlines s) = inked s"
  by (induction s rule: normalizeNewlines.induct) (auto simp: ink split: list.split)

lemma paragraphBreak_ws: "c \<in> set (take (paragraphBreak s) s) \<Longrightarrow> js_ws c"
proof (cases s)
  case (Cons d cs)
  assume c: "c \<in> set (take (paragraphBreak s) s)"
  let ?blanks = "takeWhile (\<lambda>d. d = CHR 0x09 \<or> d = CHR '' '') cs"
  let ?rest = "drop (length ?blanks) cs"
  let ?newlines = "takeWhile (\<lambda>d. d = NL) ?rest"
  show ?thesis
  proof (cases "d = NL \<and> ?newlines \<noteq> []")
    case True
    have "take (length b + length n) u = b @ n" if "u = b @ n @ r" for u b n r :: string
      using that by simp
    moreover have "cs = ?blanks @ ?newlines @ dropWhile (\<lambda>d. d = NL) ?rest"
      by (simp only: dropWhile_eq_drop [symmetric] takeWhile_dropWhile_id)
    ultimately have "take (length ?blanks + length ?newlines) cs = ?blanks @ ?newlines" .
    with c True Cons have "c \<in> insert NL (set ?blanks \<union> set ?newlines)"
      by (simp add: paragraphBreak_def Let_def)
    then show ?thesis by (auto dest: set_takeWhileD)
  next
    case False
    with c Cons show ?thesis by (auto simp: paragraphBreak_def Let_def split: if_splits)
  qed
qed simp

lemma splitParagraphs_inked: "inked (concat (splitParagraphs spans i acc s)) = inked acc @ inked s"
proof (induction spans i acc s rule: splitParagraphs.induct)
  case (1 spans i acc s)
  show ?case
  proof (cases "s = []")
    case True
    then show ?thesis by (simp add: splitParagraphs.simps [of spans i acc "[]"] ink)
  next
    case s: False
    let ?n = "paragraphBreak s"
    have ws: "inked (take ?n s) = []" by (rule inked_ws) (rule paragraphBreak_ws)
    then have drop: "inked (drop ?n s) = inked s" using inked_split [of ?n s] by simp
    consider "?n = 0" | "?n \<noteq> 0" "isSafeFenceBreak spans i" | "?n \<noteq> 0" "\<not> isSafeFenceBreak spans i" by blast
    then show ?thesis
    proof cases
      case 1
      have "inked [hd s] @ inked (tl s) = inked s" using s by (cases s) (simp_all add: ink)
      with 1 s "1.IH"(1) [OF s refl 1] show ?thesis
        by (simp add: splitParagraphs.simps [of spans i acc s] Let_def inked_simps(2))
    next
      case 2
      with s "1.IH"(2) [OF s refl 2] drop show ?thesis
        by (simp add: splitParagraphs.simps [of spans i acc s] Let_def inked_simps(1,2))
    next
      case 3
      with s "1.IH"(3) [OF s refl 3] drop ws show ?thesis
        by (simp add: splitParagraphs.simps [of spans i acc s] Let_def inked_simps(2))
    qed
  qed
qed

lemma chunksOf_append:
  "chunksOf limit t cs \<Longrightarrow> chunksOf limit u ds \<Longrightarrow> chunksOf limit (t @ u) (cs @ ds)"
  by (auto simp: chunksOf_def ink)

lemma inked_trim [ink]: "inked (js_trim s) = inked s"
  by (simp add: js_trim_def inked_rev inked_dropWhile)

lemma paragraphChunks_chunks: "0 < limit \<Longrightarrow> chunksOf limit part (paragraphChunks limit True part)"
proof -
  assume l: "0 < limit"
  let ?p = "js_trim_end part"
  have i: "inked ?p = inked part" by (simp add: ink)
  consider "js_trim ?p = []" | "js_trim ?p \<noteq> []" "int (length ?p) \<le> limit" | "js_trim ?p \<noteq> []" "\<not> int (length ?p) \<le> limit" by blast
  then show ?thesis
  proof cases
    case 1
    then have "inked ?p = []" using inked_trim [of ?p] by (simp add: ink)
    with 1 i show ?thesis by (simp add: paragraphChunks_def chunksOf_Nil)
  next
    case 2
    then have "?p \<noteq> []" by auto
    with 2 i show ?thesis by (simp add: paragraphChunks_def chunksOf_def)
  next
    case 3
    with i chunkText_chunks [OF l, of ?p] show ?thesis by (simp add: paragraphChunks_def chunksOf_def)
  qed
qed

lemma concat_chunks: "0 < limit \<Longrightarrow> chunksOf limit (concat parts) (concat (map (paragraphChunks limit True) parts))"
  by (induction parts) (simp_all add: chunksOf_Nil ink chunksOf_append paragraphChunks_chunks)

lemma chunkByParagraph_chunks: "0 < limit \<Longrightarrow> chunksOf limit t (chunkByParagraph t limit True)"
proof -
  assume l: "0 < limit"
  let ?n = "normalizeNewlines t"
  have n: "t \<noteq> [] \<Longrightarrow> ?n \<noteq> []" by (cases t) auto
  have "chunksOf limit ?n (chunkText ?n limit)" by (rule chunkText_chunks [OF l])
  moreover have "chunksOf limit ?n (concat (map (paragraphChunks limit True) (splitParagraphs spans 0 [] ?n)))" for spans
    using concat_chunks [OF l, of "splitParagraphs spans 0 [] ?n"]
    by (simp add: chunksOf_def splitParagraphs_inked ink)
  ultimately show ?thesis
    using l n by (simp add: chunkByParagraph_def Let_def chunksOf_def inked_normalize ink)
qed

text \<open>C24: Bounds of a reply cut into messages: in either mode, for a limit that is positive, no chunk is empty and
  none is longer than the limit, and the chunks together are the text, less white space only.\<close>

theorem chunks_bounded_and_complete:
  assumes "0 < limit"
  shows "(\<forall>c \<in> set (chunkTextWithMode t limit mode). c \<noteq> [] \<and> int (length c) \<le> limit) \<and>
    inked (concat (chunkTextWithMode t limit mode)) = inked t"
  using chunkText_chunks [OF assms] chunkByParagraph_chunks [OF assms]
  by (cases mode) (simp_all add: chunkTextWithMode_def chunksOf_def)

theorem chunks_bounded_and_complete_witness:
  "chunkTextWithMode ''to be (or not)'' 6 ChunkLength = [''to be'', ''(or no'', ''t)''] \<and>
   list_all (\<lambda>c. c \<noteq> [] \<and> int (length c) \<le> 6) (chunkTextWithMode ''to be (or not)'' 6 ChunkLength) \<and>
   inked (concat (chunkTextWithMode ''to be (or not)'' 6 ChunkLength)) = inked ''to be (or not)''"
proof (intro conjI)
  show "chunkTextWithMode ''to be (or not)'' 6 ChunkLength = [''to be'', ''(or no'', ''t)'']" by code_simp
qed (use chunks_bounded_and_complete [of 6 "''to be (or not)''" ChunkLength] in \<open>simp_all add: list_all_iff\<close>)

section \<open>The search for a fence\<close>

definition inFence :: "nat \<Rightarrow> fenceSpan \<Rightarrow> bool" where
  "inFence index s \<longleftrightarrow> fe_start s < index \<and> index < fe_end s"

definition spansOk :: "fenceSpan list \<Rightarrow> bool" where
  "spansOk spans \<longleftrightarrow> sorted_wrt (\<lambda>a b. fe_end a \<le> fe_start b) spans \<and> (\<forall>s \<in> set spans. fe_start s \<le> fe_end s)"

lemma spansOk_nth:
  assumes "spansOk spans" "i < j" "j < length spans"
  shows "fe_end (spans ! i) \<le> fe_start (spans ! j)" "fe_start (spans ! i) \<le> fe_end (spans ! i)"
  using assms by (auto simp: spansOk_def sorted_wrt_iff_nth_less)

lemma searchSpan_correct:
  assumes "spansOk spans" "high \<le> length spans"
    and "\<And>k. k < low \<Longrightarrow> k < length spans \<Longrightarrow> \<not> inFence index (spans ! k)"
    and "\<And>k. high \<le> k \<Longrightarrow> k < length spans \<Longrightarrow> \<not> inFence index (spans ! k)"
  shows "case searchSpan spans index low high of
      None \<Rightarrow> \<forall>k < length spans. \<not> inFence index (spans ! k)
    | Some s \<Rightarrow> \<exists>k < length spans. s = spans ! k \<and> inFence index s"
  using assms
proof (induction spans index low high rule: searchSpan.induct)
  case (1 spans index low high)
  show ?case
  proof (cases "high \<le> low")
    case True
    with 1(5,6) have "\<not> inFence index (spans ! k)" if "k < length spans" for k
      using that by (cases "k < low") auto
    with True show ?thesis by (simp add: searchSpan.simps [of spans index low high])
  next
    case False
    define mid where "mid = (low + high - 1) div 2"
    have mid: "low \<le> mid" "mid < high" "mid < length spans" using False 1(4) by (auto simp: mid_def)
    have guard: "\<not> (high \<le> low \<or> length spans < high)" using False 1(4) by auto
    have unf: "searchSpan spans index low high =
        (if index \<le> fe_start (spans ! mid) then searchSpan spans index low mid
         else if fe_end (spans ! mid) \<le> index then searchSpan spans index (Suc mid) high else Some (spans ! mid))"
      unfolding mid_def by (subst searchSpan.simps) (use guard in \<open>simp add: Let_def\<close>)
    consider "index \<le> fe_start (spans ! mid)" | "\<not> index \<le> fe_start (spans ! mid)" "fe_end (spans ! mid) \<le> index"
      | "inFence index (spans ! mid)" by (fastforce simp: inFence_def)
    then show ?thesis
    proof cases
      case 1
      have "\<not> inFence index (spans ! k)" if "mid \<le> k" "k < length spans" for k
        using 1 spansOk_nth [OF "1.prems"(1), of mid k] that by (cases "k = mid") (auto simp: inFence_def)
      from "1.IH"(1) [OF guard mid_def refl 1 "1.prems"(1) _ "1.prems"(3) this] show ?thesis
        using mid 1 by (simp add: unf)
    next
      case 2
      have "\<not> inFence index (spans ! k)" if "k < Suc mid" "k < length spans" for k
        using 2 spansOk_nth [OF "1.prems"(1), of k mid] that mid by (cases "k = mid") (auto simp: inFence_def)
      from "1.IH"(2) [OF guard mid_def refl 2 "1.prems"(1,2) this "1.prems"(4)] show ?thesis
        using mid 2 by (simp add: unf)
    next
      case 3
      then show ?thesis using mid by (auto simp: unf inFence_def)
    qed
  qed
qed

lemma inFence_unique:
  assumes "spansOk spans" "j < length spans" "k < length spans" "inFence i (spans ! j)" "inFence i (spans ! k)"
  shows "j = k"
proof (rule ccontr)
  assume "j \<noteq> k"
  then consider "j < k" | "k < j" by linarith
  then show False
    using spansOk_nth [OF assms(1), of j k] spansOk_nth [OF assms(1), of k j] assms by cases (auto simp: inFence_def)
qed

lemma findFenceSpanAt_find:
  assumes "spansOk spans"
  shows "findFenceSpanAt spans i = List.find (inFence i) spans"
proof -
  have s: "case findFenceSpanAt spans i of None \<Rightarrow> \<forall>k < length spans. \<not> inFence i (spans ! k)
    | Some s \<Rightarrow> \<exists>k < length spans. s = spans ! k \<and> inFence i s"
    unfolding findFenceSpanAt_def by (rule searchSpan_correct [OF assms]) auto
  show ?thesis
  proof (cases "List.find (inFence i) spans")
    case None
    then have "\<forall>k < length spans. \<not> inFence i (spans ! k)" by (auto simp: find_None_iff)
    with s None show ?thesis by (auto split: option.splits)
  next
    case (Some u)
    then obtain j where j: "j < length spans" "inFence i (spans ! j)" "u = spans ! j" by (auto simp: find_Some_iff)
    with s obtain k where k: "findFenceSpanAt spans i = Some (spans ! k)" "k < length spans" "inFence i (spans ! k)"
      by (auto split: option.splits)
    from inFence_unique [OF assms j(1) k(2) j(2) k(3)] j(3) k(1) Some show ?thesis by simp
  qed
qed

text \<open>The spans of a text are in order and do not overlap.\<close>

definition scanOk :: "nat \<times> fenceSpan option \<times> fenceSpan list \<Rightarrow> bool" where
  "scanOk st \<longleftrightarrow> (case st of (offset, opened, spans) \<Rightarrow>
     spansOk spans \<and> (\<forall>s \<in> set spans. fe_end s \<le> offset) \<and>
     (case opened of None \<Rightarrow> True | Some f \<Rightarrow> fe_start f < offset \<and> (\<forall>s \<in> set spans. fe_end s \<le> fe_start f)))"

lemma spansOk_snoc: "spansOk (spans @ [f]) \<longleftrightarrow> spansOk spans \<and> (\<forall>s \<in> set spans. fe_end s \<le> fe_start f) \<and> fe_start f \<le> fe_end f"
  by (auto simp: spansOk_def sorted_wrt_append)

lemma fenceLine_ok: "scanOk st \<Longrightarrow> scanOk (fenceLine line st)"
proof (cases st)
  case (fields offset opened spans)
  assume "scanOk st"
  with fields show ?thesis
    by (cases opened; cases "matchFenceLine line")
      (fastforce simp: scanOk_def fenceLine_def Let_def spansOk_snoc)+
qed

lemma fenceLines_ok: "scanOk st \<Longrightarrow> scanOk (fold fenceLine ls st) \<and>
    fst (fold fenceLine ls st) = fst st + sum_list (map (\<lambda>l. length l + 1) ls)"
proof (induction ls arbitrary: st)
  case (Cons l ls)
  have "fst (fenceLine l st) = fst st + length l + 1"
    by (auto simp: fenceLine_def Let_def split: prod.splits option.splits)
  with Cons.IH [OF fenceLine_ok [OF Cons.prems]] show ?case by simp
qed simp

lemma sum_split: "sum_list (map (\<lambda>l. length l + 1) (js_split d s)) = Suc (length s)"
proof (induction s)
  case (Cons c s)
  then show ?case by (cases "js_split d s") auto
qed simp

lemma parseFenceSpans_ok: "spansOk (parseFenceSpans t)"
proof -
  let ?st = "fold fenceLine (js_split NL t) (0, None, [])"
  have "scanOk (0, None, [])" by (simp add: scanOk_def spansOk_def)
  from fenceLines_ok [OF this, of "js_split NL t"] have ok: "scanOk ?st" "fst ?st = Suc (length t)"
    by (simp_all add: sum_split [simplified])
  obtain offset opened spans where st: "?st = (offset, opened, spans)" by (metis prod_cases3)
  show ?thesis
  proof (cases opened)
    case None
    with st ok(1) show ?thesis by (simp add: parseFenceSpans_def scanOk_def)
  next
    case (Some f)
    with st ok show ?thesis
      by (simp add: parseFenceSpans_def scanOk_def spansOk_snoc)
  qed
qed


text \<open>The binary search finds what a scan of the spans finds.\<close>

lemma fence_search_is_scan:
  "findFenceSpanAt (parseFenceSpans t) i = List.find (inFence i) (parseFenceSpans t)"
  by (rule findFenceSpanAt_find [OF parseFenceSpans_ok])

section \<open>Markdown\<close>

lemma scanFrom_bounds:
  "scanFrom ok i cs depth (a, b) = (x, y) \<Longrightarrow>
     (x = a \<or> x < int (i + length cs)) \<and> (y = b \<or> y < int (i + length cs))"
proof (induction cs arbitrary: i depth a b)
  case (Cons c cs)
  then show ?case by (auto split: if_splits dest!: Cons.IH)
qed simp

lemma pickSafeBreakIndex_less:
  assumes "start < stop" "stop \<le> length t"
  shows "pickSafeBreakIndex t start stop spans < int stop"
proof -
  obtain x y where s: "scanFrom (isSafeFenceBreak spans) start (take (stop - start) (drop start t)) 0 (-1, -1) = (x, y)" by fastforce
  from scanFrom_bounds [OF s] assms s show ?thesis
    by (auto simp: pickSafeBreakIndex_def scanParenAwareBreakpoints_def)
qed

lemma pickNewline_least: "pickNewline t spans f start m p = Some b \<Longrightarrow> m \<le> b"
  by (induction p) (auto simp: pickNewline.simps split: if_splits)

lemma fenceBreak_gt:
  assumes "start < length t" "start < windowEnd"
  shows "start < fenceBreak t spans start c windowEnd f"
proof (cases "int start + (c - int (length (closeLine f) + 1)) \<le> int start")
  case True
  with assms(2) show ?thesis by (simp add: fenceBreak_def Let_def)
next
  case False
  let ?m = "min (length t) (max (start + 1) (fe_start f + length (fe_openLine f) + 2))"
  have m: "start < ?m" using assms(1) by simp
  let ?p = "pickNewline t spans f start ?m (Suc (nat (max (int start) (int start + (c - int (length (closeLine f))) - 1))))"
  have p: "start < b" if "?p = Some b" for b using pickNewline_least [OF that] m by linarith
  show ?thesis
  proof (cases ?p)
    case None
    have "start < nat (max (int ?m) k)" for k using m by linarith
    from this [of "int start + (c - int (length (closeLine f) + 1))"] None False assms(2) show ?thesis
      by (simp add: fenceBreak_def Let_def)
  next
    case (Some b)
    with False p [OF Some] show ?thesis by (simp add: fenceBreak_def Let_def)
  qed
qed

lemma markdownBreak_gt:
  assumes "start < length t" "0 < c"
  shows "start < fst (markdownBreak t spans start c)"
proof -
  have "start < min (length t) (start + nat c)" using assms by simp
  with fenceBreak_gt [OF assms(1) this] show ?thesis
    by (auto simp: markdownBreak_def Let_def split: option.splits)
qed

lemma inked_drop_NL: "inked (drop (skipLeadingNewlines t i) t) = inked (drop i t)"
proof -
  have "drop (skipLeadingNewlines t i) t = dropWhile (\<lambda>c. c = NL) (drop i t)"
    by (simp add: skipLeadingNewlines_def dropWhile_eq_drop add.commute)
  moreover have "inked (dropWhile (\<lambda>c. c = NL) u) = inked u" for u by (rule inked_dropWhile) simp
  ultimately show ?thesis by simp
qed

lemma inked_markdownNext: "inked (drop (markdownNext t b f) t) = inked (drop b t)"
proof -
  let ?n = "min (length t) (b + (if b < length t \<and> js_ws (t ! b) then 1 else 0))"
  have "inked (drop ?n t) = inked (drop b t)"
  proof (cases "b < length t \<and> js_ws (t ! b)")
    case True
    then have "drop b t = t ! b # drop (Suc b) t" by (simp add: Cons_nth_drop_Suc)
    with True show ?thesis by (simp add: ink min_def)
  qed (auto simp: min_def)
  then show ?thesis by (simp add: markdownNext_def Let_def inked_drop_NL)
qed

text \<open>One turn of the loop: with text left beyond the limit there is a chunk, and the loop goes on.\<close>

lemma markdownLoop_step:
  fixes t :: string and limit :: int and r :: "fenceSpan option" and spans :: "fenceSpan list" and start :: nat
  assumes "start < length t"
  defines "c \<equiv> max 1 (limit - int (length (reopenPrefix r)))"
  defines "b \<equiv> fst (markdownBreak t spans start c)" and "f \<equiv> snd (markdownBreak t spans start c)"
  shows "markdownLoop t limit spans start r =
    (if int (length t - start) \<le> c then [reopenPrefix r @ drop start t]
     else closeChunk (reopenPrefix r @ take (b - start) (drop start t)) f #
       markdownLoop t limit spans (markdownNext t b f) f)"
proof -
  have "start < b" unfolding b_def by (rule markdownBreak_gt [OF assms(1)]) (simp add: c_def)
  then show ?thesis
    using assms(1) by (subst markdownLoop.simps) (simp add: Let_def b_def f_def c_def split_def)
qed

lemma inked_closeChunk: "\<exists>w. inked (closeChunk raw f) = inked raw @ w"
  by (auto simp: closeChunk_def ink split: option.splits)

lemma markdownLoop_keeps: "subseq (inked (drop start t)) (inked (concat (markdownLoop t limit spans start r)))"
proof (induction t limit spans start r rule: markdownLoop.induct)
  case (1 t limit spans start r)
  show ?case
  proof (cases "length t \<le> start")
    case False
    let ?c = "max 1 (limit - int (length (reopenPrefix r)))"
    let ?m = "markdownBreak t spans start ?c"
    have gt: "start < fst ?m" by (rule markdownBreak_gt) (use False in simp_all)
    show ?thesis
    proof (cases "int (length t - start) \<le> ?c")
      case True
      with False markdownLoop_step [where t = t and start = start and limit = limit and r = r and spans = spans] show ?thesis
        by (simp add: ink list_emb_append2)
    next
      case more: False
      let ?raw = "reopenPrefix r @ take (fst ?m - start) (drop start t)"
      from "1.IH" [OF False refl more, of "fst ?m" "snd ?m"] gt
      have ih: "subseq (inked (drop (fst ?m) t))
          (inked (concat (markdownLoop t limit spans (markdownNext t (fst ?m) (snd ?m)) (snd ?m))))"
        by (simp add: inked_markdownNext)
      obtain w where w: "inked (closeChunk ?raw (snd ?m)) = inked ?raw @ w" using inked_closeChunk by blast
      have cut: "inked (drop start t) = inked (take (fst ?m - start) (drop start t)) @ inked (drop (fst ?m) t)"
        using inked_split [of "fst ?m - start" "drop start t"] gt by simp
      have "subseq (inked (take (fst ?m - start) (drop start t))) (inked (closeChunk ?raw (snd ?m)))"
        unfolding w inked_simps append_assoc by (intro list_emb_append2 list_emb_prefix) simp
      from list_emb_append_mono [OF this ih] show ?thesis
        using False more markdownLoop_step [where t = t and start = start and limit = limit and r = r and spans = spans] by (simp add: cut ink)
    qed
  qed (simp add: ink)
qed

text \<open>Without fences the limit is kept as well.\<close>

lemma no_spans [simp]: "findFenceSpanAt [] i = None" "isSafeFenceBreak [] i"
  by (simp_all add: findFenceSpanAt_def isSafeFenceBreak_def searchSpan.simps)

lemma plainBreak:
  assumes "start < length t" "0 < c"
  shows "snd (markdownBreak t [] start c) = None" "fst (markdownBreak t [] start c) \<le> start + nat c"
    "fst (markdownBreak t [] start c) \<le> length t"
proof -
  let ?w = "min (length t) (start + nat c)"
  have "start < ?w" using assms by simp
  from pickSafeBreakIndex_less [OF this, of t "[]"] have "pickSafeBreakIndex t start ?w [] < int ?w" by simp
  then show "snd (markdownBreak t [] start c) = None" "fst (markdownBreak t [] start c) \<le> start + nat c"
    "fst (markdownBreak t [] start c) \<le> length t"
    using assms by (auto simp: markdownBreak_def Let_def nat_le_iff)
qed

lemma plainLoop_chunks: "0 < limit \<Longrightarrow> chunksOf limit (drop start t) (markdownLoop t limit [] start None)"
proof (induction "length t - start" arbitrary: start rule: less_induct)
  case less
  show ?case
  proof (cases "length t \<le> start")
    case True
    then show ?thesis by (simp add: markdownLoop.simps chunksOf_def ink)
  next
    case False
    then have start: "start < length t" by simp
    let ?b = "fst (markdownBreak t [] start (max 1 limit))"
    note step = markdownLoop_step [where t = t and start = start and limit = limit and r = None and spans = "[]", OF start]
    show ?thesis
    proof (cases "int (length t - start) \<le> max 1 limit")
      case True
      with less.prems start step show ?thesis by (simp add: reopenPrefix_def chunksOf_def ink)
    next
      case more: False
      have gt: "start < ?b" by (rule markdownBreak_gt [OF start]) simp
      have c: "0 < max 1 limit" by simp
      note b = plainBreak [OF start c]
      have next_gt: "start < markdownNext t ?b None" by (rule markdownNext_gt [OF start gt])
      have rest: "chunksOf limit (drop ?b t) (markdownLoop t limit [] (markdownNext t ?b None) None)"
        using less.hyps [of "markdownNext t ?b None"] less.prems next_gt start
        by (simp add: chunksOf_def inked_markdownNext)
      have "inked (take (?b - start) (drop start t)) @ inked (drop ?b t) = inked (drop start t)"
        using inked_split [of "?b - start" "drop start t"] gt by simp
      then have "chunksOf limit (drop start t) (take (?b - start) (drop start t) # markdownLoop t limit [] (markdownNext t ?b None) None)"
        by (rule chunksOf_Cons [rotated 2]) (use gt b less.prems start rest in auto)
      moreover have "markdownLoop t limit [] start None =
          take (?b - start) (drop start t) # markdownLoop t limit [] (markdownNext t ?b None) None"
        using step more b(1) by (simp only: reopenPrefix_def closeChunk_def option.case append.left_neutral list.size of_nat_0 diff_zero if_False)
      ultimately show ?thesis by simp
    qed
  qed
qed

lemma plain_markdown_bounded:
  assumes "0 < limit" "parseFenceSpans t = []"
  shows "chunksOf limit t (chunkMarkdownText t limit)"
  using plainLoop_chunks [OF assms(1), of 0 t] assms
  by (auto simp: chunkMarkdownText_def resolveChunkEarlyReturn_def chunksOf_def ink)

text \<open>C25: Completeness of Markdown cut into messages: with any limit and any fences, every character other than
  white space is in the chunks, in order, beside the fence lines that are repeated; the loop never gives up.
  Where the text has no fences, the limit is kept and nothing is added.\<close>

theorem markdown_chunks_complete:
  "subseq (inked t) (inked (concat (chunkMarkdownText t limit))) \<and>
   (0 < limit \<and> parseFenceSpans t = [] \<longrightarrow>
     (\<forall>c \<in> set (chunkMarkdownText t limit). c \<noteq> [] \<and> int (length c) \<le> limit) \<and>
     inked (concat (chunkMarkdownText t limit)) = inked t)"
proof (intro conjI impI)
  show "subseq (inked t) (inked (concat (chunkMarkdownText t limit)))"
    using markdownLoop_keeps [of 0 t limit "parseFenceSpans t" None]
    by (simp add: chunkMarkdownText_def resolveChunkEarlyReturn_def)
qed (use plain_markdown_bounded [of limit t] in \<open>simp_all add: chunksOf_def\<close>)

theorem markdown_chunks_complete_witness:
  "chunkMarkdownText (''one two'' @ [NL] @ ''three'') 9 = [''one two'', ''three''] \<and>
   list_all (\<lambda>c. c \<noteq> [] \<and> int (length c) \<le> 9) (chunkMarkdownText (''one two'' @ [NL] @ ''three'') 9)"
proof
  show "chunkMarkdownText (''one two'' @ [NL] @ ''three'') 9 = [''one two'', ''three'']" by code_simp
  have "parseFenceSpans (''one two'' @ [NL] @ ''three'') = []" by code_simp
  with markdown_chunks_complete [of "''one two'' @ [NL] @ ''three''" 9]
  show "list_all (\<lambda>c. c \<noteq> [] \<and> int (length c) \<le> 9) (chunkMarkdownText (''one two'' @ [NL] @ ''three'') 9)"
    by (simp add: list_all_iff)
qed

text \<open>With a fence the limit may be exceeded: when the window ends inside the line that opens a fence, the code decides
  not to split the fence, and then finds it again at the break and closes it all the same. A parenthesis that is
  never closed suffices, since no break point counts after it.\<close>

lemma markdown_chunk_over_limit:
  "map length (chunkMarkdownText ('':( it failed on this one:'' @ [NL] @ ''```typescript'' @ [NL] @ replicate 20 (CHR ''x'') @ [NL] @ ''```'') 32)
     = [36, 32, 32]"
  by code_simp

text \<open>And the blank lines at the end are added to the last line, whatever its length.\<close>

lemma newline_chunk_over_limit:
  "map length (chunkByNewline (''ab'' @ replicate 5 NL) 4
     \<lparr>no_splitLongLines = True, no_trimLines = True, no_isSafeBreak = (\<lambda>_. True)\<rparr>) = [7]"
  by code_simp

section \<open>The contract of a chunker\<close>

text \<open>What a channel may use to cut a text, and what those who send the chunks rely on. An outer cut, as that into
  paragraphs, may be followed by an inner one.\<close>

locale text_chunker =
  fixes chunker :: "string \<Rightarrow> int \<Rightarrow> string list"
  assumes chunker_chunks: "0 < limit \<Longrightarrow> chunksOf limit t (chunker t limit)"
begin

lemma cut_again:
  assumes "0 < limit" "chunksOf limit t blocks"
  shows "chunksOf limit t (concat (map (\<lambda>b. chunker b limit) blocks))"
proof -
  have "chunksOf limit (concat blocks) (concat (map (\<lambda>b. chunker b limit) blocks))"
    by (induction blocks) (simp_all add: chunksOf_Nil inked_simps chunksOf_append chunker_chunks [OF assms(1)])
  with assms(2) show ?thesis by (simp add: chunksOf_def)
qed

lemma never_empty: "0 < limit \<Longrightarrow> inked t \<noteq> [] \<Longrightarrow> chunker t limit \<noteq> []"
  using chunker_chunks [of limit t] by (auto simp: chunksOf_def inked_simps)

end

interpretation by_length: text_chunker chunkText
  by unfold_locales (rule chunkText_chunks)

interpretation by_paragraph: text_chunker "\<lambda>t limit. chunkByParagraph t limit True"
  by unfold_locales (rule chunkByParagraph_chunks)

interpretation by_mode: text_chunker "\<lambda>t limit. chunkTextWithMode t limit mode"
  by unfold_locales (cases mode; simp add: chunkTextWithMode_def chunkText_chunks chunkByParagraph_chunks)

lemma resolveTextChunkLimit_pos: "0 < resolveTextChunkLimit cfg provider accountId fallbackLimit"
  by (auto simp: resolveTextChunkLimit_def Let_def DEFAULT_CHUNK_LIMIT_def split: option.splits)

end
