(* ===== verification/Outbound_Send.thy ===== *)
theory Outbound_Send
  imports Text_Chunks Js_Values
begin

text \<open>
  Sending a reply over a channel: the core of \<open>src/infra/outbound/deliver.ts\<close>, with \<open>payloads.ts\<close> and the
  parts of \<open>auto-reply/reply/reply-payloads.ts\<close> it needs. The adapter of the channel, which plugins provide, is a
  record of functions on a state of its own; the parser of directives in a text, the rewriting of HTML, the
  hook that may change or cancel a message, the abort signal and the transcript are functions of the host. What was
  sent before an error stays sent, so every operation returns its state beside an optional error.
\<close>

section \<open>Payloads\<close>

record replyPayload =
  rp_text :: "string option"
  rp_mediaUrl :: "string option"
  rp_mediaUrls :: "string list option"
  rp_btw :: "string option"
  rp_replyToId :: "string option"
  rp_replyToTag :: bool
  rp_replyToCurrent :: bool
  rp_audioAsVoice :: bool
  rp_isReasoning :: bool
  rp_channelData :: "(string \<times> jsv) list option"

text \<open>What the parser finds in a text.\<close>

record replyDirectives =
  rd_text :: string
  rd_mediaUrls :: "string list option"
  rd_mediaUrl :: "string option"
  rd_replyToId :: "string option"
  rd_replyToTag :: bool
  rd_replyToCurrent :: bool
  rd_audioAsVoice :: bool
  rd_isSilent :: bool

record outboundPayload =
  op_text :: string
  op_mediaUrls :: "string list"
  op_channelData :: "(string \<times> jsv) list option"

definition mergeMediaUrls :: "string list list \<Rightarrow> string list" where
  "mergeMediaUrls ls = js_uniq (filter (\<lambda>u. u \<noteq> []) (map js_trim (concat ls)))"

definition shouldSuppressReasoningPayload :: "replyPayload \<Rightarrow> bool" where
  "shouldSuppressReasoningPayload p = rp_isReasoning p"

definition isRenderablePayload :: "replyPayload \<Rightarrow> bool" where
  "isRenderablePayload p \<longleftrightarrow> js_or_empty (rp_text p) \<noteq> [] \<or> js_or_empty (rp_mediaUrl p) \<noteq> [] \<or>
     js_default (rp_mediaUrls p) [] \<noteq> [] \<or> rp_audioAsVoice p \<or> rp_channelData p \<noteq> None"

definition btwHead :: string where
  "btwHead = ''BTW'' @ [NL] @ ''Question:''"

definition formatBtwTextForExternalDelivery :: "replyPayload \<Rightarrow> string option" where
  "formatBtwTextForExternalDelivery p =
     (let t = js_trim (js_or_empty (rp_text p)); question = js_trim (js_or_empty (rp_btw p)) in
      if t = [] \<or> question = [] then rp_text p
      else (let formatted = btwHead @ '' '' @ question @ [NL, NL] @ t
        in Some (if t = formatted \<or> prefix btwHead t then t else formatted)))"

definition normalizeReplyPayload :: "(string \<Rightarrow> replyDirectives) \<Rightarrow> replyPayload \<Rightarrow> replyPayload option" where
  "normalizeReplyPayload parse p =
     (if shouldSuppressReasoningPayload p then None
      else (let parsed = parse (js_or_empty (rp_text p));
          explicitMediaUrls = js_coalesce (rp_mediaUrls p) (rd_mediaUrls parsed);
          explicitMediaUrl = js_coalesce (rp_mediaUrl p) (rd_mediaUrl parsed);
          merged = mergeMediaUrls [js_default explicitMediaUrls [], if js_or_empty explicitMediaUrl = [] then [] else [js_or_empty explicitMediaUrl]];
          next = p\<lparr>rp_text := Some (js_or_empty (formatBtwTextForExternalDelivery (p\<lparr>rp_text := Some (rd_text parsed)\<rparr>))),
            rp_mediaUrls := (if merged = [] then None else Some merged),
            rp_mediaUrl := (if 1 < length (js_default explicitMediaUrls []) then None else explicitMediaUrl),
            rp_replyToId := js_coalesce (rp_replyToId p) (rd_replyToId parsed),
            rp_replyToTag := (rp_replyToTag p \<or> rd_replyToTag parsed),
            rp_replyToCurrent := (rp_replyToCurrent p \<or> rd_replyToCurrent parsed),
            rp_audioAsVoice := (rp_audioAsVoice p \<or> rd_audioAsVoice parsed)\<rparr>
        in if rd_isSilent parsed \<and> merged = [] then None
           else if \<not> isRenderablePayload next then None else Some next))"

definition normalizeReplyPayloadsForDelivery :: "(string \<Rightarrow> replyDirectives) \<Rightarrow> replyPayload list \<Rightarrow> replyPayload list" where
  "normalizeReplyPayloadsForDelivery parse ps = List.map_filter (normalizeReplyPayload parse) ps"

definition payloadMediaUrls :: "replyPayload \<Rightarrow> string list" where
  "payloadMediaUrls p = (case rp_mediaUrls p of Some us \<Rightarrow> us
     | None \<Rightarrow> if js_or_empty (rp_mediaUrl p) = [] then [] else [js_or_empty (rp_mediaUrl p)])"

definition hasChannelDataPayload :: "replyPayload \<Rightarrow> bool" where
  "hasChannelDataPayload p \<longleftrightarrow> js_default (rp_channelData p) [] \<noteq> []"

definition normalizeOutboundPayloads :: "(string \<Rightarrow> replyDirectives) \<Rightarrow> replyPayload list \<Rightarrow> outboundPayload list" where
  "normalizeOutboundPayloads parse ps = List.map_filter (\<lambda>p.
     let t = js_or_empty (rp_text p) in
     if t = [] \<and> payloadMediaUrls p = [] \<and> \<not> hasChannelDataPayload p then None
     else Some \<lparr>op_text = t, op_mediaUrls = payloadMediaUrls p,
       op_channelData = (if hasChannelDataPayload p then rp_channelData p else None)\<rparr>)
     (normalizeReplyPayloadsForDelivery parse ps)"

definition hasMediaPayload :: "replyPayload \<Rightarrow> bool" where
  "hasMediaPayload p \<longleftrightarrow> js_or_empty (rp_mediaUrl p) \<noteq> [] \<or> js_default (rp_mediaUrls p) [] \<noteq> []"

definition normalizePayloadForChannelDelivery :: "replyPayload \<Rightarrow> replyPayload option" where
  "normalizePayloadForChannelDelivery p =
     (if js_trim (js_or_empty (rp_text p)) = []
      then (if \<not> hasMediaPayload p \<and> \<not> hasChannelDataPayload p then None else Some (p\<lparr>rp_text := Some []\<rparr>))
      else Some p)"

definition isPlainTextSurface :: "string \<Rightarrow> bool" where
  "isPlainTextSurface channel \<longleftrightarrow>
     js_lower channel \<in> {''whatsapp'', ''signal'', ''sms'', ''irc'', ''telegram'', ''imessage'', ''googlechat''}"

definition normalizePayloadsForChannelDelivery ::
  "(string \<Rightarrow> replyDirectives) \<Rightarrow> (string \<Rightarrow> string) \<Rightarrow> string \<Rightarrow> replyPayload list \<Rightarrow> replyPayload list" where
  "normalizePayloadsForChannelDelivery parse sanitize channel ps = List.map_filter (\<lambda>p.
     normalizePayloadForChannelDelivery
       (if isPlainTextSurface channel \<and> js_or_empty (rp_text p) \<noteq> []
        then p\<lparr>rp_text := Some (sanitize (js_or_empty (rp_text p)))\<rparr> else p))
     (normalizeReplyPayloadsForDelivery parse ps)"

definition buildPayloadSummary :: "replyPayload \<Rightarrow> outboundPayload" where
  "buildPayloadSummary p = \<lparr>op_text = js_or_empty (rp_text p), op_mediaUrls = payloadMediaUrls p, op_channelData = rp_channelData p\<rparr>"

section \<open>The channel\<close>

text \<open>An error that was thrown: the abort of the caller, or a message.\<close>

datatype sendError = SendAborted | SendFailed string

definition isAbortError :: "sendError \<Rightarrow> bool" where
  "isAbortError e \<longleftrightarrow> e = SendAborted"

definition sendErrorText :: "sendError \<Rightarrow> string" where
  "sendErrorText e = (case e of SendAborted \<Rightarrow> ''Operation aborted'' | SendFailed m \<Rightarrow> m)"

record deliveryMirror =
  dm_sessionKey :: string
  dm_agentId :: "string option"
  dm_text :: "string option"
  dm_mediaUrls :: "string list option"
  dm_idempotencyKey :: "string option"

record deliveryParams =
  dp_channel :: string
  dp_to :: string
  dp_accountId :: "string option"
  dp_payloads :: "replyPayload list"
  dp_threadId :: "string option"
  dp_replyToId :: "string option"
  dp_bestEffort :: bool
  dp_gifPlayback :: bool
  dp_forceDocument :: bool
  dp_silent :: bool
  dp_mirror :: "deliveryMirror option"

text \<open>What a caller adds to the parameters that are stored: whether it wants to hear of errors, and its session.\<close>

record deliveryCall =
  dc_onError :: bool
  dc_sessionKey :: "string option"
  dc_skipQueue :: bool

record outboundContext =
  sx_params :: deliveryParams
  sx_replyToId :: "string option"
  sx_threadId :: "string option"

definition resolveCtx :: "deliveryParams \<Rightarrow> string option \<Rightarrow> string option \<Rightarrow> outboundContext" where
  "resolveCtx dp replyToId threadId =
     \<lparr>sx_params = dp, sx_replyToId = js_coalesce replyToId (dp_replyToId dp), sx_threadId = js_coalesce threadId (dp_threadId dp)\<rparr>"

text \<open>An adapter: a send answers with the id of the message. The chunker may be missing, and its mode may be Markdown.\<close>

record 'w channelAdapter =
  ca_sendText :: "(outboundContext \<Rightarrow> string \<Rightarrow> 'w \<Rightarrow> (sendError + string) \<times> 'w) option"
  ca_sendMedia :: "(outboundContext \<Rightarrow> string \<Rightarrow> string \<Rightarrow> 'w \<Rightarrow> (sendError + string) \<times> 'w) option"
  ca_sendPayload :: "(outboundContext \<Rightarrow> replyPayload \<Rightarrow> 'w \<Rightarrow> (sendError + string) \<times> 'w) option"
  ca_chunker :: "(string \<Rightarrow> int \<Rightarrow> string list) option"
  ca_markdown :: bool
  ca_textChunkLimit :: "int option"

text \<open>What the hook that runs before a message is sent may answer.\<close>

datatype sendingAnswer = SendingThrew | SendingSilent | SendingCancel | SendingContent string

record 'w deliveryHost =
  dh_adapter :: "string \<Rightarrow> 'w channelAdapter option"
  dh_parse :: "string \<Rightarrow> replyDirectives"
  dh_sanitize :: "string \<Rightarrow> string"
  dh_chunks :: "chunkConfig option"
  dh_aborted :: "'w \<Rightarrow> bool"
  dh_sending :: "(outboundPayload \<Rightarrow> 'w \<Rightarrow> sendingAnswer \<times> 'w) option"
  dh_sentHooks :: bool
  dh_mirrorText :: "string option \<Rightarrow> string list option \<Rightarrow> string option"
  dh_append :: "deliveryMirror \<Rightarrow> string \<Rightarrow> 'w \<Rightarrow> string option \<times> 'w"

text \<open>The notice of a message that was sent or not.\<close>

record messageSent =
  ms_success :: bool
  ms_content :: string
  ms_error :: "string option"
  ms_messageId :: "string option"

record 'w outState =
  os_world :: 'w
  os_results :: "string list"
  os_events :: "messageSent list"

definition emitMessageSent :: "'w deliveryHost \<Rightarrow> deliveryParams \<Rightarrow> deliveryCall \<Rightarrow> messageSent \<Rightarrow> 'w outState \<Rightarrow> 'w outState" where
  "emitMessageSent h dp call event st =
     (let sessionKey = js_coalesce (map_option dm_sessionKey (dp_mirror dp)) (dc_sessionKey call) in
      if \<not> dh_sentHooks h \<and> js_or_empty sessionKey = [] then st else st\<lparr>os_events := os_events st @ [event]\<rparr>)"

definition applyMessageSendingHook :: "'w deliveryHost \<Rightarrow> replyPayload \<Rightarrow> outboundPayload \<Rightarrow> 'w \<Rightarrow>
    (replyPayload \<times> outboundPayload) option \<times> 'w" where
  "applyMessageSendingHook h p summary w = (case dh_sending h of
     None \<Rightarrow> (Some (p, summary), w)
   | Some hook \<Rightarrow> (case hook summary w of
       (SendingCancel, w') \<Rightarrow> (None, w')
     | (SendingContent t, w') \<Rightarrow> (Some (p\<lparr>rp_text := Some t\<rparr>, summary\<lparr>op_text := t\<rparr>), w')
     | (_, w') \<Rightarrow> (Some (p, summary), w')))"

section \<open>Sending\<close>

text \<open>One send that adds its result.\<close>

definition sendOne :: "('w \<Rightarrow> (sendError + string) \<times> 'w) \<Rightarrow> 'w outState \<Rightarrow> sendError option \<times> 'w outState" where
  "sendOne send st = (case send (os_world st) of
     (Inl e, w) \<Rightarrow> (Some e, st\<lparr>os_world := w\<rparr>)
   | (Inr r, w) \<Rightarrow> (None, st\<lparr>os_world := w, os_results := os_results st @ [r]\<rparr>))"

text \<open>Sends one after another, each after a look at the abort signal, up to the first error.\<close>

fun sendAll :: "'w deliveryHost \<Rightarrow> ('w \<Rightarrow> (sendError + string) \<times> 'w) list \<Rightarrow> 'w outState \<Rightarrow> sendError option \<times> 'w outState" where
  "sendAll h [] st = (None, st)"
| "sendAll h (send # rest) st =
     (if dh_aborted h (os_world st) then (Some SendAborted, st)
      else (case sendOne send st of
        (Some e, st') \<Rightarrow> (Some e, st')
      | (None, st') \<Rightarrow> sendAll h rest st'))"

definition orWhole :: "string list \<Rightarrow> string \<Rightarrow> string list" where
  "orWhole chunks whole = (if chunks = [] \<and> whole \<noteq> [] then [whole] else chunks)"

text \<open>The chunks of a text for the chunker of the adapter.\<close>

definition textChunks :: "'w deliveryHost \<Rightarrow> 'w channelAdapter \<Rightarrow> deliveryParams \<Rightarrow> (string \<Rightarrow> int \<Rightarrow> string list) \<Rightarrow> string \<Rightarrow> string list" where
  "textChunks h a dp chunker t =
     (let limit = resolveTextChunkLimit (dh_chunks h) (Some (dp_channel dp)) (dp_accountId dp) (ca_textChunkLimit a) in
      case resolveChunkMode (dh_chunks h) (Some (dp_channel dp)) (dp_accountId dp) of
        ChunkNewline \<Rightarrow>
          (let blocks = (if ca_markdown a then chunkMarkdownTextWithMode t limit ChunkNewline else chunkByParagraph t limit True)
           in concat (map (\<lambda>b. orWhole (chunker b limit) b) (orWhole blocks t)))
      | ChunkLength \<Rightarrow> chunker t limit)"

definition sendTextChunks :: "'w deliveryHost \<Rightarrow> 'w channelAdapter \<Rightarrow> deliveryParams \<Rightarrow>
    (string \<Rightarrow> 'w \<Rightarrow> (sendError + string) \<times> 'w) \<Rightarrow> string \<Rightarrow> 'w outState \<Rightarrow> sendError option \<times> 'w outState" where
  "sendTextChunks h a dp sendText t st =
     (if dh_aborted h (os_world st) then (Some SendAborted, st)
      else (case ca_chunker a of
        None \<Rightarrow> sendOne (sendText t) st
      | Some chunker \<Rightarrow> sendAll h (map sendText (textChunks h a dp chunker t)) st))"

definition lastResult :: "'w outState \<Rightarrow> string option" where
  "lastResult st = (if os_results st = [] then None else Some (last (os_results st)))"

text \<open>The notice after a text: whether anything was sent.\<close>

definition emitText :: "'w deliveryHost \<Rightarrow> deliveryParams \<Rightarrow> deliveryCall \<Rightarrow> nat \<Rightarrow> string \<Rightarrow> 'w outState \<Rightarrow> 'w outState" where
  "emitText h dp call beforeCount t st = emitMessageSent h dp call
     \<lparr>ms_success = beforeCount < length (os_results st), ms_content = t, ms_error = None, ms_messageId = lastResult st\<rparr> st"

definition sentNotice :: "outboundPayload \<Rightarrow> 'w outState \<Rightarrow> messageSent" where
  "sentNotice summary st = \<lparr>ms_success = True, ms_content = op_text summary, ms_error = None, ms_messageId = lastResult st\<rparr>"

definition noMediaError :: sendError where
  "noMediaError = SendFailed ''Plugin outbound adapter does not implement sendMedia and no text fallback is available for media payload''"

text \<open>The captions of a list of media: the text goes with the first.\<close>

definition withCaptions :: "string \<Rightarrow> string list \<Rightarrow> (string \<times> string) list" where
  "withCaptions t urls = (case urls of [] \<Rightarrow> [] | u # us \<Rightarrow> (t, u) # map (\<lambda>v. ([], v)) us)"

definition sendMediaUrls :: "'w deliveryHost \<Rightarrow> deliveryParams \<Rightarrow> deliveryCall \<Rightarrow>
    (outboundContext \<Rightarrow> string \<Rightarrow> string \<Rightarrow> 'w \<Rightarrow> (sendError + string) \<times> 'w) \<Rightarrow> outboundContext \<Rightarrow> outboundPayload \<Rightarrow>
    'w outState \<Rightarrow> sendError option \<times> 'w outState" where
  "sendMediaUrls h dp call sendMedia ctx summary st =
     (case sendAll h (map (\<lambda>(caption, url). sendMedia ctx caption url) (withCaptions (op_text summary) (op_mediaUrls summary))) st of
        (Some e, st') \<Rightarrow> (Some e, st')
      | (None, st') \<Rightarrow> (None, emitMessageSent h dp call (sentNotice summary st') st'))"

definition sendPayloadText :: "'w deliveryHost \<Rightarrow> 'w channelAdapter \<Rightarrow> deliveryParams \<Rightarrow> deliveryCall \<Rightarrow>
    (string \<Rightarrow> 'w \<Rightarrow> (sendError + string) \<times> 'w) \<Rightarrow> string \<Rightarrow> string \<Rightarrow> 'w outState \<Rightarrow> sendError option \<times> 'w outState" where
  "sendPayloadText h a dp call sendText t content st =
     (case sendTextChunks h a dp sendText t st of
        (Some e, st') \<Rightarrow> (Some e, st')
      | (None, st') \<Rightarrow> (None, emitText h dp call (length (os_results st)) content st'))"

definition effectiveContext :: "deliveryParams \<Rightarrow> replyPayload \<Rightarrow> outboundContext" where
  "effectiveContext dp p = resolveCtx dp (js_coalesce (rp_replyToId p) (dp_replyToId dp)) (dp_threadId dp)"

text \<open>A payload after the hook.\<close>

definition sendEffective :: "'w deliveryHost \<Rightarrow> 'w channelAdapter \<Rightarrow> deliveryParams \<Rightarrow> deliveryCall \<Rightarrow>
    (outboundContext \<Rightarrow> string \<Rightarrow> 'w \<Rightarrow> (sendError + string) \<times> 'w) \<Rightarrow> replyPayload \<Rightarrow> outboundPayload \<Rightarrow>
    'w outState \<Rightarrow> sendError option \<times> 'w outState" where
  "sendEffective h a dp call sendText p summary st =
     (let ctx = effectiveContext dp p in
      case (ca_sendPayload a, rp_channelData p) of
        (Some sendPayload, Some _) \<Rightarrow>
          (case sendOne (sendPayload ctx p) st of
             (Some e, st') \<Rightarrow> (Some e, st')
           | (None, st') \<Rightarrow> (None, emitMessageSent h dp call (sentNotice summary st') st'))
      | _ \<Rightarrow>
          if op_mediaUrls summary = [] then sendPayloadText h a dp call (sendText ctx) (op_text summary) (op_text summary) st
          else (case ca_sendMedia a of
              None \<Rightarrow> if js_trim (op_text summary) = [] then (Some noMediaError, st)
                else sendPayloadText h a dp call (sendText ctx) (js_trim (op_text summary)) (op_text summary) st
            | Some sendMedia \<Rightarrow> sendMediaUrls h dp call sendMedia ctx summary st))"

text \<open>A payload, with the summary that the notice of an error will carry.\<close>

definition deliverPayload :: "'w deliveryHost \<Rightarrow> 'w channelAdapter \<Rightarrow> deliveryParams \<Rightarrow> deliveryCall \<Rightarrow>
    (outboundContext \<Rightarrow> string \<Rightarrow> 'w \<Rightarrow> (sendError + string) \<times> 'w) \<Rightarrow> replyPayload \<Rightarrow>
    'w outState \<Rightarrow> sendError option \<times> 'w outState" where
  "deliverPayload h a dp call sendText p st =
     (let summary = buildPayloadSummary p; failed = (\<lambda>t e s. emitMessageSent h dp call
       \<lparr>ms_success = False, ms_content = t, ms_error = Some (sendErrorText e), ms_messageId = None\<rparr> s) in
      if dh_aborted h (os_world st) then (Some SendAborted, failed (op_text summary) SendAborted st)
      else (case applyMessageSendingHook h p summary (os_world st) of
          (None, w) \<Rightarrow> (None, st\<lparr>os_world := w\<rparr>)
        | (Some (p', summary'), w) \<Rightarrow>
            (case sendEffective h a dp call sendText p' summary' (st\<lparr>os_world := w\<rparr>) of
               (Some e, st') \<Rightarrow> (Some e, failed (op_text summary') e st')
             | (None, st') \<Rightarrow> (None, st'))))"

text \<open>All payloads; the flag tells whether the caller heard of an error.\<close>

fun deliverPayloads :: "'w deliveryHost \<Rightarrow> 'w channelAdapter \<Rightarrow> deliveryParams \<Rightarrow> deliveryCall \<Rightarrow>
    (outboundContext \<Rightarrow> string \<Rightarrow> 'w \<Rightarrow> (sendError + string) \<times> 'w) \<Rightarrow> replyPayload list \<Rightarrow>
    'w outState \<Rightarrow> bool \<Rightarrow> (sendError option \<times> bool) \<times> 'w outState" where
  "deliverPayloads h a dp call sendText [] st heard = ((None, heard), st)"
| "deliverPayloads h a dp call sendText (p # ps) st heard =
     (case deliverPayload h a dp call sendText p st of
        (None, st') \<Rightarrow> deliverPayloads h a dp call sendText ps st' heard
      | (Some e, st') \<Rightarrow>
          if dp_bestEffort dp then deliverPayloads h a dp call sendText ps st' (heard \<or> dc_onError call)
          else ((Some e, heard), st'))"

definition appendMirror :: "'w deliveryHost \<Rightarrow> deliveryParams \<Rightarrow> 'w outState \<Rightarrow> sendError option \<times> 'w outState" where
  "appendMirror h dp st = (case dp_mirror dp of
     None \<Rightarrow> (None, st)
   | Some m \<Rightarrow>
       if os_results st = [] then (None, st)
       else (case dh_mirrorText h (dm_text m) (dm_mediaUrls m) of
           None \<Rightarrow> (None, st)
         | Some t \<Rightarrow> if t = [] then (None, st)
             else (case dh_append h m t (os_world st) of (err, w) \<Rightarrow> (map_option SendFailed err, st\<lparr>os_world := w\<rparr>))))"

definition notConfigured :: "string \<Rightarrow> sendError" where
  "notConfigured channel = SendFailed (''Outbound not configured for channel: '' @ channel)"

definition deliverOutboundPayloadsCore :: "'w deliveryHost \<Rightarrow> deliveryParams \<Rightarrow> deliveryCall \<Rightarrow> 'w outState \<Rightarrow>
    (sendError option \<times> bool) \<times> 'w outState" where
  "deliverOutboundPayloadsCore h dp call st =
     (case Option.bind (dh_adapter h (dp_channel dp)) (\<lambda>a. map_option (\<lambda>s. (a, s)) (ca_sendText a)) of
        None \<Rightarrow> ((Some (notConfigured (dp_channel dp)), False), st)
      | Some (a, sendText) \<Rightarrow>
          (case deliverPayloads h a dp call sendText
              (normalizePayloadsForChannelDelivery (dh_parse h) (dh_sanitize h) (dp_channel dp) (dp_payloads dp)) st False of
             ((Some e, heard), st') \<Rightarrow> ((Some e, heard), st')
           | ((None, heard), st') \<Rightarrow> (case appendMirror h dp st' of (err, st'') \<Rightarrow> ((err, heard), st''))))"

section \<open>What was sent\<close>

text \<open>A channel that keeps a log: a send that answers adds its text, one that fails adds nothing.\<close>

definition logs :: "('w \<Rightarrow> string list) \<Rightarrow> (string \<Rightarrow> 'w \<Rightarrow> (sendError + string) \<times> 'w) \<Rightarrow> bool" where
  "logs log send \<longleftrightarrow> (\<forall>t w. log (snd (send t w)) = log w @ (case fst (send t w) of Inl _ \<Rightarrow> [] | Inr _ \<Rightarrow> [t]))"

lemma sendOne_logs:
  assumes "logs log send" "sendOne (send t) st = (None, st')"
  shows "log (os_world st') = log (os_world st) @ [t]"
  using assms(2) assms(1) [unfolded logs_def, rule_format, of t "os_world st"]
  by (auto simp: sendOne_def split: prod.splits sum.splits)

lemma sendAll_logs:
  assumes "logs log send"
  shows "sendAll h (map send ts) st = (None, st') \<Longrightarrow> log (os_world st') = log (os_world st) @ ts"
proof (induction ts arbitrary: st)
  case (Cons t ts)
  then obtain st1 where "sendOne (send t) st = (None, st1)" "sendAll h (map send ts) st1 = (None, st')"
    by (auto split: if_splits prod.splits option.splits)
  with Cons.IH sendOne_logs [OF assms] show ?case by fastforce
qed simp

lemma emit_world [simp]:
  "os_world (emitMessageSent h dp call e st) = os_world st"
  "os_results (emitMessageSent h dp call e st) = os_results st"
  by (simp_all add: emitMessageSent_def Let_def)

lemma emitText_world [simp]: "os_world (emitText h dp call n t st) = os_world st"
  by (simp add: emitText_def)

context text_chunker
begin

lemma cut_or_whole:
  assumes l: "0 < limit"
  shows "(\<forall>b \<in> set blocks. b \<noteq> [] \<and> int (length b) \<le> limit) \<Longrightarrow>
    chunksOf limit (concat blocks) (concat (map (\<lambda>b. orWhole (chunker b limit) b) blocks))"
proof (induction blocks)
  case (Cons b blocks)
  have "chunksOf limit b (orWhole (chunker b limit) b)"
    using chunker_chunks [OF l, of b] Cons.prems by (auto simp: orWhole_def chunksOf_def)
  from chunksOf_append [OF this Cons.IH] Cons.prems show ?case by simp
qed (simp add: chunksOf_Nil inked_simps)

lemma cut_blocks:
  assumes "0 < limit" "chunksOf limit t blocks"
  shows "chunksOf limit t (concat (map (\<lambda>b. orWhole (chunker b limit) b) blocks))"
  using cut_or_whole [OF assms(1), of blocks] assms(2) by (simp add: chunksOf_def)

lemma textChunks_chunks:
  assumes "\<not> ca_markdown a" "t = [] \<or> inked t \<noteq> []"
  shows "chunksOf (resolveTextChunkLimit (dh_chunks h) (Some (dp_channel dp)) (dp_accountId dp) (ca_textChunkLimit a))
    t (textChunks h a dp chunker t)"
proof -
  let ?l = "resolveTextChunkLimit (dh_chunks h) (Some (dp_channel dp)) (dp_accountId dp) (ca_textChunkLimit a)"
  have l: "0 < ?l" by (rule resolveTextChunkLimit_pos)
  show ?thesis
  proof (cases "resolveChunkMode (dh_chunks h) (Some (dp_channel dp)) (dp_accountId dp)")
    case ChunkLength
    with chunker_chunks [OF l] show ?thesis by (simp add: textChunks_def Let_def)
  next
    case ChunkNewline
    let ?blocks = "chunkByParagraph t ?l True"
    from by_paragraph.chunker_chunks [OF l, of t] have b: "chunksOf ?l t ?blocks" .
    have "orWhole ?blocks t = ?blocks"
    proof (cases "t = []")
      case False
      with assms(2) have "?blocks \<noteq> []" by (intro by_paragraph.never_empty [OF l]) simp
      then show ?thesis by (simp add: orWhole_def)
    qed (simp add: orWhole_def chunkByParagraph_def)
    moreover have "chunksOf ?l t (concat (map (\<lambda>b. orWhole (chunker b ?l) b) ?blocks))"
      by (rule cut_blocks [OF l b])
    moreover have "textChunks h a dp chunker t = concat (map (\<lambda>b. orWhole (chunker b ?l) b) (orWhole ?blocks t))"
      using assms(1) ChunkNewline by (simp add: textChunks_def Let_def)
    ultimately show ?thesis by (simp only:)
  qed
qed

end

lemma sendPayloadText_logs:
  assumes "logs log sendText" "ca_chunker a = Some chunker"
    and "sendPayloadText h a dp call sendText t content st = (None, st')"
  shows "log (os_world st') = log (os_world st) @ textChunks h a dp chunker t"
proof -
  from assms(3) obtain st1 where "sendTextChunks h a dp sendText t st = (None, st1)"
    and st': "st' = emitText h dp call (length (os_results st)) content st1"
    by (auto simp: sendPayloadText_def split: prod.splits option.splits)
  then have "sendAll h (map sendText (textChunks h a dp chunker t)) st = (None, st1)"
    using assms(2) by (simp add: sendTextChunks_def split: if_splits)
  from sendAll_logs [OF assms(1) this] show ?thesis by (simp add: st')
qed

text \<open>A payload of text only, without a hook that may change it.\<close>

definition plainPayload :: "replyPayload \<Rightarrow> bool" where
  "plainPayload p \<longleftrightarrow> payloadMediaUrls p = [] \<and> rp_channelData p = None"

lemma deliverPayload_logs:
  assumes "\<And>ctx. logs log (sendText ctx)" "ca_chunker a = Some chunker" "dh_sending h = None" "plainPayload p"
    and "deliverPayload h a dp call sendText p st = (None, st')"
  shows "log (os_world st') = log (os_world st) @ textChunks h a dp chunker (js_or_empty (rp_text p))"
proof -
  from assms(4) have plain: "op_mediaUrls (buildPayloadSummary p) = []" "rp_channelData p = None"
    by (simp_all add: plainPayload_def buildPayloadSummary_def)
  have "sendEffective h a dp call sendText p (buildPayloadSummary p) st = (None, st')"
    using assms(3,5) by (auto simp: deliverPayload_def Let_def applyMessageSendingHook_def split: if_splits prod.splits option.splits)
  then have "sendPayloadText h a dp call (sendText (effectiveContext dp p)) (op_text (buildPayloadSummary p))
      (op_text (buildPayloadSummary p)) st = (None, st')"
    using plain by (simp add: sendEffective_def Let_def split: option.splits)
  from sendPayloadText_logs [OF assms(1,2) this] show ?thesis by (simp add: buildPayloadSummary_def)
qed

lemma deliverPayloads_logs:
  assumes "\<And>ctx. logs log (sendText ctx)" "ca_chunker a = Some chunker" "dh_sending h = None" "\<not> dp_bestEffort dp"
  shows "list_all plainPayload ps \<Longrightarrow> deliverPayloads h a dp call sendText ps st heard = ((None, heard'), st') \<Longrightarrow>
    log (os_world st') = log (os_world st) @ concat (map (\<lambda>p. textChunks h a dp chunker (js_or_empty (rp_text p))) ps)"
proof (induction ps arbitrary: st heard)
  case (Cons p ps)
  then obtain st1 where "deliverPayload h a dp call sendText p st = (None, st1)"
      "deliverPayloads h a dp call sendText ps st1 heard = ((None, heard'), st')"
    using assms(4) by (auto split: prod.splits option.splits)
  with Cons deliverPayload_logs [OF assms(1,2,3)] show ?case by fastforce
qed simp

lemma trim_inked: "inked t = [] \<longleftrightarrow> js_trim t = []"
proof
  assume "inked t = []"
  then have "\<forall>c \<in> set (js_trim t). js_ws c" using set_js_trim [of t] by (auto simp: inked_def filter_empty_conv)
  then show "js_trim t = []" using js_trim_hd [of t] by (cases "js_trim t") auto
next
  assume "js_trim t = []"
  then show "inked t = []" using inked_trim [of t] by (simp add: inked_simps)
qed

lemma normalized_payload: "p \<in> set (normalizePayloadsForChannelDelivery parse sanitize channel ps) \<Longrightarrow>
    js_or_empty (rp_text p) = [] \<or> inked (js_or_empty (rp_text p)) \<noteq> []"
  by (auto simp: normalizePayloadsForChannelDelivery_def map_filter_def normalizePayloadForChannelDelivery_def trim_inked
      js_or_empty_def split: if_splits option.splits)

lemma concat_texts:
  assumes "\<And>t. t \<in> set ts \<Longrightarrow> chunksOf limit t (f t)"
  shows "chunksOf limit (concat ts) (concat (map f ts))"
  using assms by (induction ts) (simp_all add: chunksOf_Nil inked_simps chunksOf_append)

text \<open>C23: Delivery of a reply: take a channel whose adapter sends text and cuts it with \<open>chunkText\<close>, not by the rules of
  Markdown, and payloads that are only text once they are normalised, with no hook that may change or cancel messages,
  no mirror of the delivery, and a caller that did not ask for best effort. When sending them ends without an error, then
  all the characters of the normalised texts other than white space went out, in order, in messages that are not empty
  and within the limit of the channel.\<close>

theorem delivered_text_is_complete:
  assumes "dh_adapter h (dp_channel dp) = Some a" "ca_sendText a = Some sendText" "ca_chunker a = Some chunkText"
    "\<not> ca_markdown a"
    and "\<And>ctx. logs log (sendText ctx)" "dh_sending h = None" "dp_mirror dp = None" "\<not> dp_bestEffort dp"
    and "list_all plainPayload (normalizePayloadsForChannelDelivery (dh_parse h) (dh_sanitize h) (dp_channel dp) (dp_payloads dp))"
    and "deliverOutboundPayloadsCore h dp call st = ((None, heard), st')"
  shows "\<exists>sent. log (os_world st') = log (os_world st) @ sent \<and>
    (\<forall>s \<in> set sent. s \<noteq> [] \<and>
       int (length s) \<le> resolveTextChunkLimit (dh_chunks h) (Some (dp_channel dp)) (dp_accountId dp) (ca_textChunkLimit a)) \<and>
    inked (concat sent) = inked (concat (map (\<lambda>p. js_or_empty (rp_text p))
      (normalizePayloadsForChannelDelivery (dh_parse h) (dh_sanitize h) (dp_channel dp) (dp_payloads dp))))"
proof -
  let ?ps = "normalizePayloadsForChannelDelivery (dh_parse h) (dh_sanitize h) (dp_channel dp) (dp_payloads dp)"
  let ?l = "resolveTextChunkLimit (dh_chunks h) (Some (dp_channel dp)) (dp_accountId dp) (ca_textChunkLimit a)"
  from assms have "deliverPayloads h a dp call sendText ?ps st False = ((None, heard), st')"
    by (auto simp: deliverOutboundPayloadsCore_def appendMirror_def split: prod.splits option.splits)
  note sent = deliverPayloads_logs [OF assms(5,3,6,8,9) this]
  have "chunksOf ?l (concat (map (\<lambda>p. js_or_empty (rp_text p)) ?ps))
      (concat (map (textChunks h a dp chunkText) (map (\<lambda>p. js_or_empty (rp_text p)) ?ps)))"
  proof (rule concat_texts)
    fix t assume "t \<in> set (map (\<lambda>p. js_or_empty (rp_text p)) ?ps)"
    then have "t = [] \<or> inked t \<noteq> []" using normalized_payload by fastforce
    then show "chunksOf ?l t (textChunks h a dp chunkText t)" by (rule by_length.textChunks_chunks [OF assms(4)])
  qed
  then show ?thesis using sent by (auto simp: chunksOf_def comp_def)
qed


text \<open>A channel that keeps what it was given, for the examples.\<close>

definition listAdapter :: "bool \<Rightarrow> string list channelAdapter" where
  "listAdapter works = \<lparr>ca_sendText = Some (\<lambda>ctx t w. if works then (Inr ''id'', w @ [t]) else (Inl (SendFailed ''offline''), w)),
     ca_sendMedia = None, ca_sendPayload = None, ca_chunker = Some chunkText, ca_markdown = False, ca_textChunkLimit = Some 6\<rparr>"

definition plainDirectives :: "string \<Rightarrow> replyDirectives" where
  "plainDirectives t = \<lparr>rd_text = t, rd_mediaUrls = None, rd_mediaUrl = None, rd_replyToId = None, rd_replyToTag = False,
     rd_replyToCurrent = False, rd_audioAsVoice = False, rd_isSilent = False\<rparr>"

definition listHost :: "bool \<Rightarrow> string option \<Rightarrow> string list deliveryHost" where
  "listHost works mirrorError = \<lparr>dh_adapter = (\<lambda>_. Some (listAdapter works)), dh_parse = plainDirectives, dh_sanitize = (\<lambda>t. t),
     dh_chunks = None, dh_aborted = (\<lambda>_. False), dh_sending = None, dh_sentHooks = False,
     dh_mirrorText = (\<lambda>t _. t), dh_append = (\<lambda>_ _ w. (mirrorError, w))\<rparr>"

definition textPayload :: "string \<Rightarrow> replyPayload" where
  "textPayload t = \<lparr>rp_text = Some t, rp_mediaUrl = None, rp_mediaUrls = None, rp_btw = None, rp_replyToId = None,
     rp_replyToTag = False, rp_replyToCurrent = False, rp_audioAsVoice = False, rp_isReasoning = False, rp_channelData = None\<rparr>"

definition textDelivery :: "string \<Rightarrow> bool \<Rightarrow> deliveryMirror option \<Rightarrow> deliveryParams" where
  "textDelivery t bestEffort mirror = \<lparr>dp_channel = ''slack'', dp_to = ''C1'', dp_accountId = None, dp_payloads = [textPayload t],
     dp_threadId = None, dp_replyToId = None, dp_bestEffort = bestEffort, dp_gifPlayback = False, dp_forceDocument = False,
     dp_silent = False, dp_mirror = mirror\<rparr>"

definition quietCall :: deliveryCall where
  "quietCall = \<lparr>dc_onError = False, dc_sessionKey = None, dc_skipQueue = False\<rparr>"

definition outStart :: "'w \<Rightarrow> 'w outState" where
  "outStart w = \<lparr>os_world = w, os_results = [], os_events = []\<rparr>"

theorem delivered_text_is_complete_witness:
  "let st' = snd (deliverOutboundPayloadsCore (listHost True None) (textDelivery ''to be (or not)'' False None) quietCall (outStart []))
   in os_world st' = [''to be'', ''(or no'', ''t)''] \<and>
      (\<exists>sent. os_world st' = [] @ sent \<and> list_all (\<lambda>s. s \<noteq> [] \<and> int (length s) \<le> 6) sent \<and> inked (concat sent) = inked ''to be (or not)'')"
proof -
  let ?h = "listHost True None" and ?dp = "textDelivery ''to be (or not)'' False None"
  have run: "deliverOutboundPayloadsCore ?h ?dp quietCall (outStart []) =
      ((None, False), \<lparr>os_world = [''to be'', ''(or no'', ''t)''], os_results = [''id'', ''id'', ''id''], os_events = []\<rparr>)"
    by code_simp
  have ps: "normalizePayloadsForChannelDelivery (dh_parse ?h) (dh_sanitize ?h) (dp_channel ?dp) (dp_payloads ?dp) =
      [textPayload ''to be (or not)'']" by code_simp
  have l: "resolveTextChunkLimit (dh_chunks ?h) (Some (dp_channel ?dp)) (dp_accountId ?dp) (ca_textChunkLimit (listAdapter True)) = 6"
    by code_simp
  have "\<exists>sent. os_world (snd (deliverOutboundPayloadsCore ?h ?dp quietCall (outStart []))) = os_world (outStart []) @ sent \<and>
      (\<forall>s \<in> set sent. s \<noteq> [] \<and> int (length s) \<le> resolveTextChunkLimit (dh_chunks ?h) (Some (dp_channel ?dp)) (dp_accountId ?dp)
         (ca_textChunkLimit (listAdapter True))) \<and>
      inked (concat sent) = inked (concat (map (\<lambda>p. js_or_empty (rp_text p))
        (normalizePayloadsForChannelDelivery (dh_parse ?h) (dh_sanitize ?h) (dp_channel ?dp) (dp_payloads ?dp))))"
    by (rule delivered_text_is_complete [where log = "\<lambda>w. w" and sendText = "\<lambda>ctx t w. (Inr ''id'', w @ [t])"
          and call = quietCall and heard = False])
      (simp_all add: run ps, simp_all add: listHost_def listAdapter_def textDelivery_def logs_def plainPayload_def
        payloadMediaUrls_def textPayload_def js_or_empty_def)
  then show ?thesis unfolding l ps run by (simp add: outStart_def textPayload_def js_or_empty_def list_all_iff)
qed

text \<open>With best effort, and no one to hear of errors, a delivery of which nothing went out ends like one that worked.\<close>

lemma best_effort_looks_delivered:
  "deliverOutboundPayloadsCore (listHost False None) (textDelivery ''hello'' True None) quietCall (outStart []) =
     ((None, False), \<lparr>os_world = [], os_results = [], os_events = []\<rparr>)"
  by code_simp

text \<open>And a delivery that went out fails when the transcript cannot be written afterwards.\<close>

lemma mirror_failure_after_sending:
  "deliverOutboundPayloadsCore (listHost True (Some ''EACCES''))
     (textDelivery ''hello'' False (Some \<lparr>dm_sessionKey = ''k'', dm_agentId = None, dm_text = Some ''hello'', dm_mediaUrls = None, dm_idempotencyKey = None\<rparr>))
     quietCall (outStart []) =
   ((Some (SendFailed ''EACCES''), False), \<lparr>os_world = [''hello''], os_results = [''id''], os_events = [\<lparr>ms_success = True, ms_content = ''hello'', ms_error = None, ms_messageId = Some ''id''\<rparr>]\<rparr>)"
  by code_simp

end
