(* ===== verification/Delivery_Queue.thy ===== *)
theory Delivery_Queue
  imports Outbound_Send
begin

text \<open>
  The write-ahead queue of outgoing messages: \<open>src/infra/outbound/delivery-queue.ts\<close>, and the operation of
  \<open>deliver.ts\<close> that puts a message into it, sends it and settles it. The queue is a directory with a file per
  message, beside a directory of failed ones; a file holds an entry, or nothing that can be read. An operation is
  a list of commands to the file system, of which the environment lets a number succeed: the rest of an
  operation that failed, or that a crash cut off, is not done, and a write that is cut off may leave a torn file.
  Deliveries, recoveries and the reading of the queue interleave: between two operations, between the files that are
  read, and between the reading of a file, the opening and closing of its temporary file, and its renaming.
\<close>

section \<open>Files\<close>

record queuedDelivery =
  qd_id :: string
  qd_enqueuedAt :: int
  qd_params :: deliveryParams
  qd_retryCount :: int
  qd_lastAttemptAt :: "int option"
  qd_lastError :: "string option"

datatype queueFile = EntryFile queuedDelivery | TornFile

record queueDirs =
  dq_files :: "(string \<times> queueFile) list"
  dq_failed :: "(string \<times> queueFile) list"

definition jsonPath :: "string \<Rightarrow> string" where "jsonPath msgId = msgId @ ''.json''"
definition deliveredPath :: "string \<Rightarrow> string" where "deliveredPath msgId = msgId @ ''.delivered''"
definition tmpPath :: "string \<Rightarrow> string \<Rightarrow> string" where "tmpPath pid path = path @ ''.'' @ pid @ ''.tmp''"

datatype fsCommand =
    WriteFile string queueFile
  | RenameFile string string
  | UnlinkFile string
  | RenameToFailed string

text \<open>A command that finds no file to rename is an error; a file that is not there need not be removed.\<close>

definition execCommand :: "fsCommand \<Rightarrow> queueDirs \<Rightarrow> queueDirs option" where
  "execCommand c d = (case c of
     WriteFile path f \<Rightarrow> Some (d\<lparr>dq_files := AList.update path f (dq_files d)\<rparr>)
   | RenameFile a b \<Rightarrow> (case map_of (dq_files d) a of
       None \<Rightarrow> None
     | Some f \<Rightarrow> Some (d\<lparr>dq_files := AList.update b f (AList.delete a (dq_files d))\<rparr>))
   | UnlinkFile path \<Rightarrow> Some (d\<lparr>dq_files := AList.delete path (dq_files d)\<rparr>)
   | RenameToFailed path \<Rightarrow> (case map_of (dq_files d) path of
       None \<Rightarrow> None
     | Some f \<Rightarrow> Some (d\<lparr>dq_files := AList.delete path (dq_files d), dq_failed := AList.update path f (dq_failed d)\<rparr>)))"

text \<open>How many commands of an operation succeed, and whether a write that does not leaves a torn file.\<close>

type_synonym fault = "nat \<times> bool"

fun runCommands :: "fault \<Rightarrow> fsCommand list \<Rightarrow> queueDirs \<Rightarrow> queueDirs \<times> bool" where
  "runCommands f [] d = (d, True)"
| "runCommands (0, torn) (c # cs) d =
     ((case c of WriteFile path _ \<Rightarrow> if torn then d\<lparr>dq_files := AList.update path TornFile (dq_files d)\<rparr> else d | _ \<Rightarrow> d), False)"
| "runCommands (Suc n, torn) (c # cs) d =
     (case execCommand c d of None \<Rightarrow> (d, False) | Some d' \<Rightarrow> runCommands (n, torn) cs d')"

text \<open>\<open>writeFile\<close> to a temporary file, which is then renamed.\<close>

definition replaceFile :: "string \<Rightarrow> string \<Rightarrow> queuedDelivery \<Rightarrow> fsCommand list" where
  "replaceFile pid path e = [WriteFile (tmpPath pid path) (EntryFile e), RenameFile (tmpPath pid path) path]"

section \<open>Entries\<close>

definition MAX_RETRIES :: int where "MAX_RETRIES = 5"

definition BACKOFF_MS :: "int list" where "BACKOFF_MS = [5000, 25000, 120000, 600000]"

definition computeBackoffMs :: "int \<Rightarrow> int" where
  "computeBackoffMs retryCount = (if retryCount \<le> 0 then 0
     else BACKOFF_MS ! nat (min (retryCount - 1) (int (length BACKOFF_MS) - 1)))"

definition hasAttemptTimestamp :: "queuedDelivery \<Rightarrow> bool" where
  "hasAttemptTimestamp e \<longleftrightarrow> (case qd_lastAttemptAt e of Some t \<Rightarrow> 0 < t | None \<Rightarrow> False)"

text \<open>What remains of the back-off of an entry; none when it may be tried.\<close>

definition remainingBackoff :: "queuedDelivery \<Rightarrow> int \<Rightarrow> int option" where
  "remainingBackoff e now =
     (let backoff = computeBackoffMs (qd_retryCount e + 1) in
      if backoff \<le> 0 then None
      else if qd_retryCount e = 0 \<and> qd_lastAttemptAt e = None then None
      else (let nextEligibleAt = (if hasAttemptTimestamp e then js_default (qd_lastAttemptAt e) (qd_enqueuedAt e) else qd_enqueuedAt e) + backoff
        in if nextEligibleAt \<le> now then None else Some (nextEligibleAt - now)))"

definition normalizeLegacyQueuedDeliveryEntry :: "queuedDelivery \<Rightarrow> queuedDelivery \<times> bool" where
  "normalizeLegacyQueuedDeliveryEntry e =
     (if hasAttemptTimestamp e \<or> qd_retryCount e \<le> 0 then (e, False)
      else if \<not> 0 < qd_enqueuedAt e then (e, False)
      else (e\<lparr>qd_lastAttemptAt := Some (qd_enqueuedAt e)\<rparr>, True))"

definition PERMANENT_ERROR_PATTERNS :: "string list" where
  "PERMANENT_ERROR_PATTERNS = [''no conversation reference found'', ''chat not found'', ''user not found'',
     ''bot was blocked by the user'', ''forbidden: bot was kicked'', ''chat_id is empty'', ''recipient is not a valid'',
     ''outbound not configured for channel'', ''ambiguous discord recipient'']"

fun textHas :: "string \<Rightarrow> string \<Rightarrow> bool" where
  "textHas pat [] = (pat = [])"
| "textHas pat (c # cs) = (take (length pat) (c # cs) = pat \<or> textHas pat cs)"

definition isPermanentDeliveryError :: "string \<Rightarrow> bool" where
  "isPermanentDeliveryError err = list_ex (\<lambda>pat. textHas pat (js_lower err)) PERMANENT_ERROR_PATTERNS"

section \<open>Operations\<close>

definition enqueueDelivery :: "string \<Rightarrow> string \<Rightarrow> int \<Rightarrow> deliveryParams \<Rightarrow> fault \<Rightarrow> queueDirs \<Rightarrow> queueDirs \<times> bool" where
  "enqueueDelivery pid msgId now dp f d =
     runCommands f (replaceFile pid (jsonPath msgId)
       \<lparr>qd_id = msgId, qd_enqueuedAt = now, qd_params = dp, qd_retryCount = 0, qd_lastAttemptAt = None, qd_lastError = None\<rparr>) d"

text \<open>First the file is renamed to a marker, then the marker is removed, which need not succeed.\<close>

definition ackDelivery :: "string \<Rightarrow> fault \<Rightarrow> queueDirs \<Rightarrow> queueDirs \<times> bool" where
  "ackDelivery msgId f d =
     (if map_of (dq_files d) (jsonPath msgId) = None then (fst (runCommands f [UnlinkFile (deliveredPath msgId)] d), True)
      else (case runCommands f [RenameFile (jsonPath msgId) (deliveredPath msgId)] d of
          (d', False) \<Rightarrow> (d', False)
        | (d', True) \<Rightarrow> (fst (runCommands (fst f - 1, snd f) [UnlinkFile (deliveredPath msgId)] d'), True)))"

definition failedEntry :: "string \<Rightarrow> int \<Rightarrow> queuedDelivery \<Rightarrow> queuedDelivery" where
  "failedEntry err now e = e\<lparr>qd_retryCount := qd_retryCount e + 1, qd_lastAttemptAt := Some now, qd_lastError := Some err\<rparr>"

definition failDelivery :: "string \<Rightarrow> string \<Rightarrow> string \<Rightarrow> int \<Rightarrow> fault \<Rightarrow> queueDirs \<Rightarrow> queueDirs \<times> bool" where
  "failDelivery pid msgId err now f d = (case map_of (dq_files d) (jsonPath msgId) of
     Some (EntryFile e) \<Rightarrow> runCommands f (replaceFile pid (jsonPath msgId) (failedEntry err now e)) d
   | _ \<Rightarrow> (d, False))"

definition moveToFailed :: "string \<Rightarrow> fault \<Rightarrow> queueDirs \<Rightarrow> queueDirs \<times> bool" where
  "moveToFailed msgId f d = runCommands f [RenameToFailed (jsonPath msgId)] d"

text \<open>One file of the directory: an entry of an older version is brought up to date in its file; one that cannot be
  read, or whose file cannot be written, is left out.\<close>

definition loadEntry :: "string \<Rightarrow> (string \<Rightarrow> fault) \<Rightarrow> string \<Rightarrow> queuedDelivery list \<times> queueDirs \<Rightarrow> queuedDelivery list \<times> queueDirs" where
  "loadEntry pid faults name st = (case st of (entries, d) \<Rightarrow>
     (if \<not> suffix ''.json'' name then (entries, d)
      else (case map_of (dq_files d) name of
          Some (EntryFile parsed) \<Rightarrow>
            (case normalizeLegacyQueuedDeliveryEntry parsed of
               (e, False) \<Rightarrow> (entries @ [e], d)
             | (e, True) \<Rightarrow> (case runCommands (faults name) (replaceFile pid name e) d of
                 (d', True) \<Rightarrow> (entries @ [e], d')
               | (d', False) \<Rightarrow> (entries, d')))
        | _ \<Rightarrow> (entries, d))))"

definition cleanMarker :: "(string \<Rightarrow> fault) \<Rightarrow> string \<Rightarrow> queueDirs \<Rightarrow> queueDirs" where
  "cleanMarker faults name d =
     (if suffix ''.delivered'' name then fst (runCommands (faults name) [UnlinkFile name] d) else d)"

definition loadPendingDeliveries :: "string \<Rightarrow> (string \<Rightarrow> fault) \<Rightarrow> queueDirs \<Rightarrow> queuedDelivery list \<times> queueDirs" where
  "loadPendingDeliveries pid faults d =
     (let names = map fst (dq_files d) in fold (loadEntry pid faults) names ([], fold (cleanMarker faults) names d))"

section \<open>Recovery\<close>

record recoverySummary =
  rs_recovered :: nat
  rs_failed :: nat
  rs_skippedMaxRetries :: nat
  rs_deferredBackoff :: nat

text \<open>What becomes of one entry: it is not due, or beyond its retries, or it is sent. The answer of the send is an
  optional error; the faults are those of the operations that settle it, and \<open>ioError\<close> is the message of an
  operation that threw. A failure is noted at a time of its own.\<close>

datatype recoveryStep = RecoveryStop | RecoverySkip | RecoveryDefer | RecoverySend

definition recoveryDecision :: "int \<Rightarrow> int \<Rightarrow> queuedDelivery \<Rightarrow> recoveryStep" where
  "recoveryDecision deadline now e =
     (if deadline \<le> now then RecoveryStop
      else if MAX_RETRIES \<le> qd_retryCount e then RecoverySkip
      else if remainingBackoff e now \<noteq> None then RecoveryDefer
      else RecoverySend)"

definition settleFailed :: "string \<Rightarrow> string \<Rightarrow> string \<Rightarrow> int \<Rightarrow> fault \<Rightarrow> queueDirs \<Rightarrow> queueDirs" where
  "settleFailed pid msgId errMsg now f d =
     (if isPermanentDeliveryError errMsg then fst (moveToFailed msgId f d) else fst (failDelivery pid msgId errMsg now f d))"

definition recoverySettle :: "string \<Rightarrow> string \<Rightarrow> int \<Rightarrow> sendError option \<Rightarrow> string \<Rightarrow> fault \<Rightarrow> fault \<Rightarrow> queueDirs \<Rightarrow> queueDirs \<times> bool" where
  "recoverySettle pid msgId now err ioError f g d = (case err of
     Some e \<Rightarrow> (settleFailed pid msgId (sendErrorText e) now g d, False)
   | None \<Rightarrow> (case ackDelivery msgId f d of
       (d', True) \<Rightarrow> (d', True)
     | (d', False) \<Rightarrow> (settleFailed pid msgId ioError now g d', False)))"

definition recoverEntry :: "string \<Rightarrow> int \<Rightarrow> int \<Rightarrow> int \<Rightarrow> sendError option \<Rightarrow> string \<Rightarrow> fault \<Rightarrow> fault \<Rightarrow> queuedDelivery \<Rightarrow>
    recoverySummary \<times> queueDirs \<Rightarrow> recoverySummary \<times> queueDirs" where
  "recoverEntry pid deadline now failedAt err ioError f g e st = (case st of (s, d) \<Rightarrow>
     (case recoveryDecision deadline now e of
        RecoveryStop \<Rightarrow> (s, d)
      | RecoverySkip \<Rightarrow> (s\<lparr>rs_skippedMaxRetries := Suc (rs_skippedMaxRetries s)\<rparr>, fst (moveToFailed (qd_id e) f d))
      | RecoveryDefer \<Rightarrow> (s\<lparr>rs_deferredBackoff := Suc (rs_deferredBackoff s)\<rparr>, d)
      | RecoverySend \<Rightarrow> (case recoverySettle pid (qd_id e) failedAt err ioError f g d of
          (d', True) \<Rightarrow> (s\<lparr>rs_recovered := Suc (rs_recovered s)\<rparr>, d')
        | (d', False) \<Rightarrow> (s\<lparr>rs_failed := Suc (rs_failed s)\<rparr>, d'))))"

text \<open>The entries in the order in which they are tried.\<close>

definition recoveryOrder :: "queuedDelivery list \<Rightarrow> queuedDelivery list" where
  "recoveryOrder pending = sort_key qd_enqueuedAt pending"

definition noRecoveries :: recoverySummary where
  "noRecoveries = \<lparr>rs_recovered = 0, rs_failed = 0, rs_skippedMaxRetries = 0, rs_deferredBackoff = 0\<rparr>"

text \<open>A whole recovery that nothing interrupts, for what the environment answers to each entry.\<close>

record recoveryAnswer =
  ra_now :: int
  ra_failedAt :: int
  ra_error :: "sendError option"
  ra_ioError :: string
  ra_fault :: fault
  ra_settleFault :: fault

definition recoverWith :: "string \<Rightarrow> int \<Rightarrow> recoveryAnswer \<Rightarrow> queuedDelivery \<Rightarrow>
    recoverySummary \<times> queueDirs \<Rightarrow> recoverySummary \<times> queueDirs" where
  "recoverWith pid deadline a = recoverEntry pid deadline (ra_now a) (ra_failedAt a) (ra_error a) (ra_ioError a) (ra_fault a) (ra_settleFault a)"

fun recoverLoop :: "string \<Rightarrow> int \<Rightarrow> (string \<Rightarrow> recoveryAnswer) \<Rightarrow> queuedDelivery list \<Rightarrow>
    recoverySummary \<times> queueDirs \<Rightarrow> recoverySummary \<times> queueDirs" where
  "recoverLoop pid deadline answer [] st = st"
| "recoverLoop pid deadline answer (e # es) st =
     (if recoveryDecision deadline (ra_now (answer (qd_id e))) e = RecoveryStop then st
      else recoverLoop pid deadline answer es (recoverWith pid deadline (answer (qd_id e)) e st))"

definition recoverPendingDeliveries :: "string \<Rightarrow> (string \<Rightarrow> fault) \<Rightarrow> int \<Rightarrow> int option \<Rightarrow> (string \<Rightarrow> recoveryAnswer) \<Rightarrow>
    queueDirs \<Rightarrow> recoverySummary \<times> queueDirs" where
  "recoverPendingDeliveries pid faults startedAt maxRecoveryMs answer d = (case loadPendingDeliveries pid faults d of
     (pending, d') \<Rightarrow> if pending = [] then (noRecoveries, d')
       else recoverLoop pid (startedAt + js_default maxRecoveryMs 60000) answer (recoveryOrder pending) (noRecoveries, d'))"

section \<open>A delivery\<close>

text \<open>What follows the send in \<open>deliverOutboundPayloads\<close>: the message is acknowledged, unless the send threw, other
  than for an abort, or the caller heard of an error.\<close>

definition deliveryOk :: "sendError option \<Rightarrow> bool \<Rightarrow> bool" where
  "deliveryOk err heard \<longleftrightarrow> (case err of None \<Rightarrow> \<not> heard | Some e \<Rightarrow> isAbortError e)"

definition settleError :: "sendError option \<Rightarrow> string" where
  "settleError err = (case err of None \<Rightarrow> ''partial delivery failure (bestEffort)'' | Some e \<Rightarrow> sendErrorText e)"

definition settleDelivery :: "string \<Rightarrow> string option \<Rightarrow> int \<Rightarrow> sendError option \<Rightarrow> bool \<Rightarrow> fault \<Rightarrow> queueDirs \<Rightarrow> queueDirs" where
  "settleDelivery pid queueId now err heard f d = (case queueId of
     None \<Rightarrow> d
   | Some msgId \<Rightarrow> if deliveryOk err heard then fst (ackDelivery msgId f d)
       else fst (failDelivery pid msgId (settleError err) now f d))"

text \<open>The whole, for a caller that nothing interrupts.\<close>

definition deliverOutboundPayloads :: "'w deliveryHost \<Rightarrow> string \<Rightarrow> string \<Rightarrow> int \<Rightarrow> fault \<Rightarrow> fault \<Rightarrow>
    deliveryParams \<Rightarrow> deliveryCall \<Rightarrow> 'w outState \<times> queueDirs \<Rightarrow> sendError option \<times> 'w outState \<times> queueDirs" where
  "deliverOutboundPayloads h pid msgId now f g dp call st = (case st of (out, d) \<Rightarrow>
     (case (if dc_skipQueue call then (d, False) else enqueueDelivery pid msgId now dp f d) of
        (d1, queued) \<Rightarrow> (case deliverOutboundPayloadsCore h dp call out of
           ((err, heard), out') \<Rightarrow> (err, out', settleDelivery pid (if queued then Some msgId else None) now err heard g d1))))"

section \<open>Files that an operation leaves alone\<close>

lemma failedEntry_id [simp]: "qd_id (failedEntry err now e) = qd_id e"
  by (simp add: failedEntry_def)

lemma path_simps [simp]:
  "jsonPath m = jsonPath m' \<longleftrightarrow> m = m'"
  "deliveredPath m \<noteq> jsonPath m'" "jsonPath m' \<noteq> deliveredPath m"
  "tmpPath pid p \<noteq> jsonPath m" "jsonPath m \<noteq> tmpPath pid p" "tmpPath pid p \<noteq> deliveredPath m" "deliveredPath m \<noteq> tmpPath pid p"
  "tmpPath pid p = tmpPath pid p' \<longleftrightarrow> p = p'"
proof -
  have last: "last (jsonPath m) = CHR ''n''" "last (deliveredPath m) = CHR ''d''" "last (tmpPath pid p) = CHR ''p''" for m p
    by (simp_all add: jsonPath_def deliveredPath_def tmpPath_def)
  show "deliveredPath m \<noteq> jsonPath m'" "jsonPath m' \<noteq> deliveredPath m" "tmpPath pid p \<noteq> jsonPath m" "jsonPath m \<noteq> tmpPath pid p"
    "tmpPath pid p \<noteq> deliveredPath m" "deliveredPath m \<noteq> tmpPath pid p"
    by (rule notI, use last [of m] last [of m'] last(3) [of p] in simp)+
qed (simp_all add: jsonPath_def tmpPath_def)

lemma suffix_json: "suffix ''.json'' name \<longleftrightarrow> (\<exists>m. name = jsonPath m)"
  by (auto simp: suffix_def jsonPath_def)

text \<open>A command spares a message when it does not name its file.\<close>

definition spares :: "string \<Rightarrow> fsCommand \<Rightarrow> bool" where
  "spares m c \<longleftrightarrow> (case c of
     WriteFile p _ \<Rightarrow> p \<noteq> jsonPath m
   | RenameFile a b \<Rightarrow> a \<noteq> jsonPath m \<and> b \<noteq> jsonPath m
   | UnlinkFile p \<Rightarrow> p \<noteq> jsonPath m
   | RenameToFailed p \<Rightarrow> p \<noteq> jsonPath m)"

definition fileOf :: "string \<Rightarrow> queueDirs \<Rightarrow> queueFile option" where
  "fileOf m d = map_of (dq_files d) (jsonPath m)"

definition failedOf :: "string \<Rightarrow> queueDirs \<Rightarrow> queueFile option" where
  "failedOf m d = map_of (dq_failed d) (jsonPath m)"

lemma exec_spares:
  "spares m c \<Longrightarrow> execCommand c d = Some d' \<Longrightarrow> fileOf m d' = fileOf m d \<and> failedOf m d' = failedOf m d"
  by (cases c) (auto simp: spares_def execCommand_def fileOf_def failedOf_def update_conv' delete_conv' split: option.splits)

lemma run_spares:
  "list_all (spares m) cs \<Longrightarrow> runCommands f cs d = (d', ok) \<Longrightarrow> fileOf m d' = fileOf m d \<and> failedOf m d' = failedOf m d"
proof (induction f cs d rule: runCommands.induct)
  case (2 torn c cs d)
  then show ?case by (cases c) (auto simp: spares_def fileOf_def failedOf_def update_conv')
next
  case (3 n torn c cs d)
  then show ?case by (auto split: option.splits dest!: exec_spares)
qed simp

lemma replace_spares: "m' \<noteq> m \<Longrightarrow> list_all (spares m') (replaceFile pid (jsonPath m) e)"
  by (simp add: replaceFile_def spares_def)

lemma replace_result:
  "runCommands f (replaceFile pid (jsonPath m) e) d = (d', ok) \<Longrightarrow>
     fileOf m d' = (if ok then Some (EntryFile e) else fileOf m d) \<and> failedOf m d' = failedOf m d"
proof (cases f)
  case (Pair n torn)
  assume r: "runCommands f (replaceFile pid (jsonPath m) e) d = (d', ok)"
  consider "n = 0" | "n = Suc 0" | k where "n = Suc (Suc k)" by (metis not0_implies_Suc)
  then show ?thesis
    by cases (use r Pair in \<open>auto simp: replaceFile_def execCommand_def fileOf_def failedOf_def update_conv' delete_conv' split: option.splits if_splits\<close>)
qed

section \<open>The invariant of the directories\<close>

text \<open>A file is named after the message it holds, if it can be read; every message of \<open>A\<close> is in the queue or among
  the failed ones, with no torn file in the queue, and no message of \<open>G\<close> is in the queue.\<close>

definition kept :: "string \<Rightarrow> queueDirs \<Rightarrow> bool" where
  "kept m d \<longleftrightarrow> fileOf m d \<noteq> Some TornFile \<and>
     ((\<exists>e. fileOf m d = Some (EntryFile e) \<and> qd_id e = m) \<or> (\<exists>e. failedOf m d = Some (EntryFile e) \<and> qd_id e = m))"

definition namedAfter :: "string \<Rightarrow> queueFile \<Rightarrow> bool" where
  "namedAfter m q \<longleftrightarrow> (case q of TornFile \<Rightarrow> True | EntryFile e \<Rightarrow> qd_id e = m)"

lemma namedAfter_simps [simp]: "namedAfter m TornFile" "namedAfter m (EntryFile e) \<longleftrightarrow> qd_id e = m"
  by (simp_all add: namedAfter_def)

definition dirsOk :: "string set \<Rightarrow> string set \<Rightarrow> queueDirs \<Rightarrow> bool" where
  "dirsOk A G d \<longleftrightarrow> (\<forall>m q. fileOf m d = Some q \<longrightarrow> namedAfter m q) \<and> (\<forall>m \<in> A. kept m d) \<and> (\<forall>m \<in> G. fileOf m d = None)"

lemma dirsOkD:
  assumes "dirsOk A G d"
  shows "fileOf m d = Some q \<Longrightarrow> namedAfter m q" "m \<in> A \<Longrightarrow> kept m d" "m \<in> G \<Longrightarrow> fileOf m d = None"
  using assms by (auto simp: dirsOk_def)

text \<open>An operation on one message has to be looked at for that message only.\<close>

lemma dirsOk_at:
  assumes "dirsOk A G d"
    and "\<And>m'. m' \<noteq> m \<Longrightarrow> fileOf m' d' = fileOf m' d \<and> failedOf m' d' = failedOf m' d"
    and "\<And>q. fileOf m d' = Some q \<Longrightarrow> namedAfter m q"
    and "m \<in> A' \<Longrightarrow> kept m d'" and "A' - {m} \<subseteq> A"
    and "m \<in> G' \<Longrightarrow> fileOf m d' = None" and "G' - {m} \<subseteq> G"
  shows "dirsOk A' G' d'"
  unfolding dirsOk_def
proof (intro conjI allI impI ballI)
  fix k q assume "fileOf k d' = Some q"
  then show "namedAfter k q" using assms(2,3) dirsOkD(1) [OF assms(1)] by (cases "k = m") auto
next
  fix k assume "k \<in> A'"
  then show "kept k d'" using assms(2,4,5) dirsOkD(2) [OF assms(1), of k] by (cases "k = m") (auto simp: kept_def)
next
  fix k assume "k \<in> G'"
  then show "fileOf k d' = None" using assms(2,6,7) dirsOkD(3) [OF assms(1), of k] by (cases "k = m") auto
qed

lemma dirsOk_spared:
  assumes "dirsOk A G d" "\<And>m. list_all (spares m) cs" "runCommands f cs d = (d', ok)"
  shows "dirsOk A G d'"
  using assms(1) run_spares [OF assms(2,3)] by (simp add: dirsOk_def kept_def)

lemma dirsOk_replace:
  assumes ok: "dirsOk A G d" and e: "qd_id e = m" "m \<notin> G"
    and r: "runCommands f (replaceFile pid (jsonPath m) e) d = (d', ok')"
  shows "dirsOk (if ok' then insert m A else A) G d'"
proof (rule dirsOk_at [OF ok])
  show "fileOf k d' = fileOf k d \<and> failedOf k d' = failedOf k d" if "k \<noteq> m" for k
    using run_spares [OF replace_spares [OF that] r] .
  note m = replace_result [OF r]
  show "namedAfter m q" if "fileOf m d' = Some q" for q
    using m e that dirsOkD(1) [OF ok] by (auto split: if_splits)
  show "kept m d'" if "m \<in> (if ok' then insert m A else A)"
    using m e that dirsOkD(2) [OF ok, of m] by (auto simp: kept_def split: if_splits)
qed (use e in auto)

lemma dirsOk_fail:
  assumes "dirsOk A G d" "failDelivery pid m err now f d = (d', ok')"
  shows "dirsOk A G d'"
proof (cases "fileOf m d")
  case None
  with assms show ?thesis by (simp add: failDelivery_def fileOf_def)
next
  case (Some q)
  show ?thesis
  proof (cases q)
    case (EntryFile e)
    let ?e = "failedEntry err now e"
    have "runCommands f (replaceFile pid (jsonPath m) ?e) d = (d', ok')"
      using assms(2) Some EntryFile by (simp add: failDelivery_def fileOf_def)
    moreover have "qd_id ?e = m" "m \<notin> G"
      using dirsOkD(1,3) [OF assms(1), of m] Some EntryFile by auto
    ultimately have "dirsOk (if ok' then insert m A else A) G d'"
      by (rule dirsOk_replace [OF assms(1), rotated 2])
    then show ?thesis by (auto simp: dirsOk_def split: if_splits)
  next
    case TornFile
    with Some assms show ?thesis by (simp add: failDelivery_def fileOf_def)
  qed
qed

lemma dirsOk_move:
  assumes ok: "dirsOk A G d" and r: "moveToFailed m f d = (d', ok')"
  shows "dirsOk A G d'"
proof (rule dirsOk_at [OF ok])
  show "fileOf k d' = fileOf k d \<and> failedOf k d' = failedOf k d" if "k \<noteq> m" for k
    by (rule run_spares [OF _ r [unfolded moveToFailed_def]]) (use that in \<open>simp add: spares_def\<close>)
  have m: "(fileOf m d' = fileOf m d \<and> failedOf m d' = failedOf m d) \<or>
      (fileOf m d' = None \<and> (fileOf m d \<noteq> None \<and> failedOf m d' = fileOf m d))"
  proof (cases f)
    case (Pair n torn)
    show ?thesis
    proof (cases n)
      case 0
      with r Pair show ?thesis by (auto simp: moveToFailed_def)
    next
      case (Suc k)
      with r Pair show ?thesis
        by (cases "map_of (dq_files d) (jsonPath m)")
          (auto simp: moveToFailed_def execCommand_def fileOf_def failedOf_def update_conv' delete_conv')
    qed
  qed
  show "namedAfter m q" if "fileOf m d' = Some q" for q
    using m that dirsOkD(1) [OF ok] by auto
  show "kept m d'" if "m \<in> A"
  proof -
    from dirsOkD(2) [OF ok that] have k: "kept m d" .
    show ?thesis
    proof (cases "fileOf m d' = fileOf m d \<and> failedOf m d' = failedOf m d")
      case True
      with k show ?thesis by (simp add: kept_def)
    next
      case False
      with m obtain q where "fileOf m d = Some q" "fileOf m d' = None" "failedOf m d' = Some q" by (cases "fileOf m d") auto
      moreover from this k dirsOkD(1) [OF ok, of m q] have "\<exists>e. q = EntryFile e \<and> qd_id e = m"
        by (cases q) (auto simp: kept_def)
      ultimately show ?thesis by (auto simp: kept_def)
    qed
  qed
  show "fileOf m d' = None" if "m \<in> G"
    using m dirsOkD(3) [OF ok, of m] that by auto
qed auto

lemma dirsOk_ack:
  assumes ok: "dirsOk A G d" and r: "ackDelivery m f d = (d', ok')"
  shows "dirsOk (A - {m}) (if ok' then insert m G else G) d'"
proof (rule dirsOk_at [OF ok, of m])
  have run: "fst (runCommands g [UnlinkFile (deliveredPath m)] d2) = d1 \<Longrightarrow> fileOf k d1 = fileOf k d2 \<and> failedOf k d1 = failedOf k d2" for g d1 d2 k
    using run_spares [of k "[UnlinkFile (deliveredPath m)]" g d2] by (cases "runCommands g [UnlinkFile (deliveredPath m)] d2") (auto simp: spares_def)
  have ren: "runCommands g [RenameFile (jsonPath m) (deliveredPath m)] d2 = (d1, b) \<Longrightarrow>
      (k \<noteq> m \<longrightarrow> fileOf k d1 = fileOf k d2 \<and> failedOf k d1 = failedOf k d2) \<and> (fileOf m d1 = (if b then None else fileOf m d2))" for g d1 d2 b k
  proof (cases g)
    case (Pair n torn)
    assume "runCommands g [RenameFile (jsonPath m) (deliveredPath m)] d2 = (d1, b)"
    with Pair show ?thesis
      by (cases n; cases "map_of (dq_files d2) (jsonPath m)")
        (auto simp: execCommand_def fileOf_def failedOf_def update_conv' delete_conv')
  qed
  have all: "(k \<noteq> m \<longrightarrow> fileOf k d' = fileOf k d \<and> failedOf k d' = failedOf k d) \<and> (fileOf m d' = (if ok' then None else fileOf m d))" for k
  proof (cases "map_of (dq_files d) (jsonPath m) = None")
    case True
    with r have d': "fst (runCommands f [UnlinkFile (deliveredPath m)] d) = d'" "ok'" by (auto simp: ackDelivery_def)
    have "fileOf m d = None" using True by (simp add: fileOf_def)
    with run [OF d'(1)] d'(2) show ?thesis by simp
  next
    case False
    obtain d1 b where s: "runCommands f [RenameFile (jsonPath m) (deliveredPath m)] d = (d1, b)" by fastforce
    show ?thesis
    proof (cases b)
      case True
      with r s False have "fst (runCommands (fst f - 1, snd f) [UnlinkFile (deliveredPath m)] d1) = d'" "ok'"
        by (auto simp: ackDelivery_def)
      with run ren [OF s] True show ?thesis by simp
    next
      case b: False
      with r s False have "d' = d1" "\<not> ok'" by (auto simp: ackDelivery_def)
      with ren [OF s] b show ?thesis by simp
    qed
  qed
  show "fileOf k d' = fileOf k d \<and> failedOf k d' = failedOf k d" if "k \<noteq> m" for k
    using all [of k] that by blast
  show "namedAfter m q" if "fileOf m d' = Some q" for q
    using all [of m] that dirsOkD(1) [OF ok] by (auto split: if_splits)
  show "fileOf m d' = None" if "m \<in> (if ok' then insert m G else G)"
    using all [of m] that dirsOkD(3) [OF ok, of m] by (auto split: if_splits)
qed auto

lemma normalizeLegacy_id [simp]: "qd_id (fst (normalizeLegacyQueuedDeliveryEntry e)) = qd_id e"
  by (simp add: normalizeLegacyQueuedDeliveryEntry_def)

lemma dirsOk_clean: "dirsOk A G d \<Longrightarrow> dirsOk A G (cleanMarker faults name d)"
proof (cases "suffix ''.delivered'' name")
  case True
  assume ok: "dirsOk A G d"
  from True obtain m where name: "name = deliveredPath m" by (auto simp: suffix_def deliveredPath_def)
  have "list_all (spares k) [UnlinkFile name]" for k by (simp add: spares_def name)
  from dirsOk_spared [OF ok this] True show ?thesis
    by (cases "runCommands (faults name) [UnlinkFile name] d") (simp add: cleanMarker_def)
qed (simp add: cleanMarker_def)

lemma dirsOk_mono: "dirsOk A G d \<Longrightarrow> A' \<subseteq> A \<Longrightarrow> G' \<subseteq> G \<Longrightarrow> dirsOk A' G' d"
  by (auto simp: dirsOk_def)

text \<open>What is loaded is in no set of messages that are out of the queue.\<close>

lemma loadEntry_ok:
  assumes "dirsOk A G d" "\<forall>e \<in> set es. qd_id e \<notin> G" "loadEntry pid faults name (es, d) = (es', d')"
  shows "dirsOk A G d' \<and> (\<forall>e \<in> set es'. qd_id e \<notin> G)"
proof (cases "suffix ''.json'' name \<and> (\<exists>e. map_of (dq_files d) name = Some (EntryFile e))")
  case False
  with assms show ?thesis by (auto simp: loadEntry_def split: if_splits option.splits queueFile.splits)
next
  case True
  then obtain m q e where name: "name = jsonPath m" and q: "fileOf m d = Some q" "q = EntryFile e" by (auto simp: suffix_json fileOf_def)
  with dirsOkD [OF assms(1), of m] have e: "q = EntryFile e" "qd_id e = m" "m \<notin> G" by auto
  obtain e' migrated where n: "normalizeLegacyQueuedDeliveryEntry e = (e', migrated)" by fastforce
  then have e': "qd_id e' = m" using e normalizeLegacy_id [of e] by simp
  show ?thesis
  proof (cases migrated)
    case False
    with assms name q e n e' show ?thesis by (auto simp: loadEntry_def fileOf_def suffix_json)
  next
    case True
    obtain d2 b where r: "runCommands (faults name) (replaceFile pid name e') d = (d2, b)" by fastforce
    from dirsOk_replace [OF assms(1) e' e(3) r [unfolded name]] have "dirsOk A G d2"
      by (auto simp: dirsOk_def split: if_splits)
    with True assms name q e n e' r show ?thesis by (cases b) (auto simp: loadEntry_def fileOf_def suffix_json)
  qed
qed

lemma loadEntries_ok:
  "dirsOk A G d \<Longrightarrow> \<forall>e \<in> set es. qd_id e \<notin> G \<Longrightarrow> fold (loadEntry pid faults) names (es, d) = (es', d') \<Longrightarrow>
     dirsOk A G d' \<and> (\<forall>e \<in> set es'. qd_id e \<notin> G)"
proof (induction names arbitrary: es d)
  case (Cons name names)
  obtain es1 d1 where l: "loadEntry pid faults name (es, d) = (es1, d1)" by fastforce
  from loadEntry_ok [OF Cons.prems(1,2) l] Cons.IH [of d1 es1] Cons.prems(3) l show ?case by simp
qed simp

lemma dirsOk_cleans: "dirsOk A G d \<Longrightarrow> dirsOk A G (fold (cleanMarker faults) names d)"
  by (induction names arbitrary: d) (simp_all add: dirsOk_clean)

lemma queue_load_ok:
  assumes "dirsOk A G d" "loadPendingDeliveries pid faults d = (es, d')"
  shows "dirsOk A G d' \<and> (\<forall>e \<in> set es. qd_id e \<notin> G)"
  using loadEntries_ok [OF dirsOk_cleans [OF assms(1)], of "[]"] assms(2)
  by (simp add: loadPendingDeliveries_def Let_def)

section \<open>Deliveries, recoveries and crashes\<close>

text \<open>The file of a message that is there is updated by a failure, and by the reading of an entry of an older version:
  it is read, then the new entry is written to the temporary file and the temporary file is renamed. Between these,
  other deliveries may run. A write is due until the temporary file is opened, which empties it; what is in it can be
  relied upon when the write is done.\<close>

datatype writeStage = WriteDue | WriteOpen | WriteDone

record fileWrite =
  fw_entry :: queuedDelivery
  fw_stage :: writeStage
  fw_loading :: bool

text \<open>The directories, the process, the deliveries that have sent or are sending and are to settle (with the id of their
  message, if it could be put into the queue), the entries a recovery still has to look at, the files the reading of
  the queue still has to look at, with the entries it has read, and the updates under way. Then, for the record, the
  ids that were used, what each was to deliver, the messages that were put into the queue, those whose delivery ended
  well, those that were acknowledged while no update of theirs was under way, and those of which two updates were
  under way at once.\<close>

record deliveryWorld =
  dw_dirs :: queueDirs
  dw_pid :: string
  dw_live :: "string option list"
  dw_pending :: "queuedDelivery list"
  dw_names :: "string list option"
  dw_loaded :: "queuedDelivery list"
  dw_writes :: "fileWrite list"
  dw_used :: "string set"
  dw_params :: "string \<Rightarrow> deliveryParams option"
  dw_accepted :: "string set"
  dw_ended :: "string set"
  dw_acked :: "string set"
  dw_overlapped :: "string set"

definition emptyQueue :: deliveryWorld where
  "emptyQueue = \<lparr>dw_dirs = \<lparr>dq_files = [], dq_failed = []\<rparr>, dw_pid = ''7'', dw_live = [], dw_pending = [], dw_names = None,
     dw_loaded = [], dw_writes = [], dw_used = {}, dw_params = Map.empty, dw_accepted = {}, dw_ended = {}, dw_acked = {},
     dw_overlapped = {}\<rparr>"

definition markIf :: "bool \<Rightarrow> string \<Rightarrow> string set \<Rightarrow> string set" where
  "markIf b m S = (if b then insert m S else S)"

definition writeOf :: "fileWrite \<Rightarrow> string" where "writeOf u = qd_id (fw_entry u)"

definition writing :: "string \<Rightarrow> deliveryWorld \<Rightarrow> bool" where
  "writing m w \<longleftrightarrow> list_ex (\<lambda>u. writeOf u = m) (dw_writes w)"

definition loadWrites :: "deliveryWorld \<Rightarrow> bool" where
  "loadWrites w \<longleftrightarrow> list_ex fw_loading (dw_writes w)"

definition putFile :: "string \<Rightarrow> queueFile \<Rightarrow> queueDirs \<Rightarrow> queueDirs" where
  "putFile path q d = d\<lparr>dq_files := AList.update path q (dq_files d)\<rparr>"

definition writePath :: "deliveryWorld \<Rightarrow> string \<Rightarrow> string" where
  "writePath w m = tmpPath (dw_pid w) (jsonPath m)"

definition addWrite :: "queuedDelivery \<Rightarrow> bool \<Rightarrow> deliveryWorld \<Rightarrow> deliveryWorld" where
  "addWrite e loading w = w\<lparr>dw_writes := dw_writes w @ [\<lparr>fw_entry = e, fw_stage = WriteDue, fw_loading = loading\<rparr>],
     dw_overlapped := markIf (writing (qd_id e) w) (qd_id e) (dw_overlapped w)\<rparr>"

text \<open>Whether an operation gets as far as updating the file of a message.\<close>

definition hasEntry :: "string \<Rightarrow> queueDirs \<Rightarrow> bool" where
  "hasEntry m d \<longleftrightarrow> (case fileOf m d of Some (EntryFile e) \<Rightarrow> True | _ \<Rightarrow> False)"

definition recoveryError :: "sendError option \<Rightarrow> string \<Rightarrow> string" where
  "recoveryError err ioError = (case err of Some x \<Rightarrow> sendErrorText x | None \<Rightarrow> ioError)"

definition recoveryUpdates :: "int \<Rightarrow> int \<Rightarrow> sendError option \<Rightarrow> string \<Rightarrow> fault \<Rightarrow> queuedDelivery \<Rightarrow> queueDirs \<Rightarrow> bool" where
  "recoveryUpdates deadline now err ioError f e d \<longleftrightarrow> recoveryDecision deadline now e = RecoverySend \<and>
     \<not> (err = None \<and> snd (ackDelivery (qd_id e) f d)) \<and> \<not> isPermanentDeliveryError (recoveryError err ioError) \<and>
     hasEntry (qd_id e) d"

definition migrates :: "string \<Rightarrow> queueDirs \<Rightarrow> bool" where
  "migrates name d \<longleftrightarrow> (case map_of (dq_files d) name of
     Some (EntryFile e) \<Rightarrow> snd (normalizeLegacyQueuedDeliveryEntry e) | _ \<Rightarrow> False)"

text \<open>An operation is one step when no other comes between its commands; an update may also be taken command by
  command, and has to be while another of the same file is under way. What two of them leave in the file and in the
  temporary file they share is not determined.\<close>

inductive deliveryStep :: "deliveryWorld \<Rightarrow> deliveryWorld \<Rightarrow> bool" where
  enqueue: "m \<notin> dw_used w \<Longrightarrow> enqueueDelivery (dw_pid w) m now dp f (dw_dirs w) = (d, ok) \<Longrightarrow>
    deliveryStep w (w\<lparr>dw_dirs := d, dw_live := dw_live w @ [if ok then Some m else None], dw_used := insert m (dw_used w),
      dw_params := (dw_params w)(m \<mapsto> dp), dw_accepted := markIf ok m (dw_accepted w)\<rparr>)"
| settle: "dw_live w = before @ Some m # after \<Longrightarrow> deliveryOk err heard \<or> \<not> writing m w \<or> \<not> hasEntry m (dw_dirs w) \<Longrightarrow>
    settleDelivery (dw_pid w) (Some m) now err heard f (dw_dirs w) = d \<Longrightarrow>
    deliveryStep w (w\<lparr>dw_dirs := d, dw_live := before @ after, dw_ended := markIf (deliveryOk err heard) m (dw_ended w),
      dw_acked := markIf (deliveryOk err heard \<and> snd (ackDelivery m f (dw_dirs w)) \<and> \<not> writing m w) m (dw_acked w)\<rparr>)"
| settleRead: "dw_live w = before @ Some m # after \<Longrightarrow> \<not> deliveryOk err heard \<Longrightarrow>
    fileOf m (dw_dirs w) = Some (EntryFile e) \<Longrightarrow>
    deliveryStep w (addWrite (failedEntry (settleError err) now e) False (w\<lparr>dw_live := before @ after\<rparr>))"
| settleUnqueued: "dw_live w = before @ None # after \<Longrightarrow> deliveryStep w (w\<lparr>dw_live := before @ after\<rparr>)"
| loadStart: "dw_names w = None \<Longrightarrow> dw_pending w = [] \<Longrightarrow>
    deliveryStep w (w\<lparr>dw_names := Some (map fst (dq_files (dw_dirs w))), dw_loaded := []\<rparr>)"
| loadClean: "dw_names w = Some names \<Longrightarrow> name \<in> set names \<Longrightarrow>
    deliveryStep w (w\<lparr>dw_dirs := cleanMarker faults name (dw_dirs w)\<rparr>)"
| loadFile: "dw_names w = Some (name # names) \<Longrightarrow> \<not> loadWrites w \<Longrightarrow>
    \<not> migrates name (dw_dirs w) \<or> list_all (\<lambda>u. jsonPath (writeOf u) \<noteq> name) (dw_writes w) \<Longrightarrow>
    loadEntry (dw_pid w) faults name (dw_loaded w, dw_dirs w) = (es, d) \<Longrightarrow>
    deliveryStep w (w\<lparr>dw_dirs := d, dw_names := Some names, dw_loaded := es\<rparr>)"
| loadRead: "dw_names w = Some (name # names) \<Longrightarrow> \<not> loadWrites w \<Longrightarrow> suffix ''.json'' name \<Longrightarrow>
    map_of (dq_files (dw_dirs w)) name = Some (EntryFile parsed) \<Longrightarrow> normalizeLegacyQueuedDeliveryEntry parsed = (e, True) \<Longrightarrow>
    deliveryStep w (addWrite e True (w\<lparr>dw_names := Some names\<rparr>))"
| loadSkip: "dw_names w = Some (name # names) \<Longrightarrow> \<not> loadWrites w \<Longrightarrow> deliveryStep w (w\<lparr>dw_names := Some names\<rparr>)"
| loadEnd: "dw_names w = Some [] \<Longrightarrow> \<not> loadWrites w \<Longrightarrow>
    deliveryStep w (w\<lparr>dw_names := None, dw_pending := recoveryOrder (dw_loaded w), dw_loaded := []\<rparr>)"
| recover: "dw_pending w = e # rest \<Longrightarrow> \<not> writing (qd_id e) w \<or> \<not> recoveryUpdates deadline now err ioError f e (dw_dirs w) \<Longrightarrow>
    recoverEntry (dw_pid w) deadline now failedAt err ioError f g e (s, dw_dirs w) = (s', d) \<Longrightarrow>
    deliveryStep w (w\<lparr>dw_dirs := d, dw_pending := (if recoveryDecision deadline now e = RecoveryStop then [] else rest),
      dw_ended := markIf (recoveryDecision deadline now e = RecoverySend \<and> err = None) (qd_id e) (dw_ended w),
      dw_acked := markIf (recoveryDecision deadline now e = RecoverySend \<and> err = None \<and>
        snd (ackDelivery (qd_id e) f (dw_dirs w)) \<and> \<not> writing (qd_id e) w) (qd_id e) (dw_acked w)\<rparr>)"
| recoverRead: "dw_pending w = e # rest \<Longrightarrow> recoveryDecision deadline now e = RecoverySend \<Longrightarrow>
    errMsg = recoveryError err ioError \<Longrightarrow> \<not> isPermanentDeliveryError errMsg \<Longrightarrow>
    fileOf (qd_id e) (dw_dirs w) = Some (EntryFile e0) \<Longrightarrow>
    deliveryStep w (addWrite (failedEntry errMsg failedAt e0) False
      (w\<lparr>dw_pending := rest, dw_ended := markIf (err = None) (qd_id e) (dw_ended w)\<rparr>))"
| writeOpens: "dw_writes w = before @ u # after \<Longrightarrow> fw_stage u = WriteDue \<Longrightarrow>
    deliveryStep w (w\<lparr>dw_dirs := putFile (writePath w (writeOf u)) TornFile (dw_dirs w),
      dw_writes := before @ u\<lparr>fw_stage := WriteOpen\<rparr> # after\<rparr>)"
| writeEnds: "dw_writes w = before @ u # after \<Longrightarrow> fw_stage u = WriteOpen \<Longrightarrow>
    deliveryStep w (w\<lparr>dw_dirs := putFile (writePath w (writeOf u)) (EntryFile (fw_entry u)) (dw_dirs w),
      dw_writes := before @ u\<lparr>fw_stage := WriteDone\<rparr> # after\<rparr>)"
| writeRenames: "dw_writes w = before @ u # after \<Longrightarrow> fw_stage u = WriteDone \<Longrightarrow>
    execCommand (RenameFile (writePath w (writeOf u)) (jsonPath (writeOf u))) (dw_dirs w) = Some d \<Longrightarrow>
    deliveryStep w (w\<lparr>dw_dirs := d, dw_writes := before @ after,
      dw_loaded := (if fw_loading u then dw_loaded w @ [fw_entry u] else dw_loaded w)\<rparr>)"
| writeFails: "dw_writes w = before @ u # after \<Longrightarrow> deliveryStep w (w\<lparr>dw_writes := before @ after\<rparr>)"
| writesMix: "u \<in> set (dw_writes w) \<Longrightarrow> writeOf u \<in> dw_overlapped w \<Longrightarrow>
    path = jsonPath (writeOf u) \<or> path = writePath w (writeOf u) \<Longrightarrow> q = TornFile \<or> q = EntryFile (fw_entry u) \<Longrightarrow>
    deliveryStep w (w\<lparr>dw_dirs := putFile path q (dw_dirs w)\<rparr>)"
| crash: "deliveryStep w (w\<lparr>dw_pid := pid, dw_live := [], dw_pending := [], dw_names := None, dw_loaded := [], dw_writes := []\<rparr>)"

inductive deliveryReach :: "deliveryWorld \<Rightarrow> bool" where
  start: "deliveryReach emptyQueue"
| step: "deliveryReach w \<Longrightarrow> deliveryStep w w' \<Longrightarrow> deliveryReach w'"

inductive_cases deliveryStepE: "deliveryStep w w'"

text \<open>The messages that have no file: those acknowledged, and those that are still to come.\<close>

definition gone :: "deliveryWorld \<Rightarrow> string set" where
  "gone w = dw_acked w \<union> - dw_used w"

text \<open>An update that is done has its entry in the temporary file, unless another of the same message comes between.\<close>

definition tmpOf :: "deliveryWorld \<Rightarrow> string \<Rightarrow> queueFile option" where
  "tmpOf w m = map_of (dq_files (dw_dirs w)) (writePath w m)"

definition writeOk :: "deliveryWorld \<Rightarrow> fileWrite \<Rightarrow> bool" where
  "writeOk w u \<longleftrightarrow> writeOf u \<in> dw_used w \<and> writeOf u \<notin> dw_acked w \<and>
     (fw_stage u = WriteDone \<longrightarrow> (\<forall>q. tmpOf w (writeOf u) = Some q \<longrightarrow> namedAfter (writeOf u) q) \<and>
        (writeOf u \<notin> dw_overlapped w \<longrightarrow> tmpOf w (writeOf u) = Some (EntryFile (fw_entry u))))"

definition writesOf :: "string \<Rightarrow> fileWrite list \<Rightarrow> nat" where
  "writesOf m us = length (filter (\<lambda>u. writeOf u = m) us)"

definition writesOk :: "deliveryWorld \<Rightarrow> bool" where
  "writesOk w \<longleftrightarrow> (\<forall>u \<in> set (dw_writes w). writeOk w u) \<and> (\<forall>m. m \<notin> dw_overlapped w \<longrightarrow> writesOf m (dw_writes w) \<le> 1)"

definition keptIn :: "deliveryWorld \<Rightarrow> string set" where
  "keptIn w = dw_accepted w - dw_ended w - dw_overlapped w"

definition worldKept :: "deliveryWorld \<Rightarrow> bool" where
  "worldKept w \<longleftrightarrow> dirsOk (keptIn w) (gone w) (dw_dirs w) \<and> dw_acked w \<subseteq> dw_used w \<and>
     Some -` set (dw_live w) \<subseteq> dw_used w \<and> qd_id ` set (dw_pending w) \<subseteq> dw_used w \<and>
     qd_id ` set (dw_loaded w) \<subseteq> dw_used w \<and> writesOk w"

lemma writesOf_simps [simp]:
  "writesOf m [] = 0" "writesOf m (u # us) = (if writeOf u = m then Suc (writesOf m us) else writesOf m us)"
  "writesOf m (us @ vs) = writesOf m us + writesOf m vs"
  by (simp_all add: writesOf_def)

lemma writesOf_none: "writesOf m us = 0 \<longleftrightarrow> (\<forall>u \<in> set us. writeOf u \<noteq> m)"
  by (induction us) auto

lemma writing_iff: "writing m w \<longleftrightarrow> writesOf m (dw_writes w) \<noteq> 0"
  by (auto simp: writing_def writesOf_none list_ex_iff)

lemma writeOk_cong:
  assumes "writeOk w u" "dw_used w \<subseteq> dw_used w'" "writeOf u \<notin> dw_acked w'" "dw_overlapped w \<subseteq> dw_overlapped w'"
    and "tmpOf w' (writeOf u) = tmpOf w (writeOf u)"
  shows "writeOk w' u"
  using assms by (auto simp: writeOk_def)

text \<open>The updates under way are left alone.\<close>

lemma writes_stay:
  assumes ok: "writesOk w" and same: "dw_writes w' = dw_writes w" "dw_used w \<subseteq> dw_used w'" "dw_overlapped w' = dw_overlapped w"
    and each: "\<And>m. writing m w \<Longrightarrow> m \<notin> dw_acked w' \<and> tmpOf w' m = tmpOf w m"
  shows "writesOk w'"
proof -
  have "writeOk w' u" if u: "u \<in> set (dw_writes w)" for u
  proof (rule writeOk_cong [of w])
    show "writeOk w u" using u ok by (simp add: writesOk_def)
    have "writing (writeOf u) w" using u by (auto simp: writing_def list_ex_iff)
    from each [OF this] show "writeOf u \<notin> dw_acked w'" "tmpOf w' (writeOf u) = tmpOf w (writeOf u)" by simp_all
  qed (use same in simp_all)
  with ok same show ?thesis by (simp add: writesOk_def)
qed

lemma writes_add:
  assumes ok: "writesOk w" and e: "qd_id e \<in> dw_used w" "qd_id e \<notin> dw_acked w"
  shows "writesOk (addWrite e loading w)"
proof -
  let ?u = "\<lparr>fw_entry = e, fw_stage = WriteDue, fw_loading = loading\<rparr>"
  have new: "writeOk (addWrite e loading w) u" if "u \<in> set (dw_writes w)" for u
  proof (rule writeOk_cong [of w])
    show "writeOk w u" using that ok by (simp add: writesOk_def)
    then show "writeOf u \<notin> dw_acked (addWrite e loading w)" by (simp add: addWrite_def writeOk_def)
  qed (auto simp: addWrite_def markIf_def tmpOf_def writePath_def)
  have one: "writeOk (addWrite e loading w) ?u" using e by (simp add: writeOk_def addWrite_def writeOf_def)
  have "writesOf m (dw_writes (addWrite e loading w)) \<le> 1" if "m \<notin> dw_overlapped (addWrite e loading w)" for m
  proof -
    from that have "m \<notin> dw_overlapped w" "m = qd_id e \<longrightarrow> writesOf m (dw_writes w) = 0"
      by (auto simp: addWrite_def markIf_def writing_iff split: if_splits)
    moreover from this(1) ok have "writesOf m (dw_writes w) \<le> 1" by (simp add: writesOk_def)
    ultimately show ?thesis by (auto simp: addWrite_def writeOf_def)
  qed
  then show ?thesis unfolding writesOk_def using new one by (simp add: addWrite_def)
qed

lemma writes_sub:
  assumes "writesOk w" "dw_writes w = before @ us @ after" "dw_writes w' = before @ after"
    and "dw_used w' = dw_used w" "dw_acked w' = dw_acked w" "dw_overlapped w' = dw_overlapped w" "\<And>m. tmpOf w' m = tmpOf w m"
  shows "writesOk w'"
proof -
  have "writeOk w' u = writeOk w u" for u using assms by (simp add: writeOk_def)
  moreover have "writesOf m (before @ after) \<le> writesOf m (before @ us @ after)" for m by simp
  ultimately show ?thesis using assms(1-3,6) order_trans unfolding writesOk_def by fastforce
qed

text \<open>An update of a message leaves those of other messages alone.\<close>

lemma writes_at:
  assumes ok: "writesOk w" and w: "dw_writes w = before @ u # after" "dw_writes w' = before @ us @ after"
    and us: "\<And>v. v \<in> set us \<Longrightarrow> writeOf v = writeOf u \<and> writeOk w' v" "length us \<le> 1"
    and same: "dw_used w' = dw_used w" "dw_acked w' = dw_acked w" "dw_overlapped w' = dw_overlapped w" "dw_pid w' = dw_pid w"
    and tmp: "\<And>m. m \<noteq> writeOf u \<Longrightarrow> tmpOf w' m = tmpOf w m" "\<And>q. tmpOf w' (writeOf u) = Some q \<Longrightarrow> tmpOf w (writeOf u) = Some q \<or> namedAfter (writeOf u) q"
  shows "writesOk w'"
proof -
  have "writeOk w' v" if v: "v \<in> set before \<union> set after" for v
  proof (cases "writeOf v = writeOf u")
    case False
    have old: "writeOk w v" using v ok w(1) by (auto simp: writesOk_def)
    show ?thesis
      by (rule writeOk_cong [OF old]) (use old False tmp(1) same in \<open>simp_all add: writeOk_def\<close>)
  next
    case True
    have old: "writeOk w v" using v ok w by (auto simp: writesOk_def)
    have "writeOf u \<in> dw_overlapped w"
    proof (rule ccontr)
      assume "writeOf u \<notin> dw_overlapped w"
      then have "writesOf (writeOf u) (dw_writes w) \<le> 1" using ok by (simp add: writesOk_def)
      then have "writesOf (writeOf u) before = 0" "writesOf (writeOf u) after = 0" using w by simp_all
      with v True show False by (auto simp: writesOf_none)
    qed
    with old True same tmp(2) show ?thesis by (auto simp: writeOk_def)
  qed
  then have each: "\<forall>v \<in> set (dw_writes w'). writeOk w' v" using us(1) w(2) by auto
  have few: "writesOf m us \<le> (if writeOf u = m then 1 else 0)" for m
    using us by (cases us) auto
  have "writesOf m (dw_writes w') \<le> writesOf m (dw_writes w)" for m
    using w few [of m] by (cases "writeOf u = m") simp_all
  with each show ?thesis
    using ok same(3) unfolding writesOk_def by (metis order_trans)
qed

lemma markIf_simps [simp]: "markIf True m S = insert m S" "markIf False m S = S"
  by (simp_all add: markIf_def)

lemma settleDelivery_ok:
  assumes ok: "dirsOk A G d" and s: "settleDelivery pid (Some m) now err heard f d = d'"
  shows "dirsOk (if deliveryOk err heard then A - {m} else A)
    (markIf (deliveryOk err heard \<and> snd (ackDelivery m f d)) m G) d'"
proof (cases "deliveryOk err heard")
  case True
  obtain d1 b where a: "ackDelivery m f d = (d1, b)" by fastforce
  from dirsOk_ack [OF ok a] s True a show ?thesis by (cases b) (simp_all add: settleDelivery_def)
next
  case False
  obtain d1 b where a: "failDelivery pid m (settleError err) now f d = (d1, b)" by fastforce
  from dirsOk_fail [OF ok a] s False a show ?thesis by (simp add: settleDelivery_def)
qed

lemma settleFailed_ok:
  assumes "dirsOk A G d"
  shows "dirsOk A G (settleFailed pid m err now f d)"
  using dirsOk_move [OF assms prod.collapse [symmetric]] dirsOk_fail [OF assms prod.collapse [symmetric]]
  by (simp add: settleFailed_def)

lemma recoverySettle_ok:
  assumes ok: "dirsOk A G d" and s: "recoverySettle pid m now err ioError f g d = (d', b)"
  shows "dirsOk (if err = None then A - {m} else A) (markIf (err = None \<and> snd (ackDelivery m f d)) m G) d'"
proof (cases err)
  case None
  obtain d1 c where a: "ackDelivery m f d = (d1, c)" by fastforce
  from dirsOk_ack [OF ok a] have k: "dirsOk (A - {m}) (if c then insert m G else G) d1" .
  from settleFailed_ok [OF k, of pid m ioError now g] k s None a show ?thesis
    by (cases c) (simp_all add: recoverySettle_def)
next
  case (Some er)
  from settleFailed_ok [OF ok, of pid m "sendErrorText er" now g] s Some show ?thesis
    by (simp add: recoverySettle_def)
qed

lemma recoverEntry_ok:
  assumes ok: "dirsOk A G d" and r: "recoverEntry pid deadline now failedAt err ioError f g e (s, d) = (s', d')"
  defines "sent \<equiv> recoveryDecision deadline now e = RecoverySend \<and> err = None"
  shows "dirsOk (if sent then A - {qd_id e} else A) (markIf (sent \<and> snd (ackDelivery (qd_id e) f d)) (qd_id e) G) d'"
proof (cases "recoveryDecision deadline now e")
  case RecoverySkip
  obtain d1 b where m: "moveToFailed (qd_id e) f d = (d1, b)" by fastforce
  from dirsOk_move [OF ok m] r m RecoverySkip show ?thesis by (simp add: recoverEntry_def sent_def)
next
  case RecoverySend
  obtain d1 b where m: "recoverySettle pid (qd_id e) failedAt err ioError f g d = (d1, b)" by fastforce
  from r m RecoverySend have "d' = d1" by (cases b) (simp_all add: recoverEntry_def)
  with recoverySettle_ok [OF ok m] RecoverySend show ?thesis by (simp add: sent_def)
qed (use ok r in \<open>simp_all add: recoverEntry_def sent_def\<close>)

text \<open>The temporary files that an operation leaves alone.\<close>

definition sparesPath :: "string \<Rightarrow> fsCommand \<Rightarrow> bool" where
  "sparesPath p c \<longleftrightarrow> (case c of
     WriteFile q _ \<Rightarrow> q \<noteq> p | RenameFile a b \<Rightarrow> a \<noteq> p \<and> b \<noteq> p | UnlinkFile q \<Rightarrow> q \<noteq> p | RenameToFailed q \<Rightarrow> q \<noteq> p)"

lemma sparesPath_simps [simp]:
  "sparesPath p (WriteFile q x) \<longleftrightarrow> q \<noteq> p" "sparesPath p (RenameFile a b) \<longleftrightarrow> a \<noteq> p \<and> b \<noteq> p"
  "sparesPath p (UnlinkFile q) \<longleftrightarrow> q \<noteq> p" "sparesPath p (RenameToFailed q) \<longleftrightarrow> q \<noteq> p"
  by (simp_all add: sparesPath_def)

lemma exec_path: "sparesPath p c \<Longrightarrow> execCommand c d = Some d' \<Longrightarrow> map_of (dq_files d') p = map_of (dq_files d) p"
  by (cases c) (auto simp: execCommand_def update_conv' delete_conv' split: option.splits)

lemma run_path: "list_all (sparesPath p) cs \<Longrightarrow> map_of (dq_files (fst (runCommands f cs d))) p = map_of (dq_files d) p"
proof (induction f cs d rule: runCommands.induct)
  case (2 torn c cs d)
  then show ?case by (cases c) (auto simp: update_conv')
next
  case (3 n torn c cs d)
  then show ?case by (auto split: option.splits dest!: exec_path)
qed simp

lemma tmp_spared:
  "map_of (dq_files (fst (runCommands f [RenameToFailed (jsonPath k)] d))) (tmpPath pid p) = map_of (dq_files d) (tmpPath pid p)"
  "map_of (dq_files (fst (runCommands f [RenameFile (jsonPath k) (deliveredPath k)] d))) (tmpPath pid p) = map_of (dq_files d) (tmpPath pid p)"
  "map_of (dq_files (fst (runCommands f [UnlinkFile (deliveredPath k)] d))) (tmpPath pid p) = map_of (dq_files d) (tmpPath pid p)"
  "k \<noteq> m \<Longrightarrow> map_of (dq_files (fst (runCommands f (replaceFile pid (jsonPath k) e) d))) (tmpPath pid (jsonPath m)) =
     map_of (dq_files d) (tmpPath pid (jsonPath m))"
  by (rule run_path, simp add: replaceFile_def)+

lemma ack_fails: "ackDelivery k f d = (d', False) \<Longrightarrow> d' = d"
  by (cases f; cases "fst f") (auto simp: ackDelivery_def execCommand_def split: if_splits prod.splits bool.splits option.splits)

lemma tmp_ack [simp]: "map_of (dq_files (fst (ackDelivery k f d))) (tmpPath pid p) = map_of (dq_files d) (tmpPath pid p)"
  using tmp_spared(2) [of f k d pid p]
  by (cases "runCommands f [RenameFile (jsonPath k) (deliveredPath k)] d"; cases "snd (runCommands f [RenameFile (jsonPath k) (deliveredPath k)] d)")
    (auto simp: ackDelivery_def tmp_spared(3))

lemma tmp_move [simp]: "map_of (dq_files (fst (moveToFailed k f d))) (tmpPath pid p) = map_of (dq_files d) (tmpPath pid p)"
  by (simp add: moveToFailed_def tmp_spared)

lemma tmp_fail: "k \<noteq> m \<or> \<not> hasEntry k d \<Longrightarrow>
    map_of (dq_files (fst (failDelivery pid k err now f d))) (tmpPath pid (jsonPath m)) = map_of (dq_files d) (tmpPath pid (jsonPath m))"
  by (cases "k = m") (auto simp: failDelivery_def hasEntry_def fileOf_def tmp_spared split: option.splits queueFile.splits)

lemma tmp_settle: "deliveryOk err heard \<or> k \<noteq> m \<or> \<not> hasEntry k d \<Longrightarrow>
    map_of (dq_files (settleDelivery pid (Some k) now err heard f d)) (tmpPath pid (jsonPath m)) = map_of (dq_files d) (tmpPath pid (jsonPath m))"
  by (auto simp: settleDelivery_def tmp_fail)

lemma tmp_settleFailed: "k \<noteq> m \<or> \<not> hasEntry k d \<or> isPermanentDeliveryError err \<Longrightarrow>
    map_of (dq_files (settleFailed pid k err now f d)) (tmpPath pid (jsonPath m)) = map_of (dq_files d) (tmpPath pid (jsonPath m))"
  by (auto simp: settleFailed_def tmp_fail)

lemma tmp_recoverySettle:
  assumes "k \<noteq> m \<or> (err = None \<and> snd (ackDelivery k f d)) \<or> isPermanentDeliveryError (recoveryError err ioError) \<or> \<not> hasEntry k d"
  shows "map_of (dq_files (fst (recoverySettle pid k now err ioError f g d))) (tmpPath pid (jsonPath m)) =
    map_of (dq_files d) (tmpPath pid (jsonPath m))"
proof (cases err)
  case None
  obtain d1 b where a: "ackDelivery k f d = (d1, b)" by fastforce
  show ?thesis
  proof (cases b)
    case True
    with a None tmp_ack [of k f d pid "jsonPath m"] show ?thesis by (simp add: recoverySettle_def)
  next
    case False
    with a have "d1 = d" using ack_fails [of k f d d1] by simp
    with a None False assms have "k \<noteq> m \<or> \<not> hasEntry k d \<or> isPermanentDeliveryError ioError" by (auto simp: recoveryError_def)
    from tmp_settleFailed [OF this] a None False \<open>d1 = d\<close> show ?thesis by (simp add: recoverySettle_def)
  qed
next
  case (Some x)
  with assms show ?thesis by (auto simp: recoverySettle_def recoveryError_def intro!: tmp_settleFailed)
qed

lemma tmp_recover:
  assumes "qd_id e \<noteq> m \<or> \<not> recoveryUpdates deadline now err ioError f e d"
    and r: "recoverEntry pid deadline now failedAt err ioError f g e (s, d) = (s', d')"
  shows "map_of (dq_files d') (tmpPath pid (jsonPath m)) = map_of (dq_files d) (tmpPath pid (jsonPath m))"
proof (cases "recoveryDecision deadline now e")
  case RecoverySkip
  with r tmp_move [of "qd_id e" f d pid "jsonPath m"] show ?thesis by (auto simp: recoverEntry_def)
next
  case RecoverySend
  obtain d1 b where m: "recoverySettle pid (qd_id e) failedAt err ioError f g d = (d1, b)" by fastforce
  from r m RecoverySend have "d' = d1" by (cases b) (simp_all add: recoverEntry_def)
  moreover have "qd_id e \<noteq> m \<or> (err = None \<and> snd (ackDelivery (qd_id e) f d)) \<or>
      isPermanentDeliveryError (recoveryError err ioError) \<or> \<not> hasEntry (qd_id e) d"
    using assms(1) RecoverySend by (auto simp: recoveryUpdates_def)
  from tmp_recoverySettle [OF this, of pid failedAt g] m have "map_of (dq_files d1) (tmpPath pid (jsonPath m)) = map_of (dq_files d) (tmpPath pid (jsonPath m))"
    by simp
  ultimately show ?thesis by simp
qed (use r in \<open>simp_all add: recoverEntry_def\<close>)

lemma tmp_loadEntry:
  assumes "jsonPath m \<noteq> name \<or> \<not> migrates name d" "loadEntry pid faults name (es, d) = (es', d')"
  shows "map_of (dq_files d') (tmpPath pid (jsonPath m)) = map_of (dq_files d) (tmpPath pid (jsonPath m))"
proof (cases "suffix ''.json'' name \<and> migrates name d")
  case False
  with assms(2) show ?thesis
    by (auto simp: loadEntry_def migrates_def split: if_splits option.splits queueFile.splits prod.splits bool.splits)
next
  case True
  then obtain k where k: "name = jsonPath k" by (auto simp: suffix_json)
  with True assms(1) have "k \<noteq> m" by auto
  from True obtain e where e: "map_of (dq_files d) name = Some (EntryFile e)" "snd (normalizeLegacyQueuedDeliveryEntry e)"
    by (auto simp: migrates_def split: option.splits queueFile.splits)
  obtain e' where n: "normalizeLegacyQueuedDeliveryEntry e = (e', True)" using e(2) by (cases "normalizeLegacyQueuedDeliveryEntry e") simp
  have "d' = fst (runCommands (faults name) (replaceFile pid name e') d)"
    using assms(2) True e n by (auto simp: loadEntry_def split: prod.splits bool.splits)
  with tmp_spared(4) [OF \<open>k \<noteq> m\<close>] k show ?thesis by simp
qed

lemma tmp_clean: "map_of (dq_files (cleanMarker faults name d)) (tmpPath pid p) = map_of (dq_files d) (tmpPath pid p)"
proof (cases "suffix ''.delivered'' name")
  case True
  then obtain k where "name = deliveredPath k" by (auto simp: suffix_def deliveredPath_def)
  with True show ?thesis by (simp add: cleanMarker_def tmp_spared)
qed (simp add: cleanMarker_def)

text \<open>The steps.\<close>

lemma keptI:
  assumes "dirsOk A G (dw_dirs w)" "keptIn w \<subseteq> A" "gone w \<subseteq> G" "dw_acked w \<subseteq> dw_used w"
    and "\<And>m. Some m \<in> set (dw_live w) \<Longrightarrow> m \<in> dw_used w"
    and "\<And>e. e \<in> set (dw_pending w) \<Longrightarrow> qd_id e \<in> dw_used w" and "\<And>e. e \<in> set (dw_loaded w) \<Longrightarrow> qd_id e \<in> dw_used w"
    and "writesOk w"
  shows "worldKept w"
  using assms dirsOk_mono [OF assms(1,2,3)] by (auto simp: worldKept_def)

lemma keptD:
  assumes "worldKept w"
  shows "dirsOk (keptIn w) (gone w) (dw_dirs w)" "dw_acked w \<subseteq> dw_used w"
    "Some m \<in> set (dw_live w) \<Longrightarrow> m \<in> dw_used w"
    "e \<in> set (dw_pending w) \<Longrightarrow> qd_id e \<in> dw_used w" "e \<in> set (dw_loaded w) \<Longrightarrow> qd_id e \<in> dw_used w" "writesOk w"
  using assms by (auto simp: worldKept_def)

lemma write_alive: "writesOk w \<Longrightarrow> writing m w \<Longrightarrow> m \<in> dw_used w \<and> m \<notin> dw_acked w"
  by (auto simp: writesOk_def writeOk_def writing_def list_ex_iff)

text \<open>A file that is there belongs to a message that is not gone.\<close>

lemma file_not_gone: "worldKept w \<Longrightarrow> fileOf m (dw_dirs w) = Some q \<Longrightarrow> m \<in> dw_used w \<and> m \<notin> dw_acked w"
  using dirsOkD(3) [OF keptD(1)] by (fastforce simp: gone_def)

lemma kept_enqueue:
  assumes k: "worldKept w" and m: "m \<notin> dw_used w" and r: "enqueueDelivery (dw_pid w) m now dp f (dw_dirs w) = (d, ok)"
  shows "worldKept (w\<lparr>dw_dirs := d, dw_live := dw_live w @ [if ok then Some m else None], dw_used := insert m (dw_used w),
    dw_params := (dw_params w)(m \<mapsto> dp), dw_accepted := markIf ok m (dw_accepted w)\<rparr>)" (is "worldKept ?w")
proof (rule keptI)
  have "dirsOk (keptIn w) (gone w - {m}) (dw_dirs w)"
    by (rule dirsOk_mono [OF keptD(1) [OF k]]) auto
  from dirsOk_replace [OF this _ _ r [unfolded enqueueDelivery_def]]
  show "dirsOk (if ok then insert m (keptIn w) else keptIn w) (gone w - {m}) (dw_dirs ?w)" by simp
  show "gone ?w \<subseteq> gone w - {m}" using m keptD(2) [OF k] by (auto simp: gone_def)
  have "tmpOf ?w k' = tmpOf w k'" if "writing k' w" for k'
  proof -
    have "m \<noteq> k'" using write_alive [OF keptD(6) [OF k] that] m by blast
    from tmp_spared(4) [OF this] r show ?thesis by (simp add: tmpOf_def writePath_def enqueueDelivery_def) (metis fst_conv)
  qed
  then show "writesOk ?w"
    using write_alive [OF keptD(6) [OF k]] by (intro writes_stay [OF keptD(6) [OF k]]) auto
qed (use keptD [OF k] m in \<open>auto simp: keptIn_def split: if_splits\<close>)

lemma kept_settle:
  assumes k: "worldKept w" and l: "dw_live w = before @ Some m # after"
    and free: "deliveryOk err heard \<or> \<not> writing m w \<or> \<not> hasEntry m (dw_dirs w)"
    and r: "settleDelivery (dw_pid w) (Some m) now err heard f (dw_dirs w) = d"
  shows "worldKept (w\<lparr>dw_dirs := d, dw_live := before @ after, dw_ended := markIf (deliveryOk err heard) m (dw_ended w),
    dw_acked := markIf (deliveryOk err heard \<and> snd (ackDelivery m f (dw_dirs w)) \<and> \<not> writing m w) m (dw_acked w)\<rparr>)" (is "worldKept ?w")
proof (rule keptI)
  show "dirsOk (if deliveryOk err heard then keptIn w - {m} else keptIn w)
      (markIf (deliveryOk err heard \<and> snd (ackDelivery m f (dw_dirs w))) m (gone w)) (dw_dirs ?w)"
    using settleDelivery_ok [OF keptD(1) [OF k] r] by simp
  have "tmpOf ?w k' = tmpOf w k'" if "writing k' w" for k'
    using tmp_settle [of err heard m k' "dw_dirs w" "dw_pid w" now f] free r that by (auto simp: tmpOf_def writePath_def)
  then show "writesOk ?w"
    using write_alive [OF keptD(6) [OF k]] by (intro writes_stay [OF keptD(6) [OF k]]) (auto simp: markIf_def)
qed (use keptD [OF k] l in \<open>auto simp: gone_def keptIn_def markIf_def split: if_splits\<close>)

lemma kept_recover:
  assumes k: "worldKept w" and l: "dw_pending w = e # rest"
    and free: "\<not> writing (qd_id e) w \<or> \<not> recoveryUpdates deadline now err ioError f e (dw_dirs w)"
    and r: "recoverEntry (dw_pid w) deadline now failedAt err ioError f g e (s, dw_dirs w) = (s', d)"
  shows "worldKept (w\<lparr>dw_dirs := d, dw_pending := (if recoveryDecision deadline now e = RecoveryStop then [] else rest),
    dw_ended := markIf (recoveryDecision deadline now e = RecoverySend \<and> err = None) (qd_id e) (dw_ended w),
    dw_acked := markIf (recoveryDecision deadline now e = RecoverySend \<and> err = None \<and>
      snd (ackDelivery (qd_id e) f (dw_dirs w)) \<and> \<not> writing (qd_id e) w) (qd_id e) (dw_acked w)\<rparr>)" (is "worldKept ?w")
proof (rule keptI)
  let ?sent = "recoveryDecision deadline now e = RecoverySend \<and> err = None"
  show "dirsOk (if ?sent then keptIn w - {qd_id e} else keptIn w)
      (markIf (?sent \<and> snd (ackDelivery (qd_id e) f (dw_dirs w))) (qd_id e) (gone w)) (dw_dirs ?w)"
    using recoverEntry_ok [OF keptD(1) [OF k] r] by simp
  have "tmpOf ?w k' = tmpOf w k'" if "writing k' w" for k'
    using tmp_recover [OF _ r, of k'] free that by (auto simp: tmpOf_def writePath_def)
  then show "writesOk ?w"
    using write_alive [OF keptD(6) [OF k]] by (intro writes_stay [OF keptD(6) [OF k]]) (auto simp: markIf_def)
qed (use keptD [OF k] l in \<open>auto simp: gone_def keptIn_def markIf_def split: if_splits\<close>)

text \<open>Steps that change neither the directories nor the updates.\<close>

lemma kept_aside:
  assumes k: "worldKept w" and live: "set live \<subseteq> set (dw_live w)"
    and ids: "\<And>e. e \<in> set pending \<union> set loaded \<Longrightarrow> qd_id e \<in> dw_used w"
  shows "worldKept (w\<lparr>dw_live := live, dw_pending := pending, dw_names := names, dw_loaded := loaded,
    dw_ended := dw_ended w \<union> extra\<rparr>)" (is "worldKept ?w")
proof (rule keptI)
  show "dirsOk (keptIn w) (gone w) (dw_dirs ?w)" using keptD(1) [OF k] by simp
  show "writesOk ?w" using write_alive [OF keptD(6) [OF k]] by (intro writes_stay [OF keptD(6) [OF k]]) (auto simp: tmpOf_def writePath_def)
qed (use keptD [OF k] live ids in \<open>auto simp: gone_def keptIn_def\<close>)

lemma kept_add:
  assumes k: "worldKept w" and e: "qd_id e \<in> dw_used w" "qd_id e \<notin> dw_acked w"
  shows "worldKept (addWrite e loading w)"
proof (rule keptI)
  show "dirsOk (keptIn w) (gone w) (dw_dirs (addWrite e loading w))" using keptD(1) [OF k] by (simp add: addWrite_def)
  show "writesOk (addWrite e loading w)" by (rule writes_add [OF keptD(6) [OF k] e])
qed (use keptD [OF k] in \<open>auto simp: addWrite_def gone_def keptIn_def markIf_def\<close>)

lemma kept_read:
  assumes k: "worldKept w" and q: "fileOf m (dw_dirs w) = Some (EntryFile e)"
  shows "qd_id e = m \<and> m \<in> dw_used w \<and> m \<notin> dw_acked w"
  using dirsOkD(1) [OF keptD(1) [OF k] q] file_not_gone [OF k q] by simp

lemma putFile_tmp [simp]: "fileOf m (putFile (tmpPath pid p) q d) = fileOf m d" "failedOf m (putFile p' q d) = failedOf m d"
  by (simp_all add: putFile_def fileOf_def failedOf_def update_conv')

lemma dirsOk_tmp: "dirsOk A G d \<Longrightarrow> dirsOk A G (putFile (tmpPath pid p) q d)"
  by (simp add: dirsOk_def kept_def)

text \<open>The temporary file of an update is opened, or closed.\<close>

lemma kept_stage:
  assumes k: "worldKept w" and l: "dw_writes w = before @ u # after"
    and q: "st \<noteq> WriteDone \<and> q = TornFile \<or> st \<noteq> WriteDue \<and> q = EntryFile (fw_entry u)"
  shows "worldKept (w\<lparr>dw_dirs := putFile (writePath w (writeOf u)) q (dw_dirs w), dw_writes := before @ u\<lparr>fw_stage := st\<rparr> # after\<rparr>)"
    (is "worldKept ?w")
proof (rule keptI)
  show "dirsOk (keptIn w) (gone w) (dw_dirs ?w)" using keptD(1) [OF k] by (simp add: writePath_def dirsOk_tmp)
  have old: "writeOk w u" using keptD(6) [OF k] l by (simp add: writesOk_def)
  have tmp: "tmpOf ?w m = (if m = writeOf u then Some q else tmpOf w m)" for m
    by (auto simp: tmpOf_def writePath_def putFile_def update_conv')
  show "writesOk ?w"
  proof (rule writes_at [OF keptD(6) [OF k] l, where us = "[u\<lparr>fw_stage := st\<rparr>]"])
    have v: "writeOf (u\<lparr>fw_stage := st\<rparr>) = writeOf u" by (simp add: writeOf_def)
    have "tmpOf ?w (writeOf u) = Some q" by (simp add: tmp)
    with old q have "writeOk ?w (u\<lparr>fw_stage := st\<rparr>)" unfolding writeOk_def v by (auto simp: writeOf_def)
    then show "\<And>v. v \<in> set [u\<lparr>fw_stage := st\<rparr>] \<Longrightarrow> writeOf v = writeOf u \<and> writeOk ?w v" using v by simp
    show "tmpOf ?w m = tmpOf w m" if "m \<noteq> writeOf u" for m using that by (simp add: tmp)
    show "tmpOf w (writeOf u) = Some x \<or> namedAfter (writeOf u) x" if "tmpOf ?w (writeOf u) = Some x" for x
      using that [unfolded tmp] q by (auto simp: writeOf_def)
  qed simp_all
qed (use keptD [OF k] in \<open>auto simp: gone_def keptIn_def\<close>)

lemma kept_rename:
  assumes k: "worldKept w" and l: "dw_writes w = before @ u # after" and st: "fw_stage u = WriteDone"
    and r: "execCommand (RenameFile (writePath w (writeOf u)) (jsonPath (writeOf u))) (dw_dirs w) = Some d"
  shows "worldKept (w\<lparr>dw_dirs := d, dw_writes := before @ after,
    dw_loaded := (if fw_loading u then dw_loaded w @ [fw_entry u] else dw_loaded w)\<rparr>)" (is "worldKept ?w")
proof (rule keptI)
  let ?m = "writeOf u"
  have old: "writeOk w u" using keptD(6) [OF k] l by (simp add: writesOk_def)
  from r obtain q where q: "tmpOf w ?m = Some q"
      "d = (dw_dirs w)\<lparr>dq_files := AList.update (jsonPath ?m) q (AList.delete (writePath w ?m) (dq_files (dw_dirs w)))\<rparr>"
    by (auto simp: execCommand_def tmpOf_def split: option.splits)
  have named: "namedAfter ?m q" and entry: "?m \<notin> dw_overlapped w \<longrightarrow> q = EntryFile (fw_entry u)"
    using old st q(1) by (auto simp: writeOk_def)
  have files: "fileOf m d = (if m = ?m then Some q else fileOf m (dw_dirs w))" "failedOf m d = failedOf m (dw_dirs w)" for m
    by (auto simp: q(2) fileOf_def failedOf_def writePath_def update_conv' delete_conv')
  show "dirsOk (keptIn w) (gone w) (dw_dirs ?w)"
  proof (rule dirsOk_at [OF keptD(1) [OF k], of ?m])
    show "kept ?m (dw_dirs ?w)" if "?m \<in> keptIn w"
      using that entry named by (auto simp: keptIn_def kept_def files)
    show "fileOf ?m (dw_dirs ?w) = None" if "?m \<in> gone w"
      using that old by (auto simp: gone_def writeOk_def)
  qed (use files named in auto)
  show "writesOk ?w"
  proof (rule writes_at [OF keptD(6) [OF k] l, where us = "[]"])
    show "tmpOf ?w m = tmpOf w m" if "m \<noteq> ?m" for m
      using that by (auto simp: tmpOf_def writePath_def q(2) update_conv' delete_conv')
    show "tmpOf w ?m = Some x \<or> namedAfter ?m x" if "tmpOf ?w ?m = Some x" for x
      using that by (auto simp: tmpOf_def writePath_def q(2) update_conv' delete_conv')
  qed simp_all
  show "qd_id e \<in> dw_used ?w" if "e \<in> set (dw_loaded ?w)" for e
    using that keptD(5) [OF k, of e] old by (auto simp: writeOk_def writeOf_def split: if_splits)
qed (use keptD [OF k] in \<open>auto simp: gone_def keptIn_def\<close>)

lemma kept_drop:
  assumes k: "worldKept w" and l: "dw_writes w = before @ u # after"
  shows "worldKept (w\<lparr>dw_writes := before @ after\<rparr>)"
proof (rule keptI)
  show "dirsOk (keptIn w) (gone w) (dw_dirs (w\<lparr>dw_writes := before @ after\<rparr>))" using keptD(1) [OF k] by simp
  show "writesOk (w\<lparr>dw_writes := before @ after\<rparr>)"
    by (rule writes_sub [OF keptD(6) [OF k], of before "[u]" after]) (use l in \<open>simp_all add: tmpOf_def writePath_def\<close>)
qed (use keptD [OF k] in \<open>auto simp: gone_def keptIn_def\<close>)

lemma kept_mix:
  assumes k: "worldKept w" and u: "u \<in> set (dw_writes w)" "writeOf u \<in> dw_overlapped w"
    and path: "path = jsonPath (writeOf u) \<or> path = writePath w (writeOf u)" and q: "q = TornFile \<or> q = EntryFile (fw_entry u)"
  shows "worldKept (w\<lparr>dw_dirs := putFile path q (dw_dirs w)\<rparr>)" (is "worldKept ?w")
proof (rule keptI)
  let ?m = "writeOf u"
  have old: "writeOk w u" using keptD(6) [OF k] u by (simp add: writesOk_def)
  have named: "namedAfter ?m q" using q by (auto simp: writeOf_def)
  show "dirsOk (keptIn w) (gone w) (dw_dirs ?w)"
  proof (rule dirsOk_at [OF keptD(1) [OF k], of ?m])
    show "namedAfter ?m x" if "fileOf ?m (dw_dirs ?w) = Some x" for x
      using that path named dirsOkD(1) [OF keptD(1) [OF k]] by (auto simp: fileOf_def putFile_def writePath_def update_conv' split: if_splits)
    show "fileOf ?m (dw_dirs ?w) = None" if "?m \<in> gone w" using that old by (auto simp: gone_def writeOk_def)
  qed (use path u in \<open>auto simp: fileOf_def failedOf_def putFile_def writePath_def update_conv' keptIn_def\<close>)
  obtain before after where l: "dw_writes w = before @ u # after" using u(1) by (meson split_list)
  have tmp: "tmpOf ?w m = (if path = writePath w m then Some q else tmpOf w m)" for m
    by (auto simp: tmpOf_def writePath_def putFile_def update_conv')
  show "writesOk ?w"
  proof (rule writes_at [OF keptD(6) [OF k] l, where us = "[u]"])
    show "dw_writes ?w = before @ [u] @ after" by (simp add: l)
    show same: "tmpOf w ?m = Some x \<or> namedAfter ?m x" if "tmpOf ?w ?m = Some x" for x
      using that named by (auto simp: tmp split: if_splits)
    then show "\<And>v. v \<in> set [u] \<Longrightarrow> writeOf v = writeOf u \<and> writeOk ?w v" using old u by (auto simp: writeOk_def)
    show "tmpOf ?w m = tmpOf w m" if "m \<noteq> ?m" for m using that path by (auto simp: tmp writePath_def)
  qed simp_all
qed (use keptD [OF k] in \<open>auto simp: gone_def keptIn_def\<close>)

lemma markIf_Un: "markIf b m S = S \<union> (if b then {m} else {})"
  by (simp add: markIf_def)

lemma loadEntry_used:
  assumes k: "worldKept w" and r: "loadEntry pid faults name (dw_loaded w, dw_dirs w) = (es, d)"
  shows "e \<in> set es \<Longrightarrow> qd_id e \<in> dw_used w"
proof -
  have "dirsOk (keptIn w) (- dw_used w) (dw_dirs w)"
    by (rule dirsOk_mono [OF keptD(1) [OF k]]) (auto simp: gone_def)
  from loadEntry_ok [OF this _ r] keptD(5) [OF k] show "e \<in> set es \<Longrightarrow> qd_id e \<in> dw_used w" by auto
qed

lemma kept_loadFile:
  assumes k: "worldKept w" and free: "\<not> migrates name (dw_dirs w) \<or> list_all (\<lambda>u. jsonPath (writeOf u) \<noteq> name) (dw_writes w)"
    and r: "loadEntry (dw_pid w) faults name (dw_loaded w, dw_dirs w) = (es, d)"
  shows "worldKept (w\<lparr>dw_dirs := d, dw_names := names, dw_loaded := es\<rparr>)" (is "worldKept ?w")
proof (rule keptI)
  have "loadEntry (dw_pid w) faults name ([], dw_dirs w) = (drop (length (dw_loaded w)) es, d)"
    using r by (auto simp: loadEntry_def split: if_splits option.splits queueFile.splits prod.splits bool.splits)
  from loadEntry_ok [OF keptD(1) [OF k] _ this] show "dirsOk (keptIn w) (gone w) (dw_dirs ?w)" by simp
  have "tmpOf ?w m = tmpOf w m" if "writing m w" for m
    using tmp_loadEntry [OF _ r, of m] free that by (auto simp: tmpOf_def writePath_def writing_def list_ex_iff list_all_iff)
  then show "writesOk ?w"
    using write_alive [OF keptD(6) [OF k]] by (intro writes_stay [OF keptD(6) [OF k]]) auto
  show "\<And>e. e \<in> set (dw_loaded ?w) \<Longrightarrow> qd_id e \<in> dw_used ?w" using loadEntry_used [OF k r] by simp
qed (use keptD [OF k] in \<open>auto simp: gone_def keptIn_def\<close>)

lemma kept_clean:
  assumes k: "worldKept w"
  shows "worldKept (w\<lparr>dw_dirs := cleanMarker faults name (dw_dirs w)\<rparr>)"
proof (rule keptI)
  show "dirsOk (keptIn w) (gone w) (dw_dirs (w\<lparr>dw_dirs := cleanMarker faults name (dw_dirs w)\<rparr>))"
    using dirsOk_clean [OF keptD(1) [OF k]] by simp
  show "writesOk (w\<lparr>dw_dirs := cleanMarker faults name (dw_dirs w)\<rparr>)"
    using write_alive [OF keptD(6) [OF k]]
    by (intro writes_stay [OF keptD(6) [OF k]]) (auto simp: tmpOf_def writePath_def tmp_clean)
qed (use keptD [OF k] in \<open>auto simp: gone_def keptIn_def\<close>)

lemma kept_crash:
  assumes k: "worldKept w"
  shows "worldKept (w\<lparr>dw_pid := pid, dw_live := [], dw_pending := [], dw_names := None, dw_loaded := [], dw_writes := []\<rparr>)"
  by (rule keptI [of "keptIn w" "gone w"]) (use keptD [OF k] in \<open>auto simp: gone_def keptIn_def writesOk_def\<close>)

lemma kept_step: "deliveryStep w w' \<Longrightarrow> worldKept w \<Longrightarrow> worldKept w'"
proof (induction rule: deliveryStep.induct)
  case (settleRead w before m after err heard e now)
  let ?w = "w\<lparr>dw_live := before @ after\<rparr>"
  have "worldKept ?w"
    using kept_aside [where w = w and live = "before @ after" and pending = "dw_pending w" and loaded = "dw_loaded w" and extra = "{}" and names = "dw_names w"] settleRead keptD(4,5) by auto
  then show ?case by (rule kept_add) (use kept_read [OF settleRead.prems settleRead.hyps(3)] in simp_all)
next
  case (settleUnqueued w before after)
  with kept_aside [where w = w and live = "before @ after" and pending = "dw_pending w" and loaded = "dw_loaded w" and extra = "{}" and names = "dw_names w"] keptD(4,5) show ?case by auto
next
  case (loadStart w)
  have "worldKept (w\<lparr>dw_live := dw_live w, dw_pending := dw_pending w, dw_names := Some (map fst (dq_files (dw_dirs w))),
      dw_loaded := [], dw_ended := dw_ended w \<union> {}\<rparr>)"
    by (rule kept_aside [OF loadStart.prems]) (use keptD(4) [OF loadStart.prems] in auto)
  then show ?case by (cases w) simp
next
  case (loadRead w name names parsed e)
  then obtain m where m: "name = jsonPath m" by (auto simp: suffix_json)
  have q: "fileOf m (dw_dirs w) = Some (EntryFile parsed)" using loadRead.hyps(4) m by (simp add: fileOf_def)
  have e: "qd_id e = qd_id parsed" using normalizeLegacy_id [of parsed] loadRead.hyps(5) by simp
  have "worldKept (w\<lparr>dw_names := Some names\<rparr>)"
    using kept_aside [where w = w and live = "dw_live w" and pending = "dw_pending w" and loaded = "dw_loaded w" and extra = "{}" and names = "Some names"] loadRead.prems keptD(4,5) by auto
  then show ?case by (rule kept_add) (use kept_read [OF loadRead.prems q] e in simp_all)
next
  case (loadSkip w name names)
  with kept_aside [where w = w and live = "dw_live w" and pending = "dw_pending w" and loaded = "dw_loaded w" and extra = "{}" and names = "Some names"] keptD(4,5) show ?case by auto
next
  case (loadEnd w)
  have "worldKept (w\<lparr>dw_live := dw_live w, dw_pending := recoveryOrder (dw_loaded w), dw_names := None, dw_loaded := [],
      dw_ended := dw_ended w \<union> {}\<rparr>)"
    by (rule kept_aside [OF loadEnd.prems]) (use keptD(5) [OF loadEnd.prems] in \<open>auto simp: recoveryOrder_def\<close>)
  then show ?case by (cases w) simp
next
  case (recoverRead w e rest deadline now errMsg err ioError e0 failedAt)
  let ?extra = "if err = None then {qd_id e} else {}"
  have "worldKept (w\<lparr>dw_live := dw_live w, dw_pending := rest, dw_names := dw_names w, dw_loaded := dw_loaded w,
      dw_ended := dw_ended w \<union> ?extra\<rparr>)"
    by (rule kept_aside [OF recoverRead.prems]) (use recoverRead.hyps(1) keptD(4,5) [OF recoverRead.prems] in auto)
  then have "worldKept (w\<lparr>dw_pending := rest, dw_ended := markIf (err = None) (qd_id e) (dw_ended w)\<rparr>)"
    by (cases w) (simp add: markIf_Un)
  then show ?case by (rule kept_add) (use kept_read [OF recoverRead.prems recoverRead.hyps(5)] in simp_all)
next
  case (writeOpens w before u after)
  then show ?case by (intro kept_stage) auto
next
  case (writeEnds w before u after)
  then show ?case by (intro kept_stage) auto
qed (blast intro: kept_enqueue kept_settle kept_loadFile kept_clean kept_recover kept_rename kept_drop kept_mix kept_crash)+

lemma kept_reach: "deliveryReach w \<Longrightarrow> worldKept w"
proof (induction rule: deliveryReach.induct)
  case start
  show ?case by (simp add: worldKept_def emptyQueue_def dirsOk_def gone_def fileOf_def keptIn_def writesOk_def)
qed (rule kept_step)

section \<open>What the entries say\<close>

text \<open>Entries are only ever copied, and updated in their counters.\<close>

definition entriesIn :: "queueDirs \<Rightarrow> queuedDelivery set" where
  "entriesIn d = {e. \<exists>p. map_of (dq_files d) p = Some (EntryFile e) \<or> map_of (dq_failed d) p = Some (EntryFile e)}"

definition written :: "fsCommand list \<Rightarrow> queuedDelivery set" where
  "written cs = {e. \<exists>p. WriteFile p (EntryFile e) \<in> set cs}"

lemma written_simps [simp]:
  "written (replaceFile pid p e) = {e}" "written [RenameFile a b] = {}" "written [UnlinkFile a] = {}" "written [RenameToFailed a] = {}"
  by (auto simp: written_def replaceFile_def)

lemma written_Cons: "written (c # cs) = (case c of WriteFile p (EntryFile e) \<Rightarrow> {e} | _ \<Rightarrow> {}) \<union> written cs"
  by (cases c) (auto simp: written_def split: queueFile.splits)

lemma entries_update: "entriesIn (d\<lparr>dq_files := AList.update p q fs\<rparr>) \<subseteq>
    (case q of EntryFile e \<Rightarrow> {e} | TornFile \<Rightarrow> {}) \<union> entriesIn (d\<lparr>dq_files := fs\<rparr>)"
  by (auto simp: entriesIn_def update_conv' split: if_splits)

lemma entries_delete: "entriesIn (d\<lparr>dq_files := AList.delete p fs\<rparr>) \<subseteq> entriesIn (d\<lparr>dq_files := fs\<rparr>)"
  by (auto simp: entriesIn_def delete_conv' split: if_splits)

lemma entries_exec:
  assumes "execCommand c d = Some d'"
  shows "entriesIn d' \<subseteq> written [c] \<union> entriesIn d"
proof (cases c)
  case (WriteFile p q)
  with assms entries_update [of p q "dq_files d" d] show ?thesis
    by (cases q) (auto simp: execCommand_def written_Cons)
next
  case (RenameFile a b)
  with assms obtain q where q: "map_of (dq_files d) a = Some q" "d' = d\<lparr>dq_files := AList.update b q (AList.delete a (dq_files d))\<rparr>"
    by (auto simp: execCommand_def split: option.splits)
  have "(case q of EntryFile e \<Rightarrow> {e} | TornFile \<Rightarrow> {}) \<subseteq> entriesIn d" using q(1) by (cases q) (auto simp: entriesIn_def)
  with entries_update [of b q "AList.delete a (dq_files d)" d] entries_delete [of a "dq_files d" d] show ?thesis
    by (simp add: q(2)) blast
next
  case (UnlinkFile a)
  with assms entries_delete [of a "dq_files d" d] show ?thesis by (auto simp: execCommand_def)
next
  case (RenameToFailed a)
  with assms obtain q where q: "map_of (dq_files d) a = Some q"
      "d' = d\<lparr>dq_files := AList.delete a (dq_files d), dq_failed := AList.update a q (dq_failed d)\<rparr>"
    by (auto simp: execCommand_def split: option.splits)
  then show ?thesis by (auto simp: entriesIn_def update_conv' delete_conv' split: if_splits)
qed

lemma entries_run: "runCommands f cs d = (d', ok) \<Longrightarrow> entriesIn d' \<subseteq> written cs \<union> entriesIn d"
proof (induction f cs d rule: runCommands.induct)
  case (2 torn c cs d)
  show ?case
  proof (cases c)
    case (WriteFile p q)
    with 2 entries_update [of p TornFile "dq_files d" d] show ?thesis by (auto split: if_splits)
  qed (use 2 in auto)
next
  case (3 n torn c cs d)
  show ?case
  proof (cases "execCommand c d")
    case (Some d1)
    with 3 have "entriesIn d' \<subseteq> written cs \<union> entriesIn d1" by simp
    moreover have "written (c # cs) = written [c] \<union> written cs" by (auto simp: written_def)
    ultimately show ?thesis using entries_exec [OF Some] by blast
  qed (use 3 in auto)
qed simp

text \<open>A predicate on entries that the updates of the counters keep.\<close>

definition told :: "(string \<Rightarrow> deliveryParams option) \<Rightarrow> queuedDelivery \<Rightarrow> bool" where
  "told ps e \<longleftrightarrow> ps (qd_id e) = Some (qd_params e)"

lemma told_simps [simp]:
  "told ps (failedEntry err now e) = told ps e"
  "told ps (fst (normalizeLegacyQueuedDeliveryEntry e)) = told ps e"
  by (simp_all add: told_def failedEntry_def normalizeLegacyQueuedDeliveryEntry_def)

definition allTold :: "(string \<Rightarrow> deliveryParams option) \<Rightarrow> queueDirs \<Rightarrow> bool" where
  "allTold ps d \<longleftrightarrow> (\<forall>e \<in> entriesIn d. told ps e)"

lemma told_run: "allTold ps d \<Longrightarrow> (\<And>e. e \<in> written cs \<Longrightarrow> told ps e) \<Longrightarrow> allTold ps (fst (runCommands f cs d))"
  using entries_run [OF prod.collapse [symmetric], of f cs d] by (auto simp: allTold_def)

lemma told_moves:
  assumes "allTold ps d"
  shows "allTold ps (fst (runCommands f [RenameToFailed p] d))" "allTold ps (fst (runCommands f [UnlinkFile p] d))"
  by (rule told_run [OF assms], simp)+

lemma told_ack: "allTold ps d \<Longrightarrow> allTold ps (fst (ackDelivery m f d))"
  using told_run [of ps d "[RenameFile (jsonPath m) (deliveredPath m)]" f]
  by (cases "runCommands f [RenameFile (jsonPath m) (deliveredPath m)] d"; cases "snd (runCommands f [RenameFile (jsonPath m) (deliveredPath m)] d)")
    (auto simp: ackDelivery_def intro!: told_run)

lemma told_file: "allTold ps d \<Longrightarrow> map_of (dq_files d) p = Some (EntryFile e) \<Longrightarrow> told ps e"
  by (auto simp: allTold_def entriesIn_def)

lemma told_fail: "allTold ps d \<Longrightarrow> allTold ps (fst (failDelivery pid m err now f d))"
  by (auto simp: failDelivery_def told_file split: option.splits queueFile.splits intro!: told_run)

lemma told_settle: "allTold ps d \<Longrightarrow> allTold ps (settleDelivery pid msgId now err heard f d)"
  by (simp add: settleDelivery_def told_ack told_fail split: option.splits)

lemma told_settleFailed: "allTold ps d \<Longrightarrow> allTold ps (settleFailed pid m err now f d)"
  by (simp add: settleFailed_def told_fail moveToFailed_def told_moves)

lemma told_recover: "allTold ps d \<Longrightarrow> allTold ps (snd (recoverEntry pid deadline now failedAt err ioError f g e (s, d)))"
  using told_ack [of ps d "qd_id e" f]
  by (cases "recoveryDecision deadline now e"; cases "ackDelivery (qd_id e) f d"; cases "snd (ackDelivery (qd_id e) f d)"; cases err)
    (simp_all add: recoverEntry_def recoverySettle_def told_settleFailed moveToFailed_def told_moves)

lemma told_loadEntry: "allTold ps d \<Longrightarrow> allTold ps (snd (loadEntry pid faults name (es, d)))"
proof (cases "map_of (dq_files d) name")
  case (Some q)
  assume all: "allTold ps d"
  show ?thesis
  proof (cases q)
    case (EntryFile e)
    obtain e' b where n: "normalizeLegacyQueuedDeliveryEntry e = (e', b)" by fastforce
    have e': "told ps e'" using told_simps(2) [of ps e] told_file [OF all] Some EntryFile n by simp
    obtain d1 c where r: "runCommands (faults name) (replaceFile pid name e') d = (d1, c)" by fastforce
    from told_run [OF all, of "replaceFile pid name e'" "faults name"] e' r have "allTold ps d1" by simp
    with all Some EntryFile n r show ?thesis by (cases b; cases c) (simp_all add: loadEntry_def)
  qed (use all Some in \<open>simp add: loadEntry_def\<close>)
qed (simp add: loadEntry_def)

lemma told_load: "allTold ps d \<Longrightarrow> allTold ps (snd (loadPendingDeliveries pid faults d))"
proof -
  have clean: "allTold ps d \<Longrightarrow> allTold ps (fold (cleanMarker faults) names d)" for names d
    by (induction names arbitrary: d) (simp_all add: cleanMarker_def told_moves)
  have loads: "allTold ps (snd st) \<Longrightarrow> allTold ps (snd (fold (loadEntry pid faults) names st))" for names st
    using told_loadEntry by (induction names arbitrary: st) (auto, metis prod.collapse)
  show "allTold ps d \<Longrightarrow> ?thesis" by (simp add: loadPendingDeliveries_def Let_def loads clean)
qed

definition worldTold :: "deliveryWorld \<Rightarrow> bool" where
  "worldTold w \<longleftrightarrow> allTold (dw_params w) (dw_dirs w) \<and> (\<forall>u \<in> set (dw_writes w). told (dw_params w) (fw_entry u)) \<and>
     dom (dw_params w) \<subseteq> dw_used w"

lemma told_later: "told ps e \<Longrightarrow> m \<notin> dom ps \<Longrightarrow> told (ps(m \<mapsto> dp)) e"
  by (auto simp: told_def)

lemma told_enqueue:
  assumes "worldTold w" "m \<notin> dw_used w"
  shows "allTold ((dw_params w)(m \<mapsto> dp)) (fst (enqueueDelivery pid m now dp f (dw_dirs w)))"
proof -
  from assms have "allTold ((dw_params w)(m \<mapsto> dp)) (dw_dirs w)"
    by (auto simp: worldTold_def allTold_def intro!: told_later)
  then show ?thesis unfolding enqueueDelivery_def by (rule told_run) (simp add: told_def)
qed

lemma told_put:
  assumes "allTold ps d" "q = TornFile \<or> (\<exists>e. q = EntryFile e \<and> told ps e)"
  shows "allTold ps (putFile p q d)"
  using assms entries_update [of p q "dq_files d" d] by (auto simp: allTold_def putFile_def)

lemma told_clean: "allTold ps d \<Longrightarrow> allTold ps (cleanMarker faults name d)"
  by (simp add: cleanMarker_def told_moves)

lemma told_add:
  "worldTold w \<Longrightarrow> told (dw_params w) e \<Longrightarrow> worldTold (addWrite e loading w)"
  by (auto simp: worldTold_def addWrite_def)

lemma told_same:
  "worldTold w \<Longrightarrow> dw_params w' = dw_params w \<Longrightarrow> dw_used w' = dw_used w \<Longrightarrow> allTold (dw_params w) (dw_dirs w') \<Longrightarrow>
     fw_entry ` set (dw_writes w') \<subseteq> fw_entry ` set (dw_writes w) \<Longrightarrow> worldTold w'"
  by (auto simp: worldTold_def subset_iff image_iff)

lemma told_dirs: "worldTold w \<Longrightarrow> allTold (dw_params w) (dw_dirs w)"
  by (simp add: worldTold_def)

lemma told_step: "deliveryStep w w' \<Longrightarrow> worldTold w \<Longrightarrow> worldTold w'"
proof (induction rule: deliveryStep.induct)
  case (enqueue m w now dp f d ok)
  from told_enqueue [OF enqueue.prems enqueue.hyps(1), of dp "dw_pid w" now f] enqueue show ?case
    by (auto simp: worldTold_def intro!: told_later)
next
  case (settle w before m after err heard now f d)
  with told_settle [OF told_dirs [OF settle.prems], of "dw_pid w" "Some m" now err heard f] show ?case
    by (intro told_same [OF settle.prems]) auto
next
  case (settleRead w before m after err heard e now)
  with told_file [OF told_dirs [OF settleRead.prems], of "jsonPath m" e] show ?case
    by (intro told_add told_same [OF settleRead.prems]) (auto simp: fileOf_def intro: told_dirs)
next
  case (loadClean w names name faults)
  then show ?case by (intro told_same [OF loadClean.prems]) (auto intro: told_clean told_dirs)
next
  case (loadFile w name names faults es d)
  with told_loadEntry [OF told_dirs [OF loadFile.prems], of "dw_pid w" faults name "dw_loaded w"] show ?case
    by (intro told_same [OF loadFile.prems]) auto
next
  case (loadRead w name names parsed e)
  from told_file [OF told_dirs [OF loadRead.prems] loadRead.hyps(4)] loadRead.hyps(5) told_simps(2) [of "dw_params w" parsed]
  have "told (dw_params w) e" by simp
  with loadRead show ?case by (intro told_add told_same [OF loadRead.prems]) (auto intro: told_dirs)
next
  case (recover w e rest deadline now err ioError f failedAt g s s' d)
  with told_recover [OF told_dirs [OF recover.prems], of "dw_pid w" deadline now failedAt err ioError f g e s] show ?case
    by (intro told_same [OF recover.prems]) auto
next
  case (recoverRead w e rest deadline now errMsg err ioError e0 failedAt)
  with told_file [OF told_dirs [OF recoverRead.prems], of "jsonPath (qd_id e)" e0] show ?case
    by (intro told_add told_same [OF recoverRead.prems]) (auto simp: fileOf_def intro: told_dirs)
next
  case (writeOpens w before u after)
  then show ?case by (intro told_same [OF writeOpens.prems]) (auto intro!: told_put intro: told_dirs)
next
  case (writeEnds w before u after)
  then have "told (dw_params w) (fw_entry u)" by (simp add: worldTold_def)
  with writeEnds show ?case by (intro told_same [OF writeEnds.prems]) (auto intro!: told_put intro: told_dirs)
next
  case (writeRenames w before u after d)
  with entries_exec [OF writeRenames.hyps(3)] told_dirs [OF writeRenames.prems] show ?case
    by (intro told_same [OF writeRenames.prems]) (auto simp: allTold_def written_def)
next
  case (writesMix u w path q)
  then have "told (dw_params w) (fw_entry u)" by (simp add: worldTold_def)
  with writesMix show ?case by (intro told_same [OF writesMix.prems]) (auto intro!: told_put intro: told_dirs)
qed (simp_all add: worldTold_def)

lemma told_reach: "deliveryReach w \<Longrightarrow> worldTold w"
proof (induction rule: deliveryReach.induct)
  case start
  show ?case by (simp add: worldTold_def emptyQueue_def allTold_def entriesIn_def)
qed (rule told_step)

text \<open>The reading of the queue, and a whole recovery, are sequences of steps.\<close>

lemma loadClean_reach:
  "deliveryReach (w\<lparr>dw_dirs := d, dw_names := Some names\<rparr>) \<Longrightarrow> set ns \<subseteq> set names \<Longrightarrow>
     deliveryReach (w\<lparr>dw_dirs := fold (cleanMarker faults) ns d, dw_names := Some names\<rparr>)"
proof (induction ns arbitrary: d)
  case (Cons n ns)
  have "deliveryReach (w\<lparr>dw_dirs := cleanMarker faults n d, dw_names := Some names\<rparr>)"
    using deliveryReach.step [OF Cons.prems(1) deliveryStep.loadClean [of _ names n faults]] Cons.prems(2) by (cases w) simp
  from Cons.IH [OF this] Cons.prems(2) show ?case by simp
qed simp

lemma loadFiles_reach:
  "deliveryReach (w\<lparr>dw_dirs := d, dw_names := Some names, dw_loaded := es\<rparr>) \<Longrightarrow> dw_writes w = [] \<Longrightarrow>
     fold (loadEntry (dw_pid w) faults) names (es, d) = (es', d') \<Longrightarrow>
     deliveryReach (w\<lparr>dw_dirs := d', dw_names := Some [], dw_loaded := es'\<rparr>)"
proof (induction names arbitrary: es d)
  case (Cons n ns)
  obtain es1 d1 where l: "loadEntry (dw_pid w) faults n (es, d) = (es1, d1)" by fastforce
  have "deliveryReach (w\<lparr>dw_dirs := d1, dw_names := Some ns, dw_loaded := es1\<rparr>)"
    using deliveryReach.step [OF Cons.prems(1) deliveryStep.loadFile [of _ n ns faults es1 d1]] Cons.prems(2) l
    by (cases w) (simp add: loadWrites_def)
  from Cons.IH [OF this Cons.prems(2)] Cons.prems(3) l show ?case by simp
qed simp

lemma load_reach:
  assumes reach: "deliveryReach w" and idle: "dw_names w = None" "dw_pending w = []" "dw_loaded w = []" "dw_writes w = []"
    and r: "loadPendingDeliveries (dw_pid w) faults (dw_dirs w) = (es, d)"
  shows "deliveryReach (w\<lparr>dw_dirs := d, dw_pending := recoveryOrder es\<rparr>)"
proof -
  let ?ns = "map fst (dq_files (dw_dirs w))"
  have "deliveryReach (w\<lparr>dw_dirs := dw_dirs w, dw_names := Some ?ns\<rparr>)"
    using deliveryReach.step [OF reach deliveryStep.loadStart [OF idle(1,2)]] idle(3) by (cases w) simp
  from loadClean_reach [OF this subset_refl, of faults]
  have "deliveryReach (w\<lparr>dw_dirs := fold (cleanMarker faults) ?ns (dw_dirs w), dw_names := Some ?ns, dw_loaded := []\<rparr>)"
    using idle(3) by (cases w) simp
  from loadFiles_reach [OF this idle(4)] r
  have "deliveryReach (w\<lparr>dw_dirs := d, dw_names := Some [], dw_loaded := es\<rparr>)"
    by (simp add: loadPendingDeliveries_def Let_def)
  from deliveryReach.step [OF this deliveryStep.loadEnd] idle show ?thesis
    by (cases w) (simp add: loadWrites_def)
qed

lemma recoverLoop_reach:
  "deliveryReach w \<Longrightarrow> dw_pending w = es \<Longrightarrow> dw_writes w = [] \<Longrightarrow> \<exists>w'. deliveryReach w' \<and> dw_pending w' = [] \<and>
     dw_live w' = dw_live w \<and> dw_dirs w' = snd (recoverLoop (dw_pid w) deadline answer es (s, dw_dirs w))"
proof (induction es arbitrary: w s)
  case (Cons e es)
  let ?a = "answer (qd_id e)"
  obtain s' d where r: "recoverWith (dw_pid w) deadline ?a e (s, dw_dirs w) = (s', d)" by fastforce
  have free: "\<not> writing (qd_id e) w" using Cons.prems(3) by (simp add: writing_def)
  note step = deliveryReach.step [OF Cons.prems(1) deliveryStep.recover [OF Cons.prems(2) disjI1 [OF free] r [unfolded recoverWith_def]]]
  show ?case
  proof (cases "recoveryDecision deadline (ra_now ?a) e = RecoveryStop")
    case True
    then have d: "d = dw_dirs w" using r by (simp add: recoverWith_def recoverEntry_def)
    show ?thesis by (rule exI, rule conjI, rule step) (use True d in simp_all)
  next
    case False
    show ?thesis using Cons.IH [OF step, of s'] False r Cons.prems(3) by simp
  qed
qed fastforce

text \<open>Every entry that was loaded is counted, unless the time ran out.\<close>

lemma recoverEntry_counts:
  assumes "recoveryDecision deadline now e \<noteq> RecoveryStop" "recoverEntry pid deadline now failedAt err ioError f g e (s, d) = (s', d')"
  shows "rs_recovered s' + rs_failed s' + rs_skippedMaxRetries s' + rs_deferredBackoff s' =
    Suc (rs_recovered s + rs_failed s + rs_skippedMaxRetries s + rs_deferredBackoff s)"
  using assms by (auto simp: recoverEntry_def split: recoveryStep.splits prod.splits bool.splits)

lemma recovery_counts:
  "(\<And>e. e \<in> set es \<Longrightarrow> ra_now (answer (qd_id e)) < deadline) \<Longrightarrow> recoverLoop pid deadline answer es (s, d) = (s', d') \<Longrightarrow>
     rs_recovered s' + rs_failed s' + rs_skippedMaxRetries s' + rs_deferredBackoff s' =
       length es + (rs_recovered s + rs_failed s + rs_skippedMaxRetries s + rs_deferredBackoff s)"
proof (induction es arbitrary: s d)
  case (Cons e es)
  obtain s1 d1 where r: "recoverWith pid deadline (answer (qd_id e)) e (s, d) = (s1, d1)" by fastforce
  have go: "recoveryDecision deadline (ra_now (answer (qd_id e))) e \<noteq> RecoveryStop"
    using Cons.prems(1) [of e] by (simp add: recoveryDecision_def)
  from recoverEntry_counts [OF go r [unfolded recoverWith_def]] Cons.IH [of s1 d1] Cons.prems r go show ?case by simp
qed simp

section \<open>No message is lost\<close>

text \<open>C12: Safety of the write-ahead queue: through deliveries and recoveries that interleave between the commands of
  their updates, operations that stop half way, writes that tear a file, and crashes, a message that was put into the
  queue is in the queue or among the failed ones, with what it was to deliver, until a delivery of it ended well, that
  is, its send was aborted or returned with no error that the caller heard of (a recovery hears only of those that
  are thrown). This is for a message of which no two updates were under way at once: they share a temporary file.\<close>

theorem delivery_never_lost:
  assumes reach: "deliveryReach w" and "m \<in> dw_accepted w" "m \<notin> dw_ended w" "m \<notin> dw_overlapped w"
  shows "\<exists>e. qd_id e = m \<and> dw_params w m = Some (qd_params e) \<and>
    (fileOf m (dw_dirs w) = Some (EntryFile e) \<or> failedOf m (dw_dirs w) = Some (EntryFile e))"
proof -
  from dirsOkD(2) [OF keptD(1) [OF kept_reach [OF reach]]] assms(2-4) have "kept m (dw_dirs w)" by (simp add: keptIn_def)
  then obtain e where e: "qd_id e = m" "fileOf m (dw_dirs w) = Some (EntryFile e) \<or> failedOf m (dw_dirs w) = Some (EntryFile e)"
    by (auto simp: kept_def)
  then have "told (dw_params w) e"
    using told_reach [OF reach] by (auto simp: worldTold_def allTold_def entriesIn_def fileOf_def failedOf_def)
  with e show ?thesis by (auto simp: told_def)
qed

text \<open>Worlds for the examples: a message is put into the queue, its delivery settles, a recovery reads the queue.\<close>

definition enqueued :: "string \<Rightarrow> int \<Rightarrow> deliveryParams \<Rightarrow> deliveryWorld \<Rightarrow> deliveryWorld" where
  "enqueued m now dp w = (case enqueueDelivery (dw_pid w) m now dp (2, False) (dw_dirs w) of (d, ok) \<Rightarrow>
     w\<lparr>dw_dirs := d, dw_live := dw_live w @ [if ok then Some m else None], dw_used := insert m (dw_used w),
       dw_params := (dw_params w)(m \<mapsto> dp), dw_accepted := markIf ok m (dw_accepted w)\<rparr>)"

definition settled :: "string \<Rightarrow> int \<Rightarrow> sendError option \<Rightarrow> fault \<Rightarrow> deliveryWorld \<Rightarrow> deliveryWorld" where
  "settled m now err f w = w\<lparr>dw_dirs := settleDelivery (dw_pid w) (Some m) now err False f (dw_dirs w), dw_live := tl (dw_live w),
     dw_ended := markIf (deliveryOk err False) m (dw_ended w),
     dw_acked := markIf (deliveryOk err False \<and> snd (ackDelivery m f (dw_dirs w)) \<and> \<not> writing m w) m (dw_acked w)\<rparr>"

definition reread :: "deliveryWorld \<Rightarrow> deliveryWorld" where
  "reread w = (case loadPendingDeliveries (dw_pid w) (\<lambda>_. (2, False)) (dw_dirs w) of (es, d) \<Rightarrow>
     w\<lparr>dw_dirs := d, dw_pending := recoveryOrder es\<rparr>)"

lemma reach_enqueued:
  assumes "deliveryReach w" "m \<notin> dw_used w"
  shows "deliveryReach (enqueued m now dp w)"
proof -
  obtain d ok where e: "enqueueDelivery (dw_pid w) m now dp (2, False) (dw_dirs w) = (d, ok)" by fastforce
  from deliveryReach.step [OF assms(1) deliveryStep.enqueue [OF assms(2) e]] show ?thesis
    by (simp only: enqueued_def e prod.case)
qed

lemma reach_settled:
  assumes "deliveryReach w" "dw_live w = [Some m]" "deliveryOk err False \<or> \<not> writing m w \<or> \<not> hasEntry m (dw_dirs w)"
  shows "deliveryReach (settled m now err f w)"
proof -
  have "dw_live w = [] @ Some m # []" by (simp add: assms(2))
  from deliveryReach.step [OF assms(1) deliveryStep.settle [OF this assms(3) refl]] assms(2)
  show ?thesis by (simp only: settled_def list.sel append_Nil)
qed

lemma reach_reread:
  "deliveryReach w \<Longrightarrow> dw_names w = None \<Longrightarrow> dw_pending w = [] \<Longrightarrow> dw_loaded w = [] \<Longrightarrow> dw_writes w = [] \<Longrightarrow> deliveryReach (reread w)"
  unfolding reread_def by (auto split: prod.split intro: load_reach)

definition helloQueued :: deliveryWorld where
  "helloQueued = enqueued ''m1'' 1000 (textDelivery ''hello'' False None) emptyQueue"

lemma helloQueued_reach: "deliveryReach helloQueued"
  unfolding helloQueued_def by (rule reach_enqueued [OF deliveryReach.start]) (simp add: emptyQueue_def)

lemma helloQueued_live: "dw_live helloQueued = [Some ''m1'']" "dw_pending helloQueued = []" "dw_names helloQueued = None"
    "dw_loaded helloQueued = []" "dw_writes helloQueued = []"
  by code_simp+

lemma helloQueued_idle: "\<not> writing m helloQueued"
  by (simp add: writing_def helloQueued_live)

text \<open>The send fails, and so does the write of that: the temporary file is torn.\<close>

theorem delivery_never_lost_witness:
  "let w = settled ''m1'' 2000 (Some (SendFailed ''offline'')) (0, True) helloQueued in
     map_of (dq_files (dw_dirs w)) ''m1.json.7.tmp'' = Some TornFile \<and>
     (\<exists>e. qd_id e = ''m1'' \<and> dw_params w ''m1'' = Some (qd_params e) \<and>
       (fileOf ''m1'' (dw_dirs w) = Some (EntryFile e) \<or> failedOf ''m1'' (dw_dirs w) = Some (EntryFile e)))"
proof -
  let ?w = "settled ''m1'' 2000 (Some (SendFailed ''offline'')) (0, True) helloQueued"
  have "deliveryReach ?w" by (rule reach_settled [OF helloQueued_reach helloQueued_live(1)]) (simp add: helloQueued_idle)
  moreover have "''m1'' \<in> dw_accepted ?w" by code_simp
  moreover have "''m1'' \<notin> dw_ended ?w" "''m1'' \<notin> dw_overlapped ?w" by code_simp+
  ultimately have "\<exists>e. qd_id e = ''m1'' \<and> dw_params ?w ''m1'' = Some (qd_params e) \<and>
      (fileOf ''m1'' (dw_dirs ?w) = Some (EntryFile e) \<or> failedOf ''m1'' (dw_dirs ?w) = Some (EntryFile e))"
    by (rule delivery_never_lost)
  moreover have "map_of (dq_files (dw_dirs ?w)) ''m1.json.7.tmp'' = Some TornFile" by code_simp
  ultimately show ?thesis unfolding Let_def by blast
qed

text \<open>C22: Safety of the acknowledgement: a message that was acknowledged, while no failure of it was being written and
  no recovery was bringing its entry up to date, is not among what any later recovery loads, whether or not its
  marker was removed.\<close>

theorem acknowledged_never_reloaded:
  assumes reach: "deliveryReach w" and "m \<in> dw_acked w"
  shows "m \<notin> qd_id ` set (fst (loadPendingDeliveries pid faults (dw_dirs w)))"
proof -
  have "\<forall>e \<in> set (fst (loadPendingDeliveries pid faults (dw_dirs w))). qd_id e \<notin> gone w"
    using queue_load_ok [OF keptD(1) [OF kept_reach [OF reach]] prod.collapse [symmetric]] by blast
  with assms(2) show ?thesis by (auto simp: gone_def)
qed

theorem acknowledged_never_reloaded_witness:
  "let w = settled ''m1'' 2000 None (1, False) helloQueued in
     map_of (dq_files (dw_dirs w)) ''m1.delivered'' \<noteq> None \<and>
     ''m1'' \<notin> qd_id ` set (fst (loadPendingDeliveries ''8'' (\<lambda>_. (0, False)) (dw_dirs w)))"
proof -
  let ?w = "settled ''m1'' 2000 None (1, False) helloQueued"
  have "deliveryReach ?w" by (rule reach_settled [OF helloQueued_reach helloQueued_live(1)]) (simp add: helloQueued_idle)
  moreover have "''m1'' \<in> dw_acked ?w" by code_simp
  ultimately have "''m1'' \<notin> qd_id ` set (fst (loadPendingDeliveries ''8'' (\<lambda>_. (0, False)) (dw_dirs ?w)))"
    by (rule acknowledged_never_reloaded)
  moreover have "map_of (dq_files (dw_dirs ?w)) ''m1.delivered'' \<noteq> None" by code_simp
  ultimately show ?thesis unfolding Let_def by blast
qed

section \<open>What recovery gets wrong\<close>

text \<open>A recovery that reads the queue while a delivery is under way sends its message too.\<close>

lemma recovery_sends_live_message:
  "deliveryReach (reread helloQueued)"
  "dw_live (reread helloQueued) = [Some ''m1'']" "map qd_id (dw_pending (reread helloQueued)) = [''m1'']"
  "list_all (\<lambda>e. recoveryDecision 61000 1000 e = RecoverySend) (dw_pending (reread helloQueued))"
  by (rule reach_reread [OF helloQueued_reach helloQueued_live(3,2,4,5)]) code_simp+

text \<open>If its own send fails then, and it has read the file before the delivery acknowledges the message, it writes
  the file again.\<close>

definition failureRead :: deliveryWorld where
  "failureRead = (let w = reread helloQueued in
     addWrite (failedEntry ''offline'' 2000 (hd (dw_pending w))) False (w\<lparr>dw_pending := [], dw_ended := dw_ended w\<rparr>))"

lemma failureRead_reach: "deliveryReach failureRead"
proof -
  let ?w = "reread helloQueued" and ?e = "hd (dw_pending (reread helloQueued))"
  have "deliveryStep ?w (addWrite (failedEntry ''offline'' 2000 ?e) False
      (?w\<lparr>dw_pending := [], dw_ended := markIf (Some (SendFailed ''offline'') = None) (qd_id ?e) (dw_ended ?w)\<rparr>))"
  proof (rule deliveryStep.recoverRead)
    show "dw_pending ?w = ?e # []" by code_simp
    show "recoveryDecision 61000 1000 ?e = RecoverySend" by code_simp
    show "''offline'' = recoveryError (Some (SendFailed ''offline'')) []" by code_simp
    show "\<not> isPermanentDeliveryError ''offline''" by code_simp
    show "fileOf (qd_id ?e) (dw_dirs ?w) = Some (EntryFile ?e)" by code_simp
  qed
  from deliveryReach.step [OF recovery_sends_live_message(1) this] show ?thesis
    by (simp add: failureRead_def Let_def)
qed

text \<open>The first update under way is opened, closed or renamed.\<close>

definition opened :: "deliveryWorld \<Rightarrow> deliveryWorld" where
  "opened w = (let u = hd (dw_writes w) in w\<lparr>dw_dirs := putFile (writePath w (writeOf u)) TornFile (dw_dirs w),
     dw_writes := u\<lparr>fw_stage := WriteOpen\<rparr> # tl (dw_writes w)\<rparr>)"

definition closed :: "deliveryWorld \<Rightarrow> deliveryWorld" where
  "closed w = (let u = hd (dw_writes w) in w\<lparr>dw_dirs := putFile (writePath w (writeOf u)) (EntryFile (fw_entry u)) (dw_dirs w),
     dw_writes := u\<lparr>fw_stage := WriteDone\<rparr> # tl (dw_writes w)\<rparr>)"

definition renamed :: "deliveryWorld \<Rightarrow> deliveryWorld" where
  "renamed w = (let u = hd (dw_writes w) in
     w\<lparr>dw_dirs := the (execCommand (RenameFile (writePath w (writeOf u)) (jsonPath (writeOf u))) (dw_dirs w)),
       dw_writes := tl (dw_writes w), dw_loaded := (if fw_loading u then dw_loaded w @ [fw_entry u] else dw_loaded w)\<rparr>)"

lemma reach_written:
  assumes "deliveryReach w" "dw_writes w = u # us"
  shows "fw_stage u = WriteDue \<Longrightarrow> deliveryReach (opened w)" "fw_stage u = WriteOpen \<Longrightarrow> deliveryReach (closed w)"
    "fw_stage u = WriteDone \<Longrightarrow> map_of (dq_files (dw_dirs w)) (writePath w (writeOf u)) \<noteq> None \<Longrightarrow> deliveryReach (renamed w)"
proof -
  have l: "dw_writes w = [] @ u # us" by (simp add: assms(2))
  show "deliveryReach (opened w)" if "fw_stage u = WriteDue"
    using deliveryReach.step [OF assms(1) deliveryStep.writeOpens [OF l that]] assms(2) by (simp add: opened_def Let_def)
  show "deliveryReach (closed w)" if "fw_stage u = WriteOpen"
    using deliveryReach.step [OF assms(1) deliveryStep.writeEnds [OF l that]] assms(2) by (simp add: closed_def Let_def)
  show "deliveryReach (renamed w)"
    if "fw_stage u = WriteDone" "map_of (dq_files (dw_dirs w)) (writePath w (writeOf u)) \<noteq> None"
  proof -
    from that(2) obtain d where "execCommand (RenameFile (writePath w (writeOf u)) (jsonPath (writeOf u))) (dw_dirs w) = Some d"
      by (auto simp: execCommand_def)
    from deliveryReach.step [OF assms(1) deliveryStep.writeRenames [OF l that(1) this]] assms(2) this show ?thesis
      by (simp add: renamed_def Let_def)
  qed
qed

definition revived :: deliveryWorld where
  "revived = renamed (closed (opened (settled ''m1'' 2000 None (2, False) failureRead)))"

lemma late_failure_revives_message:
  "deliveryReach revived" "''m1'' \<in> dw_ended revived" "dw_live revived = []" "fileOf ''m1'' (dw_dirs revived) \<noteq> None"
proof -
  let ?s = "settled ''m1'' 2000 None (2, False) failureRead"
  have us: "dw_writes w = hd (dw_writes w) # tl (dw_writes w)" if "dw_writes w \<noteq> []" for w using that by simp
  have s: "deliveryReach ?s" by (rule reach_settled [OF failureRead_reach]) (code_simp, simp add: deliveryOk_def)
  have o: "deliveryReach (opened ?s)" by (rule reach_written(1) [OF s us]) code_simp+
  have c: "deliveryReach (closed (opened ?s))" by (rule reach_written(2) [OF o us]) code_simp+
  show "deliveryReach revived" unfolding revived_def by (rule reach_written(3) [OF c us]) code_simp+
  show "''m1'' \<in> dw_ended revived" "dw_live revived = []" "fileOf ''m1'' (dw_dirs revived) \<noteq> None" by code_simp+
qed

text \<open>When the delivery fails too, both failures write the temporary file: the second opens it after the first has
  closed it and before the first renames it. What the first moves into the queue is then empty, and a crash leaves
  it so.\<close>

definition bothFail :: deliveryWorld where
  "bothFail = (let w = closed (opened failureRead) in
     addWrite (failedEntry ''offline'' 2000 (hd (dw_pending (reread helloQueued)))) False (w\<lparr>dw_live := []\<rparr>))"

definition torn :: deliveryWorld where
  "torn = (let w = bothFail; u = dw_writes w ! 0; v = dw_writes w ! 1 in
     renamed (w\<lparr>dw_dirs := putFile (writePath w (writeOf v)) TornFile (dw_dirs w), dw_writes := [u, v\<lparr>fw_stage := WriteOpen\<rparr>]\<rparr>))"

lemma two_failures_tear_entry:
  "deliveryReach torn" "''m1'' \<in> dw_accepted torn" "''m1'' \<notin> dw_ended torn" "fileOf ''m1'' (dw_dirs torn) = Some TornFile"
    "failedOf ''m1'' (dw_dirs torn) = None"
proof -
  have us: "dw_writes w = hd (dw_writes w) # tl (dw_writes w)" if "dw_writes w \<noteq> []" for w using that by simp
  have o: "deliveryReach (opened failureRead)" by (rule reach_written(1) [OF failureRead_reach us]) code_simp+
  have c: "deliveryReach (closed (opened failureRead))" by (rule reach_written(2) [OF o us]) code_simp+
  let ?w = "closed (opened failureRead)" and ?e = "hd (dw_pending (reread helloQueued))"
  have l: "dw_live ?w = [] @ Some ''m1'' # []" by code_simp
  have "deliveryReach bothFail"
  proof -
    have "settleError (Some (SendFailed ''offline'')) = ''offline''" by code_simp
    moreover have "\<not> deliveryOk (Some (SendFailed ''offline'')) False" by code_simp
    moreover have "fileOf ''m1'' (dw_dirs ?w) = Some (EntryFile ?e)" by code_simp
    ultimately show ?thesis
      using deliveryReach.step [OF c deliveryStep.settleRead [OF l, of "Some (SendFailed ''offline'')" False ?e 2000]]
      by (simp add: bothFail_def Let_def)
  qed
  moreover have b: "dw_writes bothFail = [dw_writes bothFail ! 0] @ dw_writes bothFail ! 1 # []" "fw_stage (dw_writes bothFail ! 1) = WriteDue"
    by code_simp+
  ultimately have w: "deliveryReach (bothFail\<lparr>dw_dirs := putFile (writePath bothFail (writeOf (dw_writes bothFail ! 1))) TornFile (dw_dirs bothFail),
      dw_writes := [dw_writes bothFail ! 0, (dw_writes bothFail ! 1)\<lparr>fw_stage := WriteOpen\<rparr>]\<rparr>)"
    using deliveryReach.step [OF _ deliveryStep.writeOpens [OF b]] by simp
  show "deliveryReach torn" unfolding torn_def Let_def by (rule reach_written(3) [OF w us]) code_simp+
  show "''m1'' \<in> dw_accepted torn" "''m1'' \<notin> dw_ended torn" "fileOf ''m1'' (dw_dirs torn) = Some TornFile"
    "failedOf ''m1'' (dw_dirs torn) = None" by code_simp+
qed

text \<open>A message with best effort is gone after a recovery in which every send failed: no one heard of the errors.\<close>

definition bestEffortQueued :: deliveryWorld where
  "bestEffortQueued = reread (enqueued ''m1'' 1000 (textDelivery ''hello'' True None) emptyQueue)"

lemma best_effort_recovery_loses:
  "case deliverOutboundPayloadsCore (listHost False None) (qd_params (hd (dw_pending bestEffortQueued))) quietCall (outStart []) of
     ((err, heard), out) \<Rightarrow>
       (case recoverEntry ''7'' 61000 1000 2000 err [] (2, False) (2, False) (hd (dw_pending bestEffortQueued)) (noRecoveries, dw_dirs bestEffortQueued) of
          (s, d) \<Rightarrow> os_world out = [] \<and> rs_recovered s = 1 \<and> dq_files d = [] \<and> dq_failed d = [])"
  by code_simp

text \<open>The first entry of the table is not used: after the first failure the message waits for the second.\<close>

lemma first_retry_waits_25s:
  assumes "qd_retryCount e = 0" "0 < failedAt"
  shows "remainingBackoff (failedEntry err failedAt e) now =
    (if failedAt + 25000 \<le> now then None else Some (failedAt + 25000 - now))"
  using assms by (simp add: remainingBackoff_def failedEntry_def computeBackoffMs_def BACKOFF_MS_def hasAttemptTimestamp_def js_default_def)

end
