(* ===== verification/Spec2Isabelle.thy ===== *)
theory Spec2Isabelle
  imports Send_Policy Agent_Routing Dedupe_Cache Command_Queue Followup_Queue Auth_Order Exec_Approvals Shell_Safety
    Exec_Policy Safe_Bin_Runtime Gateway_Methods Node_Invoke Tool_Hooks
    Cron_Runs Heartbeat_Wake Delivery_Queue
begin

text \<open>
  FoxClaw is a gateway for personal agents: messages arrive over channels (Slack, Telegram, a web UI),
  are routed to an agent and a session, queue up behind the runs of that session, run against a model
  provider whose credentials rotate, and may ask to execute commands, on the gateway or on a paired
  node, which a person approves; operators and nodes connect to the gateway over a web socket. What an agent
  answers is cut into messages and goes out through a queue that survives crashes; a scheduler and wakes start
  runs that no message asked for. This library models the decisions on that path; paths below are under
  \<open>src/\<close> of the repository's TypeScript package.

  How a message travels, and where each part is modelled:

  \<^item> \<open>Session_Keys\<close>, \<open>Account_Id\<close>: the names everything else is keyed by
    (\<open>routing/session-key.ts\<close>, \<open>sessions/session-key-utils.ts\<close>, \<open>routing/account-id.ts\<close>): parsing and
    building session keys, agent and account ids, with the caches in front of them.
  \<^item> \<open>Send_Policy\<close> (\<open>sessions/send-policy.ts\<close>): whether a session may send at all.
  \<^item> \<open>Agent_Routing\<close> (\<open>routing/resolve-route.ts\<close>, \<open>routing/bindings.ts\<close>): which agent answers a peer. The
    code looks bindings up in an index and caches the result; the reference is a scan of the bindings
    by tiers, and both the index and the cache are proved equal to it.
  \<^item> \<open>Dedupe_Cache\<close> (\<open>infra/dedupe.ts\<close>): a bounded, expiring set of keys that were seen.
  \<^item> \<open>Command_Queue\<close> (\<open>process/command-queue.ts\<close>): the lanes that serialise work. A step is an enqueue, a
    completion, a reset or a change of configuration; a run is any sequence of them. The state keeps,
    beside the code's own, a log of what was accepted, started and finished.
  \<^item> \<open>Queue_Helpers\<close>, \<open>Followup_Queue\<close> (\<open>utils/queue-helpers.ts\<close>, \<open>auto-reply/reply/queue/*.ts\<close>): messages
    that arrive while a session is busy. Draining is a step relation over an explicit scheduler state,
    since deliveries may fail and messages may arrive between any two of its steps.
  \<^item> \<open>Auth_Profiles\<close>, \<open>Auth_Order\<close> (\<open>agents/auth-profiles/*.ts\<close>): cooldowns of credentials after failures
    and the order in which the profiles of a provider are tried.
  \<^item> \<open>Exec_Wrapper\<close>, \<open>System_Run\<close>, \<open>Exec_Approvals\<close> (\<open>infra/exec-wrapper-resolution.ts\<close>,
    \<open>infra/system-run-*.ts\<close>, \<open>gateway/exec-approval-manager.ts\<close>,
    \<open>gateway/node-invoke-system-run-approval.ts\<close>): what a command line runs once wrappers are taken
    off, the text a person approves and the binding that is recorded with it, the life of an approval,
    and the gate that lets an approved command through.
  \<^item> \<open>Exec_Paths\<close> (\<open>infra/home-dir.ts\<close>, \<open>executable-path.ts\<close>, \<open>exec-command-resolution.ts\<close>,
    \<open>exec-allowlist-pattern.ts\<close>): which file a command executes and which patterns match it.
    \<open>Shell_Analysis\<close> (\<open>infra/exec-approvals-analysis.ts\<close>, \<open>utils/shell-argv.ts\<close>): the three scanners that
    cut a command line into chains, pipelines and arguments, and the commands rebuilt from them.
    \<open>Shell_Rebuild\<close> proves that a rebuilt command is read back as the vectors that were approved,
    \<open>Shell_Safety\<close> that nothing a shell acts on is left in an accepted pipeline.
  \<^item> \<open>Safe_Bins\<close>, \<open>Safe_Bin_Runtime\<close> (\<open>infra/exec-safe-bin-*.ts\<close>), \<open>Exec_Allowlist\<close>
    (\<open>infra/exec-approvals-allowlist.ts\<close>), \<open>Exec_Policy\<close> (\<open>infra/exec-approvals.ts\<close>,
    \<open>node-host/exec-policy.ts\<close>, \<open>node-host/invoke-system-run-allowlist.ts\<close>, the policy phase of
    \<open>node-host/invoke-system-run.ts\<close>): what runs without asking. The validator of safe binaries is
    equal to a grammar; an allowlist that is satisfied covers every segment; a node's unapproved
    run is the plan of one covered segment.
  \<^item> \<open>Net_Address\<close> (\<open>gateway/net.ts\<close>, \<open>shared/net/ip.ts\<close>), \<open>Auth_Rate_Limit\<close> (\<open>gateway/auth-rate-limit.ts\<close>),
    \<open>Gateway_Auth\<close> (\<open>gateway/auth.ts\<close>): the address a client is known by behind proxies, the limiter of failed
    attempts, and the decision on the shared secret, a proxy or a Tailscale identity.
    \<open>Device_Pairing\<close> (\<open>infra/device-pairing.ts\<close>, \<open>infra/device-bootstrap.ts\<close> and the files they rest on): the
    store of paired devices, their scopes and tokens; its history is the inductive relation \<open>pairingRun\<close>, which
    also says what was approved. \<open>Connect_Auth\<close>, \<open>Gateway_Handshake\<close> (\<open>gateway/server/ws-connection/*.ts\<close>,
    \<open>gateway/origin-check.ts\<close>, \<open>gateway/device-auth.ts\<close>): the connect request, which composes all of these into
    one function from a request and the stores to an outcome and the stores. \<open>Gateway_Methods\<close>
    (\<open>gateway/method-scopes.ts\<close>, \<open>gateway/server-methods.ts\<close>, \<open>gateway/control-plane-rate-limit.ts\<close>,
    \<open>unauthorized-flood-guard.ts\<close>): what an admitted client may call, and how often it may write to the
    control plane.
  \<^item> \<open>Node_Policy\<close>, \<open>Node_Registry\<close>, \<open>Node_Subscriptions\<close>, \<open>Node_Invoke\<close> (\<open>gateway/node-command-policy.ts\<close>,
    \<open>gateway/node-registry.ts\<close>, \<open>gateway/server-node-subscriptions.ts\<close>, \<open>gateway/server-methods/nodes.ts\<close>): which
    commands a node may be asked to run, the invocations that wait for its answer, the sessions it listens
    to, and the handler that puts the policy, the approvals and the registry together.
  \<^item> \<open>Diagnostic_Sessions\<close>, \<open>Tool_Loops\<close>, \<open>Tool_Hooks\<close> (\<open>logging/diagnostic-session-state.ts\<close>,
    \<open>agents/tool-loop-detection.ts\<close>, \<open>agents/pi-tools.before-tool-call.ts\<close>): the guard in front of every tool
    call, which blocks an agent that repeats itself.
  \<^item> \<open>Cron_Schedule\<close>, \<open>Cron_Jobs\<close>, \<open>Cron_Edits\<close>, \<open>Cron_Results\<close>, \<open>Cron_Service\<close>, \<open>Cron_Runs\<close> (\<open>cron/schedule.ts\<close>,
    \<open>cron/stagger.ts\<close>, \<open>cron/parse.ts\<close>, \<open>cron/delivery.ts\<close>, \<open>cron/service/*.ts\<close>): work that is scheduled. A
    schedule gives the instants of a job, moved by an offset of its own; a result moves the job on, with
    back-off and retries; edits change it. The service is a record of a store in memory, a file, a lock flag
    and a timer, every section under the lock is one function, and \<open>Cron_Runs\<close> interleaves them as
    steps, since a tick, a run by hand and an edit may happen between any two sections of each other. It
    assumes that no two jobs share an id and that a number given as text is a decimal integer.
  \<^item> \<open>Heartbeat_Wake\<close> (\<open>infra/heartbeat-wake.ts\<close>, \<open>infra/heartbeat-reason.ts\<close>): requests to wake an agent, which
    coalesce under one timer and are handed in batches to the handler. A request, a timer that fires, an
    answer of the handler, and a handler that registers or goes are steps; a batch that is under way keeps
    the targets that it has not called yet.
  \<^item> \<open>Text_Chunks\<close> (\<open>auto-reply/chunk.ts\<close>, \<open>shared/text-chunking.ts\<close>, \<open>markdown/fences.ts\<close>): the cutting of a reply
    into messages of a limited length. The locale \<open>text_chunker\<close> says what a cutting owes: messages within
    the limit that hold all the text. \<open>Outbound_Send\<close> (\<open>infra/outbound/deliver.ts\<close>, \<open>payloads.ts\<close>) sends the
    payloads of a reply through an adapter, and is proved for the adapters that chunk as the locale says.
    \<open>Delivery_Queue\<close> (\<open>infra/outbound/delivery-queue.ts\<close>) is the queue in front of it: an operation is a
    list of commands to a directory of which some number succeeds. Deliveries, recoveries, the reading of the
    queue file by file and crashes interleave as steps; the update of a file is taken apart into its reading,
    the opening and closing of its temporary file, and its renaming.
  \<^item> \<open>Prelude\<close>, \<open>Js_Values\<close>: strings as JavaScript has them, insertion-ordered maps as association lists,
    values of unknown type, JSON text.

  What the lemmas show. Each theory ends with the properties of its component, stated on the
  definitions that translate the code and numbered C1, C2 and so on: round trips of keys; the
  equality of optimised and cached routines with plain ones; invariants of the queues over all
  sequences of steps (nothing lost, nothing run twice, order kept, bounds of concurrency and length,
  no idle capacity while work waits); bounds of cooldown windows, and the rotation of credentials; that an approval lives as an abstract
  life cycle says, and that nothing passes the gate without one; that a rebuilt command means what was
  approved, and that what runs without approval is covered by the allowlist; that guesses at a secret are
  bounded, and that a remote device proves its key and gets no further than what was approved for it; that every invocation
  of a node is settled once; that a runaway tool call is stopped; that a scheduled job runs once at
  a time, that no slot is lost and the timer stays armed; that a wake is not lost; that the
  messages of a reply hold all its text, and that the queue loses none of them in a crash. Some lemmas
  show where the code falls short of what it means to do (\<open>device_guesses_not_limited\<close>,
  \<open>late_close_drops_live_session\<close>, \<open>running_timer_spins\<close>, \<open>best_effort_recovery_loses\<close> and others): they hold of
  the code as it is. Interfaces between components are
  locales (in \<open>Prelude\<close>, \<open>Queue_Helpers\<close> and the theories of the clients), interpreted on the model's
  own definitions by the theory that provides them.

  Conventions. A JavaScript string is a list of characters below 256; lower-casing and trimming are
  those of that range. \<open>undefined\<close> and \<open>null\<close> are told apart only
  where the code does. Times are integers of milliseconds, and the clock, random ids, hashes,
  collation order and file contents are arguments. Errors are values. Loops over indices recurse on
  the suffix that starts at the index; no model uses fuel except \<open>planLoop\<close> of \<open>Exec_Wrapper\<close>, whose
  bound is the code's own (4 wrappers) and is shown to be the only thing it adds, and
  \<open>collectAllowAlwaysPatterns\<close> of \<open>Exec_Allowlist\<close>, whose depth of 3 is the code's own as well. The host
  is a POSIX system; where the code branches on Windows for a path, that branch is left out. A home
  directory has no dollar signs, which the code's \<open>replace\<close> would expand, and no profile is named like
  a property that every JavaScript object inherits. Numbers are finite, also those of a configuration, such as the
  concurrency of a lane; values of unknown type are trees, so that their serialisation does not meet a cycle.

  Not modelled: of the gateway, how its effective settings are assembled from configuration and secret
  references (\<open>resolveGatewayAuth\<close>), the frames before a connect request and what follows it, push
  notifications that wake a node, and the other request handlers; of the commands of a node, the hardening
  of approved runs and the execution phase (\<open>node-host/invoke-system-run-plan.ts\<close>); the rest of the
  repository, in particular the model runner and its streams (\<open>agents/pi-embedded-runner\<close>), tools that drive
  a browser or search the web, the memory index, the command line, wizards and user interfaces, plugins
  and channel adapters (an adapter, the hooks of a delivery, the parser of reply directives and the
  stripping of HTML tags are arguments of \<open>Outbound_Send\<close>), and of cron the execution of a job, the session reaper, the paged listing, the run
  log and the migration of old stores. These are input and output, glue between libraries, or large enough to
  be left to a later extension; the files that carry their decisions are listed with the components of
  this library's manifest. The parsing of addresses and URLs, digital signatures and the Unicode tables
  are libraries: they are arguments of the definitions that use them.
\<close>

end
